(* ===== verification/Prelude.thy ===== *)
theory Prelude
  imports Main "HOL-Library.Word" "HOL-Library.Monad_Syntax" "HOL-Library.Multiset"
begin

text \<open>
  Shared vocabulary of the development: the machine integer types, checked access to C arrays,
  the byte order of the target (little-endian x86-64), and the lemma collections the component
  theories extend.

  Undefined behaviour is a value. A C function that reads or writes an array outside its bounds,
  or that does not return, has no result in C; its model returns \<open>None\<close>. A theorem of the form
  \<open>f x = Some y\<close> therefore says at once that the call stays inside its arrays, that it returns,
  and what it returns.
\<close>

unbundle bit_operations_syntax

section \<open>Machine integers\<close>

type_synonym u8 = "8 word"
type_synonym u16 = "16 word"
type_synonym u32 = "32 word"
type_synonym u64 = "64 word"

named_theorems mem_simps \<open>reading and writing modelled memory\<close>
named_theorems word_facts \<open>bounds and conversions of machine integers\<close>

lemma u32_bound [word_facts]: "unat (w :: u32) < 2 ^ 32"
  using unsigned_less [of w] by simp

lemma u64_bound [word_facts]: "unat (w :: u64) < 2 ^ 64"
  using unsigned_less [of w] by simp

lemma u8_bound [word_facts]: "unat (w :: u8) < 256"
  using unsigned_less [of w] by simp

lemma unat_u8_u32 [simp]: "unat (ucast (r :: u8) :: u32) = unat r"
proof -
  have "unat r < 2 ^ 8" using unsigned_less [of r] by simp
  then have "unat r < 2 ^ 32" by simp
  then show ?thesis by (simp add: unsigned_ucast_eq take_bit_nat_eq_self)
qed

section \<open>Checked array access\<close>

definition rd :: "'a list \<Rightarrow> nat \<Rightarrow> 'a option" where
  "rd xs i = (if i < length xs then Some (xs ! i) else None)"

definition wr :: "'a list \<Rightarrow> nat \<Rightarrow> 'a \<Rightarrow> 'a list option" where
  "wr xs i v = (if i < length xs then Some (xs[i := v]) else None)"

lemma rd_in [simp, mem_simps]: "i < length xs \<Longrightarrow> rd xs i = Some (xs ! i)"
  by (simp add: rd_def)

lemma wr_in [simp, mem_simps]: "i < length xs \<Longrightarrow> wr xs i v = Some (xs[i := v])"
  by (simp add: wr_def)

lemma rd_None [mem_simps]: "rd xs i = None \<longleftrightarrow> length xs \<le> i"
  by (auto simp: rd_def)

lemma wr_None [mem_simps]: "wr xs i v = None \<longleftrightarrow> length xs \<le> i"
  by (auto simp: wr_def)

lemma rd_SomeD: "rd xs i = Some v \<Longrightarrow> i < length xs \<and> v = xs ! i"
  by (auto simp: rd_def split: if_splits)

lemma wr_SomeD: "wr xs i v = Some ys \<Longrightarrow> i < length xs \<and> ys = xs[i := v]"
  by (auto simp: wr_def split: if_splits)

section \<open>Counted loops\<close>

text \<open>
  \<open>for_loop a b f s\<close> is the C loop \<open>for (i = a; i < b; i++) s = f(i, s)\<close>. The rule below is its
  loop rule, with an invariant that depends on the counter.
\<close>

definition for_loop :: "nat \<Rightarrow> nat \<Rightarrow> (nat \<Rightarrow> 's \<Rightarrow> 's) \<Rightarrow> 's \<Rightarrow> 's" where
  "for_loop a b f s = fold f [a..<b] s"

lemma for_loop_invariant:
  assumes "P a s" "a \<le> b"
    and step: "\<And>i s. a \<le> i \<Longrightarrow> i < b \<Longrightarrow> P i s \<Longrightarrow> P (Suc i) (f i s)"
  shows "P b (for_loop a b f s)"
  using assms(2) unfolding for_loop_def
proof (induction rule: dec_induct)
  case base
  show ?case using assms(1) by simp
next
  case (step i)
  then show ?case using assms(3) [of i] by simp
qed

lemma for_loop_empty [simp]: "b \<le> a \<Longrightarrow> for_loop a b f s = s"
  by (simp add: for_loop_def)

lemma for_loop_Suc: "a \<le> b \<Longrightarrow> for_loop a (Suc b) f s = f b (for_loop a b f s)"
  by (simp add: for_loop_def)

lemma for_loop_cong:
  "(\<And>i s. a \<le> i \<Longrightarrow> i < b \<Longrightarrow> f i s = g i s) \<Longrightarrow> for_loop a b f s = for_loop a b g s"
  unfolding for_loop_def by (rule fold_cong) auto

lemma for_loop_split:
  "a \<le> b \<Longrightarrow> b \<le> c \<Longrightarrow> for_loop a c f s = for_loop b c f (for_loop a b f s)"
  using upt_add_eq_append [of a b "c - b"] by (simp add: for_loop_def)

lemma for_loop_shift: "for_loop a b (\<lambda>i. f (i + k)) s = for_loop (a + k) (b + k) f s"
proof -
  have "[a + k..<b + k] = map (\<lambda>i. i + k) [a..<b]"
    by (rule nth_equalityI) simp_all
  then show ?thesis
    by (simp add: for_loop_def fold_map comp_def)
qed

lemma for_loop_copy:
  assumes "length s = length xs"
  shows "for_loop 0 (length xs) (\<lambda>i s. s[i := xs ! i]) s = xs"
proof -
  let ?P = "\<lambda>i s. length s = length xs \<and> (\<forall>j<i. s ! j = xs ! j)"
  have "?P (length xs) (for_loop 0 (length xs) (\<lambda>i s. s[i := xs ! i]) s)"
    by (rule for_loop_invariant [where P = ?P])
      (use assms in \<open>auto simp: nth_list_update less_Suc_eq\<close>)
  then show ?thesis
    by (auto intro: nth_equalityI)
qed

section \<open>Byte order\<close>

text \<open>
  The code runs on little-endian machines only: it reads and writes words through casted byte
  pointers. \<open>le32\<close> and \<open>le64\<close> are such loads, \<open>le32_bytes\<close> and \<open>le64_bytes\<close> such stores, and
  \<open>bswap32\<close>, \<open>bswap64\<close> are the compiler builtins.
\<close>

definition byte_of :: "'a::len word \<Rightarrow> nat \<Rightarrow> u8" where
  "byte_of w i = ucast (drop_bit (8 * i) w)"

definition le32 :: "u8 \<Rightarrow> u8 \<Rightarrow> u8 \<Rightarrow> u8 \<Rightarrow> u32" where
  "le32 b0 b1 b2 b3 =
     ucast b0 OR push_bit 8 (ucast b1) OR push_bit 16 (ucast b2) OR push_bit 24 (ucast b3)"

definition be32 :: "u8 \<Rightarrow> u8 \<Rightarrow> u8 \<Rightarrow> u8 \<Rightarrow> u32" where
  "be32 b0 b1 b2 b3 = le32 b3 b2 b1 b0"

definition le32_bytes :: "u32 \<Rightarrow> u8 list" where
  "le32_bytes w = [byte_of w 0, byte_of w 1, byte_of w 2, byte_of w 3]"

definition be32_bytes :: "u32 \<Rightarrow> u8 list" where
  "be32_bytes w = [byte_of w 3, byte_of w 2, byte_of w 1, byte_of w 0]"

definition bswap32 :: "u32 \<Rightarrow> u32" where
  "bswap32 w = le32 (byte_of w 3) (byte_of w 2) (byte_of w 1) (byte_of w 0)"

definition le64_bytes :: "u64 \<Rightarrow> u8 list" where
  "le64_bytes w = map (byte_of w) [0..<8]"

definition le64 :: "u8 list \<Rightarrow> u64" where
  "le64 bs = foldr (\<lambda>b acc. ucast b OR push_bit 8 acc) bs 0"

definition bswap64 :: "u64 \<Rightarrow> u64" where
  "bswap64 w = le64 (rev (le64_bytes w))"

lemma bit_byte_of [bit_simps]:
  "bit (byte_of w i) n \<longleftrightarrow> n < 8 \<and> bit w (8 * i + n)"
  by (auto simp: byte_of_def bit_simps dest: bit_imp_le_length)

lemma bit_le32 [bit_simps]:
  "bit (le32 b0 b1 b2 b3) n \<longleftrightarrow> n < 32 \<and>
     (if n < 8 then bit b0 n else if n < 16 then bit b1 (n - 8)
      else if n < 24 then bit b2 (n - 16) else bit b3 (n - 24))"
  by (auto simp: le32_def bit_simps not_less dest: bit_imp_le_length)

end
