(* ===== verification/Sha256_Spec.thy ===== *)
theory Sha256_Spec
  imports Prelude
begin

text \<open>
  The reference: SHA-256 as FIPS 180-4 defines it, over byte lists, with nothing taken from the
  implementation but the constant table, which \<open>K_fips\<close> and \<open>H0_fips\<close> tie to the standard's
  own definition (fractional parts of cube and square roots of the first primes). The
  implementation hashes eight-byte messages only, so the second half works out the message
  schedule of the one padded block such a message has; every optimised variant of the code is
  proved against these facts.
\<close>

section \<open>Functions and constants of the standard\<close>

definition Ch :: "u32 \<Rightarrow> u32 \<Rightarrow> u32 \<Rightarrow> u32" where
  "Ch x y z = (x AND y) XOR (NOT x AND z)"

definition Maj :: "u32 \<Rightarrow> u32 \<Rightarrow> u32 \<Rightarrow> u32" where
  "Maj x y z = (x AND y) XOR (x AND z) XOR (y AND z)"

definition Sigma0 :: "u32 \<Rightarrow> u32" where
  "Sigma0 x = word_rotr 2 x XOR word_rotr 13 x XOR word_rotr 22 x"

definition Sigma1 :: "u32 \<Rightarrow> u32" where
  "Sigma1 x = word_rotr 6 x XOR word_rotr 11 x XOR word_rotr 25 x"

definition sigma0 :: "u32 \<Rightarrow> u32" where
  "sigma0 x = word_rotr 7 x XOR word_rotr 18 x XOR drop_bit 3 x"

definition sigma1 :: "u32 \<Rightarrow> u32" where
  "sigma1 x = word_rotr 17 x XOR word_rotr 19 x XOR drop_bit 10 x"

definition K :: "u32 list" where
  "K = concat [
     [0x428a2f98, 0x71374491, 0xb5c0fbcf, 0xe9b5dba5],
     [0x3956c25b, 0x59f111f1, 0x923f82a4, 0xab1c5ed5],
     [0xd807aa98, 0x12835b01, 0x243185be, 0x550c7dc3],
     [0x72be5d74, 0x80deb1fe, 0x9bdc06a7, 0xc19bf174],
     [0xe49b69c1, 0xefbe4786, 0x0fc19dc6, 0x240ca1cc],
     [0x2de92c6f, 0x4a7484aa, 0x5cb0a9dc, 0x76f988da],
     [0x983e5152, 0xa831c66d, 0xb00327c8, 0xbf597fc7],
     [0xc6e00bf3, 0xd5a79147, 0x06ca6351, 0x14292967],
     [0x27b70a85, 0x2e1b2138, 0x4d2c6dfc, 0x53380d13],
     [0x650a7354, 0x766a0abb, 0x81c2c92e, 0x92722c85],
     [0xa2bfe8a1, 0xa81a664b, 0xc24b8b70, 0xc76c51a3],
     [0xd192e819, 0xd6990624, 0xf40e3585, 0x106aa070],
     [0x19a4c116, 0x1e376c08, 0x2748774c, 0x34b0bcb5],
     [0x391c0cb3, 0x4ed8aa4a, 0x5b9cca4f, 0x682e6ff3],
     [0x748f82ee, 0x78a5636f, 0x84c87814, 0x8cc70208],
     [0x90befffa, 0xa4506ceb, 0xbef9a3f7, 0xc67178f2]]"

definition H0 :: "u32 list" where
  "H0 = [0x6a09e667, 0xbb67ae85, 0x3c6ef372, 0xa54ff53a,
         0x510e527f, 0x9b05688c, 0x1f83d9ab, 0x5be0cd19]"

lemma length_K [simp]: "length K = 64"
  by (simp add: K_def)

lemma length_H0 [simp]: "length H0 = 8"
  by (simp add: H0_def)

text \<open>
  The standard takes the constants from the first 32 bits of the fractional parts of cube and
  square roots of the first primes: \<open>c\<close> is that of the \<open>r\<close>-th root of \<open>p\<close> when, with \<open>i\<close> the
  integer part of the root, \<open>2^32 * i + c\<close> is the integer \<open>r\<close>-th root of \<open>2^(32 * r) * p\<close>.
\<close>

definition primes64 :: "nat list" where
  "primes64 = [2, 3, 5, 7, 11, 13, 17, 19, 23, 29, 31, 37, 41, 43, 47, 53, 59, 61, 67, 71, 73,
     79, 83, 89, 97, 101, 103, 107, 109, 113, 127, 131, 137, 139, 149, 151, 157, 163, 167, 173,
     179, 181, 191, 193, 197, 199, 211, 223, 227, 229, 233, 239, 241, 251, 257, 263, 269, 271,
     277, 281, 283, 293, 307, 311]"

definition root_floor :: "nat \<Rightarrow> nat \<Rightarrow> nat" where
  "root_floor r p = length (filter (\<lambda>j. j ^ r \<le> p) [1, 2, 3, 4, 5, 6])"

definition is_root_frac :: "nat \<Rightarrow> nat \<Rightarrow> u32 \<Rightarrow> bool" where
  "is_root_frac r p c \<longleftrightarrow>
     (let x = 4294967296 * root_floor r p + unat c
      in x ^ r \<le> 2 ^ (32 * r) * p \<and> 2 ^ (32 * r) * p < (x + 1) ^ r)"

lemma K_fips: "list_all2 (is_root_frac 3) primes64 K"
  by (simp add: primes64_def K_def is_root_frac_def root_floor_def Let_def)

lemma H0_fips: "list_all2 (is_root_frac 2) (take 8 primes64) H0"
  by (simp add: primes64_def H0_def is_root_frac_def root_floor_def Let_def)

section \<open>Message schedule, rounds, compression\<close>

type_synonym regs = "u32 \<times> u32 \<times> u32 \<times> u32 \<times> u32 \<times> u32 \<times> u32 \<times> u32"

definition extend :: "nat \<Rightarrow> u32 list \<Rightarrow> u32 list" where
  "extend t w = w @ [sigma1 (w ! (t - 2)) + w ! (t - 7) + sigma0 (w ! (t - 15)) + w ! (t - 16)]"

definition schedule :: "u32 list \<Rightarrow> u32 list" where
  "schedule m = fold extend [16..<64] m"

fun fips_round :: "u32 \<Rightarrow> u32 \<Rightarrow> regs \<Rightarrow> regs" where
  "fips_round kt wt (a, b, c, d, e, f, g, h) =
     (let T1 = h + Sigma1 e + Ch e f g + kt + wt;
          T2 = Sigma0 a + Maj a b c
      in (T1 + T2, a, b, c, d + T1, e, f, g))"

definition rounds :: "u32 list \<Rightarrow> nat \<Rightarrow> regs \<Rightarrow> regs" where
  "rounds w n s = for_loop 0 n (\<lambda>t. fips_round (K ! t) (w ! t)) s"

definition regs_of :: "u32 list \<Rightarrow> regs" where
  "regs_of hs = (hs ! 0, hs ! 1, hs ! 2, hs ! 3, hs ! 4, hs ! 5, hs ! 6, hs ! 7)"

fun regs_list :: "regs \<Rightarrow> u32 list" where
  "regs_list (a, b, c, d, e, f, g, h) = [a, b, c, d, e, f, g, h]"

definition compress :: "u32 list \<Rightarrow> u32 list \<Rightarrow> u32 list" where
  "compress hs m = map2 (+) hs (regs_list (rounds (schedule m) 64 (regs_of hs)))"

lemma length_regs_list [simp]: "length (regs_list r) = 8"
  by (cases r rule: regs_list.cases) simp

lemma rounds_0 [simp]: "rounds w 0 s = s"
  by (simp add: rounds_def)

lemma rounds_Suc: "rounds w (Suc n) s = fips_round (K ! n) (w ! n) (rounds w n s)"
  by (simp add: rounds_def for_loop_Suc)

section \<open>Padding and the hash of a message\<close>

definition be64_bytes :: "nat \<Rightarrow> u8 list" where
  "be64_bytes n = rev (le64_bytes (of_nat n))"

definition pad :: "u8 list \<Rightarrow> u8 list" where
  "pad msg = msg @ [0x80] @ replicate ((119 - length msg mod 64) mod 64) 0
               @ be64_bytes (8 * length msg)"

fun words_be :: "u8 list \<Rightarrow> u32 list" where
  "words_be (b0 # b1 # b2 # b3 # bs) = be32 b0 b1 b2 b3 # words_be bs"
| "words_be _ = []"

function blocks :: "u32 list \<Rightarrow> u32 list list" where
  "blocks ws = (if ws = [] then [] else take 16 ws # blocks (drop 16 ws))"
  by pat_completeness auto
termination
  by (relation "measure length") auto

declare blocks.simps [simp del]

definition sha256 :: "u8 list \<Rightarrow> u8 list" where
  "sha256 msg = concat (map be32_bytes (foldl compress H0 (blocks (words_be (pad msg)))))"

section \<open>The schedule, entry by entry\<close>

lemma length_extend [simp]: "length (extend t w) = Suc (length w)"
  by (simp add: extend_def)

lemma extend_old: "i < length w \<Longrightarrow> extend t w ! i = w ! i"
  by (simp add: extend_def nth_append)

lemma extend_new:
  "length w = t \<Longrightarrow> extend t w ! t =
     sigma1 (w ! (t - 2)) + w ! (t - 7) + sigma0 (w ! (t - 15)) + w ! (t - 16)"
  by (simp add: extend_def nth_append)

lemma fold_extend_Suc:
  "fold extend [16..<16 + Suc n] m = extend (16 + n) (fold extend [16..<16 + n] m)"
  using upt_Suc_append [of 16 "16 + n"] by simp

lemma length_extend_fold: "length m = 16 \<Longrightarrow> length (fold extend [16..<16 + n] m) = 16 + n"
proof (induction n)
  case (Suc n)
  then show ?case
    unfolding fold_extend_Suc by simp
qed simp

lemma length_schedule [simp]: "length m = 16 \<Longrightarrow> length (schedule m) = 64"
  using length_extend_fold [of m 48] by (simp add: schedule_def)

lemma extend_fold_prefix:
  assumes "length m = 16" "i < 16 + n" "n \<le> n'"
  shows "fold extend [16..<16 + n'] m ! i = fold extend [16..<16 + n] m ! i"
  using assms(3)
proof (induction rule: dec_induct)
  case (step k)
  then show ?case
    unfolding fold_extend_Suc
    using assms length_extend_fold [of m k] by (simp add: extend_old)
qed simp

lemma schedule_head: "length m = 16 \<Longrightarrow> t < 16 \<Longrightarrow> schedule m ! t = m ! t"
  using extend_fold_prefix [of m t 0 48] by (simp add: schedule_def)

lemma schedule_step:
  assumes m: "length m = 16" and t: "16 \<le> t" "t < 64"
  shows "schedule m ! t = sigma1 (schedule m ! (t - 2)) + schedule m ! (t - 7)
           + sigma0 (schedule m ! (t - 15)) + schedule m ! (t - 16)"
proof -
  define w where "w = fold extend [16..<16 + (t - 16)] m"
  have len: "length w = t"
    using length_extend_fold [OF m, of "t - 16"] t by (simp add: w_def)
  have pre: "schedule m ! i = w ! i" if "i < t" for i
    using extend_fold_prefix [OF m, of i "t - 16" 48] that t by (simp add: schedule_def w_def)
  have "schedule m ! t = fold extend [16..<16 + Suc (t - 16)] m ! t"
    using extend_fold_prefix [OF m, of t "Suc (t - 16)" 48] t by (simp add: schedule_def)
  also have "\<dots> = extend t w ! t"
    using t by (simp add: w_def)
  also have "\<dots> = sigma1 (w ! (t - 2)) + w ! (t - 7) + sigma0 (w ! (t - 15)) + w ! (t - 16)"
    using len by (rule extend_new)
  finally show ?thesis
    using pre t by simp
qed

section \<open>The block of an eight-byte message\<close>

text \<open>
  Eight bytes, the bit \<open>0x80\<close>, zeros, and the length 64: the words \<open>w0\<close>, \<open>w1\<close>, a constant,
  twelve zeros and a constant. The schedule of such a block simplifies, which is what the code
  exploits; the simplified equations are collected in \<open>block8_schedule\<close>.
\<close>

definition block8 :: "u32 \<Rightarrow> u32 \<Rightarrow> u32 list" where
  "block8 w0 w1 = [w0, w1, 0x80000000, 0, 0, 0, 0, 0, 0, 0, 0, 0, 0, 0, 0, 64]"

definition W8 :: "u32 \<Rightarrow> u32 \<Rightarrow> nat \<Rightarrow> u32" where
  "W8 w0 w1 t = schedule (block8 w0 w1) ! t"

lemma length_block8 [simp]: "length (block8 w0 w1) = 16"
  by (simp add: block8_def)

lemma block8_not_Nil [simp]: "block8 w0 w1 \<noteq> []"
  by (simp add: block8_def)

lemma W8_head [simp]:
  "W8 w0 w1 0 = w0" "W8 w0 w1 (Suc 0) = w1" "W8 w0 w1 2 = 0x80000000" "W8 w0 w1 15 = 64"
  by (simp_all add: W8_def schedule_head) (simp_all add: block8_def)

lemma W8_zero: "3 \<le> t \<Longrightarrow> t < 15 \<Longrightarrow> W8 w0 w1 t = 0"
  by (simp add: W8_def schedule_head block8_def nth_Cons')

lemma W8_step:
  assumes "16 \<le> t" "t < 64"
  shows "W8 w0 w1 t = sigma1 (W8 w0 w1 (t - 2)) + W8 w0 w1 (t - 7)
           + sigma0 (W8 w0 w1 (t - 15)) + W8 w0 w1 (t - 16)"
  unfolding W8_def by (rule schedule_step) (use assms in simp_all)

lemma sigma_0 [simp]: "sigma0 0 = 0" "sigma1 0 = 0"
  by (simp_all add: sigma0_def sigma1_def)

lemma W8_simps [simp]:
  "W8 w0 w1 3 = 0" "W8 w0 w1 4 = 0" "W8 w0 w1 5 = 0" "W8 w0 w1 6 = 0" "W8 w0 w1 7 = 0"
  "W8 w0 w1 8 = 0" "W8 w0 w1 9 = 0" "W8 w0 w1 10 = 0" "W8 w0 w1 11 = 0" "W8 w0 w1 12 = 0"
  "W8 w0 w1 13 = 0" "W8 w0 w1 14 = 0"
  by (simp_all add: W8_zero)

lemma block8_schedule:
  "W8 w0 w1 16 = w0 + sigma0 w1"
  "W8 w0 w1 17 = w1 + sigma0 0x80000000 + sigma1 64"
  "W8 w0 w1 18 = 0x80000000 + sigma1 (W8 w0 w1 16)"
  "W8 w0 w1 19 = sigma1 (W8 w0 w1 17)"
  "W8 w0 w1 20 = sigma1 (W8 w0 w1 18)"
  "W8 w0 w1 21 = sigma1 (W8 w0 w1 19)"
  "W8 w0 w1 22 = 64 + sigma1 (W8 w0 w1 20)"
  "W8 w0 w1 23 = W8 w0 w1 16 + sigma1 (W8 w0 w1 21)"
  "W8 w0 w1 24 = W8 w0 w1 17 + sigma1 (W8 w0 w1 22)"
  "W8 w0 w1 25 = W8 w0 w1 18 + sigma1 (W8 w0 w1 23)"
  "W8 w0 w1 26 = W8 w0 w1 19 + sigma1 (W8 w0 w1 24)"
  "W8 w0 w1 27 = W8 w0 w1 20 + sigma1 (W8 w0 w1 25)"
  "W8 w0 w1 28 = W8 w0 w1 21 + sigma1 (W8 w0 w1 26)"
  "W8 w0 w1 29 = W8 w0 w1 22 + sigma1 (W8 w0 w1 27)"
  "W8 w0 w1 30 = sigma0 64 + W8 w0 w1 23 + sigma1 (W8 w0 w1 28)"
  "W8 w0 w1 31 = 64 + sigma0 (W8 w0 w1 16) + W8 w0 w1 24 + sigma1 (W8 w0 w1 29)"
  by (subst W8_step; simp add: ac_simps)+

definition digest8 :: "u32 \<Rightarrow> u32 \<Rightarrow> regs" where
  "digest8 w0 w1 = rounds (schedule (block8 w0 w1)) 64 (regs_of H0)"

lemma pad_8: "length msg = 8 \<Longrightarrow> pad msg = msg @ [0x80] @ replicate 47 0 @ be64_bytes 64"
  by (simp add: pad_def)

lemma be64_bytes_64: "be64_bytes 64 = [0, 0, 0, 0, 0, 0, 0, 64]"
  by (simp add: be64_bytes_def le64_bytes_def byte_of_def upt_rec)

lemma replicate_47: "replicate 47 (0 :: u8) =
  [0, 0, 0, 0, 0, 0, 0, 0, 0, 0, 0, 0, 0, 0, 0, 0, 0, 0, 0, 0, 0, 0, 0, 0,
   0, 0, 0, 0, 0, 0, 0, 0, 0, 0, 0, 0, 0, 0, 0, 0, 0, 0, 0, 0, 0, 0, 0]"
  by (simp add: numeral_eq_Suc)

lemma words_be_8:
  "words_be (pad [b0, b1, b2, b3, b4, b5, b6, b7]) = block8 (be32 b0 b1 b2 b3) (be32 b4 b5 b6 b7)"
  by (simp add: pad_8 be64_bytes_64 replicate_47 block8_def be32_def le32_def)

lemma sha256_8:
  "sha256 [b0, b1, b2, b3, b4, b5, b6, b7] =
     concat (map be32_bytes (map2 (+) H0
       (regs_list (digest8 (be32 b0 b1 b2 b3) (be32 b4 b5 b6 b7)))))"
  by (simp add: sha256_def words_be_8 digest8_def compress_def blocks.simps)

end
