(* ===== verification/Sha256_X1.thy ===== *)
theory Sha256_X1
  imports Sha256_Spec
begin

text \<open>
  The scalar hash functions of \<open>src/sha256/x1\<close>: \<open>sha256_custom\<close> (a direct transcription of the
  standard), and \<open>sha256_optim\<close>, \<open>sha256_fused\<close>, \<open>sha256_fullyfused\<close>, which exploit the fixed
  padding and interleave schedule and rounds. All four write the eight state words before the
  final addition of the initial hash value, in the machine's byte order; \<open>digest_words\<close> names that
  result. The contents of the uninitialised stack arrays are an argument (\<open>w\<close>, \<open>s\<close>) of each model:
  the theorems hold for any.
\<close>

section \<open>impl\_common.h\<close>

definition k_table :: "u32 list" where
  "k_table = concat [
     [0x428a2f98, 0x71374491, 0xb5c0fbcf, 0xe9b5dba5, 0x3956c25b, 0x59f111f1],
     [0x923f82a4, 0xab1c5ed5, 0xd807aa98, 0x12835b01, 0x243185be, 0x550c7dc3],
     [0x72be5d74, 0x80deb1fe, 0x9bdc06a7, 0xc19bf174, 0xe49b69c1, 0xefbe4786],
     [0x0fc19dc6, 0x240ca1cc, 0x2de92c6f, 0x4a7484aa, 0x5cb0a9dc, 0x76f988da],
     [0x983e5152, 0xa831c66d, 0xb00327c8, 0xbf597fc7, 0xc6e00bf3, 0xd5a79147],
     [0x06ca6351, 0x14292967, 0x27b70a85, 0x2e1b2138, 0x4d2c6dfc, 0x53380d13],
     [0x650a7354, 0x766a0abb, 0x81c2c92e, 0x92722c85, 0xa2bfe8a1, 0xa81a664b],
     [0xc24b8b70, 0xc76c51a3, 0xd192e819, 0xd6990624, 0xf40e3585, 0x106aa070],
     [0x19a4c116, 0x1e376c08, 0x2748774c, 0x34b0bcb5, 0x391c0cb3, 0x4ed8aa4a],
     [0x5b9cca4f, 0x682e6ff3, 0x748f82ee, 0x78a5636f, 0x84c87814, 0x8cc70208],
     [0x90befffa, 0xa4506ceb, 0xbef9a3f7, 0xc67178f2]]"

definition rotr :: "u32 \<Rightarrow> nat \<Rightarrow> u32" where
  "rotr x n = drop_bit n x OR push_bit (32 - n) x"

definition s0 :: "u32 \<Rightarrow> u32" where
  "s0 w = rotr w 7 XOR rotr w 18 XOR drop_bit 3 w"

definition s1 :: "u32 \<Rightarrow> u32" where
  "s1 w = rotr w 17 XOR rotr w 19 XOR drop_bit 10 w"

definition ch :: "u32 \<Rightarrow> u32 \<Rightarrow> u32 \<Rightarrow> u32" where
  "ch e f g = (e AND f) XOR (NOT e AND g)"

definition maj :: "u32 \<Rightarrow> u32 \<Rightarrow> u32 \<Rightarrow> u32" where
  "maj a b c = (a AND b) XOR (a AND c) XOR (b AND c)"

definition S0 :: "u32 \<Rightarrow> u32" where
  "S0 a = rotr a 2 XOR rotr a 13 XOR rotr a 22"

definition S1 :: "u32 \<Rightarrow> u32" where
  "S1 e = rotr e 6 XOR rotr e 11 XOR rotr e 25"

named_theorems fips_eq \<open>code functions and constants as those of the standard\<close>

lemma rotr_word_rotr: "0 < n \<Longrightarrow> n < 32 \<Longrightarrow> rotr x n = word_rotr n x"
  by (rule bit_word_eqI)
    (auto simp: rotr_def bit_simps bit_word_rotr_iff mod_if add.commute [of _ n]
      dest: bit_imp_le_length)

lemma k_table_K [fips_eq]: "k_table = K"
  by (simp add: k_table_def K_def)

lemma code_fips [fips_eq]:
  "s0 x = sigma0 x" "s1 x = sigma1 x" "S0 x = Sigma0 x" "S1 x = Sigma1 x"
  "ch x y z = Ch x y z" "maj x y z = Maj x y z"
  by (simp_all add: s0_def s1_def S0_def S1_def ch_def maj_def sigma0_def sigma1_def
      Sigma0_def Sigma1_def Ch_def Maj_def rotr_word_rotr)

section \<open>The message array while it fills\<close>

text \<open>
  \<open>sched_ok p q n w\<close>: the first \<open>n\<close> entries of the array hold the schedule of the block with data
  words \<open>p\<close>, \<open>q\<close>. Each store of the code extends it by one entry (\<open>let_sched\<close>), each load reads
  a schedule entry (\<open>sched_nth\<close>).
\<close>

definition sched_ok :: "u32 \<Rightarrow> u32 \<Rightarrow> nat \<Rightarrow> u32 list \<Rightarrow> bool" where
  "sched_ok p q n w \<longleftrightarrow> length w = 64 \<and> (\<forall>j<n. w ! j = W8 p q j)"

lemma sched_nth: "sched_ok p q n w \<Longrightarrow> j < n \<Longrightarrow> w ! j = W8 p q j"
  by (simp add: sched_ok_def)

lemma sched_0: "length w = 64 \<Longrightarrow> sched_ok p q 0 w"
  by (simp add: sched_ok_def)

lemma sched_store:
  "sched_ok p q n w \<Longrightarrow> n < 64 \<Longrightarrow> e = W8 p q n \<Longrightarrow> sched_ok p q (Suc n) (w[n := e])"
  by (auto simp: sched_ok_def nth_list_update less_Suc_eq)

lemma let_sched:
  assumes "sched_ok p q m w" "m = n" "n < 64" "e = W8 p q n"
    and "\<And>w'. sched_ok p q (Suc n) w' \<Longrightarrow> sched_ok p q N (F w')"
  shows "sched_ok p q N (Let (w[n := e]) F)"
  using assms sched_store [of p q n w e] by simp

definition memset_w :: "u32 list \<Rightarrow> u32 list" where
  "memset_w w = for_loop 3 15 (\<lambda>i w. w[i := 0]) w"

lemma sched_memset: "sched_ok p q 3 w \<Longrightarrow> sched_ok p q 15 (memset_w w)"
  unfolding memset_w_def
  by (rule for_loop_invariant [where P = "sched_ok p q"]) (auto intro: sched_store simp: W8_zero)

lemma let_memset:
  assumes "sched_ok p q m w" "m = 3" "\<And>w'. sched_ok p q 15 w' \<Longrightarrow> sched_ok p q N (F w')"
  shows "sched_ok p q N (Let (memset_w w) F)"
  using assms sched_memset by simp

section \<open>Data and digest in memory\<close>

definition load32 :: "u8 list \<Rightarrow> nat \<Rightarrow> u32" where
  "load32 d i = le32 (d ! (4 * i)) (d ! (4 * i + 1)) (d ! (4 * i + 2)) (d ! (4 * i + 3))"

definition store_digest :: "regs \<Rightarrow> u8 list" where
  "store_digest r = concat (map le32_bytes (regs_list r))"

text \<open>The two data words, big-endian on the wire, as the code loads and swaps them.\<close>

definition data_w0 :: "u8 list \<Rightarrow> u32" where
  "data_w0 data = bswap32 (load32 data 0)"

definition data_w1 :: "u8 list \<Rightarrow> u32" where
  "data_w1 data = bswap32 (load32 data 1)"

definition data_digest :: "u8 list \<Rightarrow> regs" where
  "data_digest data = digest8 (data_w0 data) (data_w1 data)"

section \<open>optim.c\<close>

text \<open>Lines 10 to 45 of \<open>optim.c\<close>, which \<open>fused.c\<close> repeats: the first 32 entries.\<close>

definition known_words :: "u32 list \<Rightarrow> u8 list \<Rightarrow> u32 list" where
  "known_words w data =
    (let w = w[0 := bswap32 (load32 data 0)];
         w = w[1 := bswap32 (load32 data 1)];
         w = w[2 := 0x80000000];
         w = memset_w w;
         w = w[15 := 64];
         w = w[16 := w ! 0 + s0 (w ! 1)];
         w = w[17 := w ! 1 + s0 0x80000000 + s1 64];
         w = w[18 := 0x80000000 + s1 (w ! 16)];
         w = w[19 := s1 (w ! 17)];
         w = w[20 := s1 (w ! 18)];
         w = w[21 := s1 (w ! 19)];
         w = w[22 := 64 + s1 (w ! 20)];
         w = w[23 := w ! 16 + s1 (w ! 21)];
         w = w[24 := w ! 17 + s1 (w ! 22)];
         w = w[25 := w ! 18 + s1 (w ! 23)];
         w = w[26 := w ! 19 + s1 (w ! 24)];
         w = w[27 := w ! 20 + s1 (w ! 25)];
         w = w[28 := w ! 21 + s1 (w ! 26)];
         w = w[29 := w ! 22 + s1 (w ! 27)];
         w = w[30 := s0 64 + w ! 23 + s1 (w ! 28)];
         w = w[31 := 64 + s0 (w ! 16) + w ! 24 + s1 (w ! 29)]
     in w)"

fun optim_round :: "u32 \<Rightarrow> u32 \<Rightarrow> regs \<Rightarrow> regs" where
  "optim_round ki wi (a, b, c, d, e, f, g, h) =
    (let S1 = rotr e 6 XOR rotr e 11 XOR rotr e 25;
         ch = (e AND f) XOR (NOT e AND g);
         temp1 = h + S1 + ch + ki + wi;
         S0 = rotr a 2 XOR rotr a 13 XOR rotr a 22;
         maj = (a AND b) XOR (a AND c) XOR (b AND c);
         temp2 = S0 + maj;
         h = g; g = f; f = e; e = d + temp1; d = c; c = b; b = a; a = temp1 + temp2
     in (a, b, c, d, e, f, g, h))"

definition init_regs :: regs where
  "init_regs = (0x6a09e667, 0xbb67ae85, 0x3c6ef372, 0xa54ff53a,
                0x510e527f, 0x9b05688c, 0x1f83d9ab, 0x5be0cd19)"

definition extend_w :: "nat \<Rightarrow> u32 list \<Rightarrow> u32 list" where
  "extend_w i w = w[i := w ! (i - 16) + s0 (w ! (i - 15)) + w ! (i - 7) + s1 (w ! (i - 2))]"

definition sha256_optim :: "u32 list \<Rightarrow> u8 list \<Rightarrow> u8 list" where
  "sha256_optim w data =
    (let w = known_words w data;
         w = for_loop 32 64 extend_w w;
         r = for_loop 0 64 (\<lambda>i. optim_round (k_table ! i) (w ! i)) init_regs
     in store_digest r)"

lemma sched_all: "sched_ok p q 64 w \<Longrightarrow> w = schedule (block8 p q)"
  by (auto simp: sched_ok_def W8_def intro: nth_equalityI)

lemma known_words_ok:
  assumes "length w = 64"
  shows "sched_ok (data_w0 data) (data_w1 data) 32 (known_words w data)"
proof -
  have numeral_32: "sched_ok p q 32 w" if "sched_ok p q (Suc 31) w" for p q w
    using that by simp
  show ?thesis
    unfolding known_words_def
    apply (rule let_sched, rule sched_0 [OF assms], simp, simp, simp add: data_w0_def)
    apply (rule let_sched, assumption, simp, simp, simp add: data_w1_def)
    apply (rule let_sched, assumption, simp, simp, simp)
    apply (rule let_memset, assumption, simp)
    apply (rule let_sched, assumption, simp, simp,
        simp add: sched_nth block8_schedule fips_eq)+
    by (rule numeral_32)
qed

lemma extend_w_ok:
  "32 \<le> i \<Longrightarrow> i < 64 \<Longrightarrow> sched_ok p q i w \<Longrightarrow> sched_ok p q (Suc i) (extend_w i w)"
  unfolding extend_w_def
  by (rule sched_store) (auto simp: sched_nth W8_step [of i] fips_eq ac_simps)

lemma optim_round_fips: "optim_round = fips_round"
proof (intro ext)
  fix ki wi r
  show "optim_round ki wi r = fips_round ki wi r"
    by (cases r rule: regs_list.cases)
      (simp add: Let_def Sigma0_def Sigma1_def Ch_def Maj_def rotr_word_rotr ac_simps)
qed

lemma init_regs_H0: "init_regs = regs_of H0"
  by (simp add: init_regs_def regs_of_def H0_def)

lemmas rounds_code = rounds_def [symmetric] k_table_K init_regs_H0 optim_round_fips

lemma sha256_optim_digest:
  assumes "length w = 64"
  shows "sha256_optim w data = store_digest (data_digest data)"
proof -
  let ?p = "data_w0 data" and ?q = "data_w1 data"
  have "sched_ok ?p ?q 64 (for_loop 32 64 extend_w (known_words w data))"
    by (rule for_loop_invariant [where P = "sched_ok ?p ?q"])
      (auto intro: known_words_ok [OF assms] extend_w_ok)
  from sched_all [OF this] show ?thesis
    by (simp add: sha256_optim_def Let_def rounds_code data_digest_def digest8_def)
qed

section \<open>fused.c\<close>

text \<open>One round of the second loop: extend the array, then compress with the new entry.\<close>

fun fused_step :: "nat \<Rightarrow> u32 list \<times> regs \<Rightarrow> u32 list \<times> regs" where
  "fused_step i (w, a, b, c, d, e, f, g, h) =
    (let w16 = w ! (i - 16);
         w15 = w ! (i - 15);
         w7 = w ! (i - 7);
         w2 = w ! (i - 2);
         S1 = rotr e 6 XOR rotr e 11 XOR rotr e 25;
         ch = (e AND f) XOR (NOT e AND g);
         w0 = w16 + s0 w15 + w7 + s1 w2;
         S0 = rotr a 2 XOR rotr a 13 XOR rotr a 22;
         maj = (a AND b) XOR (a AND c) XOR (b AND c);
         temp1 = h + S1 + ch + k_table ! i + w0;
         temp2 = S0 + maj;
         w = w[i := w0];
         h = g; g = f; f = e; e = d + temp1; d = c; c = b; b = a; a = temp1 + temp2
     in (w, a, b, c, d, e, f, g, h))"

definition sha256_fused :: "u32 list \<Rightarrow> u8 list \<Rightarrow> u8 list" where
  "sha256_fused w data =
    (let w = known_words w data;
         r = for_loop 0 32 (\<lambda>i. optim_round (k_table ! i) (w ! i)) init_regs;
         (w, r) = for_loop 32 64 fused_step (w, r)
     in store_digest r)"

text \<open>
  The invariant of every interleaved loop: the array is filled up to the counter and the state
  is that of as many rounds.
\<close>

definition fused_ok :: "u32 \<Rightarrow> u32 \<Rightarrow> nat \<Rightarrow> u32 list \<times> regs \<Rightarrow> bool" where
  "fused_ok p q n st \<longleftrightarrow> sched_ok p q n (fst st) \<and>
     snd st = rounds (schedule (block8 p q)) n (regs_of H0)"

lemma rounds_W8:
  "fips_round (K ! n) (W8 p q n) (rounds (schedule (block8 p q)) n s) =
     rounds (schedule (block8 p q)) (Suc n) s"
  by (simp add: rounds_Suc W8_def)

lemma fused_step_eq:
  "fused_step i (w, r) =
     (extend_w i w, optim_round (k_table ! i) (w ! (i - 16) + s0 (w ! (i - 15)) + w ! (i - 7)
        + s1 (w ! (i - 2))) r)"
  by (cases r rule: regs_list.cases) (simp add: extend_w_def Let_def)

lemma fused_step_ok:
  assumes "32 \<le> i" "i < 64" "fused_ok p q i st"
  shows "fused_ok p q (Suc i) (fused_step i st)"
proof -
  obtain w r where st: "st = (w, r)" by (cases st)
  have w: "sched_ok p q i w" and r: "r = rounds (schedule (block8 p q)) i (regs_of H0)"
    using assms(3) by (simp_all add: fused_ok_def st)
  have "w ! (i - 16) + s0 (w ! (i - 15)) + w ! (i - 7) + s1 (w ! (i - 2)) = W8 p q i"
    using w assms(1,2) by (simp add: sched_nth W8_step [of i] fips_eq ac_simps)
  then show ?thesis
    using extend_w_ok [OF assms(1,2) w]
    by (simp add: st fused_step_eq fused_ok_def rounds_code rounds_W8 r)
qed

lemma rounds_prefix:
  assumes "sched_ok p q n w"
  shows "rounds w n s = rounds (schedule (block8 p q)) n s"
  unfolding rounds_def
  by (rule for_loop_cong) (use assms in \<open>auto simp: sched_nth W8_def\<close>)

lemma fused_ok_digest:
  "fused_ok (data_w0 data) (data_w1 data) 64 st \<Longrightarrow> snd st = data_digest data"
  by (simp add: fused_ok_def data_digest_def digest8_def)

lemma sha256_fused_digest:
  assumes "length w = 64"
  shows "sha256_fused w data = store_digest (data_digest data)"
proof -
  let ?p = "data_w0 data" and ?q = "data_w1 data"
  let ?w = "known_words w data"
  let ?r = "for_loop 0 32 (\<lambda>i. optim_round (k_table ! i) (?w ! i)) init_regs"
  have "fused_ok ?p ?q 64 (for_loop 32 64 fused_step (?w, ?r))"
  proof (rule for_loop_invariant [where P = "fused_ok ?p ?q"])
    show "fused_ok ?p ?q 32 (?w, ?r)"
      using rounds_prefix [OF known_words_ok [OF assms, of data]]
        known_words_ok [OF assms, of data]
      by (simp add: fused_ok_def rounds_code)
  qed (auto intro: fused_step_ok)
  from fused_ok_digest [OF this] show ?thesis
    by (simp add: sha256_fused_def Let_def case_prod_beta)
qed

section \<open>fullyfused.c\<close>

text \<open>
  The source repeats one block for each round: compute the entry, compress with it, store it.
  \<open>ff_put\<close> is that block; \<open>scra0\<close> and \<open>scra1\<close> are the locals that carry the last two entries.
\<close>

fun ff_round :: "u32 \<Rightarrow> u32 \<Rightarrow> regs \<Rightarrow> regs" where
  "ff_round ki wi (a, b, c, d, e, f, g, h) =
    (let temp2 = S0 a + maj a b c;
         temp1 = h + S1 e + ch e f g + ki + wi;
         h = g; g = f; f = e; e = d + temp1; d = c; c = b; b = a; a = temp1 + temp2
     in (a, b, c, d, e, f, g, h))"

fun ff_round0 :: "u32 \<Rightarrow> regs \<Rightarrow> regs" where
  "ff_round0 ki (a, b, c, d, e, f, g, h) =
    (let temp2 = S0 a + maj a b c;
         temp1 = h + S1 e + ch e f g + ki;
         h = g; g = f; f = e; e = d + temp1; d = c; c = b; b = a; a = temp1 + temp2
     in (a, b, c, d, e, f, g, h))"

definition ff_put :: "nat \<Rightarrow> u32 \<Rightarrow> u32 list \<times> regs \<Rightarrow> u32 list \<times> regs" where
  "ff_put i wi st = ((fst st)[i := wi], ff_round (k_table ! i) wi (snd st))"

definition ff_zeros :: "u32 list \<times> regs \<Rightarrow> u32 list \<times> regs" where
  "ff_zeros st = (memset_w (fst st), for_loop 3 15 (\<lambda>i. ff_round0 (k_table ! i)) (snd st))"

definition ff_initial :: "u32 list \<Rightarrow> u8 list \<Rightarrow> u32 list \<times> regs" where
  "ff_initial w data =
    (let st = ff_put 0 (bswap32 (load32 data 0)) (w, init_regs);
         st = ff_put 1 (bswap32 (load32 data 1)) st;
         st = ff_put 2 0x80000000 st;
         st = ff_zeros st;
         st = ff_put 15 64 st
     in st)"

definition ff_16_18 :: "u32 list \<times> regs \<Rightarrow> (u32 list \<times> regs) \<times> u32 \<times> u32" where
  "ff_16_18 st =
    (let scra0 = fst st ! 0;
         scra1 = fst st ! 1;
         w16 = scra0 + s0 scra1;
         st = ff_put 16 w16 st;
         scra0 = w16;
         w17 = scra1 + s0 0x80000000 + s1 64;
         st = ff_put 17 w17 st;
         scra1 = w17;
         w18 = 0x80000000 + s1 scra0;
         st = ff_put 18 w18 st;
         scra0 = w18
     in (st, scra0, scra1))"

fun ff_19 :: "nat \<Rightarrow> (u32 list \<times> regs) \<times> u32 \<times> u32 \<Rightarrow> (u32 list \<times> regs) \<times> u32 \<times> u32" where
  "ff_19 i (st, scra0, scra1) =
    (let wi = s1 scra1 in (ff_put i wi st, wi, scra0))"

fun ff_22 :: "(u32 list \<times> regs) \<times> u32 \<times> u32 \<Rightarrow> (u32 list \<times> regs) \<times> u32 \<times> u32" where
  "ff_22 (st, scra0, scra1) =
    (let w22 = 64 + s1 scra1 in (ff_put 22 w22 st, w22, scra0))"

fun ff_23 :: "nat \<Rightarrow> (u32 list \<times> regs) \<times> u32 \<times> u32 \<Rightarrow> (u32 list \<times> regs) \<times> u32 \<times> u32" where
  "ff_23 i (st, scra0, scra1) =
    (let w7 = fst st ! (i - 7); wi = s1 scra1 + w7 in (ff_put i wi st, wi, scra0))"

fun ff_30_31 :: "(u32 list \<times> regs) \<times> u32 \<times> u32 \<Rightarrow> u32 list \<times> regs" where
  "ff_30_31 (st, scra0, scra1) =
    (let w23 = fst st ! 23;
         w30 = s0 64 + s1 scra1 + w23;
         st = ff_put 30 w30 st;
         scra1 = scra0;
         scra0 = w30;
         w16 = fst st ! 16;
         w24 = fst st ! 24;
         w31 = 64 + s1 scra1 + s0 w16 + w24
     in ff_put 31 w31 st)"

definition ff_rest :: "nat \<Rightarrow> u32 list \<times> regs \<Rightarrow> u32 list \<times> regs" where
  "ff_rest i st =
    (let w16 = fst st ! (i - 16);
         w15 = fst st ! (i - 15);
         w7 = fst st ! (i - 7);
         w2 = fst st ! (i - 2)
     in ff_put i (w16 + s0 w15 + w7 + s1 w2) st)"

definition sha256_fullyfused :: "u32 list \<Rightarrow> u8 list \<Rightarrow> u8 list" where
  "sha256_fullyfused w data =
    (let st = ff_initial w data;
         sc = ff_16_18 st;
         sc = for_loop 19 22 ff_19 sc;
         sc = ff_22 sc;
         sc = for_loop 23 30 ff_23 sc;
         st = ff_30_31 sc;
         (w, r) = for_loop 32 64 ff_rest st
     in store_digest r)"

lemma ff_round_eq: "ff_round ki wi r = fips_round ki wi r"
  by (cases r rule: regs_list.cases) (simp add: Let_def fips_eq)

lemma ff_round0_eq: "ff_round0 ki r = fips_round ki 0 r"
  by (cases r rule: regs_list.cases) (simp add: Let_def fips_eq)

lemmas ff_round_fips = ff_round_eq ff_round0_eq

lemma ff_put_ok:
  assumes "fused_ok p q m st" "m = n" "n < 64" "e = W8 p q n"
  shows "fused_ok p q (Suc n) (ff_put n e st)"
  using assms by (auto simp: fused_ok_def ff_put_def ff_round_fips k_table_K rounds_W8
      intro: sched_store)

lemma let_put:
  assumes "fused_ok p q m st" "m = n" "n < 64" "e = W8 p q n"
    and "\<And>st'. fused_ok p q (Suc n) st' \<Longrightarrow> R (F st')"
  shows "R (Let (ff_put n e st) F)"
  using assms ff_put_ok by simp

lemma fused_nth: "fused_ok p q n st \<Longrightarrow> j < n \<Longrightarrow> fst st ! j = W8 p q j"
  unfolding fused_ok_def by (blast intro: sched_nth)

lemma rounds_zeros:
  assumes "r = rounds (schedule (block8 p q)) 3 s"
  shows "for_loop 3 15 (\<lambda>i. ff_round0 (k_table ! i)) r = rounds (schedule (block8 p q)) 15 s"
proof (rule for_loop_invariant [where P = "\<lambda>i r. r = rounds (schedule (block8 p q)) i s"])
  fix i :: nat and r
  assume "3 \<le> i" "i < 15" "r = rounds (schedule (block8 p q)) i s"
  then show "ff_round0 (k_table ! i) r = rounds (schedule (block8 p q)) (Suc i) s"
    using W8_zero [of i p q] by (simp add: ff_round_fips k_table_K rounds_W8 [symmetric])
qed (use assms in simp_all)

lemma ff_zeros_ok: "fused_ok p q 3 st \<Longrightarrow> fused_ok p q 15 (ff_zeros st)"
  unfolding fused_ok_def ff_zeros_def by (simp add: sched_memset rounds_zeros)

lemma let_zeros:
  assumes "fused_ok p q m st" "m = 3" "\<And>st'. fused_ok p q 15 st' \<Longrightarrow> R (F st')"
  shows "R (Let (ff_zeros st) F)"
  using assms ff_zeros_ok by simp

lemma ff_initial_ok:
  assumes "length w = 64"
  shows "fused_ok (data_w0 data) (data_w1 data) 16 (ff_initial w data)"
proof -
  let ?ok = "fused_ok (data_w0 data) (data_w1 data)"
  have ok0: "?ok 0 (w, init_regs)"
    using assms by (simp add: fused_ok_def sched_0 init_regs_H0)
  show ?thesis
    unfolding ff_initial_def
    apply (rule let_put [where R = "?ok 16"], rule ok0, simp, simp, simp add: data_w0_def)
    apply (rule let_put [where R = "?ok 16"], assumption, simp, simp, simp add: data_w1_def)
    apply (rule let_put [where R = "?ok 16"], assumption, simp, simp, simp)
    apply (rule let_zeros [where R = "?ok 16"], assumption, simp)
    apply (rule let_put [where R = "?ok 16"], assumption, simp, simp, simp)
    by simp
qed

text \<open>The state after entry \<open>n - 1\<close> with its two scratch locals.\<close>

definition scra_ok :: "u32 \<Rightarrow> u32 \<Rightarrow> nat \<Rightarrow> (u32 list \<times> regs) \<times> u32 \<times> u32 \<Rightarrow> bool" where
  "scra_ok p q n sc \<longleftrightarrow> (case sc of (st, scra0, scra1) \<Rightarrow>
     fused_ok p q n st \<and> scra0 = W8 p q (n - 1) \<and> scra1 = W8 p q (n - 2))"

lemma scra_okI:
  "fused_ok p q n st \<Longrightarrow> a = W8 p q (n - 1) \<Longrightarrow> b = W8 p q (n - 2) \<Longrightarrow> scra_ok p q n (st, a, b)"
  by (simp add: scra_ok_def)

lemma let_val:
  assumes "\<And>x. x = e \<Longrightarrow> R (F x)"
  shows "R (Let e F)"
  using assms by simp

lemma ff_16_18_ok:
  assumes "fused_ok p q 16 st"
  shows "scra_ok p q 19 (ff_16_18 st)"
proof -
  let ?R = "scra_ok p q 19"
  have v: "fst st ! 0 = p" "fst st ! 1 = q"
    using fused_nth [OF assms, of 0] fused_nth [OF assms, of 1] by simp_all
  show ?thesis
    unfolding ff_16_18_def v
    apply (rule let_val [where R = ?R], rule let_val [where R = ?R], rule let_val [where R = ?R])
    apply (rule let_put [where R = ?R], rule assms, simp, simp,
        simp add: block8_schedule(1) fips_eq)
    apply (rule let_val [where R = ?R], rule let_val [where R = ?R])
    apply (rule let_put [where R = ?R], assumption, simp, simp,
        simp add: block8_schedule(2) fips_eq)
    apply (rule let_val [where R = ?R], rule let_val [where R = ?R])
    apply (rule let_put [where R = ?R], assumption, simp, simp,
        simp add: block8_schedule(1,3) fips_eq)
    apply (rule let_val [where R = ?R])
    apply (rule scra_okI, simp, simp add: block8_schedule(1,3) fips_eq,
        simp add: block8_schedule(2) fips_eq)
    done
qed

lemma scra_step:
  assumes "scra_ok p q n (st, a, b)" "n < 64" "e = W8 p q n"
  shows "scra_ok p q (Suc n) (ff_put n e st, e, a)"
  using assms ff_put_ok [of p q n st n e] by (simp add: scra_ok_def)

lemma scra_fused: "scra_ok p q n (st, a, b) \<Longrightarrow> fused_ok p q n st"
  by (simp add: scra_ok_def)

lemma scra_values:
  assumes "scra_ok p q n (st, a, b)"
  shows "a = W8 p q (n - 1)" "b = W8 p q (n - 2)" "j < n \<Longrightarrow> fst st ! j = W8 p q j"
  using assms by (auto simp: scra_ok_def dest: fused_nth)

lemma ff_19_ok:
  assumes "19 \<le> i" "i < 22" "scra_ok p q i sc"
  shows "scra_ok p q (Suc i) (ff_19 i sc)"
proof -
  obtain st a b where sc: "sc = (st, a, b)" by (metis surj_pair)
  have "i \<in> {19, 20, 21}" using assms by auto
  then have "s1 b = W8 p q i"
    unfolding scra_values(2) [OF assms(3) [unfolded sc]]
    by (auto simp: block8_schedule(4-6) fips_eq)
  then show ?thesis
    using scra_step [OF assms(3) [unfolded sc], of "s1 b"] assms by (simp add: sc Let_def)
qed

lemma ff_22_ok:
  assumes "scra_ok p q 22 sc"
  shows "scra_ok p q 23 (ff_22 sc)"
proof -
  obtain st a b where sc: "sc = (st, a, b)" by (metis surj_pair)
  have "64 + s1 b = W8 p q 22"
    unfolding scra_values(2) [OF assms [unfolded sc]] by (simp add: block8_schedule(7) fips_eq)
  then show ?thesis
    using scra_step [OF assms [unfolded sc], of "64 + s1 b"] by (simp add: sc Let_def)
qed

lemma ff_23_ok:
  assumes "23 \<le> i" "i < 30" "scra_ok p q i sc"
  shows "scra_ok p q (Suc i) (ff_23 i sc)"
proof -
  obtain st a b where sc: "sc = (st, a, b)" by (metis surj_pair)
  note v = scra_values [OF assms(3) [unfolded sc]]
  have "i \<in> {23, 24, 25, 26, 27, 28, 29}" using assms by auto
  then have "s1 b + fst st ! (i - 7) = W8 p q i"
    unfolding v(2) using v(3) [of "i - 7"] by (auto simp: block8_schedule(8-14) fips_eq)
  then show ?thesis
    using scra_step [OF assms(3) [unfolded sc], of "s1 b + fst st ! (i - 7)"] assms
    by (simp add: sc Let_def)
qed

lemma ff_30_31_ok:
  assumes "scra_ok p q 30 sc"
  shows "fused_ok p q 32 (ff_30_31 sc)"
proof -
  obtain st a b where sc: "sc = (st, a, b)" by (metis surj_pair)
  note ok = assms [unfolded sc]
  let ?e = "s0 64 + s1 b + fst st ! 23"
  have e: "?e = W8 p q 30"
    unfolding scra_values(2) [OF ok] scra_values(3) [OF ok, of 23, simplified]
    by (simp add: block8_schedule(15) fips_eq)
  have ok1: "scra_ok p q 31 (ff_put 30 ?e st, ?e, a)"
    using scra_step [OF ok _ e] by simp
  let ?f = "64 + s1 a + s0 (fst (ff_put 30 ?e st) ! 16) + fst (ff_put 30 ?e st) ! 24"
  have f: "?f = W8 p q 31"
    unfolding scra_values(2) [OF ok1] scra_values(3) [OF ok1, of 16, simplified]
      scra_values(3) [OF ok1, of 24, simplified]
    by (simp add: block8_schedule(16) fips_eq)
  have "scra_ok p q (Suc 31) (ff_put 31 ?f (ff_put 30 ?e st), ?f, ?e)"
    by (rule scra_step [OF ok1 _ f]) simp
  then have "fused_ok p q (Suc 31) (ff_put 31 ?f (ff_put 30 ?e st))"
    by (rule scra_fused)
  moreover have "Suc 31 = 32" by simp
  ultimately show ?thesis
    unfolding sc ff_30_31.simps Let_def by simp
qed

lemma ff_rest_ok:
  assumes "32 \<le> i" "i < 64" "fused_ok p q i st"
  shows "fused_ok p q (Suc i) (ff_rest i st)"
  unfolding ff_rest_def Let_def
  by (rule ff_put_ok [OF assms(3) refl])
    (use assms in \<open>simp_all add: fused_nth [OF assms(3)] W8_step [of i] fips_eq ac_simps\<close>)

lemma sha256_fullyfused_digest:
  assumes "length w = 64"
  shows "sha256_fullyfused w data = store_digest (data_digest data)"
proof -
  let ?p = "data_w0 data" and ?q = "data_w1 data"
  let ?a = "ff_22 (for_loop 19 22 ff_19 (ff_16_18 (ff_initial w data)))"
  let ?b = "ff_30_31 (for_loop 23 30 ff_23 ?a)"
  have "scra_ok ?p ?q 22 (for_loop 19 22 ff_19 (ff_16_18 (ff_initial w data)))"
    by (rule for_loop_invariant [where P = "scra_ok ?p ?q"])
      (auto intro: ff_19_ok ff_16_18_ok ff_initial_ok [OF assms])
  then have "scra_ok ?p ?q 23 ?a"
    by (rule ff_22_ok)
  then have "scra_ok ?p ?q 30 (for_loop 23 30 ff_23 ?a)"
    by (rule for_loop_invariant [where P = "scra_ok ?p ?q"]) (auto intro: ff_23_ok)
  then have "fused_ok ?p ?q 32 ?b"
    by (rule ff_30_31_ok)
  then have ok: "fused_ok ?p ?q 64 (for_loop 32 64 ff_rest ?b)"
    by (rule for_loop_invariant [where P = "fused_ok ?p ?q"]) (auto intro: ff_rest_ok)
  from fused_ok_digest [OF ok] show ?thesis
    by (simp add: sha256_fullyfused_def Let_def case_prod_beta)
qed

section \<open>custom.c\<close>

text \<open>The macros of the file, and the state as an array of eight words.\<close>

definition H_INIT :: "u32 list" where
  "H_INIT = [0x6a09e667, 0xbb67ae85, 0x3c6ef372, 0xa54ff53a,
             0x510e527f, 0x9b05688c, 0x1f83d9ab, 0x5be0cd19]"

definition custom_sigma0 :: "u32 \<Rightarrow> u32" where
  "custom_sigma0 x = rotr x 7 XOR rotr x 18 XOR drop_bit 3 x"

definition custom_sigma1 :: "u32 \<Rightarrow> u32" where
  "custom_sigma1 x = rotr x 17 XOR rotr x 19 XOR drop_bit 10 x"

definition custom_round :: "u32 list \<Rightarrow> nat \<Rightarrow> u32 list \<Rightarrow> u32 list" where
  "custom_round W i s =
    (let T1 = s ! 7 + (rotr (s ! 4) 6 XOR rotr (s ! 4) 11 XOR rotr (s ! 4) 25)
                + ((s ! 4 AND s ! 5) XOR (NOT (s ! 4) AND s ! 6)) + k_table ! i + W ! i;
         T2 = (rotr (s ! 0) 2 XOR rotr (s ! 0) 13 XOR rotr (s ! 0) 22)
                + ((s ! 0 AND s ! 1) XOR (s ! 0 AND s ! 2) XOR (s ! 1 AND s ! 2));
         s = s[7 := s ! 6];
         s = s[6 := s ! 5];
         s = s[5 := s ! 4];
         s = s[4 := s ! 3 + T1];
         s = s[3 := s ! 2];
         s = s[2 := s ! 1];
         s = s[1 := s ! 0];
         s = s[0 := T1 + T2]
     in s)"

definition custom_words :: "u32 list \<Rightarrow> u8 list \<Rightarrow> u32 list" where
  "custom_words W data =
    (let W = W[0 := push_bit 24 (ucast (data ! 0)) OR push_bit 16 (ucast (data ! 1))
                      OR push_bit 8 (ucast (data ! 2)) OR ucast (data ! 3)];
         W = W[1 := push_bit 24 (ucast (data ! 4)) OR push_bit 16 (ucast (data ! 5))
                      OR push_bit 8 (ucast (data ! 6)) OR ucast (data ! 7)];
         W = W[2 := 0x80000000];
         W = for_loop 3 15 (\<lambda>i W. W[i := 0]) W;
         W = W[15 := 64]
     in W)"

definition custom_extend :: "nat \<Rightarrow> u32 list \<Rightarrow> u32 list" where
  "custom_extend i W =
     W[i := custom_sigma1 (W ! (i - 2)) + W ! (i - 7) + custom_sigma0 (W ! (i - 15)) + W ! (i - 16)]"

definition sha256_custom :: "u32 list \<Rightarrow> u32 list \<Rightarrow> u8 list \<Rightarrow> u8 list" where
  "sha256_custom W s data =
    (let s = for_loop 0 8 (\<lambda>i s. s[i := H_INIT ! i]) s;
         W = custom_words W data;
         W = for_loop 16 64 custom_extend W;
         s = for_loop 0 64 (custom_round W) s
     in concat (map le32_bytes s))"

lemma custom_data_words:
  "push_bit 24 (ucast b0) OR push_bit 16 (ucast b1) OR push_bit 8 (ucast b2) OR ucast b3 =
     be32 b0 b1 b2 b3"
  by (simp add: be32_def le32_def ac_simps)

lemma bswap32_load: "bswap32 (le32 b0 b1 b2 b3) = be32 b0 b1 b2 b3"
  by (rule bit_word_eqI) (auto simp: bswap32_def be32_def bit_simps)

lemma custom_round_fips:
  "custom_round W i (regs_list r) = regs_list (fips_round (k_table ! i) (W ! i) r)"
  by (cases r rule: regs_list.cases)
    (simp add: custom_round_def Let_def Sigma0_def Sigma1_def Ch_def Maj_def rotr_word_rotr
      numeral_eq_Suc)

lemma custom_words_ok:
  assumes "length W = 64"
  shows "sched_ok (data_w0 data) (data_w1 data) 16 (custom_words W data)"
proof -
  have numeral_16: "sched_ok p q 16 w" if "sched_ok p q (Suc 15) w" for p q w
    using that by simp
  have d: "be32 (data ! 0) (data ! 1) (data ! 2) (data ! 3) = data_w0 data"
    "be32 (data ! 4) (data ! 5) (data ! 6) (data ! 7) = data_w1 data"
    by (simp_all add: data_w0_def data_w1_def load32_def bswap32_load numeral_2_eq_2)
  show ?thesis
    unfolding custom_words_def memset_w_def [symmetric] custom_data_words d
    apply (rule let_sched, rule sched_0 [OF assms], simp, simp, simp)
    apply (rule let_sched, assumption, simp, simp, simp)
    apply (rule let_sched, assumption, simp, simp, simp)
    apply (rule let_memset, assumption, simp)
    apply (rule let_sched, assumption, simp, simp, simp)
    by (rule numeral_16)
qed

lemma custom_extend_ok:
  "16 \<le> i \<Longrightarrow> i < 64 \<Longrightarrow> sched_ok p q i w \<Longrightarrow> sched_ok p q (Suc i) (custom_extend i w)"
  unfolding custom_extend_def
  by (rule sched_store)
    (auto simp: sched_nth W8_step [of i] custom_sigma0_def custom_sigma1_def sigma0_def
      sigma1_def rotr_word_rotr)

lemma H_INIT_H0: "H_INIT = H0"
  by (simp add: H_INIT_def H0_def)

lemma H_INIT_copy: "length s = 8 \<Longrightarrow> for_loop 0 8 (\<lambda>i s. s[i := H_INIT ! i]) s = H0"
  unfolding H_INIT_H0 using for_loop_copy [of s H0] by simp

lemma sha256_custom_digest:
  assumes "length W = 64" "length s = 8"
  shows "sha256_custom W s data = store_digest (data_digest data)"
proof -
  let ?p = "data_w0 data" and ?q = "data_w1 data"
  let ?W = "for_loop 16 64 custom_extend (custom_words W data)"
  have "sched_ok ?p ?q 64 ?W"
    by (rule for_loop_invariant [where P = "sched_ok ?p ?q"])
      (auto intro: custom_words_ok [OF assms(1)] custom_extend_ok)
  then have W: "?W = schedule (block8 ?p ?q)"
    by (rule sched_all)
  have "for_loop 0 64 (custom_round ?W) (regs_list (regs_of H0)) =
      regs_list (rounds ?W 64 (regs_of H0))"
    by (rule for_loop_invariant [where
          P = "\<lambda>n s. s = regs_list (rounds ?W n (regs_of H0))"])
      (simp_all add: custom_round_fips rounds_Suc k_table_K)
  moreover have "regs_list (regs_of H0) = H0"
    by (simp add: regs_of_def H0_def)
  ultimately show ?thesis
    using assms by (simp add: sha256_custom_def Let_def H_INIT_copy W store_digest_def
        data_digest_def digest8_def)
qed

end
