(* ===== verification/Reverse.thy ===== *)
theory Reverse
  imports Sha256_X1
begin

text \<open>
  \<open>src/sha256/reverse.c\<close>: normalising a target digest, and the three searches for the 64-bit number
  whose hash is a given target. The hash functions are the macros \<open>HASH_FUNC\<close>, \<open>HASH_FUNC_X4\<close> and
  \<open>HASH_FUNC_X4X2\<close> of \<open>config.h\<close>, so they are arguments here. The loops compare 64-bit counters
  that wrap; a search that never leaves its loop has the value \<open>None\<close>.
\<close>

section \<open>Loads and stores through casted pointers\<close>

definition load64 :: "u8 list \<Rightarrow> nat \<Rightarrow> u64" where
  "load64 d i = le64 (take 8 (drop (8 * i) d))"

definition store32 :: "u8 list \<Rightarrow> nat \<Rightarrow> u32 \<Rightarrow> u8 list" where
  "store32 d i v = take (4 * i) d @ le32_bytes v @ drop (4 * i + 4) d"

lemma length_le32_bytes [simp]: "length (le32_bytes v) = 4"
  by (simp add: le32_bytes_def)

lemma length_le64_bytes [simp]: "length (le64_bytes v) = 8"
  by (simp add: le64_bytes_def)

lemma bit_le64:
  "length bs = n \<Longrightarrow> n \<le> 8 \<Longrightarrow>
     bit (le64 bs) k \<longleftrightarrow> k < 8 * n \<and> bit (bs ! (k div 8)) (k mod 8)"
proof (induction bs arbitrary: n k)
  case Nil
  then show ?case by (simp add: le64_def)
next
  case (Cons b bs)
  have "le64 (b # bs) = ucast b OR push_bit 8 (le64 bs)"
    by (simp add: le64_def)
  moreover have "k < 8 \<Longrightarrow> k div 8 = 0 \<and> k mod 8 = k"
    by simp
  moreover have "8 \<le> k \<Longrightarrow> k div 8 = Suc ((k - 8) div 8) \<and> k mod 8 = (k - 8) mod 8"
    by (simp add: le_div_geq le_mod_geq)
  ultimately show ?case
    using Cons.IH [of "n - 1" "k - 8"] Cons.prems
    by (cases "k < 8") (auto simp: bit_simps dest: bit_imp_le_length)
qed

lemma le64_inject:
  assumes "length xs = 8" "length ys = 8"
  shows "le64 xs = le64 ys \<longleftrightarrow> xs = ys"
proof
  assume eq: "le64 xs = le64 ys"
  show "xs = ys"
  proof (rule nth_equalityI)
    fix i assume i: "i < length xs"
    show "xs ! i = ys ! i"
    proof (rule bit_word_eqI)
      fix n assume "n < LENGTH(8)"
      then have "n < 8" by simp
      then have "(8 * i + n) div 8 = i" "(8 * i + n) mod 8 = n" by simp_all
      then show "bit (xs ! i) n = bit (ys ! i) n"
        using arg_cong [OF eq, of "\<lambda>w. bit w (8 * i + n)"] assms i \<open>n < 8\<close>
        by (simp add: bit_le64)
    qed
  qed (use assms in simp)
qed simp

section \<open>Normalising a digest\<close>

definition sha256_normalize :: "u8 list \<Rightarrow> u8 list" where
  "sha256_normalize hash =
     for_loop 0 8 (\<lambda>i hash. store32 hash i (bswap32 (load32 hash i) - H_INIT ! i)) hash"

lemma load32_at:
  "length pre = 4 * i \<Longrightarrow> load32 (pre @ b0 # b1 # b2 # b3 # post) i = le32 b0 b1 b2 b3"
  by (simp add: load32_def nth_append numeral_eq_Suc)

lemma store32_at:
  "length pre = 4 * i \<Longrightarrow>
     store32 (pre @ b0 # b1 # b2 # b3 # post) i v = pre @ le32_bytes v @ post"
  by (simp add: store32_def numeral_eq_Suc)

lemma bswap_le32_be: "bswap32 (le32 (byte_of w 3) (byte_of w 2) (byte_of w 1) (byte_of w 0)) = w"
  by (rule bit_word_eqI) (auto simp: bswap32_def bit_simps)

lemma length_concat_le32 [simp]: "length (concat (map le32_bytes ws)) = 4 * length ws"
  by (induction ws) auto

lemma normalize_words:
  assumes "length ws = 8"
  shows "sha256_normalize (concat (map be32_bytes ws)) = concat (map le32_bytes (map2 (-) ws H0))"
proof -
  define vs where "vs = map2 (-) ws H0"
  have lv: "length vs = 8" using assms by (simp add: vs_def)
  let ?P = "\<lambda>i h. h = concat (map le32_bytes (take i vs)) @ concat (map be32_bytes (drop i ws))"
  let ?f = "\<lambda>i h. store32 h i (bswap32 (load32 h i) - H_INIT ! i)"
  have "?P 8 (for_loop 0 8 ?f (concat (map be32_bytes ws)))"
  proof (rule for_loop_invariant [where P = ?P])
    fix i h assume i: "i < 8" and h: "?P i h"
    let ?pre = "concat (map le32_bytes (take i vs))" and ?w = "ws ! i"
    have len: "length ?pre = 4 * i" using i lv by simp
    have h': "h = ?pre @ byte_of ?w 3 # byte_of ?w 2 # byte_of ?w 1 # byte_of ?w 0 #
        concat (map be32_bytes (drop (Suc i) ws))"
      using i assms by (simp add: h Cons_nth_drop_Suc [symmetric] be32_bytes_def)
    have "?f i h = ?pre @ le32_bytes (?w - H_INIT ! i) @ concat (map be32_bytes (drop (Suc i) ws))"
      unfolding h' load32_at [OF len] store32_at [OF len] bswap_le32_be ..
    also have "?w - H_INIT ! i = vs ! i"
      using i assms by (simp add: vs_def H_INIT_H0)
    finally show "?P (Suc i) (?f i h)"
      using i lv by (simp add: take_Suc_conv_app_nth)
  qed simp_all
  then show ?thesis
    using lv assms by (simp add: sha256_normalize_def vs_def)
qed

lemma map2_minus_plus: "length xs = length ys \<Longrightarrow> map2 (-) (map2 (+) ys xs) ys = (xs :: u32 list)"
  by (induction xs ys rule: list_induct2) auto

text \<open>
  The normalised digest of an eight-byte message is what the hash functions of the code compute:
  the state before the final addition, in little-endian words.
\<close>

lemma normalize_sha256:
  assumes "length msg = 8"
  shows "sha256_normalize (sha256 msg) = store_digest (data_digest msg)"
proof -
  obtain b0 b1 b2 b3 b4 b5 b6 b7 where msg: "msg = [b0, b1, b2, b3, b4, b5, b6, b7]"
    using assms by (auto simp: length_Suc_conv numeral_eq_Suc)
  have d: "data_digest msg = digest8 (be32 b0 b1 b2 b3) (be32 b4 b5 b6 b7)"
    by (simp add: msg data_digest_def data_w0_def data_w1_def load32_def bswap32_load)
  show ?thesis
    unfolding d unfolding msg sha256_8
    by (subst normalize_words) (simp_all add: map2_minus_plus store_digest_def)
qed

section \<open>The searches\<close>

definition hash_compare_u64 :: "u8 list \<Rightarrow> u8 list \<Rightarrow> bool" where
  "hash_compare_u64 ptr target \<longleftrightarrow>
     load64 ptr 0 = load64 target 0 \<and> load64 ptr 1 = load64 target 1 \<and>
     load64 ptr 2 = load64 target 2 \<and> load64 ptr 3 = load64 target 3"

partial_function (option) reverse_sha256 ::
  "(u8 list \<Rightarrow> u8 list) \<Rightarrow> u64 \<Rightarrow> u64 \<Rightarrow> u8 list \<Rightarrow> u64 option"
where
  "reverse_sha256 hash i end target =
     (if i \<le> end
      then (if hash_compare_u64 (hash (le64_bytes i)) target then Some i
            else reverse_sha256 hash (i + 1) end target)
      else Some 0)"

text \<open>The first lane whose digest, 32 bytes into the output for each lane, is the target.\<close>

definition matching_lane :: "nat \<Rightarrow> u8 list \<Rightarrow> u8 list \<Rightarrow> nat option" where
  "matching_lane lanes out target =
     find (\<lambda>i. hash_compare_u64 (drop (32 * i) out) target) [0..<lanes]"

partial_function (option) reverse_x4_loop ::
  "(u8 list \<Rightarrow> u8 list) \<Rightarrow> u64 list \<Rightarrow> u64 \<Rightarrow> u8 list \<Rightarrow> u64 option"
where
  "reverse_x4_loop hash4 data end target =
     (case matching_lane 4 (hash4 (concat (map le64_bytes data))) target of
        Some i \<Rightarrow> Some (data ! i)
      | None \<Rightarrow>
          (let data = data[0 := data ! 0 + 4];
               data = data[1 := data ! 1 + 4];
               data = data[2 := data ! 2 + 4];
               data = data[3 := data ! 3 + 4]
           in if data ! 0 \<le> end then reverse_x4_loop hash4 data end target else Some 0))"

definition reverse_sha256_x4 ::
  "(u8 list \<Rightarrow> u8 list) \<Rightarrow> u64 \<Rightarrow> u64 \<Rightarrow> u8 list \<Rightarrow> u64 option"
where
  "reverse_sha256_x4 hash4 start end target =
     reverse_x4_loop hash4 [start, start + 1, start + 2, start + 3] end target"

partial_function (option) reverse_x4x2orx8_loop ::
  "(u8 list \<Rightarrow> u8 list) \<Rightarrow> u64 list \<Rightarrow> u64 \<Rightarrow> u8 list \<Rightarrow> u64 option"
where
  "reverse_x4x2orx8_loop hash8 data end target =
     (case matching_lane 8 (hash8 (concat (map le64_bytes data))) target of
        Some i \<Rightarrow> Some (data ! i)
      | None \<Rightarrow>
          (let data = data[0 := data ! 0 + 8];
               data = data[1 := data ! 1 + 8];
               data = data[2 := data ! 2 + 8];
               data = data[3 := data ! 3 + 8];
               data = data[4 := data ! 4 + 8];
               data = data[5 := data ! 5 + 8];
               data = data[6 := data ! 6 + 8];
               data = data[7 := data ! 7 + 8]
           in if data ! 0 \<le> end then reverse_x4x2orx8_loop hash8 data end target else Some 0))"

definition reverse_sha256_x4x2orx8 ::
  "(u8 list \<Rightarrow> u8 list) \<Rightarrow> u64 \<Rightarrow> u64 \<Rightarrow> u8 list \<Rightarrow> u64 option"
where
  "reverse_sha256_x4x2orx8 hash8 start end target =
     reverse_x4x2orx8_loop hash8
       [start, start + 1, start + 2, start + 3, start + 4, start + 5, start + 6, start + 7]
       end target"

text \<open>
  All three loops have one shape: test a block of \<open>N\<close> consecutive numbers, then advance by \<open>N\<close>
  and compare the new first number with \<open>end\<close>. \<open>candidates s n\<close> are the \<open>n\<close> numbers from \<open>s\<close> on.
\<close>

definition candidates :: "u64 \<Rightarrow> nat \<Rightarrow> u64 list" where
  "candidates s n = map (\<lambda>k. s + word_of_nat k) [0..<n]"

definition first_or_zero :: "(u64 \<Rightarrow> bool) \<Rightarrow> u64 list \<Rightarrow> u64" where
  "first_or_zero P xs = (case find P xs of Some x \<Rightarrow> x | None \<Rightarrow> 0)"

lemma candidates_append: "candidates s (m + n) = candidates s m @ candidates (s + word_of_nat m) n"
proof -
  have "[m..<m + n] = map (\<lambda>k. k + m) [0..<n]"
    by (simp add: map_add_upt add.commute)
  then show ?thesis
    by (simp add: candidates_def upt_add_eq_append [of 0, simplified] add.assoc comp_def
        add.commute add.left_commute)
qed

lemma find_append: "find P (xs @ ys) = (case find P xs of Some x \<Rightarrow> Some x | None \<Rightarrow> find P ys)"
  by (induction xs) auto

lemma find_map: "find P (map f xs) = map_option f (find (P \<circ> f) xs)"
  by (induction xs) auto

lemma first_or_zero_append:
  "first_or_zero P (xs @ ys) =
     (case find P xs of Some x \<Rightarrow> x | None \<Rightarrow> first_or_zero P ys)"
  by (auto simp: first_or_zero_def find_append split: option.splits)

locale block_search =
  fixes search :: "u64 \<Rightarrow> u64 option" and hit :: "u64 \<Rightarrow> bool" and N :: nat and stop :: u64
  assumes N_pos: "0 < N" and N_small: "N < 2 ^ 64"
    and search_step:
      "s \<le> stop \<Longrightarrow> search s =
         (case find hit (candidates s N) of
            Some x \<Rightarrow> Some x
          | None \<Rightarrow> if s + word_of_nat N \<le> stop then search (s + word_of_nat N) else Some 0)"
begin

text \<open>
  Where the counter does not wrap, the search returns the first hit of all numbers up to \<open>stop\<close>,
  rounded up to whole blocks.
\<close>

lemma search_result:
  assumes "s \<le> stop" and room: "unat stop + N < 2 ^ 64"
  shows "search s =
    Some (first_or_zero hit (candidates s (N * ((unat stop - unat s) div N + 1))))"
  using assms(1)
proof (induction "unat stop - unat s" arbitrary: s rule: less_induct)
  case less
  define s' where "s' = s + word_of_nat N"
  have le: "unat s \<le> unat stop" using less.prems by (simp add: word_le_nat_alt)
  have us': "unat s' = unat s + N"
    using le room N_small unfolding s'_def
    by (subst unat_add_lem [THEN iffD1]) (simp_all add: unat_of_nat take_bit_eq_mod)
  show ?case
  proof (cases "s' \<le> stop")
    case True
    then have le': "unat s + N \<le> unat stop" by (simp add: word_le_nat_alt us')
    have "(unat stop - unat s) div N + 1 = ((unat stop - unat s') div N + 1) + 1"
      using le' N_pos by (simp add: us' le_div_geq)
    then have "N * ((unat stop - unat s) div N + 1) = N + N * ((unat stop - unat s') div N + 1)"
      by (simp only:) (simp add: algebra_simps)
    then show ?thesis
      using less.hyps [of s'] True le' us' N_pos search_step [OF less.prems]
      by (simp add: candidates_append first_or_zero_append s'_def split: option.splits)
  next
    case False
    then have "unat stop - unat s < N" using N_pos by (simp add: word_le_nat_alt us')
    then show ?thesis
      using search_step [OF less.prems] False
      by (simp add: first_or_zero_def s'_def split: option.splits)
  qed
qed

end

lemma reverse_sha256_block:
  "block_search (\<lambda>s. reverse_sha256 hash s stop target)
     (\<lambda>x. hash_compare_u64 (hash (le64_bytes x)) target) 1 stop"
proof
  fix s assume s: "s \<le> stop"
  have halt: "\<not> s + 1 \<le> stop \<Longrightarrow> reverse_sha256 hash (s + 1) stop target = Some 0"
    by (subst reverse_sha256.simps) simp
  show "reverse_sha256 hash s stop target =
      (case find (\<lambda>x. hash_compare_u64 (hash (le64_bytes x)) target) (candidates s 1) of
         Some x \<Rightarrow> Some x
       | None \<Rightarrow> if s + word_of_nat 1 \<le> stop
                 then reverse_sha256 hash (s + word_of_nat 1) stop target else Some 0)"
    by (subst reverse_sha256.simps) (use s halt in \<open>auto simp: candidates_def\<close>)
qed simp_all

interpretation x1_search: block_search "\<lambda>s. reverse_sha256 hash s stop target"
    "\<lambda>x. hash_compare_u64 (hash (le64_bytes x)) target" 1 stop for hash stop target
  by (rule reverse_sha256_block)


text \<open>
  The vectorised loops keep their numbers in an array, one number for each lane, and need the
  contract of the vectorised hash function: lane by lane it is the scalar one.
\<close>

definition lane_hash :: "nat \<Rightarrow> (u8 list \<Rightarrow> u8 list) \<Rightarrow> (u8 list \<Rightarrow> u8 list) \<Rightarrow> bool" where
  "lane_hash lanes hashN hash \<longleftrightarrow>
     (\<forall>msgs. length msgs = lanes \<and> (\<forall>m \<in> set msgs. length m = 8) \<longrightarrow>
        hashN (concat msgs) = concat (map hash msgs)) \<and>
     (\<forall>m. length m = 8 \<longrightarrow> length (hash m) = 32)"

lemma drop_concat_uniform:
  "\<forall>x \<in> set xs. length x = n \<Longrightarrow> drop (n * i) (concat xs) = concat (drop i xs)"
proof (induction xs arbitrary: i)
  case (Cons x xs)
  then show ?case by (cases i) simp_all
qed simp

lemma load64_append: "8 * i + 8 \<le> length xs \<Longrightarrow> load64 (xs @ ys) i = load64 xs i"
  by (simp add: load64_def)

lemma hash_compare_append:
  "length xs = 32 \<Longrightarrow> hash_compare_u64 (xs @ ys) t = hash_compare_u64 xs t"
  by (simp add: hash_compare_u64_def load64_append)

lemma matching_lane_find:
  assumes ok: "lane_hash lanes hashN hash" and len: "length data = lanes"
  shows "map_option (\<lambda>i. data ! i)
           (matching_lane lanes (hashN (concat (map le64_bytes data))) target) =
         find (\<lambda>x. hash_compare_u64 (hash (le64_bytes x)) target) data"
proof -
  let ?hs = "map (\<lambda>x. hash (le64_bytes x)) data"
  have out: "hashN (concat (map le64_bytes data)) = concat ?hs"
    using ok len by (auto simp: lane_hash_def comp_def)
  have hl: "\<forall>h \<in> set ?hs. length h = 32"
    using ok by (auto simp: lane_hash_def)
  have "matching_lane lanes (concat ?hs) target =
      find (\<lambda>i. hash_compare_u64 (hash (le64_bytes (data ! i))) target) [0..<lanes]"
    unfolding matching_lane_def
  proof (rule find_cong [OF refl])
    fix i assume "i \<in> set [0..<lanes]"
    then have "drop i ?hs = hash (le64_bytes (data ! i)) # drop (Suc i) ?hs"
      using len by (simp add: Cons_nth_drop_Suc [symmetric] drop_map [symmetric])
    then show "hash_compare_u64 (drop (32 * i) (concat ?hs)) target =
        hash_compare_u64 (hash (le64_bytes (data ! i))) target"
      using hl \<open>i \<in> set [0..<lanes]\<close> len
      by (simp add: drop_concat_uniform [OF hl] hash_compare_append)
  qed
  moreover have "map (\<lambda>i. data ! i) [0..<lanes] = data"
    using len map_nth [of data] by simp
  ultimately show ?thesis
    using find_map [of _ "\<lambda>i. data ! i" "[0..<lanes]"] by (simp add: out comp_def)
qed

lemma first_lane:
  assumes "lane_hash lanes hashN hash" "length data = lanes"
  shows "(case matching_lane lanes (hashN (concat (map le64_bytes data))) target of
            Some i \<Rightarrow> Some (data ! i) | None \<Rightarrow> rest) =
         (case find (\<lambda>x. hash_compare_u64 (hash (le64_bytes x)) target) data of
            Some x \<Rightarrow> Some x | None \<Rightarrow> rest)"
  unfolding matching_lane_find [OF assms, symmetric]
  by (cases "matching_lane lanes (hashN (concat (map le64_bytes data))) target") simp_all

lemma candidates_4: "candidates s 4 = [s, s + 1, s + 2, s + 3]"
  by (simp add: candidates_def upt_rec)

lemma candidates_8: "candidates s 8 = [s, s + 1, s + 2, s + 3, s + 4, s + 5, s + 6, s + 7]"
  by (simp add: candidates_def upt_rec)

lemma reverse_x4_block:
  assumes "lane_hash 4 hash4 hash"
  shows "block_search (\<lambda>s. reverse_sha256_x4 hash4 s stop target)
     (\<lambda>x. hash_compare_u64 (hash (le64_bytes x)) target) 4 stop"
proof
  fix s :: u64 assume "s \<le> stop"
  let ?data = "[s, s + 1, s + 2, s + 3]"
  show "reverse_sha256_x4 hash4 s stop target =
      (case find (\<lambda>x. hash_compare_u64 (hash (le64_bytes x)) target) (candidates s 4) of
         Some x \<Rightarrow> Some x
       | None \<Rightarrow> if s + word_of_nat 4 \<le> stop
                 then reverse_sha256_x4 hash4 (s + word_of_nat 4) stop target else Some 0)"
    unfolding candidates_4 reverse_sha256_x4_def
    by (subst reverse_x4_loop.simps)
      (rule trans [OF first_lane [OF assms]], simp, rule option.case_cong [OF refl],
        simp_all add: ac_simps)
qed simp_all

lemma reverse_x4x2orx8_block:
  assumes "lane_hash 8 hash8 hash"
  shows "block_search (\<lambda>s. reverse_sha256_x4x2orx8 hash8 s stop target)
     (\<lambda>x. hash_compare_u64 (hash (le64_bytes x)) target) 8 stop"
proof
  fix s :: u64 assume "s \<le> stop"
  let ?data = "[s, s + 1, s + 2, s + 3, s + 4, s + 5, s + 6, s + 7]"
  show "reverse_sha256_x4x2orx8 hash8 s stop target =
      (case find (\<lambda>x. hash_compare_u64 (hash (le64_bytes x)) target) (candidates s 8) of
         Some x \<Rightarrow> Some x
       | None \<Rightarrow> if s + word_of_nat 8 \<le> stop
                 then reverse_sha256_x4x2orx8 hash8 (s + word_of_nat 8) stop target else Some 0)"
    unfolding candidates_8 reverse_sha256_x4x2orx8_def
    by (subst reverse_x4x2orx8_loop.simps)
      (rule trans [OF first_lane [OF assms]], simp, rule option.case_cong [OF refl],
        simp_all add: ac_simps)
qed simp_all


section \<open>The searches against SHA-256\<close>

text \<open>The comparison of four 64-bit words decides equality of digests.\<close>

lemma hash_compare_eq:
  assumes "length xs = 32" "length ys = 32"
  shows "hash_compare_u64 xs ys \<longleftrightarrow> xs = ys"
proof
  assume cmp: "hash_compare_u64 xs ys"
  have part: "take 8 (drop (8 * i) xs) = take 8 (drop (8 * i) ys)" if "i < 4" for i
  proof -
    have "load64 xs i = load64 ys i"
      using cmp that by (auto simp: hash_compare_u64_def less_Suc_eq numeral_eq_Suc)
    then show ?thesis
      using assms that by (simp add: load64_def le64_inject)
  qed
  have split: "zs = concat (map (\<lambda>i. take 8 (drop (8 * i) zs)) [0..<4])"
    if "length zs = 32" for zs :: "u8 list"
    using that by (auto simp: length_Suc_conv numeral_eq_Suc)
  have "concat (map (\<lambda>i. take 8 (drop (8 * i) xs)) [0..<4]) =
      concat (map (\<lambda>i. take 8 (drop (8 * i) ys)) [0..<4])"
    by (rule arg_cong [of _ _ concat], rule map_cong) (use part in auto)
  then show "xs = ys"
    using split [OF assms(1)] split [OF assms(2)] by argo
qed (simp add: hash_compare_u64_def)

lemma be32_bytes_load:
  "be32_bytes (be32 b0 b1 b2 b3) = [b0, b1, b2, b3]"
  by (auto simp: be32_bytes_def be32_def intro!: bit_word_eqI simp: bit_simps)

lemma le32_bytes_inject: "le32_bytes v = le32_bytes w \<longleftrightarrow> v = w"
proof
  assume "le32_bytes v = le32_bytes w"
  then have "bswap32 v = bswap32 w" by (simp add: le32_bytes_def bswap32_def)
  moreover have "bswap32 (bswap32 u) = u" for u
    by (rule bit_word_eqI) (auto simp: bswap32_def bit_simps)
  ultimately show "v = w" by metis
qed simp

lemma concat_le32_inject:
  "length vs = length ws \<Longrightarrow>
     concat (map le32_bytes vs) = concat (map le32_bytes ws) \<longleftrightarrow> vs = ws"
  by (induction vs ws rule: list_induct2) (simp_all add: le32_bytes_inject)

lemma digest_words:
  assumes "length d = 32"
  obtains ws where "length ws = 8" "d = concat (map be32_bytes ws)"
proof -
  define w where "w i = be32 (d ! (4 * i)) (d ! (4 * i + 1)) (d ! (4 * i + 2)) (d ! (4 * i + 3))" for i
  have "d = concat (map be32_bytes (map w [0..<8]))"
    using assms by (auto simp: w_def be32_bytes_load upt_rec length_Suc_conv numeral_eq_Suc)
  then show thesis by (intro that [of "map w [0..<8]"]) simp_all
qed

lemma map2_minus_inject:
  "length xs = length zs \<Longrightarrow> length ys = length zs \<Longrightarrow>
     map2 (-) xs zs = map2 (-) ys zs \<longleftrightarrow> xs = (ys :: u32 list)"
proof (induction xs zs arbitrary: ys rule: list_induct2)
  case (Cons x xs z zs)
  then show ?case by (cases ys) auto
qed simp

lemma length_normalize: "length d = 32 \<Longrightarrow> length (sha256_normalize d) = 32"
  by (erule digest_words) (simp add: normalize_words del: map_map)

lemma normalize_inject:
  assumes "length c = 32" "length d = 32"
  shows "sha256_normalize c = sha256_normalize d \<longleftrightarrow> c = d"
  using assms(1)
proof (rule digest_words)
  fix cs assume cs: "length cs = 8" "c = concat (map be32_bytes cs)"
  show ?thesis using assms(2)
  proof (rule digest_words)
    fix ds assume ds: "length ds = 8" "d = concat (map be32_bytes ds)"
    have "sha256_normalize c = sha256_normalize d \<Longrightarrow> c = d"
      using cs ds by (auto simp: normalize_words concat_le32_inject map2_minus_inject simp del: map_map)
    then show ?thesis by blast
  qed
qed

text \<open>
  What a hash function of the code promises: the normalised SHA-256 digest of its eight bytes.
\<close>

definition normalized_sha256 :: "(u8 list \<Rightarrow> u8 list) \<Rightarrow> bool" where
  "normalized_sha256 hash \<longleftrightarrow>
     (\<forall>m. length m = 8 \<longrightarrow> hash m = sha256_normalize (sha256 m))"

lemma length_concat_be32 [simp]: "length (concat (map be32_bytes ws)) = 4 * length ws"
  by (induction ws) (auto simp: be32_bytes_def)

lemma length_sha256_8:
  assumes "length m = 8"
  shows "length (sha256 m) = 32"
proof -
  obtain b0 b1 b2 b3 b4 b5 b6 b7 where "m = [b0, b1, b2, b3, b4, b5, b6, b7]"
    using assms by (auto simp: length_Suc_conv numeral_eq_Suc)
  then show ?thesis by (simp add: sha256_8 del: map_map)
qed

lemma compare_normalized:
  assumes "normalized_sha256 hash" "length digest = 32"
  shows "hash_compare_u64 (hash (le64_bytes x)) (sha256_normalize digest) \<longleftrightarrow>
           sha256 (le64_bytes x) = digest"
  using assms
  by (simp add: normalized_sha256_def hash_compare_eq length_normalize length_sha256_8
      normalize_inject)

lemma set_candidates:
  assumes "unat s + n \<le> 2 ^ 64" "0 < n"
  shows "set (candidates s n) = {s .. s + word_of_nat (n - 1)}"
proof -
  have plus: "unat (s + word_of_nat k) = unat s + k" if "k < n" for k
    using that assms by (simp add: unat_word_ariths unat_of_nat)
  have top: "unat (s + word_of_nat (n - 1)) = unat s + (n - 1)"
    using assms by (intro plus) simp
  show ?thesis
  proof (intro set_eqI iffI)
    fix x assume "x \<in> set (candidates s n)"
    then obtain k where "k < n" "x = s + word_of_nat k"
      by (auto simp: candidates_def)
    then show "x \<in> {s .. s + word_of_nat (n - 1)}"
      using plus [of k] top by (simp add: word_le_nat_alt)
  next
    fix x assume x: "x \<in> {s .. s + word_of_nat (n - 1)}"
    then have "unat s \<le> unat x" "unat x \<le> unat s + (n - 1)"
      using top by (simp_all add: word_le_nat_alt)
    then have "unat s \<le> unat x" "unat x - unat s < n"
      using assms(2) by linarith+
    moreover from this have "x = s + word_of_nat (unat x - unat s)"
      by (intro unsigned_word_eqI) (simp add: plus)
    ultimately have "\<exists>k < n. x = s + word_of_nat k" by blast
    then show "x \<in> set (candidates s n)"
      by (auto simp: candidates_def)
  qed
qed

lemma first_or_zero_cong: "(\<And>x. P x = Q x) \<Longrightarrow> first_or_zero P xs = first_or_zero Q xs"
  by (simp add: first_or_zero_def cong: find_cong)

text \<open>
  The specification of a search: the least number of the range with the digest, or \<open>0\<close>.
\<close>

definition least_preimage :: "u64 set \<Rightarrow> u8 list \<Rightarrow> u64" where
  "least_preimage R digest =
     (if \<exists>x \<in> R. sha256 (le64_bytes x) = digest
      then (LEAST x. x \<in> R \<and> sha256 (le64_bytes x) = digest) else 0)"

lemma sorted_candidates:
  assumes "unat s + n \<le> 2 ^ 64"
  shows "sorted (candidates s n)"
proof -
  have plus: "unat (s + word_of_nat k) = unat s + k" if "k < n" for k
    using that assms by (simp add: unat_word_ariths unat_of_nat)
  show ?thesis
    by (auto simp: sorted_iff_nth_mono candidates_def word_le_nat_alt plus)
qed

lemma find_sorted_Least:
  assumes "sorted xs" "find P xs = Some (x :: 'a :: wellorder)"
  shows "(LEAST y. y \<in> set xs \<and> P y) = x"
  using assms
proof (induction xs)
  case (Cons a xs)
  show ?case
  proof (cases "P a")
    case True
    then show ?thesis
      using Cons.prems by (intro Least_equality) auto
  next
    case False
    then have "(y \<in> set (a # xs) \<and> P y) = (y \<in> set xs \<and> P y)" for y by auto
    then show ?thesis using Cons False by simp
  qed
qed simp

lemma first_or_zero_least_preimage:
  assumes "unat s + n \<le> 2 ^ 64" "0 < n"
  shows "first_or_zero (\<lambda>x. sha256 (le64_bytes x) = digest) (candidates s n) =
    least_preimage {s .. s + word_of_nat (n - 1)} digest"
proof (cases "find (\<lambda>x. sha256 (le64_bytes x) = digest) (candidates s n)")
  case None
  then have "\<not> (\<exists>x \<in> {s .. s + word_of_nat (n - 1)}. sha256 (le64_bytes x) = digest)"
    unfolding set_candidates [OF assms, symmetric] find_None_iff by blast
  then show ?thesis
    by (simp add: first_or_zero_def least_preimage_def None)
next
  case (Some x)
  then have "x \<in> set (candidates s n)" "sha256 (le64_bytes x) = digest"
    by (auto simp: find_Some_iff)
  then show ?thesis
    using find_sorted_Least [OF sorted_candidates [OF assms(1)] Some] set_candidates [OF assms]
    by (auto simp: first_or_zero_def least_preimage_def Some)
qed

text \<open>
  The scalar hash functions keep the promise, whatever the previous contents of their stack
  arrays are at each call.
\<close>

lemma normalized_optim: "\<forall>m. length (w m) = 64 \<Longrightarrow> normalized_sha256 (\<lambda>m. sha256_optim (w m) m)"
  by (simp add: normalized_sha256_def normalize_sha256 sha256_optim_digest)

lemma normalized_fused: "\<forall>m. length (w m) = 64 \<Longrightarrow> normalized_sha256 (\<lambda>m. sha256_fused (w m) m)"
  by (simp add: normalized_sha256_def normalize_sha256 sha256_fused_digest)

lemma normalized_fullyfused:
  "\<forall>m. length (w m) = 64 \<Longrightarrow> normalized_sha256 (\<lambda>m. sha256_fullyfused (w m) m)"
  by (simp add: normalized_sha256_def normalize_sha256 sha256_fullyfused_digest)

text \<open>
  C23: the configured scalar hash function computes SHA-256: on any eight bytes and any contents of its
  stack array its output is the SHA-256 digest of FIPS 180-4 brought to normal form by
  \<open>sha256_normalize\<close>, the form in which the server keeps its targets.
\<close>

theorem sha256_fullyfused_correct:
  assumes "length w = 64" "length msg = 8"
  shows "sha256_fullyfused w msg = sha256_normalize (sha256 msg)"
  using assms by (simp add: normalize_sha256 sha256_fullyfused_digest)

theorem sha256_fullyfused_correct_witness:
  "sha256_fullyfused (replicate 64 9) [1, 2, 3, 4, 5, 6, 7, 8] =
     sha256_normalize (sha256 [1, 2, 3, 4, 5, 6, 7, 8])"
  by (rule sha256_fullyfused_correct) simp_all

text \<open>
  The three other scalar hash functions, which precompute the schedule, fuse the extension with
  the compression, or follow the standard with a state array, compute the same normalised digest.
\<close>

theorem sha256_variants_correct:
  assumes "length w = 64" "length s = 8" "length msg = 8"
  shows "sha256_optim w msg = sha256_normalize (sha256 msg) \<and>
    sha256_fused w msg = sha256_normalize (sha256 msg) \<and>
    sha256_custom w s msg = sha256_normalize (sha256 msg)"
  using assms
  by (simp add: normalize_sha256 sha256_optim_digest sha256_fused_digest sha256_custom_digest)

theorem sha256_variants_correct_witness:
  "sha256_optim (replicate 64 9) (replicate 8 1) = sha256_normalize (sha256 (replicate 8 1)) \<and>
   sha256_fused (replicate 64 9) (replicate 8 1) = sha256_normalize (sha256 (replicate 8 1)) \<and>
   sha256_custom (replicate 64 9) (replicate 8 2) (replicate 8 1) =
     sha256_normalize (sha256 (replicate 8 1))"
  by (rule sha256_variants_correct) simp_all

lemma room_max: "stop < - 1 \<Longrightarrow> unat (stop :: u64) + 1 < 2 ^ 64"
  by (simp add: word_less_nat_alt unsigned_minus_1_eq_mask mask_eq_exp_minus_1)

lemma range_end: "s \<le> stop \<Longrightarrow> s + word_of_nat (unat stop - unat s) = (stop :: u64)"
  by (simp add: word_le_nat_alt flip: unat_sub)

text \<open>
  C21: the scalar search with the hash function of \<open>config.h\<close> returns the least number of
  \<open>start..end\<close> whose SHA-256 digest is the requested one, and the \<open>0\<close> that stands for no answer where
  no number of the range has it, whatever the stack arrays hold. The only restriction is
  \<open>end < UINT64_MAX\<close>.
\<close>

theorem reverse_sha256_least_preimage:
  assumes "\<forall>m. length (w m) = 64" "length digest = 32" "start \<le> stop" "stop < - 1"
  shows "reverse_sha256 (\<lambda>m. sha256_fullyfused (w m) m) start stop (sha256_normalize digest) =
    Some (least_preimage {start .. stop} digest)"
proof -
  have le: "unat start \<le> unat stop" using assms(3) by (simp add: word_le_nat_alt)
  have "unat start + (unat stop - unat start + 1) \<le> 2 ^ 64"
    using le room_max [OF assms(4)] by simp
  then show ?thesis
    using x1_search.search_result [OF assms(3) room_max [OF assms(4)],
        of "\<lambda>m. sha256_fullyfused (w m) m" "sha256_normalize digest"]
      first_or_zero_least_preimage [of start "unat stop - unat start + 1" digest]
    by (simp add: compare_normalized [OF normalized_fullyfused [OF assms(1)] assms(2)]
        range_end [OF assms(3)])
qed

theorem reverse_sha256_least_preimage_witness:
  "reverse_sha256 (\<lambda>m. sha256_fullyfused (replicate 64 7) m) 3 9 (sha256_normalize (replicate 32 0)) =
    Some (least_preimage {3 .. 9} (replicate 32 0))"
  by (rule reverse_sha256_least_preimage) simp_all

lemma reverse_sha256_max_hit:
  assumes "reverse_sha256 hash i stop target = Some r"
  shows "stop = - 1 \<longrightarrow> hash_compare_u64 (hash (le64_bytes r)) target"
  by (rule reverse_sha256.raw_induct [OF _ assms, where
        P = "\<lambda>hash i stop target r. stop = - 1 \<longrightarrow> hash_compare_u64 (hash (le64_bytes r)) target"])
    (fastforce split: if_splits)

text \<open>
  C39: with \<open>end = UINT64_MAX\<close> the scalar search leaves its loop only through an answer: a request
  for a digest that no 64-bit number has is never answered, the loop does not return.
\<close>

theorem reverse_sha256_max_diverges:
  assumes "\<forall>m. length (w m) = 64" "length digest = 32" "\<forall>x. sha256 (le64_bytes x) \<noteq> digest"
  shows "reverse_sha256 (\<lambda>m. sha256_fullyfused (w m) m) start (- 1) (sha256_normalize digest) = None"
  using reverse_sha256_max_hit compare_normalized [OF normalized_fullyfused [OF assms(1)] assms(2)]
    assms(3)
  by (cases "reverse_sha256 (\<lambda>m. sha256_fullyfused (w m) m) start (- 1) (sha256_normalize digest)")
    fastforce+

lemma digest_without_preimage: "\<exists>digest. length digest = 32 \<and> (\<forall>x. sha256 (le64_bytes x) \<noteq> digest)"
proof -
  let ?D = "{d :: u8 list. length d = 32}"
  have "card (range (\<lambda>x. sha256 (le64_bytes x))) \<le> CARD(64 word)"
    by (rule card_image_le) simp
  also have "\<dots> = 2 ^ 64" by (simp add: card_word)
  also have "\<dots> < card ?D"
    using card_lists_length_eq [of "UNIV :: u8 set" 32] by (simp add: card_word)
  finally have "\<not> ?D \<subseteq> range (\<lambda>x. sha256 (le64_bytes x))"
    by (meson card_mono finite finite_imageI leD)
  then show ?thesis by blast
qed

theorem reverse_sha256_max_diverges_witness:
  "\<exists>digest. length digest = 32 \<and>
     reverse_sha256 (\<lambda>m. sha256_fullyfused (replicate 64 7) m) 3 (- 1) (sha256_normalize digest) = None"
proof -
  obtain digest where "length digest = 32" "\<forall>x. sha256 (le64_bytes x) \<noteq> digest"
    using digest_without_preimage by blast
  then show ?thesis
    using reverse_sha256_max_diverges [of "\<lambda>_. replicate 64 7"] by auto
qed

end
