(* ===== verification/Protocol.thy ===== *)
theory Protocol
  imports Reverse
begin

text \<open>
  \<open>src/protocol.h\<close> and \<open>protocol.c\<close>: the request and the response, and their conversion between the
  big-endian wire and the little-endian machine. The server reads the wire bytes straight into the
  struct, so a \<open>uint64_t\<close> field first holds the little-endian reading of its eight wire bytes.
\<close>

record request =
  req_hash :: "u8 list"
  req_start :: u64
  req_end :: u64
  req_priority :: u8

record response =
  answer :: u64

definition PROTOCOL_REQ_SIZE :: nat where "PROTOCOL_REQ_SIZE = 49"
definition PROTOCOL_RES_SIZE :: nat where "PROTOCOL_RES_SIZE = 8"

section \<open>The memory of the structs\<close>

text \<open>The fields of \<open>struct ProtocolRequest\<close> at their offsets 0, 32, 40 and 48.\<close>

definition request_of_memory :: "u8 list \<Rightarrow> request option" where
  "request_of_memory bs =
     (if length bs < PROTOCOL_REQ_SIZE then None
      else Some \<lparr>req_hash = take 32 bs, req_start = le64 (take 8 (drop 32 bs)),
                 req_end = le64 (take 8 (drop 40 bs)), req_priority = bs ! 48\<rparr>)"

definition response_memory :: "response \<Rightarrow> u8 list" where
  "response_memory r = le64_bytes (answer r)"

section \<open>The conversions\<close>

definition protocol_request_to_le :: "request \<Rightarrow> request" where
  "protocol_request_to_le r =
     r\<lparr>req_start := bswap64 (req_start r), req_end := bswap64 (req_end r),
       req_hash := sha256_normalize (req_hash r)\<rparr>"

definition protocol_response_to_be :: "response \<Rightarrow> response" where
  "protocol_response_to_be r = r\<lparr>answer := bswap64 (answer r)\<rparr>"

section \<open>The wire format\<close>

text \<open>Big-endian numbers, most significant byte first, as the client packs and unpacks them.\<close>

definition be64 :: "u64 \<Rightarrow> u8 list" where
  "be64 w = map (byte_of w) (rev [0..<8])"

definition request_wire :: "u8 list \<Rightarrow> u64 \<Rightarrow> u64 \<Rightarrow> u8 \<Rightarrow> u8 list" where
  "request_wire hash start stop prio = hash @ be64 start @ be64 stop @ [prio]"

lemma length_be64 [simp]: "length (be64 w) = 8"
  by (simp add: be64_def)

lemma rev_le64_bytes: "rev (le64_bytes w) = be64 w"
  by (simp add: le64_bytes_def be64_def rev_map)

lemma le64_le64_bytes: "le64 (le64_bytes w) = w"
proof (rule bit_word_eqI)
  fix n assume "n < LENGTH(64)"
  then have "n < 64" by simp
  then show "bit (le64 (le64_bytes w)) n = bit w n"
    using bit_le64 [of "le64_bytes w" 8 n] by (simp add: le64_bytes_def bit_byte_of)
qed

lemma le64_bytes_le64: "length bs = 8 \<Longrightarrow> le64_bytes (le64 bs) = bs"
  by (rule le64_inject [THEN iffD1]) (simp_all add: le64_le64_bytes)

lemma bswap64_be64: "bswap64 (le64 (be64 w)) = w"
  by (simp add: bswap64_def le64_bytes_le64 rev_le64_bytes [symmetric] le64_le64_bytes)

lemma response_be64: "le64_bytes (bswap64 w) = be64 w"
  by (simp add: bswap64_def le64_bytes_le64 rev_le64_bytes)

lemma length_request_wire [simp]: "length hash = 32 \<Longrightarrow> length (request_wire hash start stop prio) = PROTOCOL_REQ_SIZE"
  by (simp add: request_wire_def PROTOCOL_REQ_SIZE_def)

lemma request_wire_read:
  assumes "length hash = 32"
  shows "map_option protocol_request_to_le (request_of_memory (request_wire hash start stop prio)) =
    Some \<lparr>req_hash = sha256_normalize hash, req_start = start, req_end = stop, req_priority = prio\<rparr>"
  using assms
  by (simp add: request_of_memory_def request_wire_def PROTOCOL_REQ_SIZE_def protocol_request_to_le_def
      bswap64_be64 nth_append)

text \<open>
  C38: round trip of the protocol: the 49 bytes a client sends for \<open>(hash, start, end, priority)\<close> are read
  by the server as exactly these numbers, with the hash in its normal form.
\<close>

theorem protocol_request_roundtrip:
  assumes "length hash = 32"
  shows "map_option protocol_request_to_le (request_of_memory (request_wire hash start stop prio)) =
    Some \<lparr>req_hash = sha256_normalize hash, req_start = start, req_end = stop, req_priority = prio\<rparr>"
  by (rule request_wire_read [OF assms])

theorem protocol_request_roundtrip_witness:
  "map_option protocol_request_to_le (request_of_memory (request_wire (replicate 32 0) 1 300 5)) =
    Some \<lparr>req_hash = sha256_normalize (replicate 32 0), req_start = 1, req_end = 300, req_priority = 5\<rparr>"
  by (rule protocol_request_roundtrip) simp

text \<open>
  The response the server sends is the eight bytes of the answer, most significant first.
\<close>

theorem protocol_response_wire:
  "response_memory (protocol_response_to_be \<lparr>answer = a\<rparr>) = be64 a"
  by (simp add: response_memory_def protocol_response_to_be_def response_be64)

end
