(* ===== verification/Vec.thy ===== *)
theory Vec
  imports Prelude
begin

text \<open>
  \<open>src/bits/vec.h\<close>: growable arrays. The allocated cells are \<open>vec_data\<close>; a cell that was allocated and
  not written yet is \<open>None\<close>, and reading it is undefined behaviour like reading past the allocation.
  Lengths and capacities are the 32-bit fields of the struct. Allocation is taken to succeed.
\<close>

section \<open>Cells\<close>

definition ld :: "'a option list \<Rightarrow> nat \<Rightarrow> 'a option" where
  "ld cells i = (if i < length cells then cells ! i else None)"

definition st :: "'a option list \<Rightarrow> nat \<Rightarrow> 'a \<Rightarrow> 'a option list option" where
  "st cells i x = wr cells i (Some x)"

text \<open>\<open>reallocarray\<close> keeps the cells that fit, and leaves new ones indeterminate.\<close>

definition realloc :: "nat \<Rightarrow> 'a option list \<Rightarrow> 'a option list" where
  "realloc n cells = take n cells @ replicate (n - length cells) None"

lemma length_realloc [simp]: "length (realloc n cells) = n"
  by (simp add: realloc_def)

lemma take_realloc [simp]: "m \<le> n \<Longrightarrow> m \<le> length cells \<Longrightarrow> take m (realloc n cells) = take m cells"
  by (simp add: realloc_def min_def)

lemma ld_realloc: "i < n \<Longrightarrow> i < length cells \<Longrightarrow> ld (realloc n cells) i = ld cells i"
  by (auto simp: ld_def realloc_def nth_append min_def)

section \<open>The operations\<close>

record 'a vec =
  vec_data :: "'a option list"
  vec_len :: u32
  vec_cap :: u32

definition vec_init :: "u32 \<Rightarrow> 'a vec" where
  "vec_init default_cap =
     \<lparr>vec_data = replicate (unat default_cap) None, vec_len = 0, vec_cap = default_cap\<rparr>"

definition vec_get :: "'a vec \<Rightarrow> u32 \<Rightarrow> 'a option" where
  "vec_get v idx = ld (vec_data v) (unat idx)"

definition vec_set :: "'a vec \<Rightarrow> u32 \<Rightarrow> 'a \<Rightarrow> 'a vec option" where
  "vec_set v idx x = do { cells \<leftarrow> st (vec_data v) (unat idx) x; Some (v\<lparr>vec_data := cells\<rparr>) }"

definition vec_maybe_grow :: "'a vec \<Rightarrow> 'a vec" where
  "vec_maybe_grow v =
     (if vec_len v = vec_cap v
      then v\<lparr>vec_cap := vec_cap v * 2,
             vec_data := realloc (unat (vec_cap v * 2)) (vec_data v)\<rparr>
      else v)"

definition vec_push :: "'a vec \<Rightarrow> 'a \<Rightarrow> 'a vec option" where
  "vec_push v x =
     (let v = vec_maybe_grow v
      in do { v' \<leftarrow> vec_set v (vec_len v) x; Some (v'\<lparr>vec_len := vec_len v + 1\<rparr>) })"

definition vec_pop :: "'a vec \<Rightarrow> ('a \<times> 'a vec) option" where
  "vec_pop v =
     (let v = v\<lparr>vec_len := vec_len v - 1\<rparr>
      in do { x \<leftarrow> vec_get v (vec_len v); Some (x, v) })"

definition vec_copy :: "'a vec \<Rightarrow> 'a vec \<Rightarrow> 'a vec option" where
  "vec_copy dest src =
     (let cells = realloc (unat (vec_cap src)) (vec_data dest); n = unat (vec_len src)
      in if n \<le> length cells \<and> n \<le> length (vec_data src)
         then Some \<lparr>vec_data = take n (vec_data src) @ drop n cells,
                    vec_len = vec_len src, vec_cap = vec_cap src\<rparr>
         else None)"

section \<open>Representation of a list\<close>

text \<open>
  \<open>vec_rep v xs\<close>: the vector is well formed and its first \<open>len\<close> cells hold \<open>xs\<close>. Each operation is
  then an operation on \<open>xs\<close>.
\<close>

definition vec_rep :: "'a vec \<Rightarrow> 'a list \<Rightarrow> bool" where
  "vec_rep v xs \<longleftrightarrow>
     length (vec_data v) = unat (vec_cap v) \<and> unat (vec_len v) = length xs \<and>
     length xs \<le> unat (vec_cap v) \<and> take (length xs) (vec_data v) = map Some xs"

lemma vec_repD:
  assumes "vec_rep v xs"
  shows vec_rep_data: "length (vec_data v) = unat (vec_cap v)"
    and vec_rep_len: "unat (vec_len v) = length xs"
    and vec_rep_cap: "length xs \<le> unat (vec_cap v)"
    and vec_rep_take: "take (length xs) (vec_data v) = map Some xs"
  using assms by (simp_all add: vec_rep_def)

lemma vec_rep_nth:
  assumes "vec_rep v xs" "i < length xs"
  shows "vec_data v ! i = Some (xs ! i)"
  using arg_cong [OF vec_rep_take [OF assms(1)], of "\<lambda>ys. ys ! i"] assms(2) by simp

lemma vec_rep_init [simp]: "vec_rep (vec_init n) []"
  by (simp add: vec_rep_def vec_init_def)

lemma vec_get_rep:
  assumes "vec_rep v xs" "unat i < length xs"
  shows "vec_get v i = Some (xs ! unat i)"
  using vec_rep_nth [OF assms] vec_repD [OF assms(1)] assms(2)
  by (simp add: vec_get_def ld_def)

lemma vec_set_rep:
  assumes "vec_rep v xs" "unat i < length xs"
  shows "\<exists>v'. vec_set v i x = Some v' \<and> vec_rep v' (xs[unat i := x]) \<and> vec_cap v' = vec_cap v"
  using vec_repD [OF assms(1)] assms(2)
  by (simp add: vec_set_def st_def vec_rep_def take_update_swap map_update)

lemma vec_push_rep:
  assumes rep: "vec_rep v xs" and cap: "0 < vec_cap v" "unat (vec_cap v) * 2 < 2 ^ 32"
  shows "\<exists>v'. vec_push v x = Some v' \<and> vec_rep v' (xs @ [x]) \<and> vec_cap v \<le> vec_cap v' \<and>
    unat (vec_cap v') \<le> max (unat (vec_cap v)) (2 * length xs)"
proof -
  note r = vec_repD [OF rep]
  define w where "w = vec_maybe_grow v"
  have pos: "0 < unat (vec_cap v)" using cap(1) by (simp add: word_less_nat_alt)
  have two: "unat (vec_cap v * 2) = unat (vec_cap v) * 2"
    using cap(2) by (simp add: unat_word_ariths)
  have w: "vec_rep w xs" "length xs < unat (vec_cap w)" "vec_len w = vec_len v"
      "vec_cap v \<le> vec_cap w" "unat (vec_cap w) \<le> max (unat (vec_cap v)) (2 * length xs)"
  proof -
    have "length xs = unat (vec_cap v) \<longleftrightarrow> vec_len v = vec_cap v"
      using r(2) by (metis word_unat_eq_iff)
    then show "vec_rep w xs" "length xs < unat (vec_cap w)" "vec_len w = vec_len v"
      "vec_cap v \<le> vec_cap w" "unat (vec_cap w) \<le> max (unat (vec_cap v)) (2 * length xs)"
      using r two pos by (auto simp: w_def vec_maybe_grow_def vec_rep_def word_le_nat_alt)
  qed
  have "unat (vec_len w + 1) = Suc (length xs)"
    using w(2,3) r(2) u32_bound [of "vec_cap w"]
    by (simp add: unat_word_ariths)
  then show ?thesis
    using w vec_repD [OF w(1)]
    by (auto simp: vec_push_def Let_def vec_set_def st_def vec_rep_def take_Suc_conv_app_nth
        take_update_swap list_update_append simp flip: w_def)
qed

lemma vec_pop_rep:
  assumes "vec_rep v (xs @ [x])"
  shows "\<exists>v'. vec_pop v = Some (x, v') \<and> vec_rep v' xs \<and> vec_cap v' = vec_cap v"
proof -
  note r = vec_repD [OF assms]
  have "unat (vec_len v - 1) = length xs"
    using r(2) by (simp add: unat_sub word_le_nat_alt)
  then show ?thesis
    using r vec_rep_nth [OF assms, of "length xs"]
    by (auto simp: vec_pop_def Let_def vec_get_def ld_def vec_rep_def take_Suc_conv_app_nth)
qed

lemma vec_copy_rep:
  assumes "vec_rep src xs"
  shows "\<exists>v'. vec_copy dest src = Some v' \<and> vec_rep v' xs \<and> vec_cap v' = vec_cap src"
  using vec_repD [OF assms] by (auto simp: vec_copy_def Let_def vec_rep_def)

text \<open>A vector created with capacity \<open>0\<close> cannot grow: the first push writes outside its allocation.\<close>

lemma vec_push_cap_0: "vec_rep v xs \<Longrightarrow> vec_cap v = 0 \<Longrightarrow> vec_push v x = None"
  using vec_repD [of v xs] unsigned_eq_0_iff [of "vec_len v"]
  by (auto simp: vec_push_def vec_maybe_grow_def vec_set_def st_def wr_def Let_def)

end
