(* ===== verification/Ring_Buffer.thy ===== *)
theory Ring_Buffer
  imports Vec
begin

text \<open>
  \<open>src/bits/ringbuffer.h\<close>: a bounded queue in an array of \<open>size\<close> cells, written at \<open>head\<close> and read at
  \<open>tail\<close>; one cell stays empty. The macros are modelled as one producer and one consumer run them, one
  call after the other. Division by a zero \<open>size\<close> is undefined.
\<close>

record 'a ringbuffer =
  rb_data :: "'a option list"
  rb_size :: u32
  rb_head :: u32
  rb_tail :: u32

section \<open>The operations\<close>

definition ringbuffer_init :: "u32 \<Rightarrow> 'a ringbuffer" where
  "ringbuffer_init c =
     \<lparr>rb_data = replicate (unat c) None, rb_size = c, rb_head = 0, rb_tail = 0\<rparr>"

definition umod :: "u32 \<Rightarrow> u32 \<Rightarrow> u32 option" where
  "umod a b = (if b = 0 then None else Some (a mod b))"

definition ringbuffer_length :: "'a ringbuffer \<Rightarrow> u32 option" where
  "ringbuffer_length rb = umod (rb_head rb - rb_tail rb) (rb_size rb)"

definition ringbuffer_push :: "'a ringbuffer \<Rightarrow> 'a \<Rightarrow> 'a ringbuffer option" where
  "ringbuffer_push rb val =
     do {
       let head = rb_head rb;
       let tail = rb_tail rb;
       next_head \<leftarrow> umod (head + 1) (rb_size rb);
       if next_head \<noteq> tail
       then do {
         cells \<leftarrow> st (rb_data rb) (unat head) val;
         Some (rb\<lparr>rb_data := cells, rb_head := next_head\<rparr>)
       }
       else Some rb
     }"

text \<open>The popped value is \<open>None\<close> when the queue is empty: the macro then leaves \<open>*val\<close> as it was.\<close>

definition ringbuffer_pop :: "'a ringbuffer \<Rightarrow> ('a option \<times> 'a ringbuffer) option" where
  "ringbuffer_pop rb =
     do {
       let head = rb_head rb;
       let tail = rb_tail rb;
       if head \<noteq> tail
       then do {
         val \<leftarrow> ld (rb_data rb) (unat tail);
         next_tail \<leftarrow> umod (tail + 1) (rb_size rb);
         Some (Some val, rb\<lparr>rb_tail := next_tail\<rparr>)
       }
       else Some (None, rb)
     }"

definition ringbuffer_empty :: "'a ringbuffer \<Rightarrow> bool" where
  "ringbuffer_empty rb \<longleftrightarrow> rb_head rb = rb_tail rb"

definition ringbuffer_full :: "'a ringbuffer \<Rightarrow> bool option" where
  "ringbuffer_full rb =
     do { next_head \<leftarrow> umod (rb_head rb + 1) (rb_size rb); Some (next_head = rb_tail rb) }"

section \<open>Representation of a queue\<close>

text \<open>\<open>rb_rep rb xs\<close>: the buffer holds \<open>xs\<close>, oldest element first.\<close>

definition rb_rep :: "'a ringbuffer \<Rightarrow> 'a list \<Rightarrow> bool" where
  "rb_rep rb xs \<longleftrightarrow>
     rb_head rb < rb_size rb \<and> rb_tail rb < rb_size rb \<and>
     length (rb_data rb) = unat (rb_size rb) \<and> length xs < unat (rb_size rb) \<and>
     unat (rb_head rb) = (unat (rb_tail rb) + length xs) mod unat (rb_size rb) \<and>
     (\<forall>k < length xs. rb_data rb ! ((unat (rb_tail rb) + k) mod unat (rb_size rb)) = Some (xs ! k))"

lemma rb_rep_init: "0 < c \<Longrightarrow> rb_rep (ringbuffer_init c) []"
  by (simp add: rb_rep_def ringbuffer_init_def word_less_nat_alt)

lemma umod_step: "i < n \<Longrightarrow> \<exists>j. umod (i + 1) n = Some j \<and> unat j = Suc (unat i) mod unat n \<and> j < n"
proof -
  assume less: "i < n"
  then have "unat (i + 1) = Suc (unat i)"
    using u32_bound [of n] by (simp add: word_less_nat_alt unat_word_ariths)
  then show ?thesis
    using less by (auto simp: umod_def unat_mod word_less_nat_alt)
qed

text \<open>Going round a circle of \<open>n\<close> cells: fewer than \<open>n\<close> steps do not come back.\<close>

lemma circle_neq:
  assumes "a < n" "k < l" "l < k + (n :: nat)"
  shows "(a + k) mod n \<noteq> (a + l) mod n"
proof
  assume "(a + k) mod n = (a + l) mod n"
  then have "n dvd (a + l) - (a + k)"
    using assms(2) by (metis add_le_cancel_left less_imp_le mod_eq_dvd_iff_nat)
  then show False using assms by (auto dest: dvd_imp_le)
qed

lemma rb_full_iff:
  assumes rep: "rb_rep rb xs"
  shows "Suc (unat (rb_head rb)) mod unat (rb_size rb) = unat (rb_tail rb) \<longleftrightarrow>
    Suc (length xs) = unat (rb_size rb)"
proof -
  let ?n = "unat (rb_size rb)" and ?t = "unat (rb_tail rb)"
  have t: "?t < ?n" "length xs < ?n" using rep by (auto simp: rb_rep_def word_less_nat_alt)
  have "Suc (unat (rb_head rb)) mod ?n = (?t + Suc (length xs)) mod ?n"
    using rep by (simp add: rb_rep_def mod_Suc_eq)
  moreover have "(?t + Suc (length xs)) mod ?n = ?t \<longleftrightarrow> Suc (length xs) = ?n"
    using circle_neq [of ?t ?n 0 "Suc (length xs)"] t
    by (cases "Suc (length xs) = ?n") auto
  ultimately show ?thesis by simp
qed

lemma rb_empty_iff:
  assumes rep: "rb_rep rb xs"
  shows "rb_head rb = rb_tail rb \<longleftrightarrow> xs = []"
proof -
  let ?n = "unat (rb_size rb)" and ?t = "unat (rb_tail rb)"
  have t: "?t < ?n" "length xs < ?n" "unat (rb_head rb) = (?t + length xs) mod ?n"
    using rep by (auto simp: rb_rep_def word_less_nat_alt)
  have "xs \<noteq> [] \<Longrightarrow> (?t + length xs) mod ?n \<noteq> ?t"
    using circle_neq [of ?t ?n 0 "length xs"] t by auto
  then show ?thesis using t by (auto simp: word_unat_eq_iff)
qed

lemma rb_push:
  assumes rep: "rb_rep rb xs"
  shows "\<exists>rb'. ringbuffer_push rb x = Some rb' \<and> rb_size rb' = rb_size rb \<and>
    rb_rep rb' (if Suc (length xs) < unat (rb_size rb) then xs @ [x] else xs)"
proof -
  let ?n = "unat (rb_size rb)" and ?t = "unat (rb_tail rb)" and ?h = "unat (rb_head rb)"
  have r: "rb_head rb < rb_size rb" "rb_tail rb < rb_size rb" "length (rb_data rb) = ?n"
      "length xs < ?n" "?h = (?t + length xs) mod ?n"
      "\<And>k. k < length xs \<Longrightarrow> rb_data rb ! ((?t + k) mod ?n) = Some (xs ! k)"
    using rep by (auto simp: rb_rep_def)
  obtain j where j: "umod (rb_head rb + 1) (rb_size rb) = Some j" "unat j = Suc ?h mod ?n" "j < rb_size rb"
    using umod_step [OF r(1)] by blast
  show ?thesis
  proof (cases "Suc (length xs) < ?n")
    case False
    then have "j = rb_tail rb"
      using rb_full_iff [OF rep] j(2) r(4) by (simp add: word_unat_eq_iff)
    then show ?thesis
      using False j(1) rep by (simp add: ringbuffer_push_def Let_def)
  next
    case True
    then have "j \<noteq> rb_tail rb"
      using rb_full_iff [OF rep] j(2) by (auto simp: word_unat_eq_iff)
    moreover have hl: "?h < ?n" using r(1) by (simp add: word_less_nat_alt)
    moreover have "unat j = (?t + Suc (length xs)) mod ?n"
      using j(2) r(5) by (simp add: mod_Suc_eq)
    moreover have "(rb_data rb)[?h := Some x] ! ((?t + k) mod ?n) = Some ((xs @ [x]) ! k)"
      if "k < Suc (length xs)" for k
    proof (cases "k = length xs")
      case True
      then show ?thesis using r(3,5) hl by simp
    next
      case False
      then have "(?t + k) mod ?n \<noteq> ?h"
        using that r(2,4,5) circle_neq [of ?t ?n k "length xs"] by (auto simp: word_less_nat_alt)
      then show ?thesis using False that r(6) by (simp add: nth_append)
    qed
    ultimately show ?thesis
      using True j r(2,3)
      by (simp add: ringbuffer_push_def Let_def st_def rb_rep_def)
  qed
qed

lemma rb_pop:
  assumes rep: "rb_rep rb (x # xs)"
  shows "\<exists>rb'. ringbuffer_pop rb = Some (Some x, rb') \<and> rb_size rb' = rb_size rb \<and> rb_rep rb' xs"
proof -
  let ?n = "unat (rb_size rb)" and ?t = "unat (rb_tail rb)"
  have r: "rb_head rb < rb_size rb" "rb_tail rb < rb_size rb" "length (rb_data rb) = ?n"
      "Suc (length xs) < ?n" "unat (rb_head rb) = (?t + Suc (length xs)) mod ?n"
      "\<And>k. k < Suc (length xs) \<Longrightarrow> rb_data rb ! ((?t + k) mod ?n) = Some ((x # xs) ! k)"
    using rep by (auto simp: rb_rep_def)
  have tl: "?t < ?n" using r(2) by (simp add: word_less_nat_alt)
  obtain j where j: "umod (rb_tail rb + 1) (rb_size rb) = Some j" "unat j = Suc ?t mod ?n" "j < rb_size rb"
    using umod_step [OF r(2)] by blast
  have step: "(unat j + k) mod ?n = (?t + Suc k) mod ?n" for k
    by (simp add: j(2) mod_add_left_eq)
  have "rb_data rb ! ?t = Some x" using r(6) [of 0] tl by simp
  moreover have "rb_head rb \<noteq> rb_tail rb" using rb_empty_iff [OF rep] by simp
  moreover have "rb_rep (rb\<lparr>rb_tail := j\<rparr>) xs"
    using r j(3) step r(6) [of "Suc _"] by (simp add: rb_rep_def)
  ultimately show ?thesis
    using j(1) tl r(3) by (simp add: ringbuffer_pop_def Let_def ld_def)
qed

lemma rb_pop_empty: "rb_rep rb [] \<Longrightarrow> ringbuffer_pop rb = Some (None, rb)"
  using rb_empty_iff [of rb "[]"] by (simp add: ringbuffer_pop_def)

section \<open>The contract\<close>

text \<open>A queue of bounded capacity that drops what does not fit, for one producer and one consumer.\<close>

locale bounded_fifo =
  fixes rep :: "'q \<Rightarrow> 'a list \<Rightarrow> bool"
    and capacity :: "'q \<Rightarrow> nat"
    and push :: "'q \<Rightarrow> 'a \<Rightarrow> 'q option"
    and pop :: "'q \<Rightarrow> ('a option \<times> 'q) option"
  assumes push: "rep q xs \<Longrightarrow> \<exists>q'. push q x = Some q' \<and> capacity q' = capacity q \<and>
      rep q' (if length xs < capacity q then xs @ [x] else xs)"
    and pop: "rep q (x # xs) \<Longrightarrow> \<exists>q'. pop q = Some (Some x, q') \<and> capacity q' = capacity q \<and> rep q' xs"
    and pop_empty: "rep q [] \<Longrightarrow> pop q = Some (None, q)"
begin

text \<open>Pushing a sequence keeps its longest prefix that fits.\<close>

lemma push_all:
  assumes "rep q xs" "length xs \<le> capacity q"
  shows "\<exists>q'. fold (\<lambda>y r. Option.bind r (\<lambda>q. push q y)) ys (Some q) = Some q' \<and>
    capacity q' = capacity q \<and> rep q' (xs @ take (capacity q - length xs) ys)"
  using assms
proof (induction ys arbitrary: q xs)
  case (Cons y ys)
  obtain q1 where q1: "push q y = Some q1" "capacity q1 = capacity q"
      "rep q1 (if length xs < capacity q then xs @ [y] else xs)"
    using push [OF Cons.prems(1)] by blast
  show ?case
  proof (cases "length xs < capacity q")
    case True
    then show ?thesis
      using Cons.IH [of q1 "xs @ [y]"] q1 by (auto simp: take_Cons' simp flip: diff_Suc_eq_diff_pred)
  next
    case False
    then show ?thesis using Cons.IH [of q1 xs] q1 Cons.prems(2) by simp
  qed
qed simp

lemma pop_after_push:
  assumes "rep q xs" "push q y = Some q'" "length xs < capacity q"
  shows "\<exists>q''. pop q' = Some (Some (hd (xs @ [y])), q'') \<and> rep q'' (tl (xs @ [y]))"
proof -
  have "rep q' (xs @ [y])" using push [OF assms(1), of y] assms(2,3) by auto
  then show ?thesis using pop by (cases xs) fastforce+
qed

end

interpretation rb: bounded_fifo rb_rep "\<lambda>rb. unat (rb_size rb) - 1" ringbuffer_push ringbuffer_pop
proof
  fix q :: "'a ringbuffer" and xs x
  show "rb_rep q xs \<Longrightarrow> \<exists>q'. ringbuffer_push q x = Some q' \<and>
      unat (rb_size q') - 1 = unat (rb_size q) - 1 \<and>
      rb_rep q' (if length xs < unat (rb_size q) - 1 then xs @ [x] else xs)"
    using rb_push [of q xs x] by (auto simp: less_diff_conv)
  show "rb_rep q (x # xs) \<Longrightarrow> \<exists>q'. ringbuffer_pop q = Some (Some x, q') \<and>
      unat (rb_size q') - 1 = unat (rb_size q) - 1 \<and> rb_rep q' xs"
    using rb_pop [of q x xs] by auto
qed (rule rb_pop_empty)

text \<open>
  A ring buffer of \<open>size\<close> cells is a queue of capacity \<open>size - 1\<close>: after any sequence of pushes into
  an empty one it holds the first \<open>size - 1\<close> elements in their order. The rest is dropped without a sign
  to the caller.
\<close>

theorem ringbuffer_push_all:
  assumes "0 < c"
  shows "\<exists>rb. fold (\<lambda>y r. Option.bind r (\<lambda>rb. ringbuffer_push rb y)) ys (Some (ringbuffer_init c)) = Some rb \<and>
    rb_rep rb (take (unat c - 1) ys)"
  using rb.push_all [OF rb_rep_init [OF assms], of ys] by (auto simp: ringbuffer_init_def)

theorem ringbuffer_push_all_witness:
  "\<exists>rb. fold (\<lambda>y r. Option.bind r (\<lambda>rb. ringbuffer_push rb y)) [1, 2, 3 :: nat] (Some (ringbuffer_init 3)) =
     Some rb \<and> rb_rep rb [1, 2]"
  using ringbuffer_push_all [of 3 "[1, 2, 3 :: nat]"] by simp

text \<open>
  The macro \<open>ringbuffer_length\<close> subtracts modulo \<open>2 ^ 32\<close> before it reduces modulo \<open>size\<close>: it is the
  number of stored elements whenever \<open>size\<close> divides \<open>2 ^ 32\<close>, as the power-of-two sizes of the code do.
\<close>

theorem ringbuffer_length_correct:
  assumes "rb_rep rb xs" "unat (rb_size rb) dvd 2 ^ 32"
  shows "\<exists>n. ringbuffer_length rb = Some n \<and> unat n = length xs"
proof -
  let ?n = "unat (rb_size rb)" and ?t = "unat (rb_tail rb)" and ?h = "unat (rb_head rb)"
  have r: "?t < ?n" "length xs < ?n" "?h = (?t + length xs) mod ?n" "rb_size rb \<noteq> 0"
    using assms(1) by (auto simp: rb_rep_def word_less_nat_alt)
  have "rb_head rb - rb_tail rb = word_of_nat (?h + (2 ^ 32 - ?t))"
    using u32_bound [of "rb_tail rb"] by (simp add: of_nat_diff)
  then have "unat (rb_head rb - rb_tail rb) = (?h + (2 ^ 32 - ?t)) mod 2 ^ 32"
    by (simp only: unat_of_nat) simp
  then have "unat (rb_head rb - rb_tail rb) mod ?n = (?h + (2 ^ 32 - ?t)) mod ?n"
    using assms(2) by (simp only: mod_mod_cancel)
  also have "\<dots> = (?t + length xs + (2 ^ 32 - ?t)) mod ?n"
    unfolding r(3) by (rule mod_add_left_eq)
  also have "?t + length xs + (2 ^ 32 - ?t) = length xs + 2 ^ 32"
    using u32_bound [of "rb_tail rb"] by simp
  also have "(length xs + 2 ^ 32) mod ?n = length xs"
    using assms(2) r(2) by (simp add: mod_add_eq [symmetric] dvd_imp_mod_0)
  finally show ?thesis
    using r(4) by (simp add: ringbuffer_length_def umod_def unat_mod)
qed

theorem ringbuffer_length_correct_witness:
  "\<exists>n. ringbuffer_length \<lparr>rb_data = [None, None, None, Some (7 :: nat)], rb_size = 4, rb_head = 0, rb_tail = 3\<rparr> =
     Some n \<and> unat n = length [7 :: nat]"
  by (rule ringbuffer_length_correct) (simp_all add: rb_rep_def)

text \<open>
  For another size it need not be: a buffer of three cells that holds one element has length \<open>2\<close>.
\<close>

theorem ringbuffer_length_wrong:
  "rb_rep \<lparr>rb_data = [None, None, Some (7 :: nat)], rb_size = 3, rb_head = 0, rb_tail = 2\<rparr> [7] \<and>
   ringbuffer_length \<lparr>rb_data = [None, None, Some (7 :: nat)], rb_size = 3, rb_head = 0, rb_tail = 2\<rparr> = Some 2"
  by (simp add: rb_rep_def ringbuffer_length_def umod_def)

end
