(* ===== verification/Free_List.thy ===== *)
theory Free_List
  imports Vec
begin

text \<open>
  \<open>src/bits/freelist.h\<close>: a pool of cells addressed by 32-bit indices, with the stack of the free
  indices beside it. The scheduler keeps its jobs in one, and the radix tree its nodes.
\<close>

record 'a freelist =
  fl_data :: "'a option list"
  indicices :: "u32 option list"
  fl_cap :: u32
  free :: u32

section \<open>The operations\<close>

definition freelist_init :: "u32 \<Rightarrow> 'a freelist" where
  "freelist_init default_cap =
     \<lparr>fl_data = replicate (unat default_cap) None,
      indicices = for_loop 0 (unat default_cap) (\<lambda>i ind. ind[i := Some (word_of_nat i)])
        (replicate (unat default_cap) None),
      fl_cap = default_cap, free = default_cap\<rparr>"

text \<open>
  The new capacity goes through a \<open>float\<close>: the old capacity is converted first, which rounds it to 24
  significant bits, to nearest with ties to even. Its product with \<open>2\<close> or \<open>1.25\<close> is exact in the
  \<open>double\<close> the two operands are promoted to, and the conversion back truncates; it is undefined when
  the value does not fit 32 bits.
\<close>

definition float_shift :: "nat \<Rightarrow> nat" where
  "float_shift n = length (takeWhile (\<lambda>e. 2 ^ (24 + e) \<le> n) [0..<8])"

definition float_of_u32 :: "nat \<Rightarrow> nat" where
  "float_of_u32 n =
     (let u = 2 ^ float_shift n; q = n div u; r = n mod u
      in u * (if u < 2 * r \<or> (u = 2 * r \<and> odd q) then q + 1 else q))"

definition grown_cap :: "u32 \<Rightarrow> u32 option" where
  "grown_cap c =
     (let f = float_of_u32 (unat c); n = (if c \<le> 2 ^ 14 then f * 2 else f * 5 div 4)
      in if n < 2 ^ 32 then Some (word_of_nat n) else None)"

definition freelist_maybe_grow :: "'a freelist \<Rightarrow> 'a freelist option" where
  "freelist_maybe_grow fl =
     (if free fl = 0
      then do {
        let last_cap = fl_cap fl;
        cap' \<leftarrow> grown_cap last_cap;
        let ind = realloc (unat cap') (indicices fl);
        let ind = for_loop (unat last_cap) (unat cap')
          (\<lambda>i ind. ind[i - unat last_cap := Some (word_of_nat i)]) ind;
        Some (fl\<lparr>fl_cap := cap', fl_data := realloc (unat cap') (fl_data fl),
                 indicices := ind, free := cap' - last_cap\<rparr>)
      }
      else Some fl)"

definition freelist_insert :: "'a freelist \<Rightarrow> 'a \<Rightarrow> (u32 \<times> 'a freelist) option" where
  "freelist_insert fl elem =
     do {
       fl \<leftarrow> freelist_maybe_grow fl;
       let fl = fl\<lparr>free := free fl - 1\<rparr>;
       idx \<leftarrow> ld (indicices fl) (unat (free fl));
       cells \<leftarrow> st (fl_data fl) (unat idx) elem;
       Some (idx, fl\<lparr>fl_data := cells\<rparr>)
     }"

definition freelist_get :: "'a freelist \<Rightarrow> u32 \<Rightarrow> 'a option" where
  "freelist_get fl idx = ld (fl_data fl) (unat idx)"

text \<open>An assignment to a cell, such as \<open>jobs.data[i].rc = ...\<close>.\<close>

definition freelist_set :: "'a freelist \<Rightarrow> u32 \<Rightarrow> 'a \<Rightarrow> 'a freelist option" where
  "freelist_set fl idx elem =
     do { cells \<leftarrow> st (fl_data fl) (unat idx) elem; Some (fl\<lparr>fl_data := cells\<rparr>) }"

definition freelist_remove :: "'a freelist \<Rightarrow> u32 \<Rightarrow> 'a freelist option" where
  "freelist_remove fl idx =
     do {
       ind \<leftarrow> st (indicices fl) (unat (free fl)) idx;
       Some (fl\<lparr>indicices := ind, free := free fl + 1\<rparr>)
     }"

section \<open>Growth\<close>

lemma float_shift_bounds:
  assumes "n < 2 ^ 32"
  shows "n < 2 ^ (24 + float_shift n)" "float_shift n = 0 \<or> 2 ^ (23 + float_shift n) \<le> n"
proof -
  let ?P = "\<lambda>e. 2 ^ (24 + e) \<le> n"
  have le: "float_shift n \<le> 8"
    unfolding float_shift_def using length_takeWhile_le [of ?P "[0..<8]"] by simp
  show "n < 2 ^ (24 + float_shift n)"
  proof (cases "float_shift n < 8")
    case True
    then have "\<not> ?P ([0..<8] ! float_shift n)"
      unfolding float_shift_def by (intro nth_length_takeWhile) simp
    then show ?thesis using True by simp
  next
    case False
    then show ?thesis using le assms by (simp add: not_less)
  qed
  show "float_shift n = 0 \<or> 2 ^ (23 + float_shift n) \<le> n"
  proof (cases "float_shift n")
    case (Suc k)
    then have "k < length (takeWhile ?P [0..<8])" by (simp add: float_shift_def)
    then have "?P (takeWhile ?P [0..<8] ! k)" by (meson nth_mem set_takeWhileD)
    moreover have "takeWhile ?P [0..<8] ! k = k"
      using \<open>k < _\<close> le Suc by (simp add: takeWhile_nth)
    ultimately show ?thesis by (simp add: Suc)
  qed simp
qed

lemma float_of_u32_exact: "n < 2 ^ 24 \<Longrightarrow> float_of_u32 n = n"
  using float_shift_bounds(2) [of n] power_increasing [of 24 "23 + float_shift n" "2 :: nat"]
  by (cases "float_shift n") (auto simp: float_of_u32_def)

text \<open>Rounding loses less than one part in \<open>2 ^ 24\<close>.\<close>

lemma float_of_u32_error:
  assumes "n < 2 ^ 32"
  shows "2 ^ 24 * n \<le> 2 ^ 24 * float_of_u32 n + n \<and> 2 ^ 24 * float_of_u32 n \<le> 2 ^ 24 * n + n"
proof (cases "float_shift n = 0")
  case True
  then show ?thesis by (simp add: float_of_u32_def)
next
  case False
  define u where "u = (2 :: nat) ^ float_shift n"
  have le: "2 ^ 23 * u \<le> n"
    using float_shift_bounds(2) [OF assms] False by (simp add: u_def power_add)
  have n: "n = u * (n div u) + n mod u" by simp
  have "2 * n \<le> 2 * float_of_u32 n + u \<and> 2 * float_of_u32 n \<le> 2 * n + u"
  proof (cases "u < 2 * (n mod u) \<or> (u = 2 * (n mod u) \<and> odd (n div u))")
    case True
    then have "float_of_u32 n = u * (n div u) + u"
      by (simp add: float_of_u32_def Let_def flip: u_def)
    moreover have "n mod u \<le> u" by (simp add: u_def less_imp_le)
    moreover have "u \<le> 2 * (n mod u)" using True by auto
    ultimately show ?thesis using n by linarith
  next
    case False
    then have "float_of_u32 n = u * (n div u)" "2 * (n mod u) \<le> u"
      by (auto simp: float_of_u32_def Let_def simp flip: u_def)
    then show ?thesis using n by linarith
  qed
  then show ?thesis using le by simp
qed

lemma grown_cap_larger:
  assumes "grown_cap c = Some c'" "0 < c"
  shows "c < c'"
proof -
  let ?n = "unat c" and ?f = "float_of_u32 (unat c)"
  have pos: "0 < ?n" using assms(2) by (simp add: word_less_nat_alt)
  have err: "2 ^ 24 * ?n \<le> 2 ^ 24 * ?f + ?n"
    using float_of_u32_error [OF u32_bound] by blast
  have small: "c \<le> 2 ^ 14 \<Longrightarrow> ?f = ?n"
    by (rule float_of_u32_exact) (simp add: word_le_nat_alt)
  have big: "\<not> c \<le> 2 ^ 14 \<Longrightarrow> 2 ^ 14 < ?n"
    by (simp add: word_le_nat_alt)
  show ?thesis
  proof (cases "c \<le> 2 ^ 14")
    case True
    then show ?thesis
      using assms small pos
      by (auto simp: grown_cap_def Let_def word_less_nat_alt unat_word_ariths split: if_splits)
  next
    case False
    have "?n < ?f * 5 div 4" using big [OF False] err by simp
    then show ?thesis
      using assms False
      by (auto simp: grown_cap_def Let_def word_less_nat_alt unat_of_nat split: if_splits)
  qed
qed

lemma grown_cap_defined: "unat c \<le> 2 ^ 31 \<Longrightarrow> \<exists>c'. grown_cap c = Some c'"
  using float_of_u32_error [OF u32_bound, of c] float_of_u32_exact [of "unat c"]
  by (auto simp: grown_cap_def Let_def word_le_nat_alt)

section \<open>Representation of a finite map\<close>

text \<open>
  \<open>fl_rep fl m\<close>: the pool holds exactly the elements of \<open>m\<close>. Every index below the capacity is
  either in use or on the stack of free ones, once.
\<close>

definition fl_rep :: "'a freelist \<Rightarrow> (u32 \<rightharpoonup> 'a) \<Rightarrow> bool" where
  "fl_rep fl m \<longleftrightarrow>
     length (fl_data fl) = unat (fl_cap fl) \<and> length (indicices fl) = unat (fl_cap fl) \<and>
     (\<exists>fs. take (unat (free fl)) (indicices fl) = map Some fs \<and> length fs = unat (free fl) \<and>
        distinct fs \<and> set fs \<inter> dom m = {} \<and> set fs \<union> dom m = {i. i < fl_cap fl}) \<and>
     (\<forall>i x. m i = Some x \<longrightarrow> fl_data fl ! unat i = Some x)"

lemma map_update_seq:
  assumes "length xs = n" "b - a \<le> n"
  shows "for_loop a b (\<lambda>i ind. ind[i - a := g i]) xs = map g [a..<b] @ drop (b - a) xs"
proof (cases "a \<le> b")
  case True
  let ?P = "\<lambda>i ind. ind = map g [a..<i] @ drop (i - a) xs"
  show ?thesis
  proof (rule for_loop_invariant [where P = ?P])
    fix i ind assume i: "a \<le> i" "i < b" and P: "?P i ind"
    have "drop (i - a) xs = xs ! (i - a) # drop (Suc (i - a)) xs"
      using i assms by (simp add: Cons_nth_drop_Suc)
    then show "?P (Suc i) (ind[i - a := g i])"
      using i by (simp add: P list_update_append Suc_diff_le)
  qed (use True in simp_all)
qed simp

lemma unat_u32_of_nat [simp]: "n < 2 ^ 32 \<Longrightarrow> unat (word_of_nat n :: u32) = n"
  by (simp add: unat_of_nat)

lemma free_range:
  assumes "b \<le> 2 ^ 32"
  shows "distinct (map (word_of_nat :: nat \<Rightarrow> u32) [a..<b])"
    "(word_of_nat :: nat \<Rightarrow> u32) ` {a..<b} = {i. a \<le> unat i \<and> unat i < b}"
proof -
  have inv: "unat (word_of_nat i :: u32) = i" if "i < b" for i
    using that assms by simp
  then show "distinct (map (word_of_nat :: nat \<Rightarrow> u32) [a..<b])"
    by (auto simp: distinct_map intro!: inj_on_inverseI [where g = unat])
  show "(word_of_nat :: nat \<Rightarrow> u32) ` {a..<b} = {i. a \<le> unat i \<and> unat i < b}"
  proof (intro set_eqI iffI)
    fix i :: u32 assume "i \<in> {i. a \<le> unat i \<and> unat i < b}"
    then show "i \<in> word_of_nat ` {a..<b}" by (intro image_eqI [of _ _ "unat i"]) auto
  qed (auto simp: inv)
qed

lemma fl_rep_init: "fl_rep (freelist_init n) Map.empty"
proof -
  let ?fs = "map (word_of_nat :: nat \<Rightarrow> u32) [0..<unat n]"
  have b: "unat n \<le> 2 ^ 32" using u32_bound [of n] by simp
  have "indicices (freelist_init n) = map Some ?fs"
    using map_update_seq [of "replicate (unat n) None" "unat n" "unat n" 0
        "\<lambda>i. Some (word_of_nat i)"]
    by (simp add: freelist_init_def comp_def)
  moreover have "set ?fs = {i. i < n}"
    using free_range(2) [OF b, of 0] by (simp add: word_less_nat_alt)
  ultimately show ?thesis
    using free_range(1) [OF b, of 0]
    by (auto simp: fl_rep_def freelist_init_def intro!: exI [of _ ?fs])
qed

lemma fl_cap_init [simp]: "fl_cap (freelist_init n) = n"
  by (simp add: freelist_init_def)

lemma fl_repD:
  assumes "fl_rep fl m"
  shows "length (fl_data fl) = unat (fl_cap fl)" "length (indicices fl) = unat (fl_cap fl)"
    "m i = Some x \<Longrightarrow> fl_data fl ! unat i = Some x" "i \<in> dom m \<Longrightarrow> i < fl_cap fl"
    "free fl \<le> fl_cap fl"
proof -
  obtain fs where fs: "take (unat (free fl)) (indicices fl) = map Some fs" "length fs = unat (free fl)"
      "set fs \<union> dom m = {i. i < fl_cap fl}"
    using assms by (auto simp: fl_rep_def)
  show len: "length (fl_data fl) = unat (fl_cap fl)" "length (indicices fl) = unat (fl_cap fl)"
    "m i = Some x \<Longrightarrow> fl_data fl ! unat i = Some x"
    using assms by (auto simp: fl_rep_def)
  show "i \<in> dom m \<Longrightarrow> i < fl_cap fl" using fs(3) by blast
  have "length (take (unat (free fl)) (indicices fl)) = unat (free fl)"
    using fs by simp
  then show "free fl \<le> fl_cap fl" using len by (simp add: word_le_nat_alt)
qed

lemma fl_rep_grow:
  assumes rep: "fl_rep fl m" and cap: "0 < fl_cap fl" "unat (fl_cap fl) \<le> 2 ^ 31"
  shows "\<exists>fl'. freelist_maybe_grow fl = Some fl' \<and> fl_rep fl' m \<and> 0 < free fl' \<and>
    fl_cap fl \<le> fl_cap fl'"
proof (cases "free fl = 0")
  case False
  then show ?thesis
    using rep by (auto simp: freelist_maybe_grow_def word_neq_0_conv)
next
  case True
  let ?c = "fl_cap fl"
  obtain c' where c': "grown_cap ?c = Some c'" using grown_cap_defined [OF cap(2)] by blast
  have less: "?c < c'" by (rule grown_cap_larger [OF c' cap(1)])
  define fs where "fs = map (word_of_nat :: nat \<Rightarrow> u32) [unat ?c..<unat c']"
  let ?ind = "for_loop (unat ?c) (unat c') (\<lambda>i ind. ind[i - unat ?c := Some (word_of_nat i)])
    (realloc (unat c') (indicices fl))"
  let ?fl = "fl\<lparr>fl_cap := c', fl_data := realloc (unat c') (fl_data fl), indicices := ?ind,
    free := c' - ?c\<rparr>"
  have le: "unat ?c \<le> unat c'" "unat c' \<le> 2 ^ 32"
    using less u32_bound [of c'] by (simp_all add: word_less_nat_alt)
  have ind: "?ind = map Some fs @ drop (unat c' - unat ?c) (realloc (unat c') (indicices fl))"
    using map_update_seq [of "realloc (unat c') (indicices fl)" "unat c'" "unat c'" "unat ?c"
        "\<lambda>i. Some (word_of_nat i)"]
    by (simp add: comp_def fs_def)
  have free': "unat (c' - ?c) = unat c' - unat ?c"
    using less by (intro unat_sub) simp
  have dom: "dom m = {i. i < ?c}"
    using rep True by (auto simp: fl_rep_def)
  have "set fs = {i. ?c \<le> i \<and> i < c'}"
    using free_range(2) [OF le(2), of "unat ?c"] by (simp add: fs_def word_le_nat_alt word_less_nat_alt)
  then have "set fs \<inter> dom m = {}" "set fs \<union> dom m = {i. i < c'}"
    using dom less by auto
  moreover have "realloc (unat c') (fl_data fl) ! unat i = Some x" if "m i = Some x" for i x
  proof -
    have "i < ?c" using dom that by blast
    then show ?thesis
      using fl_repD [OF rep] that le by (auto simp: realloc_def nth_append word_less_nat_alt)
  qed
  moreover have "distinct fs" "length fs = unat c' - unat ?c"
    using free_range(1) [OF le(2), of "unat ?c"] by (simp_all add: fs_def)
  ultimately have "fl_rep ?fl m"
    unfolding fl_rep_def ind using le
    by (intro conjI exI [of _ fs]) (simp_all add: free')
  moreover have "0 < c' - ?c" using less free' le by (simp add: word_less_nat_alt)
  ultimately show ?thesis
    using True c' less by (auto simp: freelist_maybe_grow_def Let_def)
qed

lemma fl_rep_insert:
  assumes rep: "fl_rep fl m" and cap: "0 < fl_cap fl" "unat (fl_cap fl) \<le> 2 ^ 31"
  shows "\<exists>idx fl'. freelist_insert fl x = Some (idx, fl') \<and> m idx = None \<and>
    fl_rep fl' (m(idx \<mapsto> x)) \<and> fl_cap fl \<le> fl_cap fl'"
proof -
  obtain g where g: "freelist_maybe_grow fl = Some g" "fl_rep g m" "0 < free g"
      "fl_cap fl \<le> fl_cap g"
    using fl_rep_grow [OF assms] by blast
  note r = fl_repD [OF g(2)]
  obtain fs where fs: "take (unat (free g)) (indicices g) = map Some fs" "length fs = unat (free g)"
      "distinct fs" "set fs \<inter> dom m = {}" "set fs \<union> dom m = {i. i < fl_cap g}"
    using g(2) by (auto simp: fl_rep_def)
  define k where "k = unat (free g) - 1"
  have k: "unat (free g) = Suc k" "unat (free g - 1) = k"
    using g(3) by (simp_all add: k_def word_less_nat_alt unat_sub word_le_nat_alt)
  define idx where "idx = fs ! k"
  have split: "fs = take k fs @ [idx]"
    using fs(2) k by (metis idx_def lessI take_Suc_conv_app_nth take_all order_refl)
  have kl: "k < length (indicices g)"
    using r(2,5) k by (simp add: word_le_nat_alt)
  have top: "indicices g ! k = Some idx"
    using arg_cong [OF fs(1), of "\<lambda>l. l ! k"] fs(2) k by (simp add: idx_def)
  have rest: "take k (indicices g) = map Some (take k fs)"
    using arg_cong [OF fs(1), of "take k"] k by (simp add: take_map)
  have "idx \<in> set fs" using fs(2) k by (simp add: idx_def)
  then have idx: "idx \<in> set fs" "idx < fl_cap g" "m idx = None"
    using fs(4,5) by blast+
  have "set (take k fs) = set fs - {idx}"
    using fs(3) by (subst (2) split, subst (asm) split) auto
  then have part: "set (take k fs) \<inter> dom (m(idx \<mapsto> x)) = {}"
      "set (take k fs) \<union> dom (m(idx \<mapsto> x)) = {i. i < fl_cap g}"
    using fs(4,5) idx by auto
  have cells: "\<forall>j y. (m(idx \<mapsto> x)) j = Some y \<longrightarrow> (fl_data g)[unat idx := Some x] ! unat j = Some y"
    using r(1,3) idx(2)
    by (auto simp: nth_list_update word_less_nat_alt simp flip: word_unat_eq_iff)
  let ?g = "g\<lparr>free := free g - 1, fl_data := (fl_data g)[unat idx := Some x]\<rparr>"
  have "fl_rep ?g (m(idx \<mapsto> x))"
    unfolding fl_rep_def using r(1,2) rest part fs(2,3) k cells
    by (intro conjI exI [of _ "take k fs"]) simp_all
  moreover have "freelist_insert fl x = Some (idx, ?g)"
    using g(1) k top r(1) idx(2) kl
    by (simp add: freelist_insert_def ld_def st_def word_less_nat_alt)
  ultimately show ?thesis using idx(3) g(4) by auto
qed

lemma fl_rep_get:
  assumes "fl_rep fl m" "m i = Some x"
  shows "freelist_get fl i = Some x"
  using fl_repD [OF assms(1)] assms(2)
  by (auto simp: freelist_get_def ld_def word_less_nat_alt)

lemma fl_rep_set:
  assumes "fl_rep fl m" "i \<in> dom m"
  shows "\<exists>fl'. freelist_set fl i x = Some fl' \<and> fl_rep fl' (m(i \<mapsto> x)) \<and> fl_cap fl' = fl_cap fl"
proof -
  have "unat i < length (fl_data fl)"
    using fl_repD [OF assms(1)] assms(2) by (simp add: word_less_nat_alt)
  moreover have "dom (m(i \<mapsto> x)) = dom m" using assms(2) by auto
  ultimately show ?thesis
    using assms(1) by (auto simp: freelist_set_def st_def fl_rep_def nth_list_update simp flip: word_unat_eq_iff)
qed

lemma fl_rep_remove:
  assumes rep: "fl_rep fl m" and "i \<in> dom m"
  shows "\<exists>fl'. freelist_remove fl i = Some fl' \<and> fl_rep fl' (m(i := None)) \<and> fl_cap fl' = fl_cap fl"
proof -
  note r = fl_repD [OF rep]
  obtain fs where fs: "take (unat (free fl)) (indicices fl) = map Some fs" "length fs = unat (free fl)"
      "distinct fs" "set fs \<inter> dom m = {}" "set fs \<union> dom m = {i. i < fl_cap fl}"
    using rep by (auto simp: fl_rep_def)
  have new: "i \<notin> set fs" "i < fl_cap fl" using fs(4,5) assms(2) by blast+
  have "card (insert i (set fs)) \<le> card {j. j < fl_cap fl}"
    using fs(5) new by (intro card_mono) auto
  also have "card {j. j < fl_cap fl} = unat (fl_cap fl)"
    using distinct_card [OF free_range(1) [of "unat (fl_cap fl)" 0]]
      free_range(2) [of "unat (fl_cap fl)" 0] u32_bound [of "fl_cap fl"]
    by (simp add: word_less_nat_alt)
  finally have room: "unat (free fl) < unat (fl_cap fl)"
    using fs(2,3) new(1) by (simp add: distinct_card)
  have suc: "unat (free fl + 1) = Suc (unat (free fl))"
    using room u32_bound [of "fl_cap fl"] by (simp add: unat_word_ariths)
  let ?fl = "fl\<lparr>indicices := (indicices fl)[unat (free fl) := Some i], free := free fl + 1\<rparr>"
  have "set (fs @ [i]) \<inter> dom (m(i := None)) = {}"
      "set (fs @ [i]) \<union> dom (m(i := None)) = {i. i < fl_cap fl}"
    using fs(4,5) assms(2) by auto
  then have "fl_rep ?fl (m(i := None))"
    unfolding fl_rep_def using r(1,2) fs(1-3) new room suc rep
    by (auto simp: fl_rep_def take_Suc_conv_app_nth take_update_swap list_update_append
        intro!: exI [of _ "fs @ [i]"])
  then show ?thesis
    using room r(2) by (simp add: freelist_remove_def st_def)
qed

section \<open>The contract\<close>

text \<open>
  What the clients of a pool rely on: an allocation returns an index that is not in use, and no
  operation disturbs the cells of the others.
\<close>

locale pool =
  fixes rep :: "'h \<Rightarrow> (u32 \<rightharpoonup> 'a) \<Rightarrow> bool"
    and room :: "'h \<Rightarrow> bool"
    and alloc :: "'h \<Rightarrow> 'a \<Rightarrow> (u32 \<times> 'h) option"
    and get :: "'h \<Rightarrow> u32 \<Rightarrow> 'a option"
    and put :: "'h \<Rightarrow> u32 \<Rightarrow> 'a \<Rightarrow> 'h option"
    and release :: "'h \<Rightarrow> u32 \<Rightarrow> 'h option"
  assumes alloc: "rep h m \<Longrightarrow> room h \<Longrightarrow>
      \<exists>i h'. alloc h x = Some (i, h') \<and> m i = None \<and> rep h' (m(i \<mapsto> x))"
    and get: "rep h m \<Longrightarrow> m i = Some x \<Longrightarrow> get h i = Some x"
    and put: "rep h m \<Longrightarrow> i \<in> dom m \<Longrightarrow>
      \<exists>h'. put h i x = Some h' \<and> rep h' (m(i \<mapsto> x)) \<and> (room h \<longrightarrow> room h')"
    and release: "rep h m \<Longrightarrow> i \<in> dom m \<Longrightarrow>
      \<exists>h'. release h i = Some h' \<and> rep h' (m(i := None)) \<and> (room h \<longrightarrow> room h')"
begin

lemma alloc_get:
  assumes "rep h m" "alloc h x = Some (i, h')" "room h"
  shows "get h' i = Some x" "m i = None" "rep h' (m(i \<mapsto> x))"
proof -
  show "m i = None" "rep h' (m(i \<mapsto> x))"
    using alloc [OF assms(1,3), of x] assms(2) by auto
  then show "get h' i = Some x" by (intro get [of h' "m(i \<mapsto> x)"]) auto
qed

lemma alloc_keeps:
  assumes "rep h m" "alloc h x = Some (i, h')" "room h" "m j = Some y"
  shows "get h' j = Some y"
  using alloc_get [OF assms(1-3)] assms(4) by (intro get [of h' "m(i \<mapsto> x)"]) auto

text \<open>What is released can be allocated again, and everything else stays where it is.\<close>

lemma release_keeps:
  assumes "rep h m" "release h i = Some h'" "i \<in> dom m" "m j = Some y" "j \<noteq> i"
  shows "get h' j = Some y"
  using release [OF assms(1,3)] assms(2,4,5) by (intro get [of h' "m(i := None)"]) auto

lemma update_get:
  assumes "rep h m" "i \<in> dom m" "put h i x = Some h'"
  shows "get h' i = Some x" "m j = Some y \<Longrightarrow> j \<noteq> i \<Longrightarrow> get h' j = Some y"
  using put [OF assms(1,2), of x] assms(3) by (auto intro: get)

end

lemma grown_cap_le:
  assumes "grown_cap c = Some c'"
  shows "unat c' \<le> 2 * unat c"
proof (cases "c \<le> 2 ^ 14")
  case True
  then have "float_of_u32 (unat c) = unat c"
    by (intro float_of_u32_exact) (simp add: word_le_nat_alt)
  then show ?thesis
    using assms True by (auto simp: grown_cap_def Let_def unat_word_ariths split: if_splits)
next
  case False
  then have "16777216 * float_of_u32 (unat c) \<le> 16777217 * unat c"
    using float_of_u32_error [OF u32_bound, of c] by simp
  then have "float_of_u32 (unat c) * 5 div 4 \<le> 2 * unat c"
    by simp
  then show ?thesis
    using assms False by (auto simp: grown_cap_def Let_def unat_of_nat split: if_splits)
qed

lemma freelist_insert_cap:
  assumes "freelist_insert fl x = Some (i, fl')"
  shows "fl_cap fl' = fl_cap fl \<or> free fl = 0 \<and> unat (fl_cap fl') \<le> 2 * unat (fl_cap fl)"
proof -
  obtain g where "freelist_maybe_grow fl = Some g" "fl_cap fl' = fl_cap g"
    using assms by (auto simp: freelist_insert_def Let_def split: option.splits Option.bind_splits)
  then show ?thesis
    by (auto simp: freelist_maybe_grow_def Let_def split: if_splits Option.bind_splits dest!: grown_cap_le)
qed

text \<open>A pool can grow while its capacity is positive and at most \<open>2 ^ 31\<close>.\<close>

definition fl_room :: "'a freelist \<Rightarrow> bool" where
  "fl_room fl \<longleftrightarrow> 0 < fl_cap fl \<and> unat (fl_cap fl) \<le> 2 ^ 31"

interpretation fl: pool fl_rep fl_room freelist_insert freelist_get freelist_set freelist_remove
proof
  fix fl :: "'a freelist" and m :: "u32 \<rightharpoonup> 'a" and x i
  assume rep: "fl_rep fl m"
  show "fl_room fl \<Longrightarrow> \<exists>i h'. freelist_insert fl x = Some (i, h') \<and> m i = None \<and> fl_rep h' (m(i \<mapsto> x))"
    using fl_rep_insert [OF rep] by (force simp: fl_room_def)
  show "m i = Some x \<Longrightarrow> freelist_get fl i = Some x" by (rule fl_rep_get [OF rep])
  show "i \<in> dom m \<Longrightarrow>
      \<exists>h'. freelist_set fl i x = Some h' \<and> fl_rep h' (m(i \<mapsto> x)) \<and> (fl_room fl \<longrightarrow> fl_room h')"
    using fl_rep_set [OF rep] by (force simp: fl_room_def)
  show "i \<in> dom m \<Longrightarrow>
      \<exists>h'. freelist_remove fl i = Some h' \<and> fl_rep h' (m(i := None)) \<and> (fl_room fl \<longrightarrow> fl_room h')"
    using fl_rep_remove [OF rep] by (force simp: fl_room_def)
qed

text \<open>
  A freelist that represents the map \<open>m\<close> and has room allocates an index outside \<open>m\<close>, growing
  its arrays when no index is free; the element is found there, every other element is still found at
  its index, and no index is lost or handed out twice: the result represents \<open>m\<close> with the one new entry.
\<close>

theorem freelist_insert_fresh:
  assumes "fl_rep fl m" "fl_room fl"
  shows "\<exists>idx fl'. freelist_insert fl x = Some (idx, fl') \<and> m idx = None \<and> fl_rep fl' (m(idx \<mapsto> x)) \<and>
    freelist_get fl' idx = Some x \<and> (\<forall>j y. m j = Some y \<longrightarrow> freelist_get fl' j = Some y)"
  using fl.alloc [OF assms, of x] fl.alloc_get [OF assms(1) _ assms(2)]
    fl.alloc_keeps [OF assms(1) _ assms(2)]
  by metis

theorem freelist_insert_fresh_witness:
  "\<exists>idx fl'. freelist_insert (freelist_init 1) (5 :: nat) = Some (idx, fl') \<and>
     freelist_get fl' idx = Some 5"
  using freelist_insert_fresh [OF fl_rep_init, of 1 "5 :: nat"] by (auto simp: fl_room_def)

text \<open>
  Releasing an index that is in use succeeds within the index array, returns exactly that
  index to the pool and leaves every other element in place, so a later allocation can reuse it.
\<close>

theorem freelist_remove_exact:
  assumes "fl_rep fl m" "m idx = Some x"
  shows "\<exists>fl'. freelist_remove fl idx = Some fl' \<and> fl_rep fl' (m(idx := None)) \<and>
    (\<forall>j y. m j = Some y \<longrightarrow> j \<noteq> idx \<longrightarrow> freelist_get fl' j = Some y)"
  using fl.release [OF assms(1), of idx] fl.release_keeps [OF assms(1), of idx] assms(2)
  by (metis domI)

theorem freelist_remove_exact_witness:
  "\<exists>idx fl fl'. freelist_insert (freelist_init 1) (5 :: nat) = Some (idx, fl) \<and>
     freelist_remove fl idx = Some fl' \<and> fl_rep fl' Map.empty"
proof -
  obtain idx fl where "freelist_insert (freelist_init 1) (5 :: nat) = Some (idx, fl)"
      "fl_rep fl (Map.empty(idx \<mapsto> 5))"
    using fl_rep_insert [OF fl_rep_init [of 1], of "5 :: nat"] by auto
  then show ?thesis
    using freelist_remove_exact [of fl "Map.empty(idx \<mapsto> 5)" idx 5] by auto
qed

end
