(* ===== verification/Radix_Tree.thy ===== *)
theory Radix_Tree
  imports Free_List
begin

text \<open>
  \<open>src/bits/radix_tree.h\<close> and \<open>src/bits/radix_tree.c\<close>: an adaptive radix tree over keys that are read in
  pieces of four bits. Nodes live in one freelist for each kind and refer to each other by kind and
  index. This theory holds the data and all operations but the debug printer.

  Lengths and positions in keys (\<open>radix_key_idx_t\<close>, 16 bits) are natural numbers: they are at most the
  key length, which is far below \<open>2 ^ 16\<close> in the program, and where the code subtracts two of them it
  computes with \<open>int\<close> and only tests whether the result is positive. A pointer into a node that stays
  valid only until its freelist grows is modelled by what it points to, read again wherever the
  code fetches it again; the macros \<open>refetch\<close> are such reads. Local arrays are uninitialised; their
  contents are the argument \<open>junk\<close>.
\<close>

section \<open>Keys in pieces of four bits\<close>

definition SMALL_STR_SIZE :: nat where "SMALL_STR_SIZE = 12"
definition EDGE_DATA_SIZE :: nat where "EDGE_DATA_SIZE = 6"
definition IMMEDIATE :: u8 where "IMMEDIATE = 16"

definition radix_tree_key_unpack :: "u8 list \<Rightarrow> nat \<Rightarrow> u8 option" where
  "radix_tree_key_unpack key idx =
     do { b \<leftarrow> rd key (idx div 2); Some (drop_bit (if even idx then 4 else 0) b AND 0xF) }"

definition radix_tree_key_pack :: "u8 list \<Rightarrow> nat \<Rightarrow> u8 \<Rightarrow> u8 list option" where
  "radix_tree_key_pack key idx v =
     do {
       b \<leftarrow> rd key (idx div 2);
       wr key (idx div 2)
         ((b AND push_bit (if even idx then 0 else 4) 0xF) OR push_bit (if even idx then 4 else 0) v)
     }"

definition radix_tree_copy_key :: "u8 list \<Rightarrow> u8 list \<Rightarrow> nat \<Rightarrow> nat \<Rightarrow> u8 list option" where
  "radix_tree_copy_key dest src offset len =
     (if even offset
      then (let n = (len + 1) div 2
            in if offset div 2 + n \<le> length src \<and> n \<le> length dest
               then Some (take n (drop (offset div 2) src) @ drop n dest) else None)
      else for_loop 0 len
        (\<lambda>i r. do {
           dest \<leftarrow> r;
           v \<leftarrow> radix_tree_key_unpack src (offset + i);
           radix_tree_key_pack dest i v
         }) (Some dest))"

section \<open>Nodes\<close>

datatype node_type = RTT_NONE | RTT_EDGE | RTT_LEAF
  | RTT_BRANCH_4 | RTT_BRANCH_8 | RTT_BRANCH_16 | RTT_BRANCH_FULL

record node_ptr =
  ptr_type :: node_type
  ptr_idx :: u32

text \<open>The index is a bit field of 29 bits.\<close>

definition mk_ptr :: "node_type \<Rightarrow> u32 \<Rightarrow> node_ptr" where
  "mk_ptr t i = \<lparr>ptr_type = t, ptr_idx = take_bit 29 i\<rparr>"

definition none_ptr :: node_ptr where
  "none_ptr = \<lparr>ptr_type = RTT_NONE, ptr_idx = 0\<rparr>"

text \<open>\<open>RadixTreeBranch4Node\<close> and \<open>RadixTreeBranch8Node\<close> (four and eight slots with their key pieces).\<close>

record sparse_node =
  vals :: "u8 list"
  entries :: "node_ptr list"

text \<open>\<open>RadixTreeBranch16Node\<close> and \<open>RadixTreeBranchFullNode\<close> (16 and 17 slots, by key piece).\<close>

record dense_node =
  slots :: "node_ptr list"

text \<open>
  The union of an edge is its six bytes \<open>data\<close>; \<open>string_idx\<close> is a word in the first four of them.
\<close>

record edge_node =
  e_data :: "u8 list"
  e_length :: nat
  e_next :: node_ptr

definition string_idx :: "edge_node \<Rightarrow> u32" where
  "string_idx e = le32 (e_data e ! 0) (e_data e ! 1) (e_data e ! 2) (e_data e ! 3)"

definition set_string_idx :: "u32 \<Rightarrow> edge_node \<Rightarrow> edge_node" where
  "set_string_idx i e = e\<lparr>e_data := le32_bytes i @ drop 4 (e_data e)\<rparr>"

record prev_ptr =
  prev_node :: node_ptr
  branch_val :: u8

record 'v radix_tree =
  root :: node_ptr
  prev :: "prev_ptr vec"
  branches4 :: "sparse_node freelist"
  branches8 :: "sparse_node freelist"
  branches16 :: "dense_node freelist"
  branches_full :: "dense_node freelist"
  edges :: "edge_node freelist"
  leaves :: "'v freelist"
  strings :: "u8 list freelist"

definition radix_tree_create :: "u32 \<Rightarrow> u32 \<Rightarrow> 'v radix_tree" where
  "radix_tree_create key_length default_cap =
     \<lparr>root = none_ptr, prev = vec_init key_length,
      branches4 = freelist_init ((default_cap + 32) div 32),
      branches8 = freelist_init ((default_cap + 32) div 32),
      branches16 = freelist_init ((default_cap + 32) div 32),
      branches_full = freelist_init ((default_cap + 128) div 128),
      edges = freelist_init default_cap,
      leaves = freelist_init default_cap,
      strings = freelist_init (if word_of_nat SMALL_STR_SIZE < key_length then default_cap else 1)\<rparr>"

section \<open>Creating nodes\<close>

definition radix_tree_create_leaf_node ::
  "'v radix_tree \<Rightarrow> 'v \<Rightarrow> (node_ptr \<times> 'v radix_tree) option" where
  "radix_tree_create_leaf_node t v =
     do { (idx, fl) \<leftarrow> freelist_insert (leaves t) v; Some (mk_ptr RTT_LEAF idx, t\<lparr>leaves := fl\<rparr>) }"

definition empty_sparse :: "nat \<Rightarrow> sparse_node" where
  "empty_sparse n = \<lparr>vals = replicate n 0, entries = replicate n none_ptr\<rparr>"

definition empty_dense :: "nat \<Rightarrow> dense_node" where
  "empty_dense n = \<lparr>slots = replicate n none_ptr\<rparr>"

definition radix_tree_create_branch_node ::
  "'v radix_tree \<Rightarrow> node_type \<Rightarrow> (node_ptr \<times> 'v radix_tree) option" where
  "radix_tree_create_branch_node t branch_type =
     (case branch_type of
        RTT_BRANCH_4 \<Rightarrow> do {
          (idx, fl) \<leftarrow> freelist_insert (branches4 t) (empty_sparse 4);
          Some (mk_ptr branch_type idx, t\<lparr>branches4 := fl\<rparr>) }
      | RTT_BRANCH_8 \<Rightarrow> do {
          (idx, fl) \<leftarrow> freelist_insert (branches8 t) (empty_sparse 8);
          Some (mk_ptr branch_type idx, t\<lparr>branches8 := fl\<rparr>) }
      | RTT_BRANCH_16 \<Rightarrow> do {
          (idx, fl) \<leftarrow> freelist_insert (branches16 t) (empty_dense 16);
          Some (mk_ptr branch_type idx, t\<lparr>branches16 := fl\<rparr>) }
      | RTT_BRANCH_FULL \<Rightarrow> do {
          (idx, fl) \<leftarrow> freelist_insert (branches_full t) (empty_dense 17);
          Some (mk_ptr branch_type idx, t\<lparr>branches_full := fl\<rparr>) }
      | _ \<Rightarrow> None)"

definition radix_tree_create_edge_node ::
  "u8 list \<Rightarrow> 'v radix_tree \<Rightarrow> u8 list \<Rightarrow> nat \<Rightarrow> nat \<Rightarrow> node_ptr \<Rightarrow> (node_ptr \<times> 'v radix_tree) option" where
  "radix_tree_create_edge_node junk t key offset key_length nxt =
     do {
       let edge = \<lparr>e_data = replicate EDGE_DATA_SIZE 0, e_length = key_length, e_next = nxt\<rparr>;
       buf \<leftarrow> radix_tree_copy_key junk key offset key_length;
       (idx, es) \<leftarrow> freelist_insert (edges t) edge;
       if SMALL_STR_SIZE < key_length
       then do {
         (sidx, ss) \<leftarrow> freelist_insert (strings t) buf;
         es \<leftarrow> freelist_set es idx (set_string_idx sidx edge);
         Some (mk_ptr RTT_EDGE idx, t\<lparr>edges := es, strings := ss\<rparr>)
       }
       else do {
         let n = (key_length + 1) div 2;
         es \<leftarrow> freelist_set es idx (edge\<lparr>e_data := take n buf @ drop n (e_data edge)\<rparr>);
         Some (mk_ptr RTT_EDGE idx, t\<lparr>edges := es\<rparr>)
       }
     }"

text \<open>\<open>radix_tree_fetch_edge_str_unsafe\<close>.\<close>

definition fetch_edge_str :: "'v radix_tree \<Rightarrow> edge_node \<Rightarrow> u8 list option" where
  "fetch_edge_str t e =
     (if SMALL_STR_SIZE < e_length e then freelist_get (strings t) (string_idx e) else Some (e_data e))"

text \<open>
  \<open>radix_tree_edge_maybe_move_str\<close> copies \<open>old_idx + 1 / 2\<close>, that is \<open>old_idx\<close>, bytes. What exceeds the six
  bytes of \<open>data\<close> goes into the following members \<open>length\<close> and \<open>next\<close>, which every caller assigns next.
\<close>

definition edge_maybe_move_str ::
  "'v radix_tree \<Rightarrow> edge_node \<Rightarrow> u8 list \<Rightarrow> nat \<Rightarrow> (edge_node \<times> 'v radix_tree) option" where
  "edge_maybe_move_str t e old_key old_idx =
     (if SMALL_STR_SIZE < e_length e \<and> old_idx \<le> SMALL_STR_SIZE
      then if old_idx \<le> length old_key
           then do {
             ss \<leftarrow> freelist_remove (strings t) (string_idx e);
             Some (e\<lparr>e_data := take EDGE_DATA_SIZE (take old_idx old_key @ drop old_idx (e_data e))\<rparr>,
                   t\<lparr>strings := ss\<rparr>)
           }
           else None
      else Some (e, t))"

definition edge_maybe_remove_str :: "'v radix_tree \<Rightarrow> edge_node \<Rightarrow> 'v radix_tree option" where
  "edge_maybe_remove_str t e =
     (if SMALL_STR_SIZE < e_length e
      then do { ss \<leftarrow> freelist_remove (strings t) (string_idx e); Some (t\<lparr>strings := ss\<rparr>) }
      else Some t)"

section \<open>Reading and changing branches\<close>

definition sparse_get :: "nat \<Rightarrow> sparse_node \<Rightarrow> u8 \<Rightarrow> node_ptr" where
  "sparse_get n b key =
     (case find (\<lambda>i. vals b ! i = key) [0..<n] of Some i \<Rightarrow> entries b ! i | None \<Rightarrow> none_ptr)"

definition radix_tree_get_branch4 :: "sparse_node \<Rightarrow> u8 \<Rightarrow> node_ptr" where
  "radix_tree_get_branch4 = sparse_get 4"

definition radix_tree_get_branch8 :: "sparse_node \<Rightarrow> u8 \<Rightarrow> node_ptr" where
  "radix_tree_get_branch8 = sparse_get 8"

definition radix_tree_get_branch16 :: "dense_node \<Rightarrow> u8 \<Rightarrow> node_ptr option" where
  "radix_tree_get_branch16 b key = (if key = IMMEDIATE then Some none_ptr else rd (slots b) (unat key))"

definition radix_tree_get_branch_full :: "dense_node \<Rightarrow> u8 \<Rightarrow> node_ptr option" where
  "radix_tree_get_branch_full b key = rd (slots b) (unat key)"

definition radix_tree_get_branch :: "'v radix_tree \<Rightarrow> node_ptr \<Rightarrow> u8 \<Rightarrow> node_ptr option" where
  "radix_tree_get_branch t node key =
     (case ptr_type node of
        RTT_BRANCH_4 \<Rightarrow> do { b \<leftarrow> freelist_get (branches4 t) (ptr_idx node); Some (radix_tree_get_branch4 b key) }
      | RTT_BRANCH_8 \<Rightarrow> do { b \<leftarrow> freelist_get (branches8 t) (ptr_idx node); Some (radix_tree_get_branch8 b key) }
      | RTT_BRANCH_16 \<Rightarrow> do { b \<leftarrow> freelist_get (branches16 t) (ptr_idx node); radix_tree_get_branch16 b key }
      | RTT_BRANCH_FULL \<Rightarrow> do { b \<leftarrow> freelist_get (branches_full t) (ptr_idx node); radix_tree_get_branch_full b key }
      | _ \<Rightarrow> None)"

text \<open>The slot an insertion uses: the first that is empty or has the key already.\<close>

definition sparse_slot :: "nat \<Rightarrow> sparse_node \<Rightarrow> u8 \<Rightarrow> nat option" where
  "sparse_slot n b key =
     find (\<lambda>i. \<not> (ptr_type (entries b ! i) \<noteq> RTT_NONE \<and> vals b ! i \<noteq> key)) [0..<n]"

definition sparse_put :: "nat \<Rightarrow> u8 \<Rightarrow> node_ptr \<Rightarrow> sparse_node \<Rightarrow> sparse_node" where
  "sparse_put i key node b = b\<lparr>vals := (vals b)[i := key], entries := (entries b)[i := node]\<rparr>"

definition radix_tree_insert_into_branch4_or_grow ::
  "'v radix_tree \<Rightarrow> u32 \<Rightarrow> u8 \<Rightarrow> node_ptr \<Rightarrow> (node_ptr \<times> 'v radix_tree) option" where
  "radix_tree_insert_into_branch4_or_grow t bi key node =
     do {
       b \<leftarrow> freelist_get (branches4 t) bi;
       case sparse_slot 4 b key of
         Some i \<Rightarrow> do {
           fl \<leftarrow> freelist_set (branches4 t) bi (sparse_put i key node b);
           Some (none_ptr, t\<lparr>branches4 := fl\<rparr>)
         }
       | None \<Rightarrow> do {
           let new_branch = for_loop 0 4 (\<lambda>i. sparse_put i (vals b ! i) (entries b ! i)) (empty_sparse 8);
           let new_branch = sparse_put 4 key node new_branch;
           (idx, fl) \<leftarrow> freelist_insert (branches8 t) new_branch;
           Some (mk_ptr RTT_BRANCH_8 idx, t\<lparr>branches8 := fl\<rparr>)
         }
     }"

definition scatter :: "sparse_node \<Rightarrow> node_ptr list \<Rightarrow> node_ptr list option" where
  "scatter b xs =
     for_loop 0 8 (\<lambda>i r. do { xs \<leftarrow> r; wr xs (unat (vals b ! i)) (entries b ! i) }) (Some xs)"

definition radix_tree_insert_into_branch8_or_grow ::
  "'v radix_tree \<Rightarrow> u32 \<Rightarrow> u8 \<Rightarrow> node_ptr \<Rightarrow> (node_ptr \<times> 'v radix_tree) option" where
  "radix_tree_insert_into_branch8_or_grow t bi key node =
     do {
       b \<leftarrow> freelist_get (branches8 t) bi;
       case sparse_slot 8 b key of
         Some i \<Rightarrow> do {
           fl \<leftarrow> freelist_set (branches8 t) bi (sparse_put i key node b);
           Some (none_ptr, t\<lparr>branches8 := fl\<rparr>)
         }
       | None \<Rightarrow>
           let seen_immediate = (key = IMMEDIATE \<or> list_ex (\<lambda>i. vals b ! i = IMMEDIATE) [0..<8])
           in if seen_immediate
              then do {
                xs \<leftarrow> scatter b (slots (empty_dense 17));
                xs \<leftarrow> wr xs (unat key) node;
                (idx, fl) \<leftarrow> freelist_insert (branches_full t) \<lparr>slots = xs\<rparr>;
                Some (mk_ptr RTT_BRANCH_FULL idx, t\<lparr>branches_full := fl\<rparr>)
              }
              else do {
                xs \<leftarrow> scatter b (slots (empty_dense 16));
                xs \<leftarrow> wr xs (unat key) node;
                (idx, fl) \<leftarrow> freelist_insert (branches16 t) \<lparr>slots = xs\<rparr>;
                Some (mk_ptr RTT_BRANCH_16 idx, t\<lparr>branches16 := fl\<rparr>)
              }
     }"

definition radix_tree_insert_into_branch16_or_grow ::
  "'v radix_tree \<Rightarrow> u32 \<Rightarrow> u8 \<Rightarrow> node_ptr \<Rightarrow> (node_ptr \<times> 'v radix_tree) option" where
  "radix_tree_insert_into_branch16_or_grow t bi key node =
     do {
       b \<leftarrow> freelist_get (branches16 t) bi;
       if key = IMMEDIATE
       then do {
         let xs = take 16 (slots b) @ drop 16 (slots (empty_dense 17));
         xs \<leftarrow> wr xs (unat IMMEDIATE) node;
         (idx, fl) \<leftarrow> freelist_insert (branches_full t) \<lparr>slots = xs\<rparr>;
         Some (mk_ptr RTT_BRANCH_FULL idx, t\<lparr>branches_full := fl\<rparr>)
       }
       else do {
         xs \<leftarrow> wr (slots b) (unat key) node;
         fl \<leftarrow> freelist_set (branches16 t) bi \<lparr>slots = xs\<rparr>;
         Some (none_ptr, t\<lparr>branches16 := fl\<rparr>)
       }
     }"

definition radix_tree_insert_into_branch_full ::
  "'v radix_tree \<Rightarrow> u32 \<Rightarrow> u8 \<Rightarrow> node_ptr \<Rightarrow> 'v radix_tree option" where
  "radix_tree_insert_into_branch_full t bi key node =
     do {
       b \<leftarrow> freelist_get (branches_full t) bi;
       xs \<leftarrow> wr (slots b) (unat key) node;
       fl \<leftarrow> freelist_set (branches_full t) bi \<lparr>slots = xs\<rparr>;
       Some (t\<lparr>branches_full := fl\<rparr>)
     }"

text \<open>The result is \<open>none_ptr\<close> where the branch stayed in place, and the new branch where it has grown.\<close>

definition radix_tree_insert_into_branch_or_grow ::
  "'v radix_tree \<Rightarrow> node_ptr \<Rightarrow> u8 \<Rightarrow> node_ptr \<Rightarrow> (node_ptr \<times> 'v radix_tree) option" where
  "radix_tree_insert_into_branch_or_grow t branch_node key node =
     (case ptr_type branch_node of
        RTT_BRANCH_4 \<Rightarrow> do {
          (new_node, t) \<leftarrow> radix_tree_insert_into_branch4_or_grow t (ptr_idx branch_node) key node;
          if ptr_type new_node \<noteq> RTT_NONE
          then do { fl \<leftarrow> freelist_remove (branches4 t) (ptr_idx branch_node); Some (new_node, t\<lparr>branches4 := fl\<rparr>) }
          else Some (none_ptr, t) }
      | RTT_BRANCH_8 \<Rightarrow> do {
          (new_node, t) \<leftarrow> radix_tree_insert_into_branch8_or_grow t (ptr_idx branch_node) key node;
          if ptr_type new_node \<noteq> RTT_NONE
          then do { fl \<leftarrow> freelist_remove (branches8 t) (ptr_idx branch_node); Some (new_node, t\<lparr>branches8 := fl\<rparr>) }
          else Some (none_ptr, t) }
      | RTT_BRANCH_16 \<Rightarrow> do {
          (new_node, t) \<leftarrow> radix_tree_insert_into_branch16_or_grow t (ptr_idx branch_node) key node;
          if ptr_type new_node \<noteq> RTT_NONE
          then do { fl \<leftarrow> freelist_remove (branches16 t) (ptr_idx branch_node); Some (new_node, t\<lparr>branches16 := fl\<rparr>) }
          else Some (none_ptr, t) }
      | RTT_BRANCH_FULL \<Rightarrow> do {
          t \<leftarrow> radix_tree_insert_into_branch_full t (ptr_idx branch_node) key node;
          Some (none_ptr, t) }
      | _ \<Rightarrow> None)"

section \<open>The way back up\<close>

definition set_edge_next :: "'v radix_tree \<Rightarrow> u32 \<Rightarrow> node_ptr \<Rightarrow> 'v radix_tree option" where
  "set_edge_next t i node =
     do {
       e \<leftarrow> freelist_get (edges t) i;
       es \<leftarrow> freelist_set (edges t) i (e\<lparr>e_next := node\<rparr>);
       Some (t\<lparr>edges := es\<rparr>)
     }"

partial_function (option) set_prev_loop :: "u32 \<Rightarrow> node_ptr \<Rightarrow> 'v radix_tree \<Rightarrow> 'v radix_tree option" where
  "set_prev_loop idx node t =
     do {
       p \<leftarrow> vec_get (prev t) idx;
       case ptr_type (prev_node p) of
         RTT_NONE \<Rightarrow> Some (t\<lparr>root := node\<rparr>)
       | RTT_EDGE \<Rightarrow> set_edge_next t (ptr_idx (prev_node p)) node
       | RTT_LEAF \<Rightarrow> None
       | _ \<Rightarrow> do {
           (node, t) \<leftarrow> radix_tree_insert_into_branch_or_grow t (prev_node p) (branch_val p) node;
           if ptr_type node = RTT_NONE then Some t else set_prev_loop (idx - 1) node t
         }
     }"

declare set_prev_loop.simps [code]

definition radix_tree_set_prev :: "'v radix_tree \<Rightarrow> node_ptr \<Rightarrow> 'v radix_tree option" where
  "radix_tree_set_prev t node = set_prev_loop (vec_len (prev t) - 1) node t"

definition radix_tree_push_prev :: "'v radix_tree \<Rightarrow> node_ptr \<Rightarrow> u8 \<Rightarrow> 'v radix_tree option" where
  "radix_tree_push_prev t node bv =
     do {
       let pv = (if ptr_type node = RTT_EDGE then (prev t)\<lparr>vec_len := 0\<rparr> else prev t);
       pv \<leftarrow> vec_push pv \<lparr>prev_node = node, branch_val = bv\<rparr>;
       Some (t\<lparr>prev := pv\<rparr>)
     }"

section \<open>Insertion\<close>

text \<open>
  The body of the loop of \<open>_radix_tree_insert\<close> either returns (\<open>Inl\<close>) or goes on at a node with a number of
  key pieces consumed (\<open>Inr\<close>). \<open>junk 0\<close> and \<open>junk 1\<close> are the buffers of the two edges a pass may create.
\<close>

type_synonym 'v pass = "'v radix_tree + 'v radix_tree \<times> node_ptr \<times> nat"

text \<open>Assignments to the first two slots of a new \<open>RTT_BRANCH_4\<close>.\<close>

definition set_branch4_slot :: "'v radix_tree \<Rightarrow> node_ptr \<Rightarrow> nat \<Rightarrow> u8 \<Rightarrow> node_ptr \<Rightarrow> 'v radix_tree option" where
  "set_branch4_slot t p i val node =
     do {
       b \<leftarrow> freelist_get (branches4 t) (ptr_idx p);
       fl \<leftarrow> freelist_set (branches4 t) (ptr_idx p) (sparse_put i val node b);
       Some (t\<lparr>branches4 := fl\<rparr>)
     }"

definition create_edge_unless_empty ::
  "u8 list \<Rightarrow> 'v radix_tree \<Rightarrow> u8 list \<Rightarrow> nat \<Rightarrow> nat \<Rightarrow> node_ptr \<Rightarrow> (node_ptr \<times> 'v radix_tree) option" where
  "create_edge_unless_empty junk t key offset len nxt =
     (if 0 < len then radix_tree_create_edge_node junk t key offset len nxt else Some (nxt, t))"

text \<open>The keys differ in the first piece of the edge: a branch takes its place.\<close>

definition split_edge_first ::
  "(nat \<Rightarrow> u8 list) \<Rightarrow> 'v radix_tree \<Rightarrow> node_ptr \<Rightarrow> edge_node \<Rightarrow> u8 list \<Rightarrow> u8 \<Rightarrow> u8 \<Rightarrow> u8 list \<Rightarrow> nat \<Rightarrow> nat \<Rightarrow>
     'v \<Rightarrow> 'v radix_tree option" where
  "split_edge_first junk t node edge old_key old_val new_val new_key key_len key_idx v =
     do {
       let old_node = e_next edge;
       (new_node, t) \<leftarrow> radix_tree_create_leaf_node t v;
       (old_node, t) \<leftarrow> create_edge_unless_empty (junk 0) t old_key 1 (e_length edge - 1) old_node;
       (new_node, t) \<leftarrow> create_edge_unless_empty (junk 1) t new_key key_idx (key_len - key_idx) new_node;
       edge \<leftarrow> freelist_get (edges t) (ptr_idx node);
       (branch_node, t) \<leftarrow> radix_tree_create_branch_node t RTT_BRANCH_4;
       t \<leftarrow> set_branch4_slot t branch_node 0 old_val old_node;
       t \<leftarrow> set_branch4_slot t branch_node 1 new_val new_node;
       t \<leftarrow> edge_maybe_remove_str t edge;
       es \<leftarrow> freelist_remove (edges t) (ptr_idx node);
       radix_tree_set_prev (t\<lparr>edges := es\<rparr>) branch_node
     }"

text \<open>The inner loop that consumes matching pieces, with the locals it changes.\<close>

partial_function (option) consume_matching ::
  "nat \<Rightarrow> nat \<Rightarrow> u8 list \<Rightarrow> u8 list \<Rightarrow> nat \<Rightarrow> nat \<Rightarrow> u8 \<Rightarrow> u8 \<Rightarrow> (nat \<times> nat \<times> u8 \<times> u8) option" where
  "consume_matching edge_length key_len old_key new_key old_idx key_idx old_val new_val =
     (if old_idx < edge_length \<and> key_idx < key_len
      then do {
        old_val \<leftarrow> radix_tree_key_unpack old_key old_idx;
        new_val \<leftarrow> radix_tree_key_unpack new_key key_idx;
        if old_val \<noteq> new_val then Some (old_idx, key_idx, old_val, new_val)
        else consume_matching edge_length key_len old_key new_key (old_idx + 1) (key_idx + 1) old_val new_val
      }
      else Some (old_idx, key_idx, old_val, new_val))"

declare consume_matching.simps [code]

text \<open>Cut the edge at \<open>old_idx\<close>, moving its string into the node if it has become short.\<close>

definition cut_edge :: "'v radix_tree \<Rightarrow> node_ptr \<Rightarrow> nat \<Rightarrow> 'v radix_tree option" where
  "cut_edge t node old_idx =
     do {
       edge \<leftarrow> freelist_get (edges t) (ptr_idx node);
       old_key \<leftarrow> fetch_edge_str t edge;
       (edge, t) \<leftarrow> edge_maybe_move_str t edge old_key old_idx;
       es \<leftarrow> freelist_set (edges t) (ptr_idx node) (edge\<lparr>e_length := old_idx\<rparr>);
       Some (t\<lparr>edges := es\<rparr>)
     }"

text \<open>Both keys go on, with different pieces.\<close>

definition split_edge_both ::
  "(nat \<Rightarrow> u8 list) \<Rightarrow> 'v radix_tree \<Rightarrow> node_ptr \<Rightarrow> edge_node \<Rightarrow> u8 list \<Rightarrow> nat \<Rightarrow> u8 \<Rightarrow> u8 \<Rightarrow> u8 list \<Rightarrow> nat \<Rightarrow> nat \<Rightarrow>
     'v \<Rightarrow> 'v radix_tree option" where
  "split_edge_both junk t node edge old_key old_idx old_val new_val new_key key_len key_idx v =
     do {
       let old_node = e_next edge;
       (new_node, t) \<leftarrow> radix_tree_create_leaf_node t v;
       (old_node, t) \<leftarrow> create_edge_unless_empty (junk 0) t old_key (old_idx + 1) (e_length edge - old_idx - 1) old_node;
       (new_node, t) \<leftarrow> create_edge_unless_empty (junk 1) t new_key (key_idx + 1) (key_len - key_idx - 1) new_node;
       t \<leftarrow> cut_edge t node old_idx;
       (branch_node, t) \<leftarrow> radix_tree_create_branch_node t RTT_BRANCH_4;
       t \<leftarrow> set_edge_next t (ptr_idx node) branch_node;
       t \<leftarrow> set_branch4_slot t branch_node 0 old_val old_node;
       set_branch4_slot t branch_node 1 new_val new_node
     }"

text \<open>The new key ends inside the edge.\<close>

definition split_edge_old ::
  "(nat \<Rightarrow> u8 list) \<Rightarrow> 'v radix_tree \<Rightarrow> node_ptr \<Rightarrow> edge_node \<Rightarrow> u8 list \<Rightarrow> nat \<Rightarrow> 'v \<Rightarrow> 'v radix_tree option" where
  "split_edge_old junk t node edge old_key old_idx v =
     do {
       (branch_node, t) \<leftarrow> radix_tree_create_branch_node t RTT_BRANCH_4;
       (new_node, t) \<leftarrow> radix_tree_create_leaf_node t v;
       let old_node = e_next edge;
       t \<leftarrow> set_branch4_slot t branch_node 0 IMMEDIATE new_node;
       bv \<leftarrow> radix_tree_key_unpack old_key old_idx;
       (old_node, t) \<leftarrow> create_edge_unless_empty (junk 0) t old_key (old_idx + 1) (e_length edge - old_idx - 1) old_node;
       t \<leftarrow> set_branch4_slot t branch_node 1 bv old_node;
       t \<leftarrow> cut_edge t node old_idx;
       set_edge_next t (ptr_idx node) branch_node
     }"

text \<open>The edge ends in a leaf and the new key goes on.\<close>

definition split_edge_new ::
  "(nat \<Rightarrow> u8 list) \<Rightarrow> 'v radix_tree \<Rightarrow> node_ptr \<Rightarrow> edge_node \<Rightarrow> u8 list \<Rightarrow> nat \<Rightarrow> nat \<Rightarrow> 'v \<Rightarrow> 'v radix_tree option" where
  "split_edge_new junk t node edge new_key key_len key_idx v =
     do {
       (branch_node, t) \<leftarrow> radix_tree_create_branch_node t RTT_BRANCH_4;
       (new_node, t) \<leftarrow> radix_tree_create_leaf_node t v;
       t \<leftarrow> set_branch4_slot t branch_node 0 IMMEDIATE (e_next edge);
       new_val \<leftarrow> radix_tree_key_unpack new_key key_idx;
       (new_node, t) \<leftarrow> create_edge_unless_empty (junk 1) t new_key (key_idx + 1) (key_len - (key_idx + 1)) new_node;
       t \<leftarrow> set_branch4_slot t branch_node 1 new_val new_node;
       set_edge_next t (ptr_idx node) branch_node
     }"

definition insert_at_edge ::
  "(nat \<Rightarrow> u8 list) \<Rightarrow> u8 list \<Rightarrow> nat \<Rightarrow> 'v \<Rightarrow> 'v radix_tree \<Rightarrow> node_ptr \<Rightarrow> nat \<Rightarrow> 'v pass option" where
  "insert_at_edge junk new_key key_len v t node key_idx =
     do {
       edge \<leftarrow> freelist_get (edges t) (ptr_idx node);
       old_key \<leftarrow> fetch_edge_str t edge;
       old_val \<leftarrow> radix_tree_key_unpack old_key 0;
       new_val \<leftarrow> radix_tree_key_unpack new_key key_idx;
       if old_val \<noteq> new_val
       then do {
         t \<leftarrow> split_edge_first junk t node edge old_key old_val new_val new_key key_len (key_idx + 1) v;
         Some (Inl t)
       }
       else do {
         (old_idx, key_idx, old_val, new_val) \<leftarrow>
           consume_matching (e_length edge) key_len old_key new_key 1 (key_idx + 1) old_val new_val;
         let old_has_remainder = old_idx < e_length edge;
         let new_has_remainder = key_idx < key_len;
         if old_has_remainder \<and> new_has_remainder
         then do {
           t \<leftarrow> split_edge_both junk t node edge old_key old_idx old_val new_val new_key key_len key_idx v;
           Some (Inl t)
         }
         else if old_has_remainder \<and> \<not> new_has_remainder
         then do { t \<leftarrow> split_edge_old junk t node edge old_key old_idx v; Some (Inl t) }
         else if \<not> old_has_remainder \<and> new_has_remainder \<and> ptr_type (e_next edge) = RTT_LEAF
         then do { t \<leftarrow> split_edge_new junk t node edge new_key key_len key_idx v; Some (Inl t) }
         else do {
           t \<leftarrow> radix_tree_push_prev t node IMMEDIATE;
           Some (Inr (t, e_next edge, key_idx))
         }
       }
     }"

text \<open>Replace the entry of a branch that leads on, growing the branch if need be.\<close>

definition insert_into_branch_and_up ::
  "'v radix_tree \<Rightarrow> node_ptr \<Rightarrow> u8 \<Rightarrow> node_ptr \<Rightarrow> 'v radix_tree option" where
  "insert_into_branch_and_up t node bv new_branch_node =
     do {
       (maybe_new, t) \<leftarrow> radix_tree_insert_into_branch_or_grow t node bv new_branch_node;
       if ptr_type maybe_new \<noteq> RTT_NONE then radix_tree_set_prev t maybe_new else Some t
     }"

text \<open>Special case 1: the key ends where an edge begins.\<close>

definition branch_to_edge_case ::
  "(nat \<Rightarrow> u8 list) \<Rightarrow> 'v \<Rightarrow> 'v radix_tree \<Rightarrow> node_ptr \<Rightarrow> u8 \<Rightarrow> node_ptr \<Rightarrow> 'v radix_tree option" where
  "branch_to_edge_case junk v t node bv nxt =
     do {
       edge \<leftarrow> freelist_get (edges t) (ptr_idx nxt);
       old_key \<leftarrow> fetch_edge_str t edge;
       old_val \<leftarrow> radix_tree_key_unpack old_key 0;
       (new_branch_node, t) \<leftarrow> radix_tree_create_branch_node t RTT_BRANCH_4;
       (leaf, t) \<leftarrow> radix_tree_create_leaf_node t v;
       t \<leftarrow> set_branch4_slot t new_branch_node 0 IMMEDIATE leaf;
       if e_length edge = 1
       then do {
         t \<leftarrow> set_branch4_slot t new_branch_node 1 old_val (e_next edge);
         t \<leftarrow> insert_into_branch_and_up t node bv new_branch_node;
         es \<leftarrow> freelist_remove (edges t) (ptr_idx nxt);
         Some (t\<lparr>edges := es\<rparr>)
       }
       else do {
         (new_edge_node, t) \<leftarrow> radix_tree_create_edge_node (junk 0) t old_key 1 (e_length edge - 1) (e_next edge);
         t \<leftarrow> set_branch4_slot t new_branch_node 1 old_val new_edge_node;
         edge \<leftarrow> freelist_get (edges t) (ptr_idx nxt);
         t \<leftarrow> edge_maybe_remove_str t edge;
         es \<leftarrow> freelist_remove (edges t) (ptr_idx nxt);
         insert_into_branch_and_up (t\<lparr>edges := es\<rparr>) node bv new_branch_node
       }
     }"

text \<open>Special case 3: the key goes on where a leaf is; \<open>key_idx\<close> is the position after \<open>bv\<close>.\<close>

definition branch_to_leaf_case ::
  "(nat \<Rightarrow> u8 list) \<Rightarrow> u8 list \<Rightarrow> nat \<Rightarrow> 'v \<Rightarrow> 'v radix_tree \<Rightarrow> node_ptr \<Rightarrow> u8 \<Rightarrow> node_ptr \<Rightarrow> nat \<Rightarrow>
     'v radix_tree option" where
  "branch_to_leaf_case junk new_key key_len v t node bv nxt key_idx =
     do {
       (new_branch_node, t) \<leftarrow> radix_tree_create_branch_node t RTT_BRANCH_4;
       t \<leftarrow> set_branch4_slot t new_branch_node 0 IMMEDIATE nxt;
       (new_node, t) \<leftarrow> radix_tree_create_leaf_node t v;
       new_key_val \<leftarrow> radix_tree_key_unpack new_key key_idx;
       (new_node, t) \<leftarrow> create_edge_unless_empty (junk 1) t new_key (key_idx + 1) (key_len - (key_idx + 1)) new_node;
       t \<leftarrow> set_branch4_slot t new_branch_node 1 new_key_val new_node;
       insert_into_branch_and_up t node bv new_branch_node
     }"

definition is_branch :: "node_type \<Rightarrow> bool" where
  "is_branch ty \<longleftrightarrow> ty \<in> {RTT_BRANCH_4, RTT_BRANCH_8, RTT_BRANCH_16, RTT_BRANCH_FULL}"

definition insert_at_branch ::
  "(nat \<Rightarrow> u8 list) \<Rightarrow> u8 list \<Rightarrow> nat \<Rightarrow> 'v \<Rightarrow> 'v radix_tree \<Rightarrow> node_ptr \<Rightarrow> nat \<Rightarrow> 'v pass option" where
  "insert_at_branch junk new_key key_len v t node key_idx =
     (if key_len = key_idx
      then do {
        t \<leftarrow> radix_tree_push_prev t node IMMEDIATE;
        node \<leftarrow> radix_tree_get_branch t node IMMEDIATE;
        Some (Inr (t, node, key_idx))
      }
      else do {
        bv \<leftarrow> radix_tree_key_unpack new_key key_idx;
        let key_idx = key_idx + 1;
        let key_has_remainder = key_idx < key_len;
        nxt \<leftarrow> radix_tree_get_branch t node bv;
        if ptr_type nxt = RTT_EDGE \<and> \<not> key_has_remainder
        then do { t \<leftarrow> branch_to_edge_case junk v t node bv nxt; Some (Inl t) }
        else if is_branch (ptr_type nxt) \<and> \<not> key_has_remainder
        then do {
          t \<leftarrow> radix_tree_push_prev t node bv;
          t \<leftarrow> radix_tree_push_prev t nxt IMMEDIATE;
          node \<leftarrow> radix_tree_get_branch t nxt IMMEDIATE;
          Some (Inr (t, node, key_idx))
        }
        else if ptr_type nxt = RTT_LEAF \<and> key_has_remainder
        then do { t \<leftarrow> branch_to_leaf_case junk new_key key_len v t node bv nxt key_idx; Some (Inl t) }
        else do {
          t \<leftarrow> radix_tree_push_prev t node bv;
          Some (Inr (t, nxt, key_idx))
        }
      })"

definition insert_at_leaf :: "'v \<Rightarrow> 'v radix_tree \<Rightarrow> node_ptr \<Rightarrow> 'v pass option" where
  "insert_at_leaf v t node =
     do { fl \<leftarrow> freelist_set (leaves t) (ptr_idx node) v; Some (Inl (t\<lparr>leaves := fl\<rparr>)) }"

definition insert_at_none ::
  "(nat \<Rightarrow> u8 list) \<Rightarrow> u8 list \<Rightarrow> nat \<Rightarrow> 'v \<Rightarrow> 'v radix_tree \<Rightarrow> nat \<Rightarrow> 'v pass option" where
  "insert_at_none junk new_key key_len v t key_idx =
     do {
       (new_node, t) \<leftarrow> radix_tree_create_leaf_node t v;
       (new_node, t) \<leftarrow> create_edge_unless_empty (junk 1) t new_key key_idx (key_len - key_idx) new_node;
       t \<leftarrow> radix_tree_set_prev t new_node;
       Some (Inl t)
     }"

definition insert_pass ::
  "(nat \<Rightarrow> u8 list) \<Rightarrow> u8 list \<Rightarrow> nat \<Rightarrow> 'v \<Rightarrow> 'v radix_tree \<Rightarrow> node_ptr \<Rightarrow> nat \<Rightarrow> 'v pass option" where
  "insert_pass junk new_key key_len v t node key_idx =
     (case ptr_type node of
        RTT_EDGE \<Rightarrow> insert_at_edge junk new_key key_len v t node key_idx
      | RTT_LEAF \<Rightarrow> insert_at_leaf v t node
      | RTT_NONE \<Rightarrow> insert_at_none junk new_key key_len v t key_idx
      | _ \<Rightarrow> insert_at_branch junk new_key key_len v t node key_idx)"

partial_function (option) insert_loop ::
  "(nat \<Rightarrow> u8 list) \<Rightarrow> u8 list \<Rightarrow> nat \<Rightarrow> 'v \<Rightarrow> 'v radix_tree \<Rightarrow> node_ptr \<Rightarrow> nat \<Rightarrow> 'v radix_tree option" where
  "insert_loop junk new_key key_len v t node key_idx =
     do {
       r \<leftarrow> insert_pass junk new_key key_len v t node key_idx;
       case r of
         Inl t \<Rightarrow> Some t
       | Inr (t, node, key_idx) \<Rightarrow> insert_loop junk new_key key_len v t node key_idx
     }"

declare insert_loop.simps [code]

definition radix_tree_insert ::
  "(nat \<Rightarrow> u8 list) \<Rightarrow> 'v radix_tree \<Rightarrow> u8 list \<Rightarrow> nat \<Rightarrow> 'v \<Rightarrow> 'v radix_tree option" where
  "radix_tree_insert junk t new_key key_len v =
     do {
       let node = root t;
       t \<leftarrow> radix_tree_push_prev (t\<lparr>prev := (prev t)\<lparr>vec_len := 0\<rparr>\<rparr>) none_ptr IMMEDIATE;
       insert_loop junk new_key key_len v t node 0
     }"

section \<open>Lookup\<close>

text \<open>\<open>memcmp(a, b, n) == 0\<close>.\<close>

definition memcmp_eq :: "u8 list \<Rightarrow> u8 list \<Rightarrow> nat \<Rightarrow> bool option" where
  "memcmp_eq a b n = (if n \<le> length a \<and> n \<le> length b then Some (take n a = take n b) else None)"

text \<open>Whether the key goes on with the pieces of an edge, whole bytes first.\<close>

definition edge_matches :: "u8 list \<Rightarrow> edge_node \<Rightarrow> u8 list \<Rightarrow> u8 list \<Rightarrow> nat \<Rightarrow> nat \<Rightarrow> bool option" where
  "edge_matches junk edge edge_key key key_len key_idx =
     (if key_len - key_idx < e_length edge then Some False
      else do {
        let old_idx = e_length edge div 2 * 2;
        same \<leftarrow> (if 0 < old_idx
          then do {
            let byte_len = old_idx div 2;
            aligned_key \<leftarrow> radix_tree_copy_key (take byte_len junk) key key_idx old_idx;
            memcmp_eq edge_key aligned_key byte_len
          }
          else Some True);
        if \<not> same then Some False
        else if old_idx < e_length edge
        then do {
          a \<leftarrow> radix_tree_key_unpack edge_key old_idx;
          b \<leftarrow> radix_tree_key_unpack key (key_idx + old_idx);
          Some (a = b)
        }
        else Some True
      })"

text \<open>The piece that selects an entry; \<open>RTT_BRANCH_16\<close> reads it without a look at the key length.\<close>

definition next_piece :: "node_type \<Rightarrow> u8 list \<Rightarrow> nat \<Rightarrow> nat \<Rightarrow> (u8 \<times> nat) option" where
  "next_piece ty key key_len key_idx =
     (if ty \<noteq> RTT_BRANCH_16 \<and> key_len \<le> key_idx then Some (IMMEDIATE, key_idx)
      else do { b \<leftarrow> radix_tree_key_unpack key key_idx; Some (b, key_idx + 1) })"

partial_function (option) get_loop ::
  "u8 list \<Rightarrow> u8 list \<Rightarrow> nat \<Rightarrow> 'v radix_tree \<Rightarrow> node_ptr \<Rightarrow> nat \<Rightarrow> 'v option option" where
  "get_loop junk key key_len t node key_idx =
     (case ptr_type node of
        RTT_NONE \<Rightarrow> Some None
      | RTT_LEAF \<Rightarrow> do { v \<leftarrow> freelist_get (leaves t) (ptr_idx node); Some (Some v) }
      | RTT_EDGE \<Rightarrow> do {
          edge \<leftarrow> freelist_get (edges t) (ptr_idx node);
          edge_key \<leftarrow> fetch_edge_str t edge;
          ok \<leftarrow> edge_matches junk edge edge_key key key_len key_idx;
          if ok then get_loop junk key key_len t (e_next edge) (key_idx + e_length edge) else Some None
        }
      | _ \<Rightarrow> do {
          (val, key_idx) \<leftarrow> next_piece (ptr_type node) key key_len key_idx;
          node \<leftarrow> radix_tree_get_branch t node val;
          get_loop junk key key_len t node key_idx
        })"

declare get_loop.simps [code]

definition radix_tree_get :: "u8 list \<Rightarrow> 'v radix_tree \<Rightarrow> u8 list \<Rightarrow> nat \<Rightarrow> 'v option option" where
  "radix_tree_get junk t key key_len = get_loop junk key key_len t (root t) 0"

end
