(* ===== verification/Radix_Keys.thy ===== *)
theory Radix_Keys
  imports Radix_Tree
begin

text \<open>
  The keys of the radix tree as sequences of four-bit pieces: what packing, unpacking and copying do
  to the pieces, and that the pieces determine the key.
\<close>

definition nib :: "u8 list \<Rightarrow> nat \<Rightarrow> u8" where
  "nib key i = drop_bit (if even i then 4 else 0) (key ! (i div 2)) AND 0xF"

definition nibs :: "u8 list \<Rightarrow> nat \<Rightarrow> nat \<Rightarrow> u8 list" where
  "nibs key a b = map (nib key) [a..<b]"

definition pieces :: "u8 list \<Rightarrow> u8 list" where
  "pieces key = nibs key 0 (2 * length key)"

lemma length_nibs [simp]: "length (nibs key a b) = b - a"
  by (simp add: nibs_def)

lemma nibs_nth [simp]: "i < b - a \<Longrightarrow> nibs key a b ! i = nib key (a + i)"
  by (simp add: nibs_def)

lemma nibs_Nil [simp]: "nibs key a b = [] \<longleftrightarrow> b \<le> a"
  by (auto simp: nibs_def)

lemma nibs_empty [simp]: "b \<le> a \<Longrightarrow> nibs key a b = []"
  by simp

lemma nibs_append: "a \<le> b \<Longrightarrow> b \<le> c \<Longrightarrow> nibs key a b @ nibs key b c = nibs key a c"
  using upt_add_eq_append [of a b "c - b"] by (simp add: nibs_def flip: map_append)

lemma nibs_Cons: "a < b \<Longrightarrow> nibs key a b = nib key a # nibs key (Suc a) b"
  by (simp add: nibs_def upt_rec)

lemma take_nibs: "a + n \<le> b \<Longrightarrow> take n (nibs key a b) = nibs key a (a + n)"
  by (simp add: nibs_def take_map)

lemma drop_nibs: "drop n (nibs key a b) = nibs key (a + n) b"
  by (simp add: nibs_def drop_map)

lemma and_F: "x AND 0xF = take_bit 4 (x :: u8)"
  by (simp add: take_bit_eq_mask mask_eq_exp_minus_1)

lemma nib_take_bit: "nib key i = take_bit 4 (drop_bit (if even i then 4 else 0) (key ! (i div 2)))"
  by (simp add: nib_def and_F)

lemma nib_less: "nib key i < 16"
proof -
  have "unat (take_bit 4 x) < 2 ^ 4" for x :: u8
    by (simp only: unsigned_take_bit_eq take_bit_nat_less_exp)
  then show ?thesis
    by (simp add: nib_take_bit word_less_nat_alt)
qed

lemma nib_not_immediate [simp]: "nib key i \<noteq> IMMEDIATE"
  using nib_less [of key i] by (auto simp: IMMEDIATE_def)

lemma set_nibs: "c \<in> set (nibs key a b) \<Longrightarrow> c < 16"
  using nib_less by (auto simp: nibs_def)

lemma unpack_nib: "i div 2 < length key \<Longrightarrow> radix_tree_key_unpack key i = Some (nib key i)"
  by (simp add: radix_tree_key_unpack_def nib_def)

text \<open>The pieces determine the bytes.\<close>

lemma byte_nibs: "push_bit 4 (take_bit 4 (drop_bit 4 b)) OR take_bit 4 b = (b :: u8)"
  by (rule bit_word_eqI) (auto simp: bit_simps)

lemma key_of_nibs:
  "j < length key \<Longrightarrow> key ! j = push_bit 4 (nib key (2 * j)) OR nib key (2 * j + 1)"
  by (simp add: nib_take_bit byte_nibs)

lemma pieces_inject:
  assumes "length k = length k'"
  shows "pieces k = pieces k' \<longleftrightarrow> k = k'"
proof
  assume eq: "pieces k = pieces k'"
  have nib: "nib k i = nib k' i" if "i < 2 * length k" for i
    using arg_cong [OF eq, of "\<lambda>l. l ! i"] that assms by (simp add: pieces_def)
  show "k = k'"
    by (rule nth_equalityI) (use assms nib in \<open>simp_all add: key_of_nibs\<close>)
qed simp

lemma bytes_eq_nibs:
  assumes "n \<le> length a" "n \<le> length b"
  shows "take n a = take n b \<longleftrightarrow> nibs a 0 (2 * n) = nibs b 0 (2 * n)"
proof -
  have "nib (take n c) i = nib c i" if "i < 2 * n" for c i
    using that by (simp add: nib_def)
  then have "pieces (take n c) = nibs c 0 (2 * n)" if "n \<le> length c" for c
    using that by (simp add: pieces_def nibs_def min_def)
  then show ?thesis
    using pieces_inject [of "take n a" "take n b"] assms by simp
qed

section \<open>Packing and copying\<close>

lemma pack_nib:
  assumes "i div 2 < length key" "v < 16"
  shows "\<exists>key'. radix_tree_key_pack key i v = Some key' \<and> length key' = length key \<and> nib key' i = v \<and>
    (\<forall>j. j \<noteq> i \<longrightarrow> nib key' j = nib key j)"
proof -
  let ?b = "key ! (i div 2)"
  let ?c = "(?b AND push_bit (if even i then 0 else 4) 0xF) OR push_bit (if even i then 4 else 0) v"
  have v: "take_bit 4 v = v"
    using assms(2)
    by (simp add: word_unat_eq_iff unsigned_take_bit_eq take_bit_nat_eq_self_iff word_less_nat_alt)
  have b4: "bit v n \<Longrightarrow> n < 4" for n
    using arg_cong [OF v, of "\<lambda>w. bit w n"] by (simp add: bit_simps)
  have F: "(0xF :: u8) = mask 4"
    by (simp add: mask_eq_exp_minus_1)
  have own: "take_bit 4 (drop_bit (if even i then 4 else 0) ?c) = v"
    by (rule bit_word_eqI) (auto simp: F bit_simps dest: b4)
  have other: "take_bit 4 (drop_bit (if even i then 0 else 4) ?c) =
      take_bit 4 (drop_bit (if even i then 0 else 4) ?b)"
    by (rule bit_word_eqI) (auto simp: F bit_simps dest: b4)
  have "nib (key[i div 2 := ?c]) j = nib key j" if "j \<noteq> i" for j
  proof (cases "j div 2 = i div 2")
    case True
    then have "even j \<longleftrightarrow> odd i"
      using that by (metis div_mult_mod_eq even_iff_mod_2_eq_zero odd_iff_mod_2_eq_one)
    then show ?thesis
      using other True assms(1) by (auto simp: nib_take_bit)
  qed (simp add: nib_def)
  then show ?thesis
    using own assms(1) by (simp add: radix_tree_key_pack_def nib_take_bit)
qed

lemma copy_key_nibs:
  assumes "offset + len \<le> 2 * length src" "len \<le> 2 * length dest"
  shows "\<exists>d. radix_tree_copy_key dest src offset len = Some d \<and> length d = length dest \<and>
    nibs d 0 len = nibs src offset (offset + len)"
proof (cases "even offset")
  case True
  let ?n = "(len + 1) div 2"
  let ?d = "take ?n (drop (offset div 2) src) @ drop ?n dest"
  obtain k where k: "offset = 2 * k" using True by blast
  have room: "offset div 2 + ?n \<le> length src" "?n \<le> length dest"
    using assms by (simp_all add: k)
  have "nib ?d i = nib src (offset + i)" if "i < len" for i
  proof -
    have "i div 2 < ?n" using that by linarith
    then show ?thesis
      using room by (simp add: nib_def nth_append k)
  qed
  then have "nibs ?d 0 len = nibs src offset (offset + len)"
    by (intro nth_equalityI) simp_all
  then show ?thesis
    using room True by (simp add: radix_tree_copy_key_def Let_def)
next
  case False
  let ?f = "\<lambda>i r. Option.bind r (\<lambda>dest. Option.bind (radix_tree_key_unpack src (offset + i))
    (radix_tree_key_pack dest i))"
  let ?P = "\<lambda>i r. \<exists>d. r = Some d \<and> length d = length dest \<and> (\<forall>j<i. nib d j = nib src (offset + j))"
  have "?P len (for_loop 0 len ?f (Some dest))"
  proof (rule for_loop_invariant [where P = ?P])
    fix i r assume i: "i < len" and "?P i r"
    then obtain d where d: "r = Some d" "length d = length dest" "\<forall>j<i. nib d j = nib src (offset + j)"
      by blast
    have "radix_tree_key_unpack src (offset + i) = Some (nib src (offset + i))"
      using assms i by (intro unpack_nib) linarith
    moreover have "i div 2 < length d"
      using i assms(2) d(2) by (intro less_mult_imp_div_less) simp
    then obtain d' where "radix_tree_key_pack d i (nib src (offset + i)) = Some d'"
        "length d' = length d" "nib d' i = nib src (offset + i)" "\<forall>j. j \<noteq> i \<longrightarrow> nib d' j = nib d j"
      using pack_nib [of i d "nib src (offset + i)"] nib_less by blast
    ultimately show "?P (Suc i) (?f i r)"
      using d by (auto simp: less_Suc_eq)
  qed simp_all
  then show ?thesis
    using False by (auto simp: radix_tree_copy_key_def nibs_def list_eq_iff_nth_eq)
qed

end
