(* ===== verification/Radix_Store.thy ===== *)
theory Radix_Store
  imports Radix_Keys
begin

text \<open>
  The freelists of the radix tree seen as one map from node pointers to abstract nodes: an edge is its
  key pieces and its successor, a branch a function from key pieces to entries, whatever of the four
  layouts it has. Each operation of \<open>Radix_Tree\<close> that creates, changes or removes nodes is an update of
  that map.
\<close>

section \<open>Pools that stay small\<close>

text \<open>
  \<open>fl_lim P fl\<close>: at most \<open>P\<close> cells are in use and the pool has at most \<open>2 * P\<close>. A pool grows only when
  all its cells are in use, so an insertion leads from \<open>P\<close> to \<open>P + 1\<close>, and while \<open>P\<close> is below \<open>2 ^ 28\<close> every
  index fits the 29 bits of a pointer.
\<close>

definition fl_lim :: "nat \<Rightarrow> 'a freelist \<Rightarrow> bool" where
  "fl_lim P fl \<longleftrightarrow> 0 < fl_cap fl \<and> unat (fl_cap fl) \<le> 2 * P \<and> unat (fl_cap fl) \<le> P + unat (free fl)"

lemma fl_lim_mono: "fl_lim P fl \<Longrightarrow> P \<le> Q \<Longrightarrow> fl_lim Q fl"
  by (simp add: fl_lim_def)

definition fl_keep :: "'b freelist \<Rightarrow> 'a freelist \<Rightarrow> bool" where
  "fl_keep fl' fl \<longleftrightarrow> (\<forall>P. fl_lim P fl \<longrightarrow> fl_lim P fl')"

lemma fl_keepD: "fl_keep fl' fl \<Longrightarrow> fl_lim P fl \<Longrightarrow> fl_lim P fl'"
  by (simp add: fl_keep_def)

lemma fl_keep_refl [simp]: "fl_keep fl fl"
  by (simp add: fl_keep_def)

lemma fl_rep_used:
  assumes "fl_rep fl m"
  shows "finite (dom m)" "card (dom m) + unat (free fl) = unat (fl_cap fl)"
proof -
  obtain fs where fs: "length fs = unat (free fl)" "distinct fs" "set fs \<inter> dom m = {}"
      "set fs \<union> dom m = {i. i < fl_cap fl}"
    using assms by (auto simp: fl_rep_def)
  have "card {j. j < fl_cap fl} = unat (fl_cap fl)"
    using distinct_card [OF free_range(1) [of "unat (fl_cap fl)" 0]]
      free_range(2) [of "unat (fl_cap fl)" 0] u32_bound [of "fl_cap fl"]
    by (simp add: word_less_nat_alt)
  moreover show fin: "finite (dom m)" by simp
  ultimately show "card (dom m) + unat (free fl) = unat (fl_cap fl)"
    using card_Un_disjoint [OF finite_set fin fs(3)] fs by (simp add: distinct_card)
qed

lemma pool_insert:
  assumes "fl_rep fl m" "fl_lim P fl" "P < 2 ^ 28"
  obtains i fl' where "freelist_insert fl x = Some (i, fl')" "m i = None" "fl_rep fl' (m(i \<mapsto> x))"
    "fl_lim (P + 1) fl'" "take_bit 29 i = i"
proof -
  have room: "0 < fl_cap fl" "unat (fl_cap fl) \<le> 2 ^ 31"
    using assms(2,3) by (simp_all add: fl_lim_def)
  obtain i fl' where r: "freelist_insert fl x = Some (i, fl')" "m i = None" "fl_rep fl' (m(i \<mapsto> x))"
      "fl_cap fl \<le> fl_cap fl'"
    using fl_rep_insert [OF assms(1) room] by blast
  note used = fl_rep_used [OF assms(1)]
  have "card (dom (m(i \<mapsto> x))) = card (dom m) + 1"
    using used(1) r(2) by (simp add: card_insert_if domIff)
  then have cap: "unat (fl_cap fl') \<le> 2 * P" "unat (fl_cap fl') \<le> P + 1 + unat (free fl')"
    using freelist_insert_cap [OF r(1)] fl_rep_used(2) [OF r(3)] used(2) assms(2)
    by (auto simp: fl_lim_def)
  have "i < fl_cap fl'" using fl_repD(4) [OF r(3), of i] by simp
  then have "unat i < 2 ^ 29" using cap assms(3) by (simp add: word_less_nat_alt)
  then have "take_bit 29 i = i"
    by (simp add: word_unat_eq_iff unsigned_take_bit_eq take_bit_nat_eq_self_iff)
  moreover have "fl_lim (P + 1) fl'"
    using cap r(4) room(1) by (simp add: fl_lim_def word_less_nat_alt word_le_nat_alt)
  ultimately show thesis using r(1-3) by (intro that)
qed

lemma pool_set:
  assumes "fl_rep fl m" "i \<in> dom m"
  obtains fl' where "freelist_set fl i x = Some fl'" "fl_rep fl' (m(i \<mapsto> x))" "fl_keep fl' fl"
proof -
  obtain fl' where r: "freelist_set fl i x = Some fl'" "fl_rep fl' (m(i \<mapsto> x))" "fl_cap fl' = fl_cap fl"
    using fl_rep_set [OF assms, of x] by blast
  moreover have "dom (m(i \<mapsto> x)) = dom m" using assms(2) by auto
  ultimately have "fl_keep fl' fl"
    using fl_rep_used(2) [OF assms(1)] fl_rep_used(2) [OF r(2)] by (simp add: fl_keep_def fl_lim_def)
  then show thesis using r that by blast
qed

lemma pool_remove:
  assumes "fl_rep fl m" "i \<in> dom m"
  obtains fl' where "freelist_remove fl i = Some fl'" "fl_rep fl' (m(i := None))" "fl_keep fl' fl"
proof -
  obtain fl' where r: "freelist_remove fl i = Some fl'" "fl_rep fl' (m(i := None))" "fl_cap fl' = fl_cap fl"
    using fl_rep_remove [OF assms] by blast
  moreover have "card (dom (m(i := None))) \<le> card (dom m)"
    using fl_rep_used(1) [OF assms(1)] by (intro card_mono) auto
  ultimately have "fl_keep fl' fl"
    using fl_rep_used(2) [OF assms(1)] fl_rep_used(2) [OF r(2)] by (simp add: fl_keep_def fl_lim_def)
  then show thesis using r that by blast
qed

section \<open>Edges with their strings\<close>

type_synonym edge_view = "u8 list \<times> node_ptr"

definition long_edge :: "edge_node \<Rightarrow> bool" where
  "long_edge e \<longleftrightarrow> SMALL_STR_SIZE < e_length e"

definition edge_text :: "(u32 \<rightharpoonup> u8 list) \<Rightarrow> edge_node \<Rightarrow> u8 list" where
  "edge_text S e = (if long_edge e then the (S (string_idx e)) else e_data e)"

definition edge_view :: "(u32 \<rightharpoonup> u8 list) \<Rightarrow> edge_node \<Rightarrow> edge_view" where
  "edge_view S e = (nibs (edge_text S e) 0 (e_length e), e_next e)"

definition edge_ok :: "nat \<Rightarrow> (u32 \<rightharpoonup> u8 list) \<Rightarrow> edge_node \<Rightarrow> bool" where
  "edge_ok n S e \<longleftrightarrow> length (e_data e) = 6 \<and> 0 < e_length e \<and> e_length e \<le> 2 * n \<and>
     (long_edge e \<longrightarrow> (\<exists>s. S (string_idx e) = Some s \<and> length s = n))"

definition edges_ok :: "nat \<Rightarrow> (u32 \<rightharpoonup> edge_node) \<Rightarrow> (u32 \<rightharpoonup> u8 list) \<Rightarrow> bool" where
  "edges_ok n F S \<longleftrightarrow> (\<forall>i e. F i = Some e \<longrightarrow> edge_ok n S e) \<and>
     (\<forall>i j e e'. F i = Some e \<longrightarrow> F j = Some e' \<longrightarrow> long_edge e \<longrightarrow> long_edge e' \<longrightarrow>
        string_idx e = string_idx e' \<longrightarrow> i = j)"

definition edges_rep ::
  "nat \<Rightarrow> edge_node freelist \<Rightarrow> u8 list freelist \<Rightarrow> (u32 \<rightharpoonup> edge_view) \<Rightarrow> bool" where
  "edges_rep n es ss E \<longleftrightarrow>
     (\<exists>F S. fl_rep es F \<and> fl_rep ss S \<and> edges_ok n F S \<and> E = (\<lambda>i. map_option (edge_view S) (F i)))"

lemma string_idx_set: "string_idx (set_string_idx i e) = i"
  by (simp add: string_idx_def set_string_idx_def le32_bytes_def)
    (rule bit_word_eqI, auto simp: bit_simps)

lemma set_string_idx_simps [simp]:
  "e_length (set_string_idx i e) = e_length e" "e_next (set_string_idx i e) = e_next e"
  "length (e_data e) = 6 \<Longrightarrow> length (e_data (set_string_idx i e)) = 6"
  "long_edge (set_string_idx i e) = long_edge e"
  by (simp_all add: set_string_idx_def long_edge_def le32_bytes_def)

lemma edge_text_fetch:
  assumes "fl_rep (strings t) S" "edge_ok n S e"
  shows "fetch_edge_str t e = Some (edge_text S e)" "e_length e \<le> 2 * length (edge_text S e)"
proof -
  show "fetch_edge_str t e = Some (edge_text S e)"
    using assms fl_rep_get [OF assms(1)]
    by (auto simp: fetch_edge_str_def edge_text_def edge_ok_def long_edge_def)
  show "e_length e \<le> 2 * length (edge_text S e)"
    using assms(2) by (auto simp: edge_text_def edge_ok_def long_edge_def SMALL_STR_SIZE_def)
qed

lemma edges_repE:
  assumes "edges_rep n es ss E" "E i = Some (xs, q)"
  obtains F S e where "fl_rep es F" "fl_rep ss S" "edges_ok n F S" "E = (\<lambda>i. map_option (edge_view S) (F i))"
    "F i = Some e" "edge_ok n S e" "xs = nibs (edge_text S e) 0 (e_length e)" "q = e_next e"
    "length xs = e_length e"
proof -
  obtain F S where r: "fl_rep es F" "fl_rep ss S" "edges_ok n F S" "E = (\<lambda>i. map_option (edge_view S) (F i))"
    using assms(1) by (auto simp: edges_rep_def)
  then obtain e where e: "F i = Some e" "edge_view S e = (xs, q)"
    using assms(2) by auto
  then show thesis
    using that [OF r e(1)] r(3) by (auto simp: edge_view_def edges_ok_def)
qed

lemma edge_view_string:
  "\<not> long_edge e \<or> string_idx e \<noteq> k \<Longrightarrow> edge_view (S(k := x)) e = edge_view S e"
  by (auto simp: edge_view_def edge_text_def)

lemma edge_ok_string:
  "edge_ok n S e \<Longrightarrow> \<not> long_edge e \<or> string_idx e \<noteq> k \<Longrightarrow> edge_ok n (S(k := x)) e"
  by (auto simp: edge_ok_def)

lemma keep_strings: "t\<lparr>edges := es, strings := strings t\<rparr> = t\<lparr>edges := es\<rparr>"
  by (cases t) simp

lemma upd_view:
  assumes "\<And>j e. j \<noteq> i \<Longrightarrow> F j = Some e \<Longrightarrow> edge_view S' e = edge_view S e" "edge_view S' e' = v"
  shows "(\<lambda>j. map_option (edge_view S') ((F(i \<mapsto> e')) j)) = (\<lambda>j. map_option (edge_view S) (F j))(i \<mapsto> v)"
proof
  fix j
  show "map_option (edge_view S') ((F(i \<mapsto> e')) j) = ((\<lambda>j. map_option (edge_view S) (F j))(i \<mapsto> v)) j"
    using assms by (cases "F j") auto
qed

lemma nibs_cong: "(\<And>i. a \<le> i \<Longrightarrow> i < b \<Longrightarrow> nib k i = nib k' i) \<Longrightarrow> nibs k a b = nibs k' a b"
  by (simp add: nibs_def)

lemma nibs_prefix:
  assumes "take j k = take j k'" "b \<le> 2 * j" "j \<le> length k" "j \<le> length k'"
  shows "nibs k a b = nibs k' a b"
proof (rule nibs_cong)
  fix i assume "i < b"
  then have "i div 2 < j" using assms(2) by (intro less_mult_imp_div_less) simp
  then have "k ! (i div 2) = k' ! (i div 2)"
    using arg_cong [OF assms(1), of "\<lambda>l. l ! (i div 2)"] by simp
  then show "nib k i = nib k' i" by (simp add: nib_def)
qed

lemma create_edge_rep:
  assumes rep: "edges_rep n (edges t) (strings t) E"
    and lim: "fl_lim P (edges t)" "fl_lim P (strings t)" "P < 2 ^ 28"
    and len: "length junk = n" "offset + len \<le> 2 * length key" "0 < len" "len \<le> 2 * n"
  obtains i es ss where
    "radix_tree_create_edge_node junk t key offset len nxt =
       Some (\<lparr>ptr_type = RTT_EDGE, ptr_idx = i\<rparr>, t\<lparr>edges := es, strings := ss\<rparr>)"
    "E i = None" "edges_rep n es ss (E(i \<mapsto> (nibs key offset (offset + len), nxt)))"
    "fl_lim (P + 1) es" "fl_lim (P + 1) ss"
proof -
  obtain F S where r: "fl_rep (edges t) F" "fl_rep (strings t) S" "edges_ok n F S"
      "E = (\<lambda>i. map_option (edge_view S) (F i))"
    using rep by (auto simp: edges_rep_def)
  let ?e = "\<lparr>e_data = replicate EDGE_DATA_SIZE 0, e_length = len, e_next = nxt\<rparr>"
  obtain buf where buf: "radix_tree_copy_key junk key offset len = Some buf" "length buf = n"
      "nibs buf 0 len = nibs key offset (offset + len)"
    using copy_key_nibs [of offset len key junk] len by auto
  obtain i es where i: "freelist_insert (edges t) ?e = Some (i, es)" "F i = None"
      "fl_rep es (F(i \<mapsto> ?e))" "fl_lim (P + 1) es" "take_bit 29 i = i"
    by (rule pool_insert [OF r(1) lim(1,3)])
  have ptr: "mk_ptr RTT_EDGE i = \<lparr>ptr_type = RTT_EDGE, ptr_idx = i\<rparr>"
    by (simp add: mk_ptr_def i(5))
  have Ei: "E i = None" by (simp add: r(4) i(2))
  show thesis
  proof (cases "SMALL_STR_SIZE < len")
    case True
    obtain k ss where k: "freelist_insert (strings t) buf = Some (k, ss)" "S k = None"
        "fl_rep ss (S(k \<mapsto> buf))" "fl_lim (P + 1) ss"
      by (rule pool_insert [OF r(2) lim(2,3)])
    let ?e' = "set_string_idx k ?e"
    obtain es' where es': "freelist_set es i ?e' = Some es'" "fl_rep es' (F(i \<mapsto> ?e', i \<mapsto> ?e'))"
        "fl_keep es' es"
      by (rule pool_set [OF i(3), of i ?e']) auto
    have data: "length (e_data ?e) = 6" by (simp add: EDGE_DATA_SIZE_def)
    have fresh: "\<not> long_edge e \<or> string_idx e \<noteq> k" if "F j = Some e" for j e
      using r(3) that k(2) unfolding edges_ok_def edge_ok_def by (metis option.distinct(1))
    have view: "edge_view (S(k \<mapsto> buf)) ?e' = (nibs key offset (offset + len), nxt)"
      using True by (simp add: edge_view_def edge_text_def string_idx_set long_edge_def buf(3))
    have ok: "edge_ok n (S(k \<mapsto> buf)) ?e'"
      using data len by (simp add: edge_ok_def string_idx_set buf(2))
    have "edges_ok n (F(i \<mapsto> ?e')) (S(k \<mapsto> buf))"
      unfolding edges_ok_def
    proof (intro conjI allI impI)
      fix j e assume "(F(i \<mapsto> ?e')) j = Some e"
      then show "edge_ok n (S(k \<mapsto> buf)) e"
        using ok r(3) fresh by (auto simp: edges_ok_def intro!: edge_ok_string split: if_splits)
    next
      fix j j' e e'
      assume "(F(i \<mapsto> ?e')) j = Some e" "(F(i \<mapsto> ?e')) j' = Some e'" "long_edge e" "long_edge e'"
        "string_idx e = string_idx e'"
      then show "j = j'"
        using r(3) fresh [of j e] fresh [of j' e'] unfolding edges_ok_def
        by (auto simp: string_idx_set split: if_splits)
    qed
    moreover have "(\<lambda>j. map_option (edge_view (S(k \<mapsto> buf))) ((F(i \<mapsto> ?e')) j)) =
        E(i \<mapsto> (nibs key offset (offset + len), nxt))"
      unfolding r(4) by (rule upd_view) (use fresh view in \<open>auto intro: edge_view_string\<close>)
    ultimately have "edges_rep n es' ss (E(i \<mapsto> (nibs key offset (offset + len), nxt)))"
      using es'(2) k(3) unfolding edges_rep_def by fastforce
    then show thesis
      using that [of i ss es'] True buf(1) i(1,4) k(1,4) es'(1) fl_keepD [OF es'(3) i(4)] ptr Ei
      by (simp add: radix_tree_create_edge_node_def Let_def)
  next
    case False
    let ?n = "(len + 1) div 2"
    let ?e' = "?e\<lparr>e_data := take ?n buf @ drop ?n (e_data ?e)\<rparr>"
    have n6: "?n \<le> 6" "?n \<le> n" "len \<le> 2 * ?n"
      using False len(4) by (simp_all add: SMALL_STR_SIZE_def)
    obtain es' where es': "freelist_set es i ?e' = Some es'" "fl_rep es' (F(i \<mapsto> ?e', i \<mapsto> ?e'))"
        "fl_keep es' es"
      by (rule pool_set [OF i(3), of i ?e']) auto
    have short: "\<not> long_edge ?e'"
      using False by (simp add: long_edge_def)
    have "nibs (e_data ?e') 0 len = nibs buf 0 len"
      by (rule nibs_prefix [of ?n]) (use n6 buf(2) in \<open>simp_all add: EDGE_DATA_SIZE_def\<close>)
    then have view: "edge_view S ?e' = (nibs key offset (offset + len), nxt)"
      using short by (simp add: edge_view_def edge_text_def buf(3))
    have ok: "edge_ok n S ?e'"
      using short n6 len buf(2) by (simp add: edge_ok_def EDGE_DATA_SIZE_def)
    have "edges_ok n (F(i \<mapsto> ?e')) S"
      using r(3) ok short by (auto simp: edges_ok_def)
    moreover have "(\<lambda>j. map_option (edge_view S) ((F(i \<mapsto> ?e')) j)) =
        E(i \<mapsto> (nibs key offset (offset + len), nxt))"
      unfolding r(4) by (rule upd_view) (use view in auto)
    ultimately have "edges_rep n es' (strings t) (E(i \<mapsto> (nibs key offset (offset + len), nxt)))"
      using es'(2) r(2) unfolding edges_rep_def by fastforce
    moreover have "fl_lim (P + 1) (strings t)"
      using lim(2) by (simp add: fl_lim_def)
    ultimately show thesis
      using that [of i "strings t" es'] False buf(1) i(1,4) es'(1) fl_keepD [OF es'(3) i(4)] ptr Ei
      by (simp add: radix_tree_create_edge_node_def Let_def keep_strings)
  qed
qed

section \<open>Reading, changing and removing edges\<close>

text \<open>\<open>edge_read t i xs q e tx\<close>: the edge \<open>i\<close> is \<open>e\<close>, its key bytes are \<open>tx\<close>, and it stands for the pieces \<open>xs\<close>.\<close>

definition edge_read ::
  "'v radix_tree \<Rightarrow> u32 \<Rightarrow> u8 list \<Rightarrow> node_ptr \<Rightarrow> edge_node \<Rightarrow> u8 list \<Rightarrow> bool" where
  "edge_read t i xs q e tx \<longleftrightarrow> freelist_get (edges t) i = Some e \<and> fetch_edge_str t e = Some tx \<and>
     e_length e = length xs \<and> e_next e = q \<and> xs = nibs tx 0 (length xs) \<and>
     0 < length xs \<and> length xs \<le> 2 * length tx"

lemma edge_fetch_rep:
  assumes "edges_rep n (edges t) (strings t) E" "E i = Some (xs, q)"
  obtains e tx where "edge_read t i xs q e tx" "length xs \<le> 2 * n"
proof (rule edges_repE [OF assms])
  fix F S e
  assume r: "fl_rep (edges t) F" "fl_rep (strings t) S" "F i = Some e" "edge_ok n S e"
    "xs = nibs (edge_text S e) 0 (e_length e)" "q = e_next e" "length xs = e_length e"
  show thesis
    using that [of e "edge_text S e"] fl_rep_get [OF r(1,3)] edge_text_fetch [OF r(2,4)] r(4-7)
    by (auto simp: edge_read_def edge_ok_def)
qed

lemma edges_ok_upd:
  assumes "edges_ok n F S" "edge_ok n S e'"
    and "\<And>j e. j \<noteq> i \<Longrightarrow> F j = Some e \<Longrightarrow> long_edge e \<Longrightarrow> long_edge e' \<Longrightarrow> string_idx e \<noteq> string_idx e'"
  shows "edges_ok n (F(i \<mapsto> e')) S"
  using assms unfolding edges_ok_def by (auto split: if_splits) metis+

lemma set_next_rep:
  assumes "edges_rep n (edges t) (strings t) E" "E i = Some (xs, q)"
  obtains es where "set_edge_next t i q' = Some (t\<lparr>edges := es\<rparr>)"
    "edges_rep n es (strings t) (E(i \<mapsto> (xs, q')))" "fl_keep es (edges t)"
proof (rule edges_repE [OF assms])
  fix F S e
  assume r: "fl_rep (edges t) F" "fl_rep (strings t) S" "edges_ok n F S" "E = (\<lambda>i. map_option (edge_view S) (F i))"
    "F i = Some e" "edge_ok n S e" "xs = nibs (edge_text S e) 0 (e_length e)"
  let ?e = "e\<lparr>e_next := q'\<rparr>"
  obtain es where es: "freelist_set (edges t) i ?e = Some es" "fl_rep es (F(i \<mapsto> ?e))"
      "fl_keep es (edges t)"
    using r(5) by (blast intro: pool_set [OF r(1)])
  have same: "long_edge ?e = long_edge e" "string_idx ?e = string_idx e" "edge_text S ?e = edge_text S e"
    by (simp_all add: long_edge_def string_idx_def edge_text_def)
  have "edge_ok n S ?e" using r(6) by (simp add: edge_ok_def same)
  then have "edges_ok n (F(i \<mapsto> ?e)) S"
    using r(3,5) by (intro edges_ok_upd) (auto simp: same edges_ok_def)
  moreover have "(\<lambda>j. map_option (edge_view S) ((F(i \<mapsto> ?e)) j)) = E(i \<mapsto> (xs, q'))"
    unfolding r(4) by (rule upd_view) (simp_all add: edge_view_def same r(7))
  ultimately have "edges_rep n es (strings t) (E(i \<mapsto> (xs, q')))"
    using es(2) r(2) unfolding edges_rep_def by fastforce
  then show thesis
    using that es(1,3) fl_rep_get [OF r(1,5)] by (simp add: set_edge_next_def)
qed

lemma remove_edge_rep:
  assumes "edges_rep n (edges t) (strings t) E" "E i = Some (xs, q)" "freelist_get (edges t) i = Some e"
  obtains es ss where "edge_maybe_remove_str t e = Some (t\<lparr>strings := ss\<rparr>)"
    "freelist_remove (edges t) i = Some es" "edges_rep n es ss (E(i := None))"
    "fl_keep es (edges t)" "fl_keep ss (strings t)"
proof (rule edges_repE [OF assms(1,2)])
  fix F S e'
  assume r: "fl_rep (edges t) F" "fl_rep (strings t) S" "edges_ok n F S" "E = (\<lambda>i. map_option (edge_view S) (F i))"
    "F i = Some e'" "edge_ok n S e'"
  then have e: "F i = Some e" "edge_ok n S e"
    using fl_rep_get [OF r(1,5)] assms(3) by simp_all
  obtain es where es: "freelist_remove (edges t) i = Some es" "fl_rep es (F(i := None))"
      "fl_keep es (edges t)"
    using r(5) by (blast intro: pool_remove [OF r(1)])
  show thesis
  proof (cases "long_edge e")
    case True
    then obtain ss where ss: "freelist_remove (strings t) (string_idx e) = Some ss"
        "fl_rep ss (S(string_idx e := None))" "fl_keep ss (strings t)"
      using e(2) by (auto simp: edge_ok_def intro: pool_remove [OF r(2)])
    let ?S = "S(string_idx e := None)"
    have other: "\<not> long_edge d \<or> string_idx d \<noteq> string_idx e" if "F j = Some d" "j \<noteq> i" for j d
      using r(3) e(1) True that unfolding edges_ok_def by blast
    have "edges_ok n (F(i := None)) ?S"
      using r(3) other edge_ok_string unfolding edges_ok_def by (auto split: if_splits)
    moreover have "(\<lambda>j. map_option (edge_view ?S) ((F(i := None)) j)) = E(i := None)"
      using other by (auto simp: r(4) fun_eq_iff edge_view_string intro!: option.map_cong)
    ultimately have "edges_rep n es ss (E(i := None))"
      using es(2) ss(2) unfolding edges_rep_def by fastforce
    then show thesis
      using that [of ss es] es(1,3) ss(1,3) True by (simp add: edge_maybe_remove_str_def long_edge_def)
  next
    case False
    have "edges_ok n (F(i := None)) S"
      using r(3) unfolding edges_ok_def by (auto split: if_splits)
    moreover have "(\<lambda>j. map_option (edge_view S) ((F(i := None)) j)) = E(i := None)"
      by (auto simp: r(4) fun_eq_iff)
    ultimately have "edges_rep n es (strings t) (E(i := None))"
      using es(2) r(2) unfolding edges_rep_def by fastforce
    moreover have "t\<lparr>strings := strings t\<rparr> = t" by simp
    ultimately show thesis
      using that [of "strings t" es] es(1,3) False by (simp add: edge_maybe_remove_str_def long_edge_def)
  qed
qed

text \<open>
  Cutting an edge leaves its first pieces; a string that has become short moves into the node. The code
  copies one byte for each piece, up to twelve; a string of \<open>n\<close> bytes has that many unless \<open>n\<close> is between
  seven and eleven.
\<close>

definition key_size_ok :: "nat \<Rightarrow> bool" where
  "key_size_ok n \<longleftrightarrow> 2 * n \<le> SMALL_STR_SIZE \<or> SMALL_STR_SIZE \<le> n"

lemma cut_edge_rep:
  assumes "edges_rep n (edges t) (strings t) E" "E i = Some (xs, q)" "0 < j" "j \<le> length xs"
    and size: "key_size_ok n" and p: "ptr_idx p = i"
  obtains es ss where "cut_edge t p j = Some (t\<lparr>edges := es, strings := ss\<rparr>)"
    "edges_rep n es ss (E(i \<mapsto> (take j xs, q)))"
    "fl_keep es (edges t)" "fl_keep ss (strings t)"
proof (rule edges_repE [OF assms(1,2)])
  fix F S e
  assume r: "fl_rep (edges t) F" "fl_rep (strings t) S" "edges_ok n F S" "E = (\<lambda>i. map_option (edge_view S) (F i))"
    "F i = Some e" "edge_ok n S e" "xs = nibs (edge_text S e) 0 (e_length e)" "q = e_next e" "length xs = e_length e"
  note get = fl_rep_get [OF r(1,5)] edge_text_fetch [OF r(2,6)]
  have pieces: "take j xs = nibs (edge_text S e) 0 j"
    using assms(4) r(7,9) by (simp add: take_nibs)
  show thesis
  proof (cases "long_edge e \<and> j \<le> SMALL_STR_SIZE")
    case True
    then obtain s where s: "S (string_idx e) = Some s" "length s = n" "edge_text S e = s"
      using r(6) by (auto simp: edge_ok_def edge_text_def)
    have n: "j \<le> n" "12 \<le> n"
      using True size r(6) by (auto simp: key_size_ok_def long_edge_def edge_ok_def SMALL_STR_SIZE_def)
    obtain ss where ss: "freelist_remove (strings t) (string_idx e) = Some ss"
        "fl_rep ss (S(string_idx e := None))" "fl_keep ss (strings t)"
      using s(1) by (blast intro: pool_remove [OF r(2)])
    let ?S = "S(string_idx e := None)"
    let ?e = "e\<lparr>e_data := take EDGE_DATA_SIZE (take j s @ drop j (e_data e)), e_length := j\<rparr>"
    obtain es where es: "freelist_set (edges t) i ?e = Some es" "fl_rep es (F(i \<mapsto> ?e))"
        "fl_keep es (edges t)"
      using r(5) by (blast intro: pool_set [OF r(1)])
    have len: "length (e_data ?e) = 6" "\<not> long_edge ?e"
      using True s(2) n r(6) by (auto simp: EDGE_DATA_SIZE_def edge_ok_def long_edge_def)
    have "nibs (e_data ?e) 0 j = nibs s 0 j"
    proof (rule nibs_prefix [of "(j + 1) div 2"])
      have "(j + 1) div 2 \<le> 6" "(j + 1) div 2 \<le> j"
        using conjunct2 [OF True] assms(3) unfolding SMALL_STR_SIZE_def by linarith+
      then show "take ((j + 1) div 2) (e_data ?e) = take ((j + 1) div 2) s"
        using n by (simp add: EDGE_DATA_SIZE_def s(2) min_def)
      show "(j + 1) div 2 \<le> length (e_data ?e)" "(j + 1) div 2 \<le> length s"
        using \<open>(j + 1) div 2 \<le> 6\<close> n s(2) len(1) by linarith+
    qed simp
    then have view: "edge_view ?S ?e = (take j xs, q)"
      using len(2) s(3) by (simp add: edge_view_def edge_text_def pieces r(8))
    have other: "\<not> long_edge d \<or> string_idx d \<noteq> string_idx e" if "F l = Some d" "l \<noteq> i" for l d
      using r(3,5) True that unfolding edges_ok_def by blast
    have "edge_ok n ?S ?e"
      using len assms(3) r(6,9) assms(4) by (simp add: edge_ok_def)
    then have "edges_ok n (F(i \<mapsto> ?e)) ?S"
      using r(3) other edge_ok_string len(2) unfolding edges_ok_def
      by (auto split: if_splits)
    moreover have "(\<lambda>l. map_option (edge_view ?S) ((F(i \<mapsto> ?e)) l)) = E(i \<mapsto> (take j xs, q))"
      unfolding r(4) by (rule upd_view) (use other edge_view_string view in auto)
    ultimately have "edges_rep n es ss (E(i \<mapsto> (take j xs, q)))"
      using es(2) ss(2) unfolding edges_rep_def by fastforce
    then show thesis
      using that [of ss es] get es(1,3) ss(1,3) True s n p
      by (simp add: cut_edge_def edge_maybe_move_str_def long_edge_def)
  next
    case False
    let ?e = "e\<lparr>e_length := j\<rparr>"
    obtain es where es: "freelist_set (edges t) i ?e = Some es" "fl_rep es (F(i \<mapsto> ?e))"
        "fl_keep es (edges t)"
      using r(5) by (blast intro: pool_set [OF r(1)])
    have same: "long_edge ?e = long_edge e" "string_idx ?e = string_idx e" "edge_text S ?e = edge_text S e"
      using False assms(4) r(9) by (auto simp: long_edge_def string_idx_def edge_text_def)
    have "edge_ok n S ?e" using r(6,9) assms(3,4) by (simp add: edge_ok_def same)
    then have "edges_ok n (F(i \<mapsto> ?e)) S"
      using r(3,5) by (intro edges_ok_upd) (auto simp: same edges_ok_def)
    moreover have "(\<lambda>l. map_option (edge_view S) ((F(i \<mapsto> ?e)) l)) = E(i \<mapsto> (take j xs, q))"
      unfolding r(4) by (rule upd_view) (simp_all add: edge_view_def same pieces r(8))
    ultimately have "edges_rep n es (strings t) (E(i \<mapsto> (take j xs, q)))"
      using es(2) r(2) unfolding edges_rep_def by fastforce
    then show thesis
      using that [of "strings t" es] get es(1,3) False p
      by (auto simp: cut_edge_def edge_maybe_move_str_def long_edge_def keep_strings)
  qed
qed

end
