(* ===== verification/Radix_Branch.thy ===== *)
theory Radix_Branch
  imports Radix_Store
begin

text \<open>
  The four layouts of a branch as functions from key pieces to entries, and what creating a branch,
  reading, filling and growing it do to that function.
\<close>

lemma find_upt_Some: "find P [0..<n] = Some i \<longleftrightarrow> i < n \<and> P i \<and> (\<forall>j<i. \<not> P j)"
  by (auto simp: find_Some_iff)

lemma find_upt_None: "find P [0..<n] = None \<longleftrightarrow> (\<forall>i<n. \<not> P i)"
  by (auto simp: find_None_iff)

section \<open>Branches with key pieces beside their entries\<close>

text \<open>\<open>sparse_used k u b\<close>: the first \<open>u\<close> of \<open>k\<close> slots are used, by different pieces.\<close>

definition sparse_used :: "nat \<Rightarrow> nat \<Rightarrow> sparse_node \<Rightarrow> bool" where
  "sparse_used k u b \<longleftrightarrow> u \<le> k \<and> length (vals b) = k \<and> length (entries b) = k \<and>
     (\<forall>i<u. ptr_type (entries b ! i) \<noteq> RTT_NONE \<and> vals b ! i \<le> IMMEDIATE) \<and>
     (\<forall>i<u. \<forall>j<u. vals b ! i = vals b ! j \<longrightarrow> i = j) \<and> (\<forall>i<k. u \<le> i \<longrightarrow> entries b ! i = none_ptr)"

lemma none_ptr_type [simp]: "ptr_type none_ptr = RTT_NONE"
  by (simp add: none_ptr_def)

lemma sparse_get_used:
  assumes "sparse_used k u b" "i < u"
  shows "sparse_get k b (vals b ! i) = entries b ! i"
proof -
  have "find (\<lambda>j. vals b ! j = vals b ! i) [0..<k] = Some i"
    unfolding find_upt_Some using assms by (auto simp: sparse_used_def dest: less_trans)
  then show ?thesis by (simp add: sparse_get_def)
qed

lemma sparse_get_unused:
  assumes "sparse_used k u b" "\<And>i. i < u \<Longrightarrow> vals b ! i \<noteq> c"
  shows "sparse_get k b c = none_ptr"
proof (cases "find (\<lambda>j. vals b ! j = c) [0..<k]")
  case (Some i)
  then have "i < k" "vals b ! i = c" by (simp_all add: find_upt_Some)
  moreover from this have "u \<le> i" using assms(2) [of i] by (meson not_less)
  ultimately show ?thesis using assms(1) Some by (simp add: sparse_get_def sparse_used_def)
qed (simp add: sparse_get_def)

lemma sparse_get_none:
  "sparse_used k u b \<Longrightarrow> sparse_get k b c \<noteq> none_ptr \<Longrightarrow> \<exists>i<u. vals b ! i = c"
  using sparse_get_unused by blast

lemma sparse_slot_used:
  assumes "sparse_used k u b"
  shows "sparse_slot k b c = (case find (\<lambda>i. vals b ! i = c) [0..<u] of
    Some i \<Rightarrow> Some i | None \<Rightarrow> if u < k then Some u else None)"
proof (cases "find (\<lambda>i. vals b ! i = c) [0..<u]")
  case None
  note other = None [unfolded find_upt_None]
  have "sparse_slot k b c = (if u < k then Some u else None)"
  proof (cases "u < k")
    case True
    then show ?thesis
      unfolding sparse_slot_def using assms other by (simp add: find_upt_Some sparse_used_def)
  next
    case False
    then show ?thesis
      unfolding sparse_slot_def using assms other by (simp add: find_upt_None sparse_used_def)
  qed
  then show ?thesis using None by simp
next
  case (Some i)
  then have "sparse_slot k b c = Some i"
    unfolding sparse_slot_def find_upt_Some using assms by (auto simp: sparse_used_def find_upt_Some)
  then show ?thesis using Some by simp
qed

lemma sparse_put_used:
  assumes ok: "sparse_used k u b" and slot: "sparse_slot k b c = Some i"
    and node: "ptr_type node \<noteq> RTT_NONE" "c \<le> IMMEDIATE"
  shows "sparse_used k (max u (Suc i)) (sparse_put i c node b)"
    and "sparse_get k (sparse_put i c node b) = (sparse_get k b)(c := node)"
proof -
  have i: "i \<le> u" "i < k" "i < u \<Longrightarrow> vals b ! i = c" "j < u \<Longrightarrow> j \<noteq> i \<Longrightarrow> vals b ! j \<noteq> c" for j
    using slot ok
    by (auto simp: sparse_slot_used [OF ok] find_upt_None find_upt_Some sparse_used_def
        split: option.splits if_splits)
  let ?b = "sparse_put i c node b" and ?u = "max u (Suc i)"
  have len: "i < length (vals b)" "i < length (entries b)"
    using ok i(2) by (simp_all add: sparse_used_def)
  show ok': "sparse_used k ?u ?b"
    using ok i(1-3) i(4) [THEN not_sym] i(4) node
    by (auto simp: sparse_used_def sparse_put_def nth_list_update less_Suc_eq max_def)
  show "sparse_get k ?b = (sparse_get k b)(c := node)"
  proof
    fix d
    show "sparse_get k ?b d = ((sparse_get k b)(c := node)) d"
    proof (cases "d = c")
      case True
      then show ?thesis
        using sparse_get_used [OF ok', of i] len by (simp add: sparse_put_def)
    next
      case False
      show ?thesis
      proof (cases "\<exists>j<u. vals b ! j = d")
        case True
        then obtain j where j: "j < u" "vals b ! j = d" by blast
        then have "j \<noteq> i" using False i(3) by auto
        then show ?thesis
          using sparse_get_used [OF ok', of j] sparse_get_used [OF ok, of j] j False
          by (simp add: sparse_put_def)
      next
        case none: False
        have "vals ?b ! j \<noteq> d" if "j < ?u" for j
        proof (cases "j = i")
          case False
          then have "j < u" using that i(1) by auto
          then show ?thesis using none False by (simp add: sparse_put_def)
        qed (use False len in \<open>simp add: sparse_put_def\<close>)
        then have "sparse_get k ?b d = none_ptr"
          by (rule sparse_get_unused [OF ok'])
        then show ?thesis
          using sparse_get_unused [OF ok, of d] none False by auto
      qed
    qed
  qed
qed

lemma empty_sparse_used: "sparse_used k 0 (empty_sparse k)"
  by (simp add: sparse_used_def empty_sparse_def)

lemma sparse_get_empty: "sparse_get k (empty_sparse k) = (\<lambda>_. none_ptr)"
  using sparse_get_unused [OF empty_sparse_used] by auto

section \<open>Growing\<close>

text \<open>A full branch of four entries, copied into the first half of one of eight.\<close>

definition widen :: "sparse_node \<Rightarrow> sparse_node" where
  "widen b = \<lparr>vals = vals b @ replicate 4 0, entries = entries b @ replicate 4 none_ptr\<rparr>"

lemma widen_loop:
  assumes "sparse_used 4 u b"
  shows "for_loop 0 4 (\<lambda>i. sparse_put i (vals b ! i) (entries b ! i)) (empty_sparse 8) = widen b"
proof -
  obtain a0 a1 a2 a3 e0 e1 e2 e3 where "vals b = [a0, a1, a2, a3]" "entries b = [e0, e1, e2, e3]"
    using assms by (auto simp: sparse_used_def length_Suc_conv numeral_eq_Suc)
  then show ?thesis
    by (simp add: for_loop_def upt_rec empty_sparse_def sparse_put_def widen_def numeral_eq_Suc)
qed

lemma widen_used:
  assumes "sparse_used 4 4 b"
  shows "sparse_used 8 4 (widen b)" "sparse_get 8 (widen b) = sparse_get 4 b"
proof -
  show ok: "sparse_used 8 4 (widen b)"
    using assms by (auto simp: sparse_used_def widen_def nth_append)
  show "sparse_get 8 (widen b) = sparse_get 4 b"
  proof
    fix c
    have v: "i < 4 \<Longrightarrow> vals (widen b) ! i = vals b ! i \<and> entries (widen b) ! i = entries b ! i" for i
      using assms by (simp add: sparse_used_def widen_def nth_append)
    show "sparse_get 8 (widen b) c = sparse_get 4 b c"
    proof (cases "\<exists>i<4. vals b ! i = c")
      case True
      then show ?thesis
        using sparse_get_used [OF ok] sparse_get_used [OF assms] v by auto
    next
      case False
      then show ?thesis
        using sparse_get_unused [OF ok, of c] sparse_get_unused [OF assms, of c] v by auto
    qed
  qed
qed

lemma widen_put:
  assumes "sparse_used 4 4 b" "sparse_slot 4 b c = None" "ptr_type node \<noteq> RTT_NONE" "c \<le> IMMEDIATE"
  shows "sparse_used 8 5 (sparse_put 4 c node (widen b))"
    "sparse_get 8 (sparse_put 4 c node (widen b)) = (sparse_get 4 b)(c := node)"
proof -
  have "vals (widen b) ! i \<noteq> c" if "i < 4" for i
    using assms(1,2) that unfolding sparse_slot_used [OF assms(1)]
    by (auto simp: find_upt_None sparse_used_def widen_def nth_append split: option.splits)
  then have "sparse_slot 8 (widen b) c = Some 4"
    using widen_used [OF assms(1)]
    by (auto simp: sparse_slot_used find_upt_Some split: option.splits)
  from sparse_put_used [OF widen_used(1) [OF assms(1)] this assms(3,4)] widen_used(2) [OF assms(1)]
  show "sparse_used 8 5 (sparse_put 4 c node (widen b))"
    "sparse_get 8 (sparse_put 4 c node (widen b)) = (sparse_get 4 b)(c := node)"
    by simp_all
qed

lemma sparse_slot_full: "sparse_used k u b \<Longrightarrow> sparse_slot k b c = None \<Longrightarrow> u = k"
  by (auto simp: sparse_slot_used sparse_used_def split: option.splits if_splits)

section \<open>Branches addressed by key pieces\<close>

definition dense_get :: "nat \<Rightarrow> dense_node \<Rightarrow> u8 \<Rightarrow> node_ptr" where
  "dense_get k b c = (if unat c < k then slots b ! unat c else none_ptr)"

lemma dense_get_empty: "dense_get k (empty_dense k) = (\<lambda>_. none_ptr)"
  by (auto simp: dense_get_def empty_dense_def)

lemma dense_put:
  assumes "length xs = k" "unat c < k"
  shows "dense_get k \<lparr>slots = xs[unat c := node]\<rparr> = (dense_get k \<lparr>slots = xs\<rparr>)(c := node)"
  using assms by (auto simp: dense_get_def nth_list_update word_unat_eq_iff)

lemma scatter_dense:
  assumes ok: "sparse_used 8 8 b" and small: "\<And>i. i < 8 \<Longrightarrow> unat (vals b ! i) < k"
  shows "\<exists>ys. scatter b (slots (empty_dense k)) = Some ys \<and> length ys = k \<and>
    dense_get k \<lparr>slots = ys\<rparr> = sparse_get 8 b"
proof -
  let ?f = "\<lambda>i r. Option.bind r (\<lambda>xs. wr xs (unat (vals b ! i)) (entries b ! i))"
  let ?P = "\<lambda>i r. \<exists>ys. r = Some ys \<and> length ys = k \<and> (\<forall>j<i. ys ! unat (vals b ! j) = entries b ! j) \<and>
    (\<forall>l<k. (\<forall>j<i. unat (vals b ! j) \<noteq> l) \<longrightarrow> ys ! l = none_ptr)"
  have "?P 8 (for_loop 0 8 ?f (Some (slots (empty_dense k))))"
  proof (rule for_loop_invariant [where P = ?P])
    show "?P 0 (Some (slots (empty_dense k)))" by (simp add: empty_dense_def)
    fix i r assume i: "i < 8" "?P i r"
    then obtain ys where ys: "r = Some ys" "length ys = k" "\<forall>j<i. ys ! unat (vals b ! j) = entries b ! j"
        "\<forall>l<k. (\<forall>j<i. unat (vals b ! j) \<noteq> l) \<longrightarrow> ys ! l = none_ptr"
      by blast
    have "vals b ! j \<noteq> vals b ! i" if "j < i" for j
      using ok i(1) that less_trans [OF that i(1)] unfolding sparse_used_def by blast
    then show "?P (Suc i) (?f i r)"
      using ys small [OF i(1)]
      by (auto simp: less_Suc_eq nth_list_update word_unat_eq_iff dest: not_sym)
  qed simp
  then obtain ys where ys: "scatter b (slots (empty_dense k)) = Some ys" "length ys = k"
      "\<forall>j<8. ys ! unat (vals b ! j) = entries b ! j"
      "\<forall>l<k. (\<forall>j<8. unat (vals b ! j) \<noteq> l) \<longrightarrow> ys ! l = none_ptr"
    by (auto simp: scatter_def)
  have "dense_get k \<lparr>slots = ys\<rparr> c = sparse_get 8 b c" for c
  proof (cases "\<exists>i<8. vals b ! i = c")
    case True
    then show ?thesis
      using sparse_get_used [OF ok] ys(3) small by (auto simp: dense_get_def)
  next
    case False
    then show ?thesis
      using sparse_get_unused [OF ok, of c] ys(4) by (auto simp: dense_get_def word_unat_eq_iff)
  qed
  then show ?thesis using ys by blast
qed

end
