(* ===== verification/Radix_Nodes.thy ===== *)
theory Radix_Nodes
  imports Radix_Branch
begin

text \<open>
  All node pools of the radix tree as one map from pointers to abstract nodes, and the operations of
  \<open>Radix_Tree\<close> as updates of that map. \<open>tree_st n P t M\<close> relates a tree of keys of \<open>n\<close> bytes, whose pools
  have at most \<open>P\<close> nodes in use, to the map \<open>M\<close>.
\<close>

datatype 'v anode = NEdge "u8 list" node_ptr | NBranch "u8 \<Rightarrow> node_ptr" | NLeaf 'v

type_synonym 'v node_heap = "node_ptr \<rightharpoonup> 'v anode"

abbreviation to_node :: "node_type \<Rightarrow> u32 \<Rightarrow> node_ptr" where
  "to_node ty i \<equiv> \<lparr>ptr_type = ty, ptr_idx = i\<rparr>"

definition of_kind :: "node_type \<Rightarrow> 'v anode \<Rightarrow> bool" where
  "of_kind ty x \<longleftrightarrow> (case x of NEdge _ _ \<Rightarrow> ty = RTT_EDGE | NBranch _ \<Rightarrow> is_branch ty | NLeaf _ \<Rightarrow> ty = RTT_LEAF)"

definition well_kinded :: "'v node_heap \<Rightarrow> bool" where
  "well_kinded M \<longleftrightarrow> (\<forall>p x. M p = Some x \<longrightarrow> of_kind (ptr_type p) x)"

section \<open>What the map says of each pool\<close>

definition as_edge :: "'v anode option \<Rightarrow> edge_view option" where
  "as_edge x = (case x of Some (NEdge xs q) \<Rightarrow> Some (xs, q) | _ \<Rightarrow> None)"

definition as_branch :: "'v anode option \<Rightarrow> (u8 \<Rightarrow> node_ptr) option" where
  "as_branch x = (case x of Some (NBranch f) \<Rightarrow> Some f | _ \<Rightarrow> None)"

definition as_leaf :: "'v anode option \<Rightarrow> 'v option" where
  "as_leaf x = (case x of Some (NLeaf v) \<Rightarrow> Some v | _ \<Rightarrow> None)"

lemmas as_node_defs = as_edge_def as_branch_def as_leaf_def

lemma as_node_simps [simp]:
  "as_edge (Some (NEdge xs q)) = Some (xs, q)" "as_branch (Some (NBranch f)) = Some f"
  "as_leaf (Some (NLeaf v)) = Some v" "as_edge None = None" "as_branch None = None" "as_leaf None = None"
  by (simp_all add: as_node_defs)

definition edge_part :: "'v node_heap \<Rightarrow> u32 \<rightharpoonup> edge_view" where
  "edge_part M i = as_edge (M (to_node RTT_EDGE i))"

definition branch_part :: "node_type \<Rightarrow> 'v node_heap \<Rightarrow> u32 \<rightharpoonup> (u8 \<Rightarrow> node_ptr)" where
  "branch_part ty M i = as_branch (M (to_node ty i))"

definition leaf_part :: "'v node_heap \<Rightarrow> u32 \<rightharpoonup> 'v" where
  "leaf_part M i = as_leaf (M (to_node RTT_LEAF i))"

lemma part_upd:
  "edge_part (M(p := x)) = (if ptr_type p = RTT_EDGE then (edge_part M)(ptr_idx p := as_edge x) else edge_part M)"
  "branch_part ty (M(p := x)) =
     (if ptr_type p = ty then (branch_part ty M)(ptr_idx p := as_branch x) else branch_part ty M)"
  "leaf_part (M(p := x)) = (if ptr_type p = RTT_LEAF then (leaf_part M)(ptr_idx p := as_leaf x) else leaf_part M)"
  by (cases p; auto simp: fun_eq_iff edge_part_def branch_part_def leaf_part_def)+

lemma well_kinded_upd:
  "well_kinded M \<Longrightarrow> (\<And>y. x = Some y \<Longrightarrow> of_kind (ptr_type p) y) \<Longrightarrow> well_kinded (M(p := x))"
  by (simp add: well_kinded_def)

lemma part_SomeI:
  "M p = Some (NEdge xs q) \<Longrightarrow> ptr_type p = RTT_EDGE \<Longrightarrow> edge_part M (ptr_idx p) = Some (xs, q)"
  "M p = Some (NBranch f) \<Longrightarrow> ptr_type p = ty \<Longrightarrow> branch_part ty M (ptr_idx p) = Some f"
  "M p = Some (NLeaf v) \<Longrightarrow> ptr_type p = RTT_LEAF \<Longrightarrow> leaf_part M (ptr_idx p) = Some v"
  by (cases p; auto simp: edge_part_def branch_part_def leaf_part_def)+

lemma part_None:
  assumes "well_kinded M"
  shows "edge_part M i = None \<Longrightarrow> M (to_node RTT_EDGE i) = None"
    and "is_branch ty \<Longrightarrow> branch_part ty M i = None \<Longrightarrow> M (to_node ty i) = None"
    and "leaf_part M i = None \<Longrightarrow> M (to_node RTT_LEAF i) = None"
proof -
  have k: "of_kind ty x" if "M (to_node ty i) = Some x" for ty x
    using assms that unfolding well_kinded_def by fastforce
  show "edge_part M i = None \<Longrightarrow> M (to_node RTT_EDGE i) = None"
    "is_branch ty \<Longrightarrow> branch_part ty M i = None \<Longrightarrow> M (to_node ty i) = None"
    "leaf_part M i = None \<Longrightarrow> M (to_node RTT_LEAF i) = None"
    using k [of RTT_EDGE] k [of ty] k [of RTT_LEAF]
    by (auto simp: edge_part_def branch_part_def leaf_part_def as_node_defs of_kind_def is_branch_def
        split: option.splits anode.splits)
qed

section \<open>The relation\<close>

text \<open>A pool of cells that satisfy \<open>ok\<close>, each seen through \<open>view\<close>.\<close>

definition view_rep :: "('c \<Rightarrow> bool) \<Rightarrow> ('c \<Rightarrow> 'a) \<Rightarrow> 'c freelist \<Rightarrow> (u32 \<rightharpoonup> 'a) \<Rightarrow> bool" where
  "view_rep ok view fl V \<longleftrightarrow>
     (\<exists>m. fl_rep fl m \<and> (\<forall>i b. m i = Some b \<longrightarrow> ok b) \<and> V = (\<lambda>i. map_option view (m i)))"

abbreviation sparse_rep :: "nat \<Rightarrow> sparse_node freelist \<Rightarrow> (u32 \<rightharpoonup> (u8 \<Rightarrow> node_ptr)) \<Rightarrow> bool" where
  "sparse_rep k \<equiv> view_rep (\<lambda>b. \<exists>u. sparse_used k u b) (sparse_get k)"

abbreviation dense_rep :: "nat \<Rightarrow> dense_node freelist \<Rightarrow> (u32 \<rightharpoonup> (u8 \<Rightarrow> node_ptr)) \<Rightarrow> bool" where
  "dense_rep k \<equiv> view_rep (\<lambda>b. length (slots b) = k) (dense_get k)"

lemma view_get:
  assumes "view_rep ok view fl V" "V i = Some f"
  obtains b where "freelist_get fl i = Some b" "ok b" "view b = f"
  using assms fl_rep_get by (fastforce simp: view_rep_def)

lemma view_set:
  assumes "view_rep ok view fl V" "V i = Some f" "ok b"
  obtains fl' where "freelist_set fl i b = Some fl'" "view_rep ok view fl' (V(i \<mapsto> view b))" "fl_keep fl' fl"
proof -
  obtain m where m: "fl_rep fl m" "\<forall>i b. m i = Some b \<longrightarrow> ok b" "V = (\<lambda>i. map_option view (m i))"
    using assms(1) by (auto simp: view_rep_def)
  then have "i \<in> dom m" using assms(2) by auto
  then obtain fl' where "freelist_set fl i b = Some fl'" "fl_rep fl' (m(i \<mapsto> b))" "fl_keep fl' fl"
    using pool_set [OF m(1)] by blast
  moreover from this have "view_rep ok view fl' (V(i \<mapsto> view b))"
    unfolding view_rep_def using m(2,3) assms(3) by (intro exI [of _ "m(i \<mapsto> b)"]) auto
  ultimately show thesis using that by blast
qed

lemma view_remove:
  assumes "view_rep ok view fl V" "V i = Some f"
  obtains fl' where "freelist_remove fl i = Some fl'" "view_rep ok view fl' (V(i := None))" "fl_keep fl' fl"
proof -
  obtain m where m: "fl_rep fl m" "\<forall>i b. m i = Some b \<longrightarrow> ok b" "V = (\<lambda>i. map_option view (m i))"
    using assms(1) by (auto simp: view_rep_def)
  then have "i \<in> dom m" using assms(2) by auto
  then obtain fl' where "freelist_remove fl i = Some fl'" "fl_rep fl' (m(i := None))" "fl_keep fl' fl"
    using pool_remove [OF m(1)] by blast
  moreover from this have "view_rep ok view fl' (V(i := None))"
    unfolding view_rep_def using m(2,3) by (intro exI [of _ "m(i := None)"]) auto
  ultimately show thesis using that by blast
qed

lemma view_alloc:
  assumes "view_rep ok view fl V" "fl_lim P fl" "P < 2 ^ 28" "ok b"
  obtains i fl' where "freelist_insert fl b = Some (i, fl')" "V i = None" "view_rep ok view fl' (V(i \<mapsto> view b))"
    "fl_lim (Suc P) fl'" "take_bit 29 i = i"
proof -
  obtain m where m: "fl_rep fl m" "\<forall>i b. m i = Some b \<longrightarrow> ok b" "V = (\<lambda>i. map_option view (m i))"
    using assms(1) by (auto simp: view_rep_def)
  obtain i fl' where i: "freelist_insert fl b = Some (i, fl')" "m i = None" "fl_rep fl' (m(i \<mapsto> b))"
      "fl_lim (P + 1) fl'" "take_bit 29 i = i"
    by (rule pool_insert [OF m(1) assms(2,3)])
  moreover from this have "view_rep ok view fl' (V(i \<mapsto> view b))"
    unfolding view_rep_def using m(2,3) assms(4) by (intro exI [of _ "m(i \<mapsto> b)"]) auto
  ultimately show thesis using that m(3) by simp
qed

definition rt_rep :: "nat \<Rightarrow> 'v radix_tree \<Rightarrow> 'v node_heap \<Rightarrow> bool" where
  "rt_rep n t M \<longleftrightarrow> well_kinded M \<and> edges_rep n (edges t) (strings t) (edge_part M) \<and>
     sparse_rep 4 (branches4 t) (branch_part RTT_BRANCH_4 M) \<and>
     sparse_rep 8 (branches8 t) (branch_part RTT_BRANCH_8 M) \<and>
     dense_rep 16 (branches16 t) (branch_part RTT_BRANCH_16 M) \<and>
     dense_rep 17 (branches_full t) (branch_part RTT_BRANCH_FULL M) \<and>
     fl_rep (leaves t) (leaf_part M)"

definition tree_lim :: "nat \<Rightarrow> 'v radix_tree \<Rightarrow> bool" where
  "tree_lim P t \<longleftrightarrow> fl_lim P (branches4 t) \<and> fl_lim P (branches8 t) \<and> fl_lim P (branches16 t) \<and>
     fl_lim P (branches_full t) \<and> fl_lim P (edges t) \<and> fl_lim P (leaves t) \<and> fl_lim P (strings t)"

definition tree_st :: "nat \<Rightarrow> nat \<Rightarrow> 'v radix_tree \<Rightarrow> 'v node_heap \<Rightarrow> bool" where
  "tree_st n P t M \<longleftrightarrow> rt_rep n t M \<and> tree_lim P t"

definition same_path :: "'v radix_tree \<Rightarrow> 'v radix_tree \<Rightarrow> bool" where
  "same_path t' t \<longleftrightarrow> root t' = root t \<and> prev t' = prev t"

lemmas tree_st_defs = tree_st_def rt_rep_def tree_lim_def

lemma same_path_refl [simp]: "same_path t t"
  by (simp add: same_path_def)

lemma same_path_trans: "same_path t2 t1 \<Longrightarrow> same_path t1 t \<Longrightarrow> same_path t2 t"
  by (simp add: same_path_def)

lemma tree_st_mono: "tree_st n P t M \<Longrightarrow> P \<le> Q \<Longrightarrow> tree_st n Q t M"
  by (auto simp: tree_st_def tree_lim_def intro: fl_lim_mono)

lemma tree_st_path [simp]: "tree_st n P (t\<lparr>root := r\<rparr>) M = tree_st n P t M"
  "tree_st n P (t\<lparr>prev := v\<rparr>) M = tree_st n P t M"
  by (simp_all add: tree_st_defs)

lemma fl_lim_Suc: "fl_lim P fl \<Longrightarrow> fl_lim (Suc P) fl"
  by (erule fl_lim_mono) simp

section \<open>Leaves and edges\<close>

lemma create_leaf_st:
  assumes "tree_st n P t M" "P < 2 ^ 28"
  obtains p t' where "radix_tree_create_leaf_node t v = Some (p, t')" "ptr_type p = RTT_LEAF" "M p = None"
    "tree_st n (Suc P) t' (M(p \<mapsto> NLeaf v))" "same_path t' t" "edges t' = edges t" "strings t' = strings t"
proof -
  have r: "fl_rep (leaves t) (leaf_part M)" "fl_lim P (leaves t)" "well_kinded M"
    using assms(1) by (simp_all add: tree_st_defs)
  obtain i fl where i: "freelist_insert (leaves t) v = Some (i, fl)" "leaf_part M i = None"
      "fl_rep fl ((leaf_part M)(i \<mapsto> v))" "fl_lim (P + 1) fl" "take_bit 29 i = i"
    by (rule pool_insert [OF r(1,2) assms(2)])
  let ?p = "to_node RTT_LEAF i"
  have "tree_st n (Suc P) (t\<lparr>leaves := fl\<rparr>) (M(?p \<mapsto> NLeaf v))"
    using assms(1) i(3,4)
    by (auto simp: tree_st_defs part_upd of_kind_def intro!: well_kinded_upd fl_lim_Suc)
  then show thesis
    using that [of ?p "t\<lparr>leaves := fl\<rparr>"] i(1,5) part_None(3) [OF r(3) i(2)]
    by (simp add: radix_tree_create_leaf_node_def mk_ptr_def same_path_def)
qed

lemma set_leaf_st:
  assumes "tree_st n P t M" "M p = Some (NLeaf w)" "ptr_type p = RTT_LEAF"
  obtains t' where "insert_at_leaf v t p = Some (Inl t')" "tree_st n P t' (M(p \<mapsto> NLeaf v))" "same_path t' t"
proof -
  have "ptr_idx p \<in> dom (leaf_part M)"
    using assms(2,3) by (auto dest: part_SomeI(3))
  moreover have "fl_rep (leaves t) (leaf_part M)"
    using assms(1) by (simp add: tree_st_defs)
  ultimately obtain fl where fl: "freelist_set (leaves t) (ptr_idx p) v = Some fl"
      "fl_rep fl ((leaf_part M)(ptr_idx p \<mapsto> v))" "fl_keep fl (leaves t)"
    using pool_set [of "leaves t" "leaf_part M" "ptr_idx p" v] by blast
  then have "tree_st n P (t\<lparr>leaves := fl\<rparr>) (M(p \<mapsto> NLeaf v))"
    using assms(1,3) by (auto simp: tree_st_defs part_upd of_kind_def intro!: well_kinded_upd dest: fl_keepD)
  then show thesis
    using that fl(1) by (simp add: insert_at_leaf_def same_path_def)
qed

lemma create_edge_st:
  assumes st: "tree_st n P t M" "P < 2 ^ 28"
    and len: "length junk = n" "offset + len \<le> 2 * length key" "0 < len" "len \<le> 2 * n"
  obtains p t' where "radix_tree_create_edge_node junk t key offset len nxt = Some (p, t')"
    "ptr_type p = RTT_EDGE" "M p = None"
    "tree_st n (Suc P) t' (M(p \<mapsto> NEdge (nibs key offset (offset + len)) nxt))" "same_path t' t"
proof -
  have r: "edges_rep n (edges t) (strings t) (edge_part M)" "fl_lim P (edges t)" "fl_lim P (strings t)"
      "well_kinded M"
    using assms(1) by (simp_all add: tree_st_defs)
  obtain i es ss where i: "radix_tree_create_edge_node junk t key offset len nxt =
        Some (to_node RTT_EDGE i, t\<lparr>edges := es, strings := ss\<rparr>)"
      "edge_part M i = None" "edges_rep n es ss ((edge_part M)(i \<mapsto> (nibs key offset (offset + len), nxt)))"
      "fl_lim (P + 1) es" "fl_lim (P + 1) ss"
    by (rule create_edge_rep [OF r(1-3) st(2) len])
  then have "tree_st n (Suc P) (t\<lparr>edges := es, strings := ss\<rparr>)
      (M(to_node RTT_EDGE i \<mapsto> NEdge (nibs key offset (offset + len)) nxt))"
    using assms(1)
    by (auto simp: tree_st_defs part_upd of_kind_def is_branch_def intro!: well_kinded_upd fl_lim_Suc)
  then show thesis
    using that i(1) part_None(1) [OF r(4) i(2)] by (simp add: same_path_def)
qed

lemma edge_read_st:
  assumes "tree_st n P t M" "M p = Some (NEdge xs q)" "ptr_type p = RTT_EDGE"
  obtains e tx where "edge_read t (ptr_idx p) xs q e tx" "length xs \<le> 2 * n"
  using assms edge_fetch_rep [of n t "edge_part M" "ptr_idx p" xs q]
  by (auto simp: tree_st_defs part_SomeI)

lemma set_next_st:
  assumes "tree_st n P t M" "M p = Some (NEdge xs q)" "ptr_type p = RTT_EDGE"
  obtains t' where "set_edge_next t (ptr_idx p) q' = Some t'" "tree_st n P t' (M(p \<mapsto> NEdge xs q'))" "same_path t' t"
proof -
  have "edges_rep n (edges t) (strings t) (edge_part M)" "edge_part M (ptr_idx p) = Some (xs, q)"
    using assms by (auto simp: tree_st_defs part_SomeI)
  then obtain es where es: "set_edge_next t (ptr_idx p) q' = Some (t\<lparr>edges := es\<rparr>)"
      "edges_rep n es (strings t) ((edge_part M)(ptr_idx p \<mapsto> (xs, q')))" "fl_keep es (edges t)"
    by (rule set_next_rep [where q' = q'])
  then have "tree_st n P (t\<lparr>edges := es\<rparr>) (M(p \<mapsto> NEdge xs q'))"
    using assms(1,3)
    by (auto simp: tree_st_defs part_upd of_kind_def is_branch_def intro!: well_kinded_upd dest: fl_keepD)
  then show thesis
    using that es(1) by (simp add: same_path_def)
qed

lemma cut_edge_st:
  assumes "tree_st n P t M" "M p = Some (NEdge xs q)" "ptr_type p = RTT_EDGE" "0 < j" "j \<le> length xs" "key_size_ok n"
  obtains t' where "cut_edge t p j = Some t'" "tree_st n P t' (M(p \<mapsto> NEdge (take j xs) q))" "same_path t' t"
proof -
  have "edges_rep n (edges t) (strings t) (edge_part M)" "edge_part M (ptr_idx p) = Some (xs, q)"
    using assms by (auto simp: tree_st_defs part_SomeI)
  then obtain es ss where es: "cut_edge t p j = Some (t\<lparr>edges := es, strings := ss\<rparr>)"
      "edges_rep n es ss ((edge_part M)(ptr_idx p \<mapsto> (take j xs, q)))"
      "fl_keep es (edges t)" "fl_keep ss (strings t)"
    using assms(4-6) cut_edge_rep [of n t "edge_part M" "ptr_idx p" xs q j p] by blast
  then have "tree_st n P (t\<lparr>edges := es, strings := ss\<rparr>) (M(p \<mapsto> NEdge (take j xs) q))"
    using assms(1,3)
    by (auto simp: tree_st_defs part_upd of_kind_def is_branch_def intro!: well_kinded_upd dest: fl_keepD)
  then show thesis
    using that es(1) by (simp add: same_path_def)
qed

lemma remove_edge_st:
  assumes "tree_st n P t M" "M p = Some (NEdge xs q)" "ptr_type p = RTT_EDGE"
    and "freelist_get (edges t) (ptr_idx p) = Some e"
  obtains t1 es where "edge_maybe_remove_str t e = Some t1" "freelist_remove (edges t1) (ptr_idx p) = Some es"
    "tree_st n P (t1\<lparr>edges := es\<rparr>) (M(p := None))" "same_path (t1\<lparr>edges := es\<rparr>) t"
proof -
  have "edges_rep n (edges t) (strings t) (edge_part M)" "edge_part M (ptr_idx p) = Some (xs, q)"
    using assms by (auto simp: tree_st_defs part_SomeI)
  then obtain es ss where es: "edge_maybe_remove_str t e = Some (t\<lparr>strings := ss\<rparr>)"
      "freelist_remove (edges t) (ptr_idx p) = Some es" "edges_rep n es ss ((edge_part M)(ptr_idx p := None))"
      "fl_keep es (edges t)" "fl_keep ss (strings t)"
    using assms(4) remove_edge_rep [of n t "edge_part M" "ptr_idx p" xs q e] by blast
  then have "tree_st n P (t\<lparr>strings := ss, edges := es\<rparr>) (M(p := None))"
    using assms(1,3)
    by (auto simp: tree_st_defs part_upd of_kind_def is_branch_def intro!: well_kinded_upd dest: fl_keepD)
  then show thesis
    using that es(1,2) by (simp add: same_path_def)
qed

section \<open>Creating and filling a branch of four\<close>

lemma create_branch4_st:
  assumes "tree_st n P t M" "P < 2 ^ 28"
  obtains p t' where "radix_tree_create_branch_node t RTT_BRANCH_4 = Some (p, t')" "ptr_type p = RTT_BRANCH_4"
    "M p = None" "tree_st n (Suc P) t' (M(p \<mapsto> NBranch (\<lambda>_. none_ptr)))" "same_path t' t"
    "edges t' = edges t" "strings t' = strings t"
proof -
  have k: "well_kinded M" and lim: "fl_lim P (branches4 t)"
    and rep: "sparse_rep 4 (branches4 t) (branch_part RTT_BRANCH_4 M)"
    using assms(1) by (simp_all add: tree_st_defs)
  obtain i fl where i: "freelist_insert (branches4 t) (empty_sparse 4) = Some (i, fl)"
      "branch_part RTT_BRANCH_4 M i = None"
      "sparse_rep 4 fl ((branch_part RTT_BRANCH_4 M)(i \<mapsto> sparse_get 4 (empty_sparse 4)))"
      "fl_lim (Suc P) fl" "take_bit 29 i = i"
    using view_alloc [OF rep lim assms(2), of "empty_sparse 4"] empty_sparse_used [of 4] by blast
  let ?p = "to_node RTT_BRANCH_4 i"
  have "sparse_rep 4 fl ((branch_part RTT_BRANCH_4 M)(i \<mapsto> \<lambda>_. none_ptr))"
    using i(3) by (simp add: sparse_get_empty)
  then have "tree_st n (Suc P) (t\<lparr>branches4 := fl\<rparr>) (M(?p \<mapsto> NBranch (\<lambda>_. none_ptr)))"
    using assms(1) i(4)
    by (auto simp: tree_st_defs part_upd of_kind_def is_branch_def intro!: well_kinded_upd fl_lim_Suc)
  moreover have "M ?p = None"
    using part_None(2) [OF k, of RTT_BRANCH_4 i] i(2) by (simp add: is_branch_def)
  ultimately show thesis
    using that [of ?p "t\<lparr>branches4 := fl\<rparr>"] i(1,5)
    by (simp add: radix_tree_create_branch_node_def mk_ptr_def same_path_def)
qed

text \<open>The slot an assignment to an empty branch, or to one with a single entry, may use.\<close>

lemma first_slot:
  assumes "sparse_used k u b" "sparse_get k b = (\<lambda>_. none_ptr)" "0 < k"
  shows "sparse_slot k b c = Some 0"
proof -
  have "\<not> 0 < u"
    using assms(1,2) sparse_get_used [OF assms(1), of 0] unfolding sparse_used_def
    by (metis none_ptr_type)
  then have "u = 0" by simp
  then show ?thesis using assms(3) by (simp add: sparse_slot_used [OF assms(1)])
qed

lemma second_slot:
  assumes ok: "sparse_used k u b" and get: "sparse_get k b = (\<lambda>_. none_ptr)(a := x)"
    and x: "ptr_type x \<noteq> RTT_NONE" "a \<noteq> c" and k: "1 < k"
  shows "sparse_slot k b c = Some 1"
proof -
  have all: "vals b ! i = a" if "i < u" for i
  proof (rule ccontr)
    assume "vals b ! i \<noteq> a"
    then have "entries b ! i = none_ptr"
      using sparse_get_used [OF ok that] get by simp
    then show False using ok that by (auto simp: sparse_used_def)
  qed
  have "\<exists>i<u. vals b ! i = a"
    using x(1) get by (intro sparse_get_none [OF ok]) auto
  then have "0 < u" by auto
  moreover have "\<not> 1 < u"
    using ok all [of 0] all [of 1] unfolding sparse_used_def
    by (metis less_trans zero_less_one zero_neq_one)
  ultimately have "u = 1" by simp
  then show ?thesis
    using all [of 0] x(2) k by (auto simp: sparse_slot_used [OF ok] find_upt_Some split: option.splits)
qed

lemma fill_branch4_st:
  assumes st: "tree_st n P t M" and p: "M p = Some (NBranch f)" "ptr_type p = RTT_BRANCH_4"
    and node: "ptr_type node \<noteq> RTT_NONE" "c \<le> IMMEDIATE"
    and slot: "f = (\<lambda>_. none_ptr) \<and> i = 0 \<or>
      (\<exists>a x. f = (\<lambda>_. none_ptr)(a := x) \<and> ptr_type x \<noteq> RTT_NONE \<and> a \<noteq> c \<and> i = 1)"
  obtains t' where "set_branch4_slot t p i c node = Some t'" "tree_st n P t' (M(p \<mapsto> NBranch (f(c := node))))"
    "same_path t' t" "edges t' = edges t" "strings t' = strings t"
proof -
  have rep: "sparse_rep 4 (branches4 t) (branch_part RTT_BRANCH_4 M)"
    using st by (simp add: tree_st_defs)
  have part: "branch_part RTT_BRANCH_4 M (ptr_idx p) = Some f"
    using p by (simp add: part_SomeI(2))
  obtain b u where b: "freelist_get (branches4 t) (ptr_idx p) = Some b" "sparse_get 4 b = f" "sparse_used 4 u b"
    using view_get [OF rep part] by blast
  have s: "sparse_slot 4 b c = Some i"
    using slot first_slot [OF b(3)] second_slot [OF b(3)] b(2) by auto
  let ?b = "sparse_put i c node b"
  note put = sparse_put_used [OF b(3) s node]
  obtain fl where fl: "freelist_set (branches4 t) (ptr_idx p) ?b = Some fl"
      "sparse_rep 4 fl ((branch_part RTT_BRANCH_4 M)(ptr_idx p \<mapsto> sparse_get 4 ?b))" "fl_keep fl (branches4 t)"
    using view_set [OF rep part, of ?b] put(1) by blast
  have "sparse_rep 4 fl ((branch_part RTT_BRANCH_4 M)(ptr_idx p \<mapsto> f(c := node)))"
    using fl(2) put(2) b(2) by simp
  then have "tree_st n P (t\<lparr>branches4 := fl\<rparr>) (M(p \<mapsto> NBranch (f(c := node))))"
    using st p(2) fl(3)
    by (auto simp: tree_st_defs part_upd of_kind_def is_branch_def intro!: well_kinded_upd dest: fl_keepD)
  then show thesis
    using that [of "t\<lparr>branches4 := fl\<rparr>"] fl(1) b(1)
    by (simp add: set_branch4_slot_def same_path_def)
qed

lemma get_branch_st:
  assumes "tree_st n P t M" "M p = Some (NBranch f)" "is_branch (ptr_type p)" "c \<le> IMMEDIATE"
  shows "radix_tree_get_branch t p c = Some (f c)"
proof -
  have part: "branch_part (ptr_type p) M (ptr_idx p) = Some f"
    using assms(2) by (simp add: part_SomeI(2))
  have c: "unat c \<le> 16" "unat c < 16 \<or> c = IMMEDIATE"
    using assms(4) by (auto simp: IMMEDIATE_def word_le_nat_alt word_unat_eq_iff)
  have s: "\<exists>b. freelist_get fl (ptr_idx p) = Some b \<and> sparse_get k b = f"
    if "sparse_rep k fl (branch_part (ptr_type p) M)" for k fl
    using view_get [OF that part] by metis
  have d: "\<exists>b. freelist_get fl (ptr_idx p) = Some b \<and> dense_get k b = f \<and> length (slots b) = k"
    if "dense_rep k fl (branch_part (ptr_type p) M)" for k fl
    using view_get [OF that part] by metis
  note defs = radix_tree_get_branch_def radix_tree_get_branch4_def radix_tree_get_branch8_def
    radix_tree_get_branch16_def radix_tree_get_branch_full_def dense_get_def
  consider "ptr_type p = RTT_BRANCH_4" | "ptr_type p = RTT_BRANCH_8" | "ptr_type p = RTT_BRANCH_16"
    | "ptr_type p = RTT_BRANCH_FULL"
    using assms(3) by (auto simp: is_branch_def)
  then show ?thesis
  proof cases
    case 1
    then show ?thesis using s [of 4 "branches4 t"] assms(1) by (auto simp: tree_st_defs defs)
  next
    case 2
    then show ?thesis using s [of 8 "branches8 t"] assms(1) by (auto simp: tree_st_defs defs)
  next
    case 3
    then show ?thesis using d [of 16 "branches16 t"] assms(1) c
      by (auto simp: tree_st_defs defs IMMEDIATE_def)
  next
    case 4
    then show ?thesis using d [of 17 "branches_full t"] assms(1) c by (auto simp: tree_st_defs defs)
  qed
qed

section \<open>Inserting into a branch\<close>

text \<open>
  The entry is replaced or added in place, or the branch has moved to a new one of the next layout,
  which happens only for a piece without an entry.
\<close>

definition branch_changed ::
  "nat \<Rightarrow> nat \<Rightarrow> 'v radix_tree \<Rightarrow> 'v node_heap \<Rightarrow> node_ptr \<Rightarrow> u8 \<Rightarrow> (u8 \<Rightarrow> node_ptr) \<Rightarrow> node_ptr \<Rightarrow>
     (node_ptr \<times> 'v radix_tree) option \<Rightarrow> bool" where
  "branch_changed n P t M p c f node r \<longleftrightarrow>
     (\<exists>t'. r = Some (none_ptr, t') \<and> tree_st n P t' (M(p \<mapsto> NBranch (f(c := node)))) \<and> same_path t' t) \<or>
     (\<exists>q t'. r = Some (q, t') \<and> is_branch (ptr_type q) \<and> M q = None \<and> f c = none_ptr \<and>
        tree_st n (Suc P) t' (M(q \<mapsto> NBranch (f(c := node)), p := None)) \<and> same_path t' t)"

lemma sparse_full_none:
  assumes "sparse_used k u b" "sparse_slot k b c = None"
  shows "sparse_get k b c = none_ptr" "u = k"
proof -
  show "u = k" by (rule sparse_slot_full [OF assms])
  show "sparse_get k b c = none_ptr"
    by (rule sparse_get_unused [OF assms(1)])
      (use assms in \<open>auto simp: sparse_slot_used find_upt_None split: option.splits if_splits\<close>)
qed

lemma insert_into_branch4_st:
  assumes st: "tree_st n P t M" "P < 2 ^ 28" and p: "M p = Some (NBranch f)" "ptr_type p = RTT_BRANCH_4"
    and node: "ptr_type node \<noteq> RTT_NONE" "c \<le> IMMEDIATE"
  shows "branch_changed n P t M p c f node (radix_tree_insert_into_branch_or_grow t p c node)"
proof -
  have k: "well_kinded M" and rep: "sparse_rep 4 (branches4 t) (branch_part RTT_BRANCH_4 M)"
    and rep8: "sparse_rep 8 (branches8 t) (branch_part RTT_BRANCH_8 M)" "fl_lim P (branches8 t)"
    using st(1) by (simp_all add: tree_st_defs)
  have part: "branch_part RTT_BRANCH_4 M (ptr_idx p) = Some f"
    using p by (simp add: part_SomeI(2))
  obtain b u where b: "freelist_get (branches4 t) (ptr_idx p) = Some b" "sparse_get 4 b = f" "sparse_used 4 u b"
    using view_get [OF rep part] by blast
  note defs = radix_tree_insert_into_branch_or_grow_def radix_tree_insert_into_branch4_or_grow_def
  show ?thesis
  proof (cases "sparse_slot 4 b c")
    case (Some i)
    note put = sparse_put_used [OF b(3) Some node]
    obtain fl where fl: "freelist_set (branches4 t) (ptr_idx p) (sparse_put i c node b) = Some fl"
        "sparse_rep 4 fl ((branch_part RTT_BRANCH_4 M)(ptr_idx p \<mapsto> f(c := node)))" "fl_keep fl (branches4 t)"
      using view_set [OF rep part, of "sparse_put i c node b"] put b(2) by auto
    then have "tree_st n P (t\<lparr>branches4 := fl\<rparr>) (M(p \<mapsto> NBranch (f(c := node))))"
      using st p(2)
      by (auto simp: tree_st_defs part_upd of_kind_def is_branch_def intro!: well_kinded_upd dest: fl_keepD)
    then show ?thesis
      using Some b(1) fl(1) p(2) by (simp add: branch_changed_def defs same_path_def)
  next
    case None
    note full = sparse_full_none [OF b(3) None]
    have "sparse_used 4 4 b" using b(3) full(2) by simp
    note put = widen_put [OF this None node]
    let ?b = "sparse_put 4 c node (widen b)"
    obtain i fl8 where i: "freelist_insert (branches8 t) ?b = Some (i, fl8)" "branch_part RTT_BRANCH_8 M i = None"
        "sparse_rep 8 fl8 ((branch_part RTT_BRANCH_8 M)(i \<mapsto> f(c := node)))" "fl_lim (Suc P) fl8" "take_bit 29 i = i"
      using view_alloc [OF rep8 st(2), of ?b] put b(2) by auto
    obtain fl where fl: "freelist_remove (branches4 t) (ptr_idx p) = Some fl"
        "sparse_rep 4 fl ((branch_part RTT_BRANCH_4 M)(ptr_idx p := None))" "fl_keep fl (branches4 t)"
      using view_remove [OF rep part] by blast
    let ?q = "to_node RTT_BRANCH_8 i"
    have "tree_st n (Suc P) (t\<lparr>branches8 := fl8, branches4 := fl\<rparr>) (M(?q \<mapsto> NBranch (f(c := node)), p := None))"
      using st p(2) i(3,4) fl
      by (auto simp: tree_st_defs part_upd of_kind_def is_branch_def intro!: well_kinded_upd fl_lim_Suc
          dest: fl_keepD)
    moreover have "M ?q = None"
      using part_None(2) [OF k _ i(2)] by (simp add: is_branch_def)
    ultimately show ?thesis
      unfolding branch_changed_def using None b(1,2) i(1,5) fl(1) p(2) full(1) widen_loop [OF b(3)]
      by (intro disjI2 exI [of _ ?q] exI [of _ "t\<lparr>branches8 := fl8, branches4 := fl\<rparr>"])
        (simp add: defs same_path_def mk_ptr_def is_branch_def Let_def)
  qed
qed

lemma piece_cases:
  assumes "c \<le> IMMEDIATE"
  shows "unat c < 17" "c \<noteq> IMMEDIATE \<Longrightarrow> unat c < 16"
  using assms by (auto simp: IMMEDIATE_def word_le_nat_alt word_unat_eq_iff)

text \<open>A branch of eight moves to one of 16 or 17 slots, by whether one of the pieces is the immediate one.\<close>

lemma insert_into_branch8_st:
  assumes st: "tree_st n P t M" "P < 2 ^ 28" and p: "M p = Some (NBranch f)" "ptr_type p = RTT_BRANCH_8"
    and node: "ptr_type node \<noteq> RTT_NONE" "c \<le> IMMEDIATE"
  shows "branch_changed n P t M p c f node (radix_tree_insert_into_branch_or_grow t p c node)"
proof -
  have k: "well_kinded M" and rep: "sparse_rep 8 (branches8 t) (branch_part RTT_BRANCH_8 M)"
    and rep16: "dense_rep 16 (branches16 t) (branch_part RTT_BRANCH_16 M)" "fl_lim P (branches16 t)"
    and rep17: "dense_rep 17 (branches_full t) (branch_part RTT_BRANCH_FULL M)" "fl_lim P (branches_full t)"
    using st(1) by (simp_all add: tree_st_defs)
  have part: "branch_part RTT_BRANCH_8 M (ptr_idx p) = Some f"
    using p by (simp add: part_SomeI(2))
  obtain b u where b: "freelist_get (branches8 t) (ptr_idx p) = Some b" "sparse_get 8 b = f" "sparse_used 8 u b"
    using view_get [OF rep part] by blast
  note defs = radix_tree_insert_into_branch_or_grow_def radix_tree_insert_into_branch8_or_grow_def
  obtain fl where fl: "freelist_remove (branches8 t) (ptr_idx p) = Some fl"
      "sparse_rep 8 fl ((branch_part RTT_BRANCH_8 M)(ptr_idx p := None))" "fl_keep fl (branches8 t)"
    using view_remove [OF rep part] by blast
  show ?thesis
  proof (cases "sparse_slot 8 b c")
    case (Some i)
    note put = sparse_put_used [OF b(3) Some node]
    obtain fl where fl: "freelist_set (branches8 t) (ptr_idx p) (sparse_put i c node b) = Some fl"
        "sparse_rep 8 fl ((branch_part RTT_BRANCH_8 M)(ptr_idx p \<mapsto> f(c := node)))" "fl_keep fl (branches8 t)"
      using view_set [OF rep part, of "sparse_put i c node b"] put b(2) by auto
    then have "tree_st n P (t\<lparr>branches8 := fl\<rparr>) (M(p \<mapsto> NBranch (f(c := node))))"
      using st p(2)
      by (auto simp: tree_st_defs part_upd of_kind_def is_branch_def intro!: well_kinded_upd dest: fl_keepD)
    then show ?thesis
      using Some b(1) fl(1) p(2) by (simp add: branch_changed_def defs same_path_def)
  next
    case None
    note full = sparse_full_none [OF b(3) None]
    have used: "sparse_used 8 8 b" using b(3) full(2) by simp
    then have small: "vals b ! i \<le> IMMEDIATE" if "i < 8" for i
      using that by (simp add: sparse_used_def)
    let ?imm = "c = IMMEDIATE \<or> list_ex (\<lambda>i. vals b ! i = IMMEDIATE) [0..<8]"
    show ?thesis
    proof (cases ?imm)
      case True
      obtain ys where ys: "scatter b (slots (empty_dense 17)) = Some ys" "length ys = 17"
          "dense_get 17 \<lparr>slots = ys\<rparr> = f"
        using scatter_dense [OF used, of 17] piece_cases(1) [OF small] b(2) by auto
      let ?b = "\<lparr>slots = ys[unat c := node]\<rparr>"
      obtain i fl17 where i: "freelist_insert (branches_full t) ?b = Some (i, fl17)"
          "branch_part RTT_BRANCH_FULL M i = None"
          "dense_rep 17 fl17 ((branch_part RTT_BRANCH_FULL M)(i \<mapsto> f(c := node)))" "fl_lim (Suc P) fl17" "take_bit 29 i = i"
        using view_alloc [OF rep17 st(2), of ?b] dense_put [OF ys(2) piece_cases(1) [OF node(2)]] ys(2,3) by auto
      let ?q = "to_node RTT_BRANCH_FULL i"
      have "tree_st n (Suc P) (t\<lparr>branches_full := fl17, branches8 := fl\<rparr>) (M(?q \<mapsto> NBranch (f(c := node)), p := None))"
        using st p(2) i(3,4) fl
        by (auto simp: tree_st_defs part_upd of_kind_def is_branch_def intro!: well_kinded_upd fl_lim_Suc
            dest: fl_keepD)
      moreover have "M ?q = None"
        using part_None(2) [OF k _ i(2)] by (simp add: is_branch_def)
      ultimately show ?thesis
        unfolding branch_changed_def
        using None b(1,2) i(1,5) fl(1) p(2) full(1) True ys(1,2) piece_cases(1) [OF node(2)]
        by (intro disjI2 exI [of _ ?q] exI [of _ "t\<lparr>branches_full := fl17, branches8 := fl\<rparr>"])
          (simp add: defs same_path_def mk_ptr_def is_branch_def Let_def)
    next
      case False
      then have lt: "vals b ! i \<noteq> IMMEDIATE" "c \<noteq> IMMEDIATE" if "i < 8" for i
        using that by (auto simp: list_ex_iff)
      obtain ys where ys: "scatter b (slots (empty_dense 16)) = Some ys" "length ys = 16"
          "dense_get 16 \<lparr>slots = ys\<rparr> = f"
        using scatter_dense [OF used, of 16] piece_cases(2) [OF small lt(1)] b(2) by auto
      have c: "unat c < 16" using piece_cases(2) [OF node(2) lt(2) [of 0]] by simp
      let ?b = "\<lparr>slots = ys[unat c := node]\<rparr>"
      obtain i fl16 where i: "freelist_insert (branches16 t) ?b = Some (i, fl16)"
          "branch_part RTT_BRANCH_16 M i = None"
          "dense_rep 16 fl16 ((branch_part RTT_BRANCH_16 M)(i \<mapsto> f(c := node)))" "fl_lim (Suc P) fl16" "take_bit 29 i = i"
        using view_alloc [OF rep16 st(2), of ?b] dense_put [OF ys(2) c] ys(2,3) by auto
      let ?q = "to_node RTT_BRANCH_16 i"
      have "tree_st n (Suc P) (t\<lparr>branches16 := fl16, branches8 := fl\<rparr>) (M(?q \<mapsto> NBranch (f(c := node)), p := None))"
        using st p(2) i(3,4) fl
        by (auto simp: tree_st_defs part_upd of_kind_def is_branch_def intro!: well_kinded_upd fl_lim_Suc
            dest: fl_keepD)
      moreover have "M ?q = None"
        using part_None(2) [OF k _ i(2)] by (simp add: is_branch_def)
      ultimately show ?thesis
        unfolding branch_changed_def
        using None b(1,2) i(1,5) fl(1) p(2) full(1) False ys(1,2) c
        by (intro disjI2 exI [of _ ?q] exI [of _ "t\<lparr>branches16 := fl16, branches8 := fl\<rparr>"])
          (simp add: defs same_path_def mk_ptr_def is_branch_def Let_def)
    qed
  qed
qed

lemma insert_into_branch16_st:
  assumes st: "tree_st n P t M" "P < 2 ^ 28" and p: "M p = Some (NBranch f)" "ptr_type p = RTT_BRANCH_16"
    and node: "ptr_type node \<noteq> RTT_NONE" "c \<le> IMMEDIATE"
  shows "branch_changed n P t M p c f node (radix_tree_insert_into_branch_or_grow t p c node)"
proof -
  have k: "well_kinded M" and rep: "dense_rep 16 (branches16 t) (branch_part RTT_BRANCH_16 M)"
    and rep17: "dense_rep 17 (branches_full t) (branch_part RTT_BRANCH_FULL M)" "fl_lim P (branches_full t)"
    using st(1) by (simp_all add: tree_st_defs)
  have part: "branch_part RTT_BRANCH_16 M (ptr_idx p) = Some f"
    using p by (simp add: part_SomeI(2))
  obtain b where b: "freelist_get (branches16 t) (ptr_idx p) = Some b" "dense_get 16 b = f" "length (slots b) = 16"
    using view_get [OF rep part] by blast
  note defs = radix_tree_insert_into_branch_or_grow_def radix_tree_insert_into_branch16_or_grow_def
  show ?thesis
  proof (cases "c = IMMEDIATE")
    case False
    let ?b = "\<lparr>slots = (slots b)[unat c := node]\<rparr>"
    have c: "unat c < 16" by (rule piece_cases(2) [OF node(2) False])
    have "dense_get 16 ?b = f(c := node)"
      using dense_put [OF b(3) c, of node] b(2) by (cases b) simp
    then obtain fl where fl: "freelist_set (branches16 t) (ptr_idx p) ?b = Some fl"
        "dense_rep 16 fl ((branch_part RTT_BRANCH_16 M)(ptr_idx p \<mapsto> f(c := node)))" "fl_keep fl (branches16 t)"
      using view_set [OF rep part, of ?b] b(3) by auto
    then have "tree_st n P (t\<lparr>branches16 := fl\<rparr>) (M(p \<mapsto> NBranch (f(c := node))))"
      using st p(2)
      by (auto simp: tree_st_defs part_upd of_kind_def is_branch_def intro!: well_kinded_upd dest: fl_keepD)
    then show ?thesis
      using False b(1,3) c fl(1) p(2) by (simp add: branch_changed_def defs same_path_def)
  next
    case True
    obtain fl where fl: "freelist_remove (branches16 t) (ptr_idx p) = Some fl"
        "dense_rep 16 fl ((branch_part RTT_BRANCH_16 M)(ptr_idx p := None))" "fl_keep fl (branches16 t)"
      using view_remove [OF rep part] by blast
    let ?xs = "take 16 (slots b) @ drop 16 (slots (empty_dense 17))"
    have xs: "length ?xs = 17" "dense_get 17 \<lparr>slots = ?xs\<rparr> = f"
      unfolding b(2) [symmetric] using b(3)
      by (auto simp: dense_get_def empty_dense_def nth_append fun_eq_iff)
    let ?b = "\<lparr>slots = ?xs[unat c := node]\<rparr>"
    obtain i fl17 where i: "freelist_insert (branches_full t) ?b = Some (i, fl17)"
        "branch_part RTT_BRANCH_FULL M i = None"
        "dense_rep 17 fl17 ((branch_part RTT_BRANCH_FULL M)(i \<mapsto> f(c := node)))" "fl_lim (Suc P) fl17" "take_bit 29 i = i"
      using view_alloc [OF rep17 st(2), of ?b] dense_put [OF xs(1) piece_cases(1) [OF node(2)], of node] xs by auto
    let ?q = "to_node RTT_BRANCH_FULL i"
    have "tree_st n (Suc P) (t\<lparr>branches_full := fl17, branches16 := fl\<rparr>) (M(?q \<mapsto> NBranch (f(c := node)), p := None))"
      using st p(2) i(3,4) fl
      by (auto simp: tree_st_defs part_upd of_kind_def is_branch_def intro!: well_kinded_upd fl_lim_Suc
          dest: fl_keepD)
    moreover have "M ?q = None"
      using part_None(2) [OF k _ i(2)] by (simp add: is_branch_def)
    moreover have "f c = none_ptr"
      using b(2) True by (auto simp: dense_get_def IMMEDIATE_def)
    ultimately show ?thesis
      unfolding branch_changed_def
      using b(1) i(1,5) fl(1) p(2) True xs(1) piece_cases(1) [OF node(2)]
      by (intro disjI2 exI [of _ ?q] exI [of _ "t\<lparr>branches_full := fl17, branches16 := fl\<rparr>"])
        (simp add: defs same_path_def mk_ptr_def is_branch_def Let_def)
  qed
qed

lemma insert_into_branch_full_st:
  assumes st: "tree_st n P t M" "P < 2 ^ 28" and p: "M p = Some (NBranch f)" "ptr_type p = RTT_BRANCH_FULL"
    and node: "ptr_type node \<noteq> RTT_NONE" "c \<le> IMMEDIATE"
  shows "branch_changed n P t M p c f node (radix_tree_insert_into_branch_or_grow t p c node)"
proof -
  have rep: "dense_rep 17 (branches_full t) (branch_part RTT_BRANCH_FULL M)"
    using st(1) by (simp add: tree_st_defs)
  have part: "branch_part RTT_BRANCH_FULL M (ptr_idx p) = Some f"
    using p by (simp add: part_SomeI(2))
  obtain b where b: "freelist_get (branches_full t) (ptr_idx p) = Some b" "dense_get 17 b = f" "length (slots b) = 17"
    using view_get [OF rep part] by blast
  note defs = radix_tree_insert_into_branch_or_grow_def radix_tree_insert_into_branch_full_def
  let ?b = "\<lparr>slots = (slots b)[unat c := node]\<rparr>"
  have c: "unat c < 17" by (rule piece_cases(1) [OF node(2)])
  have "dense_get 17 ?b = f(c := node)"
    using dense_put [OF b(3) c, of node] b(2) by (cases b) simp
  then obtain fl where fl: "freelist_set (branches_full t) (ptr_idx p) ?b = Some fl"
      "dense_rep 17 fl ((branch_part RTT_BRANCH_FULL M)(ptr_idx p \<mapsto> f(c := node)))" "fl_keep fl (branches_full t)"
    using view_set [OF rep part, of ?b] b(3) by auto
  then have "tree_st n P (t\<lparr>branches_full := fl\<rparr>) (M(p \<mapsto> NBranch (f(c := node))))"
    using st p(2)
    by (auto simp: tree_st_defs part_upd of_kind_def is_branch_def intro!: well_kinded_upd dest: fl_keepD)
  then show ?thesis
    using b(1,3) c fl(1) p(2) by (simp add: branch_changed_def defs same_path_def)
qed

lemma insert_into_branch_st:
  assumes "tree_st n P t M" "P < 2 ^ 28" "M p = Some (NBranch f)" "is_branch (ptr_type p)"
    and "ptr_type node \<noteq> RTT_NONE" "c \<le> IMMEDIATE"
  shows "branch_changed n P t M p c f node (radix_tree_insert_into_branch_or_grow t p c node)"
proof -
  consider "ptr_type p = RTT_BRANCH_4" | "ptr_type p = RTT_BRANCH_8" | "ptr_type p = RTT_BRANCH_16"
    | "ptr_type p = RTT_BRANCH_FULL"
    using assms(4) by (auto simp: is_branch_def)
  then show ?thesis
    using assms insert_into_branch4_st insert_into_branch8_st insert_into_branch16_st
      insert_into_branch_full_st
    by cases blast+
qed

end
