(* ===== verification/Radix_Paths.thy ===== *)
theory Radix_Paths
  imports Radix_Nodes
begin

text \<open>
  Trees and paths in a heap of abstract nodes. \<open>tree_at M p r m B\<close>: at \<open>p\<close> stands a tree over the nodes \<open>B\<close>
  that holds the map \<open>m\<close> from sequences of \<open>r\<close> key pieces to values. \<open>path M rt N ps p r pre C A\<close>: from the
  root \<open>rt\<close> of a tree over \<open>N\<close> pieces the pieces \<open>pre\<close> lead to the slot that holds \<open>p\<close>, where \<open>r\<close> pieces
  are left; \<open>A\<close> are the nodes of the tree around the slot, \<open>C\<close> takes the map of a tree in the slot to the map
  of the whole tree, and \<open>ps\<close> is what \<open>radix_tree_push_prev\<close> has recorded on the way.
\<close>

type_synonym 'v piece_map = "u8 list \<rightharpoonup> 'v"

definition below :: "u8 list \<Rightarrow> 'v piece_map \<Rightarrow> 'v piece_map" where
  "below xs m k = (if take (length xs) k = xs then m (drop (length xs) k) else None)"

definition branch_map :: "(u8 \<Rightarrow> 'v piece_map) \<Rightarrow> 'v piece_map" where
  "branch_map ms k = (case k of [] \<Rightarrow> None | c # k' \<Rightarrow> ms c k')"

lemma below_Nil [simp]: "below [] m = m"
  by (auto simp: below_def)

lemma below_app [simp]: "below xs m (xs @ k) = m k"
  by (simp add: below_def)

lemma below_other: "(\<nexists>k'. k = xs @ k') \<Longrightarrow> below xs m k = None"
  unfolding below_def by (metis append_take_drop_id)

lemma below_append: "below (xs @ ys) m = below xs (below ys m)"
proof
  fix k
  show "below (xs @ ys) m k = below xs (below ys m) k"
  proof (cases "\<exists>k'. k = xs @ k'")
    case True
    then show ?thesis by (auto simp: below_def)
  next
    case False
    then show ?thesis by (auto simp: below_other)
  qed
qed

lemma below_upd: "below xs (m(k \<mapsto> v)) = (below xs m)(xs @ k \<mapsto> v)"
proof
  fix l
  show "below xs (m(k \<mapsto> v)) l = ((below xs m)(xs @ k \<mapsto> v)) l"
    by (cases "\<exists>l'. l = xs @ l'") (auto simp: below_other split: if_splits)
qed

lemma below_empty [simp]: "below xs Map.empty = Map.empty"
  by (auto simp: below_def)

lemma below_single [simp]: "below xs [k \<mapsto> v] = [xs @ k \<mapsto> v]"
  by (simp add: below_upd)

lemma below_Cons: "below (x # xs) m = branch_map ((\<lambda>_. Map.empty)(x := below xs m))"
  by (auto simp: below_def branch_map_def fun_eq_iff split: list.splits)

lemma branch_map_upd: "branch_map (ms(c := m(k \<mapsto> v))) = (branch_map (ms(c := m)))(c # k \<mapsto> v)"
  by (auto simp: branch_map_def fun_eq_iff split: list.splits)

lemma fork_map:
  assumes "a \<noteq> c"
  shows "branch_map ((\<lambda>_. Map.empty)(a := below xs m, c := [k \<mapsto> v])) = (below (a # xs) m)(c # k \<mapsto> v)"
  using assms unfolding below_Cons by (auto simp: branch_map_def fun_eq_iff split: list.splits)

section \<open>Trees\<close>

inductive tree_at :: "'v node_heap \<Rightarrow> node_ptr \<Rightarrow> nat \<Rightarrow> 'v piece_map \<Rightarrow> node_ptr set \<Rightarrow> bool" for M where
  tree_none: "ptr_type p = RTT_NONE \<Longrightarrow> tree_at M p r Map.empty {}"
| tree_leaf: "M p = Some (NLeaf v) \<Longrightarrow> ptr_type p = RTT_LEAF \<Longrightarrow> tree_at M p 0 [[] \<mapsto> v] {p}"
| tree_edge: "M p = Some (NEdge xs q) \<Longrightarrow> ptr_type p = RTT_EDGE \<Longrightarrow> xs \<noteq> [] \<Longrightarrow> ptr_type q \<noteq> RTT_NONE \<Longrightarrow>
    tree_at M q r m A \<Longrightarrow> p \<notin> A \<Longrightarrow> tree_at M p (length xs + r) (below xs m) (insert p A)"
| tree_branch: "M p = Some (NBranch f) \<Longrightarrow> is_branch (ptr_type p) \<Longrightarrow>
    (\<And>c. tree_at M (f c) r (ms c) (As c)) \<Longrightarrow> (\<forall>c. \<not> c < 16 \<longrightarrow> f c = none_ptr) \<Longrightarrow>
    (\<forall>c d. c \<noteq> d \<longrightarrow> As c \<inter> As d = {}) \<Longrightarrow> (\<forall>c. p \<notin> As c) \<Longrightarrow>
    tree_at M p (Suc r) (branch_map ms) (insert p (\<Union>c. As c))"

inductive_cases tree_at_noneE: "tree_at M none_ptr r m A"

lemma tree_at_dom:
  assumes "tree_at M p r m A"
  shows "A \<subseteq> dom M"
  using assms by induction auto

lemma tree_at_none:
  assumes "tree_at M p r m A" "ptr_type p = RTT_NONE"
  shows "m = Map.empty" "A = {}"
  using assms by (auto elim: tree_at.cases simp: is_branch_def)

lemma tree_at_frame:
  assumes "tree_at M p r m A" "\<And>q. q \<in> A \<Longrightarrow> M' q = M q"
  shows "tree_at M' p r m A"
  using assms
proof induction
  case (tree_branch p f r ms As)
  have "tree_at M' (f c) r (ms c) (As c)" for c
    using tree_branch.IH [of c] tree_branch.prems by blast
  then show ?case
    using tree_branch by (intro tree_at.tree_branch [where f = f]) auto
qed (auto intro: tree_at.intros)

lemma tree_upd_other: "tree_at M p r m A \<Longrightarrow> q \<notin> A \<Longrightarrow> tree_at (M(q := x)) p r m A"
  by (erule tree_at_frame) auto

lemma tree_at_le:
  assumes "tree_at M p r m A" "M \<subseteq>\<^sub>m M'"
  shows "tree_at M' p r m A"
  using tree_at_dom [OF assms(1)] assms(2)
  by (intro tree_at_frame [OF assms(1)]) (metis map_le_def subsetD)

lemma tree_at_length:
  assumes "tree_at M p r m A" "m k = Some v"
  shows "length k = r"
  using assms
proof (induction arbitrary: k)
  case (tree_edge p xs q r m A)
  then obtain k' where "k = xs @ k'" "m k' = Some v"
    using below_other [of k xs m] by (cases "\<exists>k'. k = xs @ k'") auto
  then show ?case using tree_edge.IH by simp
qed (auto simp: branch_map_def split: if_splits list.splits)

text \<open>A branch with two entries.\<close>

lemma tree_fork:
  assumes b: "M b = Some (NBranch ((\<lambda>_. none_ptr)(a := o1, c := o2)))" "is_branch (ptr_type b)"
    and o1: "tree_at M o1 r m1 B1" and o2: "tree_at M o2 r m2 B2"
    and ne: "a \<noteq> c" "a < 16" "c < 16" "B1 \<inter> B2 = {}" "b \<notin> B1" "b \<notin> B2"
  shows "tree_at M b (Suc r) (branch_map ((\<lambda>_. Map.empty)(a := m1, c := m2))) (insert b (B1 \<union> B2))"
proof -
  let ?As = "(\<lambda>_. {})(a := B1, c := B2)"
  have "tree_at M b (Suc r) (branch_map ((\<lambda>_. Map.empty)(a := m1, c := m2))) (insert b (\<Union>x. ?As x))"
    by (rule tree_branch [where f = "(\<lambda>_. none_ptr)(a := o1, c := o2)"])
      (use b o1 o2 ne in \<open>auto intro!: tree_none\<close>)
  moreover have "(\<Union>x. ?As x) = B1 \<union> B2"
    using ne(1) by (auto split: if_splits)
  ultimately show ?thesis by simp
qed

section \<open>Paths\<close>

abbreviation step_of :: "node_ptr \<Rightarrow> u8 \<Rightarrow> prev_ptr" where
  "step_of p c \<equiv> \<lparr>prev_node = p, branch_val = c\<rparr>"

inductive path :: "'v node_heap \<Rightarrow> node_ptr \<Rightarrow> nat \<Rightarrow> prev_ptr list \<Rightarrow> node_ptr \<Rightarrow> nat \<Rightarrow> u8 list \<Rightarrow>
    ('v piece_map \<Rightarrow> 'v piece_map) \<Rightarrow> node_ptr set \<Rightarrow> bool" for M rt N where
  path_root: "path M rt N [step_of none_ptr IMMEDIATE] rt N [] (\<lambda>m. m) {}"
| path_edge: "path M rt N ps p (length xs + r) pre C A \<Longrightarrow> M p = Some (NEdge xs q) \<Longrightarrow> ptr_type p = RTT_EDGE \<Longrightarrow>
    xs \<noteq> [] \<Longrightarrow> p \<notin> A \<Longrightarrow>
    path M rt N [step_of p IMMEDIATE] q r (pre @ xs) (\<lambda>m. C (below xs m)) (insert p A)"
| path_branch: "path M rt N ps p (Suc r) pre C A \<Longrightarrow> M p = Some (NBranch f) \<Longrightarrow> is_branch (ptr_type p) \<Longrightarrow> c < 16 \<Longrightarrow>
    (\<And>d. d \<noteq> c \<Longrightarrow> tree_at M (f d) r (ms d) (As d)) \<Longrightarrow> (\<forall>d. \<not> d < 16 \<longrightarrow> f d = none_ptr) \<Longrightarrow>
    (\<forall>d e. d \<noteq> c \<longrightarrow> e \<noteq> c \<longrightarrow> d \<noteq> e \<longrightarrow> As d \<inter> As e = {}) \<Longrightarrow> (\<forall>d. d \<noteq> c \<longrightarrow> As d \<inter> insert p A = {}) \<Longrightarrow> p \<notin> A \<Longrightarrow>
    path M rt N (ps @ [step_of p c]) (f c) r (pre @ [c]) (\<lambda>m. C (branch_map (ms(c := m))))
      (insert p (A \<union> (\<Union>d \<in> - {c}. As d)))"

lemma path_dom:
  assumes "path M rt N ps p r pre C A"
  shows "A \<subseteq> dom M"
  using assms
proof induction
  case (path_branch ps p r pre C A f c ms As)
  have "As d \<subseteq> dom M" if "d \<noteq> c" for d
    using tree_at_dom [OF path_branch.hyps(5) [OF that]] .
  then show ?case using path_branch by blast
qed auto

lemma path_frame:
  assumes "path M rt N ps p r pre C A" "\<And>q. q \<in> A \<Longrightarrow> M' q = M q"
  shows "path M' rt N ps p r pre C A"
  using assms
proof induction
  case (path_branch ps p r pre C A f c ms As)
  have "tree_at M' (f d) r (ms d) (As d)" if "d \<noteq> c" for d
    using tree_at_frame [OF path_branch.hyps(5) [OF that]] path_branch.prems that by blast
  then show ?case
    using path_branch by (intro path.path_branch) auto
qed (auto intro: path.intros)

lemma path_upd_other: "path M rt N ps p r pre C A \<Longrightarrow> q \<notin> A \<Longrightarrow> path (M(q := x)) rt N ps p r pre C A"
  by (erule path_frame) auto

lemma path_le:
  assumes "path M rt N ps p r pre C A" "M \<subseteq>\<^sub>m M'"
  shows "path M' rt N ps p r pre C A"
  using path_dom [OF assms(1)] assms(2)
  by (intro path_frame [OF assms(1)]) (metis map_le_def subsetD)

lemma path_nonempty: "path M rt N ps p r pre C A \<Longrightarrow> ps \<noteq> []"
  by (induction rule: path.induct) auto

lemma path_lengths: "path M rt N ps p r pre C A \<Longrightarrow> length ps + r \<le> N + 1 \<and> r \<le> N"
  by (induction rule: path.induct) (auto simp: Suc_le_eq neq_Nil_conv)

lemma path_plug:
  assumes "path M rt N ps p r pre C A" "tree_at M p r m B" "A \<inter> B = {}" "ptr_type p \<noteq> RTT_NONE"
  shows "tree_at M rt N (C m) (A \<union> B)"
  using assms
proof (induction arbitrary: m B)
  case path_root
  then show ?case by simp
next
  case (path_edge ps p xs r pre C A q)
  have "tree_at M p (length xs + r) (below xs m) (insert p B)"
    using path_edge by (intro tree_edge) auto
  then have "tree_at M rt N (C (below xs m)) (A \<union> insert p B)"
    using path_edge by (intro path_edge.IH) auto
  then show ?case by simp
next
  case (path_branch ps p r pre C A f c ms As)
  let ?As = "As(c := B)"
  have sub: "tree_at M p (Suc r) (branch_map (ms(c := m))) (insert p (\<Union>d. ?As d))"
  proof (rule tree_branch)
    show "tree_at M (f d) r ((ms(c := m)) d) (?As d)" for d
      using path_branch.hyps(5) path_branch.prems(1) by simp
    show "\<forall>d e. d \<noteq> e \<longrightarrow> ?As d \<inter> ?As e = {}"
      using path_branch.hyps(7) path_branch.prems(2) by auto
    show "\<forall>d. p \<notin> ?As d"
      using path_branch.hyps(8) path_branch.prems(2) by auto
  qed (use path_branch.hyps in auto)
  have un: "(\<Union>d. ?As d) = (\<Union>d\<in>-{c}. As d) \<union> B" by auto
  have "tree_at M rt N (C (branch_map (ms(c := m)))) (A \<union> insert p (\<Union>d. ?As d))"
    using path_branch.hyps(3,8,9) path_branch.prems(2) unfolding un
    by (intro path_branch.IH) (use sub un in \<open>auto simp: is_branch_def\<close>)
  then show ?case unfolding un by (simp add: Un_assoc)
qed

lemma path_upd:
  "path M rt N ps p r pre C A \<Longrightarrow> C (m(k \<mapsto> v)) = (C m)(pre @ k \<mapsto> v)"
  by (induction arbitrary: m k rule: path.induct) (simp_all add: below_upd branch_map_upd)

text \<open>One step further down.\<close>

lemma path_into_branch:
  assumes path: "path M rt N ps p (Suc r) pre C A" and p: "M p = Some (NBranch f)" "is_branch (ptr_type p)"
    and trees: "\<And>d. tree_at M (f d) r (ms d) (As d)" and none: "\<forall>d. \<not> d < 16 \<longrightarrow> f d = none_ptr"
    and disj: "\<forall>d e. d \<noteq> e \<longrightarrow> As d \<inter> As e = {}" "\<forall>d. p \<notin> As d" "A \<inter> insert p (\<Union>d. As d) = {}"
    and c: "c < 16"
  obtains C' A' where "path M rt N (ps @ [step_of p c]) (f c) r (pre @ [c]) C' A'" "A' \<inter> As c = {}"
    "C' (ms c) = C (branch_map ms)"
proof (rule that)
  show "path M rt N (ps @ [step_of p c]) (f c) r (pre @ [c]) (\<lambda>m. C (branch_map (ms(c := m))))
      (insert p (A \<union> (\<Union>d \<in> - {c}. As d)))"
    by (rule path_branch [OF path p c trees none]) (use disj in \<open>auto simp: disjoint_iff\<close>)
  show "insert p (A \<union> (\<Union>d \<in> - {c}. As d)) \<inter> As c = {}"
    using disj by (auto simp: disjoint_iff)
  show "C (branch_map (ms(c := ms c))) = C (branch_map ms)" by simp
qed

end
