(* ===== verification/Radix_Insert.thy ===== *)
theory Radix_Insert
  imports Radix_Paths
begin

text \<open>
  Insertion of keys of one length. \<open>radix_tree_set_prev\<close> replaces what a slot holds; the passes of the
  insertion loop then either go one step down a path or end with the key added.
\<close>

section \<open>Replacing the contents of a slot\<close>

text \<open>The first round of the loop: the slot is set in place, or an empty slot makes its branch grow.\<close>

lemma set_prev_round:
  assumes path: "path M (root t) N ps p r pre C A"
    and st: "tree_st n P t M" "P < 2 ^ 28" and nd: "ptr_type nd \<noteq> RTT_NONE"
    and ps: "vec_get (prev t) idx = Some (last ps)"
  obtains (in_place) t' M' where "set_prev_loop idx nd t = Some t'" "tree_st n P t' M'" "prev t' = prev t"
      "path M' (root t') N ps nd r pre C A" "\<And>q. q \<notin> A \<Longrightarrow> M' q = M q"
  | (grown) q t' M' ps' b pre' C' D A' where "ptr_type p = RTT_NONE" "set_prev_loop idx nd t = set_prev_loop (idx - 1) q t'"
      "tree_st n (Suc P) t' M'" "prev t' = prev t" "ps = ps' @ [b]" "path M' (root t') N ps' (prev_node b) (Suc r) pre' C' D"
      "is_branch (ptr_type (prev_node b))" "is_branch (ptr_type q)"
      "\<And>rt M2. path M2 rt N ps' q (Suc r) pre' C' D \<Longrightarrow> (\<forall>x. x \<notin> D \<longrightarrow> M2 x = M' x) \<Longrightarrow>
         path M2 rt N (ps' @ [step_of q (branch_val b)]) nd r pre C A'"
      "\<And>x. x \<notin> A \<union> A' \<Longrightarrow> M' x = M x" "A' \<inter> dom M \<subseteq> A" "D \<subseteq> A"
  using path
proof cases
  case path_root
  then have "set_prev_loop idx nd t = Some (t\<lparr>root := nd\<rparr>)"
    using ps by (subst set_prev_loop.simps) simp
  moreover have "path M (root (t\<lparr>root := nd\<rparr>)) N ps nd r pre C A"
    using path_root path.path_root [of M nd N] by simp
  ultimately show thesis
    using st(1) by (intro in_place [of "t\<lparr>root := nd\<rparr>" M]) simp_all
next
  case (path_edge ps' e xs pre' C' A')
  obtain t' where t': "set_edge_next t (ptr_idx e) nd = Some t'" "tree_st n P t' (M(e \<mapsto> NEdge xs nd))" "same_path t' t"
    using set_next_st [OF st(1) path_edge(6,7)] by blast
  have "path (M(e \<mapsto> NEdge xs nd)) (root t') N ps' e (length xs + r) pre' C' A'"
    using path_upd_other [OF path_edge(5,9)] t'(3) by (simp add: same_path_def)
  from path.path_edge [OF this _ path_edge(7-9), of nd]
  have "path (M(e \<mapsto> NEdge xs nd)) (root t') N ps nd r pre C A"
    unfolding path_edge(1-4) by simp
  moreover have "set_prev_loop idx nd t = Some t'"
    using ps path_edge(1,7) t'(1) by (subst set_prev_loop.simps) simp
  ultimately show thesis
    using t'(2,3) path_edge(4)
    by (intro in_place [of t' "M(e \<mapsto> NEdge xs nd)"]) (auto simp: same_path_def)
next
  case (path_branch ps' b pre' C' D f c ms As)
  have c: "c \<le> IMMEDIATE"
    using path_branch(9) by (simp add: IMMEDIATE_def)
  have "branch_changed n P t M b c f nd (radix_tree_insert_into_branch_or_grow t b c nd)"
    by (rule insert_into_branch_st [OF st path_branch(7,8) nd c])
  then consider
    (stay) t' where "radix_tree_insert_into_branch_or_grow t b c nd = Some (none_ptr, t')"
      "tree_st n P t' (M(b \<mapsto> NBranch (f(c := nd))))" "same_path t' t"
  | (grow) q t' where "radix_tree_insert_into_branch_or_grow t b c nd = Some (q, t')" "is_branch (ptr_type q)"
      "M q = None" "f c = none_ptr" "tree_st n (Suc P) t' (M(q \<mapsto> NBranch (f(c := nd)), b := None))" "same_path t' t"
    unfolding branch_changed_def by blast
  then show thesis
  proof cases
    case stay
    let ?M = "M(b \<mapsto> NBranch (f(c := nd)))"
    have "path ?M (root t') N ps' b (Suc r) pre' C' D"
      using path_upd_other [OF path_branch(6,14)] stay(3) by (simp add: same_path_def)
    moreover have "tree_at ?M (f d) r (ms d) (As d)" if "d \<noteq> c" for d
      using path_branch(13) that by (intro tree_upd_other [OF path_branch(10) [OF that]]) auto
    ultimately have "path ?M (root t') N (ps' @ [step_of b c]) ((f(c := nd)) c) r (pre' @ [c])
        (\<lambda>m. C' (branch_map (ms(c := m)))) (insert b (D \<union> (\<Union>d \<in> - {c}. As d)))"
      using path_branch(8,9,11-14)
      by (intro path.path_branch [where M = ?M and f = "f(c := nd)" and r = r]) auto
    moreover have "set_prev_loop idx nd t = Some t'"
      using ps path_branch(1,8) stay(1) by (subst set_prev_loop.simps) (auto simp: is_branch_def)
    ultimately show thesis
      using stay(2,3) path_branch(1-5) by (intro in_place [of t' ?M]) (auto simp: same_path_def)
  next
    case grow
    let ?M = "M(q \<mapsto> NBranch (f(c := nd)), b := None)" and ?A = "insert q (D \<union> (\<Union>d \<in> - {c}. As d))"
    have q: "q \<notin> D" "q \<noteq> b" "\<And>d. d \<noteq> c \<Longrightarrow> q \<notin> As d"
      using path_dom [OF path_branch(6)] tree_at_dom [OF path_branch(10)] grow(3) path_branch(7) by auto
    have up: "path ?M (root t') N ps' b (Suc r) pre' C' D"
      using path_upd_other [OF path_upd_other [OF path_branch(6) q(1)] path_branch(14)] grow(6)
      by (simp add: same_path_def)
    have "path M2 rt N (ps' @ [step_of q c]) nd r pre C ?A"
      if up2: "path M2 rt N ps' q (Suc r) pre' C' D" and M2: "\<forall>x. x \<notin> D \<longrightarrow> M2 x = ?M x" for M2 rt
    proof -
      have "tree_at M2 (f d) r (ms d) (As d)" if "d \<noteq> c" for d
        using path_branch(13) M2 q(3) that
        by (intro tree_at_frame [OF path_branch(10) [OF that]]) (auto simp: disjoint_iff)
      then have "path M2 rt N (ps' @ [step_of q c]) ((f(c := nd)) c) r (pre' @ [c])
          (\<lambda>m. C' (branch_map (ms(c := m)))) ?A"
        using path_branch(9,11-14) q grow(2) M2
        by (intro path.path_branch [where f = "f(c := nd)", OF up2]) (auto simp: disjoint_iff)
      then show ?thesis using path_branch(4,5) by (simp only: fun_upd_same path_branch(3))
    qed
    moreover have "set_prev_loop idx nd t = set_prev_loop (idx - 1) q t'"
      using ps path_branch(1,8) grow(1,2)
      by (subst set_prev_loop.simps) (auto simp: is_branch_def)
    moreover have "ptr_type p = RTT_NONE"
      using path_branch(2) grow(4) by simp
    ultimately show thesis
      using grow(2,3,5,6) path_branch(1,5,8) up
      by (intro grown [where q = q and t' = t' and M' = ?M and ps' = ps' and b = "step_of b c" and D = D and A' = ?A])
        (auto simp: same_path_def)
  qed
qed

text \<open>
  The grown branch goes into a slot that is in use, so the loop ends there: growth goes up by at most
  one node.
\<close>

lemma set_prev_st:
  assumes path: "path M (root t) N ps p r pre C A"
    and st: "tree_st n P t M" "Suc P < 2 ^ 28" and nd: "ptr_type nd \<noteq> RTT_NONE"
    and ps: "vec_rep (prev t) ps"
  obtains t' M' ps' A' where "radix_tree_set_prev t nd = Some t'" "tree_st n (Suc P) t' M'" "prev t' = prev t"
    "path M' (root t') N ps' nd r pre C A'" "\<And>q. q \<notin> A \<union> A' \<Longrightarrow> M' q = M q" "A' \<inter> dom M \<subseteq> A"
proof -
  define idx where "idx = vec_len (prev t) - 1"
  have sp: "radix_tree_set_prev t nd = set_prev_loop idx nd t"
    by (simp add: radix_tree_set_prev_def idx_def)
  have idx: "unat idx = length ps - 1"
    using path_nonempty [OF path] vec_rep_len [OF ps] unfolding idx_def
    by (metis One_nat_def Suc_leI length_greater_0_conv unat_1 unat_sub word_le_nat_alt)
  have last: "vec_get (prev t) idx = Some (last ps)"
    using vec_get_rep [OF ps, of idx] path_nonempty [OF path] idx by (simp add: last_conv_nth)
  have P: "P < 2 ^ 28" using st(2) by simp
  show thesis
  proof (rule set_prev_round [OF path st(1) P nd last])
    fix t' M'
    assume "set_prev_loop idx nd t = Some t'" "tree_st n P t' M'" "prev t' = prev t"
      "path M' (root t') N ps nd r pre C A" "\<And>q. q \<notin> A \<Longrightarrow> M' q = M q"
    then show thesis
      using sp tree_st_mono [of n P t' M' "Suc P"] by (intro that [of t' M' ps A]) auto
  next
    fix q t' M' ps' b pre' C' D A'
    assume g: "set_prev_loop idx nd t = set_prev_loop (idx - 1) q t'"
      "tree_st n (Suc P) t' M'" "prev t' = prev t" "ps = ps' @ [b]" "path M' (root t') N ps' (prev_node b) (Suc r) pre' C' D"
      "is_branch (ptr_type (prev_node b))" "is_branch (ptr_type q)"
      "\<And>rt M2. path M2 rt N ps' q (Suc r) pre' C' D \<Longrightarrow> (\<forall>x. x \<notin> D \<longrightarrow> M2 x = M' x) \<Longrightarrow>
         path M2 rt N (ps' @ [step_of q (branch_val b)]) nd r pre C A'"
      "\<And>x. x \<notin> A \<union> A' \<Longrightarrow> M' x = M x" "A' \<inter> dom M \<subseteq> A" "D \<subseteq> A"
    have ne: "ps' \<noteq> []" by (rule path_nonempty [OF g(5)])
    then have "unat (idx - 1) = length ps' - 1"
      using idx g(4)
      by (metis One_nat_def Suc_leI diff_Suc_1 length_append_singleton length_greater_0_conv unat_1 unat_sub
          word_le_nat_alt)
    then have last': "vec_get (prev t') (idx - 1) = Some (last ps')"
      using vec_get_rep [OF ps, of "idx - 1"] ne g(3,4) by (simp add: last_conv_nth nth_append)
    have nd': "ptr_type q \<noteq> RTT_NONE" using g(7) by (auto simp: is_branch_def)
    show thesis
    proof (rule set_prev_round [OF g(5,2) st(2) nd' last'])
      fix t2 M2
      assume t2: "set_prev_loop (idx - 1) q t' = Some t2" "tree_st n (Suc P) t2 M2" "prev t2 = prev t'"
        "path M2 (root t2) N ps' q (Suc r) pre' C' D" "\<And>x. x \<notin> D \<Longrightarrow> M2 x = M' x"
      have "M2 x = M x" if "x \<notin> A \<union> A'" for x
        using t2(5) [of x] g(9) [OF that] g(11) that by auto
      then show thesis
        by (rule that [OF _ t2(2) _ g(8) [OF t2(4)] _ g(10), rotated -1]) (use sp g(1,3) t2 in auto)
    qed (use g(6) in \<open>auto simp: is_branch_def\<close>)
  qed
qed

section \<open>New nodes\<close>

text \<open>The tree in a pool at its root, for keys of \<open>n\<close> bytes.\<close>

definition tree_map :: "nat \<Rightarrow> nat \<Rightarrow> 'v radix_tree \<Rightarrow> 'v piece_map \<Rightarrow> bool" where
  "tree_map n P t m \<longleftrightarrow> (\<exists>M B. tree_st n P t M \<and> tree_at M (root t) (2 * n) m B)"

lemma replace_slot:
  assumes path: "path M (root t) (2 * n) ps p r pre C A" and st: "tree_st n P t M" "Suc P < 2 ^ 28"
    and new: "tree_at M nd r m B" "B \<inter> A = {}" "ptr_type nd \<noteq> RTT_NONE" and ps: "vec_rep (prev t) ps"
  shows "\<exists>t'. radix_tree_set_prev t nd = Some t' \<and> prev t' = prev t \<and> tree_map n (Suc P) t' (C m)"
proof -
  obtain t' M' ps' A' where t': "radix_tree_set_prev t nd = Some t'" "tree_st n (Suc P) t' M'" "prev t' = prev t"
      "path M' (root t') (2 * n) ps' nd r pre C A'" "\<And>q. q \<notin> A \<union> A' \<Longrightarrow> M' q = M q" "A' \<inter> dom M \<subseteq> A"
    by (rule set_prev_st [OF path st new(3) ps]) blast
  have disj: "A' \<inter> B = {}"
    using t'(6) tree_at_dom [OF new(1)] new(2) by blast
  have "tree_at M' nd r m B"
    using t'(5) disj new(2) by (intro tree_at_frame [OF new(1)]) auto
  then show ?thesis
    using path_plug [OF t'(4) _ disj new(3)] t'(1-3) unfolding tree_map_def by blast
qed

lemma new_edge_tree:
  assumes st: "tree_st n P t M" "P < 2 ^ 28" and len: "length junk = n" "offset + len \<le> 2 * length key" "len \<le> 2 * n"
    and q: "tree_at M q r m B" "ptr_type q \<noteq> RTT_NONE"
  obtains nd t' M' B' where "create_edge_unless_empty junk t key offset len q = Some (nd, t')"
    "tree_st n (Suc P) t' M'" "M \<subseteq>\<^sub>m M'" "same_path t' t"
    "tree_at M' nd (len + r) (below (nibs key offset (offset + len)) m) B'" "B' \<inter> dom M \<subseteq> B" "ptr_type nd \<noteq> RTT_NONE"
proof (cases "0 < len")
  case False
  then show thesis
    using that [of q t M B] st(1) tree_st_mono [of n P t M "Suc P"] q
    by (simp add: create_edge_unless_empty_def nibs_def)
next
  case True
  obtain p t' where p: "radix_tree_create_edge_node junk t key offset len q = Some (p, t')"
      "ptr_type p = RTT_EDGE" "M p = None"
      "tree_st n (Suc P) t' (M(p \<mapsto> NEdge (nibs key offset (offset + len)) q))" "same_path t' t"
    by (rule create_edge_st [OF st len(1,2) True len(3)])
  let ?M = "M(p \<mapsto> NEdge (nibs key offset (offset + len)) q)"
  have fresh: "p \<notin> B" using tree_at_dom [OF q(1)] p(3) by blast
  have "tree_at ?M p (length (nibs key offset (offset + len)) + r) (below (nibs key offset (offset + len)) m) (insert p B)"
    by (rule tree_edge [OF _ p(2) _ q(2) tree_upd_other [OF q(1) fresh] fresh]) (use True in simp_all)
  moreover have "M \<subseteq>\<^sub>m ?M" "insert p B \<inter> dom M \<subseteq> B"
    using p(3) by (auto simp: map_le_def)
  ultimately show thesis
    using that [of p t' ?M "insert p B"] p True by (simp add: create_edge_unless_empty_def)
qed

text \<open>
  The new leaf, the edge for the rest of an old key before \<open>q\<close>, and the edge for the rest of the new key
  before the leaf.
\<close>

lemma two_tails:
  assumes st: "tree_st n P t M" "P + 3 < 2 ^ 28" and len: "length junk0 = n" "length junk1 = n"
      "off1 + len1 \<le> 2 * length tx" "len1 \<le> 2 * n" "off2 + len2 = 2 * n" "length key = n" "len1 + r = len2"
    and q: "tree_at M q r m B" "ptr_type q \<noteq> RTT_NONE"
  obtains l t1 nd1 t2 nd2 t3 M3 B1 B2 where "radix_tree_create_leaf_node t v = Some (l, t1)"
    "create_edge_unless_empty junk0 t1 tx off1 len1 q = Some (nd1, t2)"
    "create_edge_unless_empty junk1 t2 key off2 len2 l = Some (nd2, t3)"
    "tree_st n (P + 3) t3 M3" "M \<subseteq>\<^sub>m M3" "same_path t3 t"
    "tree_at M3 nd1 len2 (below (nibs tx off1 (off1 + len1)) m) B1" "ptr_type nd1 \<noteq> RTT_NONE"
    "tree_at M3 nd2 len2 [nibs key off2 (2 * n) \<mapsto> v] B2" "ptr_type nd2 \<noteq> RTT_NONE"
    "B1 \<inter> B2 = {}" "B1 \<inter> dom M \<subseteq> B" "B2 \<inter> dom M = {}"
proof -
  obtain l t1 where l: "radix_tree_create_leaf_node t v = Some (l, t1)" "ptr_type l = RTT_LEAF" "M l = None"
      "tree_st n (Suc P) t1 (M(l \<mapsto> NLeaf v))" "same_path t1 t"
    by (rule create_leaf_st [OF st(1), of v]) (use st(2) in auto)
  let ?M1 = "M(l \<mapsto> NLeaf v)"
  have le1: "M \<subseteq>\<^sub>m ?M1" using l(3) by (auto simp: map_le_def)
  obtain nd1 t2 M2 B1 where n1: "create_edge_unless_empty junk0 t1 tx off1 len1 q = Some (nd1, t2)"
      "tree_st n (Suc (Suc P)) t2 M2" "?M1 \<subseteq>\<^sub>m M2" "same_path t2 t1"
      "tree_at M2 nd1 (len1 + r) (below (nibs tx off1 (off1 + len1)) m) B1" "B1 \<inter> dom ?M1 \<subseteq> B" "ptr_type nd1 \<noteq> RTT_NONE"
    by (rule new_edge_tree [OF l(4) _ len(1,3,4) tree_at_le [OF q(1) le1] q(2)]) (use st(2) in auto)
  have "tree_at ?M1 l 0 [[] \<mapsto> v] {l}"
    using l(2) by (intro tree_leaf) auto
  note leaf = tree_at_le [OF this n1(3)]
  obtain nd2 t3 M3 B2 where n2: "create_edge_unless_empty junk1 t2 key off2 len2 l = Some (nd2, t3)"
      "tree_st n (Suc (Suc (Suc P))) t3 M3" "M2 \<subseteq>\<^sub>m M3" "same_path t3 t2"
      "tree_at M3 nd2 (len2 + 0) (below (nibs key off2 (off2 + len2)) [[] \<mapsto> v]) B2" "B2 \<inter> dom M2 \<subseteq> {l}" "ptr_type nd2 \<noteq> RTT_NONE"
    by (rule new_edge_tree [OF n1(2) _ len(2) _ _ leaf, of off2 len2 key]) (use st(2) l(2) len in auto)
  have "l \<in> dom M2"
    using map_le_implies_dom_le [OF n1(3)] by auto
  then have "l \<notin> B1" using n1(6) tree_at_dom [OF q(1)] l(3) by auto
  moreover have "B1 \<subseteq> dom M2" by (rule tree_at_dom [OF n1(5)])
  ultimately have disj: "B1 \<inter> B2 = {}" using n2(6) by auto
  have dom: "dom M \<subseteq> dom M2"
    using map_le_implies_dom_le [OF map_le_trans [OF le1 n1(3)]] .
  show thesis
  proof (rule that [OF l(1) n1(1) n2(1)])
    show "tree_st n (P + 3) t3 M3" using n2(2) by (simp add: numeral_3_eq_3)
    show "M \<subseteq>\<^sub>m M3" by (rule map_le_trans [OF map_le_trans [OF le1 n1(3)] n2(3)])
    show "same_path t3 t" by (rule same_path_trans [OF n2(4) same_path_trans [OF n1(4) l(5)]])
    show "tree_at M3 nd1 len2 (below (nibs tx off1 (off1 + len1)) m) B1"
      using tree_at_le [OF n1(5) n2(3)] len(7) by simp
    show "tree_at M3 nd2 len2 [nibs key off2 (2 * n) \<mapsto> v] B2"
      using n2(5) len(5) by simp
    show "B1 \<inter> dom M \<subseteq> B" using n1(6) by auto
    have "l \<notin> dom M" using l(3) by (simp add: domIff)
    then show "B2 \<inter> dom M = {}" using n2(6) dom by blast
  qed (use n1(7) n2(7) disj in auto)
qed

section \<open>The passes that end\<close>

text \<open>The facts a pass knows of the key: \<open>ki\<close> pieces are consumed and \<open>r\<close> are left.\<close>

definition key_at :: "nat \<Rightarrow> u8 list \<Rightarrow> nat \<Rightarrow> nat \<Rightarrow> u8 list \<Rightarrow> bool" where
  "key_at n key ki r pre \<longleftrightarrow> length key = n \<and> ki + r = 2 * n \<and> pre = nibs key 0 ki"

lemma key_at_rest: "key_at n key ki r pre \<Longrightarrow> pre @ nibs key ki (2 * n) = pieces key"
  by (auto simp: key_at_def pieces_def intro: nibs_append)

lemma key_at_step:
  assumes "key_at n key ki (j + r) pre"
  shows "key_at n key (ki + j) r (pre @ nibs key ki (ki + j))"
  using assms nibs_append [of 0 ki "ki + j" key] by (auto simp: key_at_def)

lemma path_insert:
  assumes "path M rt N ps p r pre C A" "key_at n key ki r pre"
  shows "C (m(nibs key ki (2 * n) \<mapsto> v)) = (C m)(pieces key \<mapsto> v)"
  by (simp add: path_upd [OF assms(1)] key_at_rest [OF assms(2)])

lemma insert_at_none_st:
  assumes path: "path M (root t) (2 * n) ps p r pre C A" and p: "tree_at M p r m B" "ptr_type p = RTT_NONE"
    and st: "tree_st n P t M" "P + 3 < 2 ^ 28" and key: "key_at n key ki r pre" "length (junk 1) = n"
    and ps: "vec_rep (prev t) ps"
  shows "\<exists>t'. insert_at_none junk key (2 * n) v t ki = Some (Inl t') \<and> prev t' = prev t \<and>
    tree_map n (P + 3) t' ((C m)(pieces key \<mapsto> v))"
proof -
  have r: "r = 2 * n - ki" "length key = n" "ki \<le> 2 * n"
    using key(1) by (auto simp: key_at_def)
  obtain l t1 where l: "radix_tree_create_leaf_node t v = Some (l, t1)" "ptr_type l = RTT_LEAF" "M l = None"
      "tree_st n (Suc P) t1 (M(l \<mapsto> NLeaf v))" "same_path t1 t"
    by (rule create_leaf_st [OF st(1), of v]) (use st(2) in auto)
  let ?M1 = "M(l \<mapsto> NLeaf v)"
  have leaf: "tree_at ?M1 l 0 [[] \<mapsto> v] {l}"
    using l(2) by (intro tree_leaf) auto
  have le1: "M \<subseteq>\<^sub>m ?M1" using l(3) by (auto simp: map_le_def)
  obtain nd t2 M2 B2 where n2: "create_edge_unless_empty (junk 1) t1 key ki (2 * n - ki) l = Some (nd, t2)"
      "tree_st n (Suc (Suc P)) t2 M2" "?M1 \<subseteq>\<^sub>m M2" "same_path t2 t1"
      "tree_at M2 nd (2 * n - ki + 0) (below (nibs key ki (ki + (2 * n - ki))) [[] \<mapsto> v]) B2" "B2 \<inter> dom ?M1 \<subseteq> {l}"
      "ptr_type nd \<noteq> RTT_NONE"
    by (rule new_edge_tree [OF l(4) _ key(2) _ _ leaf, of ki "2 * n - ki" key]) (use st(2) l(2) r in auto)
  have tree: "tree_at M2 nd r [nibs key ki (2 * n) \<mapsto> v] B2"
    using n2(5) r by simp
  have sp: "root t2 = root t" "prev t2 = prev t"
    using n2(4) l(5) by (simp_all add: same_path_def)
  have path2: "path M2 (root t2) (2 * n) ps p r pre C A"
    using path_le [OF path map_le_trans [OF le1 n2(3)]] sp by simp
  have "B2 \<inter> A = {}"
    using n2(6) path_dom [OF path] l(3) by auto
  then obtain t' where "radix_tree_set_prev t2 nd = Some t'" "prev t' = prev t2"
      "tree_map n (Suc (Suc (Suc P))) t' (C [nibs key ki (2 * n) \<mapsto> v])"
    using replace_slot [OF path2 n2(2) _ tree _ n2(7)] st(2) ps sp by auto
  then show ?thesis
    using path_insert [OF path key(1), of Map.empty v] tree_at_none(1) [OF p] sp l(1) n2(1)
    by (simp add: insert_at_none_def numeral_3_eq_3)
qed

lemma insert_at_leaf_st:
  assumes path: "path M (root t) (2 * n) ps p r pre C A" and p: "tree_at M p r m B" "ptr_type p = RTT_LEAF"
    and st: "tree_st n P t M" and key: "key_at n key ki r pre" and disj: "A \<inter> B = {}"
  shows "\<exists>t'. insert_at_leaf v t p = Some (Inl t') \<and> prev t' = prev t \<and>
    tree_map n P t' ((C m)(pieces key \<mapsto> v))"
proof -
  obtain w where w: "M p = Some (NLeaf w)" "r = 0" "m = [[] \<mapsto> w]" "B = {p}"
    using p by (auto elim: tree_at.cases simp: is_branch_def)
  obtain t' where t': "insert_at_leaf v t p = Some (Inl t')" "tree_st n P t' (M(p \<mapsto> NLeaf v))" "same_path t' t"
    by (rule set_leaf_st [OF st w(1) p(2)])
  let ?M = "M(p \<mapsto> NLeaf v)"
  have "tree_at ?M p r [[] \<mapsto> v] {p}"
    unfolding w(2) using p(2) by (intro tree_leaf) auto
  moreover have "path ?M (root t') (2 * n) ps p r pre C A"
    using path_upd_other [OF path, of p] disj w(4) t'(3) by (simp add: same_path_def)
  ultimately have "tree_at ?M (root t') (2 * n) (C [[] \<mapsto> v]) (A \<union> {p})"
    using disj w(4) p(2) by (intro path_plug [where p = p and r = r and M = ?M and C = C]) auto
  moreover have "nibs key ki (2 * n) = []"
    using key w(2) by (simp add: key_at_def)
  then have "C [[] \<mapsto> v] = (C m)(pieces key \<mapsto> v)"
    using path_insert [OF path key, of m v] w(3) by simp
  ultimately show ?thesis
    using t' unfolding tree_map_def by (auto simp: same_path_def)
qed

text \<open>The loop that consumes matching pieces, where the edge has no more of them than the key has left.\<close>

lemma consume_matching_st:
  assumes "oi \<le> el" "el \<le> 2 * length old" "ki + (el - oi) \<le> kl" "kl \<le> 2 * length new"
  shows "\<exists>d ov' nv'. consume_matching el kl old new oi ki ov nv = Some (oi + d, ki + d, ov', nv') \<and>
    oi + d \<le> el \<and> nibs old oi (oi + d) = nibs new ki (ki + d) \<and>
    (oi + d < el \<longrightarrow> ov' = nib old (oi + d) \<and> nv' = nib new (ki + d) \<and> ov' \<noteq> nv')"
  using assms
proof (induction "el - oi" arbitrary: oi ki ov nv)
  case 0
  then have "consume_matching el kl old new oi ki ov nv = Some (oi + 0, ki + 0, ov, nv)"
    by (subst consume_matching.simps) simp
  then show ?case using 0
    by (intro exI [of _ "0 :: nat"] exI [of _ ov] exI [of _ nv]) simp
next
  case (Suc k)
  have u: "radix_tree_key_unpack old oi = Some (nib old oi)" "radix_tree_key_unpack new ki = Some (nib new ki)"
    using Suc.hyps(2) Suc.prems by (simp_all add: unpack_nib less_mult_imp_div_less)
  have go: "oi < el" "ki < kl" using Suc.hyps(2) Suc.prems by simp_all
  show ?case
  proof (cases "nib old oi = nib new ki")
    case False
    then have "consume_matching el kl old new oi ki ov nv = Some (oi + 0, ki + 0, nib old oi, nib new ki)"
      using u go by (subst consume_matching.simps) simp
    then show ?thesis using False Suc.prems(1)
      by (intro exI [of _ "0 :: nat"] exI [of _ "nib old oi"] exI [of _ "nib new ki"]) simp
  next
    case True
    then have step: "consume_matching el kl old new oi ki ov nv =
        consume_matching el kl old new (Suc oi) (Suc ki) (nib old oi) (nib new ki)"
      using u go by (subst consume_matching.simps) simp
    have "k = el - Suc oi" "Suc oi \<le> el" "Suc ki + (el - Suc oi) \<le> kl"
      using Suc.hyps(2) Suc.prems by linarith+
    from Suc.hyps(1) [OF this(1,2) Suc.prems(2) this(3) Suc.prems(4), of "nib old oi" "nib new ki"]
    obtain d ov' nv' where d: "consume_matching el kl old new (Suc oi) (Suc ki) (nib old oi) (nib new ki) =
          Some (Suc oi + d, Suc ki + d, ov', nv')" "Suc oi + d \<le> el"
        "nibs old (Suc oi) (Suc oi + d) = nibs new (Suc ki) (Suc ki + d)"
        "Suc oi + d < el \<longrightarrow> ov' = nib old (Suc oi + d) \<and> nv' = nib new (Suc ki + d) \<and> ov' \<noteq> nv'"
      by blast
    have "nibs old oi (oi + Suc d) = nibs new ki (ki + Suc d)"
      using d(3) True by (simp add: nibs_Cons)
    then have "consume_matching el kl old new oi ki ov nv = Some (oi + Suc d, ki + Suc d, ov', nv') \<and>
        oi + Suc d \<le> el \<and> nibs old oi (oi + Suc d) = nibs new ki (ki + Suc d) \<and>
        (oi + Suc d < el \<longrightarrow> ov' = nib old (oi + Suc d) \<and> nv' = nib new (ki + Suc d) \<and> ov' \<noteq> nv')"
      using step d by auto
    then show ?thesis by blast
  qed
qed

text \<open>An edge whose first piece is another one gives way to a branch.\<close>

lemma split_edge_first_st:
  assumes path: "path M (root t) (2 * n) ps p (length xs + r) pre C A"
    and p: "M p = Some (NEdge xs q)" "ptr_type p = RTT_EDGE" "xs \<noteq> []" "p \<notin> B"
    and q: "tree_at M q r m B" "ptr_type q \<noteq> RTT_NONE" and disj: "A \<inter> insert p B = {}"
    and st: "tree_st n P t M" "P + 5 < 2 ^ 28" and key: "key_at n key ki (length xs + r) pre"
    and junk: "length (junk 0) = n" "length (junk 1) = n" and ps: "vec_rep (prev t) ps"
    and e: "edge_read t (ptr_idx p) xs q e tx" "length xs \<le> 2 * n" and ne: "nib tx 0 \<noteq> nib key ki"
  shows "\<exists>t'. split_edge_first junk t p e tx (nib tx 0) (nib key ki) key (2 * n) (ki + 1) v = Some t' \<and>
    prev t' = prev t \<and> tree_map n (P + 5) t' ((C (below xs m))(pieces key \<mapsto> v))"
proof -
  have xs: "e_length e = length xs" "e_next e = q" "xs = nibs tx 0 (length xs)" "length xs \<le> 2 * length tx"
    using e(1) by (simp_all add: edge_read_def)
  let ?r = "length xs - 1 + r"
  obtain k where len: "length xs = Suc k" using p(3) by (cases xs) auto
  have r: "length key = n" "ki + 1 + ?r = 2 * n" "2 * n - (ki + 1) = ?r" "length xs + r = Suc ?r" "0 < length xs"
    using key len unfolding key_at_def by linarith+
  have lens: "1 + (length xs - 1) \<le> 2 * length tx" "length xs - 1 \<le> 2 * n" "P + 3 < 2 ^ 28"
    using xs(4) e(2) st(2) r(5) by simp_all
  obtain l t1 o1 t2 o2 t3 M3 B1 B2 where tails: "radix_tree_create_leaf_node t v = Some (l, t1)"
      "create_edge_unless_empty (junk 0) t1 tx 1 (length xs - 1) q = Some (o1, t2)"
      "create_edge_unless_empty (junk 1) t2 key (ki + 1) ?r l = Some (o2, t3)"
      "tree_st n (P + 3) t3 M3" "M \<subseteq>\<^sub>m M3" "same_path t3 t"
      "tree_at M3 o1 ?r (below (nibs tx 1 (1 + (length xs - 1))) m) B1" "ptr_type o1 \<noteq> RTT_NONE"
      "tree_at M3 o2 ?r [nibs key (ki + 1) (2 * n) \<mapsto> v] B2" "ptr_type o2 \<noteq> RTT_NONE"
      "B1 \<inter> B2 = {}" "B1 \<inter> dom M \<subseteq> B" "B2 \<inter> dom M = {}"
    by (rule two_tails [OF st(1) lens(3) junk lens(1,2) r(2,1) refl q])
  have p3: "M3 p = Some (NEdge xs q)"
    using tails(5) p(1) unfolding map_le_def by (metis domI)
  obtain e3 tx3 where e3: "edge_read t3 (ptr_idx p) xs q e3 tx3"
    by (rule edge_read_st [OF tails(4) p3 p(2)])
  obtain b t4 where b: "radix_tree_create_branch_node t3 RTT_BRANCH_4 = Some (b, t4)" "ptr_type b = RTT_BRANCH_4"
      "M3 b = None" "tree_st n (Suc (P + 3)) t4 (M3(b \<mapsto> NBranch (\<lambda>_. none_ptr)))" "same_path t4 t3" "edges t4 = edges t3"
    by (rule create_branch4_st [OF tails(4)]) (use st(2) in auto)
  let ?a = "nib tx 0" and ?c = "nib key ki"
  have small: "nib k i \<le> IMMEDIATE" "nib k i < 16" for k i
    using nib_less [of k i] by (simp_all add: IMMEDIATE_def)
  obtain t5 where t5: "set_branch4_slot t4 b 0 ?a o1 = Some t5"
      "tree_st n (Suc (P + 3)) t5 (M3(b \<mapsto> NBranch ((\<lambda>_. none_ptr)(?a := o1))))" "same_path t5 t4" "edges t5 = edges t4"
    using fill_branch4_st [OF b(4) _ b(2) tails(8) small(1), of "\<lambda>_. none_ptr" 0 tx 0] by auto
  obtain t6 where t6: "set_branch4_slot t5 b 1 ?c o2 = Some t6"
      "tree_st n (Suc (P + 3)) t6 (M3(b \<mapsto> NBranch ((\<lambda>_. none_ptr)(?a := o1, ?c := o2))))" "same_path t6 t5" "edges t6 = edges t5"
    using fill_branch4_st [OF t5(2) _ b(2) tails(10) small(1), of "(\<lambda>_. none_ptr)(?a := o1)" 1 key ki] ne tails(8) by auto
  let ?f = "(\<lambda>_. none_ptr)(?a := o1, ?c := o2)"
  have pb: "p \<noteq> b" using p3 b(3) by auto
  have get: "freelist_get (edges t6) (ptr_idx p) = Some e3" "freelist_get (edges t3) (ptr_idx p) = Some e3"
    using e3 b(6) t5(4) t6(4) by (simp_all add: edge_read_def)
  obtain t7 es where t7: "edge_maybe_remove_str t6 e3 = Some t7" "freelist_remove (edges t7) (ptr_idx p) = Some es"
      "tree_st n (Suc (P + 3)) (t7\<lparr>edges := es\<rparr>) (M3(b \<mapsto> NBranch ?f, p := None))" "same_path (t7\<lparr>edges := es\<rparr>) t6"
    using remove_edge_st [OF t6(2) _ p(2) get(1)] p3 pb by auto
  let ?M = "M3(b \<mapsto> NBranch ?f, p := None)"
  have bB: "b \<notin> B1" "b \<notin> B2" using tree_at_dom [OF tails(7)] tree_at_dom [OF tails(9)] b(3) by auto
  have pB: "p \<notin> B1" "p \<notin> B2" using tails(12,13) p(1,4) by auto
  have fork: "tree_at ?M b (Suc ?r) (branch_map ((\<lambda>_. Map.empty)(?a := below (nibs tx 1 (1 + (length xs - 1))) m,
      ?c := [nibs key (ki + 1) (2 * n) \<mapsto> v]))) (insert b (B1 \<union> B2))"
    by (rule tree_fork [of ?M b ?a o1 ?c o2])
      (use b(2) pb small ne bB tails(11) tree_upd_other [OF tree_upd_other [OF tails(7) bB(1)] pB(1)]
        tree_upd_other [OF tree_upd_other [OF tails(9) bB(2)] pB(2)] in \<open>simp_all add: is_branch_def\<close>)
  have fork_eq: "branch_map ((\<lambda>_. Map.empty)(?a := below (nibs tx 1 (1 + (length xs - 1))) m,
      ?c := [nibs key (ki + 1) (2 * n) \<mapsto> v])) = (below xs m)(nibs key ki (2 * n) \<mapsto> v)"
  proof -
    have c: "?c # nibs key (ki + 1) (2 * n) = nibs key ki (2 * n)"
      using r(2) by (simp add: nibs_Cons)
    have "?a # nibs tx 1 (1 + (length xs - 1)) = nibs tx 0 (length xs)"
      using len by (simp add: nibs_Cons [of 0])
    also have "\<dots> = xs" by (rule sym) (rule xs(3))
    finally have a: "?a # nibs tx 1 (1 + (length xs - 1)) = xs" .
    show ?thesis
      unfolding fork_map [OF ne] by (simp only: a c)
  qed
  have tree: "tree_at ?M b (length xs + r) ((below xs m)(nibs key ki (2 * n) \<mapsto> v)) (insert b (B1 \<union> B2))"
    using fork unfolding fork_eq r(4) .
  have sp: "same_path (t7\<lparr>edges := es\<rparr>) t"
    using t7(4) t6(3) t5(3) b(5) tails(6) by (simp add: same_path_def)
  have bA: "b \<notin> A" "p \<notin> A" using path_dom [OF path_le [OF path tails(5)]] b(3) disj by auto
  have path7: "path ?M (root (t7\<lparr>edges := es\<rparr>)) (2 * n) ps p (length xs + r) pre C A"
    using path_upd_other [OF path_upd_other [OF path_le [OF path tails(5)] bA(1)] bA(2)] sp
    by (simp add: same_path_def)
  have disj': "insert b (B1 \<union> B2) \<inter> A = {}"
    using bA(1) path_dom [OF path] tails(12,13) disj by blast
  have nb: "ptr_type b \<noteq> RTT_NONE" using b(2) by simp
  obtain t8 where "radix_tree_set_prev (t7\<lparr>edges := es\<rparr>) b = Some t8" "prev t8 = prev (t7\<lparr>edges := es\<rparr>)"
      "tree_map n (Suc (Suc (P + 3))) t8 (C ((below xs m)(nibs key ki (2 * n) \<mapsto> v)))"
    using replace_slot [OF path7 t7(3) _ tree disj' nb] st(2) ps sp by (auto simp: same_path_def)
  moreover have "split_edge_first junk t p e tx ?a ?c key (2 * n) (ki + 1) v = radix_tree_set_prev (t7\<lparr>edges := es\<rparr>) b"
    using tails(1-3) b(1) t5(1) t6(1) t7(1,2) get(2) xs(1,2) r(3) by (simp add: split_edge_first_def Let_def)
  ultimately show ?thesis
    using path_insert [OF path key] sp by (simp add: same_path_def numeral_eq_Suc)
qed

text \<open>An edge that shares its first \<open>j\<close> pieces with the key is cut there and leads to a branch.\<close>

lemma split_edge_both_st:
  assumes path: "path M (root t) (2 * n) ps p (length xs + r) pre C A"
    and p: "M p = Some (NEdge xs q)" "ptr_type p = RTT_EDGE" "p \<notin> B"
    and q: "tree_at M q r m B" "ptr_type q \<noteq> RTT_NONE" and disj: "A \<inter> insert p B = {}"
    and st: "tree_st n P t M" "P + 5 < 2 ^ 28" "key_size_ok n" and key: "key_at n key ki (length xs + r) pre"
    and junk: "length (junk 0) = n" "length (junk 1) = n"
    and e: "edge_read t (ptr_idx p) xs q e tx" "length xs \<le> 2 * n"
    and j: "0 < j" "j < length xs" "nibs tx 0 j = nibs key ki (ki + j)" and ne: "nib tx j \<noteq> nib key (ki + j)"
  shows "\<exists>t'. split_edge_both junk t p e tx j (nib tx j) (nib key (ki + j)) key (2 * n) (ki + j) v = Some t' \<and>
    prev t' = prev t \<and> tree_map n (P + 5) t' ((C (below xs m))(pieces key \<mapsto> v))"
proof -
  have xs: "e_length e = length xs" "e_next e = q" "xs = nibs tx 0 (length xs)" "length xs \<le> 2 * length tx"
    using e(1) by (simp_all add: edge_read_def)
  let ?r = "length xs - j - 1 + r" and ?a = "nib tx j" and ?c = "nib key (ki + j)"
  have r: "length key = n" "ki + j + 1 + ?r = 2 * n" "2 * n - (ki + j) - 1 = ?r" "length xs + r = j + Suc ?r"
    using key j(2) unfolding key_at_def by linarith+
  have lens: "j + 1 + (length xs - j - 1) \<le> 2 * length tx" "length xs - j - 1 \<le> 2 * n" "P + 3 < 2 ^ 28"
    using xs(4) e(2) st(2) j(2) by simp_all
  obtain l t1 o1 t2 o2 t3 M3 B1 B2 where tails: "radix_tree_create_leaf_node t v = Some (l, t1)"
      "create_edge_unless_empty (junk 0) t1 tx (j + 1) (length xs - j - 1) q = Some (o1, t2)"
      "create_edge_unless_empty (junk 1) t2 key (ki + j + 1) ?r l = Some (o2, t3)"
      "tree_st n (P + 3) t3 M3" "M \<subseteq>\<^sub>m M3" "same_path t3 t"
      "tree_at M3 o1 ?r (below (nibs tx (j + 1) (j + 1 + (length xs - j - 1))) m) B1" "ptr_type o1 \<noteq> RTT_NONE"
      "tree_at M3 o2 ?r [nibs key (ki + j + 1) (2 * n) \<mapsto> v] B2" "ptr_type o2 \<noteq> RTT_NONE"
      "B1 \<inter> B2 = {}" "B1 \<inter> dom M \<subseteq> B" "B2 \<inter> dom M = {}"
    by (rule two_tails [OF st(1) lens(3) junk lens(1,2) r(2,1) refl q])
  have p3: "M3 p = Some (NEdge xs q)"
    using tails(5) p(1) unfolding map_le_def by (metis domI)
  obtain t4 where t4: "cut_edge t3 p j = Some t4" "tree_st n (P + 3) t4 (M3(p \<mapsto> NEdge (take j xs) q))" "same_path t4 t3"
    by (rule cut_edge_st [OF tails(4) p3 p(2) j(1) less_imp_le [OF j(2)] st(3)])
  let ?M4 = "M3(p \<mapsto> NEdge (take j xs) q)"
  obtain b t5 where b: "radix_tree_create_branch_node t4 RTT_BRANCH_4 = Some (b, t5)" "ptr_type b = RTT_BRANCH_4"
      "?M4 b = None" "tree_st n (Suc (P + 3)) t5 (?M4(b \<mapsto> NBranch (\<lambda>_. none_ptr)))" "same_path t5 t4"
    by (rule create_branch4_st [OF t4(2)]) (use st(2) in auto)
  have pb: "p \<noteq> b" "M3 b = None" using b(3) by (auto split: if_splits)
  obtain t6 where t6: "set_edge_next t5 (ptr_idx p) b = Some t6"
      "tree_st n (Suc (P + 3)) t6 (?M4(b \<mapsto> NBranch (\<lambda>_. none_ptr), p \<mapsto> NEdge (take j xs) b))" "same_path t6 t5"
    using set_next_st [OF b(4) _ p(2), of "take j xs" q b] pb(1) by auto
  have small: "nib k i \<le> IMMEDIATE" "nib k i < 16" for k i
    using nib_less [of k i] by (simp_all add: IMMEDIATE_def)
  let ?M6 = "M3(p \<mapsto> NEdge (take j xs) b)"
  have "?M4(b \<mapsto> NBranch (\<lambda>_. none_ptr), p \<mapsto> NEdge (take j xs) b) = ?M6(b \<mapsto> NBranch (\<lambda>_. none_ptr))"
    using pb(1) by (auto simp: fun_eq_iff)
  note st6 = t6(2) [unfolded this]
  obtain t7 where t7: "set_branch4_slot t6 b 0 ?a o1 = Some t7"
      "tree_st n (Suc (P + 3)) t7 (?M6(b \<mapsto> NBranch ((\<lambda>_. none_ptr)(?a := o1))))" "same_path t7 t6"
    using fill_branch4_st [OF st6 _ b(2) tails(8) small(1), of "\<lambda>_. none_ptr" 0 tx j] by auto
  let ?f = "(\<lambda>_. none_ptr)(?a := o1, ?c := o2)"
  let ?M = "?M6(b \<mapsto> NBranch ?f)"
  obtain t8 where t8: "set_branch4_slot t7 b 1 ?c o2 = Some t8" "tree_st n (Suc (P + 3)) t8 ?M" "same_path t8 t7"
    using fill_branch4_st [OF t7(2) _ b(2) tails(10) small(1), of "(\<lambda>_. none_ptr)(?a := o1)" 1 key "ki + j"] ne tails(8) by auto
  have bB: "b \<notin> B1" "b \<notin> B2" using tree_at_dom [OF tails(7)] tree_at_dom [OF tails(9)] pb(2) by auto
  have pB: "p \<notin> B1" "p \<notin> B2" using tails(12,13) p(1,3) by auto
  let ?B = "insert b (B1 \<union> B2)"
  have fork: "tree_at ?M b (Suc ?r) (branch_map ((\<lambda>_. Map.empty)(?a := below (nibs tx (j + 1) (j + 1 + (length xs - j - 1))) m,
      ?c := [nibs key (ki + j + 1) (2 * n) \<mapsto> v]))) ?B"
    by (rule tree_fork [of ?M b ?a o1 ?c o2])
      (use b(2) small ne bB tails(11) tree_upd_other [OF tree_upd_other [OF tails(7) pB(1)] bB(1)]
        tree_upd_other [OF tree_upd_other [OF tails(9) pB(2)] bB(2)] in \<open>simp_all add: is_branch_def\<close>)
  have "tree_at ?M p (length (take j xs) + Suc ?r) (below (take j xs) (branch_map ((\<lambda>_. Map.empty)
      (?a := below (nibs tx (j + 1) (j + 1 + (length xs - j - 1))) m, ?c := [nibs key (ki + j + 1) (2 * n) \<mapsto> v])))) (insert p ?B)"
    by (rule tree_edge [OF _ p(2) _ _ fork]) (use pb(1) pB j b(2) in auto)
  moreover have "length (take j xs) + Suc ?r = length xs + r" using r(4) j(2) by simp
  moreover have "below (take j xs) (branch_map ((\<lambda>_. Map.empty)(?a := below (nibs tx (j + 1) (j + 1 + (length xs - j - 1))) m,
      ?c := [nibs key (ki + j + 1) (2 * n) \<mapsto> v]))) = (below xs m)(nibs key ki (2 * n) \<mapsto> v)"
  proof -
    have key_eq: "take j xs @ ?c # nibs key (ki + j + 1) (2 * n) = nibs key ki (2 * n)"
    proof -
      have "take j xs = nibs key ki (ki + j)"
        using j(2,3) take_nibs [of 0 j "length xs" tx] xs(3) by simp
      moreover have "?c # nibs key (ki + j + 1) (2 * n) = nibs key (ki + j) (2 * n)"
        using r(2) by (simp add: nibs_Cons [of "ki + j"])
      ultimately show ?thesis using r(2) by (simp add: nibs_append)
    qed
    have xs_eq: "take j xs @ ?a # nibs tx (j + 1) (j + 1 + (length xs - j - 1)) = xs"
    proof -
      have "take j xs = nibs tx 0 j"
        using j(2) take_nibs [of 0 j "length xs" tx] xs(3) by simp
      moreover have "?a # nibs tx (j + 1) (j + 1 + (length xs - j - 1)) = nibs tx j (length xs)"
      proof -
        have "j + 1 + (length xs - j - 1) = length xs" using j(2) by linarith
        then show ?thesis using j(2) by (simp only: nibs_Cons [of j] Suc_eq_plus1)
      qed
      ultimately show ?thesis using j(2) xs(3) by (simp add: nibs_append)
    qed
    have "below (take j xs) ((below (?a # nibs tx (j + 1) (j + 1 + (length xs - j - 1))) m)
        (?c # nibs key (ki + j + 1) (2 * n) \<mapsto> v)) = (below xs m)(nibs key ki (2 * n) \<mapsto> v)"
      by (simp only: below_upd key_eq) (simp only: xs_eq flip: below_append)
    then show ?thesis unfolding fork_map [OF ne] .
  qed
  ultimately have tree: "tree_at ?M p (length xs + r) ((below xs m)(nibs key ki (2 * n) \<mapsto> v)) (insert p ?B)"
    by (simp only:)
  have sp: "same_path t8 t"
    using t8(3) t7(3) t6(3) b(5) t4(3) tails(6) by (simp add: same_path_def)
  have bA: "b \<notin> A" "p \<notin> A" using path_dom [OF path_le [OF path tails(5)]] pb(2) disj by auto
  have path8: "path ?M (root t8) (2 * n) ps p (length xs + r) pre C A"
    using path_upd_other [OF path_upd_other [OF path_le [OF path tails(5)] bA(2)] bA(1)] sp
    by (simp add: same_path_def)
  have disj': "A \<inter> insert p ?B = {}"
    using bA path_dom [OF path] tails(12,13) disj by blast
  have "tree_at ?M (root t8) (2 * n) (C ((below xs m)(nibs key ki (2 * n) \<mapsto> v))) (A \<union> insert p ?B)"
    by (rule path_plug [OF path8 tree disj']) (use p(2) in simp)
  then have "tree_map n (P + 5) t8 ((C (below xs m))(pieces key \<mapsto> v))"
    using tree_st_mono [OF t8(2), of "P + 5"] path_insert [OF path key] unfolding tree_map_def by auto
  moreover have "split_edge_both junk t p e tx j ?a ?c key (2 * n) (ki + j) v = Some t8"
    using tails(1-3) t4(1) b(1) t6(1) t7(1) t8(1) xs(1,2) r(3) by (simp add: split_edge_both_def Let_def)
  ultimately show ?thesis using sp by (simp add: same_path_def)
qed

end
