(* ===== verification/Radix_Map.thy ===== *)
theory Radix_Map
  imports Radix_Insert
begin

text \<open>
  The radix tree over keys of one length refines the finite maps: an insertion is a map update and a
  lookup is application of the map.
\<close>

section \<open>The record of the way down\<close>

definition path_ok :: "'v radix_tree \<Rightarrow> bool" where
  "path_ok t \<longleftrightarrow> 0 < vec_cap (prev t) \<and> unat (vec_cap (prev t)) \<le> 2 ^ 30"

lemma vec_rep_clear: "vec_rep v xs \<Longrightarrow> vec_rep (v\<lparr>vec_len := 0\<rparr>) []"
  by (simp add: vec_rep_def)

lemma push_prev_st:
  assumes "vec_rep (prev t) ps" "path_ok t" "length ps \<le> 2 ^ 29" "tree_st n P t M"
  obtains t' where "radix_tree_push_prev t p c = Some t'" "root t' = root t"
    "vec_rep (prev t') ((if ptr_type p = RTT_EDGE then [] else ps) @ [step_of p c])" "path_ok t'"
    "tree_st n P t' M"
proof -
  let ?v = "if ptr_type p = RTT_EDGE then (prev t)\<lparr>vec_len := 0\<rparr> else prev t"
  let ?ps = "if ptr_type p = RTT_EDGE then [] else ps"
  have "vec_rep ?v ?ps" using assms(1) vec_rep_clear by auto
  moreover have "0 < vec_cap ?v" "unat (vec_cap ?v) * 2 < 2 ^ 32" "vec_cap ?v = vec_cap (prev t)"
    using assms(2) by (simp_all add: path_ok_def)
  ultimately obtain pv where pv: "vec_push ?v (step_of p c) = Some pv" "vec_rep pv (?ps @ [step_of p c])"
      "vec_cap (prev t) \<le> vec_cap pv" "unat (vec_cap pv) \<le> max (unat (vec_cap (prev t))) (2 * length ?ps)"
    using vec_push_rep [of ?v ?ps "step_of p c"] by metis
  have "2 * length ?ps \<le> 2 ^ 30" using assms(3) by simp
  then have cap: "0 < vec_cap pv" "unat (vec_cap pv) \<le> 2 ^ 30"
    using pv(3,4) assms(2) by (auto simp: path_ok_def word_less_nat_alt word_le_nat_alt max_def split: if_splits)
  show thesis
    by (rule that [of "t\<lparr>prev := pv\<rparr>"]) (use pv(1,2) cap assms(4) in \<open>simp_all add: radix_tree_push_prev_def path_ok_def\<close>)
qed

section \<open>Insertion\<close>

lemma tree_at_height:
  assumes "tree_at M p r m B"
  shows "ptr_type p = RTT_EDGE \<Longrightarrow> 0 < r" "is_branch (ptr_type p) \<Longrightarrow> 0 < r" "ptr_type p = RTT_LEAF \<Longrightarrow> r = 0"
  using assms by (auto elim: tree_at.cases simp: is_branch_def)

lemma tree_map_mono: "tree_map n P t m \<Longrightarrow> P \<le> Q \<Longrightarrow> tree_map n Q t m"
  unfolding tree_map_def using tree_st_mono by blast

text \<open>What an insertion that returns \<open>t'\<close> has done to a tree with the map \<open>m\<close>.\<close>

definition inserted :: "nat \<Rightarrow> nat \<Rightarrow> 'v piece_map \<Rightarrow> u8 list \<Rightarrow> 'v \<Rightarrow> 'v radix_tree option \<Rightarrow> bool" where
  "inserted n P m key v r \<longleftrightarrow> (\<exists>t' ps. r = Some t' \<and> tree_map n P t' (m(pieces key \<mapsto> v)) \<and>
     vec_rep (prev t') ps \<and> path_ok t')"

lemma insert_loop_st:
  assumes "path M (root t) (2 * n) ps p r pre C A" "tree_at M p r m B" "A \<inter> B = {}"
    and "tree_st n P t M" "P + 5 < 2 ^ 28" "key_size_ok n" "n < 2 ^ 15"
    and "key_at n key ki r pre" "length (junk 0) = n" "length (junk 1) = n"
    and "vec_rep (prev t) ps" "path_ok t"
  shows "inserted n (P + 5) (C m) key v (insert_loop junk key (2 * n) v t p ki)"
  using assms
proof (induction r arbitrary: t ps p pre C A m B ki rule: less_induct)
  case (less r)
  note path = less.prems(1) and tree = less.prems(2) and disj = less.prems(3) and st = less.prems(4)
    and room = less.prems(5-7) and key = less.prems(8) and junk = less.prems(9,10) and ps = less.prems(11,12)
  have len: "length ps \<le> 2 ^ 29"
    using path_lengths [OF path] room(3) by simp
  have unpack: "radix_tree_key_unpack key i = Some (nib key i)" if "i < 2 * n" for i
    using that key by (intro unpack_nib) (simp add: key_at_def less_mult_imp_div_less)
  have stop: ?case
    if "insert_pass junk key (2 * n) v t p ki = Some (Inl t')" "prev t' = prev t"
      "tree_map n Q t' ((C m)(pieces key \<mapsto> v))" "Q \<le> P + 5" for t' Q
  proof -
    have "insert_loop junk key (2 * n) v t p ki = Some t'"
      using that(1) by (subst insert_loop.simps) simp
    then show ?thesis
      using that(2) tree_map_mono [OF that(3,4)] ps by (auto simp: inserted_def path_ok_def)
  qed
  have go_on: ?case
    if step: "insert_pass junk key (2 * n) v t p ki = Some (Inr (t', q, ki'))"
      and path': "path M (root t') (2 * n) ps' q r' pre' C' A'" "tree_at M q r' m' B'" "A' \<inter> B' = {}" "r' < r"
        "C' m' = C m"
      and st': "tree_st n P t' M" "key_at n key ki' r' pre'" "vec_rep (prev t') ps'" "path_ok t'"
    for t' q ki' ps' r' pre' C' A' m' B'
  proof -
    have "insert_loop junk key (2 * n) v t p ki = insert_loop junk key (2 * n) v t' q ki'"
      using step by (subst insert_loop.simps) simp
    then show ?thesis
      using less.IH [OF path'(4,1-3) st'(1) room st'(2) junk st'(3,4)] path'(5) by simp
  qed
  show ?case
    using tree
  proof cases
    case tree_none
    obtain t' where "insert_at_none junk key (2 * n) v t ki = Some (Inl t')" "prev t' = prev t"
        "tree_map n (P + 3) t' ((C m)(pieces key \<mapsto> v))"
      using insert_at_none_st [OF path tree tree_none(3) st _ key _ ps(1)] room(1) junk by auto
    then show ?thesis
      using tree_none(3) by (intro stop [of t' "P + 3"]) (simp_all add: insert_pass_def)
  next
    case (tree_leaf w)
    obtain t' where "insert_at_leaf v t p = Some (Inl t')" "prev t' = prev t"
        "tree_map n P t' ((C m)(pieces key \<mapsto> v))"
      using insert_at_leaf_st [OF path tree tree_leaf(5) st key disj] by blast
    then show ?thesis
      using tree_leaf(5) by (intro stop [of t' P]) (simp_all add: insert_pass_def)
  next
    case (tree_edge xs q r' m' B')
    obtain e tx where e: "edge_read t (ptr_idx p) xs q e tx" "length xs \<le> 2 * n"
      by (rule edge_read_st [OF st tree_edge(4,5)])
    have xs: "freelist_get (edges t) (ptr_idx p) = Some e" "fetch_edge_str t e = Some tx" "e_length e = length xs"
        "e_next e = q" "xs = nibs tx 0 (length xs)" "0 < length xs" "length xs \<le> 2 * length tx"
      using e(1) by (simp_all add: edge_read_def)
    have ki: "ki + length xs + r' = 2 * n" "ki < 2 * n" "length key = n"
      using key xs(6) unfolding key_at_def tree_edge(1) by linarith+
    have old: "radix_tree_key_unpack tx 0 = Some (nib tx 0)"
      using xs(6,7) by (intro unpack_nib) auto
    have path': "path M (root t) (2 * n) ps p (length xs + r') pre C A"
      and key': "key_at n key ki (length xs + r') pre" and disj': "A \<inter> insert p B' = {}"
      using path key disj tree_edge(1,3) by simp_all
    show ?thesis
    proof (cases "nib tx 0 = nib key ki")
      case False
      then obtain t' where "split_edge_first junk t p e tx (nib tx 0) (nib key ki) key (2 * n) (ki + 1) v = Some t'"
          "prev t' = prev t" "tree_map n (P + 5) t' ((C m)(pieces key \<mapsto> v))"
        using split_edge_first_st [OF path' tree_edge(4-6,9,8,7) disj' st room(1) key' junk ps(1) e]
        unfolding tree_edge(2) by blast
      then show ?thesis
        using tree_edge(5) xs(1,2) old unpack [OF ki(2)] False
        by (intro stop [of t' "P + 5"]) (simp_all add: insert_pass_def insert_at_edge_def)
    next
      case True
      obtain d ov nv where d: "consume_matching (length xs) (2 * n) tx key 1 (ki + 1) (nib tx 0) (nib key ki) =
            Some (1 + d, ki + 1 + d, ov, nv)" "1 + d \<le> length xs"
          "nibs tx 1 (1 + d) = nibs key (ki + 1) (ki + 1 + d)"
          "1 + d < length xs \<longrightarrow> ov = nib tx (1 + d) \<and> nv = nib key (ki + 1 + d) \<and> ov \<noteq> nv"
        using consume_matching_st [of 1 "length xs" tx "ki + 1" "2 * n" key "nib tx 0" "nib key ki"] xs(6,7) ki by auto
      define j where "j = 1 + d"
      have j: "0 < j" "j \<le> length xs" "ki + 1 + d = ki + j" using d(2) by (simp_all add: j_def)
      have same: "nibs tx 0 j = nibs key ki (ki + j)"
        using d(3) True by (simp add: j_def nibs_Cons)
      note consumed = d(1) [folded j_def, unfolded j(3)]
      show ?thesis
      proof (cases "j < length xs")
        case lt: True
        then have ne: "nib tx j \<noteq> nib key (ki + j)" "ov = nib tx j" "nv = nib key (ki + j)"
          using d(4) by (auto simp: j_def)
        obtain t' where "split_edge_both junk t p e tx j (nib tx j) (nib key (ki + j)) key (2 * n) (ki + j) v = Some t'"
            "prev t' = prev t" "tree_map n (P + 5) t' ((C m)(pieces key \<mapsto> v))"
          using split_edge_both_st [OF path' tree_edge(4,5,9,8,7) disj' st room(1,2) key' junk e j(1) lt same ne(1)]
          unfolding tree_edge(2) by blast
        moreover have "ki + j < 2 * n" using lt ki(1) by simp
        ultimately show ?thesis
          using tree_edge(5) xs(1-3) old unpack [OF ki(2)] True consumed lt ne(2,3)
          by (intro stop [of t' "P + 5"]) (simp_all add: insert_pass_def insert_at_edge_def Let_def)
      next
        case False
        then have full: "j = length xs" using j(2) by simp
        obtain t' where t': "radix_tree_push_prev t p IMMEDIATE = Some t'" "root t' = root t"
            "vec_rep (prev t') [step_of p IMMEDIATE]" "path_ok t'" "tree_st n P t' M"
          by (rule push_prev_st [OF ps len st, of p IMMEDIATE]) (use tree_edge(5) in auto)
        have "\<not> (ki + j < 2 * n \<and> ptr_type q = RTT_LEAF)"
          using tree_at_height(3) [OF tree_edge(8)] ki(1) full by auto
        then have "insert_pass junk key (2 * n) v t p ki = Some (Inr (t', q, ki + length xs))"
          using tree_edge(5) xs(1-4) old unpack [OF ki(2)] True consumed full t'(1)
          by (auto simp: insert_pass_def insert_at_edge_def Let_def)
        then show ?thesis
        proof (rule go_on)
          show "path M (root t') (2 * n) [step_of p IMMEDIATE] q r' (pre @ xs) (\<lambda>m. C (below xs m)) (insert p A)"
            unfolding t'(2) using disj' by (intro path_edge [OF path' tree_edge(4-6)]) auto
          have "xs = nibs key ki (ki + length xs)"
            using same xs(5) full by simp
          then show "key_at n key (ki + length xs) r' (pre @ xs)"
            using key_at_step [OF key'] by simp
        qed (use tree_edge xs(6) disj' t' in auto)
      qed
    qed
  next
    case (tree_branch f r' ms As)
    have ki: "ki + 1 + r' = 2 * n" "ki < 2 * n" "ki \<noteq> 2 * n" "length key = n"
      using key unfolding key_at_def tree_branch(1) by linarith+
    let ?c = "nib key ki"
    have c: "?c < 16" "?c \<le> IMMEDIATE" using nib_less [of key ki] by (simp_all add: IMMEDIATE_def)
    have get: "radix_tree_get_branch t p ?c = Some (f ?c)"
      by (rule get_branch_st [OF st tree_branch(4,5) c(2)])
    obtain t' where t': "radix_tree_push_prev t p ?c = Some t'" "root t' = root t"
        "vec_rep (prev t') (ps @ [step_of p ?c])" "path_ok t'" "tree_st n P t' M"
      by (rule push_prev_st [OF ps len st, of p ?c]) (use tree_branch(5) in \<open>auto simp: is_branch_def\<close>)
    have "(ki + 1 < 2 * n) = (0 < r')" using ki(1) by auto
    then have "insert_pass junk key (2 * n) v t p ki = Some (Inr (t', f ?c, ki + 1))"
      using tree_branch(5) ki(3) unpack [OF ki(2)] get t'(1) tree_at_height [OF tree_branch(6) [of ?c]]
      by (auto simp: insert_pass_def insert_at_branch_def Let_def is_branch_def)
    moreover have path': "path M (root t) (2 * n) ps p (Suc r') pre C A"
      and disj': "A \<inter> insert p (\<Union>d. As d) = {}"
      using path disj tree_branch(1,3) by simp_all
    obtain C' A' where "path M (root t) (2 * n) (ps @ [step_of p ?c]) (f ?c) r' (pre @ [?c]) C' A'" "A' \<inter> As ?c = {}"
        "C' (ms ?c) = C (branch_map ms)"
      by (rule path_into_branch [OF path' tree_branch(4-6,7-9) disj' c(1)])
    moreover have "key_at n key (ki + 1) r' (pre @ [?c])"
      using key_at_step [of n key ki 1 r' pre] key tree_branch(1) by (simp add: nibs_Cons)
    ultimately show ?thesis
      using t' tree_branch(1,2,6) by (intro go_on [of t' "f ?c" "ki + 1" _ r' _ C' A' "ms ?c" "As ?c"]) simp_all
  qed
qed

section \<open>Lookup\<close>

text \<open>The comparison of an edge with the key, whole bytes first, decides whether the pieces agree.\<close>

lemma edge_matches_st:
  assumes e: "edge_read t i xs q e tx" and key: "length key = n" "ki + length xs \<le> 2 * n" "length junk = n"
  shows "edge_matches junk e tx key (2 * n) ki = Some (xs = nibs key ki (ki + length xs))"
proof -
  have xs: "e_length e = length xs" "xs = nibs tx 0 (length xs)" "length xs \<le> 2 * length tx"
    using e by (simp_all add: edge_read_def)
  define b where "b = length xs div 2"
  have b: "length xs div 2 * 2 = 2 * b" "b \<le> length tx" "b \<le> n" "2 * b \<le> length xs" "length xs \<le> 2 * b + 1"
    using xs(3) key(2) by (simp_all add: b_def)
  obtain d where d: "radix_tree_copy_key (take b junk) key ki (2 * b) = Some d" "length d = b"
      "nibs d 0 (2 * b) = nibs key ki (ki + 2 * b)"
    using copy_key_nibs [of ki "2 * b" key "take b junk"] key b by auto
  have bytes: "take b tx = take b d \<longleftrightarrow> nibs tx 0 (2 * b) = nibs key ki (ki + 2 * b)"
    using bytes_eq_nibs [of b tx d] b(2) d by simp
  have same: "memcmp_eq tx d b = Some (nibs tx 0 (2 * b) = nibs key ki (ki + 2 * b))"
    using d(2) b(2) bytes by (simp add: memcmp_eq_def)
  have split: "nibs tx 0 (length xs) = nibs key ki (ki + length xs) \<longleftrightarrow>
      nibs tx 0 (2 * b) = nibs key ki (ki + 2 * b) \<and> (2 * b < length xs \<longrightarrow> nib tx (2 * b) = nib key (ki + 2 * b))"
  proof (cases "2 * b < length xs")
    case True
    then have "length xs = Suc (2 * b)" using b(5) by simp
    then show ?thesis by (simp add: nibs_def)
  next
    case False
    then show ?thesis using b(4) by simp
  qed
  have last: "radix_tree_key_unpack tx (2 * b) = Some (nib tx (2 * b))"
      "radix_tree_key_unpack key (ki + 2 * b) = Some (nib key (ki + 2 * b))" if "2 * b < length xs"
    using that xs(3) key(1,2) by (auto intro!: unpack_nib simp: less_mult_imp_div_less)
  have enough: "\<not> 2 * n - ki < length xs" using key(2) by simp
  show ?thesis
    unfolding edge_matches_def xs(1) b(1)
    using d(1) same split enough last xs(2)
    by (cases "2 * b < length xs"; cases "b = 0") (auto simp: Let_def)
qed

lemma get_loop_st:
  assumes "tree_at M p r m B" "tree_st n P t M" "key_at n key ki r pre" "length junk = n"
  shows "get_loop junk key (2 * n) t p ki = Some (m (nibs key ki (2 * n)))"
  using assms
proof (induction arbitrary: ki pre)
  case (tree_none p r)
  then show ?case by (subst get_loop.simps) simp
next
  case (tree_leaf p v)
  then have "freelist_get (leaves t) (ptr_idx p) = Some v"
    by (auto simp: tree_st_defs part_SomeI intro: fl_rep_get)
  moreover have "nibs key ki (2 * n) = []" using tree_leaf.prems(2) by (simp add: key_at_def)
  ultimately show ?case using tree_leaf.hyps(2) by (subst get_loop.simps) simp
next
  case (tree_edge p xs q r m A)
  obtain e tx where e: "edge_read t (ptr_idx p) xs q e tx" "length xs \<le> 2 * n"
    by (rule edge_read_st [OF tree_edge.prems(1) tree_edge.hyps(1,2)])
  have xs: "freelist_get (edges t) (ptr_idx p) = Some e" "fetch_edge_str t e = Some tx" "e_length e = length xs"
      "e_next e = q"
    using e(1) by (simp_all add: edge_read_def)
  have ki: "length key = n" "ki + length xs + r = 2 * n" "ki + length xs \<le> 2 * n"
    using tree_edge.prems(2) by (simp_all add: key_at_def)
  note match = edge_matches_st [OF e(1) ki(1,3) tree_edge.prems(3)]
  have loop: "get_loop junk key (2 * n) t p ki =
      (if xs = nibs key ki (ki + length xs) then get_loop junk key (2 * n) t q (ki + length xs) else Some None)"
    using tree_edge.hyps(2) xs match by (subst get_loop.simps) simp
  have "take (length xs) (nibs key ki (2 * n)) = nibs key ki (ki + length xs)"
      "drop (length xs) (nibs key ki (2 * n)) = nibs key (ki + length xs) (2 * n)"
    using ki(3) by (simp_all add: take_nibs drop_nibs)
  moreover have "get_loop junk key (2 * n) t q (ki + length xs) = Some (m (nibs key (ki + length xs) (2 * n)))"
    by (rule tree_edge.IH [OF tree_edge.prems(1) key_at_step [OF tree_edge.prems(2)] tree_edge.prems(3)])
  ultimately show ?case using loop by (auto simp: below_def)
next
  case (tree_branch p f r ms As)
  have ki: "ki < 2 * n" "length key = n"
    using tree_branch.prems(2) by (simp_all add: key_at_def)
  let ?c = "nib key ki"
  have c: "?c \<le> IMMEDIATE" using nib_less [of key ki] by (simp add: IMMEDIATE_def)
  have "radix_tree_key_unpack key ki = Some ?c"
    using ki by (intro unpack_nib) (simp add: less_mult_imp_div_less)
  then have "next_piece (ptr_type p) key (2 * n) ki = Some (?c, ki + 1)"
    using ki(1) by (simp add: next_piece_def)
  then have "get_loop junk key (2 * n) t p ki = get_loop junk key (2 * n) t (f ?c) (ki + 1)"
    using tree_branch.hyps(2) get_branch_st [OF tree_branch.prems(1) tree_branch.hyps(1,2) c]
    by (subst get_loop.simps) (auto simp: is_branch_def)
  also have "\<dots> = Some (ms ?c (nibs key (ki + 1) (2 * n)))"
    using tree_branch.IH [OF tree_branch.prems(1) _ tree_branch.prems(3)] key_at_step [of n key ki 1 r pre]
      tree_branch.prems(2) by simp
  finally show ?case using ki(1) by (simp add: branch_map_def nibs_Cons)
qed

section \<open>The refinement\<close>

text \<open>
  \<open>radix_rep n P t m\<close>: the tree \<open>t\<close> for keys of \<open>n\<close> bytes holds the map \<open>m\<close>, and no pool has more than \<open>P\<close>
  nodes in use.
\<close>

definition radix_rep :: "nat \<Rightarrow> nat \<Rightarrow> 'v radix_tree \<Rightarrow> (u8 list \<rightharpoonup> 'v) \<Rightarrow> bool" where
  "radix_rep n P t m \<longleftrightarrow> (\<exists>pm. tree_map n P t pm \<and> m = (\<lambda>k. if length k = n then pm (pieces k) else None)) \<and>
     (\<exists>ps. vec_rep (prev t) ps) \<and> path_ok t"

text \<open>The key sizes the theorems are about, and the local buffers of that size.\<close>

definition key_size :: "nat \<Rightarrow> bool" where
  "key_size n \<longleftrightarrow> 0 < n \<and> n < 2 ^ 15 \<and> key_size_ok n"

definition buffers :: "nat \<Rightarrow> (nat \<Rightarrow> u8 list) \<Rightarrow> bool" where
  "buffers n junk \<longleftrightarrow> (\<forall>i. length (junk i) = n)"

lemma radix_insert_rep:
  assumes rep: "radix_rep n P t m" and room: "P + 5 < 2 ^ 28" and key: "length key = n"
    and n: "key_size n" and junk: "buffers n junk"
  shows "\<exists>t'. radix_tree_insert junk t key (2 * n) v = Some t' \<and> radix_rep n (P + 5) t' (m(key \<mapsto> v))"
proof -
  obtain pm M B ps where r: "m = (\<lambda>k. if length k = n then pm (pieces k) else None)" "tree_st n P t M"
      "tree_at M (root t) (2 * n) pm B" "vec_rep (prev t) ps" "path_ok t"
    using rep by (auto simp: radix_rep_def tree_map_def)
  let ?t = "t\<lparr>prev := (prev t)\<lparr>vec_len := 0\<rparr>\<rparr>"
  have clear: "vec_rep (prev ?t) []" "path_ok ?t" "tree_st n P ?t M"
    using vec_rep_clear [OF r(4)] r(2,5) by (simp_all add: path_ok_def)
  obtain t1 where t1: "radix_tree_push_prev ?t none_ptr IMMEDIATE = Some t1" "root t1 = root t"
      "vec_rep (prev t1) [step_of none_ptr IMMEDIATE]" "path_ok t1" "tree_st n P t1 M"
    by (rule push_prev_st [OF clear(1,2) _ clear(3), of none_ptr IMMEDIATE]) auto
  have path: "path M (root t1) (2 * n) [step_of none_ptr IMMEDIATE] (root t) (2 * n) [] (\<lambda>m. m) {}"
    using path_root [of M "root t" "2 * n"] t1(2) by simp
  have at: "key_at n key 0 (2 * n) []" using key by (simp add: key_at_def)
  have "inserted n (P + 5) pm key v (insert_loop junk key (2 * n) v t1 (root t) 0)"
    by (rule insert_loop_st [OF path r(3) _ t1(5) room _ _ at _ _ t1(3,4)])
      (use n junk in \<open>auto simp: key_size_def buffers_def\<close>)
  then obtain t' ps' where t': "insert_loop junk key (2 * n) v t1 (root t) 0 = Some t'"
      "tree_map n (P + 5) t' (pm(pieces key \<mapsto> v))" "vec_rep (prev t') ps'" "path_ok t'"
    by (auto simp: inserted_def)
  have "m(key \<mapsto> v) = (\<lambda>k. if length k = n then (pm(pieces key \<mapsto> v)) (pieces k) else None)"
    using key by (auto simp: r(1) fun_eq_iff pieces_inject)
  then have "radix_rep n (P + 5) t' (m(key \<mapsto> v))"
    using t'(2-4) unfolding radix_rep_def by blast
  then show ?thesis
    using t1(1) t'(1) by (simp add: radix_tree_insert_def Let_def)
qed

lemma radix_get_rep:
  assumes "radix_rep n P t m" "length key = n" "length junk = n"
  shows "radix_tree_get junk t key (2 * n) = Some (m key)"
proof -
  obtain pm M B where r: "m = (\<lambda>k. if length k = n then pm (pieces k) else None)" "tree_st n P t M"
      "tree_at M (root t) (2 * n) pm B"
    using assms(1) by (auto simp: radix_rep_def tree_map_def)
  have "key_at n key 0 (2 * n) []" using assms(2) by (simp add: key_at_def)
  from get_loop_st [OF r(3,2) this assms(3)] show ?thesis
    using assms(2) by (simp add: radix_tree_get_def r(1) pieces_def)
qed

lemma radix_rep_mono: "radix_rep n P t m \<Longrightarrow> P \<le> Q \<Longrightarrow> radix_rep n Q t m"
  unfolding radix_rep_def using tree_map_mono by blast

lemma fl_lim_init: "0 < c \<Longrightarrow> unat c \<le> 2 * P \<Longrightarrow> fl_lim P (freelist_init c)"
  by (simp add: fl_lim_def freelist_init_def)

lemma view_rep_init: "view_rep ok view (freelist_init c) Map.empty"
  unfolding view_rep_def by (intro exI [of _ Map.empty]) (simp add: fl_rep_init)

lemma edges_rep_init: "edges_rep n (freelist_init c) (freelist_init d) Map.empty"
  unfolding edges_rep_def by (intro exI [of _ Map.empty]) (simp add: fl_rep_init edges_ok_def)

lemma radix_create_rep:
  assumes cap: "0 < cap" "unat cap \<le> P" "P < 2 ^ 28" and n: "key_size n"
  shows "radix_rep n P (radix_tree_create (word_of_nat n) cap :: 'v radix_tree) Map.empty"
proof -
  let ?t = "radix_tree_create (word_of_nat n) cap :: 'v radix_tree"
  have n': "unat (word_of_nat n :: u32) = n" using n by (simp add: key_size_def unat_of_nat)
  have big: "unat (cap + 32) = unat cap + 32" "unat (cap + 128) = unat cap + 128"
    using cap(2,3) by (simp_all add: unat_word_ariths)
  have div: "0 < (cap + 32) div 32" "0 < (cap + 128) div 128"
      "unat ((cap + 32) div 32) \<le> 2 * P" "unat ((cap + 128) div 128) \<le> 2 * P"
    using cap(1,2) by (simp_all add: word_less_nat_alt unat_div big)
  have lim: "tree_lim P ?t"
    unfolding tree_lim_def radix_tree_create_def using cap div
    by (auto intro!: fl_lim_init simp: word_less_nat_alt)
  have empty: "edge_part Map.empty = Map.empty" "leaf_part Map.empty = Map.empty" "branch_part ty Map.empty = Map.empty" for ty
    by (auto simp: edge_part_def leaf_part_def branch_part_def fun_eq_iff)
  have "rt_rep n ?t Map.empty"
    by (simp add: view_rep_init edges_rep_init rt_rep_def radix_tree_create_def well_kinded_def empty fl_rep_init)
  moreover have "tree_at Map.empty (root ?t) (2 * n) Map.empty {}"
    by (rule tree_none) (simp add: radix_tree_create_def)
  ultimately have "tree_map n P ?t Map.empty"
    using lim unfolding tree_map_def tree_st_def by blast
  moreover have "vec_rep (prev ?t) []"
    by (simp add: radix_tree_create_def)
  moreover have "path_ok ?t"
    using n n' by (simp add: radix_tree_create_def path_ok_def vec_init_def key_size_def word_less_nat_alt)
  ultimately show ?thesis
    unfolding radix_rep_def by (auto simp: fun_eq_iff)
qed

section \<open>The contract\<close>

text \<open>
  What a client relies on: a store of values under keys, where each insertion may use up \<open>cost\<close> of the
  room that is left. The operations take the buffers they use as an argument.
\<close>

locale key_store =
  fixes rep :: "nat \<Rightarrow> 't \<Rightarrow> ('k \<rightharpoonup> 'v) \<Rightarrow> bool"
    and room :: "nat \<Rightarrow> bool" and cost :: nat
    and insert_op :: "'t \<Rightarrow> 'k \<Rightarrow> 'v \<Rightarrow> 't option"
    and get_op :: "'t \<Rightarrow> 'k \<Rightarrow> 'v option option"
    and valid :: "'k \<Rightarrow> bool"
  assumes room: "room Q \<Longrightarrow> P \<le> Q \<Longrightarrow> room P"
    and insert_op: "rep P t m \<Longrightarrow> room (P + cost) \<Longrightarrow> valid k \<Longrightarrow>
      \<exists>t'. insert_op t k v = Some t' \<and> rep (P + cost) t' (m(k \<mapsto> v))"
    and get_op: "rep P t m \<Longrightarrow> valid k \<Longrightarrow> get_op t k = Some (m k)"
begin

lemma get_after_insert:
  assumes "rep P t m" "room (P + cost)" "valid k" "valid l"
  shows "\<exists>t'. insert_op t k v = Some t' \<and> get_op t' l = (if l = k then Some (Some v) else get_op t l)"
  using insert_op [OF assms(1-3), of v] get_op [OF _ assms(4)] assms(1) by fastforce

text \<open>A sequence of insertions: the last value of each key wins.\<close>

lemma insert_all:
  assumes "rep P t m" "room (P + cost * length kvs)" "\<forall>(k, v) \<in> set kvs. valid k"
  shows "\<exists>t'. fold (\<lambda>(k, v) r. Option.bind r (\<lambda>t. insert_op t k v)) kvs (Some t) = Some t' \<and>
    rep (P + cost * length kvs) t' (m ++ map_of (rev kvs))"
  using assms
proof (induction kvs arbitrary: P t m)
  case (Cons kv kvs)
  obtain k v where kv: "kv = (k, v)" by (cases kv)
  have "room (P + cost)" by (rule room [OF Cons.prems(2)]) simp
  moreover have "valid k" using Cons.prems(3) kv by auto
  ultimately obtain t1 where t1: "insert_op t k v = Some t1" "rep (P + cost) t1 (m(k \<mapsto> v))"
    using insert_op [OF Cons.prems(1), of k v] by blast
  have "room (P + cost + cost * length kvs)" by (rule room [OF Cons.prems(2)]) simp
  moreover have "\<forall>(k, v) \<in> set kvs. valid k" using Cons.prems(3) by auto
  ultimately obtain t' where
    t': "fold (\<lambda>(k, v) r. Option.bind r (\<lambda>t. insert_op t k v)) kvs (Some t1) = Some t'"
    "rep (P + cost + cost * length kvs) t' (m(k \<mapsto> v) ++ map_of (rev kvs))"
    using Cons.IH [OF t1(2)] by blast
  have eq: "m(k \<mapsto> v) ++ map_of (rev kvs) = m ++ map_of (rev (kv # kvs))"
    by (simp add: kv map_add_upd_left)
  have "P + cost + cost * length kvs = P + cost * length (kv # kvs)" by simp
  then have "rep (P + cost * length (kv # kvs)) t' (m ++ map_of (rev (kv # kvs)))"
    using t'(2) unfolding eq by (simp only:)
  moreover have "fold (\<lambda>(k, v) r. Option.bind r (\<lambda>t. insert_op t k v)) (kv # kvs) (Some t) = Some t'"
    using t'(1) t1(1) kv by simp
  ultimately show ?case by blast
qed simp

lemma get_after_inserts:
  assumes "rep P t m" "room (P + cost * length kvs)" "\<forall>(k, v) \<in> set kvs. valid k" "valid l"
  shows "\<exists>t'. fold (\<lambda>(k, v) r. Option.bind r (\<lambda>t. insert_op t k v)) kvs (Some t) = Some t' \<and>
    get_op t' l = Some ((m ++ map_of (rev kvs)) l)"
  using insert_all [OF assms(1-3)] get_op [OF _ assms(4)] by blast

end

text \<open>The tree with its buffers \<open>junk\<close>, for keys of \<open>n\<close> bytes.\<close>

definition radix_store_rep :: "nat \<Rightarrow> (nat \<Rightarrow> u8 list) \<Rightarrow> nat \<Rightarrow> 'v radix_tree \<Rightarrow> (u8 list \<rightharpoonup> 'v) \<Rightarrow> bool" where
  "radix_store_rep n junk P t m \<longleftrightarrow> radix_rep n P t m \<and> key_size n \<and> buffers n junk"

interpretation rt: key_store "radix_store_rep n junk" "\<lambda>P. P < 2 ^ 28" 5
    "\<lambda>t k. radix_tree_insert junk t k (2 * n)" "\<lambda>t k. radix_tree_get (junk 0) t k (2 * n)" "\<lambda>k. length k = n"
  for n junk
proof
  fix P t m and k :: "u8 list" and v
  assume rep: "radix_store_rep n junk P t m" and k: "length k = n"
  then show "radix_tree_get (junk 0) t k (2 * n) = Some (m k)"
    by (intro radix_get_rep) (auto simp: radix_store_rep_def buffers_def)
  assume "P + 5 < 2 ^ 28"
  then show "\<exists>t'. radix_tree_insert junk t k (2 * n) v = Some t' \<and> radix_store_rep n junk (P + 5) t' (m(k \<mapsto> v))"
    using radix_insert_rep [of n P t m k junk v] rep k by (auto simp: radix_store_rep_def)
qed auto

section \<open>Properties\<close>

text \<open>
  C1: the radix tree refines the finite maps. From a tree for keys of \<open>n\<close> bytes that holds the map \<open>m\<close>, a
  sequence of insertions succeeds, with every access inside its array and every loop ended; the tree
  then holds \<open>m\<close> updated in that order (the value of a key that is already there is replaced), and a lookup of any key of \<open>n\<close> bytes gives what the updated map
  gives. Key sizes are those below \<open>2 ^ 15\<close> outside \<open>7..11\<close>, and each insertion counts for at most five
  nodes of a pool.
\<close>

theorem radix_tree_refines_map:
  assumes "radix_rep n P t m" "key_size n" "buffers n junk"
    and "P + 5 * length kvs < 2 ^ 28" "\<forall>(k, v) \<in> set kvs. length k = n"
  shows "\<exists>t'. fold (\<lambda>(k, v) r. Option.bind r (\<lambda>t. radix_tree_insert junk t k (2 * n) v)) kvs (Some t) = Some t' \<and>
    radix_rep n (P + 5 * length kvs) t' (m ++ map_of (rev kvs)) \<and>
    (\<forall>l. length l = n \<longrightarrow> radix_tree_get (junk 0) t' l (2 * n) = Some ((m ++ map_of (rev kvs)) l))"
proof -
  have "radix_store_rep n junk P t m" using assms(1-3) by (simp add: radix_store_rep_def)
  from rt.insert_all [OF this assms(4,5)] obtain t' where t':
      "fold (\<lambda>(k, v) r. Option.bind r (\<lambda>t. radix_tree_insert junk t k (2 * n) v)) kvs (Some t) = Some t'"
      "radix_store_rep n junk (P + 5 * length kvs) t' (m ++ map_of (rev kvs))"
    by blast
  then show ?thesis
    using rt.get_op [OF t'(2)] by (auto simp: radix_store_rep_def)
qed

theorem radix_tree_refines_map_witness:
  "\<exists>t'. fold (\<lambda>(k, v) r. Option.bind r (\<lambda>t. radix_tree_insert (\<lambda>_. [0, 0]) t k 4 v))
       [([1, 2], 7 :: nat), ([1, 3], 8), ([1, 2], 9)] (Some (radix_tree_create 2 1)) = Some t' \<and>
     radix_tree_get [0, 0] t' [1, 2] 4 = Some (Some 9)"
proof -
  have "radix_rep 2 1 (radix_tree_create 2 1) (Map.empty :: u8 list \<rightharpoonup> nat)"
    using radix_create_rep [of 1 1 2] by (simp add: key_size_def key_size_ok_def SMALL_STR_SIZE_def)
  from radix_tree_refines_map [OF this, of "\<lambda>_. [0, 0]" "[([1, 2], 7), ([1, 3], 8), ([1, 2], 9)]"]
  show ?thesis
    by (auto simp: key_size_def key_size_ok_def SMALL_STR_SIZE_def buffers_def)
qed

text \<open>
  A new tree, whatever its initial capacity, holds the empty map, and a lookup finds nothing.
\<close>

theorem radix_tree_create_empty:
  assumes "0 < cap" "unat cap < 2 ^ 28" "key_size n" "length key = n" "length junk = n"
  shows "radix_tree_get junk (radix_tree_create (word_of_nat n) cap :: 'v radix_tree) key (2 * n) = Some None"
  using radix_get_rep [OF radix_create_rep [of cap "unat cap" n] assms(4,5)] assms(1-3) by simp

theorem radix_tree_create_empty_witness:
  "radix_tree_get [0] (radix_tree_create 1 3 :: nat radix_tree) [5] 2 = Some None"
  using radix_tree_create_empty [of 3 1 "[5]" "[0]"]
  by (simp add: key_size_def key_size_ok_def SMALL_STR_SIZE_def)

text \<open>
  An insertion into a branch of any of the four layouts sets the entry of one key piece and no other,
  in place or in a branch of the next layout when the piece is new and the branch is full. The piece
  \<open>IMMEDIATE\<close> (the end of a key) is treated like any other.
\<close>

theorem radix_tree_branch_insert:
  assumes "tree_st n P t M" "P < 2 ^ 28" "M p = Some (NBranch f)" "is_branch (ptr_type p)"
    and "ptr_type node \<noteq> RTT_NONE" "c \<le> IMMEDIATE"
  shows "\<exists>q t'. radix_tree_insert_into_branch_or_grow t p c node = Some (q, t') \<and>
    (\<forall>d \<le> IMMEDIATE. radix_tree_get_branch t' (if ptr_type q = RTT_NONE then p else q) d =
       (if d = c then Some node else radix_tree_get_branch t p d))"
proof -
  note old = get_branch_st [OF assms(1,3,4)]
  have "branch_changed n P t M p c f node (radix_tree_insert_into_branch_or_grow t p c node)"
    by (rule insert_into_branch_st [OF assms])
  then consider
    (stay) t' where "radix_tree_insert_into_branch_or_grow t p c node = Some (none_ptr, t')"
      "tree_st n P t' (M(p \<mapsto> NBranch (f(c := node))))"
  | (grow) q t' where "radix_tree_insert_into_branch_or_grow t p c node = Some (q, t')" "is_branch (ptr_type q)" "M q = None"
      "tree_st n (Suc P) t' (M(q \<mapsto> NBranch (f(c := node)), p := None))"
    unfolding branch_changed_def by blast
  then show ?thesis
  proof cases
    case stay
    then show ?thesis
      using get_branch_st [OF stay(2) _ assms(4), of "f(c := node)"] old by auto
  next
    case grow
    have "q \<noteq> p" using grow(3) assms(3) by auto
    then show ?thesis
      using get_branch_st [OF grow(4) _ grow(2), of "f(c := node)"] old grow(1,2)
      by (auto simp: is_branch_def)
  qed
qed

theorem radix_tree_branch_insert_witness:
  "\<exists>q t'. Option.bind (radix_tree_create_branch_node (radix_tree_create 1 1 :: nat radix_tree) RTT_BRANCH_4)
       (\<lambda>(p, t). radix_tree_insert_into_branch_or_grow t p 3 (mk_ptr RTT_LEAF 0)) = Some (q, t')"
proof -
  have "radix_rep 1 1 (radix_tree_create 1 1 :: nat radix_tree) Map.empty"
    using radix_create_rep [of 1 1 1] by (simp add: key_size_def key_size_ok_def SMALL_STR_SIZE_def)
  then obtain M where "tree_st 1 1 (radix_tree_create 1 1 :: nat radix_tree) M"
    by (auto simp: radix_rep_def tree_map_def)
  then obtain p t' where p: "radix_tree_create_branch_node (radix_tree_create 1 1 :: nat radix_tree) RTT_BRANCH_4 = Some (p, t')"
      "ptr_type p = RTT_BRANCH_4" "tree_st 1 (Suc 1) t' (M(p \<mapsto> NBranch (\<lambda>_. none_ptr)))"
    by (rule create_branch4_st) auto
  have "\<exists>q t''. radix_tree_insert_into_branch_or_grow t' p 3 (mk_ptr RTT_LEAF 0) = Some (q, t'')"
    using radix_tree_branch_insert [OF p(3), of p "\<lambda>_. none_ptr" "mk_ptr RTT_LEAF 0" 3] p(2)
    by (auto simp: is_branch_def mk_ptr_def IMMEDIATE_def)
  then show ?thesis using p(1) by auto
qed

text \<open>
  A lookup stops at a leaf without a look at what is left of the key, so a key is found when only a
  prefix of it has been inserted.
\<close>

theorem radix_tree_get_finds_prefix:
  "\<exists>t. radix_tree_insert (\<lambda>_. [0, 0]) (radix_tree_create 3 4) [1, 2] 4 (7 :: nat) = Some t \<and>
    radix_tree_get [0, 0, 0] t [1, 2, 3] 6 = Some (Some 7)"
proof -
  let ?r = "radix_tree_insert (\<lambda>_. [0, 0]) (radix_tree_create 3 4) [1, 2] 4 (7 :: nat)"
  have "case ?r of None \<Rightarrow> False | Some t \<Rightarrow> radix_tree_get [0, 0, 0] t [1, 2, 3] 6 = Some (Some 7)"
    by code_simp
  then show ?thesis by (auto split: option.splits)
qed

text \<open>
  With keys of seven bytes the insertion of a second key that differs in piece 12 reads outside the
  first key's string: \<open>radix_tree_edge_maybe_move_str\<close> copies one byte for each of the twelve pieces that
  stay in the edge.
\<close>

theorem radix_tree_seven_byte_overrun:
  "Option.bind (radix_tree_insert (\<lambda>_. replicate 7 0) (radix_tree_create 7 4) [0, 0, 0, 0, 0, 0, 0] 14 (7 :: nat))
     (\<lambda>t. radix_tree_insert (\<lambda>_. replicate 7 0) t [0, 0, 0, 0, 0, 0, 16] 14 8) = None"
  by code_simp

end
