(* ===== verification/Cache.thy ===== *)
theory Cache
  imports Radix_Map Ring_Buffer
begin

text \<open>
  \<open>src/cache.c\<close>: the answers that were found, in a radix tree over the 32 bytes of the hash. Workers push
  new answers into a ring buffer, and a submission moves them into the tree before it looks its hash up.
  The operations are modelled one after the other, with one thread on each end of the ring buffer.
\<close>

definition SHA256_DIGEST_LENGTH :: nat where "SHA256_DIGEST_LENGTH = 32"

record pending_entry =
  entry_key :: "u8 list"
  entry_value :: u64

record cache =
  pending :: "pending_entry ringbuffer"
  cache_tree :: "u64 radix_tree"

section \<open>The operations\<close>

definition cache_create :: "u32 \<Rightarrow> cache" where
  "cache_create default_cap =
     \<lparr>pending = ringbuffer_init 1024,
      cache_tree = radix_tree_create (word_of_nat SHA256_DIGEST_LENGTH) default_cap\<rparr>"

text \<open>
  The loop of \<open>cache_process_pending\<close>. \<open>entry\<close> is the local that a pop fills, or leaves as it was when the
  buffer is empty; \<open>junk i\<close> are the stack buffers of the insertion in round \<open>i\<close>.
\<close>

partial_function (option) process_pending_loop ::
  "(nat \<Rightarrow> nat \<Rightarrow> u8 list) \<Rightarrow> nat \<Rightarrow> u32 \<Rightarrow> u32 \<Rightarrow> pending_entry \<Rightarrow> cache \<Rightarrow> cache option" where
  "process_pending_loop junk i head tail entry c =
     (if head \<noteq> tail
      then do {
        (popped, rb) \<leftarrow> ringbuffer_pop (pending c);
        let entry = (case popped of Some e \<Rightarrow> e | None \<Rightarrow> entry);
        let tail = rb_tail rb;
        t \<leftarrow> radix_tree_insert (junk i) (cache_tree c) (entry_key entry) (2 * SHA256_DIGEST_LENGTH) (entry_value entry);
        process_pending_loop junk (i + 1) head tail entry \<lparr>pending = rb, cache_tree = t\<rparr>
      }
      else Some c)"

declare process_pending_loop.simps [code]

definition cache_process_pending :: "(nat \<Rightarrow> nat \<Rightarrow> u8 list) \<Rightarrow> cache \<Rightarrow> cache option" where
  "cache_process_pending junk c =
     process_pending_loop junk 0 (rb_head (pending c)) (rb_tail (pending c))
       \<lparr>entry_key = replicate SHA256_DIGEST_LENGTH 0, entry_value = 0\<rparr> c"

definition cache_insert_pending :: "u8 list \<Rightarrow> u64 \<Rightarrow> cache \<Rightarrow> cache option" where
  "cache_insert_pending key v c =
     do {
       rb \<leftarrow> ringbuffer_push (pending c) \<lparr>entry_key = key, entry_value = v\<rparr>;
       Some (c\<lparr>pending := rb\<rparr>)
     }"

text \<open>The lookup a submission makes; the code takes the address of the value and reads it at once.\<close>

definition cache_get :: "u8 list \<Rightarrow> u8 list \<Rightarrow> cache \<Rightarrow> u64 option option" where
  "cache_get junk hash c = radix_tree_get junk (cache_tree c) hash (2 * SHA256_DIGEST_LENGTH)"

section \<open>What the cache holds\<close>

text \<open>\<open>cache_rep P c m es\<close>: the tree holds the map \<open>m\<close>, and the entries \<open>es\<close> wait in the ring buffer.\<close>

definition cache_rep :: "nat \<Rightarrow> cache \<Rightarrow> (u8 list \<rightharpoonup> u64) \<Rightarrow> pending_entry list \<Rightarrow> bool" where
  "cache_rep P c m es \<longleftrightarrow> radix_rep SHA256_DIGEST_LENGTH P (cache_tree c) m \<and> rb_rep (pending c) es \<and>
     rb_size (pending c) = 1024 \<and> (\<forall>e \<in> set es. length (entry_key e) = SHA256_DIGEST_LENGTH)"

text \<open>The map once the waiting entries are in.\<close>

definition with_pending :: "(u8 list \<rightharpoonup> u64) \<Rightarrow> pending_entry list \<Rightarrow> (u8 list \<rightharpoonup> u64)" where
  "with_pending m es = fold (\<lambda>e m. m(entry_key e \<mapsto> entry_value e)) es m"

lemma digest_key_size: "key_size SHA256_DIGEST_LENGTH"
  by (simp add: key_size_def key_size_ok_def SHA256_DIGEST_LENGTH_def SMALL_STR_SIZE_def)

lemma cache_create_rep:
  assumes "0 < cap" "unat cap < 2 ^ 28"
  shows "cache_rep (unat cap) (cache_create cap) Map.empty []"
  using radix_create_rep [OF assms(1) order_refl assms(2) digest_key_size] rb_rep_init [of 1024]
  by (simp add: cache_rep_def cache_create_def) (simp add: ringbuffer_init_def)

lemma cache_rep_length: "cache_rep P c m es \<Longrightarrow> length es < 1024"
  by (auto simp: cache_rep_def rb_rep_def)

lemma cache_insert_pending_rep:
  assumes "cache_rep P c m es" "length key = SHA256_DIGEST_LENGTH"
  shows "\<exists>c'. cache_insert_pending key v c = Some c' \<and>
    cache_rep P c' m (if length es < 1023 then es @ [\<lparr>entry_key = key, entry_value = v\<rparr>] else es)"
proof -
  have rb: "rb_rep (pending c) es" using assms(1) by (simp add: cache_rep_def)
  obtain rb' where "ringbuffer_push (pending c) \<lparr>entry_key = key, entry_value = v\<rparr> = Some rb'"
      "rb_size rb' = rb_size (pending c)"
      "rb_rep rb' (if Suc (length es) < unat (rb_size (pending c)) then es @ [\<lparr>entry_key = key, entry_value = v\<rparr>] else es)"
    using rb_push [OF rb] by blast
  then show ?thesis
    using assms by (auto simp: cache_insert_pending_def cache_rep_def)
qed

text \<open>The loop ends after as many rounds as entries wait, since a round takes one and none arrives.\<close>

lemma process_pending_loop_rep:
  assumes "cache_rep P c m es" "P + 5 * length es < 2 ^ 28" "\<And>j. buffers SHA256_DIGEST_LENGTH (junk j)"
  shows "\<exists>c'. process_pending_loop junk i (rb_head (pending c)) (rb_tail (pending c)) entry c = Some c' \<and>
    cache_rep (P + 5 * length es) c' (with_pending m es) []"
  using assms(1,2)
proof (induction es arbitrary: i entry c m P)
  case Nil
  then have "rb_head (pending c) = rb_tail (pending c)"
    using rb_empty_iff [of "pending c" "[]"] by (simp add: cache_rep_def)
  then show ?case
    using Nil by (subst process_pending_loop.simps) (simp add: with_pending_def)
next
  case (Cons e es)
  have rep: "rb_rep (pending c) (e # es)" "radix_rep SHA256_DIGEST_LENGTH P (cache_tree c) m"
    using Cons.prems(1) by (simp_all add: cache_rep_def)
  obtain rb where rb: "ringbuffer_pop (pending c) = Some (Some e, rb)" "rb_size rb = rb_size (pending c)" "rb_rep rb es"
    using rb_pop [OF rep(1)] by blast
  have head: "rb_head rb = rb_head (pending c)"
    using rb(1) by (auto simp: ringbuffer_pop_def Let_def split: Option.bind_splits if_splits)
  have "P + 5 < 2 ^ 28" "length (entry_key e) = SHA256_DIGEST_LENGTH"
    using Cons.prems by (simp_all add: cache_rep_def)
  then obtain t where t: "radix_tree_insert (junk i) (cache_tree c) (entry_key e) (2 * SHA256_DIGEST_LENGTH) (entry_value e) = Some t"
      "radix_rep SHA256_DIGEST_LENGTH (P + 5) t (m(entry_key e \<mapsto> entry_value e))"
    using radix_insert_rep [OF rep(2) _ _ digest_key_size assms(3)] by blast
  let ?c = "\<lparr>pending = rb, cache_tree = t\<rparr>"
  have "cache_rep (P + 5) ?c (m(entry_key e \<mapsto> entry_value e)) es"
    using rb t(2) Cons.prems(1) by (simp add: cache_rep_def)
  then obtain c' where "process_pending_loop junk (i + 1) (rb_head (pending ?c)) (rb_tail (pending ?c)) e ?c = Some c'"
      "cache_rep (P + 5 + 5 * length es) c' (with_pending (m(entry_key e \<mapsto> entry_value e)) es) []"
    using Cons.IH [of "P + 5" ?c] Cons.prems(2) by fastforce
  moreover have "rb_head (pending c) \<noteq> rb_tail (pending c)"
    using rb_empty_iff [OF rep(1)] by simp
  ultimately show ?case
    using rb(1) t(1) head by (subst process_pending_loop.simps) (simp add: with_pending_def Let_def add.assoc)
qed

lemma cache_get_rep:
  assumes "cache_rep P c m es" "length hash = SHA256_DIGEST_LENGTH" "length junk = SHA256_DIGEST_LENGTH"
  shows "cache_get junk hash c = Some (m hash)"
  using radix_get_rep [of SHA256_DIGEST_LENGTH P "cache_tree c" m hash junk] assms
  by (simp add: cache_rep_def cache_get_def)

text \<open>
  Every scheduler consults the cache in the same way at a submission: it moves the waiting answers into the
  tree and looks the hash up. \<open>junk\<close> and \<open>gjunk\<close> are the stack buffers of the insertions and of the lookup.
\<close>

definition stack_ok :: "(nat \<Rightarrow> nat \<Rightarrow> u8 list) \<Rightarrow> u8 list \<Rightarrow> bool" where
  "stack_ok junk gjunk \<longleftrightarrow> (\<forall>i. buffers SHA256_DIGEST_LENGTH (junk i)) \<and> length gjunk = SHA256_DIGEST_LENGTH"

lemma cache_consult:
  assumes "cache_rep P c m es" "P + 5 * length es < 2 ^ 28" "stack_ok junk gjunk"
    and "length hash = SHA256_DIGEST_LENGTH"
  obtains c' where "cache_process_pending junk c = Some c'" "cache_rep (P + 5 * length es) c' (with_pending m es) []"
    "cache_get gjunk hash c' = Some (with_pending m es hash)"
proof -
  obtain c' where "cache_process_pending junk c = Some c'" "cache_rep (P + 5 * length es) c' (with_pending m es) []"
    using process_pending_loop_rep [OF assms(1,2), of junk 0] assms(3)
    unfolding cache_process_pending_def stack_ok_def by blast
  then show thesis
    using that cache_get_rep assms(3,4) by (simp add: stack_ok_def)
qed

text \<open>
  C5: processing the pending entries ends, after one round for each waiting entry; it empties the ring
  buffer, and every lookup then finds the latest answer that was waiting for its hash, or else what the
  tree held before. No entry is lost or read past the queue, and no tree access leaves its array.
\<close>

theorem cache_process_pending_terminates:
  assumes "cache_rep P c m es" "P + 5 * length es < 2 ^ 28" "\<And>j. buffers SHA256_DIGEST_LENGTH (junk j)"
    and "length hash = SHA256_DIGEST_LENGTH" "length gjunk = SHA256_DIGEST_LENGTH"
  shows "\<exists>c'. cache_process_pending junk c = Some c' \<and> cache_rep (P + 5 * length es) c' (with_pending m es) [] \<and>
    ringbuffer_empty (pending c') \<and> cache_get gjunk hash c' = Some (with_pending m es hash)"
proof -
  obtain c' where c': "cache_process_pending junk c = Some c'" "cache_rep (P + 5 * length es) c' (with_pending m es) []"
    using process_pending_loop_rep [OF assms(1,2), of junk 0] assms(3)
    unfolding cache_process_pending_def by blast
  then have "ringbuffer_empty (pending c')"
    using rb_empty_iff [of "pending c'" "[]"] by (simp add: cache_rep_def ringbuffer_empty_def)
  then show ?thesis
    using c' cache_get_rep [OF c'(2) assms(4,5)] by blast
qed

theorem cache_process_pending_terminates_witness:
  "\<exists>c'. Option.bind (cache_insert_pending (replicate 32 1) 77 (cache_create 8)) (cache_process_pending (\<lambda>_ _. replicate 32 0)) = Some c' \<and>
     cache_get (replicate 32 0) (replicate 32 1) c' = Some (Some 77)"
proof -
  have "cache_rep 8 (cache_create 8) Map.empty []"
    using cache_create_rep [of 8] by simp
  then obtain c where c: "cache_insert_pending (replicate 32 1) 77 (cache_create 8) = Some c"
      "cache_rep 8 c Map.empty [\<lparr>entry_key = replicate 32 1, entry_value = 77\<rparr>]"
    using cache_insert_pending_rep [of 8 "cache_create 8" Map.empty "[]" "replicate 32 1" 77]
    by (auto simp: SHA256_DIGEST_LENGTH_def)
  then show ?thesis
    using cache_process_pending_terminates [OF c(2), of "\<lambda>_ _. replicate 32 0" "replicate 32 1" "replicate 32 0"]
    by (auto simp: buffers_def SHA256_DIGEST_LENGTH_def with_pending_def)
qed

end
