(* ===== verification/Priority_Heap.thy ===== *)
theory Priority_Heap
  imports Vec
begin

text \<open>
  \<open>src/bits/priority_heap.h\<close> and \<open>priority_heap.c\<close>: a binary max-heap of nodes \<open>(priority, elem)\<close> in a
  vector. The loops of the code are first shown to act on the list of nodes, then the list
  operations are shown to keep the heap order and the multiset of nodes.
\<close>

record 'a heap_node =
  priority :: u32
  elem :: 'a

type_synonym 'a heap = "'a heap_node vec"

section \<open>The operations\<close>

definition priority_heap_swap_indices :: "'a heap \<Rightarrow> u32 \<Rightarrow> u32 \<Rightarrow> 'a heap option" where
  "priority_heap_swap_indices heap i j =
     do {
       tmp \<leftarrow> vec_get heap i;
       node_j \<leftarrow> vec_get heap j;
       heap \<leftarrow> vec_set heap i node_j;
       vec_set heap j tmp
     }"

definition priority_heap_parent :: "u32 \<Rightarrow> u32" where
  "priority_heap_parent i = (i - 1) div 2"

definition priority_heap_left :: "u32 \<Rightarrow> u32" where
  "priority_heap_left i = 2 * i + 1"

definition priority_heap_right :: "u32 \<Rightarrow> u32" where
  "priority_heap_right i = 2 * i + 2"

partial_function (option) priority_heap_shift_up :: "'a heap \<Rightarrow> u32 \<Rightarrow> 'a heap option" where
  "priority_heap_shift_up heap i =
     (if 0 < i
      then do {
        let parent = priority_heap_parent i;
        current \<leftarrow> vec_get heap i;
        parent_node \<leftarrow> vec_get heap parent;
        if priority current \<le> priority parent_node then Some heap
        else do {
          heap \<leftarrow> priority_heap_swap_indices heap i parent;
          priority_heap_shift_up heap parent
        }
      }
      else Some heap)"

declare priority_heap_shift_up.simps [code]

text \<open>The test \<open>idx < heap->len && node->priority > max->priority\<close> of \<open>shift_down\<close>.\<close>

definition larger_child :: "'a heap \<Rightarrow> u32 \<Rightarrow> u32 \<Rightarrow> u32 option" where
  "larger_child heap idx max_idx =
     (if idx < vec_len heap
      then do {
        node \<leftarrow> vec_get heap idx;
        max \<leftarrow> vec_get heap max_idx;
        Some (if priority max < priority node then idx else max_idx)
      }
      else Some max_idx)"

partial_function (option) shift_down_loop :: "'a heap \<Rightarrow> u32 \<Rightarrow> u32 \<Rightarrow> 'a heap option" where
  "shift_down_loop heap i max_idx =
     do {
       max_idx \<leftarrow> larger_child heap (priority_heap_left i) max_idx;
       max_idx \<leftarrow> larger_child heap (priority_heap_right i) max_idx;
       if max_idx \<noteq> i
       then do {
         heap \<leftarrow> priority_heap_swap_indices heap i max_idx;
         shift_down_loop heap max_idx max_idx
       }
       else Some heap
     }"

declare shift_down_loop.simps [code]

definition priority_heap_shift_down :: "'a heap \<Rightarrow> u32 \<Rightarrow> 'a heap option" where
  "priority_heap_shift_down heap i = shift_down_loop heap i i"

definition priority_heap_insert :: "'a heap \<Rightarrow> 'a \<Rightarrow> u32 \<Rightarrow> 'a heap option" where
  "priority_heap_insert heap x prio =
     do {
       heap \<leftarrow> vec_push heap \<lparr>priority = prio, elem = x\<rparr>;
       priority_heap_shift_up heap (vec_len heap - 1)
     }"

text \<open>\<open>vec_pop_unsafe\<close> in a statement: only the length changes, the popped cell is not read.\<close>

definition vec_drop :: "'a vec \<Rightarrow> 'a vec" where
  "vec_drop v = v\<lparr>vec_len := vec_len v - 1\<rparr>"

text \<open>The extracted node is \<open>None\<close> for the early return, which leaves the caller's node as it was.\<close>

definition priority_heap_extract_max :: "'a heap \<Rightarrow> ('a heap_node option \<times> 'a heap) option" where
  "priority_heap_extract_max heap =
     (if vec_len heap = 0 then Some (None, heap)
      else do {
        node \<leftarrow> vec_get heap 0;
        heap \<leftarrow> priority_heap_swap_indices heap 0 (vec_len heap - 1);
        heap \<leftarrow> priority_heap_shift_down (vec_drop heap) 0;
        Some (Some node, heap)
      })"

definition priority_heap_remove :: "'a heap \<Rightarrow> u32 \<Rightarrow> 'a heap option" where
  "priority_heap_remove heap i =
     (if vec_len heap \<le> i then Some heap
      else do {
        current \<leftarrow> vec_get heap i;
        heap \<leftarrow> vec_set heap i (current\<lparr>priority := - 1\<rparr>);
        heap \<leftarrow> priority_heap_shift_up heap i;
        (_, heap) \<leftarrow> priority_heap_extract_max heap;
        Some heap
      })"

definition priority_heap_get_max :: "'a heap \<Rightarrow> 'a heap_node option option" where
  "priority_heap_get_max heap =
     (if vec_len heap = 0 then Some None
      else do { node \<leftarrow> vec_get heap 0; Some (Some node) })"

section \<open>The loops on the list of nodes\<close>

definition swap :: "'a list \<Rightarrow> nat \<Rightarrow> nat \<Rightarrow> 'a list" where
  "swap xs i j = xs[i := xs ! j, j := xs ! i]"

lemma length_swap [simp]: "length (swap xs i j) = length xs"
  by (simp add: swap_def)

lemma mset_swap_list [simp]:
  "i < length xs \<Longrightarrow> j < length xs \<Longrightarrow> mset (swap xs i j) = mset xs"
  by (simp add: swap_def mset_swap)

lemma nth_swap:
  "i < length xs \<Longrightarrow> j < length xs \<Longrightarrow> k < length xs \<Longrightarrow>
     swap xs i j ! k = xs ! (if k = i then j else if k = j then i else k)"
  by (auto simp: swap_def nth_list_update)

lemma swap_rep:
  assumes rep: "vec_rep v xs" and i: "unat i < length xs" and j: "unat j < length xs"
  shows "\<exists>v'. priority_heap_swap_indices v i j = Some v' \<and> vec_rep v' (swap xs (unat i) (unat j)) \<and>
    vec_cap v' = vec_cap v"
proof -
  obtain v1 where v1: "vec_set v i (xs ! unat j) = Some v1" "vec_rep v1 (xs[unat i := xs ! unat j])"
      "vec_cap v1 = vec_cap v"
    using vec_set_rep [OF rep i] by blast
  obtain v2 where "vec_set v1 j (xs ! unat i) = Some v2"
      "vec_rep v2 (xs[unat i := xs ! unat j, unat j := xs ! unat i])" "vec_cap v2 = vec_cap v"
    using vec_set_rep [OF v1(2), of j] j v1(3) by auto
  then show ?thesis
    using vec_get_rep [OF rep i] vec_get_rep [OF rep j] v1(1)
    by (simp add: priority_heap_swap_indices_def swap_def)
qed

abbreviation prio :: "'a heap_node list \<Rightarrow> nat \<Rightarrow> u32" where
  "prio xs i \<equiv> priority (xs ! i)"

function up :: "'a heap_node list \<Rightarrow> nat \<Rightarrow> 'a heap_node list" where
  "up xs i =
     (if i = 0 \<or> prio xs i \<le> prio xs ((i - 1) div 2) then xs
      else up (swap xs i ((i - 1) div 2)) ((i - 1) div 2))"
  by auto
termination by (relation "measure snd") auto

declare up.simps [simp del]

definition top_child :: "'a heap_node list \<Rightarrow> nat \<Rightarrow> nat \<Rightarrow> nat" where
  "top_child xs c m = (if c < length xs \<and> prio xs m < prio xs c then c else m)"

definition top_of :: "'a heap_node list \<Rightarrow> nat \<Rightarrow> nat" where
  "top_of xs i = top_child xs (2 * i + 2) (top_child xs (2 * i + 1) i)"

lemma top_of_cases: "top_of xs i = i \<or> top_of xs i = 2 * i + 1 \<and> 2 * i + 1 < length xs \<or>
    top_of xs i = 2 * i + 2 \<and> 2 * i + 2 < length xs"
  by (auto simp: top_of_def top_child_def)

function down :: "'a heap_node list \<Rightarrow> nat \<Rightarrow> 'a heap_node list" where
  "down xs i = (if top_of xs i = i then xs else down (swap xs i (top_of xs i)) (top_of xs i))"
  by auto
termination
proof (relation "measure (\<lambda>(xs, i). length xs - i)")
  fix xs :: "'a heap_node list" and i
  assume "top_of xs i \<noteq> i"
  then show "((swap xs i (top_of xs i), top_of xs i), xs, i) \<in> measure (\<lambda>(xs, i). length xs - i)"
    using top_of_cases [of xs i] by auto
qed simp

declare down.simps [simp del]

lemma unat_parent: "0 < i \<Longrightarrow> unat (priority_heap_parent i) = (unat i - 1) div 2"
  by (simp add: priority_heap_parent_def unat_div unat_sub word_le_nat_alt word_less_nat_alt)

lemma shift_up_rep:
  assumes "vec_rep v xs" "unat i < length xs"
  shows "\<exists>v'. priority_heap_shift_up v i = Some v' \<and> vec_rep v' (up xs (unat i)) \<and>
    vec_cap v' = vec_cap v"
  using assms
proof (induction "unat i" arbitrary: v xs i rule: less_induct)
  case less
  show ?case
  proof (cases "0 < i")
    case False
    then show ?thesis
      using less.prems
      by (subst priority_heap_shift_up.simps, subst up.simps) (simp add: word_gt_0)
  next
    case True
    let ?p = "priority_heap_parent i"
    have p: "unat ?p = (unat i - 1) div 2" by (rule unat_parent [OF True])
    have pos: "0 < unat i" using True by (simp add: word_less_nat_alt)
    have lt: "unat ?p < unat i" "unat ?p < length xs" using p pos less.prems(2) by auto
    obtain v1 where v1: "priority_heap_swap_indices v i ?p = Some v1"
        "vec_rep v1 (swap xs (unat i) (unat ?p))" "vec_cap v1 = vec_cap v"
      using swap_rep [OF less.prems lt(2)] by blast
    obtain v2 where v2: "priority_heap_shift_up v1 ?p = Some v2"
        "vec_rep v2 (up (swap xs (unat i) (unat ?p)) (unat ?p))" "vec_cap v2 = vec_cap v"
      using less.hyps [OF lt(1) v1(2)] lt(2) v1(3) by auto
    show ?thesis
      using less.prems(1) vec_get_rep [OF less.prems] vec_get_rep [OF less.prems(1) lt(2)] v1 v2 pos True
      by (subst priority_heap_shift_up.simps, subst up.simps) (auto simp: p Let_def)
  qed
qed

lemma larger_child_rep:
  assumes rep: "vec_rep v xs" and m: "unat m < length xs"
  shows "\<exists>m'. larger_child v c m = Some m' \<and> unat m' = top_child xs (unat c) (unat m)"
proof -
  have "c < vec_len v \<longleftrightarrow> unat c < length xs"
    using vec_rep_len [OF rep] by (simp add: word_less_nat_alt)
  then show ?thesis
    using vec_get_rep [OF rep m] vec_get_rep [OF rep, of c]
    by (auto simp: larger_child_def top_child_def)
qed

lemma unat_children:
  assumes "unat i < 2 ^ 31 - 1"
  shows "unat (priority_heap_left i) = 2 * unat i + 1" "unat (priority_heap_right i) = 2 * unat i + 2"
  using assms by (simp_all add: priority_heap_left_def priority_heap_right_def unat_word_ariths)

lemma shift_down_loop_rep:
  assumes "vec_rep v xs" "unat i < length xs" "length xs < 2 ^ 31"
  shows "\<exists>v'. shift_down_loop v i i = Some v' \<and> vec_rep v' (down xs (unat i)) \<and> vec_cap v' = vec_cap v"
  using assms
proof (induction "length xs - unat i" arbitrary: v xs i rule: less_induct)
  case less
  have ch: "unat (priority_heap_left i) = 2 * unat i + 1" "unat (priority_heap_right i) = 2 * unat i + 2"
    using less.prems by (intro unat_children, simp)+
  obtain m1 where m1: "larger_child v (priority_heap_left i) i = Some m1"
      "unat m1 = top_child xs (2 * unat i + 1) (unat i)"
    using larger_child_rep [OF less.prems(1,2)] ch by metis
  have "unat m1 < length xs" using m1(2) less.prems(2) by (auto simp: top_child_def)
  then obtain m where m: "larger_child v (priority_heap_right i) m1 = Some m"
      "unat m = top_of xs (unat i)"
    using larger_child_rep [OF less.prems(1)] ch m1(2) unfolding top_of_def by metis
  have ml: "unat m < length xs"
    using m(2) top_of_cases [of xs "unat i"] less.prems(2) by auto
  show ?case
  proof (cases "m = i")
    case True
    then show ?thesis
      using less.prems(1) m m1(1)
      by (subst shift_down_loop.simps, subst down.simps) simp
  next
    case False
    then have ne: "unat m \<noteq> unat i" by (simp add: word_unat_eq_iff)
    obtain v1 where v1: "priority_heap_swap_indices v i m = Some v1"
        "vec_rep v1 (swap xs (unat i) (unat m))" "vec_cap v1 = vec_cap v"
      using swap_rep [OF less.prems(1,2) ml] by blast
    have "length (swap xs (unat i) (unat m)) - unat m < length xs - unat i"
      using m(2) ne top_of_cases [of xs "unat i"] less.prems(2) by auto
    then obtain v2 where "shift_down_loop v1 m m = Some v2"
        "vec_rep v2 (down (swap xs (unat i) (unat m)) (unat m))" "vec_cap v2 = vec_cap v"
      using less.hyps [OF _ v1(2)] ml less.prems(3) v1(3) by auto
    then show ?thesis
      using False ne m m1(1) v1(1)
      by (subst shift_down_loop.simps, subst down.simps) simp
  qed
qed

section \<open>The heap order\<close>

abbreviation par :: "nat \<Rightarrow> nat" where
  "par i \<equiv> (i - 1) div 2"

definition heap_ok :: "'a heap_node list \<Rightarrow> bool" where
  "heap_ok xs \<longleftrightarrow> (\<forall>i < length xs. 0 < i \<longrightarrow> prio xs i \<le> prio xs (par i))"

text \<open>The order with one hole: node \<open>i\<close> may be too large for its place, or too small.\<close>

definition hole_up :: "'a heap_node list \<Rightarrow> nat \<Rightarrow> bool" where
  "hole_up xs i \<longleftrightarrow>
     (\<forall>j < length xs. 0 < j \<longrightarrow> j \<noteq> i \<longrightarrow> prio xs j \<le> prio xs (par j)) \<and>
     (\<forall>j < length xs. 0 < j \<longrightarrow> par j = i \<longrightarrow> 0 < i \<longrightarrow> prio xs j \<le> prio xs (par i))"

definition hole_down :: "'a heap_node list \<Rightarrow> nat \<Rightarrow> bool" where
  "hole_down xs i \<longleftrightarrow>
     (\<forall>j < length xs. 0 < j \<longrightarrow> par j \<noteq> i \<longrightarrow> prio xs j \<le> prio xs (par j)) \<and>
     (\<forall>j < length xs. 0 < j \<longrightarrow> par j = i \<longrightarrow> 0 < i \<longrightarrow> prio xs j \<le> prio xs (par i))"

lemma length_up [simp]: "length (up xs i) = length xs"
  by (induction xs i rule: up.induct) (subst up.simps, simp)

lemma length_down [simp]: "length (down xs i) = length xs"
  by (induction xs i rule: down.induct) (subst down.simps, simp)

lemma mset_up: "i < length xs \<Longrightarrow> mset (up xs i) = mset xs"
proof (induction xs i rule: up.induct)
  case (1 xs i)
  then show ?case by (subst up.simps) auto
qed

lemma mset_down: "i < length xs \<Longrightarrow> mset (down xs i) = mset xs"
proof (induction xs i rule: down.induct)
  case (1 xs i)
  then have "top_of xs i < length xs" using top_of_cases [of xs i] by auto
  then show ?case using 1 by (subst down.simps) auto
qed

lemma hole_up_step:
  assumes hole: "hole_up xs i" and i: "i < length xs" "0 < i" and gt: "prio xs (par i) < prio xs i"
  shows "hole_up (swap xs i (par i)) (par i)"
proof -
  let ?ys = "swap xs i (par i)"
  have pi: "par i < i" using i by simp
  have nth: "prio ?ys j = prio xs (if j = i then par i else if j = par i then i else j)"
    if "j < length xs" for j
    using that pi i by (simp add: nth_swap)
  have one: "prio xs j \<le> prio xs (par j)" if "j < length xs" "0 < j" "j \<noteq> i" for j
    using hole that by (simp add: hole_up_def)
  have two: "prio xs j \<le> prio xs (par i)" if "j < length xs" "0 < j" "par j = i" for j
    using hole that i by (simp add: hole_up_def)
  have "prio ?ys j \<le> prio ?ys (par j)" if j: "j < length xs" "0 < j" "j \<noteq> par i" for j
  proof (cases "j = i")
    case True
    then show ?thesis using nth [of i] nth [of "par i"] i pi gt by simp
  next
    case False
    have "prio xs j \<le> prio xs i" if "par j = par i"
      using one [OF j(1,2) False] gt that by simp
    then show ?thesis
      using False j pi nth [of j] nth [of "par j"] one [OF j(1,2) False] two [OF j(1,2)] by auto
  qed
  moreover have "prio ?ys j \<le> prio ?ys (par (par i))"
    if j: "j < length xs" "0 < j" "par j = par i" "0 < par i" for j
  proof -
    have "par (par i) < par i" using j(4) by simp
    then have "prio ?ys (par (par i)) = prio xs (par (par i))" using pi i nth [of "par (par i)"] by simp
    moreover have "prio xs (par i) \<le> prio xs (par (par i))" using one [of "par i"] j(4) pi i by simp
    moreover have "prio ?ys j \<le> prio xs (par i)"
      using nth [OF j(1)] one [OF j(1,2)] j(3) \<open>par (par i) < par i\<close> by auto
    ultimately show ?thesis by simp
  qed
  ultimately show ?thesis by (simp add: hole_up_def)
qed

lemma heap_ok_up:
  assumes "hole_up xs i" "i < length xs"
  shows "heap_ok (up xs i)"
  using assms
proof (induction xs i rule: up.induct)
  case (1 xs i)
  show ?case
  proof (cases "i = 0 \<or> prio xs i \<le> prio xs (par i)")
    case True
    then show ?thesis
      using "1.prems"(1) by (subst up.simps) (auto simp: heap_ok_def hole_up_def)
  next
    case False
    then have "hole_up (swap xs i (par i)) (par i)"
      using "1.prems" by (intro hole_up_step) auto
    then show ?thesis
      using False 1 by (subst up.simps) auto
  qed
qed

lemma top_of_max:
  assumes "top_of xs i = m" "j < length xs" "0 < j" "par j = i"
  shows "prio xs j \<le> prio xs m" "prio xs i \<le> prio xs m"
proof -
  have "j = 2 * i + 1 \<or> j = 2 * i + 2" using assms(3,4) by auto
  then show "prio xs j \<le> prio xs m" "prio xs i \<le> prio xs m"
    using assms(1,2) by (auto simp: top_of_def top_child_def split: if_splits)
qed

lemma hole_down_step:
  assumes hole: "hole_down xs i" and i: "i < length xs" and m: "top_of xs i = m" "m \<noteq> i"
  shows "hole_down (swap xs i m) m"
proof -
  let ?ys = "swap xs i m"
  have ml: "m < length xs" "0 < m" "par m = i" "i < m"
    using m top_of_cases [of xs i] by auto
  have nth: "prio ?ys j = prio xs (if j = i then m else if j = m then i else j)"
    if "j < length xs" for j
    using that ml i by (simp add: nth_swap)
  have one: "prio xs j \<le> prio xs (par j)" if "j < length xs" "0 < j" "par j \<noteq> i" for j
    using hole that by (simp add: hole_down_def)
  have two: "prio xs j \<le> prio xs (par i)" if "j < length xs" "0 < j" "par j = i" "0 < i" for j
    using hole that by (simp add: hole_down_def)
  note top = top_of_max [OF m(1)]
  have "prio ?ys j \<le> prio ?ys (par j)" if j: "j < length xs" "0 < j" "par j \<noteq> m" for j
  proof (cases "par j = i")
    case True
    then show ?thesis using j ml i nth [of j] nth [of i] top [OF j(1,2)] by auto
  next
    case False
    have "par j < j" using j(2) by simp
    show ?thesis
    proof (cases "j = i")
      case True
      then show ?thesis
        using \<open>par j < j\<close> j ml i nth [of i] nth [of "par i"] two [OF ml(1-3)] by auto
    next
      case ne: False
      then show ?thesis
        using False \<open>par j < j\<close> j ml nth [of j] nth [of "par j"] one [OF j(1,2) False] by auto
    qed
  qed
  moreover have "prio ?ys j \<le> prio ?ys (par m)" if j: "j < length xs" "0 < j" "par j = m" for j
  proof -
    have "j \<noteq> i" "j \<noteq> m" using j ml by auto
    then show ?thesis
      using nth [OF j(1)] nth [of i] one [OF j(1,2)] j(3) m(2) ml(3) i by simp
  qed
  ultimately show ?thesis by (simp add: hole_down_def)
qed

lemma heap_ok_down:
  assumes "hole_down xs i" "i < length xs"
  shows "heap_ok (down xs i)"
  using assms
proof (induction xs i rule: down.induct)
  case (1 xs i)
  show ?case
  proof (cases "top_of xs i = i")
    case True
    have "heap_ok xs"
      unfolding heap_ok_def using "1.prems"(1) top_of_max(1) [OF True]
      by (metis hole_down_def)
    then show ?thesis using True by (subst down.simps) simp
  next
    case False
    then have "top_of xs i < length xs" using top_of_cases [of xs i] by auto
    then show ?thesis
      using False 1 hole_down_step [OF "1.prems" refl False] by (subst down.simps) auto
  qed
qed

lemma heap_root_max:
  assumes "heap_ok xs" "i < length xs"
  shows "prio xs i \<le> prio xs 0"
  using assms(2)
proof (induction i rule: less_induct)
  case (less i)
  show ?case
  proof (cases "i = 0")
    case False
    then have "prio xs i \<le> prio xs (par i)" "prio xs (par i) \<le> prio xs 0"
      using assms(1) less by (auto simp: heap_ok_def)
    then show ?thesis by (rule order_trans)
  qed simp
qed

section \<open>The operations on a heap\<close>

text \<open>
  \<open>heap_rep h xs\<close>: the heap stores the nodes \<open>xs\<close>, in heap order. \<open>heap_room\<close> bounds the capacity, so that
  doubling it and the child indices stay in 32 bits.
\<close>

definition heap_rep :: "'a heap \<Rightarrow> 'a heap_node list \<Rightarrow> bool" where
  "heap_rep h xs \<longleftrightarrow> vec_rep h xs \<and> heap_ok xs"

definition heap_room :: "'a heap \<Rightarrow> bool" where
  "heap_room h \<longleftrightarrow> 0 < vec_cap h \<and> unat (vec_cap h) < 2 ^ 31"

lemma hole_up_snoc: "heap_ok xs \<Longrightarrow> hole_up (xs @ [x]) (length xs)"
  by (auto simp: heap_ok_def hole_up_def nth_append)

lemma hole_down_last:
  assumes "heap_ok xs" "xs \<noteq> []"
  shows "hole_down (take (length xs - 1) (swap xs 0 (length xs - 1))) 0"
proof -
  have "prio xs j \<le> prio xs (par j)" if "j < length xs" "0 < j" for j
    using assms(1) that by (simp add: heap_ok_def)
  then show ?thesis
    using assms(2) by (auto simp: hole_down_def nth_swap)
qed

lemma hole_up_raise:
  assumes "heap_ok xs" "i < length xs"
  shows "hole_up (xs[i := x\<lparr>priority := - 1\<rparr>]) i"
proof -
  have ok: "prio xs j \<le> prio xs (par j)" if "j < length xs" "0 < j" for j
    using assms(1) that by (simp add: heap_ok_def)
  have "prio xs j \<le> prio xs (par i)" if "j < length xs" "0 < j" "par j = i" "0 < i" for j
    using ok [OF that(1,2)] ok [of i] that assms(2) by (simp add: order_trans [of "prio xs j"])
  then show ?thesis
    using ok assms(2) by (auto simp: hole_up_def nth_list_update)
qed

lemma vec_drop_rep:
  assumes "vec_rep v xs" "xs \<noteq> []"
  shows "vec_rep (vec_drop v) (take (length xs - 1) xs)"
proof -
  note r = vec_repD [OF assms(1)]
  have "unat (vec_len v - 1) = length xs - 1"
    using r(2) assms(2) by (simp add: unat_sub word_le_nat_alt Suc_le_eq)
  moreover have "take (length xs - 1) (vec_data v) = map Some (take (length xs - 1) xs)"
    using arg_cong [OF r(4), of "take (length xs - 1)"] by (simp add: take_map min.absorb1)
  ultimately show ?thesis
    using r by (simp add: vec_drop_def vec_rep_def min.absorb1 min.absorb2)
qed

lemma insert_rep:
  assumes rep: "heap_rep h xs" and cap: "heap_room h"
  shows "\<exists>h' ys. priority_heap_insert h x p = Some h' \<and> heap_rep h' ys \<and>
    mset ys = add_mset \<lparr>priority = p, elem = x\<rparr> (mset xs) \<and> vec_cap h \<le> vec_cap h' \<and>
    unat (vec_cap h') \<le> max (unat (vec_cap h)) (2 * length xs)"
proof -
  let ?xs = "xs @ [\<lparr>priority = p, elem = x\<rparr>]"
  have v: "vec_rep h xs" "heap_ok xs" using rep by (simp_all add: heap_rep_def)
  obtain v1 where v1: "vec_push h \<lparr>priority = p, elem = x\<rparr> = Some v1" "vec_rep v1 ?xs"
      "vec_cap h \<le> vec_cap v1" "unat (vec_cap v1) \<le> max (unat (vec_cap h)) (2 * length xs)"
    using vec_push_rep [OF v(1)] cap unfolding heap_room_def by fastforce
  have i: "unat (vec_len v1 - 1) = length xs"
    using vec_rep_len [OF v1(2)] by (simp add: unat_sub word_le_nat_alt)
  obtain v2 where v2: "priority_heap_shift_up v1 (vec_len v1 - 1) = Some v2"
      "vec_rep v2 (up ?xs (length xs))" "vec_cap v2 = vec_cap v1"
    using shift_up_rep [OF v1(2), of "vec_len v1 - 1"] i by auto
  have "heap_ok (up ?xs (length xs))"
    by (rule heap_ok_up [OF hole_up_snoc [OF v(2)]]) simp
  moreover have "mset (up ?xs (length xs)) = mset ?xs" by (rule mset_up) simp
  ultimately show ?thesis
    using v1 v2 by (intro exI [of _ v2] exI [of _ "up ?xs (length xs)"])
      (simp add: priority_heap_insert_def heap_rep_def)
qed

lemma get_max_rep:
  assumes "heap_rep h xs"
  shows "priority_heap_get_max h = Some (if xs = [] then None else Some (xs ! 0))"
proof -
  have v: "vec_rep h xs" using assms by (simp add: heap_rep_def)
  have "vec_len h = 0 \<longleftrightarrow> xs = []"
    using vec_rep_len [OF v] by (metis length_0_conv unsigned_eq_0_iff)
  then show ?thesis
    using vec_get_rep [OF v, of 0] by (auto simp: priority_heap_get_max_def)
qed

lemma shift_down_empty: "vec_len v = 0 \<Longrightarrow> priority_heap_shift_down v 0 = Some v"
  by (simp add: priority_heap_shift_down_def larger_child_def) (subst shift_down_loop.simps,
    simp add: larger_child_def)

lemma extract_rep:
  assumes rep: "heap_rep h xs" and ne: "xs \<noteq> []" and cap: "heap_room h"
  shows "\<exists>h' ys. priority_heap_extract_max h = Some (Some (xs ! 0), h') \<and> heap_rep h' ys \<and>
    mset xs = add_mset (xs ! 0) (mset ys) \<and> vec_cap h' = vec_cap h"
proof -
  have v: "vec_rep h xs" "heap_ok xs" using rep by (simp_all add: heap_rep_def)
  note r = vec_repD [OF v(1)]
  let ?n = "length xs - 1" and ?sw = "swap xs 0 (length xs - 1)"
  let ?ys = "take ?n ?sw"
  have small: "length xs < 2 ^ 31" using r(3) cap by (simp add: heap_room_def)
  have len: "vec_len h \<noteq> 0" using r(2) ne by auto
  have n: "unat (vec_len h - 1) = ?n"
    using r(2) ne by (simp add: unat_sub word_le_nat_alt Suc_le_eq)
  obtain v1 where v1: "priority_heap_swap_indices h 0 (vec_len h - 1) = Some v1" "vec_rep v1 ?sw"
      "vec_cap v1 = vec_cap h"
    using swap_rep [OF v(1), of 0 "vec_len h - 1"] ne n by auto
  have sw: "?sw \<noteq> []" using ne by (metis length_0_conv length_swap)
  have v2: "vec_rep (vec_drop v1) ?ys" "vec_cap (vec_drop v1) = vec_cap h"
    using vec_drop_rep [OF v1(2) sw] v1(3) by (simp_all add: vec_drop_def)
  have hole: "hole_down ?ys 0" by (rule hole_down_last [OF v(2) ne])
  have "?sw = ?ys @ [?sw ! ?n]"
    using ne by (metis Suc_diff_1 Suc_pred' length_greater_0_conv length_swap lessI order_refl
        take_Suc_conv_app_nth take_all)
  moreover have "?sw ! ?n = xs ! 0" using ne by (simp add: nth_swap)
  moreover have "mset ?sw = mset xs" using ne by simp
  ultimately have mset: "mset xs = add_mset (xs ! 0) (mset ?ys)"
    by (metis mset_append mset_single_iff_right add_mset_add_single mset.simps(1,2))
  have get: "vec_get h 0 = Some (xs ! 0)" using vec_get_rep [OF v(1), of 0] ne by simp
  show ?thesis
  proof (cases "?ys = []")
    case True
    then have "priority_heap_shift_down (vec_drop v1) 0 = Some (vec_drop v1)"
      using vec_rep_len [OF v2(1)] sw
      by (intro shift_down_empty) (simp del: take_eq_Nil add: unsigned_eq_0_iff)
    moreover have "heap_ok ?ys" by (subst True) (simp add: heap_ok_def)
    ultimately show ?thesis
      using len get v1(1) v2 mset
      by (intro exI [of _ "vec_drop v1"] exI [of _ "?ys"])
        (simp add: priority_heap_extract_max_def heap_rep_def)
  next
    case False
    then have pos: "unat (0 :: u32) < length ?ys" by (metis length_greater_0_conv unsigned_0)
    have "length ?ys < 2 ^ 31" using small by simp
    then obtain v3 where v3: "priority_heap_shift_down (vec_drop v1) 0 = Some v3"
        "vec_rep v3 (down ?ys 0)" "vec_cap v3 = vec_cap h"
      using shift_down_loop_rep [OF v2(1) pos] v2(2) by (auto simp: priority_heap_shift_down_def)
    have pos': "0 < length ?ys" using False by (metis length_greater_0_conv)
    have "heap_ok (down ?ys 0)" "mset (down ?ys 0) = mset ?ys"
      by (rule heap_ok_down [OF hole pos'], rule mset_down [OF pos'])
    then show ?thesis
      using len get v1(1) v3 mset
      by (intro exI [of _ v3] exI [of _ "down ?ys 0"])
        (simp add: priority_heap_extract_max_def heap_rep_def)
  qed
qed

text \<open>
  Removing node \<open>i\<close> raises its priority to \<open>UINT32_MAX\<close>, sifts it to the root and extracts the maximum:
  that is node \<open>i\<close> only when no other node has that priority.
\<close>

lemma remove_rep:
  assumes rep: "heap_rep h xs" and i: "unat i < length xs" and cap: "heap_room h"
    and unique: "\<forall>j < length xs. j \<noteq> unat i \<longrightarrow> prio xs j \<noteq> - 1"
  shows "\<exists>h' ys. priority_heap_remove h i = Some h' \<and> heap_rep h' ys \<and>
    mset xs = add_mset (xs ! unat i) (mset ys) \<and> vec_cap h' = vec_cap h"
proof -
  have v: "vec_rep h xs" "heap_ok xs" using rep by (simp_all add: heap_rep_def)
  let ?x = "(xs ! unat i)\<lparr>priority := - 1\<rparr>"
  let ?xs = "xs[unat i := ?x]"
  let ?us = "up ?xs (unat i)"
  have len: "\<not> vec_len h \<le> i" using vec_rep_len [OF v(1)] i by (simp add: word_le_nat_alt)
  obtain v1 where v1: "vec_set h i ?x = Some v1" "vec_rep v1 ?xs" "vec_cap v1 = vec_cap h"
    using vec_set_rep [OF v(1) i] by blast
  obtain v2 where v2: "priority_heap_shift_up v1 i = Some v2" "vec_rep v2 ?us" "vec_cap v2 = vec_cap h"
    using shift_up_rep [OF v1(2), of i] i v1(3) by auto
  have "heap_ok ?us" using hole_up_raise [OF v(2) i] i by (intro heap_ok_up) auto
  then have rep2: "heap_rep v2 ?us" using v2(2) by (simp add: heap_rep_def)
  have mset_us: "mset ?us = add_mset ?x (mset xs - {#xs ! unat i#})"
    using i by (simp add: mset_up mset_update)
  have others: "priority y \<noteq> - 1" if "y \<in># mset xs - {#xs ! unat i#}" for y
  proof -
    have "mset xs - {#xs ! unat i#} = mset (take (unat i) xs) + mset (drop (Suc (unat i)) xs)"
      using arg_cong [OF id_take_nth_drop [OF i], of mset] by simp
    then have "y \<in> set (take (unat i) xs) \<union> set (drop (Suc (unat i)) xs)"
      using that by (metis Un_iff set_mset_mset union_iff)
    then have "\<exists>j < length xs. j \<noteq> unat i \<and> y = xs ! j"
    proof
      assume "y \<in> set (take (unat i) xs)"
      then obtain k where "k < unat i" "y = xs ! k" using i by (auto simp: in_set_conv_nth)
      then show ?thesis using i by (intro exI [of _ k]) simp
    next
      assume "y \<in> set (drop (Suc (unat i)) xs)"
      then obtain k where "k < length xs - Suc (unat i)" "y = xs ! (Suc (unat i) + k)"
        by (auto simp: in_set_conv_nth)
      then show ?thesis using i by (intro exI [of _ "Suc (unat i) + k"]) simp
    qed
    then show ?thesis using unique by blast
  qed
  have ne: "?us \<noteq> []" using i by (metis length_up length_list_update list.size(3) not_less_zero)
  have top: "?us ! 0 = ?x"
  proof (rule ccontr)
    assume "?us ! 0 \<noteq> ?x"
    moreover have "?us ! 0 \<in># mset ?us"
      using ne by (metis length_greater_0_conv nth_mem set_mset_mset)
    ultimately have "priority (?us ! 0) \<noteq> - 1" using mset_us others by auto
    moreover obtain k where k: "k < length ?us" "?us ! k = ?x"
      using mset_us by (metis in_set_conv_nth set_mset_mset union_single_eq_member)
    have "prio ?us k \<le> prio ?us 0" by (rule heap_root_max) (use \<open>heap_ok ?us\<close> k in auto)
    ultimately show False using k(2) by (simp add: word_order.extremum_unique)
  qed
  obtain v3 ys where v3: "priority_heap_extract_max v2 = Some (Some (?us ! 0), v3)" "heap_rep v3 ys"
      "mset ?us = add_mset (?us ! 0) (mset ys)" "vec_cap v3 = vec_cap h"
    using extract_rep [OF rep2 ne] cap v2(3) by (auto simp: heap_room_def)
  have "mset ys = mset xs - {#xs ! unat i#}"
    using v3(3) mset_us unfolding top by simp
  then have "mset xs = add_mset (xs ! unat i) (mset ys)"
    using i by simp
  then show ?thesis
    using len vec_get_rep [OF v(1) i] v1(1) v2(1) v3
    by (intro exI [of _ v3] exI [of _ ys]) (simp add: priority_heap_remove_def)
qed

section \<open>The contract\<close>

text \<open>What the scheduler relies on: a priority queue over the multiset of its nodes.\<close>

locale max_queue =
  fixes rep :: "'q \<Rightarrow> 'n multiset \<Rightarrow> bool"
    and room :: "'q \<Rightarrow> bool"
    and rank :: "'n \<Rightarrow> u32"
    and insert :: "'q \<Rightarrow> 'n \<Rightarrow> 'q option"
    and get_max :: "'q \<Rightarrow> 'n option option"
    and extract_max :: "'q \<Rightarrow> ('n option \<times> 'q) option"
  assumes insert: "rep q M \<Longrightarrow> room q \<Longrightarrow> \<exists>q'. insert q x = Some q' \<and> rep q' (add_mset x M)"
    and get_empty: "rep q {#} \<Longrightarrow> get_max q = Some None"
    and get_max: "rep q M \<Longrightarrow> M \<noteq> {#} \<Longrightarrow>
      \<exists>x \<in># M. get_max q = Some (Some x) \<and> (\<forall>y \<in># M. rank y \<le> rank x)"
    and take_max: "rep q M \<Longrightarrow> room q \<Longrightarrow> get_max q = Some (Some x) \<Longrightarrow>
      \<exists>q'. extract_max q = Some (Some x, q') \<and> rep q' (M - {#x#}) \<and> room q'"
begin

lemma get_max_Some: "rep q M \<Longrightarrow> get_max q = Some (Some x) \<Longrightarrow> x \<in># M \<and> (\<forall>y \<in># M. rank y \<le> rank x)"
  by (cases "M = {#}") (use get_empty [of q] get_max [of q M] in auto)

lemma get_max_None: "rep q M \<Longrightarrow> get_max q = Some None \<Longrightarrow> M = {#}"
  by (cases "M = {#}") (use get_max [of q M] in auto)

lemma get_max_total: "rep q M \<Longrightarrow> \<exists>r. get_max q = Some r"
  by (cases "M = {#}") (use get_empty [of q] get_max [of q M] in auto)

text \<open>Draining the queue yields the nodes in descending priority.\<close>

lemma drain_descending:
  assumes "rep q M" "room q" "get_max q = Some (Some x)" "extract_max q = Some (n, q')"
    and "get_max q' = Some (Some y)"
  shows "n = Some x \<and> y \<in># M - {#x#} \<and> rank y \<le> rank x"
proof -
  have q': "n = Some x" "rep q' (M - {#x#})" using take_max [OF assms(1-3)] assms(4) by auto
  then have "y \<in># M - {#x#}" using get_max_Some assms(5) by blast
  then show ?thesis
    using q'(1) get_max_Some [OF assms(1,3)] by (auto dest: in_diffD)
qed

end

definition queue_rep :: "'a heap \<Rightarrow> 'a heap_node multiset \<Rightarrow> bool" where
  "queue_rep h M \<longleftrightarrow> (\<exists>xs. heap_rep h xs \<and> mset xs = M)"

interpretation hq: max_queue queue_rep heap_room priority
  "\<lambda>h n. priority_heap_insert h (elem n) (priority n)" priority_heap_get_max
  priority_heap_extract_max
proof
  fix h :: "'a heap" and M x
  assume "queue_rep h M"
  then obtain xs where xs: "heap_rep h xs" "mset xs = M" by (auto simp: queue_rep_def)
  show "\<exists>q'. priority_heap_insert h (elem x) (priority x) = Some q' \<and> queue_rep q' (add_mset x M)"
    if "heap_room h"
    using insert_rep [OF xs(1) that, of "elem x" "priority x"] xs(2)
    by (fastforce simp: queue_rep_def)
  show "\<exists>x \<in># M. priority_heap_get_max h = Some (Some x) \<and> (\<forall>y \<in># M. priority y \<le> priority x)"
    if "M \<noteq> {#}"
  proof -
    have "xs \<noteq> []" using xs(2) that by auto
    moreover have "\<forall>y \<in> set xs. priority y \<le> prio xs 0"
      using heap_root_max [of xs] xs(1) by (auto simp: heap_rep_def in_set_conv_nth)
    ultimately show ?thesis
      using get_max_rep [OF xs(1)] xs(2) by (intro bexI [of _ "xs ! 0"]) auto
  qed
  show "\<exists>q'. priority_heap_extract_max h = Some (Some x, q') \<and> queue_rep q' (M - {#x#}) \<and> heap_room q'"
    if "heap_room h" "priority_heap_get_max h = Some (Some x)"
  proof -
    have "xs \<noteq> []" "x = xs ! 0" using get_max_rep [OF xs(1)] that(2) by (auto split: if_splits)
    then show ?thesis
      using extract_rep [OF xs(1) _ that(1)] xs(2) that(1)
      by (fastforce simp: queue_rep_def heap_room_def)
  qed
next
  fix h :: "'a heap"
  assume "queue_rep h {#}"
  then show "priority_heap_get_max h = Some None"
    using get_max_rep [of h] by (auto simp: queue_rep_def)
qed

text \<open>
  C36: inserting into a well-formed heap succeeds, keeps the heap order and adds exactly the new node;
  the vector grows when it is full.
\<close>

theorem priority_heap_insert_correct:
  assumes "queue_rep h M" "heap_room h"
  shows "\<exists>h'. priority_heap_insert h x p = Some h' \<and>
    queue_rep h' (add_mset \<lparr>priority = p, elem = x\<rparr> M)"
  using hq.insert [OF assms, of "\<lparr>priority = p, elem = x\<rparr>"] by simp

lemma queue_rep_init: "queue_rep (vec_init n) {#}"
  by (auto simp: queue_rep_def heap_rep_def heap_ok_def intro: exI [of _ "[]"])

lemma heap_room_init [simp]: "heap_room (vec_init n) \<longleftrightarrow> 0 < n \<and> unat n < 2 ^ 31"
  by (simp add: heap_room_def vec_init_def)

theorem priority_heap_insert_correct_witness:
  "\<exists>h'. priority_heap_insert (vec_init 1) (7 :: u32) 3 = Some h' \<and>
     queue_rep h' {#\<lparr>priority = 3, elem = 7\<rparr>#}"
  by (rule priority_heap_insert_correct [OF queue_rep_init]) simp

text \<open>
  C37: extracting from a well-formed heap with nodes stays inside the array, returns a node of
  greatest priority, and leaves a well-formed heap of the other nodes.
\<close>

theorem priority_heap_extract_max_correct:
  assumes "queue_rep h M" "heap_room h" "M \<noteq> {#}"
  shows "\<exists>x h'. priority_heap_extract_max h = Some (Some x, h') \<and> x \<in># M \<and>
    (\<forall>y \<in># M. priority y \<le> priority x) \<and> queue_rep h' (M - {#x#})"
  using hq.get_max [OF assms(1,3)] hq.take_max [OF assms(1,2)] by blast

theorem priority_heap_extract_max_correct_witness:
  "\<exists>h x h'. priority_heap_insert (vec_init 1) (7 :: u32) 3 = Some h \<and>
     priority_heap_extract_max h = Some (Some x, h') \<and> x = \<lparr>priority = 3, elem = 7\<rparr> \<and> queue_rep h' {#}"
proof -
  have "heap_rep (vec_init 1 :: u32 heap) []"
    by (simp add: heap_rep_def heap_ok_def)
  moreover have "heap_room (vec_init 1 :: u32 heap)" by simp
  ultimately obtain h ys where h: "priority_heap_insert (vec_init 1) (7 :: u32) 3 = Some h"
      "heap_rep h ys" "mset ys = {#\<lparr>priority = 3, elem = 7\<rparr>#}"
    using insert_rep [of "vec_init 1" "[]" 7 3] by auto
  then have q: "queue_rep h {#\<lparr>priority = 3, elem = 7\<rparr>#}" by (auto simp: queue_rep_def)
  have "priority_heap_insert (vec_init 1) (7 :: u32) 3 =
      Some \<lparr>vec_data = [Some \<lparr>priority = 3, elem = 7\<rparr>], vec_len = 1, vec_cap = 1\<rparr>"
    by code_simp
  then have "heap_room h" using h(1) by (auto simp: heap_room_def)
  then show ?thesis
    using priority_heap_extract_max_correct [OF q] h(1) by auto
qed

text \<open>
  Removing node \<open>i\<close> removes exactly that node and keeps the heap well formed, provided no other
  node has the priority \<open>UINT32_MAX\<close> the code gives the node on its way to the root. The server's
  priorities are bytes, so this is always so there.
\<close>

theorem priority_heap_remove_correct:
  assumes "heap_rep h xs" "heap_room h" "unat i < length xs"
    and "\<forall>j < length xs. j \<noteq> unat i \<longrightarrow> priority (xs ! j) \<noteq> - 1"
  shows "\<exists>h' ys. priority_heap_remove h i = Some h' \<and> heap_rep h' ys \<and>
    mset ys = mset xs - {#xs ! unat i#}"
  using remove_rep [OF assms(1,3,2,4)] by (metis add_mset_remove_trivial)

theorem priority_heap_remove_correct_witness:
  "\<exists>h' ys. priority_heap_remove
       \<lparr>vec_data = [Some \<lparr>priority = 9, elem = 1 :: u32\<rparr>, Some \<lparr>priority = 4, elem = 2\<rparr>], vec_len = 2, vec_cap = 2\<rparr> 1 =
       Some h' \<and> heap_rep h' ys \<and> mset ys = {#\<lparr>priority = 9, elem = 1\<rparr>#}"
proof -
  let ?xs = "[\<lparr>priority = 9, elem = 1 :: u32\<rparr>, \<lparr>priority = 4, elem = 2\<rparr>]"
  let ?h = "\<lparr>vec_data = map Some ?xs, vec_len = 2, vec_cap = 2\<rparr>"
  have "heap_rep ?h ?xs"
    by (auto simp: heap_rep_def vec_rep_def heap_ok_def less_Suc_eq)
  then show ?thesis
    using priority_heap_remove_correct [of ?h ?xs 1] by (auto simp: heap_room_def less_Suc_eq)
qed

text \<open>
  Without that proviso the wrong node goes: when the root has priority \<open>UINT32_MAX\<close> already, removing
  its child removes the root instead, and the child stays with the priority \<open>UINT32_MAX\<close>.
\<close>

theorem priority_heap_remove_max_priority:
  "\<exists>h'. priority_heap_remove
       \<lparr>vec_data = [Some \<lparr>priority = - 1, elem = 1 :: u32\<rparr>, Some \<lparr>priority = 4, elem = 2\<rparr>], vec_len = 2, vec_cap = 2\<rparr> 1 =
       Some h' \<and> heap_rep h' [\<lparr>priority = - 1, elem = 2\<rparr>]"
proof -
  have "priority_heap_remove
       \<lparr>vec_data = [Some \<lparr>priority = - 1, elem = 1 :: u32\<rparr>, Some \<lparr>priority = 4, elem = 2\<rparr>], vec_len = 2, vec_cap = 2\<rparr> 1 =
     Some \<lparr>vec_data = [Some \<lparr>priority = - 1, elem = 2\<rparr>, Some \<lparr>priority = - 1, elem = 1\<rparr>], vec_len = 1, vec_cap = 2\<rparr>"
    by code_simp
  then show ?thesis by (simp add: heap_rep_def vec_rep_def heap_ok_def)
qed

end
