(* ===== verification/Scheduler_Base.thy ===== *)
theory Scheduler_Base
  imports Protocol
begin

text \<open>
  \<open>src/scheduler/scheduler.c\<close>: the recipients of answers and their notification. A recipient is a heap
  object; \<open>recipients\<close> maps the addresses in use to the objects, and using a freed address is
  undefined behaviour. System calls are recorded as events, in the order they are made.
\<close>

datatype recipient_type = RECIPIENT_FUTEX | RECIPIENT_FD

record recipient =
  rtype :: recipient_type
  rdata :: u32

datatype event = Futex_wake nat | Send u32 "u8 list" | Close u32

record world =
  recipients :: "nat \<rightharpoonup> recipient"
  events :: "event list"

definition SCHEDULER_NO_JOB_ID_SENTINEL :: u32 where "SCHEDULER_NO_JOB_ID_SENTINEL = - 1"
definition SCHEDULER_NO_ANSWER_SENTINEL :: u64 where "SCHEDULER_NO_ANSWER_SENTINEL = 0"

text \<open>\<open>p\<close> is the fresh address \<open>calloc\<close> returns.\<close>

definition scheduler_create_job_recipient ::
  "nat \<Rightarrow> recipient_type \<Rightarrow> u32 \<Rightarrow> world \<Rightarrow> world" where
  "scheduler_create_job_recipient p t d w =
     w\<lparr>recipients := (recipients w)(p \<mapsto> \<lparr>rtype = t, rdata = d\<rparr>)\<rparr>"

definition scheduler_destroy_job_recipient :: "nat \<Rightarrow> world \<Rightarrow> world option" where
  "scheduler_destroy_job_recipient p w =
     (if p \<in> dom (recipients w) then Some (w\<lparr>recipients := (recipients w)(p := None)\<rparr>) else None)"

definition emit :: "event \<Rightarrow> world \<Rightarrow> world" where
  "emit e w = w\<lparr>events := events w @ [e]\<rparr>"

definition scheduler_job_notify_recipient :: "nat option \<Rightarrow> u64 \<Rightarrow> world \<Rightarrow> world option" where
  "scheduler_job_notify_recipient r a w =
     (let response = protocol_response_to_be \<lparr>answer = a\<rparr>
      in case r of
        None \<Rightarrow> Some w
      | Some p \<Rightarrow>
          do {
            obj \<leftarrow> recipients w p;
            case rtype obj of
              RECIPIENT_FUTEX \<Rightarrow> Some (emit (Futex_wake p) w)
            | RECIPIENT_FD \<Rightarrow>
                (let w = emit (Send (rdata obj) (take PROTOCOL_RES_SIZE (response_memory response))) w;
                     w = emit (Close (rdata obj)) w
                 in scheduler_destroy_job_recipient p w)
          })"

lemma notify_fd:
  assumes "recipients w p = Some \<lparr>rtype = RECIPIENT_FD, rdata = fd\<rparr>"
  shows "\<exists>w'. scheduler_job_notify_recipient (Some p) a w = Some w' \<and>
    events w' = events w @ [Send fd (be64 a), Close fd] \<and> recipients w' = (recipients w)(p := None)"
  using assms
  by (auto simp: scheduler_job_notify_recipient_def Let_def emit_def scheduler_destroy_job_recipient_def
      response_memory_def protocol_response_to_be_def response_be64 PROTOCOL_RES_SIZE_def)

lemma notify_freed: "recipients w p = None \<Longrightarrow> scheduler_job_notify_recipient (Some p) a w = None"
  by (simp add: scheduler_job_notify_recipient_def)

text \<open>
  Notifying a connection sends exactly the eight big-endian bytes of the answer, closes the
  socket once and frees the recipient, which no later notification may use: the same recipient notified
  again is undefined behaviour.
\<close>

theorem notify_recipient_once:
  assumes "recipients w p = Some \<lparr>rtype = RECIPIENT_FD, rdata = fd\<rparr>"
  shows "\<exists>w'. scheduler_job_notify_recipient (Some p) a w = Some w' \<and>
    events w' = events w @ [Send fd (be64 a), Close fd] \<and>
    recipients w' = (recipients w)(p := None) \<and>
    scheduler_job_notify_recipient (Some p) b w' = None"
  using notify_fd [OF assms, of a] notify_freed [of _ p b] by fastforce

theorem notify_recipient_once_witness:
  "\<exists>w'. scheduler_job_notify_recipient (Some 4) 258
       \<lparr>recipients = [4 \<mapsto> \<lparr>rtype = RECIPIENT_FD, rdata = 9\<rparr>], events = []\<rparr> = Some w' \<and>
     events w' = [Send 9 (be64 258), Close 9]"
  using notify_recipient_once [of "\<lparr>recipients = [4 \<mapsto> \<lparr>rtype = RECIPIENT_FD, rdata = 9\<rparr>], events = []\<rparr>" 4 9 258]
  by auto

end
