(* ===== verification/Sched_Priority.thy ===== *)
theory Sched_Priority
  imports Free_List Priority_Heap Scheduler_Base
begin

text \<open>
  \<open>src/scheduler/sched_priority.c\<close>: the configured scheduler. Jobs live in a freelist; a heap of their
  indices, ordered by priority, is copied by every submission and by every worker. A job's range is cut
  into blocks of \<open>2 ^ 16\<close> numbers that the workers take one at a time.

  The operations are modelled as the single writer and one worker at a time run them: the locks only
  make them atomic (\<open>Spin_Lock\<close>).
\<close>

section \<open>State\<close>

record job =
  block_idx :: u64
  block_size :: u64
  block_count :: u64
  job_recipient :: "nat option"
  job_request :: request
  job_id :: u32
  rc :: u32

record scheduler =
  jobs :: "job freelist"
  jobs_r :: "u32 heap"
  jobs_w :: "u32 heap"
  last_job_id :: u32

text \<open>The locals of a worker thread that outlive one call of \<open>scheduler_priority_schedule\<close>.\<close>

record worker =
  local_jobs :: "u32 heap"
  prev_max_job_id :: u32
  prev_job_id :: u32
  target_hash :: "u8 list"

definition BLOCK_SIZE :: u64 where "BLOCK_SIZE = 2 ^ 16"

definition scheduler_priority_create :: "u32 \<Rightarrow> scheduler" where
  "scheduler_priority_create default_cap =
     \<lparr>jobs = freelist_init default_cap, jobs_r = vec_init default_cap, jobs_w = vec_init default_cap,
      last_job_id = 0\<rparr>"

text \<open>The worker's heap is zeroed and its target hash is indeterminate (\<open>junk\<close>).\<close>

definition worker_create :: "u8 list \<Rightarrow> worker" where
  "worker_create junk =
     \<lparr>local_jobs = \<lparr>vec_data = [], vec_len = 0, vec_cap = 0\<rparr>, prev_max_job_id = 0,
      prev_job_id = SCHEDULER_NO_JOB_ID_SENTINEL, target_hash = junk\<rparr>"

section \<open>Jobs\<close>

definition job_mark_as_done :: "job \<Rightarrow> job" where
  "job_mark_as_done j = j\<lparr>block_idx := block_count j\<rparr>"

definition job_is_done :: "job \<Rightarrow> bool" where
  "job_is_done j \<longleftrightarrow> block_count j \<le> block_idx j"

definition new_job :: "request \<Rightarrow> nat option \<Rightarrow> u32 \<Rightarrow> job" where
  "new_job request recipient next_id =
     (let block_size = BLOCK_SIZE;
          difficulty = req_end request - req_start request
      in \<lparr>block_idx = 0, block_size = block_size,
          block_count = (difficulty + (block_size - 1)) div block_size,
          job_recipient = recipient, job_request = request, job_id = next_id, rc = 0\<rparr>)"

definition update_job :: "(job \<Rightarrow> job) \<Rightarrow> u32 \<Rightarrow> scheduler \<Rightarrow> scheduler option" where
  "update_job f i s =
     do {
       j \<leftarrow> freelist_get (jobs s) i;
       js \<leftarrow> freelist_set (jobs s) i (f j);
       Some (s\<lparr>jobs := js\<rparr>)
     }"

definition enter_job :: "u32 \<Rightarrow> scheduler \<Rightarrow> scheduler option" where
  "enter_job = update_job (\<lambda>j. j\<lparr>rc := rc j + 1\<rparr>)"

definition leave_job :: "u32 \<Rightarrow> scheduler \<Rightarrow> scheduler option" where
  "leave_job = update_job (\<lambda>j. j\<lparr>rc := rc j - 1\<rparr>)"

section \<open>Submission\<close>

text \<open>The clean-up loop; after a removal \<open>i--\<close> and the loop's \<open>i++\<close> leave \<open>i\<close> as it was.\<close>

partial_function (option) cleanup_jobs ::
  "u32 \<Rightarrow> job freelist \<Rightarrow> u32 heap \<Rightarrow> (job freelist \<times> u32 heap) option" where
  "cleanup_jobs i js heap =
     (if i < vec_len heap
      then do {
        node \<leftarrow> vec_get heap i;
        j \<leftarrow> freelist_get js (elem node);
        if job_is_done j \<and> rc j = 0
        then do {
          js \<leftarrow> freelist_remove js (elem node);
          heap \<leftarrow> priority_heap_remove heap i;
          cleanup_jobs i js heap
        }
        else cleanup_jobs (i + 1) js heap
      }
      else Some (js, heap))"

declare cleanup_jobs.simps [code]

text \<open>The part of \<open>scheduler_priority_submit\<close> after the cache lookup has missed.\<close>

definition submit_job :: "request \<Rightarrow> nat option \<Rightarrow> scheduler \<Rightarrow> (u32 \<times> scheduler) option" where
  "submit_job request recipient s =
     do {
       let next_id = last_job_id s + 1;
       let j = new_job request recipient next_id;
       (job_idx, js) \<leftarrow> freelist_insert (jobs s) j;
       heap_w \<leftarrow> vec_copy (jobs_w s) (jobs_r s);
       (js, heap_w) \<leftarrow> cleanup_jobs 0 js heap_w;
       heap_w \<leftarrow> priority_heap_insert heap_w job_idx (ucast (req_priority request));
       Some (next_id, \<lparr>jobs = js, jobs_r = heap_w, jobs_w = jobs_r s, last_job_id = next_id\<rparr>)
     }"

text \<open>\<open>scheduler_priority_cancel\<close> marks every job with this id.\<close>

definition scheduler_priority_cancel :: "u32 \<Rightarrow> scheduler \<Rightarrow> scheduler option" where
  "scheduler_priority_cancel jid s =
     for_loop 0 (unat (vec_len (jobs_r s)))
       (\<lambda>i r. do {
          s \<leftarrow> r;
          node \<leftarrow> vec_get (jobs_r s) (word_of_nat i);
          j \<leftarrow> freelist_get (jobs s) (elem node);
          if job_id j \<noteq> jid then Some s
          else update_job (\<lambda>j. j\<lparr>block_idx := block_count j\<rparr>) (elem node) s
        })
       (Some s)"

section \<open>Taking a block\<close>

record block =
  blk_job :: u32
  blk_start :: u64
  blk_end :: u64

definition block_start :: "job \<Rightarrow> u64 \<Rightarrow> u64" where
  "block_start j k = req_start (job_request j) + k * block_size j"

definition block_end :: "job \<Rightarrow> u64 \<Rightarrow> u64" where
  "block_end j k =
     (let a = req_end (job_request j); b = block_start j k + block_size j - 1 in if a < b then a else b)"

partial_function (option) take_block ::
  "scheduler \<Rightarrow> worker \<Rightarrow> (block option \<times> scheduler \<times> worker) option" where
  "take_block s w =
     do {
       m \<leftarrow> priority_heap_get_max (local_jobs w);
       case m of
         None \<Rightarrow> Some (None, s, w)
       | Some node \<Rightarrow>
           do {
             let i = elem node;
             j \<leftarrow> freelist_get (jobs s) i;
             let k = block_idx j;
             s \<leftarrow> update_job (\<lambda>j. j\<lparr>block_idx := block_idx j + 1\<rparr>) i s;
             if k \<le> block_count j
             then
               (let w = (if prev_job_id w \<noteq> job_id j
                         then w\<lparr>target_hash := req_hash (job_request j), prev_job_id := job_id j\<rparr>
                         else w)
                in Some (Some \<lparr>blk_job = i, blk_start = block_start j k, blk_end = block_end j k\<rparr>, s, w))
             else do {
               (_, heap) \<leftarrow> priority_heap_extract_max (local_jobs w);
               take_block s (w\<lparr>local_jobs := heap\<rparr>)
             }
           }
     }"

declare take_block.simps [code]

text \<open>
  One call of \<open>scheduler_priority_schedule\<close> up to its waiting loop; \<open>None\<close> as the block is the result
  \<open>false\<close>, after which the worker waits for a newer job.
\<close>

definition scheduler_priority_schedule ::
  "scheduler \<Rightarrow> worker \<Rightarrow> (block option \<times> scheduler \<times> worker) option" where
  "scheduler_priority_schedule s w =
     do {
       w \<leftarrow> (if prev_max_job_id w < last_job_id s
             then do {
               heap \<leftarrow> vec_copy (local_jobs w) (jobs_r s);
               Some (w\<lparr>local_jobs := heap, prev_max_job_id := last_job_id s\<rparr>)
             }
             else Some w);
       take_block s w
     }"

section \<open>The blocks of a job\<close>

text \<open>
  \<open>in_block j k x\<close>: the worker that takes block \<open>k\<close> of job \<open>j\<close> is given a range that holds \<open>x\<close>.
\<close>

definition in_block :: "job \<Rightarrow> u64 \<Rightarrow> u64 \<Rightarrow> bool" where
  "in_block j k x \<longleftrightarrow> block_start j k \<le> x \<and> x \<le> block_end j k"

text \<open>The requests whose block bounds do not wrap around \<open>2 ^ 64\<close>.\<close>

definition range_ok :: "request \<Rightarrow> bool" where
  "range_ok req \<longleftrightarrow> req_start req \<le> req_end req \<and> unat (req_end req) + 2 ^ 17 \<le> 2 ^ 64"

lemma new_job_simps [simp]:
  "job_request (new_job req rcp jid) = req" "block_idx (new_job req rcp jid) = 0"
  "job_id (new_job req rcp jid) = jid" "rc (new_job req rcp jid) = 0"
  "job_recipient (new_job req rcp jid) = rcp" "unat (block_size (new_job req rcp jid)) = 2 ^ 16"
  by (simp_all add: new_job_def BLOCK_SIZE_def Let_def)

lemma range_okD:
  assumes "range_ok req"
  shows "unat (req_start req) \<le> unat (req_end req)" "unat (req_end req) + 2 ^ 17 \<le> 2 ^ 64"
    "unat (req_end req - req_start req) = unat (req_end req) - unat (req_start req)"
  using assms by (simp_all add: range_ok_def unat_sub word_le_nat_alt)

lemma unat_block_count:
  assumes "range_ok req"
  shows "unat (block_count (new_job req rcp jid)) =
    (unat (req_end req) - unat (req_start req) + (2 ^ 16 - 1)) div 2 ^ 16"
proof -
  note r = range_okD [OF assms]
  have "unat (req_end req - req_start req + (BLOCK_SIZE - 1)) =
      unat (req_end req) - unat (req_start req) + (2 ^ 16 - 1)"
    using r by (simp add: BLOCK_SIZE_def unat_word_ariths)
  then show ?thesis
    by (simp add: new_job_def BLOCK_SIZE_def unat_div)
qed

lemma unat_block:
  assumes ok: "range_ok req" and k: "k \<le> block_count (new_job req rcp jid)"
  shows "unat (block_start (new_job req rcp jid) k) = unat (req_start req) + unat k * 2 ^ 16"
    "unat (block_end (new_job req rcp jid) k) =
       min (unat (req_end req)) (unat (req_start req) + unat k * 2 ^ 16 + (2 ^ 16 - 1))"
proof -
  let ?a = "unat (req_start req)" and ?b = "unat (req_end req)" and ?j = "new_job req rcp jid"
  note r = range_okD [OF ok]
  have "unat k * 2 ^ 16 \<le> ?b - ?a + (2 ^ 16 - 1)"
    using k by (simp add: word_le_nat_alt unat_block_count [OF ok] less_eq_div_iff_mult_less_eq)
  then have bound: "?a + unat k * 2 ^ 16 + 2 ^ 16 < 2 ^ 64"
    using r by simp
  show start: "unat (block_start ?j k) = ?a + unat k * 2 ^ 16"
    using bound by (simp add: block_start_def unat_word_ariths)
  have "unat (block_start ?j k + block_size ?j) = ?a + unat k * 2 ^ 16 + 2 ^ 16"
    using bound by (simp add: unat_word_ariths start)
  then have "unat (block_start ?j k + block_size ?j - 1) = ?a + unat k * 2 ^ 16 + (2 ^ 16 - 1)"
    by (simp add: unat_sub word_le_nat_alt)
  then show "unat (block_end ?j k) = min ?b (?a + unat k * 2 ^ 16 + (2 ^ 16 - 1))"
    by (simp add: block_end_def Let_def word_less_nat_alt min_def)
qed

lemma div_block: "(y :: nat) div 2 ^ 16 = k \<longleftrightarrow> k * 2 ^ 16 \<le> y \<and> y < k * 2 ^ 16 + 2 ^ 16"
  by auto

lemma in_block_iff:
  assumes ok: "range_ok req" and k: "k \<le> block_count (new_job req rcp jid)"
  shows "in_block (new_job req rcp jid) k x \<longleftrightarrow> req_start req \<le> x \<and> x \<le> req_end req \<and>
    (unat x - unat (req_start req)) div 2 ^ 16 = unat k"
  unfolding in_block_def word_le_nat_alt unat_block [OF assms] div_block min.bounded_iff
  by auto

text \<open>
  C10: for every range that ends at least \<open>2 ^ 17\<close> below \<open>2 ^ 64\<close>, the blocks \<open>0, ..., block_count\<close> of a new job
  partition the range: every number of \<open>start..end\<close> is in exactly one of them, and none of them holds a number outside. So
  searching every block once searches the range once, and nothing else.
\<close>

theorem job_blocks_partition:
  assumes "range_ok req"
  shows "(x \<in> {req_start req .. req_end req} \<longrightarrow>
      (\<exists>!k. k \<le> block_count (new_job req rcp jid) \<and> in_block (new_job req rcp jid) k x)) \<and>
    (\<forall>k. k \<le> block_count (new_job req rcp jid) \<longrightarrow> in_block (new_job req rcp jid) k x \<longrightarrow>
      x \<in> {req_start req .. req_end req})"
proof (intro conjI impI allI)
  let ?j = "new_job req rcp jid"
  assume x: "x \<in> {req_start req .. req_end req}"
  let ?k = "(x - req_start req) div 2 ^ 16"
  note r = range_okD [OF assms]
  have k: "unat ?k = (unat x - unat (req_start req)) div 2 ^ 16"
    using x by (simp add: unat_div unat_sub word_le_nat_alt)
  have "unat ?k \<le> unat (block_count ?j)"
    unfolding k unat_block_count [OF assms] using x by (intro div_le_mono) (simp add: word_le_nat_alt, linarith)
  then have kl: "?k \<le> block_count ?j" by (simp add: word_le_nat_alt)
  show "\<exists>!k. k \<le> block_count ?j \<and> in_block ?j k x"
  proof (rule ex1I [of _ ?k])
    show "?k \<le> block_count ?j \<and> in_block ?j ?k x"
      unfolding in_block_iff [OF assms kl] using kl x k by simp
  next
    fix k' assume "k' \<le> block_count ?j \<and> in_block ?j k' x"
    then show "k' = ?k"
      using in_block_iff [OF assms, of k' rcp jid x] k by (simp add: word_unat_eq_iff)
  qed
next
  fix k assume "k \<le> block_count (new_job req rcp jid)" "in_block (new_job req rcp jid) k x"
  then show "x \<in> {req_start req .. req_end req}" using in_block_iff [OF assms] by simp
qed

theorem job_blocks_partition_witness:
  "\<exists>!k. k \<le> block_count (new_job \<lparr>req_hash = [], req_start = 1, req_end = 200000, req_priority = 1\<rparr> None 1) \<and>
     in_block (new_job \<lparr>req_hash = [], req_start = 1, req_end = 200000, req_priority = 1\<rparr> None 1) k 70000"
  using job_blocks_partition [of "\<lparr>req_hash = [], req_start = 1, req_end = 200000, req_priority = 1\<rparr>" 70000 None 1]
  by (simp add: range_ok_def)

text \<open>
  When \<open>end - start\<close> is a multiple of the block size, \<open>end\<close> itself is only in block number
  \<open>block_count\<close>: the blocks before it, after which the job already counts as done, leave it out.
\<close>

theorem job_last_number_in_last_block:
  assumes "range_ok req" "2 ^ 16 dvd unat (req_end req - req_start req)"
    and "k \<le> block_count (new_job req rcp jid)"
  shows "in_block (new_job req rcp jid) k (req_end req) \<longleftrightarrow> k = block_count (new_job req rcp jid)"
proof -
  let ?d = "unat (req_end req) - unat (req_start req)"
  note r = range_okD [OF assms(1)]
  have "(?d + (2 ^ 16 - 1)) div 2 ^ 16 = ?d div 2 ^ 16"
    using assms(2) r(3) by (auto simp: dvd_def)
  then have "unat (block_count (new_job req rcp jid)) = ?d div 2 ^ 16"
    by (simp only: unat_block_count [OF assms(1)])
  then have "k = block_count (new_job req rcp jid) \<longleftrightarrow> unat k = ?d div 2 ^ 16"
    by (simp only: word_unat_eq_iff)
  then show ?thesis
    unfolding in_block_iff [OF assms(1,3)] word_le_nat_alt using r(1) by (metis order_refl)
qed

theorem job_last_number_in_last_block_witness:
  "\<not> in_block (new_job \<lparr>req_hash = [], req_start = 1, req_end = 65537, req_priority = 1\<rparr> None 1) 0 65537"
proof -
  let ?req = "\<lparr>req_hash = [], req_start = 1, req_end = 65537, req_priority = 1\<rparr>"
  have "block_count (new_job ?req None 1) = 1"
    by code_simp
  then show ?thesis
    using job_last_number_in_last_block [of ?req 0 None 1] by (simp add: range_ok_def)
qed

section \<open>The invariant\<close>

text \<open>
  \<open>nodes_ok xs m\<close>: the nodes \<open>xs\<close> name jobs of \<open>m\<close>, no job twice, each with its own priority.
  \<open>sched_inv s m\<close>: the freelist holds the jobs \<open>m\<close>, and the read heap has one node for each.
\<close>

definition nodes_ok :: "u32 heap_node list \<Rightarrow> (u32 \<rightharpoonup> job) \<Rightarrow> bool" where
  "nodes_ok xs m \<longleftrightarrow> distinct (map elem xs) \<and>
     (\<forall>n \<in> set xs. \<exists>j. m (elem n) = Some j \<and> priority n = ucast (req_priority (job_request j)))"

definition sched_inv :: "scheduler \<Rightarrow> (u32 \<rightharpoonup> job) \<Rightarrow> bool" where
  "sched_inv s m \<longleftrightarrow> fl_rep (jobs s) m \<and>
     (\<exists>xs. heap_rep (jobs_r s) xs \<and> nodes_ok xs m \<and> elem ` set xs = dom m)"

definition removable :: "(u32 \<rightharpoonup> job) \<Rightarrow> u32 set" where
  "removable m = {i. \<exists>j. m i = Some j \<and> job_is_done j \<and> rc j = 0}"

lemma heap_rep_init [simp]: "heap_rep (vec_init n) []"
  by (simp add: heap_rep_def heap_ok_def)

lemma sched_inv_create: "sched_inv (scheduler_priority_create n) Map.empty"
  by (auto simp: sched_inv_def scheduler_priority_create_def fl_rep_init nodes_ok_def
      intro!: exI [of _ "[]"])

lemma byte_not_max: "(ucast (p :: u8) :: u32) \<noteq> - 1"
proof
  assume "(ucast p :: u32) = - 1"
  then have "bit (ucast p :: u32) 8" by simp
  then have "bit p 8" by (simp add: bit_simps)
  then show False using bit_imp_le_length [of p 8] by simp
qed

lemma nodes_ok_remove:
  assumes ok: "nodes_ok xs m" and k: "k < length xs"
    and mset: "mset xs = add_mset (xs ! k) (mset ys)"
  shows "nodes_ok ys (m(elem (xs ! k) := None))" "elem ` set ys = elem ` set xs - {elem (xs ! k)}"
    "set ys \<subseteq> set xs"
proof -
  let ?n = "xs ! k"
  have eq: "mset (map elem xs) = mset (map elem (?n # ys))" by (simp add: mset)
  have dist: "distinct (map elem (?n # ys))"
    using ok mset_eq_imp_distinct_iff [OF eq] by (simp add: nodes_ok_def)
  have set: "set xs = insert ?n (set ys)" using arg_cong [OF mset, of set_mset] by simp
  then show "set ys \<subseteq> set xs" by blast
  show "elem ` set ys = elem ` set xs - {elem ?n}" using dist set by auto
  show "nodes_ok ys (m(elem ?n := None))"
    unfolding nodes_ok_def
  proof (intro conjI ballI)
    show "distinct (map elem ys)" using dist by simp
  next
    fix n assume n: "n \<in> set ys"
    have "elem ?n \<notin> elem ` set ys" using dist by simp
    then have "elem n \<noteq> elem ?n" using n by (metis image_eqI)
    then show "\<exists>j. (m(elem ?n := None)) (elem n) = Some j \<and>
        priority n = ucast (req_priority (job_request j))"
      using ok n set by (auto simp: nodes_ok_def)
  qed
qed

section \<open>Submission\<close>

lemma restrict_map_all [simp]: "m |` UNIV = m"
  by (simp add: restrict_map_def)

text \<open>\<open>cleaned m xs c hc r D ys\<close>: the result \<open>r\<close> of a clean-up that removed the jobs \<open>D\<close>.\<close>

definition cleaned :: "(u32 \<rightharpoonup> job) \<Rightarrow> u32 heap_node list \<Rightarrow> u32 \<Rightarrow> u32 \<Rightarrow>
    job freelist \<times> u32 heap \<Rightarrow> u32 set \<Rightarrow> u32 heap_node list \<Rightarrow> bool" where
  "cleaned m xs c hc r D ys \<longleftrightarrow> D \<subseteq> removable m \<inter> elem ` set xs \<and>
     fl_rep (fst r) (m |` (- D)) \<and> fl_cap (fst r) = c \<and> heap_rep (snd r) ys \<and> vec_cap (snd r) = hc \<and>
     nodes_ok ys (m |` (- D)) \<and> elem ` set ys = elem ` set xs - D"

text \<open>One round of the clean-up: a removable job goes, together with its node; any other node is passed over.\<close>

lemma cleanup_round_keeps:
  assumes "fl_rep js m" "heap_rep h xs" "nodes_ok xs m" "unat i < length xs" "elem (xs ! unat i) \<notin> removable m"
  shows "cleanup_jobs i js h = cleanup_jobs (i + 1) js h"
proof -
  have vrep: "vec_rep h xs" using assms(2) by (simp add: heap_rep_def)
  obtain j where j: "m (elem (xs ! unat i)) = Some j" using assms(3) nth_mem [OF assms(4)] by (auto simp: nodes_ok_def)
  then have "\<not> (job_is_done j \<and> rc j = 0)" using assms(5) by (auto simp: removable_def)
  then show ?thesis
    using vec_get_rep [OF vrep assms(4)] fl_rep_get [OF assms(1) j] vec_rep_len [OF vrep] assms(4)
    by (subst cleanup_jobs.simps) (auto simp: word_less_nat_alt)
qed

lemma cleanup_round_removes:
  assumes "fl_rep js m" "heap_rep h xs" "heap_room h" "nodes_ok xs m" "unat i < length xs" "elem (xs ! unat i) \<in> removable m"
  obtains js1 h1 ys where "cleanup_jobs i js h = cleanup_jobs i js1 h1" "fl_rep js1 (m(elem (xs ! unat i) := None))"
    "heap_rep h1 ys" "heap_room h1" "nodes_ok ys (m(elem (xs ! unat i) := None))" "length xs = Suc (length ys)"
    "\<And>r D zs. cleaned (m(elem (xs ! unat i) := None)) ys (fl_cap js1) (vec_cap h1) r D zs \<Longrightarrow>
       cleaned m xs (fl_cap js) (vec_cap h) r (insert (elem (xs ! unat i)) D) zs"
proof -
  let ?n = "xs ! unat i"
  have vrep: "vec_rep h xs" using assms(2) by (simp add: heap_rep_def)
  obtain j where j: "m (elem ?n) = Some j" "job_is_done j" "rc j = 0" using assms(6) by (auto simp: removable_def)
  obtain js1 where js1: "freelist_remove js (elem ?n) = Some js1" "fl_rep js1 (m(elem ?n := None))" "fl_cap js1 = fl_cap js"
    using fl_rep_remove [OF assms(1)] j(1) by blast
  have "prio xs k \<noteq> - 1" if k: "k < length xs" for k
  proof -
    obtain p :: u8 where "prio xs k = ucast p" using assms(4) nth_mem [OF k] unfolding nodes_ok_def by blast
    then show ?thesis by (simp add: byte_not_max)
  qed
  then obtain h1 ys where h1: "priority_heap_remove h i = Some h1" "heap_rep h1 ys" "mset xs = add_mset ?n (mset ys)"
      "vec_cap h1 = vec_cap h"
    using remove_rep [OF assms(2,5,3)] by blast
  note ok1 = nodes_ok_remove [OF assms(4,5) h1(3)]
  have "cleanup_jobs i js h = cleanup_jobs i js1 h1"
    using vec_get_rep [OF vrep assms(5)] fl_rep_get [OF assms(1) j(1)] vec_rep_len [OF vrep] assms(5) j(2,3) js1(1) h1(1)
    by (subst cleanup_jobs.simps) (simp add: word_less_nat_alt)
  moreover have "cleaned m xs (fl_cap js) (vec_cap h) r (insert (elem ?n) D) zs"
    if c: "cleaned (m(elem ?n := None)) ys (fl_cap js1) (vec_cap h1) r D zs" for r D zs
  proof -
    have restr: "m(elem ?n := None) |` (- D) = m |` (- insert (elem ?n) D)" by (auto simp: restrict_map_def)
    have "D \<subseteq> removable (m(elem ?n := None)) \<inter> elem ` set ys" using c by (simp add: cleaned_def)
    then have "insert (elem ?n) D \<subseteq> removable m \<inter> elem ` set xs"
      using j ok1(2) nth_mem [OF assms(5)] by (auto simp: removable_def split: if_splits)
    moreover have "elem ` set xs - insert (elem ?n) D = elem ` set ys - D" unfolding ok1(2) by (rule Diff_insert2)
    ultimately show ?thesis using c unfolding cleaned_def restr js1(3) h1(4) by simp
  qed
  moreover have "length xs = Suc (length ys)" using arg_cong [OF h1(3), of size] by simp
  moreover have "heap_room h1" using assms(3) h1(4) by (simp add: heap_room_def)
  ultimately show thesis using that js1(2) h1(2) ok1(1) by blast
qed

lemma heap_index_next:
  fixes i :: u32
  assumes "heap_rep h xs" "heap_room h" "unat i < length xs"
  shows "unat (i + 1) = Suc (unat i)"
proof -
  have "length xs < 2 ^ 31" using assms(1,2) vec_rep_cap [of h xs] by (simp add: heap_rep_def heap_room_def)
  then show ?thesis using assms(3) by (simp add: unat_word_ariths)
qed

lemma cleanup_correct:
  assumes "fl_rep js m" "heap_rep h xs" "heap_room h" "nodes_ok xs m"
  shows "\<exists>r D ys. cleanup_jobs i js h = Some r \<and> cleaned m xs (fl_cap js) (vec_cap h) r D ys"
  using assms
proof (induction "2 * length xs - unat i" arbitrary: i js h xs m rule: less_induct)
  case less
  show ?case
  proof (cases "unat i < length xs")
    case False
    have "vec_rep h xs" using less.prems(2) by (simp add: heap_rep_def)
    then have "\<not> i < vec_len h" using False vec_rep_len [of h xs] by (simp add: word_less_nat_alt)
    then show ?thesis
      using less.prems
      by (subst cleanup_jobs.simps)
        (auto simp: cleaned_def intro!: exI [of _ "(js, h)"] exI [of _ "{}"] exI [of _ xs])
  next
    case True
    show ?thesis
    proof (cases "elem (xs ! unat i) \<in> removable m")
      case fin: True
      obtain js1 h1 ys where st: "cleanup_jobs i js h = cleanup_jobs i js1 h1" "fl_rep js1 (m(elem (xs ! unat i) := None))"
          "heap_rep h1 ys" "heap_room h1" "nodes_ok ys (m(elem (xs ! unat i) := None))" "length xs = Suc (length ys)"
          "\<And>r D zs. cleaned (m(elem (xs ! unat i) := None)) ys (fl_cap js1) (vec_cap h1) r D zs \<Longrightarrow>
             cleaned m xs (fl_cap js) (vec_cap h) r (insert (elem (xs ! unat i)) D) zs"
        using cleanup_round_removes [OF less.prems True fin] by metis
      have "2 * length ys - unat i < 2 * length xs - unat i" using True st(6) by simp
      from less.hyps [OF this st(2-5)] show ?thesis using st(1,7) by metis
    next
      case False
      have "2 * length xs - unat (i + 1) < 2 * length xs - unat i"
        using True heap_index_next [OF less.prems(2,3) True] by simp
      from less.hyps [OF this less.prems] show ?thesis
        using cleanup_round_keeps [OF less.prems(1,2,4) True False] by simp
    qed
  qed
qed

text \<open>
  A done job that no worker refers to is removed when no such job stands before it in the heap: the nodes before
  it stay where they are.
\<close>

lemma cleanup_removes:
  assumes "fl_rep js m" "heap_rep h xs" "heap_room h" "nodes_ok xs m" "unat i \<le> p" "p < length xs"
    and "elem (xs ! p) \<in> removable m" "\<forall>q < p. elem (xs ! q) \<notin> removable m"
  shows "\<exists>r D ys. cleanup_jobs i js h = Some r \<and> elem (xs ! p) \<in> D \<and> cleaned m xs (fl_cap js) (vec_cap h) r D ys"
  using assms(5)
proof (induction "p - unat i" arbitrary: i)
  case 0
  then have p: "p = unat i" by simp
  obtain js1 h1 ys where st: "cleanup_jobs i js h = cleanup_jobs i js1 h1" "fl_rep js1 (m(elem (xs ! p) := None))"
      "heap_rep h1 ys" "heap_room h1" "nodes_ok ys (m(elem (xs ! p) := None))"
      "\<And>r D zs. cleaned (m(elem (xs ! p) := None)) ys (fl_cap js1) (vec_cap h1) r D zs \<Longrightarrow>
         cleaned m xs (fl_cap js) (vec_cap h) r (insert (elem (xs ! p)) D) zs"
    using cleanup_round_removes [OF assms(1-4), of i] assms(6,7) unfolding p by metis
  from cleanup_correct [OF st(2-5), of i] st(1,6) show ?case by (metis insertI1)
next
  case (Suc d)
  then have i: "unat i < p" by simp
  then have lt: "unat i < length xs" using assms(6) by simp
  have "d = p - unat (i + 1)" "unat (i + 1) \<le> p"
    using heap_index_next [OF assms(2,3) lt] Suc.hyps(2) i by simp_all
  from Suc.hyps(1) [OF this] show ?case
    using cleanup_round_keeps [OF assms(1,2,4) lt] assms(8) i by simp
qed

lemma nodes_ok_extend:
  assumes "nodes_ok xs m" "elem ` set xs \<subseteq> dom m" "m i = None"
    and "mset ys = add_mset \<lparr>priority = ucast (req_priority (job_request j)), elem = i\<rparr> (mset xs)"
  shows "nodes_ok ys (m(i \<mapsto> j))" "elem ` set ys = insert i (elem ` set xs)"
proof -
  let ?n = "\<lparr>priority = ucast (req_priority (job_request j)), elem = i\<rparr>"
  have set: "set ys = insert ?n (set xs)" using arg_cong [OF assms(4), of set_mset] by simp
  then show "elem ` set ys = insert i (elem ` set xs)" by simp
  have eq: "mset (map elem ys) = mset (map elem (?n # xs))" by (simp add: assms(4))
  have new: "i \<notin> elem ` set xs" using assms(2,3) by blast
  then have "distinct (map elem ys)"
    using assms(1) mset_eq_imp_distinct_iff [OF eq] by (simp add: nodes_ok_def)
  then show "nodes_ok ys (m(i \<mapsto> j))"
    using assms(1) new set by (auto simp: nodes_ok_def)
qed

lemma submit_correct:
  assumes inv: "sched_inv s m" and room: "fl_room (jobs s)" "heap_room (jobs_r s)"
  shows "\<exists>s' i D. submit_job req rcp s = Some (last_job_id s + 1, s') \<and> m i = None \<and>
    D \<subseteq> removable m \<and>
    sched_inv s' ((m |` (- D))(i \<mapsto> new_job req rcp (last_job_id s + 1))) \<and>
    last_job_id s' = last_job_id s + 1 \<and> (card (dom m) < 2 ^ 30 \<longrightarrow> heap_room (jobs_r s')) \<and>
    (\<forall>k. removable m = {k} \<longrightarrow> D = {k}) \<and> 0 < fl_cap (jobs s') \<and> unat (fl_cap (jobs s')) \<le> 2 * unat (fl_cap (jobs s))"
proof -
  let ?j = "new_job req rcp (last_job_id s + 1)"
  obtain xs where xs: "heap_rep (jobs_r s) xs" "nodes_ok xs m" "elem ` set xs = dom m"
    using inv by (auto simp: sched_inv_def)
  have fl: "fl_rep (jobs s) m" using inv by (simp add: sched_inv_def)
  obtain i js where js: "freelist_insert (jobs s) ?j = Some (i, js)" "m i = None" "fl_rep js (m(i \<mapsto> ?j))"
      "fl_cap (jobs s) \<le> fl_cap js"
    using fl_rep_insert [OF fl] room(1) by (fastforce simp: fl_room_def)
  obtain h where h: "vec_copy (jobs_w s) (jobs_r s) = Some h" "vec_rep h xs" "vec_cap h = vec_cap (jobs_r s)"
    using vec_copy_rep [of "jobs_r s" xs "jobs_w s"] xs(1) by (auto simp: heap_rep_def)
  have hrep: "heap_rep h xs" "heap_room h"
    using h xs(1) room(2) by (auto simp: heap_rep_def heap_room_def)
  have ok: "nodes_ok xs (m(i \<mapsto> ?j))"
    using xs(2) js(2) by (fastforce simp: nodes_ok_def)
  have others: "e \<in> removable (m(i \<mapsto> ?j)) \<longleftrightarrow> e \<in> removable m" if "e \<in> elem ` set xs" for e
    using that xs(3) js(2) by (auto simp: removable_def)
  have "\<exists>r D ys. cleanup_jobs 0 js h = Some r \<and> cleaned (m(i \<mapsto> ?j)) xs (fl_cap js) (vec_cap h) r D ys \<and>
    (\<forall>k. removable m = {k} \<longrightarrow> k \<in> D)"
  proof (cases "\<exists>k. removable m = {k}")
    case True
    then obtain k where k: "removable m = {k}" by blast
    then have "k \<in> elem ` set xs" unfolding xs(3) by (auto simp: removable_def)
    then obtain p where p: "p < length xs" "elem (xs ! p) = k" by (auto simp: in_set_conv_nth)
    have "\<forall>q < p. elem (xs ! q) \<notin> removable (m(i \<mapsto> ?j))"
    proof (intro allI impI)
      fix q assume "q < p"
      then have "elem (xs ! q) \<noteq> k" "xs ! q \<in> set xs"
        using p xs(2) by (auto simp: nodes_ok_def distinct_conv_nth)
      then show "elem (xs ! q) \<notin> removable (m(i \<mapsto> ?j))" using others [of "elem (xs ! q)"] k by auto
    qed
    moreover have "elem (xs ! p) \<in> removable (m(i \<mapsto> ?j))" using others [of k] p k nth_mem [OF p(1)] by auto
    ultimately show ?thesis
      using cleanup_removes [OF js(3) hrep ok, of 0 p] p k by fastforce
  next
    case False
    then show ?thesis using cleanup_correct [OF js(3) hrep ok, of 0] by blast
  qed
  then obtain r D ys where r: "cleanup_jobs 0 js h = Some r" "cleaned (m(i \<mapsto> ?j)) xs (fl_cap js) (vec_cap h) r D ys"
      "\<And>k. removable m = {k} \<Longrightarrow> k \<in> D"
    by blast
  define js2 h2 where "js2 = fst r" and "h2 = snd r"
  have c: "cleanup_jobs 0 js h = Some (js2, h2)" "D \<subseteq> removable (m(i \<mapsto> ?j)) \<inter> elem ` set xs"
      "fl_rep js2 ((m(i \<mapsto> ?j)) |` (- D))" "heap_rep h2 ys" "vec_cap h2 = vec_cap h"
      "nodes_ok ys ((m(i \<mapsto> ?j)) |` (- D))" "elem ` set ys = elem ` set xs - D" "fl_cap js2 = fl_cap js"
    using r(1,2) by (simp_all add: js2_def h2_def cleaned_def)
  have D: "D \<subseteq> removable m" "i \<notin> D"
    using c(2) xs(3) js(2) by (auto simp: removable_def split: if_splits)
  let ?m = "m |` (- D)" and ?p = "ucast (req_priority req) :: u32"
  have m: "(m(i \<mapsto> ?j)) |` (- D) = ?m(i \<mapsto> ?j)"
    using D(2) by (auto simp: restrict_map_def)
  have sub: "elem ` set ys = dom ?m" using c(7) xs(3) by auto
  have fin: "finite (dom m)" using xs(3) by (metis finite_imageI finite_set)
  have "elem n \<noteq> i" if "n \<in> set ys" for n
    using c(7) xs(3) js(2) that by (metis DiffD1 domIff image_eqI)
  then have ok2: "nodes_ok ys ?m"
    using c(6) unfolding m nodes_ok_def by auto
  have room2: "heap_room h2" using c(5) hrep(2) by (simp add: heap_room_def)
  obtain h3 zs where h3: "priority_heap_insert h2 i ?p = Some h3" "heap_rep h3 zs"
      "mset zs = add_mset \<lparr>priority = ?p, elem = i\<rparr> (mset ys)"
      "vec_cap h2 \<le> vec_cap h3" "unat (vec_cap h3) \<le> max (unat (vec_cap h2)) (2 * length ys)"
    using insert_rep [OF c(4) room2] by blast
  have "?m i = None" using js(2) by (simp add: restrict_map_def)
  then have zs: "nodes_ok zs (?m(i \<mapsto> ?j))" "elem ` set zs = dom (?m(i \<mapsto> ?j))"
    using nodes_ok_extend [of ys ?m i zs ?j] ok2 sub h3(3) by simp_all
  let ?s = "\<lparr>jobs = js2, jobs_r = h3, jobs_w = jobs_r s, last_job_id = last_job_id s + 1\<rparr>"
  have "submit_job req rcp s = Some (last_job_id s + 1, ?s)"
    using js(1) h(1) c(1) h3(1) by (simp add: submit_job_def Let_def)
  moreover have "sched_inv ?s (?m(i \<mapsto> ?j))"
    using c(3) h3(2) zs unfolding m by (auto simp: sched_inv_def)
  moreover have "heap_room h3" if "card (dom m) < 2 ^ 30"
  proof -
    have "length ys = card (dom ?m)"
      using ok2 sub distinct_card [of "map elem ys"] by (simp add: nodes_ok_def)
    also have "\<dots> \<le> card (dom m)"
      using fin by (intro card_mono) auto
    finally show ?thesis using that h3(4,5) room2 by (auto simp: heap_room_def)
  qed
  moreover have "\<forall>k. removable m = {k} \<longrightarrow> D = {k}" using r(3) D(1) by blast
  moreover have "0 < fl_cap js2" "unat (fl_cap js2) \<le> 2 * unat (fl_cap (jobs s))"
    using js(4) freelist_insert_cap [OF js(1)] room(1) unfolding c(8) fl_room_def
    by (auto simp: word_less_nat_alt word_le_nat_alt)
  ultimately show ?thesis using js(2) D(1) by (intro exI [of _ ?s]) auto
qed

section \<open>Taking a block\<close>

definition available :: "job \<Rightarrow> bool" where
  "available j \<longleftrightarrow> block_idx j \<le> block_count j"

text \<open>Scheduling changes nothing of a job but its block index.\<close>

definition progress :: "(u32 \<rightharpoonup> job) \<Rightarrow> (u32 \<rightharpoonup> job) \<Rightarrow> bool" where
  "progress m m' \<longleftrightarrow> dom m' = dom m \<and>
     (\<forall>i j. m i = Some j \<longrightarrow> (\<exists>k. m' i = Some (j\<lparr>block_idx := k\<rparr>)))"

lemma job_same: "j\<lparr>block_idx := block_idx j\<rparr> = j"
  by (rule job.equality) simp_all

lemma progress_refl [simp]: "progress m m"
  unfolding progress_def using job_same by metis

lemma progress_update: "m i = Some j \<Longrightarrow> progress m (m(i \<mapsto> j\<lparr>block_idx := k\<rparr>))"
  unfolding progress_def using job_same by (auto; metis)

lemma progress_trans:
  assumes "progress m m'" "progress m' m''"
  shows "progress m m''"
proof -
  have "\<exists>k. m'' i = Some (j\<lparr>block_idx := k\<rparr>)" if "m i = Some j" for i j
  proof -
    obtain k where "m' i = Some (j\<lparr>block_idx := k\<rparr>)"
      using assms(1) \<open>m i = Some j\<close> unfolding progress_def by blast
    then obtain k' where "m'' i = Some (j\<lparr>block_idx := k\<rparr>\<lparr>block_idx := k'\<rparr>)"
      using assms(2) unfolding progress_def by blast
    then show ?thesis by auto
  qed
  then show ?thesis using assms by (auto simp: progress_def)
qed

lemma nodes_ok_progress: "nodes_ok xs m \<Longrightarrow> progress m m' \<Longrightarrow> nodes_ok xs m'"
  unfolding nodes_ok_def progress_def by (auto; fastforce)

lemma update_job_rep:
  assumes "fl_rep (jobs s) m" "m i = Some j"
  shows "\<exists>js. update_job f i s = Some (s\<lparr>jobs := js\<rparr>) \<and> fl_rep js (m(i \<mapsto> f j)) \<and>
    fl_cap js = fl_cap (jobs s)"
proof -
  obtain js where "freelist_set (jobs s) i (f j) = Some js" "fl_rep js (m(i \<mapsto> f j))"
      "fl_cap js = fl_cap (jobs s)"
    using fl_rep_set [OF assms(1), of i "f j"] assms(2) by blast
  then show ?thesis
    using fl_rep_get [OF assms] by (intro exI [of _ js]) (simp add: update_job_def)
qed

definition block_of :: "u32 \<Rightarrow> job \<Rightarrow> block" where
  "block_of i j = \<lparr>blk_job = i, blk_start = block_start j (block_idx j), blk_end = block_end j (block_idx j)\<rparr>"

text \<open>\<open>best m xs i j\<close>: job \<open>j\<close> at index \<open>i\<close> is available, and no available job of \<open>xs\<close> has a greater priority.\<close>

abbreviation job_prio :: "job \<Rightarrow> u8" where
  "job_prio j \<equiv> req_priority (job_request j)"

definition best :: "(u32 \<rightharpoonup> job) \<Rightarrow> u32 set \<Rightarrow> u32 \<Rightarrow> job \<Rightarrow> bool" where
  "best m I i j \<longleftrightarrow> i \<in> I \<and> m i = Some j \<and> available j \<and>
     (\<forall>i' \<in> I. \<forall>j'. m i' = Some j' \<longrightarrow> available j' \<longrightarrow> job_prio j' \<le> job_prio j)"

definition taken :: "(u32 \<rightharpoonup> job) \<Rightarrow> u32 set \<Rightarrow> worker \<Rightarrow> block option \<Rightarrow> (u32 \<rightharpoonup> job) \<Rightarrow> worker \<Rightarrow> bool" where
  "taken m I w b m' w' \<longleftrightarrow>
     (case b of
        None \<Rightarrow> (\<forall>i \<in> I. \<forall>j. m i = Some j \<longrightarrow> \<not> available j) \<and>
          target_hash w' = target_hash w \<and> prev_job_id w' = prev_job_id w
      | Some blk \<Rightarrow> \<exists>i j. best m I i j \<and> blk = block_of i j \<and>
          m' i = Some (j\<lparr>block_idx := block_idx j + 1\<rparr>) \<and> prev_job_id w' = job_id j \<and>
          target_hash w' =
            (if prev_job_id w \<noteq> job_id j then req_hash (job_request j) else target_hash w))"

lemma less_inc: "(x :: u64) < - 1 \<Longrightarrow> x < x + 1"
  by (frule room_max) (simp add: word_less_nat_alt unat_word_ariths)

lemma byte_le: "(ucast (p :: u8) :: u32) \<le> ucast (q :: u8) \<longleftrightarrow> p \<le> q"
  by (simp add: word_le_nat_alt unat_u8_u32)

text \<open>The worker's heap afterwards: nodes that were dropped name jobs that are not available any more.\<close>

definition local_ok :: "worker \<Rightarrow> (u32 \<rightharpoonup> job) \<Rightarrow> u32 heap_node list \<Rightarrow> bool" where
  "local_ok w m xs \<longleftrightarrow> heap_rep (local_jobs w) xs \<and> (xs \<noteq> [] \<longrightarrow> heap_room (local_jobs w)) \<and> nodes_ok xs m"

lemma take_block_correct:
  assumes "fl_rep (jobs s) m" "local_ok w m xs" "\<forall>n \<in> set xs. \<forall>j. m (elem n) = Some j \<longrightarrow> block_idx j \<noteq> - 1"
  shows "\<exists>b js w' m' ys. take_block s w = Some (b, s\<lparr>jobs := js\<rparr>, w') \<and> fl_rep js m' \<and>
    fl_cap js = fl_cap (jobs s) \<and> progress m m' \<and> prev_max_job_id w' = prev_max_job_id w \<and>
    local_ok w' m' ys \<and> set ys \<subseteq> set xs \<and>
    (\<forall>i. i \<notin> elem ` set xs \<longrightarrow> m' i = m i) \<and>
    (\<forall>i \<in> elem ` set xs - elem ` set ys. \<forall>j. m' i = Some j \<longrightarrow> \<not> available j) \<and>
    taken m (elem ` set xs) w b m' w'"
  using assms
proof (induction "length xs" arbitrary: s w xs m rule: less_induct)
  case less
  have rep: "heap_rep (local_jobs w) xs" "nodes_ok xs m" using less.prems(2) by (simp_all add: local_ok_def)
  show ?case
  proof (cases "xs = []")
    case True
    then have "take_block s w = Some (None, s, w)"
      using get_max_rep [OF rep(1)] by (subst take_block.simps) simp
    then show ?thesis
      using True less.prems by (intro exI [of _ None] exI [of _ "jobs s"] exI [of _ w] exI [of _ m]
          exI [of _ xs]) (simp add: taken_def)
  next
    case False
    let ?n = "xs ! 0" and ?s = "\<lambda>js. s\<lparr>jobs := js\<rparr>"
    have n: "?n \<in> set xs" using False by simp
    have room: "heap_room (local_jobs w)" using less.prems(2) False by (simp add: local_ok_def)
    have get: "priority_heap_get_max (local_jobs w) = Some (Some ?n)"
      using get_max_rep [OF rep(1)] False by simp
    obtain j where j: "m (elem ?n) = Some j" "priority ?n = ucast (job_prio j)"
      using rep(2) n by (auto simp: nodes_ok_def)
    have getj: "freelist_get (jobs s) (elem ?n) = Some j" by (rule fl_rep_get [OF less.prems(1) j(1)])
    let ?m = "m(elem ?n \<mapsto> j\<lparr>block_idx := block_idx j + 1\<rparr>)"
    obtain js where js: "update_job (\<lambda>j. j\<lparr>block_idx := block_idx j + 1\<rparr>) (elem ?n) s = Some (?s js)"
        "fl_rep js ?m" "fl_cap js = fl_cap (jobs s)"
      using update_job_rep [OF less.prems(1) j(1)] by blast
    have prog: "progress m ?m" using j(1) by (rule progress_update)
    show ?thesis
    proof (cases "available j")
      case True
      define w1 where "w1 = (if prev_job_id w \<noteq> job_id j
        then w\<lparr>target_hash := req_hash (job_request j), prev_job_id := job_id j\<rparr> else w)"
      have "job_prio j' \<le> job_prio j" if i': "i' \<in> elem ` set xs" "m i' = Some j'" for i' j'
      proof -
        obtain n' where n': "n' \<in> set xs" "i' = elem n'" using i'(1) by blast
        then have "priority n' = ucast (job_prio j')" using rep(2) i'(2) by (auto simp: nodes_ok_def)
        moreover obtain k where "k < length xs" "n' = xs ! k" using n'(1) by (auto simp: in_set_conv_nth)
        ultimately have "ucast (job_prio j') \<le> (ucast (job_prio j) :: u32)"
          using heap_root_max [of xs k] rep(1) j(2) by (simp add: heap_rep_def)
        then show ?thesis by (simp add: byte_le)
      qed
      then have best: "best m (elem ` set xs) (elem ?n) j" using True j(1) n by (auto simp: best_def)
      have "take_block s w = Some (Some (block_of (elem ?n) j), ?s js, w1)"
        using get getj js(1) True
        by (subst take_block.simps) (simp add: available_def w1_def block_of_def Let_def)
      moreover have "taken m (elem ` set xs) w (Some (block_of (elem ?n) j)) ?m w1"
        unfolding taken_def option.case
        by (rule exI [of _ "elem ?n"], rule exI [of _ j]) (simp add: best w1_def)
      moreover have "local_ok w1 ?m xs"
        using less.prems(2) nodes_ok_progress [OF rep(2) prog] by (simp add: local_ok_def w1_def)
      moreover have "prev_max_job_id w1 = prev_max_job_id w" by (simp add: w1_def)
      moreover have "\<forall>i. i \<notin> elem ` set xs \<longrightarrow> ?m i = m i" using n by auto
      ultimately show ?thesis using js(2,3) prog by blast
    next
      case False
      obtain h ys where h: "priority_heap_extract_max (local_jobs w) = Some (Some ?n, h)" "heap_rep h ys"
          "mset xs = add_mset ?n (mset ys)" "vec_cap h = vec_cap (local_jobs w)"
        using extract_rep [OF rep(1) \<open>xs \<noteq> []\<close> room] by blast
      let ?w = "w\<lparr>local_jobs := h\<rparr>"
      have pos: "0 < length xs" using \<open>xs \<noteq> []\<close> by simp
      note ok = nodes_ok_remove [OF rep(2) pos h(3)]
      have oky: "nodes_ok ys ?m"
        using ok(1,2) unfolding nodes_ok_def by fastforce
      have lok: "local_ok ?w ?m ys"
        using h(2,4) room oky by (simp add: local_ok_def heap_room_def)
      have un: "\<not> available (j\<lparr>block_idx := block_idx j + 1\<rparr>)"
      proof -
        have "block_idx j < - 1"
          using less.prems(3) n j(1) word_order.not_eq_extremum by blast
        then have "block_idx j < block_idx j + 1" by (rule less_inc)
        then show ?thesis using False by (simp add: available_def)
      qed
      have lt: "length ys < length xs" using arg_cong [OF h(3), of size] by simp
      have "elem ?n \<notin> elem ` set ys" using ok(2) by simp
      then have same: "?m i = m i" if "i \<in> elem ` set ys" for i
        using that by (metis fun_upd_other)
      have idx: "\<forall>n \<in> set ys. \<forall>j. ?m (elem n) = Some j \<longrightarrow> block_idx j \<noteq> - 1"
      proof (intro ballI allI impI)
        fix n' j' assume n': "n' \<in> set ys" "?m (elem n') = Some j'"
        have "?m (elem n') = m (elem n')" by (rule same) (simp add: n'(1))
        then show "block_idx j' \<noteq> - 1" using less.prems(3) ok(3) n' by auto
      qed
      obtain b js' w' m' zs where IH: "take_block (?s js) ?w = Some (b, ?s js', w')" "fl_rep js' m'"
          "fl_cap js' = fl_cap js" "progress ?m m'" "prev_max_job_id w' = prev_max_job_id ?w"
          "local_ok w' m' zs" "set zs \<subseteq> set ys"
          "\<forall>i. i \<notin> elem ` set ys \<longrightarrow> m' i = ?m i"
          "\<forall>i \<in> elem ` set ys - elem ` set zs. \<forall>j. m' i = Some j \<longrightarrow> \<not> available j"
          "taken ?m (elem ` set ys) ?w b m' w'"
        using less.hyps [OF lt, of "?s js" ?m ?w] js(2) lok idx by auto
      have "take_block s w = Some (b, ?s js', w')"
        using get getj js(1) False h(1) IH(1)
        by (subst take_block.simps) (simp add: available_def Let_def)
      moreover have "progress m m'" by (rule progress_trans [OF prog IH(4)])
      moreover have "taken m (elem ` set xs) w b m' w'"
      proof -
        have xs: "elem ` set xs = insert (elem ?n) (elem ` set ys)" using ok(2) n by auto
        show ?thesis
        proof (cases b)
          case None
          then show ?thesis using IH(10) same False j(1) by (auto simp: taken_def xs)
        next
          case (Some blk)
          then obtain i j' where b: "best ?m (elem ` set ys) i j'" "blk = block_of i j'"
              "m' i = Some (j'\<lparr>block_idx := block_idx j' + 1\<rparr>)" "prev_job_id w' = job_id j'"
              "target_hash w' =
                (if prev_job_id w \<noteq> job_id j' then req_hash (job_request j') else target_hash w)"
            using IH(10) by (auto simp: taken_def)
          have "best m (elem ` set xs) i j'"
            using b(1) same False j(1) unfolding best_def xs by auto
          then show ?thesis using b(2-5) Some unfolding taken_def by auto
        qed
      qed
      moreover have "\<forall>i \<in> elem ` set xs - elem ` set zs. \<forall>j. m' i = Some j \<longrightarrow> \<not> available j"
      proof (intro ballI allI impI)
        fix i j' assume i: "i \<in> elem ` set xs - elem ` set zs" "m' i = Some j'"
        show "\<not> available j'"
        proof (cases "i \<in> elem ` set ys")
          case True
          then show ?thesis using IH(9) i by blast
        next
          case False
          then show ?thesis using IH(8) i ok(2) un by auto
        qed
      qed
      moreover have "\<forall>i. i \<notin> elem ` set xs \<longrightarrow> m' i = m i"
        using IH(8) ok(2) n by auto
      ultimately show ?thesis using IH js(3) ok(3)
        by (intro exI [of _ b] exI [of _ js'] exI [of _ w'] exI [of _ m'] exI [of _ zs]) auto
    qed
  qed
qed

section \<open>Scheduling\<close>

text \<open>
  Job ids are not reused. A worker whose heap is current holds a node for every available job, and its
  target hash is the hash of the job it last worked on.
\<close>

definition ids_ok :: "scheduler \<Rightarrow> (u32 \<rightharpoonup> job) \<Rightarrow> bool" where
  "ids_ok s m \<longleftrightarrow> (\<forall>i j. m i = Some j \<longrightarrow> job_id j \<le> last_job_id s) \<and>
     (\<forall>i j i' j'. m i = Some j \<longrightarrow> m i' = Some j' \<longrightarrow> job_id j = job_id j' \<longrightarrow> i = i')"

definition current :: "worker \<Rightarrow> (u32 \<rightharpoonup> job) \<Rightarrow> bool" where
  "current w m \<longleftrightarrow> (\<exists>xs. local_ok w m xs \<and> (\<forall>i j. m i = Some j \<longrightarrow> available j \<longrightarrow> i \<in> elem ` set xs))"

definition target_ok :: "worker \<Rightarrow> (u32 \<rightharpoonup> job) \<Rightarrow> bool" where
  "target_ok w m \<longleftrightarrow>
     (\<forall>i j. m i = Some j \<longrightarrow> job_id j = prev_job_id w \<longrightarrow> target_hash w = req_hash (job_request j))"

definition worker_inv :: "worker \<Rightarrow> scheduler \<Rightarrow> (u32 \<rightharpoonup> job) \<Rightarrow> bool" where
  "worker_inv w s m \<longleftrightarrow> prev_max_job_id w \<le> last_job_id s \<and>
     (prev_max_job_id w = last_job_id s \<longrightarrow> current w m) \<and> target_ok w m \<and>
     (prev_job_id w = SCHEDULER_NO_JOB_ID_SENTINEL \<or> prev_job_id w \<le> last_job_id s)"

definition indices_ok :: "(u32 \<rightharpoonup> job) \<Rightarrow> bool" where
  "indices_ok m \<longleftrightarrow> (\<forall>i j. m i = Some j \<longrightarrow> block_idx j \<noteq> - 1)"

lemma progress_SomeD:
  assumes "progress m m'" "m' i = Some j'"
  shows "\<exists>j k. m i = Some j \<and> j' = j\<lparr>block_idx := k\<rparr>"
proof -
  have "i \<in> dom m" using assms by (auto simp: progress_def)
  then obtain j where j: "m i = Some j" by blast
  then obtain k where "m' i = Some (j\<lparr>block_idx := k\<rparr>)"
    using assms(1) unfolding progress_def by blast
  then show ?thesis using assms(2) j by auto
qed

lemma ids_ok_progress:
  assumes "ids_ok s m" "progress m m'" "last_job_id s' = last_job_id s"
  shows "ids_ok s' m'"
proof -
  have "\<exists>j. m i = Some j \<and> job_id j = job_id j' \<and> job_id j \<le> last_job_id s'" if "m' i = Some j'" for i j'
    using progress_SomeD [OF assms(2) that] assms(1,3) by (force simp: ids_ok_def)
  then show ?thesis using assms(1) unfolding ids_ok_def by metis
qed

lemma take_block_schedules:
  assumes fl: "fl_rep (jobs s) m" and cur: "current w m" and tgt: "target_ok w m"
    and ids: "ids_ok s m" and idx: "indices_ok m"
  shows "\<exists>b js w' m'. take_block s w = Some (b, s\<lparr>jobs := js\<rparr>, w') \<and> fl_rep js m' \<and> progress m m' \<and>
    prev_max_job_id w' = prev_max_job_id w \<and> current w' m' \<and> target_ok w' m' \<and>
    (prev_job_id w' = prev_job_id w \<or> prev_job_id w' \<le> last_job_id s) \<and>
    (case b of
       None \<Rightarrow> \<forall>i j. m i = Some j \<longrightarrow> \<not> available j
     | Some blk \<Rightarrow> \<exists>i j. best m (dom m) i j \<and> blk = block_of i j \<and>
         m' i = Some (j\<lparr>block_idx := block_idx j + 1\<rparr>) \<and> target_hash w' = req_hash (job_request j))"
proof -
  obtain xs where xs: "local_ok w m xs" "\<And>i j. m i = Some j \<Longrightarrow> available j \<Longrightarrow> i \<in> elem ` set xs"
    using cur by (auto simp: current_def)
  obtain b js w' m' ys where r: "take_block s w = Some (b, s\<lparr>jobs := js\<rparr>, w')" "fl_rep js m'"
      "progress m m'" "prev_max_job_id w' = prev_max_job_id w" "local_ok w' m' ys" "set ys \<subseteq> set xs"
      "\<And>i. i \<notin> elem ` set xs \<Longrightarrow> m' i = m i"
      "\<And>i j. i \<in> elem ` set xs \<Longrightarrow> i \<notin> elem ` set ys \<Longrightarrow> m' i = Some j \<Longrightarrow> \<not> available j"
      "taken m (elem ` set xs) w b m' w'"
    using take_block_correct [OF fl xs(1)] idx by (fastforce simp: indices_ok_def)
  have sub: "elem ` set xs \<subseteq> dom m" using xs(1) by (auto simp: local_ok_def nodes_ok_def)
  have current': "current w' m'"
    unfolding current_def using r(5,7,8) xs(2) by metis
  show ?thesis
  proof (cases b)
    case None
    have "\<forall>i j. m i = Some j \<longrightarrow> \<not> available j"
      using r(9) xs(2) None by (auto simp: taken_def)
    moreover have "target_ok w' m'"
      using r(9) tgt None progress_SomeD [OF r(3)] by (fastforce simp: taken_def target_ok_def)
    moreover have "prev_job_id w' = prev_job_id w" using r(9) None by (simp add: taken_def)
    ultimately show ?thesis using r(1-4) current' None by fastforce
  next
    case (Some blk)
    then obtain i j where b: "best m (elem ` set xs) i j" "blk = block_of i j"
        "m' i = Some (j\<lparr>block_idx := block_idx j + 1\<rparr>)" "prev_job_id w' = job_id j"
        "target_hash w' =
          (if prev_job_id w \<noteq> job_id j then req_hash (job_request j) else target_hash w)"
      using r(9) by (auto simp: taken_def)
    have best: "best m (dom m) i j"
      using b(1) xs(2) sub unfolding best_def by blast
    then have mi: "m i = Some j" by (simp add: best_def)
    have hash: "target_hash w' = req_hash (job_request j)"
      using b(5) tgt mi by (auto simp: target_ok_def)
    have "target_ok w' m'"
      unfolding target_ok_def
    proof (intro allI impI)
      fix i' j' assume j': "m' i' = Some j'" "job_id j' = prev_job_id w'"
      obtain j0 k where j0: "m i' = Some j0" "j' = j0\<lparr>block_idx := k\<rparr>"
        using progress_SomeD [OF r(3) j'(1)] by blast
      then have "job_id j0 = job_id j" using j'(2) b(4) by simp
      then have "i' = i" using ids j0(1) mi unfolding ids_ok_def by blast
      then show "target_hash w' = req_hash (job_request j')" using hash j0 mi by simp
    qed
    moreover have "prev_job_id w' \<le> last_job_id s" using ids mi b(4) by (auto simp: ids_ok_def)
    ultimately show ?thesis using r(1-4) current' b(2,3) best hash Some by fastforce
  qed
qed

text \<open>
  C2: one call of \<open>scheduler_priority_schedule\<close> hands the worker the block number \<open>block_idx\<close> of an available job
  (\<open>block_idx \<le> block_count\<close>) of greatest priority among all available jobs, with the hash of that job as the target, and
  increments the \<open>block_idx\<close> of that job; it reports \<open>false\<close> only when no job is available. The invariants of the
  scheduler and of the worker are kept. Marking a job as done sets its \<open>block_idx\<close> to \<open>block_count\<close>, so of a
  job that has been answered the block \<open>block_count\<close> is handed out, possibly a second time.
\<close>

theorem schedule_takes_best_block:
  assumes inv: "sched_inv s m" "ids_ok s m" "worker_inv w s m"
    and room: "heap_room (jobs_r s)" and idx: "indices_ok m"
  shows "\<exists>b s' w' m'. scheduler_priority_schedule s w = Some (b, s', w') \<and>
    sched_inv s' m' \<and> ids_ok s' m' \<and> worker_inv w' s' m' \<and> progress m m' \<and>
    (case b of
       None \<Rightarrow> \<forall>i j. m i = Some j \<longrightarrow> \<not> available j
     | Some blk \<Rightarrow> \<exists>i j. best m (dom m) i j \<and> blk = block_of i j \<and>
         m' i = Some (j\<lparr>block_idx := block_idx j + 1\<rparr>) \<and> target_hash w' = req_hash (job_request j))"
proof -
  obtain xs where fl: "fl_rep (jobs s) m" and xs: "heap_rep (jobs_r s) xs" "nodes_ok xs m"
      "elem ` set xs = dom m"
    using inv(1) by (auto simp: sched_inv_def)
  obtain w1 where w1: "(if prev_max_job_id w < last_job_id s
      then do { heap \<leftarrow> vec_copy (local_jobs w) (jobs_r s);
                Some (w\<lparr>local_jobs := heap, prev_max_job_id := last_job_id s\<rparr>) }
      else Some w) = Some w1" "prev_max_job_id w1 = last_job_id s" "current w1 m" "target_ok w1 m"
      "prev_job_id w1 = prev_job_id w"
  proof (cases "prev_max_job_id w < last_job_id s")
    case True
    obtain h where h: "vec_copy (local_jobs w) (jobs_r s) = Some h" "vec_rep h xs"
        "vec_cap h = vec_cap (jobs_r s)"
      using vec_copy_rep [of "jobs_r s" xs "local_jobs w"] xs(1) by (auto simp: heap_rep_def)
    let ?w = "w\<lparr>local_jobs := h, prev_max_job_id := last_job_id s\<rparr>"
    have "local_ok ?w m xs"
      using h xs room by (auto simp: local_ok_def heap_rep_def heap_room_def)
    then have "current ?w m" unfolding current_def using xs(3) by blast
    then show thesis using that [of ?w] True h(1) inv(3) by (simp add: worker_inv_def target_ok_def)
  next
    case False
    then show thesis using that [of w] inv(3) by (auto simp: worker_inv_def)
  qed
  obtain b js w' m' where r: "take_block s w1 = Some (b, s\<lparr>jobs := js\<rparr>, w')" "fl_rep js m'"
      "progress m m'" "prev_max_job_id w' = prev_max_job_id w1" "current w' m'" "target_ok w' m'"
      "prev_job_id w' = prev_job_id w1 \<or> prev_job_id w' \<le> last_job_id s"
      "case b of None \<Rightarrow> \<forall>i j. m i = Some j \<longrightarrow> \<not> available j
       | Some blk \<Rightarrow> \<exists>i j. best m (dom m) i j \<and> blk = block_of i j \<and>
           m' i = Some (j\<lparr>block_idx := block_idx j + 1\<rparr>) \<and> target_hash w' = req_hash (job_request j)"
    using take_block_schedules [OF fl w1(3,4) inv(2) idx] by blast
  let ?s = "s\<lparr>jobs := js\<rparr>"
  have "sched_inv ?s m'"
    using r(2,3) xs nodes_ok_progress [OF xs(2) r(3)] by (auto simp: sched_inv_def progress_def)
  moreover have "ids_ok ?s m'" by (rule ids_ok_progress [OF inv(2) r(3)]) simp
  moreover have "worker_inv w' ?s m'" using r(4-7) w1(2,5) inv(3) by (auto simp: worker_inv_def)
  moreover have "scheduler_priority_schedule s w = Some (b, ?s, w')"
    using w1(1) r(1) by (simp add: scheduler_priority_schedule_def)
  ultimately show ?thesis using r(3,8) by blast
qed

lemma ids_ok_create: "ids_ok (scheduler_priority_create n) Map.empty"
  by (simp add: ids_ok_def)

lemma worker_inv_create: "worker_inv (worker_create junk) (scheduler_priority_create n) Map.empty"
  by (auto simp: worker_inv_def worker_create_def scheduler_priority_create_def current_def local_ok_def
      target_ok_def nodes_ok_def heap_rep_def vec_rep_def heap_ok_def intro!: exI [of _ "[]"])

lemma u32_less_inc: "(x :: u32) < - 1 \<Longrightarrow> x < x + 1"
proof -
  assume "x < - 1"
  then have "unat x + 1 < 2 ^ 32"
    by (simp add: word_less_nat_alt unsigned_minus_1_eq_mask mask_eq_exp_minus_1)
  then show ?thesis by (simp add: word_less_nat_alt unat_word_ariths)
qed

lemma restrict_SomeD: "(m |` A) i = Some x \<Longrightarrow> m i = Some x"
  by (auto simp: restrict_map_def split: if_splits)

lemma ids_ok_submit:
  assumes ids: "ids_ok s m" and next_id: "last_job_id s < - 1" and last: "last_job_id s' = last_job_id s + 1"
  shows "ids_ok s' ((m |` (- D))(i \<mapsto> new_job req rcp (last_job_id s + 1)))"
proof -
  have inc: "last_job_id s < last_job_id s + 1" by (rule u32_less_inc [OF next_id])
  have old: "job_id j \<le> last_job_id s" if "(m |` (- D)) k = Some j" for k j
    using ids restrict_SomeD [OF that] by (simp add: ids_ok_def)
  have "\<forall>k j k' j'. (m |` (- D)) k = Some j \<longrightarrow> (m |` (- D)) k' = Some j' \<longrightarrow> job_id j = job_id j' \<longrightarrow> k = k'"
    using ids restrict_SomeD [of m "- D"] unfolding ids_ok_def by blast
  then show ?thesis
    using old inc by (auto simp: ids_ok_def last dest: old order.strict_trans1 split: if_splits)
qed

lemma worker_inv_submit:
  assumes inv: "worker_inv w s m" and small: "last_job_id s < - 2"
    and last: "last_job_id s' = last_job_id s + 1"
  shows "worker_inv w s' ((m |` (- D))(i \<mapsto> new_job req rcp (last_job_id s + 1)))"
proof -
  have "last_job_id s < - 1" using small by (rule less_trans) simp
  then have inc: "last_job_id s < last_job_id s + 1" by (rule u32_less_inc)
  have ne: "last_job_id s + 1 \<noteq> - 1"
  proof
    assume "last_job_id s + 1 = - 1"
    then have "last_job_id s = - 1 - 1" by (simp only: eq_diff_eq)
    then show False using small by simp
  qed
  have prev: "prev_job_id w \<noteq> last_job_id s + 1"
    using inv inc ne by (auto simp: worker_inv_def SCHEDULER_NO_JOB_ID_SENTINEL_def)
  have "target_ok w ((m |` (- D))(i \<mapsto> new_job req rcp (last_job_id s + 1)))"
    unfolding target_ok_def
  proof (intro allI impI)
    fix k j assume j: "((m |` (- D))(i \<mapsto> new_job req rcp (last_job_id s + 1))) k = Some j"
      "job_id j = prev_job_id w"
    then have "k \<noteq> i" using prev by auto
    then have "m k = Some j" using j(1) restrict_SomeD [of m "- D" k j] by simp
    then show "target_hash w = req_hash (job_request j)"
      using inv j(2) unfolding worker_inv_def target_ok_def by blast
  qed
  moreover have "prev_max_job_id w < last_job_id s + 1"
    using inv inc unfolding worker_inv_def by (blast intro: le_less_trans)
  moreover have "prev_job_id w = SCHEDULER_NO_JOB_ID_SENTINEL \<or> prev_job_id w \<le> last_job_id s + 1"
    using inv inc unfolding worker_inv_def by (blast intro: order_trans less_imp_le)
  ultimately show ?thesis unfolding worker_inv_def last by (blast intro: less_imp_le dest: less_imp_neq)
qed

text \<open>
  Submitting a request (on a cache miss) succeeds and keeps the invariants of the scheduler
  and of every worker: the new job gets the next id and an unused slot, every other job stays as it is,
  except that jobs which are done and which no worker refers to may be removed. The jobs and the read
  heap, which has one node for each job with its own priority, change together.
\<close>

theorem submit_adds_job:
  assumes "sched_inv s m" "ids_ok s m" "worker_inv w s m"
    and "fl_room (jobs s)" "heap_room (jobs_r s)" "last_job_id s < - 2"
  shows "\<exists>s' i D. submit_job req rcp s = Some (last_job_id s + 1, s') \<and> m i = None \<and> D \<subseteq> removable m \<and>
    (let m' = (m |` (- D))(i \<mapsto> new_job req rcp (last_job_id s + 1))
     in sched_inv s' m' \<and> ids_ok s' m' \<and> worker_inv w s' m')"
proof -
  obtain s' i D where r: "submit_job req rcp s = Some (last_job_id s + 1, s')" "m i = None"
      "D \<subseteq> removable m"
      "sched_inv s' ((m |` (- D))(i \<mapsto> new_job req rcp (last_job_id s + 1)))"
      "last_job_id s' = last_job_id s + 1"
    using submit_correct [OF assms(1,4,5)] by blast
  have "last_job_id s < - 1" using assms(6) by (rule less_trans) simp
  then show ?thesis
    using r(1-4) ids_ok_submit [OF assms(2) _ r(5)] worker_inv_submit [OF assms(3,6) r(5)]
    by (intro exI [of _ s'] exI [of _ i] exI [of _ D]) (simp add: Let_def)
qed

abbreviation request_5 :: request where
  "request_5 \<equiv> \<lparr>req_hash = replicate 32 0, req_start = 5, req_end = 300000, req_priority = 4\<rparr>"

lemma create_room: "0 < n \<Longrightarrow> unat n < 2 ^ 31 \<Longrightarrow>
    fl_room (jobs (scheduler_priority_create n)) \<and> heap_room (jobs_r (scheduler_priority_create n))"
  by (simp add: scheduler_priority_create_def fl_room_def)

lemma create_last [simp]: "last_job_id (scheduler_priority_create n) = 0"
  by (simp add: scheduler_priority_create_def)

lemma zero_less_minus_2: "(0 :: u32) < - 2"
  by (simp add: word_less_nat_alt)

theorem submit_adds_job_witness:
  "\<exists>s' i. submit_job request_5 (Some 1) (scheduler_priority_create 8) = Some (1, s') \<and>
    sched_inv s' [i \<mapsto> new_job request_5 (Some 1) 1]"
  using submit_adds_job [OF sched_inv_create ids_ok_create worker_inv_create [of "[]"], of 8 request_5 "Some 1"]
    create_room [of 8] zero_less_minus_2
  by (auto simp: Let_def removable_def)

theorem schedule_takes_best_block_witness:
  "\<exists>s1 b s2 w. submit_job request_5 (Some 1) (scheduler_priority_create 8) = Some (1, s1) \<and>
     scheduler_priority_schedule s1 (worker_create []) = Some (Some b, s2, w) \<and>
     blk_start b = 5 \<and> target_hash w = replicate 32 0"
proof -
  let ?j = "new_job request_5 (Some 1) 1"
  obtain s1 i D where s1: "submit_job request_5 (Some 1) (scheduler_priority_create 8) = Some (1, s1)"
      "D \<subseteq> removable Map.empty" "sched_inv s1 ((Map.empty |` (- D))(i \<mapsto> ?j))" "last_job_id s1 = 1"
      "heap_room (jobs_r s1)"
    using submit_correct [OF sched_inv_create, of 8 request_5 "Some 1"] create_room [of 8] by auto
  have inv: "sched_inv s1 [i \<mapsto> ?j]" using s1(3) by simp
  have ids: "ids_ok s1 [i \<mapsto> ?j]" using s1(4) by (auto simp: ids_ok_def split: if_splits)
  have w: "worker_inv (worker_create []) s1 [i \<mapsto> ?j]"
    using worker_inv_submit [OF worker_inv_create [of "[]" 8], of s1 "{}" i request_5 "Some 1"]
      zero_less_minus_2 s1(4) by simp
  have idx: "indices_ok [i \<mapsto> ?j]" by (simp add: indices_ok_def)
  have av: "available ?j" by (simp add: available_def)
  show ?thesis
    using schedule_takes_best_block [OF inv ids w s1(5) idx] s1(1) av
    by (fastforce simp: best_def block_of_def block_start_def split: option.splits if_splits)
qed

section \<open>Working on a block\<close>

text \<open>
  The body of \<open>scheduler_priority_worker\<close> after a block was taken. \<open>search\<close> is the configured
  \<open>REVERSE_FUNC\<close>; the result is the entry \<open>(target_hash, answer)\<close> for the cache, if there is an answer.
\<close>

definition work_on_block ::
  "(u64 \<Rightarrow> u64 \<Rightarrow> u8 list \<Rightarrow> u64 option) \<Rightarrow> block \<Rightarrow> worker \<Rightarrow> scheduler \<Rightarrow> world \<Rightarrow>
     ((u8 list \<times> u64) option \<times> scheduler \<times> world) option"
where
  "work_on_block search b w s wd =
     do {
       s \<leftarrow> enter_job (blk_job b) s;
       answer \<leftarrow> search (blk_start b) (blk_end b) (target_hash w);
       if answer = SCHEDULER_NO_ANSWER_SENTINEL
       then do {
         s \<leftarrow> leave_job (blk_job b) s;
         Some (None, s, wd)
       }
       else do {
         j \<leftarrow> freelist_get (jobs s) (blk_job b);
         let recipient = job_recipient j;
         s \<leftarrow> update_job job_mark_as_done (blk_job b) s;
         wd \<leftarrow> scheduler_job_notify_recipient recipient answer wd;
         Some (Some (target_hash w, answer), s, wd)
       }
     }"

lemma rc_undo: "j\<lparr>rc := rc j + 1 - 1\<rparr> = j"
  by (rule job.equality) simp_all

text \<open>
  A block without an answer leaves the scheduler's jobs as they were: the reference the worker
  took while it searched is given back, and nobody is notified.
\<close>

theorem work_without_answer:
  assumes "fl_rep (jobs s) m" "m (blk_job b) = Some j"
    and "search (blk_start b) (blk_end b) (target_hash w) = Some 0"
  shows "\<exists>s'. work_on_block search b w s wd = Some (None, s', wd) \<and> fl_rep (jobs s') m \<and> jobs_r s' = jobs_r s"
proof -
  obtain js where js: "enter_job (blk_job b) s = Some (s\<lparr>jobs := js\<rparr>)"
      "fl_rep js (m(blk_job b \<mapsto> j\<lparr>rc := rc j + 1\<rparr>))"
    using update_job_rep [OF assms(1,2)] unfolding enter_job_def by blast
  obtain js' where "leave_job (blk_job b) (s\<lparr>jobs := js\<rparr>) = Some (s\<lparr>jobs := js'\<rparr>)" "fl_rep js' m"
    using update_job_rep [of "s\<lparr>jobs := js\<rparr>" _ "blk_job b" _ "\<lambda>j. j\<lparr>rc := rc j - 1\<rparr>"] js(2) assms(2)
    unfolding leave_job_def by (force simp: rc_undo fun_upd_idem)
  then show ?thesis
    using js(1) assms(3) by (simp add: work_on_block_def SCHEDULER_NO_ANSWER_SENTINEL_def)
qed

text \<open>
  C28: a block with an answer sends it to the job's connection and marks the job as done; but the
  reference is not given back, and the job can still be scheduled. So no later submission removes the
  job, and its last block is handed to a worker after the answer was sent.
\<close>

theorem work_with_answer:
  assumes "fl_rep (jobs s) m" "m (blk_job b) = Some j" "rc j < - 1"
    and "search (blk_start b) (blk_end b) (target_hash w) = Some a" "a \<noteq> 0"
    and "job_recipient j = Some p" "recipients wd p = Some \<lparr>rtype = RECIPIENT_FD, rdata = fd\<rparr>"
  shows "\<exists>s' wd' m' j'. work_on_block search b w s wd = Some (Some (target_hash w, a), s', wd') \<and>
    fl_rep (jobs s') m' \<and> events wd' = events wd @ [Send fd (be64 a), Close fd] \<and>
    m' = m(blk_job b \<mapsto> j') \<and> job_is_done j' \<and> available j' \<and> blk_job b \<notin> removable m'"
proof -
  let ?j = "j\<lparr>rc := rc j + 1\<rparr>"
  obtain js where js: "enter_job (blk_job b) s = Some (s\<lparr>jobs := js\<rparr>)" "fl_rep js (m(blk_job b \<mapsto> ?j))"
    using update_job_rep [OF assms(1,2)] unfolding enter_job_def by blast
  have get: "freelist_get js (blk_job b) = Some ?j" by (rule fl_rep_get [OF js(2)]) simp
  obtain js' where js': "update_job job_mark_as_done (blk_job b) (s\<lparr>jobs := js\<rparr>) = Some (s\<lparr>jobs := js'\<rparr>)"
      "fl_rep js' (m(blk_job b \<mapsto> job_mark_as_done ?j))"
    using update_job_rep [of "s\<lparr>jobs := js\<rparr>" "m(blk_job b \<mapsto> ?j)" "blk_job b" ?j job_mark_as_done] js(2)
    by auto
  obtain wd' where wd': "scheduler_job_notify_recipient (Some p) a wd = Some wd'"
      "events wd' = events wd @ [Send fd (be64 a), Close fd]"
    using notify_fd [OF assms(7)] by blast
  have "rc ?j \<noteq> 0" using u32_less_inc [OF assms(3)] by auto
  then have "blk_job b \<notin> removable (m(blk_job b \<mapsto> job_mark_as_done ?j))"
    by (simp add: removable_def job_mark_as_done_def)
  moreover have "job_is_done (job_mark_as_done ?j)" "available (job_mark_as_done ?j)"
    by (simp_all add: job_is_done_def available_def job_mark_as_done_def)
  moreover have "work_on_block search b w s wd = Some (Some (target_hash w, a), s\<lparr>jobs := js'\<rparr>, wd')"
    using js(1) get js'(1) wd'(1) assms(4-6)
    by (simp add: work_on_block_def SCHEDULER_NO_ANSWER_SENTINEL_def Let_def)
  ultimately show ?thesis using js'(2) wd'(2) by fastforce
qed

text \<open>Two runs on one job in a pool of one cell: the search of block \<open>0\<close> fails, or answers \<open>77\<close>.\<close>

abbreviation one_job :: scheduler where
  "one_job \<equiv> \<lparr>jobs = \<lparr>fl_data = [Some (new_job request_5 (Some 1) 1)], indicices = [Some 0], fl_cap = 1, free = 0\<rparr>,
     jobs_r = vec_init 1, jobs_w = vec_init 1, last_job_id = 1\<rparr>"

abbreviation block_0 :: block where
  "block_0 \<equiv> \<lparr>blk_job = 0, blk_start = 5, blk_end = 65540\<rparr>"

lemma one_job_rep: "fl_rep (jobs one_job) [0 \<mapsto> new_job request_5 (Some 1) 1]"
proof -
  have "{i :: u32. i < 1} = {0}" by (auto simp: word_less_nat_alt unsigned_eq_0_iff)
  then show ?thesis by (auto simp: fl_rep_def)
qed

theorem work_without_answer_witness:
  "\<exists>s'. work_on_block (\<lambda>a b h. Some 0) block_0 (worker_create []) one_job \<lparr>recipients = Map.empty, events = []\<rparr> =
     Some (None, s', \<lparr>recipients = Map.empty, events = []\<rparr>) \<and>
     fl_rep (jobs s') [0 \<mapsto> new_job request_5 (Some 1) 1]"
  using work_without_answer [OF one_job_rep, of block_0 _ "\<lambda>a b h. Some 0" "worker_create []"
      "\<lparr>recipients = Map.empty, events = []\<rparr>"]
  by auto

lemma zero_less_minus_1: "(0 :: u32) < - 1"
  by (simp add: word_less_nat_alt unsigned_minus_1_eq_mask mask_eq_exp_minus_1)

theorem work_with_answer_witness:
  "\<exists>s' wd'. work_on_block (\<lambda>a b h. Some 77) block_0 (worker_create []) one_job
       \<lparr>recipients = [1 \<mapsto> \<lparr>rtype = RECIPIENT_FD, rdata = 9\<rparr>], events = []\<rparr> = Some (Some ([], 77), s', wd') \<and>
     events wd' = [Send 9 (be64 77), Close 9]"
  using work_with_answer [OF one_job_rep, of block_0 _ "\<lambda>a b h. Some 77" "worker_create []" 77 1
      "\<lparr>recipients = [1 \<mapsto> \<lparr>rtype = RECIPIENT_FD, rdata = 9\<rparr>], events = []\<rparr>" 9]
    zero_less_minus_1
  by (auto simp: worker_create_def)

section \<open>A job that is lost\<close>

lemma new_job_done_iff:
  assumes "range_ok req"
  shows "job_is_done (new_job req rcp jid) \<longleftrightarrow> req_start req = req_end req"
proof -
  have "job_is_done (new_job req rcp jid) \<longleftrightarrow> unat (block_count (new_job req rcp jid)) = 0"
    by (simp add: job_is_done_def unsigned_eq_0_iff)
  also have "\<dots> \<longleftrightarrow> unat (req_end req) - unat (req_start req) = 0"
    unfolding unat_block_count [OF assms] by (auto simp: div_eq_0_iff)
  also have "\<dots> \<longleftrightarrow> req_start req = req_end req"
    using range_okD(1) [OF assms] by (auto simp: word_unat_eq_iff)
  finally show ?thesis .
qed



section \<open>Cancelling\<close>

definition cancelled :: "u32 \<Rightarrow> job \<Rightarrow> job" where
  "cancelled jid j = (if job_id j = jid then job_mark_as_done j else j)"

lemma cancel_step:
  assumes "fl_rep (jobs s) m" "m i = Some j" "vec_get (jobs_r s) k = Some n" "elem n = i"
  shows "\<exists>js. do { node \<leftarrow> vec_get (jobs_r s) k; j \<leftarrow> freelist_get (jobs s) (elem node);
      if job_id j \<noteq> jid then Some s
      else update_job (\<lambda>j. j\<lparr>block_idx := block_count j\<rparr>) (elem node) s } = Some (s\<lparr>jobs := js\<rparr>) \<and>
    fl_rep js (m(i \<mapsto> cancelled jid j))"
proof (cases "job_id j = jid")
  case True
  then show ?thesis
    using update_job_rep [OF assms(1,2), of "\<lambda>j. j\<lparr>block_idx := block_count j\<rparr>"] fl_rep_get [OF assms(1,2)] assms
    by (auto simp: cancelled_def job_mark_as_done_def)
next
  case False
  have "m(i \<mapsto> j) = m" using assms(2) by auto
  then show ?thesis
    using False fl_rep_get [OF assms(1,2)] assms by (intro exI [of _ "jobs s"]) (simp add: cancelled_def)
qed

text \<open>
  Cancelling a job id marks exactly the jobs with this id as done, keeps every other job and the
  heaps, and keeps the invariant.
\<close>

theorem cancel_marks_job:
  assumes "sched_inv s m"
  shows "\<exists>s'. scheduler_priority_cancel jid s = Some s' \<and> jobs_r s' = jobs_r s \<and>
    sched_inv s' (map_option (cancelled jid) \<circ> m)"
proof -
  obtain xs where fl: "fl_rep (jobs s) m" and xs: "heap_rep (jobs_r s) xs" "nodes_ok xs m"
      "elem ` set xs = dom m"
    using assms by (auto simp: sched_inv_def)
  have v: "vec_rep (jobs_r s) xs" using xs(1) by (simp add: heap_rep_def)
  have len: "unat (vec_len (jobs_r s)) = length xs" by (rule vec_rep_len [OF v])
  define done_to where "done_to k i =
    (if i \<in> elem ` set (take k xs) then map_option (cancelled jid) (m i) else m i)" for k i
  let ?P = "\<lambda>k r. \<exists>js. r = Some (s\<lparr>jobs := js\<rparr>) \<and> fl_rep js (done_to k)"
  have "?P (length xs) (scheduler_priority_cancel jid s)"
    unfolding scheduler_priority_cancel_def len
  proof (rule for_loop_invariant [where P = ?P])
    have "done_to 0 = m" by (simp add: done_to_def fun_eq_iff)
    then show "?P 0 (Some s)" using fl by (intro exI [of _ "jobs s"]) simp
  next
    fix k r assume k: "k < length xs" and "?P k r"
    then obtain js where r: "r = Some (s\<lparr>jobs := js\<rparr>)" "fl_rep js (done_to k)" by blast
    let ?n = "xs ! k"
    have get: "vec_get (jobs_r s) (word_of_nat k) = Some ?n"
      using vec_get_rep [OF v, of "word_of_nat k"] k len u32_bound [of "vec_len (jobs_r s)"] by simp
    have "distinct (map elem (take k xs @ ?n # drop (Suc k) xs))"
      using xs(2) unfolding id_take_nth_drop [OF k, symmetric] by (simp add: nodes_ok_def)
    then have "elem ?n \<notin> elem ` set (take k xs)" by auto
    then have "done_to k (elem ?n) = m (elem ?n)" by (simp add: done_to_def)
    moreover obtain j where j: "m (elem ?n) = Some j" using xs(3) k by (metis domD image_eqI nth_mem)
    ultimately obtain js' where js': "do { node \<leftarrow> vec_get (jobs_r s) (word_of_nat k);
          j \<leftarrow> freelist_get js (elem node);
          if job_id j \<noteq> jid then Some (s\<lparr>jobs := js\<rparr>)
          else update_job (\<lambda>j. j\<lparr>block_idx := block_count j\<rparr>) (elem node) (s\<lparr>jobs := js\<rparr>) } =
        Some (s\<lparr>jobs := js'\<rparr>)" "fl_rep js' ((done_to k)(elem ?n \<mapsto> cancelled jid j))"
      using cancel_step [of "s\<lparr>jobs := js\<rparr>" "done_to k" "elem ?n" j "word_of_nat k" ?n jid] r(2) get by auto
    moreover have "(done_to k)(elem ?n \<mapsto> cancelled jid j) = done_to (Suc k)"
      using k j by (auto simp: done_to_def take_Suc_conv_app_nth)
    ultimately show "?P (Suc k) (do { s \<leftarrow> r; node \<leftarrow> vec_get (jobs_r s) (word_of_nat k);
          j \<leftarrow> freelist_get (jobs s) (elem node);
          if job_id j \<noteq> jid then Some s
          else update_job (\<lambda>j. j\<lparr>block_idx := block_count j\<rparr>) (elem node) s })"
      using r(1) by auto
  qed simp_all
  moreover have "done_to (length xs) = map_option (cancelled jid) \<circ> m"
    using xs(3) by (auto simp: done_to_def fun_eq_iff domIff)
  moreover have "nodes_ok xs (map_option (cancelled jid) \<circ> m)"
    unfolding nodes_ok_def
  proof (intro conjI ballI)
    show "distinct (map elem xs)" using xs(2) by (simp add: nodes_ok_def)
  next
    fix n assume "n \<in> set xs"
    then obtain j where "m (elem n) = Some j" "priority n = ucast (job_prio j)"
      using xs(2) by (auto simp: nodes_ok_def)
    then show "\<exists>j. (map_option (cancelled jid) \<circ> m) (elem n) = Some j \<and> priority n = ucast (job_prio j)"
      by (intro exI [of _ "cancelled jid j"]) (simp add: cancelled_def job_mark_as_done_def)
  qed
  moreover have "dom (map_option (cancelled jid) \<circ> m) = dom m" by auto
  ultimately show ?thesis using xs(1,3) by (auto simp: sched_inv_def)
qed

theorem cancel_marks_job_witness:
  "\<exists>s'. scheduler_priority_cancel 3 (scheduler_priority_create 4) = Some s' \<and>
     sched_inv s' (map_option (cancelled 3) \<circ> Map.empty)"
  using cancel_marks_job [OF sched_inv_create, of 3 4] by blast

end
