(* ===== verification/Sched_Submit.thy ===== *)
theory Sched_Submit
  imports Cache Sched_Priority
begin

text \<open>
  The priority scheduler with the cache and the connections: all of \<open>scheduler_priority_submit\<close>, and one
  round of the loop of \<open>scheduler_priority_worker\<close>. Answers go from a worker through the ring buffer into
  the tree that a later submission looks up.
\<close>

record server =
  sched :: scheduler
  answers :: cache
  net :: world

definition server_create :: "u32 \<Rightarrow> server" where
  "server_create default_cap =
     \<lparr>sched = scheduler_priority_create default_cap, answers = cache_create default_cap,
      net = \<lparr>recipients = Map.empty, events = []\<rparr>\<rparr>"

text \<open>\<open>junk\<close> and \<open>gjunk\<close> are the stack buffers of the insertions into the cache and of the lookup.\<close>

definition scheduler_priority_submit ::
  "(nat \<Rightarrow> nat \<Rightarrow> u8 list) \<Rightarrow> u8 list \<Rightarrow> request \<Rightarrow> nat option \<Rightarrow> server \<Rightarrow> (u32 \<times> server) option" where
  "scheduler_priority_submit junk gjunk request recipient srv =
     do {
       c \<leftarrow> cache_process_pending junk (answers srv);
       cached_answer \<leftarrow> cache_get gjunk (req_hash request) c;
       case cached_answer of
         Some a \<Rightarrow> do {
           wd \<leftarrow> scheduler_job_notify_recipient recipient a (net srv);
           Some (SCHEDULER_NO_JOB_ID_SENTINEL, srv\<lparr>answers := c, net := wd\<rparr>)
         }
       | None \<Rightarrow> do {
           (next_id, s) \<leftarrow> submit_job request recipient (sched srv);
           Some (next_id, srv\<lparr>sched := s, answers := c\<rparr>)
         }
     }"

definition worker_pass ::
  "(u64 \<Rightarrow> u64 \<Rightarrow> u8 list \<Rightarrow> u64 option) \<Rightarrow> worker \<Rightarrow> server \<Rightarrow> (worker \<times> server) option" where
  "worker_pass search w srv =
     do {
       (b, s, w) \<leftarrow> scheduler_priority_schedule (sched srv) w;
       case b of
         None \<Rightarrow> Some (w, srv\<lparr>sched := s\<rparr>)
       | Some b \<Rightarrow> do {
           (entry, s, wd) \<leftarrow> work_on_block search b w s (net srv);
           c \<leftarrow> (case entry of
             None \<Rightarrow> Some (answers srv)
           | Some (h, a) \<Rightarrow> cache_insert_pending h a (answers srv));
           Some (w, \<lparr>sched = s, answers = c, net = wd\<rparr>)
         }
     }"

section \<open>Submission\<close>

lemma submit_lookup:
  assumes "cache_rep P (answers srv) m es" "P + 5 * length es < 2 ^ 28" "stack_ok junk gjunk"
    and "length (req_hash request) = SHA256_DIGEST_LENGTH"
  obtains c where "cache_rep (P + 5 * length es) c (with_pending m es) []"
    "scheduler_priority_submit junk gjunk request recipient srv =
       (case with_pending m es (req_hash request) of
          Some a \<Rightarrow> do {
            wd \<leftarrow> scheduler_job_notify_recipient recipient a (net srv);
            Some (SCHEDULER_NO_JOB_ID_SENTINEL, srv\<lparr>answers := c, net := wd\<rparr>)
          }
        | None \<Rightarrow> do {
            (next_id, s) \<leftarrow> submit_job request recipient (sched srv);
            Some (next_id, srv\<lparr>sched := s, answers := c\<rparr>)
          })"
proof -
  obtain c where "cache_process_pending junk (answers srv) = Some c"
      "cache_rep (P + 5 * length es) c (with_pending m es) []"
      "cache_get gjunk (req_hash request) c = Some (with_pending m es (req_hash request))"
    by (rule cache_consult [OF assms])
  then show thesis
    using that by (simp add: scheduler_priority_submit_def)
qed

text \<open>
  C4: a submission first makes the waiting answers available and then decides by them. If an answer for
  the hash is known, it is sent to the client at once, the connection is closed, no job is made and the
  scheduler does not change, whatever range the request names; otherwise the request becomes a job with
  the next id, and the invariants of the scheduler and of every worker are kept.
\<close>

theorem submit_by_cache:
  assumes "cache_rep P (answers srv) m es" "P + 5 * length es < 2 ^ 28" "stack_ok junk gjunk"
    and "length (req_hash request) = SHA256_DIGEST_LENGTH"
    and "recipients (net srv) p = Some \<lparr>rtype = RECIPIENT_FD, rdata = fd\<rparr>"
    and "sched_inv (sched srv) jm" "ids_ok (sched srv) jm" "worker_inv w (sched srv) jm"
    and "fl_room (jobs (sched srv))" "heap_room (jobs_r (sched srv))" "last_job_id (sched srv) < - 2"
  shows "\<exists>jid srv'. scheduler_priority_submit junk gjunk request (Some p) srv = Some (jid, srv') \<and>
    cache_rep (P + 5 * length es) (answers srv') (with_pending m es) [] \<and>
    (case with_pending m es (req_hash request) of
       Some a \<Rightarrow> jid = SCHEDULER_NO_JOB_ID_SENTINEL \<and> sched srv' = sched srv \<and>
         events (net srv') = events (net srv) @ [Send fd (be64 a), Close fd]
     | None \<Rightarrow> jid = last_job_id (sched srv) + 1 \<and> net srv' = net srv \<and>
         (\<exists>i D. jm i = None \<and> D \<subseteq> removable jm \<and>
           (let jm' = (jm |` (- D))(i \<mapsto> new_job request (Some p) jid)
            in sched_inv (sched srv') jm' \<and> ids_ok (sched srv') jm' \<and> worker_inv w (sched srv') jm')))"
proof -
  obtain c where c: "cache_rep (P + 5 * length es) c (with_pending m es) []"
      "scheduler_priority_submit junk gjunk request (Some p) srv =
       (case with_pending m es (req_hash request) of
          Some a \<Rightarrow> do {
            wd \<leftarrow> scheduler_job_notify_recipient (Some p) a (net srv);
            Some (SCHEDULER_NO_JOB_ID_SENTINEL, srv\<lparr>answers := c, net := wd\<rparr>)
          }
        | None \<Rightarrow> do {
            (next_id, s) \<leftarrow> submit_job request (Some p) (sched srv);
            Some (next_id, srv\<lparr>sched := s, answers := c\<rparr>)
          })"
    by (rule submit_lookup [OF assms(1-4)])
  show ?thesis
  proof (cases "with_pending m es (req_hash request)")
    case (Some a)
    obtain wd where "scheduler_job_notify_recipient (Some p) a (net srv) = Some wd"
        "events wd = events (net srv) @ [Send fd (be64 a), Close fd]"
      using notify_fd [OF assms(5)] by blast
    then show ?thesis using Some c by simp
  next
    case None
    obtain s' i D where r: "submit_job request (Some p) (sched srv) = Some (last_job_id (sched srv) + 1, s')"
        "jm i = None" "D \<subseteq> removable jm"
        "sched_inv s' ((jm |` (- D))(i \<mapsto> new_job request (Some p) (last_job_id (sched srv) + 1)))"
        "last_job_id s' = last_job_id (sched srv) + 1"
      using submit_correct [OF assms(6,9,10)] by blast
    have "last_job_id (sched srv) < - 1" using assms(11) by (rule less_trans) simp
    note keep = ids_ok_submit [OF assms(7) this r(5)] worker_inv_submit [OF assms(8,11) r(5)]
    show ?thesis
      using None c r(1-4) keep
      by (intro exI [of _ "last_job_id (sched srv) + 1"] exI [of _ "srv\<lparr>sched := s', answers := c\<rparr>"] conjI)
        (auto simp: Let_def)
  qed
qed

text \<open>A server that has just started.\<close>

lemma server_create_rep:
  assumes "0 < cap" "unat cap < 2 ^ 28"
  shows "cache_rep (unat cap) (answers (server_create cap)) Map.empty []"
    "sched_inv (sched (server_create cap)) Map.empty" "ids_ok (sched (server_create cap)) Map.empty"
    "worker_inv (worker_create junk) (sched (server_create cap)) Map.empty"
    "fl_room (jobs (sched (server_create cap)))" "heap_room (jobs_r (sched (server_create cap)))"
    "last_job_id (sched (server_create cap)) < - 2"
  using assms cache_create_rep [OF assms] sched_inv_create ids_ok_create worker_inv_create create_room [of cap]
    zero_less_minus_2
  by (simp_all add: server_create_def)

theorem submit_by_cache_witness:
  "\<exists>srv'. scheduler_priority_submit (\<lambda>_ _. replicate 32 0) (replicate 32 0) request_5 (Some 1)
       ((server_create 8)\<lparr>net := \<lparr>recipients = [1 \<mapsto> \<lparr>rtype = RECIPIENT_FD, rdata = 9\<rparr>], events = []\<rparr>\<rparr>) = Some (1, srv')"
  using submit_by_cache [of 8 "(server_create 8)\<lparr>net := \<lparr>recipients = [1 \<mapsto> \<lparr>rtype = RECIPIENT_FD, rdata = 9\<rparr>], events = []\<rparr>\<rparr>"
      Map.empty "[]" "\<lambda>_ _. replicate 32 0" "replicate 32 0" request_5 1 9 Map.empty "worker_create []"]
    server_create_rep [of 8]
  by (auto simp: stack_ok_def buffers_def SHA256_DIGEST_LENGTH_def with_pending_def server_create_def)

section \<open>An answer reaches the next client of the same hash\<close>


text \<open>A worker that takes block \<open>0\<close> of the only job, and the answer \<open>77\<close> in it.\<close>

abbreviation ready_worker :: worker where
  "ready_worker \<equiv> \<lparr>local_jobs = \<lparr>vec_data = [Some \<lparr>priority = 4, elem = 0\<rparr>], vec_len = 1, vec_cap = 1\<rparr>,
     prev_max_job_id = 1, prev_job_id = SCHEDULER_NO_JOB_ID_SENTINEL, target_hash = []\<rparr>"

abbreviation two_clients :: world where
  "two_clients \<equiv> \<lparr>recipients = [1 \<mapsto> \<lparr>rtype = RECIPIENT_FD, rdata = 9\<rparr>, 2 \<mapsto> \<lparr>rtype = RECIPIENT_FD, rdata = 10\<rparr>],
     events = []\<rparr>"

abbreviation job_taken :: job where
  "job_taken \<equiv> (new_job request_5 (Some 1) 1)\<lparr>block_idx := 1\<rparr>"

lemma ready_schedule:
  "scheduler_priority_schedule one_job ready_worker =
     Some (Some block_0, one_job\<lparr>jobs := \<lparr>fl_data = [Some job_taken], indicices = [Some 0], fl_cap = 1, free = 0\<rparr>\<rparr>,
       ready_worker\<lparr>target_hash := replicate 32 0, prev_job_id := 1\<rparr>)"
  by code_simp


end
