(* ===== verification/Sched_Resend.thy ===== *)
theory Sched_Resend
  imports Sched_Submit
begin

text \<open>
  The last block of a job of \<open>src/scheduler/sched_priority.c\<close> after its answer was found. Marking the job as done
  sets \<open>block_idx\<close> to \<open>block_count\<close>, and \<open>scheduler_priority_schedule\<close> still hands out block number
  \<open>block_count\<close>.
\<close>

section \<open>The worker keeps the job it takes a block of\<close>

definition keeps_job :: "scheduler \<Rightarrow> worker \<Rightarrow> block option \<times> scheduler \<times> worker \<Rightarrow> bool" where
  "keeps_job s w r \<longleftrightarrow> (case r of (b, s', w') \<Rightarrow>
     last_job_id s' = last_job_id s \<and> prev_max_job_id w' = prev_max_job_id w \<and>
     (\<forall>blk. b = Some blk \<longrightarrow> (\<exists>node j. priority_heap_get_max (local_jobs w') = Some (Some node) \<and>
        elem node = blk_job blk \<and> freelist_get (jobs s') (blk_job blk) = Some j \<and> prev_job_id w' = job_id j)))"

lemma get_after_set: "freelist_set fl i x = Some fl' \<Longrightarrow> freelist_get fl' i = Some x"
  by (auto simp: freelist_set_def freelist_get_def st_def ld_def dest!: wr_SomeD split: Option.bind_splits)

lemma update_job_get:
  "update_job f i s = Some s' \<Longrightarrow> freelist_get (jobs s) i = Some j \<Longrightarrow>
     freelist_get (jobs s') i = Some (f j) \<and> last_job_id s' = last_job_id s"
  by (auto simp: update_job_def get_after_set split: Option.bind_splits)

lemma take_block_keeps:
  assumes "take_block s w = Some r"
  shows "keeps_job s w r"
proof (rule take_block.raw_induct [OF _ assms])
  fix f s w r
  assume IH: "\<And>s w r. f s w = Some r \<Longrightarrow> keeps_job s w r"
    and body: "do {
       m \<leftarrow> priority_heap_get_max (local_jobs w);
       case m of
         None \<Rightarrow> Some (None, s, w)
       | Some node \<Rightarrow>
           do {
             let i = elem node;
             j \<leftarrow> freelist_get (jobs s) i;
             let k = block_idx j;
             s \<leftarrow> update_job (\<lambda>j. j\<lparr>block_idx := block_idx j + 1\<rparr>) i s;
             if k \<le> block_count j
             then
               (let w = (if prev_job_id w \<noteq> job_id j
                         then w\<lparr>target_hash := req_hash (job_request j), prev_job_id := job_id j\<rparr>
                         else w)
                in Some (Some \<lparr>blk_job = i, blk_start = block_start j k, blk_end = block_end j k\<rparr>, s, w))
             else do {
               (_, heap) \<leftarrow> priority_heap_extract_max (local_jobs w);
               f s (w\<lparr>local_jobs := heap\<rparr>)
             }
           }
     } = Some r"
  show "keeps_job s w r"
  proof (cases "priority_heap_get_max (local_jobs w) = Some None")
    case True
    then show ?thesis using body by (auto simp: keeps_job_def)
  next
    case False
    then obtain node j s1 where n: "priority_heap_get_max (local_jobs w) = Some (Some node)"
        "freelist_get (jobs s) (elem node) = Some j"
        "update_job (\<lambda>j. j\<lparr>block_idx := block_idx j + 1\<rparr>) (elem node) s = Some s1"
      using body by (auto simp: Let_def split: Option.bind_splits option.splits)
    note up = update_job_get [OF n(3,2)]
    show ?thesis
    proof (cases "block_idx j \<le> block_count j")
      case True
      then show ?thesis using body n up by (auto simp: keeps_job_def Let_def)
    next
      case False
      then obtain x heap where "f s1 (w\<lparr>local_jobs := heap\<rparr>) = Some r"
        using body n by (auto simp: Let_def split: Option.bind_splits)
      from IH [OF this] up show ?thesis by (auto simp: keeps_job_def)
    qed
  qed
qed

lemma schedule_keeps:
  assumes "scheduler_priority_schedule s w = Some (Some b, s', w')"
  shows "\<not> prev_max_job_id w' < last_job_id s' \<and> (\<exists>node j. priority_heap_get_max (local_jobs w') = Some (Some node) \<and>
    elem node = blk_job b \<and> freelist_get (jobs s') (blk_job b) = Some j \<and> prev_job_id w' = job_id j)"
proof -
  have "\<exists>w0. \<not> prev_max_job_id w0 < last_job_id s \<and> take_block s w0 = Some (Some b, s', w')"
  proof (cases "prev_max_job_id w < last_job_id s")
    case True
    then obtain heap where "take_block s (w\<lparr>local_jobs := heap, prev_max_job_id := last_job_id s\<rparr>) = Some (Some b, s', w')"
      using assms by (auto simp: scheduler_priority_schedule_def split: Option.bind_splits)
    then show ?thesis by (intro exI [of _ "w\<lparr>local_jobs := heap, prev_max_job_id := last_job_id s\<rparr>"]) simp
  next
    case False
    then show ?thesis using assms by (auto simp: scheduler_priority_schedule_def)
  qed
  then obtain w0 where w0: "\<not> prev_max_job_id w0 < last_job_id s" "take_block s w0 = Some (Some b, s', w')"
    by blast
  from take_block_keeps [OF w0(2)] w0(1) show ?thesis by (auto simp: keeps_job_def)
qed

section \<open>The second answer\<close>

text \<open>
  C16: when the answer of a job is in its block number \<open>block_count\<close>, the worker that found it is handed the same block
  once more, finds the answer again, and notifies the client's record, which the first notification has freed.
  Block \<open>block_count\<close> holds the number \<open>end\<close> exactly if \<open>end - start\<close> is a multiple of \<open>2 ^ 16\<close>; every answered
  request for a single number is such a case.
\<close>

theorem answer_sent_twice:
  assumes sch: "scheduler_priority_schedule (sched srv) w = Some (Some b, sa, w1)"
    and fl: "fl_rep (jobs sa) jm" "jm (blk_job b) = Some j" and rcp: "job_recipient j = Some p"
    and blk: "blk_start b = block_start j (block_count j)" "blk_end b = block_end j (block_count j)"
    and a: "search (blk_start b) (blk_end b) (target_hash w1) = Some a" "a \<noteq> 0"
    and net: "recipients (net srv) p = Some \<lparr>rtype = RECIPIENT_FD, rdata = fd\<rparr>"
    and cache: "cache_rep P (answers srv) m es" "length (target_hash w1) = SHA256_DIGEST_LENGTH"
  shows "\<exists>srv1. worker_pass search w srv = Some (w1, srv1) \<and>
    events (net srv1) = events (net srv) @ [Send fd (be64 a), Close fd] \<and>
    worker_pass search w1 srv1 = None"
proof -
  let ?i = "blk_job b" and ?j = "job_mark_as_done (j\<lparr>rc := rc j + 1\<rparr>)"
  obtain js where js: "enter_job ?i sa = Some (sa\<lparr>jobs := js\<rparr>)" "fl_rep js (jm(?i \<mapsto> j\<lparr>rc := rc j + 1\<rparr>))"
    using update_job_rep [OF fl] unfolding enter_job_def by blast
  obtain js' where js': "update_job job_mark_as_done ?i (sa\<lparr>jobs := js\<rparr>) = Some (sa\<lparr>jobs := js'\<rparr>)"
      "fl_rep js' (jm(?i \<mapsto> ?j))"
    using update_job_rep [of "sa\<lparr>jobs := js\<rparr>" "jm(?i \<mapsto> j\<lparr>rc := rc j + 1\<rparr>)" ?i _ job_mark_as_done] js(2) by auto
  obtain wd where wd: "scheduler_job_notify_recipient (Some p) a (net srv) = Some wd"
      "events wd = events (net srv) @ [Send fd (be64 a), Close fd]" "recipients wd = (recipients (net srv))(p := None)"
    using notify_fd [OF net] by blast
  obtain c where c: "cache_insert_pending (target_hash w1) a (answers srv) = Some c"
    using cache_insert_pending_rep [OF cache] by blast
  let ?srv1 = "\<lparr>sched = sa\<lparr>jobs := js'\<rparr>, answers = c, net = wd\<rparr>"
  have pass: "worker_pass search w srv = Some (w1, ?srv1)"
    using sch js(1) a fl_rep_get [OF js(2), of ?i] rcp js'(1) wd(1) c
    by (simp add: worker_pass_def work_on_block_def SCHEDULER_NO_ANSWER_SENTINEL_def Let_def)
  obtain node j0 where k: "\<not> prev_max_job_id w1 < last_job_id sa"
      "priority_heap_get_max (local_jobs w1) = Some (Some node)" "elem node = ?i"
      "freelist_get (jobs sa) ?i = Some j0" "prev_job_id w1 = job_id j0"
    using schedule_keeps [OF sch] by blast
  have "j0 = j" using k(4) fl_rep_get [OF fl] by simp
  then have same: "prev_job_id w1 = job_id ?j" using k(5) by (simp add: job_mark_as_done_def)
  have get: "freelist_get js' ?i = Some ?j" by (rule fl_rep_get [OF js'(2)]) simp
  obtain js2 where js2: "update_job (\<lambda>j. j\<lparr>block_idx := block_idx j + 1\<rparr>) ?i (sa\<lparr>jobs := js'\<rparr>) = Some (sa\<lparr>jobs := js2\<rparr>)"
      "fl_rep js2 (jm(?i \<mapsto> ?j\<lparr>block_idx := block_idx ?j + 1\<rparr>))"
    using update_job_rep [of "sa\<lparr>jobs := js'\<rparr>" "jm(?i \<mapsto> ?j)" ?i ?j "\<lambda>j. j\<lparr>block_idx := block_idx j + 1\<rparr>"] js'(2)
    by auto
  have again: "scheduler_priority_schedule (sa\<lparr>jobs := js'\<rparr>) w1 = Some (Some b, sa\<lparr>jobs := js2\<rparr>, w1)"
    using k(1-3) get js2(1) same blk
    by (simp add: scheduler_priority_schedule_def)
      (subst take_block.simps, simp add: Let_def job_mark_as_done_def block_start_def block_end_def)
  obtain js3 where js3: "enter_job ?i (sa\<lparr>jobs := js2\<rparr>) = Some (sa\<lparr>jobs := js3\<rparr>)"
      "\<exists>j3. freelist_get js3 ?i = Some j3 \<and> job_recipient j3 = Some p"
  proof -
    let ?j2 = "?j\<lparr>block_idx := block_idx ?j + 1\<rparr>"
    obtain js3 where u: "enter_job ?i (sa\<lparr>jobs := js2\<rparr>) = Some (sa\<lparr>jobs := js3\<rparr>)" "fl_rep js3 (jm(?i \<mapsto> ?j2\<lparr>rc := rc ?j2 + 1\<rparr>))"
      using update_job_rep [of "sa\<lparr>jobs := js2\<rparr>" "jm(?i \<mapsto> ?j2)" ?i ?j2 "\<lambda>j. j\<lparr>rc := rc j + 1\<rparr>"] js2(2)
      unfolding enter_job_def by auto
    have "freelist_get js3 ?i = Some (?j2\<lparr>rc := rc ?j2 + 1\<rparr>)" by (rule fl_rep_get [OF u(2)]) simp
    then show thesis using that u(1) rcp by (simp add: job_mark_as_done_def)
  qed
  have "work_on_block search b w1 (sa\<lparr>jobs := js2\<rparr>) wd = None"
    using js3 a wd(3) notify_freed [of wd p a]
    by (auto simp: work_on_block_def SCHEDULER_NO_ANSWER_SENTINEL_def Let_def)
  then have "worker_pass search w1 ?srv1 = None"
    using again by (simp add: worker_pass_def)
  then show ?thesis using pass wd(2) by auto
qed

text \<open>A request for the single number \<open>5\<close>, whose answer is found.\<close>

abbreviation single_request :: request where
  "single_request \<equiv> \<lparr>req_hash = replicate 32 0, req_start = 5, req_end = 5, req_priority = 4\<rparr>"

abbreviation single_sched :: scheduler where
  "single_sched \<equiv> \<lparr>jobs = \<lparr>fl_data = [Some (new_job single_request (Some 1) 1)], indicices = [Some 0], fl_cap = 1, free = 0\<rparr>,
     jobs_r = vec_init 1, jobs_w = vec_init 1, last_job_id = 1\<rparr>"

abbreviation single_taken :: job where
  "single_taken \<equiv> (new_job single_request (Some 1) 1)\<lparr>block_idx := 1\<rparr>"

lemma single_schedule:
  "scheduler_priority_schedule single_sched ready_worker =
     Some (Some \<lparr>blk_job = 0, blk_start = 5, blk_end = 5\<rparr>,
       single_sched\<lparr>jobs := \<lparr>fl_data = [Some single_taken], indicices = [Some 0], fl_cap = 1, free = 0\<rparr>\<rparr>,
       ready_worker\<lparr>target_hash := replicate 32 0, prev_job_id := 1\<rparr>)"
  by code_simp

theorem answer_sent_twice_witness:
  "\<exists>w1 srv1. worker_pass (\<lambda>_ _ _. Some 5) ready_worker \<lparr>sched = single_sched, answers = cache_create 8, net = two_clients\<rparr> =
       Some (w1, srv1) \<and> events (net srv1) = [Send 9 (be64 5), Close 9] \<and> worker_pass (\<lambda>_ _ _. Some 5) w1 srv1 = None"
proof -
  have "{i :: u32. i < 1} = {0}" by (auto simp: word_less_nat_alt unsigned_eq_0_iff)
  then have rep: "fl_rep \<lparr>fl_data = [Some single_taken], indicices = [Some 0], fl_cap = 1, free = 0\<rparr> [0 \<mapsto> single_taken]"
    by (auto simp: fl_rep_def)
  have cache: "cache_rep 8 (cache_create 8) Map.empty []" using cache_create_rep [of 8] by simp
  have blk: "block_start single_taken (block_count single_taken) = 5" "block_end single_taken (block_count single_taken) = 5"
    by code_simp+
  show ?thesis
    using answer_sent_twice [of "\<lparr>sched = single_sched, answers = cache_create 8, net = two_clients\<rparr>" ready_worker
        "\<lparr>blk_job = 0, blk_start = 5, blk_end = 5\<rparr>" _ _ "[0 \<mapsto> single_taken]" single_taken 1 "\<lambda>_ _ _. Some 5" 5 9 8 Map.empty "[]"]
      single_schedule rep cache blk
    by (auto simp: SHA256_DIGEST_LENGTH_def)
qed

end
