(* ===== verification/Prng.thy ===== *)
theory Prng
  imports Prelude
begin

text \<open>
  \<open>src/bits/prng.c\<close>: Marsaglia's xorshift generators. Each of the three steps of a round is injective, so a
  generator that is not at zero never gets there.
\<close>

definition xorshift32_prng_next :: "u32 \<Rightarrow> u32" where
  "xorshift32_prng_next state =
     (let state = state XOR push_bit 13 state;
          state = state XOR drop_bit 17 state;
          state = state XOR push_bit 5 state
      in state)"

definition xorshift64_prng_next :: "u64 \<Rightarrow> u64" where
  "xorshift64_prng_next state =
     (let state = state XOR push_bit 23 state;
          state = state XOR drop_bit 17 state;
          state = state XOR push_bit 26 state
      in state)"

lemma xor_eq_0: "(x :: 'a :: len word) XOR y = 0 \<longleftrightarrow> x = y"
  by (metis xor.assoc xor.left_neutral xor_self_eq)

lemma push_bit_fixed:
  assumes "x = push_bit k (x :: 'a :: len word)" "0 < k"
  shows "x = 0"
proof (rule bit_word_eqI)
  fix n show "bit x n \<longleftrightarrow> bit 0 n"
  proof (induction n rule: less_induct)
    case (less n)
    have "bit x n \<longleftrightarrow> bit (push_bit k x) n" using assms(1) by simp
    then show ?case using less.IH [of "n - k"] assms(2) by (auto simp: bit_simps)
  qed
qed

lemma drop_bit_fixed:
  assumes "x = drop_bit k (x :: 'a :: len word)" "0 < k"
  shows "x = 0"
proof (rule bit_word_eqI)
  fix n show "bit x n \<longleftrightarrow> bit 0 n"
  proof (induction "LENGTH('a) - n" arbitrary: n rule: less_induct)
    case (less n)
    have "bit x n \<longleftrightarrow> bit x (n + k)" using assms(1) by (metis bit_drop_bit_eq add.commute comp_apply)
    then show ?case
      using less.hyps [of "n + k"] assms(2) by (cases "n < LENGTH('a)") (auto dest: bit_imp_le_length)
  qed
qed

lemma xorshift_push_0 [simp]: "0 < k \<Longrightarrow> (x :: 'a :: len word) XOR push_bit k x = 0 \<longleftrightarrow> x = 0"
  using push_bit_fixed [of x k] by (auto simp: xor_eq_0)

lemma xorshift_drop_0 [simp]: "0 < k \<Longrightarrow> (x :: 'a :: len word) XOR drop_bit k x = 0 \<longleftrightarrow> x = 0"
  using drop_bit_fixed [of x k] by (auto simp: xor_eq_0)

lemma xorshift32_zero: "xorshift32_prng_next s = 0 \<longleftrightarrow> s = 0"
  by (simp only: xorshift32_prng_next_def Let_def xorshift_push_0 xorshift_drop_0 zero_less_numeral)

lemma xorshift64_zero: "xorshift64_prng_next s = 0 \<longleftrightarrow> s = 0"
  by (simp only: xorshift64_prng_next_def Let_def xorshift_push_0 xorshift_drop_0 zero_less_numeral)

end
