(* ===== verification/Sched_Rand.thy ===== *)
theory Sched_Rand
  imports Cache Scheduler_Base Prng
begin

text \<open>
  \<open>src/scheduler/sched_rand.c\<close>: the scheduler that picks the next job at random, weighted by priority. The
  server pushes new jobs into a ring buffer; the workers, under one lock, move them into a vector, pick a
  job by walking a random distance round the vector, and take the next \<open>2 ^ 16\<close> numbers of its range.
  The operations are modelled here as one thread at a time runs them (each takes the lock); how the
  workers wait for jobs is the step relation of \<open>Sched_Rand_Steps\<close>.
\<close>

section \<open>State\<close>

record rand_job =
  rj_hash :: "u8 list"
  rj_start :: u64
  rj_end :: u64
  rj_priority :: u8
  rj_id :: u32
  rj_recipient :: "nat option"

record rand_task =
  rt_hash :: "u8 list"
  rt_start :: u64
  rt_end :: u64
  rt_id :: u32
  rt_recipient :: "nat option"

record rand_scheduler =
  rs_cache :: cache
  rs_running :: bool
  rs_block_size :: u64
  rs_pending :: "rand_job ringbuffer"
  rs_jobs :: "rand_job vec"
  rs_next_job_id :: u32
  rs_priority_sum :: u32
  rs_task_idx :: u32
  rs_priority_idx :: u32
  rs_prng_state :: u32

definition SCHEDULER_RAND_BLOCK_SIZE :: u64 where "SCHEDULER_RAND_BLOCK_SIZE = 2 ^ 16"

definition scheduler_rand_create :: "u32 \<Rightarrow> rand_scheduler" where
  "scheduler_rand_create default_cap =
     \<lparr>rs_cache = cache_create default_cap, rs_running = True, rs_block_size = SCHEDULER_RAND_BLOCK_SIZE,
      rs_pending = ringbuffer_init default_cap, rs_jobs = vec_init default_cap, rs_next_job_id = 0,
      rs_priority_sum = 0, rs_task_idx = 0, rs_priority_idx = 0, rs_prng_state = 0xbeefbaad\<rparr>"

section \<open>Jobs\<close>

definition rand_job_of :: "request \<Rightarrow> nat option \<Rightarrow> u32 \<Rightarrow> rand_job" where
  "rand_job_of request recipient jid =
     (let priority = (if 1 < req_priority request then req_priority request else 1)
      in \<lparr>rj_hash = req_hash request, rj_start = req_start request, rj_end = req_end request,
          rj_priority = priority, rj_id = jid, rj_recipient = recipient\<rparr>)"

text \<open>
  \<open>junk\<close> and \<open>gjunk\<close> are the stack buffers of the cache's tree. Waking the workers changes no state modelled
  here.
\<close>

definition scheduler_rand_submit ::
  "(nat \<Rightarrow> nat \<Rightarrow> u8 list) \<Rightarrow> u8 list \<Rightarrow> request \<Rightarrow> nat option \<Rightarrow> rand_scheduler \<times> world \<Rightarrow>
   (u32 \<times> rand_scheduler \<times> world) option" where
  "scheduler_rand_submit junk gjunk request recipient = (\<lambda>(s, wd).
     do {
       c \<leftarrow> cache_process_pending junk (rs_cache s);
       cached_answer \<leftarrow> cache_get gjunk (req_hash request) c;
       case cached_answer of
         Some a \<Rightarrow> do {
           wd \<leftarrow> scheduler_job_notify_recipient recipient a wd;
           Some (SCHEDULER_NO_JOB_ID_SENTINEL, s\<lparr>rs_cache := c\<rparr>, wd)
         }
       | None \<Rightarrow> do {
           let j = rand_job_of request recipient (rs_next_job_id s);
           rb \<leftarrow> ringbuffer_push (rs_pending s) j;
           Some (rj_id j, s\<lparr>rs_cache := c, rs_next_job_id := rs_next_job_id s + 1, rs_pending := rb\<rparr>, wd)
         }
     })"

definition scheduler_rand_push_job :: "rand_job \<Rightarrow> rand_scheduler \<Rightarrow> rand_scheduler option" where
  "scheduler_rand_push_job j s =
     do {
       js \<leftarrow> vec_push (rs_jobs s) j;
       Some (s\<lparr>rs_priority_sum := rs_priority_sum s + ucast (rj_priority j), rs_jobs := js\<rparr>)
     }"

text \<open>The last job is copied over job \<open>idx\<close>, which it replaces.\<close>

definition scheduler_rand_remove_swap_job :: "u32 \<Rightarrow> rand_scheduler \<Rightarrow> rand_scheduler option" where
  "scheduler_rand_remove_swap_job idx s =
     do {
       let js = rs_jobs s;
       task \<leftarrow> vec_get js idx;
       last_job \<leftarrow> vec_get js (vec_len js - 1);
       js \<leftarrow> vec_set (js\<lparr>vec_len := vec_len js - 1\<rparr>) idx last_job;
       Some (s\<lparr>rs_priority_sum := rs_priority_sum s - ucast (rj_priority task), rs_jobs := js\<rparr>)
     }"

text \<open>
  The loop of \<open>scheduler_rand_process_pending_jobs\<close>. \<open>pending_job\<close> is an uninitialised local (\<open>None\<close>)
  until the first pop, and pushing it then is undefined behaviour.
\<close>

partial_function (option) process_pending_jobs_loop ::
  "u32 \<Rightarrow> u32 \<Rightarrow> rand_job option \<Rightarrow> rand_scheduler \<Rightarrow> rand_scheduler option" where
  "process_pending_jobs_loop head tail pending_job s =
     (if head \<noteq> tail
      then do {
        (popped, rb) \<leftarrow> ringbuffer_pop (rs_pending s);
        let pending_job = (case popped of Some j \<Rightarrow> Some j | None \<Rightarrow> pending_job);
        let tail = rb_tail rb;
        j \<leftarrow> pending_job;
        s \<leftarrow> scheduler_rand_push_job j (s\<lparr>rs_pending := rb\<rparr>);
        process_pending_jobs_loop head tail pending_job s
      }
      else Some s)"

declare process_pending_jobs_loop.simps [code]

definition scheduler_rand_process_pending_jobs :: "rand_scheduler \<Rightarrow> rand_scheduler option" where
  "scheduler_rand_process_pending_jobs s =
     process_pending_jobs_loop (rb_head (rs_pending s)) (rb_tail (rs_pending s)) None s"

section \<open>Cancelling\<close>

text \<open>The search loop of \<open>scheduler_rand_cancel\<close>, from index \<open>i\<close> on.\<close>

partial_function (option) rand_cancel_from :: "u32 \<Rightarrow> u32 \<Rightarrow> rand_scheduler \<Rightarrow> rand_scheduler option" where
  "rand_cancel_from i jid s =
     (if i < vec_len (rs_jobs s)
      then do {
        j \<leftarrow> vec_get (rs_jobs s) i;
        if rj_id j = jid
        then do {
          s \<leftarrow> scheduler_rand_remove_swap_job i s;
          Some (s\<lparr>rs_task_idx := 0, rs_priority_idx := 0\<rparr>)
        }
        else rand_cancel_from (i + 1) jid s
      }
      else Some s)"

declare rand_cancel_from.simps [code]

definition scheduler_rand_cancel :: "u32 \<Rightarrow> rand_scheduler \<Rightarrow> rand_scheduler option" where
  "scheduler_rand_cancel = rand_cancel_from 0"

section \<open>Scheduling\<close>

text \<open>The walk round the vector (lines 172 to 188).\<close>

partial_function (option) rand_pick :: "u32 \<Rightarrow> rand_scheduler \<Rightarrow> rand_scheduler option" where
  "rand_pick offset s =
     do {
       current \<leftarrow> vec_get (rs_jobs s) (rs_task_idx s);
       let remaining = ucast (rj_priority current) - rs_priority_idx s;
       if remaining < offset
       then do {
         next_idx \<leftarrow> umod (rs_task_idx s + 1) (vec_len (rs_jobs s));
         rand_pick (offset - remaining) (s\<lparr>rs_task_idx := next_idx, rs_priority_idx := 0\<rparr>)
       }
       else Some (s\<lparr>rs_priority_idx := rs_priority_idx s + offset\<rparr>)
     }"

declare rand_pick.simps [code]

text \<open>The task that is cut from the front of the current job.\<close>

definition rand_task_of :: "u64 \<Rightarrow> rand_job \<Rightarrow> rand_task" where
  "rand_task_of bs current =
     (let task_end = rj_start current + bs;
          task_end = (if rj_end current < task_end then rj_end current else task_end)
      in \<lparr>rt_hash = rj_hash current, rt_start = rj_start current, rt_end = task_end, rt_id = rj_id current,
          rt_recipient = rj_recipient current\<rparr>)"

definition rand_take :: "rand_scheduler \<Rightarrow> (rand_task \<times> rand_scheduler) option" where
  "rand_take s =
     do {
       let prng = xorshift32_prng_next (rs_prng_state s);
       offset \<leftarrow> umod prng (rs_priority_sum s);
       s \<leftarrow> rand_pick offset (s\<lparr>rs_prng_state := prng\<rparr>);
       current \<leftarrow> vec_get (rs_jobs s) (rs_task_idx s);
       let task = rand_task_of (rs_block_size s) current;
       let current = current\<lparr>rj_start := rt_end task\<rparr>;
       js \<leftarrow> vec_set (rs_jobs s) (rs_task_idx s) current;
       let s = s\<lparr>rs_jobs := js\<rparr>;
       if rj_start current = rj_end current
       then do {
         s \<leftarrow> scheduler_rand_remove_swap_job (rs_task_idx s) s;
         Some (task, s\<lparr>rs_task_idx := 0, rs_priority_idx := 0\<rparr>)
       }
       else Some (task, s)
     }"

text \<open>
  One round of \<open>scheduler_rand_schedule\<close> under the lock: the scheduler is shutting down, there is no job
  (the worker gives up the lock and waits), or the call returns a task.
\<close>

datatype rand_outcome = Shut_Down | No_Job | Task rand_task

definition scheduler_rand_schedule :: "rand_scheduler \<Rightarrow> (rand_outcome \<times> rand_scheduler) option" where
  "scheduler_rand_schedule s =
     (if \<not> rs_running s then Some (Shut_Down, s)
      else do {
        s \<leftarrow> scheduler_rand_process_pending_jobs s;
        if 0 < vec_len (rs_jobs s)
        then do { (task, s) \<leftarrow> rand_take s; Some (Task task, s) }
        else Some (No_Job, s)
      })"

text \<open>What a worker does after the search of a task has ended with \<open>a\<close>.\<close>

definition rand_finish :: "rand_task \<Rightarrow> u64 \<Rightarrow> rand_scheduler \<times> world \<Rightarrow> (rand_scheduler \<times> world) option" where
  "rand_finish task a = (\<lambda>(s, wd).
     if a = SCHEDULER_NO_ANSWER_SENTINEL then Some (s, wd)
     else do {
       s \<leftarrow> scheduler_rand_cancel (rt_id task) s;
       wd \<leftarrow> scheduler_job_notify_recipient (rt_recipient task) a wd;
       c \<leftarrow> cache_insert_pending (rt_hash task) a (rs_cache s);
       Some (s\<lparr>rs_cache := c\<rparr>, wd)
     })"

section \<open>Representation\<close>

text \<open>
  \<open>rand_data s qs js\<close>: the ring buffer holds the jobs \<open>qs\<close> and the vector the jobs \<open>js\<close>, all of positive
  priority, and \<open>priority_sum\<close> is the sum over \<open>js\<close>. \<open>rand_rep\<close> adds the position of the walk: at a job of
  the vector, and not past its priority; at the start when there is none.
\<close>

definition rand_priorities :: "rand_job list \<Rightarrow> nat" where
  "rand_priorities js = sum_list (map (\<lambda>j. unat (rj_priority j)) js)"

definition rand_data :: "rand_scheduler \<Rightarrow> rand_job list \<Rightarrow> rand_job list \<Rightarrow> bool" where
  "rand_data s qs js \<longleftrightarrow>
     rb_rep (rs_pending s) qs \<and> vec_rep (rs_jobs s) js \<and>
     0 < vec_cap (rs_jobs s) \<and> unat (vec_cap (rs_jobs s)) \<le> 2 ^ 25 \<and> length js \<le> 2 ^ 24 \<and>
     (\<forall>j \<in> set qs \<union> set js. 0 < rj_priority j) \<and> unat (rs_priority_sum s) = rand_priorities js"

definition cursor_ok :: "rand_scheduler \<Rightarrow> rand_job list \<Rightarrow> bool" where
  "cursor_ok s js \<longleftrightarrow>
     (if js = [] then rs_task_idx s = 0 \<and> rs_priority_idx s = 0
      else unat (rs_task_idx s) < length js \<and>
        rs_priority_idx s \<le> ucast (rj_priority (js ! unat (rs_task_idx s))))"

definition rand_rep :: "rand_scheduler \<Rightarrow> rand_job list \<Rightarrow> rand_job list \<Rightarrow> bool" where
  "rand_rep s qs js \<longleftrightarrow> rand_data s qs js \<and> cursor_ok s js"

lemma rand_dataD:
  assumes "rand_data s qs js"
  shows "rb_rep (rs_pending s) qs" "vec_rep (rs_jobs s) js" "0 < vec_cap (rs_jobs s)"
    "unat (vec_cap (rs_jobs s)) \<le> 2 ^ 25" "length js \<le> 2 ^ 24"
    "\<And>j. j \<in> set qs \<union> set js \<Longrightarrow> 0 < rj_priority j" "unat (rs_priority_sum s) = rand_priorities js"
  using assms by (auto simp: rand_data_def)

lemma rand_rep_len: "rand_rep s qs js \<Longrightarrow> unat (vec_len (rs_jobs s)) = length js"
  by (simp add: rand_rep_def rand_data_def vec_rep_def)

lemma rand_priorities_simps [simp]:
  "rand_priorities [] = 0" "rand_priorities (j # js) = unat (rj_priority j) + rand_priorities js"
  "rand_priorities (xs @ ys) = rand_priorities xs + rand_priorities ys"
  by (simp_all add: rand_priorities_def)

lemma rand_priorities_mset: "rand_priorities js = sum_mset (image_mset (\<lambda>j. unat (rj_priority j)) (mset js))"
  by (simp add: rand_priorities_def flip: sum_mset_sum_list)

lemma rand_priorities_bound: "rand_priorities js \<le> 255 * length js"
proof (induction js)
  case (Cons j js)
  then show ?case using u8_bound [of "rj_priority j"] by (simp del: One_nat_def)
qed simp

lemma rand_priorities_pos: "js \<noteq> [] \<Longrightarrow> (\<And>j. j \<in> set js \<Longrightarrow> 0 < rj_priority j) \<Longrightarrow> 0 < rand_priorities js"
  by (cases js) (auto simp: word_less_nat_alt)

lemma rand_rep_create:
  assumes "0 < c" "unat c \<le> 2 ^ 25"
  shows "rand_rep (scheduler_rand_create c) [] []"
  using assms rb_rep_init [OF assms(1)]
  by (simp add: rand_rep_def rand_data_def cursor_ok_def scheduler_rand_create_def)
    (simp add: vec_init_def)

text \<open>Fields outside the representation may change freely.\<close>

lemma rand_rep_frame [simp]:
  "rand_rep (s\<lparr>rs_cache := c\<rparr>) qs js \<longleftrightarrow> rand_rep s qs js"
  "rand_rep (s\<lparr>rs_next_job_id := n\<rparr>) qs js \<longleftrightarrow> rand_rep s qs js"
  "rand_rep (s\<lparr>rs_prng_state := n\<rparr>) qs js \<longleftrightarrow> rand_rep s qs js"
  "rand_data (s\<lparr>rs_prng_state := n\<rparr>) qs js \<longleftrightarrow> rand_data s qs js"
  "rand_rep (s\<lparr>rs_running := r\<rparr>) qs js \<longleftrightarrow> rand_rep s qs js"
  "rand_data (s\<lparr>rs_task_idx := a\<rparr>) qs js \<longleftrightarrow> rand_data s qs js"
  "rand_data (s\<lparr>rs_priority_idx := b\<rparr>) qs js \<longleftrightarrow> rand_data s qs js"
  by (simp_all add: rand_rep_def rand_data_def cursor_ok_def)

text \<open>What the operations on jobs leave alone.\<close>

definition rand_frame :: "rand_scheduler \<Rightarrow> rand_scheduler \<Rightarrow> bool" where
  "rand_frame s s' \<longleftrightarrow> rs_cache s' = rs_cache s \<and> rs_running s' = rs_running s \<and>
     rs_block_size s' = rs_block_size s \<and> rs_next_job_id s' = rs_next_job_id s \<and>
     rb_size (rs_pending s') = rb_size (rs_pending s)"

lemma rand_frame_refl [simp]: "rand_frame s s"
  by (simp add: rand_frame_def)

lemma rand_frame_trans [trans]: "rand_frame s t \<Longrightarrow> rand_frame t u \<Longrightarrow> rand_frame s u"
  by (simp add: rand_frame_def)

lemma rand_frame_update [simp]:
  "rand_frame s (t\<lparr>rs_jobs := v\<rparr>) = rand_frame s t"
  "rand_frame s (t\<lparr>rs_priority_sum := n\<rparr>) = rand_frame s t" "rand_frame s (t\<lparr>rs_task_idx := n\<rparr>) = rand_frame s t"
  "rand_frame s (t\<lparr>rs_priority_idx := n\<rparr>) = rand_frame s t" "rand_frame s (t\<lparr>rs_prng_state := n\<rparr>) = rand_frame s t"
  by (simp_all add: rand_frame_def)

section \<open>Adding jobs\<close>

lemma rand_push_job:
  assumes "rand_rep s qs js" "length js < 2 ^ 24" "0 < rj_priority j"
  shows "\<exists>s'. scheduler_rand_push_job j s = Some s' \<and> rand_rep s' qs (js @ [j]) \<and> rand_frame s s' \<and>
    rs_pending s' = rs_pending s"
proof -
  have r: "rand_data s qs js" "cursor_ok s js" using assms(1) by (simp_all add: rand_rep_def)
  note d = rand_dataD [OF r(1)]
  have "unat (vec_cap (rs_jobs s)) * 2 < 2 ^ 32" using d(4) by simp
  then obtain v where v: "vec_push (rs_jobs s) j = Some v" "vec_rep v (js @ [j])" "vec_cap (rs_jobs s) \<le> vec_cap v"
      "unat (vec_cap v) \<le> max (unat (vec_cap (rs_jobs s))) (2 * length js)"
    using vec_push_rep [OF d(2,3)] by blast
  let ?ps = "rs_priority_sum s + ucast (rj_priority j)"
  have "rand_priorities js \<le> 255 * 2 ^ 24"
    using rand_priorities_bound [of js] d(5) by simp
  then have sum: "unat ?ps = rand_priorities (js @ [j])"
    using d(7) u8_bound [of "rj_priority j"] by (simp add: unat_word_ariths)
  have "rand_rep (s\<lparr>rs_priority_sum := ?ps, rs_jobs := v\<rparr>) qs (js @ [j])"
    using r(2) d(1,3,4,6) v(2-) sum assms(2,3)
    by (auto simp: rand_rep_def rand_data_def cursor_ok_def nth_append split: if_splits)
  then show ?thesis using v(1) by (auto simp: scheduler_rand_push_job_def)
qed

text \<open>Moving the pending jobs ends: one job a round, and the buffer is read up to the old head.\<close>

lemma process_pending_jobs:
  assumes "rand_rep s qs js" "length qs + length js \<le> 2 ^ 24"
  shows "\<exists>s'. process_pending_jobs_loop (rb_head (rs_pending s)) (rb_tail (rs_pending s)) x s = Some s' \<and>
    rand_rep s' [] (js @ qs) \<and> rand_frame s s'"
  using assms
proof (induction qs arbitrary: x s js)
  case Nil
  then have "rb_head (rs_pending s) = rb_tail (rs_pending s)"
    using rb_empty_iff [of "rs_pending s" "[]"] by (simp add: rand_rep_def rand_data_def)
  then show ?case
    using Nil(1) by (subst process_pending_jobs_loop.simps) simp
next
  case (Cons j qs)
  have rep: "rb_rep (rs_pending s) (j # qs)" using Cons.prems(1) by (simp add: rand_rep_def rand_data_def)
  obtain rb where rb: "ringbuffer_pop (rs_pending s) = Some (Some j, rb)" "rb_rep rb qs" "rb_size rb = rb_size (rs_pending s)"
    using rb_pop [OF rep] by blast
  have head: "rb_head rb = rb_head (rs_pending s)"
    using rb(1) by (auto simp: ringbuffer_pop_def Let_def split: Option.bind_splits if_splits)
  have ne: "rb_head (rs_pending s) \<noteq> rb_tail (rs_pending s)" using rb_empty_iff [OF rep] by simp
  let ?s = "s\<lparr>rs_pending := rb\<rparr>"
  have "rand_rep ?s qs js" "0 < rj_priority j"
    using Cons.prems(1) rb(2) by (auto simp: rand_rep_def rand_data_def cursor_ok_def)
  then obtain t where t: "scheduler_rand_push_job j ?s = Some t" "rand_rep t qs (js @ [j])" "rand_frame ?s t"
      "rs_pending t = rb"
    using rand_push_job [of ?s qs js j] Cons.prems(2) by auto
  have "length qs + length (js @ [j]) \<le> 2 ^ 24" using Cons.prems(2) by simp
  moreover have "rand_frame s t" using t(3) rb(3) by (simp add: rand_frame_def)
  ultimately obtain u where "process_pending_jobs_loop (rb_head rb) (rb_tail rb) (Some j) t = Some u"
      "rand_rep u [] ((js @ [j]) @ qs)" "rand_frame s u"
    using Cons.IH [OF t(2), of "Some j"] t(4) rand_frame_trans by auto
  then show ?case
    using rb(1) t(1) head ne by (subst process_pending_jobs_loop.simps) (simp add: Let_def)
qed

section \<open>Removing a job\<close>

definition swap_remove :: "nat \<Rightarrow> 'a list \<Rightarrow> 'a list" where
  "swap_remove i js = butlast (js[i := last js])"

lemma mset_swap_remove: "i < length js \<Longrightarrow> mset (swap_remove i js) = mset js - {#js ! i#}"
proof (cases js rule: rev_cases)
  case (snoc ys y)
  assume "i < length js"
  then show ?thesis
    using snoc by (cases "i = length ys") (auto simp: swap_remove_def list_update_append nth_append mset_update)
qed simp

lemma set_swap_remove: "i < length js \<Longrightarrow> set (swap_remove i js) \<subseteq> set js"
  by (metis mset_swap_remove diff_subset_eq_self set_mset_mono set_mset_mset)

lemma length_swap_remove [simp]: "length (swap_remove i js) = length js - 1"
  by (simp add: swap_remove_def)

lemma swap_remove_nth: "k < length js - 1 \<Longrightarrow> swap_remove i js ! k = (if k = i then last js else js ! k)"
  by (simp add: swap_remove_def nth_butlast nth_list_update)

lemma vec_swap_remove:
  assumes "vec_rep v js" "unat i < length js"
  shows "vec_get v (vec_len v - 1) = Some (last js)"
    "\<exists>v'. vec_set (v\<lparr>vec_len := vec_len v - 1\<rparr>) i (last js) = Some v' \<and>
       vec_rep v' (swap_remove (unat i) js) \<and> vec_cap v' = vec_cap v"
proof -
  note r = vec_repD [OF assms(1)]
  have len: "unat (vec_len v - 1) = length js - 1"
    using r(2) assms(2) by (simp add: unat_sub word_le_nat_alt)
  then show "vec_get v (vec_len v - 1) = Some (last js)"
    using vec_get_rep [OF assms(1), of "vec_len v - 1"] assms(2) by (subst last_conv_nth) auto
  have "take (length js - 1) ((vec_data v)[unat i := Some (last js)]) =
      take (length js - 1) (take (length js) ((vec_data v)[unat i := Some (last js)]))"
    by simp
  also have "take (length js) ((vec_data v)[unat i := Some (last js)]) = map Some (js[unat i := last js])"
    using r(4) by (simp add: take_update_swap map_update)
  also have "take (length js - 1) \<dots> = map Some (swap_remove (unat i) js)"
    by (simp add: swap_remove_def butlast_conv_take take_map)
  finally have t: "take (length js - 1) ((vec_data v)[unat i := Some (last js)]) = map Some (swap_remove (unat i) js)" .
  show "\<exists>v'. vec_set (v\<lparr>vec_len := vec_len v - 1\<rparr>) i (last js) = Some v' \<and>
       vec_rep v' (swap_remove (unat i) js) \<and> vec_cap v' = vec_cap v"
    using r(1,3) assms(2) t len by (simp add: vec_set_def st_def vec_rep_def)
qed

lemma rand_remove:
  assumes d: "rand_data s qs js" and i: "unat i < length js"
  shows "\<exists>s'. scheduler_rand_remove_swap_job i s = Some s' \<and> rand_data s' qs (swap_remove (unat i) js) \<and>
    rand_frame s s'"
proof -
  note r = rand_dataD [OF d]
  obtain v where v: "vec_set ((rs_jobs s)\<lparr>vec_len := vec_len (rs_jobs s) - 1\<rparr>) i (last js) = Some v"
      "vec_rep v (swap_remove (unat i) js)" "vec_cap v = vec_cap (rs_jobs s)"
    using vec_swap_remove(2) [OF r(2) i] by blast
  let ?ps = "rs_priority_sum s - ucast (rj_priority (js ! unat i))"
  have in_js: "js ! unat i \<in># mset js" using i by simp
  have "rand_priorities js = unat (rj_priority (js ! unat i)) + rand_priorities (swap_remove (unat i) js)"
    unfolding rand_priorities_mset mset_swap_remove [OF i]
    by (subst insert_DiffM [OF in_js, symmetric]) simp
  then have "unat ?ps = rand_priorities (swap_remove (unat i) js)"
    using r(7) by (simp add: unat_sub word_le_nat_alt)
  then have "rand_data (s\<lparr>rs_priority_sum := ?ps, rs_jobs := v\<rparr>) qs (swap_remove (unat i) js)"
    using r set_swap_remove [OF i] v(2,3) by (auto simp: rand_data_def)
  then show ?thesis
    using v(1) vec_get_rep [OF r(2) i] vec_swap_remove(1) [OF r(2) i]
    by (simp add: scheduler_rand_remove_swap_job_def Let_def)
qed

text \<open>Both callers restart the walk after a removal.\<close>

lemma rand_remove_restart:
  assumes "rand_data s qs js" "unat i < length js"
  shows "\<exists>s'. scheduler_rand_remove_swap_job i s = Some s' \<and> rand_frame s s' \<and>
    rand_rep (s'\<lparr>rs_task_idx := 0, rs_priority_idx := 0\<rparr>) qs (swap_remove (unat i) js)"
proof -
  obtain s' where s': "scheduler_rand_remove_swap_job i s = Some s'" "rand_frame s s'"
      "rand_data s' qs (swap_remove (unat i) js)"
    using rand_remove [OF assms] by blast
  have "cursor_ok (s'\<lparr>rs_task_idx := 0, rs_priority_idx := 0\<rparr>) (swap_remove (unat i) js)"
    by (simp add: cursor_ok_def del: length_swap_remove)
  then show ?thesis using s' by (auto simp: rand_rep_def)
qed

section \<open>Cancelling\<close>

text \<open>The list after cancelling: the first job with the id is replaced by the last one.\<close>

definition cancel_job :: "u32 \<Rightarrow> rand_job list \<Rightarrow> rand_job list" where
  "cancel_job jid js =
     (case find (\<lambda>i. rj_id (js ! i) = jid) [0..<length js] of None \<Rightarrow> js | Some i \<Rightarrow> swap_remove i js)"

lemma rand_cancel_from:
  assumes "rand_rep s qs js" "unat i \<le> length js"
  shows "\<exists>s'. rand_cancel_from i jid s = Some s' \<and> rand_frame s s' \<and>
    rand_rep s' qs
      (case find (\<lambda>i. rj_id (js ! i) = jid) [unat i..<length js] of None \<Rightarrow> js | Some i \<Rightarrow> swap_remove i js)"
  using assms(2)
proof (induction "length js - unat i" arbitrary: i)
  case 0
  have "unat (vec_len (rs_jobs s)) = length js"
    using assms(1) vec_rep_len by (auto simp: rand_rep_def rand_data_def)
  then show ?case
    using 0 assms(1) by (subst rand_cancel_from.simps) (simp add: word_less_nat_alt)
next
  case (Suc k)
  then have i: "unat i < length js" by simp
  have d: "rand_data s qs js" using assms(1) by (simp add: rand_rep_def)
  have len: "unat (vec_len (rs_jobs s)) = length js" and get: "vec_get (rs_jobs s) i = Some (js ! unat i)"
    using vec_rep_len vec_get_rep i rand_dataD(2) [OF d] by blast+
  have up: "[unat i..<length js] = unat i # [Suc (unat i)..<length js]" using i by (rule upt_conv_Cons)
  have next_i: "unat (i + 1) = Suc (unat i)"
    using i len u32_bound [of "vec_len (rs_jobs s)"] by (simp add: unat_word_ariths)
  show ?case
  proof (cases "rj_id (js ! unat i) = jid")
    case True
    then show ?thesis
      using rand_remove_restart [OF d i] get len i up
      by (subst rand_cancel_from.simps) (auto simp: word_less_nat_alt)
  next
    case False
    moreover have "k = length js - unat (i + 1)" "unat (i + 1) \<le> length js" using Suc.hyps(2) i next_i by simp_all
    ultimately show ?thesis
      using Suc.hyps(1) [of "i + 1"] get len i up next_i
      by (subst rand_cancel_from.simps) (auto simp: word_less_nat_alt)
  qed
qed

lemma rand_cancel:
  assumes "rand_rep s qs js"
  shows "\<exists>s'. scheduler_rand_cancel jid s = Some s' \<and> rand_frame s s' \<and> rand_rep s' qs (cancel_job jid js)"
  using rand_cancel_from [OF assms, of 0] by (simp add: scheduler_rand_cancel_def cancel_job_def)

section \<open>The walk ends\<close>

text \<open>
  Every step of the walk that leaves a job spends the rest of its priority, which is positive except
  perhaps at the first job.
\<close>

lemma rand_pick_terminates:
  assumes "rand_rep s qs js" "js \<noteq> []"
  shows "\<exists>a b. rand_pick offset s = Some (s\<lparr>rs_task_idx := a, rs_priority_idx := b\<rparr>) \<and>
    rand_rep (s\<lparr>rs_task_idx := a, rs_priority_idx := b\<rparr>) qs js"
  using assms(1)
proof (induction "2 * unat offset + (if rs_priority_idx s = 0 then 0 else 1)" arbitrary: offset s rule: less_induct)
  case (less offset s)
  have d: "rand_data s qs js" and c: "unat (rs_task_idx s) < length js"
      "rs_priority_idx s \<le> ucast (rj_priority (js ! unat (rs_task_idx s)))"
    using less.prems assms(2) by (simp_all add: rand_rep_def cursor_ok_def)
  let ?j = "js ! unat (rs_task_idx s)" and ?i = "rs_task_idx s"
  let ?rem = "ucast (rj_priority ?j) - rs_priority_idx s :: u32"
  have get: "vec_get (rs_jobs s) ?i = Some ?j" and len: "unat (vec_len (rs_jobs s)) = length js"
    using vec_get_rep vec_rep_len c(1) rand_dataD(2) [OF d] by blast+
  have pos: "0 < unat (rj_priority ?j)" using rand_dataD(6) [OF d, of ?j] c(1) by (simp add: word_less_nat_alt)
  have rem: "unat ?rem = unat (rj_priority ?j) - unat (rs_priority_idx s)"
    using c(2) by (simp add: unat_sub word_le_nat_alt)
  show ?case
  proof (cases "?rem < offset")
    case False
    then have "unat (rs_priority_idx s) + unat offset \<le> unat (rj_priority ?j)"
      using c(2) rem by (simp add: word_less_nat_alt word_le_nat_alt)
    then have "rs_priority_idx s + offset \<le> ucast (rj_priority ?j)"
      using u8_bound [of "rj_priority ?j"] by (simp add: word_le_nat_alt unat_word_ariths)
    then have "rand_rep (s\<lparr>rs_task_idx := ?i, rs_priority_idx := rs_priority_idx s + offset\<rparr>) qs js"
      using d c(1) assms(2) by (simp add: rand_rep_def cursor_ok_def)
    then show ?thesis
      using False get
      by (intro exI [of _ ?i] exI [of _ "rs_priority_idx s + offset"]) (subst rand_pick.simps, simp add: Let_def)
  next
    case True
    obtain k where k: "umod (?i + 1) (vec_len (rs_jobs s)) = Some k" "k < vec_len (rs_jobs s)"
      using umod_step [of ?i "vec_len (rs_jobs s)"] c(1) len by (auto simp: word_less_nat_alt)
    let ?s = "s\<lparr>rs_task_idx := k, rs_priority_idx := 0\<rparr>"
    have "unat (offset - ?rem) = unat offset - unat ?rem"
      using True by (simp add: unat_sub word_less_nat_alt word_le_nat_alt)
    moreover have "rs_priority_idx s = 0 \<Longrightarrow> 0 < unat ?rem" using rem pos by simp
    ultimately have "2 * unat (offset - ?rem) + 0 < 2 * unat offset + (if rs_priority_idx s = 0 then 0 else 1)"
      using True by (auto simp: word_less_nat_alt)
    moreover have "rand_rep ?s qs js"
      using d k(2) len assms(2) by (simp add: rand_rep_def cursor_ok_def word_less_nat_alt)
    ultimately show ?thesis
      using less.hyps [of "offset - ?rem" ?s] True get k(1)
      by (subst rand_pick.simps) (auto simp: Let_def)
  qed
qed

section \<open>Taking a task\<close>

text \<open>The vector after the task has been cut from job \<open>i\<close>.\<close>

definition rand_advance :: "nat \<Rightarrow> rand_task \<Rightarrow> rand_job list \<Rightarrow> rand_job list" where
  "rand_advance i task js =
     (if rt_end task = rj_end (js ! i) then swap_remove i js else js[i := (js ! i)\<lparr>rj_start := rt_end task\<rparr>])"

lemma swap_remove_update: "i < length js \<Longrightarrow> swap_remove i (js[i := x]) = swap_remove i js"
  by (cases js rule: rev_cases) (auto simp: swap_remove_def list_update_append nth_append)

lemma map_priority_update:
  "i < length js \<Longrightarrow> map rj_priority (js[i := (js ! i)\<lparr>rj_start := x\<rparr>]) = map rj_priority js"
  by (rule nth_equalityI) (auto simp: nth_list_update)

lemma positive_priorities: "(\<forall>j \<in> set js. 0 < rj_priority j) \<longleftrightarrow> (\<forall>p \<in> set (map rj_priority js). 0 < p)"
  by simp

lemma rand_priorities_map: "rand_priorities js = sum_list (map unat (map rj_priority js))"
  by (simp add: rand_priorities_def comp_def)

lemma rand_data_update:
  assumes "rand_data s qs js" "i < length js" "vec_rep v (js[i := (js ! i)\<lparr>rj_start := x\<rparr>])" "vec_cap v = vec_cap (rs_jobs s)"
  shows "rand_data (s\<lparr>rs_jobs := v\<rparr>) qs (js[i := (js ! i)\<lparr>rj_start := x\<rparr>])"
  using assms unfolding rand_data_def ball_Un positive_priorities [of js]
    positive_priorities [of "js[i := (js ! i)\<lparr>rj_start := x\<rparr>]"] rand_priorities_map map_priority_update [OF assms(2)]
  by simp

lemma rand_take_correct:
  assumes rep: "rand_rep s qs js" and ne: "js \<noteq> []"
  shows "\<exists>i s'. i < length js \<and> rand_take s = Some (rand_task_of (rs_block_size s) (js ! i), s') \<and>
    rand_frame s s' \<and> rand_rep s' qs (rand_advance i (rand_task_of (rs_block_size s) (js ! i)) js)"
proof -
  have d: "rand_data s qs js" using rep by (simp add: rand_rep_def)
  have "0 < rand_priorities js" using rand_priorities_pos [OF ne] rand_dataD(6) [OF d] by blast
  then have "rs_priority_sum s \<noteq> 0" using rand_dataD(7) [OF d] by auto
  then obtain offset where offset: "umod (xorshift32_prng_next (rs_prng_state s)) (rs_priority_sum s) = Some offset"
    by (simp add: umod_def)
  let ?s0 = "s\<lparr>rs_prng_state := xorshift32_prng_next (rs_prng_state s)\<rparr>"
  have "rand_rep ?s0 qs js" using rep by simp
  then obtain a b where pick: "rand_pick offset ?s0 = Some (?s0\<lparr>rs_task_idx := a, rs_priority_idx := b\<rparr>)"
      "rand_rep (?s0\<lparr>rs_task_idx := a, rs_priority_idx := b\<rparr>) qs js"
    using rand_pick_terminates ne by blast
  define s1 where "s1 = ?s0\<lparr>rs_task_idx := a, rs_priority_idx := b\<rparr>"
  have r1: "rand_data s1 qs js" "cursor_ok s1 js" and s1: "rs_task_idx s1 = a" "rs_block_size s1 = rs_block_size s"
      "rand_frame s s1"
    using pick(2) by (simp_all add: s1_def rand_rep_def)
  have a: "unat a < length js" using r1(2) ne s1(1) by (simp add: cursor_ok_def)
  let ?t = "rand_task_of (rs_block_size s) (js ! unat a)"
  let ?js = "js[unat a := (js ! unat a)\<lparr>rj_start := rt_end ?t\<rparr>]"
  have get: "vec_get (rs_jobs s1) a = Some (js ! unat a)" by (rule vec_get_rep [OF rand_dataD(2) [OF r1(1)] a])
  obtain v where v: "vec_set (rs_jobs s1) a ((js ! unat a)\<lparr>rj_start := rt_end ?t\<rparr>) = Some v" "vec_rep v ?js"
      "vec_cap v = vec_cap (rs_jobs s1)"
    using vec_set_rep [OF rand_dataD(2) [OF r1(1)] a] by blast
  note r2 = rand_data_update [OF r1(1) a v(2,3)]
  have take_eq: "rand_take s = (if rt_end ?t = rj_end (js ! unat a)
      then do { s' \<leftarrow> scheduler_rand_remove_swap_job a (s1\<lparr>rs_jobs := v\<rparr>);
                Some (?t, s'\<lparr>rs_task_idx := 0, rs_priority_idx := 0\<rparr>) }
      else Some (?t, s1\<lparr>rs_jobs := v\<rparr>))"
    using offset pick(1) get v(1) s1 by (simp add: rand_take_def Let_def flip: s1_def)
  show ?thesis
  proof (cases "rt_end ?t = rj_end (js ! unat a)")
    case True
    have "unat a < length ?js" using a by simp
    then obtain s' where s': "scheduler_rand_remove_swap_job a (s1\<lparr>rs_jobs := v\<rparr>) = Some s'"
        "rand_frame (s1\<lparr>rs_jobs := v\<rparr>) s'"
        "rand_rep (s'\<lparr>rs_task_idx := 0, rs_priority_idx := 0\<rparr>) qs (swap_remove (unat a) ?js)"
      using rand_remove_restart [OF r2] by blast
    moreover have "rand_frame s s'" using s1(3) s'(2) by (simp add: rand_frame_def)
    ultimately show ?thesis
      using a take_eq True by (intro exI [of _ "unat a"]) (simp add: rand_advance_def swap_remove_update)
  next
    case False
    have "cursor_ok (s1\<lparr>rs_jobs := v\<rparr>) ?js"
      using r1(2) ne a s1(1) by (simp add: cursor_ok_def)
    then show ?thesis
      using a take_eq False r2 s1(3) by (intro exI [of _ "unat a"]) (simp add: rand_advance_def rand_rep_def)
  qed
qed

lemma rand_schedule_correct:
  assumes rep: "rand_rep s qs js" and room: "length qs + length js \<le> 2 ^ 24" and run: "rs_running s" and ne: "js @ qs \<noteq> []"
  shows "\<exists>i s'. i < length (js @ qs) \<and>
    scheduler_rand_schedule s = Some (Task (rand_task_of (rs_block_size s) ((js @ qs) ! i)), s') \<and>
    rand_frame s s' \<and>
    rand_rep s' [] (rand_advance i (rand_task_of (rs_block_size s) ((js @ qs) ! i)) (js @ qs))"
proof -
  obtain t where t: "scheduler_rand_process_pending_jobs s = Some t" "rand_rep t [] (js @ qs)" "rand_frame s t"
    using process_pending_jobs [OF rep room] unfolding scheduler_rand_process_pending_jobs_def by blast
  have bs: "rs_block_size t = rs_block_size s" using t(3) by (simp add: rand_frame_def)
  have "unat (vec_len (rs_jobs t)) = length (js @ qs)"
    using t(2) by (rule rand_rep_len)
  then have "0 < vec_len (rs_jobs t)" using ne by (simp add: word_less_nat_alt)
  moreover obtain i s' where "i < length (js @ qs)"
      "rand_take t = Some (rand_task_of (rs_block_size s) ((js @ qs) ! i), s')" "rand_frame t s'"
      "rand_rep s' [] (rand_advance i (rand_task_of (rs_block_size s) ((js @ qs) ! i)) (js @ qs))"
    using rand_take_correct [OF t(2) ne] bs by auto
  ultimately show ?thesis
    using t(1) run rand_frame_trans [OF t(3)]
    by (intro exI [of _ i] exI [of _ s']) (simp add: scheduler_rand_schedule_def)
qed

lemma rand_schedule_empty:
  assumes rep: "rand_rep s [] []" and run: "rs_running s"
  shows "\<exists>s'. scheduler_rand_schedule s = Some (No_Job, s') \<and> rand_frame s s' \<and> rand_rep s' [] []"
proof -
  obtain t where t: "scheduler_rand_process_pending_jobs s = Some t" "rand_rep t [] []" "rand_frame s t"
    using process_pending_jobs [OF rep, of None] unfolding scheduler_rand_process_pending_jobs_def by auto
  then have "unat (vec_len (rs_jobs t)) = 0"
    using rand_rep_len by fastforce
  then show ?thesis
    using t run by (simp add: scheduler_rand_schedule_def unsigned_eq_0_iff)
qed

section \<open>Every number is searched\<close>

text \<open>
  A job stands for the numbers of its range, and a task for the numbers from its start to its end, both
  included, as the search takes them. \<open>rand_range_ok\<close>: the range does not end within \<open>2 ^ 16\<close> of \<open>2 ^ 64\<close>.
\<close>

definition rand_numbers :: "rand_job \<Rightarrow> (nat option \<times> u8 list \<times> u64) set" where
  "rand_numbers j = {rj_recipient j} \<times> {rj_hash j} \<times> {rj_start j .. rj_end j}"

definition rand_pool :: "rand_job list \<Rightarrow> (nat option \<times> u8 list \<times> u64) set" where
  "rand_pool js = (\<Union>j \<in> set js. rand_numbers j)"

definition task_numbers :: "rand_task \<Rightarrow> (nat option \<times> u8 list \<times> u64) set" where
  "task_numbers t = {rt_recipient t} \<times> {rt_hash t} \<times> {rt_start t .. rt_end t}"

definition rand_range_ok :: "rand_job \<Rightarrow> bool" where
  "rand_range_ok j \<longleftrightarrow> rj_start j \<le> rj_end j \<and> unat (rj_end j) + 2 ^ 16 < 2 ^ 64"

text \<open>The number of tasks a job is cut into.\<close>

definition job_tasks :: "rand_job \<Rightarrow> nat" where
  "job_tasks j = (unat (rj_end j) - unat (rj_start j) - 1) div 2 ^ 16 + 1"

definition rand_tasks :: "rand_job list \<Rightarrow> nat" where
  "rand_tasks js = sum_mset (image_mset job_tasks (mset js))"

lemma task_end:
  assumes "rand_range_ok j"
  shows "unat (rt_end (rand_task_of SCHEDULER_RAND_BLOCK_SIZE j)) = min (unat (rj_end j)) (unat (rj_start j) + 2 ^ 16)"
proof -
  have le: "unat (rj_start j) \<le> unat (rj_end j)" and small: "unat (rj_end j) + 2 ^ 16 < 2 ^ 64"
    using assms by (simp_all add: rand_range_ok_def word_le_nat_alt)
  then have "unat (rj_start j + 2 ^ 16) = unat (rj_start j) + 2 ^ 16"
    by (simp add: unat_word_ariths)
  then show ?thesis
    by (simp add: rand_task_of_def Let_def SCHEDULER_RAND_BLOCK_SIZE_def word_less_nat_alt)
qed

text \<open>Cutting the first task off a job.\<close>

lemma cut_task:
  assumes ok: "rand_range_ok j"
  defines "t \<equiv> rand_task_of SCHEDULER_RAND_BLOCK_SIZE j"
  defines "j' \<equiv> j\<lparr>rj_start := rt_end t\<rparr>"
  shows "rt_end t = rj_end j \<Longrightarrow> rand_numbers j = task_numbers t \<and> job_tasks j = 1"
    and "rt_end t \<noteq> rj_end j \<Longrightarrow>
      rand_numbers j = task_numbers t \<union> rand_numbers j' \<and> rand_range_ok j' \<and> job_tasks j = Suc (job_tasks j')"
proof -
  have le: "unat (rj_start j) \<le> unat (rj_end j)" and small: "unat (rj_end j) + 2 ^ 16 < 2 ^ 64"
    using ok by (simp_all add: rand_range_ok_def word_le_nat_alt)
  have t: "rt_recipient t = rj_recipient j" "rt_hash t = rj_hash j" "rt_start t = rj_start j"
    by (simp_all add: t_def rand_task_of_def Let_def)
  note e = task_end [OF ok, folded t_def]
  show "rand_numbers j = task_numbers t \<and> job_tasks j = 1" if "rt_end t = rj_end j"
  proof -
    have "unat (rj_end j) \<le> unat (rj_start j) + 2 ^ 16" using e that by simp
    then show ?thesis using t that by (simp add: rand_numbers_def task_numbers_def job_tasks_def)
  qed
  show "rand_numbers j = task_numbers t \<union> rand_numbers j' \<and> rand_range_ok j' \<and> job_tasks j = Suc (job_tasks j')"
    if "rt_end t \<noteq> rj_end j"
  proof -
    have more: "unat (rt_end t) = unat (rj_start j) + 2 ^ 16" "unat (rt_end t) < unat (rj_end j)"
      using e that by (simp_all add: word_unat_eq_iff min_def split: if_splits)
    have "{rj_start j .. rj_end j} = {rj_start j .. rt_end t} \<union> {rt_end t .. rj_end j}"
      using more by (intro ivl_disj_un_two_touch(4) [symmetric]) (simp_all add: word_le_nat_alt)
    then have "rand_numbers j = task_numbers t \<union> rand_numbers j'"
      using t by (auto simp: rand_numbers_def task_numbers_def j'_def)
    moreover have "rand_range_ok j'"
      using more(2) small by (simp add: rand_range_ok_def j'_def word_le_nat_alt)
    moreover have "job_tasks j = Suc (job_tasks j')"
    proof -
      have "unat (rj_end j) - unat (rj_start j) - 1 = (unat (rj_end j) - unat (rt_end t) - 1) + 2 ^ 16"
        using more by simp
      then show ?thesis by (simp add: job_tasks_def j'_def)
    qed
    ultimately show ?thesis by blast
  qed
qed

lemma set_pick: "i < length js \<Longrightarrow> set js = insert (js ! i) (set_mset (mset js - {#js ! i#}))"
  by (metis insert_DiffM nth_mem_mset set_mset_add_mset_insert set_mset_mset)

lemma rand_advance_correct:
  assumes i: "i < length js" and ok: "\<And>j. j \<in> set js \<Longrightarrow> rand_range_ok j"
  defines "t \<equiv> rand_task_of SCHEDULER_RAND_BLOCK_SIZE (js ! i)"
  shows "rand_pool js = task_numbers t \<union> rand_pool (rand_advance i t js)"
    "rand_tasks js = Suc (rand_tasks (rand_advance i t js))"
    "j \<in> set (rand_advance i t js) \<Longrightarrow> rand_range_ok j"
proof -
  let ?j = "js ! i" and ?M = "mset js - {#js ! i#}"
  have in_js: "js ! i \<in># mset js" using i by simp
  have okj: "rand_range_ok ?j" using i ok by simp
  note cut = cut_task [OF okj, folded t_def]
  have pool: "rand_pool js = rand_numbers ?j \<union> (\<Union>j \<in> set_mset ?M. rand_numbers j)"
    unfolding rand_pool_def by (subst set_pick [OF i]) simp
  have tasks: "rand_tasks js = job_tasks ?j + sum_mset (image_mset job_tasks ?M)"
    unfolding rand_tasks_def by (subst insert_DiffM [OF in_js, symmetric]) simp
  have M: "\<And>j. j \<in># ?M \<Longrightarrow> rand_range_ok j" using ok by (metis in_diffD set_mset_mset)
  have adv: "mset (rand_advance i t js) =
      (if rt_end t = rj_end ?j then ?M else add_mset (?j\<lparr>rj_start := rt_end t\<rparr>) ?M)"
    using i by (simp add: rand_advance_def mset_swap_remove mset_update)
  have adv_set: "set (rand_advance i t js) =
      (if rt_end t = rj_end ?j then set_mset ?M else insert (?j\<lparr>rj_start := rt_end t\<rparr>) (set_mset ?M))"
    using arg_cong [OF adv, of set_mset] by (simp split: if_splits)
  show "rand_pool js = task_numbers t \<union> rand_pool (rand_advance i t js)"
    unfolding pool using cut adv_set by (auto simp: rand_pool_def)
  show "rand_tasks js = Suc (rand_tasks (rand_advance i t js))"
    unfolding tasks using cut adv by (simp add: rand_tasks_def)
  show "j \<in> set (rand_advance i t js) \<Longrightarrow> rand_range_ok j"
    using adv_set M cut(2) by (auto split: if_splits)
qed

text \<open>
  Workers that take \<open>n\<close> tasks one after the other. (When their searches end does not matter here, as
  long as none finds an answer.)
\<close>

fun take_tasks :: "nat \<Rightarrow> rand_scheduler \<Rightarrow> (rand_task list \<times> rand_scheduler) option" where
  "take_tasks 0 s = Some ([], s)"
| "take_tasks (Suc n) s =
     do {
       (outcome, s) \<leftarrow> scheduler_rand_schedule s;
       case outcome of
         Task t \<Rightarrow> do { (ts, s) \<leftarrow> take_tasks n s; Some (t # ts, s) }
       | _ \<Rightarrow> None
     }"

lemma take_tasks_cover:
  assumes "rand_rep s qs js" "length qs + length js \<le> 2 ^ 24" "rs_running s"
    and "rs_block_size s = SCHEDULER_RAND_BLOCK_SIZE" "\<And>j. j \<in> set (js @ qs) \<Longrightarrow> rand_range_ok j"
  shows "\<exists>ts s'. take_tasks (rand_tasks (js @ qs)) s = Some (ts, s') \<and>
    length ts = rand_tasks (js @ qs) \<and>
    (\<Union>t \<in> set ts. task_numbers t) = rand_pool (js @ qs) \<and> rand_frame s s' \<and> (js @ qs \<noteq> [] \<longrightarrow> rand_rep s' [] [])"
  using assms
proof (induction "rand_tasks (js @ qs)" arbitrary: s qs js)
  case 0
  then have "js @ qs = []" by (cases "js @ qs") (auto simp: rand_tasks_def job_tasks_def)
  then show ?case using 0 by (simp add: rand_tasks_def rand_pool_def)
next
  case (Suc n)
  then have ne: "js @ qs \<noteq> []" by (auto simp: rand_tasks_def)
  obtain i s1 where i: "i < length (js @ qs)" and sch:
      "scheduler_rand_schedule s = Some (Task (rand_task_of SCHEDULER_RAND_BLOCK_SIZE ((js @ qs) ! i)), s1)"
      and s1: "rand_frame s s1"
      "rand_rep s1 [] (rand_advance i (rand_task_of SCHEDULER_RAND_BLOCK_SIZE ((js @ qs) ! i)) (js @ qs))"
    using rand_schedule_correct [OF Suc.prems(1-3) ne] Suc.prems(4) by auto
  define t where "t = rand_task_of SCHEDULER_RAND_BLOCK_SIZE ((js @ qs) ! i)"
  define ks where "ks = rand_advance i t (js @ qs)"
  note adv = rand_advance_correct [OF i Suc.prems(5), folded t_def ks_def]
  have n: "n = rand_tasks (ks @ [])" using adv(2) Suc.hyps(2) by simp
  have rep: "rand_rep s1 [] ks" using s1(2) by (simp add: ks_def t_def)
  have len: "length ([] :: rand_job list) + length ks \<le> 2 ^ 24"
    using Suc.prems(2) by (auto simp: ks_def rand_advance_def)
  have "rs_running s1" "rs_block_size s1 = SCHEDULER_RAND_BLOCK_SIZE"
    using s1(1) Suc.prems(3,4) by (auto simp: rand_frame_def)
  then obtain ts s' where ts: "take_tasks n s1 = Some (ts, s')" "length ts = n" "rand_frame s1 s'" "(\<Union>t \<in> set ts. task_numbers t) = rand_pool ks"
      "ks \<noteq> [] \<longrightarrow> rand_rep s' [] []"
    using Suc.hyps(1) [OF n rep len] adv(3) n by auto
  have "rand_rep s' [] []"
  proof (cases "ks = []")
    case True
    then show ?thesis using ts(1,2) n rep by (simp add: rand_tasks_def)
  qed (use ts(5) in simp)
  then have "take_tasks (Suc n) s = Some (t # ts, s')" "(\<Union>t \<in> set (t # ts). task_numbers t) = rand_pool (js @ qs)"
      "rand_rep s' [] []"
    using sch ts(1,4) adv(1) by (simp_all add: t_def)
  moreover have "length (t # ts) = Suc n" "rand_frame s s'"
    using ts(2) rand_frame_trans [OF s1(1) ts(3)] by simp_all
  ultimately show ?case using Suc.hyps(2) by metis
qed

text \<open>
  C17: whatever the random numbers are, the workers take the whole range of every job, and nothing else: the
  jobs in the vector and in the ring buffer are cut into exactly the expected number of tasks, every number
  of every job is in a task with its hash and its client, no task holds another number, and then no job is
  left. (For ranges that end more than \<open>2 ^ 16\<close> below \<open>2 ^ 64\<close>.)
\<close>

theorem rand_scheduler_covers:
  assumes "rand_rep s qs js" "length qs + length js \<le> 2 ^ 24" "rs_running s" "js @ qs \<noteq> []"
    and "rs_block_size s = SCHEDULER_RAND_BLOCK_SIZE" "\<And>j. j \<in> set (js @ qs) \<Longrightarrow> rand_range_ok j"
  shows "\<exists>ts s' s''. take_tasks (rand_tasks (js @ qs)) s = Some (ts, s') \<and> length ts = rand_tasks (js @ qs) \<and>
    (\<Union>t \<in> set ts. task_numbers t) = rand_pool (js @ qs) \<and>
    scheduler_rand_schedule s' = Some (No_Job, s'') \<and> rand_rep s'' [] []"
proof -
  obtain ts s' where ts: "take_tasks (rand_tasks (js @ qs)) s = Some (ts, s')" "length ts = rand_tasks (js @ qs)"
      "(\<Union>t \<in> set ts. task_numbers t) = rand_pool (js @ qs)" "rand_frame s s'" "rand_rep s' [] []"
    using take_tasks_cover [OF assms(1-3,5,6)] assms(4) by blast
  have "rs_running s'" using ts(4) assms(3) by (simp add: rand_frame_def)
  then show ?thesis using rand_schedule_empty [OF ts(5)] ts(1-3) by blast
qed

section \<open>Submission\<close>

lemma rand_job_of_priority: "0 < rj_priority (rand_job_of request recipient jid)"
  by (auto simp: rand_job_of_def Let_def word_less_nat_alt)

lemma rand_push_pending:
  assumes "rand_rep s qs js" "0 < rj_priority j"
  shows "\<exists>rb. ringbuffer_push (rs_pending s) j = Some rb \<and>
    rand_rep (s\<lparr>rs_pending := rb\<rparr>) (if Suc (length qs) < unat (rb_size (rs_pending s)) then qs @ [j] else qs) js"
proof -
  have "rb_rep (rs_pending s) qs" using assms(1) by (simp add: rand_rep_def rand_data_def)
  from rb_push [OF this, of j] show ?thesis
    using assms by (auto simp: rand_rep_def rand_data_def cursor_ok_def)
qed

lemma rand_submit_miss:
  assumes "rand_rep s qs js" "cache_rep P (rs_cache s) m es" "P + 5 * length es < 2 ^ 28" "stack_ok junk gjunk"
    and "length (req_hash request) = SHA256_DIGEST_LENGTH" "with_pending m es (req_hash request) = None"
  shows "\<exists>s'. scheduler_rand_submit junk gjunk request recipient (s, wd) = Some (rs_next_job_id s, s', wd) \<and>
    cache_rep (P + 5 * length es) (rs_cache s') (with_pending m es) [] \<and> rs_next_job_id s' = rs_next_job_id s + 1 \<and>
    rand_rep s' (if Suc (length qs) < unat (rb_size (rs_pending s))
      then qs @ [rand_job_of request recipient (rs_next_job_id s)] else qs) js"
proof -
  obtain c where c: "cache_process_pending junk (rs_cache s) = Some c"
      "cache_rep (P + 5 * length es) c (with_pending m es) []"
      "cache_get gjunk (req_hash request) c = Some (with_pending m es (req_hash request))"
    by (rule cache_consult [OF assms(2-5)])
  let ?j = "rand_job_of request recipient (rs_next_job_id s)"
  let ?qs = "if Suc (length qs) < unat (rb_size (rs_pending s)) then qs @ [?j] else qs"
  obtain rb where rb: "ringbuffer_push (rs_pending s) ?j = Some rb" "rand_rep (s\<lparr>rs_pending := rb\<rparr>) ?qs js"
    using rand_push_pending [OF assms(1) rand_job_of_priority] by blast
  let ?s' = "s\<lparr>rs_cache := c, rs_next_job_id := rs_next_job_id s + 1, rs_pending := rb\<rparr>"
  have "?s' = (s\<lparr>rs_pending := rb\<rparr>)\<lparr>rs_cache := c, rs_next_job_id := rs_next_job_id s + 1\<rparr>" by simp
  then have "rand_rep ?s' ?qs js" using rb(2) by (simp only: rand_rep_frame)
  moreover have "rj_id ?j = rs_next_job_id s" by (simp add: rand_job_of_def Let_def)
  ultimately show ?thesis
    using assms(6) c rb(1) by (simp add: scheduler_rand_submit_def Let_def)
qed

text \<open>
  A submission to the random scheduler answers from the cache when the hash is known, and then makes no
  job. Otherwise it returns a new id and queues the job, of priority at least \<open>1\<close>, behind the others; but if
  the ring buffer is full the job is dropped, and the caller gets an id all the same.
\<close>

theorem rand_submit_by_cache:
  assumes "rand_rep s qs js" "cache_rep P (rs_cache s) m es" "P + 5 * length es < 2 ^ 28" "stack_ok junk gjunk"
    and "length (req_hash request) = SHA256_DIGEST_LENGTH"
    and "recipients wd p = Some \<lparr>rtype = RECIPIENT_FD, rdata = fd\<rparr>"
  shows "\<exists>jid s' wd'. scheduler_rand_submit junk gjunk request (Some p) (s, wd) = Some (jid, s', wd') \<and>
    cache_rep (P + 5 * length es) (rs_cache s') (with_pending m es) [] \<and>
    (case with_pending m es (req_hash request) of
       Some a \<Rightarrow> jid = SCHEDULER_NO_JOB_ID_SENTINEL \<and> rand_rep s' qs js \<and>
         events wd' = events wd @ [Send fd (be64 a), Close fd]
     | None \<Rightarrow> jid = rs_next_job_id s \<and> rs_next_job_id s' = jid + 1 \<and> wd' = wd \<and>
         rand_rep s'
           (if Suc (length qs) < unat (rb_size (rs_pending s)) then qs @ [rand_job_of request (Some p) jid] else qs) js)"
proof -
  obtain c where c: "cache_process_pending junk (rs_cache s) = Some c"
      "cache_rep (P + 5 * length es) c (with_pending m es) []"
      "cache_get gjunk (req_hash request) c = Some (with_pending m es (req_hash request))"
    by (rule cache_consult [OF assms(2-5)])
  show ?thesis
  proof (cases "with_pending m es (req_hash request)")
    case (Some a)
    then show ?thesis
      using c notify_fd [OF assms(6), of a] assms(1) by (auto simp: scheduler_rand_submit_def)
  next
    case None
    then show ?thesis
      using rand_submit_miss [OF assms(1-5), of "Some p" wd] by auto
  qed
qed

lemma created_rep:
  assumes "0 < c" "unat c \<le> 2 ^ 25"
  shows "rand_rep (scheduler_rand_create c) [] []" "cache_rep (unat c) (rs_cache (scheduler_rand_create c)) Map.empty []"
    "rb_size (rs_pending (scheduler_rand_create c)) = c" "rs_running (scheduler_rand_create c)"
    "rs_block_size (scheduler_rand_create c) = SCHEDULER_RAND_BLOCK_SIZE" "rs_next_job_id (scheduler_rand_create c) = 0"
  using rand_rep_create [OF assms] cache_create_rep [of c] assms
  by (simp_all add: scheduler_rand_create_def) (simp_all add: ringbuffer_init_def)

abbreviation rand_request :: request where
  "rand_request \<equiv> \<lparr>req_hash = replicate 32 0, req_start = 1, req_end = 200001, req_priority = 0\<rparr>"

abbreviation one_client :: world where
  "one_client \<equiv> \<lparr>recipients = [1 \<mapsto> \<lparr>rtype = RECIPIENT_FD, rdata = 9\<rparr>], events = []\<rparr>"

theorem rand_submit_by_cache_witness:
  "\<exists>s'. scheduler_rand_submit (\<lambda>_ _. replicate 32 0) (replicate 32 0) rand_request (Some 1)
       (scheduler_rand_create 8, one_client) = Some (0, s', one_client) \<and>
     rand_rep s' [rand_job_of rand_request (Some 1) 0] []"
  using rand_submit_by_cache [of "scheduler_rand_create 8" "[]" "[]" 8 Map.empty "[]" "\<lambda>_ _. replicate 32 0"
      "replicate 32 0" rand_request one_client 1 9]
    created_rep [of 8]
  by (auto simp: stack_ok_def buffers_def SHA256_DIGEST_LENGTH_def with_pending_def)

text \<open>A scheduler with one waiting job.\<close>

lemma one_waiting_job:
  "\<exists>rb. ringbuffer_push (ringbuffer_init 8) (rand_job_of rand_request (Some 1) 0) = Some rb \<and>
     rand_rep ((scheduler_rand_create 8)\<lparr>rs_pending := rb\<rparr>) [rand_job_of rand_request (Some 1) 0] []"
  using rand_push_pending [OF created_rep(1) [of 8] rand_job_of_priority [of rand_request "Some 1" 0]] created_rep(3) [of 8]
  by (auto simp: scheduler_rand_create_def)

theorem rand_scheduler_covers_witness:
  "\<exists>rb ts s'. ringbuffer_push (ringbuffer_init 8) (rand_job_of rand_request (Some 1) 0) = Some rb \<and>
     take_tasks 4 ((scheduler_rand_create 8)\<lparr>rs_pending := rb\<rparr>) = Some (ts, s') \<and> length ts = 4 \<and>
     (\<Union>t \<in> set ts. task_numbers t) = {Some 1} \<times> {replicate 32 0} \<times> {1..200001}"
proof -
  let ?j = "rand_job_of rand_request (Some 1) 0"
  obtain rb where rb: "ringbuffer_push (ringbuffer_init 8) ?j = Some rb"
      "rand_rep ((scheduler_rand_create 8)\<lparr>rs_pending := rb\<rparr>) [?j] []"
    using one_waiting_job by blast
  have j: "rand_range_ok ?j" "job_tasks ?j = 4" "rand_numbers ?j = {Some 1} \<times> {replicate 32 0} \<times> {1..200001}"
    by (simp_all add: rand_job_of_def Let_def rand_range_ok_def job_tasks_def rand_numbers_def)
  have s: "rs_running ((scheduler_rand_create 8)\<lparr>rs_pending := rb\<rparr>)"
      "rs_block_size ((scheduler_rand_create 8)\<lparr>rs_pending := rb\<rparr>) = SCHEDULER_RAND_BLOCK_SIZE"
    by (simp_all add: scheduler_rand_create_def)
  show ?thesis
    using rand_scheduler_covers [OF rb(2) _ s(1) _ s(2)] j rb(1)
    by (auto simp: rand_tasks_def rand_pool_def)
qed

section \<open>An answer on the boundary of two tasks\<close>

text \<open>
  The next task of a job starts at the number at which its previous task ends, and the search includes
  both ends. When this number is the answer and two workers hold the two tasks, each of them finds it: the
  first one sends it and frees the client's record, and the second one uses the freed record.
\<close>

theorem rand_boundary_answered_twice:
  assumes rep: "rand_rep s [] [j]" and run: "rs_running s" "rs_block_size s = SCHEDULER_RAND_BLOCK_SIZE"
    and j: "rand_range_ok j" "unat (rj_start j) + 2 ^ 16 < unat (rj_end j)" "rj_recipient j = Some p"
      "length (rj_hash j) = SHA256_DIGEST_LENGTH"
    and net: "recipients wd p = Some \<lparr>rtype = RECIPIENT_FD, rdata = fd\<rparr>"
    and cache: "cache_rep P (rs_cache s) m es"
  shows "\<exists>ta sa tb sb sc wc x. scheduler_rand_schedule s = Some (Task ta, sa) \<and>
    scheduler_rand_schedule sa = Some (Task tb, sb) \<and>
    x \<in> {rt_start ta .. rt_end ta} \<and> x \<in> {rt_start tb .. rt_end tb} \<and>
    rand_finish tb x (sb, wd) = Some (sc, wc) \<and> events wc = events wd @ [Send fd (be64 x), Close fd] \<and>
    rand_finish ta x (sc, wc) = None"
proof -
  define ta where "ta = rand_task_of SCHEDULER_RAND_BLOCK_SIZE j"
  have ta: "rt_start ta = rj_start j" "rt_recipient ta = Some p" "rt_hash ta = rj_hash j"
      "unat (rt_end ta) = unat (rj_start j) + 2 ^ 16"
    using task_end [OF j(1)] j(2,3) by (simp_all add: ta_def) (simp_all add: rand_task_of_def Let_def)
  then have ne: "rt_end ta \<noteq> rj_end j" using j(2) by auto
  let ?j = "j\<lparr>rj_start := rt_end ta\<rparr>"
  obtain sa where sa: "scheduler_rand_schedule s = Some (Task ta, sa)" "rand_frame s sa" "rand_rep sa [] [?j]"
    using rand_schedule_correct [OF rep _ run(1)] run(2) ne by (auto simp: rand_advance_def ta_def)
  define tb where "tb = rand_task_of SCHEDULER_RAND_BLOCK_SIZE ?j"
  have okj: "rand_range_ok ?j" using j(1,2) ta(4) by (simp add: rand_range_ok_def word_le_nat_alt)
  have tb: "rt_start tb = rt_end ta" "rt_recipient tb = Some p" "rt_hash tb = rj_hash j" "rt_end ta \<le> rt_end tb"
    using task_end [OF okj] j(2,3) ta(4) by (simp_all add: tb_def word_le_nat_alt) (simp_all add: rand_task_of_def Let_def)
  have run': "rs_running sa" "rs_block_size sa = SCHEDULER_RAND_BLOCK_SIZE" using sa(2) run by (simp_all add: rand_frame_def)
  obtain sb js where sb: "scheduler_rand_schedule sa = Some (Task tb, sb)" "rand_frame sa sb" "rand_rep sb [] js"
    using rand_schedule_correct [OF sa(3) _ run'(1)] run'(2) by (auto simp: tb_def)
  let ?x = "rt_end ta"
  have x0: "?x \<noteq> SCHEDULER_NO_ANSWER_SENTINEL" using ta(4) by (auto simp: SCHEDULER_NO_ANSWER_SENTINEL_def)
  obtain sc where sc: "scheduler_rand_cancel (rt_id tb) sb = Some sc" "rand_frame sb sc" "rand_rep sc [] (cancel_job (rt_id tb) js)"
    using rand_cancel [OF sb(3)] by blast
  obtain wc where wc: "scheduler_job_notify_recipient (Some p) ?x wd = Some wc"
      "events wc = events wd @ [Send fd (be64 ?x), Close fd]" "recipients wc = (recipients wd)(p := None)"
    using notify_fd [OF net] by blast
  have "rs_cache sc = rs_cache s" using sa(2) sb(2) sc(2) by (simp add: rand_frame_def)
  then obtain c where c: "cache_insert_pending (rj_hash j) ?x (rs_cache sc) = Some c"
    using cache_insert_pending_rep [OF cache j(4)] by metis
  have fin: "rand_finish tb ?x (sb, wd) = Some (sc\<lparr>rs_cache := c\<rparr>, wc)"
    using x0 sc(1) wc(1) c tb(2,3) by (simp add: rand_finish_def)
  have "rand_rep (sc\<lparr>rs_cache := c\<rparr>) [] (cancel_job (rt_id tb) js)" using sc(3) by simp
  then obtain sd where "scheduler_rand_cancel (rt_id ta) (sc\<lparr>rs_cache := c\<rparr>) = Some sd"
    using rand_cancel by blast
  moreover have "scheduler_job_notify_recipient (Some p) ?x wc = None"
    using wc(3) by (intro notify_freed) simp
  ultimately have "rand_finish ta ?x (sc\<lparr>rs_cache := c\<rparr>, wc) = None"
    using x0 ta(2) by (simp add: rand_finish_def)
  then show ?thesis
    using sa(1) sb(1) fin wc(2) ta(1,4) tb(1,4)
    by (intro exI [of _ ta] exI [of _ sa] exI [of _ tb] exI [of _ sb] exI [of _ "sc\<lparr>rs_cache := c\<rparr>"]
        exI [of _ wc] exI [of _ ?x]) (simp add: word_le_nat_alt)
qed

theorem rand_boundary_answered_twice_witness:
  "\<exists>s ta sa tb sb sc wc x. scheduler_rand_push_job (rand_job_of rand_request (Some 1) 0) (scheduler_rand_create 8) = Some s \<and>
     scheduler_rand_schedule s = Some (Task ta, sa) \<and> scheduler_rand_schedule sa = Some (Task tb, sb) \<and>
     rand_finish tb x (sb, one_client) = Some (sc, wc) \<and> events wc = [Send 9 (be64 x), Close 9] \<and>
     rand_finish ta x (sc, wc) = None"
proof -
  let ?j = "rand_job_of rand_request (Some 1) 0"
  have j: "rand_range_ok ?j" "unat (rj_start ?j) + 2 ^ 16 < unat (rj_end ?j)" "rj_recipient ?j = Some 1"
      "length (rj_hash ?j) = SHA256_DIGEST_LENGTH"
    by (simp_all add: rand_job_of_def Let_def rand_range_ok_def SHA256_DIGEST_LENGTH_def)
  obtain s where s: "scheduler_rand_push_job ?j (scheduler_rand_create 8) = Some s" "rand_rep s [] [?j]"
      "rand_frame (scheduler_rand_create 8) s"
    using rand_push_job [OF created_rep(1) [of 8] _ rand_job_of_priority] by force
  have "rs_running s" "rs_block_size s = SCHEDULER_RAND_BLOCK_SIZE" "cache_rep 8 (rs_cache s) Map.empty []"
    using s(3) created_rep [of 8] by (simp_all add: rand_frame_def)
  from rand_boundary_answered_twice [OF s(2) this(1,2) j, of one_client 9 8 Map.empty "[]"] this(3) s(1)
  show ?thesis by fastforce
qed

end
