(* ===== verification/Sched_Rand_Steps.thy ===== *)
theory Sched_Rand_Steps
  imports Sched_Rand
begin

text \<open>
  The worker threads of \<open>src/scheduler/sched_rand.c\<close> beside the server thread. A step is a section under the
  scheduler's lock, one test of the waiting loop, a submission or the shutdown. A waiting worker may be woken at
  any time, also for no reason, so the steps do not depend on how it yields.
\<close>

section \<open>The steps\<close>

text \<open>
  Where a worker is: before it takes the lock (lines 142 to 147, and the test of the worker's own loop), in the
  waiting loop (lines 164 to 166), searching a task, or returned.
\<close>

datatype rand_pc = Top | Waiting | Working rand_task | Exited

record rand_system =
  shared :: rand_scheduler
  network :: world
  pcs :: "rand_pc list"

definition rand_start :: "u32 \<Rightarrow> nat \<Rightarrow> world \<Rightarrow> rand_system" where
  "rand_start cap n wd = \<lparr>shared = scheduler_rand_create cap, network = wd, pcs = replicate n Top\<rparr>"

definition at :: "rand_system \<Rightarrow> nat \<Rightarrow> rand_pc \<Rightarrow> bool" where
  "at \<sigma> i pc \<longleftrightarrow> i < length (pcs \<sigma>) \<and> pcs \<sigma> ! i = pc"

definition goto :: "nat \<Rightarrow> rand_pc \<Rightarrow> rand_system \<Rightarrow> rand_system" where
  "goto i pc \<sigma> = \<sigma>\<lparr>pcs := (pcs \<sigma>)[i := pc]\<rparr>"

inductive rand_step :: "rand_system \<Rightarrow> rand_system \<Rightarrow> bool" where
  take_task: "at \<sigma> i Top \<Longrightarrow> scheduler_rand_schedule (shared \<sigma>) = Some (Task t, s) \<Longrightarrow>
    rand_step \<sigma> (goto i (Working t) (\<sigma>\<lparr>shared := s\<rparr>))"
| start_waiting: "at \<sigma> i Top \<Longrightarrow> scheduler_rand_schedule (shared \<sigma>) = Some (No_Job, s) \<Longrightarrow>
    rand_step \<sigma> (goto i Waiting (\<sigma>\<lparr>shared := s\<rparr>))"
| shut_down: "at \<sigma> i Top \<Longrightarrow> scheduler_rand_schedule (shared \<sigma>) = Some (Shut_Down, s) \<Longrightarrow>
    rand_step \<sigma> (goto i Exited (\<sigma>\<lparr>shared := s\<rparr>))"
| keep_waiting: "at \<sigma> i Waiting \<Longrightarrow> rs_running (shared \<sigma>) \<and> vec_len (rs_jobs (shared \<sigma>)) = 0 \<Longrightarrow> rand_step \<sigma> \<sigma>"
| stop_waiting: "at \<sigma> i Waiting \<Longrightarrow> \<not> (rs_running (shared \<sigma>) \<and> vec_len (rs_jobs (shared \<sigma>)) = 0) \<Longrightarrow>
    rand_step \<sigma> (goto i Top \<sigma>)"
| finish_task: "at \<sigma> i (Working t) \<Longrightarrow> rand_finish t a (shared \<sigma>, network \<sigma>) = Some (s, wd) \<Longrightarrow>
    rand_step \<sigma> (goto i Top (\<sigma>\<lparr>shared := s, network := wd\<rparr>))"
| submit: "scheduler_rand_submit junk gjunk request recipient (shared \<sigma>, network \<sigma>) = Some (jid, s, wd) \<Longrightarrow>
    rand_step \<sigma> (\<sigma>\<lparr>shared := s, network := wd\<rparr>)"
| close: "rand_step \<sigma> (\<sigma>\<lparr>shared := (shared \<sigma>)\<lparr>rs_running := False\<rparr>\<rparr>)"

section \<open>Waiting workers\<close>

text \<open>
  All workers wait or have returned, and no job is in the vector. A submission fills only the ring buffer, which the
  waiting loop does not look at.
\<close>

definition all_wait :: "rand_system \<Rightarrow> bool" where
  "all_wait \<sigma> \<longleftrightarrow> set (pcs \<sigma>) \<subseteq> {Waiting, Exited} \<and> vec_len (rs_jobs (shared \<sigma>)) = 0"

lemma submit_keeps:
  "scheduler_rand_submit junk gjunk request recipient (s, wd) = Some (jid, s', wd') \<Longrightarrow>
     rs_jobs s' = rs_jobs s \<and> rs_running s' = rs_running s"
  by (auto simp: scheduler_rand_submit_def Let_def split: Option.bind_splits option.splits)

lemma at_waits: "all_wait \<sigma> \<Longrightarrow> at \<sigma> i pc \<Longrightarrow> pc = Waiting \<or> pc = Exited"
  by (auto simp: all_wait_def at_def dest: nth_mem)

lemma cancel_keeps_running:
  assumes "rand_cancel_from i jid s = Some s'"
  shows "rs_running s' = rs_running s"
proof (rule rand_cancel_from.raw_induct [where P = "\<lambda>i jid s s'. rs_running s' = rs_running s", OF _ assms])
  fix f and i jid :: u32 and s s' :: rand_scheduler
  assume "\<And>i jid s s'. f i jid s = Some s' \<Longrightarrow> rs_running s' = rs_running s"
    and "(if i < vec_len (rs_jobs s)
      then do {
        j \<leftarrow> vec_get (rs_jobs s) i;
        if rj_id j = jid
        then do { s \<leftarrow> scheduler_rand_remove_swap_job i s; Some (s\<lparr>rs_task_idx := 0, rs_priority_idx := 0\<rparr>) }
        else f (i + 1) jid s
      }
      else Some s) = Some s'"
  then show "rs_running s' = rs_running s"
    by (auto simp: scheduler_rand_remove_swap_job_def Let_def split: if_splits Option.bind_splits)
qed

lemma finish_keeps_running: "rand_finish t a (s, wd) = Some (s', wd') \<Longrightarrow> rs_running s' = rs_running s"
  by (auto simp: rand_finish_def scheduler_rand_cancel_def split: if_splits Option.bind_splits dest: cancel_keeps_running)

text \<open>Either the scheduler is shutting down, or all wait where they waited.\<close>

definition waits_at :: "rand_pc list \<Rightarrow> rand_system \<Rightarrow> bool" where
  "waits_at ps \<sigma> \<longleftrightarrow> \<not> rs_running (shared \<sigma>) \<or> (all_wait \<sigma> \<and> pcs \<sigma> = ps)"

lemma waits_at_step: "rand_step \<sigma> \<sigma>' \<Longrightarrow> waits_at ps \<sigma> \<Longrightarrow> waits_at ps \<sigma>'"
proof (induction rule: rand_step.cases)
  case (stop_waiting \<sigma> i)
  then show ?case by (auto simp: waits_at_def all_wait_def goto_def)
next
  case (finish_task \<sigma> i t a s wd)
  then show ?case
    using at_waits [of \<sigma> i] finish_keeps_running by (auto simp: waits_at_def goto_def)
next
  case (submit junk gjunk request recipient \<sigma> jid s wd)
  then show ?case using submit_keeps by (auto simp: waits_at_def all_wait_def)
qed (use at_waits in \<open>auto simp: waits_at_def goto_def scheduler_rand_schedule_def\<close>)

lemma waits_at_steps: "rand_step\<^sup>*\<^sup>* \<sigma> \<sigma>' \<Longrightarrow> waits_at ps \<sigma> \<Longrightarrow> waits_at ps \<sigma>'"
  by (induction rule: rtranclp_induct) (auto intro: waits_at_step)

section \<open>A start without jobs\<close>

text \<open>The workers that start before the first request all end up waiting.\<close>

lemma workers_start_waiting:
  assumes "0 < cap" "unat cap \<le> 2 ^ 25" "k \<le> n"
  shows "\<exists>s. rand_step\<^sup>*\<^sup>* (rand_start cap n wd) \<lparr>shared = s, network = wd, pcs = replicate k Waiting @ replicate (n - k) Top\<rparr> \<and>
    rand_rep s [] [] \<and> rand_frame (scheduler_rand_create cap) s"
  using assms(3)
proof (induction k)
  case 0
  show ?case
    using rand_rep_create [OF assms(1,2)]
    by (intro exI [of _ "scheduler_rand_create cap"]) (simp add: rand_start_def)
next
  case (Suc k)
  then obtain s where s: "rand_step\<^sup>*\<^sup>* (rand_start cap n wd) \<lparr>shared = s, network = wd, pcs = replicate k Waiting @ replicate (n - k) Top\<rparr>"
      "rand_rep s [] []" "rand_frame (scheduler_rand_create cap) s"
    by auto
  let ?\<sigma> = "\<lparr>shared = s, network = wd, pcs = replicate k Waiting @ replicate (n - k) Top\<rparr>"
  have "rs_running s" using s(3) created_rep(4) [OF assms(1,2)] by (simp add: rand_frame_def)
  then obtain s' where s': "scheduler_rand_schedule s = Some (No_Job, s')" "rand_frame s s'" "rand_rep s' [] []"
    using rand_schedule_empty [OF s(2)] by blast
  have "at ?\<sigma> k Top" using Suc.prems by (simp add: at_def nth_append)
  then have "rand_step ?\<sigma> (goto k Waiting (?\<sigma>\<lparr>shared := s'\<rparr>))"
    using s'(1) by (intro start_waiting) simp_all
  moreover have "replicate (n - k) Top = Top # replicate (n - Suc k) Top"
    using Suc.prems by (metis Suc_diff_Suc Suc_le_lessD replicate_Suc)
  then have "goto k Waiting (?\<sigma>\<lparr>shared := s'\<rparr>) =
      \<lparr>shared = s', network = wd, pcs = replicate (Suc k) Waiting @ replicate (n - Suc k) Top\<rparr>"
    by (simp add: goto_def list_update_append replicate_app_Cons_same)
  ultimately show ?case
    using s(1) s'(3) rand_frame_trans [OF s(3) s'(2)] by (metis rtranclp.rtrancl_into_rtrancl)
qed

text \<open>
  C18: the workers of the random scheduler can all wait for ever although jobs are pending. Workers that start
  before the first request end up in the waiting loop, which only looks at the vector; the jobs that are then
  submitted go into the ring buffer, and only a worker outside the loop moves them. So from there, whatever is
  submitted and however often the workers are woken, no worker ever leaves its loop before the shutdown.
\<close>

theorem rand_workers_wait_forever:
  assumes "0 < cap" "unat cap \<le> 2 ^ 25"
  shows "\<exists>\<sigma>. rand_step\<^sup>*\<^sup>* (rand_start cap n wd) \<sigma> \<and> rand_rep (shared \<sigma>) [] [] \<and>
    rand_frame (scheduler_rand_create cap) (shared \<sigma>) \<and> network \<sigma> = wd \<and>
    (\<forall>\<sigma>'. rand_step\<^sup>*\<^sup>* \<sigma> \<sigma>' \<and> rs_running (shared \<sigma>') \<longrightarrow>
       pcs \<sigma>' = replicate n Waiting \<and> vec_len (rs_jobs (shared \<sigma>')) = 0)"
proof -
  obtain s where s: "rand_step\<^sup>*\<^sup>* (rand_start cap n wd) \<lparr>shared = s, network = wd, pcs = replicate n Waiting\<rparr>"
      "rand_rep s [] []" "rand_frame (scheduler_rand_create cap) s"
    using workers_start_waiting [OF assms, of n n wd] by auto
  let ?\<sigma> = "\<lparr>shared = s, network = wd, pcs = replicate n Waiting\<rparr>"
  have "unat (vec_len (rs_jobs s)) = 0" using rand_rep_len [OF s(2)] by simp
  then have "waits_at (replicate n Waiting) ?\<sigma>" by (auto simp: waits_at_def all_wait_def unsigned_eq_0_iff)
  then have "\<forall>\<sigma>'. rand_step\<^sup>*\<^sup>* ?\<sigma> \<sigma>' \<and> rs_running (shared \<sigma>') \<longrightarrow>
       pcs \<sigma>' = replicate n Waiting \<and> vec_len (rs_jobs (shared \<sigma>')) = 0"
    using waits_at_steps [of ?\<sigma>] by (auto simp: waits_at_def all_wait_def)
  then show ?thesis using s by (intro exI [of _ ?\<sigma>]) simp
qed

text \<open>With four workers, and a request that is accepted and stays in the ring buffer.\<close>

theorem rand_workers_wait_forever_witness:
  "\<exists>\<sigma>. rand_step\<^sup>*\<^sup>* (rand_start 8 4 one_client) \<sigma> \<and> pcs \<sigma> = replicate 4 Waiting \<and>
     rand_rep (shared \<sigma>) [rand_job_of rand_request (Some 1) 0] [] \<and>
     (\<forall>\<sigma>'. rand_step\<^sup>*\<^sup>* \<sigma> \<sigma>' \<and> rs_running (shared \<sigma>') \<longrightarrow> pcs \<sigma>' = replicate 4 Waiting)"
proof -
  obtain \<sigma> where \<sigma>: "rand_step\<^sup>*\<^sup>* (rand_start 8 4 one_client) \<sigma>" "rand_rep (shared \<sigma>) [] []"
      "rand_frame (scheduler_rand_create 8) (shared \<sigma>)" "network \<sigma> = one_client"
      and stuck: "\<And>\<sigma>'. rand_step\<^sup>*\<^sup>* \<sigma> \<sigma>' \<and> rs_running (shared \<sigma>') \<Longrightarrow> pcs \<sigma>' = replicate 4 Waiting"
    using rand_workers_wait_forever [of 8 4 one_client] by auto
  have s: "cache_rep 8 (rs_cache (shared \<sigma>)) Map.empty []" "rs_running (shared \<sigma>)" "rs_next_job_id (shared \<sigma>) = 0"
      "unat (rb_size (rs_pending (shared \<sigma>))) = 8"
    using created_rep [of 8] \<sigma>(3) by (simp_all add: rand_frame_def)
  obtain s' where s': "scheduler_rand_submit (\<lambda>_ _. replicate 32 0) (replicate 32 0) rand_request (Some 1)
        (shared \<sigma>, network \<sigma>) = Some (0, s', one_client)"
      "rand_rep s' [rand_job_of rand_request (Some 1) 0] []"
    using rand_submit_miss [OF \<sigma>(2) s(1), of "\<lambda>_ _. replicate 32 0" "replicate 32 0" rand_request "Some 1" one_client] s(3,4) \<sigma>(4)
    by (auto simp: stack_ok_def buffers_def SHA256_DIGEST_LENGTH_def with_pending_def)
  let ?\<sigma>' = "\<sigma>\<lparr>shared := s', network := one_client\<rparr>"
  have "rand_step \<sigma> ?\<sigma>'" using s'(1) by (rule submit)
  then have reach: "rand_step\<^sup>*\<^sup>* \<sigma> ?\<sigma>'" by blast
  then have "rand_step\<^sup>*\<^sup>* ?\<sigma>' \<sigma>' \<and> rs_running (shared \<sigma>') \<Longrightarrow> pcs \<sigma>' = replicate 4 Waiting" for \<sigma>'
    using stuck by (meson rtranclp_trans)
  moreover have "pcs ?\<sigma>' = replicate 4 Waiting" using stuck [of \<sigma>] s(2) by simp
  moreover have "rand_rep (shared ?\<sigma>') [rand_job_of rand_request (Some 1) 0] []" using s'(2) by simp
  ultimately show ?thesis using rtranclp_trans [OF \<sigma>(1) reach] by blast
qed

end
