(* ===== verification/Sched_Linked_List.thy ===== *)
theory Sched_Linked_List
  imports Cache Scheduler_Base
begin

text \<open>
  \<open>src/scheduler/sched_linked_list.c\<close>: the scheduler that keeps its jobs in a linked list. The nodes live in
  an explicit store from addresses to jobs; a dangling pointer has no value. The server thread inserts, and a
  worker takes the blocks of the first job of the list that is not done. A loop that does not end has no value.
\<close>

section \<open>State\<close>

record ll_job =
  lj_done :: bool
  lj_priority :: u8
  lj_block_count :: u64
  lj_start :: u64
  lj_end :: u64
  lj_hash :: "u8 list"
  lj_next :: "nat option"
  lj_answer :: u64
  lj_recipient :: "nat option"
  lj_block_idx :: u64

type_synonym ll_store = "nat \<rightharpoonup> ll_job"

record ll_scheduler =
  ll_cache :: cache
  ll_running :: bool
  ll_current :: "nat option"
  ll_jobs :: ll_store

text \<open>The locals of a worker.\<close>

record ll_worker =
  w_hash :: "u8 list"
  w_start :: u64
  w_end :: u64
  w_block_count :: u64
  w_prev_job :: "nat option"

definition SCHEDULER_LL_BLOCK_SIZE :: u64 where "SCHEDULER_LL_BLOCK_SIZE = 2 ^ 16"

definition scheduler_linked_list_create :: "u32 \<Rightarrow> ll_scheduler" where
  "scheduler_linked_list_create default_cap =
     \<lparr>ll_cache = cache_create default_cap, ll_running = True, ll_current = None, ll_jobs = Map.empty\<rparr>"

section \<open>Submission\<close>

text \<open>The first loop of a submission (lines 54 to 56): it walks on while the job is \<open>not\<close> done.\<close>

partial_function (option) ll_skip_open :: "ll_store \<Rightarrow> nat option \<Rightarrow> nat option option" where
  "ll_skip_open h p =
     (case p of
        None \<Rightarrow> Some None
      | Some a \<Rightarrow> do {
          j \<leftarrow> h a;
          if \<not> lj_done j then ll_skip_open h (lj_next j) else Some (Some a)
        })"

declare ll_skip_open.simps [code]

text \<open>The second loop (lines 84 to 87): the last job of at most the new priority, and the job after it.\<close>

partial_function (option) ll_find_place ::
  "ll_store \<Rightarrow> u8 \<Rightarrow> nat option \<Rightarrow> nat option \<Rightarrow> (nat option \<times> nat option) option" where
  "ll_find_place h priority prev_job p =
     (if p = None then Some (prev_job, p)
      else do {
        j \<leftarrow> Option.bind p h;
        if lj_priority j \<le> priority then ll_find_place h priority p (lj_next j) else Some (prev_job, p)
      })"

declare ll_find_place.simps [code]

definition ll_new_job :: "request \<Rightarrow> nat option \<Rightarrow> ll_job" where
  "ll_new_job request recipient =
     \<lparr>lj_done = False, lj_priority = req_priority request,
      lj_block_count = (req_end request - req_start request) div SCHEDULER_LL_BLOCK_SIZE,
      lj_start = req_start request, lj_end = req_end request, lj_hash = req_hash request, lj_next = None,
      lj_answer = 0, lj_recipient = recipient, lj_block_idx = 0\<rparr>"

text \<open>
  Lines 52 to 97, after the cache lookup has missed; \<open>a\<close> is the address of the new node. (The field
  \<open>block_count\<close> has 56 bits, which a number of blocks of \<open>2 ^ 16\<close> cannot exceed.)
\<close>

definition ll_insert_job :: "nat \<Rightarrow> request \<Rightarrow> nat option \<Rightarrow> ll_scheduler \<Rightarrow> ll_scheduler option" where
  "ll_insert_job a request recipient s =
     do {
       job \<leftarrow> ll_skip_open (ll_jobs s) (ll_current s);
       let s = s\<lparr>ll_current := job\<rparr>;
       let nj = ll_new_job request recipient;
       let s = s\<lparr>ll_jobs := (ll_jobs s)(a \<mapsto> nj)\<rparr>;
       if job = None then Some (s\<lparr>ll_current := Some a\<rparr>)
       else do {
         (prev_job, job) \<leftarrow> ll_find_place (ll_jobs s) (lj_priority nj) None job;
         let s = s\<lparr>ll_jobs := (ll_jobs s)(a \<mapsto> nj\<lparr>lj_next := job\<rparr>)\<rparr>;
         case prev_job of
           None \<Rightarrow> Some (s\<lparr>ll_current := Some a\<rparr>)
         | Some b \<Rightarrow> do {
             prev \<leftarrow> ll_jobs s b;
             Some (s\<lparr>ll_jobs := (ll_jobs s)(b \<mapsto> prev\<lparr>lj_next := Some a\<rparr>)\<rparr>)
           }
       }
     }"

definition scheduler_linked_list_submit ::
  "(nat \<Rightarrow> nat \<Rightarrow> u8 list) \<Rightarrow> u8 list \<Rightarrow> nat \<Rightarrow> request \<Rightarrow> nat option \<Rightarrow> ll_scheduler \<times> world \<Rightarrow>
   (u32 \<times> ll_scheduler \<times> world) option" where
  "scheduler_linked_list_submit junk gjunk a request recipient = (\<lambda>(s, wd).
     do {
       c \<leftarrow> cache_process_pending junk (ll_cache s);
       cached_answer \<leftarrow> cache_get gjunk (req_hash request) c;
       case cached_answer of
         Some x \<Rightarrow> do {
           wd \<leftarrow> scheduler_job_notify_recipient recipient x wd;
           Some (SCHEDULER_NO_JOB_ID_SENTINEL, s\<lparr>ll_cache := c\<rparr>, wd)
         }
       | None \<Rightarrow> do {
           s \<leftarrow> ll_insert_job a request recipient (s\<lparr>ll_cache := c\<rparr>);
           Some (0, s, wd)
         }
     })"

text \<open>\<open>scheduler_linked_list_cancel\<close> ignores its arguments.\<close>

definition scheduler_linked_list_cancel :: "u32 \<Rightarrow> ll_scheduler \<Rightarrow> ll_scheduler" where
  "scheduler_linked_list_cancel job_id s = s"

section \<open>Taking a block\<close>

definition ll_worker_create :: ll_worker where
  "ll_worker_create =
     \<lparr>w_hash = replicate SHA256_DIGEST_LENGTH 0, w_start = 0, w_end = 0, w_block_count = 0, w_prev_job = None\<rparr>"

partial_function (option) ll_skip_done :: "ll_store \<Rightarrow> nat option \<Rightarrow> nat option option" where
  "ll_skip_done h p =
     (case p of
        None \<Rightarrow> Some None
      | Some a \<Rightarrow> do {
          j \<leftarrow> h a;
          if lj_done j then ll_skip_done h (lj_next j) else Some (Some a)
        })"

declare ll_skip_done.simps [code]

text \<open>The worker's copy of the job it works on.\<close>

definition ll_remember :: "nat \<Rightarrow> ll_job \<Rightarrow> ll_worker \<Rightarrow> ll_worker" where
  "ll_remember a j w =
     (if Some a \<noteq> w_prev_job w
      then \<lparr>w_hash = lj_hash j, w_start = lj_start j, w_end = lj_end j, w_block_count = lj_block_count j,
            w_prev_job = Some a\<rparr>
      else w)"

record ll_block =
  lb_job :: nat
  lb_start :: u64
  lb_end :: u64

definition ll_block_of :: "nat \<Rightarrow> u64 \<Rightarrow> ll_worker \<Rightarrow> ll_block" where
  "ll_block_of a block_idx w =
     (let start = w_start w + block_idx * SCHEDULER_LL_BLOCK_SIZE;
          tempy = start + SCHEDULER_LL_BLOCK_SIZE
      in \<lparr>lb_job = a, lb_start = start, lb_end = (if w_end w < tempy \<or> tempy < start then w_end w else tempy)\<rparr>)"

text \<open>
  From the label \<open>next_job\<close> on; \<open>None\<close> as the block is the end of the list, where the worker yields and
  starts again. When the blocks of a job are used up, the code goes back to \<open>next_job\<close> with the same job.
\<close>

partial_function (option) ll_next_job ::
  "nat option \<Rightarrow> ll_worker \<Rightarrow> ll_store \<Rightarrow> (ll_block option \<times> ll_worker \<times> ll_store) option" where
  "ll_next_job job w h =
     do {
       job \<leftarrow> ll_skip_done h job;
       case job of
         None \<Rightarrow> Some (None, w, h)
       | Some a \<Rightarrow> do {
           j \<leftarrow> h a;
           let w = ll_remember a j w;
           let block_idx = lj_block_idx j;
           let h = h(a \<mapsto> j\<lparr>lj_block_idx := block_idx + 1\<rparr>);
           if w_block_count w \<le> block_idx then ll_next_job (Some a) w h
           else Some (Some (ll_block_of a block_idx w), w, h)
         }
     }"

declare ll_next_job.simps [code]

definition ll_take_block :: "ll_worker \<Rightarrow> ll_scheduler \<Rightarrow> (ll_block option \<times> ll_worker \<times> ll_scheduler) option" where
  "ll_take_block w s =
     do {
       (b, w, h) \<leftarrow> ll_next_job (ll_current s) w (ll_jobs s);
       Some (b, w, s\<lparr>ll_jobs := h\<rparr>)
     }"

text \<open>Lines 167 to 174: after the search of a block has ended with \<open>a\<close>.\<close>

definition ll_finish_block ::
  "ll_block \<Rightarrow> u64 \<Rightarrow> ll_worker \<Rightarrow> ll_scheduler \<times> world \<Rightarrow> (ll_scheduler \<times> world) option" where
  "ll_finish_block b x w = (\<lambda>(s, wd).
     if x = SCHEDULER_NO_ANSWER_SENTINEL then Some (s, wd)
     else do {
       j \<leftarrow> ll_jobs s (lb_job b);
       let s = s\<lparr>ll_jobs := (ll_jobs s)(lb_job b \<mapsto> j\<lparr>lj_answer := x, lj_done := True\<rparr>)\<rparr>;
       wd \<leftarrow> scheduler_job_notify_recipient (lj_recipient j) x wd;
       c \<leftarrow> cache_insert_pending (w_hash w) x (ll_cache s);
       Some (s\<lparr>ll_cache := c\<rparr>, wd)
     })"

text \<open>One pass of the worker's loop; the result \<open>False\<close> is the return of the thread.\<close>

definition ll_worker_pass ::
  "(u64 \<Rightarrow> u64 \<Rightarrow> u8 list \<Rightarrow> u64 option) \<Rightarrow> ll_worker \<Rightarrow> ll_scheduler \<times> world \<Rightarrow>
   (bool \<times> ll_worker \<times> ll_scheduler \<times> world) option" where
  "ll_worker_pass search w = (\<lambda>(s, wd).
     if \<not> ll_running s then Some (False, w, s, wd)
     else do {
       (b, w, s) \<leftarrow> ll_take_block w s;
       case b of
         None \<Rightarrow> Some (True, w, s, wd)
       | Some b \<Rightarrow> do {
           x \<leftarrow> search (lb_start b) (lb_end b) (w_hash w);
           (s, wd) \<leftarrow> ll_finish_block b x w (s, wd);
           Some (ll_running s, w, s, wd)
         }
     })"

section \<open>The list in the store\<close>

text \<open>\<open>ll_path h p as q\<close>: from \<open>p\<close> the pointers lead along the nodes \<open>as\<close> to \<open>q\<close>.\<close>

primrec ll_path :: "ll_store \<Rightarrow> nat option \<Rightarrow> nat list \<Rightarrow> nat option \<Rightarrow> bool" where
  "ll_path h p [] q \<longleftrightarrow> p = q"
| "ll_path h p (a # as) q \<longleftrightarrow> p = Some a \<and> (\<exists>j. h a = Some j \<and> ll_path h (lj_next j) as q)"

definition ll_chain :: "ll_scheduler \<Rightarrow> nat list \<Rightarrow> bool" where
  "ll_chain s as \<longleftrightarrow> ll_path (ll_jobs s) (ll_current s) as None \<and> distinct as"

definition first_of :: "nat list \<Rightarrow> nat option" where
  "first_of as = (case as of [] \<Rightarrow> None | a # _ \<Rightarrow> Some a)"

lemma first_of_simps [simp]: "first_of [] = None" "first_of (a # as) = Some a"
  by (simp_all add: first_of_def)

lemma path_append [simp]: "ll_path h p (as @ bs) q \<longleftrightarrow> (\<exists>r. ll_path h p as r \<and> ll_path h r bs q)"
  by (induction as arbitrary: p) auto

lemma path_first: "ll_path h p as None \<Longrightarrow> p = first_of as"
  by (cases as) auto

lemma ll_path_upd [simp]: "b \<notin> set as \<Longrightarrow> ll_path (h(b := x)) p as q \<longleftrightarrow> ll_path h p as q"
  by (induction as arbitrary: p) auto

lemma ll_path_dom: "ll_path h p as q \<Longrightarrow> set as \<subseteq> dom h"
  by (induction as arbitrary: p) auto

lemma path_suffix: "ll_path h p (as @ bs) None \<Longrightarrow> ll_path h (first_of bs) bs None"
  using path_first by fastforce

text \<open>Inserting the node \<open>a\<close> behind the non-empty segment \<open>xs\<close>.\<close>

lemma path_splice:
  assumes "ll_path h p (xs @ ys) None" "distinct (xs @ ys)" "a \<notin> set (xs @ ys)" "xs \<noteq> []"
  defines "b \<equiv> last xs"
  shows "\<exists>j. h b = Some j \<and>
    ll_path (h(a \<mapsto> nj\<lparr>lj_next := first_of ys\<rparr>, b \<mapsto> j\<lparr>lj_next := Some a\<rparr>)) p (xs @ a # ys) None"
proof -
  have xs: "xs = butlast xs @ [b]" using assms(4) by (simp add: b_def)
  obtain j where j: "ll_path h p (butlast xs) (Some b)" "h b = Some j" "ll_path h (lj_next j) ys None"
    using assms(1) by (subst (asm) xs) auto
  have nb: "b \<notin> set (butlast xs)" "b \<notin> set ys" "a \<noteq> b" "a \<notin> set (butlast xs)" "a \<notin> set ys"
    using assms(2,3) by (subst (asm) xs, auto)+
  have "ll_path (h(a \<mapsto> nj\<lparr>lj_next := first_of ys\<rparr>, b \<mapsto> j\<lparr>lj_next := Some a\<rparr>)) p (butlast xs @ [b] @ a # ys) None"
    using j nb path_first [OF j(3)] by auto
  then show ?thesis
    using j(2) xs by (metis append.assoc)
qed

section \<open>Submission drops the open jobs\<close>

definition is_open :: "ll_store \<Rightarrow> nat \<Rightarrow> bool" where
  "is_open h a \<longleftrightarrow> (\<exists>j. h a = Some j \<and> \<not> lj_done j)"

definition has_priority_upto :: "ll_store \<Rightarrow> u8 \<Rightarrow> nat \<Rightarrow> bool" where
  "has_priority_upto h pr a \<longleftrightarrow> (\<exists>j. h a = Some j \<and> lj_priority j \<le> pr)"

lemma is_open_at [simp]: "h a = Some j \<Longrightarrow> is_open h a \<longleftrightarrow> \<not> lj_done j"
  by (simp add: is_open_def)

lemma has_priority_upto_at [simp]: "h a = Some j \<Longrightarrow> has_priority_upto h pr a \<longleftrightarrow> lj_priority j \<le> pr"
  by (simp add: has_priority_upto_def)

lemma skip_open_path: "ll_path h p as None \<Longrightarrow> ll_skip_open h p = Some (first_of (dropWhile (is_open h) as))"
proof (induction as arbitrary: p)
  case Nil
  then show ?case by (subst ll_skip_open.simps) simp
next
  case (Cons a as)
  then show ?case by (subst ll_skip_open.simps) auto
qed

lemma find_place_path:
  "ll_path h p as None \<Longrightarrow> ll_find_place h pr q0 p =
     Some (if takeWhile (has_priority_upto h pr) as = [] then q0
           else Some (last (takeWhile (has_priority_upto h pr) as)),
       first_of (dropWhile (has_priority_upto h pr) as))"
proof (induction as arbitrary: p q0)
  case Nil
  then show ?case by (subst ll_find_place.simps) simp
next
  case (Cons a as)
  then obtain j where j: "p = Some a" "h a = Some j" "ll_path h (lj_next j) as None" by auto
  show ?case
  proof (cases "lj_priority j \<le> pr")
    case True
    then show ?thesis
      using j Cons.IH [OF j(3), of "Some a"] by (subst ll_find_place.simps) auto
  next
    case False
    then show ?thesis
      using j by (subst ll_find_place.simps) auto
  qed
qed

text \<open>The list after a submission: the new job takes its place among the jobs from the first done one on.\<close>

definition ll_inserted :: "ll_store \<Rightarrow> u8 \<Rightarrow> nat \<Rightarrow> nat list \<Rightarrow> nat list" where
  "ll_inserted h pr a as =
     (let ds = dropWhile (is_open h) as
      in takeWhile (has_priority_upto h pr) ds @ a # dropWhile (has_priority_upto h pr) ds)"

text \<open>Jobs keep everything but their successor.\<close>

definition same_jobs :: "ll_store \<Rightarrow> ll_store \<Rightarrow> bool" where
  "same_jobs h h' \<longleftrightarrow> (\<forall>b j. h b = Some j \<longrightarrow> (\<exists>n. h' b = Some (j\<lparr>lj_next := n\<rparr>)))"

lemma takeWhile_cong_set: "(\<And>x. x \<in> set xs \<Longrightarrow> P x = Q x) \<Longrightarrow> takeWhile P xs = takeWhile Q xs"
  by (rule takeWhile_cong) auto

lemma ll_insert_job_chain:
  assumes chain: "ll_chain s as" and fresh: "a \<notin> dom (ll_jobs s)"
  shows "\<exists>s' n. ll_insert_job a request recipient s = Some s' \<and>
    ll_chain s' (ll_inserted (ll_jobs s) (req_priority request) a as) \<and>
    ll_jobs s' a = Some ((ll_new_job request recipient)\<lparr>lj_next := n\<rparr>) \<and>
    same_jobs (ll_jobs s) (ll_jobs s') \<and> ll_cache s' = ll_cache s \<and> ll_running s' = ll_running s"
proof -
  let ?h = "ll_jobs s" and ?nj = "ll_new_job request recipient" and ?pr = "req_priority request"
  define ds where "ds = dropWhile (is_open ?h) as"
  have p: "ll_path ?h (ll_current s) as None" "distinct as" using chain by (auto simp: ll_chain_def)
  have split: "as = takeWhile (is_open ?h) as @ ds" by (simp add: ds_def)
  have pd: "ll_path ?h (first_of ds) ds None" using p(1) by (subst (asm) split) (rule path_suffix)
  have dd: "distinct ds" "set ds \<subseteq> set as" using p(2) split by (metis distinct_append, metis UnCI set_append subsetI)
  have a: "a \<notin> set ds" using ll_path_dom [OF pd] fresh by blast
  have skip: "ll_skip_open ?h (ll_current s) = Some (first_of ds)"
    using skip_open_path [OF p(1)] by (simp add: ds_def)
  have pr: "lj_priority ?nj = ?pr" "lj_next ?nj = None" by (simp_all add: ll_new_job_def)
  have same: "same_jobs ?h (?h(a \<mapsto> x))" for x
    unfolding same_jobs_def
  proof (intro allI impI)
    fix b j assume j: "?h b = Some j"
    then have "(?h(a \<mapsto> x)) b = Some (j\<lparr>lj_next := lj_next j\<rparr>)" using fresh by auto
    then show "\<exists>n. (?h(a \<mapsto> x)) b = Some (j\<lparr>lj_next := n\<rparr>)" ..
  qed
  have same_upd: "same_jobs ?h (?h(a \<mapsto> x, b \<mapsto> j\<lparr>lj_next := n\<rparr>))" if "?h b = Some j" "b \<noteq> a" for x b j n
    using same [of x] that by (auto simp: same_jobs_def)
  show ?thesis
  proof (cases ds)
    case Nil
    let ?s' = "s\<lparr>ll_current := Some a, ll_jobs := ?h(a \<mapsto> ?nj)\<rparr>"
    have "ll_insert_job a request recipient s = Some ?s'"
      using skip Nil by (simp add: ll_insert_job_def Let_def)
    moreover have "ll_chain ?s' (ll_inserted ?h ?pr a as)"
      using Nil pr(2) by (simp add: ll_inserted_def ll_chain_def flip: ds_def)
    moreover have "?nj = ?nj\<lparr>lj_next := None\<rparr>" by (simp add: ll_new_job_def)
    ultimately show ?thesis
      using same by (intro exI [of _ ?s'] exI [of _ None]) simp
  next
    case (Cons d ds')
    let ?le = "has_priority_upto ?h ?pr" and ?le' = "has_priority_upto (?h(a \<mapsto> ?nj)) ?pr"
    let ?xs = "takeWhile ?le ds" and ?ys = "dropWhile ?le ds"
    let ?n = "first_of ?ys"
    have le: "\<And>x. x \<in> set ds \<Longrightarrow> ?le' x = ?le x" using a by (auto simp: has_priority_upto_def)
    have tw: "takeWhile ?le' ds = ?xs" "dropWhile ?le' ds = ?ys"
      using le by (auto intro: takeWhile_cong dropWhile_cong)
    have pd': "ll_path (?h(a \<mapsto> ?nj)) (first_of ds) ds None" using pd a by simp
    note place = find_place_path [OF pd', of ?pr None, unfolded tw]
    have parts: "?xs @ ?ys = ds" by simp
    have ys: "ll_path ?h ?n ?ys None" "a \<notin> set ?ys" "distinct ?ys" "a \<notin> set ?xs"
      using pd a dd(1) path_suffix [of ?h _ ?xs ?ys]
      by (metis parts, auto dest: set_dropWhileD set_takeWhileD)
    have eq: "ll_inserted ?h ?pr a as = ?xs @ a # ?ys" by (simp add: ll_inserted_def Let_def flip: ds_def)
    show ?thesis
    proof (cases "?xs = []")
      case True
      let ?s' = "s\<lparr>ll_current := Some a, ll_jobs := ?h(a \<mapsto> ?nj\<lparr>lj_next := ?n\<rparr>)\<rparr>"
      have "ll_insert_job a request recipient s = Some ?s'"
        using skip place True Cons pr(1) by (simp add: ll_insert_job_def Let_def)
      moreover have "ll_chain ?s' (ll_inserted ?h ?pr a as)"
        unfolding eq True using ys by (simp add: ll_chain_def)
      ultimately show ?thesis
        using same by (intro exI [of _ ?s'] exI [of _ ?n]) simp
    next
      case False
      obtain j where j: "?h (last ?xs) = Some j"
          "ll_path (?h(a \<mapsto> ?nj\<lparr>lj_next := ?n\<rparr>, last ?xs \<mapsto> j\<lparr>lj_next := Some a\<rparr>)) (first_of ds) (?xs @ a # ?ys) None"
        using path_splice [of ?h "first_of ds" ?xs ?ys a ?nj] pd dd(1) a False unfolding parts by blast
      let ?s' = "s\<lparr>ll_current := first_of ds,
          ll_jobs := ?h(a \<mapsto> ?nj\<lparr>lj_next := ?n\<rparr>, last ?xs \<mapsto> j\<lparr>lj_next := Some a\<rparr>)\<rparr>"
      have na: "last ?xs \<noteq> a" using False ys(4) last_in_set by metis
      have "ll_insert_job a request recipient s = Some ?s'"
        using skip place False Cons pr(1) j(1) na by (simp add: ll_insert_job_def Let_def)
      moreover have "distinct (?xs @ ?ys)" using dd(1) by simp
      then have "distinct (?xs @ a # ?ys)"
        using ys(2,4) unfolding distinct_append by simp
      then have "ll_chain ?s' (ll_inserted ?h ?pr a as)"
        unfolding eq using j(2) by (simp add: ll_chain_def)
      ultimately show ?thesis
        using same_upd [OF j(1) na] na by (intro exI [of _ ?s'] exI [of _ ?n]) simp
    qed
  qed
qed

text \<open>The jobs that stay in the list keep the order of their priorities, and the new job gets its place in it.\<close>

definition ll_priorities :: "ll_store \<Rightarrow> nat list \<Rightarrow> u8 list" where
  "ll_priorities h as = map (\<lambda>a. lj_priority (the (h a))) as"

lemma ll_path_at: "ll_path h p as q \<Longrightarrow> b \<in> set as \<Longrightarrow> \<exists>j. h b = Some j"
  using ll_path_dom by fastforce

lemma sorted_insert_place:
  assumes "sorted (map f ds)" "\<And>x. x \<in> set ds \<Longrightarrow> P x \<longleftrightarrow> f x \<le> (v :: 'a :: linorder)"
  shows "sorted (map f (takeWhile P ds) @ v # map f (dropWhile P ds))"
  using assms
proof (induction ds)
  case (Cons d ds)
  have P: "P d \<longleftrightarrow> f d \<le> v" by (rule Cons.prems(2)) simp
  have le: "\<forall>x \<in> set ds. f d \<le> f x" using Cons.prems(1) by simp
  have IH: "sorted (map f (takeWhile P ds) @ v # map f (dropWhile P ds))"
    using Cons by simp
  show ?case
  proof (cases "f d \<le> v")
    case True
    have "\<forall>y \<in> set (map f (takeWhile P ds) @ v # map f (dropWhile P ds)). f d \<le> y"
      using True le by (auto dest: set_takeWhileD set_dropWhileD)
    then show ?thesis using True P IH by (simp only: takeWhile.simps dropWhile.simps if_True list.map append_Cons sorted_wrt.simps)
  next
    case False
    then have "\<forall>x \<in> set ds. v \<le> f x" using le by (meson nle_le order_trans)
    then show ?thesis using False P Cons.prems(1) by auto
  qed
qed simp

lemma sorted_dropWhile_map: "sorted (map f as) \<Longrightarrow> sorted (map f (dropWhile P as))"
  by (induction as) auto

lemma ll_inserted_sorted:
  assumes "ll_path h p as None" "sorted (ll_priorities h as)" "a \<notin> set as" "same_jobs h h'" "h' a = Some nj"
    and "lj_priority nj = pr"
  shows "sorted (ll_priorities h' (ll_inserted h pr a as))"
proof -
  let ?ds = "dropWhile (is_open h) as"
  have keep: "lj_priority (the (h' b)) = lj_priority (the (h b))" if "b \<in> set ?ds" for b
    using ll_path_at [OF assms(1), of b] assms(4) that by (fastforce simp: same_jobs_def dest: set_dropWhileD)
  have "sorted (map (\<lambda>b. lj_priority (the (h b))) (takeWhile (has_priority_upto h pr) ?ds) @ pr #
      map (\<lambda>b. lj_priority (the (h b))) (dropWhile (has_priority_upto h pr) ?ds))"
  proof (rule sorted_insert_place)
    show "sorted (map (\<lambda>b. lj_priority (the (h b))) ?ds)"
      using assms(2) sorted_dropWhile_map unfolding ll_priorities_def by blast
    show "x \<in> set ?ds \<Longrightarrow> has_priority_upto h pr x \<longleftrightarrow> lj_priority (the (h x)) \<le> pr" for x
      using ll_path_at [OF assms(1), of x] set_dropWhileD [of x "is_open h" as] by (auto simp: has_priority_upto_def)
  qed
  moreover have "map (\<lambda>b. lj_priority (the (h' b))) (takeWhile Q ?ds) = map (\<lambda>b. lj_priority (the (h b))) (takeWhile Q ?ds)"
      "map (\<lambda>b. lj_priority (the (h' b))) (dropWhile Q ?ds) = map (\<lambda>b. lj_priority (the (h b))) (dropWhile Q ?ds)" for Q
    by (auto intro: keep dest: set_takeWhileD set_dropWhileD)
  ultimately show ?thesis
    unfolding ll_priorities_def ll_inserted_def Let_def map_append list.map assms(5) option.sel assms(6)
    by (simp only:)
qed

text \<open>The list of the examples: job \<open>1\<close> is open, and job \<open>2\<close> behind it is done.\<close>

abbreviation ll_request :: request where
  "ll_request \<equiv> \<lparr>req_hash = replicate 32 0, req_start = 1, req_end = 200001, req_priority = 7\<rparr>"

abbreviation ll_two_jobs :: ll_scheduler where
  "ll_two_jobs \<equiv> (scheduler_linked_list_create 8)\<lparr>ll_current := Some 1,
     ll_jobs := [1 \<mapsto> (ll_new_job ll_request None)\<lparr>lj_next := Some 2\<rparr>, 2 \<mapsto> (ll_new_job ll_request None)\<lparr>lj_done := True\<rparr>]\<rparr>"

lemma ll_two_jobs_chain: "ll_chain ll_two_jobs [1, 2]"
  by (simp add: ll_chain_def ll_new_job_def)

lemma ll_create_cache: "cache_rep 8 (ll_cache (scheduler_linked_list_create 8)) Map.empty []"
  using cache_create_rep [of 8] by (simp add: scheduler_linked_list_create_def)

text \<open>
  C20: a submission to the linked-list scheduler looks for the first job that is done and cuts the list off
  before it, so every job in front of it, all of them still open, is dropped, with its client; when no job is done,
  only the new job is left. The new job then goes behind the jobs of at most its priority, so in a list ordered
  by priority the workers, who start at its head, serve the lowest priority first.
\<close>

theorem ll_submit_drops_open_jobs:
  assumes "cache_rep P (ll_cache s) m es" "P + 5 * length es < 2 ^ 28" "stack_ok junk gjunk"
    and "length (req_hash request) = SHA256_DIGEST_LENGTH" "with_pending m es (req_hash request) = None"
    and "ll_chain s as" "a \<notin> dom (ll_jobs s)"
  shows "\<exists>s' n. scheduler_linked_list_submit junk gjunk a request recipient (s, wd) = Some (0, s', wd) \<and>
    ll_chain s' (ll_inserted (ll_jobs s) (req_priority request) a as) \<and>
    ll_jobs s' a = Some ((ll_new_job request recipient)\<lparr>lj_next := n\<rparr>) \<and> same_jobs (ll_jobs s) (ll_jobs s') \<and>
    (Ball (set as) (is_open (ll_jobs s)) \<longrightarrow> ll_chain s' [a]) \<and>
    (sorted (ll_priorities (ll_jobs s) as) \<longrightarrow>
      sorted (ll_priorities (ll_jobs s') (ll_inserted (ll_jobs s) (req_priority request) a as)))"
proof -
  obtain c where c: "cache_process_pending junk (ll_cache s) = Some c"
      "cache_get gjunk (req_hash request) c = Some None"
    using cache_consult [OF assms(1-4)] assms(5) by metis
  have "ll_chain (s\<lparr>ll_cache := c\<rparr>) as" using assms(6) by (simp add: ll_chain_def)
  from ll_insert_job_chain [OF this, of a request recipient] assms(7)
  obtain s' n where s': "ll_insert_job a request recipient (s\<lparr>ll_cache := c\<rparr>) = Some s'"
      "ll_chain s' (ll_inserted (ll_jobs s) (req_priority request) a as)"
      "ll_jobs s' a = Some ((ll_new_job request recipient)\<lparr>lj_next := n\<rparr>)" "same_jobs (ll_jobs s) (ll_jobs s')"
    by auto
  have p: "ll_path (ll_jobs s) (ll_current s) as None" using assms(6) by (simp add: ll_chain_def)
  then have "a \<notin> set as" using ll_path_dom assms(7) by blast
  then have "sorted (ll_priorities (ll_jobs s) as) \<Longrightarrow>
      sorted (ll_priorities (ll_jobs s') (ll_inserted (ll_jobs s) (req_priority request) a as))"
    using ll_inserted_sorted [OF p _ _ s'(4,3)] by (simp add: ll_new_job_def)
  moreover have "Ball (set as) (is_open (ll_jobs s)) \<Longrightarrow> ll_inserted (ll_jobs s) (req_priority request) a as = [a]"
    by (simp add: ll_inserted_def dropWhile_eq_Nil_conv [THEN iffD2])
  ultimately show ?thesis
    using c s' by (auto simp: scheduler_linked_list_submit_def)
qed

theorem ll_submit_drops_open_jobs_witness:
  "\<exists>s'. scheduler_linked_list_submit (\<lambda>_ _. replicate 32 0) (replicate 32 0) 3 ll_request None
       (ll_two_jobs, \<lparr>recipients = Map.empty, events = []\<rparr>) = Some (0, s', \<lparr>recipients = Map.empty, events = []\<rparr>) \<and>
     ll_chain s' [2, 3]"
proof -
  have ins: "ll_inserted (ll_jobs ll_two_jobs) (req_priority ll_request) 3 [1, 2] = [2, 3]"
    by (simp add: ll_inserted_def ll_new_job_def is_open_def has_priority_upto_def Let_def)
  have "cache_rep 8 (ll_cache ll_two_jobs) Map.empty []" using ll_create_cache by simp
  moreover have "8 + 5 * length ([] :: pending_entry list) < 2 ^ 28" by simp
  moreover have "stack_ok (\<lambda>_ _. replicate 32 0) (replicate 32 0)"
    by (simp add: stack_ok_def buffers_def SHA256_DIGEST_LENGTH_def)
  moreover have "length (req_hash ll_request) = SHA256_DIGEST_LENGTH" by (simp add: SHA256_DIGEST_LENGTH_def)
  moreover have "with_pending Map.empty [] (req_hash ll_request) = None" by (simp add: with_pending_def)
  moreover have "3 \<notin> dom (ll_jobs ll_two_jobs)" by simp
  ultimately show ?thesis
    using ll_submit_drops_open_jobs [OF _ _ _ _ _ ll_two_jobs_chain, of 8 Map.empty "[]" "\<lambda>_ _. replicate 32 0"
        "replicate 32 0" ll_request 3 None "\<lparr>recipients = Map.empty, events = []\<rparr>"] unfolding ins
    by blast
qed

section \<open>What the workers search\<close>

lemma skip_done_path:
  "ll_path h p as None \<Longrightarrow> ll_skip_done h p = Some (first_of (dropWhile (\<lambda>a. \<not> is_open h a) as))"
proof (induction as arbitrary: p)
  case Nil
  then show ?case by (subst ll_skip_done.simps) simp
next
  case (Cons a as)
  then show ?case by (subst ll_skip_done.simps) auto
qed

text \<open>What a worker remembers of a job is right: a job keeps its address, hash and range.\<close>

definition remembers :: "ll_worker \<Rightarrow> ll_store \<Rightarrow> bool" where
  "remembers w h \<longleftrightarrow> (\<forall>a j. w_prev_job w = Some a \<longrightarrow> h a = Some j \<longrightarrow>
     w_hash w = lj_hash j \<and> w_start w = lj_start j \<and> w_end w = lj_end j \<and> w_block_count w = lj_block_count j)"

lemma remember_job:
  assumes "remembers w h" "h a = Some j"
  shows "ll_remember a j w = \<lparr>w_hash = lj_hash j, w_start = lj_start j, w_end = lj_end j,
    w_block_count = lj_block_count j, w_prev_job = Some a\<rparr>"
  using assms by (cases w) (auto simp: ll_remember_def remembers_def)

text \<open>The end of a block, also where it would pass \<open>2 ^ 64\<close>.\<close>

lemma ll_block_end:
  "unat (lb_end (ll_block_of a k w)) = min (unat (w_end w)) (unat (lb_start (ll_block_of a k w)) + 2 ^ 16)"
proof (cases "unat (lb_start (ll_block_of a k w)) + 2 ^ 16 < 2 ^ 64")
  case True
  then have "unat (lb_start (ll_block_of a k w) + 2 ^ 16) = unat (lb_start (ll_block_of a k w)) + 2 ^ 16"
    by (simp add: unat_word_ariths)
  then show ?thesis
    by (auto simp: ll_block_of_def Let_def SCHEDULER_LL_BLOCK_SIZE_def word_less_nat_alt)
next
  case False
  then have "unat (lb_start (ll_block_of a k w) + 2 ^ 16) < unat (lb_start (ll_block_of a k w))"
    using u64_bound [of "lb_start (ll_block_of a k w)"] by (simp add: unat_word_ariths mod_if)
  then show ?thesis
    using False u64_bound [of "w_end w"]
    by (auto simp: ll_block_of_def Let_def SCHEDULER_LL_BLOCK_SIZE_def word_less_nat_alt)
qed

text \<open>
  A worker takes the next block of the first job of the list that is not done, if one of its blocks is
  left, with the job's hash; it changes nothing but the block counter of this job.
\<close>

theorem ll_takes_first_open_job:
  assumes "ll_chain s (ds @ a # as)" "\<And>d. d \<in> set ds \<Longrightarrow> \<not> is_open (ll_jobs s) d"
    and "ll_jobs s a = Some j" "\<not> lj_done j" "lj_block_idx j < lj_block_count j" "remembers w (ll_jobs s)"
  shows "\<exists>b w' s'. ll_take_block w s = Some (Some b, w', s') \<and> lb_job b = a \<and>
    lb_start b = lj_start j + lj_block_idx j * 2 ^ 16 \<and>
    unat (lb_end b) = min (unat (lj_end j)) (unat (lb_start b) + 2 ^ 16) \<and>
    w_hash w' = lj_hash j \<and> remembers w' (ll_jobs s') \<and>
    s' = s\<lparr>ll_jobs := (ll_jobs s)(a \<mapsto> j\<lparr>lj_block_idx := lj_block_idx j + 1\<rparr>)\<rparr>"
proof -
  have "dropWhile (\<lambda>a. \<not> is_open (ll_jobs s) a) (ds @ a # as) = a # as"
    using assms(2-4) by (simp add: dropWhile_append3)
  then have skip: "ll_skip_done (ll_jobs s) (ll_current s) = Some (Some a)"
    using skip_done_path [of "ll_jobs s" "ll_current s" "ds @ a # as"] assms(1) by (simp add: ll_chain_def)
  let ?w = "ll_remember a j w"
  note w = remember_job [OF assms(6,3)]
  have less: "\<not> w_block_count ?w \<le> lj_block_idx j" using assms(5) w by simp
  let ?b = "ll_block_of a (lj_block_idx j) ?w"
  let ?s' = "s\<lparr>ll_jobs := (ll_jobs s)(a \<mapsto> j\<lparr>lj_block_idx := lj_block_idx j + 1\<rparr>)\<rparr>"
  have take: "ll_take_block w s = Some (Some ?b, ?w, ?s')"
    using skip assms(3) less by (simp add: ll_take_block_def) (subst ll_next_job.simps, simp add: Let_def)
  have "unat (lb_end ?b) = min (unat (lj_end j)) (unat (lb_start ?b) + 2 ^ 16)"
    using ll_block_end [of a "lj_block_idx j" ?w] w by simp
  moreover have "lb_job ?b = a" "lb_start ?b = lj_start j + lj_block_idx j * 2 ^ 16"
    by (simp_all add: ll_block_of_def Let_def w SCHEDULER_LL_BLOCK_SIZE_def)
  moreover have "remembers ?w (ll_jobs ?s')" "w_hash ?w = lj_hash j" by (simp_all add: remembers_def w)
  ultimately show ?thesis using take by blast
qed

theorem ll_takes_first_open_job_witness:
  "\<exists>b w' s'. ll_take_block ll_worker_create ll_two_jobs = Some (Some b, w', s') \<and> lb_job b = 1 \<and> lb_start b = 1 \<and>
     unat (lb_end b) = 65537 \<and> w_hash w' = replicate 32 0"
  using ll_takes_first_open_job [of ll_two_jobs "[]" 1 "[2]" "(ll_new_job ll_request None)\<lparr>lj_next := Some 2\<rparr>" ll_worker_create]
    ll_two_jobs_chain
  by (auto simp: ll_new_job_def remembers_def ll_worker_create_def SCHEDULER_LL_BLOCK_SIZE_def)

text \<open>A job without a block: the worker goes back to \<open>next_job\<close> with the same job, for ever.\<close>

lemma ll_next_job_spins:
  assumes "h a = Some j" "\<not> lj_done j" "lj_block_count j = 0" "w_prev_job w = Some a \<Longrightarrow> w_block_count w = 0"
  shows "ll_next_job (Some a) w h = None"
proof (rule ccontr)
  assume "ll_next_job (Some a) w h \<noteq> None"
  then obtain r where r: "ll_next_job (Some a) w h = Some r" by auto
  have "\<forall>j. job = Some a \<longrightarrow> h a = Some j \<longrightarrow> \<not> lj_done j \<longrightarrow> lj_block_count j = 0 \<longrightarrow>
      (w_prev_job w = Some a \<longrightarrow> w_block_count w = 0) \<longrightarrow> False"
    if "ll_next_job job w h = Some r" for job w h r
  proof (rule ll_next_job.raw_induct [OF _ that])
    fix f and job :: "nat option" and w h r
    assume IH: "\<And>job w h r. f job w h = Some r \<Longrightarrow>
        \<forall>j. job = Some a \<longrightarrow> h a = Some j \<longrightarrow> \<not> lj_done j \<longrightarrow> lj_block_count j = 0 \<longrightarrow>
          (w_prev_job w = Some a \<longrightarrow> w_block_count w = 0) \<longrightarrow> False"
      and body: "do {
       job \<leftarrow> ll_skip_done h job;
       case job of
         None \<Rightarrow> Some (None, w, h)
       | Some a \<Rightarrow> do {
           j \<leftarrow> h a;
           let w = ll_remember a j w;
           let block_idx = lj_block_idx j;
           let h = h(a \<mapsto> j\<lparr>lj_block_idx := block_idx + 1\<rparr>);
           if w_block_count w \<le> block_idx then f (Some a) w h
           else Some (Some (ll_block_of a block_idx w), w, h)
         }
     } = Some r"
    show "\<forall>j. job = Some a \<longrightarrow> h a = Some j \<longrightarrow> \<not> lj_done j \<longrightarrow> lj_block_count j = 0 \<longrightarrow>
          (w_prev_job w = Some a \<longrightarrow> w_block_count w = 0) \<longrightarrow> False"
    proof (intro allI impI)
      fix j assume j: "job = Some a" "h a = Some j" "\<not> lj_done j" "lj_block_count j = 0"
          "w_prev_job w = Some a \<longrightarrow> w_block_count w = 0"
      have skip: "ll_skip_done h job = Some (Some a)" using j by (subst ll_skip_done.simps) simp
      have w: "w_block_count (ll_remember a j w) = 0" "w_prev_job (ll_remember a j w) = Some a"
        using j by (auto simp: ll_remember_def)
      have "f (Some a) (ll_remember a j w) (h(a \<mapsto> j\<lparr>lj_block_idx := lj_block_idx j + 1\<rparr>)) = Some r"
        using body skip j(2) w(1) by (simp add: Let_def)
      from IH [OF this] w show False using j(3,4) by simp
    qed
  qed
  from this [OF r] assms show False by blast
qed

text \<open>
  A request for fewer than \<open>2 ^ 16\<close> numbers makes a job without blocks. Submitted to a scheduler whose jobs
  are all open (or that has none), it is the whole list; a worker that then looks for a block never comes back
  from the search: it finds the job not done and without a block left, and goes on with the same job.
\<close>

theorem ll_short_range_spins:
  assumes "ll_chain s as" "Ball (set as) (is_open (ll_jobs s))" "a \<notin> dom (ll_jobs s)"
    and "unat (req_end request - req_start request) < 2 ^ 16" "w_prev_job w \<noteq> Some a"
  shows "\<exists>s'. ll_insert_job a request recipient s = Some s' \<and> ll_take_block w s' = None"
proof -
  obtain s' n where s': "ll_insert_job a request recipient s = Some s'"
      "ll_chain s' (ll_inserted (ll_jobs s) (req_priority request) a as)"
      "ll_jobs s' a = Some ((ll_new_job request recipient)\<lparr>lj_next := n\<rparr>)"
    using ll_insert_job_chain [OF assms(1,3)] by blast
  have "ll_inserted (ll_jobs s) (req_priority request) a as = [a]"
    using assms(2) by (simp add: ll_inserted_def dropWhile_eq_Nil_conv [THEN iffD2])
  then have "ll_current s' = Some a" using s'(2) by (simp add: ll_chain_def)
  moreover have "lj_block_count (ll_new_job request recipient) = 0"
    using assms(4) by (simp add: ll_new_job_def SCHEDULER_LL_BLOCK_SIZE_def word_unat_eq_iff unat_div)
  then have "ll_next_job (Some a) w (ll_jobs s') = None"
    using assms(5) s'(3)
    by (intro ll_next_job_spins [where j = "(ll_new_job request recipient)\<lparr>lj_next := n\<rparr>"])
      (simp_all add: ll_new_job_def)
  ultimately show ?thesis using s'(1) by (simp add: ll_take_block_def)
qed

theorem ll_short_range_spins_witness:
  "\<exists>s'. ll_insert_job 5 \<lparr>req_hash = replicate 32 0, req_start = 1, req_end = 30001, req_priority = 4\<rparr> None
       (scheduler_linked_list_create 8) = Some s' \<and> ll_take_block ll_worker_create s' = None"
  by (rule ll_short_range_spins [of _ "[]"])
    (simp_all add: ll_chain_def scheduler_linked_list_create_def ll_worker_create_def)

text \<open>The numbers a worker searches that takes block \<open>k\<close> of a job.\<close>

definition in_ll_block :: "ll_job \<Rightarrow> u64 \<Rightarrow> u64 \<Rightarrow> bool" where
  "in_ll_block j k x \<longleftrightarrow>
     (let b = ll_block_of 0 k (ll_remember 0 j ll_worker_create) in lb_start b \<le> x \<and> x \<le> lb_end b)"

lemma in_ll_block_iff:
  assumes "unat (lj_start j) + unat k * 2 ^ 16 \<le> unat (lj_end j)"
  shows "in_ll_block j k x \<longleftrightarrow> unat (lj_start j) + unat k * 2 ^ 16 \<le> unat x \<and>
    unat x \<le> min (unat (lj_end j)) (unat (lj_start j) + unat k * 2 ^ 16 + 2 ^ 16)"
proof -
  let ?b = "ll_block_of 0 k (ll_remember 0 j ll_worker_create)"
  have "lb_start ?b = lj_start j + k * 2 ^ 16" "w_end (ll_remember 0 j ll_worker_create) = lj_end j"
    by (simp_all add: ll_block_of_def Let_def ll_remember_def ll_worker_create_def SCHEDULER_LL_BLOCK_SIZE_def)
  moreover have "unat (lj_start j + k * 2 ^ 16) = unat (lj_start j) + unat k * 2 ^ 16"
    using assms u64_bound [of "lj_end j"] by (simp add: unat_word_ariths)
  ultimately show ?thesis
    using ll_block_end [of 0 k "ll_remember 0 j ll_worker_create"]
    by (simp add: in_ll_block_def Let_def word_le_nat_alt)
qed

text \<open>
  The blocks of a job are its whole blocks of \<open>2 ^ 16\<close> numbers only: what is left of the range behind the last
  whole block is in no block, so an answer there is never found.
\<close>

theorem ll_blocks_miss_tail:
  fixes recipient :: "nat option" and request :: request and x :: u64
  assumes "req_start request \<le> req_end request"
  defines "j \<equiv> ll_new_job request recipient"
  shows "unat (lj_block_count j) = (unat (req_end request) - unat (req_start request)) div 2 ^ 16 \<and>
    ((\<exists>k. k < lj_block_count j \<and> in_ll_block j k x) \<longleftrightarrow>
      0 < lj_block_count j \<and> req_start request \<le> x \<and>
      unat x \<le> unat (req_start request) + unat (lj_block_count j) * 2 ^ 16)"
proof -
  let ?a = "unat (req_start request)" and ?e = "unat (req_end request)" and ?n = "unat (lj_block_count j)"
  have le: "?a \<le> ?e" using assms(1) by (simp add: word_le_nat_alt)
  have j: "lj_start j = req_start request" "lj_end j = req_end request" by (simp_all add: j_def ll_new_job_def)
  have n: "?n = (?e - ?a) div 2 ^ 16"
    using assms(1) by (simp add: j_def ll_new_job_def SCHEDULER_LL_BLOCK_SIZE_def unat_div unat_sub)
  have "?n * 2 ^ 16 \<le> ?e - ?a" unfolding n by (rule div_times_less_eq_dividend)
  then have top: "?a + ?n * 2 ^ 16 \<le> ?e" using le by linarith
  have block: "in_ll_block j k x \<longleftrightarrow> ?a + unat k * 2 ^ 16 \<le> unat x \<and> unat x \<le> ?a + unat k * 2 ^ 16 + 2 ^ 16"
    if "k < lj_block_count j" for k
  proof -
    have "Suc (unat k) * 2 ^ 16 \<le> ?n * 2 ^ 16" using that by (simp add: word_less_nat_alt)
    then have "?a + unat k * 2 ^ 16 + 2 ^ 16 \<le> ?e" using top by simp
    then show ?thesis using in_ll_block_iff [of j k x] j by simp
  qed
  have "(\<exists>k. k < lj_block_count j \<and> in_ll_block j k x) \<longleftrightarrow>
      0 < lj_block_count j \<and> req_start request \<le> x \<and> unat x \<le> ?a + ?n * 2 ^ 16"
  proof
    assume "\<exists>k. k < lj_block_count j \<and> in_ll_block j k x"
    then obtain k where k: "k < lj_block_count j" "in_ll_block j k x" by blast
    have "Suc (unat k) * 2 ^ 16 \<le> ?n * 2 ^ 16" using k(1) by (simp add: word_less_nat_alt)
    then show "0 < lj_block_count j \<and> req_start request \<le> x \<and> unat x \<le> ?a + ?n * 2 ^ 16"
      using k block [OF k(1)] by (auto simp: word_le_nat_alt word_less_nat_alt)
  next
    assume r: "0 < lj_block_count j \<and> req_start request \<le> x \<and> unat x \<le> ?a + ?n * 2 ^ 16"
    define m where "m = min ((unat x - ?a) div 2 ^ 16) (?n - 1)"
    have pos: "0 < ?n" and ax: "?a \<le> unat x" and xa: "unat x \<le> ?a + ?n * 2 ^ 16"
      using r by (simp_all add: word_less_nat_alt word_le_nat_alt)
    have m: "m < ?n" using pos by (simp add: m_def)
    then have um: "unat (word_of_nat m :: u64) = m"
      using u64_bound [of "lj_block_count j"] by (simp add: unat_of_nat)
    have "?a + m * 2 ^ 16 \<le> unat x" "unat x \<le> ?a + m * 2 ^ 16 + 2 ^ 16"
      using ax xa pos by (auto simp: m_def min_def not_le)
    then have "in_ll_block j (word_of_nat m) x"
      using block [of "word_of_nat m"] m um by (simp add: word_less_nat_alt)
    then show "\<exists>k. k < lj_block_count j \<and> in_ll_block j k x"
      using m um by (intro exI [of _ "word_of_nat m"]) (simp add: word_less_nat_alt)
  qed
  then show ?thesis using n by blast
qed

theorem ll_blocks_miss_tail_witness:
  "unat (lj_block_count (ll_new_job ll_request None)) = 3 \<and>
   \<not> (\<exists>k. k < lj_block_count (ll_new_job ll_request None) \<and> in_ll_block (ll_new_job ll_request None) k 200000)"
proof -
  have "unat (lj_block_count (ll_new_job ll_request None)) = 3"
    by (simp add: ll_new_job_def SCHEDULER_LL_BLOCK_SIZE_def)
  then show ?thesis
    using ll_blocks_miss_tail [of ll_request None 200000] by simp
qed

end
