(* ===== verification/Waker.thy ===== *)
theory Waker
  imports Prelude
begin

text \<open>
  Waiting and waking: \<open>scheduler_base_init\<close>, \<open>scheduler_base_close\<close>, \<open>scheduler_wake_workers\<close> and
  \<open>scheduler_yield_worker\<close> of \<open>src/scheduler/scheduler.c\<close> in the configured variant (a condition variable), with the
  waiting loop at the end of \<open>scheduler_priority_schedule\<close> and the section of \<open>scheduler_priority_submit\<close> that
  wakes the workers. A step is one access to shared state: the two sections under \<open>wlock\<close> are one step each,
  and so is \<open>pthread_cond_wait\<close>, which gives up its mutex and goes to sleep at once.
\<close>

section \<open>State\<close>

record scheduler_base =
  base_job_id :: u32
  base_running :: bool

text \<open>
  A worker is at the head of the loop (line 230), at the locked read of the job id (lines 233 to 235), on its way
  to sleep (line 241), asleep on the condition variable, or has left the loop.
\<close>

datatype wait_pc = Test_Running | Read_Id | To_Sleep | Asleep | Left

record wait_system =
  base :: scheduler_base
  wait_pcs :: "wait_pc list"
  prev_max_ids :: "u32 list"

definition scheduler_base_init :: scheduler_base where
  "scheduler_base_init = \<lparr>base_job_id = 0, base_running = True\<rparr>"

text \<open>The broadcast wakes the workers that sleep when it happens; it has no effect on later ones.\<close>

definition scheduler_wake_workers :: "wait_system \<Rightarrow> wait_system" where
  "scheduler_wake_workers \<sigma> =
     \<sigma>\<lparr>wait_pcs := map (\<lambda>pc. if pc = Asleep then Test_Running else pc) (wait_pcs \<sigma>)\<rparr>"

definition jump :: "nat \<Rightarrow> wait_pc \<Rightarrow> wait_system \<Rightarrow> wait_system" where
  "jump i pc \<sigma> = \<sigma>\<lparr>wait_pcs := (wait_pcs \<sigma>)[i := pc]\<rparr>"

definition stands :: "wait_system \<Rightarrow> nat \<Rightarrow> wait_pc \<Rightarrow> bool" where
  "stands \<sigma> i pc \<longleftrightarrow> i < length (wait_pcs \<sigma>) \<and> wait_pcs \<sigma> ! i = pc"

section \<open>The steps\<close>

datatype actor = Worker nat | Server | Spurious_Wakeup nat

text \<open>A submission increments the id and wakes the workers while it holds \<open>wlock\<close>; the shutdown does its two
  writes one after the other.\<close>

inductive wait_step :: "wait_system \<Rightarrow> actor \<Rightarrow> wait_system \<Rightarrow> bool" where
  running: "stands \<sigma> i Test_Running \<Longrightarrow> base_running (base \<sigma>) \<Longrightarrow> wait_step \<sigma> (Worker i) (jump i Read_Id \<sigma>)"
| stopped: "stands \<sigma> i Test_Running \<Longrightarrow> \<not> base_running (base \<sigma>) \<Longrightarrow> wait_step \<sigma> (Worker i) (jump i Left \<sigma>)"
| new_job: "stands \<sigma> i Read_Id \<Longrightarrow> prev_max_ids \<sigma> ! i < base_job_id (base \<sigma>) \<Longrightarrow> wait_step \<sigma> (Worker i) (jump i Left \<sigma>)"
| no_new_job: "stands \<sigma> i Read_Id \<Longrightarrow> \<not> prev_max_ids \<sigma> ! i < base_job_id (base \<sigma>) \<Longrightarrow>
    wait_step \<sigma> (Worker i) (jump i To_Sleep \<sigma>)"
| yield_worker: "stands \<sigma> i To_Sleep \<Longrightarrow> wait_step \<sigma> (Worker i) (jump i Asleep \<sigma>)"
| submit: "wait_step \<sigma> Server (scheduler_wake_workers (\<sigma>\<lparr>base := (base \<sigma>)\<lparr>base_job_id := base_job_id (base \<sigma>) + 1\<rparr>\<rparr>))"
| close: "wait_step \<sigma> Server (\<sigma>\<lparr>base := (base \<sigma>)\<lparr>base_running := False\<rparr>\<rparr>)"
| close_wake: "\<not> base_running (base \<sigma>) \<Longrightarrow> wait_step \<sigma> Server (scheduler_wake_workers \<sigma>)"
| spurious: "stands \<sigma> i Asleep \<Longrightarrow> wait_step \<sigma> (Spurious_Wakeup i) (jump i Test_Running \<sigma>)"

inductive_cases worker_stepE: "wait_step \<sigma> (Worker i) \<sigma>'"

definition any_step :: "wait_system \<Rightarrow> wait_system \<Rightarrow> bool" where
  "any_step \<sigma> \<sigma>' \<longleftrightarrow> (\<exists>a. wait_step \<sigma> a \<sigma>')"

lemma any_stepI: "wait_step \<sigma> a \<sigma>' \<Longrightarrow> any_step \<sigma> \<sigma>'"
  by (auto simp: any_step_def)

text \<open>\<open>n\<close> workers that have finished all their jobs and enter the loop.\<close>

definition wait_start :: "nat \<Rightarrow> wait_system" where
  "wait_start n = \<lparr>base = scheduler_base_init, wait_pcs = replicate n Test_Running, prev_max_ids = replicate n 0\<rparr>"

section \<open>A wake-up that comes too early\<close>

lemma all_asleep_stuck: "set (wait_pcs \<sigma>) \<subseteq> {Asleep, Left} \<Longrightarrow> \<not> wait_step \<sigma> (Worker i) \<sigma>'"
  by (auto elim!: worker_stepE simp: stands_def dest!: nth_mem)

text \<open>The workers take the same step one after the other.\<close>

lemma all_jump:
  assumes step: "\<And>\<sigma> i. base \<sigma> = b \<Longrightarrow> prev_max_ids \<sigma> = ids \<Longrightarrow> length (wait_pcs \<sigma>) = n \<Longrightarrow> stands \<sigma> i pc \<Longrightarrow>
      any_step \<sigma> (jump i pc' \<sigma>)"
    and "k \<le> n"
  shows "any_step\<^sup>*\<^sup>* \<lparr>base = b, wait_pcs = replicate n pc, prev_max_ids = ids\<rparr>
    \<lparr>base = b, wait_pcs = replicate k pc' @ replicate (n - k) pc, prev_max_ids = ids\<rparr>"
  using assms(2)
proof (induction k)
  case (Suc k)
  let ?\<sigma> = "\<lparr>base = b, wait_pcs = replicate k pc' @ replicate (n - k) pc, prev_max_ids = ids\<rparr>"
  have "stands ?\<sigma> k pc" using Suc.prems by (simp add: stands_def nth_append)
  then have "any_step ?\<sigma> (jump k pc' ?\<sigma>)" using Suc.prems by (intro step) simp_all
  moreover have "replicate (n - k) pc = pc # replicate (n - Suc k) pc"
    using Suc.prems by (metis Suc_diff_Suc Suc_le_lessD replicate_Suc)
  then have "jump k pc' ?\<sigma> = \<lparr>base = b, wait_pcs = replicate (Suc k) pc' @ replicate (n - Suc k) pc, prev_max_ids = ids\<rparr>"
    by (simp add: jump_def list_update_append replicate_app_Cons_same)
  ultimately show ?case using Suc by (auto intro: rtranclp.rtrancl_into_rtrancl)
qed simp

definition all_at :: "scheduler_base \<Rightarrow> nat \<Rightarrow> wait_pc \<Rightarrow> wait_system" where
  "all_at b n pc = \<lparr>base = b, wait_pcs = replicate n pc, prev_max_ids = replicate n 0\<rparr>"

lemma all_jump_at:
  assumes "\<And>\<sigma> i. base \<sigma> = b \<Longrightarrow> prev_max_ids \<sigma> = replicate n 0 \<Longrightarrow> length (wait_pcs \<sigma>) = n \<Longrightarrow> stands \<sigma> i pc \<Longrightarrow>
      any_step \<sigma> (jump i pc' \<sigma>)"
  shows "any_step\<^sup>*\<^sup>* (all_at b n pc) (all_at b n pc')"
proof -
  have "any_step\<^sup>*\<^sup>* \<lparr>base = b, wait_pcs = replicate n pc, prev_max_ids = replicate n 0\<rparr>
      \<lparr>base = b, wait_pcs = replicate n pc' @ replicate (n - n) pc, prev_max_ids = replicate n 0\<rparr>"
    by (rule all_jump [OF _ order_refl]) (rule assms)
  then show ?thesis by (simp add: all_at_def)
qed

text \<open>All workers have seen that there is neither a new job nor a shutdown, and none sleeps yet.\<close>

lemma all_to_sleep: "any_step\<^sup>*\<^sup>* (wait_start n) (all_at scheduler_base_init n To_Sleep)"
proof -
  have "any_step\<^sup>*\<^sup>* (all_at scheduler_base_init n Test_Running) (all_at scheduler_base_init n Read_Id)"
    by (rule all_jump_at) (auto intro!: any_stepI running simp: scheduler_base_init_def)
  also have "any_step\<^sup>*\<^sup>* (all_at scheduler_base_init n Read_Id) (all_at scheduler_base_init n To_Sleep)"
    by (rule all_jump_at) (auto intro!: any_stepI no_new_job simp: scheduler_base_init_def stands_def)
  finally show ?thesis by (simp add: wait_start_def all_at_def)
qed

lemma all_fall_asleep: "any_step\<^sup>*\<^sup>* (all_at b n To_Sleep) (all_at b n Asleep)"
  by (rule all_jump_at) (auto intro!: any_stepI yield_worker)

lemma wake_nobody: "pc \<noteq> Asleep \<Longrightarrow> scheduler_wake_workers (all_at b n pc) = all_at b n pc"
  by (simp add: scheduler_wake_workers_def all_at_def)

text \<open>
  C19: a wake-up can be lost. A worker that has read the job id (or the running flag) releases the lock before it goes
  to sleep on the condition variable, and does not look again. If the server submits a job, or shuts the scheduler
  down, in between, its broadcast wakes nobody, and then every worker can be asleep although a job is waiting
  (or the program wants to end): no worker can take a step until the next broadcast or a spurious wake-up.
\<close>

theorem wakeup_lost:
  "(\<exists>\<sigma>. any_step\<^sup>*\<^sup>* (wait_start n) \<sigma> \<and> base_job_id (base \<sigma>) = 1 \<and> base_running (base \<sigma>) \<and>
      prev_max_ids \<sigma> = replicate n 0 \<and> wait_pcs \<sigma> = replicate n Asleep \<and> \<not> (\<exists>i \<sigma>'. wait_step \<sigma> (Worker i) \<sigma>')) \<and>
   (\<exists>\<sigma>. any_step\<^sup>*\<^sup>* (wait_start n) \<sigma> \<and> \<not> base_running (base \<sigma>) \<and>
      wait_pcs \<sigma> = replicate n Asleep \<and> \<not> (\<exists>i \<sigma>'. wait_step \<sigma> (Worker i) \<sigma>'))"
proof -
  let ?start = "all_at scheduler_base_init n To_Sleep"
  have stuck: "\<not> (\<exists>i \<sigma>'. wait_step (all_at b n Asleep) (Worker i) \<sigma>')" for b
  proof -
    have "set (wait_pcs (all_at b n Asleep)) \<subseteq> {Asleep, Left}" by (auto simp: all_at_def)
    from all_asleep_stuck [OF this] show ?thesis by blast
  qed
  let ?b = "scheduler_base_init\<lparr>base_job_id := 1\<rparr>"
  have "wait_step ?start Server (all_at ?b n To_Sleep)"
    using wait_step.submit [of ?start] wake_nobody [of To_Sleep ?b n] by (simp add: all_at_def scheduler_base_init_def)
  then have "any_step\<^sup>*\<^sup>* (wait_start n) (all_at ?b n Asleep)"
    using all_to_sleep [of n] all_fall_asleep [of ?b n] any_stepI by (meson rtranclp.rtrancl_into_rtrancl rtranclp_trans)
  then have job: "\<exists>\<sigma>. any_step\<^sup>*\<^sup>* (wait_start n) \<sigma> \<and> base_job_id (base \<sigma>) = 1 \<and> base_running (base \<sigma>) \<and>
      prev_max_ids \<sigma> = replicate n 0 \<and> wait_pcs \<sigma> = replicate n Asleep \<and> \<not> (\<exists>i \<sigma>'. wait_step \<sigma> (Worker i) \<sigma>')"
    using stuck [of ?b] by (intro exI [of _ "all_at ?b n Asleep"]) (simp add: all_at_def scheduler_base_init_def)
  let ?c = "scheduler_base_init\<lparr>base_running := False\<rparr>"
  have "wait_step ?start Server (all_at ?c n To_Sleep)"
    using wait_step.close [of ?start] by (simp add: all_at_def)
  moreover have "wait_step (all_at ?c n To_Sleep) Server (all_at ?c n To_Sleep)"
    using close_wake [of "all_at ?c n To_Sleep"] wake_nobody [of To_Sleep ?c n] by (simp add: all_at_def)
  ultimately have "any_step\<^sup>*\<^sup>* (wait_start n) (all_at ?c n Asleep)"
    using all_to_sleep [of n] all_fall_asleep [of ?c n] any_stepI by (meson rtranclp.rtrancl_into_rtrancl rtranclp_trans)
  then have "\<exists>\<sigma>. any_step\<^sup>*\<^sup>* (wait_start n) \<sigma> \<and> \<not> base_running (base \<sigma>) \<and>
      wait_pcs \<sigma> = replicate n Asleep \<and> \<not> (\<exists>i \<sigma>'. wait_step \<sigma> (Worker i) \<sigma>')"
    using stuck [of ?c] by (intro exI [of _ "all_at ?c n Asleep"]) (simp add: all_at_def)
  then show ?thesis using job by blast
qed

end
