(* ===== verification/Spin_Lock.thy ===== *)
theory Spin_Lock
  imports Prelude
begin

text \<open>
  \<open>src/bits/spin.c\<close>: the read-write spin lock, one 32-bit word whose top bit is the writer and whose
  other bits count the readers. Every atomic access of the source is one step; any number of threads
  up to \<open>2 ^ 31 - 1\<close> interleave, each locking and unlocking in any order and for ever. A weak
  compare-exchange may fail although the values agree.
\<close>

section \<open>The atomic accesses\<close>

definition WRITER_MASK :: u32 where "WRITER_MASK = 0x80000000"
definition READER_MASK :: u32 where "READER_MASK = 0x7FFFFFFF"

definition spin_rwlock_init :: u32 where
  "spin_rwlock_init = 0"

text \<open>\<open>spin_rwlock_rdlock\<close>: the load that gives the expected value, and the value it is replaced by.\<close>

definition rdlock_expected :: "u32 \<Rightarrow> u32" where
  "rdlock_expected l = l AND READER_MASK"

definition rdlock_desired :: "u32 \<Rightarrow> u32" where
  "rdlock_desired e = e + 1"

definition wrlock_expected :: u32 where "wrlock_expected = 0"
definition wrlock_desired :: u32 where "wrlock_desired = WRITER_MASK"

definition rdunlock :: "u32 \<Rightarrow> u32" where
  "rdunlock l = l - 1"

definition wrunlock :: "u32 \<Rightarrow> u32" where
  "wrunlock l = l AND READER_MASK"

section \<open>The interleavings\<close>

text \<open>Where a thread is; \<open>RdTry e\<close> has loaded \<open>e\<close> and is about to compare and exchange.\<close>

datatype pc = Idle | RdLoad | RdTry u32 | Reading | WrTry | Writing

record lock_state =
  lock :: u32
  pcs :: "pc list"

inductive lock_step :: "lock_state \<Rightarrow> lock_state \<Rightarrow> bool" where
  rd_begin: "i < length ps \<Longrightarrow> ps ! i = Idle \<Longrightarrow>
    lock_step \<lparr>lock = l, pcs = ps\<rparr> \<lparr>lock = l, pcs = ps[i := RdLoad]\<rparr>"
| rd_load: "i < length ps \<Longrightarrow> ps ! i = RdLoad \<Longrightarrow>
    lock_step \<lparr>lock = l, pcs = ps\<rparr> \<lparr>lock = l, pcs = ps[i := RdTry (rdlock_expected l)]\<rparr>"
| rd_cas: "i < length ps \<Longrightarrow> ps ! i = RdTry e \<Longrightarrow> l = e \<Longrightarrow>
    lock_step \<lparr>lock = l, pcs = ps\<rparr> \<lparr>lock = rdlock_desired e, pcs = ps[i := Reading]\<rparr>"
| rd_retry: "i < length ps \<Longrightarrow> ps ! i = RdTry e \<Longrightarrow>
    lock_step \<lparr>lock = l, pcs = ps\<rparr> \<lparr>lock = l, pcs = ps[i := RdLoad]\<rparr>"
| rd_unlock: "i < length ps \<Longrightarrow> ps ! i = Reading \<Longrightarrow>
    lock_step \<lparr>lock = l, pcs = ps\<rparr> \<lparr>lock = rdunlock l, pcs = ps[i := Idle]\<rparr>"
| wr_begin: "i < length ps \<Longrightarrow> ps ! i = Idle \<Longrightarrow>
    lock_step \<lparr>lock = l, pcs = ps\<rparr> \<lparr>lock = l, pcs = ps[i := WrTry]\<rparr>"
| wr_cas: "i < length ps \<Longrightarrow> ps ! i = WrTry \<Longrightarrow> l = wrlock_expected \<Longrightarrow>
    lock_step \<lparr>lock = l, pcs = ps\<rparr> \<lparr>lock = wrlock_desired, pcs = ps[i := Writing]\<rparr>"
| wr_retry: "i < length ps \<Longrightarrow> ps ! i = WrTry \<Longrightarrow>
    lock_step \<lparr>lock = l, pcs = ps\<rparr> \<lparr>lock = l, pcs = ps\<rparr>"
| wr_unlock: "i < length ps \<Longrightarrow> ps ! i = Writing \<Longrightarrow>
    lock_step \<lparr>lock = l, pcs = ps\<rparr> \<lparr>lock = wrunlock l, pcs = ps[i := Idle]\<rparr>"

inductive_cases lock_stepE: "lock_step s s'"

definition lock_start :: "nat \<Rightarrow> lock_state" where
  "lock_start n = \<lparr>lock = spin_rwlock_init, pcs = replicate n Idle\<rparr>"

section \<open>The invariant\<close>

abbreviation readers :: "lock_state \<Rightarrow> nat" where "readers s \<equiv> count_list (pcs s) Reading"
abbreviation writers :: "lock_state \<Rightarrow> nat" where "writers s \<equiv> count_list (pcs s) Writing"

text \<open>
  The low bits count the readers and the top bit the writers; there is at most one writer, and none
  beside a reader. A value loaded for a compare-exchange has the writer bit cleared.
\<close>

definition lock_inv :: "nat \<Rightarrow> lock_state \<Rightarrow> bool" where
  "lock_inv n s \<longleftrightarrow> length (pcs s) = n \<and>
     unat (lock s) = readers s + 2 ^ 31 * writers s \<and>
     (writers s = 0 \<or> writers s = 1 \<and> readers s = 0) \<and>
     (\<forall>e. RdTry e \<in> set (pcs s) \<longrightarrow> unat e < 2 ^ 31)"

lemma count_list_update:
  "i < length xs \<Longrightarrow>
     count_list (xs[i := y]) x + (if xs ! i = x then 1 else 0) = count_list xs x + (if y = x then 1 else 0)"
proof (induction xs arbitrary: i)
  case (Cons a xs)
  show ?case
  proof (cases i)
    case (Suc j)
    then show ?thesis using Cons.IH [of j] Cons.prems by auto
  qed auto
qed simp

lemma count_list_bound: "count_list xs x \<le> length xs"
  by (induction xs) auto

lemma count_list_pos: "i < length xs \<Longrightarrow> xs ! i = x \<Longrightarrow> 0 < count_list xs x"
  using count_list_0_iff [of xs x] nth_mem [of i xs] by auto

lemma count_list_less: "i < length xs \<Longrightarrow> xs ! i \<noteq> x \<Longrightarrow> count_list xs x < length xs"
  using count_list_update [of i xs x x] count_list_bound [of "xs[i := x]" x] by simp

lemma reader_mask_small: "unat (rdlock_expected l) < 2 ^ 31"
proof -
  have "l AND READER_MASK \<le> READER_MASK" by (rule word_and_le1)
  then show ?thesis by (simp add: rdlock_expected_def READER_MASK_def word_le_nat_alt)
qed

lemma unlock_writer: "unat l = 2 ^ 31 \<Longrightarrow> wrunlock l = 0"
proof -
  assume "unat l = 2 ^ 31"
  then have "l = 0x80000000" by (simp add: word_unat_eq_iff)
  then show ?thesis by (simp add: wrunlock_def READER_MASK_def)
qed

lemma lock_inv_start: "lock_inv n (lock_start n)"
  by (auto simp: lock_inv_def lock_start_def spin_rwlock_init_def count_list_0_iff)

lemma try_update:
  "RdTry e \<in> set (ps[i := p]) \<Longrightarrow> p = RdTry e \<or> RdTry e \<in> set ps"
  using set_update_subset_insert [of ps i p] by auto

lemma lock_inv_step:
  assumes "lock_step s s'" "lock_inv n s" "n < 2 ^ 31"
  shows "lock_inv n s'"
  using assms(1)
proof (cases rule: lock_step.cases)
  case (rd_begin i ps l)
  then show ?thesis
    using assms(2) count_list_update [of i ps RdLoad Reading] count_list_update [of i ps RdLoad Writing]
    by (auto simp: lock_inv_def dest: try_update)
next
  case (rd_load i ps l)
  then show ?thesis
    using assms(2) count_list_update [of i ps "RdTry (rdlock_expected l)" Reading]
      count_list_update [of i ps "RdTry (rdlock_expected l)" Writing] reader_mask_small [of l]
    by (auto simp: lock_inv_def dest: try_update)
next
  case (rd_cas i ps e l)
  have "unat e < 2 ^ 31"
    using assms(2) rd_cas nth_mem [of i ps] by (auto simp: lock_inv_def)
  moreover have "count_list ps Reading < 2 ^ 31 - 1"
    using count_list_less [of i ps Reading] rd_cas assms(2,3) by (auto simp: lock_inv_def)
  ultimately show ?thesis
    using assms(2) rd_cas count_list_update [of i ps Reading Reading]
      count_list_update [of i ps Reading Writing]
    by (auto simp: lock_inv_def rdlock_desired_def unat_word_ariths dest: try_update)
next
  case (rd_retry i ps e l)
  then show ?thesis
    using assms(2) count_list_update [of i ps RdLoad Reading] count_list_update [of i ps RdLoad Writing]
    by (auto simp: lock_inv_def dest: try_update)
next
  case (rd_unlock i ps l)
  then have "0 < count_list ps Reading" by (intro count_list_pos)
  moreover have "unat (l - 1) = unat l - 1" if "0 < unat l"
    using that by (simp add: unat_sub word_le_nat_alt)
  ultimately show ?thesis
    using assms(2) rd_unlock count_list_update [of i ps Idle Reading]
      count_list_update [of i ps Idle Writing]
    by (auto simp: lock_inv_def rdunlock_def dest: try_update)
next
  case (wr_begin i ps l)
  then show ?thesis
    using assms(2) count_list_update [of i ps WrTry Reading] count_list_update [of i ps WrTry Writing]
    by (auto simp: lock_inv_def dest: try_update)
next
  case (wr_cas i ps l)
  then show ?thesis
    using assms(2) count_list_update [of i ps Writing Reading]
      count_list_update [of i ps Writing Writing]
    by (auto simp: lock_inv_def wrlock_expected_def wrlock_desired_def WRITER_MASK_def dest: try_update)
next
  case (wr_retry i ps l)
  then show ?thesis using assms(2) by simp
next
  case (wr_unlock i ps l)
  then have "0 < count_list ps Writing" by (intro count_list_pos)
  then have "count_list ps Writing = 1" "count_list ps Reading = 0" "unat l = 2 ^ 31"
    using assms(2) wr_unlock by (auto simp: lock_inv_def)
  then show ?thesis
    using assms(2) wr_unlock count_list_update [of i ps Idle Reading]
      count_list_update [of i ps Idle Writing]
    by (auto simp: lock_inv_def unlock_writer dest: try_update)
qed

lemma lock_inv_reachable:
  assumes "lock_step\<^sup>*\<^sup>* (lock_start n) s" "n < 2 ^ 31"
  shows "lock_inv n s"
  using assms(1) by (induction rule: rtranclp_induct) (auto intro: lock_inv_start lock_inv_step assms(2))

lemma two_writers:
  assumes "i < length ps" "j < length ps" "i \<noteq> j" "ps ! i = Writing" "ps ! j = Writing"
  shows "2 \<le> count_list ps Writing"
  using count_list_update [of i ps Idle Writing] count_list_pos [of j "ps[i := Idle]" Writing] assms
  by simp

text \<open>Two runs: a writer that holds the lock while another waits, and a reader beside it.\<close>

lemma writer_run: "lock_step\<^sup>*\<^sup>* (lock_start 2) \<lparr>lock = WRITER_MASK, pcs = [Writing, WrTry]\<rparr>"
proof -
  have one: "lock_step (lock_start 2) \<lparr>lock = 0, pcs = [WrTry, Idle]\<rparr>"
    using wr_begin [of 0 "[Idle, Idle]" 0]
    by (simp add: lock_start_def spin_rwlock_init_def numeral_2_eq_2)
  have two: "lock_step \<lparr>lock = 0, pcs = [WrTry, Idle]\<rparr> \<lparr>lock = 0, pcs = [WrTry, WrTry]\<rparr>"
    using wr_begin [of 1 "[WrTry, Idle]" 0] by simp
  have three: "lock_step \<lparr>lock = 0, pcs = [WrTry, WrTry]\<rparr> \<lparr>lock = WRITER_MASK, pcs = [Writing, WrTry]\<rparr>"
    using wr_cas [of 0 "[WrTry, WrTry]" 0] by (simp add: wrlock_expected_def wrlock_desired_def)
  from one two three show ?thesis by (meson converse_rtranclp_into_rtranclp rtranclp.rtrancl_refl)
qed

lemma reader_run: "lock_step\<^sup>*\<^sup>* (lock_start 1) \<lparr>lock = 1, pcs = [Reading]\<rparr>"
proof -
  have one: "lock_step (lock_start 1) \<lparr>lock = 0, pcs = [RdLoad]\<rparr>"
    using rd_begin [of 0 "[Idle]" 0] by (simp add: lock_start_def spin_rwlock_init_def)
  have two: "lock_step \<lparr>lock = 0, pcs = [RdLoad]\<rparr> \<lparr>lock = 0, pcs = [RdTry 0]\<rparr>"
    using rd_load [of 0 "[RdLoad]" 0] by (simp add: rdlock_expected_def)
  have three: "lock_step \<lparr>lock = 0, pcs = [RdTry 0]\<rparr> \<lparr>lock = 1, pcs = [Reading]\<rparr>"
    using rd_cas [of 0 "[RdTry 0]" 0 0] by (simp add: rdlock_desired_def)
  from one two three show ?thesis by (meson converse_rtranclp_into_rtranclp rtranclp.rtrancl_refl)
qed

text \<open>
  C29: in every interleaving of fewer than \<open>2 ^ 31\<close> threads that take the lock as readers and writers, a
  thread that holds it for writing is alone: no other thread reads or writes at the same time.
\<close>

theorem spin_rwlock_exclusive:
  assumes "lock_step\<^sup>*\<^sup>* (lock_start n) s" "n < 2 ^ 31"
    and "i < n" "j < n" "i \<noteq> j" "pcs s ! i = Writing"
  shows "pcs s ! j \<noteq> Reading \<and> pcs s ! j \<noteq> Writing"
proof -
  have inv: "lock_inv n s" by (rule lock_inv_reachable [OF assms(1,2)])
  then have len: "length (pcs s) = n" by (simp add: lock_inv_def)
  then have "0 < writers s" using assms(3,6) by (intro count_list_pos) auto
  then have one: "writers s = 1" "readers s = 0" using inv by (auto simp: lock_inv_def)
  show ?thesis
    using count_list_pos [of j "pcs s" Reading] two_writers [of i "pcs s" j]
      assms(3-6) one len by auto
qed

theorem spin_rwlock_exclusive_witness:
  "lock_step\<^sup>*\<^sup>* (lock_start 2) \<lparr>lock = WRITER_MASK, pcs = [Writing, WrTry]\<rparr> \<and>
   [Writing, WrTry] ! 1 \<noteq> Reading"
proof -
  have "lock_step\<^sup>*\<^sup>* (lock_start 2) \<lparr>lock = WRITER_MASK, pcs = [Writing, WrTry]\<rparr>"
    by (rule writer_run)
  then show ?thesis
    using spin_rwlock_exclusive [of 2 _ 0 1] by fastforce
qed

text \<open>
  The word always tells who holds the lock: the number of readers, plus \<open>2 ^ 31\<close> for a writer. So
  when nobody holds it the word is \<open>0\<close>, the next compare-exchange of any waiting writer or freshly loaded
  reader can succeed, and the lock is not lost.
\<close>

theorem spin_rwlock_word:
  assumes "lock_step\<^sup>*\<^sup>* (lock_start n) s" "n < 2 ^ 31"
  shows "unat (lock s) = readers s + 2 ^ 31 * writers s"
  using lock_inv_reachable [OF assms] by (simp add: lock_inv_def)

theorem spin_rwlock_word_witness:
  "unat (lock \<lparr>lock = 1, pcs = [Reading]\<rparr>) =
     readers \<lparr>lock = 1, pcs = [Reading]\<rparr> + 2 ^ 31 * writers \<lparr>lock = 1, pcs = [Reading]\<rparr>"
  by (rule spin_rwlock_word [OF reader_run]) simp

end
