(* ===== verification/Simd.thy ===== *)
theory Simd
  imports Sha256_X1
begin

text \<open>
  The SSE registers and intrinsics the four-lane hash functions use, and
  \<open>src/sha256/x4/impl_common.h\<close> on top of them. A register has four 32-bit lanes, the first in the
  low bytes. \<open>vec4 f\<close> is the register with lane \<open>l\<close> equal to \<open>f l\<close>: on registers of this form every
  intrinsic acts lane by lane, and so do the functions of the code.
\<close>

section \<open>Registers and intrinsics\<close>

datatype m128 = M128 (lane0: u32) (lane1: u32) (lane2: u32) (lane3: u32)

fun lift1 :: "(u32 \<Rightarrow> u32) \<Rightarrow> m128 \<Rightarrow> m128" where
  "lift1 f (M128 a b c d) = M128 (f a) (f b) (f c) (f d)"

fun lift2 :: "(u32 \<Rightarrow> u32 \<Rightarrow> u32) \<Rightarrow> m128 \<Rightarrow> m128 \<Rightarrow> m128" where
  "lift2 f (M128 a b c d) (M128 a' b' c' d') = M128 (f a a') (f b b') (f c c') (f d d')"

definition mm_add_epi32 :: "m128 \<Rightarrow> m128 \<Rightarrow> m128" where "mm_add_epi32 = lift2 (+)"
definition mm_and :: "m128 \<Rightarrow> m128 \<Rightarrow> m128" where "mm_and = lift2 (AND)"
definition mm_andnot :: "m128 \<Rightarrow> m128 \<Rightarrow> m128" where "mm_andnot = lift2 (\<lambda>x y. NOT x AND y)"
definition mm_or :: "m128 \<Rightarrow> m128 \<Rightarrow> m128" where "mm_or = lift2 (OR)"
definition mm_xor :: "m128 \<Rightarrow> m128 \<Rightarrow> m128" where "mm_xor = lift2 (XOR)"
definition mm_srli_epi32 :: "m128 \<Rightarrow> nat \<Rightarrow> m128" where "mm_srli_epi32 x n = lift1 (drop_bit n) x"
definition mm_slli_epi32 :: "m128 \<Rightarrow> nat \<Rightarrow> m128" where "mm_slli_epi32 x n = lift1 (push_bit n) x"
definition mm_set1_epi32 :: "u32 \<Rightarrow> m128" where "mm_set1_epi32 c = M128 c c c c"

definition mm_cmpeq_epi32 :: "m128 \<Rightarrow> m128 \<Rightarrow> m128" where
  "mm_cmpeq_epi32 = lift2 (\<lambda>x y. if x = y then - 1 else 0)"

fun mm_unpacklo_epi32 :: "m128 \<Rightarrow> m128 \<Rightarrow> m128" where
  "mm_unpacklo_epi32 (M128 a0 a1 a2 a3) (M128 b0 b1 b2 b3) = M128 a0 b0 a1 b1"

fun mm_unpackhi_epi32 :: "m128 \<Rightarrow> m128 \<Rightarrow> m128" where
  "mm_unpackhi_epi32 (M128 a0 a1 a2 a3) (M128 b0 b1 b2 b3) = M128 a2 b2 a3 b3"

fun mm_movelh_ps :: "m128 \<Rightarrow> m128 \<Rightarrow> m128" where
  "mm_movelh_ps (M128 a0 a1 a2 a3) (M128 b0 b1 b2 b3) = M128 a0 a1 b0 b1"

fun mm_movehl_ps :: "m128 \<Rightarrow> m128 \<Rightarrow> m128" where
  "mm_movehl_ps (M128 a0 a1 a2 a3) (M128 b0 b1 b2 b3) = M128 b2 b3 a2 a3"

fun lanes :: "m128 \<Rightarrow> u32 list" where
  "lanes (M128 a b c d) = [a, b, c, d]"

text \<open>Each two-bit field of the immediate selects a source lane.\<close>

definition mm_shuffle_epi32 :: "m128 \<Rightarrow> nat \<Rightarrow> m128" where
  "mm_shuffle_epi32 x imm =
     (let sel = (\<lambda>i. lanes x ! (imm div 4 ^ i mod 4)) in M128 (sel 0) (sel 1) (sel 2) (sel 3))"

text \<open>Registers in memory: sixteen bytes.\<close>

definition m128_bytes :: "m128 \<Rightarrow> u8 list" where
  "m128_bytes x = concat (map le32_bytes (lanes x))"

definition mm_load :: "u8 list \<Rightarrow> nat \<Rightarrow> m128" where
  "mm_load d off =
     (let w = (\<lambda>i. load32 (drop off d) i) in M128 (w 0) (w 1) (w 2) (w 3))"

definition mm_shuffle_epi8 :: "m128 \<Rightarrow> nat list \<Rightarrow> m128" where
  "mm_shuffle_epi8 x msk =
     mm_load (map (\<lambda>m. if 128 \<le> m then 0 else m128_bytes x ! (m mod 16)) msk) 0"

section \<open>Lane-wise registers\<close>

definition vec4 :: "(nat \<Rightarrow> u32) \<Rightarrow> m128" where
  "vec4 f = M128 (f 0) (f 1) (f 2) (f 3)"

named_theorems lane_wise \<open>intrinsics and code functions on lane-wise registers\<close>

lemma mm_lanes [lane_wise]:
  "mm_add_epi32 (vec4 f) (vec4 g) = vec4 (\<lambda>l. f l + g l)"
  "mm_and (vec4 f) (vec4 g) = vec4 (\<lambda>l. f l AND g l)"
  "mm_andnot (vec4 f) (vec4 g) = vec4 (\<lambda>l. NOT (f l) AND g l)"
  "mm_or (vec4 f) (vec4 g) = vec4 (\<lambda>l. f l OR g l)"
  "mm_xor (vec4 f) (vec4 g) = vec4 (\<lambda>l. f l XOR g l)"
  "mm_srli_epi32 (vec4 f) n = vec4 (\<lambda>l. drop_bit n (f l))"
  "mm_slli_epi32 (vec4 f) n = vec4 (\<lambda>l. push_bit n (f l))"
  "mm_set1_epi32 c = vec4 (\<lambda>_. c)"
  "mm_cmpeq_epi32 (vec4 f) (vec4 g) = vec4 (\<lambda>l. if f l = g l then - 1 else 0)"
  by (simp_all add: vec4_def mm_add_epi32_def mm_and_def mm_andnot_def mm_or_def mm_xor_def
      mm_srli_epi32_def mm_slli_epi32_def mm_set1_epi32_def mm_cmpeq_epi32_def)

lemma vec4_cong: "(\<And>l. l < 4 \<Longrightarrow> f l = g l) \<Longrightarrow> vec4 f = vec4 g"
  by (simp add: vec4_def)

section \<open>x4/impl\_common.h\<close>

definition H_x4 :: "u32 list" where
  "H_x4 = [0x6a09e667, 0xbb67ae85, 0x3c6ef372, 0xa54ff53a, 0x510e527f, 0x9b05688c, 0x1f83d9ab, 0x5be0cd19]"

text \<open>\<open>BROADCAST_SS(k[i])\<close>, with the table of the file, which is that of \<open>x1/impl_common.h\<close>.\<close>

definition broadcast_k :: "nat \<Rightarrow> m128" where
  "broadcast_k i = mm_set1_epi32 (k_table ! i)"

definition rotr_x4 :: "m128 \<Rightarrow> nat \<Rightarrow> m128" where
  "rotr_x4 x n = mm_or (mm_srli_epi32 x n) (mm_slli_epi32 x (32 - n))"

definition s0_x4 :: "m128 \<Rightarrow> m128" where
  "s0_x4 w = (let t1 = rotr_x4 w 18; t2 = mm_srli_epi32 w 3; t0 = rotr_x4 w 7
     in mm_xor t0 (mm_xor t1 t2))"

definition s1_x4 :: "m128 \<Rightarrow> m128" where
  "s1_x4 w = (let t1 = rotr_x4 w 19; t2 = mm_srli_epi32 w 10; t0 = rotr_x4 w 17
     in mm_xor t0 (mm_xor t1 t2))"

definition S0_x4 :: "m128 \<Rightarrow> m128" where
  "S0_x4 a = mm_xor (rotr_x4 a 2) (mm_xor (rotr_x4 a 13) (rotr_x4 a 22))"

definition S1_x4 :: "m128 \<Rightarrow> m128" where
  "S1_x4 e = mm_xor (rotr_x4 e 6) (mm_xor (rotr_x4 e 11) (rotr_x4 e 25))"

definition ch_x4 :: "m128 \<Rightarrow> m128 \<Rightarrow> m128 \<Rightarrow> m128" where
  "ch_x4 e f g = mm_xor (mm_and e f) (mm_andnot e g)"

definition maj_x4 :: "m128 \<Rightarrow> m128 \<Rightarrow> m128 \<Rightarrow> m128" where
  "maj_x4 a b c = mm_xor (mm_and a b) (mm_xor (mm_and a c) (mm_and b c))"

definition byteswap_mask :: "nat list" where
  "byteswap_mask = [3, 2, 1, 0, 7, 6, 5, 4, 11, 10, 9, 8, 15, 14, 13, 12]"

definition x80000000 :: m128 where "x80000000 = mm_set1_epi32 0x80000000"
definition d64 :: m128 where "d64 = mm_set1_epi32 64"

type_synonym regs4 = "m128 \<times> m128 \<times> m128 \<times> m128 \<times> m128 \<times> m128 \<times> m128 \<times> m128"

text \<open>\<open>COMPRESS_ROUND\<close>; the loops over \<open>k[i]\<close> without a data word add \<open>h\<close> and \<open>ki\<close> alone.\<close>

fun compress_round :: "m128 \<Rightarrow> nat \<Rightarrow> regs4 \<Rightarrow> regs4" where
  "compress_round w i (a, b, c, d, e, f, g, h) =
    (let ki = broadcast_k i;
         temp2 = mm_add_epi32 (S0_x4 a) (maj_x4 a b c);
         temp1 = mm_add_epi32 (mm_add_epi32 (S1_x4 e) (ch_x4 e f g))
                   (mm_add_epi32 h (mm_add_epi32 ki w));
         h = g; g = f; f = e; e = mm_add_epi32 d temp1; d = c; c = b; b = a;
         a = mm_add_epi32 temp1 temp2
     in (a, b, c, d, e, f, g, h))"

fun compress_round_zero :: "nat \<Rightarrow> regs4 \<Rightarrow> regs4" where
  "compress_round_zero i (a, b, c, d, e, f, g, h) =
    (let ki = broadcast_k i;
         temp2 = mm_add_epi32 (S0_x4 a) (maj_x4 a b c);
         temp1 = mm_add_epi32 (mm_add_epi32 (S1_x4 e) (ch_x4 e f g)) (mm_add_epi32 h ki);
         h = g; g = f; f = e; e = mm_add_epi32 d temp1; d = c; c = b; b = a;
         a = mm_add_epi32 temp1 temp2
     in (a, b, c, d, e, f, g, h))"

lemma rotr_x4_lanes [lane_wise]: "rotr_x4 (vec4 f) n = vec4 (\<lambda>l. rotr (f l) n)"
  by (simp add: rotr_x4_def rotr_def lane_wise)

lemma functions_x4_lanes [lane_wise]:
  "s0_x4 (vec4 f) = vec4 (\<lambda>l. sigma0 (f l))"
  "s1_x4 (vec4 f) = vec4 (\<lambda>l. sigma1 (f l))"
  "S0_x4 (vec4 f) = vec4 (\<lambda>l. Sigma0 (f l))"
  "S1_x4 (vec4 f) = vec4 (\<lambda>l. Sigma1 (f l))"
  "ch_x4 (vec4 f) (vec4 g) (vec4 h) = vec4 (\<lambda>l. Ch (f l) (g l) (h l))"
  "maj_x4 (vec4 f) (vec4 g) (vec4 h) = vec4 (\<lambda>l. Maj (f l) (g l) (h l))"
  "broadcast_k i = vec4 (\<lambda>_. K ! i)"
  "x80000000 = vec4 (\<lambda>_. 0x80000000)" "d64 = vec4 (\<lambda>_. 64)"
  by (simp_all add: lane_wise Let_def s0_x4_def s1_x4_def S0_x4_def S1_x4_def ch_x4_def maj_x4_def
      broadcast_k_def k_table_K x80000000_def d64_def sigma0_def sigma1_def Sigma0_def Sigma1_def
      Ch_def Maj_def rotr_word_rotr ac_simps)

text \<open>The registers of four states.\<close>

definition vregs :: "(nat \<Rightarrow> regs) \<Rightarrow> regs4" where
  "vregs R =
     (vec4 (\<lambda>l. regs_list (R l) ! 0), vec4 (\<lambda>l. regs_list (R l) ! 1), vec4 (\<lambda>l. regs_list (R l) ! 2),
      vec4 (\<lambda>l. regs_list (R l) ! 3), vec4 (\<lambda>l. regs_list (R l) ! 4), vec4 (\<lambda>l. regs_list (R l) ! 5),
      vec4 (\<lambda>l. regs_list (R l) ! 6), vec4 (\<lambda>l. regs_list (R l) ! 7))"

lemma regs_cases: "\<exists>a b c d e f g h. R = (\<lambda>l. (a l, b l, c l, d l, e l, f l, g l, h l) :: regs)"
proof -
  have "R = (\<lambda>l. (fst (R l), fst (snd (R l)), fst (snd (snd (R l))), fst (snd (snd (snd (R l)))),
      fst (snd (snd (snd (snd (R l))))), fst (snd (snd (snd (snd (snd (R l)))))),
      fst (snd (snd (snd (snd (snd (snd (R l))))))), snd (snd (snd (snd (snd (snd (snd (R l)))))))))"
    by simp
  then show ?thesis
    by (intro exI)
qed

lemma compress_round_lanes:
  "compress_round (vec4 w) i (vregs R) = vregs (\<lambda>l. fips_round (K ! i) (w l) (R l))"
  "compress_round_zero i (vregs R) = vregs (\<lambda>l. fips_round (K ! i) 0 (R l))"
proof -
  obtain a b c d e f g h where R: "R = (\<lambda>l. (a l, b l, c l, d l, e l, f l, g l, h l))"
    using regs_cases [of R] by blast
  show "compress_round (vec4 w) i (vregs R) = vregs (\<lambda>l. fips_round (K ! i) (w l) (R l))"
    by (simp add: vregs_def R lane_wise Let_def ac_simps)
  show "compress_round_zero i (vregs R) = vregs (\<lambda>l. fips_round (K ! i) 0 (R l))"
    by (simp add: vregs_def R lane_wise Let_def ac_simps)
qed

end
