(* ===== verification/X4_Schedule.thy ===== *)
theory X4_Schedule
  imports Simd
begin

text \<open>
  What the four-lane hash functions of \<open>src/sha256/x4\<close> share: loading the initial state, interleaving
  the four messages, the entries 16 to 31 of the message schedule of such a block, the step that
  makes a further entry, and the transposition of the result. The files differ in where an entry
  is stored (an array of 64, 48 or 16 registers) and in whether the round is done at once; \<open>put\<close> and \<open>ld\<close>
  stand for that, and the locale \<open>entry_store\<close> states what a file's pair has to satisfy.
\<close>

section \<open>Initial state, messages, result\<close>

definition mm_load32 :: "u32 list \<Rightarrow> nat \<Rightarrow> m128" where
  "mm_load32 ws i = M128 (ws ! i) (ws ! (i + 1)) (ws ! (i + 2)) (ws ! (i + 3))"

definition initial_x4 :: regs4 where
  "initial_x4 =
    (let h0 = mm_load32 H_x4 0; h1 = mm_load32 H_x4 4;
         a = mm_shuffle_epi32 h0 0x00; b = mm_shuffle_epi32 h0 0x55;
         c = mm_shuffle_epi32 h0 0xAA; d = mm_shuffle_epi32 h0 0xFF;
         e = mm_shuffle_epi32 h1 0x00; f = mm_shuffle_epi32 h1 0x55;
         g = mm_shuffle_epi32 h1 0xAA; h = mm_shuffle_epi32 h1 0xFF
     in (a, b, c, d, e, f, g, h))"

definition interleave_x4 :: "u8 list \<Rightarrow> m128 \<times> m128" where
  "interleave_x4 data =
    (let l0 = mm_load data 0; l1 = mm_load data 16;
         h0 = mm_shuffle_epi8 l0 byteswap_mask; h1 = mm_shuffle_epi8 l1 byteswap_mask;
         lo = mm_unpacklo_epi32 h0 h1; hi = mm_unpackhi_epi32 h0 h1;
         w0 = mm_unpacklo_epi32 lo hi; w1 = mm_unpackhi_epi32 lo hi
     in (w0, w1))"

definition transpose_half :: "m128 \<Rightarrow> m128 \<Rightarrow> m128 \<Rightarrow> m128 \<Rightarrow> m128 \<times> m128 \<times> m128 \<times> m128" where
  "transpose_half a b c d =
    (let tmp0 = mm_unpacklo_epi32 a b; tmp1 = mm_unpackhi_epi32 a b;
         tmp2 = mm_unpacklo_epi32 c d; tmp3 = mm_unpackhi_epi32 c d;
         a = mm_movelh_ps tmp0 tmp2; b = mm_movehl_ps tmp2 tmp0;
         c = mm_movelh_ps tmp1 tmp3; d = mm_movehl_ps tmp3 tmp1
     in (a, b, c, d))"

fun store_x4 :: "regs4 \<Rightarrow> u8 list" where
  "store_x4 (a, b, c, d, e, f, g, h) =
    (let (a, b, c, d) = transpose_half a b c d;
         (e, f, g, h) = transpose_half e f g h
     in concat (map m128_bytes [a, e, b, f, c, g, d, h]))"

text \<open>The four messages, the schedule of their blocks, and the state after \<open>n\<close> rounds, lane by lane.\<close>

definition lane_w0 :: "u8 list \<Rightarrow> nat \<Rightarrow> u32" where
  "lane_w0 data l = data_w0 (drop (8 * l) data)"

definition lane_w1 :: "u8 list \<Rightarrow> nat \<Rightarrow> u32" where
  "lane_w1 data l = data_w1 (drop (8 * l) data)"

definition V4 :: "(nat \<Rightarrow> u32) \<Rightarrow> (nat \<Rightarrow> u32) \<Rightarrow> nat \<Rightarrow> m128" where
  "V4 P Q j = vec4 (\<lambda>l. W8 (P l) (Q l) j)"

definition R4 :: "(nat \<Rightarrow> u32) \<Rightarrow> (nat \<Rightarrow> u32) \<Rightarrow> nat \<Rightarrow> regs4" where
  "R4 P Q n = vregs (\<lambda>l. rounds (schedule (block8 (P l) (Q l))) n (regs_of H0))"

lemma initial_x4_R4: "initial_x4 = R4 P Q 0"
  by (simp add: initial_x4_def R4_def vregs_def regs_of_def vec4_def mm_shuffle_epi32_def
      mm_load32_def H_x4_def H0_def Let_def)

lemma le32_bytes_le32: "le32_bytes (le32 b0 b1 b2 b3) = [b0, b1, b2, b3]"
  by (auto simp: le32_bytes_def intro!: bit_word_eqI simp: bit_simps)

lemma le32_of_bytes: "le32 (byte_of w 0) (byte_of w (Suc 0)) (byte_of w 2) (byte_of w 3) = w"
  by (rule bit_word_eqI) (auto simp: bit_simps)

lemma byteswap_lanes:
  "mm_shuffle_epi8 (M128 a b c d) byteswap_mask = M128 (bswap32 a) (bswap32 b) (bswap32 c) (bswap32 d)"
  by (simp add: mm_shuffle_epi8_def byteswap_mask_def m128_bytes_def le32_bytes_def mm_load_def
      load32_def bswap32_def)

lemma interleave_x4_V4:
  assumes "length data = 32"
  shows "interleave_x4 data = (V4 (lane_w0 data) (lane_w1 data) 0, V4 (lane_w0 data) (lane_w1 data) 1)"
  using assms
  by (simp add: interleave_x4_def mm_load_def byteswap_lanes Let_def V4_def vec4_def lane_w0_def
      lane_w1_def data_w0_def data_w1_def load32_def add.commute)

lemma transpose_half_vec4:
  "transpose_half (vec4 a) (vec4 b) (vec4 c) (vec4 d) =
     (M128 (a 0) (b 0) (c 0) (d 0), M128 (a 1) (b 1) (c 1) (d 1),
      M128 (a 2) (b 2) (c 2) (d 2), M128 (a 3) (b 3) (c 3) (d 3))"
  by (simp add: transpose_half_def vec4_def)

lemma store_x4_vregs:
  "store_x4 (vregs R) = concat (map (\<lambda>l. store_digest (R l)) [0, 1, 2, 3])"
proof -
  obtain a b c d e f g h where R: "R = (\<lambda>l. (a l, b l, c l, d l, e l, f l, g l, h l))"
    using regs_cases [of R] by blast
  show ?thesis
    by (simp add: R vregs_def store_x4.simps transpose_half_vec4 m128_bytes_def store_digest_def)
qed

declare store_x4.simps [simp del]

lemma store_x4_digest:
  "store_x4 (R4 (lane_w0 data) (lane_w1 data) 64) =
     concat (map (\<lambda>l. store_digest (data_digest (drop (8 * l) data))) [0, 1, 2, 3])"
  by (simp add: R4_def store_x4_vregs data_digest_def digest8_def lane_w0_def lane_w1_def)

lemma compress_round_V4 [simp]: "compress_round (V4 P Q n) n (R4 P Q n) = R4 P Q (Suc n)"
  by (simp add: V4_def R4_def compress_round_lanes rounds_W8)

lemma compress_round_zero_R4:
  "3 \<le> n \<Longrightarrow> n < 15 \<Longrightarrow> compress_round_zero n (R4 P Q n) = R4 P Q (Suc n)"
proof -
  assume "3 \<le> n" "n < 15"
  then have "fips_round (K ! n) 0 (rounds (schedule (block8 p q)) n s) =
      rounds (schedule (block8 p q)) (Suc n) s" for p q s
    using rounds_W8 [of n p q s] by (simp add: W8_zero)
  then show ?thesis by (simp add: R4_def compress_round_lanes)
qed

lemma zero_rounds_R4: "for_loop 3 15 compress_round_zero (R4 P Q 3) = R4 P Q 15"
  by (rule for_loop_invariant [where P = "\<lambda>n r. r = R4 P Q n"])
    (simp_all add: compress_round_zero_R4)

lemma V4_constants: "x80000000 = V4 P Q 2" "d64 = V4 P Q 15"
  by (simp_all add: V4_def lane_wise)

section \<open>Entries 16 to 31\<close>

text \<open>
  Lines 81 to 120 of \<open>fullyfused_x4.c\<close> and their counterparts. A block computes an entry, stores
  it, and keeps it in \<open>t0\<close> or \<open>t1\<close>, in turn.
\<close>

definition entries_16_22 :: "(nat \<Rightarrow> m128 \<Rightarrow> 's \<Rightarrow> 's) \<Rightarrow> m128 \<Rightarrow> m128 \<Rightarrow> 's \<times> m128 \<times> m128
    \<Rightarrow> 's \<times> m128 \<times> m128" where
  "entries_16_22 put c80 c64 = (\<lambda>(st, t0, t1).
     let w16 = mm_add_epi32 t0 (s0_x4 t1);
         st = put 16 w16 st; t0 = w16;
         w17 = mm_add_epi32 t1 (mm_add_epi32 (s0_x4 c80) (s1_x4 c64));
         st = put 17 w17 st; t1 = w17;
         w18 = mm_add_epi32 c80 (s1_x4 t0);
         st = put 18 w18 st; t0 = w18;
         w19 = s1_x4 t1;
         st = put 19 w19 st; t1 = w19;
         w20 = s1_x4 t0;
         st = put 20 w20 st; t0 = w20;
         w21 = s1_x4 t1;
         st = put 21 w21 st; t1 = w21;
         w22 = mm_add_epi32 c64 (s1_x4 t0);
         st = put 22 w22 st; t0 = w22
     in (st, t0, t1))"

text \<open>Lines 122 to 181 of \<open>fullyfused_x4.c\<close>: \<open>l0\<close> and \<open>l1\<close> hold loaded entries, in turn.\<close>

definition entries_23_31 :: "(nat \<Rightarrow> m128 \<Rightarrow> 's \<Rightarrow> 's) \<Rightarrow> ('s \<Rightarrow> nat \<Rightarrow> m128) \<Rightarrow> m128 \<Rightarrow> 's \<times> m128 \<times> m128
    \<Rightarrow> 's \<times> m128 \<times> m128" where
  "entries_23_31 put ld c64 = (\<lambda>(st, t0, t1).
     let l0 = ld st 16; l1 = ld st 17;
         w23 = mm_add_epi32 l0 (s1_x4 t1);
         st = put 23 w23 st; t1 = w23; l0 = ld st 18;
         w24 = mm_add_epi32 l1 (s1_x4 t0);
         st = put 24 w24 st; t0 = w24; l1 = ld st 19;
         w25 = mm_add_epi32 l0 (s1_x4 t1);
         st = put 25 w25 st; t1 = w25; l0 = ld st 20;
         w26 = mm_add_epi32 l1 (s1_x4 t0);
         st = put 26 w26 st; t0 = w26; l1 = ld st 21;
         w27 = mm_add_epi32 l0 (s1_x4 t1);
         st = put 27 w27 st; t1 = w27; l0 = ld st 22;
         w28 = mm_add_epi32 l1 (s1_x4 t0);
         st = put 28 w28 st; t0 = w28; l1 = ld st 23;
         w29 = mm_add_epi32 l0 (s1_x4 t1);
         st = put 29 w29 st; t1 = w29; l0 = ld st 24;
         w30 = mm_add_epi32 (s0_x4 c64) (mm_add_epi32 l1 (s1_x4 t0));
         st = put 30 w30 st; t0 = w30; l1 = ld st 16;
         w31 = mm_add_epi32 (mm_add_epi32 l0 (s1_x4 t1)) (mm_add_epi32 c64 (s0_x4 l1));
         st = put 31 w31 st; t1 = w31
     in (st, t0, t1))"

text \<open>The body of the loops over the remaining entries; \<open>i\<close> is the number of the entry.\<close>

definition entry_step :: "(nat \<Rightarrow> m128 \<Rightarrow> 's \<Rightarrow> 's) \<Rightarrow> ('s \<Rightarrow> nat \<Rightarrow> m128) \<Rightarrow> nat \<Rightarrow> 's \<times> m128 \<times> m128
    \<Rightarrow> 's \<times> m128 \<times> m128" where
  "entry_step put ld i = (\<lambda>(st, t0, t1).
     let wi16 = ld st (i - 16); wi15 = ld st (i - 15); wi7 = ld st (i - 7); wi2 = t0;
         t0 = t1;
         ws1 = s1_x4 wi2; ws0 = s0_x4 wi15;
         wi = mm_add_epi32 (mm_add_epi32 wi16 wi7) (mm_add_epi32 ws0 ws1);
         st = put i wi st; t1 = wi
     in (st, t0, t1))"

lemma V4_entries:
  "mm_add_epi32 (V4 P Q 0) (s0_x4 (V4 P Q (Suc 0))) = V4 P Q 16"
  "mm_add_epi32 (V4 P Q (Suc 0)) (mm_add_epi32 (s0_x4 (V4 P Q 2)) (s1_x4 (V4 P Q 15))) = V4 P Q 17"
  "mm_add_epi32 (V4 P Q 2) (s1_x4 (V4 P Q 16)) = V4 P Q 18"
  "s1_x4 (V4 P Q 17) = V4 P Q 19" "s1_x4 (V4 P Q 18) = V4 P Q 20" "s1_x4 (V4 P Q 19) = V4 P Q 21"
  "mm_add_epi32 (V4 P Q 15) (s1_x4 (V4 P Q 20)) = V4 P Q 22"
  "mm_add_epi32 (V4 P Q 16) (s1_x4 (V4 P Q 21)) = V4 P Q 23"
  "mm_add_epi32 (V4 P Q 17) (s1_x4 (V4 P Q 22)) = V4 P Q 24"
  "mm_add_epi32 (V4 P Q 18) (s1_x4 (V4 P Q 23)) = V4 P Q 25"
  "mm_add_epi32 (V4 P Q 19) (s1_x4 (V4 P Q 24)) = V4 P Q 26"
  "mm_add_epi32 (V4 P Q 20) (s1_x4 (V4 P Q 25)) = V4 P Q 27"
  "mm_add_epi32 (V4 P Q 21) (s1_x4 (V4 P Q 26)) = V4 P Q 28"
  "mm_add_epi32 (V4 P Q 22) (s1_x4 (V4 P Q 27)) = V4 P Q 29"
  "mm_add_epi32 (s0_x4 (V4 P Q 15)) (mm_add_epi32 (V4 P Q 23) (s1_x4 (V4 P Q 28))) = V4 P Q 30"
  "mm_add_epi32 (mm_add_epi32 (V4 P Q 24) (s1_x4 (V4 P Q 29)))
     (mm_add_epi32 (V4 P Q 15) (s0_x4 (V4 P Q 16))) = V4 P Q 31"
  unfolding V4_def lane_wise
  by (rule vec4_cong, simp add: block8_schedule(1) ac_simps,
    rule vec4_cong, simp add: block8_schedule(2) ac_simps,
    rule vec4_cong, simp add: block8_schedule(3) ac_simps,
    rule vec4_cong, simp add: block8_schedule(4) ac_simps,
    rule vec4_cong, simp add: block8_schedule(5) ac_simps,
    rule vec4_cong, simp add: block8_schedule(6) ac_simps,
    rule vec4_cong, simp add: block8_schedule(7) ac_simps,
    rule vec4_cong, simp add: block8_schedule(8) ac_simps,
    rule vec4_cong, simp add: block8_schedule(9) ac_simps,
    rule vec4_cong, simp add: block8_schedule(10) ac_simps,
    rule vec4_cong, simp add: block8_schedule(11) ac_simps,
    rule vec4_cong, simp add: block8_schedule(12) ac_simps,
    rule vec4_cong, simp add: block8_schedule(13) ac_simps,
    rule vec4_cong, simp add: block8_schedule(14) ac_simps,
    rule vec4_cong, simp add: block8_schedule(15) ac_simps,
    rule vec4_cong, simp add: block8_schedule(16) ac_simps)

lemma V4_step:
  "32 \<le> i \<Longrightarrow> i < 64 \<Longrightarrow>
     mm_add_epi32 (mm_add_epi32 (V4 P Q (i - 16)) (V4 P Q (i - 7)))
       (mm_add_epi32 (s0_x4 (V4 P Q (i - 15))) (s1_x4 (V4 P Q (i - 2)))) = V4 P Q i"
  unfolding V4_def lane_wise
  by (rule vec4_cong) (simp add: W8_step [of i] ac_simps)

section \<open>The contract of a store\<close>

text \<open>
  \<open>ok n st\<close>: the entries below \<open>n\<close> have been put (for a store that does the rounds, the state is
  that of \<open>n\<close> rounds). Only the last sixteen entries have to be readable, and none below 16.
\<close>

locale entry_store =
  fixes put :: "nat \<Rightarrow> m128 \<Rightarrow> 's \<Rightarrow> 's" and ld :: "'s \<Rightarrow> nat \<Rightarrow> m128"
    and ok :: "nat \<Rightarrow> 's \<Rightarrow> bool" and P Q :: "nat \<Rightarrow> u32"
  assumes put_ok: "16 \<le> n \<Longrightarrow> n < 64 \<Longrightarrow> ok n st \<Longrightarrow> ok (Suc n) (put n (V4 P Q n) st)"
    and ld_ok: "ok n st \<Longrightarrow> 16 \<le> j \<Longrightarrow> j < n \<Longrightarrow> n \<le> j + 16 \<Longrightarrow> ld st j = V4 P Q j"
begin

definition filled :: "nat \<Rightarrow> 's \<Rightarrow> 's" where
  "filled n st = fold (\<lambda>j. put j (V4 P Q j)) [16..<n] st"

lemma filled_16: "filled 16 st = st"
  by (simp add: filled_def)

lemma filled_put: "16 \<le> n \<Longrightarrow> put n (V4 P Q n) (filled n st) = filled (Suc n) st"
  by (simp add: filled_def)

lemma filled_ok: "16 \<le> n \<Longrightarrow> n \<le> 64 \<Longrightarrow> ok 16 st \<Longrightarrow> ok n (filled n st)"
proof (induction rule: dec_induct)
  case base
  then show ?case by (simp add: filled_16)
next
  case (step n)
  then show ?case using put_ok [of n "filled n st"] by (simp add: filled_put)
qed

lemma filled_ld:
  "ok 16 st \<Longrightarrow> 16 \<le> j \<Longrightarrow> j < n \<Longrightarrow> n \<le> j + 16 \<Longrightarrow> n \<le> 64 \<Longrightarrow> ld (filled n st) j = V4 P Q j"
  by (rule ld_ok [OF filled_ok]) simp_all

lemma entries_16_22_filled:
  "entries_16_22 put (V4 P Q 2) (V4 P Q 15) (filled 16 st, V4 P Q 0, V4 P Q 1) =
     (filled 23 st, V4 P Q 22, V4 P Q 21)"
  by (simp add: entries_16_22_def Let_def V4_entries filled_put)

lemma entries_23_31_filled:
  "ok 16 st \<Longrightarrow> entries_23_31 put ld (V4 P Q 15) (filled 23 st, V4 P Q 22, V4 P Q 21) =
     (filled 32 st, V4 P Q 30, V4 P Q 31)"
  by (simp add: entries_23_31_def Let_def V4_entries filled_put filled_ld)

lemma entry_step_filled:
  "ok 16 st \<Longrightarrow> 32 \<le> i \<Longrightarrow> i < 64 \<Longrightarrow>
     entry_step put ld i (filled i st, V4 P Q (i - 2), V4 P Q (i - 1)) =
       (filled (Suc i) st, V4 P Q (i - 1), V4 P Q i)"
  by (simp add: entry_step_def Let_def V4_step filled_put filled_ld)

lemma entry_step_ok:
  "ok i st \<Longrightarrow> 32 \<le> i \<Longrightarrow> i < 64 \<Longrightarrow>
     entry_step put ld i (st, V4 P Q (i - 2), V4 P Q (i - 1)) =
       (put i (V4 P Q i) st, V4 P Q (i - 1), V4 P Q i) \<and> ok (Suc i) (put i (V4 P Q i) st)"
  by (simp add: entry_step_def Let_def V4_step ld_ok put_ok)

text \<open>All entries up to \<open>n\<close>, as every file makes them.\<close>

lemma entries_filled:
  assumes "ok 16 st" "32 \<le> n" "n \<le> 64"
  shows "for_loop 32 n (entry_step put ld)
      (entries_23_31 put ld (V4 P Q 15)
        (entries_16_22 put (V4 P Q 2) (V4 P Q 15) (st, V4 P Q 0, V4 P Q 1))) =
    (filled n st, V4 P Q (n - 2), V4 P Q (n - 1))"
proof (rule for_loop_invariant [where P = "\<lambda>i s. s = (filled i st, V4 P Q (i - 2), V4 P Q (i - 1))"])
  show "entries_23_31 put ld (V4 P Q 15)
      (entries_16_22 put (V4 P Q 2) (V4 P Q 15) (st, V4 P Q 0, V4 P Q 1)) =
    (filled 32 st, V4 P Q (32 - 2), V4 P Q (32 - 1))"
    using entries_16_22_filled [of st] entries_23_31_filled [OF assms(1)] by (simp add: filled_16)
qed (use assms entry_step_filled in auto)

end

end
