(* ===== verification/Sha256_X4.thy ===== *)
theory Sha256_X4
  imports X4_Schedule Reverse
begin

text \<open>
  The four-lane hash functions of \<open>src/sha256/x4\<close>: \<open>sha256x4_optim\<close> (schedule first, then the
  rounds), \<open>sha256x4_fused\<close> (the second half interleaved), \<open>sha256x4_fullyfused\<close> (interleaved from the first
  round on, an array of 48 entries) and \<open>sha256x4_cyclic\<close> (the same with a ring of 16 entries). Each is
  proved to compute, lane by lane, what the scalar functions compute. The contents of the
  uninitialised register array are the argument \<open>w\<close>.
\<close>

section \<open>optim\_x4.c\<close>

text \<open>Lines 22 to 51: the first sixteen entries.\<close>

definition optim_x4_words :: "m128 list \<Rightarrow> u8 list \<Rightarrow> m128 list \<times> m128 \<times> m128" where
  "optim_x4_words w data =
    (let (w0, w1) = interleave_x4 data;
         w = w[0 := w0];
         w = w[1 := w1];
         t0 = w0; t1 = w1;
         c80 = x80000000; c64 = d64;
         w = for_loop 3 15 (\<lambda>i w. w[i := mm_set1_epi32 0]) w;
         w = w[2 := c80];
         w = w[15 := c64]
     in (w, t0, t1))"

definition array_put :: "nat \<Rightarrow> m128 \<Rightarrow> m128 list \<Rightarrow> m128 list" where
  "array_put i wi w = w[i := wi]"

definition array_ld :: "m128 list \<Rightarrow> nat \<Rightarrow> m128" where
  "array_ld w i = w ! i"

definition optim_x4_entries :: "m128 list \<times> m128 \<times> m128 \<Rightarrow> m128 list \<times> m128 \<times> m128" where
  "optim_x4_entries st =
     entries_23_31 array_put array_ld d64 (entries_16_22 array_put x80000000 d64 st)"

definition rounds_x4 :: "m128 list \<Rightarrow> nat \<Rightarrow> regs4 \<Rightarrow> regs4" where
  "rounds_x4 w n r = for_loop 0 n (\<lambda>i. compress_round (w ! i) i) r"

definition sha256x4_optim :: "m128 list \<Rightarrow> u8 list \<Rightarrow> u8 list" where
  "sha256x4_optim w data =
    (let st = optim_x4_entries (optim_x4_words w data);
         (w, t0, t1) = for_loop 32 64 (entry_step array_put array_ld) st;
         r = rounds_x4 w 64 initial_x4
     in store_x4 r)"

section \<open>fused\_x4.c\<close>

text \<open>Its lines 22 to 135 are those of \<open>optim_x4.c\<close>. The second loop puts an entry and does its round.\<close>

definition fused_put :: "nat \<Rightarrow> m128 \<Rightarrow> m128 list \<times> regs4 \<Rightarrow> m128 list \<times> regs4" where
  "fused_put i wi = (\<lambda>(w, r). (w[i := wi], compress_round wi i r))"

definition fused_ld :: "m128 list \<times> regs4 \<Rightarrow> nat \<Rightarrow> m128" where
  "fused_ld = (\<lambda>(w, r) i. w ! i)"

definition fused_x4_words :: "m128 list \<Rightarrow> u8 list \<Rightarrow> m128 list \<times> m128 \<times> m128" where
  "fused_x4_words w data = optim_x4_entries (optim_x4_words w data)"

definition sha256x4_fused :: "m128 list \<Rightarrow> u8 list \<Rightarrow> u8 list" where
  "sha256x4_fused w data =
    (let (w, t0, t1) = fused_x4_words w data;
         r = rounds_x4 w 32 initial_x4;
         ((w, r), t0, t1) = for_loop 32 64 (entry_step fused_put fused_ld) ((w, r), t0, t1)
     in store_x4 r)"

section \<open>fullyfused\_x4.c\<close>

text \<open>Entry \<open>i\<close> is kept in \<open>w[i - 16]\<close>; the entries below 16 are never stored.\<close>

definition ff4_put :: "nat \<Rightarrow> m128 \<Rightarrow> m128 list \<times> regs4 \<Rightarrow> m128 list \<times> regs4" where
  "ff4_put i wi = (\<lambda>(w, r). (w[i - 16 := wi], compress_round wi i r))"

definition ff4_ld :: "m128 list \<times> regs4 \<Rightarrow> nat \<Rightarrow> m128" where
  "ff4_ld = (\<lambda>(w, r) i. w ! (i - 16))"

text \<open>Lines 19 to 79: the first sixteen rounds.\<close>

definition ff4_first :: "u8 list \<Rightarrow> regs4 \<times> m128 \<times> m128" where
  "ff4_first data =
    (let r = initial_x4;
         (w0, w1) = interleave_x4 data;
         t0 = w0; t1 = w1;
         r = compress_round t0 0 r;
         r = compress_round t1 1 r;
         c80 = x80000000; c64 = d64;
         r = compress_round c80 2 r;
         r = for_loop 3 15 compress_round_zero r;
         r = compress_round c64 15 r
     in (r, t0, t1))"

definition ff4_entries :: "(m128 list \<times> regs4) \<times> m128 \<times> m128 \<Rightarrow> (m128 list \<times> regs4) \<times> m128 \<times> m128" where
  "ff4_entries st = entries_23_31 ff4_put ff4_ld d64 (entries_16_22 ff4_put x80000000 d64 st)"

text \<open>The loop body of lines 183 to 212; its counter \<open>i\<close> is an index into the array.\<close>

definition ff4_step :: "nat \<Rightarrow> (m128 list \<times> regs4) \<times> m128 \<times> m128
    \<Rightarrow> (m128 list \<times> regs4) \<times> m128 \<times> m128" where
  "ff4_step i = (\<lambda>((w, r), t0, t1).
     let wi16 = w ! (i - 16); wi15 = w ! (i - 15); wi7 = w ! (i - 7); wi2 = t0;
         t0 = t1;
         ws1 = s1_x4 wi2; ws0 = s0_x4 wi15;
         wi = mm_add_epi32 (mm_add_epi32 wi16 wi7) (mm_add_epi32 ws0 ws1);
         w = w[i := wi]; t1 = wi;
         r = compress_round wi (i + 16) r
     in ((w, r), t0, t1))"

definition sha256x4_fullyfused :: "m128 list \<Rightarrow> u8 list \<Rightarrow> u8 list" where
  "sha256x4_fullyfused w data =
    (let (r, t0, t1) = ff4_first data;
         st = ff4_entries ((w, r), t0, t1);
         ((w, r), t0, t1) = for_loop 16 48 ff4_step st
     in store_x4 r)"

section \<open>cyclic\_x4.c\<close>

text \<open>The array has 16 entries, indexed by \<open>i & 15\<close>, that is, the remainder of \<open>i\<close> modulo 16.\<close>

definition cyclic_put :: "nat \<Rightarrow> m128 \<Rightarrow> m128 list \<times> regs4 \<Rightarrow> m128 list \<times> regs4" where
  "cyclic_put i wi = (\<lambda>(w, r). (w[i mod 16 := wi], compress_round wi i r))"

definition cyclic_ld :: "m128 list \<times> regs4 \<Rightarrow> nat \<Rightarrow> m128" where
  "cyclic_ld = (\<lambda>(w, r) i. w ! (i mod 16))"

definition cyclic_first :: "u8 list \<Rightarrow> regs4 \<times> m128 \<times> m128" where
  "cyclic_first data = ff4_first data"

definition cyclic_entries :: "(m128 list \<times> regs4) \<times> m128 \<times> m128 \<Rightarrow> (m128 list \<times> regs4) \<times> m128 \<times> m128" where
  "cyclic_entries st =
     entries_23_31 cyclic_put cyclic_ld d64 (entries_16_22 cyclic_put x80000000 d64 st)"

definition cyclic_step :: "nat \<Rightarrow> (m128 list \<times> regs4) \<times> m128 \<times> m128
    \<Rightarrow> (m128 list \<times> regs4) \<times> m128 \<times> m128" where
  "cyclic_step i = (\<lambda>((w, r), t0, t1).
     let wi16 = w ! (i mod 16); wi15 = w ! ((i - 15) mod 16); wi7 = w ! ((i - 7) mod 16); wi2 = t0;
         t0 = t1;
         ws1 = s1_x4 wi2; ws0 = s0_x4 wi15;
         wi = mm_add_epi32 (mm_add_epi32 wi16 wi7) (mm_add_epi32 ws0 ws1);
         w = w[i mod 16 := wi]; t1 = wi;
         r = compress_round wi i r
     in ((w, r), t0, t1))"

definition sha256x4_cyclic :: "m128 list \<Rightarrow> u8 list \<Rightarrow> u8 list" where
  "sha256x4_cyclic w data =
    (let (r, t0, t1) = cyclic_first data;
         st = cyclic_entries ((w, r), t0, t1);
         ((w, r), t0, t1) = for_loop 32 64 cyclic_step st
     in store_x4 r)"

section \<open>The stores keep the schedule\<close>

definition array_ok :: "(nat \<Rightarrow> u32) \<Rightarrow> (nat \<Rightarrow> u32) \<Rightarrow> nat \<Rightarrow> m128 list \<Rightarrow> bool" where
  "array_ok P Q n w \<longleftrightarrow> length w = 64 \<and> (\<forall>j<n. w ! j = V4 P Q j)"

definition fused_x4_ok :: "(nat \<Rightarrow> u32) \<Rightarrow> (nat \<Rightarrow> u32) \<Rightarrow> nat \<Rightarrow> m128 list \<times> regs4 \<Rightarrow> bool" where
  "fused_x4_ok P Q n st \<longleftrightarrow> array_ok P Q n (fst st) \<and> snd st = R4 P Q n"

definition ff4_ok :: "(nat \<Rightarrow> u32) \<Rightarrow> (nat \<Rightarrow> u32) \<Rightarrow> nat \<Rightarrow> m128 list \<times> regs4 \<Rightarrow> bool" where
  "ff4_ok P Q n st \<longleftrightarrow> length (fst st) = 48 \<and>
     (\<forall>j. 16 \<le> j \<and> j < n \<longrightarrow> fst st ! (j - 16) = V4 P Q j) \<and> snd st = R4 P Q n"

definition cyclic_ok :: "(nat \<Rightarrow> u32) \<Rightarrow> (nat \<Rightarrow> u32) \<Rightarrow> nat \<Rightarrow> m128 list \<times> regs4 \<Rightarrow> bool" where
  "cyclic_ok P Q n st \<longleftrightarrow> length (fst st) = 16 \<and>
     (\<forall>j. 16 \<le> j \<and> j < n \<and> n \<le> j + 16 \<longrightarrow> fst st ! (j mod 16) = V4 P Q j) \<and> snd st = R4 P Q n"

interpretation plain: entry_store array_put array_ld "array_ok P Q" P Q for P Q
  by unfold_locales
    (auto simp: array_ok_def array_put_def array_ld_def nth_list_update less_Suc_eq)

interpretation fused: entry_store fused_put fused_ld "fused_x4_ok P Q" P Q for P Q
  by unfold_locales
    (auto simp: fused_x4_ok_def array_ok_def fused_put_def fused_ld_def nth_list_update less_Suc_eq)

interpretation ff4: entry_store ff4_put ff4_ld "ff4_ok P Q" P Q for P Q
  by unfold_locales
    (auto simp: ff4_ok_def ff4_put_def ff4_ld_def nth_list_update less_Suc_eq)

lemma window_index:
  assumes "j < n" "n \<le> j + 15"
  shows "n mod 16 \<noteq> j mod (16 :: nat)"
proof
  assume "n mod 16 = j mod 16"
  then have "16 dvd n - j" using assms by (simp add: mod_eq_dvd_iff_nat)
  then show False using assms by (auto dest: dvd_imp_le)
qed

interpretation cyclic: entry_store cyclic_put cyclic_ld "cyclic_ok P Q" P Q for P Q
  by unfold_locales
    (auto simp: cyclic_ok_def cyclic_put_def cyclic_ld_def nth_list_update less_Suc_eq window_index)

lemma ff4_step_entry: "16 \<le> i \<Longrightarrow> ff4_step i = entry_step ff4_put ff4_ld (i + 16)"
  by (auto simp: ff4_step_def entry_step_def ff4_put_def ff4_ld_def Let_def)

lemma cyclic_step_entry: "32 \<le> i \<Longrightarrow> cyclic_step i = entry_step cyclic_put cyclic_ld i"
  by (auto simp: cyclic_step_def entry_step_def cyclic_put_def cyclic_ld_def Let_def
      le_mod_geq)

section \<open>Lane by lane the scalar digest\<close>

lemma ff4_first_R4:
  assumes "length data = 32"
  shows "ff4_first data = (R4 (lane_w0 data) (lane_w1 data) 16,
    V4 (lane_w0 data) (lane_w1 data) 0, V4 (lane_w0 data) (lane_w1 data) 1)"
proof -
  let ?P = "lane_w0 data" and ?Q = "lane_w1 data"
  have c: "compress_round (V4 ?P ?Q 0) 0 (R4 ?P ?Q 0) = R4 ?P ?Q 1"
    "compress_round (V4 ?P ?Q 1) 1 (R4 ?P ?Q 1) = R4 ?P ?Q 2"
    "compress_round (V4 ?P ?Q 2) 2 (R4 ?P ?Q 2) = R4 ?P ?Q 3"
    "compress_round (V4 ?P ?Q 15) 15 (R4 ?P ?Q 15) = R4 ?P ?Q 16"
    by (simp_all only: compress_round_V4) (simp_all add: eval_nat_numeral)
  show ?thesis
    by (simp only: ff4_first_def interleave_x4_V4 [OF assms] initial_x4_R4 [of ?P ?Q] c Let_def
        prod.case V4_constants [of ?P ?Q] zero_rounds_R4)
qed

lemma array_okD:
  assumes "array_ok P Q n w" "m \<le> n"
  shows "rounds_x4 w m (R4 P Q 0) = R4 P Q m"
  unfolding rounds_x4_def
proof (rule for_loop_invariant [where P = "\<lambda>i r. r = R4 P Q i"])
  fix i r assume "i < m" "r = R4 P Q i"
  moreover from this have "w ! i = V4 P Q i"
    using assms by (simp add: array_ok_def)
  ultimately show "compress_round (w ! i) i r = R4 P Q (Suc i)" by simp
qed simp_all

lemma optim_x4_words_ok:
  assumes "length data = 32" "length w = 64"
  shows "\<exists>w'. optim_x4_words w data =
      (w', V4 (lane_w0 data) (lane_w1 data) 0, V4 (lane_w0 data) (lane_w1 data) 1) \<and>
    array_ok (lane_w0 data) (lane_w1 data) 16 w'"
proof -
  let ?P = "lane_w0 data" and ?Q = "lane_w1 data"
  let ?w = "w[0 := V4 ?P ?Q 0, 1 := V4 ?P ?Q 1]"
  let ?z = "for_loop 3 15 (\<lambda>i w. w[i := mm_set1_epi32 0]) ?w"
  have zero: "V4 ?P ?Q j = mm_set1_epi32 0" if "3 \<le> j" "j < 15" for j
    using that by (simp add: V4_def W8_zero lane_wise)
  have z: "length ?z = 64 \<and> (\<forall>j<15. j \<noteq> 2 \<longrightarrow> ?z ! j = V4 ?P ?Q j)"
    by (rule for_loop_invariant [where P = "\<lambda>n w. length w = 64 \<and>
          (\<forall>j<n. j \<noteq> 2 \<longrightarrow> w ! j = V4 ?P ?Q j)"])
      (use assms zero in \<open>auto simp: nth_list_update less_Suc_eq numeral_3_eq_3\<close>)
  have "array_ok ?P ?Q 16 (?z[2 := V4 ?P ?Q 2, 15 := V4 ?P ?Q 15])"
    unfolding array_ok_def
  proof (intro conjI allI impI)
    fix j :: nat assume "j < 16"
    then consider "j = 2" | "j = 15" | "j < 15" "j \<noteq> 2" by linarith
    then show "?z[2 := V4 ?P ?Q 2, 15 := V4 ?P ?Q 15] ! j = V4 ?P ?Q j"
      by cases (use z in \<open>simp_all add: nth_list_update\<close>)
  qed (use z in simp)
  then show ?thesis
    by (auto simp: optim_x4_words_def interleave_x4_V4 [OF assms(1)] Let_def
        V4_constants [of ?P ?Q])
qed

definition x4_digest :: "u8 list \<Rightarrow> u8 list" where
  "x4_digest data = concat (map (\<lambda>l. store_digest (data_digest (drop (8 * l) data))) [0, 1, 2, 3])"

lemma store_x4_final: "store_x4 (R4 (lane_w0 data) (lane_w1 data) 64) = x4_digest data"
  by (simp add: store_x4_digest x4_digest_def)

lemma sha256x4_optim_digest:
  assumes "length data = 32" "length w = 64"
  shows "sha256x4_optim w data = x4_digest data"
proof -
  let ?P = "lane_w0 data" and ?Q = "lane_w1 data"
  obtain w' where w: "optim_x4_words w data = (w', V4 ?P ?Q 0, V4 ?P ?Q 1)"
    and ok: "array_ok ?P ?Q 16 w'"
    using optim_x4_words_ok [OF assms] by blast
  have "array_ok ?P ?Q 64 (plain.filled ?P ?Q 64 w')"
    by (rule plain.filled_ok [OF _ _ ok]) simp_all
  from array_okD [OF this, of 64] plain.entries_filled [OF ok, of 64] show ?thesis
    by (simp add: sha256x4_optim_def optim_x4_entries_def w V4_constants [of ?P ?Q]
        initial_x4_R4 [of ?P ?Q] store_x4_final)
qed

lemma sha256x4_fused_digest:
  assumes "length data = 32" "length w = 64"
  shows "sha256x4_fused w data = x4_digest data"
proof -
  let ?P = "lane_w0 data" and ?Q = "lane_w1 data"
  obtain w' where w: "optim_x4_words w data = (w', V4 ?P ?Q 0, V4 ?P ?Q 1)"
    and ok: "array_ok ?P ?Q 16 w'"
    using optim_x4_words_ok [OF assms] by blast
  let ?f = "plain.filled ?P ?Q 32 w'"
  have f: "array_ok ?P ?Q 32 ?f"
    by (rule plain.filled_ok [OF _ _ ok]) simp_all
  have words: "fused_x4_words w data = (?f, V4 ?P ?Q 30, V4 ?P ?Q 31)"
    using plain.entries_filled [OF ok, of 32]
    by (simp add: fused_x4_words_def optim_x4_entries_def w V4_constants [of ?P ?Q])
  let ?inv = "\<lambda>i s. fused_x4_ok ?P ?Q i (fst s) \<and> snd s = (V4 ?P ?Q (i - 2), V4 ?P ?Q (i - 1))"
  have "?inv 64 (for_loop 32 64 (entry_step fused_put fused_ld)
      ((?f, R4 ?P ?Q 32), V4 ?P ?Q 30, V4 ?P ?Q 31))"
  proof (rule for_loop_invariant [where P = ?inv])
    fix i s assume i: "32 \<le> i" "i < 64" and s: "?inv i s"
    then show "?inv (Suc i) (entry_step fused_put fused_ld i s)"
      using fused.entry_step_ok [of ?P ?Q i "fst s"] by (cases s) auto
  qed (use f in \<open>simp_all add: fused_x4_ok_def\<close>)
  then show ?thesis
    using array_okD [OF f, of 32]
    by (auto simp: sha256x4_fused_def words initial_x4_R4 [of ?P ?Q] fused_x4_ok_def
        store_x4_final [symmetric] split: prod.splits)
qed

lemma ff4_loop:
  assumes "length data = 32" "length w = 48" "16 \<le> n" "n \<le> 48"
  shows "\<exists>w'. for_loop 16 n ff4_step (ff4_entries ((w, fst (ff4_first data)), snd (ff4_first data))) =
      ((w', R4 (lane_w0 data) (lane_w1 data) (n + 16)),
        V4 (lane_w0 data) (lane_w1 data) (n + 14), V4 (lane_w0 data) (lane_w1 data) (n + 15)) \<and>
    ff4_ok (lane_w0 data) (lane_w1 data) (n + 16) (w', R4 (lane_w0 data) (lane_w1 data) (n + 16))"
proof -
  let ?P = "lane_w0 data" and ?Q = "lane_w1 data"
  let ?s = "ff4_entries ((w, fst (ff4_first data)), snd (ff4_first data))"
  have ok: "ff4_ok ?P ?Q 16 (w, R4 ?P ?Q 16)"
    using assms(2) by (auto simp: ff4_ok_def)
  have "for_loop 16 n ff4_step ?s =
      for_loop 16 n (\<lambda>i. entry_step ff4_put ff4_ld (i + 16)) ?s"
    by (rule for_loop_cong) (simp add: ff4_step_entry)
  also have "\<dots> = for_loop 32 (n + 16) (entry_step ff4_put ff4_ld) ?s"
    by (simp add: for_loop_shift [of 16 n _ 16])
  also have "\<dots> = (ff4.filled ?P ?Q (n + 16) (w, R4 ?P ?Q 16), V4 ?P ?Q (n + 14), V4 ?P ?Q (n + 15))"
    using ff4.entries_filled [OF ok, of "n + 16"] assms(3,4)
    by (simp add: ff4_entries_def ff4_first_R4 [OF assms(1)] V4_constants [of ?P ?Q] add.commute [of n])
  finally show ?thesis
    using ff4.filled_ok [OF _ _ ok, of "n + 16"] assms(3,4)
    by (cases "ff4.filled ?P ?Q (n + 16) (w, R4 ?P ?Q 16)") (auto simp: ff4_ok_def)
qed

lemma sha256x4_fullyfused_digest:
  assumes "length data = 32" "length w = 48"
  shows "sha256x4_fullyfused w data = x4_digest data"
  using ff4_loop [OF assms, of 48]
  by (auto simp: sha256x4_fullyfused_def Let_def store_x4_final split: prod.splits)

lemma sha256x4_cyclic_digest:
  assumes "length data = 32" "length w = 16"
  shows "sha256x4_cyclic w data = x4_digest data"
proof -
  let ?P = "lane_w0 data" and ?Q = "lane_w1 data"
  have ok: "cyclic_ok ?P ?Q 16 (w, R4 ?P ?Q 16)"
    using assms(2) by (auto simp: cyclic_ok_def)
  have "for_loop 32 64 cyclic_step s = for_loop 32 64 (entry_step cyclic_put cyclic_ld) s" for s
    by (rule for_loop_cong) (simp add: cyclic_step_entry)
  moreover have "snd (cyclic.filled ?P ?Q 64 (w, R4 ?P ?Q 16)) = R4 ?P ?Q 64"
    using cyclic.filled_ok [OF _ _ ok, of 64] by (simp add: cyclic_ok_def)
  ultimately show ?thesis
    using cyclic.entries_filled [OF ok, of 64]
    by (auto simp: sha256x4_cyclic_def cyclic_first_def cyclic_entries_def
        ff4_first_R4 [OF assms(1)] V4_constants [of ?P ?Q] store_x4_final split: prod.splits)
qed

section \<open>The hash functions of \<open>config.h\<close> and the vectorised search\<close>

lemma x4_digest_concat:
  assumes "length msgs = 4" "\<forall>m \<in> set msgs. length m = 8"
  shows "x4_digest (concat msgs) = concat (map (\<lambda>m. store_digest (data_digest m)) msgs)"
proof -
  obtain m0 m1 m2 m3 where m: "msgs = [m0, m1, m2, m3]"
    using assms(1) by (auto simp: length_Suc_conv numeral_eq_Suc)
  have "data_digest (m @ rest) = data_digest m" if "length m = 8" for m rest
    using that by (simp add: data_digest_def data_w0_def data_w1_def load32_def nth_append)
  then show ?thesis
    using assms(2) by (simp add: m x4_digest_def)
qed

lemma length_store_digest: "length (store_digest r) = 32"
  by (cases r rule: regs_list.cases) (simp add: store_digest_def)

lemma lane_hash_x4:
  assumes "\<forall>m. length m = 32 \<longrightarrow> hash4 m = x4_digest m"
  shows "lane_hash 4 hash4 (\<lambda>m. store_digest (data_digest m))"
proof -
  have "length (concat msgs) = 32"
    if "length msgs = 4" "\<forall>m \<in> set msgs. length m = 8" for msgs :: "u8 list list"
    using that by (auto simp: length_Suc_conv numeral_eq_Suc)
  then show ?thesis
    using assms by (auto simp: lane_hash_def x4_digest_concat length_store_digest)
qed

lemma normalized_digest: "normalized_sha256 (\<lambda>m. store_digest (data_digest m))"
  by (simp add: normalized_sha256_def normalize_sha256)

lemma lane_hash_fullyfused:
  "\<forall>m. length (w m) = 48 \<Longrightarrow>
     lane_hash 4 (\<lambda>m. sha256x4_fullyfused (w m) m) (\<lambda>m. store_digest (data_digest m))"
  by (rule lane_hash_x4) (simp add: sha256x4_fullyfused_digest)

interpretation x4_search: block_search
    "\<lambda>s. reverse_sha256_x4 (\<lambda>m. sha256x4_fullyfused (replicate 48 (mm_set1_epi32 (v m))) m) s stop target"
    "\<lambda>x. hash_compare_u64 (store_digest (data_digest (le64_bytes x))) target" 4 stop for v stop target
  by (rule reverse_x4_block, rule lane_hash_fullyfused) simp

text \<open>
  C24: the four four-lane hash functions compute, for any four eight-byte messages and any contents of
  the register array, the four normalised SHA-256 digests one after the other.
\<close>

theorem sha256x4_variants_correct:
  assumes "length msgs = 4" "\<forall>m \<in> set msgs. length m = 8"
    and "length w16 = 16" "length w48 = 48" "length w64 = 64"
  shows "sha256x4_optim w64 (concat msgs) = concat (map (\<lambda>m. sha256_normalize (sha256 m)) msgs) \<and>
    sha256x4_fused w64 (concat msgs) = concat (map (\<lambda>m. sha256_normalize (sha256 m)) msgs) \<and>
    sha256x4_fullyfused w48 (concat msgs) = concat (map (\<lambda>m. sha256_normalize (sha256 m)) msgs) \<and>
    sha256x4_cyclic w16 (concat msgs) = concat (map (\<lambda>m. sha256_normalize (sha256 m)) msgs)"
proof -
  have len: "length (concat msgs) = 32"
    using assms(1,2) by (auto simp: length_Suc_conv numeral_eq_Suc)
  have "x4_digest (concat msgs) = concat (map (\<lambda>m. sha256_normalize (sha256 m)) msgs)"
    unfolding x4_digest_concat [OF assms(1,2)]
    by (rule arg_cong [of _ _ concat], rule map_cong) (use assms(2) in \<open>simp_all add: normalize_sha256\<close>)
  then show ?thesis
    using len assms(3-5) by (simp add: sha256x4_optim_digest sha256x4_fused_digest
        sha256x4_fullyfused_digest sha256x4_cyclic_digest)
qed

theorem sha256x4_variants_correct_witness:
  "sha256x4_fullyfused (replicate 48 (mm_set1_epi32 5)) (concat (replicate 4 [1, 2, 3, 4, 5, 6, 7, 8])) =
     concat (map (\<lambda>m. sha256_normalize (sha256 m)) (replicate 4 [1, 2, 3, 4, 5, 6, 7, 8]))"
  using sha256x4_variants_correct [of "replicate 4 [1, 2, 3, 4, 5, 6, 7, 8]"
      "replicate 16 (mm_set1_epi32 5)" "replicate 48 (mm_set1_epi32 5)" "replicate 64 (mm_set1_epi32 5)"]
  by simp

text \<open>
  C22: for \<open>start \<le> end\<close> and \<open>end + 4 < 2 ^ 64\<close> (above that the counter of the loop wraps around) the four-lane search with
  \<open>sha256x4_fullyfused\<close> returns the least number with the requested digest among \<open>start..end\<close> rounded up to whole groups of four, or \<open>0\<close>: it answers every request whose
  answer is in the range, and it may answer with one of up to three numbers past \<open>end\<close>.
\<close>

theorem reverse_sha256_x4_least_preimage:
  assumes "\<forall>m. length (w m) = 48" "length digest = 32" "start \<le> stop" "unat stop + 4 < 2 ^ 64"
  shows "reverse_sha256_x4 (\<lambda>m. sha256x4_fullyfused (w m) m) start stop (sha256_normalize digest) =
    Some (least_preimage
      {start .. start + word_of_nat (4 * ((unat stop - unat start) div 4) + 3)} digest)"
proof -
  have "unat start + 4 * ((unat stop - unat start) div 4 + 1) \<le> 2 ^ 64"
    using assms(3,4) by (simp add: word_le_nat_alt)
  then show ?thesis
    using block_search.search_result [OF reverse_x4_block [OF lane_hash_fullyfused [OF assms(1)]]
        assms(3,4), of "sha256_normalize digest"]
      first_or_zero_least_preimage [of start "4 * ((unat stop - unat start) div 4 + 1)" digest]
    by (simp add: compare_normalized [OF normalized_digest assms(2)] add.commute [of 3])
qed

theorem reverse_sha256_x4_least_preimage_witness:
  "reverse_sha256_x4 (\<lambda>m. sha256x4_fullyfused (replicate 48 (mm_set1_epi32 7)) m) 3 9
      (sha256_normalize (replicate 32 0)) =
    Some (least_preimage {3 .. 10} (replicate 32 0))"
  using reverse_sha256_x4_least_preimage [of "\<lambda>_. replicate 48 (mm_set1_epi32 7)" "replicate 32 0" 3 9]
  by simp

end
