(* ===== verification/Reverse_X4.thy ===== *)
theory Reverse_X4
  imports Sha256_X4
begin

text \<open>
  \<open>src/sha256/x4/reverse_fullyfused_x4.c\<close>: the search with the four-lane hash function inlined. The
  last rounds are computed only if some lane can still reach the target: the target digest fixes
  the working variable \<open>a\<close> after round 56, which the code computes backwards from it (\<open>d60\<close>) and
  compares. The theorems show that this early exit loses no answer: the search is the one of
  \<open>reverse.c\<close> with \<open>sha256x4_fullyfused\<close>, also where it does not return.
\<close>

section \<open>The target, backwards\<close>

definition rev_Sigma0 :: "u32 \<Rightarrow> u32" where
  "rev_Sigma0 x = rotr x 2 XOR rotr x 13 XOR rotr x 22"

definition rev_Maj :: "u32 \<Rightarrow> u32 \<Rightarrow> u32 \<Rightarrow> u32" where
  "rev_Maj x y z = (x AND y) XOR (x AND z) XOR (y AND z)"

definition target_d60 :: "u8 list \<Rightarrow> u32" where
  "target_d60 target =
    (let t = load32 target;
         d63 = t 4 - (t 0 - (rev_Sigma0 (t 1) + rev_Maj (t 1) (t 2) (t 3)));
         d62 = t 5 - (t 1 - (rev_Sigma0 (t 2) + rev_Maj (t 2) (t 3) d63));
         d61 = t 6 - (t 2 - (rev_Sigma0 (t 3) + rev_Maj (t 3) d63 d62));
         d60 = t 7 - (t 3 - (rev_Sigma0 d63 + rev_Maj d63 d62 d61))
     in d60)"

section \<open>One group of four numbers\<close>

text \<open>Lines 50 to 217: entries and rounds up to 31, as in \<open>fullyfused_x4.c\<close>.\<close>

definition rev4_rounds :: "m128 list \<Rightarrow> u64 list \<Rightarrow> (m128 list \<times> regs4) \<times> m128 \<times> m128" where
  "rev4_rounds w data =
    (let (r, t0, t1) = ff4_first (concat (map le64_bytes data))
     in ff4_entries ((w, r), t0, t1))"

definition mm_testz :: "m128 \<Rightarrow> m128 \<Rightarrow> bool" where
  "mm_testz x y \<longleftrightarrow> mm_and x y = M128 0 0 0 0"

fun mm_movemask_ps :: "m128 \<Rightarrow> u32" where
  "mm_movemask_ps (M128 a b c d) =
     of_bool (bit a 31) OR push_bit 1 (of_bool (bit b 31)) OR push_bit 2 (of_bool (bit c 31))
       OR push_bit 3 (of_bool (bit d 31))"

definition builtin_ctz :: "u32 \<Rightarrow> nat" where
  "builtin_ctz x = length (takeWhile (\<lambda>i. \<not> bit x i) [0..<32])"

text \<open>Lines 294 to 306: the lanes whose eight words are those of the target.\<close>

fun rev4_bitmask :: "regs4 \<Rightarrow> u8 list \<Rightarrow> u32" where
  "rev4_bitmask (a, b, c, d, e, f, g, h) target =
    (let eq = (\<lambda>x i. mm_cmpeq_epi32 x (mm_set1_epi32 (load32 target i)));
         a = eq a 0; b = eq b 1; c = eq c 2; d = eq d 3;
         e = eq e 4; f = eq f 5; g = eq g 6; h = eq h 7
     in mm_movemask_ps (mm_and
          (mm_and (mm_and a b) (mm_and c d))
          (mm_and (mm_and e f) (mm_and g h))))"

definition rev4_block :: "m128 list \<Rightarrow> u64 list \<Rightarrow> u8 list \<Rightarrow> u64 option" where
  "rev4_block w data target =
    (let st = for_loop 16 41 ff4_step (rev4_rounds w data);
         test = mm_cmpeq_epi32 (fst (snd (fst st))) (mm_set1_epi32 (target_d60 target))
     in if mm_testz test test then None
        else
          let st = for_loop 41 48 ff4_step st;
              bm = rev4_bitmask (snd (fst st)) target
          in if bm \<noteq> 0 then Some (data ! builtin_ctz bm) else None)"

text \<open>
  The array \<open>w\<close> is declared inside the loop: its contents at the start of a pass, here a function
  of the numbers of the group, are arbitrary.
\<close>

partial_function (option) rev4_loop ::
  "(u64 list \<Rightarrow> m128 list) \<Rightarrow> u64 list \<Rightarrow> u64 \<Rightarrow> u8 list \<Rightarrow> u64 option"
where
  "rev4_loop w data stop target =
     (case rev4_block (w data) data target of
        Some x \<Rightarrow> Some x
      | None \<Rightarrow>
          (let data = data[0 := data ! 0 + 4];
               data = data[1 := data ! 1 + 4];
               data = data[2 := data ! 2 + 4];
               data = data[3 := data ! 3 + 4]
           in if data ! 0 \<le> stop then rev4_loop w data stop target else Some 0))"

definition reverse_sha256x4_fullyfused ::
  "(u64 list \<Rightarrow> m128 list) \<Rightarrow> u64 \<Rightarrow> u64 \<Rightarrow> u8 list \<Rightarrow> u64 option"
where
  "reverse_sha256x4_fullyfused w start stop target =
     rev4_loop w [start, start + 1, start + 2, start + 3] stop target"

section \<open>The early exit is sound\<close>

lemma rev_functions: "rev_Sigma0 x = Sigma0 x" "rev_Maj x y z = Maj x y z"
  by (simp_all add: rev_Sigma0_def rev_Maj_def Sigma0_def Maj_def rotr_word_rotr)

text \<open>A round shifts the variables, and its result determines the \<open>d\<close> that went in.\<close>

lemma round_shift:
  fixes k w :: u32 and r :: regs
  defines "s \<equiv> regs_list (fips_round k w r)"
  shows "s ! 1 = regs_list r ! 0" "s ! 2 = regs_list r ! 1" "s ! 3 = regs_list r ! 2"
    "s ! 5 = regs_list r ! 4" "s ! 6 = regs_list r ! 5" "s ! 7 = regs_list r ! 6"
    "regs_list r ! 3 = s ! 4 - (s ! 0 - (Sigma0 (s ! 1) + Maj (s ! 1) (s ! 2) (s ! 3)))"
  unfolding s_def by (cases r rule: regs_list.cases, simp add: Let_def)+

lemma target_d60_sound:
  assumes "\<And>i. i < 8 \<Longrightarrow> regs_list (rounds ws 64 s) ! i = load32 target i"
  shows "regs_list (rounds ws 57 s) ! 0 = target_d60 target"
proof -
  let ?R = "\<lambda>n. regs_list (rounds ws n s)"
  note step = round_shift [where k = "K ! n" and w = "ws ! n" and r = "rounds ws n s" for n, folded rounds_Suc]
  have t: "load32 target 0 = ?R 64 ! 0" "load32 target (Suc 0) = ?R 64 ! Suc 0" "load32 target 2 = ?R 64 ! 2"
    "load32 target 3 = ?R 64 ! 3" "load32 target 4 = ?R 64 ! 4" "load32 target 5 = ?R 64 ! 5"
    "load32 target 6 = ?R 64 ! 6" "load32 target 7 = ?R 64 ! 7"
    using assms by simp_all
  note s63 = step [of 63, simplified] and s62 = step [of 62, simplified]
    and s61 = step [of 61, simplified] and s60 = step [of 60, simplified]
    and s59 = step [of 59, simplified] and s58 = step [of 58, simplified]
    and s57 = step [of 57, simplified]
  have d63: "load32 target 4 - (load32 target 0 - (rev_Sigma0 (load32 target 1) +
      rev_Maj (load32 target 1) (load32 target 2) (load32 target 3))) = ?R 63 ! 3"
    by (simp add: t rev_functions s63(7))
  have d62: "load32 target 5 - (load32 target 1 - (rev_Sigma0 (load32 target 2) +
      rev_Maj (load32 target 2) (load32 target 3) (?R 63 ! 3))) = ?R 62 ! 3"
    by (simp add: t rev_functions s63(1-6) s62(7))
  have d61: "load32 target 6 - (load32 target 2 - (rev_Sigma0 (load32 target 3) +
      rev_Maj (load32 target 3) (?R 63 ! 3) (?R 62 ! 3))) = ?R 61 ! 3"
    by (simp add: t rev_functions s63(1-6) s62(1-6) s61(7))
  have d60: "load32 target 7 - (load32 target 3 - (rev_Sigma0 (?R 63 ! 3) +
      rev_Maj (?R 63 ! 3) (?R 62 ! 3) (?R 61 ! 3))) = ?R 60 ! 3"
    by (simp add: t rev_functions s63(1-6) s62(1-6) s61(1-6) s60(7))
  have "target_d60 target = ?R 60 ! 3"
    unfolding target_d60_def Let_def d63 d62 d61 d60 ..
  also have "\<dots> = ?R 57 ! 0"
    by (simp add: s59(3) s58(2) s57(1))
  finally show ?thesis ..
qed

section \<open>A group, as the search of reverse.c treats it\<close>

definition lane_regs :: "u64 list \<Rightarrow> nat \<Rightarrow> nat \<Rightarrow> regs" where
  "lane_regs data n l =
     (let b = concat (map le64_bytes data)
      in rounds (schedule (block8 (lane_w0 b l) (lane_w1 b l))) n (regs_of H0))"

definition lane_hit :: "u64 list \<Rightarrow> u8 list \<Rightarrow> nat \<Rightarrow> bool" where
  "lane_hit data target l \<longleftrightarrow> (\<forall>i<8. regs_list (lane_regs data 64 l) ! i = load32 target i)"

lemma all_less_4: "(\<forall>l<4. F l) \<longleftrightarrow> F 0 \<and> F 1 \<and> F 2 \<and> F (3 :: nat)"
  by (auto simp: less_Suc_eq numeral_eq_Suc)

lemma testz_vec4: "mm_testz (vec4 f) (vec4 f) \<longleftrightarrow> (\<forall>l<4. f l = 0)"
  by (simp add: mm_testz_def lane_wise all_less_4) (simp add: vec4_def)

lemma all_less_8: "(\<forall>i<8. F i) \<longleftrightarrow> F 0 \<and> F 1 \<and> F 2 \<and> F 3 \<and> F 4 \<and> F 5 \<and> F 6 \<and> F (7 :: nat)"
  by (simp add: numeral_eq_Suc All_less_Suc conj_ac)

lemma bitmask_vregs:
  "rev4_bitmask (vregs R) target =
     mm_movemask_ps (vec4 (\<lambda>l. if \<forall>i<8. regs_list (R l) ! i = load32 target i then - 1 else 0))"
  unfolding vregs_def rev4_bitmask.simps Let_def lane_wise
  by (rule arg_cong [of _ _ mm_movemask_ps], rule vec4_cong) (simp add: all_less_8)

lemma movemask_lanes:
  "(let bm = mm_movemask_ps (vec4 (\<lambda>l. if p l then - 1 else 0))
    in if bm \<noteq> 0 then Some (builtin_ctz bm) else None) = find p [0, 1, 2, 3]"
  by (cases "p 0"; cases "p 1"; cases "p 2"; cases "p 3")
    (simp_all add: vec4_def builtin_ctz_def bit_simps upt_rec)

lemma rev4_rounds_loop:
  assumes "length data = 4" "length w = 48" "16 \<le> n" "n \<le> 48"
  shows "snd (fst (for_loop 16 n ff4_step (rev4_rounds w data))) = vregs (lane_regs data (n + 16))"
proof -
  have len: "length (concat (map le64_bytes data)) = 32"
    using assms(1) by (simp add: length_concat comp_def sum_list_triv)
  show ?thesis
    using ff4_loop [OF len assms(2-4)]
    by (auto simp: rev4_rounds_def R4_def lane_regs_def [abs_def] Let_def case_prod_beta)
qed

lemma rev4_block_find:
  assumes "length data = 4" "length w = 48"
  shows "rev4_block w data target = map_option ((!) data) (find (lane_hit data target) [0, 1, 2, 3])"
proof -
  let ?st = "for_loop 16 41 ff4_step (rev4_rounds w data)"
  let ?a = "\<lambda>l. regs_list (lane_regs data 57 l) ! 0"
  have a: "fst (snd (fst ?st)) = vec4 ?a"
    using rev4_rounds_loop [OF assms, of 41] by (simp add: vregs_def)
  have final: "snd (fst (for_loop 41 48 ff4_step ?st)) = vregs (lane_regs data 64)"
    using rev4_rounds_loop [OF assms, of 48] for_loop_split [of 16 41 48 ff4_step] by simp
  have bm: "rev4_bitmask (vregs (lane_regs data 64)) target =
      mm_movemask_ps (vec4 (\<lambda>l. if lane_hit data target l then - 1 else 0))"
    by (simp add: bitmask_vregs lane_hit_def)
  have exit: "\<not> lane_hit data target l" if "?a l \<noteq> target_d60 target" for l
    using that target_d60_sound [where s = "regs_of H0"] unfolding lane_hit_def lane_regs_def Let_def
    by blast
  let ?test = "mm_cmpeq_epi32 (vec4 ?a) (mm_set1_epi32 (target_d60 target))"
  have test: "mm_testz ?test ?test \<longleftrightarrow> (\<forall>l<4. ?a l \<noteq> target_d60 target)"
    unfolding lane_wise testz_vec4 by auto
  have block: "rev4_block w data target =
      (if \<forall>l<4. ?a l \<noteq> target_d60 target then None
       else map_option ((!) data) (find (lane_hit data target) [0, 1, 2, 3]))"
    unfolding rev4_block_def Let_def a test final bm movemask_lanes [unfolded Let_def, symmetric]
    by (rule if_cong) simp_all
  have "find (lane_hit data target) [0, 1, 2, 3] = None" if "\<forall>l<4. ?a l \<noteq> target_d60 target"
    using that exit by (auto simp: find_None_iff)
  then show ?thesis
    unfolding block by (metis (no_types) map_option_is_None)
qed

lemma store_digest_target:
  assumes "length target = 32"
  shows "store_digest r = target \<longleftrightarrow> (\<forall>i<8. regs_list r ! i = load32 target i)"
proof -
  have "target = concat (map le32_bytes (map (load32 target) [0..<8]))"
    using assms
    by (auto simp: load32_def le32_bytes_le32 upt_rec length_Suc_conv numeral_eq_Suc)
  then have "store_digest r = target \<longleftrightarrow>
      concat (map le32_bytes (regs_list r)) = concat (map le32_bytes (map (load32 target) [0..<8]))"
    by (simp only: store_digest_def)
  also have "\<dots> \<longleftrightarrow> regs_list r = map (load32 target) [0..<8]"
    by (rule concat_le32_inject) simp
  also have "\<dots> \<longleftrightarrow> (\<forall>i<8. regs_list r ! i = load32 target i)"
    by (auto simp: list_eq_iff_nth_eq)
  finally show ?thesis .
qed

lemma lane_hit_compare:
  assumes "length data = 4" "length target = 32" "l < 4"
  shows "lane_hit data target l \<longleftrightarrow>
    hash_compare_u64 (store_digest (data_digest (le64_bytes (data ! l)))) target"
proof -
  have "drop (8 * l) (concat (map le64_bytes data)) = concat (drop l (map le64_bytes data))"
    by (rule drop_concat_uniform) simp
  also have "\<dots> = le64_bytes (data ! l) @ concat (map le64_bytes (drop (Suc l) data))"
    using assms(1,3) by (simp add: drop_map Cons_nth_drop_Suc [symmetric])
  finally have "data_digest (drop (8 * l) (concat (map le64_bytes data))) =
      data_digest (le64_bytes (data ! l))"
    by (simp add: data_digest_def data_w0_def data_w1_def load32_def nth_append)
  then have "lane_regs data 64 l = data_digest (le64_bytes (data ! l))"
    by (simp add: lane_regs_def lane_w0_def lane_w1_def data_digest_def digest8_def Let_def)
  then show ?thesis
    using assms(2) by (simp add: lane_hit_def hash_compare_eq length_store_digest store_digest_target)
qed

lemma rev4_block_search:
  assumes "length data = 4" "length w = 48" "length target = 32"
  shows "rev4_block w data target =
    find (\<lambda>x. hash_compare_u64 (store_digest (data_digest (le64_bytes x))) target) data"
proof -
  let ?hit = "\<lambda>x. hash_compare_u64 (store_digest (data_digest (le64_bytes x))) target"
  obtain a b c d where data: "data = [a, b, c, d]"
    using assms(1) by (auto simp: length_Suc_conv numeral_eq_Suc)
  have "find (lane_hit data target) [0, 1, 2, 3] = find (\<lambda>l. ?hit (data ! l)) [0, 1, 2, 3]"
    by (rule find_cong) (use lane_hit_compare [OF assms(1,3)] in auto)
  then show ?thesis
    unfolding rev4_block_find [OF assms(1,2)] by (simp add: data)
qed

section \<open>The search is that of reverse.c\<close>

lemma x4_loop_step:
  assumes "lane_hash 4 hash4 (\<lambda>m. store_digest (data_digest m))"
    and "length data = 4" "length w = 48" "length target = 32"
  shows "(case matching_lane 4 (hash4 (concat (map le64_bytes data))) target of
            Some i \<Rightarrow> Some (data ! i) | None \<Rightarrow> rest) =
         (case rev4_block w data target of Some x \<Rightarrow> Some x | None \<Rightarrow> rest)"
  unfolding first_lane [OF assms(1,2)] rev4_block_search [OF assms(2-4)] ..

lemma loops_agree:
  assumes hash: "lane_hash 4 hash4 (\<lambda>m. store_digest (data_digest m))"
    and w: "\<forall>d. length (w d) = 48" and "length target = 32"
  shows "rev4_loop w data stop target = Some y \<Longrightarrow> length data = 4 \<Longrightarrow>
      reverse_x4_loop hash4 data stop target = Some y"
    and "reverse_x4_loop hash4 data stop target = Some y \<Longrightarrow> length data = 4 \<Longrightarrow>
      rev4_loop w data stop target = Some y"
proof -
  show "length data = 4 \<Longrightarrow> reverse_x4_loop hash4 data stop target = Some y"
    if "rev4_loop w data stop target = Some y"
    using w assms(3) hash
  proof (induction rule: rev4_loop.raw_induct [OF _ that])
    case (1 f w data stop target y)
    then show ?case
      by (subst reverse_x4_loop.simps, subst x4_loop_step [where w = "w data"])
        (auto simp: Let_def split: option.splits if_splits)
  qed
  show "length data = 4 \<Longrightarrow> rev4_loop w data stop target = Some y"
    if "reverse_x4_loop hash4 data stop target = Some y"
    using w assms(3) hash
  proof (induction rule: reverse_x4_loop.raw_induct [OF _ that])
    case (1 f hash4 data stop target y)
    then show ?case
      by (subst rev4_loop.simps, subst x4_loop_step [where w = "w data", symmetric])
        (auto simp: Let_def split: option.splits if_splits)
  qed
qed

text \<open>
  C11: the inlined search agrees with the search of \<open>reverse.c\<close> over \<open>sha256x4_fullyfused\<close> on every range
  and every 32-byte target, whatever the register arrays hold: the same answer, and the same
  absence of one where the loop does not end. In particular the early exit after round 56 never
  skips a group that holds an answer.
\<close>

theorem reverse_sha256x4_fullyfused_equiv:
  assumes "\<forall>d. length (w d) = 48" "\<forall>m. length (w' m) = 48" "length target = 32"
  shows "reverse_sha256x4_fullyfused w start stop target =
    reverse_sha256_x4 (\<lambda>m. sha256x4_fullyfused (w' m) m) start stop target"
proof -
  note agree = loops_agree [OF lane_hash_fullyfused [OF assms(2)] assms(1,3),
      of "[start, start + 1, start + 2, start + 3]" stop]
  show ?thesis
    unfolding reverse_sha256x4_fullyfused_def reverse_sha256_x4_def
  proof (cases "rev4_loop w [start, start + 1, start + 2, start + 3] stop target")
    case None
    then show "rev4_loop w [start, start + 1, start + 2, start + 3] stop target =
        reverse_x4_loop (\<lambda>m. sha256x4_fullyfused (w' m) m)
          [start, start + 1, start + 2, start + 3] stop target"
      using agree(2) by (cases "reverse_x4_loop (\<lambda>m. sha256x4_fullyfused (w' m) m)
          [start, start + 1, start + 2, start + 3] stop target") simp_all
  next
    case (Some y)
    then show "rev4_loop w [start, start + 1, start + 2, start + 3] stop target =
        reverse_x4_loop (\<lambda>m. sha256x4_fullyfused (w' m) m)
          [start, start + 1, start + 2, start + 3] stop target"
      using agree(1) [of y] by simp
  qed
qed

theorem reverse_sha256x4_fullyfused_equiv_witness:
  "reverse_sha256x4_fullyfused (\<lambda>_. replicate 48 (mm_set1_epi32 1)) 0 20 (replicate 32 3) =
    reverse_sha256_x4 (\<lambda>m. sha256x4_fullyfused (replicate 48 (mm_set1_epi32 2)) m) 0 20 (replicate 32 3)"
  by (rule reverse_sha256x4_fullyfused_equiv) simp_all

end
