(* ===== verification/X86.thy ===== *)
theory X86
  imports Reverse_X4 "HOL-Library.While_Combinator"
begin

text \<open>
  The part of the x86-64 and AVX instruction set that the inline assembly of \<open>src/sha256/x4\<close> uses, with its
  mnemonics (an operation on the 32-bit halves of the general registers has the suffix
  \<open>32\<close>, a store to memory the suffix \<open>to\<close>). A register holds a number or a pointer into an object: the
  stack frame below the aligned stack pointer, the area of saved registers above it, a constant table, the
  input or the output. An access out of the bounds of its object, a misaligned vector access and an operation
  that is not defined on pointers have no result, so that a theorem that says what code computes also says that it
  makes no such access.
\<close>

section \<open>Registers, objects and addresses\<close>

datatype gpr = RAX | RBX | RCX | RDX | RSI | RDI | RBP | RSP | R8 | R9 | R10 | R11 | R14

datatype object = Frame | Saved | Words | Ktab | Input | Output | Htab | Byteswap | Punpack | Top_Bit | Sixty_Four

datatype val = Num u64 | Ptr object nat

text \<open>
  \<open>[base + disp]\<close>, \<open>[base + scale * index + disp]\<close>, \<open>symbol + disp\<close> and \<open>[base - disp]\<close>, in bytes. The objects are in units
  of four bytes.
\<close>

datatype addr = Mem gpr nat | MemIx gpr nat gpr nat | Sym object nat | Below gpr nat

datatype operand = X nat | M addr

datatype storage = Table "u32 list" | Area nat

text \<open>
  The flags ZF and CF; \<open>None\<close> after an instruction whose flags the code never reads. \<open>fs40\<close> is the stack
  protector's value in \<open>fs:[40]\<close>.
\<close>

record cpu =
  reg :: "gpr \<Rightarrow> val"
  xmm :: "nat \<Rightarrow> m128"
  mem :: "object \<Rightarrow> nat \<Rightarrow> u32"
  saved :: "nat \<Rightarrow> val"
  flags :: "(bool \<times> bool) option"
  fs40 :: u64

datatype op3 = Paddd | Psubd | Pand | Pandn | Por | Pxor | Pcmpeqd | Punpckldq | Punpckhdq | Punpcklqdq
  | Punpckhqdq | Pshufb | Paddq | Punpcklbw | Punpckhbw

datatype alu = Xor | And | Add | Sub

datatype general =
    mov gpr gpr | mov_to addr gpr | mov_from gpr addr | mov_fs40 gpr | mov32 gpr gpr | mov32_from gpr addr
  | mov32_imm gpr u32 | movzx8 gpr gpr | alu32 alu gpr gpr | shld32 gpr gpr nat | shl32 gpr nat | rep_bsf32 gpr gpr
  | test32 gpr gpr | add_imm gpr u64 | sub_imm gpr u64 | and_imm gpr int | or64 gpr gpr | xor64 gpr gpr | lea gpr addr
  | lea_below gpr gpr nat | cmp64 gpr gpr | cmp_imm gpr u64 | cmp_mem gpr addr | push gpr | pop gpr

datatype instr =
    op3 op3 nat nat operand | vpsrld nat nat nat | vpslld nat nat nat
  | vmovdqa nat operand | vmovdqa_to addr nat | vbroadcastss nat addr
  | vpshufd nat nat nat | vmovddup nat addr | vmovd nat gpr | vmovq gpr nat | vptest nat nat | vmovmskps gpr nat
  | vzeroupper | gp general

abbreviation "vpaddd \<equiv> op3 Paddd"
abbreviation "vpsubd \<equiv> op3 Psubd"
abbreviation "vpand \<equiv> op3 Pand"
abbreviation "vpandn \<equiv> op3 Pandn"
abbreviation "vpor \<equiv> op3 Por"
abbreviation "vpxor \<equiv> op3 Pxor"
abbreviation "vpcmpeqd \<equiv> op3 Pcmpeqd"
abbreviation "vpunpckldq \<equiv> op3 Punpckldq"
abbreviation "vpunpckhdq \<equiv> op3 Punpckhdq"
abbreviation "vpunpcklqdq \<equiv> op3 Punpcklqdq"
abbreviation "vpunpckhqdq \<equiv> op3 Punpckhqdq"
abbreviation "vpshufb \<equiv> op3 Pshufb"
abbreviation "vpaddq \<equiv> op3 Paddq"
abbreviation "vpunpcklbw \<equiv> op3 Punpcklbw"
abbreviation "vpunpckhbw \<equiv> op3 Punpckhbw"
abbreviation "pxor d a \<equiv> op3 Pxor d d (X a)"
abbreviation "vmovaps \<equiv> vmovdqa"
abbreviation "vmovaps_to \<equiv> vmovdqa_to"
abbreviation "xor32 \<equiv> alu32 Xor"
abbreviation "and32 \<equiv> alu32 And"
abbreviation "add32 \<equiv> alu32 Add"
abbreviation "sub32 \<equiv> alu32 Sub"
abbreviation "inc r \<equiv> add_imm r 1"

section \<open>Memory\<close>

fun resolve :: "(gpr \<Rightarrow> val) \<Rightarrow> addr \<Rightarrow> (object \<times> nat) option" where
  "resolve g (Mem b d) = (case g b of Ptr r off \<Rightarrow> Some (r, off + d) | Num _ \<Rightarrow> None)"
| "resolve g (MemIx b sc i d) =
     (case (g b, g i) of
        (Ptr r off, Num n) \<Rightarrow> Some (r, off + sc * unat n + d)
      | (Num n, Ptr r off) \<Rightarrow> if sc = 1 then Some (r, off + unat n + d) else None
      | _ \<Rightarrow> None)"
| "resolve g (Sym r d) = Some (r, d)"
| "resolve g (Below b d) = (case g b of Ptr r off \<Rightarrow> if d \<le> off then Some (r, off - d) else None | Num _ \<Rightarrow> None)"

definition load4 :: "(object \<Rightarrow> storage) \<Rightarrow> cpu \<Rightarrow> object \<Rightarrow> nat \<Rightarrow> u32 option" where
  "load4 ob s r off =
     (if 4 dvd off then
        case ob r of
          Table ws \<Rightarrow> rd ws (off div 4)
        | Area n \<Rightarrow> if off div 4 < n then Some (mem s r (off div 4)) else None
      else None)"

definition store4 :: "(object \<Rightarrow> storage) \<Rightarrow> object \<Rightarrow> nat \<Rightarrow> u32 \<Rightarrow> cpu \<Rightarrow> cpu option" where
  "store4 ob r off v s =
     (case ob r of
        Area n \<Rightarrow> if 4 dvd off \<and> off div 4 < n then Some (s\<lparr>mem := (mem s)(r := (mem s r)(off div 4 := v))\<rparr>) else None
      | Table _ \<Rightarrow> None)"

definition load16 :: "(object \<Rightarrow> storage) \<Rightarrow> cpu \<Rightarrow> object \<Rightarrow> nat \<Rightarrow> m128 option" where
  "load16 ob s r off =
     (if 16 dvd off then do {
        a \<leftarrow> load4 ob s r off;
        b \<leftarrow> load4 ob s r (off + 4);
        c \<leftarrow> load4 ob s r (off + 8);
        d \<leftarrow> load4 ob s r (off + 12);
        Some (M128 a b c d)
      } else None)"

definition store16 :: "(object \<Rightarrow> storage) \<Rightarrow> object \<Rightarrow> nat \<Rightarrow> m128 \<Rightarrow> cpu \<Rightarrow> cpu option" where
  "store16 ob r off v s =
     (if 16 dvd off then do {
        s \<leftarrow> store4 ob r off (lane0 v) s;
        s \<leftarrow> store4 ob r (off + 4) (lane1 v) s;
        s \<leftarrow> store4 ob r (off + 8) (lane2 v) s;
        store4 ob r (off + 12) (lane3 v) s
      } else None)"

definition join64 :: "u32 \<Rightarrow> u32 \<Rightarrow> u64" where
  "join64 lo hi = ucast lo OR push_bit 32 (ucast hi)"

definition lo32 :: "u64 \<Rightarrow> u32" where "lo32 x = ucast x"
definition hi32 :: "u64 \<Rightarrow> u32" where "hi32 x = ucast (drop_bit 32 x)"

definition load8 :: "(object \<Rightarrow> storage) \<Rightarrow> cpu \<Rightarrow> object \<Rightarrow> nat \<Rightarrow> u64 option" where
  "load8 ob s r off = do { a \<leftarrow> load4 ob s r off; b \<leftarrow> load4 ob s r (off + 4); Some (join64 a b) }"

definition at_addr :: "cpu \<Rightarrow> addr \<Rightarrow> (object \<Rightarrow> nat \<Rightarrow> 'a option) \<Rightarrow> 'a option" where
  "at_addr s m k = (case resolve (reg s) m of Some (r, off) \<Rightarrow> k r off | None \<Rightarrow> None)"

fun vsrc :: "(object \<Rightarrow> storage) \<Rightarrow> cpu \<Rightarrow> operand \<Rightarrow> m128 option" where
  "vsrc ob s (X n) = Some (xmm s n)"
| "vsrc ob s (M m) = at_addr s m (load16 ob s)"

section \<open>Instructions\<close>

text \<open>Only the lower 128 bits of the vector registers are modelled; \<open>vzeroupper\<close> does not change them.\<close>

fun num :: "val \<Rightarrow> u64 option" where
  "num (Num x) = Some x"
| "num (Ptr r off) = None"

definition set_reg :: "gpr \<Rightarrow> val \<Rightarrow> cpu \<Rightarrow> cpu" where
  "set_reg d v s = s\<lparr>reg := (reg s)(d := v)\<rparr>"

definition set_xmm :: "nat \<Rightarrow> m128 \<Rightarrow> cpu \<Rightarrow> cpu" where
  "set_xmm d v s = s\<lparr>xmm := (xmm s)(d := v)\<rparr>"

text \<open>A result of 32 bits clears the upper half of the register.\<close>

definition set_reg32 :: "gpr \<Rightarrow> u32 \<Rightarrow> cpu \<Rightarrow> cpu" where
  "set_reg32 d v s = set_reg d (Num (ucast v)) s\<lparr>flags := None\<rparr>"

definition mm_sub_epi32 :: "m128 \<Rightarrow> m128 \<Rightarrow> m128" where "mm_sub_epi32 = lift2 (-)"

fun mm_unpacklo_epi64 :: "m128 \<Rightarrow> m128 \<Rightarrow> m128" where
  "mm_unpacklo_epi64 (M128 a0 a1 a2 a3) (M128 b0 b1 b2 b3) = M128 a0 a1 b0 b1"

fun mm_unpackhi_epi64 :: "m128 \<Rightarrow> m128 \<Rightarrow> m128" where
  "mm_unpackhi_epi64 (M128 a0 a1 a2 a3) (M128 b0 b1 b2 b3) = M128 a2 a3 b2 b3"

fun mm_add_epi64 :: "m128 \<Rightarrow> m128 \<Rightarrow> m128" where
  "mm_add_epi64 (M128 a0 a1 a2 a3) (M128 b0 b1 b2 b3) =
     (let x = join64 a0 a1 + join64 b0 b1; y = join64 a2 a3 + join64 b2 b3
      in M128 (lo32 x) (hi32 x) (lo32 y) (hi32 y))"

text \<open>Interleaving the bytes of two registers: of the lower halves, of the upper halves.\<close>

definition mm_unpack_epi8 :: "nat \<Rightarrow> m128 \<Rightarrow> m128 \<Rightarrow> m128" where
  "mm_unpack_epi8 k x y = mm_load (concat (map (\<lambda>i. [m128_bytes x ! i, m128_bytes y ! i]) [k..<k + 8])) 0"

text \<open>
  Arithmetic on pointers: rounding the stack pointer down to a multiple of 64 gives the upper end of an
  aligned frame, and as the frame starts at a multiple of 64 a bitwise or with a number below 64 acts on the
  offset.
\<close>

fun ptr_or :: "val \<Rightarrow> val \<Rightarrow> val option" where
  "ptr_or (Num x) (Num y) = Some (Num (x OR y))"
| "ptr_or (Ptr r off) (Num y) = (if r = Frame \<and> y < 64 then Some (Ptr r (off OR unat y)) else None)"
| "ptr_or _ _ = None"

fun ptr_and :: "(object \<Rightarrow> storage) \<Rightarrow> val \<Rightarrow> int \<Rightarrow> val option" where
  "ptr_and ob (Num x) n = Some (Num (x AND word_of_int n))"
| "ptr_and ob (Ptr r off) n =
     (case ob Frame of
        Area k \<Rightarrow> if r = Saved \<and> n = - 64 then Some (Ptr Frame (4 * k)) else None
      | Table _ \<Rightarrow> None)"

fun ptr_add :: "val \<Rightarrow> u64 \<Rightarrow> val" where
  "ptr_add (Num x) y = Num (x + y)"
| "ptr_add (Ptr r off) y = Ptr r (off + unat y)"

fun ptr_sub :: "val \<Rightarrow> u64 \<Rightarrow> val option" where
  "ptr_sub (Num x) y = Some (Num (x - y))"
| "ptr_sub (Ptr r off) y = (if unat y \<le> off then Some (Ptr r (off - unat y)) else None)"

definition compare :: "val \<Rightarrow> u64 \<Rightarrow> cpu \<Rightarrow> cpu option" where
  "compare x b s = do { a \<leftarrow> num x; Some (s\<lparr>flags := Some (a = b, a < b)\<rparr>) }"

text \<open>Pointers into the same object compare like their offsets.\<close>

definition compare_regs :: "val \<Rightarrow> val \<Rightarrow> cpu \<Rightarrow> cpu option" where
  "compare_regs v w s =
     (case (v, w) of
        (Ptr r x, Ptr r' y) \<Rightarrow> if r = r' then Some (s\<lparr>flags := Some (x = y, x < y)\<rparr>) else None
      | _ \<Rightarrow> do { b \<leftarrow> num w; compare v b s })"

primrec vec3 :: "op3 \<Rightarrow> m128 \<Rightarrow> m128 \<Rightarrow> m128" where
  "vec3 Paddd = mm_add_epi32"
| "vec3 Psubd = mm_sub_epi32"
| "vec3 Pand = mm_and"
| "vec3 Pandn = mm_andnot"
| "vec3 Por = mm_or"
| "vec3 Pxor = mm_xor"
| "vec3 Pcmpeqd = mm_cmpeq_epi32"
| "vec3 Punpckldq = mm_unpacklo_epi32"
| "vec3 Punpckhdq = mm_unpackhi_epi32"
| "vec3 Punpcklqdq = mm_unpacklo_epi64"
| "vec3 Punpckhqdq = mm_unpackhi_epi64"
| "vec3 Pshufb = (\<lambda>x y. mm_shuffle_epi8 x (map unat (m128_bytes y)))"
| "vec3 Paddq = mm_add_epi64"
| "vec3 Punpcklbw = mm_unpack_epi8 0"
| "vec3 Punpckhbw = mm_unpack_epi8 8"

primrec alu_op :: "alu \<Rightarrow> u32 \<Rightarrow> u32 \<Rightarrow> u32" where
  "alu_op Xor = (XOR)"
| "alu_op And = (AND)"
| "alu_op Add = (+)"
| "alu_op Sub = (-)"

primrec exec_general :: "(object \<Rightarrow> storage) \<Rightarrow> general \<Rightarrow> cpu \<Rightarrow> cpu option" where
  "exec_general ob (mov d a) = (\<lambda>s. Some (set_reg d (reg s a) s))"
| "exec_general ob (mov_to m a) = (\<lambda>s. do {
     x \<leftarrow> num (reg s a);
     at_addr s m (\<lambda>r off. do { s \<leftarrow> store4 ob r off (lo32 x) s; store4 ob r (off + 4) (hi32 x) s }) })"
| "exec_general ob (mov_from d m) = (\<lambda>s. do { x \<leftarrow> at_addr s m (load8 ob s); Some (set_reg d (Num x) s) })"
| "exec_general ob (mov_fs40 d) = (\<lambda>s. Some (set_reg d (Num (fs40 s)) s))"
| "exec_general ob (mov32 d a) = (\<lambda>s. do { x \<leftarrow> num (reg s a); Some (set_reg d (Num (ucast (lo32 x))) s) })"
| "exec_general ob (mov32_from d m) = (\<lambda>s. do { x \<leftarrow> at_addr s m (load4 ob s); Some (set_reg d (Num (ucast x)) s) })"
| "exec_general ob (mov32_imm d n) = (\<lambda>s. Some (set_reg d (Num (ucast n)) s))"
| "exec_general ob (movzx8 d a) = (\<lambda>s. do { x \<leftarrow> num (reg s a); Some (set_reg d (Num (ucast (ucast x :: u8))) s) })"
| "exec_general ob (alu32 f d a) = (\<lambda>s. do {
     x \<leftarrow> num (reg s d);
     y \<leftarrow> num (reg s a);
     Some (set_reg32 d (alu_op f (lo32 x) (lo32 y)) s) })"
| "exec_general ob (shld32 d a n) = (\<lambda>s. do {
     x \<leftarrow> num (reg s d);
     y \<leftarrow> num (reg s a);
     Some (set_reg32 d (push_bit n (lo32 x) OR drop_bit (32 - n) (lo32 y)) s) })"
| "exec_general ob (shl32 d n) = (\<lambda>s. do { x \<leftarrow> num (reg s d); Some (set_reg32 d (push_bit n (lo32 x)) s) })"
| "exec_general ob (rep_bsf32 d a) = (\<lambda>s. do {
     x \<leftarrow> num (reg s a);
     if lo32 x = 0 then None else Some (set_reg32 d (of_nat (builtin_ctz (lo32 x))) s) })"
| "exec_general ob (test32 a b) = (\<lambda>s. do {
     x \<leftarrow> num (reg s a);
     y \<leftarrow> num (reg s b);
     Some (s\<lparr>flags := Some (lo32 x AND lo32 y = 0, False)\<rparr>) })"
| "exec_general ob (add_imm d n) = (\<lambda>s. Some (set_reg d (ptr_add (reg s d) n) s\<lparr>flags := None\<rparr>))"
| "exec_general ob (sub_imm d n) = (\<lambda>s. do { v \<leftarrow> ptr_sub (reg s d) n; Some (set_reg d v s\<lparr>flags := None\<rparr>) })"
| "exec_general ob (and_imm d n) = (\<lambda>s. do { v \<leftarrow> ptr_and ob (reg s d) n; Some (set_reg d v s\<lparr>flags := None\<rparr>) })"
| "exec_general ob (or64 d a) = (\<lambda>s. do { v \<leftarrow> ptr_or (reg s d) (reg s a); Some (set_reg d v s\<lparr>flags := None\<rparr>) })"
| "exec_general ob (xor64 d a) = (\<lambda>s.
     if d = a then Some (set_reg d (Num 0) s\<lparr>flags := None\<rparr>)
     else do {
       x \<leftarrow> num (reg s d);
       y \<leftarrow> num (reg s a);
       Some (set_reg d (Num (x XOR y)) s\<lparr>flags := None\<rparr>) })"
| "exec_general ob (lea d m) = (\<lambda>s.
     case m of
       Mem b n \<Rightarrow> Some (set_reg d (ptr_add (reg s b) (of_nat n)) s)
     | _ \<Rightarrow> at_addr s m (\<lambda>r off. Some (set_reg d (Ptr r off) s)))"
| "exec_general ob (lea_below d b n) = (\<lambda>s. do { v \<leftarrow> ptr_sub (reg s b) (of_nat n); Some (set_reg d v s) })"
| "exec_general ob (cmp64 a b) = (\<lambda>s. compare_regs (reg s a) (reg s b) s)"
| "exec_general ob (cmp_imm a n) = (\<lambda>s. compare (reg s a) n s)"
| "exec_general ob (cmp_mem a m) = (\<lambda>s. do { y \<leftarrow> at_addr s m (load8 ob s); compare (reg s a) y s })"
| "exec_general ob (push a) = (\<lambda>s.
     case reg s RSP of
       Ptr r off \<Rightarrow> if r = Saved \<and> 8 \<le> off
         then Some (set_reg RSP (Ptr r (off - 8)) s\<lparr>saved := (saved s)((off - 8) div 8 := reg s a)\<rparr>) else None
     | Num _ \<Rightarrow> None)"
| "exec_general ob (pop a) = (\<lambda>s.
     case reg s RSP of
       Ptr r off \<Rightarrow> if r = Saved then Some (set_reg a (saved s (off div 8)) (set_reg RSP (Ptr r (off + 8)) s)) else None
     | Num _ \<Rightarrow> None)"

primrec exec1 :: "(object \<Rightarrow> storage) \<Rightarrow> instr \<Rightarrow> cpu \<Rightarrow> cpu option" where
  "exec1 ob (op3 f d a b) = (\<lambda>s. do { y \<leftarrow> vsrc ob s b; Some (set_xmm d (vec3 f (xmm s a) y) s) })"
| "exec1 ob (vpsrld d a n) = (\<lambda>s. Some (set_xmm d (mm_srli_epi32 (xmm s a) n) s))"
| "exec1 ob (vpslld d a n) = (\<lambda>s. Some (set_xmm d (mm_slli_epi32 (xmm s a) n) s))"
| "exec1 ob (vmovdqa d b) = (\<lambda>s. do { y \<leftarrow> vsrc ob s b; Some (set_xmm d y s) })"
| "exec1 ob (vmovdqa_to m a) = (\<lambda>s. at_addr s m (\<lambda>r off. store16 ob r off (xmm s a) s))"
| "exec1 ob (vbroadcastss d m) = (\<lambda>s. do { x \<leftarrow> at_addr s m (load4 ob s); Some (set_xmm d (mm_set1_epi32 x) s) })"
| "exec1 ob (vpshufd d a n) = (\<lambda>s. Some (set_xmm d (mm_shuffle_epi32 (xmm s a) n) s))"
| "exec1 ob (vmovddup d m) = (\<lambda>s. do {
     x \<leftarrow> at_addr s m (load8 ob s);
     Some (set_xmm d (M128 (lo32 x) (hi32 x) (lo32 x) (hi32 x)) s) })"
| "exec1 ob (vmovd d a) = (\<lambda>s. do { x \<leftarrow> num (reg s a); Some (set_xmm d (M128 (lo32 x) 0 0 0) s) })"
| "exec1 ob (vmovq d a) = (\<lambda>s. Some (set_reg d (Num (join64 (lane0 (xmm s a)) (lane1 (xmm s a)))) s))"
| "exec1 ob (vptest a b) = (\<lambda>s. Some (s\<lparr>flags :=
     Some (mm_testz (xmm s a) (xmm s b), mm_andnot (xmm s a) (xmm s b) = M128 0 0 0 0)\<rparr>))"
| "exec1 ob (vmovmskps d a) = (\<lambda>s. Some (set_reg d (Num (ucast (mm_movemask_ps (xmm s a)))) s))"
| "exec1 ob vzeroupper = Some"
| "exec1 ob (gp g) = exec_general ob g"

primrec exec :: "(object \<Rightarrow> storage) \<Rightarrow> instr list \<Rightarrow> cpu \<Rightarrow> cpu option" where
  "exec ob [] s = Some s"
| "exec ob (i # is) s = Option.bind (exec1 ob i s) (exec ob is)"

lemma exec_append: "exec ob (is @ js) s = Option.bind (exec ob is s) (exec ob js)"
  by (induction "is" arbitrary: s) (auto split: bind_split)

section \<open>Programs\<close>

text \<open>
  A program is a set of basic blocks, named by the local labels of the assembly; 0 is the entry, and a
  block that is only reached by falling through has a number that is no label of the code.
\<close>

datatype cond = Je | Jne | Ja

text \<open>\<open>Fail\<close> is the call of \<open>__stack_chk_fail\<close>, which does not return.\<close>

datatype exit = Jmp nat | Jcc cond nat nat | Ret | Fail

fun taken :: "cond \<Rightarrow> bool \<times> bool \<Rightarrow> bool" where
  "taken Je (z, c) \<longleftrightarrow> z"
| "taken Jne (z, c) \<longleftrightarrow> \<not> z"
| "taken Ja (z, c) \<longleftrightarrow> \<not> z \<and> \<not> c"

datatype place = At nat | Done | Stuck

type_synonym program = "nat \<Rightarrow> instr list \<times> exit"

fun leave :: "exit \<Rightarrow> cpu \<Rightarrow> place" where
  "leave (Jmp l) s = At l"
| "leave (Jcc c l l') s = (case flags s of Some f \<Rightarrow> At (if taken c f then l else l') | None \<Rightarrow> Stuck)"
| "leave Ret s = Done"
| "leave Fail s = Stuck"

fun block_step :: "(object \<Rightarrow> storage) \<Rightarrow> program \<Rightarrow> place \<times> cpu \<Rightarrow> place \<times> cpu" where
  "block_step ob p (At l, s) =
     (case exec ob (fst (p l)) s of
        Some s' \<Rightarrow> (leave (snd (p l)) s', s')
      | None \<Rightarrow> (Stuck, s))"
| "block_step ob p (pl, s) = (pl, s)"

fun running :: "place \<times> cpu \<Rightarrow> bool" where
  "running (At l, s) = True"
| "running _ = False"

definition run :: "(object \<Rightarrow> storage) \<Rightarrow> program \<Rightarrow> nat \<Rightarrow> cpu \<Rightarrow> (place \<times> cpu) option" where
  "run ob p l s = while_option running (block_step ob p) (At l, s)"

text \<open>A call of one of the two searches: the arguments in the registers of the calling convention.\<close>

definition call_search :: "u64 \<Rightarrow> u64 \<Rightarrow> nat \<Rightarrow> cpu \<Rightarrow> cpu" where
  "call_search start stop sp s =
     s\<lparr>reg := (reg s)(RDI := Num start, RSI := Num stop, RDX := Ptr Input 0, RSP := Ptr Saved sp)\<rparr>"

text \<open>A state of the machine, for examples.\<close>

definition idle_cpu :: cpu where
  "idle_cpu = \<lparr>reg = (\<lambda>_. Num 7), xmm = (\<lambda>_. M128 1 2 3 4), mem = (\<lambda>_ _. 5), saved = (\<lambda>_. Num 6), flags = None, fs40 = 0x1234567890\<rparr>"

end
