(* ===== verification/Asm1_Code.thy ===== *)
theory Asm1_Code
  imports X86
begin

text \<open>
  \<open>src/sha256/x4/reverse_fullyfused_asm_x4.c\<close>, the older of the two searches in assembly: its constant tables and its
  inline assembly, instruction by instruction, cut into the stretches of one round each that the proofs use,
  and the basic blocks they make up.
\<close>

section \<open>Tables\<close>

definition asm1_k :: "u32 list" where
  "asm1_k = concat [
     [0x428a2f98, 0x71374491, 0xb5c0fbcf, 0xe9b5dba5, 0x3956c25b, 0x59f111f1],
     [0x923f82a4, 0xab1c5ed5, 0xd807aa98, 0x12835b01, 0x243185be, 0x550c7dc3],
     [0x72be5d74, 0x80deb1fe, 0x9bdc06a7, 0xc19bf174, 0xe49b69c1, 0xefbe4786],
     [0x0fc19dc6, 0x240ca1cc, 0x2de92c6f, 0x4a7484aa, 0x5cb0a9dc, 0x76f988da],
     [0x983e5152, 0xa831c66d, 0xb00327c8, 0xbf597fc7, 0xc6e00bf3, 0xd5a79147],
     [0x06ca6351, 0x14292967, 0x27b70a85, 0x2e1b2138, 0x4d2c6dfc, 0x53380d13],
     [0x650a7354, 0x766a0abb, 0x81c2c92e, 0x92722c85, 0xa2bfe8a1, 0xa81a664b],
     [0xc24b8b70, 0xc76c51a3, 0xd192e819, 0xd6990624, 0xf40e3585, 0x106aa070],
     [0x19a4c116, 0x1e376c08, 0x2748774c, 0x34b0bcb5, 0x391c0cb3, 0x4ed8aa4a],
     [0x5b9cca4f, 0x682e6ff3, 0x748f82ee, 0x78a5636f, 0x84c87814, 0x8cc70208],
     [0x90befffa, 0xa4506ceb, 0xbef9a3f7, 0xc67178f2]]"

definition asm1_WORDS :: "u32 list" where
  "asm1_WORDS = [
    0x00010203, 0x04050607, 0x08090a0b, 0x0c0d0e0f,
    0x98c7e2a2, 0x98c7e2a2, 0x98c7e2a2, 0x98c7e2a2,
    0xfc08884d, 0xfc08884d, 0xfc08884d, 0xfc08884d,
    0xd16e48e2, 0xd16e48e2, 0xd16e48e2, 0xd16e48e2,
    0x510e527f, 0x510e527f, 0x510e527f, 0x510e527f,
    0x9b05688c, 0x9b05688c, 0x9b05688c, 0x9b05688c,
    0xcd2a11ae, 0xcd2a11ae, 0xcd2a11ae, 0xcd2a11ae,
    0xbabcc441, 0xbabcc441, 0xbabcc441, 0xbabcc441,
    0x6a09e667, 0x6a09e667, 0x6a09e667, 0x6a09e667,
    0x8c2e12e0, 0x8c2e12e0, 0x8c2e12e0, 0x8c2e12e0,
    0xd0c6645b, 0xd0c6645b, 0xd0c6645b, 0xd0c6645b,
    0xc19bf1b4, 0xc19bf1b4, 0xc19bf1b4, 0xc19bf1b4,
    0xe49b69c1, 0xe49b69c1, 0xe49b69c1, 0xe49b69c1,
    0x11282000, 0x11282000, 0x11282000, 0x11282000,
    0x00e66786, 0x00e66786, 0x00e66786, 0x00e66786,
    0x80000000, 0x80000000, 0x80000000, 0x80000000,
    0x8fc19dc6, 0x8fc19dc6, 0x8fc19dc6, 0x8fc19dc6,
    0x240ca1cc, 0x240ca1cc, 0x240ca1cc, 0x240ca1cc,
    0x2de92c6f, 0x2de92c6f, 0x2de92c6f, 0x2de92c6f,
    0x4a7484aa, 0x4a7484aa, 0x4a7484aa, 0x4a7484aa,
    0x00000040, 0x00000040, 0x00000040, 0x00000040,
    0x5cb0aa1c, 0x5cb0aa1c, 0x5cb0aa1c, 0x5cb0aa1c,
    0x76f988da, 0x76f988da, 0x76f988da, 0x76f988da,
    0x983e5152, 0x983e5152, 0x983e5152, 0x983e5152,
    0xa831c66d, 0xa831c66d, 0xa831c66d, 0xa831c66d,
    0xb00327c8, 0xb00327c8, 0xb00327c8, 0xb00327c8,
    0xbf597fc7, 0xbf597fc7, 0xbf597fc7, 0xbf597fc7,
    0xc6e00bf3, 0xc6e00bf3, 0xc6e00bf3, 0xc6e00bf3,
    0xd5a79147, 0xd5a79147, 0xd5a79147, 0xd5a79147,
    0x80100008, 0x80100008, 0x80100008, 0x80100008,
    0x86da6359, 0x86da6359, 0x86da6359, 0x86da6359,
    0x14292967, 0x14292967, 0x14292967, 0x14292967,
    0xa4506ceb, 0xa4506ceb, 0xa4506ceb, 0xa4506ceb,
    0xbef9a3f7, 0xbef9a3f7, 0xbef9a3f7, 0xbef9a3f7,
    0xc67178f2, 0xc67178f2, 0xc67178f2, 0xc67178f2,
    0x00000004, 0x00000000, 0x00000004, 0x00000000,
    0x00000004, 0x00000000, 0x00000000, 0x00000000,
    0x510e527f, 0x510e527f, 0x510e527f, 0x510e527f,
    0x6a09e667, 0x6a09e667, 0x6a09e667, 0x6a09e667,
    0x00000040, 0x00000040, 0x00000040, 0x00000040]"

section \<open>Instructions\<close>

definition asm1_enter :: "instr list" where
  "asm1_enter = [
     gp (push RBP), gp (mov RBP RSP), gp (and_imm RSP (- 64)), gp (sub_imm RSP 960), gp (mov_fs40 RAX),
     gp (mov_to (Mem RSP 936) RAX), vbroadcastss 0 (Mem RDX 28), vmovaps_to (Mem RSP 80) 0,
     gp (mov_to (Mem RSP 896) RDI), gp (lea RAX (Mem RDI 1)), gp (mov_to (Mem RSP 904) RAX), gp (lea RAX (Mem RDI 2)),
     gp (mov_to (Mem RSP 912) RAX), gp (add_imm RDI 3), gp (mov_to (Mem RSP 920) RDI), gp (lea RCX (Sym Ktab 0)),
     gp (xor32 RAX RAX)]"

definition asm1_next :: "instr list" where
  "asm1_next = [
     vmovddup 1 (Sym Words 576), vpaddq 0 1 (M (Mem RSP 912)), vpaddq 1 1 (M (Mem RSP 896)),
     vmovdqa_to (Mem RSP 896) 1, vmovdqa_to (Mem RSP 912) 0, vmovq RDI 1, gp (cmp64 RDI RSI)]"

definition asm1_words :: "instr list" where
  "asm1_words = [
     vmovdqa 0 (M (Mem RSP 896)), vmovdqa 1 (M (Mem RSP 912)), vmovdqa 2 (M (Sym Words 0)), vpshufb 0 0 (X 2),
     vpshufb 1 1 (X 2), vpunpckldq 2 0 (X 1), vpunpckhdq 0 0 (X 1), vpunpckldq 7 2 (X 0), vpunpckhdq 3 2 (X 0)]"

definition asm1_round0 :: "instr list" where
  "asm1_round0 = [
     vpaddd 14 7 (M (Sym Words 16)), vpaddd 2 7 (M (Sym Words 32)), vpsrld 0 2 2, vpslld 1 2 30, vpor 0 1 (X 0),
     vpsrld 1 2 13, vpslld 4 2 19, vpor 1 4 (X 1), vpsrld 4 2 22, vpslld 5 2 10, vpor 4 5 (X 4), vpxor 1 1 (X 4),
     vpxor 0 1 (X 0), vpand 1 2 (M (Sym Words 48)), vpaddd 0 0 (X 1), vpsrld 1 14 6, vpslld 4 14 26, vpor 1 4 (X 1),
     vpsrld 4 14 11, vpslld 5 14 21, vpor 4 5 (X 4), vpsrld 5 14 25, vpslld 6 14 7, vpor 5 6 (X 5), vpxor 4 4 (X 5),
     vpxor 1 4 (X 1), vbroadcastss 9 (Sym Words 592), vpand 4 14 (X 9), vpandn 5 14 (M (Sym Words 80)),
     vpor 4 5 (X 4), vpaddd 4 3 (X 4), vpaddd 1 4 (X 1), vpaddd 0 1 (X 0), vpaddd 6 0 (M (Sym Words 112)),
     vpaddd 13 1 (M (Sym Words 96))]"

definition asm1_round12 :: "instr list" where
  "asm1_round12 = [
     vpsrld 0 6 2, vpslld 1 6 30, vpor 0 1 (X 0), vpsrld 1 6 13, vpslld 4 6 19, vpor 1 4 (X 1), vpsrld 4 6 22,
     vpslld 5 6 10, vpor 4 5 (X 4), vpxor 1 1 (X 4), vpxor 0 1 (X 0), vpand 1 6 (X 2), vpxor 4 6 (X 2),
     vbroadcastss 10 (Sym Words 608), vpand 4 10 (X 4), vpxor 1 4 (X 1), vpaddd 0 1 (X 0), vpsrld 1 13 6,
     vpslld 4 13 26, vpor 1 4 (X 1), vpsrld 4 13 11, vpslld 5 13 21, vpor 4 5 (X 4), vpsrld 5 13 25, vpslld 8 13 7,
     vpor 5 8 (X 5), vpxor 4 4 (X 5), vpxor 1 4 (X 1), vpand 4 13 (X 14), vpandn 5 13 (X 9), vpor 4 4 (X 5),
     vpaddd 1 1 (X 4), vpaddd 4 1 (M (Sym Words 144)), vpaddd 0 0 (X 1), vpaddd 12 0 (M (Sym Words 160))]"

definition asm1_zero_round :: "instr list" where
  "asm1_zero_round = [
     vmovdqa 5 (X 0), vmovdqa 0 (X 14), vmovdqa 14 (X 13), vmovdqa 13 (X 4), vpsrld 8 4 6, vpslld 9 4 26,
     vpor 8 9 (X 8), vpsrld 9 4 11, vpslld 10 4 21, vpor 9 10 (X 9), vpsrld 10 4 25, vpslld 4 4 7, vpor 4 10 (X 4),
     vpxor 4 9 (X 4), vpxor 4 8 (X 4), vpand 8 13 (X 14), vpandn 9 13 (X 0), vpor 8 9 (X 8), vpaddd 5 8 (X 5),
     vpaddd 4 4 (X 5), vbroadcastss 5 (MemIx RCX 4 RDI 0), vpaddd 5 4 (X 5), vpaddd 4 5 (X 1), vmovdqa 1 (X 2),
     vmovdqa 2 (X 6), vmovdqa 6 (X 12), vpsrld 8 12 2, vpslld 9 12 30, vpor 8 9 (X 8), vpsrld 9 12 13,
     vpslld 10 12 19, vpor 9 10 (X 9), vpsrld 10 12 22, vpslld 11 12 10, vpor 10 11 (X 10), vpxor 9 9 (X 10),
     vpxor 8 9 (X 8), vpand 9 12 (X 2), vpxor 10 12 (X 2), vpand 10 10 (X 1), vpxor 9 10 (X 9), vpaddd 8 8 (X 9),
     vpaddd 12 8 (X 5)]"

definition asm1_round15 :: "instr list" where
  "asm1_round15 = [
     vpsrld 5 12 2, vpslld 8 12 30, vpor 5 8 (X 5), vpsrld 8 12 13, vpslld 9 12 19, vpor 8 9 (X 8), vpsrld 9 12 22,
     vpslld 10 12 10, vpor 9 10 (X 9), vpxor 8 8 (X 9), vpxor 5 8 (X 5), vpand 8 12 (X 6), vpxor 9 12 (X 6),
     vpand 9 9 (X 2), vpxor 8 9 (X 8), vpaddd 5 8 (X 5), vpsrld 8 4 6, vpslld 9 4 26, vpor 8 9 (X 8), vpsrld 9 4 11,
     vpslld 10 4 21, vpor 9 10 (X 9), vpsrld 10 4 25, vpslld 11 4 7, vpor 10 11 (X 10), vpxor 9 9 (X 10),
     vpxor 8 9 (X 8), vpand 9 13 (X 4), vpandn 10 4 (X 14), vpor 9 10 (X 9), vpaddd 0 9 (X 0), vpaddd 0 8 (X 0),
     vpaddd 0 0 (M (Sym Words 176)), vpaddd 10 0 (X 1), vpaddd 0 5 (X 0)]"

definition asm1_round16 :: "instr list" where
  "asm1_round16 = [
     vpsrld 1 3 18, vpslld 5 3 14, vpor 1 5 (X 1), vpsrld 5 3 3, vpxor 1 1 (X 5), vpsrld 5 3 7, vpslld 8 3 25,
     vpor 5 8 (X 5), vpxor 1 1 (X 5), vpaddd 11 1 (X 7), vpsrld 1 0 2, vpslld 5 0 30, vpor 1 5 (X 1), vpsrld 5 0 13,
     vpslld 7 0 19, vpor 5 7 (X 5), vpsrld 7 0 22, vpslld 8 0 10, vpor 7 8 (X 7), vpxor 5 5 (X 7), vpxor 1 5 (X 1),
     vpand 5 12 (X 0), vpxor 7 12 (X 0), vpand 7 7 (X 6), vpxor 5 7 (X 5), vpaddd 1 5 (X 1), vpsrld 5 10 6,
     vpslld 7 10 26, vpor 5 7 (X 5), vpsrld 7 10 11, vpslld 8 10 21, vpor 7 8 (X 7), vpsrld 8 10 25, vpslld 9 10 7,
     vpor 8 9 (X 8), vpxor 7 8 (X 7), vpxor 5 7 (X 5), vpand 7 10 (X 4), vpandn 8 10 (X 13), vpor 7 8 (X 7),
     vpaddd 8 11 (X 14), vpaddd 7 8 (X 7), vpaddd 5 7 (X 5), vpaddd 5 5 (M (Sym Words 192)), vpaddd 14 5 (X 2),
     vpaddd 7 1 (X 5)]"

definition asm1_round17 :: "instr list" where
  "asm1_round17 = [
     vpaddd 15 3 (M (Sym Words 208)), vpsrld 1 7 2, vpslld 2 7 30, vpor 1 2 (X 1), vpsrld 2 7 13, vpslld 5 7 19,
     vpor 2 5 (X 2), vpsrld 5 7 22, vpslld 8 7 10, vpor 5 8 (X 5), vpxor 2 2 (X 5), vpxor 1 2 (X 1), vpand 2 7 (X 0),
     vpxor 5 7 (X 0), vpand 5 12 (X 5), vpxor 2 5 (X 2), vpaddd 1 1 (X 2), vpsrld 2 14 6, vpslld 5 14 26,
     vpor 2 5 (X 2), vpsrld 5 14 11, vpslld 8 14 21, vpor 5 8 (X 5), vpsrld 8 14 25, vpslld 9 14 7, vpor 8 9 (X 8),
     vpxor 5 8 (X 5), vpxor 2 5 (X 2), vpand 5 14 (X 10), vpandn 8 14 (X 4), vpor 5 8 (X 5), vpaddd 3 13 (X 3),
     vpaddd 3 3 (X 5), vpaddd 2 3 (X 2), vpaddd 2 2 (M (Sym Words 224)), vpaddd 8 2 (X 6), vpaddd 5 1 (X 2)]"

definition asm1_round18 :: "instr list" where
  "asm1_round18 = [
     vpsrld 1 11 19, vpslld 2 11 13, vpor 1 2 (X 1), vpsrld 2 11 10, vpxor 1 1 (X 2), vpsrld 2 11 17, vpslld 3 11 15,
     vpor 2 3 (X 2), vpxor 2 1 (X 2), vpsrld 1 5 2, vpslld 3 5 30, vpor 1 3 (X 1), vpsrld 3 5 13, vpslld 6 5 19,
     vpor 3 6 (X 3), vpsrld 6 5 22, vpslld 9 5 10, vpor 6 9 (X 6), vpxor 3 3 (X 6), vpxor 1 3 (X 1), vpand 3 5 (X 7),
     vpxor 6 5 (X 7), vpand 6 6 (X 0), vpxor 3 6 (X 3), vpaddd 1 1 (X 3), vpsrld 3 8 6, vpslld 6 8 26, vpor 3 6 (X 3),
     vpsrld 6 8 11, vpslld 9 8 21, vpor 6 9 (X 6), vpsrld 9 8 25, vpslld 13 8 7, vpor 9 13 (X 9), vpxor 6 9 (X 6),
     vpxor 3 6 (X 3), vpand 6 8 (X 14), vpandn 9 8 (X 10), vpor 6 9 (X 6), vpaddd 4 2 (X 4), vpaddd 4 4 (X 6),
     vpaddd 3 4 (X 3), vpaddd 3 3 (M (Sym Words 256)), vpaddd 9 12 (X 3), vpaddd 1 1 (X 3)]"

definition asm1_round19 :: "instr list" where
  "asm1_round19 = [
     vmovdqa_to (Mem RSP 0) 15, vpsrld 3 15 19, vpslld 4 15 13, vpor 3 4 (X 3), vpsrld 4 15 10, vpxor 3 3 (X 4),
     vpsrld 4 15 17, vpslld 6 15 15, vpor 4 6 (X 4), vpxor 13 3 (X 4), vmovdqa_to (Mem RSP 32) 13, vpsrld 3 1 2,
     vpslld 4 1 30, vpor 3 4 (X 3), vpsrld 4 1 13, vpslld 6 1 19, vpor 4 6 (X 4), vpsrld 6 1 22, vpslld 12 1 10,
     vpor 6 12 (X 6), vpxor 4 4 (X 6), vpxor 3 4 (X 3), vpand 4 1 (X 5), vpxor 6 1 (X 5), vpand 6 6 (X 7),
     vpxor 4 6 (X 4), vpaddd 3 3 (X 4), vpsrld 4 9 6, vpslld 6 9 26, vpor 6 6 (X 4), vpsrld 4 9 11, vpslld 12 9 21,
     vpor 12 12 (X 4), vpsrld 4 9 25, vpslld 15 9 7, vpor 15 15 (X 4), vpxor 4 2 (M (Sym Words 240)),
     vpxor 2 12 (X 15), vpxor 2 2 (X 6), vpand 6 9 (X 8), vpandn 12 9 (X 14), vpor 6 12 (X 6), vpaddd 10 13 (X 10),
     vpaddd 6 10 (X 6), vpaddd 2 6 (X 2), vpaddd 2 2 (M (Sym Words 272)), vpaddd 6 2 (X 0), vpaddd 0 3 (X 2)]"

definition asm1_round20 :: "instr list" where
  "asm1_round20 = [
     vmovdqa_to (Mem RSP 96) 4, vpsrld 2 4 19, vpslld 3 4 13, vpor 2 3 (X 2), vpsrld 3 4 10, vpxor 2 2 (X 3),
     vpsrld 3 4 17, vpslld 10 4 15, vpor 3 10 (X 3), vpxor 13 2 (X 3), vpsrld 2 0 2, vpslld 3 0 30, vpor 2 3 (X 2),
     vpsrld 3 0 13, vpslld 10 0 19, vpor 3 10 (X 3), vpsrld 10 0 22, vpslld 15 0 10, vpor 10 15 (X 10),
     vpxor 3 10 (X 3), vpxor 2 3 (X 2), vpand 3 0 (X 1), vpxor 10 0 (X 1), vpand 10 10 (X 5), vpxor 3 10 (X 3),
     vpaddd 2 2 (X 3), vpsrld 3 6 6, vpslld 10 6 26, vpor 3 10 (X 3), vpsrld 10 6 11, vpslld 15 6 21,
     vpor 10 15 (X 10), vpsrld 15 6 25, vpslld 12 6 7, vpor 12 12 (X 15), vpxor 10 10 (X 12), vpxor 3 10 (X 3),
     vpand 10 9 (X 6), vpandn 12 6 (X 8), vpor 10 10 (X 12), vpaddd 12 13 (X 14), vpaddd 10 12 (X 10),
     vpaddd 3 10 (X 3), vpaddd 3 3 (M (Sym Words 288)), vpaddd 15 3 (X 7), vpaddd 7 2 (X 3)]"

definition asm1_round21 :: "instr list" where
  "asm1_round21 = [
     vmovdqa 4 (M (Mem RSP 32)), vpsrld 2 4 19, vpslld 3 4 13, vpor 2 3 (X 2), vpsrld 3 4 10, vpxor 2 2 (X 3),
     vpsrld 3 4 17, vpslld 10 4 15, vpor 3 10 (X 3), vpxor 4 2 (X 3), vpsrld 2 7 2, vpslld 3 7 30, vpor 2 3 (X 2),
     vpsrld 3 7 13, vpslld 10 7 19, vpor 3 10 (X 3), vpsrld 10 7 22, vpslld 12 7 10, vpor 10 12 (X 10),
     vpxor 3 10 (X 3), vpxor 2 3 (X 2), vpxor 3 7 (X 0), vpand 3 3 (X 1), vpand 10 7 (X 0), vpxor 3 10 (X 3),
     vpaddd 2 2 (X 3), vpsrld 3 15 6, vpslld 10 15 26, vpor 3 10 (X 3), vpsrld 10 15 11, vpslld 12 15 21,
     vpor 10 12 (X 10), vpsrld 12 15 25, vpslld 14 15 7, vpor 12 14 (X 12), vpxor 10 10 (X 12), vpxor 3 10 (X 3),
     vpand 10 15 (X 6), vpandn 12 15 (X 9), vpor 10 10 (X 12), vpaddd 8 8 (X 4), vpaddd 8 8 (X 10), vpaddd 3 8 (X 3),
     vpaddd 3 3 (M (Sym Words 304)), vpaddd 10 3 (X 5), vpaddd 8 2 (X 3)]"

definition asm1_round22 :: "instr list" where
  "asm1_round22 = [
     vmovdqa_to (Mem RSP 112) 13, vpsrld 2 13 19, vpslld 3 13 13, vpor 2 3 (X 2), vpsrld 3 13 10, vpxor 2 2 (X 3),
     vpsrld 3 13 17, vpslld 5 13 15, vpor 3 5 (X 3), vpxor 3 2 (X 3), vmovdqa_to (Mem RSP 16) 3, vpsrld 2 8 2,
     vpslld 5 8 30, vpor 2 5 (X 2), vpsrld 5 8 13, vpslld 12 8 19, vpor 5 12 (X 5), vpsrld 12 8 22, vpslld 14 8 10,
     vpor 12 14 (X 12), vpxor 5 12 (X 5), vpxor 2 5 (X 2), vpxor 5 8 (X 7), vpand 5 5 (X 0), vpand 12 8 (X 7),
     vpxor 5 12 (X 5), vpaddd 2 2 (X 5), vpsrld 5 10 6, vpslld 12 10 26, vpor 5 12 (X 5), vpsrld 12 10 11,
     vpslld 14 10 21, vpor 12 14 (X 12), vpsrld 14 10 25, vpslld 13 10 7, vpor 13 13 (X 14), vpxor 12 12 (X 13),
     vpxor 5 12 (X 5), vpand 12 10 (X 15), vpandn 13 10 (X 6), vpor 12 12 (X 13), vpaddd 9 9 (X 3), vpaddd 9 9 (X 12),
     vpaddd 5 9 (X 5), vpaddd 9 5 (M (Sym Words 336)), vpaddd 5 9 (X 1), vpaddd 9 9 (X 2)]"

definition asm1_round23 :: "instr list" where
  "asm1_round23 = [
     vmovdqa 3 (X 4), vmovdqa_to (Mem RSP 64) 4, vpsrld 1 4 19, vpslld 2 4 13, vpor 1 2 (X 1), vpsrld 2 4 10,
     vpxor 1 1 (X 2), vpsrld 2 4 17, vpslld 12 4 15, vpor 2 12 (X 2), vpxor 1 1 (X 2), vpsrld 2 9 2, vpslld 12 9 30,
     vpor 2 12 (X 2), vpsrld 12 9 13, vpslld 13 9 19, vpor 12 13 (X 12), vpsrld 13 9 22, vpslld 14 9 10,
     vpor 13 14 (X 13), vpxor 12 12 (X 13), vpxor 2 12 (X 2), vpxor 12 9 (X 8), vpand 12 12 (X 7), vpand 13 9 (X 8),
     vpxor 12 12 (X 13), vpaddd 12 12 (X 2), vpsrld 2 5 6, vpslld 13 5 26, vpor 2 13 (X 2), vpsrld 13 5 11,
     vpslld 14 5 21, vpor 13 14 (X 13), vpsrld 14 5 25, vpslld 3 5 7, vpor 3 14 (X 3), vpxor 3 13 (X 3),
     vpxor 2 3 (X 2), vpand 3 10 (X 5), vpandn 13 5 (X 15), vpor 3 13 (X 3), vpaddd 4 11 (X 1), vpaddd 1 4 (X 6),
     vpaddd 1 1 (X 3), vpaddd 1 1 (X 2), vpaddd 1 1 (M (Sym Words 352)), vpaddd 2 1 (X 0), vpaddd 1 12 (X 1)]"

definition asm1_round24 :: "instr list" where
  "asm1_round24 = [
     vbroadcastss 0 (Sym Words 624), vpaddd 6 0 (M (Mem RSP 16)), vmovdqa_to (Mem RSP 16) 6, vpsrld 0 6 19,
     vpslld 3 6 13, vpor 0 3 (X 0), vpsrld 3 6 10, vpxor 0 0 (X 3), vpsrld 3 6 17, vpslld 12 6 15, vpor 3 12 (X 3),
     vpxor 0 0 (X 3), vmovdqa_to (Mem RSP 128) 11, vmovdqa 3 (M (Mem RSP 0)), vmovdqa_to (Mem RSP 144) 3,
     vpaddd 6 0 (X 3), vpsrld 0 1 2, vpslld 3 1 30, vpor 0 3 (X 0), vpsrld 3 1 13, vpslld 12 1 19, vpor 3 12 (X 3),
     vpsrld 12 1 22, vpslld 13 1 10, vpor 12 13 (X 12), vpxor 3 12 (X 3), vpxor 0 3 (X 0), vpxor 3 9 (X 1),
     vpand 3 8 (X 3), vpand 12 9 (X 1), vpxor 3 12 (X 3), vpaddd 0 0 (X 3), vpsrld 3 2 6, vpslld 12 2 26,
     vpor 3 12 (X 3), vpsrld 12 2 11, vpslld 13 2 21, vpor 12 13 (X 12), vpsrld 13 2 25, vpslld 14 2 7,
     vpor 13 14 (X 13), vpxor 12 12 (X 13), vpxor 3 12 (X 3), vpand 12 2 (X 5), vpandn 13 2 (X 10), vpor 12 12 (X 13),
     vpaddd 13 15 (X 6), vpaddd 12 13 (X 12), vpaddd 3 12 (X 3), vpaddd 3 3 (M (Sym Words 368)), vpaddd 15 3 (X 7),
     vpaddd 7 0 (X 3)]"

definition asm1_round25 :: "instr list" where
  "asm1_round25 = [
     vmovdqa_to (Mem RSP 48) 4, vpsrld 0 4 19, vpslld 3 4 13, vpor 0 3 (X 0), vpsrld 3 4 10, vpxor 0 0 (X 3),
     vpsrld 3 4 17, vpslld 12 4 15, vpor 3 12 (X 3), vpxor 0 0 (X 3), vmovdqa 3 (M (Mem RSP 96)),
     vmovdqa_to (Mem RSP 160) 3, vpaddd 0 0 (X 3), vpsrld 3 7 2, vpslld 4 7 30, vpor 3 4 (X 3), vpsrld 4 7 13,
     vpslld 12 7 19, vpor 4 12 (X 4), vpsrld 12 7 22, vpslld 13 7 10, vpor 12 13 (X 12), vpxor 4 12 (X 4),
     vpxor 3 4 (X 3), vpxor 4 7 (X 1), vpand 4 9 (X 4), vpand 12 7 (X 1), vpxor 4 12 (X 4), vpaddd 3 3 (X 4),
     vpsrld 4 15 6, vpslld 12 15 26, vpor 4 12 (X 4), vpsrld 12 15 11, vpslld 13 15 21, vpor 12 13 (X 12),
     vpsrld 13 15 25, vpslld 14 15 7, vpor 13 14 (X 13), vpxor 12 12 (X 13), vpxor 4 12 (X 4), vpand 12 15 (X 2),
     vpandn 13 15 (X 5), vpor 12 12 (X 13), vpaddd 10 10 (X 0), vpaddd 10 10 (X 12), vpaddd 4 10 (X 4),
     vpaddd 4 4 (M (Sym Words 384)), vpaddd 10 8 (X 4), vpaddd 4 3 (X 4)]"

definition asm1_round26 :: "instr list" where
  "asm1_round26 = [
     vmovdqa_to (Mem RSP 0) 6, vpsrld 3 6 19, vpslld 8 6 13, vpor 3 8 (X 3), vpsrld 8 6 10, vpxor 3 8 (X 3),
     vpsrld 8 6 17, vpslld 12 6 15, vpor 8 12 (X 8), vpxor 3 8 (X 3), vmovdqa 6 (M (Mem RSP 32)),
     vmovdqa_to (Mem RSP 176) 6, vpaddd 13 3 (X 6), vpsrld 3 4 2, vpslld 8 4 30, vpor 3 8 (X 3), vpsrld 8 4 13,
     vpslld 12 4 19, vpor 8 12 (X 8), vpsrld 12 4 22, vpslld 14 4 10, vpor 12 14 (X 12), vpxor 8 8 (X 12),
     vpxor 3 8 (X 3), vpxor 8 4 (X 7), vpand 8 8 (X 1), vpand 12 4 (X 7), vpxor 8 8 (X 12), vpaddd 3 8 (X 3),
     vpsrld 8 10 6, vpslld 12 10 26, vpor 8 12 (X 8), vpsrld 12 10 11, vpslld 14 10 21, vpor 12 14 (X 12),
     vpsrld 14 10 25, vpslld 6 10 7, vpor 6 14 (X 6), vpxor 6 12 (X 6), vpxor 6 8 (X 6), vpand 8 10 (X 15),
     vpandn 12 10 (X 2), vpor 8 8 (X 12), vpaddd 5 13 (X 5), vpaddd 5 8 (X 5), vpaddd 5 5 (X 6),
     vpaddd 5 5 (M (Sym Words 400)), vpaddd 8 9 (X 5), vpaddd 9 3 (X 5)]"

definition asm1_round27 :: "instr list" where
  "asm1_round27 = [
     vpsrld 3 0 19, vpslld 5 0 13, vpor 3 5 (X 3), vpsrld 5 0 10, vpxor 3 3 (X 5), vmovdqa 6 (M (Mem RSP 112)),
     vmovdqa_to (Mem RSP 192) 6, vmovaps 5 (M (Mem RSP 64)), vmovaps_to (Mem RSP 208) 5, vmovaps 5 (M (Mem RSP 16)),
     vmovaps_to (Mem RSP 224) 5, vmovaps 5 (M (Mem RSP 48)), vmovaps_to (Mem RSP 240) 5, vmovaps 5 (M (Mem RSP 0)),
     vmovaps_to (Mem RSP 256) 5, vmovdqa_to (Mem RSP 272) 0, vpsrld 5 0 17, vpslld 0 0 15, vpor 0 0 (X 5),
     vpxor 0 3 (X 0), vpaddd 5 0 (X 6), vpsrld 0 9 2, vpslld 3 9 30, vpor 0 3 (X 0), vpsrld 3 9 13, vpslld 6 9 19,
     vpor 3 6 (X 3), vpsrld 6 9 22, vpslld 12 9 10, vpor 6 12 (X 6), vpxor 3 3 (X 6), vpxor 0 3 (X 0),
     vpxor 3 9 (X 4), vpand 3 3 (X 7), vpand 6 9 (X 4), vpxor 3 3 (X 6), vpaddd 3 0 (X 3), vpsrld 0 8 6,
     vpslld 6 8 26, vpor 0 6 (X 0), vpsrld 6 8 11, vpslld 12 8 21, vpor 6 12 (X 6), vpsrld 12 8 25, vpslld 14 8 7,
     vpor 12 14 (X 12), vpxor 6 12 (X 6), vpxor 0 6 (X 0), vpand 6 8 (X 10), vpandn 12 8 (X 15), vpor 6 12 (X 6),
     vpaddd 2 5 (X 2), vpaddd 2 2 (X 6), vpaddd 0 2 (X 0), vpaddd 2 0 (M (Sym Words 416)), vpaddd 0 2 (X 1),
     vpaddd 1 3 (X 2)]"

definition asm1_round28 :: "instr list" where
  "asm1_round28 = [
     vpsrld 2 13 19, vpslld 3 13 13, vpor 2 3 (X 2), vpsrld 3 13 10, vpxor 2 2 (X 3), vmovdqa_to (Mem RSP 288) 13,
     vpsrld 3 13 17, vpslld 6 13 15, vpor 3 6 (X 3), vpxor 2 2 (X 3), vpaddd 2 2 (M (Mem RSP 64)), vpsrld 3 1 2,
     vpslld 6 1 30, vpor 3 6 (X 3), vpsrld 6 1 13, vpslld 12 1 19, vpor 6 12 (X 6), vpsrld 12 1 22, vpslld 13 1 10,
     vpor 12 13 (X 12), vpxor 6 12 (X 6), vpxor 3 6 (X 3), vpxor 6 9 (X 1), vpand 6 6 (X 4), vpand 12 9 (X 1),
     vpxor 6 12 (X 6), vpaddd 3 3 (X 6), vpsrld 6 0 6, vpslld 12 0 26, vpor 6 12 (X 6), vpsrld 12 0 11,
     vpslld 13 0 21, vpor 12 13 (X 12), vpsrld 13 0 25, vpslld 14 0 7, vpor 13 14 (X 13), vpxor 12 12 (X 13),
     vpxor 6 12 (X 6), vpand 12 8 (X 0), vpandn 13 0 (X 10), vpor 12 12 (X 13), vpaddd 13 15 (X 2),
     vpaddd 12 13 (X 12), vmovdqa_to (Mem RSP 304) 5, vpaddd 6 12 (X 6), vpaddd 6 6 (M (Sym Words 432)),
     vpaddd 15 6 (X 7), vpaddd 13 3 (X 6)]"

definition asm1_round29 :: "instr list" where
  "asm1_round29 = [
     vpsrld 3 5 19, vpslld 6 5 13, vpor 3 6 (X 3), vpsrld 6 5 10, vpxor 3 3 (X 6), vpsrld 6 5 17, vpslld 5 5 15,
     vpor 5 5 (X 6), vpxor 3 3 (X 5), vpaddd 7 3 (M (Mem RSP 16)), vpsrld 3 13 2, vpslld 5 13 30, vpor 3 5 (X 3),
     vpsrld 5 13 13, vpslld 6 13 19, vpor 5 6 (X 5), vpsrld 6 13 22, vpslld 12 13 10, vpor 6 12 (X 6),
     vpxor 5 5 (X 6), vpxor 3 5 (X 3), vpand 5 13 (X 1), vpxor 6 13 (X 1), vpand 6 9 (X 6), vpxor 5 6 (X 5),
     vpaddd 3 3 (X 5), vpsrld 5 15 6, vpslld 6 15 26, vpor 5 6 (X 5), vpsrld 6 15 11, vpslld 12 15 21,
     vpor 6 12 (X 6), vpsrld 12 15 25, vpslld 14 15 7, vpor 12 14 (X 12), vpxor 6 12 (X 6), vpxor 5 6 (X 5),
     vpand 6 15 (X 0), vpandn 12 15 (X 8), vpor 6 12 (X 6), vmovdqa_to (Mem RSP 320) 2, vpaddd 10 10 (X 7),
     vpaddd 6 10 (X 6), vpaddd 5 6 (X 5), vpaddd 5 5 (M (Sym Words 448)), vpaddd 4 5 (X 4), vpaddd 6 3 (X 5)]"

definition asm1_round30 :: "instr list" where
  "asm1_round30 = [
     vpsrld 3 2 19, vpslld 5 2 13, vpor 3 5 (X 3), vpsrld 5 2 10, vpxor 3 3 (X 5), vpsrld 5 2 17, vpslld 2 2 15,
     vpor 2 2 (X 5), vpxor 2 3 (X 2), vpaddd 5 2 (M (Mem RSP 48)), vpsrld 2 6 2, vpslld 3 6 30, vpor 2 3 (X 2),
     vpsrld 3 6 13, vpslld 10 6 19, vpor 3 10 (X 3), vpsrld 10 6 22, vpslld 12 6 10, vpor 10 12 (X 10),
     vpxor 3 10 (X 3), vpxor 2 3 (X 2), vpand 3 13 (X 6), vpxor 10 13 (X 6), vpand 10 10 (X 1), vpxor 3 10 (X 3),
     vpaddd 2 2 (X 3), vpsrld 3 4 6, vpslld 10 4 26, vpor 3 10 (X 3), vpsrld 10 4 11, vpslld 12 4 21,
     vpor 10 12 (X 10), vpsrld 12 4 25, vpslld 14 4 7, vpor 12 14 (X 12), vmovdqa_to (Mem RSP 336) 7,
     vpxor 10 10 (X 12), vpxor 3 10 (X 3), vpand 10 15 (X 4), vpandn 12 4 (X 0), vpor 10 10 (X 12), vpaddd 8 8 (X 5),
     vpaddd 8 8 (X 10), vpaddd 3 8 (X 3), vpaddd 8 3 (M (Sym Words 480)), vpaddd 3 8 (X 9), vpaddd 12 8 (X 2)]"

definition asm1_round31 :: "instr list" where
  "asm1_round31 = [
     vpsrld 2 7 19, vpslld 8 7 13, vpor 2 8 (X 2), vpsrld 8 7 10, vpxor 2 8 (X 2), vpsrld 8 7 17, vpslld 7 7 15,
     vpor 7 8 (X 7), vpxor 2 2 (X 7), vpsrld 7 11 18, vpslld 8 11 14, vpor 7 8 (X 7), vpsrld 8 11 3, vpxor 7 8 (X 7),
     vpsrld 8 11 7, vpslld 9 11 25, vpor 8 9 (X 8), vpxor 7 8 (X 7), vpaddd 7 7 (M (Mem RSP 0)),
     vpaddd 7 7 (M (Sym Words 320)), vpaddd 7 7 (X 2), vpsrld 2 12 2, vpslld 8 12 30, vpor 2 8 (X 2), vpsrld 8 12 13,
     vpslld 9 12 19, vpor 8 9 (X 8), vpsrld 9 12 22, vpslld 10 12 10, vpor 9 10 (X 9), vpxor 8 8 (X 9),
     vpxor 2 8 (X 2), vpand 8 12 (X 6), vpxor 9 12 (X 6), vpand 9 9 (X 13), vpxor 8 9 (X 8), vpaddd 2 8 (X 2),
     vpsrld 8 3 6, vpslld 9 3 26, vpor 8 9 (X 8), vpsrld 9 3 11, vpslld 10 3 21, vpor 9 10 (X 9), vpsrld 10 3 25,
     vpslld 14 3 7, vpor 10 14 (X 10), vpxor 9 9 (X 10), vpxor 8 9 (X 8), vpand 9 3 (X 4), vpandn 10 3 (X 15),
     vpor 9 9 (X 10), vpaddd 0 7 (X 0), vpaddd 0 9 (X 0), vpaddd 0 8 (X 0), vpaddd 0 0 (M (Sym Words 496)),
     vpaddd 14 0 (X 1), vpaddd 2 2 (X 0)]"

definition asm1_window :: "instr list" where
  "asm1_window = [
     vpaddd 5 5 (M (Sym Words 464)), vmovdqa_to (Mem RSP 352) 5, vmovdqa_to (Mem RSP 368) 7]"

definition asm1_round_step :: "instr list" where
  "asm1_round_step = [
     vmovdqa 0 (X 15), vmovdqa 15 (X 4), vmovdqa 4 (X 3), vmovdqa 1 (X 7), vmovdqa 3 (X 14), vpsrld 7 5 19,
     vpslld 8 5 13, vpor 7 8 (X 7), vpsrld 8 5 10, vpxor 7 8 (X 7), vpsrld 8 5 17, vpslld 5 5 15, vpor 5 8 (X 5),
     vpxor 5 7 (X 5), vpaddd 5 11 (X 5), vmovdqa 11 (M (MemIx RSP 4 RDI 144)), vpsrld 7 11 18, vpslld 8 11 14,
     vpor 7 8 (X 7), vpsrld 8 11 3, vpxor 7 8 (X 7), vpsrld 8 11 7, vpslld 9 11 25, vpor 8 9 (X 8), vpxor 7 8 (X 7),
     vpaddd 5 5 (M (MemIx RSP 4 RDI 272)), vpaddd 7 5 (X 7), vpsrld 5 14 6, vpslld 8 14 26, vpor 5 8 (X 5),
     vpsrld 8 14 11, vpslld 9 14 21, vpor 8 9 (X 8), vpsrld 9 14 25, vpslld 10 14 7, vpor 9 10 (X 9), vpxor 8 8 (X 9),
     vpxor 5 8 (X 5), vpand 8 14 (X 4), vpandn 9 14 (X 15), vpor 8 9 (X 8), vpaddd 0 8 (X 0), vpaddd 0 5 (X 0),
     vbroadcastss 5 (MemIx RDI 1 RCX 128), vpaddd 0 0 (X 5), vpaddd 0 0 (X 7), vpaddd 14 13 (X 0), vmovdqa 13 (X 6),
     vmovdqa 6 (X 12), vmovdqa 12 (X 2), vmovdqa_to (MemIx RSP 4 RDI 384) 7, vpsrld 2 2 2, vpslld 5 12 30,
     vpor 2 5 (X 2), vpsrld 5 12 13, vpslld 8 12 19, vpor 5 8 (X 5), vpsrld 8 12 22, vpslld 9 12 10, vpor 8 9 (X 8),
     vpxor 5 8 (X 5), vpxor 2 5 (X 2), vpand 5 12 (X 6), vpxor 8 12 (X 6), vpand 8 8 (X 13), vpxor 5 8 (X 5),
     vpaddd 2 2 (X 5), vpaddd 2 2 (X 0)]"

definition asm1_early :: "instr list" where
  "asm1_early = [
     vpcmpeqd 0 14 (M (Mem RSP 80)), vptest 0 0]"

definition asm1_late61 :: "instr list" where
  "asm1_late61 = [
     vpsrld 5 1 19, vpslld 8 1 13, vpor 5 8 (X 5), vpsrld 8 1 10, vpxor 5 8 (X 5), vpsrld 8 1 17, vpslld 1 1 15,
     vpor 1 8 (X 1), vpxor 1 5 (X 1), vmovdqa 10 (M (Mem RSP 608)), vpsrld 5 10 18, vpslld 8 10 14, vpor 5 8 (X 5),
     vpsrld 8 10 3, vpxor 5 8 (X 5), vpsrld 8 10 7, vpslld 9 10 25, vpor 8 9 (X 8), vpaddd 1 1 (M (Mem RSP 592)),
     vpaddd 1 1 (M (Mem RSP 736)), vpxor 5 8 (X 5), vpaddd 8 1 (X 5), vpsrld 1 2 2, vpslld 5 2 30, vpor 1 5 (X 1),
     vpsrld 5 2 13, vpslld 9 2 19, vpor 5 9 (X 5), vpsrld 9 2 22, vpslld 11 2 10, vpor 9 11 (X 9), vpxor 5 9 (X 5),
     vpxor 1 5 (X 1), vpand 5 12 (X 2), vpxor 9 12 (X 2), vpand 9 9 (X 6), vpxor 5 9 (X 5), vpaddd 5 1 (X 5),
     vpsrld 1 14 6, vpslld 9 14 26, vpor 1 9 (X 1), vpsrld 9 14 11, vpslld 11 14 21, vpor 9 11 (X 9), vpsrld 11 14 25,
     vmovdqa_to (Mem RSP 0) 0, vpslld 0 14 7, vpor 0 11 (X 0), vpxor 0 9 (X 0), vpxor 0 0 (X 1), vpand 1 14 (X 3),
     vpandn 9 14 (X 4), vpor 1 9 (X 1), vmovdqa 9 (M (Mem RSP 624)), vpaddd 1 15 (X 1), vpaddd 1 8 (X 1),
     vpaddd 0 1 (X 0), vpaddd 0 0 (M (Sym Words 512)), vpaddd 1 13 (X 0), vpaddd 5 5 (X 0)]"

definition asm1_late62 :: "instr list" where
  "asm1_late62 = [
     vpsrld 0 7 19, vpslld 11 7 13, vpor 0 11 (X 0), vpsrld 11 7 10, vpxor 0 11 (X 0), vpsrld 11 7 17, vpslld 7 7 15,
     vpor 7 11 (X 7), vpxor 0 0 (X 7), vpsrld 7 9 18, vpslld 11 9 14, vpor 7 11 (X 7), vpsrld 11 9 3,
     vpxor 7 11 (X 7), vpsrld 11 9 7, vpslld 13 9 25, vpor 11 13 (X 11), vpxor 7 11 (X 7), vpaddd 0 10 (X 0),
     vpaddd 0 0 (M (Mem RSP 752)), vpaddd 7 0 (X 7), vpsrld 0 5 2, vpslld 10 5 30, vpor 0 10 (X 0), vpsrld 10 5 13,
     vpslld 11 5 19, vpor 10 11 (X 10), vpsrld 11 5 22, vpslld 13 5 10, vpor 11 13 (X 11), vpxor 10 10 (X 11),
     vpxor 0 10 (X 0), vpand 10 5 (X 2), vpxor 11 5 (X 2), vpand 11 11 (X 12), vpxor 10 11 (X 10), vpaddd 0 10 (X 0),
     vpsrld 10 1 6, vpslld 11 1 26, vpor 10 11 (X 10), vpsrld 11 1 11, vpslld 13 1 21, vpor 11 13 (X 11),
     vpsrld 13 1 25, vpslld 15 1 7, vpor 13 15 (X 13), vpxor 11 11 (X 13), vpxor 10 11 (X 10), vpand 11 14 (X 1),
     vpandn 13 1 (X 3), vpor 11 13 (X 11), vpaddd 4 11 (X 4), vmovdqa 11 (M (Mem RSP 640)), vpaddd 4 4 (X 7),
     vpaddd 4 10 (X 4), vpaddd 7 4 (M (Sym Words 528)), vpaddd 4 7 (X 6), vpaddd 6 0 (X 7)]"

definition asm1_late63 :: "instr list" where
  "asm1_late63 = [
     vpsrld 0 8 19, vpslld 7 8 13, vpor 0 7 (X 0), vpsrld 7 8 10, vpxor 0 0 (X 7), vpsrld 7 8 17, vpslld 8 8 15,
     vpor 7 8 (X 7), vpxor 0 0 (X 7), vpsrld 7 11 18, vpslld 8 11 14, vpor 7 8 (X 7), vpsrld 8 11 3, vpxor 7 8 (X 7),
     vpsrld 8 11 7, vpslld 10 11 25, vpor 8 10 (X 8), vpxor 7 8 (X 7), vpaddd 0 9 (X 0), vpaddd 0 0 (M (Mem RSP 768)),
     vpaddd 0 0 (X 7), vpsrld 7 6 2, vpslld 8 6 30, vpor 7 8 (X 7), vpsrld 8 6 13, vpslld 9 6 19, vpor 8 9 (X 8),
     vpsrld 9 6 22, vpslld 10 6 10, vpor 9 10 (X 9), vpxor 8 8 (X 9), vpxor 7 8 (X 7), vpand 8 6 (X 5),
     vpxor 9 6 (X 5), vpand 9 9 (X 2), vpxor 8 9 (X 8), vpaddd 7 8 (X 7), vpsrld 8 4 6, vpslld 9 4 26, vpor 8 9 (X 8),
     vpsrld 9 4 11, vpslld 10 4 21, vpor 9 10 (X 9), vpsrld 10 4 25, vpslld 11 4 7, vpor 10 11 (X 10),
     vpxor 9 9 (X 10), vpxor 8 9 (X 8), vpand 9 4 (X 1), vpandn 10 4 (X 14), vpor 9 9 (X 10), vpaddd 3 9 (X 3),
     vpaddd 0 3 (X 0), vpaddd 0 8 (X 0), vpaddd 0 0 (M (Sym Words 544)), vpaddd 3 12 (X 0), vpaddd 0 7 (X 0)]"

definition asm1_compare :: "instr list" where
  "asm1_compare = [
     vbroadcastss 7 (Mem RDX 0), vpcmpeqd 0 7 (X 0), vbroadcastss 7 (Mem RDX 4), vpcmpeqd 6 7 (X 6),
     vbroadcastss 7 (Mem RDX 8), vpcmpeqd 5 7 (X 5), vpand 5 6 (X 5), vbroadcastss 6 (Mem RDX 12), vpcmpeqd 2 2 (X 6),
     vpand 2 5 (X 2), vpand 0 0 (X 2), vbroadcastss 2 (Mem RDX 16), vpcmpeqd 2 2 (X 3), vbroadcastss 3 (Mem RDX 20),
     vpcmpeqd 3 3 (X 4), vpand 2 2 (X 3), vpand 0 0 (X 2), vbroadcastss 2 (Mem RDX 24), vpcmpeqd 1 2 (X 1),
     vpand 1 1 (M (Mem RSP 0)), vpand 0 0 (X 1), vpslld 0 0 31]"

definition asm1_found :: "instr list" where
  "asm1_found = [
     gp (movzx8 RAX RDI), gp (rep_bsf32 RAX RAX), gp (shl32 RAX 3), gp (lea RCX (Mem RSP 896)), gp (or64 RCX RAX),
     gp (mov_from RAX (Mem RCX 0))]"

definition asm1_guard :: "instr list" where
  "asm1_guard = [
     gp (mov_fs40 RCX), gp (cmp_mem RCX (Mem RSP 936))]"

definition asm1_leave :: "instr list" where
  "asm1_leave = [
     gp (mov RSP RBP), gp (pop RBP)]"

section \<open>Blocks\<close>

definition asm1_blocks :: "(nat \<times> instr list \<times> exit) list" where
  "asm1_blocks = [
     (0, asm1_enter, Jmp 1),
     (8, asm1_next, Jcc Ja 9 1),
     (1, asm1_words @ asm1_round0 @ asm1_round12 @ [gp (mov32_imm RDI 3), vmovdqa 1 (X 10), vmovdqa 0 (X 9)], Jmp 2),
     (2, asm1_zero_round @ [gp (inc RDI), gp (cmp_imm RDI 15)], Jcc Jne 2 3),
     (3, asm1_round15 @ asm1_round16 @ asm1_round17 @ asm1_round18 @ asm1_round19 @ asm1_round20 @
       asm1_round21 @ asm1_round22 @ asm1_round23 @ asm1_round24 @ asm1_round25 @ asm1_round26 @
       asm1_round27 @ asm1_round28 @ asm1_round29 @ asm1_round30 @ asm1_round31 @
       asm1_window @ [gp (mov32_imm RDI 0)], Jmp 4),
     (4, asm1_round_step @ [gp (add_imm RDI 4), vmovdqa 5 (X 1), gp (cmp_imm RDI 116)], Jcc Jne 4 5),
     (5, asm1_early, Jcc Je 8 6),
     (6, asm1_late61 @ asm1_late62 @ asm1_late63 @ asm1_compare @ [vmovmskps RDI 0, gp (test32 RDI RDI)], Jcc Je 8 7),
     (7, asm1_found, Jmp 9),
     (9, asm1_guard, Jcc Jne 11 10),
     (10, asm1_leave, Ret),
     (11, [], Fail)]"

definition asm1 :: program where
  "asm1 l = (case map_of asm1_blocks l of Some b \<Rightarrow> b | None \<Rightarrow> ([], Fail))"

text \<open>The objects the code addresses, and a call.\<close>

definition asm1_objects :: "u8 list \<Rightarrow> object \<Rightarrow> storage" where
  "asm1_objects target r =
     (case r of
        Frame \<Rightarrow> Area 240
      | Words \<Rightarrow> Table asm1_WORDS
      | Ktab \<Rightarrow> Table asm1_k
      | Input \<Rightarrow> Table (map (load32 target) [0..<8])
      | _ \<Rightarrow> Area 0)"

definition reverse_sha256x4_fullyfused_asm :: "nat \<Rightarrow> cpu \<Rightarrow> u64 \<Rightarrow> u64 \<Rightarrow> u8 list \<Rightarrow> (place \<times> cpu) option" where
  "reverse_sha256x4_fullyfused_asm sp s start stop target =
     run (asm1_objects target) asm1 0 (call_search start stop sp s)"

end
