(* ===== verification/X86_Lanes.thy ===== *)
theory X86_Lanes
  imports X86
begin

text \<open>
  Most of the assembly acts on each of the four 32-bit lanes of the vector registers alike. This theory projects the
  machine onto one lane: registers and stack slots of 32 bits, with a total step function. A list of such
  instructions whose memory operands are in bounds runs on the machine as it runs on every lane
  (\<open>exec_lanes\<close>), so a stretch of code is proved on one lane only. What a stretch leaves in registers and slots is
  stated as a list of locations with their contents (\<open>holds\<close>).
\<close>

section \<open>One lane\<close>

datatype loc = Xr nat | Sl nat

definition lane :: "nat \<Rightarrow> m128 \<Rightarrow> u32" where
  "lane l v = lanes v ! l"

definition view :: "nat \<Rightarrow> cpu \<Rightarrow> loc \<Rightarrow> u32" where
  "view l s k = (case k of Xr n \<Rightarrow> lane l (xmm s n) | Sl j \<Rightarrow> mem s Frame (4 * j + l))"

primrec lane3 :: "op3 \<Rightarrow> (u32 \<Rightarrow> u32 \<Rightarrow> u32) option" where
  "lane3 Paddd = Some (+)"
| "lane3 Psubd = Some (-)"
| "lane3 Pand = Some (AND)"
| "lane3 Pandn = Some (\<lambda>x y. NOT x AND y)"
| "lane3 Por = Some (OR)"
| "lane3 Pxor = Some (XOR)"
| "lane3 Pcmpeqd = Some (\<lambda>x y. if x = y then - 1 else 0)"
| "lane3 Punpckldq = None"
| "lane3 Punpckhdq = None"
| "lane3 Punpcklqdq = None"
| "lane3 Punpckhqdq = None"
| "lane3 Pshufb = None"
| "lane3 Paddq = None"
| "lane3 Punpcklbw = None"
| "lane3 Punpckhbw = None"

text \<open>A vector operand in memory: a slot of the frame, or a constant that is the same in all lanes.\<close>

definition slot_ok :: "(object \<Rightarrow> storage) \<Rightarrow> nat \<Rightarrow> bool" where
  "slot_ok ob off \<longleftrightarrow> 16 dvd off \<and> (case ob Frame of Area n \<Rightarrow> off div 4 + 3 < n | Table _ \<Rightarrow> False)"

definition const_ok :: "u32 list \<Rightarrow> nat \<Rightarrow> bool" where
  "const_ok ws off \<longleftrightarrow> 16 dvd off \<and> off div 4 + 3 < length ws \<and>
     ws ! (off div 4 + 1) = ws ! (off div 4) \<and> ws ! (off div 4 + 2) = ws ! (off div 4) \<and> ws ! (off div 4 + 3) = ws ! (off div 4)"

definition mem_ok :: "(object \<Rightarrow> storage) \<Rightarrow> (gpr \<Rightarrow> val) \<Rightarrow> addr \<Rightarrow> bool" where
  "mem_ok ob g m =
     (case resolve g m of
        None \<Rightarrow> False
      | Some (r, off) \<Rightarrow> if r = Frame then slot_ok ob off
          else case ob r of Table ws \<Rightarrow> const_ok ws off | Area _ \<Rightarrow> False)"

definition mem_lane :: "(object \<Rightarrow> storage) \<Rightarrow> (gpr \<Rightarrow> val) \<Rightarrow> addr \<Rightarrow> (loc \<Rightarrow> u32) \<Rightarrow> u32" where
  "mem_lane ob g m f =
     (case resolve g m of
        None \<Rightarrow> 0
      | Some (r, off) \<Rightarrow> if r = Frame then f (Sl (off div 16))
          else case ob r of Table ws \<Rightarrow> ws ! (off div 4) | Area _ \<Rightarrow> 0)"

fun operand_ok :: "(object \<Rightarrow> storage) \<Rightarrow> (gpr \<Rightarrow> val) \<Rightarrow> operand \<Rightarrow> bool" where
  "operand_ok ob g (X n) = True"
| "operand_ok ob g (M m) = mem_ok ob g m"

fun operand_lane :: "(object \<Rightarrow> storage) \<Rightarrow> (gpr \<Rightarrow> val) \<Rightarrow> operand \<Rightarrow> (loc \<Rightarrow> u32) \<Rightarrow> u32" where
  "operand_lane ob g (X n) f = f (Xr n)"
| "operand_lane ob g (M m) f = mem_lane ob g m f"

fun table_at :: "(object \<Rightarrow> storage) \<Rightarrow> (object \<times> nat) option \<Rightarrow> u32 option" where
  "table_at ob (Some (r, off)) = (case ob r of Table ws \<Rightarrow> if 4 dvd off then rd ws (off div 4) else None | Area _ \<Rightarrow> None)"
| "table_at ob None = None"

text \<open>The instructions that act lane by lane, and what they do.\<close>

primrec lane_ok :: "(object \<Rightarrow> storage) \<Rightarrow> (gpr \<Rightarrow> val) \<Rightarrow> instr \<Rightarrow> bool" where
  "lane_ok ob g (op3 f d a b) \<longleftrightarrow> lane3 f \<noteq> None \<and> operand_ok ob g b"
| "lane_ok ob g (vpsrld d a n) \<longleftrightarrow> True"
| "lane_ok ob g (vpslld d a n) \<longleftrightarrow> True"
| "lane_ok ob g (vmovdqa d b) \<longleftrightarrow> operand_ok ob g b"
| "lane_ok ob g (vmovdqa_to m a) \<longleftrightarrow> (case resolve g m of Some (r, off) \<Rightarrow> r = Frame \<and> slot_ok ob off | None \<Rightarrow> False)"
| "lane_ok ob g (vbroadcastss d m) \<longleftrightarrow> table_at ob (resolve g m) \<noteq> None"
| "lane_ok ob g (vpshufd d a n) \<longleftrightarrow> False"
| "lane_ok ob g (vmovddup d m) \<longleftrightarrow> False"
| "lane_ok ob g (vmovd d a) \<longleftrightarrow> False"
| "lane_ok ob g (vmovq d a) \<longleftrightarrow> False"
| "lane_ok ob g (vptest a b) \<longleftrightarrow> False"
| "lane_ok ob g (vmovmskps d a) \<longleftrightarrow> False"
| "lane_ok ob g vzeroupper \<longleftrightarrow> True"
| "lane_ok ob g (gp i) \<longleftrightarrow> False"

primrec lane_step :: "(object \<Rightarrow> storage) \<Rightarrow> (gpr \<Rightarrow> val) \<Rightarrow> instr \<Rightarrow> (loc \<Rightarrow> u32) \<Rightarrow> loc \<Rightarrow> u32" where
  "lane_step ob g (op3 h d a b) f = f(Xr d := the (lane3 h) (f (Xr a)) (operand_lane ob g b f))"
| "lane_step ob g (vpsrld d a n) f = f(Xr d := drop_bit n (f (Xr a)))"
| "lane_step ob g (vpslld d a n) f = f(Xr d := push_bit n (f (Xr a)))"
| "lane_step ob g (vmovdqa d b) f = f(Xr d := operand_lane ob g b f)"
| "lane_step ob g (vmovdqa_to m a) f = f(Sl (snd (the (resolve g m)) div 16) := f (Xr a))"
| "lane_step ob g (vbroadcastss d m) f = f(Xr d := the (table_at ob (resolve g m)))"
| "lane_step ob g (vpshufd d a n) f = f"
| "lane_step ob g (vmovddup d m) f = f"
| "lane_step ob g (vmovd d a) f = f"
| "lane_step ob g (vmovq d a) f = f"
| "lane_step ob g (vptest a b) f = f"
| "lane_step ob g (vmovmskps d a) f = f"
| "lane_step ob g vzeroupper f = f"
| "lane_step ob g (gp i) f = f"

primrec lane_exec :: "(object \<Rightarrow> storage) \<Rightarrow> (gpr \<Rightarrow> val) \<Rightarrow> instr list \<Rightarrow> (loc \<Rightarrow> u32) \<Rightarrow> loc \<Rightarrow> u32" where
  "lane_exec ob g [] f = f"
| "lane_exec ob g (i # is) f = lane_exec ob g is (lane_step ob g i f)"

section \<open>The machine runs every lane\<close>

lemma lane_lifts:
  "l < 4 \<Longrightarrow> lane l (lift1 h v) = h (lane l v)"
  "l < 4 \<Longrightarrow> lane l (lift2 k v w) = k (lane l v) (lane l w)"
  "l < 4 \<Longrightarrow> lane l (mm_set1_epi32 c) = c"
  "l < 4 \<Longrightarrow> lane l (M128 c c c c) = c"
  by (cases v; cases w; auto simp: lane_def mm_set1_epi32_def less_Suc_eq numeral_eq_Suc)+

lemma lane_vec3: "lane3 h = Some k \<Longrightarrow> l < 4 \<Longrightarrow> lane l (vec3 h v w) = k (lane l v) (lane l w)"
  by (cases h) (auto simp: lane_lifts mm_add_epi32_def mm_sub_epi32_def mm_and_def mm_andnot_def mm_or_def mm_xor_def
      mm_cmpeq_epi32_def)

lemma lane_M128: "l < 4 \<Longrightarrow> lane l (M128 (h 0) (h 1) (h 2) (h 3)) = h l"
  by (auto simp: lane_def less_Suc_eq numeral_eq_Suc)

lemma frame_dword:
  assumes "slot_ok ob off" "l < 4"
  shows "4 dvd off + 4 * l" "(off + 4 * l) div 4 = 4 * (off div 16) + l"
    "\<exists>n. ob Frame = Area n \<and> (off + 4 * l) div 4 < n"
proof -
  obtain j where j: "off = 16 * j" using assms(1) by (auto simp: slot_ok_def)
  show "4 dvd off + 4 * l" "(off + 4 * l) div 4 = 4 * (off div 16) + l" using j by auto
  show "\<exists>n. ob Frame = Area n \<and> (off + 4 * l) div 4 < n"
    using assms j by (auto simp: slot_ok_def split: storage.splits)
qed

lemma load4_frame: "slot_ok ob off \<Longrightarrow> l < 4 \<Longrightarrow> load4 ob s Frame (off + 4 * l) = Some (view l s (Sl (off div 16)))"
  using frame_dword [of ob off l] by (auto simp: load4_def view_def ac_simps)

lemma load16_frame:
  assumes "slot_ok ob off"
  shows "\<exists>v. load16 ob s Frame off = Some v \<and> (\<forall>l<4. lane l v = view l s (Sl (off div 16)))"
proof -
  have "16 dvd off" using assms by (simp add: slot_ok_def)
  then show ?thesis
    using load4_frame [OF assms, of 0 s] load4_frame [OF assms, of 1 s] load4_frame [OF assms, of 2 s]
      load4_frame [OF assms, of 3 s] lane_M128 [where h = "\<lambda>l. view l s (Sl (off div 16))"]
    by (simp add: load16_def)
qed

lemma load16_const:
  assumes "ob r = Table ws" "const_ok ws off"
  shows "\<exists>v. load16 ob s r off = Some v \<and> (\<forall>l<4. lane l v = ws ! (off div 4))"
proof -
  obtain j where "off = 16 * j" using assms(2) by (auto simp: const_ok_def)
  then show ?thesis
    using assms by (auto simp: load16_def load4_def const_ok_def lane_lifts)
qed

lemma operand_lanes:
  assumes "operand_ok ob (reg s) b"
  shows "\<exists>v. vsrc ob s b = Some v \<and> (\<forall>l<4. lane l v = operand_lane ob (reg s) b (view l s))"
proof (cases b)
  case (X n)
  then show ?thesis by (simp add: view_def)
next
  case (M m)
  then obtain r off where "resolve (reg s) m = Some (r, off)"
    using assms by (auto simp: mem_ok_def split: option.splits)
  then show ?thesis
    using assms M load16_frame [of ob off s] load16_const [of ob r _ off s]
    by (auto simp: mem_ok_def mem_lane_def at_addr_def split: if_splits storage.splits)
qed

lemma view_set_xmm: "view l (set_xmm d v s) = (view l s)(Xr d := lane l v)"
  by (auto simp: fun_eq_iff view_def set_xmm_def split: loc.split)

lemma view_cong: "xmm s' = xmm s \<Longrightarrow> mem s' Frame = mem s Frame \<Longrightarrow> view l s' = view l s"
  by (simp add: fun_eq_iff view_def split: loc.split)

lemma store16_lanes:
  assumes "slot_ok ob off"
  shows "\<exists>s'. store16 ob Frame off v s = Some s' \<and> (\<exists>m. s' = s\<lparr>mem := (mem s)(Frame := m)\<rparr>) \<and>
    (\<forall>l<4. view l s' = (view l s)(Sl (off div 16) := lane l v))"
proof -
  obtain j where j: "off = 16 * j" using assms by (auto simp: slot_ok_def)
  obtain n where n: "ob Frame = Area n" "4 * j + 3 < n"
    using assms j by (auto simp: slot_ok_def split: storage.splits)
  obtain a b c d where v: "v = M128 a b c d" by (cases v)
  let ?s = "s\<lparr>mem := (mem s)(Frame := (mem s Frame)(4 * j := a, 4 * j + 1 := b, 4 * j + 2 := c, 4 * j + 3 := d))\<rparr>"
  have "store16 ob Frame off v s = Some ?s"
    using n by (simp add: store16_def store4_def j v ac_simps)
  moreover have "view l ?s = (view l s)(Sl (off div 16) := lane l v)" if "l < 4" for l
  proof
    fix k
    have "4 * i + l = 4 * j + m \<longleftrightarrow> i = j \<and> l = m" if "m < 4" for i m
      using \<open>l < 4\<close> that by presburger
    from this [of 0] this [of 1] this [of 2] this [of 3]
    show "view l ?s k = ((view l s)(Sl (off div 16) := lane l v)) k"
      using that by (cases k) (auto simp: view_def j v lane_def nth_Cons')
  qed
  ultimately show ?thesis by blast
qed

text \<open>What one lane-wise instruction, and a list of them, leaves as it was.\<close>

definition same_rest :: "cpu \<Rightarrow> cpu \<Rightarrow> bool" where
  "same_rest s s' \<longleftrightarrow> reg s' = reg s \<and> saved s' = saved s \<and> flags s' = flags s \<and> fs40 s' = fs40 s \<and>
     (\<forall>r. r \<noteq> Frame \<longrightarrow> mem s' r = mem s r)"

lemma same_rest_simps [simp]:
  "same_rest s s" "same_rest s (set_xmm d v s)" "same_rest s (s\<lparr>mem := (mem s)(Frame := m)\<rparr>)"
  by (simp_all add: same_rest_def set_xmm_def)

lemma exec1_lanes:
  assumes "lane_ok ob (reg s) i"
  shows "\<exists>s'. exec1 ob i s = Some s' \<and> same_rest s s' \<and> (\<forall>l<4. view l s' = lane_step ob (reg s) i (view l s))"
proof (cases i)
  case (op3 h d a b)
  then obtain v k where "vsrc ob s b = Some v" "\<forall>l<4. lane l v = operand_lane ob (reg s) b (view l s)" "lane3 h = Some k"
    using assms operand_lanes [of ob s b] by auto
  then show ?thesis using op3 by (simp add: view_set_xmm lane_vec3) (simp add: view_def)
next
  case (vmovdqa d b)
  then show ?thesis using assms operand_lanes [of ob s b] by (auto simp: view_set_xmm)
next
  case (vmovdqa_to m a)
  then obtain off where "resolve (reg s) m = Some (Frame, off)" "slot_ok ob off"
    using assms by (auto split: option.splits)
  then show ?thesis
    using vmovdqa_to store16_lanes [of ob off "xmm s a" s] by (auto simp: at_addr_def) (auto simp: view_def)
next
  case (vbroadcastss d m)
  then obtain r off x where "resolve (reg s) m = Some (r, off)" "load4 ob s r off = Some x"
      "table_at ob (Some (r, off)) = Some x"
    using assms by (cases "resolve (reg s) m") (auto simp: load4_def split: storage.splits if_splits)
  then show ?thesis using vbroadcastss by (auto simp: at_addr_def view_set_xmm lane_lifts)
qed (use assms in \<open>auto simp: view_set_xmm lane_lifts mm_srli_epi32_def mm_slli_epi32_def view_def\<close>)

lemma exec_lanes:
  assumes "\<forall>i\<in>set is. lane_ok ob (reg s) i"
  shows "\<exists>s'. exec ob is s = Some s' \<and> same_rest s s' \<and> (\<forall>l<4. view l s' = lane_exec ob (reg s) is (view l s))"
  using assms
proof (induction "is" arbitrary: s)
  case (Cons i "is")
  obtain s1 where s1: "exec1 ob i s = Some s1" "same_rest s s1" "\<forall>l<4. view l s1 = lane_step ob (reg s) i (view l s)"
    using exec1_lanes [of ob s i] Cons.prems by auto
  then show ?case
    using Cons.IH [of s1] Cons.prems by (auto simp: same_rest_def)
qed simp

section \<open>Contents of locations\<close>

fun holds :: "(loc \<times> u32) list \<Rightarrow> (loc \<Rightarrow> u32) \<Rightarrow> bool" where
  "holds [] f = True"
| "holds ((k, v) # c) f \<longleftrightarrow> f k = v \<and> holds c f"

lemma holds_iff: "holds c f \<longleftrightarrow> (\<forall>(k, v)\<in>set c. f k = v)"
  by (induction c f rule: holds.induct) auto

section \<open>Stretches of code\<close>

text \<open>
  \<open>lane_triple ob g keep P is Q\<close>: with the general registers \<open>g\<close> the instructions \<open>is\<close> are lane-wise and in bounds, store to
  no slot of \<open>keep\<close>, and take a lane with \<open>P\<close> to one with \<open>Q\<close>.
\<close>

fun spares :: "(gpr \<Rightarrow> val) \<Rightarrow> nat set \<Rightarrow> instr \<Rightarrow> bool" where
  "spares g keep (vmovdqa_to m a) \<longleftrightarrow> snd (the (resolve g m)) div 16 \<notin> keep"
| "spares g keep i \<longleftrightarrow> True"

definition lane_triple ::
  "(object \<Rightarrow> storage) \<Rightarrow> (gpr \<Rightarrow> val) \<Rightarrow> nat set \<Rightarrow> ((loc \<Rightarrow> u32) \<Rightarrow> bool) \<Rightarrow> instr list \<Rightarrow> ((loc \<Rightarrow> u32) \<Rightarrow> bool) \<Rightarrow> bool"
where
  "lane_triple ob g keep P is Q \<longleftrightarrow> (\<forall>i\<in>set is. lane_ok ob g i) \<and> (\<forall>i\<in>set is. spares g keep i) \<and>
     (\<forall>f. P f \<longrightarrow> Q (lane_exec ob g is f))"

lemma lane_tripleI:
  "\<forall>i\<in>set is. lane_ok ob g i \<Longrightarrow> \<forall>i\<in>set is. spares g keep i \<Longrightarrow> (\<And>f. P f \<Longrightarrow> Q (lane_exec ob g is f)) \<Longrightarrow>
     lane_triple ob g keep P is Q"
  by (simp add: lane_triple_def)

lemma lane_exec_append: "lane_exec ob g (is @ js) f = lane_exec ob g js (lane_exec ob g is f)"
  by (induction "is" arbitrary: f) simp_all

lemma lane_triple_append [intro]:
  "lane_triple ob g keep P is Q \<Longrightarrow> lane_triple ob g keep Q js R \<Longrightarrow> lane_triple ob g keep P (is @ js) R"
  by (auto simp: lane_triple_def lane_exec_append)

lemma lane_triple_mono:
  "lane_triple ob g keep P is Q \<Longrightarrow> (\<And>f. P' f \<Longrightarrow> P f) \<Longrightarrow> (\<And>f. Q f \<Longrightarrow> Q' f) \<Longrightarrow> lane_triple ob g keep P' is Q'"
  by (auto simp: lane_triple_def)

lemma lane_step_spares: "spares g keep i \<Longrightarrow> j \<in> keep \<Longrightarrow> lane_step ob g i f (Sl j) = f (Sl j)"
  by (cases i) auto

lemma lane_exec_spares: "\<forall>i\<in>set is. spares g keep i \<Longrightarrow> j \<in> keep \<Longrightarrow> lane_exec ob g is f (Sl j) = f (Sl j)"
  by (induction "is" arbitrary: f) (auto simp: lane_step_spares)

text \<open>On the machine: all four lanes at once, and the rest of the state stays as it is.\<close>

lemma exec_triple:
  assumes "\<And>l. l < 4 \<Longrightarrow> lane_triple ob (reg s) keep (P l) is (Q l)" "\<And>l. l < 4 \<Longrightarrow> P l (view l s)"
  shows "\<exists>s'. exec ob is s = Some s' \<and> same_rest s s' \<and> (\<forall>l<4. Q l (view l s')) \<and>
    (\<forall>l<4. \<forall>j\<in>keep. view l s' (Sl j) = view l s (Sl j))"
proof -
  have "\<forall>i\<in>set is. lane_ok ob (reg s) i" "\<forall>i\<in>set is. spares (reg s) keep i"
    using assms(1) [of 0] by (simp_all add: lane_triple_def)
  then show ?thesis
    using exec_lanes [of "is" ob s] assms by (auto simp: lane_triple_def lane_exec_spares)
qed

end
