(* ===== verification/Sha_Lanes.thy ===== *)
theory Sha_Lanes
  imports X86_Lanes Reverse_X4
begin

text \<open>
  The computation of SHA-256 on one padded block as three sequences, in which the assembly's registers are
  named: the words \<open>SW p n\<close> of the message schedule, and the working variables: after \<open>n\<close> rounds \<open>a, b, c, d\<close> are
  \<open>SA p (n + 3), \<dots>, SA p n\<close> and \<open>e, f, g, h\<close> are \<open>SE p (n + 3), \<dots>, SE p n\<close>. Here \<open>p\<close> is the pair of message words.
  The collection \<open>lane_simps\<close> recognises the functions of the standard in the shifts, rotations and sums
  of the code.
\<close>

section \<open>The sequences\<close>

type_synonym block = "u32 \<times> u32"

definition block_rounds :: "block \<Rightarrow> nat \<Rightarrow> regs" where
  "block_rounds p n = rounds (schedule (block8 (fst p) (snd p))) n (regs_of H0)"

definition SW :: "block \<Rightarrow> nat \<Rightarrow> u32" where
  "SW p n = W8 (fst p) (snd p) n"

definition SA :: "block \<Rightarrow> nat \<Rightarrow> u32" where
  "SA p n = (if n < 4 then H0 ! (3 - n) else regs_list (block_rounds p (n - 3)) ! 0)"

definition SE :: "block \<Rightarrow> nat \<Rightarrow> u32" where
  "SE p n = (if n < 4 then H0 ! (7 - n) else regs_list (block_rounds p (n - 3)) ! 4)"

lemma initial_names [simp]:
  "SA p 0 = 0xa54ff53a" "SA p (Suc 0) = 0x3c6ef372" "SA p 2 = 0xbb67ae85" "SA p 3 = 0x6a09e667"
  "SE p 0 = 0x5be0cd19" "SE p (Suc 0) = 0x1f83d9ab" "SE p 2 = 0x9b05688c" "SE p 3 = 0x510e527f"
  by (simp_all add: SA_def SE_def H0_def)

lemma initial_names_Suc [simp]:
  "SA p (Suc (Suc 0)) = 0xbb67ae85" "SE p (Suc (Suc 0)) = 0x9b05688c"
  "SA p (Suc (Suc (Suc 0))) = 0x6a09e667" "SE p (Suc (Suc (Suc 0))) = 0x510e527f"
  by (simp_all add: SA_def SE_def H0_def)

lemma block_rounds_names:
  "block_rounds p n = (SA p (n + 3), SA p (n + 2), SA p (n + 1), SA p n, SE p (n + 3), SE p (n + 2), SE p (n + 1), SE p n)"
proof (induction n)
  case 0
  show ?case by (simp add: block_rounds_def regs_of_def SA_def SE_def H0_def)
next
  case (Suc n)
  have "block_rounds p (Suc n) = fips_round (K ! n) (SW p n) (block_rounds p n)"
    by (simp add: block_rounds_def rounds_Suc SW_def W8_def)
  moreover have "SA p (Suc n + 3) = regs_list (block_rounds p (Suc n)) ! 0"
    "SE p (Suc n + 3) = regs_list (block_rounds p (Suc n)) ! 4"
    by (simp_all add: SA_def SE_def)
  ultimately show ?case
    unfolding Suc.IH by (simp add: Let_def eval_nat_numeral)
qed

text \<open>The bits of a choice do not overlap, so the code may add them.\<close>

lemma disjoint_sum: "x AND y = 0 \<Longrightarrow> x + y = x XOR (y :: u32)"
  by (rule disjunctive_add_eq_xor)

lemma Ch_sum: "Ch x y z = (x AND y) + (NOT x AND z)"
proof -
  have "(x AND y) AND (NOT x AND z) = 0" by (rule bit_word_eqI) (auto simp: bit_simps)
  then show ?thesis by (simp add: Ch_def disjoint_sum)
qed

lemma or_choice:
  fixes x y z :: u32
  shows "(x AND y) OR (NOT x AND z) = (x AND y) + (NOT x AND z)"
    "(NOT x AND z) OR (x AND y) = (x AND y) + (NOT x AND z)"
    "(y AND x) OR (NOT x AND z) = (x AND y) + (NOT x AND z)"
    "(NOT x AND z) OR (y AND x) = (x AND y) + (NOT x AND z)"
    "(x AND y) OR (z AND NOT x) = (x AND y) + (NOT x AND z)"
    "(z AND NOT x) OR (x AND y) = (x AND y) + (NOT x AND z)"
    "(y AND x) OR (z AND NOT x) = (x AND y) + (NOT x AND z)"
    "(z AND NOT x) OR (y AND x) = (x AND y) + (NOT x AND z)"
  unfolding Ch_sum [symmetric] by (rule bit_word_eqI, auto simp: Ch_def bit_simps)+

lemma rotation:
  fixes x :: u32
  assumes "0 < n" "n < 32"
  shows "push_bit (32 - n) x OR drop_bit n x = word_rotr n x" "drop_bit n x OR push_bit (32 - n) x = word_rotr n x"
  using rotr_word_rotr [OF assms, of x] by (simp_all add: rotr_def or.commute)

lemmas rotations = rotation [of 2, simplified] rotation [of 13, simplified] rotation [of 22, simplified]
  rotation [of 6, simplified] rotation [of 11, simplified] rotation [of 25, simplified] rotation [of 7, simplified]
  rotation [of 18, simplified] rotation [of 17, simplified] rotation [of 19, simplified]

text \<open>One round, and one entry of the schedule, as equations between the names.\<close>

lemma SE_step: "SE p (n + 4) = SA p n + (SE p n + Sigma1 (SE p (n + 3)) + Ch (SE p (n + 3)) (SE p (n + 2)) (SE p (n + 1)) + K ! n + SW p n)"
  and SA_step: "SA p (n + 4) = SE p n + Sigma1 (SE p (n + 3)) + Ch (SE p (n + 3)) (SE p (n + 2)) (SE p (n + 1)) + K ! n + SW p n +
     (Sigma0 (SA p (n + 3)) + Maj (SA p (n + 3)) (SA p (n + 2)) (SA p (n + 1)))"
proof -
  have "block_rounds p (Suc n) = fips_round (K ! n) (SW p n) (block_rounds p n)"
    by (simp add: block_rounds_def rounds_Suc SW_def W8_def)
  then show "SE p (n + 4) = SA p n + (SE p n + Sigma1 (SE p (n + 3)) + Ch (SE p (n + 3)) (SE p (n + 2)) (SE p (n + 1)) + K ! n + SW p n)"
    "SA p (n + 4) = SE p n + Sigma1 (SE p (n + 3)) + Ch (SE p (n + 3)) (SE p (n + 2)) (SE p (n + 1)) + K ! n + SW p n +
     (Sigma0 (SA p (n + 3)) + Maj (SA p (n + 3)) (SA p (n + 2)) (SA p (n + 1)))"
    by (simp_all add: block_rounds_names Let_def eval_nat_numeral)
qed

lemma SE_at: "m = n + 4 \<Longrightarrow> SE p m = SA p n + (SE p n + Sigma1 (SE p (n + 3)) + Ch (SE p (n + 3)) (SE p (n + 2)) (SE p (n + 1)) + K ! n + SW p n)"
  and SA_at: "m = n + 4 \<Longrightarrow> SA p m = SE p n + Sigma1 (SE p (n + 3)) + Ch (SE p (n + 3)) (SE p (n + 2)) (SE p (n + 1)) + K ! n + SW p n +
     (Sigma0 (SA p (n + 3)) + Maj (SA p (n + 3)) (SA p (n + 2)) (SA p (n + 1)))"
  by (simp_all only: SE_step SA_step)

lemma SW_step: "n + 16 < 64 \<Longrightarrow> SW p (n + 16) = sigma1 (SW p (n + 14)) + SW p (n + 9) + sigma0 (SW p (n + 1)) + SW p n"
  using W8_step [of "n + 16" "fst p" "snd p"] by (simp add: SW_def ac_simps)

lemma sigma_constants: "sigma0 0x80000000 + sigma1 64 = 0x11282000" "sigma0 64 = 0x80100008"
  by (simp_all add: sigma0_def sigma1_def rotr_word_rotr [symmetric] rotr_def)

text \<open>The first entries, where the padding is known.\<close>

lemma SW_entries:
  "SW p 16 = SW p 0 + sigma0 (SW p 1)" "SW p 17 = SW p 1 + 0x11282000" "SW p 18 = 0x80000000 + sigma1 (SW p 16)"
  "SW p 19 = sigma1 (SW p 17)" "SW p 20 = sigma1 (SW p 18)" "SW p 21 = sigma1 (SW p 19)" "SW p 22 = 64 + sigma1 (SW p 20)"
  "SW p 23 = SW p 16 + sigma1 (SW p 21)" "SW p 24 = SW p 17 + sigma1 (SW p 22)" "SW p 25 = SW p 18 + sigma1 (SW p 23)"
  "SW p 26 = SW p 19 + sigma1 (SW p 24)" "SW p 27 = SW p 20 + sigma1 (SW p 25)" "SW p 28 = SW p 21 + sigma1 (SW p 26)"
  "SW p 29 = SW p 22 + sigma1 (SW p 27)" "SW p 30 = 0x80100008 + SW p 23 + sigma1 (SW p 28)"
  "SW p 31 = 64 + sigma0 (SW p 16) + SW p 24 + sigma1 (SW p 29)"
  using sigma_constants by (simp_all add: SW_def block8_schedule add.assoc)

lemma top_bit_flip: "0x80000000 + x = x XOR (0x80000000 :: u32)"
proof -
  have "(0x80000000 :: u32) = push_bit 31 1" by simp
  then have top: "bit (0x80000000 :: u32) n \<longleftrightarrow> n = 31" for n
    by (simp only: bit_push_bit_iff bit_1_iff) auto
  have clear: "0x80000000 + z = z XOR (0x80000000 :: u32)" if "\<not> bit z 31" for z
  proof -
    have "z AND 0x80000000 = 0"
      using that by (intro bit_word_eqI) (auto simp: bit_and_iff top simp del: bit_numeral_word_iff)
    then show ?thesis by (simp add: disjunctive_add_eq_xor add.commute)
  qed
  show ?thesis
  proof (cases "bit x 31")
    case True
    then have "\<not> bit (x XOR 0x80000000) 31" by (simp add: bit_xor_iff top del: bit_numeral_word_iff)
    then have "0x80000000 + (x XOR 0x80000000) = x" by (simp add: clear xor.assoc)
    then have "0x80000000 + x = 0x80000000 + (0x80000000 + (x XOR 0x80000000))" by simp
    also have "\<dots> = x XOR 0x80000000" unfolding add.assoc [symmetric] by simp
    finally show ?thesis .
  qed (rule clear)
qed

lemma SW_18_xor: "SW p 18 = sigma1 (SW p 16) XOR 0x80000000"
  by (simp only: SW_entries(3) top_bit_flip)

lemma SW_padding:
  "SW p 2 = 0x80000000" "SW p 3 = 0" "SW p 15 = 64"
  by (simp_all add: SW_def)

lemma SW_zero: "3 \<le> n \<Longrightarrow> n < 15 \<Longrightarrow> SW p n = 0"
  by (simp add: SW_def W8_zero)

lemma K_at:
  "K ! 0 = 0x428a2f98" "K ! Suc 0 = 0x71374491" "K ! 2 = 0xb5c0fbcf" "K ! 15 = 0xc19bf174"
  "K ! 16 = 0xe49b69c1" "K ! 17 = 0xefbe4786" "K ! 18 = 0x0fc19dc6" "K ! 19 = 0x240ca1cc" "K ! 20 = 0x2de92c6f"
  "K ! 21 = 0x4a7484aa" "K ! 22 = 0x5cb0a9dc" "K ! 23 = 0x76f988da" "K ! 24 = 0x983e5152" "K ! 25 = 0xa831c66d"
  "K ! 26 = 0xb00327c8" "K ! 27 = 0xbf597fc7" "K ! 28 = 0xc6e00bf3" "K ! 29 = 0xd5a79147" "K ! 30 = 0x06ca6351"
  "K ! 31 = 0x14292967"
  by (simp_all add: K_def)

text \<open>
  The two stages of a proof about a stretch of code: \<open>lane_run\<close> executes it, \<open>lane_sha\<close> compares what it
  leaves with the equations of the standard.
\<close>

lemmas lane_run = mem_ok_def mem_lane_def slot_ok_def

text \<open>The first two rounds, where the code has folded the initial state into constants.\<close>

lemma first_rounds:
  "SE p 4 = SW p 0 + 0x98c7e2a2" "SA p 4 = SW p 0 + 0xfc08884d"
  using SE_step [of p 0] SA_step [of p 0]
  by (simp_all add: Sigma1_def Sigma0_def Ch_def Maj_def K_at rotr_word_rotr [symmetric] rotr_def)

lemma Maj_initial: "Maj x 0x6a09e667 0xbb67ae85 = (x AND 0xd16e48e2) + 0x2a01a605"
proof -
  have "(x AND 0xd16e48e2) AND 0x2a01a605 = 0" by (simp add: and.assoc)
  then have "(x AND 0xd16e48e2) + 0x2a01a605 = (x AND 0xd16e48e2) XOR 0x2a01a605" by (rule disjoint_sum)
  moreover have "x AND 0xd16e48e2 = (x AND 0x6a09e667) XOR (x AND 0xbb67ae85)"
    by (simp add: bit.conj_xor_distrib [symmetric])
  ultimately show ?thesis by (simp add: Maj_def xor.assoc)
qed

text \<open>An index register that holds a multiple.\<close>

lemma resolve_index:
  "g b = Ptr r off \<Longrightarrow> g x = Num (of_nat i) \<Longrightarrow> i < 2 ^ 32 \<Longrightarrow> resolve g (MemIx b sc x d) = Some (r, off + sc * i + d)"
  "g b = Ptr r off \<Longrightarrow> g x = Num (of_nat i) \<Longrightarrow> i < 2 ^ 32 \<Longrightarrow> resolve g (MemIx x 1 b d) = Some (r, off + i + d)"
  by (simp_all add: unsigned_of_nat take_bit_nat_eq_self)

lemma u32_wrap: "(4294967296 :: u32) = 0"
  by simp

lemmas lane_sha = u32_wrap rotations or_choice SW_padding K_at Sigma0_def Sigma1_def sigma0_def sigma1_def Ch_sum
  Maj_def bit.conj_xor_distrib bit.conj_xor_distrib2 ac_simps

end
