(* ===== verification/Asm1_Loops.thy ===== *)
theory Asm1_Loops
  imports Asm1_Code Sha_Lanes
begin

text \<open>
  The rounds of \<open>reverse_fullyfused_asm_x4.c\<close> that are not straight-line code, on one lane: the first three, where
  constants are folded, and the bodies of the two inner loops. In each body the general register \<open>RDI\<close> is the
  loop's index.
\<close>

section \<open>The tables\<close>

lemma asm1_WORDS_at:
  "asm1_WORDS ! 4 = 0x98c7e2a2" "asm1_WORDS ! 8 = 0xfc08884d"
  "asm1_WORDS ! 12 = 0xd16e48e2" "asm1_WORDS ! 20 = 0x9b05688c" "asm1_WORDS ! 24 = 0xcd2a11ae"
  "asm1_WORDS ! 28 = 0xbabcc441" "asm1_WORDS ! 36 = 0x8c2e12e0" "asm1_WORDS ! 40 = 0xd0c6645b"
  "asm1_WORDS ! 44 = 0xc19bf1b4" "asm1_WORDS ! 48 = 0xe49b69c1" "asm1_WORDS ! 52 = 0x11282000"
  "asm1_WORDS ! 56 = 0x00e66786" "asm1_WORDS ! 60 = 0x80000000" "asm1_WORDS ! 64 = 0x8fc19dc6"
  "asm1_WORDS ! 68 = 0x240ca1cc" "asm1_WORDS ! 72 = 0x2de92c6f" "asm1_WORDS ! 76 = 0x4a7484aa"
  "asm1_WORDS ! 80 = 0x00000040" "asm1_WORDS ! 84 = 0x5cb0aa1c" "asm1_WORDS ! 88 = 0x76f988da"
  "asm1_WORDS ! 92 = 0x983e5152" "asm1_WORDS ! 96 = 0xa831c66d" "asm1_WORDS ! 100 = 0xb00327c8"
  "asm1_WORDS ! 104 = 0xbf597fc7" "asm1_WORDS ! 108 = 0xc6e00bf3" "asm1_WORDS ! 112 = 0xd5a79147"
  "asm1_WORDS ! 116 = 0x80100008" "asm1_WORDS ! 120 = 0x86da6359" "asm1_WORDS ! 124 = 0x14292967"
  "asm1_WORDS ! 128 = 0xa4506ceb" "asm1_WORDS ! 132 = 0xbef9a3f7" "asm1_WORDS ! 136 = 0xc67178f2"
  "asm1_WORDS ! 148 = 0x510e527f" "asm1_WORDS ! 152 = 0x6a09e667"
  "asm1_WORDS ! 156 = 0x00000040"
  by (simp_all add: asm1_WORDS_def)

lemma asm1_WORDS_ok:
  "const_ok asm1_WORDS 16" "const_ok asm1_WORDS 32" "const_ok asm1_WORDS 48" "const_ok asm1_WORDS 80"
  "const_ok asm1_WORDS 96" "const_ok asm1_WORDS 112" "const_ok asm1_WORDS 144" "const_ok asm1_WORDS 160"
  "const_ok asm1_WORDS 176" "const_ok asm1_WORDS 192" "const_ok asm1_WORDS 208" "const_ok asm1_WORDS 224"
  "const_ok asm1_WORDS 240" "const_ok asm1_WORDS 256" "const_ok asm1_WORDS 272" "const_ok asm1_WORDS 288"
  "const_ok asm1_WORDS 304" "const_ok asm1_WORDS 320" "const_ok asm1_WORDS 336" "const_ok asm1_WORDS 352"
  "const_ok asm1_WORDS 368" "const_ok asm1_WORDS 384" "const_ok asm1_WORDS 400" "const_ok asm1_WORDS 416"
  "const_ok asm1_WORDS 432" "const_ok asm1_WORDS 448" "const_ok asm1_WORDS 464" "const_ok asm1_WORDS 480"
  "const_ok asm1_WORDS 496" "const_ok asm1_WORDS 512" "const_ok asm1_WORDS 528" "const_ok asm1_WORDS 544"
  by (simp_all add: const_ok_def asm1_WORDS_def)

lemma asm1_k_K: "asm1_k = K"
  by (simp add: asm1_k_def K_def)

lemma asm1_objects_simps [simp]:
  "asm1_objects t Frame = Area 240" "asm1_objects t Words = Table asm1_WORDS" "asm1_objects t Ktab = Table K"
  "asm1_objects t Input = Table (map (load32 t) [0..<8])"
  by (simp_all add: asm1_objects_def asm1_k_K)

lemma asm1_WORDS_length [simp]: "length asm1_WORDS = 160"
  by (simp add: asm1_WORDS_def)

text \<open>Slots that the rounds do not write: the target, the counters and the stack protector's value.\<close>

definition asm1_keep :: "nat set" where
  "asm1_keep = {5} \<union> {56..}"

lemmas asm1_run = lane_run asm1_keep_def asm1_WORDS_at asm1_WORDS_ok


section \<open>The first rounds\<close>

definition asm1_cut2 :: "block \<Rightarrow> (loc \<times> u32) list" where
  "asm1_cut2 p = [(Xr 2, SA p 4), (Xr 3, SW p 1), (Xr 6, SA p 5), (Xr 7, SW p 0), (Xr 9, SE p 3), (Xr 13, SE p 5), (Xr 14, SE p 4)]"

definition asm1_cut3 :: "block \<Rightarrow> (loc \<times> u32) list" where
  "asm1_cut3 p = [(Xr 2, SA p 4), (Xr 3, SW p 1), (Xr 4, SE p 6), (Xr 6, SA p 5), (Xr 7, SW p 0), (Xr 9, SE p 3), (Xr 10, SA p 3), (Xr 12, SA p 6), (Xr 13, SE p 5), (Xr 14, SE p 4)]"

lemma asm1_round0:
  "g RSP = Ptr Frame 0 \<Longrightarrow> lane_triple (asm1_objects t) g asm1_keep (holds [(Xr 7, SW p 0), (Xr 3, SW p 1)]) asm1_round0
     (holds (asm1_cut2 p))"
  by (rule lane_tripleI; simp add: asm1_round0_def asm1_cut2_def asm1_run;
      simp add: SA_step [of p 1, simplified, unfolded Maj_initial] SE_step [of p 1, simplified] first_rounds lane_sha)

lemma asm1_round12:
  "g RSP = Ptr Frame 0 \<Longrightarrow> lane_triple (asm1_objects t) g asm1_keep (holds (asm1_cut2 p)) asm1_round12 (holds (asm1_cut3 p))"
  by (rule lane_tripleI; simp add: asm1_round12_def asm1_cut2_def asm1_cut3_def asm1_run;
      simp add: SA_step [of p 2, simplified] SE_step [of p 2, simplified] lane_sha)

section \<open>The rounds of the padding\<close>

definition asm1_cut_zero :: "block \<Rightarrow> nat \<Rightarrow> (loc \<times> u32) list" where
  "asm1_cut_zero p n = [(Xr 0, SE p n), (Xr 1, SA p n), (Xr 2, SA p (n + 1)), (Xr 3, SW p 1), (Xr 4, SE p (n + 3)),
     (Xr 6, SA p (n + 2)), (Xr 7, SW p 0), (Xr 12, SA p (n + 3)), (Xr 13, SE p (n + 2)), (Xr 14, SE p (n + 1))]"

lemma asm1_zero_round:
  assumes "g RSP = Ptr Frame 0" "g RCX = Ptr Ktab 0" "g RDI = Num (of_nat n)" "3 \<le> n" "n < 15"
  shows "lane_triple (asm1_objects t) g asm1_keep (holds (asm1_cut_zero p n)) asm1_zero_round (holds (asm1_cut_zero p (n + 1)))"
proof -
  have k: "resolve g (MemIx RCX 4 RDI 0) = Some (Ktab, 4 * n)" using assms resolve_index(1) [of g RCX Ktab 0 RDI n 4 0] by simp
  have len: "length K = 64" by (simp add: K_def)
  have next_cut: "asm1_cut_zero p (n + 1) = [(Xr 0, SE p (n + 1)), (Xr 1, SA p (n + 1)), (Xr 2, SA p (n + 2)), (Xr 3, SW p 1), (Xr 4, SE p (n + 4)),
     (Xr 6, SA p (n + 3)), (Xr 7, SW p 0), (Xr 12, SA p (n + 4)), (Xr 13, SE p (n + 3)), (Xr 14, SE p (n + 2))]"
    by (simp add: asm1_cut_zero_def eval_nat_numeral)
  show ?thesis unfolding next_cut
    by (rule lane_tripleI; use assms(1,4,5) in \<open>simp add: asm1_zero_round_def asm1_cut_zero_def asm1_run k len del: resolve.simps(2)\<close>;
      simp add: SA_at [of "n + 4" n p] SE_at [of "n + 4" n p] SW_zero lane_sha)
qed

section \<open>The rounds of the schedule\<close>

lemma asm1_slots:
  fixes i :: nat
  shows "(16 * i + 144) div 16 = i + 9" "(16 * i + 272) div 16 = i + 17" "(16 * i + 384) div 16 = i + 24"
    "(16 * i + 144) div 4 = 4 * i + 36" "(16 * i + 272) div 4 = 4 * i + 68" "(16 * i + 384) div 4 = 4 * i + 96"
    "(4 * i + 128) div 4 = i + 32"
  by presburger+

definition asm1_cut_step :: "block \<Rightarrow> nat \<Rightarrow> (loc \<times> u32) list" where
  "asm1_cut_step p i = [(Xr 2, SA p (i + 35)), (Xr 3, SE p (i + 34)), (Xr 4, SE p (i + 33)), (Xr 5, SW p (i + 30)), (Xr 6, SA p (i + 33)),
     (Xr 7, SW p (i + 31)), (Xr 11, SW p (i + 16)), (Xr 12, SA p (i + 34)), (Xr 13, SA p (i + 32)), (Xr 14, SE p (i + 35)),
     (Xr 15, SE p (i + 32)), (Sl (i + 9), SW p (i + 17)), (Sl (i + 17), SW p (i + 25))]"

definition asm1_cut_step_post :: "block \<Rightarrow> nat \<Rightarrow> (loc \<times> u32) list" where
  "asm1_cut_step_post p i = [(Xr 1, SW p (i + 31)), (Xr 2, SA p (i + 36)), (Xr 3, SE p (i + 35)), (Xr 4, SE p (i + 34)), (Xr 6, SA p (i + 34)),
     (Xr 7, SW p (i + 32)), (Xr 11, SW p (i + 17)), (Xr 12, SA p (i + 35)), (Xr 13, SA p (i + 33)), (Xr 14, SE p (i + 36)),
     (Xr 15, SE p (i + 33)), (Sl (i + 24), SW p (i + 32))]"

lemma asm1_round_step:
  assumes "g RSP = Ptr Frame 0" "g RCX = Ptr Ktab 0" "g RDI = Num (of_nat (4 * i))" "i < 29"
  shows "lane_triple (asm1_objects t) g (- {i + 24})
    (holds (asm1_cut_step p i)) asm1_round_step (holds (asm1_cut_step_post p i))"
proof -
  note index = resolve_index [of g RSP Frame 0 RDI "4 * i" 4] resolve_index [of g RCX Ktab 0 RDI "4 * i"]
  have r: "resolve g (MemIx RSP 4 RDI d) = Some (Frame, 16 * i + d)" "resolve g (MemIx RDI (Suc 0) RCX d) = Some (Ktab, 4 * i + d)" for d
    using assms index by simp_all
  have len: "length K = 64" by (simp add: K_def)
  have w: "SW p (i + 32) = sigma1 (SW p (i + 30)) + SW p (i + 25) + sigma0 (SW p (i + 17)) + SW p (i + 16)"
    using SW_step [of "i + 16" p] assms(4) by (simp add: ac_simps)
  show ?thesis
    by (rule lane_tripleI; use assms(1,4) in \<open>simp add: asm1_round_step_def asm1_cut_step_def asm1_cut_step_post_def asm1_run r len asm1_slots del: resolve.simps(2)\<close>;
      simp add: SA_at [of "i + 36" "i + 32" p] SE_at [of "i + 36" "i + 32" p] w lane_sha)
qed

section \<open>The last three rounds\<close>

text \<open>The comparison of the early exit is kept in the first slot.\<close>

definition asm1_cut61 :: "u32 \<Rightarrow> block \<Rightarrow> (loc \<times> u32) list" where
  "asm1_cut61 m p = [(Xr 0, m), (Xr 1, SW p 59), (Xr 2, SA p 64), (Xr 3, SE p 63), (Xr 4, SE p 62), (Xr 6, SA p 62),
     (Xr 7, SW p 60), (Xr 12, SA p 63), (Xr 13, SA p 61), (Xr 14, SE p 64), (Xr 15, SE p 61), (Sl 37, SW p 45),
     (Sl 38, SW p 46), (Sl 39, SW p 47), (Sl 40, SW p 48), (Sl 46, SW p 54), (Sl 47, SW p 55), (Sl 48, SW p 56)]"

definition asm1_cut62 :: "u32 \<Rightarrow> block \<Rightarrow> (loc \<times> u32) list" where
  "asm1_cut62 m p = [(Sl 0, m), (Xr 1, SE p 65), (Xr 2, SA p 64), (Xr 3, SE p 63), (Xr 4, SE p 62), (Xr 5, SA p 65),
     (Xr 6, SA p 62), (Xr 7, SW p 60), (Xr 8, SW p 61), (Xr 9, SW p 47), (Xr 10, SW p 46), (Xr 12, SA p 63),
     (Xr 14, SE p 64), (Sl 40, SW p 48), (Sl 47, SW p 55), (Sl 48, SW p 56)]"

definition asm1_cut63 :: "u32 \<Rightarrow> block \<Rightarrow> (loc \<times> u32) list" where
  "asm1_cut63 m p = [(Sl 0, m), (Xr 1, SE p 65), (Xr 2, SA p 64), (Xr 3, SE p 63), (Xr 4, SE p 66), (Xr 5, SA p 65),
     (Xr 6, SA p 66), (Xr 8, SW p 61), (Xr 9, SW p 47), (Xr 11, SW p 48), (Xr 12, SA p 63), (Xr 14, SE p 64),
     (Sl 48, SW p 56)]"

definition asm1_cut64 :: "u32 \<Rightarrow> block \<Rightarrow> (loc \<times> u32) list" where
  "asm1_cut64 m p = [(Sl 0, m), (Xr 0, SA p 67), (Xr 1, SE p 65), (Xr 2, SA p 64), (Xr 3, SE p 67), (Xr 4, SE p 66),
     (Xr 5, SA p 65), (Xr 6, SA p 66)]"

lemma K_last: "K ! 61 = 0xa4506ceb" "K ! 62 = 0xbef9a3f7" "K ! 63 = 0xc67178f2"
  by (simp_all add: K_def)

lemma asm1_late61:
  "g RSP = Ptr Frame 0 \<Longrightarrow> lane_triple (asm1_objects t) g asm1_keep (holds (asm1_cut61 m p)) asm1_late61 (holds (asm1_cut62 m p))"
  by (rule lane_tripleI; simp add: asm1_late61_def asm1_cut61_def asm1_cut62_def asm1_run;
      simp add: SA_step [of p 61, simplified] SE_step [of p 61, simplified] SW_step [of 45 p, simplified] K_last lane_sha)

lemma asm1_late62:
  "g RSP = Ptr Frame 0 \<Longrightarrow> lane_triple (asm1_objects t) g asm1_keep (holds (asm1_cut62 m p)) asm1_late62 (holds (asm1_cut63 m p))"
  by (rule lane_tripleI; simp add: asm1_late62_def asm1_cut62_def asm1_cut63_def asm1_run;
      simp add: SA_step [of p 62, simplified] SE_step [of p 62, simplified] SW_step [of 46 p, simplified] K_last lane_sha)

lemma asm1_late63:
  "g RSP = Ptr Frame 0 \<Longrightarrow> lane_triple (asm1_objects t) g asm1_keep (holds (asm1_cut63 m p)) asm1_late63 (holds (asm1_cut64 m p))"
  by (rule lane_tripleI; simp add: asm1_late63_def asm1_cut63_def asm1_cut64_def asm1_run;
      simp add: SA_step [of p 63, simplified] SE_step [of p 63, simplified] SW_step [of 47 p, simplified] K_last lane_sha)

end
