(* ===== verification/Asm_Search.thy ===== *)
theory Asm_Search
  imports Sha_Lanes
begin

text \<open>
  What the two searches in assembly, \<open>reverse_fullyfused_asm_x4.c\<close> and \<open>reverse_fullyfused_asm_x4_2.c\<close>, share: the outer
  loop. The locale \<open>four_lane_code\<close> states what one pass of it does, starting at the loop's label with the four
  numbers of a group; from this the whole search is the one of \<open>reverse_fullyfused_x4.c\<close>, also where it does not
  end.
\<close>

section \<open>Running blocks\<close>

definition go :: "(object \<Rightarrow> storage) \<Rightarrow> program \<Rightarrow> place \<times> cpu \<Rightarrow> place \<times> cpu \<Rightarrow> bool" where
  "go ob p c c' \<longleftrightarrow> running c \<and> c' = block_step ob p c"

lemma goI: "p l = (is, ex) \<Longrightarrow> exec ob is s = Some s' \<Longrightarrow> go ob p (At l, s) (leave ex s', s')"
  by (simp add: go_def)

lemma running_at: "running (pl, s) \<longleftrightarrow> (\<exists>l. pl = At l)"
  by (cases pl) simp_all

lemma run_go: "(go ob p)\<^sup>+\<^sup>+ c c' \<Longrightarrow> while_option running (block_step ob p) c = while_option running (block_step ob p) c'"
proof (induction rule: tranclp_induct)
  case (base c')
  then show ?case using while_option_unfold [of running "block_step ob p" c] by (simp add: go_def)
next
  case (step c' c'')
  then show ?case using while_option_unfold [of running "block_step ob p" c'] by (simp add: go_def)
qed

lemma run_end: "\<not> running c \<Longrightarrow> while_option running (block_step ob p) c = Some c"
  by (subst while_option_unfold) simp

lemma run_count:
  assumes "while_option running (block_step ob p) c = Some t"
  shows "\<exists>k. (go ob p ^^ k) c t \<and> \<not> running t"
proof -
  let ?stop = "\<lambda>k. \<not> running ((block_step ob p ^^ k) c)"
  have ex: "\<exists>k. ?stop k" and t: "t = (block_step ob p ^^ (LEAST k. ?stop k)) c"
    using assms by (auto simp: while_option_def split: if_splits)
  obtain k where k: "t = (block_step ob p ^^ k) c" "\<forall>j<k. running ((block_step ob p ^^ j) c)" "\<not> running t"
    using that [of "LEAST k. ?stop k"] t LeastI_ex [OF ex] not_less_Least [of _ ?stop] by blast
  have "(go ob p ^^ j) c ((block_step ob p ^^ j) c)" if "j \<le> k" for j
    using that
  proof (induction j)
    case (Suc j)
    then have "go ob p ((block_step ob p ^^ j) c) ((block_step ob p ^^ Suc j) c)" using k(2) by (simp add: go_def)
    then show ?case using Suc by (meson Suc_leD relpowp_Suc_I)
  qed simp
  then show ?thesis using k(1,3) by blast
qed

lemma go_count:
  assumes "(go ob p)\<^sup>+\<^sup>+ c c'" "(go ob p ^^ k) c t" "\<not> running t"
  shows "\<exists>j<k. (go ob p ^^ j) c' t"
proof -
  have one: "\<exists>j<k. (go ob p ^^ j) c' t" if first: "go ob p c c'" and all: "(go ob p ^^ k) c t" for c c' k
  proof (cases k)
    case 0
    then show ?thesis using first all assms(3) by (auto simp: go_def)
  next
    case (Suc j)
    then obtain c1 where "go ob p c c1" "(go ob p ^^ j) c1 t" using all relpowp_Suc_D2 by metis
    then show ?thesis using first Suc by (auto simp: go_def)
  qed
  from assms(1) show ?thesis
  proof (induction rule: tranclp_induct)
    case (base c')
    then show ?case using one assms(2) by blast
  next
    case (step c' c'')
    then show ?case using one by (meson order.strict_trans)
  qed
qed

section \<open>The outer loop\<close>

text \<open>The lane of the first answer in a group.\<close>

definition hit_lane :: "u64 list \<Rightarrow> u8 list \<Rightarrow> nat option" where
  "hit_lane data target = find (lane_hit data target) [0, 1, 2, 3]"

locale four_lane_code =
  fixes ob :: "object \<Rightarrow> storage" and p :: program and stop :: u64 and target :: "u8 list"
    and head :: "u64 list \<Rightarrow> cpu \<Rightarrow> bool" and restored :: "cpu \<Rightarrow> bool"
  assumes hit: "head data s \<Longrightarrow> length data = 4 \<Longrightarrow> hit_lane data target = Some l \<Longrightarrow>
      \<exists>s'. (go ob p)\<^sup>+\<^sup>+ (At 1, s) (Done, s') \<and> reg s' RAX = Num (data ! l) \<and> restored s'"
    and again: "head data s \<Longrightarrow> length data = 4 \<Longrightarrow> hit_lane data target = None \<Longrightarrow>
      data ! 0 + 4 \<le> stop \<Longrightarrow> \<exists>s'. (go ob p)\<^sup>+\<^sup>+ (At 1, s) (At 1, s') \<and> head (map (\<lambda>x. x + 4) data) s'"
    and stops: "head data s \<Longrightarrow> length data = 4 \<Longrightarrow> hit_lane data target = None \<Longrightarrow>
      \<not> data ! 0 + 4 \<le> stop \<Longrightarrow> \<exists>s'. (go ob p)\<^sup>+\<^sup>+ (At 1, s) (Done, s') \<and> reg s' RAX = Num 0 \<and> restored s'"

lemma rev4_pass:
  assumes "length data = 4" "length (w data) = 48"
  shows "(case rev4_block (w data) data target of
      Some x \<Rightarrow> Some x
    | None \<Rightarrow>
        (let data = data[0 := data ! 0 + 4];
             data = data[1 := data ! 1 + 4];
             data = data[2 := data ! 2 + 4];
             data = data[3 := data ! 3 + 4]
         in if data ! 0 \<le> stop then f w data stop target else Some 0)) =
    (case hit_lane data target of
       Some l \<Rightarrow> Some (data ! l)
     | None \<Rightarrow> if data ! 0 + 4 \<le> stop then f w (map (\<lambda>x. x + 4) data) stop target else Some 0)"
proof -
  obtain a b c d where data: "data = [a, b, c, d]"
    using assms(1) by (auto simp: length_Suc_conv numeral_eq_Suc)
  show ?thesis
    unfolding rev4_block_find [OF assms] hit_lane_def [symmetric] by (cases "hit_lane data target") (simp_all add: data)
qed

lemmas rev4_loop_pass = rev4_pass [where f = rev4_loop, folded rev4_loop.simps]

context four_lane_code
begin

lemma returns:
  assumes "rev4_loop w data stop target = Some x" "\<forall>d. length (w d) = 48" "head data s" "length data = 4"
  shows "\<exists>s'. run ob p 1 s = Some (Done, s') \<and> reg s' RAX = Num x \<and> restored s'"
proof -
  have "stop' = stop \<longrightarrow> target' = target \<longrightarrow> (\<forall>d. length (w d) = 48) \<longrightarrow> length data = 4 \<longrightarrow> (\<forall>s. head data s \<longrightarrow>
      (\<exists>s'. run ob p 1 s = Some (Done, s') \<and> reg s' RAX = Num x \<and> restored s'))"
    if "rev4_loop w data stop' target' = Some x" for stop' target'
  proof (induction rule: rev4_loop.raw_induct [OF _ that])
    case (1 f w data stop' target' x)
    show ?case
    proof (intro impI allI)
      fix s
      assume eqs: "stop' = stop" "target' = target" and w: "\<forall>d. length (w d) = 48" and len: "length data = 4"
        and s: "head data s"
      have body: "(case hit_lane data target of
          Some l \<Rightarrow> Some (data ! l)
        | None \<Rightarrow> if data ! 0 + 4 \<le> stop then f w (map (\<lambda>x. x + 4) data) stop target else Some 0) = Some x"
        using 1(2) unfolding eqs rev4_pass [where f = f and w = w, OF len w [rule_format]] .
      have final: "run ob p 1 s = Some (Done, s')" if "(go ob p)\<^sup>+\<^sup>+ (At 1, s) (Done, s')" for s'
        using run_go [OF that] by (simp add: run_def run_end)
      show "\<exists>s'. run ob p 1 s = Some (Done, s') \<and> reg s' RAX = Num x \<and> restored s'"
      proof (cases "hit_lane data target")
        case (Some l)
        then show ?thesis using hit [OF s len Some] body final by auto
      next
        case None
        show ?thesis
        proof (cases "data ! 0 + 4 \<le> stop")
          case True
          then obtain s' where s': "(go ob p)\<^sup>+\<^sup>+ (At 1, s) (At 1, s')" "head (map (\<lambda>x. x + 4) data) s'"
            using again [OF s len None] by blast
          have "run ob p 1 s = run ob p 1 s'" using run_go [OF s'(1)] by (simp add: run_def)
          then show ?thesis using 1(1) [of w "map (\<lambda>x. x + 4) data" stop target x] body None True eqs w len s'(2) by simp
        next
          case False
          then show ?thesis using stops [OF s len None] body None final by auto
        qed
      qed
    qed
  qed
  then show ?thesis using assms by blast
qed

lemma diverges:
  assumes "rev4_loop w data stop target = None" "\<forall>d. length (w d) = 48" "head data s" "length data = 4"
  shows "run ob p 1 s = None"
proof (rule ccontr)
  assume "run ob p 1 s \<noteq> None"
  then obtain t where "while_option running (block_step ob p) (At 1, s) = Some t" by (auto simp: run_def)
  then obtain k where "(go ob p ^^ k) (At 1, s) t" "\<not> running t" using run_count by blast
  then show False
    using assms(1,3,4)
  proof (induction k arbitrary: data s rule: less_induct)
    case (less k)
    have none: "hit_lane data target = None" "data ! 0 + 4 \<le> stop"
        "rev4_loop w (map (\<lambda>x. x + 4) data) stop target = None"
      using less.prems(3) rev4_loop_pass [OF less.prems(5), where w = w] assms(2)
      by (auto split: option.splits if_splits)
    obtain s' where s': "(go ob p)\<^sup>+\<^sup>+ (At 1, s) (At 1, s')" "head (map (\<lambda>x. x + 4) data) s'"
      using again [OF less.prems(4,5) none(1,2)] by blast
    obtain j where "j < k" "(go ob p ^^ j) (At 1, s') t" using go_count [OF s'(1) less.prems(1,2)] by blast
    then show False using less.IH [of j s' "map (\<lambda>x. x + 4) data"] less.prems(2,5) none(3) s'(2) by simp
  qed
qed

end

section \<open>Groups of four numbers\<close>

definition group_block :: "u64 list \<Rightarrow> nat \<Rightarrow> block" where
  "group_block data l = (lane_w0 (concat (map le64_bytes data)) l, lane_w1 (concat (map le64_bytes data)) l)"

lemma lane_regs_names: "lane_regs data n l = block_rounds (group_block data l) n"
  by (simp add: lane_regs_def block_rounds_def group_block_def Let_def)

lemma lane_hit_names:
  "lane_hit data target l \<longleftrightarrow>
     SA (group_block data l) 67 = load32 target 0 \<and> SA (group_block data l) 66 = load32 target 1 \<and>
     SA (group_block data l) 65 = load32 target 2 \<and> SA (group_block data l) 64 = load32 target 3 \<and>
     SE (group_block data l) 67 = load32 target 4 \<and> SE (group_block data l) 66 = load32 target 5 \<and>
     SE (group_block data l) 65 = load32 target 6 \<and> SE (group_block data l) 64 = load32 target 7"
  unfolding lane_hit_def lane_regs_names block_rounds_names by (simp add: all_less_8)

text \<open>The early exit compares the variable \<open>a\<close> after round 56.\<close>

lemma lane_hit_d60: "lane_hit data target l \<Longrightarrow> SA (group_block data l) 60 = target_d60 target"
  using target_d60_sound [of _ "regs_of H0" target]
  by (simp add: lane_hit_def SA_def block_rounds_def lane_regs_def group_block_def Let_def)

lemma hit_lane_None: "hit_lane data target = None \<longleftrightarrow> (\<forall>l<4. \<not> lane_hit data target l)"
  by (auto simp: hit_lane_def all_less_4)

lemma hit_lane_SomeD: "hit_lane data target = Some l \<Longrightarrow> l < 4"
  by (auto simp: hit_lane_def split: if_splits)

text \<open>The counters are two registers in memory.\<close>

definition pair_reg :: "u64 \<Rightarrow> u64 \<Rightarrow> m128" where
  "pair_reg a b = M128 (lo32 a) (hi32 a) (lo32 b) (hi32 b)"

lemma join64_halves [simp]: "join64 (lo32 x) (hi32 x) = x"
  by (rule bit_word_eqI) (auto simp: join64_def lo32_def hi32_def bit_simps)

lemma halves_join64 [simp]: "lo32 (join64 a b) = a" "hi32 (join64 a b) = b"
  by (rule bit_word_eqI, auto simp: join64_def lo32_def hi32_def bit_simps dest: bit_imp_le_length)+

lemma pair_reg_add: "mm_add_epi64 (pair_reg a b) (pair_reg c d) = pair_reg (a + c) (b + d)"
  by (simp add: pair_reg_def Let_def)

lemma byte_of_halves:
  "i < 4 \<Longrightarrow> byte_of (lo32 x) i = byte_of x i" "i < 4 \<Longrightarrow> byte_of (hi32 x) i = byte_of x (i + 4)"
  by (rule bit_word_eqI, auto simp: bit_simps lo32_def hi32_def ac_simps)+

lemma le32_halves:
  "le32 (byte_of x 0) (byte_of x (Suc 0)) (byte_of x 2) (byte_of x 3) = lo32 x"
  "le32 (byte_of x 4) (byte_of x 5) (byte_of x 6) (byte_of x 7) = hi32 x"
  using le32_of_bytes [of "lo32 x"] le32_of_bytes [of "hi32 x"] by (simp_all add: byte_of_halves)

lemma le64_bytes_list:
  "le64_bytes x = [byte_of x 0, byte_of x 1, byte_of x 2, byte_of x 3, byte_of x 4, byte_of x 5, byte_of x 6, byte_of x 7]"
  by (simp add: le64_bytes_def upt_rec numeral_eq_Suc)

lemma mm_load_group:
  "mm_load (concat (map le64_bytes [a, b, c, d])) 0 = pair_reg a b"
  "mm_load (concat (map le64_bytes [a, b, c, d])) 16 = pair_reg c d"
  by (simp_all add: mm_load_def load32_def pair_reg_def le64_bytes_list le32_halves)

lemma m128_eqI: "\<forall>l<4. lane l v = lane l w \<Longrightarrow> v = w"
  by (cases v; cases w) (auto simp: lane_def all_less_4)

lemma lane_vec4 [simp]: "l < 4 \<Longrightarrow> lane l (vec4 f) = f l"
  using lane_M128 [of l f] by (simp add: vec4_def)

lemma xmm_vec4: "xmm s n = vec4 (\<lambda>l. view l s (Xr n))"
  by (rule m128_eqI) (simp add: view_def vec4_def all_less_4 lane_def)

definition counters :: "nat \<Rightarrow> u64 list \<Rightarrow> cpu \<Rightarrow> bool" where
  "counters j data s \<longleftrightarrow> (\<forall>l<4. view l s (Sl j) = lane l (pair_reg (data ! 0) (data ! 1)) \<and>
     view l s (Sl (j + 1)) = lane l (pair_reg (data ! 2) (data ! 3)))"

lemma load_counters:
  assumes "counters j data s" "slot_ok ob (16 * j)" "slot_ok ob (16 * (j + 1))"
  shows "load16 ob s Frame (16 * j) = Some (pair_reg (data ! 0) (data ! 1))"
    "load16 ob s Frame (16 * (j + 1)) = Some (pair_reg (data ! 2) (data ! 3))"
  using load16_frame [OF assms(2), of s] load16_frame [OF assms(3), of s] assms(1)
  by (force simp: counters_def intro: m128_eqI)+

lemma load8_slot:
  assumes "slot_ok ob (16 * j)"
  shows "load8 ob s Frame (16 * j) = Some (join64 (view 0 s (Sl j)) (view 1 s (Sl j)))"
    "load8 ob s Frame (16 * j + 8) = Some (join64 (view 2 s (Sl j)) (view 3 s (Sl j)))"
  using load4_frame [OF assms, of 0 s] load4_frame [OF assms, of 1 s] load4_frame [OF assms, of 2 s]
    load4_frame [OF assms, of 3 s] by (simp_all add: load8_def ac_simps)

lemma load_counter:
  assumes "counters j data s" "slot_ok ob (16 * j)" "slot_ok ob (16 * (j + 1))" "l < 4"
  shows "load8 ob s Frame (16 * j + 8 * l) = Some (data ! l)"
proof -
  have at: "l = 0 \<or> l = 1 \<or> l = 2 \<or> l = 3" using assms(4) by linarith
  have lanes: "lane 0 (pair_reg a b) = lo32 a" "lane 1 (pair_reg a b) = hi32 a" "lane 2 (pair_reg a b) = lo32 b"
    "lane 3 (pair_reg a b) = hi32 b" for a b by (simp_all add: pair_reg_def lane_def)
  have "view m s (Sl j) = lane m (pair_reg (data ! 0) (data ! 1))" "view m s (Sl (j + 1)) = lane m (pair_reg (data ! 2) (data ! 3))"
    if "m < 4" for m using assms(1) that by (auto simp: counters_def)
  from this [of 0] this [of 1] this [of 2] this [of 3] show ?thesis
    using at load8_slot [OF assms(2), of s] load8_slot [OF assms(3), of s] lanes
    by (elim disjE) (simp_all add: ac_simps)
qed

text \<open>Turning them into the message words.\<close>

lemma words_mask: "map unat (m128_bytes (M128 0x00010203 0x04050607 0x08090a0b 0x0c0d0e0f)) = byteswap_mask"
  by (simp add: m128_bytes_def le32_bytes_def byte_of_def byteswap_mask_def)

lemma group_words:
  assumes "length data = 4"
  shows "interleave_x4 (concat (map le64_bytes data)) = (vec4 (\<lambda>l. SW (group_block data l) 0), vec4 (\<lambda>l. SW (group_block data l) 1))"
proof -
  have "length (concat (map le64_bytes data)) = 32" using assms by (simp add: length_concat comp_def sum_list_triv)
  then show ?thesis by (simp add: interleave_x4_V4 V4_def SW_def group_block_def)
qed

lemma interleave_group:
  assumes "length data = 4" "h0 = mm_shuffle_epi8 (pair_reg (data ! 0) (data ! 1)) byteswap_mask"
    and "h1 = mm_shuffle_epi8 (pair_reg (data ! 2) (data ! 3)) byteswap_mask"
  shows "mm_unpacklo_epi32 (mm_unpacklo_epi32 h0 h1) (mm_unpackhi_epi32 h0 h1) = vec4 (\<lambda>l. SW (group_block data l) 0)"
    "mm_unpackhi_epi32 (mm_unpacklo_epi32 h0 h1) (mm_unpackhi_epi32 h0 h1) = vec4 (\<lambda>l. SW (group_block data l) 1)"
proof -
  obtain a b c d where data: "data = [a, b, c, d]"
    using assms(1) by (auto simp: length_Suc_conv numeral_eq_Suc)
  show "mm_unpacklo_epi32 (mm_unpacklo_epi32 h0 h1) (mm_unpackhi_epi32 h0 h1) = vec4 (\<lambda>l. SW (group_block data l) 0)"
    "mm_unpackhi_epi32 (mm_unpacklo_epi32 h0 h1) (mm_unpackhi_epi32 h0 h1) = vec4 (\<lambda>l. SW (group_block data l) 1)"
    using group_words [OF assms(1)] assms(2,3) mm_load_group [of a b c d]
    by (simp_all add: interleave_x4_def Let_def data)
qed

section \<open>Blocks\<close>

text \<open>What a stretch leaves alone, apart from the index register \<open>x\<close>.\<close>

definition untouched :: "gpr \<Rightarrow> nat set \<Rightarrow> cpu \<Rightarrow> cpu \<Rightarrow> bool" where
  "untouched x keep s s' \<longleftrightarrow> (\<forall>r. r \<noteq> x \<longrightarrow> reg s' r = reg s r) \<and> saved s' = saved s \<and> fs40 s' = fs40 s \<and>
     (\<forall>l<4. \<forall>j\<in>keep. view l s' (Sl j) = view l s (Sl j))"

lemma untouched_trans: "untouched x keep s s' \<Longrightarrow> untouched x keep s' s'' \<Longrightarrow> untouched x keep s s''"
  by (simp add: untouched_def)

lemma untouched_mono: "untouched x keep s s' \<Longrightarrow> keep' \<subseteq> keep \<Longrightarrow> untouched x keep' s s'"
  by (auto simp: untouched_def)

lemma exec_stretch:
  assumes "\<And>l. l < 4 \<Longrightarrow> lane_triple ob (reg s) keep (P l) is (Q l)" "\<And>l. l < 4 \<Longrightarrow> P l (view l s)"
  shows "\<exists>s'. exec ob is s = Some s' \<and> untouched x keep s s' \<and> reg s' = reg s \<and> (\<forall>l<4. Q l (view l s'))"
  using exec_triple [OF assms] by (auto simp: untouched_def same_rest_def)

lemma untouched_set_xmm [simp]: "untouched x keep s (set_xmm d v s') \<longleftrightarrow> untouched x keep s s'"
  by (simp add: untouched_def view_set_xmm) (simp add: set_xmm_def)

lemma untouched_refl [simp]: "untouched x keep s s"
  by (simp add: untouched_def)

lemma set_xmm_simps [simp]:
  "reg (set_xmm d v s) = reg s" "xmm (set_xmm d v s) = (xmm s)(d := v)" "mem (set_xmm d v s) = mem s"
  "load16 ob (set_xmm d v s) = load16 ob s"
  by (simp_all add: set_xmm_def fun_eq_iff load16_def load4_def split: storage.split)

lemma load_rest [simp]:
  "load4 ob (set_reg r v s) = load4 ob s" "load4 ob (s\<lparr>flags := fl\<rparr>) = load4 ob s"
  "load8 ob (set_reg r v s) = load8 ob s" "load8 ob (s\<lparr>flags := fl\<rparr>) = load8 ob s"
  "load16 ob (set_reg r v s) = load16 ob s" "load16 ob (s\<lparr>flags := fl\<rparr>) = load16 ob s"
  by (simp_all add: fun_eq_iff load16_def load8_def load4_def set_reg_def split: storage.split)

lemma exec_then: "exec ob is s = Some s' \<Longrightarrow> exec ob (is @ js) s = exec ob js s'"
  by (simp add: exec_append)

lemma view_rest [simp]:
  "view l (set_reg r v s) = view l s" "view l (s\<lparr>flags := fl\<rparr>) = view l s" "view l (s\<lparr>reg := g\<rparr>) = view l s"
  by (simp_all add: fun_eq_iff view_def set_reg_def split: loc.split)

lemma untouched_set_reg [simp]: "untouched x keep s (set_reg x v s') \<longleftrightarrow> untouched x keep s s'"
  "untouched x keep s (s'\<lparr>flags := fl\<rparr>) \<longleftrightarrow> untouched x keep s s'"
  by (simp_all add: untouched_def) (simp add: set_reg_def)

lemma set_reg_simps [simp]:
  "reg (set_reg r v s) = (reg s)(r := v)" "xmm (set_reg r v s) = xmm s" "flags (set_reg r v s) = flags s"
  "flags (set_xmm d w s) = flags s" "saved (set_reg r v s) = saved s" "saved (set_xmm d w s) = saved s"
  "mem (set_reg r v s) = mem s" "fs40 (set_reg r v s) = fs40 s" "fs40 (set_xmm d w s) = fs40 s"
  by (simp_all add: set_reg_def set_xmm_def)

lemma lane_xmm [simp]: "lane l (xmm s n) = view l s (Xr n)"
  by (simp add: view_def)

lemma untouched_regs:
  "untouched x keep s s' \<Longrightarrow> r \<noteq> x \<Longrightarrow> reg s' r = reg s r"
  by (simp add: untouched_def)

text \<open>A loop of one block that counts.\<close>

lemma go_loop:
  fixes a n :: nat
  assumes "\<And>i s. a \<le> i \<Longrightarrow> i < n \<Longrightarrow> I i s \<Longrightarrow>
      \<exists>s'. go ob p (At l, s) (At (if i + 1 = n then l' else l), s') \<and> I (i + 1) s'"
    and "a < n" "I a s"
  shows "\<exists>s'. (go ob p)\<^sup>+\<^sup>+ (At l, s) (At l', s') \<and> I n s'"
proof -
  have "a \<le> i \<longrightarrow> (\<forall>s. I i s \<longrightarrow> (\<exists>s'. (go ob p)\<^sup>+\<^sup>+ (At l, s) (At l', s') \<and> I n s'))" if "i < n" for i
    using that
  proof (induction i rule: strict_inc_induct)
    case (base i)
    then show ?case using assms(1) [of i] by fastforce
  next
    case (step i)
    show ?case
    proof (intro impI allI)
      fix s assume i: "a \<le> i" "I i s"
      obtain s1 where "go ob p (At l, s) (At (if i + 1 = n then l' else l), s1)" "I (i + 1) s1"
        using assms(1) [of i s] i step.hyps by auto
      then show "\<exists>s'. (go ob p)\<^sup>+\<^sup>+ (At l, s) (At l', s') \<and> I n s'"
        using step i(1) assms(1) [of i s] by (cases "i + 1 = n") (force intro: tranclp_into_tranclp2)+
    qed
  qed
  then show ?thesis using assms(2,3) by blast
qed

lemma u64_index:
  assumes "a < 2 ^ 32" "b < 2 ^ 32"
  shows "(of_nat a :: u64) = of_nat b \<longleftrightarrow> a = b" "(of_nat a :: u64) < of_nat b \<longleftrightarrow> a < b"
  using assms by (simp_all add: word_unat_eq_iff word_less_nat_alt unsigned_of_nat take_bit_nat_eq_self)

section \<open>The answer of a group\<close>

lemma movemask_top:
  "mm_movemask_ps (vec4 (\<lambda>l. if p l then 0x80000000 else 0)) = mm_movemask_ps (vec4 (\<lambda>l. if p l then - 1 else 0))"
  by (simp add: vec4_def)

lemma hit_lane_mask:
  "hit_lane data target =
    (let bm = mm_movemask_ps (vec4 (\<lambda>l. if lane_hit data target l then 0x80000000 else 0))
     in if bm \<noteq> 0 then Some (builtin_ctz bm) else None)"
  unfolding movemask_top hit_lane_def by (rule movemask_lanes [symmetric])

lemma movemask_small: "mm_movemask_ps v < 16"
proof (cases v)
  case (M128 a b c d)
  show ?thesis unfolding M128 by (cases "bit a 31"; cases "bit b 31"; cases "bit c 31"; cases "bit d 31") (simp_all add: bit_simps)
qed

lemma and_masks: "(if a then - 1 else 0) AND (if b then - 1 else 0 :: u32) = (if a \<and> b then - 1 else 0)"
  by simp

lemma top_mask: "push_bit 31 (if a then - 1 else 0 :: u32) = (if a then 0x80000000 else 0)"
  by (simp add: mask_eq_exp_minus_1)

text \<open>The registers a search gives back to its caller.\<close>

definition restored :: "nat \<Rightarrow> cpu \<Rightarrow> cpu \<Rightarrow> bool" where
  "restored sp c s \<longleftrightarrow> reg s RSP = Ptr Saved sp \<and> reg s RBP = reg c RBP \<and> reg s RBX = reg c RBX \<and> reg s R14 = reg c R14"

section \<open>The target\<close>

text \<open>The steps of \<open>target_d60\<close> have names, and the code computes them with 32-bit halves of the general registers.\<close>

lemma lo32_ucast [simp]: "lo32 (ucast (x :: u32)) = x"
  by (rule bit_word_eqI) (auto simp: lo32_def bit_simps)

definition target_d63 :: "u8 list \<Rightarrow> u32" where
  "target_d63 t = load32 t 4 - (load32 t 0 - (rev_Sigma0 (load32 t 1) + rev_Maj (load32 t 1) (load32 t 2) (load32 t 3)))"

definition target_d62 :: "u8 list \<Rightarrow> u32" where
  "target_d62 t = load32 t 5 - (load32 t 1 - (rev_Sigma0 (load32 t 2) + rev_Maj (load32 t 2) (load32 t 3) (target_d63 t)))"

definition target_d61 :: "u8 list \<Rightarrow> u32" where
  "target_d61 t = load32 t 6 - (load32 t 2 - (rev_Sigma0 (load32 t 3) + rev_Maj (load32 t 3) (target_d63 t) (target_d62 t)))"

lemma target_d60_names:
  "target_d60 t = load32 t 7 - (load32 t 3 - (rev_Sigma0 (target_d63 t) + rev_Maj (target_d63 t) (target_d62 t) (target_d61 t)))"
  by (simp add: target_d60_def target_d61_def target_d62_def target_d63_def Let_def)

lemma shld_Sigma:
  "(push_bit 10 x OR drop_bit 22 x) XOR (push_bit 19 x OR drop_bit 13 x) XOR (push_bit 30 x OR drop_bit 2 x) = rev_Sigma0 x"
  by (simp add: rev_Sigma0_def rotr_def ac_simps)

lemma shld_Maj: "c AND b XOR (c XOR b) AND a = rev_Maj a b c"
  by (rule bit_word_eqI) (auto simp: rev_Maj_def bit_simps)

definition beside :: "cpu \<Rightarrow> cpu \<Rightarrow> bool" where
  "beside s s' \<longleftrightarrow> reg s' RSP = reg s RSP \<and> reg s' RSI = reg s RSI \<and> reg s' RDI = reg s RDI \<and> reg s' RBP = reg s RBP \<and>
     mem s' = mem s \<and> saved s' = saved s \<and> fs40 s' = fs40 s"

lemmas shld_run = at_addr_def load4_def rd_def set_reg32_def beside_def shld_Sigma shld_Maj

end
