(* ===== verification/Asm1_Search.thy ===== *)
theory Asm1_Search
  imports Asm1_Rounds Asm_Search
begin

text \<open>
  The search of \<open>reverse_fullyfused_asm_x4.c\<close>: its blocks, one pass of the outer loop, and the whole call.
\<close>

section \<open>The blocks\<close>

lemma asm1_at:
  "asm1 0 = (asm1_enter, Jmp 1)"
  "asm1 1 = (asm1_words @ asm1_round0 @ asm1_round12 @ [gp (mov32_imm RDI 3), vmovdqa 1 (X 10), vmovdqa 0 (X 9)], Jmp 2)"
  "asm1 2 = (asm1_zero_round @ [gp (inc RDI), gp (cmp_imm RDI 15)], Jcc Jne 2 3)"
  "asm1 4 = (asm1_round_step @ [gp (add_imm RDI 4), vmovdqa 5 (X 1), gp (cmp_imm RDI 116)], Jcc Jne 4 5)"
  "asm1 5 = (asm1_early, Jcc Je 8 6)"
  "asm1 7 = (asm1_found, Jmp 9)"
  "asm1 8 = (asm1_next, Jcc Ja 9 1)"
  "asm1 9 = (asm1_guard, Jcc Jne 11 10)"
  "asm1 10 = (asm1_leave, Ret)"
  by (simp_all add: asm1_def asm1_blocks_def)

lemmas asm1_go = goI [where p = asm1]

text \<open>
  The frame: the last word of the target in the slot 5, the numbers of the group in 56 and 57, the stack
  protector's value in the upper half of 58; the caller's \<open>RBP\<close> above it.
\<close>

definition asm1_frame :: "u64 \<Rightarrow> u8 list \<Rightarrow> nat \<Rightarrow> cpu \<Rightarrow> u64 list \<Rightarrow> cpu \<Rightarrow> bool" where
  "asm1_frame stop target sp c data s \<longleftrightarrow>
     reg s RSP = Ptr Frame 0 \<and> reg s RCX = Ptr Ktab 0 \<and> reg s RSI = Num stop \<and> reg s RAX = Num 0 \<and> reg s RDX = Ptr Input 0 \<and>
     reg s RBP = Ptr Saved (sp - 8) \<and> saved s ((sp - 8) div 8) = reg c RBP \<and> reg s R14 = reg c R14 \<and>
     reg s RBX = reg c RBX \<and>
     (\<forall>l<4. view l s (Sl 5) = load32 target 7) \<and> counters 56 data s \<and>
     view 2 s (Sl 58) = lo32 (fs40 s) \<and> view 3 s (Sl 58) = hi32 (fs40 s)"

lemma asm1_frame_untouched:
  assumes "asm1_frame stop target sp c data s" "untouched RDI asm1_keep s s'"
  shows "asm1_frame stop target sp c data s'"
  using assms by (simp add: asm1_frame_def untouched_def counters_def asm1_keep_def)

text \<open>The words of a group, in the registers \<open>xmm7\<close> and \<open>xmm3\<close>.\<close>

lemma asm1_words_exec:
  assumes "asm1_frame stop target sp c data s" "length data = 4"
  shows "\<exists>s'. exec (asm1_objects target) asm1_words s = Some s' \<and> untouched RDI asm1_keep s s' \<and> reg s' = reg s \<and>
    (\<forall>l<4. holds [(Xr 7, SW (group_block data l) 0), (Xr 3, SW (group_block data l) 1)] (view l s'))"
proof -
  have "counters 56 data s" "reg s RSP = Ptr Frame 0" using assms(1) by (simp_all add: asm1_frame_def)
  moreover have "load16 (asm1_objects target) s Words 0 = Some (M128 0x00010203 0x04050607 0x08090a0b 0x0c0d0e0f)"
    by (simp add: load16_def load4_def asm1_WORDS_def)
  ultimately show ?thesis
    using load_counters [of 56 data s "asm1_objects target"] interleave_group [OF assms(2) refl refl]
    by (simp add: asm1_words_def at_addr_def slot_ok_def view_set_xmm words_mask)
qed

lemma asm1_block1:
  assumes "asm1_frame stop target sp c data s" "length data = 4"
  shows "\<exists>s'. go (asm1_objects target) asm1 (At 1, s) (At 2, s') \<and> asm1_frame stop target sp c data s' \<and>
    reg s' RDI = Num 3 \<and> (\<forall>l<4. holds (asm1_cut_zero (group_block data l) 3) (view l s'))"
proof -
  let ?ob = "asm1_objects target"
  let ?b = "group_block data"
  obtain s1 where s1: "exec ?ob asm1_words s = Some s1" "untouched RDI asm1_keep s s1"
      "\<forall>l<4. holds [(Xr 7, SW (?b l) 0), (Xr 3, SW (?b l) 1)] (view l s1)" "reg s1 = reg s"
    using asm1_words_exec [OF assms] by auto
  have sp: "reg s1 RSP = Ptr Frame 0" using assms(1) s1(4) by (simp add: asm1_frame_def)
  obtain s2 where s2: "exec ?ob (asm1_round0 @ asm1_round12) s1 = Some s2" "untouched RDI asm1_keep s1 s2"
      "\<forall>l<4. holds (asm1_cut3 (?b l)) (view l s2)"
    using exec_stretch [where x = RDI, OF lane_triple_append [OF asm1_round0 [where g = "reg s1", OF sp] asm1_round12 [where g = "reg s1", OF sp]]] s1(3) by blast
  obtain s3 where s3: "exec ?ob [gp (mov32_imm RDI 3), vmovdqa 1 (X 10), vmovdqa 0 (X 9)] s2 = Some s3"
      "untouched RDI asm1_keep s2 s3" "reg s3 RDI = Num 3" "\<forall>l<4. holds (asm1_cut_zero (?b l) 3) (view l s3)"
    using s2(3) by (simp add: asm1_cut3_def asm1_cut_zero_def view_set_xmm)
  have "exec ?ob (asm1_words @ asm1_round0 @ asm1_round12 @ [gp (mov32_imm RDI 3), vmovdqa 1 (X 10), vmovdqa 0 (X 9)]) s = Some s3"
    using s1(1) s2(1) s3(1) exec_then by (metis append.assoc)
  from asm1_go [OF asm1_at(2) this] show ?thesis
    using s3(3,4) asm1_frame_untouched [OF assms(1) untouched_trans [OF s1(2) untouched_trans [OF s2(2) s3(2)]]] by auto
qed

text \<open>The loop of the padding's rounds.\<close>

lemma asm1_block2:
  assumes "asm1_frame stop target sp c data s" "reg s RDI = Num (of_nat n)" "3 \<le> n" "n < 15"
    and "\<forall>l<4. holds (asm1_cut_zero (group_block data l) n) (view l s)"
  shows "\<exists>s'. go (asm1_objects target) asm1 (At 2, s) (At (if n + 1 = 15 then 3 else 2), s') \<and>
    asm1_frame stop target sp c data s' \<and> reg s' RDI = Num (of_nat (n + 1)) \<and>
    (\<forall>l<4. holds (asm1_cut_zero (group_block data l) (n + 1)) (view l s'))"
proof -
  let ?ob = "asm1_objects target"
  have regs: "reg s RSP = Ptr Frame 0" "reg s RCX = Ptr Ktab 0" using assms(1) by (simp_all add: asm1_frame_def)
  obtain s1 where s1: "exec ?ob asm1_zero_round s = Some s1" "untouched RDI asm1_keep s s1" "reg s1 = reg s"
      "\<forall>l<4. holds (asm1_cut_zero (group_block data l) (n + 1)) (view l s1)"
    using exec_stretch [where x = RDI, OF asm1_zero_round [where g = "reg s", OF regs assms(2-4)]] assms(5) by blast
  let ?s2 = "s1\<lparr>reg := (reg s1)(RDI := Num (of_nat (n + 1))), flags := Some (n = 14, n < 14)\<rparr>"
  have "of_nat n + 1 = (15 :: u64) \<longleftrightarrow> n = 14" "of_nat n + 1 < (15 :: u64) \<longleftrightarrow> n < 14"
    using u64_index [of "n + 1" 15] assms(4) by (auto simp: ac_simps)
  then have "exec ?ob [gp (inc RDI), gp (cmp_imm RDI 15)] s1 = Some ?s2"
    using assms(2) s1(3) by (simp add: compare_def set_reg_def add.commute)
  then have "exec ?ob (asm1_zero_round @ [gp (inc RDI), gp (cmp_imm RDI 15)]) s = Some ?s2"
    using exec_then [OF s1(1)] by simp
  from asm1_go [OF asm1_at(3) this] show ?thesis
    using s1(4) asm1_frame_untouched [OF assms(1), of ?s2] s1(2)
    by (auto simp: untouched_def)
qed

lemma asm1_loop2:
  assumes "asm1_frame stop target sp c data s" "reg s RDI = Num 3"
    and "\<forall>l<4. holds (asm1_cut_zero (group_block data l) 3) (view l s)"
  shows "\<exists>s'. (go (asm1_objects target) asm1)\<^sup>+\<^sup>+ (At 2, s) (At 3, s') \<and> asm1_frame stop target sp c data s' \<and>
    (\<forall>l<4. holds (asm1_cut15 (group_block data l)) (view l s'))"
proof -
  let ?I = "\<lambda>n s. asm1_frame stop target sp c data s \<and> reg s RDI = Num (of_nat n) \<and>
    (\<forall>l<4. holds (asm1_cut_zero (group_block data l) n) (view l s))"
  have cut: "asm1_cut15 p = asm1_cut_zero p 15" for p by (simp add: asm1_cut15_def asm1_cut_zero_def)
  have step: "\<exists>s'. go (asm1_objects target) asm1 (At 2, s) (At (if n + 1 = 15 then 3 else 2), s') \<and> ?I (n + 1) s'"
    if "3 \<le> n" "n < 15" "?I n s" for n s
  proof -
    have now: "asm1_frame stop target sp c data s" "reg s RDI = Num (of_nat n)"
        "\<forall>l<4. holds (asm1_cut_zero (group_block data l) n) (view l s)"
      using that(3) by simp_all
    show ?thesis by (rule asm1_block2 [OF now(1,2) that(1,2) now(3)])
  qed
  have start: "?I 3 s" using assms by simp
  have "\<exists>s'. (go (asm1_objects target) asm1)\<^sup>+\<^sup>+ (At 2, s) (At 3, s') \<and> ?I 15 s'"
    by (rule go_loop [where I = ?I and a = 3, OF step _ start]) simp_all
  then show ?thesis unfolding cut by blast
qed

section \<open>The schedule\<close>

text \<open>The slots from 9 on hold the message words from 17 on, as far as they are known.\<close>

definition asm1_sched :: "block \<Rightarrow> nat \<Rightarrow> (loc \<Rightarrow> u32) \<Rightarrow> bool" where
  "asm1_sched p i f \<longleftrightarrow> holds (asm1_cut_step p i) f \<and> (\<forall>j. 9 \<le> j \<and> j < i + 24 \<longrightarrow> f (Sl j) = SW p (j + 8)) \<and>
     (0 < i \<longrightarrow> f (Xr 1) = SW p (i + 30))"

lemma asm1_window:
  assumes "g RSP = Ptr Frame 0"
  shows "lane_triple (asm1_objects t) g asm1_keep (holds (asm1_cut32 p)) asm1_window (asm1_sched p 0)"
proof -
  have slots: "9 \<le> j \<and> j < 24 \<longleftrightarrow> j \<in> {9, 10, 11, 12, 13, 14, 15, 16, 17, 18, 19, 20, 21, 22, 23}" for j :: nat
    by (simp, presburger)
  show ?thesis
    by (rule lane_tripleI; use assms in \<open>simp add: asm1_window_def asm1_cut32_def asm1_sched_def asm1_cut_step_def asm1_run slots\<close>;
      simp add: SW_entries(15) lane_sha)
qed

definition asm1_straight :: "instr list" where
  "asm1_straight = asm1_round15 @ asm1_round16 @ asm1_round17 @ asm1_round18 @ asm1_round19 @ asm1_round20 @
       asm1_round21 @ asm1_round22 @ asm1_round23 @ asm1_round24 @ asm1_round25 @ asm1_round26 @
       asm1_round27 @ asm1_round28 @ asm1_round29 @ asm1_round30 @ asm1_round31 @ asm1_window"

lemma asm1_straight_triple:
  assumes "g RSP = Ptr Frame 0"
  shows "lane_triple (asm1_objects t) g asm1_keep (holds (asm1_cut15 p)) asm1_straight (asm1_sched p 0)"
  unfolding asm1_straight_def
  by (rule lane_triple_append, rule asm1_round15 asm1_round16 asm1_round17 asm1_round18 asm1_round19 asm1_round20
      asm1_round21 asm1_round22 asm1_round23 asm1_round24 asm1_round25 asm1_round26 asm1_round27 asm1_round28
      asm1_round29 asm1_round30 asm1_round31, rule assms)+ (rule asm1_window, rule assms)

lemma asm1_block3:
  assumes "asm1_frame stop target sp c data s" "\<forall>l<4. holds (asm1_cut15 (group_block data l)) (view l s)"
  shows "\<exists>s'. go (asm1_objects target) asm1 (At 3, s) (At 4, s') \<and> asm1_frame stop target sp c data s' \<and>
    reg s' RDI = Num 0 \<and> (\<forall>l<4. asm1_sched (group_block data l) 0 (view l s'))"
proof -
  let ?ob = "asm1_objects target"
  have sp: "reg s RSP = Ptr Frame 0" using assms(1) by (simp add: asm1_frame_def)
  obtain s1 where s1: "exec ?ob asm1_straight s = Some s1" "untouched RDI asm1_keep s s1"
      "\<forall>l<4. asm1_sched (group_block data l) 0 (view l s1)"
    using exec_stretch [where x = RDI, OF asm1_straight_triple [where g = "reg s", OF sp]] assms(2) by blast
  let ?s2 = "set_reg RDI (Num 0) s1"
  have at: "asm1 3 = (asm1_straight @ [gp (mov32_imm RDI 0)], Jmp 4)"
    by (simp add: asm1_def asm1_blocks_def asm1_straight_def)
  have "exec ?ob (asm1_straight @ [gp (mov32_imm RDI 0)]) s = Some ?s2" using exec_then [OF s1(1)] by simp
  from asm1_go [OF at this] show ?thesis
    using s1(3) asm1_frame_untouched [OF assms(1), of ?s2] s1(2) by auto
qed

lemma asm1_cut_step_next:
  "asm1_cut_step p (Suc i) = [(Xr 2, SA p (i + 36)), (Xr 3, SE p (i + 35)), (Xr 4, SE p (i + 34)), (Xr 5, SW p (i + 31)), (Xr 6, SA p (i + 34)),
     (Xr 7, SW p (i + 32)), (Xr 11, SW p (i + 17)), (Xr 12, SA p (i + 35)), (Xr 13, SA p (i + 33)), (Xr 14, SE p (i + 36)),
     (Xr 15, SE p (i + 33)), (Sl (i + 10), SW p (i + 18)), (Sl (i + 18), SW p (i + 26))]"
  by (simp only: asm1_cut_step_def Suc_eq_plus1 add.assoc) simp

lemma asm1_block4:
  assumes "asm1_frame stop target sp c data s" "reg s RDI = Num (of_nat (4 * i))" "i < 29"
    and "\<forall>l<4. asm1_sched (group_block data l) i (view l s)"
  shows "\<exists>s'. go (asm1_objects target) asm1 (At 4, s) (At (if i + 1 = 29 then 5 else 4), s') \<and>
    asm1_frame stop target sp c data s' \<and> reg s' RDI = Num (of_nat (4 * (i + 1))) \<and>
    (\<forall>l<4. asm1_sched (group_block data l) (i + 1) (view l s'))"
proof -
  let ?ob = "asm1_objects target"
  have regs: "reg s RSP = Ptr Frame 0" "reg s RCX = Ptr Ktab 0" using assms(1) by (simp_all add: asm1_frame_def)
  have pre: "holds (asm1_cut_step (group_block data l) i) (view l s)" if "l < 4" for l
    using assms(4) that by (simp add: asm1_sched_def)
  obtain s1 where s1: "exec ?ob asm1_round_step s = Some s1" "untouched RDI (- {i + 24}) s s1" "reg s1 = reg s"
      "\<forall>l<4. holds (asm1_cut_step_post (group_block data l) i) (view l s1)"
    using exec_stretch [where x = RDI, OF asm1_round_step [where g = "reg s", OF regs assms(2,3)] pre] by blast
  let ?s2 = "(set_xmm 5 (xmm s1 1) (set_reg RDI (Num (of_nat (4 * (i + 1)))) s1))\<lparr>flags := Some (i = 28, i < 28)\<rparr>"
  have "of_nat (4 * i) + 4 = (116 :: u64) \<longleftrightarrow> i = 28" "of_nat (4 * i) + 4 < (116 :: u64) \<longleftrightarrow> i < 28"
    using u64_index [of "4 * i + 4" 116] assms(3) by auto
  then have tail: "exec ?ob [gp (add_imm RDI 4), vmovdqa 5 (X 1), gp (cmp_imm RDI 116)] s1 = Some ?s2"
    using assms(2) s1(3) by (simp add: compare_def set_reg_def set_xmm_def algebra_simps)
  have "untouched RDI asm1_keep s ?s2"
    using untouched_mono [OF s1(2), of asm1_keep] assms(3) by (simp add: asm1_keep_def)
  moreover have "asm1_sched (group_block data l) (i + 1) (view l ?s2)" if "l < 4" for l
  proof -
    have post: "holds (asm1_cut_step_post (group_block data l) i) (view l s1)" using s1(4) that by blast
    have slots: "view l s1 (Sl j) = SW (group_block data l) (j + 8)" if "9 \<le> j" "j < i + 25" for j
      using post s1(2) assms(4) \<open>l < 4\<close> that
      by (cases "j = i + 24") (simp_all add: asm1_cut_step_post_def untouched_def asm1_sched_def ac_simps)
    show ?thesis
      using post slots by (simp add: asm1_sched_def asm1_cut_step_next asm1_cut_step_post_def view_set_xmm add.commute)
  qed
  ultimately show ?thesis
    using asm1_go [OF asm1_at(4) trans [OF exec_then [OF s1(1)] tail]] asm1_frame_untouched [OF assms(1)] by auto
qed

lemma asm1_loop4:
  assumes "asm1_frame stop target sp c data s" "reg s RDI = Num 0"
    and "\<forall>l<4. asm1_sched (group_block data l) 0 (view l s)"
  shows "\<exists>s'. (go (asm1_objects target) asm1)\<^sup>+\<^sup>+ (At 4, s) (At 5, s') \<and> asm1_frame stop target sp c data s' \<and>
    (\<forall>l<4. asm1_sched (group_block data l) 29 (view l s'))"
proof -
  let ?I = "\<lambda>i s. asm1_frame stop target sp c data s \<and> reg s RDI = Num (of_nat (4 * i)) \<and>
    (\<forall>l<4. asm1_sched (group_block data l) i (view l s))"
  have step: "\<exists>s'. go (asm1_objects target) asm1 (At 4, s) (At (if i + 1 = 29 then 5 else 4), s') \<and> ?I (i + 1) s'"
    if "0 \<le> i" "i < 29" "?I i s" for i s
  proof -
    have now: "asm1_frame stop target sp c data s" "reg s RDI = Num (of_nat (4 * i))"
        "\<forall>l<4. asm1_sched (group_block data l) i (view l s)"
      using that(3) by simp_all
    show ?thesis by (rule asm1_block4 [OF now(1,2) that(2) now(3)])
  qed
  have start: "?I 0 s" using assms by simp
  have "\<exists>s'. (go (asm1_objects target) asm1)\<^sup>+\<^sup>+ (At 4, s) (At 5, s') \<and> ?I 29 s'"
    by (rule go_loop [where I = ?I and a = 0, OF step _ start]) simp_all
  then show ?thesis by blast
qed

section \<open>The early exit\<close>

lemma asm1_block5:
  assumes "asm1_frame stop target sp c data s" "\<forall>l<4. asm1_sched (group_block data l) 29 (view l s)"
  shows "\<exists>s'. go (asm1_objects target) asm1 (At 5, s)
      (At (if \<forall>l<4. SE (group_block data l) 64 \<noteq> load32 target 7 then 8 else 6), s') \<and>
    asm1_frame stop target sp c data s' \<and>
    (\<forall>l<4. holds (asm1_cut61 (if SE (group_block data l) 64 = load32 target 7 then - 1 else 0) (group_block data l)) (view l s'))"
proof -
  let ?ob = "asm1_objects target"
  let ?b = "group_block data"
  let ?m = "\<lambda>l. if SE (?b l) 64 = load32 target 7 then - 1 else 0 :: u32"
  have sp: "reg s RSP = Ptr Frame 0" and last: "\<forall>l<4. view l s (Sl 5) = load32 target 7"
    using assms(1) by (simp_all add: asm1_frame_def)
  let ?P = "\<lambda>l f. asm1_sched (?b l) 29 f \<and> f (Sl 5) = load32 target 7"
  have triple: "lane_triple ?ob (reg s) asm1_keep (?P l) [vpcmpeqd 0 14 (M (Mem RSP 80))]
      (holds (asm1_cut61 (?m l) (?b l)))" for l
    by (rule lane_tripleI; simp add: sp asm1_run asm1_sched_def asm1_cut_step_def asm1_cut61_def)
  obtain s1 where s1: "exec ?ob [vpcmpeqd 0 14 (M (Mem RSP 80))] s = Some s1" "untouched RDI asm1_keep s s1"
      "\<forall>l<4. holds (asm1_cut61 (?m l) (?b l)) (view l s1)"
    using exec_stretch [where x = RDI and P = ?P and Q = "\<lambda>l. holds (asm1_cut61 (?m l) (?b l))", OF triple] assms(2) last by blast
  have "xmm s1 0 = vec4 ?m"
    unfolding xmm_vec4 by (rule vec4_cong) (use s1(3) in \<open>simp add: asm1_cut61_def\<close>)
  then have "mm_testz (xmm s1 0) (xmm s1 0) \<longleftrightarrow> (\<forall>l<4. SE (?b l) 64 \<noteq> load32 target 7)"
    by (simp add: testz_vec4) blast
  then obtain z where exec: "exec ?ob asm1_early s =
      Some (s1\<lparr>flags := Some (\<forall>l<4. SE (?b l) 64 \<noteq> load32 target 7, z)\<rparr>)" (is "_ = Some ?t")
    using exec_then [OF s1(1), of "[vptest 0 0]"] by (auto simp: asm1_early_def)
  have "leave (Jcc Je 8 6) ?t = At (if \<forall>l<4. SE (?b l) 64 \<noteq> load32 target 7 then 8 else 6)" by simp
  moreover have "asm1_frame stop target sp c data ?t"
    by (rule asm1_frame_untouched [OF assms(1)]) (simp add: s1(2))
  moreover have "\<forall>l<4. holds (asm1_cut61 (?m l) (?b l)) (view l ?t)" using s1(3) by simp
  ultimately show ?thesis by (intro exI conjI, use asm1_go [OF asm1_at(5) exec] in \<open>simp only:\<close>)
qed

section \<open>The last rounds and the comparison\<close>

lemma asm1_compare_triple:
  assumes "g RDX = Ptr Input 0" "g RSP = Ptr Frame 0"
  shows "lane_triple (asm1_objects t) g asm1_keep
    (holds (asm1_cut64 (if SE (group_block data l) 64 = load32 t 7 then - 1 else 0) (group_block data l))) asm1_compare
    (\<lambda>f. f (Xr 0) = (if lane_hit data t l then 0x80000000 else 0))"
  by (rule lane_tripleI; use assms in \<open>simp add: asm1_compare_def asm1_cut64_def asm1_run and_masks top_mask\<close>)
    (auto simp: lane_hit_names numeral_2_eq_2)

lemma asm1_late_triple:
  assumes "g RDX = Ptr Input 0" "g RSP = Ptr Frame 0"
  shows "lane_triple (asm1_objects t) g asm1_keep
    (holds (asm1_cut61 (if SE (group_block data l) 64 = load32 t 7 then - 1 else 0) (group_block data l)))
    (asm1_late61 @ asm1_late62 @ asm1_late63 @ asm1_compare)
    (\<lambda>f. f (Xr 0) = (if lane_hit data t l then 0x80000000 else 0))"
  by (rule lane_triple_append, rule asm1_late61 asm1_late62 asm1_late63, rule assms)+ (rule asm1_compare_triple, (rule assms)+)

lemma asm1_block6:
  assumes "asm1_frame stop target sp c data s"
    and "\<forall>l<4. holds (asm1_cut61 (if SE (group_block data l) 64 = load32 target 7 then - 1 else 0) (group_block data l)) (view l s)"
  shows "\<exists>s' bm. go (asm1_objects target) asm1 (At 6, s) (At (if bm = 0 then 8 else 7), s') \<and>
    asm1_frame stop target sp c data s' \<and> reg s' RDI = Num (ucast bm) \<and> bm < 16 \<and>
    hit_lane data target = (if bm \<noteq> 0 then Some (builtin_ctz bm) else None)"
proof -
  let ?ob = "asm1_objects target"
  let ?P = "\<lambda>l. holds (asm1_cut61 (if SE (group_block data l) 64 = load32 target 7 then - 1 else 0) (group_block data l))"
  let ?Q = "\<lambda>l f. f (Xr 0) = (if lane_hit data target l then 0x80000000 else 0)"
  let ?late = "asm1_late61 @ asm1_late62 @ asm1_late63 @ asm1_compare"
  have regs: "reg s RDX = Ptr Input 0" "reg s RSP = Ptr Frame 0" using assms(1) by (simp_all add: asm1_frame_def)
  obtain s1 where s1: "exec ?ob ?late s = Some s1" "untouched RDI asm1_keep s s1" "reg s1 = reg s" "\<forall>l<4. ?Q l (view l s1)"
    using exec_stretch [where x = RDI and P = ?P and Q = ?Q, OF asm1_late_triple [where g = "reg s", OF regs]] assms(2) by blast
  define bm where "bm = mm_movemask_ps (xmm s1 0)"
  have mask: "xmm s1 0 = vec4 (\<lambda>l. if lane_hit data target l then 0x80000000 else 0)"
    unfolding xmm_vec4 by (rule vec4_cong) (use s1(4) in simp)
  have low: "lo32 (ucast bm) = bm" by (rule bit_word_eqI) (auto simp: lo32_def bit_simps)
  let ?t = "(set_reg RDI (Num (ucast bm)) s1)\<lparr>flags := Some (bm = 0, False)\<rparr>"
  have at: "asm1 6 = (?late @ [vmovmskps RDI 0, gp (test32 RDI RDI)], Jcc Je 8 7)"
    by (simp add: asm1_def asm1_blocks_def)
  have exec: "exec ?ob (?late @ [vmovmskps RDI 0, gp (test32 RDI RDI)]) s = Some ?t"
    unfolding exec_then [OF s1(1)] using low by (simp add: bm_def [symmetric])
  have "leave (Jcc Je 8 7) ?t = At (if bm = 0 then 8 else 7)" by simp
  moreover have "asm1_frame stop target sp c data ?t"
    by (rule asm1_frame_untouched [OF assms(1)]) (simp add: s1(2))
  moreover have "reg ?t RDI = Num (ucast bm)" by simp
  moreover have "bm < 16" by (simp add: bm_def movemask_small)
  moreover have "hit_lane data target = (if bm \<noteq> 0 then Some (builtin_ctz bm) else None)"
    unfolding hit_lane_mask Let_def bm_def mask ..
  ultimately show ?thesis by (intro exI conjI, use asm1_go [OF at exec] in \<open>simp only:\<close>)
qed

section \<open>Leaving\<close>

definition asm1_exit :: "nat \<Rightarrow> cpu \<Rightarrow> val \<Rightarrow> cpu \<Rightarrow> bool" where
  "asm1_exit sp c v s \<longleftrightarrow>
     reg s RSP = Ptr Frame 0 \<and> reg s RAX = v \<and>
     reg s RBP = Ptr Saved (sp - 8) \<and> saved s ((sp - 8) div 8) = reg c RBP \<and> reg s R14 = reg c R14 \<and> reg s RBX = reg c RBX \<and> view 2 s (Sl 58) = lo32 (fs40 s) \<and> view 3 s (Sl 58) = hi32 (fs40 s)"

lemma asm1_block9:
  assumes "asm1_exit sp c v s"
  shows "\<exists>s'. go (asm1_objects t) asm1 (At 9, s) (At 10, s') \<and> asm1_exit sp c v s'"
proof -
  let ?ob = "asm1_objects t"
  let ?s1 = "set_reg RCX (Num (fs40 s)) s"
  let ?t = "?s1\<lparr>flags := Some (True, False)\<rparr>"
  have slot: "slot_ok ?ob 928" by (simp add: slot_ok_def)
  have "load8 ?ob ?s1 Frame 936 = Some (fs40 s)"
    using load8_slot(2) [of ?ob 58 ?s1] slot assms by (simp add: asm1_exit_def)
  then have exec: "exec ?ob asm1_guard s = Some ?t"
    using assms by (simp add: asm1_guard_def asm1_exit_def at_addr_def compare_def)
  have "leave (Jcc Jne 11 10) ?t = At 10" by simp
  moreover have "asm1_exit sp c v ?t" using assms by (simp add: asm1_exit_def)
  ultimately show ?thesis by (intro exI conjI, use asm1_go [OF asm1_at(8) exec] in \<open>simp only:\<close>)
qed

lemma asm1_block10:
  assumes "asm1_exit sp c v s" "8 \<le> sp" "8 dvd sp"
  shows "\<exists>s'. go (asm1_objects t) asm1 (At 10, s) (Done, s') \<and> reg s' RAX = v \<and> restored sp c s'"
proof -
  have "\<exists>k. sp = 8 * k + 8" using assms(2,3) by presburger
  then obtain k where k: "sp = 8 * k + 8" ..
  have "exec (asm1_objects t) asm1_leave s = Some (set_reg RBP (reg c RBP) (set_reg RSP (Ptr Saved sp)
      (set_reg RSP (Ptr Saved (sp - 8)) s)))" (is "_ = Some ?t")
    using assms(1) by (simp add: asm1_leave_def asm1_exit_def k add.commute)
  then have "go (asm1_objects t) asm1 (At 10, s) (Done, ?t)" using asm1_go [OF asm1_at(9)] by simp
  moreover have "reg ?t RAX = v" "restored sp c ?t" using assms(1) by (simp_all add: restored_def asm1_exit_def)
  ultimately show ?thesis by blast
qed

lemma asm1_block7:
  assumes "asm1_frame stop target sp c data s" "reg s RDI = Num (ucast bm)" "bm \<noteq> 0" "bm < 16"
    and "builtin_ctz bm = l" "l < 4" "length data = 4"
  shows "\<exists>s'. go (asm1_objects target) asm1 (At 7, s) (At 9, s') \<and> asm1_exit sp c (Num (data ! l)) s'"
proof -
  let ?ob = "asm1_objects target"
  have low: "lo32 (ucast (ucast (ucast bm :: u64) :: u8)) = bm"
  proof -
    have "unat bm < 16" using assms(4) by (simp add: word_less_nat_alt)
    then have "unat bm \<in> set [0..<16]" by simp
    then have "of_nat (unat bm) \<in> set (map of_nat [0..<16] :: u32 list)" by (metis image_eqI image_set)
    then show ?thesis by (simp add: upt_rec lo32_def) (elim disjE, simp_all)
  qed
  have sp: "reg s RSP = Ptr Frame 0" and ctr: "counters 56 data s" using assms(1) by (simp_all add: asm1_frame_def)
  let ?s1 = "set_reg RCX (Ptr Frame (896 + 8 * l)) ((set_reg RAX (Num (of_nat (8 * l))) s)\<lparr>flags := None\<rparr>)"
  have at: "l = 0 \<or> l = 1 \<or> l = 2 \<or> l = 3" using assms(6) by linarith
  have index: "ucast (push_bit 3 (lo32 (ucast (of_nat l :: u32)))) = (of_nat (8 * l) :: u64)" "(of_nat (8 * l) :: u64) < 64"
      "(896 :: nat) OR unat (of_nat (8 * l) :: u64) = 896 + 8 * l"
    using at by (elim disjE; simp add: lo32_def)+
  have "load8 ?ob s Frame (896 + 8 * l) = Some (data ! l)"
    using load_counter [of 56 data s ?ob l] ctr assms(6) by (simp add: slot_ok_def)
  then have "exec ?ob asm1_found s = Some (set_reg RAX (Num (data ! l)) ?s1)"
    using assms(2-6) low sp index by (simp add: asm1_found_def at_addr_def set_reg32_def del: of_nat_mult)
  then have "go ?ob asm1 (At 7, s) (At 9, set_reg RAX (Num (data ! l)) ?s1)" using asm1_go [OF asm1_at(6)] by simp
  moreover have "asm1_exit sp c (Num (data ! l)) (set_reg RAX (Num (data ! l)) ?s1)"
    using assms(1) by (simp add: asm1_exit_def asm1_frame_def)
  ultimately show ?thesis by blast
qed

section \<open>The next group\<close>

lemma asm1_block8:
  assumes "asm1_frame stop target sp c data s" "length data = 4"
  shows "\<exists>s'. go (asm1_objects target) asm1 (At 8, s) (At (if data ! 0 + 4 \<le> stop then 1 else 9), s') \<and>
    asm1_frame stop target sp c (map (\<lambda>x. x + 4) data) s'"
proof -
  let ?ob = "asm1_objects target"
  let ?d = "\<lambda>i. data ! i + 4"
  have regs: "reg s RSP = Ptr Frame 0" "reg s RSI = Num stop" and ctr: "counters 56 data s"
    using assms(1) by (simp_all add: asm1_frame_def)
  let ?s1 = "set_xmm 1 (pair_reg (?d 0) (?d 1)) (set_xmm 0 (pair_reg (?d 2) (?d 3)) (set_xmm 1 (pair_reg 4 4) s))"
  have step: "load8 ?ob s Words 576 = Some 4" by (simp add: load8_def load4_def asm1_WORDS_def join64_def)
  have slots: "slot_ok ?ob 896" "slot_ok ?ob 912" by (simp_all add: slot_ok_def)
  have loads: "load16 ?ob s Frame 896 = Some (pair_reg (data ! 0) (data ! 1))"
      "load16 ?ob s Frame 912 = Some (pair_reg (data ! 2) (data ! 3))"
    using load_counters [of 56 data s ?ob] ctr slots by simp_all
  obtain s2 m2 where s2: "store16 ?ob Frame 896 (pair_reg (?d 0) (?d 1)) ?s1 = Some s2" "s2 = ?s1\<lparr>mem := (mem ?s1)(Frame := m2)\<rparr>"
      "\<forall>l<4. view l s2 = (view l ?s1)(Sl 56 := lane l (pair_reg (?d 0) (?d 1)))"
    using store16_lanes [OF slots(1), of "pair_reg (?d 0) (?d 1)" ?s1] by auto
  obtain s3 m3 where s3: "store16 ?ob Frame 912 (pair_reg (?d 2) (?d 3)) s2 = Some s3" "s3 = s2\<lparr>mem := (mem s2)(Frame := m3)\<rparr>"
      "\<forall>l<4. view l s3 = (view l s2)(Sl 57 := lane l (pair_reg (?d 2) (?d 3)))"
    using store16_lanes [OF slots(2), of "pair_reg (?d 2) (?d 3)" s2] by auto
  let ?t = "(set_reg RDI (Num (?d 0)) s3)\<lparr>flags := Some (?d 0 = stop, ?d 0 < stop)\<rparr>"
  have rest: "reg s3 = reg s" "saved s3 = saved s" "fs40 s3 = fs40 s" "xmm s3 1 = pair_reg (?d 0) (?d 1)" "xmm s3 0 = pair_reg (?d 2) (?d 3)"
      "reg s2 = reg s" "xmm s2 0 = pair_reg (?d 2) (?d 3)"
    using s2(2) s3(2) by simp_all
  have low: "join64 (lane0 (pair_reg a b)) (lane1 (pair_reg a b)) = a" for a b by (simp add: pair_reg_def)
  have exec: "exec ?ob asm1_next s = Some ?t"
    using step loads s2(1) s3(1) rest regs low by (simp add: asm1_next_def at_addr_def pair_reg_def [symmetric] pair_reg_add compare_regs_def compare_def add.commute)
  have "leave (Jcc Ja 9 1) ?t = At (if ?d 0 \<le> stop then 1 else 9)" by auto
  moreover have "asm1_frame stop target sp c (map (\<lambda>x. x + 4) data) ?t"
    using assms rest by (simp add: asm1_frame_def counters_def s2(3) s3(3) view_set_xmm)
  ultimately show ?thesis by (intro exI conjI, use asm1_go [OF asm1_at(7) exec] in \<open>simp only:\<close>)
qed

section \<open>Entering\<close>

lemma asm1_block0:
  assumes "8 \<le> sp" "8 dvd sp"
  shows "\<exists>s. go (asm1_objects target) asm1 (At 0, call_search start stop sp c) (At 1, s) \<and>
    asm1_frame stop target sp c [start, start + 1, start + 2, start + 3] s"
proof -
  have "\<exists>k. sp = 8 * k + 8" using assms by presburger
  then obtain k where k: "sp = 8 * k + 8" ..
  have "\<exists>s. exec (asm1_objects target) asm1_enter (call_search start stop sp c) = Some s \<and>
    asm1_frame stop target sp c [start, start + 1, start + 2, start + 3] s"
    by (simp add: asm1_enter_def call_search_def k at_addr_def load4_def store4_def store16_def set_reg_def set_reg32_def set_xmm_def
        rd_def mm_set1_epi32_def)
      (simp add: asm1_frame_def counters_def all_less_4 view_def lane_def pair_reg_def)
  then show ?thesis using asm1_go [OF asm1_at(1)] by auto
qed

section \<open>The search\<close>

lemma asm1_group:
  assumes "asm1_frame stop target sp c data s" "length data = 4"
  shows "\<exists>s'. (go (asm1_objects target) asm1)\<^sup>+\<^sup>+ (At 1, s) (At (if hit_lane data target = None then 8 else 7), s') \<and>
    asm1_frame stop target sp c data s' \<and>
    (\<forall>l. hit_lane data target = Some l \<longrightarrow> (\<exists>bm. reg s' RDI = Num (ucast bm) \<and> bm \<noteq> 0 \<and> bm < 16 \<and> builtin_ctz bm = l))"
proof -
  let ?go = "go (asm1_objects target) asm1"
  let ?frame = "asm1_frame stop target sp c data"
  let ?b = "group_block data"
  obtain s1 where s1: "?go (At 1, s) (At 2, s1)" "?frame s1" "reg s1 RDI = Num 3" "\<forall>l<4. holds (asm1_cut_zero (?b l) 3) (view l s1)"
    using asm1_block1 [OF assms] by blast
  obtain s2 where s2: "?go\<^sup>+\<^sup>+ (At 2, s1) (At 3, s2)" "?frame s2" "\<forall>l<4. holds (asm1_cut15 (?b l)) (view l s2)"
    using asm1_loop2 [OF s1(2-4)] by blast
  obtain s3 where s3: "?go (At 3, s2) (At 4, s3)" "?frame s3" "reg s3 RDI = Num 0" "\<forall>l<4. asm1_sched (?b l) 0 (view l s3)"
    using asm1_block3 [OF s2(2,3)] by blast
  obtain s4 where s4: "?go\<^sup>+\<^sup>+ (At 4, s3) (At 5, s4)" "?frame s4" "\<forall>l<4. asm1_sched (?b l) 29 (view l s4)"
    using asm1_loop4 [OF s3(2-4)] by blast
  let ?miss = "\<forall>l<4. SE (?b l) 64 \<noteq> load32 target 7"
  obtain s5 where s5: "?go (At 5, s4) (At (if ?miss then 8 else 6), s5)" "?frame s5"
      "\<forall>l<4. holds (asm1_cut61 (if SE (?b l) 64 = load32 target 7 then - 1 else 0) (?b l)) (view l s5)"
    using asm1_block5 [OF s4(2,3)] by (elim exE conjE) (rule that)
  have early: "?go\<^sup>+\<^sup>+ (At 1, s) (At (if ?miss then 8 else 6), s5)"
    using s1(1) s2(1) s3(1) s4(1) s5(1) by (meson tranclp_trans tranclp.r_into_trancl)
  show ?thesis
  proof (cases ?miss)
    case True
    then have "hit_lane data target = None" unfolding hit_lane_None lane_hit_names by blast
    then show ?thesis using early True s5(2) by auto
  next
    case False
    obtain s6 bm where s6: "?go (At 6, s5) (At (if bm = 0 then 8 else 7), s6)" "?frame s6" "reg s6 RDI = Num (ucast bm)" "bm < 16"
        "hit_lane data target = (if bm \<noteq> 0 then Some (builtin_ctz bm) else None)"
      using asm1_block6 [OF s5(2,3)] by (elim exE conjE) (rule that)
    have "?go\<^sup>+\<^sup>+ (At 1, s) (At 6, s5)" using early False by simp
    then have "?go\<^sup>+\<^sup>+ (At 1, s) (At (if bm = 0 then 8 else 7), s6)"
      using s6(1) by (meson tranclp_trans tranclp.r_into_trancl)
    then show ?thesis using s6(2-5) by (cases "bm = 0") auto
  qed
qed

lemma asm1_return:
  assumes "asm1_exit sp c v s" "8 \<le> sp" "8 dvd sp"
  shows "\<exists>s'. (go (asm1_objects t) asm1)\<^sup>+\<^sup>+ (At 9, s) (Done, s') \<and> reg s' RAX = v \<and> restored sp c s'"
  using asm1_block9 [OF assms(1)] asm1_block10 [OF _ assms(2,3)]
  by (meson tranclp.r_into_trancl tranclp_trans)

lemma asm1_passes:
  assumes "asm1_frame stop target sp c data s" "length data = 4" "8 \<le> sp" "8 dvd sp"
  shows "hit_lane data target = Some l \<Longrightarrow>
      \<exists>s'. (go (asm1_objects target) asm1)\<^sup>+\<^sup>+ (At 1, s) (Done, s') \<and> reg s' RAX = Num (data ! l) \<and> restored sp c s'"
    and "hit_lane data target = None \<Longrightarrow> data ! 0 + 4 \<le> stop \<Longrightarrow>
      \<exists>s'. (go (asm1_objects target) asm1)\<^sup>+\<^sup>+ (At 1, s) (At 1, s') \<and> asm1_frame stop target sp c (map (\<lambda>x. x + 4) data) s'"
    and "hit_lane data target = None \<Longrightarrow> \<not> data ! 0 + 4 \<le> stop \<Longrightarrow>
      \<exists>s'. (go (asm1_objects target) asm1)\<^sup>+\<^sup>+ (At 1, s) (Done, s') \<and> reg s' RAX = Num 0 \<and> restored sp c s'"
proof -
  let ?go = "go (asm1_objects target) asm1"
  obtain s1 where s1: "?go\<^sup>+\<^sup>+ (At 1, s) (At (if hit_lane data target = None then 8 else 7), s1)"
      "asm1_frame stop target sp c data s1"
      "\<forall>l. hit_lane data target = Some l \<longrightarrow> (\<exists>bm. reg s1 RDI = Num (ucast bm) \<and> bm \<noteq> 0 \<and> bm < 16 \<and> builtin_ctz bm = l)"
    using asm1_group [OF assms(1,2)] by (elim exE conjE) (rule that)
  show "\<exists>s'. ?go\<^sup>+\<^sup>+ (At 1, s) (Done, s') \<and> reg s' RAX = Num (data ! l) \<and> restored sp c s'" if hit: "hit_lane data target = Some l"
  proof -
    have first: "?go\<^sup>+\<^sup>+ (At 1, s) (At 7, s1)" using s1(1) hit by simp
    obtain bm where "reg s1 RDI = Num (ucast bm)" "bm \<noteq> 0" "bm < 16" "builtin_ctz bm = l" using s1(3) hit by blast
    from asm1_block7 [OF s1(2) this hit_lane_SomeD [OF hit] assms(2)]
    obtain s2 where s2: "?go (At 7, s1) (At 9, s2)" "asm1_exit sp c (Num (data ! l)) s2" by blast
    show ?thesis using asm1_return [OF s2(2) assms(3,4), of target] first s2(1)
      by (meson tranclp.r_into_trancl tranclp_trans)
  qed
  assume none: "hit_lane data target = None"
  obtain s2 where s2: "?go (At 8, s1) (At (if data ! 0 + 4 \<le> stop then 1 else 9), s2)"
      "asm1_frame stop target sp c (map (\<lambda>x. x + 4) data) s2"
    using asm1_block8 [OF s1(2) assms(2)] by (elim exE conjE) (rule that)
  have "?go\<^sup>+\<^sup>+ (At 1, s) (At 8, s1)" using s1(1) none by simp
  from tranclp.trancl_into_trancl [OF this s2(1)]
  have second: "?go\<^sup>+\<^sup>+ (At 1, s) (At (if data ! 0 + 4 \<le> stop then 1 else 9), s2)" .
  show "\<exists>s'. ?go\<^sup>+\<^sup>+ (At 1, s) (At 1, s') \<and> asm1_frame stop target sp c (map (\<lambda>x. x + 4) data) s'" if "data ! 0 + 4 \<le> stop"
    using second s2(2) that by auto
  show "\<exists>s'. ?go\<^sup>+\<^sup>+ (At 1, s) (Done, s') \<and> reg s' RAX = Num 0 \<and> restored sp c s'" if stop: "\<not> data ! 0 + 4 \<le> stop"
  proof -
    have "asm1_exit sp c (Num 0) s2" using s2(2) by (simp add: asm1_frame_def asm1_exit_def)
    moreover have "?go\<^sup>+\<^sup>+ (At 1, s) (At 9, s2)" using second stop by simp
    ultimately show ?thesis using asm1_return [OF _ assms(3,4), of c "Num 0" s2 target] by (meson tranclp_trans)
  qed
qed

text \<open>So it is an instance of the shared contract.\<close>

definition asm1_head :: "u64 \<Rightarrow> u8 list \<Rightarrow> nat \<Rightarrow> cpu \<Rightarrow> u64 list \<Rightarrow> cpu \<Rightarrow> bool" where
  "asm1_head stop target sp c data s \<longleftrightarrow> 8 \<le> sp \<and> 8 dvd sp \<and> asm1_frame stop target sp c data s"

interpretation asm1: four_lane_code "asm1_objects target" asm1 stop target "asm1_head stop target sp c" "restored sp c"
  for target stop sp c
  by unfold_locales (use asm1_passes in \<open>auto simp: asm1_head_def\<close>)

text \<open>
  C13: called with the arguments of the calling convention and 8 bytes of stack below a stack pointer that is a
  multiple of eight, the assembly computes what the search over intrinsics computes: it returns in \<open>RAX\<close> the same
  number, it does not end where that search does not end, it makes no access out of its frame, its
  tables and the target, never reaches the stack protector's failure, and gives back the caller's stack pointer and the
  registers it must save.
\<close>

theorem reverse_fullyfused_asm_equiv:
  assumes "8 \<le> sp" "8 dvd sp" "\<forall>d. length (w d) = 48"
  shows "map_option (\<lambda>(pl, s). (pl, reg s RAX, reg s RSP, reg s RBP, reg s RBX, reg s R14))
      (reverse_sha256x4_fullyfused_asm sp c start stop target) =
    map_option (\<lambda>x. (Done, Num x, Ptr Saved sp, reg c RBP, reg c RBX, reg c R14))
      (reverse_sha256x4_fullyfused w start stop target)"
proof -
  let ?data = "[start, start + 1, start + 2, start + 3]"
  obtain s where s: "go (asm1_objects target) asm1 (At 0, call_search start stop sp c) (At 1, s)"
      "asm1_frame stop target sp c ?data s"
    using asm1_block0 [OF assms(1,2)] by blast
  have head: "asm1_head stop target sp c ?data s" using s(2) assms by (simp add: asm1_head_def)
  have run: "reverse_sha256x4_fullyfused_asm sp c start stop target = run (asm1_objects target) asm1 1 s"
    using run_go [where c = "(At 0, call_search start stop sp c)", OF tranclp.r_into_trancl, OF s(1)] by (simp add: reverse_sha256x4_fullyfused_asm_def run_def)
  show ?thesis
  proof (cases "rev4_loop w ?data stop target")
    case None
    then show ?thesis using asm1.diverges [OF None assms(3) head] run by (simp add: reverse_sha256x4_fullyfused_def)
  next
    case (Some x)
    then show ?thesis using asm1.returns [OF Some assms(3) head] run
      by (auto simp: reverse_sha256x4_fullyfused_def restored_def)
  qed
qed

theorem reverse_fullyfused_asm_equiv_witness:
  "map_option (\<lambda>(pl, s). (pl, reg s RAX, reg s RSP, reg s RBP, reg s RBX, reg s R14))
      (reverse_sha256x4_fullyfused_asm 64 idle_cpu 10 20 (replicate 32 3)) =
    map_option (\<lambda>x. (Done, Num x, Ptr Saved 64, Num 7, Num 7, Num 7))
      (reverse_sha256x4_fullyfused (\<lambda>_. replicate 48 (mm_set1_epi32 1)) 10 20 (replicate 32 3))"
  using reverse_fullyfused_asm_equiv [of 64 "\<lambda>_. replicate 48 (mm_set1_epi32 1)" idle_cpu 10 20 "replicate 32 3"]
  by (simp add: idle_cpu_def)

end
