(* ===== verification/Asm2_Code.thy ===== *)
theory Asm2_Code
  imports X86
begin

text \<open>
  \<open>src/sha256/x4/reverse_fullyfused_asm_x4_2.c\<close>, the configured search (\<open>REVERSE_FUNC\<close>): its constant tables and its
  inline assembly, instruction by instruction, cut into the stretches of one round each that the proofs use,
  and the basic blocks they make up.
\<close>

section \<open>Tables\<close>

definition asm2_k :: "u32 list" where
  "asm2_k = concat [
     [0x428a2f98, 0x71374491, 0xb5c0fbcf, 0xe9b5dba5, 0x3956c25b, 0x59f111f1],
     [0x923f82a4, 0xab1c5ed5, 0xd807aa98, 0x12835b01, 0x243185be, 0x550c7dc3],
     [0x72be5d74, 0x80deb1fe, 0x9bdc06a7, 0xc19bf174, 0xe49b69c1, 0xefbe4786],
     [0x0fc19dc6, 0x240ca1cc, 0x2de92c6f, 0x4a7484aa, 0x5cb0a9dc, 0x76f988da],
     [0x983e5152, 0xa831c66d, 0xb00327c8, 0xbf597fc7, 0xc6e00bf3, 0xd5a79147],
     [0x06ca6351, 0x14292967, 0x27b70a85, 0x2e1b2138, 0x4d2c6dfc, 0x53380d13],
     [0x650a7354, 0x766a0abb, 0x81c2c92e, 0x92722c85, 0xa2bfe8a1, 0xa81a664b],
     [0xc24b8b70, 0xc76c51a3, 0xd192e819, 0xd6990624, 0xf40e3585, 0x106aa070],
     [0x19a4c116, 0x1e376c08, 0x2748774c, 0x34b0bcb5, 0x391c0cb3, 0x4ed8aa4a],
     [0x5b9cca4f, 0x682e6ff3, 0x748f82ee, 0x78a5636f, 0x84c87814, 0x8cc70208],
     [0x90befffa, 0xa4506ceb, 0xbef9a3f7, 0xc67178f2]]"

definition asm2_WORDS :: "u32 list" where
  "asm2_WORDS = [
    0x00010203, 0x04050607, 0x08090a0b, 0x0c0d0e0f,
    0x98c7e2a2, 0x98c7e2a2, 0x98c7e2a2, 0x98c7e2a2,
    0xfc08884d, 0xfc08884d, 0xfc08884d, 0xfc08884d,
    0xd16e48e2, 0xd16e48e2, 0xd16e48e2, 0xd16e48e2,
    0x510e527f, 0x510e527f, 0x510e527f, 0x510e527f,
    0x9b05688c, 0x9b05688c, 0x9b05688c, 0x9b05688c,
    0xcd2a11ae, 0xcd2a11ae, 0xcd2a11ae, 0xcd2a11ae,
    0xbabcc441, 0xbabcc441, 0xbabcc441, 0xbabcc441,
    0x6a09e667, 0x6a09e667, 0x6a09e667, 0x6a09e667,
    0x8c2e12e0, 0x8c2e12e0, 0x8c2e12e0, 0x8c2e12e0,
    0xd0c6645b, 0xd0c6645b, 0xd0c6645b, 0xd0c6645b,
    0xc19bf1b4, 0xc19bf1b4, 0xc19bf1b4, 0xc19bf1b4,
    0xe49b69c1, 0xe49b69c1, 0xe49b69c1, 0xe49b69c1,
    0x11282000, 0x11282000, 0x11282000, 0x11282000,
    0x00e66786, 0x00e66786, 0x00e66786, 0x00e66786,
    0x80000000, 0x80000000, 0x80000000, 0x80000000,
    0x8fc19dc6, 0x8fc19dc6, 0x8fc19dc6, 0x8fc19dc6,
    0x240ca1cc, 0x240ca1cc, 0x240ca1cc, 0x240ca1cc,
    0x2de92c6f, 0x2de92c6f, 0x2de92c6f, 0x2de92c6f,
    0x4a7484aa, 0x4a7484aa, 0x4a7484aa, 0x4a7484aa,
    0x00000040, 0x00000040, 0x00000040, 0x00000040,
    0x5cb0aa1c, 0x5cb0aa1c, 0x5cb0aa1c, 0x5cb0aa1c,
    0x76f988da, 0x76f988da, 0x76f988da, 0x76f988da,
    0x983e5152, 0x983e5152, 0x983e5152, 0x983e5152,
    0xa831c66d, 0xa831c66d, 0xa831c66d, 0xa831c66d,
    0xb00327c8, 0xb00327c8, 0xb00327c8, 0xb00327c8,
    0xbf597fc7, 0xbf597fc7, 0xbf597fc7, 0xbf597fc7,
    0xc6e00bf3, 0xc6e00bf3, 0xc6e00bf3, 0xc6e00bf3,
    0xd5a79147, 0xd5a79147, 0xd5a79147, 0xd5a79147,
    0x80100008, 0x80100008, 0x80100008, 0x80100008,
    0x86da6359, 0x86da6359, 0x86da6359, 0x86da6359,
    0x14292967, 0x14292967, 0x14292967, 0x14292967,
    0x00000004, 0x00000000, 0x00000004, 0x00000000,
    0x00000004, 0x00000000, 0x00000000, 0x00000000,
    0x510e527f, 0x510e527f, 0x510e527f, 0x510e527f,
    0x6a09e667, 0x6a09e667, 0x6a09e667, 0x6a09e667,
    0x00000040, 0x00000040, 0x00000040, 0x00000040]"

section \<open>Instructions\<close>

definition asm2_enter :: "instr list" where
  "asm2_enter = [
     gp (push RBP), gp (mov RBP RSP), gp (push R14), gp (push RBX), gp (and_imm RSP (- 64)), gp (sub_imm RSP 1152),
     gp (mov_fs40 RAX), gp (mov_to (Mem RSP 1112) RAX)]"

definition asm2_d63 :: "instr list" where
  "asm2_d63 = [
     gp (mov32_from R8 (Mem RDX 16)), gp (mov32_from R11 (Mem RDX 4)), gp (mov32 R10 R11), gp (mov32 R9 R11),
     gp (mov32_from RCX (Mem RDX 8)), gp (mov32_from RAX (Mem RDX 12)), gp (mov32 RBX RAX), gp (xor32 RBX RCX),
     gp (and32 RBX R11), gp (mov32_from R14 (Mem RDX 20)), vmovd 0 R14, gp (sub32 R14 R11), vmovd 1 R11,
     gp (shld32 R11 R11 30), gp (shld32 R10 R10 19), gp (xor32 R10 R11), gp (mov32_from R11 (Mem RDX 0)),
     gp (shld32 R9 R9 10), gp (xor32 R9 R10), gp (mov32 R10 RAX), gp (and32 R10 RCX), gp (xor32 R10 RBX), vmovd 2 R8,
     gp (sub32 R8 R11), gp (add32 R8 R10), gp (add32 R8 R9)]"

definition asm2_d62 :: "instr list" where
  "asm2_d62 = [
     gp (mov32 R10 RCX), gp (mov32 RBX R8), gp (xor32 RBX RAX), gp (and32 RBX RCX), gp (mov32 R9 RCX),
     gp (shld32 R9 R9 30), gp (shld32 R10 R10 19), gp (xor32 R10 R9), gp (mov32_from R9 (Mem RDX 24)), vmovd 3 R9,
     gp (sub32 R9 RCX), vmovd 4 RCX, gp (shld32 RCX RCX 10), gp (xor32 RCX R10), gp (mov32 R10 R8),
     gp (and32 R10 RAX), gp (xor32 R10 RBX), gp (add32 R14 RCX), gp (add32 R14 R10)]"

definition asm2_d61 :: "instr list" where
  "asm2_d61 = [
     gp (mov32 RCX RAX), gp (shld32 RCX RCX 30), gp (mov32 R10 RAX), gp (shld32 R10 R10 19), gp (xor32 R10 RCX),
     gp (mov32 RCX R14), gp (xor32 RCX R8), gp (and32 RCX RAX), gp (mov32_from RDX (Mem RDX 28)), vmovd 5 RDX,
     gp (sub32 RDX RAX), vmovd 6 RAX, gp (shld32 RAX RAX 10), gp (xor32 RAX R10), gp (mov32 R10 R14),
     gp (and32 R10 R8), gp (xor32 R10 RCX), gp (add32 R9 RAX), gp (add32 R9 R10)]"

definition asm2_d60 :: "instr list" where
  "asm2_d60 = [
     gp (mov32 RAX R8), gp (shld32 RAX RAX 30), gp (mov32 RCX R8), gp (shld32 RCX RCX 19), gp (xor32 RCX RAX),
     gp (mov32 RAX R9), gp (xor32 RAX R14), gp (and32 RAX R8), gp (shld32 R8 R8 10), gp (xor32 R8 RCX),
     gp (and32 R9 R14), gp (xor32 R9 RAX), gp (add32 RDX R8), gp (add32 RDX R9)]"

definition asm2_spill :: "instr list" where
  "asm2_spill = [
     vmovd 7 RDX, gp (mov_to (Mem RSP 1024) RDI), gp (lea RAX (Mem RDI 1)), gp (mov_to (Mem RSP 1032) RAX),
     gp (lea RAX (Mem RDI 2)), gp (mov_to (Mem RSP 1040) RAX), vpshufd 7 7 0, vmovdqa_to (Mem RSP 208) 7,
     gp (add_imm RDI 3), gp (mov_to (Mem RSP 1048) RDI), vmovd 7 R11, vpshufd 7 7 0, vmovdqa_to (Mem RSP 192) 7,
     vpshufd 1 1 0, vmovdqa_to (Mem RSP 176) 1, vpshufd 1 4 0, vmovdqa_to (Mem RSP 160) 1, vpshufd 1 6 0,
     vmovdqa_to (Mem RSP 144) 1, vpshufd 1 2 0, vmovdqa_to (Mem RSP 128) 1, vpshufd 0 0 0, vmovdqa_to (Mem RSP 112) 0,
     vpshufd 0 3 0, vmovdqa_to (Mem RSP 96) 0, vpshufd 0 5 0, vmovdqa_to (Mem RSP 80) 0, gp (lea RCX (Sym Ktab 0)),
     gp (xor32 RAX RAX)]"

definition asm2_next :: "instr list" where
  "asm2_next = [
     vmovddup 1 (Sym Words 528), vpaddq 0 1 (M (Mem RSP 1040)), vpaddq 1 1 (M (Mem RSP 1024)),
     vmovdqa_to (Mem RSP 1024) 1, vmovdqa_to (Mem RSP 1040) 0, vmovq RDX 1, gp (cmp64 RDX RSI)]"

definition asm2_words :: "instr list" where
  "asm2_words = [
     vmovdqa 0 (M (Mem RSP 1024)), vmovdqa 1 (M (Mem RSP 1040)), vmovdqa 2 (M (Sym Words 0)), vpshufb 0 0 (X 2),
     vpshufb 1 1 (X 2), vpunpckldq 2 0 (X 1), vpunpckhdq 0 0 (X 1), vpunpckldq 4 2 (X 0), vpunpckhdq 5 2 (X 0)]"

definition asm2_round0 :: "instr list" where
  "asm2_round0 = [
     vpaddd 12 4 (M (Sym Words 16)), vpaddd 8 4 (M (Sym Words 32)), vpsrld 0 8 2, vpslld 1 8 30, vpor 0 1 (X 0),
     vpsrld 1 8 13, vpslld 2 8 19, vpor 1 2 (X 1), vpsrld 2 8 22, vpslld 3 8 10, vpor 2 3 (X 2), vpxor 1 1 (X 2),
     vpxor 0 1 (X 0), vpand 1 8 (M (Sym Words 48)), vpaddd 0 0 (X 1), vpsrld 1 12 6, vpslld 2 12 26, vpor 1 2 (X 1),
     vpsrld 2 12 11, vpslld 3 12 21, vpor 2 3 (X 2), vpsrld 3 12 25, vpslld 6 12 7, vpor 3 6 (X 3), vpxor 2 2 (X 3),
     vpxor 1 2 (X 1), vbroadcastss 9 (Sym Words 544), vpand 2 12 (X 9), vpandn 3 12 (M (Sym Words 80)),
     vpor 2 3 (X 2), vpaddd 2 5 (X 2), vpaddd 1 2 (X 1), vpaddd 0 1 (X 0), vpaddd 7 0 (M (Sym Words 112)),
     vpaddd 11 1 (M (Sym Words 96))]"

definition asm2_round12 :: "instr list" where
  "asm2_round12 = [
     vpsrld 0 7 2, vpslld 1 7 30, vpor 0 1 (X 0), vpsrld 1 7 13, vpslld 2 7 19, vpor 1 2 (X 1), vpsrld 2 7 22,
     vpslld 3 7 10, vpor 2 3 (X 2), vpxor 1 1 (X 2), vpxor 0 1 (X 0), vpand 1 8 (X 7), vpxor 2 8 (X 7),
     vbroadcastss 13 (Sym Words 560), vpand 2 13 (X 2), vpxor 1 2 (X 1), vpaddd 0 1 (X 0), vpsrld 1 11 6,
     vpslld 2 11 26, vpor 1 2 (X 1), vpsrld 2 11 11, vpslld 3 11 21, vpor 2 3 (X 2), vpsrld 3 11 25, vpslld 6 11 7,
     vpor 3 6 (X 3), vpxor 2 2 (X 3), vpxor 1 2 (X 1), vpand 2 11 (X 12), vpandn 3 11 (X 9), vpor 2 2 (X 3),
     vpaddd 1 1 (X 2), vpaddd 6 1 (M (Sym Words 144)), vpaddd 0 0 (X 1), vpaddd 10 0 (M (Sym Words 160))]"

definition asm2_zero_round :: "instr list" where
  "asm2_zero_round = [
     vmovdqa 2 (X 0), vmovdqa 0 (X 12), vmovdqa 12 (X 11), vmovdqa 11 (X 6), vpsrld 3 6 6, vpslld 9 6 26,
     vpor 3 9 (X 3), vpsrld 9 6 11, vpslld 13 6 21, vpor 9 13 (X 9), vpsrld 13 6 25, vpslld 6 6 7, vpor 6 13 (X 6),
     vpxor 6 9 (X 6), vpxor 3 6 (X 3), vpand 6 11 (X 12), vpandn 9 11 (X 0), vpor 6 9 (X 6), vpaddd 2 2 (X 6),
     vpaddd 2 3 (X 2), vbroadcastss 3 (MemIx RCX 4 RDX 0), vpaddd 2 2 (X 3), vpaddd 6 2 (X 1), vmovdqa 1 (X 8),
     vmovdqa 8 (X 7), vmovdqa 7 (X 10), vpsrld 3 10 2, vpslld 9 10 30, vpor 3 9 (X 3), vpsrld 9 10 13,
     vpslld 10 10 19, vpor 9 10 (X 9), vpsrld 10 7 22, vpslld 13 7 10, vpor 10 13 (X 10), vpxor 9 9 (X 10),
     vpxor 3 9 (X 3), vpand 9 8 (X 7), vpxor 10 8 (X 7), vpand 10 10 (X 1), vpxor 9 10 (X 9), vpaddd 3 9 (X 3),
     vpaddd 10 3 (X 2)]"

definition asm2_round15 :: "instr list" where
  "asm2_round15 = [
     vpsrld 2 10 2, vpslld 3 10 30, vpor 2 3 (X 2), vpsrld 3 10 13, vpslld 9 10 19, vpor 3 9 (X 3), vpsrld 9 10 22,
     vpslld 13 10 10, vpor 9 13 (X 9), vpxor 3 9 (X 3), vpxor 2 3 (X 2), vpand 3 10 (X 7), vpxor 9 10 (X 7),
     vpand 9 9 (X 8), vpxor 3 9 (X 3), vpaddd 2 3 (X 2), vpsrld 3 6 6, vpslld 9 6 26, vpor 3 9 (X 3), vpsrld 9 6 11,
     vpslld 13 6 21, vpor 9 13 (X 9), vpsrld 13 6 25, vpslld 14 6 7, vpor 13 14 (X 13), vpxor 9 9 (X 13),
     vpxor 3 9 (X 3), vpand 9 11 (X 6), vpandn 13 6 (X 12), vpor 9 13 (X 9), vpaddd 0 9 (X 0), vpaddd 0 0 (X 3),
     vpaddd 0 0 (M (Sym Words 176)), vpaddd 9 0 (X 1), vpaddd 0 2 (X 0)]"

definition asm2_round16 :: "instr list" where
  "asm2_round16 = [
     vpsrld 1 5 18, vpslld 2 5 14, vpor 1 2 (X 1), vpsrld 2 5 3, vpxor 1 1 (X 2), vpsrld 2 5 7, vpslld 3 5 25,
     vpor 2 3 (X 2), vpxor 1 1 (X 2), vpaddd 4 1 (X 4), vpsrld 1 0 2, vpslld 2 0 30, vpor 1 2 (X 1), vpsrld 2 0 13,
     vpslld 3 0 19, vpor 2 3 (X 2), vpsrld 3 0 22, vpslld 13 0 10, vpor 3 13 (X 3), vpxor 2 2 (X 3), vpxor 1 2 (X 1),
     vpand 2 10 (X 0), vpxor 3 10 (X 0), vpand 3 3 (X 7), vpxor 2 3 (X 2), vpaddd 1 2 (X 1), vpsrld 2 9 6,
     vpslld 3 9 26, vpor 2 3 (X 2), vpsrld 3 9 11, vpslld 13 9 21, vpor 3 13 (X 3), vpsrld 13 9 25, vpslld 14 9 7,
     vpor 13 14 (X 13), vpxor 3 13 (X 3), vpxor 2 3 (X 2), vpand 3 9 (X 6), vpandn 13 9 (X 11), vpor 3 13 (X 3),
     vpaddd 12 12 (X 4), vpaddd 3 12 (X 3), vpaddd 2 3 (X 2), vpaddd 2 2 (M (Sym Words 192)), vpaddd 13 8 (X 2),
     vpaddd 1 1 (X 2)]"

definition asm2_round17 :: "instr list" where
  "asm2_round17 = [
     vpaddd 15 5 (M (Sym Words 208)), vpsrld 2 1 2, vpslld 3 1 30, vpor 2 3 (X 2), vpsrld 3 1 13, vpslld 8 1 19,
     vpor 3 8 (X 3), vpsrld 8 1 22, vpslld 12 1 10, vpor 8 12 (X 8), vpxor 3 8 (X 3), vpxor 2 3 (X 2),
     vpand 3 1 (X 0), vpxor 8 1 (X 0), vpand 8 8 (X 10), vpxor 3 8 (X 3), vpaddd 2 2 (X 3), vpsrld 3 13 6,
     vpslld 8 13 26, vpor 3 8 (X 3), vpsrld 8 13 11, vpslld 12 13 21, vpor 8 12 (X 8), vpsrld 12 13 25,
     vpslld 14 13 7, vpor 12 14 (X 12), vpxor 8 8 (X 12), vpxor 3 8 (X 3), vpand 8 13 (X 9), vpandn 12 13 (X 6),
     vpor 8 8 (X 12), vpaddd 5 11 (X 5), vpaddd 5 8 (X 5), vpaddd 3 5 (X 3), vpaddd 5 3 (M (Sym Words 224)),
     vpaddd 3 5 (X 7), vpaddd 2 2 (X 5)]"

definition asm2_round18 :: "instr list" where
  "asm2_round18 = [
     vpsrld 5 4 19, vpslld 7 4 13, vpor 5 7 (X 5), vpsrld 7 4 10, vpxor 5 5 (X 7), vpsrld 7 4 17, vpslld 8 4 15,
     vpor 7 8 (X 7), vpxor 5 5 (X 7), vpsrld 7 2 2, vpslld 8 2 30, vpor 7 8 (X 7), vpsrld 8 2 13, vpslld 11 2 19,
     vpor 8 11 (X 8), vpsrld 11 2 22, vpslld 12 2 10, vpor 11 12 (X 11), vpxor 8 8 (X 11), vpxor 7 8 (X 7),
     vpand 8 2 (X 1), vpxor 11 2 (X 1), vpand 11 11 (X 0), vpxor 8 11 (X 8), vpaddd 7 8 (X 7), vpsrld 8 3 6,
     vpslld 11 3 26, vpor 8 11 (X 8), vpsrld 11 3 11, vpslld 12 3 21, vpor 11 12 (X 11), vpsrld 12 3 25,
     vpslld 14 3 7, vpor 12 14 (X 12), vpxor 11 11 (X 12), vpxor 8 11 (X 8), vpand 11 13 (X 3), vpandn 12 3 (X 9),
     vpor 11 11 (X 12), vpaddd 6 5 (X 6), vpaddd 6 11 (X 6), vpaddd 6 8 (X 6), vpaddd 6 6 (M (Sym Words 256)),
     vpaddd 12 10 (X 6), vpaddd 11 7 (X 6)]"

definition asm2_round19 :: "instr list" where
  "asm2_round19 = [
     vmovdqa_to (Mem RSP 16) 15, vpsrld 6 15 19, vpslld 7 15 13, vpor 6 7 (X 6), vpsrld 7 15 10, vpxor 6 6 (X 7),
     vpsrld 7 15 17, vpslld 8 15 15, vpor 7 8 (X 7), vpxor 6 6 (X 7), vmovdqa_to (Mem RSP 32) 6, vpsrld 6 11 2,
     vpslld 8 11 30, vpor 6 8 (X 6), vpsrld 8 11 13, vpslld 10 11 19, vpor 8 10 (X 8), vpsrld 10 11 22,
     vpslld 14 11 10, vpor 10 14 (X 10), vpxor 8 8 (X 10), vpxor 6 8 (X 6), vpand 8 11 (X 2), vpxor 10 11 (X 2),
     vpand 10 10 (X 1), vpxor 8 10 (X 8), vpaddd 6 8 (X 6), vpsrld 8 12 6, vpslld 10 12 26, vpor 8 10 (X 8),
     vpsrld 10 12 11, vpslld 14 12 21, vpor 14 14 (X 10), vpsrld 10 12 25, vpslld 15 12 7, vpor 15 15 (X 10),
     vpxor 7 5 (M (Sym Words 240)), vpxor 5 14 (X 15), vpxor 5 8 (X 5), vpand 8 12 (X 3), vpandn 14 12 (X 13),
     vpor 8 8 (X 14), vmovdqa 10 (M (Mem RSP 32)), vpaddd 9 10 (X 9), vpaddd 8 9 (X 8), vpaddd 5 8 (X 5),
     vpaddd 5 5 (M (Sym Words 272)), vpaddd 14 5 (X 0), vpaddd 0 6 (X 5)]"

definition asm2_round20 :: "instr list" where
  "asm2_round20 = [
     vmovdqa_to (Mem RSP 224) 7, vpsrld 5 7 19, vpslld 6 7 13, vpor 5 6 (X 5), vpsrld 6 7 10, vpxor 5 5 (X 6),
     vpsrld 6 7 17, vpslld 8 7 15, vpor 6 8 (X 6), vpxor 7 5 (X 6), vpsrld 5 0 2, vpslld 6 0 30, vpor 5 6 (X 5),
     vpsrld 6 0 13, vpslld 9 0 19, vpor 6 9 (X 6), vpsrld 9 0 22, vpslld 15 0 10, vpor 9 15 (X 9), vpxor 6 9 (X 6),
     vpxor 5 6 (X 5), vpand 6 11 (X 0), vpxor 9 11 (X 0), vpand 9 9 (X 2), vpxor 6 9 (X 6), vpaddd 5 5 (X 6),
     vpsrld 6 14 6, vpslld 9 14 26, vpor 6 9 (X 6), vpsrld 9 14 11, vpslld 15 14 21, vpor 9 15 (X 9), vpsrld 15 14 25,
     vpslld 8 14 7, vpor 8 8 (X 15), vpxor 8 9 (X 8), vpxor 6 8 (X 6), vpand 8 14 (X 12), vpandn 9 14 (X 3),
     vpor 8 8 (X 9), vpaddd 9 13 (X 7), vpaddd 8 9 (X 8), vpaddd 6 8 (X 6), vpaddd 6 6 (M (Sym Words 288)),
     vpaddd 9 6 (X 1), vpaddd 1 5 (X 6)]"

definition asm2_round21 :: "instr list" where
  "asm2_round21 = [
     vmovdqa 8 (X 10), vpsrld 5 10 19, vpslld 6 10 13, vpor 5 6 (X 5), vpsrld 6 10 10, vpxor 5 5 (X 6),
     vpsrld 6 10 17, vpslld 8 10 15, vpor 6 8 (X 6), vpxor 10 5 (X 6), vpsrld 5 1 2, vpslld 6 1 30, vpor 5 6 (X 5),
     vpsrld 6 1 13, vpslld 8 1 19, vpor 6 8 (X 6), vpsrld 8 1 22, vpslld 13 1 10, vpor 8 13 (X 8), vpxor 6 8 (X 6),
     vpxor 5 6 (X 5), vpxor 6 1 (X 0), vpand 6 11 (X 6), vpand 8 1 (X 0), vpxor 6 8 (X 6), vpaddd 5 5 (X 6),
     vpsrld 6 9 6, vpslld 8 9 26, vpor 6 8 (X 6), vpsrld 8 9 11, vpslld 13 9 21, vpor 8 13 (X 8), vpsrld 13 9 25,
     vpslld 15 9 7, vpor 13 15 (X 13), vpxor 8 8 (X 13), vpxor 6 8 (X 6), vpand 8 9 (X 14), vpandn 13 9 (X 12),
     vpor 8 8 (X 13), vpaddd 3 10 (X 3), vpaddd 3 8 (X 3), vpaddd 3 3 (X 6), vpaddd 6 3 (M (Sym Words 304)),
     vpaddd 3 6 (X 2), vpaddd 2 5 (X 6)]"

definition asm2_round22 :: "instr list" where
  "asm2_round22 = [
     vmovdqa_to (Mem RSP 240) 7, vpsrld 5 7 19, vpslld 6 7 13, vpor 5 6 (X 5), vpsrld 6 7 10, vpxor 5 5 (X 6),
     vpsrld 6 7 17, vpslld 8 7 15, vpor 6 8 (X 6), vpxor 6 5 (X 6), vmovdqa_to (Mem RSP 0) 6, vpsrld 5 2 2,
     vpslld 8 2 30, vpor 5 8 (X 5), vpsrld 8 2 13, vpslld 13 2 19, vpor 8 13 (X 8), vpsrld 13 2 22, vpslld 15 2 10,
     vpor 13 15 (X 13), vpxor 8 8 (X 13), vpxor 5 8 (X 5), vpxor 8 2 (X 1), vpand 8 8 (X 0), vpand 13 2 (X 1),
     vpxor 8 8 (X 13), vpaddd 5 8 (X 5), vpsrld 8 3 6, vpslld 13 3 26, vpor 8 13 (X 8), vpsrld 13 3 11,
     vpslld 15 3 21, vpor 13 15 (X 13), vpsrld 15 3 25, vpslld 7 3 7, vpor 7 15 (X 7), vpxor 7 13 (X 7),
     vpxor 7 8 (X 7), vpand 8 9 (X 3), vpandn 13 3 (X 14), vpor 8 8 (X 13), vpaddd 12 12 (X 6), vpaddd 8 12 (X 8),
     vpaddd 7 8 (X 7), vpaddd 7 7 (M (Sym Words 336)), vpaddd 13 11 (X 7), vpaddd 15 5 (X 7)]"

definition asm2_round23 :: "instr list" where
  "asm2_round23 = [
     vmovdqa 6 (X 10), vmovdqa_to (Mem RSP 64) 10, vpsrld 5 10 19, vpslld 7 10 13, vpor 5 7 (X 5), vpsrld 7 10 10,
     vpxor 5 5 (X 7), vpsrld 7 10 17, vpslld 8 10 15, vpor 7 8 (X 7), vpxor 5 5 (X 7), vpsrld 7 15 2, vpslld 8 15 30,
     vpor 7 8 (X 7), vpsrld 8 15 13, vpslld 11 15 19, vpor 8 11 (X 8), vpsrld 11 15 22, vpslld 12 15 10,
     vpor 11 12 (X 11), vpxor 8 8 (X 11), vpxor 7 8 (X 7), vpxor 8 15 (X 2), vpand 8 8 (X 1), vpand 11 15 (X 2),
     vpxor 8 8 (X 11), vpaddd 7 8 (X 7), vpsrld 8 13 6, vpslld 11 13 26, vpor 8 11 (X 8), vpsrld 11 13 11,
     vpslld 12 13 21, vpor 11 12 (X 11), vpsrld 12 13 25, vpslld 6 13 7, vpor 6 12 (X 6), vpxor 6 11 (X 6),
     vpxor 6 8 (X 6), vpand 8 13 (X 3), vpandn 11 13 (X 9), vpor 8 8 (X 11), vpaddd 10 5 (X 4), vpaddd 11 10 (X 14),
     vpaddd 8 11 (X 8), vpaddd 6 8 (X 6), vpaddd 6 6 (M (Sym Words 352)), vpaddd 12 6 (X 0), vpaddd 11 7 (X 6)]"

definition asm2_round24 :: "instr list" where
  "asm2_round24 = [
     vbroadcastss 0 (Sym Words 576), vpaddd 5 0 (M (Mem RSP 0)), vmovdqa_to (Mem RSP 0) 5, vpsrld 0 5 19,
     vpslld 6 5 13, vpor 0 6 (X 0), vpsrld 6 5 10, vpxor 0 0 (X 6), vpsrld 6 5 17, vpslld 7 5 15, vpor 6 7 (X 6),
     vpxor 0 0 (X 6), vmovdqa_to (Mem RSP 256) 4, vmovdqa 5 (M (Mem RSP 16)), vmovdqa_to (Mem RSP 272) 5,
     vpaddd 14 0 (X 5), vpsrld 0 11 2, vpslld 6 11 30, vpor 0 6 (X 0), vpsrld 6 11 13, vpslld 7 11 19, vpor 6 7 (X 6),
     vpsrld 7 11 22, vpslld 8 11 10, vpor 7 8 (X 7), vpxor 6 6 (X 7), vpxor 0 6 (X 0), vpxor 6 11 (X 15),
     vpand 6 6 (X 2), vpand 7 11 (X 15), vpxor 6 6 (X 7), vpaddd 0 0 (X 6), vpsrld 6 12 6, vpslld 7 12 26,
     vpor 6 7 (X 6), vpsrld 7 12 11, vpslld 8 12 21, vpor 7 8 (X 7), vpsrld 8 12 25, vpslld 5 12 7, vpor 5 8 (X 5),
     vpxor 5 7 (X 5), vpxor 5 5 (X 6), vpand 6 12 (X 13), vpandn 7 12 (X 3), vpor 6 6 (X 7), vpaddd 7 14 (X 9),
     vpaddd 6 7 (X 6), vpaddd 5 6 (X 5), vpaddd 5 5 (M (Sym Words 368)), vpaddd 1 5 (X 1), vpaddd 9 0 (X 5)]"

definition asm2_round25 :: "instr list" where
  "asm2_round25 = [
     vmovdqa_to (Mem RSP 48) 10, vpsrld 0 10 19, vpslld 5 10 13, vpor 0 5 (X 0), vpsrld 5 10 10, vpxor 0 0 (X 5),
     vpsrld 5 10 17, vpslld 6 10 15, vpor 5 6 (X 5), vpxor 0 0 (X 5), vmovdqa 5 (M (Mem RSP 224)),
     vmovdqa_to (Mem RSP 288) 5, vpaddd 10 0 (X 5), vpsrld 0 9 2, vpslld 5 9 30, vpor 0 5 (X 0), vpsrld 5 9 13,
     vpslld 6 9 19, vpor 5 6 (X 5), vpsrld 6 9 22, vpslld 7 9 10, vpor 6 7 (X 6), vpxor 5 5 (X 6), vpxor 0 5 (X 0),
     vpxor 5 9 (X 11), vpand 5 15 (X 5), vpand 6 9 (X 11), vpxor 5 5 (X 6), vpaddd 0 0 (X 5), vpsrld 5 1 6,
     vpslld 6 1 26, vpor 5 6 (X 5), vpsrld 6 1 11, vpslld 7 1 21, vpor 6 7 (X 6), vpsrld 7 1 25, vpslld 8 1 7,
     vpor 7 8 (X 7), vpxor 6 6 (X 7), vpxor 5 6 (X 5), vpand 6 12 (X 1), vpandn 7 1 (X 13), vpor 6 6 (X 7),
     vpaddd 3 10 (X 3), vpaddd 3 3 (X 6), vpaddd 3 3 (X 5), vpaddd 3 3 (M (Sym Words 384)), vpaddd 2 3 (X 2),
     vpaddd 3 0 (X 3)]"

definition asm2_round26 :: "instr list" where
  "asm2_round26 = [
     vmovdqa_to (Mem RSP 16) 14, vpsrld 0 14 19, vpslld 5 14 13, vpor 0 5 (X 0), vpsrld 5 14 10, vpxor 0 0 (X 5),
     vpsrld 5 14 17, vpslld 6 14 15, vpor 5 6 (X 5), vpxor 0 0 (X 5), vmovdqa 5 (M (Mem RSP 32)),
     vmovdqa_to (Mem RSP 304) 5, vpaddd 0 0 (X 5), vpsrld 5 3 2, vpslld 6 3 30, vpor 5 6 (X 5), vpsrld 6 3 13,
     vpslld 7 3 19, vpor 6 7 (X 6), vpsrld 7 3 22, vpslld 8 3 10, vpor 7 8 (X 7), vpxor 6 6 (X 7), vpxor 5 6 (X 5),
     vpxor 6 9 (X 3), vpand 6 11 (X 6), vpand 7 9 (X 3), vpxor 6 6 (X 7), vpaddd 5 5 (X 6), vpsrld 6 2 6,
     vpslld 7 2 26, vpor 6 7 (X 6), vpsrld 7 2 11, vpslld 8 2 21, vpor 7 8 (X 7), vpsrld 8 2 25, vpslld 14 2 7,
     vpor 8 14 (X 8), vpxor 7 8 (X 7), vpxor 6 7 (X 6), vpand 7 2 (X 1), vpandn 8 2 (X 12), vpor 7 8 (X 7),
     vpaddd 8 13 (X 0), vpaddd 7 8 (X 7), vpaddd 6 7 (X 6), vpaddd 6 6 (M (Sym Words 400)), vpaddd 13 15 (X 6),
     vpaddd 7 5 (X 6)]"

definition asm2_round27 :: "instr list" where
  "asm2_round27 = [
     vpsrld 5 10 19, vpslld 6 10 13, vpor 5 6 (X 5), vpsrld 6 10 10, vpxor 5 5 (X 6), vmovdqa 14 (M (Mem RSP 240)),
     vmovdqa_to (Mem RSP 320) 14, vmovaps 6 (M (Mem RSP 64)), vmovaps_to (Mem RSP 336) 6, vmovaps 6 (M (Mem RSP 0)),
     vmovaps_to (Mem RSP 352) 6, vmovaps 6 (M (Mem RSP 48)), vmovaps_to (Mem RSP 368) 6, vmovaps 6 (M (Mem RSP 16)),
     vmovaps_to (Mem RSP 384) 6, vmovdqa_to (Mem RSP 400) 10, vpsrld 6 10 17, vpslld 8 10 15, vpor 6 8 (X 6),
     vpxor 5 5 (X 6), vpaddd 6 14 (X 5), vpsrld 5 7 2, vpslld 8 7 30, vpor 5 8 (X 5), vpsrld 8 7 13, vpslld 10 7 19,
     vpor 8 10 (X 8), vpsrld 10 7 22, vpslld 14 7 10, vpor 10 14 (X 10), vpxor 8 8 (X 10), vpxor 5 8 (X 5),
     vpxor 8 7 (X 3), vpand 8 8 (X 9), vpand 10 7 (X 3), vpxor 8 8 (X 10), vpaddd 5 8 (X 5), vpsrld 8 13 6,
     vpslld 10 13 26, vpor 8 10 (X 8), vpsrld 10 13 11, vpslld 14 13 21, vpor 10 14 (X 10), vpsrld 14 13 25,
     vpslld 15 13 7, vpor 14 15 (X 14), vpxor 10 10 (X 14), vpxor 8 10 (X 8), vpand 10 13 (X 2), vpandn 14 13 (X 1),
     vpor 10 10 (X 14), vpaddd 12 12 (X 6), vpaddd 10 12 (X 10), vpaddd 8 10 (X 8), vpaddd 8 8 (M (Sym Words 416)),
     vpaddd 12 8 (X 11), vpaddd 15 8 (X 5)]"

definition asm2_round28 :: "instr list" where
  "asm2_round28 = [
     vpsrld 5 0 19, vpslld 8 0 13, vpor 5 8 (X 5), vpsrld 8 0 10, vpxor 5 8 (X 5), vmovdqa_to (Mem RSP 416) 0,
     vpsrld 8 0 17, vpslld 0 0 15, vpor 0 8 (X 0), vpxor 0 5 (X 0), vpaddd 0 0 (M (Mem RSP 64)), vpsrld 5 15 2,
     vpslld 8 15 30, vpor 5 8 (X 5), vpsrld 8 15 13, vpslld 10 15 19, vpor 8 10 (X 8), vpsrld 10 15 22,
     vpslld 11 15 10, vpor 10 11 (X 10), vpxor 8 8 (X 10), vpxor 5 8 (X 5), vpxor 8 15 (X 7), vpand 8 8 (X 3),
     vpand 10 15 (X 7), vpxor 8 8 (X 10), vpaddd 5 8 (X 5), vpsrld 8 12 6, vpslld 10 12 26, vpor 8 10 (X 8),
     vpsrld 10 12 11, vpslld 11 12 21, vpor 10 11 (X 10), vpsrld 11 12 25, vpslld 14 12 7, vpor 11 14 (X 11),
     vpxor 10 10 (X 11), vpxor 8 10 (X 8), vpand 10 12 (X 13), vpandn 11 12 (X 2), vpor 10 10 (X 11),
     vpaddd 1 0 (X 1), vpaddd 1 10 (X 1), vmovdqa_to (Mem RSP 432) 6, vpaddd 1 8 (X 1),
     vpaddd 1 1 (M (Sym Words 432)), vpaddd 11 9 (X 1), vpaddd 10 5 (X 1)]"

definition asm2_round29 :: "instr list" where
  "asm2_round29 = [
     vpsrld 1 6 19, vpslld 5 6 13, vpor 1 5 (X 1), vpsrld 5 6 10, vpxor 1 1 (X 5), vpsrld 5 6 17, vpslld 6 6 15,
     vpor 5 6 (X 5), vpxor 1 1 (X 5), vpaddd 8 1 (M (Mem RSP 0)), vpsrld 1 10 2, vpslld 5 10 30, vpor 1 5 (X 1),
     vpsrld 5 10 13, vpslld 6 10 19, vpor 5 6 (X 5), vpsrld 6 10 22, vpslld 9 10 10, vpor 6 9 (X 6), vpxor 5 5 (X 6),
     vpxor 1 5 (X 1), vpand 5 10 (X 15), vpxor 6 10 (X 15), vpand 6 6 (X 7), vpxor 5 6 (X 5), vpaddd 1 1 (X 5),
     vpsrld 5 11 6, vpslld 6 11 26, vpor 5 6 (X 5), vpsrld 6 11 11, vpslld 9 11 21, vpor 6 9 (X 6), vpsrld 9 11 25,
     vpslld 14 11 7, vpor 9 14 (X 9), vpxor 6 9 (X 6), vpxor 5 6 (X 5), vpand 6 11 (X 12), vpandn 9 11 (X 13),
     vpor 6 9 (X 6), vmovdqa_to (Mem RSP 448) 0, vpaddd 2 8 (X 2), vpaddd 2 2 (X 6), vpaddd 2 2 (X 5),
     vpaddd 2 2 (M (Sym Words 448)), vpaddd 6 2 (X 3), vpaddd 14 1 (X 2)]"

definition asm2_round30 :: "instr list" where
  "asm2_round30 = [
     vpsrld 1 0 19, vpslld 2 0 13, vpor 1 2 (X 1), vpsrld 2 0 10, vpxor 1 1 (X 2), vpsrld 2 0 17, vpslld 0 0 15,
     vpor 0 0 (X 2), vpxor 0 1 (X 0), vpaddd 1 0 (M (Mem RSP 48)), vpsrld 0 14 2, vpslld 2 14 30, vpor 0 2 (X 0),
     vpsrld 2 14 13, vpslld 3 14 19, vpor 2 3 (X 2), vpsrld 3 14 22, vpslld 5 14 10, vpor 3 5 (X 3), vpxor 2 2 (X 3),
     vpxor 0 2 (X 0), vpand 2 14 (X 10), vpxor 3 14 (X 10), vpand 3 15 (X 3), vpxor 2 3 (X 2), vpaddd 0 0 (X 2),
     vpsrld 2 6 6, vpslld 3 6 26, vpor 2 3 (X 2), vpsrld 3 6 11, vpslld 5 6 21, vpor 3 5 (X 3), vpsrld 5 6 25,
     vpslld 9 6 7, vpor 5 9 (X 5), vmovdqa_to (Mem RSP 464) 8, vpxor 3 3 (X 5), vpxor 2 3 (X 2), vpand 3 11 (X 6),
     vpandn 5 6 (X 12), vpor 3 3 (X 5), vpaddd 5 13 (X 1), vpaddd 3 5 (X 3), vpaddd 2 3 (X 2),
     vpaddd 2 2 (M (Sym Words 480)), vpaddd 5 2 (X 7), vpaddd 7 0 (X 2)]"

definition asm2_round31 :: "instr list" where
  "asm2_round31 = [
     vpsrld 0 8 19, vpslld 2 8 13, vpor 0 2 (X 0), vpsrld 2 8 10, vpxor 0 0 (X 2), vpsrld 2 8 17, vpslld 3 8 15,
     vpor 2 3 (X 2), vpxor 0 0 (X 2), vpsrld 2 4 18, vpslld 3 4 14, vpor 2 3 (X 2), vpsrld 3 4 3, vpxor 2 2 (X 3),
     vpsrld 3 4 7, vpslld 8 4 25, vpor 3 8 (X 3), vpxor 2 2 (X 3), vpaddd 2 2 (M (Mem RSP 16)),
     vpaddd 2 2 (M (Sym Words 320)), vpaddd 8 2 (X 0), vpsrld 0 7 2, vpslld 2 7 30, vpor 0 2 (X 0), vpsrld 2 7 13,
     vpslld 3 7 19, vpor 2 3 (X 2), vpsrld 3 7 22, vpslld 9 7 10, vpor 3 9 (X 3), vpxor 2 2 (X 3), vpxor 0 2 (X 0),
     vpand 2 14 (X 7), vpxor 3 14 (X 7), vpand 3 10 (X 3), vpxor 2 3 (X 2), vpaddd 2 0 (X 2), vpsrld 0 5 6,
     vpslld 3 5 26, vpor 0 3 (X 0), vpsrld 3 5 11, vpslld 9 5 21, vpor 3 9 (X 3), vpsrld 9 5 25, vpslld 13 5 7,
     vpor 9 13 (X 9), vpxor 3 9 (X 3), vpxor 0 3 (X 0), vpand 3 5 (X 6), vpandn 9 5 (X 11), vpor 3 9 (X 3),
     vpaddd 9 8 (X 12), vpaddd 3 9 (X 3), vpaddd 0 3 (X 0), vpaddd 3 0 (M (Sym Words 496)), vpaddd 0 15 (X 3),
     vpaddd 12 2 (X 3)]"

definition asm2_window :: "instr list" where
  "asm2_window = [
     vpaddd 2 1 (M (Sym Words 464)), vmovdqa_to (Mem RSP 480) 2, vmovdqa_to (Mem RSP 496) 8]"

definition asm2_round_step :: "instr list" where
  "asm2_round_step = [
     vmovdqa 1 (X 11), vmovdqa 11 (X 6), vmovdqa 6 (X 5), vmovdqa 15 (X 8), vmovdqa 5 (X 0), vpsrld 3 2 19,
     vpslld 8 2 13, vpor 3 8 (X 3), vpsrld 8 2 10, vpxor 3 8 (X 3), vpsrld 8 2 17, vpslld 2 2 15, vpor 2 8 (X 2),
     vpxor 2 3 (X 2), vpaddd 2 4 (X 2), vmovdqa 4 (M (MemIx RSP 4 RDX 272)), vpsrld 3 4 18, vpslld 8 4 14,
     vpor 3 8 (X 3), vpsrld 8 4 3, vpxor 3 8 (X 3), vpsrld 8 4 7, vpslld 9 4 25, vpor 8 9 (X 8), vpxor 3 8 (X 3),
     vpaddd 2 2 (M (MemIx RSP 4 RDX 400)), vpaddd 8 2 (X 3), vpsrld 2 0 6, vpslld 3 0 26, vpor 2 3 (X 2),
     vpsrld 3 0 11, vpslld 9 0 21, vpor 3 9 (X 3), vpsrld 9 0 25, vpslld 0 0 7, vpor 0 9 (X 0), vpxor 0 3 (X 0),
     vpxor 0 0 (X 2), vpand 2 5 (X 6), vpandn 3 5 (X 11), vpor 2 3 (X 2), vpaddd 1 1 (X 2), vpaddd 0 0 (X 1),
     vbroadcastss 1 (MemIx RDX 1 RCX 128), vpaddd 0 0 (X 1), vpaddd 1 8 (X 0), vpaddd 0 10 (X 1), vmovdqa 10 (X 14),
     vmovdqa 14 (X 7), vmovdqa 7 (X 12), vmovdqa_to (MemIx RSP 4 RDX 512) 8, vpsrld 2 12 2, vpslld 3 12 30,
     vpor 2 3 (X 2), vpsrld 3 12 13, vpslld 9 12 19, vpor 3 9 (X 3), vpsrld 9 12 22, vpslld 12 12 10, vpor 9 12 (X 9),
     vpxor 3 9 (X 3), vpxor 2 3 (X 2), vpand 3 14 (X 7), vpxor 9 14 (X 7), vpand 9 9 (X 10), vpxor 3 9 (X 3),
     vpaddd 2 2 (X 3), vpaddd 12 2 (X 1)]"

definition asm2_early :: "instr list" where
  "asm2_early = [
     vpcmpeqd 1 12 (M (Mem RSP 208)), vptest 1 1]"

definition asm2_late_start :: "instr list" where
  "asm2_late_start = [
     gp (mov32_imm RDX 104), vmovdqa 1 (M (Mem RSP 656))]"

definition asm2_late_step :: "instr list" where
  "asm2_late_step = [
     vmovdqa 2 (X 11), vmovdqa 11 (X 6), vmovdqa 6 (X 5), vmovdqa 5 (X 0), vpsrld 0 15 19, vpslld 3 15 13,
     vpor 0 3 (X 0), vpsrld 3 15 10, vpxor 0 0 (X 3), vpsrld 3 15 17, vpslld 4 15 15, vpor 3 4 (X 3), vpxor 0 0 (X 3),
     vpaddd 0 1 (X 0), vmovdqa 1 (M (MemIx RSP 4 RDX 256)), vpsrld 3 1 18, vpslld 4 1 14, vpor 3 4 (X 3),
     vpsrld 4 1 3, vpxor 3 3 (X 4), vpsrld 4 1 7, vpslld 9 1 25, vpor 4 9 (X 4), vpaddd 0 0 (M (MemIx RSP 4 RDX 384)),
     vpxor 3 3 (X 4), vmovdqa 15 (X 8), vpaddd 8 0 (X 3), vpsrld 0 5 6, vpslld 3 5 26, vpor 0 3 (X 0), vpsrld 3 5 11,
     vpslld 4 5 21, vpor 3 4 (X 3), vpsrld 4 5 25, vpslld 9 5 7, vpor 4 9 (X 4), vpxor 3 3 (X 4), vpxor 0 3 (X 0),
     vpand 3 5 (X 6), vpandn 4 5 (X 11), vpor 3 4 (X 3), vpaddd 2 3 (X 2), vpaddd 0 2 (X 0),
     vbroadcastss 2 (MemIx RDX 1 RCX 124), vpaddd 0 0 (X 2), vpaddd 2 8 (X 0), vpaddd 0 10 (X 2), vmovdqa 10 (X 14),
     vmovdqa 14 (X 7), vmovdqa 7 (X 12), vmovdqa_to (MemIx RSP 4 RDX 496) 8, vpsrld 3 12 2, vpslld 4 12 30,
     vpor 3 4 (X 3), vpsrld 4 12 13, vpslld 9 12 19, vpor 4 9 (X 4), vpsrld 9 12 22, vpslld 12 12 10, vpor 9 12 (X 9),
     vpxor 4 9 (X 4), vpxor 3 4 (X 3), vpand 4 14 (X 7), vpxor 9 14 (X 7), vpand 9 9 (X 10), vpxor 4 9 (X 4),
     vpaddd 3 3 (X 4), vpaddd 12 3 (X 2)]"

definition asm2_compare :: "instr list" where
  "asm2_compare = [
     vpcmpeqd 1 12 (M (Mem RSP 192)), vpcmpeqd 2 7 (M (Mem RSP 176)), vpcmpeqd 3 14 (M (Mem RSP 160)),
     vpcmpeqd 4 10 (M (Mem RSP 144)), vpcmpeqd 0 0 (M (Mem RSP 128)), vpcmpeqd 5 5 (M (Mem RSP 112)),
     vpcmpeqd 6 6 (M (Mem RSP 96)), vpcmpeqd 7 11 (M (Mem RSP 80)), vpand 6 6 (X 7), vpand 5 6 (X 5), vpand 4 5 (X 4),
     vpand 3 4 (X 3), vpand 2 3 (X 2), vpand 0 2 (X 0), vpand 0 0 (X 1), vpslld 0 0 31]"

definition asm2_found :: "instr list" where
  "asm2_found = [
     gp (movzx8 RAX RDX), gp (rep_bsf32 RAX RAX), gp (shl32 RAX 3), gp (lea RCX (Mem RSP 1024)), gp (or64 RCX RAX),
     gp (mov_from RAX (Mem RCX 0))]"

definition asm2_guard :: "instr list" where
  "asm2_guard = [
     gp (mov_fs40 RCX), gp (cmp_mem RCX (Mem RSP 1112))]"

definition asm2_leave :: "instr list" where
  "asm2_leave = [
     gp (lea_below RSP RBP 16), gp (pop RBX), gp (pop R14), gp (pop RBP)]"

section \<open>Blocks\<close>

definition asm2_blocks :: "(nat \<times> instr list \<times> exit) list" where
  "asm2_blocks = [
     (0, asm2_enter @ asm2_d63 @ asm2_d62 @ asm2_d61 @ asm2_d60 @ asm2_spill, Jmp 1),
     (10, asm2_next, Jcc Ja 11 1),
     (1, asm2_words @ asm2_round0 @ asm2_round12 @ [gp (mov32_imm RDX 3), vmovdqa 1 (X 13), vmovdqa 0 (X 9)], Jmp 2),
     (2, asm2_zero_round @ [gp (inc RDX), gp (cmp_imm RDX 15)], Jcc Jne 2 3),
     (3, asm2_round15 @ asm2_round16 @ asm2_round17 @ asm2_round18 @ asm2_round19 @ asm2_round20 @
       asm2_round21 @ asm2_round22 @ asm2_round23 @ asm2_round24 @ asm2_round25 @ asm2_round26 @
       asm2_round27 @ asm2_round28 @ asm2_round29 @ asm2_round30 @ asm2_round31 @
       asm2_window @ [gp (mov32_imm RDX 0)], Jmp 4),
     (4, asm2_round_step @ [gp (add_imm RDX 4), vmovdqa 2 (X 15), gp (cmp_imm RDX 100)], Jcc Jne 4 5),
     (5, asm2_early, Jcc Je 10 6),
     (6, asm2_late_start, Jmp 7),
     (7, asm2_late_step @ [gp (add_imm RDX 4), gp (cmp_imm RDX 132)], Jcc Jne 7 8),
     (8, asm2_compare @ [vmovmskps RDX 0, gp (test32 RDX RDX)], Jcc Je 10 9),
     (9, asm2_found, Jmp 11),
     (11, asm2_guard, Jcc Jne 13 12),
     (12, asm2_leave, Ret),
     (13, [], Fail)]"

definition asm2 :: program where
  "asm2 l = (case map_of asm2_blocks l of Some b \<Rightarrow> b | None \<Rightarrow> ([], Fail))"

text \<open>The objects the code addresses, and a call.\<close>

definition asm2_objects :: "u8 list \<Rightarrow> object \<Rightarrow> storage" where
  "asm2_objects target r =
     (case r of
        Frame \<Rightarrow> Area 288
      | Words \<Rightarrow> Table asm2_WORDS
      | Ktab \<Rightarrow> Table asm2_k
      | Input \<Rightarrow> Table (map (load32 target) [0..<8])
      | _ \<Rightarrow> Area 0)"

definition reverse_sha256x4_fullyfused_asm_2 :: "nat \<Rightarrow> cpu \<Rightarrow> u64 \<Rightarrow> u64 \<Rightarrow> u8 list \<Rightarrow> (place \<times> cpu) option" where
  "reverse_sha256x4_fullyfused_asm_2 sp s start stop target =
     run (asm2_objects target) asm2 0 (call_search start stop sp s)"

end
