(* ===== verification/Asm2_Loops.thy ===== *)
theory Asm2_Loops
  imports Asm2_Code Sha_Lanes
begin

text \<open>
  The rounds of \<open>reverse_fullyfused_asm_x4_2.c\<close> that are not straight-line code, on one lane: the first three, where
  constants are folded, and the bodies of the three inner loops. In each body the general register \<open>RDX\<close> is the
  loop's index.
\<close>

section \<open>The tables\<close>

lemma asm2_WORDS_at:
  "asm2_WORDS ! 4 = 0x98c7e2a2" "asm2_WORDS ! 8 = 0xfc08884d"
  "asm2_WORDS ! 12 = 0xd16e48e2" "asm2_WORDS ! 20 = 0x9b05688c" "asm2_WORDS ! 24 = 0xcd2a11ae"
  "asm2_WORDS ! 28 = 0xbabcc441" "asm2_WORDS ! 36 = 0x8c2e12e0" "asm2_WORDS ! 40 = 0xd0c6645b"
  "asm2_WORDS ! 44 = 0xc19bf1b4" "asm2_WORDS ! 48 = 0xe49b69c1" "asm2_WORDS ! 52 = 0x11282000"
  "asm2_WORDS ! 56 = 0x00e66786" "asm2_WORDS ! 60 = 0x80000000" "asm2_WORDS ! 64 = 0x8fc19dc6"
  "asm2_WORDS ! 68 = 0x240ca1cc" "asm2_WORDS ! 72 = 0x2de92c6f" "asm2_WORDS ! 76 = 0x4a7484aa"
  "asm2_WORDS ! 80 = 0x00000040" "asm2_WORDS ! 84 = 0x5cb0aa1c" "asm2_WORDS ! 88 = 0x76f988da"
  "asm2_WORDS ! 92 = 0x983e5152" "asm2_WORDS ! 96 = 0xa831c66d" "asm2_WORDS ! 100 = 0xb00327c8"
  "asm2_WORDS ! 104 = 0xbf597fc7" "asm2_WORDS ! 108 = 0xc6e00bf3" "asm2_WORDS ! 112 = 0xd5a79147"
  "asm2_WORDS ! 116 = 0x80100008" "asm2_WORDS ! 120 = 0x86da6359" "asm2_WORDS ! 124 = 0x14292967"
  "asm2_WORDS ! 136 = 0x510e527f" "asm2_WORDS ! 140 = 0x6a09e667"
  "asm2_WORDS ! 144 = 0x00000040"
  by (simp_all add: asm2_WORDS_def)

lemma asm2_WORDS_ok:
  "const_ok asm2_WORDS 16" "const_ok asm2_WORDS 32" "const_ok asm2_WORDS 48" "const_ok asm2_WORDS 80"
  "const_ok asm2_WORDS 96" "const_ok asm2_WORDS 112" "const_ok asm2_WORDS 144" "const_ok asm2_WORDS 160"
  "const_ok asm2_WORDS 176" "const_ok asm2_WORDS 192" "const_ok asm2_WORDS 208" "const_ok asm2_WORDS 224"
  "const_ok asm2_WORDS 240" "const_ok asm2_WORDS 256" "const_ok asm2_WORDS 272" "const_ok asm2_WORDS 288"
  "const_ok asm2_WORDS 304" "const_ok asm2_WORDS 320" "const_ok asm2_WORDS 336" "const_ok asm2_WORDS 352"
  "const_ok asm2_WORDS 368" "const_ok asm2_WORDS 384" "const_ok asm2_WORDS 400" "const_ok asm2_WORDS 416"
  "const_ok asm2_WORDS 432" "const_ok asm2_WORDS 448" "const_ok asm2_WORDS 464" "const_ok asm2_WORDS 480"
  "const_ok asm2_WORDS 496"
  by (simp_all add: const_ok_def asm2_WORDS_def)

lemma asm2_k_K: "asm2_k = K"
  by (simp add: asm2_k_def K_def)

lemma asm2_objects_simps [simp]:
  "asm2_objects t Frame = Area 288" "asm2_objects t Words = Table asm2_WORDS" "asm2_objects t Ktab = Table K"
  "asm2_objects t Input = Table (map (load32 t) [0..<8])"
  by (simp_all add: asm2_objects_def asm2_k_K)

lemma asm2_WORDS_length [simp]: "length asm2_WORDS = 148"
  by (simp add: asm2_WORDS_def)

text \<open>Slots that the rounds do not write: the target, the counters and the stack protector's value.\<close>

definition asm2_keep :: "nat set" where
  "asm2_keep = {5..13} \<union> {64..}"

lemmas asm2_run = lane_run asm2_keep_def asm2_WORDS_at asm2_WORDS_ok


section \<open>The first rounds\<close>

definition asm2_cut2 :: "block \<Rightarrow> (loc \<times> u32) list" where
  "asm2_cut2 p = [(Xr 4, SW p 0), (Xr 5, SW p 1), (Xr 7, SA p 5), (Xr 8, SA p 4), (Xr 9, SE p 3), (Xr 11, SE p 5), (Xr 12, SE p 4)]"

definition asm2_cut3 :: "block \<Rightarrow> (loc \<times> u32) list" where
  "asm2_cut3 p = [(Xr 4, SW p 0), (Xr 5, SW p 1), (Xr 6, SE p 6), (Xr 7, SA p 5), (Xr 8, SA p 4), (Xr 9, SE p 3), (Xr 10, SA p 6), (Xr 11, SE p 5), (Xr 12, SE p 4), (Xr 13, SA p 3)]"

lemma asm2_round0:
  "g RSP = Ptr Frame 0 \<Longrightarrow> lane_triple (asm2_objects t) g asm2_keep (holds [(Xr 4, SW p 0), (Xr 5, SW p 1)]) asm2_round0
     (holds (asm2_cut2 p))"
  by (rule lane_tripleI; simp add: asm2_round0_def asm2_cut2_def asm2_run;
      simp add: SA_step [of p 1, simplified, unfolded Maj_initial] SE_step [of p 1, simplified] first_rounds lane_sha)

lemma asm2_round12:
  "g RSP = Ptr Frame 0 \<Longrightarrow> lane_triple (asm2_objects t) g asm2_keep (holds (asm2_cut2 p)) asm2_round12 (holds (asm2_cut3 p))"
  by (rule lane_tripleI; simp add: asm2_round12_def asm2_cut2_def asm2_cut3_def asm2_run;
      simp add: SA_step [of p 2, simplified] SE_step [of p 2, simplified] lane_sha)

section \<open>The rounds of the padding\<close>

definition asm2_cut_zero :: "block \<Rightarrow> nat \<Rightarrow> (loc \<times> u32) list" where
  "asm2_cut_zero p n = [(Xr 0, SE p n), (Xr 1, SA p n), (Xr 4, SW p 0), (Xr 5, SW p 1), (Xr 6, SE p (n + 3)),
     (Xr 7, SA p (n + 2)), (Xr 8, SA p (n + 1)), (Xr 10, SA p (n + 3)), (Xr 11, SE p (n + 2)), (Xr 12, SE p (n + 1))]"

lemma asm2_zero_round:
  assumes "g RSP = Ptr Frame 0" "g RCX = Ptr Ktab 0" "g RDX = Num (of_nat n)" "3 \<le> n" "n < 15"
  shows "lane_triple (asm2_objects t) g asm2_keep (holds (asm2_cut_zero p n)) asm2_zero_round (holds (asm2_cut_zero p (n + 1)))"
proof -
  have k: "resolve g (MemIx RCX 4 RDX 0) = Some (Ktab, 4 * n)" using assms resolve_index(1) [of g RCX Ktab 0 RDX n 4 0] by simp
  have len: "length K = 64" by (simp add: K_def)
  have next_cut: "asm2_cut_zero p (n + 1) = [(Xr 0, SE p (n + 1)), (Xr 1, SA p (n + 1)), (Xr 4, SW p 0), (Xr 5, SW p 1), (Xr 6, SE p (n + 4)),
     (Xr 7, SA p (n + 3)), (Xr 8, SA p (n + 2)), (Xr 10, SA p (n + 4)), (Xr 11, SE p (n + 3)), (Xr 12, SE p (n + 2))]"
    by (simp add: asm2_cut_zero_def eval_nat_numeral)
  show ?thesis unfolding next_cut
    by (rule lane_tripleI; use assms(1,4,5) in \<open>simp add: asm2_zero_round_def asm2_cut_zero_def asm2_run k len del: resolve.simps(2)\<close>;
      simp add: SA_at [of "n + 4" n p] SE_at [of "n + 4" n p] SW_zero lane_sha)
qed

section \<open>The rounds of the schedule\<close>

lemma slot_of_index:
  fixes i :: nat
  shows "(16 * i + 272) div 16 = i + 17" "(16 * i + 400) div 16 = i + 25" "(16 * i + 512) div 16 = i + 32"
    "(16 * i + 256) div 16 = i + 16" "(16 * i + 384) div 16 = i + 24" "(16 * i + 496) div 16 = i + 31"
    "(16 * i + 272) div 4 = 4 * i + 68" "(16 * i + 400) div 4 = 4 * i + 100" "(16 * i + 512) div 4 = 4 * i + 128"
    "(16 * i + 256) div 4 = 4 * i + 64" "(16 * i + 384) div 4 = 4 * i + 96" "(16 * i + 496) div 4 = 4 * i + 124"
    "(4 * i + 128) div 4 = i + 32" "(4 * i + 124) div 4 = i + 31"
  by presburger+

definition asm2_cut_step :: "block \<Rightarrow> nat \<Rightarrow> (loc \<times> u32) list" where
  "asm2_cut_step p i = [(Xr 0, SE p (i + 35)), (Xr 2, SW p (i + 30)), (Xr 4, SW p (i + 16)), (Xr 5, SE p (i + 34)), (Xr 6, SE p (i + 33)),
     (Xr 7, SA p (i + 34)), (Xr 8, SW p (i + 31)), (Xr 10, SA p (i + 32)), (Xr 11, SE p (i + 32)), (Xr 12, SA p (i + 35)),
     (Xr 14, SA p (i + 33)), (Sl (i + 17), SW p (i + 17)), (Sl (i + 25), SW p (i + 25))]"

definition asm2_cut_step_post :: "block \<Rightarrow> nat \<Rightarrow> (loc \<times> u32) list" where
  "asm2_cut_step_post p i = [(Xr 0, SE p (i + 36)), (Xr 15, SW p (i + 31)), (Xr 4, SW p (i + 17)), (Xr 5, SE p (i + 35)), (Xr 6, SE p (i + 34)),
     (Xr 7, SA p (i + 35)), (Xr 8, SW p (i + 32)), (Xr 10, SA p (i + 33)), (Xr 11, SE p (i + 33)), (Xr 12, SA p (i + 36)),
     (Xr 14, SA p (i + 34)), (Sl (i + 32), SW p (i + 32))]"

lemma asm2_round_step:
  assumes "g RSP = Ptr Frame 0" "g RCX = Ptr Ktab 0" "g RDX = Num (of_nat (4 * i))" "i < 25"
  shows "lane_triple (asm2_objects t) g (- {i + 32})
    (holds (asm2_cut_step p i)) asm2_round_step (holds (asm2_cut_step_post p i))"
proof -
  note index = resolve_index [of g RSP Frame 0 RDX "4 * i" 4] resolve_index [of g RCX Ktab 0 RDX "4 * i"]
  have r: "resolve g (MemIx RSP 4 RDX d) = Some (Frame, 16 * i + d)" "resolve g (MemIx RDX (Suc 0) RCX d) = Some (Ktab, 4 * i + d)" for d
    using assms index by simp_all
  have len: "length K = 64" by (simp add: K_def)
  have w: "SW p (i + 32) = sigma1 (SW p (i + 30)) + SW p (i + 25) + sigma0 (SW p (i + 17)) + SW p (i + 16)"
    using SW_step [of "i + 16" p] assms(4) by (simp add: ac_simps)
  show ?thesis
    by (rule lane_tripleI; use assms(1,4) in \<open>simp add: asm2_round_step_def asm2_cut_step_def asm2_cut_step_post_def asm2_run r len slot_of_index del: resolve.simps(2)\<close>;
      simp add: SA_at [of "i + 36" "i + 32" p] SE_at [of "i + 36" "i + 32" p] w lane_sha)
qed

definition asm2_cut_late :: "block \<Rightarrow> nat \<Rightarrow> (loc \<times> u32) list" where
  "asm2_cut_late p i = [(Xr 0, SE p (i + 34)), (Xr 1, SW p (i + 15)), (Xr 5, SE p (i + 33)), (Xr 6, SE p (i + 32)),
     (Xr 7, SA p (i + 33)), (Xr 8, SW p (i + 30)), (Xr 10, SA p (i + 31)), (Xr 11, SE p (i + 31)), (Xr 12, SA p (i + 34)),
     (Xr 14, SA p (i + 32)), (Xr 15, SW p (i + 29)), (Sl (i + 16), SW p (i + 16)), (Sl (i + 24), SW p (i + 24))]"

definition asm2_cut_late_post :: "block \<Rightarrow> nat \<Rightarrow> (loc \<times> u32) list" where
  "asm2_cut_late_post p i = [(Xr 0, SE p (i + 35)), (Xr 1, SW p (i + 16)), (Xr 5, SE p (i + 34)), (Xr 6, SE p (i + 33)),
     (Xr 7, SA p (i + 34)), (Xr 8, SW p (i + 31)), (Xr 10, SA p (i + 32)), (Xr 11, SE p (i + 32)), (Xr 12, SA p (i + 35)),
     (Xr 14, SA p (i + 33)), (Xr 15, SW p (i + 30)), (Sl (i + 31), SW p (i + 31))]"

lemma asm2_late_step:
  assumes "g RSP = Ptr Frame 0" "g RCX = Ptr Ktab 0" "g RDX = Num (of_nat (4 * i))" "i < 33"
  shows "lane_triple (asm2_objects t) g (- {i + 31})
    (holds (asm2_cut_late p i)) asm2_late_step (holds (asm2_cut_late_post p i))"
proof -
  note index = resolve_index [of g RSP Frame 0 RDX "4 * i" 4] resolve_index [of g RCX Ktab 0 RDX "4 * i"]
  have r: "resolve g (MemIx RSP 4 RDX d) = Some (Frame, 16 * i + d)" "resolve g (MemIx RDX (Suc 0) RCX d) = Some (Ktab, 4 * i + d)" for d
    using assms index by simp_all
  have len: "length K = 64" by (simp add: K_def)
  have w: "SW p (i + 31) = sigma1 (SW p (i + 29)) + SW p (i + 24) + sigma0 (SW p (i + 16)) + SW p (i + 15)"
    using SW_step [of "i + 15" p] assms(4) by (simp add: ac_simps)
  show ?thesis
    by (rule lane_tripleI; use assms(1,4) in \<open>simp add: asm2_late_step_def asm2_cut_late_def asm2_cut_late_post_def asm2_run r len slot_of_index del: resolve.simps(2)\<close>;
      simp add: SA_at [of "i + 35" "i + 31" p] SE_at [of "i + 35" "i + 31" p] w lane_sha)
qed

end
