(* ===== verification/Asm2_Rounds.thy ===== *)
theory Asm2_Rounds
  imports Asm2_Loops
begin

text \<open>
  The rounds of \<open>reverse_fullyfused_asm_x4_2.c\<close> on one lane. \<open>asm2_cut<n>\<close> lists what the registers and slots hold before
  round \<open>n\<close>, in the names of \<open>Sha_Lanes\<close>.
\<close>

section \<open>Straight-line rounds\<close>

definition asm2_cut15 :: "block \<Rightarrow> (loc \<times> u32) list" where
  "asm2_cut15 p = [
     (Xr 0, SE p 15), (Xr 1, SA p 15), (Xr 4, SW p 0), (Xr 5, SW p 1), (Xr 6, SE p 18), (Xr 7, SA p 17),
     (Xr 8, SA p 16), (Xr 10, SA p 18), (Xr 11, SE p 17), (Xr 12, SE p 16)]"

definition asm2_cut16 :: "block \<Rightarrow> (loc \<times> u32) list" where
  "asm2_cut16 p = [
     (Xr 0, SA p 19), (Xr 4, SW p 0), (Xr 5, SW p 1), (Xr 6, SE p 18), (Xr 7, SA p 17), (Xr 8, SA p 16),
     (Xr 9, SE p 19), (Xr 10, SA p 18), (Xr 11, SE p 17), (Xr 12, SE p 16)]"

definition asm2_cut17 :: "block \<Rightarrow> (loc \<times> u32) list" where
  "asm2_cut17 p = [
     (Xr 0, SA p 19), (Xr 1, SA p 20), (Xr 4, SW p 16), (Xr 5, SW p 1), (Xr 6, SE p 18), (Xr 7, SA p 17),
     (Xr 9, SE p 19), (Xr 10, SA p 18), (Xr 11, SE p 17), (Xr 13, SE p 20)]"

definition asm2_cut18 :: "block \<Rightarrow> (loc \<times> u32) list" where
  "asm2_cut18 p = [
     (Xr 0, SA p 19), (Xr 1, SA p 20), (Xr 2, SA p 21), (Xr 3, SE p 21), (Xr 4, SW p 16), (Xr 6, SE p 18),
     (Xr 9, SE p 19), (Xr 10, SA p 18), (Xr 13, SE p 20), (Xr 15, SW p 17)]"

definition asm2_cut19 :: "block \<Rightarrow> (loc \<times> u32) list" where
  "asm2_cut19 p = [
     (Xr 0, SA p 19), (Xr 1, SA p 20), (Xr 2, SA p 21), (Xr 3, SE p 21), (Xr 4, SW p 16), (Xr 5, sigma1 (SW p 16)),
     (Xr 9, SE p 19), (Xr 11, SA p 22), (Xr 12, SE p 22), (Xr 13, SE p 20), (Xr 15, SW p 17)]"

definition asm2_cut20 :: "block \<Rightarrow> (loc \<times> u32) list" where
  "asm2_cut20 p = [
     (Xr 0, SA p 23), (Xr 1, SA p 20), (Xr 2, SA p 21), (Xr 3, SE p 21), (Xr 4, SW p 16), (Xr 7, SW p 18),
     (Xr 10, SW p 19), (Xr 11, SA p 22), (Xr 12, SE p 22), (Xr 13, SE p 20), (Xr 14, SE p 23), (Sl 1, SW p 17),
     (Sl 2, SW p 19)]"

definition asm2_cut21 :: "block \<Rightarrow> (loc \<times> u32) list" where
  "asm2_cut21 p = [
     (Xr 0, SA p 23), (Xr 1, SA p 24), (Xr 2, SA p 21), (Xr 3, SE p 21), (Xr 4, SW p 16), (Xr 7, SW p 20),
     (Xr 9, SE p 24), (Xr 10, SW p 19), (Xr 11, SA p 22), (Xr 12, SE p 22), (Xr 14, SE p 23), (Sl 1, SW p 17),
     (Sl 2, SW p 19), (Sl 14, SW p 18)]"

definition asm2_cut22 :: "block \<Rightarrow> (loc \<times> u32) list" where
  "asm2_cut22 p = [
     (Xr 0, SA p 23), (Xr 1, SA p 24), (Xr 2, SA p 25), (Xr 3, SE p 25), (Xr 4, SW p 16), (Xr 7, SW p 20),
     (Xr 9, SE p 24), (Xr 10, SW p 21), (Xr 11, SA p 22), (Xr 12, SE p 22), (Xr 14, SE p 23), (Sl 1, SW p 17),
     (Sl 2, SW p 19), (Sl 14, SW p 18)]"

definition asm2_cut23 :: "block \<Rightarrow> (loc \<times> u32) list" where
  "asm2_cut23 p = [
     (Xr 0, SA p 23), (Xr 1, SA p 24), (Xr 2, SA p 25), (Xr 3, SE p 25), (Xr 4, SW p 16), (Xr 9, SE p 24),
     (Xr 10, SW p 21), (Xr 13, SE p 26), (Xr 14, SE p 23), (Xr 15, SA p 26), (Sl 0, sigma1 (SW p 20)),
     (Sl 1, SW p 17), (Sl 2, SW p 19), (Sl 14, SW p 18), (Sl 15, SW p 20)]"

definition asm2_cut24 :: "block \<Rightarrow> (loc \<times> u32) list" where
  "asm2_cut24 p = [
     (Xr 1, SA p 24), (Xr 2, SA p 25), (Xr 3, SE p 25), (Xr 4, SW p 16), (Xr 9, SE p 24), (Xr 10, SW p 23),
     (Xr 11, SA p 27), (Xr 12, SE p 27), (Xr 13, SE p 26), (Xr 15, SA p 26), (Sl 0, sigma1 (SW p 20)),
     (Sl 1, SW p 17), (Sl 2, SW p 19), (Sl 4, SW p 21), (Sl 14, SW p 18), (Sl 15, SW p 20)]"

definition asm2_cut25 :: "block \<Rightarrow> (loc \<times> u32) list" where
  "asm2_cut25 p = [
     (Xr 1, SE p 28), (Xr 2, SA p 25), (Xr 3, SE p 25), (Xr 4, SW p 16), (Xr 9, SA p 28), (Xr 10, SW p 23),
     (Xr 11, SA p 27), (Xr 12, SE p 27), (Xr 13, SE p 26), (Xr 14, SW p 24), (Xr 15, SA p 26), (Sl 0, SW p 22),
     (Sl 2, SW p 19), (Sl 4, SW p 21), (Sl 14, SW p 18), (Sl 15, SW p 20), (Sl 17, SW p 17)]"

definition asm2_cut26 :: "block \<Rightarrow> (loc \<times> u32) list" where
  "asm2_cut26 p = [
     (Xr 1, SE p 28), (Xr 2, SE p 29), (Xr 3, SA p 29), (Xr 4, SW p 16), (Xr 9, SA p 28), (Xr 10, SW p 25),
     (Xr 11, SA p 27), (Xr 12, SE p 27), (Xr 13, SE p 26), (Xr 14, SW p 24), (Xr 15, SA p 26), (Sl 0, SW p 22),
     (Sl 2, SW p 19), (Sl 3, SW p 23), (Sl 4, SW p 21), (Sl 15, SW p 20), (Sl 17, SW p 17), (Sl 18, SW p 18)]"

definition asm2_cut27 :: "block \<Rightarrow> (loc \<times> u32) list" where
  "asm2_cut27 p = [
     (Xr 0, SW p 26), (Xr 1, SE p 28), (Xr 2, SE p 29), (Xr 3, SA p 29), (Xr 4, SW p 16), (Xr 7, SA p 30),
     (Xr 9, SA p 28), (Xr 10, SW p 25), (Xr 11, SA p 27), (Xr 12, SE p 27), (Xr 13, SE p 30), (Sl 0, SW p 22),
     (Sl 1, SW p 24), (Sl 3, SW p 23), (Sl 4, SW p 21), (Sl 15, SW p 20), (Sl 17, SW p 17), (Sl 18, SW p 18),
     (Sl 19, SW p 19)]"

definition asm2_cut28 :: "block \<Rightarrow> (loc \<times> u32) list" where
  "asm2_cut28 p = [
     (Xr 0, SW p 26), (Xr 1, SE p 28), (Xr 2, SE p 29), (Xr 3, SA p 29), (Xr 4, SW p 16), (Xr 6, SW p 27),
     (Xr 7, SA p 30), (Xr 9, SA p 28), (Xr 12, SE p 31), (Xr 13, SE p 30), (Xr 15, SA p 31), (Sl 0, SW p 22),
     (Sl 1, SW p 24), (Sl 3, SW p 23), (Sl 4, SW p 21), (Sl 17, SW p 17), (Sl 18, SW p 18), (Sl 19, SW p 19),
     (Sl 20, SW p 20), (Sl 21, SW p 21), (Sl 22, SW p 22), (Sl 23, SW p 23), (Sl 24, SW p 24), (Sl 25, SW p 25)]"

definition asm2_cut29 :: "block \<Rightarrow> (loc \<times> u32) list" where
  "asm2_cut29 p = [
     (Xr 0, SW p 28), (Xr 2, SE p 29), (Xr 3, SA p 29), (Xr 4, SW p 16), (Xr 6, SW p 27), (Xr 7, SA p 30),
     (Xr 10, SA p 32), (Xr 11, SE p 32), (Xr 12, SE p 31), (Xr 13, SE p 30), (Xr 15, SA p 31), (Sl 0, SW p 22),
     (Sl 1, SW p 24), (Sl 3, SW p 23), (Sl 17, SW p 17), (Sl 18, SW p 18), (Sl 19, SW p 19), (Sl 20, SW p 20),
     (Sl 21, SW p 21), (Sl 22, SW p 22), (Sl 23, SW p 23), (Sl 24, SW p 24), (Sl 25, SW p 25), (Sl 26, SW p 26),
     (Sl 27, SW p 27)]"

definition asm2_cut30 :: "block \<Rightarrow> (loc \<times> u32) list" where
  "asm2_cut30 p = [
     (Xr 0, SW p 28), (Xr 4, SW p 16), (Xr 6, SE p 33), (Xr 7, SA p 30), (Xr 8, SW p 29), (Xr 10, SA p 32),
     (Xr 11, SE p 32), (Xr 12, SE p 31), (Xr 13, SE p 30), (Xr 14, SA p 33), (Xr 15, SA p 31), (Sl 1, SW p 24),
     (Sl 3, SW p 23), (Sl 17, SW p 17), (Sl 18, SW p 18), (Sl 19, SW p 19), (Sl 20, SW p 20), (Sl 21, SW p 21),
     (Sl 22, SW p 22), (Sl 23, SW p 23), (Sl 24, SW p 24), (Sl 25, SW p 25), (Sl 26, SW p 26), (Sl 27, SW p 27),
     (Sl 28, SW p 28)]"

definition asm2_cut31 :: "block \<Rightarrow> (loc \<times> u32) list" where
  "asm2_cut31 p = [
     (Xr 1, sigma1 (SW p 28) + SW p 23), (Xr 4, SW p 16), (Xr 5, SE p 34), (Xr 6, SE p 33), (Xr 7, SA p 34),
     (Xr 8, SW p 29), (Xr 10, SA p 32), (Xr 11, SE p 32), (Xr 12, SE p 31), (Xr 14, SA p 33), (Xr 15, SA p 31),
     (Sl 1, SW p 24), (Sl 17, SW p 17), (Sl 18, SW p 18), (Sl 19, SW p 19), (Sl 20, SW p 20), (Sl 21, SW p 21),
     (Sl 22, SW p 22), (Sl 23, SW p 23), (Sl 24, SW p 24), (Sl 25, SW p 25), (Sl 26, SW p 26), (Sl 27, SW p 27),
     (Sl 28, SW p 28), (Sl 29, SW p 29)]"

definition asm2_cut32 :: "block \<Rightarrow> (loc \<times> u32) list" where
  "asm2_cut32 p = [
     (Xr 0, SE p 35), (Xr 1, sigma1 (SW p 28) + SW p 23), (Xr 4, SW p 16), (Xr 5, SE p 34), (Xr 6, SE p 33),
     (Xr 7, SA p 34), (Xr 8, SW p 31), (Xr 10, SA p 32), (Xr 11, SE p 32), (Xr 12, SA p 35), (Xr 14, SA p 33),
     (Sl 17, SW p 17), (Sl 18, SW p 18), (Sl 19, SW p 19), (Sl 20, SW p 20), (Sl 21, SW p 21), (Sl 22, SW p 22),
     (Sl 23, SW p 23), (Sl 24, SW p 24), (Sl 25, SW p 25), (Sl 26, SW p 26), (Sl 27, SW p 27), (Sl 28, SW p 28),
     (Sl 29, SW p 29)]"

lemma asm2_round15:
  "g RSP = Ptr Frame 0 \<Longrightarrow> lane_triple (asm2_objects t) g asm2_keep (holds (asm2_cut15 p)) asm2_round15 (holds (asm2_cut16 p))"
  by (rule lane_tripleI; simp add: asm2_round15_def asm2_cut15_def asm2_cut16_def asm2_run;
      simp add: SA_step [of p 15, simplified] SE_step [of p 15, simplified] lane_sha)

lemma asm2_round16:
  "g RSP = Ptr Frame 0 \<Longrightarrow> lane_triple (asm2_objects t) g asm2_keep (holds (asm2_cut16 p)) asm2_round16 (holds (asm2_cut17 p))"
  by (rule lane_tripleI; simp add: asm2_round16_def asm2_cut16_def asm2_cut17_def asm2_run;
      simp add: SA_step [of p 16, simplified] SE_step [of p 16, simplified] SW_entries(1) lane_sha)

lemma asm2_round17:
  "g RSP = Ptr Frame 0 \<Longrightarrow> lane_triple (asm2_objects t) g asm2_keep (holds (asm2_cut17 p)) asm2_round17 (holds (asm2_cut18 p))"
  by (rule lane_tripleI; simp add: asm2_round17_def asm2_cut17_def asm2_cut18_def asm2_run;
      simp add: SA_step [of p 17, simplified] SE_step [of p 17, simplified] SW_entries(2) lane_sha)

lemma asm2_round18:
  "g RSP = Ptr Frame 0 \<Longrightarrow> lane_triple (asm2_objects t) g asm2_keep (holds (asm2_cut18 p)) asm2_round18 (holds (asm2_cut19 p))"
  by (rule lane_tripleI; simp add: asm2_round18_def asm2_cut18_def asm2_cut19_def asm2_run;
      simp add: SA_step [of p 18, simplified] SE_step [of p 18, simplified] SW_entries(3) lane_sha)

lemma asm2_round19:
  "g RSP = Ptr Frame 0 \<Longrightarrow> lane_triple (asm2_objects t) g asm2_keep (holds (asm2_cut19 p)) asm2_round19 (holds (asm2_cut20 p))"
  by (rule lane_tripleI; simp add: asm2_round19_def asm2_cut19_def asm2_cut20_def asm2_run;
      simp add: SA_step [of p 19, simplified] SE_step [of p 19, simplified] SW_18_xor SW_entries(4) lane_sha)

lemma asm2_round20:
  "g RSP = Ptr Frame 0 \<Longrightarrow> lane_triple (asm2_objects t) g asm2_keep (holds (asm2_cut20 p)) asm2_round20 (holds (asm2_cut21 p))"
  by (rule lane_tripleI; simp add: asm2_round20_def asm2_cut20_def asm2_cut21_def asm2_run;
      simp add: SA_step [of p 20, simplified] SE_step [of p 20, simplified] SW_entries(5) lane_sha)

lemma asm2_round21:
  "g RSP = Ptr Frame 0 \<Longrightarrow> lane_triple (asm2_objects t) g asm2_keep (holds (asm2_cut21 p)) asm2_round21 (holds (asm2_cut22 p))"
  by (rule lane_tripleI; simp add: asm2_round21_def asm2_cut21_def asm2_cut22_def asm2_run;
      simp add: SA_step [of p 21, simplified] SE_step [of p 21, simplified] SW_entries(6) lane_sha)

lemma asm2_round22:
  "g RSP = Ptr Frame 0 \<Longrightarrow> lane_triple (asm2_objects t) g asm2_keep (holds (asm2_cut22 p)) asm2_round22 (holds (asm2_cut23 p))"
  by (rule lane_tripleI; simp add: asm2_round22_def asm2_cut22_def asm2_cut23_def asm2_run;
      simp add: SA_step [of p 22, simplified] SE_step [of p 22, simplified] SW_entries(7) lane_sha)

lemma asm2_round23:
  "g RSP = Ptr Frame 0 \<Longrightarrow> lane_triple (asm2_objects t) g asm2_keep (holds (asm2_cut23 p)) asm2_round23 (holds (asm2_cut24 p))"
  by (rule lane_tripleI; simp add: asm2_round23_def asm2_cut23_def asm2_cut24_def asm2_run;
      simp add: SA_step [of p 23, simplified] SE_step [of p 23, simplified] SW_entries(8) lane_sha)

lemma asm2_round24:
  "g RSP = Ptr Frame 0 \<Longrightarrow> lane_triple (asm2_objects t) g asm2_keep (holds (asm2_cut24 p)) asm2_round24 (holds (asm2_cut25 p))"
  by (rule lane_tripleI; simp add: asm2_round24_def asm2_cut24_def asm2_cut25_def asm2_run;
      simp add: SA_step [of p 24, simplified] SE_step [of p 24, simplified] SW_entries(7) SW_entries(9) lane_sha)

lemma asm2_round25:
  "g RSP = Ptr Frame 0 \<Longrightarrow> lane_triple (asm2_objects t) g asm2_keep (holds (asm2_cut25 p)) asm2_round25 (holds (asm2_cut26 p))"
  by (rule lane_tripleI; simp add: asm2_round25_def asm2_cut25_def asm2_cut26_def asm2_run;
      simp add: SA_step [of p 25, simplified] SE_step [of p 25, simplified] SW_entries(10) lane_sha)

lemma asm2_round26:
  "g RSP = Ptr Frame 0 \<Longrightarrow> lane_triple (asm2_objects t) g asm2_keep (holds (asm2_cut26 p)) asm2_round26 (holds (asm2_cut27 p))"
  by (rule lane_tripleI; simp add: asm2_round26_def asm2_cut26_def asm2_cut27_def asm2_run;
      simp add: SA_step [of p 26, simplified] SE_step [of p 26, simplified] SW_entries(11) lane_sha)

lemma asm2_round27:
  "g RSP = Ptr Frame 0 \<Longrightarrow> lane_triple (asm2_objects t) g asm2_keep (holds (asm2_cut27 p)) asm2_round27 (holds (asm2_cut28 p))"
  by (rule lane_tripleI; simp add: asm2_round27_def asm2_cut27_def asm2_cut28_def asm2_run;
      simp add: SA_step [of p 27, simplified] SE_step [of p 27, simplified] SW_entries(12) lane_sha)

lemma asm2_round28:
  "g RSP = Ptr Frame 0 \<Longrightarrow> lane_triple (asm2_objects t) g asm2_keep (holds (asm2_cut28 p)) asm2_round28 (holds (asm2_cut29 p))"
  by (rule lane_tripleI; simp add: asm2_round28_def asm2_cut28_def asm2_cut29_def asm2_run;
      simp add: SA_step [of p 28, simplified] SE_step [of p 28, simplified] SW_entries(13) lane_sha)

lemma asm2_round29:
  "g RSP = Ptr Frame 0 \<Longrightarrow> lane_triple (asm2_objects t) g asm2_keep (holds (asm2_cut29 p)) asm2_round29 (holds (asm2_cut30 p))"
  by (rule lane_tripleI; simp add: asm2_round29_def asm2_cut29_def asm2_cut30_def asm2_run;
      simp add: SA_step [of p 29, simplified] SE_step [of p 29, simplified] SW_entries(14) lane_sha)

lemma asm2_round30:
  "g RSP = Ptr Frame 0 \<Longrightarrow> lane_triple (asm2_objects t) g asm2_keep (holds (asm2_cut30 p)) asm2_round30 (holds (asm2_cut31 p))"
  by (rule lane_tripleI; simp add: asm2_round30_def asm2_cut30_def asm2_cut31_def asm2_run;
      simp add: SA_step [of p 30, simplified] SE_step [of p 30, simplified] SW_entries(15) lane_sha)

lemma asm2_round31:
  "g RSP = Ptr Frame 0 \<Longrightarrow> lane_triple (asm2_objects t) g asm2_keep (holds (asm2_cut31 p)) asm2_round31 (holds (asm2_cut32 p))"
  by (rule lane_tripleI; simp add: asm2_round31_def asm2_cut31_def asm2_cut32_def asm2_run;
      simp add: SA_step [of p 31, simplified] SE_step [of p 31, simplified] SW_entries(16) lane_sha)

end
