(* ===== verification/Asm2_Search.thy ===== *)
theory Asm2_Search
  imports Asm2_Rounds Asm_Search
begin

text \<open>
  The search of \<open>reverse_fullyfused_asm_x4_2.c\<close>: its blocks, one pass of the outer loop, and the whole call.
\<close>

section \<open>The blocks\<close>

lemma asm2_at:
  "asm2 1 = (asm2_words @ asm2_round0 @ asm2_round12 @ [gp (mov32_imm RDX 3), vmovdqa 1 (X 13), vmovdqa 0 (X 9)], Jmp 2)"
  "asm2 2 = (asm2_zero_round @ [gp (inc RDX), gp (cmp_imm RDX 15)], Jcc Jne 2 3)"
  "asm2 4 = (asm2_round_step @ [gp (add_imm RDX 4), vmovdqa 2 (X 15), gp (cmp_imm RDX 100)], Jcc Jne 4 5)"
  "asm2 5 = (asm2_early, Jcc Je 10 6)"
  "asm2 6 = (asm2_late_start, Jmp 7)"
  "asm2 7 = (asm2_late_step @ [gp (add_imm RDX 4), gp (cmp_imm RDX 132)], Jcc Jne 7 8)"
  "asm2 8 = (asm2_compare @ [vmovmskps RDX 0, gp (test32 RDX RDX)], Jcc Je 10 9)"
  "asm2 9 = (asm2_found, Jmp 11)"
  "asm2 10 = (asm2_next, Jcc Ja 11 1)"
  "asm2 11 = (asm2_guard, Jcc Jne 13 12)"
  "asm2 12 = (asm2_leave, Ret)"
  by (simp_all add: asm2_def asm2_blocks_def)

lemmas asm2_go = goI [where p = asm2]

text \<open>
  The frame: the target in the slots 5 to 12, the value of the early exit in 13, the numbers of the group in 64
  and 65, the stack protector's value in the upper half of 69; the caller's registers above it.
\<close>

definition asm2_target :: "u8 list \<Rightarrow> (loc \<times> u32) list" where
  "asm2_target t = [(Sl 5, load32 t 7), (Sl 6, load32 t 6), (Sl 7, load32 t 5), (Sl 8, load32 t 4), (Sl 9, load32 t 3),
     (Sl 10, load32 t 2), (Sl 11, load32 t 1), (Sl 12, load32 t 0), (Sl 13, target_d60 t)]"

definition asm2_frame :: "u64 \<Rightarrow> u8 list \<Rightarrow> nat \<Rightarrow> cpu \<Rightarrow> u64 list \<Rightarrow> cpu \<Rightarrow> bool" where
  "asm2_frame stop target sp c data s \<longleftrightarrow>
     reg s RSP = Ptr Frame 0 \<and> reg s RCX = Ptr Ktab 0 \<and> reg s RSI = Num stop \<and> reg s RAX = Num 0 \<and>
     reg s RBP = Ptr Saved (sp - 8) \<and> saved s ((sp - 8) div 8) = reg c RBP \<and> saved s ((sp - 16) div 8) = reg c R14 \<and>
     saved s ((sp - 24) div 8) = reg c RBX \<and> (\<forall>l<4. holds (asm2_target target) (view l s)) \<and> counters 64 data s \<and>
     view 2 s (Sl 69) = lo32 (fs40 s) \<and> view 3 s (Sl 69) = hi32 (fs40 s)"

lemma asm2_frame_untouched:
  assumes "asm2_frame stop target sp c data s" "untouched RDX asm2_keep s s'"
  shows "asm2_frame stop target sp c data s'"
  using assms by (simp add: asm2_frame_def untouched_def counters_def asm2_target_def asm2_keep_def)

text \<open>The words of a group, in the registers \<open>xmm4\<close> and \<open>xmm5\<close>.\<close>

lemma asm2_words_exec:
  assumes "asm2_frame stop target sp c data s" "length data = 4"
  shows "\<exists>s'. exec (asm2_objects target) asm2_words s = Some s' \<and> untouched RDX asm2_keep s s' \<and> reg s' = reg s \<and>
    (\<forall>l<4. holds [(Xr 4, SW (group_block data l) 0), (Xr 5, SW (group_block data l) 1)] (view l s'))"
proof -
  have "counters 64 data s" "reg s RSP = Ptr Frame 0" using assms(1) by (simp_all add: asm2_frame_def)
  moreover have "load16 (asm2_objects target) s Words 0 = Some (M128 0x00010203 0x04050607 0x08090a0b 0x0c0d0e0f)"
    by (simp add: load16_def load4_def asm2_WORDS_def)
  ultimately show ?thesis
    using load_counters [of 64 data s "asm2_objects target"] interleave_group [OF assms(2) refl refl]
    by (simp add: asm2_words_def at_addr_def slot_ok_def view_set_xmm words_mask)
qed

lemma asm2_block1:
  assumes "asm2_frame stop target sp c data s" "length data = 4"
  shows "\<exists>s'. go (asm2_objects target) asm2 (At 1, s) (At 2, s') \<and> asm2_frame stop target sp c data s' \<and>
    reg s' RDX = Num 3 \<and> (\<forall>l<4. holds (asm2_cut_zero (group_block data l) 3) (view l s'))"
proof -
  let ?ob = "asm2_objects target"
  let ?b = "group_block data"
  obtain s1 where s1: "exec ?ob asm2_words s = Some s1" "untouched RDX asm2_keep s s1"
      "\<forall>l<4. holds [(Xr 4, SW (?b l) 0), (Xr 5, SW (?b l) 1)] (view l s1)" "reg s1 = reg s"
    using asm2_words_exec [OF assms] by auto
  have sp: "reg s1 RSP = Ptr Frame 0" using assms(1) s1(4) by (simp add: asm2_frame_def)
  obtain s2 where s2: "exec ?ob (asm2_round0 @ asm2_round12) s1 = Some s2" "untouched RDX asm2_keep s1 s2"
      "\<forall>l<4. holds (asm2_cut3 (?b l)) (view l s2)"
    using exec_stretch [where x = RDX, OF lane_triple_append [OF asm2_round0 [where g = "reg s1", OF sp] asm2_round12 [where g = "reg s1", OF sp]]] s1(3) by blast
  obtain s3 where s3: "exec ?ob [gp (mov32_imm RDX 3), vmovdqa 1 (X 13), vmovdqa 0 (X 9)] s2 = Some s3"
      "untouched RDX asm2_keep s2 s3" "reg s3 RDX = Num 3" "\<forall>l<4. holds (asm2_cut_zero (?b l) 3) (view l s3)"
    using s2(3) by (simp add: asm2_cut3_def asm2_cut_zero_def view_set_xmm)
  have "exec ?ob (asm2_words @ asm2_round0 @ asm2_round12 @ [gp (mov32_imm RDX 3), vmovdqa 1 (X 13), vmovdqa 0 (X 9)]) s = Some s3"
    using s1(1) s2(1) s3(1) exec_then by (metis append.assoc)
  from asm2_go [OF asm2_at(1) this] show ?thesis
    using s3(3,4) asm2_frame_untouched [OF assms(1) untouched_trans [OF s1(2) untouched_trans [OF s2(2) s3(2)]]] by auto
qed

text \<open>The loop of the padding's rounds.\<close>

lemma asm2_block2:
  assumes "asm2_frame stop target sp c data s" "reg s RDX = Num (of_nat n)" "3 \<le> n" "n < 15"
    and "\<forall>l<4. holds (asm2_cut_zero (group_block data l) n) (view l s)"
  shows "\<exists>s'. go (asm2_objects target) asm2 (At 2, s) (At (if n + 1 = 15 then 3 else 2), s') \<and>
    asm2_frame stop target sp c data s' \<and> reg s' RDX = Num (of_nat (n + 1)) \<and>
    (\<forall>l<4. holds (asm2_cut_zero (group_block data l) (n + 1)) (view l s'))"
proof -
  let ?ob = "asm2_objects target"
  have regs: "reg s RSP = Ptr Frame 0" "reg s RCX = Ptr Ktab 0" using assms(1) by (simp_all add: asm2_frame_def)
  obtain s1 where s1: "exec ?ob asm2_zero_round s = Some s1" "untouched RDX asm2_keep s s1" "reg s1 = reg s"
      "\<forall>l<4. holds (asm2_cut_zero (group_block data l) (n + 1)) (view l s1)"
    using exec_stretch [where x = RDX, OF asm2_zero_round [where g = "reg s", OF regs assms(2-4)]] assms(5) by blast
  let ?s2 = "s1\<lparr>reg := (reg s1)(RDX := Num (of_nat (n + 1))), flags := Some (n = 14, n < 14)\<rparr>"
  have "of_nat n + 1 = (15 :: u64) \<longleftrightarrow> n = 14" "of_nat n + 1 < (15 :: u64) \<longleftrightarrow> n < 14"
    using u64_index [of "n + 1" 15] assms(4) by (auto simp: ac_simps)
  then have "exec ?ob [gp (inc RDX), gp (cmp_imm RDX 15)] s1 = Some ?s2"
    using assms(2) s1(3) by (simp add: compare_def set_reg_def add.commute)
  then have "exec ?ob (asm2_zero_round @ [gp (inc RDX), gp (cmp_imm RDX 15)]) s = Some ?s2"
    using exec_then [OF s1(1)] by simp
  from asm2_go [OF asm2_at(2) this] show ?thesis
    using s1(4) asm2_frame_untouched [OF assms(1), of ?s2] s1(2)
    by (auto simp: untouched_def)
qed

lemma asm2_loop2:
  assumes "asm2_frame stop target sp c data s" "reg s RDX = Num 3"
    and "\<forall>l<4. holds (asm2_cut_zero (group_block data l) 3) (view l s)"
  shows "\<exists>s'. (go (asm2_objects target) asm2)\<^sup>+\<^sup>+ (At 2, s) (At 3, s') \<and> asm2_frame stop target sp c data s' \<and>
    (\<forall>l<4. holds (asm2_cut15 (group_block data l)) (view l s'))"
proof -
  let ?I = "\<lambda>n s. asm2_frame stop target sp c data s \<and> reg s RDX = Num (of_nat n) \<and>
    (\<forall>l<4. holds (asm2_cut_zero (group_block data l) n) (view l s))"
  have cut: "asm2_cut15 p = asm2_cut_zero p 15" for p by (simp add: asm2_cut15_def asm2_cut_zero_def)
  have step: "\<exists>s'. go (asm2_objects target) asm2 (At 2, s) (At (if n + 1 = 15 then 3 else 2), s') \<and> ?I (n + 1) s'"
    if "3 \<le> n" "n < 15" "?I n s" for n s
  proof -
    have now: "asm2_frame stop target sp c data s" "reg s RDX = Num (of_nat n)"
        "\<forall>l<4. holds (asm2_cut_zero (group_block data l) n) (view l s)"
      using that(3) by simp_all
    show ?thesis by (rule asm2_block2 [OF now(1,2) that(1,2) now(3)])
  qed
  have start: "?I 3 s" using assms by simp
  have "\<exists>s'. (go (asm2_objects target) asm2)\<^sup>+\<^sup>+ (At 2, s) (At 3, s') \<and> ?I 15 s'"
    by (rule go_loop [where I = ?I and a = 3, OF step _ start]) simp_all
  then show ?thesis unfolding cut by blast
qed

section \<open>The schedule\<close>

text \<open>The slots from 17 on hold the message words as far as they are known.\<close>

definition asm2_sched :: "block \<Rightarrow> nat \<Rightarrow> (loc \<Rightarrow> u32) \<Rightarrow> bool" where
  "asm2_sched p i f \<longleftrightarrow> holds (asm2_cut_step p i) f \<and> (\<forall>j. 17 \<le> j \<and> j < i + 32 \<longrightarrow> f (Sl j) = SW p j) \<and>
     (0 < i \<longrightarrow> f (Xr 15) = SW p (i + 30))"

lemma asm2_window:
  assumes "g RSP = Ptr Frame 0"
  shows "lane_triple (asm2_objects t) g asm2_keep (holds (asm2_cut32 p)) asm2_window (asm2_sched p 0)"
proof -
  have slots: "17 \<le> j \<and> j < 32 \<longleftrightarrow> j \<in> {17, 18, 19, 20, 21, 22, 23, 24, 25, 26, 27, 28, 29, 30, 31}" for j :: nat
    by (simp, presburger)
  show ?thesis
    by (rule lane_tripleI; use assms in \<open>simp add: asm2_window_def asm2_cut32_def asm2_sched_def asm2_cut_step_def asm2_run slots\<close>;
      simp add: SW_entries(15) lane_sha)
qed

definition asm2_straight :: "instr list" where
  "asm2_straight = asm2_round15 @ asm2_round16 @ asm2_round17 @ asm2_round18 @ asm2_round19 @ asm2_round20 @
       asm2_round21 @ asm2_round22 @ asm2_round23 @ asm2_round24 @ asm2_round25 @ asm2_round26 @
       asm2_round27 @ asm2_round28 @ asm2_round29 @ asm2_round30 @ asm2_round31 @ asm2_window"

lemma asm2_straight_triple:
  assumes "g RSP = Ptr Frame 0"
  shows "lane_triple (asm2_objects t) g asm2_keep (holds (asm2_cut15 p)) asm2_straight (asm2_sched p 0)"
  unfolding asm2_straight_def
  by (rule lane_triple_append, rule asm2_round15 asm2_round16 asm2_round17 asm2_round18 asm2_round19 asm2_round20
      asm2_round21 asm2_round22 asm2_round23 asm2_round24 asm2_round25 asm2_round26 asm2_round27 asm2_round28
      asm2_round29 asm2_round30 asm2_round31, rule assms)+ (rule asm2_window, rule assms)

lemma asm2_block3:
  assumes "asm2_frame stop target sp c data s" "\<forall>l<4. holds (asm2_cut15 (group_block data l)) (view l s)"
  shows "\<exists>s'. go (asm2_objects target) asm2 (At 3, s) (At 4, s') \<and> asm2_frame stop target sp c data s' \<and>
    reg s' RDX = Num 0 \<and> (\<forall>l<4. asm2_sched (group_block data l) 0 (view l s'))"
proof -
  let ?ob = "asm2_objects target"
  have sp: "reg s RSP = Ptr Frame 0" using assms(1) by (simp add: asm2_frame_def)
  obtain s1 where s1: "exec ?ob asm2_straight s = Some s1" "untouched RDX asm2_keep s s1"
      "\<forall>l<4. asm2_sched (group_block data l) 0 (view l s1)"
    using exec_stretch [where x = RDX, OF asm2_straight_triple [where g = "reg s", OF sp]] assms(2) by blast
  let ?s2 = "set_reg RDX (Num 0) s1"
  have at: "asm2 3 = (asm2_straight @ [gp (mov32_imm RDX 0)], Jmp 4)"
    by (simp add: asm2_def asm2_blocks_def asm2_straight_def)
  have "exec ?ob (asm2_straight @ [gp (mov32_imm RDX 0)]) s = Some ?s2" using exec_then [OF s1(1)] by simp
  from asm2_go [OF at this] show ?thesis
    using s1(3) asm2_frame_untouched [OF assms(1), of ?s2] s1(2) by auto
qed

lemma asm2_cut_step_next:
  "asm2_cut_step p (Suc i) = [(Xr 0, SE p (i + 36)), (Xr 2, SW p (i + 31)), (Xr 4, SW p (i + 17)), (Xr 5, SE p (i + 35)), (Xr 6, SE p (i + 34)),
     (Xr 7, SA p (i + 35)), (Xr 8, SW p (i + 32)), (Xr 10, SA p (i + 33)), (Xr 11, SE p (i + 33)), (Xr 12, SA p (i + 36)),
     (Xr 14, SA p (i + 34)), (Sl (i + 18), SW p (i + 18)), (Sl (i + 26), SW p (i + 26))]"
  by (simp only: asm2_cut_step_def Suc_eq_plus1 add.assoc) simp

lemma asm2_block4:
  assumes "asm2_frame stop target sp c data s" "reg s RDX = Num (of_nat (4 * i))" "i < 25"
    and "\<forall>l<4. asm2_sched (group_block data l) i (view l s)"
  shows "\<exists>s'. go (asm2_objects target) asm2 (At 4, s) (At (if i + 1 = 25 then 5 else 4), s') \<and>
    asm2_frame stop target sp c data s' \<and> reg s' RDX = Num (of_nat (4 * (i + 1))) \<and>
    (\<forall>l<4. asm2_sched (group_block data l) (i + 1) (view l s'))"
proof -
  let ?ob = "asm2_objects target"
  have regs: "reg s RSP = Ptr Frame 0" "reg s RCX = Ptr Ktab 0" using assms(1) by (simp_all add: asm2_frame_def)
  have pre: "holds (asm2_cut_step (group_block data l) i) (view l s)" if "l < 4" for l
    using assms(4) that by (simp add: asm2_sched_def)
  obtain s1 where s1: "exec ?ob asm2_round_step s = Some s1" "untouched RDX (- {i + 32}) s s1" "reg s1 = reg s"
      "\<forall>l<4. holds (asm2_cut_step_post (group_block data l) i) (view l s1)"
    using exec_stretch [where x = RDX, OF asm2_round_step [where g = "reg s", OF regs assms(2,3)] pre] by blast
  let ?s2 = "(set_xmm 2 (xmm s1 15) (set_reg RDX (Num (of_nat (4 * (i + 1)))) s1))\<lparr>flags := Some (i = 24, i < 24)\<rparr>"
  have "of_nat (4 * i) + 4 = (100 :: u64) \<longleftrightarrow> i = 24" "of_nat (4 * i) + 4 < (100 :: u64) \<longleftrightarrow> i < 24"
    using u64_index [of "4 * i + 4" 100] assms(3) by auto
  then have tail: "exec ?ob [gp (add_imm RDX 4), vmovdqa 2 (X 15), gp (cmp_imm RDX 100)] s1 = Some ?s2"
    using assms(2) s1(3) by (simp add: compare_def set_reg_def set_xmm_def algebra_simps)
  have "untouched RDX asm2_keep s ?s2"
    using untouched_mono [OF s1(2), of asm2_keep] assms(3) by (simp add: asm2_keep_def)
  moreover have "asm2_sched (group_block data l) (i + 1) (view l ?s2)" if "l < 4" for l
  proof -
    have post: "holds (asm2_cut_step_post (group_block data l) i) (view l s1)" using s1(4) that by blast
    have slots: "view l s1 (Sl j) = SW (group_block data l) j" if "17 \<le> j" "j < i + 33" for j
      using post s1(2) assms(4) \<open>l < 4\<close> that
      by (cases "j = i + 32") (simp_all add: asm2_cut_step_post_def untouched_def asm2_sched_def)
    show ?thesis
      using post slots by (simp add: asm2_sched_def asm2_cut_step_next asm2_cut_step_post_def view_set_xmm add.commute)
  qed
  ultimately show ?thesis
    using asm2_go [OF asm2_at(3) trans [OF exec_then [OF s1(1)] tail]] asm2_frame_untouched [OF assms(1)] by auto
qed

lemma asm2_loop4:
  assumes "asm2_frame stop target sp c data s" "reg s RDX = Num 0"
    and "\<forall>l<4. asm2_sched (group_block data l) 0 (view l s)"
  shows "\<exists>s'. (go (asm2_objects target) asm2)\<^sup>+\<^sup>+ (At 4, s) (At 5, s') \<and> asm2_frame stop target sp c data s' \<and>
    (\<forall>l<4. asm2_sched (group_block data l) 25 (view l s'))"
proof -
  let ?I = "\<lambda>i s. asm2_frame stop target sp c data s \<and> reg s RDX = Num (of_nat (4 * i)) \<and>
    (\<forall>l<4. asm2_sched (group_block data l) i (view l s))"
  have step: "\<exists>s'. go (asm2_objects target) asm2 (At 4, s) (At (if i + 1 = 25 then 5 else 4), s') \<and> ?I (i + 1) s'"
    if "0 \<le> i" "i < 25" "?I i s" for i s
  proof -
    have now: "asm2_frame stop target sp c data s" "reg s RDX = Num (of_nat (4 * i))"
        "\<forall>l<4. asm2_sched (group_block data l) i (view l s)"
      using that(3) by simp_all
    show ?thesis by (rule asm2_block4 [OF now(1,2) that(2) now(3)])
  qed
  have start: "?I 0 s" using assms by simp
  have "\<exists>s'. (go (asm2_objects target) asm2)\<^sup>+\<^sup>+ (At 4, s) (At 5, s') \<and> ?I 25 s'"
    by (rule go_loop [where I = ?I and a = 0, OF step _ start]) simp_all
  then show ?thesis by blast
qed

section \<open>The early exit\<close>

lemma asm2_block5:
  assumes "asm2_frame stop target sp c data s" "\<forall>l<4. asm2_sched (group_block data l) 25 (view l s)"
  shows "\<exists>s'. go (asm2_objects target) asm2 (At 5, s)
      (At (if \<forall>l<4. SA (group_block data l) 60 \<noteq> target_d60 target then 10 else 6), s') \<and>
    asm2_frame stop target sp c data s' \<and> (\<forall>l<4. asm2_sched (group_block data l) 25 (view l s'))"
proof -
  let ?ob = "asm2_objects target"
  let ?b = "group_block data"
  have sp: "reg s RSP = Ptr Frame 0" and d60: "\<forall>l<4. view l s (Sl 13) = target_d60 target"
    using assms(1) by (simp_all add: asm2_frame_def asm2_target_def)
  let ?Q = "\<lambda>l f. asm2_sched (?b l) 25 f \<and> f (Xr 1) = (if SA (?b l) 60 = target_d60 target then - 1 else 0)"
  let ?P = "\<lambda>l f. asm2_sched (?b l) 25 f \<and> f (Sl 13) = target_d60 target"
  have triple: "lane_triple ?ob (reg s) asm2_keep (?P l)
      [vpcmpeqd 1 12 (M (Mem RSP 208))] (?Q l)" for l
    by (rule lane_tripleI; simp add: sp asm2_run asm2_sched_def asm2_cut_step_def)
  obtain s1 where s1: "exec ?ob [vpcmpeqd 1 12 (M (Mem RSP 208))] s = Some s1" "untouched RDX asm2_keep s s1"
      "\<forall>l<4. ?Q l (view l s1)"
    using exec_stretch [where x = RDX and P = ?P and Q = ?Q, OF triple] assms(2) d60 by blast
  have "xmm s1 1 = vec4 (\<lambda>l. if SA (?b l) 60 = target_d60 target then - 1 else 0)"
    unfolding xmm_vec4 by (rule vec4_cong) (use s1(3) in simp)
  then have "mm_testz (xmm s1 1) (xmm s1 1) \<longleftrightarrow> (\<forall>l<4. SA (?b l) 60 \<noteq> target_d60 target)"
    by (simp add: testz_vec4) blast
  then obtain z where exec: "exec ?ob asm2_early s =
      Some (s1\<lparr>flags := Some (\<forall>l<4. SA (?b l) 60 \<noteq> target_d60 target, z)\<rparr>)" (is "_ = Some ?t")
    using exec_then [OF s1(1), of "[vptest 1 1]"] by (auto simp: asm2_early_def)
  have "leave (Jcc Je 10 6) ?t = At (if \<forall>l<4. SA (?b l) 60 \<noteq> target_d60 target then 10 else 6)" by simp
  moreover have "asm2_frame stop target sp c data ?t"
    by (rule asm2_frame_untouched [OF assms(1)]) (simp add: s1(2))
  moreover have "\<forall>l<4. asm2_sched (?b l) 25 (view l ?t)" using s1(3) by simp
  ultimately show ?thesis by (intro exI conjI, use asm2_go [OF asm2_at(4) exec] in \<open>simp only:\<close>)
qed

section \<open>The last rounds\<close>

definition asm2_late :: "block \<Rightarrow> nat \<Rightarrow> (loc \<Rightarrow> u32) \<Rightarrow> bool" where
  "asm2_late p i f \<longleftrightarrow> holds (asm2_cut_late p i) f \<and> (\<forall>j. 17 \<le> j \<and> j < i + 31 \<longrightarrow> f (Sl j) = SW p j)"

lemma asm2_block6:
  assumes "asm2_frame stop target sp c data s" "\<forall>l<4. asm2_sched (group_block data l) 25 (view l s)"
  shows "\<exists>s'. go (asm2_objects target) asm2 (At 6, s) (At 7, s') \<and> asm2_frame stop target sp c data s' \<and>
    reg s' RDX = Num (of_nat (4 * 26)) \<and> (\<forall>l<4. asm2_late (group_block data l) 26 (view l s'))"
proof -
  let ?ob = "asm2_objects target"
  have sp: "reg s RSP = Ptr Frame 0" using assms(1) by (simp add: asm2_frame_def)
  have slot: "slot_ok ?ob 656" by (simp add: slot_ok_def)
  obtain v where v: "load16 ?ob s Frame 656 = Some v" "\<forall>l<4. lane l v = view l s (Sl 41)"
    using load16_frame [OF slot, of s] by auto
  let ?s' = "set_xmm 1 v (set_reg RDX (Num 104) s)"
  have "load16 ?ob (set_reg RDX (Num 104) s) Frame 656 = load16 ?ob s Frame 656"
    by (simp add: load16_def load4_def set_reg_def split: storage.split)
  then have exec: "exec ?ob asm2_late_start s = Some ?s'" using sp v(1) by (simp add: asm2_late_start_def at_addr_def)
  have "asm2_late (group_block data l) 26 (view l ?s')" if "l < 4" for l
    using assms(2) v(2) that by (simp add: asm2_late_def asm2_sched_def asm2_cut_step_def asm2_cut_late_def view_set_xmm)
  then show ?thesis
    using asm2_go [OF asm2_at(5) exec] asm2_frame_untouched [OF assms(1), of ?s'] by auto
qed

lemma asm2_cut_late_next:
  "asm2_cut_late p (Suc i) = [(Xr 0, SE p (i + 35)), (Xr 1, SW p (i + 16)), (Xr 5, SE p (i + 34)), (Xr 6, SE p (i + 33)),
     (Xr 7, SA p (i + 34)), (Xr 8, SW p (i + 31)), (Xr 10, SA p (i + 32)), (Xr 11, SE p (i + 32)), (Xr 12, SA p (i + 35)),
     (Xr 14, SA p (i + 33)), (Xr 15, SW p (i + 30)), (Sl (i + 17), SW p (i + 17)), (Sl (i + 25), SW p (i + 25))]"
  by (simp only: asm2_cut_late_def Suc_eq_plus1 add.assoc) simp

lemma asm2_block7:
  assumes "asm2_frame stop target sp c data s" "reg s RDX = Num (of_nat (4 * i))" "26 \<le> i" "i < 33"
    and "\<forall>l<4. asm2_late (group_block data l) i (view l s)"
  shows "\<exists>s'. go (asm2_objects target) asm2 (At 7, s) (At (if i + 1 = 33 then 8 else 7), s') \<and>
    asm2_frame stop target sp c data s' \<and> reg s' RDX = Num (of_nat (4 * (i + 1))) \<and>
    (\<forall>l<4. asm2_late (group_block data l) (i + 1) (view l s'))"
proof -
  let ?ob = "asm2_objects target"
  have regs: "reg s RSP = Ptr Frame 0" "reg s RCX = Ptr Ktab 0" using assms(1) by (simp_all add: asm2_frame_def)
  have pre: "holds (asm2_cut_late (group_block data l) i) (view l s)" if "l < 4" for l
    using assms(5) that by (simp add: asm2_late_def)
  obtain s1 where s1: "exec ?ob asm2_late_step s = Some s1" "untouched RDX (- {i + 31}) s s1" "reg s1 = reg s"
      "\<forall>l<4. holds (asm2_cut_late_post (group_block data l) i) (view l s1)"
    using exec_stretch [where x = RDX, OF asm2_late_step [where g = "reg s", OF regs assms(2,4)] pre] by blast
  let ?s2 = "(set_reg RDX (Num (of_nat (4 * (i + 1)))) s1)\<lparr>flags := Some (i = 32, i < 32)\<rparr>"
  have "of_nat (4 * i) + 4 = (132 :: u64) \<longleftrightarrow> i = 32" "of_nat (4 * i) + 4 < (132 :: u64) \<longleftrightarrow> i < 32"
    using u64_index [of "4 * i + 4" 132] assms(4) by auto
  then have tail: "exec ?ob [gp (add_imm RDX 4), gp (cmp_imm RDX 132)] s1 = Some ?s2"
    using assms(2) s1(3) by (simp add: compare_def set_reg_def algebra_simps)
  have "untouched RDX asm2_keep s ?s2"
    using untouched_mono [OF s1(2), of asm2_keep] assms(4) by (simp add: asm2_keep_def)
  moreover have "asm2_late (group_block data l) (i + 1) (view l ?s2)" if "l < 4" for l
  proof -
    have post: "holds (asm2_cut_late_post (group_block data l) i) (view l s1)" using s1(4) that by blast
    have slots: "view l s1 (Sl j) = SW (group_block data l) j" if "17 \<le> j" "j < i + 32" for j
      using post s1(2) assms(5) \<open>l < 4\<close> that
      by (cases "j = i + 31") (simp_all add: asm2_cut_late_post_def untouched_def asm2_late_def)
    show ?thesis
      using post slots by (simp add: asm2_late_def asm2_cut_late_next asm2_cut_late_post_def add.commute)
  qed
  ultimately show ?thesis
    using asm2_go [OF asm2_at(6) trans [OF exec_then [OF s1(1)] tail]] asm2_frame_untouched [OF assms(1)] by auto
qed

lemma asm2_loop7:
  assumes "asm2_frame stop target sp c data s" "reg s RDX = Num (of_nat (4 * 26))"
    and "\<forall>l<4. asm2_late (group_block data l) 26 (view l s)"
  shows "\<exists>s'. (go (asm2_objects target) asm2)\<^sup>+\<^sup>+ (At 7, s) (At 8, s') \<and> asm2_frame stop target sp c data s' \<and>
    (\<forall>l<4. asm2_late (group_block data l) 33 (view l s'))"
proof -
  let ?I = "\<lambda>i s. asm2_frame stop target sp c data s \<and> reg s RDX = Num (of_nat (4 * i)) \<and>
    (\<forall>l<4. asm2_late (group_block data l) i (view l s))"
  have step: "\<exists>s'. go (asm2_objects target) asm2 (At 7, s) (At (if i + 1 = 33 then 8 else 7), s') \<and> ?I (i + 1) s'"
    if "26 \<le> i" "i < 33" "?I i s" for i s
  proof -
    have now: "asm2_frame stop target sp c data s" "reg s RDX = Num (of_nat (4 * i))"
        "\<forall>l<4. asm2_late (group_block data l) i (view l s)"
      using that(3) by simp_all
    show ?thesis by (rule asm2_block7 [OF now(1,2) that(1,2) now(3)])
  qed
  have start: "?I 26 s" using assms by simp
  have "\<exists>s'. (go (asm2_objects target) asm2)\<^sup>+\<^sup>+ (At 7, s) (At 8, s') \<and> ?I 33 s'"
    by (rule go_loop [where I = ?I and a = 26, OF step _ start]) simp_all
  then show ?thesis by blast
qed

section \<open>The comparison\<close>

lemma asm2_compare_triple:
  assumes "g RSP = Ptr Frame 0"
  shows "lane_triple (asm2_objects t) g asm2_keep
    (\<lambda>f. asm2_late (group_block data l) 33 f \<and> holds (asm2_target t) f) asm2_compare
    (\<lambda>f. f (Xr 0) = (if lane_hit data t l then 0x80000000 else 0))"
  by (rule lane_tripleI; use assms in \<open>simp add: asm2_compare_def asm2_late_def asm2_cut_late_def asm2_target_def asm2_run
      and_masks top_mask\<close>) (auto simp: lane_hit_names)

lemma asm2_block8:
  assumes "asm2_frame stop target sp c data s" "\<forall>l<4. asm2_late (group_block data l) 33 (view l s)"
  shows "\<exists>s' bm. go (asm2_objects target) asm2 (At 8, s) (At (if bm = 0 then 10 else 9), s') \<and>
    asm2_frame stop target sp c data s' \<and> reg s' RDX = Num (ucast bm) \<and> bm < 16 \<and>
    hit_lane data target = (if bm \<noteq> 0 then Some (builtin_ctz bm) else None)"
proof -
  let ?ob = "asm2_objects target"
  let ?P = "\<lambda>l f. asm2_late (group_block data l) 33 f \<and> holds (asm2_target target) f"
  let ?Q = "\<lambda>l f. f (Xr 0) = (if lane_hit data target l then 0x80000000 else 0)"
  have sp: "reg s RSP = Ptr Frame 0" and t: "\<forall>l<4. holds (asm2_target target) (view l s)"
    using assms(1) by (simp_all add: asm2_frame_def)
  obtain s1 where s1: "exec ?ob asm2_compare s = Some s1" "untouched RDX asm2_keep s s1" "reg s1 = reg s" "\<forall>l<4. ?Q l (view l s1)"
    using exec_stretch [where x = RDX and P = ?P and Q = ?Q, OF asm2_compare_triple [where g = "reg s", OF sp]] assms(2) t by blast
  define bm where "bm = mm_movemask_ps (xmm s1 0)"
  have mask: "xmm s1 0 = vec4 (\<lambda>l. if lane_hit data target l then 0x80000000 else 0)"
    unfolding xmm_vec4 by (rule vec4_cong) (use s1(4) in simp)
  have low: "lo32 (ucast bm) = bm" by (rule bit_word_eqI) (auto simp: lo32_def bit_simps)
  let ?t = "(set_reg RDX (Num (ucast bm)) s1)\<lparr>flags := Some (bm = 0, False)\<rparr>"
  have exec: "exec ?ob (asm2_compare @ [vmovmskps RDX 0, gp (test32 RDX RDX)]) s = Some ?t"
    unfolding exec_then [OF s1(1)] using low by (simp add: bm_def [symmetric])
  have "leave (Jcc Je 10 9) ?t = At (if bm = 0 then 10 else 9)" by simp
  moreover have "asm2_frame stop target sp c data ?t"
    by (rule asm2_frame_untouched [OF assms(1)]) (simp add: s1(2))
  moreover have "reg ?t RDX = Num (ucast bm)" by simp
  moreover have "bm < 16" by (simp add: bm_def movemask_small)
  moreover have "hit_lane data target = (if bm \<noteq> 0 then Some (builtin_ctz bm) else None)"
    unfolding hit_lane_mask Let_def bm_def mask ..
  ultimately show ?thesis by (intro exI conjI, use asm2_go [OF asm2_at(7) exec] in \<open>simp only:\<close>)
qed

section \<open>Leaving\<close>

definition asm2_exit :: "nat \<Rightarrow> cpu \<Rightarrow> val \<Rightarrow> cpu \<Rightarrow> bool" where
  "asm2_exit sp c v s \<longleftrightarrow>
     reg s RSP = Ptr Frame 0 \<and> reg s RAX = v \<and>
     reg s RBP = Ptr Saved (sp - 8) \<and> saved s ((sp - 8) div 8) = reg c RBP \<and> saved s ((sp - 16) div 8) = reg c R14 \<and>
     saved s ((sp - 24) div 8) = reg c RBX \<and> view 2 s (Sl 69) = lo32 (fs40 s) \<and> view 3 s (Sl 69) = hi32 (fs40 s)"

lemma asm2_block11:
  assumes "asm2_exit sp c v s"
  shows "\<exists>s'. go (asm2_objects t) asm2 (At 11, s) (At 12, s') \<and> asm2_exit sp c v s'"
proof -
  let ?ob = "asm2_objects t"
  let ?s1 = "set_reg RCX (Num (fs40 s)) s"
  let ?t = "?s1\<lparr>flags := Some (True, False)\<rparr>"
  have slot: "slot_ok ?ob 1104" by (simp add: slot_ok_def)
  have "load8 ?ob ?s1 Frame 1112 = Some (fs40 s)"
    using load8_slot(2) [of ?ob 69 ?s1] slot assms by (simp add: asm2_exit_def)
  then have exec: "exec ?ob asm2_guard s = Some ?t"
    using assms by (simp add: asm2_guard_def asm2_exit_def at_addr_def compare_def)
  have "leave (Jcc Jne 13 12) ?t = At 12" by simp
  moreover have "asm2_exit sp c v ?t" using assms by (simp add: asm2_exit_def)
  ultimately show ?thesis by (intro exI conjI, use asm2_go [OF asm2_at(10) exec] in \<open>simp only:\<close>)
qed

lemma asm2_block12:
  assumes "asm2_exit sp c v s" "24 \<le> sp" "8 dvd sp"
  shows "\<exists>s'. go (asm2_objects t) asm2 (At 12, s) (Done, s') \<and> reg s' RAX = v \<and> restored sp c s'"
proof -
  have "\<exists>k. sp = 8 * k + 24" using assms(2,3) by presburger
  then obtain k where k: "sp = 8 * k + 24" ..
  have "exec (asm2_objects t) asm2_leave s = Some (set_reg RBP (reg c RBP) (set_reg RSP (Ptr Saved sp)
      (set_reg R14 (reg c R14) (set_reg RSP (Ptr Saved (sp - 8)) (set_reg RBX (reg c RBX)
        (set_reg RSP (Ptr Saved (sp - 16)) (set_reg RSP (Ptr Saved (sp - 24)) s)))))))" (is "_ = Some ?t")
    using assms(1) by (simp add: asm2_leave_def asm2_exit_def k) (simp add: set_reg_def add.commute)
  then have "go (asm2_objects t) asm2 (At 12, s) (Done, ?t)" using asm2_go [OF asm2_at(11)] by simp
  moreover have "reg ?t RAX = v" "restored sp c ?t" using assms(1) by (simp_all add: restored_def asm2_exit_def)
  ultimately show ?thesis by blast
qed

lemma asm2_block9:
  assumes "asm2_frame stop target sp c data s" "reg s RDX = Num (ucast bm)" "bm \<noteq> 0" "bm < 16"
    and "builtin_ctz bm = l" "l < 4" "length data = 4"
  shows "\<exists>s'. go (asm2_objects target) asm2 (At 9, s) (At 11, s') \<and> asm2_exit sp c (Num (data ! l)) s'"
proof -
  let ?ob = "asm2_objects target"
  have low: "lo32 (ucast (ucast (ucast bm :: u64) :: u8)) = bm"
  proof -
    have "unat bm < 16" using assms(4) by (simp add: word_less_nat_alt)
    then have "unat bm \<in> set [0..<16]" by simp
    then have "of_nat (unat bm) \<in> set (map of_nat [0..<16] :: u32 list)" by (metis image_eqI image_set)
    then show ?thesis by (simp add: upt_rec lo32_def) (elim disjE, simp_all)
  qed
  have sp: "reg s RSP = Ptr Frame 0" and ctr: "counters 64 data s" using assms(1) by (simp_all add: asm2_frame_def)
  let ?s1 = "set_reg RCX (Ptr Frame (1024 + 8 * l)) ((set_reg RAX (Num (of_nat (8 * l))) s)\<lparr>flags := None\<rparr>)"
  have at: "l = 0 \<or> l = 1 \<or> l = 2 \<or> l = 3" using assms(6) by linarith
  have index: "ucast (push_bit 3 (lo32 (ucast (of_nat l :: u32)))) = (of_nat (8 * l) :: u64)" "(of_nat (8 * l) :: u64) < 64"
      "(1024 :: nat) OR unat (of_nat (8 * l) :: u64) = 1024 + 8 * l"
    using at by (elim disjE; simp add: lo32_def)+
  have "load8 ?ob s Frame (1024 + 8 * l) = Some (data ! l)"
    using load_counter [of 64 data s ?ob l] ctr assms(6) by (simp add: slot_ok_def)
  then have "exec ?ob asm2_found s = Some (set_reg RAX (Num (data ! l)) ?s1)"
    using assms(2-6) low sp index by (simp add: asm2_found_def at_addr_def set_reg32_def del: of_nat_mult)
  then have "go ?ob asm2 (At 9, s) (At 11, set_reg RAX (Num (data ! l)) ?s1)" using asm2_go [OF asm2_at(8)] by simp
  moreover have "asm2_exit sp c (Num (data ! l)) (set_reg RAX (Num (data ! l)) ?s1)"
    using assms(1) by (simp add: asm2_exit_def asm2_frame_def)
  ultimately show ?thesis by blast
qed

section \<open>The next group\<close>

lemma asm2_block10:
  assumes "asm2_frame stop target sp c data s" "length data = 4"
  shows "\<exists>s'. go (asm2_objects target) asm2 (At 10, s) (At (if data ! 0 + 4 \<le> stop then 1 else 11), s') \<and>
    asm2_frame stop target sp c (map (\<lambda>x. x + 4) data) s'"
proof -
  let ?ob = "asm2_objects target"
  let ?d = "\<lambda>i. data ! i + 4"
  have regs: "reg s RSP = Ptr Frame 0" "reg s RSI = Num stop" and ctr: "counters 64 data s"
    using assms(1) by (simp_all add: asm2_frame_def)
  let ?s1 = "set_xmm 1 (pair_reg (?d 0) (?d 1)) (set_xmm 0 (pair_reg (?d 2) (?d 3)) (set_xmm 1 (pair_reg 4 4) s))"
  have step: "load8 ?ob s Words 528 = Some 4" by (simp add: load8_def load4_def asm2_WORDS_def join64_def)
  have slots: "slot_ok ?ob 1024" "slot_ok ?ob 1040" by (simp_all add: slot_ok_def)
  have loads: "load16 ?ob s Frame 1024 = Some (pair_reg (data ! 0) (data ! 1))"
      "load16 ?ob s Frame 1040 = Some (pair_reg (data ! 2) (data ! 3))"
    using load_counters [of 64 data s ?ob] ctr slots by simp_all
  obtain s2 m2 where s2: "store16 ?ob Frame 1024 (pair_reg (?d 0) (?d 1)) ?s1 = Some s2" "s2 = ?s1\<lparr>mem := (mem ?s1)(Frame := m2)\<rparr>"
      "\<forall>l<4. view l s2 = (view l ?s1)(Sl 64 := lane l (pair_reg (?d 0) (?d 1)))"
    using store16_lanes [OF slots(1), of "pair_reg (?d 0) (?d 1)" ?s1] by auto
  obtain s3 m3 where s3: "store16 ?ob Frame 1040 (pair_reg (?d 2) (?d 3)) s2 = Some s3" "s3 = s2\<lparr>mem := (mem s2)(Frame := m3)\<rparr>"
      "\<forall>l<4. view l s3 = (view l s2)(Sl 65 := lane l (pair_reg (?d 2) (?d 3)))"
    using store16_lanes [OF slots(2), of "pair_reg (?d 2) (?d 3)" s2] by auto
  let ?t = "(set_reg RDX (Num (?d 0)) s3)\<lparr>flags := Some (?d 0 = stop, ?d 0 < stop)\<rparr>"
  have rest: "reg s3 = reg s" "saved s3 = saved s" "fs40 s3 = fs40 s" "xmm s3 1 = pair_reg (?d 0) (?d 1)" "xmm s3 0 = pair_reg (?d 2) (?d 3)"
      "reg s2 = reg s" "xmm s2 0 = pair_reg (?d 2) (?d 3)"
    using s2(2) s3(2) by simp_all
  have low: "join64 (lane0 (pair_reg a b)) (lane1 (pair_reg a b)) = a" for a b by (simp add: pair_reg_def)
  have exec: "exec ?ob asm2_next s = Some ?t"
    using step loads s2(1) s3(1) rest regs low by (simp add: asm2_next_def at_addr_def pair_reg_def [symmetric] pair_reg_add compare_regs_def compare_def add.commute)
  have "leave (Jcc Ja 11 1) ?t = At (if ?d 0 \<le> stop then 1 else 11)" by auto
  moreover have "asm2_frame stop target sp c (map (\<lambda>x. x + 4) data) ?t"
    using assms rest by (simp add: asm2_frame_def asm2_target_def counters_def s2(3) s3(3) view_set_xmm)
  ultimately show ?thesis by (intro exI conjI, use asm2_go [OF asm2_at(9) exec] in \<open>simp only:\<close>)
qed

section \<open>Entering\<close>

lemma asm2_d63_exec:
  assumes "reg s RDX = Ptr Input 0"
  shows "\<exists>s'. exec (asm2_objects t) asm2_d63 s = Some s' \<and> beside s s' \<and> reg s' RDX = Ptr Input 0 \<and>
    reg s' R8 = Num (ucast (target_d63 t)) \<and> reg s' R14 = Num (ucast (load32 t 5 - load32 t 1)) \<and>
    reg s' R11 = Num (ucast (load32 t 0)) \<and> reg s' RCX = Num (ucast (load32 t 2)) \<and> reg s' RAX = Num (ucast (load32 t 3)) \<and>
    lane0 (xmm s' 0) = load32 t 5 \<and> lane0 (xmm s' 1) = load32 t 1 \<and> lane0 (xmm s' 2) = load32 t 4"
  using assms by (simp add: asm2_d63_def shld_run) (simp add: target_d63_def numeral_2_eq_2 algebra_simps)

lemma asm2_d62_exec:
  assumes "reg s RDX = Ptr Input 0" "reg s R8 = Num (ucast (target_d63 t))" "reg s R14 = Num (ucast (load32 t 5 - load32 t 1))"
    "reg s RCX = Num (ucast (load32 t 2))" "reg s RAX = Num (ucast (load32 t 3))"
  shows "\<exists>s'. exec (asm2_objects t) asm2_d62 s = Some s' \<and> beside s s' \<and> (\<forall>r\<in>{RDX, R8, R11, RAX}. reg s' r = reg s r) \<and>
    reg s' R14 = Num (ucast (target_d62 t)) \<and> reg s' R9 = Num (ucast (load32 t 6 - load32 t 2)) \<and>
    (\<forall>n\<in>{0, 1, 2}. xmm s' n = xmm s n) \<and> lane0 (xmm s' 3) = load32 t 6 \<and> lane0 (xmm s' 4) = load32 t 2"
  using assms by (simp add: asm2_d62_def shld_run) (simp add: target_d62_def algebra_simps)

lemma asm2_d61_exec:
  assumes "reg s RDX = Ptr Input 0" "reg s R8 = Num (ucast (target_d63 t))" "reg s R14 = Num (ucast (target_d62 t))"
    "reg s R9 = Num (ucast (load32 t 6 - load32 t 2))" "reg s RAX = Num (ucast (load32 t 3))"
  shows "\<exists>s'. exec (asm2_objects t) asm2_d61 s = Some s' \<and> beside s s' \<and> (\<forall>r\<in>{R8, R11, R14}. reg s' r = reg s r) \<and>
    reg s' R9 = Num (ucast (target_d61 t)) \<and> reg s' RDX = Num (ucast (load32 t 7 - load32 t 3)) \<and>
    (\<forall>n\<in>{0, 1, 2, 3, 4}. xmm s' n = xmm s n) \<and> lane0 (xmm s' 5) = load32 t 7 \<and> lane0 (xmm s' 6) = load32 t 3"
  using assms by (simp add: asm2_d61_def shld_run) (simp add: target_d61_def algebra_simps)

lemma asm2_d60_exec:
  assumes "reg s R8 = Num (ucast (target_d63 t))" "reg s R14 = Num (ucast (target_d62 t))"
    "reg s R9 = Num (ucast (target_d61 t))" "reg s RDX = Num (ucast (load32 t 7 - load32 t 3))"
  shows "\<exists>s'. exec (asm2_objects t) asm2_d60 s = Some s' \<and> beside s s' \<and> reg s' R11 = reg s R11 \<and>
    reg s' RDX = Num (ucast (target_d60 t)) \<and> xmm s' = xmm s"
  using assms by (simp add: asm2_d60_def shld_run) (simp add: target_d60_names algebra_simps)

lemma asm2_spill_exec:
  assumes "reg s RSP = Ptr Frame 0" "reg s RDI = Num start" "reg s RDX = Num (ucast (target_d60 t))"
    "reg s R11 = Num (ucast (load32 t 0))"
    and "\<forall>(n, i)\<in>{(0, 5), (1, 1), (2, 4), (3, 6), (4, 2), (5, 7), (6, 3)}. lane0 (xmm s n) = load32 t i"
  shows "\<exists>s'. exec (asm2_objects t) asm2_spill s = Some s' \<and> counters 64 [start, start + 1, start + 2, start + 3] s' \<and>
     (\<forall>l<4. holds (asm2_target t) (view l s')) \<and> reg s' RCX = Ptr Ktab 0 \<and> reg s' RAX = Num 0 \<and>
     (\<forall>r. r \<noteq> RAX \<and> r \<noteq> RCX \<and> r \<noteq> RDI \<longrightarrow> reg s' r = reg s r) \<and> saved s' = saved s \<and> fs40 s' = fs40 s \<and>
     (\<forall>l<4. view l s' (Sl 69) = view l s (Sl 69))"
proof -
  have "lanes x ! 0 = lane0 x" for x by (cases x) simp
  then show ?thesis
    using assms
    by (simp add: asm2_spill_def at_addr_def store16_def store4_def set_reg_def set_xmm_def set_reg32_def mm_shuffle_epi32_def)
      (simp add: counters_def all_less_4 asm2_target_def view_def lane_def pair_reg_def)
qed

lemma asm2_enter_exec:
  assumes "24 \<le> sp" "8 dvd sp"
  shows "\<exists>s. exec (asm2_objects t) asm2_enter (call_search start stop sp c) = Some s \<and> reg s RSP = Ptr Frame 0 \<and>
    reg s RDI = Num start \<and> reg s RSI = Num stop \<and> reg s RDX = Ptr Input 0 \<and>
    reg s RBP = Ptr Saved (sp - 8) \<and> saved s ((sp - 8) div 8) = reg c RBP \<and> saved s ((sp - 16) div 8) = reg c R14 \<and>
    saved s ((sp - 24) div 8) = reg c RBX \<and> view 2 s (Sl 69) = lo32 (fs40 s) \<and> view 3 s (Sl 69) = hi32 (fs40 s)"
proof -
  have "\<exists>k. sp = 8 * k + 24" using assms by presburger
  then obtain k where k: "sp = 8 * k + 24" ..
  show ?thesis
    by (simp add: asm2_enter_def call_search_def k at_addr_def store4_def set_reg_def view_def)
qed

lemma asm2_block0:
  assumes "24 \<le> sp" "8 dvd sp"
  shows "\<exists>s. go (asm2_objects target) asm2 (At 0, call_search start stop sp c) (At 1, s) \<and>
    asm2_frame stop target sp c [start, start + 1, start + 2, start + 3] s"
proof -
  let ?ob = "asm2_objects target"
  obtain s0 where s0: "exec ?ob asm2_enter (call_search start stop sp c) = Some s0" "reg s0 RSP = Ptr Frame 0"
    "reg s0 RDI = Num start" "reg s0 RSI = Num stop" "reg s0 RDX = Ptr Input 0" "reg s0 RBP = Ptr Saved (sp - 8)"
    "saved s0 ((sp - 8) div 8) = reg c RBP" "saved s0 ((sp - 16) div 8) = reg c R14" "saved s0 ((sp - 24) div 8) = reg c RBX"
    "view 2 s0 (Sl 69) = lo32 (fs40 s0)" "view 3 s0 (Sl 69) = hi32 (fs40 s0)"
    using asm2_enter_exec [OF assms, of target start stop c] by blast
  obtain s1 where s1: "exec ?ob asm2_d63 s0 = Some s1" "beside s0 s1" "reg s1 RDX = Ptr Input 0"
    "reg s1 R8 = Num (ucast (target_d63 target))" "reg s1 R14 = Num (ucast (load32 target 5 - load32 target 1))"
    "reg s1 R11 = Num (ucast (load32 target 0))" "reg s1 RCX = Num (ucast (load32 target 2))" "reg s1 RAX = Num (ucast (load32 target 3))"
    "lane0 (xmm s1 0) = load32 target 5" "lane0 (xmm s1 1) = load32 target 1" "lane0 (xmm s1 2) = load32 target 4"
    using asm2_d63_exec [OF s0(5)] by blast
  obtain s2 where s2: "exec ?ob asm2_d62 s1 = Some s2" "beside s1 s2" "\<forall>r\<in>{RDX, R8, R11, RAX}. reg s2 r = reg s1 r"
    "reg s2 R14 = Num (ucast (target_d62 target))" "reg s2 R9 = Num (ucast (load32 target 6 - load32 target 2))"
    "\<forall>n\<in>{0, 1, 2}. xmm s2 n = xmm s1 n" "lane0 (xmm s2 3) = load32 target 6" "lane0 (xmm s2 4) = load32 target 2"
    using asm2_d62_exec [OF s1(3,4,5,7,8)] by blast
  obtain s3 where s3: "exec ?ob asm2_d61 s2 = Some s3" "beside s2 s3" "\<forall>r\<in>{R8, R11, R14}. reg s3 r = reg s2 r"
    "reg s3 R9 = Num (ucast (target_d61 target))" "reg s3 RDX = Num (ucast (load32 target 7 - load32 target 3))"
    "\<forall>n\<in>{0, 1, 2, 3, 4}. xmm s3 n = xmm s2 n" "lane0 (xmm s3 5) = load32 target 7" "lane0 (xmm s3 6) = load32 target 3"
    using asm2_d61_exec [of s2 target] s1(3,4,8) s2(3,4,5) by auto
  obtain s4 where s4: "exec ?ob asm2_d60 s3 = Some s4" "beside s3 s4" "reg s4 R11 = reg s3 R11"
    "reg s4 RDX = Num (ucast (target_d60 target))" "xmm s4 = xmm s3"
    using asm2_d60_exec [of s3 target] s1(4) s2(3,4) s3(3,4,5) by auto
  have rest: "beside s0 s4" using s1(2) s2(2) s3(2) s4(2) by (simp add: beside_def)
  obtain s5 where s5: "exec ?ob asm2_spill s4 = Some s5" "counters 64 [start, start + 1, start + 2, start + 3] s5"
    "\<forall>l<4. holds (asm2_target target) (view l s5)" "reg s5 RCX = Ptr Ktab 0" "reg s5 RAX = Num 0"
    "\<forall>r. r \<noteq> RAX \<and> r \<noteq> RCX \<and> r \<noteq> RDI \<longrightarrow> reg s5 r = reg s4 r" "saved s5 = saved s4" "fs40 s5 = fs40 s4"
    "\<forall>l<4. view l s5 (Sl 69) = view l s4 (Sl 69)"
    using asm2_spill_exec [of s4 start target] rest s0(2,3) s1(6,9-11) s2(3,6-8) s3(3,6-8) s4(3-5)
    by (auto simp: beside_def)
  have at: "asm2 0 = (asm2_enter @ asm2_d63 @ asm2_d62 @ asm2_d61 @ asm2_d60 @ asm2_spill, Jmp 1)"
    by (simp add: asm2_def asm2_blocks_def)
  have "exec ?ob (asm2_enter @ asm2_d63 @ asm2_d62 @ asm2_d61 @ asm2_d60 @ asm2_spill) (call_search start stop sp c) = Some s5"
    by (simp add: exec_append s0(1) s1(1) s2(1) s3(1) s4(1) s5(1))
  moreover have "view l s5 (Sl 69) = view l s0 (Sl 69)" if "l < 4" for l
    using s5(9) rest that by (simp add: beside_def view_def)
  then have "asm2_frame stop target sp c [start, start + 1, start + 2, start + 3] s5"
    using s0(2,4,6-11) s5(2-8) rest by (simp add: asm2_frame_def beside_def)
  ultimately show ?thesis using asm2_go [OF at] by auto
qed

section \<open>The search\<close>

lemma asm2_group:
  assumes "asm2_frame stop target sp c data s" "length data = 4"
  shows "\<exists>s'. (go (asm2_objects target) asm2)\<^sup>+\<^sup>+ (At 1, s) (At (if hit_lane data target = None then 10 else 9), s') \<and>
    asm2_frame stop target sp c data s' \<and>
    (\<forall>l. hit_lane data target = Some l \<longrightarrow> (\<exists>bm. reg s' RDX = Num (ucast bm) \<and> bm \<noteq> 0 \<and> bm < 16 \<and> builtin_ctz bm = l))"
proof -
  let ?go = "go (asm2_objects target) asm2"
  let ?frame = "asm2_frame stop target sp c data"
  let ?b = "group_block data"
  obtain s1 where s1: "?go (At 1, s) (At 2, s1)" "?frame s1" "reg s1 RDX = Num 3" "\<forall>l<4. holds (asm2_cut_zero (?b l) 3) (view l s1)"
    using asm2_block1 [OF assms] by blast
  obtain s2 where s2: "?go\<^sup>+\<^sup>+ (At 2, s1) (At 3, s2)" "?frame s2" "\<forall>l<4. holds (asm2_cut15 (?b l)) (view l s2)"
    using asm2_loop2 [OF s1(2-4)] by blast
  obtain s3 where s3: "?go (At 3, s2) (At 4, s3)" "?frame s3" "reg s3 RDX = Num 0" "\<forall>l<4. asm2_sched (?b l) 0 (view l s3)"
    using asm2_block3 [OF s2(2,3)] by blast
  obtain s4 where s4: "?go\<^sup>+\<^sup>+ (At 4, s3) (At 5, s4)" "?frame s4" "\<forall>l<4. asm2_sched (?b l) 25 (view l s4)"
    using asm2_loop4 [OF s3(2-4)] by blast
  obtain s5 where s5: "?go (At 5, s4) (At (if \<forall>l<4. SA (?b l) 60 \<noteq> target_d60 target then 10 else 6), s5)" "?frame s5"
      "\<forall>l<4. asm2_sched (?b l) 25 (view l s5)"
    using asm2_block5 [OF s4(2,3)] by (elim exE conjE) (rule that)
  have early: "?go\<^sup>+\<^sup>+ (At 1, s) (At (if \<forall>l<4. SA (?b l) 60 \<noteq> target_d60 target then 10 else 6), s5)"
    using s1(1) s2(1) s3(1) s4(1) s5(1) by (meson tranclp_trans tranclp.r_into_trancl)
  show ?thesis
  proof (cases "\<forall>l<4. SA (?b l) 60 \<noteq> target_d60 target")
    case True
    then have "hit_lane data target = None" unfolding hit_lane_None using lane_hit_d60 by blast
    then show ?thesis using early True s5(2) by auto
  next
    case False
    obtain s6 where s6: "?go (At 6, s5) (At 7, s6)" "?frame s6" "reg s6 RDX = Num (of_nat (4 * 26))" "\<forall>l<4. asm2_late (?b l) 26 (view l s6)"
      using asm2_block6 [OF s5(2,3)] by blast
    obtain s7 where s7: "?go\<^sup>+\<^sup>+ (At 7, s6) (At 8, s7)" "?frame s7" "\<forall>l<4. asm2_late (?b l) 33 (view l s7)"
      using asm2_loop7 [OF s6(2-4)] by blast
    obtain s8 bm where s8: "?go (At 8, s7) (At (if bm = 0 then 10 else 9), s8)" "?frame s8" "reg s8 RDX = Num (ucast bm)" "bm < 16"
        "hit_lane data target = (if bm \<noteq> 0 then Some (builtin_ctz bm) else None)"
      using asm2_block8 [OF s7(2,3)] by (elim exE conjE) (rule that)
    have "?go\<^sup>+\<^sup>+ (At 1, s) (At 6, s5)" using early False by simp
    then have "?go\<^sup>+\<^sup>+ (At 1, s) (At (if bm = 0 then 10 else 9), s8)"
      using s6(1) s7(1) s8(1) by (meson tranclp_trans tranclp.r_into_trancl)
    then show ?thesis using s8(2-5) by (cases "bm = 0") auto
  qed
qed

lemma asm2_return:
  assumes "asm2_exit sp c v s" "24 \<le> sp" "8 dvd sp"
  shows "\<exists>s'. (go (asm2_objects t) asm2)\<^sup>+\<^sup>+ (At 11, s) (Done, s') \<and> reg s' RAX = v \<and> restored sp c s'"
  using asm2_block11 [OF assms(1)] asm2_block12 [OF _ assms(2,3)]
  by (meson tranclp.r_into_trancl tranclp_trans)

lemma asm2_passes:
  assumes "asm2_frame stop target sp c data s" "length data = 4" "24 \<le> sp" "8 dvd sp"
  shows "hit_lane data target = Some l \<Longrightarrow>
      \<exists>s'. (go (asm2_objects target) asm2)\<^sup>+\<^sup>+ (At 1, s) (Done, s') \<and> reg s' RAX = Num (data ! l) \<and> restored sp c s'"
    and "hit_lane data target = None \<Longrightarrow> data ! 0 + 4 \<le> stop \<Longrightarrow>
      \<exists>s'. (go (asm2_objects target) asm2)\<^sup>+\<^sup>+ (At 1, s) (At 1, s') \<and> asm2_frame stop target sp c (map (\<lambda>x. x + 4) data) s'"
    and "hit_lane data target = None \<Longrightarrow> \<not> data ! 0 + 4 \<le> stop \<Longrightarrow>
      \<exists>s'. (go (asm2_objects target) asm2)\<^sup>+\<^sup>+ (At 1, s) (Done, s') \<and> reg s' RAX = Num 0 \<and> restored sp c s'"
proof -
  let ?go = "go (asm2_objects target) asm2"
  obtain s1 where s1: "?go\<^sup>+\<^sup>+ (At 1, s) (At (if hit_lane data target = None then 10 else 9), s1)"
      "asm2_frame stop target sp c data s1"
      "\<forall>l. hit_lane data target = Some l \<longrightarrow> (\<exists>bm. reg s1 RDX = Num (ucast bm) \<and> bm \<noteq> 0 \<and> bm < 16 \<and> builtin_ctz bm = l)"
    using asm2_group [OF assms(1,2)] by (elim exE conjE) (rule that)
  show "\<exists>s'. ?go\<^sup>+\<^sup>+ (At 1, s) (Done, s') \<and> reg s' RAX = Num (data ! l) \<and> restored sp c s'" if hit: "hit_lane data target = Some l"
  proof -
    have first: "?go\<^sup>+\<^sup>+ (At 1, s) (At 9, s1)" using s1(1) hit by simp
    obtain bm where "reg s1 RDX = Num (ucast bm)" "bm \<noteq> 0" "bm < 16" "builtin_ctz bm = l" using s1(3) hit by blast
    from asm2_block9 [OF s1(2) this hit_lane_SomeD [OF hit] assms(2)]
    obtain s2 where s2: "?go (At 9, s1) (At 11, s2)" "asm2_exit sp c (Num (data ! l)) s2" by blast
    show ?thesis using asm2_return [OF s2(2) assms(3,4), of target] first s2(1)
      by (meson tranclp.r_into_trancl tranclp_trans)
  qed
  assume none: "hit_lane data target = None"
  obtain s2 where s2: "?go (At 10, s1) (At (if data ! 0 + 4 \<le> stop then 1 else 11), s2)"
      "asm2_frame stop target sp c (map (\<lambda>x. x + 4) data) s2"
    using asm2_block10 [OF s1(2) assms(2)] by (elim exE conjE) (rule that)
  have "?go\<^sup>+\<^sup>+ (At 1, s) (At 10, s1)" using s1(1) none by simp
  from tranclp.trancl_into_trancl [OF this s2(1)]
  have second: "?go\<^sup>+\<^sup>+ (At 1, s) (At (if data ! 0 + 4 \<le> stop then 1 else 11), s2)" .
  show "\<exists>s'. ?go\<^sup>+\<^sup>+ (At 1, s) (At 1, s') \<and> asm2_frame stop target sp c (map (\<lambda>x. x + 4) data) s'" if "data ! 0 + 4 \<le> stop"
    using second s2(2) that by auto
  show "\<exists>s'. ?go\<^sup>+\<^sup>+ (At 1, s) (Done, s') \<and> reg s' RAX = Num 0 \<and> restored sp c s'" if stop: "\<not> data ! 0 + 4 \<le> stop"
  proof -
    have "asm2_exit sp c (Num 0) s2" using s2(2) by (simp add: asm2_frame_def asm2_exit_def)
    moreover have "?go\<^sup>+\<^sup>+ (At 1, s) (At 11, s2)" using second stop by simp
    ultimately show ?thesis using asm2_return [OF _ assms(3,4), of c "Num 0" s2 target] by (meson tranclp_trans)
  qed
qed

text \<open>So it is an instance of the shared contract.\<close>

definition asm2_head :: "u64 \<Rightarrow> u8 list \<Rightarrow> nat \<Rightarrow> cpu \<Rightarrow> u64 list \<Rightarrow> cpu \<Rightarrow> bool" where
  "asm2_head stop target sp c data s \<longleftrightarrow> 24 \<le> sp \<and> 8 dvd sp \<and> asm2_frame stop target sp c data s"

interpretation asm2: four_lane_code "asm2_objects target" asm2 stop target "asm2_head stop target sp c" "restored sp c"
  for target stop sp c
  by unfold_locales (use asm2_passes in \<open>auto simp: asm2_head_def\<close>)

text \<open>
  C12: called with the arguments of the calling convention and 24 bytes of stack below a stack pointer that is a
  multiple of eight, the assembly computes what the search over intrinsics computes: it returns in \<open>RAX\<close> the same
  number, it does not end where that search does not end, it makes no access out of its frame, its
  tables and the target, never reaches the stack protector's failure, and gives back the caller's stack pointer and the
  registers it must save.
\<close>

theorem reverse_fullyfused_asm_2_equiv:
  assumes "24 \<le> sp" "8 dvd sp" "\<forall>d. length (w d) = 48"
  shows "map_option (\<lambda>(pl, s). (pl, reg s RAX, reg s RSP, reg s RBP, reg s RBX, reg s R14))
      (reverse_sha256x4_fullyfused_asm_2 sp c start stop target) =
    map_option (\<lambda>x. (Done, Num x, Ptr Saved sp, reg c RBP, reg c RBX, reg c R14))
      (reverse_sha256x4_fullyfused w start stop target)"
proof -
  let ?data = "[start, start + 1, start + 2, start + 3]"
  obtain s where s: "go (asm2_objects target) asm2 (At 0, call_search start stop sp c) (At 1, s)"
      "asm2_frame stop target sp c ?data s"
    using asm2_block0 [OF assms(1,2)] by blast
  have head: "asm2_head stop target sp c ?data s" using s(2) assms by (simp add: asm2_head_def)
  have run: "reverse_sha256x4_fullyfused_asm_2 sp c start stop target = run (asm2_objects target) asm2 1 s"
    using run_go [where c = "(At 0, call_search start stop sp c)", OF tranclp.r_into_trancl, OF s(1)] by (simp add: reverse_sha256x4_fullyfused_asm_2_def run_def)
  show ?thesis
  proof (cases "rev4_loop w ?data stop target")
    case None
    then show ?thesis using asm2.diverges [OF None assms(3) head] run by (simp add: reverse_sha256x4_fullyfused_def)
  next
    case (Some x)
    then show ?thesis using asm2.returns [OF Some assms(3) head] run
      by (auto simp: reverse_sha256x4_fullyfused_def restored_def)
  qed
qed

theorem reverse_fullyfused_asm_2_equiv_witness:
  "map_option (\<lambda>(pl, s). (pl, reg s RAX, reg s RSP, reg s RBP, reg s RBX, reg s R14))
      (reverse_sha256x4_fullyfused_asm_2 64 idle_cpu 10 20 (replicate 32 3)) =
    map_option (\<lambda>x. (Done, Num x, Ptr Saved 64, Num 7, Num 7, Num 7))
      (reverse_sha256x4_fullyfused (\<lambda>_. replicate 48 (mm_set1_epi32 1)) 10 20 (replicate 32 3))"
  using reverse_fullyfused_asm_2_equiv [of 64 "\<lambda>_. replicate 48 (mm_set1_epi32 1)" idle_cpu 10 20 "replicate 32 3"]
  by (simp add: idle_cpu_def)

end
