(* ===== verification/Asm_X4_Code.thy ===== *)
theory Asm_X4_Code
  imports X86
begin

text \<open>
  \<open>src/sha256/x4/asm_x4.c\<close>, the four-lane hash function written by hand in assembly: its constant tables and its
  instructions, cut into one stretch for each word of the message schedule, and the basic blocks. All local labels
  of the code have the same number, so a jump goes to the nearest one; the blocks number them in order.
\<close>

section \<open>Tables\<close>

definition xasm_k :: "u32 list" where
  "xasm_k = concat [
     [0x428a2f98, 0x71374491, 0xb5c0fbcf, 0xe9b5dba5, 0x3956c25b, 0x59f111f1],
     [0x923f82a4, 0xab1c5ed5, 0xd807aa98, 0x12835b01, 0x243185be, 0x550c7dc3],
     [0x72be5d74, 0x80deb1fe, 0x9bdc06a7, 0xc19bf174, 0xe49b69c1, 0xefbe4786],
     [0x0fc19dc6, 0x240ca1cc, 0x2de92c6f, 0x4a7484aa, 0x5cb0a9dc, 0x76f988da],
     [0x983e5152, 0xa831c66d, 0xb00327c8, 0xbf597fc7, 0xc6e00bf3, 0xd5a79147],
     [0x06ca6351, 0x14292967, 0x27b70a85, 0x2e1b2138, 0x4d2c6dfc, 0x53380d13],
     [0x650a7354, 0x766a0abb, 0x81c2c92e, 0x92722c85, 0xa2bfe8a1, 0xa81a664b],
     [0xc24b8b70, 0xc76c51a3, 0xd192e819, 0xd6990624, 0xf40e3585, 0x106aa070],
     [0x19a4c116, 0x1e376c08, 0x2748774c, 0x34b0bcb5, 0x391c0cb3, 0x4ed8aa4a],
     [0x5b9cca4f, 0x682e6ff3, 0x748f82ee, 0x78a5636f, 0x84c87814, 0x8cc70208],
     [0x90befffa, 0xa4506ceb, 0xbef9a3f7, 0xc67178f2]]"

definition xasm_byteswap_mask :: "u8 list" where
  "xasm_byteswap_mask = [3, 2, 1, 0, 7, 6, 5, 4, 11, 10, 9, 8, 15, 14, 13, 12]"

definition xasm_punpack_mask :: "u8 list" where
  "xasm_punpack_mask = [6, 4, 2, 0, 14, 12, 10, 8, 7, 5, 3, 1, 15, 13, 11, 9]"

definition xasm_x80000000 :: "u32 list" where
  "xasm_x80000000 = [0x80000000, 0x80000000, 0x80000000, 0x80000000]"

definition xasm_d64 :: "u32 list" where
  "xasm_d64 = [64, 64, 64, 64]"

definition xasm_H :: "u32 list" where
  "xasm_H = [0x6a09e667, 0xbb67ae85, 0x3c6ef372, 0xa54ff53a,
    0x510e527f, 0x9b05688c, 0x1f83d9ab, 0x5be0cd19]"

section \<open>Instructions\<close>

definition xasm_enter :: "instr list" where
  "xasm_enter = [
     vzeroupper, gp (sub_imm RSP 1032)]"

definition xasm_words :: "instr list" where
  "xasm_words = [
     vmovdqa 2 (M (Sym Byteswap 0)), vmovdqa 0 (M (Mem RSI 0)), vmovdqa 1 (M (Mem RSI 16)), vpshufb 0 0 (X 2),
     vpshufb 1 1 (X 2), vpunpckldq 2 0 (X 1), vpunpckhdq 1 0 (X 1), vpunpckldq 0 2 (X 1), vpunpckhdq 1 2 (X 1)]"

definition xasm_store01 :: "instr list" where
  "xasm_store01 = [
     vmovdqa_to (Mem RSP 0) 0, vmovdqa_to (Mem RSP 16) 1]"

definition xasm_padding :: "instr list" where
  "xasm_padding = [
     vmovdqa 2 (M (Sym Top_Bit 0)), vmovdqa 3 (M (Sym Sixty_Four 0)), pxor 4 4, vmovdqa_to (Mem RSP 32) 2,
     vmovdqa_to (Mem RSP 48) 4, vmovdqa_to (Mem RSP 64) 4, vmovdqa_to (Mem RSP 80) 4, vmovdqa_to (Mem RSP 96) 4,
     vmovdqa_to (Mem RSP 112) 4, vmovdqa_to (Mem RSP 128) 4, vmovdqa_to (Mem RSP 144) 4, vmovdqa_to (Mem RSP 160) 4,
     vmovdqa_to (Mem RSP 176) 4, vmovdqa_to (Mem RSP 192) 4, vmovdqa_to (Mem RSP 208) 4, vmovdqa_to (Mem RSP 224) 4,
     vmovdqa_to (Mem RSP 240) 3]"

definition xasm_w16 :: "instr list" where
  "xasm_w16 = [
     vpsrld 4 1 18, vpslld 5 1 14, vpor 4 4 (X 5), vpsrld 6 1 7, vpslld 7 1 25, vpor 6 6 (X 7), vpsrld 5 1 3,
     vpxor 4 4 (X 6), vpxor 4 4 (X 5), vpaddd 0 0 (X 4), vmovdqa_to (Mem RSP 256) 0]"

definition xasm_w17 :: "instr list" where
  "xasm_w17 = [
     vpsrld 4 2 18, vpslld 5 2 14, vpor 4 4 (X 5), vpsrld 6 2 7, vpslld 7 2 25, vpor 6 6 (X 7), vpsrld 5 2 3,
     vpxor 4 4 (X 6), vpxor 4 4 (X 5), vpaddd 1 1 (X 4), vpsrld 4 3 19, vpslld 5 3 13, vpor 4 4 (X 5), vpsrld 6 3 17,
     vpslld 7 3 15, vpor 6 6 (X 7), vpsrld 5 3 10, vpxor 4 4 (X 6), vpxor 4 4 (X 5), vpaddd 1 1 (X 4),
     vmovdqa_to (Mem RSP 272) 1]"

definition xasm_w18 :: "instr list" where
  "xasm_w18 = [
     vpsrld 4 0 19, vpslld 5 0 13, vpor 4 4 (X 5), vpsrld 6 0 17, vpslld 7 0 15, vpor 6 6 (X 7), vpsrld 5 0 10,
     vpxor 4 4 (X 6), vpxor 4 4 (X 5), vpaddd 0 4 (X 2), vmovdqa_to (Mem RSP 288) 0]"

definition xasm_w19 :: "instr list" where
  "xasm_w19 = [
     vpsrld 4 1 19, vpslld 5 1 13, vpor 4 4 (X 5), vpsrld 6 1 17, vpslld 7 1 15, vpor 6 6 (X 7), vpsrld 5 1 10,
     vpxor 4 4 (X 6), vpxor 1 4 (X 5), vmovdqa_to (Mem RSP 304) 1]"

definition xasm_w20 :: "instr list" where
  "xasm_w20 = [
     vpsrld 4 0 19, vpslld 5 0 13, vpor 4 4 (X 5), vpsrld 6 0 17, vpslld 7 0 15, vpor 6 6 (X 7), vpsrld 5 0 10,
     vpxor 4 4 (X 6), vpxor 0 4 (X 5), vmovdqa_to (Mem RSP 320) 0]"

definition xasm_w21 :: "instr list" where
  "xasm_w21 = [
     vpsrld 4 1 19, vpslld 5 1 13, vpor 4 4 (X 5), vpsrld 6 1 17, vpslld 7 1 15, vpor 6 6 (X 7), vpsrld 5 1 10,
     vpxor 4 4 (X 6), vpxor 1 4 (X 5), vmovdqa_to (Mem RSP 336) 1]"

definition xasm_w22 :: "instr list" where
  "xasm_w22 = [
     vpsrld 4 0 19, vpslld 5 0 13, vpor 4 4 (X 5), vpsrld 6 0 17, vpslld 7 0 15, vpor 6 6 (X 7), vpsrld 5 0 10,
     vpxor 4 4 (X 6), vpxor 0 4 (X 5), vpaddd 0 0 (X 3), vmovdqa_to (Mem RSP 352) 0]"

definition xasm_w23 :: "instr list" where
  "xasm_w23 = [
     vmovdqa 2 (M (Mem RSP 256)), vmovdqa 4 (M (Mem RSP 272)), vpsrld 5 1 19, vpslld 6 1 13, vpor 5 5 (X 6),
     vpsrld 7 1 17, vpslld 8 1 15, vpor 7 7 (X 8), vpsrld 6 1 10, vpxor 5 5 (X 7), vpxor 5 5 (X 6), vpaddd 1 2 (X 5),
     vmovdqa 2 (M (Mem RSP 288)), vmovdqa_to (Mem RSP 368) 1]"

definition xasm_w24 :: "instr list" where
  "xasm_w24 = [
     vpsrld 5 0 19, vpslld 6 0 13, vpor 5 5 (X 6), vpsrld 7 0 17, vpslld 8 0 15, vpor 7 7 (X 8), vpsrld 6 0 10,
     vpxor 5 5 (X 7), vpxor 5 5 (X 6), vpaddd 0 4 (X 5), vmovdqa 4 (M (Mem RSP 304)), vmovdqa_to (Mem RSP 384) 0]"

definition xasm_w25 :: "instr list" where
  "xasm_w25 = [
     vpsrld 5 1 19, vpslld 6 1 13, vpor 5 5 (X 6), vpsrld 7 1 17, vpslld 8 1 15, vpor 7 7 (X 8), vpsrld 6 1 10,
     vpxor 5 5 (X 7), vpxor 5 5 (X 6), vpaddd 1 2 (X 5), vmovdqa 2 (M (Mem RSP 320)), vmovdqa_to (Mem RSP 400) 1]"

definition xasm_w26 :: "instr list" where
  "xasm_w26 = [
     vpsrld 5 0 19, vpslld 6 0 13, vpor 5 5 (X 6), vpsrld 7 0 17, vpslld 8 0 15, vpor 7 7 (X 8), vpsrld 6 0 10,
     vpxor 5 5 (X 7), vpxor 5 5 (X 6), vpaddd 0 4 (X 5), vmovdqa 4 (M (Mem RSP 336)), vmovdqa_to (Mem RSP 416) 0]"

definition xasm_w27 :: "instr list" where
  "xasm_w27 = [
     vpsrld 5 1 19, vpslld 6 1 13, vpor 5 5 (X 6), vpsrld 7 1 17, vpslld 8 1 15, vpor 7 7 (X 8), vpsrld 6 1 10,
     vpxor 5 5 (X 7), vpxor 5 5 (X 6), vpaddd 1 2 (X 5), vmovdqa 2 (M (Mem RSP 352)), vmovdqa_to (Mem RSP 432) 1]"

definition xasm_w28 :: "instr list" where
  "xasm_w28 = [
     vpsrld 5 0 19, vpslld 6 0 13, vpor 5 5 (X 6), vpsrld 7 0 17, vpslld 8 0 15, vpor 7 7 (X 8), vpsrld 6 0 10,
     vpxor 5 5 (X 7), vpxor 5 5 (X 6), vpaddd 0 4 (X 5), vmovdqa 4 (M (Mem RSP 368)), vmovdqa_to (Mem RSP 448) 0]"

definition xasm_w29 :: "instr list" where
  "xasm_w29 = [
     vpsrld 5 1 19, vpslld 6 1 13, vpor 5 5 (X 6), vpsrld 7 1 17, vpslld 8 1 15, vpor 7 7 (X 8), vpsrld 6 1 10,
     vpxor 5 5 (X 7), vpxor 5 5 (X 6), vpaddd 1 2 (X 5), vmovdqa 2 (M (Mem RSP 384)), vmovdqa_to (Mem RSP 464) 1]"

definition xasm_w30 :: "instr list" where
  "xasm_w30 = [
     vpsrld 5 0 19, vpslld 6 0 13, vpor 5 5 (X 6), vpsrld 7 0 17, vpslld 8 0 15, vpor 7 7 (X 8), vpsrld 6 0 10,
     vpxor 5 5 (X 7), vpxor 5 5 (X 6), vpaddd 0 4 (X 5), vmovdqa 4 (M (Mem RSP 256)), vpsrld 5 3 18, vpslld 6 3 14,
     vpor 5 5 (X 6), vpsrld 7 3 7, vpslld 8 3 25, vpor 7 7 (X 8), vpsrld 6 3 3, vpxor 5 5 (X 7), vpxor 5 5 (X 6),
     vpaddd 0 0 (X 5), vmovdqa_to (Mem RSP 480) 0]"

definition xasm_w31 :: "instr list" where
  "xasm_w31 = [
     vpsrld 5 1 19, vpslld 6 1 13, vpor 5 5 (X 6), vpsrld 7 1 17, vpslld 8 1 15, vpor 7 7 (X 8), vpsrld 6 1 10,
     vpxor 5 5 (X 7), vpxor 5 5 (X 6), vpaddd 1 2 (X 5), vpsrld 5 4 18, vpslld 6 4 14, vpor 5 5 (X 6), vpsrld 7 4 7,
     vpslld 8 4 25, vpor 7 7 (X 8), vpsrld 6 4 3, vpxor 5 5 (X 7), vpxor 5 5 (X 6), vpaddd 3 3 (X 5),
     vpaddd 1 1 (X 3), vmovdqa_to (Mem RSP 496) 1]"

definition xasm_window :: "instr list" where
  "xasm_window = [
     vmovdqa 2 (M (Mem RSP 400)), vmovdqa 3 (M (Mem RSP 272)), gp (lea RAX (Mem RSP 512)),
     gp (lea RCX (Mem RSP 1008))]"

definition xasm_entry :: "instr list" where
  "xasm_entry = [
     vpsrld 5 0 19, vpslld 6 0 13, vpor 5 5 (X 6), vpsrld 7 0 17, vpslld 8 0 15, vpor 7 7 (X 8), vpsrld 6 0 10,
     vpxor 5 5 (X 7), vpxor 0 5 (X 6), vpsrld 5 3 18, vpslld 6 3 14, vpor 5 5 (X 6), vpsrld 7 3 7, vpslld 8 3 25,
     vpor 7 7 (X 8), vpsrld 6 3 3, vpxor 5 5 (X 7), vpxor 5 5 (X 6), vpaddd 4 4 (X 2), vpaddd 0 0 (X 5),
     vpaddd 4 0 (X 4), vmovdqa_to (Mem RAX 0) 4]"

definition xasm_shift :: "instr list" where
  "xasm_shift = [
     gp (add_imm RAX 16), vmovdqa 2 (M (Below RAX 112)), vmovdqa 0 (X 1), vmovdqa 1 (X 4), vmovdqa 4 (X 3),
     vmovdqa 3 (M (Below RAX 240))]"

definition xasm_initial :: "instr list" where
  "xasm_initial = [
     gp (xor64 RAX RAX), gp (lea RCX (Sym Ktab 0)), vbroadcastss 0 (Sym Htab 0), vbroadcastss 1 (Sym Htab 4),
     vbroadcastss 2 (Sym Htab 8), vbroadcastss 3 (Sym Htab 12), vbroadcastss 4 (Sym Htab 16),
     vbroadcastss 5 (Sym Htab 20), vbroadcastss 6 (Sym Htab 24), vbroadcastss 7 (Sym Htab 28)]"

definition xasm_round :: "instr list" where
  "xasm_round = [
     vbroadcastss 8 (MemIx RCX 1 RAX 0), vpaddd 8 8 (M (MemIx RSP 4 RAX 0)), vpsrld 9 0 2, vpslld 10 0 30,
     vpor 9 9 (X 10), vpsrld 11 0 13, vpslld 12 0 19, vpor 11 11 (X 12), vpsrld 10 0 22, vpslld 12 0 10,
     vpor 10 10 (X 12), vpxor 9 9 (X 11), vpxor 9 9 (X 10), vpand 10 0 (X 1), vpand 11 0 (X 2), vpand 12 1 (X 2),
     vpxor 10 10 (X 11), vpxor 10 10 (X 12), vpaddd 9 9 (X 10), vpaddd 8 8 (X 7), vpsrld 10 4 6, vpslld 11 4 26,
     vpor 10 10 (X 11), vpsrld 12 4 11, vpslld 13 4 21, vpor 12 12 (X 13), vpsrld 11 4 25, vpslld 13 4 7,
     vpor 11 11 (X 13), vpxor 10 10 (X 12), vpxor 10 10 (X 11), vpand 11 4 (X 5), vpandn 12 4 (X 6),
     vpxor 11 11 (X 12), vpaddd 8 8 (X 10), vpaddd 8 8 (X 11), vmovdqa 7 (X 6), vmovdqa 6 (X 5), vmovdqa 5 (X 4),
     vpaddd 4 3 (X 8), vmovdqa 3 (X 2), vmovdqa 2 (X 1), vmovdqa 1 (X 0), vpaddd 0 8 (X 9)]"

definition xasm_add_state :: "instr list" where
  "xasm_add_state = [
     vbroadcastss 8 (Sym Htab 0), vbroadcastss 9 (Sym Htab 4), vbroadcastss 10 (Sym Htab 8),
     vbroadcastss 11 (Sym Htab 12), vbroadcastss 12 (Sym Htab 16), vbroadcastss 13 (Sym Htab 20),
     vbroadcastss 14 (Sym Htab 24), vbroadcastss 15 (Sym Htab 28), vpaddd 0 0 (X 8), vpaddd 1 1 (X 9),
     vpaddd 2 2 (X 10), vpaddd 3 3 (X 11), vpaddd 4 4 (X 12), vpaddd 5 5 (X 13), vpaddd 6 6 (X 14),
     vpaddd 7 7 (X 15)]"

definition xasm_unpack :: "instr list" where
  "xasm_unpack = [
     vpunpckldq 8 0 (X 1), vpunpckhdq 9 0 (X 1), vpunpckldq 10 2 (X 3), vpunpckhdq 11 2 (X 3), vpunpcklbw 0 8 (X 10),
     vpunpckhbw 1 8 (X 10), vpunpcklbw 2 9 (X 11), vpunpckhbw 3 9 (X 11), vpunpckldq 8 4 (X 5), vpunpckhdq 9 4 (X 5),
     vpunpckldq 10 6 (X 7), vpunpckhdq 11 6 (X 7), vpunpcklbw 4 8 (X 10), vpunpckhbw 5 8 (X 10),
     vpunpcklbw 6 9 (X 11), vpunpckhbw 7 9 (X 11)]"

definition xasm_shuffle :: "instr list" where
  "xasm_shuffle = [
     vmovdqa 8 (M (Sym Punpack 0)), vpshufb 0 0 (X 8), vpshufb 1 1 (X 8), vpshufb 2 2 (X 8), vpshufb 3 3 (X 8),
     vpshufb 4 4 (X 8), vpshufb 5 5 (X 8), vpshufb 6 6 (X 8), vpshufb 7 7 (X 8)]"

definition xasm_store :: "instr list" where
  "xasm_store = [
     vmovdqa_to (Mem RDI 0) 0, vmovdqa_to (Mem RDI 16) 4, vmovdqa_to (Mem RDI 32) 1, vmovdqa_to (Mem RDI 48) 5,
     vmovdqa_to (Mem RDI 64) 2, vmovdqa_to (Mem RDI 80) 6, vmovdqa_to (Mem RDI 96) 3, vmovdqa_to (Mem RDI 112) 7,
     gp (add_imm RSP 1032)]"

section \<open>Blocks\<close>

definition xasm_blocks :: "(nat \<times> instr list \<times> exit) list" where
  "xasm_blocks = [
     (0, xasm_enter @ xasm_words @ xasm_store01 @ xasm_padding @
       xasm_w16 @ xasm_w17 @ xasm_w18 @ xasm_w19 @ xasm_w20 @ xasm_w21 @ xasm_w22 @ xasm_w23 @
       xasm_w24 @ xasm_w25 @ xasm_w26 @ xasm_w27 @ xasm_w28 @ xasm_w29 @ xasm_w30 @ xasm_w31 @ xasm_window, Jmp 1),
     (1, xasm_entry @ [gp (cmp64 RAX RCX)], Jcc Je 3 2),
     (2, xasm_shift, Jmp 1),
     (3, xasm_initial, Jmp 4),
     (4, xasm_round @ [gp (cmp_imm RAX 252)], Jcc Je 6 5),
     (5, [gp (add_imm RAX 4)], Jmp 4),
     (6, xasm_add_state @ xasm_unpack @ xasm_shuffle @ xasm_store, Ret)]"

definition xasm :: program where
  "xasm l = (case map_of xasm_blocks l of Some b \<Rightarrow> b | None \<Rightarrow> ([], Fail))"

text \<open>
  The objects the code addresses: the 1032 bytes below the stack pointer, the constants, the four messages and the four
  digests. The two masks are arrays of bytes. The code relies on a stack pointer that is eight above a multiple of
  sixteen, and on an input and an output that are aligned to sixteen bytes.
\<close>

definition xasm_objects :: "u8 list \<Rightarrow> object \<Rightarrow> storage" where
  "xasm_objects data r =
     (case r of
        Frame \<Rightarrow> Area 258
      | Ktab \<Rightarrow> Table xasm_k
      | Htab \<Rightarrow> Table xasm_H
      | Byteswap \<Rightarrow> Table (map (load32 xasm_byteswap_mask) [0..<4])
      | Punpack \<Rightarrow> Table (map (load32 xasm_punpack_mask) [0..<4])
      | Top_Bit \<Rightarrow> Table xasm_x80000000
      | Sixty_Four \<Rightarrow> Table xasm_d64
      | Input \<Rightarrow> Table (map (load32 data) [0..<8])
      | Output \<Rightarrow> Area 32
      | _ \<Rightarrow> Area 0)"

definition call_x4 :: "cpu \<Rightarrow> cpu" where
  "call_x4 s = s\<lparr>reg := (reg s)(RDI := Ptr Output 0, RSI := Ptr Input 0, RSP := Ptr Frame 1032)\<rparr>"

definition sha256x4_asm :: "cpu \<Rightarrow> u8 list \<Rightarrow> (place \<times> cpu) option" where
  "sha256x4_asm s data = run (xasm_objects data) xasm 0 (call_x4 s)"

end
