(* ===== verification/Hash_Asm_Code.thy ===== *)
theory Hash_Asm_Code
  imports X86
begin

text \<open>
  \<open>src/sha256/x4/fullyfused_asm_x4.c\<close>, the configured four-lane hash function (\<open>HASH_FUNC_X4\<close>): its constant tables and
  its inline assembly, instruction by instruction, cut into one stretch for each round, and the basic blocks.
\<close>

section \<open>Tables\<close>

definition hasm_k :: "u32 list" where
  "hasm_k = concat [
     [0x428a2f98, 0x71374491, 0xb5c0fbcf, 0xe9b5dba5, 0x3956c25b, 0x59f111f1],
     [0x923f82a4, 0xab1c5ed5, 0xd807aa98, 0x12835b01, 0x243185be, 0x550c7dc3],
     [0x72be5d74, 0x80deb1fe, 0x9bdc06a7, 0xc19bf174, 0xe49b69c1, 0xefbe4786],
     [0x0fc19dc6, 0x240ca1cc, 0x2de92c6f, 0x4a7484aa, 0x5cb0a9dc, 0x76f988da],
     [0x983e5152, 0xa831c66d, 0xb00327c8, 0xbf597fc7, 0xc6e00bf3, 0xd5a79147],
     [0x06ca6351, 0x14292967, 0x27b70a85, 0x2e1b2138, 0x4d2c6dfc, 0x53380d13],
     [0x650a7354, 0x766a0abb, 0x81c2c92e, 0x92722c85, 0xa2bfe8a1, 0xa81a664b],
     [0xc24b8b70, 0xc76c51a3, 0xd192e819, 0xd6990624, 0xf40e3585, 0x106aa070],
     [0x19a4c116, 0x1e376c08, 0x2748774c, 0x34b0bcb5, 0x391c0cb3, 0x4ed8aa4a],
     [0x5b9cca4f, 0x682e6ff3, 0x748f82ee, 0x78a5636f, 0x84c87814, 0x8cc70208],
     [0x90befffa, 0xa4506ceb, 0xbef9a3f7, 0xc67178f2]]"

definition hasm_WORDS :: "u32 list" where
  "hasm_WORDS = [
    0x00010203, 0x04050607, 0x08090a0b, 0x0c0d0e0f,
    0x98c7e2a2, 0x98c7e2a2, 0x98c7e2a2, 0x98c7e2a2,
    0xfc08884d, 0xfc08884d, 0xfc08884d, 0xfc08884d,
    0xd16e48e2, 0xd16e48e2, 0xd16e48e2, 0xd16e48e2,
    0x510e527f, 0x510e527f, 0x510e527f, 0x510e527f,
    0x67381d5d, 0x67381d5d, 0x67381d5d, 0x67381d5d,
    0x9b05688c, 0x9b05688c, 0x9b05688c, 0x9b05688c,
    0xcd2a11ae, 0xcd2a11ae, 0xcd2a11ae, 0xcd2a11ae,
    0xbabcc441, 0xbabcc441, 0xbabcc441, 0xbabcc441,
    0x6a09e667, 0x6a09e667, 0x6a09e667, 0x6a09e667,
    0xb2d5ee51, 0xb2d5ee51, 0xb2d5ee51, 0xb2d5ee51,
    0x8c2e12e0, 0x8c2e12e0, 0x8c2e12e0, 0x8c2e12e0,
    0xd0c6645b, 0xd0c6645b, 0xd0c6645b, 0xd0c6645b,
    0xc19bf1b4, 0xc19bf1b4, 0xc19bf1b4, 0xc19bf1b4,
    0xe49b69c1, 0xe49b69c1, 0xe49b69c1, 0xe49b69c1,
    0x11282000, 0x11282000, 0x11282000, 0x11282000,
    0x00e66786, 0x00e66786, 0x00e66786, 0x00e66786,
    0x80000000, 0x80000000, 0x80000000, 0x80000000,
    0x8fc19dc6, 0x8fc19dc6, 0x8fc19dc6, 0x8fc19dc6,
    0x240ca1cc, 0x240ca1cc, 0x240ca1cc, 0x240ca1cc,
    0x2de92c6f, 0x2de92c6f, 0x2de92c6f, 0x2de92c6f,
    0x4a7484aa, 0x4a7484aa, 0x4a7484aa, 0x4a7484aa,
    0x00000040, 0x00000040, 0x00000040, 0x00000040,
    0x5cb0aa1c, 0x5cb0aa1c, 0x5cb0aa1c, 0x5cb0aa1c,
    0x76f988da, 0x76f988da, 0x76f988da, 0x76f988da,
    0x983e5152, 0x983e5152, 0x983e5152, 0x983e5152,
    0xa831c66d, 0xa831c66d, 0xa831c66d, 0xa831c66d,
    0xb00327c8, 0xb00327c8, 0xb00327c8, 0xb00327c8,
    0xbf597fc7, 0xbf597fc7, 0xbf597fc7, 0xbf597fc7,
    0xc6e00bf3, 0xc6e00bf3, 0xc6e00bf3, 0xc6e00bf3,
    0xd5a79147, 0xd5a79147, 0xd5a79147, 0xd5a79147,
    0x80100008, 0x80100008, 0x80100008, 0x80100008,
    0x86da6359, 0x86da6359, 0x86da6359, 0x86da6359,
    0x14292967, 0x14292967, 0x14292967, 0x14292967,
    0x510e527f, 0x510e527f, 0x510e527f, 0x510e527f,
    0x67381d5d, 0x67381d5d, 0x67381d5d, 0x67381d5d,
    0x6a09e667, 0x6a09e667, 0x6a09e667, 0x6a09e667,
    0xb2d5ee51, 0xb2d5ee51, 0xb2d5ee51, 0xb2d5ee51]"

section \<open>Instructions\<close>

definition hasm_enter :: "instr list" where
  "hasm_enter = [
     gp (sub_imm RSP 888)]"

definition hasm_words :: "instr list" where
  "hasm_words = [
     vmovdqa 0 (M (Mem RSI 0)), vmovdqa 1 (M (Mem RSI 16)), vmovdqa 2 (M (Sym Words 0)), vpshufb 0 0 (X 2),
     vpshufb 1 1 (X 2), vpunpckldq 2 0 (X 1), vpunpckhdq 1 0 (X 1), vpunpckldq 0 2 (X 1), vpunpckhdq 1 2 (X 1)]"

definition hasm_round01 :: "instr list" where
  "hasm_round01 = [
     vpaddd 6 0 (M (Sym Words 16)), vpaddd 3 0 (M (Sym Words 32)), vpsrld 2 3 2, vpslld 4 3 30, vpor 2 4 (X 2),
     vpsrld 4 3 13, vpslld 5 3 19, vpor 4 5 (X 4), vpsrld 5 3 22, vpslld 7 3 10, vpor 5 7 (X 5), vpxor 4 4 (X 5),
     vpand 5 3 (M (Sym Words 48)), vpxor 2 4 (X 2), vpaddd 2 2 (X 5), vpsrld 4 6 6, vpslld 5 6 26, vpor 4 5 (X 4),
     vpsrld 5 6 11, vpslld 7 6 21, vpor 5 7 (X 5), vpsrld 7 6 25, vpslld 8 6 7, vpor 7 8 (X 7), vpxor 5 5 (X 7),
     vpxor 4 5 (X 4), vbroadcastss 8 (Sym Words 544), vpand 5 8 (X 6), vbroadcastss 7 (Sym Words 560),
     vpsubd 7 7 (X 0), vpand 7 7 (M (Sym Words 96)), vpxor 5 5 (X 7), vmovdqa_to (Mem RSP 0) 1, vpaddd 5 1 (X 5),
     vpaddd 4 5 (X 4), vpaddd 5 4 (M (Sym Words 112)), vpaddd 2 4 (X 2), vpaddd 2 2 (M (Sym Words 128))]"

definition hasm_round2 :: "instr list" where
  "hasm_round2 = [
     vpsrld 7 2 2, vpslld 9 2 30, vpor 7 9 (X 7), vpsrld 9 2 13, vpslld 10 2 19, vpor 9 10 (X 9), vpsrld 10 2 22,
     vpslld 11 2 10, vpor 10 11 (X 10), vpxor 9 9 (X 10), vpxor 7 9 (X 7), vpand 10 2 (X 3), vpxor 11 2 (X 3),
     vbroadcastss 9 (Sym Words 576), vpand 11 11 (X 9), vpxor 10 11 (X 10), vpaddd 10 10 (X 7), vpsrld 7 5 6,
     vpslld 11 5 26, vpor 7 11 (X 7), vpsrld 11 5 11, vpslld 12 5 21, vpor 11 12 (X 11), vpsrld 12 5 25,
     vpslld 13 5 7, vpor 12 13 (X 12), vpxor 11 11 (X 12), vpxor 7 11 (X 7), vpand 11 5 (X 6),
     vbroadcastss 12 (Sym Words 592), vpsubd 4 12 (X 4), vpand 4 8 (X 4), vpxor 4 11 (X 4), vpaddd 4 7 (X 4),
     vpaddd 7 4 (M (Sym Words 176)), vpaddd 4 10 (X 4), vpaddd 4 4 (M (Sym Words 192))]"

definition hasm_zero_round :: "instr list" where
  "hasm_zero_round = [
     vmovdqa 10 (X 8), vmovdqa 8 (X 6), vmovdqa 6 (X 5), vmovdqa 5 (X 7), vpsrld 1 7 6, vpslld 7 7 26, vpor 1 7 (X 1),
     vpsrld 7 5 11, vpslld 11 5 21, vpor 7 11 (X 7), vpsrld 11 5 25, vpslld 12 5 7, vpor 11 12 (X 11),
     vpxor 7 11 (X 7), vpxor 1 7 (X 1), vpand 7 5 (X 6), vpandn 11 5 (X 8), vpaddd 10 11 (X 10), vpaddd 7 10 (X 7),
     vpaddd 1 7 (X 1), vbroadcastss 7 (MemIx RAX 4 RCX 0), vpaddd 1 1 (X 7), vpaddd 7 9 (X 1), vmovdqa 9 (X 3),
     vmovdqa 3 (X 2), vmovdqa 2 (X 4), vpsrld 4 4 2, vpslld 10 2 30, vpor 4 10 (X 4), vpsrld 10 2 13, vpslld 11 2 19,
     vpor 10 11 (X 10), vpsrld 11 2 22, vpslld 12 2 10, vpor 11 12 (X 11), vpxor 10 10 (X 11), vpxor 4 10 (X 4),
     vpand 10 2 (X 3), vpxor 11 2 (X 3), vpand 11 11 (X 9), vpxor 10 11 (X 10), vpaddd 4 10 (X 4), vpaddd 4 4 (X 1)]"

definition hasm_round15 :: "instr list" where
  "hasm_round15 = [
     vpsrld 10 4 2, vpslld 11 4 30, vpor 10 11 (X 10), vpsrld 11 4 13, vpslld 12 4 19, vpor 11 12 (X 11),
     vpsrld 12 4 22, vpslld 13 4 10, vpor 12 13 (X 12), vpxor 11 11 (X 12), vpxor 10 11 (X 10), vpand 11 4 (X 2),
     vpxor 12 4 (X 2), vpand 12 12 (X 3), vpxor 11 12 (X 11), vpsrld 12 7 6, vpslld 13 7 26, vpor 12 13 (X 12),
     vpsrld 13 7 11, vpslld 14 7 21, vpor 13 14 (X 13), vpsrld 14 7 25, vpslld 15 7 7, vpor 14 15 (X 14),
     vpxor 13 13 (X 14), vpxor 12 13 (X 12), vpand 13 7 (X 5), vpandn 14 7 (X 6), vpaddd 8 8 (X 14),
     vpaddd 8 8 (X 13), vpaddd 8 8 (X 12), vpaddd 12 8 (M (Sym Words 208)), vpaddd 10 11 (X 10), vpaddd 8 12 (X 9),
     vpaddd 9 10 (X 12), vmovdqa 1 (M (Mem RSP 0))]"

definition hasm_round16 :: "instr list" where
  "hasm_round16 = [
     vpsrld 10 1 18, vpslld 11 1 14, vpor 10 11 (X 10), vpsrld 11 1 3, vpxor 10 10 (X 11), vpsrld 11 1 7,
     vpslld 12 1 25, vpor 11 12 (X 11), vpxor 10 10 (X 11), vpaddd 0 10 (X 0), vpsrld 10 9 2, vpslld 11 9 30,
     vpor 10 11 (X 10), vpsrld 11 9 13, vpslld 12 9 19, vpor 11 12 (X 11), vpsrld 12 9 22, vpslld 13 9 10,
     vpor 12 13 (X 12), vpxor 11 11 (X 12), vpxor 10 11 (X 10), vpand 11 9 (X 4), vpxor 12 9 (X 4), vpand 12 12 (X 2),
     vpxor 11 12 (X 11), vpaddd 11 11 (X 10), vpsrld 10 8 6, vpslld 12 8 26, vpor 10 12 (X 10), vpsrld 12 8 11,
     vpslld 13 8 21, vpor 12 13 (X 12), vpsrld 13 8 25, vpslld 14 8 7, vpor 13 14 (X 13), vpxor 12 12 (X 13),
     vpxor 10 12 (X 10), vpand 12 8 (X 7), vpandn 13 8 (X 5), vpaddd 6 0 (X 6), vpaddd 6 13 (X 6), vpaddd 6 12 (X 6),
     vpaddd 6 10 (X 6), vpaddd 6 6 (M (Sym Words 224)), vpaddd 10 6 (X 3), vpaddd 3 11 (X 6)]"

definition hasm_round17 :: "instr list" where
  "hasm_round17 = [
     vpsrld 6 3 2, vpslld 11 3 30, vpor 6 11 (X 6), vpsrld 11 3 13, vpslld 12 3 19, vpor 11 12 (X 11), vpsrld 12 3 22,
     vpslld 13 3 10, vpor 12 13 (X 12), vpxor 11 11 (X 12), vpxor 6 11 (X 6), vpand 11 9 (X 3), vpxor 12 9 (X 3),
     vpand 12 12 (X 4), vpxor 11 12 (X 11), vpsrld 12 10 6, vpslld 13 10 26, vpor 12 13 (X 12), vpsrld 13 10 11,
     vpslld 14 10 21, vpor 13 14 (X 13), vpsrld 14 10 25, vpslld 15 10 7, vpor 14 15 (X 14), vpxor 13 13 (X 14),
     vpxor 12 13 (X 12), vpand 13 10 (X 8), vpandn 14 10 (X 7), vpaddd 5 1 (X 5), vpaddd 5 14 (X 5),
     vpaddd 5 13 (X 5), vpaddd 5 12 (X 5), vpaddd 5 5 (M (Sym Words 256)), vpaddd 6 11 (X 6), vpaddd 11 5 (X 2),
     vpaddd 6 6 (X 5)]"

definition hasm_round18 :: "instr list" where
  "hasm_round18 = [
     vpsrld 2 0 19, vpslld 5 0 13, vpor 2 5 (X 2), vpsrld 5 0 10, vpxor 2 2 (X 5), vpsrld 5 0 17, vpslld 12 0 15,
     vpor 5 12 (X 5), vpxor 13 2 (X 5), vmovdqa_to (Mem RSP 16) 13, vpsrld 2 6 2, vpslld 5 6 30, vpor 2 5 (X 2),
     vpsrld 5 6 13, vpslld 12 6 19, vpor 5 12 (X 5), vpsrld 12 6 22, vpslld 14 6 10, vpor 12 14 (X 12),
     vpxor 5 12 (X 5), vpxor 5 5 (X 2), vpand 2 6 (X 3), vpxor 12 6 (X 3), vpand 12 12 (X 9), vpxor 12 12 (X 2),
     vpsrld 2 11 6, vpslld 14 11 26, vpor 14 14 (X 2), vpsrld 2 11 11, vpslld 15 11 21, vpor 15 15 (X 2),
     vpsrld 2 11 25, vpslld 1 11 7, vpor 1 1 (X 2), vmovdqa 2 (M (Mem RSP 0)), vpaddd 2 2 (M (Sym Words 240)),
     vpxor 1 15 (X 1), vpxor 1 14 (X 1), vpand 14 11 (X 10), vpandn 15 11 (X 8), vpaddd 7 13 (X 7), vpaddd 7 15 (X 7),
     vpaddd 7 14 (X 7), vpaddd 1 7 (X 1), vpaddd 1 1 (M (Sym Words 288)), vpaddd 5 12 (X 5), vpaddd 12 1 (X 4),
     vpaddd 1 5 (X 1)]"

definition hasm_round19 :: "instr list" where
  "hasm_round19 = [
     vpsrld 4 2 19, vpslld 5 2 13, vpor 4 5 (X 4), vpsrld 5 2 10, vpxor 4 4 (X 5), vpsrld 5 2 17,
     vmovdqa_to (Mem RSP 0) 2, vpslld 7 2 15, vpor 5 7 (X 5), vpxor 13 4 (X 5), vmovdqa_to (Mem RSP 32) 13,
     vpsrld 4 1 2, vpslld 7 1 30, vpor 4 7 (X 4), vpsrld 7 1 13, vpslld 14 1 19, vpor 7 14 (X 7), vpsrld 14 1 22,
     vpslld 15 1 10, vpor 14 15 (X 14), vpxor 7 14 (X 7), vpxor 4 7 (X 4), vpand 7 1 (X 6), vpxor 14 1 (X 6),
     vpand 14 14 (X 3), vpxor 7 14 (X 7), vpsrld 14 12 6, vpslld 15 12 26, vpor 14 15 (X 14), vpsrld 15 12 11,
     vpslld 5 12 21, vpor 5 15 (X 5), vpsrld 15 12 25, vpslld 2 12 7, vpor 2 15 (X 2), vpxor 2 5 (X 2),
     vpxor 2 14 (X 2), vpandn 5 12 (X 10), vpaddd 8 13 (X 8), vpaddd 5 8 (X 5), vmovdqa 13 (M (Mem RSP 16)),
     vpxor 8 13 (M (Sym Words 272)), vpand 14 12 (X 11), vpaddd 5 14 (X 5), vpaddd 2 5 (X 2),
     vpaddd 2 2 (M (Sym Words 304)), vpaddd 4 7 (X 4), vpaddd 9 9 (X 2), vpaddd 7 4 (X 2)]"

definition hasm_round20 :: "instr list" where
  "hasm_round20 = [
     vpslld 2 13 13, vmovdqa_to (Mem RSP 96) 8, vpsrld 4 8 19, vpor 2 2 (X 4), vpsrld 4 8 10, vpxor 2 2 (X 4),
     vpslld 4 13 15, vpsrld 5 8 17, vpor 4 4 (X 5), vpxor 4 2 (X 4), vmovdqa_to (Mem RSP 64) 4, vpsrld 2 7 2,
     vpslld 5 7 30, vpor 2 5 (X 2), vpsrld 5 7 13, vpslld 13 7 19, vpor 5 13 (X 5), vpsrld 13 7 22, vpslld 14 7 10,
     vpor 13 14 (X 13), vpxor 5 13 (X 5), vpxor 2 5 (X 2), vpand 5 7 (X 1), vpxor 13 7 (X 1), vpand 13 13 (X 6),
     vpxor 5 13 (X 5), vpaddd 2 5 (X 2), vpsrld 5 9 6, vpslld 13 9 26, vpor 5 13 (X 5), vpsrld 13 9 11,
     vpslld 14 9 21, vpor 13 14 (X 13), vpsrld 14 9 25, vpslld 15 9 7, vpor 14 15 (X 14), vpxor 13 13 (X 14),
     vpxor 5 13 (X 5), vpandn 13 9 (X 11), vpaddd 10 10 (X 4), vpaddd 10 10 (X 13), vpand 13 9 (X 12),
     vpaddd 10 10 (X 13), vpaddd 5 10 (X 5), vpaddd 5 5 (M (Sym Words 320)), vpaddd 14 5 (X 3), vpaddd 10 2 (X 5)]"

definition hasm_round21 :: "instr list" where
  "hasm_round21 = [
     vmovdqa 5 (M (Mem RSP 32)), vpsrld 2 5 19, vpslld 3 5 13, vpor 2 3 (X 2), vpsrld 3 5 10, vpxor 2 2 (X 3),
     vpsrld 3 5 17, vpslld 5 5 15, vpor 3 5 (X 3), vpxor 4 2 (X 3), vmovdqa_to (Mem RSP 16) 4, vpsrld 2 10 2,
     vpslld 3 10 30, vpor 2 3 (X 2), vpsrld 3 10 13, vpslld 5 10 19, vpor 3 5 (X 3), vpsrld 5 10 22, vpslld 13 10 10,
     vpor 5 13 (X 5), vpxor 3 3 (X 5), vpxor 2 3 (X 2), vpxor 3 10 (X 7), vpand 3 3 (X 1), vpand 5 10 (X 7),
     vpxor 3 3 (X 5), vpsrld 5 14 6, vpslld 13 14 26, vpor 5 13 (X 5), vpsrld 13 14 11, vpslld 15 14 21,
     vpor 13 15 (X 13), vpsrld 15 14 25, vpslld 8 14 7, vpor 8 8 (X 15), vpxor 8 13 (X 8), vpxor 5 8 (X 5),
     vpaddd 8 11 (X 4), vpandn 11 14 (X 12), vpaddd 8 8 (X 11), vpand 11 14 (X 9), vpaddd 8 8 (X 11),
     vpaddd 5 8 (X 5), vpaddd 5 5 (M (Sym Words 336)), vpaddd 2 3 (X 2), vpaddd 15 5 (X 6), vpaddd 11 2 (X 5)]"

definition hasm_round22 :: "instr list" where
  "hasm_round22 = [
     vmovdqa 4 (M (Mem RSP 64)), vpsrld 2 4 19, vpslld 3 4 13, vpor 2 3 (X 2), vpsrld 3 4 10, vpxor 2 2 (X 3),
     vpsrld 3 4 17, vpslld 5 4 15, vpor 3 5 (X 3), vpxor 3 2 (X 3), vpsrld 2 11 2, vpslld 5 11 30, vpor 2 5 (X 2),
     vpsrld 5 11 13, vpslld 6 11 19, vpor 5 6 (X 5), vpsrld 6 11 22, vpslld 8 11 10, vpor 6 8 (X 6), vpxor 5 5 (X 6),
     vpxor 2 5 (X 2), vpxor 5 11 (X 10), vpand 5 5 (X 7), vpand 6 11 (X 10), vpxor 5 5 (X 6), vpaddd 2 5 (X 2),
     vpsrld 5 15 6, vpslld 6 15 26, vpor 5 6 (X 5), vpsrld 6 15 11, vpslld 8 15 21, vpor 6 8 (X 6), vpsrld 8 15 25,
     vpslld 13 15 7, vpor 8 13 (X 8), vpxor 6 8 (X 6), vpxor 5 6 (X 5), vpaddd 6 12 (X 3), vpandn 8 15 (X 9),
     vpaddd 6 8 (X 6), vpand 8 15 (X 14), vpaddd 6 8 (X 6), vpaddd 5 6 (X 5), vpaddd 5 5 (M (Sym Words 368)),
     vpaddd 1 5 (X 1), vpaddd 12 2 (X 5)]"

definition hasm_round23 :: "instr list" where
  "hasm_round23 = [
     vmovdqa 4 (M (Mem RSP 16)), vpsrld 2 4 19, vpslld 5 4 13, vpor 2 5 (X 2), vpsrld 5 4 10, vpxor 2 2 (X 5),
     vpsrld 5 4 17, vpslld 6 4 15, vpor 5 6 (X 5), vpxor 2 2 (X 5), vpsrld 5 12 2, vpslld 6 12 30, vpor 5 6 (X 5),
     vpsrld 6 12 13, vpslld 8 12 19, vpor 6 8 (X 6), vpsrld 8 12 22, vpslld 13 12 10, vpor 8 13 (X 8),
     vpxor 6 8 (X 6), vpxor 5 6 (X 5), vpxor 6 12 (X 11), vpand 6 10 (X 6), vpand 8 12 (X 11), vpxor 6 8 (X 6),
     vpaddd 5 6 (X 5), vpsrld 6 1 6, vpslld 8 1 26, vpor 6 8 (X 6), vpsrld 8 1 11, vpslld 13 1 21, vpor 8 13 (X 8),
     vpsrld 13 1 25, vpslld 4 1 7, vpor 4 13 (X 4), vpxor 4 8 (X 4), vpxor 4 4 (X 6), vpaddd 2 2 (X 0),
     vmovdqa_to (Mem RSP 48) 2, vpaddd 2 9 (X 2), vpandn 8 1 (X 14), vpaddd 2 8 (X 2), vpand 8 15 (X 1),
     vpaddd 2 8 (X 2), vpaddd 2 2 (X 4), vpaddd 2 2 (M (Sym Words 384)), vpaddd 13 2 (X 7), vpaddd 9 5 (X 2)]"

definition hasm_round24 :: "instr list" where
  "hasm_round24 = [
     vpaddd 4 3 (M (Sym Words 352)), vmovdqa_to (Mem RSP 80) 4, vpsrld 2 4 19, vpslld 3 4 13, vpor 2 3 (X 2),
     vpsrld 3 4 10, vpxor 2 2 (X 3), vpsrld 3 4 17, vpslld 4 4 15, vpor 3 4 (X 3), vpxor 2 2 (X 3),
     vmovdqa_to (Mem RSP 112) 0, vmovdqa 3 (M (Mem RSP 0)), vmovdqa_to (Mem RSP 128) 3, vpaddd 7 2 (X 3),
     vmovdqa_to (Mem RSP 0) 7, vpsrld 2 9 2, vpslld 3 9 30, vpor 2 3 (X 2), vpsrld 3 9 13, vpslld 4 9 19,
     vpor 3 4 (X 3), vpsrld 4 9 22, vpslld 5 9 10, vpor 4 5 (X 4), vpxor 3 3 (X 4), vpxor 2 3 (X 2), vpxor 3 9 (X 12),
     vpand 3 11 (X 3), vpand 4 9 (X 12), vpxor 3 3 (X 4), vpsrld 4 13 6, vpslld 5 13 26, vpor 4 5 (X 4),
     vpsrld 5 13 11, vpslld 8 13 21, vpor 5 8 (X 5), vpsrld 8 13 25, vpslld 6 13 7, vpor 6 8 (X 6), vpxor 5 5 (X 6),
     vpxor 4 5 (X 4), vpaddd 5 14 (X 7), vpandn 6 13 (X 15), vpaddd 5 5 (X 6), vpand 6 13 (X 1), vpaddd 5 5 (X 6),
     vpaddd 4 5 (X 4), vpaddd 4 4 (M (Sym Words 400)), vpaddd 2 3 (X 2), vpaddd 14 10 (X 4), vpaddd 10 2 (X 4)]"

definition hasm_round25 :: "instr list" where
  "hasm_round25 = [
     vmovdqa 4 (M (Mem RSP 48)), vpsrld 2 4 19, vpslld 3 4 13, vpor 2 3 (X 2), vpsrld 3 4 10, vpxor 2 2 (X 3),
     vpsrld 3 4 17, vpslld 4 4 15, vpor 3 4 (X 3), vpxor 2 2 (X 3), vmovdqa 3 (M (Mem RSP 96)),
     vmovdqa_to (Mem RSP 144) 3, vpaddd 8 2 (X 3), vpsrld 2 10 2, vpslld 3 10 30, vpor 2 3 (X 2), vpsrld 3 10 13,
     vpslld 4 10 19, vpor 3 4 (X 3), vpsrld 4 10 22, vpslld 5 10 10, vpor 4 5 (X 4), vpxor 3 3 (X 4), vpxor 2 3 (X 2),
     vpxor 3 10 (X 9), vpand 3 12 (X 3), vpand 4 10 (X 9), vpxor 3 3 (X 4), vpsrld 4 14 6, vpslld 5 14 26,
     vpor 4 5 (X 4), vpsrld 5 14 11, vpslld 6 14 21, vpor 5 6 (X 5), vpsrld 6 14 25, vpslld 7 14 7, vpor 6 7 (X 6),
     vpxor 5 5 (X 6), vpxor 4 5 (X 4), vpaddd 5 8 (X 15), vpandn 6 14 (X 1), vpaddd 5 5 (X 6), vpand 6 14 (X 13),
     vpaddd 5 5 (X 6), vpaddd 4 5 (X 4), vpaddd 4 4 (M (Sym Words 416)), vpaddd 2 3 (X 2), vpaddd 15 11 (X 4),
     vpaddd 11 2 (X 4)]"

definition hasm_round26 :: "instr list" where
  "hasm_round26 = [
     vmovdqa 4 (M (Mem RSP 0)), vpsrld 2 4 19, vpslld 3 4 13, vpor 2 3 (X 2), vpsrld 3 4 10, vpxor 2 2 (X 3),
     vpsrld 3 4 17, vpslld 4 4 15, vpor 3 4 (X 3), vpxor 2 2 (X 3), vmovdqa 3 (M (Mem RSP 32)),
     vmovdqa_to (Mem RSP 160) 3, vpaddd 5 2 (X 3), vpsrld 2 11 2, vpslld 3 11 30, vpor 2 3 (X 2), vpsrld 3 11 13,
     vpslld 4 11 19, vpor 3 4 (X 3), vpsrld 4 11 22, vpslld 6 11 10, vpor 4 6 (X 4), vpxor 3 3 (X 4), vpxor 2 3 (X 2),
     vmovdqa_to (Mem RSP 32) 2, vpxor 3 11 (X 10), vpand 3 9 (X 3), vpand 4 11 (X 10), vpxor 3 3 (X 4), vpsrld 4 15 6,
     vpslld 6 15 26, vpor 4 6 (X 4), vpsrld 6 15 11, vpslld 7 15 21, vpor 6 7 (X 6), vpsrld 7 15 25, vpslld 2 15 7,
     vpor 2 2 (X 7), vpxor 2 6 (X 2), vpxor 2 2 (X 4), vpaddd 1 5 (X 1), vpandn 4 15 (X 13), vpaddd 1 1 (X 4),
     vpand 4 15 (X 14), vpaddd 1 1 (X 4), vpaddd 1 1 (X 2), vpaddd 1 1 (M (Sym Words 432)),
     vpaddd 3 3 (M (Mem RSP 32)), vpaddd 2 12 (X 1), vpaddd 12 3 (X 1)]"

definition hasm_round27 :: "instr list" where
  "hasm_round27 = [
     vpsrld 1 8 19, vpslld 3 8 13, vpor 1 3 (X 1), vpsrld 3 8 10, vpxor 1 1 (X 3), vmovdqa 6 (M (Mem RSP 64)),
     vmovdqa_to (Mem RSP 176) 6, vmovaps 3 (M (Mem RSP 16)), vmovaps_to (Mem RSP 192) 3, vmovaps 3 (M (Mem RSP 80)),
     vmovaps_to (Mem RSP 208) 3, vmovaps 3 (M (Mem RSP 48)), vmovaps_to (Mem RSP 224) 3, vmovaps 3 (M (Mem RSP 0)),
     vmovaps_to (Mem RSP 240) 3, vmovdqa_to (Mem RSP 256) 8, vpsrld 3 8 17, vpslld 4 8 15, vpor 3 4 (X 3),
     vpxor 1 1 (X 3), vpaddd 4 1 (X 6), vpsrld 1 12 2, vpslld 3 12 30, vpor 1 3 (X 1), vpsrld 3 12 13, vpslld 6 12 19,
     vpor 3 6 (X 3), vpsrld 6 12 22, vpslld 7 12 10, vpor 6 7 (X 6), vpxor 3 3 (X 6), vpxor 1 3 (X 1),
     vpxor 3 12 (X 11), vpand 3 10 (X 3), vpand 6 12 (X 11), vpxor 3 3 (X 6), vpaddd 1 3 (X 1), vpsrld 3 2 6,
     vpslld 6 2 26, vpor 3 6 (X 3), vpsrld 6 2 11, vpslld 7 2 21, vpor 6 7 (X 6), vpsrld 7 2 25, vpslld 8 2 7,
     vpor 7 8 (X 7), vpxor 6 6 (X 7), vpxor 3 6 (X 3), vpaddd 6 13 (X 4), vpandn 7 2 (X 14), vpaddd 6 6 (X 7),
     vpand 7 15 (X 2), vpaddd 6 6 (X 7), vpaddd 3 6 (X 3), vpaddd 3 3 (M (Sym Words 448)), vpaddd 13 9 (X 3),
     vpaddd 9 1 (X 3)]"

definition hasm_round28 :: "instr list" where
  "hasm_round28 = [
     vpsrld 1 5 19, vpslld 3 5 13, vpor 1 3 (X 1), vpsrld 3 5 10, vpxor 1 1 (X 3), vmovdqa_to (Mem RSP 272) 5,
     vpsrld 3 5 17, vpslld 5 5 15, vpor 3 5 (X 3), vpxor 1 1 (X 3), vpaddd 1 1 (M (Mem RSP 16)), vpsrld 3 9 2,
     vpslld 5 9 30, vpor 3 5 (X 3), vpsrld 5 9 13, vpslld 6 9 19, vpor 5 6 (X 5), vpsrld 6 9 22, vpslld 7 9 10,
     vpor 6 7 (X 6), vpxor 5 5 (X 6), vpxor 3 5 (X 3), vpxor 5 9 (X 12), vpand 5 11 (X 5), vpand 6 9 (X 12),
     vpxor 5 5 (X 6), vpaddd 5 5 (X 3), vpsrld 3 13 6, vpslld 6 13 26, vpor 3 6 (X 3), vpsrld 6 13 11, vpslld 7 13 21,
     vpor 6 7 (X 6), vpsrld 7 13 25, vpslld 8 13 7, vpor 7 8 (X 7), vpxor 6 6 (X 7), vpxor 3 6 (X 3),
     vpaddd 6 14 (X 1), vpandn 7 13 (X 15), vpaddd 6 6 (X 7), vpand 7 13 (X 2), vpaddd 6 6 (X 7), vpaddd 3 6 (X 3),
     vpaddd 6 3 (M (Sym Words 464)), vpaddd 3 10 (X 6), vpaddd 8 5 (X 6)]"

definition hasm_round29 :: "instr list" where
  "hasm_round29 = [
     vpsrld 5 4 19, vpslld 6 4 13, vpor 5 6 (X 5), vpsrld 6 4 10, vpxor 5 5 (X 6), vmovdqa_to (Mem RSP 288) 4,
     vpsrld 6 4 17, vpslld 4 4 15, vpor 4 4 (X 6), vpxor 4 5 (X 4), vpaddd 10 4 (M (Mem RSP 80)), vpsrld 4 8 2,
     vpslld 5 8 30, vpor 4 5 (X 4), vpsrld 5 8 13, vpslld 6 8 19, vpor 5 6 (X 5), vpsrld 6 8 22, vpslld 7 8 10,
     vpor 6 7 (X 6), vpxor 5 5 (X 6), vpxor 4 5 (X 4), vpxor 5 8 (X 9), vpand 5 12 (X 5), vpand 6 8 (X 9),
     vpxor 5 5 (X 6), vpaddd 5 5 (X 4), vpsrld 4 3 6, vpslld 6 3 26, vpor 4 6 (X 4), vpsrld 6 3 11, vpslld 7 3 21,
     vpor 6 7 (X 6), vpsrld 7 3 25, vpslld 14 3 7, vpor 7 14 (X 7), vpxor 6 6 (X 7), vpxor 4 6 (X 4),
     vpaddd 6 10 (X 15), vpandn 7 3 (X 2), vpaddd 6 6 (X 7), vpand 7 13 (X 3), vpaddd 6 6 (X 7),
     vmovdqa_to (Mem RSP 304) 1, vpaddd 4 6 (X 4), vpaddd 6 4 (M (Sym Words 480)), vpaddd 4 11 (X 6),
     vpaddd 5 5 (X 6)]"

definition hasm_round30 :: "instr list" where
  "hasm_round30 = [
     vpsrld 6 1 19, vpslld 7 1 13, vpor 6 7 (X 6), vpsrld 7 1 10, vpxor 6 6 (X 7), vpsrld 7 1 17, vpslld 1 1 15,
     vpor 1 1 (X 7), vpxor 1 6 (X 1), vpaddd 11 1 (M (Mem RSP 48)), vpsrld 1 5 2, vpslld 6 5 30, vpor 1 6 (X 1),
     vpsrld 6 5 13, vpslld 7 5 19, vpor 6 7 (X 6), vpsrld 7 5 22, vpslld 14 5 10, vpor 7 14 (X 7), vpxor 6 6 (X 7),
     vpxor 1 6 (X 1), vpand 6 8 (X 5), vpxor 7 8 (X 5), vpand 7 9 (X 7), vpxor 6 7 (X 6), vpaddd 1 6 (X 1),
     vpsrld 6 4 6, vpslld 7 4 26, vpor 6 7 (X 6), vpsrld 7 4 11, vpslld 14 4 21, vpor 7 14 (X 7), vpsrld 14 4 25,
     vpslld 15 4 7, vpor 14 15 (X 14), vpxor 7 14 (X 7), vmovdqa_to (Mem RSP 320) 10, vpxor 6 7 (X 6),
     vpandn 7 4 (X 13), vpaddd 2 11 (X 2), vpaddd 2 2 (X 7), vpand 7 4 (X 3), vpaddd 2 2 (X 7), vpaddd 2 2 (X 6),
     vpaddd 2 2 (M (Sym Words 512)), vpaddd 6 12 (X 2), vpaddd 7 1 (X 2)]"

definition hasm_round31 :: "instr list" where
  "hasm_round31 = [
     vpsrld 1 10 19, vpslld 2 10 13, vpor 1 2 (X 1), vpsrld 2 10 10, vpxor 1 1 (X 2), vpsrld 2 10 17, vpslld 10 10 15,
     vpor 2 10 (X 2), vpxor 1 1 (X 2), vpsrld 2 0 18, vpslld 10 0 14, vpor 2 10 (X 2), vpsrld 10 0 3,
     vpxor 2 10 (X 2), vpsrld 10 0 7, vpslld 12 0 25, vpor 10 12 (X 10), vpxor 2 10 (X 2), vpaddd 2 2 (M (Mem RSP 0)),
     vpaddd 2 2 (M (Sym Words 352)), vpaddd 1 2 (X 1), vpsrld 2 7 2, vpslld 10 7 30, vpor 2 10 (X 2), vpsrld 10 7 13,
     vpslld 12 7 19, vpor 10 12 (X 10), vpsrld 12 7 22, vpslld 14 7 10, vpor 12 14 (X 12), vpxor 10 10 (X 12),
     vpxor 2 10 (X 2), vpand 10 7 (X 5), vpxor 12 7 (X 5), vpand 12 12 (X 8), vpxor 10 12 (X 10), vpaddd 2 10 (X 2),
     vpsrld 10 6 6, vpslld 12 6 26, vpor 10 12 (X 10), vpsrld 12 6 11, vpslld 14 6 21, vpor 12 14 (X 12),
     vpsrld 14 6 25, vpslld 15 6 7, vpor 14 15 (X 14), vpxor 12 12 (X 14), vpxor 12 12 (X 10), vpandn 10 6 (X 3),
     vpaddd 13 13 (X 1), vpaddd 10 13 (X 10), vpand 13 6 (X 4), vpaddd 13 10 (X 13), vpaddd 10 11 (M (Sym Words 496)),
     vpaddd 11 13 (X 12), vpaddd 12 11 (M (Sym Words 528)), vpaddd 11 12 (X 9), vpaddd 2 12 (X 2)]"

definition hasm_window :: "instr list" where
  "hasm_window = [
     vmovdqa_to (Mem RSP 336) 10, vmovdqa_to (Mem RSP 352) 1]"

definition hasm_round_step :: "instr list" where
  "hasm_round_step = [
     vmovdqa 9 (X 3), vmovdqa 3 (X 4), vmovdqa 4 (X 6), vmovdqa 6 (X 11), vpsrld 11 10 19, vpslld 12 10 13,
     vpor 11 12 (X 11), vpsrld 12 10 10, vpxor 11 11 (X 12), vpsrld 12 10 17, vpslld 10 10 15, vpor 10 10 (X 12),
     vpxor 10 11 (X 10), vpaddd 10 10 (X 0), vmovdqa 0 (M (MemIx RSP 4 RCX 128)), vpsrld 11 0 18, vpslld 12 0 14,
     vpor 11 12 (X 11), vpsrld 12 0 3, vpxor 12 11 (X 12), vpsrld 11 0 7, vpslld 13 0 25, vpor 13 13 (X 11),
     vpaddd 11 10 (M (MemIx RSP 4 RCX 256)), vpxor 12 12 (X 13), vmovdqa 10 (X 1), vpaddd 1 11 (X 12), vpsrld 11 6 6,
     vpslld 12 6 26, vpor 11 12 (X 11), vpsrld 12 6 11, vpslld 13 6 21, vpor 12 13 (X 12), vpsrld 13 6 25,
     vpslld 14 6 7, vpor 13 14 (X 13), vpxor 12 12 (X 13), vpxor 11 12 (X 11), vpand 12 6 (X 4), vpandn 13 6 (X 3),
     vpaddd 9 13 (X 9), vpaddd 9 9 (X 12), vpaddd 9 9 (X 11), vbroadcastss 11 (MemIx RCX 1 RAX 128),
     vpaddd 9 9 (X 11), vpaddd 9 9 (X 1), vpaddd 11 9 (X 8), vmovdqa 8 (X 5), vmovdqa 5 (X 7), vmovdqa 7 (X 2),
     vmovdqa_to (MemIx RSP 4 RCX 368) 1, vpsrld 2 2 2, vpslld 12 7 30, vpor 2 12 (X 2), vpsrld 12 7 13,
     vpslld 13 7 19, vpor 12 13 (X 12), vpsrld 13 7 22, vpslld 14 7 10, vpor 13 14 (X 13), vpxor 12 12 (X 13),
     vpxor 2 12 (X 2), vpand 12 7 (X 5), vpxor 13 7 (X 5), vpand 13 13 (X 8), vpxor 12 13 (X 12), vpaddd 2 12 (X 2),
     vpaddd 2 9 (X 2)]"

definition hasm_transpose :: "instr list" where
  "hasm_transpose = [
     vpunpckldq 0 2 (X 7), vpunpckhdq 1 2 (X 7), vpunpckldq 2 5 (X 8), vpunpckhdq 5 5 (X 8), vpunpcklqdq 7 0 (X 2),
     vpunpckhqdq 0 0 (X 2), vpunpcklqdq 2 1 (X 5), vpunpckhqdq 1 1 (X 5), vpunpckldq 5 11 (X 6),
     vpunpckhdq 6 11 (X 6), vpunpckldq 8 4 (X 3), vpunpckhdq 3 4 (X 3), vpunpcklqdq 4 5 (X 8), vpunpckhqdq 5 5 (X 8),
     vpunpcklqdq 8 6 (X 3), vpunpckhqdq 3 6 (X 3)]"

definition hasm_store :: "instr list" where
  "hasm_store = [
     vmovdqa_to (Mem RDI 0) 7, vmovdqa_to (Mem RDI 16) 4, vmovdqa_to (Mem RDI 32) 0, vmovdqa_to (Mem RDI 48) 5,
     vmovdqa_to (Mem RDI 64) 2, vmovdqa_to (Mem RDI 80) 8, vmovdqa_to (Mem RDI 96) 1, vmovdqa_to (Mem RDI 112) 3]"

section \<open>Blocks\<close>

definition hasm_blocks :: "(nat \<times> instr list \<times> exit) list" where
  "hasm_blocks = [
     (0, hasm_enter @ hasm_words @ hasm_round01 @ hasm_round2 @ [gp (mov32_imm RCX 3), gp (lea RAX (Sym Ktab 0))], Jmp 1),
     (1, hasm_zero_round @ [gp (inc RCX), gp (cmp_imm RCX 15)], Jcc Jne 1 2),
     (2, hasm_round15 @ hasm_round16 @ hasm_round17 @ hasm_round18 @ hasm_round19 @ hasm_round20 @
       hasm_round21 @ hasm_round22 @ hasm_round23 @ hasm_round24 @ hasm_round25 @ hasm_round26 @
       hasm_round27 @ hasm_round28 @ hasm_round29 @ hasm_round30 @ hasm_round31 @
       hasm_window @ [gp (xor32 RCX RCX)], Jmp 3),
     (3, hasm_round_step @ [gp (add_imm RCX 4), gp (cmp_imm RCX 128)], Jcc Jne 3 4),
     (4, hasm_transpose @ hasm_store @ [gp (add_imm RSP 888)], Ret)]"

definition hasm :: program where
  "hasm l = (case map_of hasm_blocks l of Some b \<Rightarrow> b | None \<Rightarrow> ([], Fail))"

text \<open>
  The objects the code addresses; \<open>Frame\<close> is the memory below the stack pointer at the beginning. After the call
  the result is in \<open>Output\<close>.
\<close>

definition hasm_objects :: "u8 list \<Rightarrow> object \<Rightarrow> storage" where
  "hasm_objects data r =
     (case r of
        Frame \<Rightarrow> Area 222
      | Words \<Rightarrow> Table hasm_WORDS
      | Ktab \<Rightarrow> Table hasm_k
      | Input \<Rightarrow> Table (map (load32 data) [0..<8])
      | Output \<Rightarrow> Area 32
      | _ \<Rightarrow> Area 0)"

definition call_hash :: "cpu \<Rightarrow> cpu" where
  "call_hash s = s\<lparr>reg := (reg s)(RDI := Ptr Output 0, RSI := Ptr Input 0, RSP := Ptr Frame 888)\<rparr>"

definition sha256x4_fullyfused_asm :: "cpu \<Rightarrow> u8 list \<Rightarrow> (place \<times> cpu) option" where
  "sha256x4_fullyfused_asm s data = run (hasm_objects data) hasm 0 (call_hash s)"

definition output_bytes :: "cpu \<Rightarrow> u8 list" where
  "output_bytes s = concat (map (\<lambda>i. le32_bytes (mem s Output i)) [0..<32])"

end
