(* ===== verification/Hash_Asm_Rounds.thy ===== *)
theory Hash_Asm_Rounds
  imports Hash_Asm_Code Sha_Lanes
begin

text \<open>
  The rounds of \<open>fullyfused_asm_x4.c\<close> on one lane; \<open>hasm_cut<n>\<close> lists what the registers and slots hold before round
  \<open>n\<close>. In the two loop bodies the general register \<open>RCX\<close> is the index.
\<close>

section \<open>The tables\<close>

lemma hasm_WORDS_at:
  "hasm_WORDS ! 4 = 0x98c7e2a2" "hasm_WORDS ! 8 = 0xfc08884d"
  "hasm_WORDS ! 12 = 0xd16e48e2" "hasm_WORDS ! 24 = 0x9b05688c" "hasm_WORDS ! 28 = 0xcd2a11ae"
  "hasm_WORDS ! 32 = 0xbabcc441" "hasm_WORDS ! 44 = 0x8c2e12e0" "hasm_WORDS ! 48 = 0xd0c6645b"
  "hasm_WORDS ! 52 = 0xc19bf1b4" "hasm_WORDS ! 56 = 0xe49b69c1" "hasm_WORDS ! 60 = 0x11282000"
  "hasm_WORDS ! 64 = 0x00e66786" "hasm_WORDS ! 68 = 0x80000000" "hasm_WORDS ! 72 = 0x8fc19dc6"
  "hasm_WORDS ! 76 = 0x240ca1cc" "hasm_WORDS ! 80 = 0x2de92c6f" "hasm_WORDS ! 84 = 0x4a7484aa"
  "hasm_WORDS ! 88 = 0x00000040" "hasm_WORDS ! 92 = 0x5cb0aa1c" "hasm_WORDS ! 96 = 0x76f988da"
  "hasm_WORDS ! 100 = 0x983e5152" "hasm_WORDS ! 104 = 0xa831c66d" "hasm_WORDS ! 108 = 0xb00327c8"
  "hasm_WORDS ! 112 = 0xbf597fc7" "hasm_WORDS ! 116 = 0xc6e00bf3" "hasm_WORDS ! 120 = 0xd5a79147"
  "hasm_WORDS ! 124 = 0x80100008" "hasm_WORDS ! 128 = 0x86da6359" "hasm_WORDS ! 132 = 0x14292967"
  "hasm_WORDS ! 136 = 0x510e527f" "hasm_WORDS ! 140 = 0x67381d5d" "hasm_WORDS ! 144 = 0x6a09e667"
  "hasm_WORDS ! 148 = 0xb2d5ee51"
  by (simp_all add: hasm_WORDS_def)

lemma hasm_WORDS_ok:
  "const_ok hasm_WORDS 16" "const_ok hasm_WORDS 32" "const_ok hasm_WORDS 48" "const_ok hasm_WORDS 96"
  "const_ok hasm_WORDS 112" "const_ok hasm_WORDS 128" "const_ok hasm_WORDS 176" "const_ok hasm_WORDS 192"
  "const_ok hasm_WORDS 208" "const_ok hasm_WORDS 224" "const_ok hasm_WORDS 240" "const_ok hasm_WORDS 256"
  "const_ok hasm_WORDS 272" "const_ok hasm_WORDS 288" "const_ok hasm_WORDS 304" "const_ok hasm_WORDS 320"
  "const_ok hasm_WORDS 336" "const_ok hasm_WORDS 352" "const_ok hasm_WORDS 368" "const_ok hasm_WORDS 384"
  "const_ok hasm_WORDS 400" "const_ok hasm_WORDS 416" "const_ok hasm_WORDS 432" "const_ok hasm_WORDS 448"
  "const_ok hasm_WORDS 464" "const_ok hasm_WORDS 480" "const_ok hasm_WORDS 496" "const_ok hasm_WORDS 512"
  "const_ok hasm_WORDS 528"
  by (simp_all add: const_ok_def hasm_WORDS_def)

lemma hasm_k_K: "hasm_k = K"
  by (simp add: hasm_k_def K_def)

lemma hasm_objects_simps [simp]:
  "hasm_objects t Frame = Area 222" "hasm_objects t Words = Table hasm_WORDS" "hasm_objects t Ktab = Table K"
  "hasm_objects t Input = Table (map (load32 t) [0..<8])" "hasm_objects t Output = Area 32"
  by (simp_all add: hasm_objects_def hasm_k_K)

lemma hasm_WORDS_length [simp]: "length hasm_WORDS = 152"
  by (simp add: hasm_WORDS_def)

lemmas hasm_run = lane_run hasm_WORDS_at hasm_WORDS_ok

section \<open>The first rounds\<close>

text \<open>
  A negation is computed by a subtraction here; in round 2 the constant lacks the top bit, which the mask
  removes.
\<close>

lemma negated_sum: "0x67381d5d - x = NOT (x + 0x98c7e2a2 :: u32)"
  by (simp add: not_eq_complement)

lemma negated_masked: "0x510e527f AND 0x17fffffff - x = NOT x AND (0x510e527f :: u32)"
proof -
  have "NOT x = 0x80000000 + (0x7fffffff - x)" by (simp add: not_eq_complement)
  also have "\<dots> = (0x7fffffff - x) XOR 0x80000000" by (rule top_bit_flip)
  finally have "NOT x = (0x7fffffff - x) XOR 0x80000000" .
  moreover have "(0x17fffffff :: u32) = 0x7fffffff" "(0x510e527f AND 0x80000000 :: u32) = 0" by simp_all
  ultimately show ?thesis by (simp only: bit.conj_xor_distrib and.commute xor.right_neutral)
qed

lemma xor_choice:
  fixes x y z :: u32
  shows "(x AND y) XOR (NOT x AND z) = (x AND y) + (NOT x AND z)" "(y AND x) XOR (NOT x AND z) = (x AND y) + (NOT x AND z)"
    "(x AND y) XOR (z AND NOT x) = (x AND y) + (NOT x AND z)" "(y AND x) XOR (z AND NOT x) = (x AND y) + (NOT x AND z)"
  using Ch_sum [of x y z] unfolding Ch_def by (simp_all only: and.commute)

lemma wrapped: "(0x200000000 :: u32) = 0" "(0x100000000000 :: u32) = 0" "(0x400000000000 :: u32) = 0"
  by simp_all

definition hasm_cut2 :: "block \<Rightarrow> (loc \<times> u32) list" where
  "hasm_cut2 p = [(Xr 0, SW p 0), (Xr 2, SA p 5), (Xr 3, SA p 4), (Xr 4, SE p 5 - 0xcd2a11ae), (Xr 5, SE p 5), (Xr 6, SE p 4),
     (Xr 8, SE p 3), (Sl 0, SW p 1)]"

definition hasm_cut_zero :: "block \<Rightarrow> nat \<Rightarrow> (loc \<times> u32) list" where
  "hasm_cut_zero p n = [(Sl 0, SW p 1), (Xr 0, SW p 0), (Xr 2, SA p (n + 2)), (Xr 3, SA p (n + 1)), (Xr 4, SA p (n + 3)),
     (Xr 5, SE p (n + 2)), (Xr 6, SE p (n + 1)), (Xr 7, SE p (n + 3)), (Xr 8, SE p n), (Xr 9, SA p n)]"

lemma hasm_round01:
  "g RSP = Ptr Frame 0 \<Longrightarrow> lane_triple (hasm_objects t) g {} (holds [(Xr 0, SW p 0), (Xr 1, SW p 1)]) hasm_round01
     (holds (hasm_cut2 p))"
  by (rule lane_tripleI; simp add: hasm_round01_def hasm_cut2_def hasm_run;
      simp add: SA_step [of p 1, simplified, unfolded Maj_initial] SE_step [of p 1, simplified] first_rounds negated_sum xor_choice lane_sha)

lemma hasm_round2:
  "g RSP = Ptr Frame 0 \<Longrightarrow> lane_triple (hasm_objects t) g {} (holds (hasm_cut2 p)) hasm_round2 (holds (hasm_cut_zero p 3))"
  by (rule lane_tripleI; simp add: hasm_round2_def hasm_cut2_def hasm_cut_zero_def hasm_run;
      simp add: SA_step [of p 2, simplified] SE_step [of p 2, simplified] negated_masked xor_choice wrapped lane_sha)

section \<open>The rounds of the padding\<close>

lemma hasm_zero_round:
  assumes "g RSP = Ptr Frame 0" "g RAX = Ptr Ktab 0" "g RCX = Num (of_nat n)" "3 \<le> n" "n < 15"
  shows "lane_triple (hasm_objects t) g {} (holds (hasm_cut_zero p n)) hasm_zero_round (holds (hasm_cut_zero p (n + 1)))"
proof -
  have k: "resolve g (MemIx RAX 4 RCX 0) = Some (Ktab, 4 * n)" using assms resolve_index(1) [of g RAX Ktab 0 RCX n 4 0] by simp
  have len: "length K = 64" by (simp add: K_def)
  have next_cut: "hasm_cut_zero p (n + 1) = [(Sl 0, SW p 1), (Xr 0, SW p 0), (Xr 2, SA p (n + 3)), (Xr 3, SA p (n + 2)),
     (Xr 4, SA p (n + 4)), (Xr 5, SE p (n + 3)), (Xr 6, SE p (n + 2)), (Xr 7, SE p (n + 4)), (Xr 8, SE p (n + 1)), (Xr 9, SA p (n + 1))]"
    by (simp add: hasm_cut_zero_def eval_nat_numeral)
  show ?thesis unfolding next_cut
    by (rule lane_tripleI; use assms(1,4,5) in \<open>simp add: hasm_zero_round_def hasm_cut_zero_def hasm_run k len del: resolve.simps(2)\<close>;
      simp add: SA_at [of "n + 4" n p] SE_at [of "n + 4" n p] SW_zero lane_sha)
qed

section \<open>The rounds of the schedule\<close>

definition hasm_cut_step :: "block \<Rightarrow> nat \<Rightarrow> (loc \<times> u32) list" where
  "hasm_cut_step p i = [(Xr 0, SW p (i + 16)), (Xr 1, SW p (i + 31)), (Xr 2, SA p (i + 35)), (Xr 3, SE p (i + 32)),
     (Xr 4, SE p (i + 33)), (Xr 5, SA p (i + 33)), (Xr 6, SE p (i + 34)), (Xr 7, SA p (i + 34)), (Xr 8, SA p (i + 32)),
     (Xr 10, SW p (i + 30)), (Xr 11, SE p (i + 35)), (Sl (i + 8), SW p (i + 17)), (Sl (i + 16), SW p (i + 25))]"

definition hasm_cut_step_post :: "block \<Rightarrow> nat \<Rightarrow> (loc \<times> u32) list" where
  "hasm_cut_step_post p i = [(Xr 0, SW p (i + 17)), (Xr 1, SW p (i + 32)), (Xr 2, SA p (i + 36)), (Xr 3, SE p (i + 33)),
     (Xr 4, SE p (i + 34)), (Xr 5, SA p (i + 34)), (Xr 6, SE p (i + 35)), (Xr 7, SA p (i + 35)), (Xr 8, SA p (i + 33)),
     (Xr 10, SW p (i + 31)), (Xr 11, SE p (i + 36)), (Sl (i + 23), SW p (i + 32))]"

lemma hasm_slot_of_index:
  fixes i :: nat
  shows "(16 * i + 128) div 16 = i + 8" "(16 * i + 256) div 16 = i + 16" "(16 * i + 368) div 16 = i + 23"
    "(16 * i + 128) div 4 = 4 * i + 32" "(16 * i + 256) div 4 = 4 * i + 64" "(16 * i + 368) div 4 = 4 * i + 92"
    "(4 * i + 128) div 4 = i + 32"
  by presburger+

lemma hasm_round_step:
  assumes "g RSP = Ptr Frame 0" "g RAX = Ptr Ktab 0" "g RCX = Num (of_nat (4 * i))" "i < 32"
  shows "lane_triple (hasm_objects t) g (- {i + 23}) (holds (hasm_cut_step p i)) hasm_round_step (holds (hasm_cut_step_post p i))"
proof -
  note index = resolve_index [of g RSP Frame 0 RCX "4 * i" 4] resolve_index [of g RAX Ktab 0 RCX "4 * i"]
  have r: "resolve g (MemIx RSP 4 RCX d) = Some (Frame, 16 * i + d)" "resolve g (MemIx RCX (Suc 0) RAX d) = Some (Ktab, 4 * i + d)" for d
    using assms index by simp_all
  have len: "length K = 64" by (simp add: K_def)
  have w: "SW p (i + 32) = sigma1 (SW p (i + 30)) + SW p (i + 25) + sigma0 (SW p (i + 17)) + SW p (i + 16)"
    using SW_step [of "i + 16" p] assms(4) by (simp add: ac_simps)
  show ?thesis
    by (rule lane_tripleI; use assms(1,4) in \<open>simp add: hasm_round_step_def hasm_cut_step_def hasm_cut_step_post_def hasm_run r len hasm_slot_of_index del: resolve.simps(2)\<close>;
      simp add: SA_at [of "i + 36" "i + 32" p] SE_at [of "i + 36" "i + 32" p] w lane_sha)
qed

section \<open>Straight-line rounds\<close>

definition hasm_cut15 :: "block \<Rightarrow> (loc \<times> u32) list" where
  "hasm_cut15 p = [
     (Xr 0, SW p 0), (Xr 2, SA p 17), (Xr 3, SA p 16), (Xr 4, SA p 18), (Xr 5, SE p 17), (Xr 6, SE p 16),
     (Xr 7, SE p 18), (Xr 8, SE p 15), (Xr 9, SA p 15), (Sl 0, SW p 1)]"

definition hasm_cut16 :: "block \<Rightarrow> (loc \<times> u32) list" where
  "hasm_cut16 p = [
     (Xr 0, SW p 0), (Xr 1, SW p 1), (Xr 2, SA p 17), (Xr 3, SA p 16), (Xr 4, SA p 18), (Xr 5, SE p 17),
     (Xr 6, SE p 16), (Xr 7, SE p 18), (Xr 8, SE p 19), (Xr 9, SA p 19), (Sl 0, SW p 1)]"

definition hasm_cut17 :: "block \<Rightarrow> (loc \<times> u32) list" where
  "hasm_cut17 p = [
     (Xr 0, SW p 16), (Xr 1, SW p 1), (Xr 2, SA p 17), (Xr 3, SA p 20), (Xr 4, SA p 18), (Xr 5, SE p 17),
     (Xr 7, SE p 18), (Xr 8, SE p 19), (Xr 9, SA p 19), (Xr 10, SE p 20), (Sl 0, SW p 1)]"

definition hasm_cut18 :: "block \<Rightarrow> (loc \<times> u32) list" where
  "hasm_cut18 p = [
     (Xr 0, SW p 16), (Xr 3, SA p 20), (Xr 4, SA p 18), (Xr 6, SA p 21), (Xr 7, SE p 18), (Xr 8, SE p 19),
     (Xr 9, SA p 19), (Xr 10, SE p 20), (Xr 11, SE p 21), (Sl 0, SW p 1)]"

definition hasm_cut19 :: "block \<Rightarrow> (loc \<times> u32) list" where
  "hasm_cut19 p = [
     (Xr 0, SW p 16), (Xr 1, SA p 22), (Xr 2, SW p 17), (Xr 3, SA p 20), (Xr 6, SA p 21), (Xr 8, SE p 19),
     (Xr 9, SA p 19), (Xr 10, SE p 20), (Xr 11, SE p 21), (Xr 12, SE p 22), (Sl 1, sigma1 (SW p 16))]"

definition hasm_cut20 :: "block \<Rightarrow> (loc \<times> u32) list" where
  "hasm_cut20 p = [
     (Xr 0, SW p 16), (Xr 1, SA p 22), (Xr 3, SA p 20), (Xr 6, SA p 21), (Xr 7, SA p 23), (Xr 8, SW p 18),
     (Xr 9, SE p 23), (Xr 10, SE p 20), (Xr 11, SE p 21), (Xr 12, SE p 22), (Xr 13, SW p 18 XOR 0x80000000),
     (Sl 0, SW p 17), (Sl 2, SW p 19)]"

definition hasm_cut21 :: "block \<Rightarrow> (loc \<times> u32) list" where
  "hasm_cut21 p = [
     (Xr 0, SW p 16), (Xr 1, SA p 22), (Xr 6, SA p 21), (Xr 7, SA p 23), (Xr 9, SE p 23), (Xr 10, SA p 24),
     (Xr 11, SE p 21), (Xr 12, SE p 22), (Xr 14, SE p 24), (Sl 0, SW p 17), (Sl 2, SW p 19), (Sl 4, SW p 20),
     (Sl 6, SW p 18)]"

definition hasm_cut22 :: "block \<Rightarrow> (loc \<times> u32) list" where
  "hasm_cut22 p = [
     (Xr 0, SW p 16), (Xr 1, SA p 22), (Xr 7, SA p 23), (Xr 9, SE p 23), (Xr 10, SA p 24), (Xr 11, SA p 25),
     (Xr 12, SE p 22), (Xr 14, SE p 24), (Xr 15, SE p 25), (Sl 0, SW p 17), (Sl 1, SW p 21), (Sl 2, SW p 19),
     (Sl 4, SW p 20), (Sl 6, SW p 18)]"

definition hasm_cut23 :: "block \<Rightarrow> (loc \<times> u32) list" where
  "hasm_cut23 p = [
     (Xr 0, SW p 16), (Xr 1, SE p 26), (Xr 3, sigma1 (SW p 20)), (Xr 7, SA p 23), (Xr 9, SE p 23), (Xr 10, SA p 24),
     (Xr 11, SA p 25), (Xr 12, SA p 26), (Xr 14, SE p 24), (Xr 15, SE p 25), (Sl 0, SW p 17), (Sl 1, SW p 21),
     (Sl 2, SW p 19), (Sl 4, SW p 20), (Sl 6, SW p 18)]"

definition hasm_cut24 :: "block \<Rightarrow> (loc \<times> u32) list" where
  "hasm_cut24 p = [
     (Xr 0, SW p 16), (Xr 1, SE p 26), (Xr 3, sigma1 (SW p 20)), (Xr 9, SA p 27), (Xr 10, SA p 24), (Xr 11, SA p 25),
     (Xr 12, SA p 26), (Xr 13, SE p 27), (Xr 14, SE p 24), (Xr 15, SE p 25), (Sl 0, SW p 17), (Sl 1, SW p 21),
     (Sl 2, SW p 19), (Sl 3, SW p 23), (Sl 4, SW p 20), (Sl 6, SW p 18)]"

definition hasm_cut25 :: "block \<Rightarrow> (loc \<times> u32) list" where
  "hasm_cut25 p = [
     (Xr 0, SW p 16), (Xr 1, SE p 26), (Xr 9, SA p 27), (Xr 10, SA p 28), (Xr 11, SA p 25), (Xr 12, SA p 26),
     (Xr 13, SE p 27), (Xr 14, SE p 28), (Xr 15, SE p 25), (Sl 0, SW p 24), (Sl 1, SW p 21), (Sl 2, SW p 19),
     (Sl 3, SW p 23), (Sl 4, SW p 20), (Sl 5, SW p 22), (Sl 6, SW p 18), (Sl 8, SW p 17)]"

definition hasm_cut26 :: "block \<Rightarrow> (loc \<times> u32) list" where
  "hasm_cut26 p = [
     (Xr 0, SW p 16), (Xr 1, SE p 26), (Xr 8, SW p 25), (Xr 9, SA p 27), (Xr 10, SA p 28), (Xr 11, SA p 29),
     (Xr 12, SA p 26), (Xr 13, SE p 27), (Xr 14, SE p 28), (Xr 15, SE p 29), (Sl 0, SW p 24), (Sl 1, SW p 21),
     (Sl 2, SW p 19), (Sl 3, SW p 23), (Sl 4, SW p 20), (Sl 5, SW p 22), (Sl 8, SW p 17), (Sl 9, SW p 18)]"

definition hasm_cut27 :: "block \<Rightarrow> (loc \<times> u32) list" where
  "hasm_cut27 p = [
     (Xr 0, SW p 16), (Xr 2, SE p 30), (Xr 5, SW p 26), (Xr 8, SW p 25), (Xr 9, SA p 27), (Xr 10, SA p 28),
     (Xr 11, SA p 29), (Xr 12, SA p 30), (Xr 13, SE p 27), (Xr 14, SE p 28), (Xr 15, SE p 29), (Sl 0, SW p 24),
     (Sl 1, SW p 21), (Sl 3, SW p 23), (Sl 4, SW p 20), (Sl 5, SW p 22), (Sl 8, SW p 17), (Sl 9, SW p 18),
     (Sl 10, SW p 19)]"

definition hasm_cut28 :: "block \<Rightarrow> (loc \<times> u32) list" where
  "hasm_cut28 p = [
     (Xr 0, SW p 16), (Xr 2, SE p 30), (Xr 4, SW p 27), (Xr 5, SW p 26), (Xr 9, SA p 31), (Xr 10, SA p 28),
     (Xr 11, SA p 29), (Xr 12, SA p 30), (Xr 13, SE p 31), (Xr 14, SE p 28), (Xr 15, SE p 29), (Sl 0, SW p 24),
     (Sl 1, SW p 21), (Sl 3, SW p 23), (Sl 5, SW p 22), (Sl 8, SW p 17), (Sl 9, SW p 18), (Sl 10, SW p 19),
     (Sl 11, SW p 20), (Sl 12, SW p 21), (Sl 13, SW p 22), (Sl 14, SW p 23), (Sl 15, SW p 24), (Sl 16, SW p 25)]"

definition hasm_cut29 :: "block \<Rightarrow> (loc \<times> u32) list" where
  "hasm_cut29 p = [
     (Xr 0, SW p 16), (Xr 1, SW p 28), (Xr 2, SE p 30), (Xr 3, SE p 32), (Xr 4, SW p 27), (Xr 8, SA p 32),
     (Xr 9, SA p 31), (Xr 11, SA p 29), (Xr 12, SA p 30), (Xr 13, SE p 31), (Xr 15, SE p 29), (Sl 0, SW p 24),
     (Sl 3, SW p 23), (Sl 5, SW p 22), (Sl 8, SW p 17), (Sl 9, SW p 18), (Sl 10, SW p 19), (Sl 11, SW p 20),
     (Sl 12, SW p 21), (Sl 13, SW p 22), (Sl 14, SW p 23), (Sl 15, SW p 24), (Sl 16, SW p 25), (Sl 17, SW p 26)]"

definition hasm_cut30 :: "block \<Rightarrow> (loc \<times> u32) list" where
  "hasm_cut30 p = [
     (Xr 0, SW p 16), (Xr 1, SW p 28), (Xr 2, SE p 30), (Xr 3, SE p 32), (Xr 4, SE p 33), (Xr 5, SA p 33),
     (Xr 8, SA p 32), (Xr 9, SA p 31), (Xr 10, SW p 29), (Xr 12, SA p 30), (Xr 13, SE p 31), (Sl 0, SW p 24),
     (Sl 3, SW p 23), (Sl 8, SW p 17), (Sl 9, SW p 18), (Sl 10, SW p 19), (Sl 11, SW p 20), (Sl 12, SW p 21),
     (Sl 13, SW p 22), (Sl 14, SW p 23), (Sl 15, SW p 24), (Sl 16, SW p 25), (Sl 17, SW p 26), (Sl 18, SW p 27),
     (Sl 19, SW p 28)]"

definition hasm_cut31 :: "block \<Rightarrow> (loc \<times> u32) list" where
  "hasm_cut31 p = [
     (Xr 0, SW p 16), (Xr 3, SE p 32), (Xr 4, SE p 33), (Xr 5, SA p 33), (Xr 6, SE p 34), (Xr 7, SA p 34),
     (Xr 8, SA p 32), (Xr 9, SA p 31), (Xr 10, SW p 29), (Xr 11, sigma1 (SW p 28) + SW p 23), (Xr 13, SE p 31),
     (Sl 0, SW p 24), (Sl 8, SW p 17), (Sl 9, SW p 18), (Sl 10, SW p 19), (Sl 11, SW p 20), (Sl 12, SW p 21),
     (Sl 13, SW p 22), (Sl 14, SW p 23), (Sl 15, SW p 24), (Sl 16, SW p 25), (Sl 17, SW p 26), (Sl 18, SW p 27),
     (Sl 19, SW p 28), (Sl 20, SW p 29)]"

definition hasm_cut32 :: "block \<Rightarrow> (loc \<times> u32) list" where
  "hasm_cut32 p = [
     (Xr 0, SW p 16), (Xr 1, SW p 31), (Xr 2, SA p 35), (Xr 3, SE p 32), (Xr 4, SE p 33), (Xr 5, SA p 33),
     (Xr 6, SE p 34), (Xr 7, SA p 34), (Xr 8, SA p 32), (Xr 10, SW p 30), (Xr 11, SE p 35), (Sl 8, SW p 17),
     (Sl 9, SW p 18), (Sl 10, SW p 19), (Sl 11, SW p 20), (Sl 12, SW p 21), (Sl 13, SW p 22), (Sl 14, SW p 23),
     (Sl 15, SW p 24), (Sl 16, SW p 25), (Sl 17, SW p 26), (Sl 18, SW p 27), (Sl 19, SW p 28), (Sl 20, SW p 29)]"

lemma hasm_round15:
  "g RSP = Ptr Frame 0 \<Longrightarrow> lane_triple (hasm_objects t) g {} (holds (hasm_cut15 p)) hasm_round15 (holds (hasm_cut16 p))"
  by (rule lane_tripleI; simp add: hasm_round15_def hasm_cut15_def hasm_cut16_def hasm_run;
      simp add: SA_step [of p 15, simplified] SE_step [of p 15, simplified] lane_sha)

lemma hasm_round16:
  "g RSP = Ptr Frame 0 \<Longrightarrow> lane_triple (hasm_objects t) g {} (holds (hasm_cut16 p)) hasm_round16 (holds (hasm_cut17 p))"
  by (rule lane_tripleI; simp add: hasm_round16_def hasm_cut16_def hasm_cut17_def hasm_run;
      simp add: SA_step [of p 16, simplified] SE_step [of p 16, simplified] SW_entries(1) lane_sha)

lemma hasm_round17:
  "g RSP = Ptr Frame 0 \<Longrightarrow> lane_triple (hasm_objects t) g {} (holds (hasm_cut17 p)) hasm_round17 (holds (hasm_cut18 p))"
  by (rule lane_tripleI; simp add: hasm_round17_def hasm_cut17_def hasm_cut18_def hasm_run;
      simp add: SA_step [of p 17, simplified] SE_step [of p 17, simplified] SW_entries(2) lane_sha)

lemma hasm_round18:
  "g RSP = Ptr Frame 0 \<Longrightarrow> lane_triple (hasm_objects t) g {} (holds (hasm_cut18 p)) hasm_round18 (holds (hasm_cut19 p))"
  by (rule lane_tripleI; simp add: hasm_round18_def hasm_cut18_def hasm_cut19_def hasm_run;
      simp add: SA_step [of p 18, simplified] SE_step [of p 18, simplified] SW_entries(2) SW_entries(3) lane_sha)

lemma hasm_round19:
  "g RSP = Ptr Frame 0 \<Longrightarrow> lane_triple (hasm_objects t) g {} (holds (hasm_cut19 p)) hasm_round19 (holds (hasm_cut20 p))"
  by (rule lane_tripleI; simp add: hasm_round19_def hasm_cut19_def hasm_cut20_def hasm_run;
      simp add: SA_step [of p 19, simplified] SE_step [of p 19, simplified] SW_18_xor SW_entries(4) lane_sha)

lemma hasm_round20:
  "g RSP = Ptr Frame 0 \<Longrightarrow> lane_triple (hasm_objects t) g {} (holds (hasm_cut20 p)) hasm_round20 (holds (hasm_cut21 p))"
  by (rule lane_tripleI; simp add: hasm_round20_def hasm_cut20_def hasm_cut21_def hasm_run;
      simp add: SA_step [of p 20, simplified] SE_step [of p 20, simplified] SW_entries(5) wrapped lane_sha)

lemma hasm_round21:
  "g RSP = Ptr Frame 0 \<Longrightarrow> lane_triple (hasm_objects t) g {} (holds (hasm_cut21 p)) hasm_round21 (holds (hasm_cut22 p))"
  by (rule lane_tripleI; simp add: hasm_round21_def hasm_cut21_def hasm_cut22_def hasm_run;
      simp add: SA_step [of p 21, simplified] SE_step [of p 21, simplified] SW_entries(6) lane_sha)

lemma hasm_round22:
  "g RSP = Ptr Frame 0 \<Longrightarrow> lane_triple (hasm_objects t) g {} (holds (hasm_cut22 p)) hasm_round22 (holds (hasm_cut23 p))"
  by (rule lane_tripleI; simp add: hasm_round22_def hasm_cut22_def hasm_cut23_def hasm_run;
      simp add: SA_step [of p 22, simplified] SE_step [of p 22, simplified] SW_entries(7) lane_sha)

lemma hasm_round23:
  "g RSP = Ptr Frame 0 \<Longrightarrow> lane_triple (hasm_objects t) g {} (holds (hasm_cut23 p)) hasm_round23 (holds (hasm_cut24 p))"
  by (rule lane_tripleI; simp add: hasm_round23_def hasm_cut23_def hasm_cut24_def hasm_run;
      simp add: SA_step [of p 23, simplified] SE_step [of p 23, simplified] SW_entries(8) lane_sha)

lemma hasm_round24:
  "g RSP = Ptr Frame 0 \<Longrightarrow> lane_triple (hasm_objects t) g {} (holds (hasm_cut24 p)) hasm_round24 (holds (hasm_cut25 p))"
  by (rule lane_tripleI; simp add: hasm_round24_def hasm_cut24_def hasm_cut25_def hasm_run;
      simp add: SA_step [of p 24, simplified] SE_step [of p 24, simplified] SW_entries(7) SW_entries(9) lane_sha)

lemma hasm_round25:
  "g RSP = Ptr Frame 0 \<Longrightarrow> lane_triple (hasm_objects t) g {} (holds (hasm_cut25 p)) hasm_round25 (holds (hasm_cut26 p))"
  by (rule lane_tripleI; simp add: hasm_round25_def hasm_cut25_def hasm_cut26_def hasm_run;
      simp add: SA_step [of p 25, simplified] SE_step [of p 25, simplified] SW_entries(10) lane_sha)

lemma hasm_round26:
  "g RSP = Ptr Frame 0 \<Longrightarrow> lane_triple (hasm_objects t) g {} (holds (hasm_cut26 p)) hasm_round26 (holds (hasm_cut27 p))"
  by (rule lane_tripleI; simp add: hasm_round26_def hasm_cut26_def hasm_cut27_def hasm_run;
      simp add: SA_step [of p 26, simplified] SE_step [of p 26, simplified] SW_entries(11) lane_sha)

lemma hasm_round27:
  "g RSP = Ptr Frame 0 \<Longrightarrow> lane_triple (hasm_objects t) g {} (holds (hasm_cut27 p)) hasm_round27 (holds (hasm_cut28 p))"
  by (rule lane_tripleI; simp add: hasm_round27_def hasm_cut27_def hasm_cut28_def hasm_run;
      simp add: SA_step [of p 27, simplified] SE_step [of p 27, simplified] SW_entries(12) lane_sha)

lemma hasm_round28:
  "g RSP = Ptr Frame 0 \<Longrightarrow> lane_triple (hasm_objects t) g {} (holds (hasm_cut28 p)) hasm_round28 (holds (hasm_cut29 p))"
  by (rule lane_tripleI; simp add: hasm_round28_def hasm_cut28_def hasm_cut29_def hasm_run;
      simp add: SA_step [of p 28, simplified] SE_step [of p 28, simplified] SW_entries(13) lane_sha)

lemma hasm_round29:
  "g RSP = Ptr Frame 0 \<Longrightarrow> lane_triple (hasm_objects t) g {} (holds (hasm_cut29 p)) hasm_round29 (holds (hasm_cut30 p))"
  by (rule lane_tripleI; simp add: hasm_round29_def hasm_cut29_def hasm_cut30_def hasm_run;
      simp add: SA_step [of p 29, simplified] SE_step [of p 29, simplified] SW_entries(14) lane_sha)

lemma hasm_round30:
  "g RSP = Ptr Frame 0 \<Longrightarrow> lane_triple (hasm_objects t) g {} (holds (hasm_cut30 p)) hasm_round30 (holds (hasm_cut31 p))"
  by (rule lane_tripleI; simp add: hasm_round30_def hasm_cut30_def hasm_cut31_def hasm_run;
      simp add: SA_step [of p 30, simplified] SE_step [of p 30, simplified] SW_entries(15) lane_sha)

lemma hasm_round31:
  "g RSP = Ptr Frame 0 \<Longrightarrow> lane_triple (hasm_objects t) g {} (holds (hasm_cut31 p)) hasm_round31 (holds (hasm_cut32 p))"
  by (rule lane_tripleI; simp add: hasm_round31_def hasm_cut31_def hasm_cut32_def hasm_run;
      simp add: SA_step [of p 31, simplified] SE_step [of p 31, simplified] SW_entries(15) SW_entries(16) lane_sha)

end
