(* ===== verification/Hash_Asm.thy ===== *)
theory Hash_Asm
  imports Hash_Asm_Rounds Asm_Search
begin

text \<open>
  \<open>sha256x4_fullyfused_asm\<close> as a whole: its blocks one after the other, and the result against the version with
  intrinsics.
\<close>

section \<open>The blocks\<close>

lemma hasm_at:
  "hasm 0 = (hasm_enter @ hasm_words @ hasm_round01 @ hasm_round2 @ [gp (mov32_imm RCX 3), gp (lea RAX (Sym Ktab 0))], Jmp 1)"
  "hasm 1 = (hasm_zero_round @ [gp (inc RCX), gp (cmp_imm RCX 15)], Jcc Jne 1 2)"
  "hasm 3 = (hasm_round_step @ [gp (add_imm RCX 4), gp (cmp_imm RCX 128)], Jcc Jne 3 4)"
  "hasm 4 = (hasm_transpose @ hasm_store @ [gp (add_imm RSP 888)], Ret)"
  by (simp_all add: hasm_def hasm_blocks_def)

lemmas hasm_go = goI [where p = hasm]

definition byte_block :: "u8 list \<Rightarrow> nat \<Rightarrow> block" where
  "byte_block data l = (lane_w0 data l, lane_w1 data l)"

text \<open>What stays as it is, and the registers that the rounds rely on.\<close>

definition hasm_frame :: "cpu \<Rightarrow> cpu \<Rightarrow> bool" where
  "hasm_frame c s \<longleftrightarrow> reg s RSP = Ptr Frame 0 \<and> reg s RAX = Ptr Ktab 0 \<and> reg s RDI = Ptr Output 0 \<and>
     (\<forall>r. r \<noteq> RAX \<and> r \<noteq> RCX \<and> r \<noteq> RSP \<longrightarrow> reg s r = reg (call_hash c) r)"

lemma hasm_frame_untouched: "hasm_frame c s \<Longrightarrow> untouched RCX k s s' \<Longrightarrow> hasm_frame c s'"
  by (simp add: hasm_frame_def untouched_def)

lemma hasm_words_exec:
  assumes "length data = 32" "reg s RSI = Ptr Input 0"
  shows "\<exists>s'. exec (hasm_objects data) hasm_words s = Some s' \<and> reg s' = reg s \<and>
    (\<forall>l<4. holds [(Xr 0, SW (byte_block data l) 0), (Xr 1, SW (byte_block data l) 1)] (view l s'))"
proof -
  let ?ob = "hasm_objects data"
  have "load16 ?ob s Words 0 = Some (M128 0x00010203 0x04050607 0x08090a0b 0x0c0d0e0f)"
    by (simp add: load16_def load4_def hasm_WORDS_def)
  moreover have "load16 ?ob s Input 0 = Some (mm_load data 0)" "load16 ?ob s Input 16 = Some (mm_load data 16)"
    using assms(1) by (simp_all add: load16_def load4_def rd_def mm_load_def load32_def)
  moreover have "interleave_x4 data = (vec4 (\<lambda>l. SW (byte_block data l) 0), vec4 (\<lambda>l. SW (byte_block data l) 1))"
    using assms(1) by (simp add: interleave_x4_V4 V4_def SW_def byte_block_def)
  ultimately show ?thesis using assms(2)
    by (simp add: hasm_words_def at_addr_def view_set_xmm words_mask interleave_x4_def Let_def)
qed

lemma hasm_block0:
  assumes "length data = 32"
  shows "\<exists>s. go (hasm_objects data) hasm (At 0, call_hash c) (At 1, s) \<and> hasm_frame c s \<and> reg s RCX = Num (of_nat 3) \<and>
    (\<forall>l<4. holds (hasm_cut_zero (byte_block data l) 3) (view l s))"
proof -
  let ?ob = "hasm_objects data"
  let ?b = "byte_block data"
  obtain s0 where s0: "exec ?ob hasm_enter (call_hash c) = Some s0" "reg s0 RSP = Ptr Frame 0"
      "\<forall>r. r \<noteq> RSP \<longrightarrow> reg s0 r = reg (call_hash c) r"
    by (simp add: hasm_enter_def call_hash_def)
  have "reg s0 RSI = Ptr Input 0" using s0(3) by (simp add: call_hash_def)
  from hasm_words_exec [OF assms this]
  obtain s1 where s1: "exec ?ob hasm_words s0 = Some s1" "reg s1 = reg s0"
      "\<forall>l<4. holds [(Xr 0, SW (?b l) 0), (Xr 1, SW (?b l) 1)] (view l s1)" by blast
  have sp: "reg s1 RSP = Ptr Frame 0" using s0(2) s1(2) by simp
  obtain s2 where s2: "exec ?ob (hasm_round01 @ hasm_round2) s1 = Some s2" "reg s2 = reg s1"
      "\<forall>l<4. holds (hasm_cut_zero (?b l) 3) (view l s2)"
    using exec_stretch [OF lane_triple_append [OF hasm_round01 [where g = "reg s1", OF sp] hasm_round2 [where g = "reg s1", OF sp]]] s1(3) by blast
  let ?t = "set_reg RAX (Ptr Ktab 0) (set_reg RCX (Num 3) s2)"
  have exec: "exec ?ob (hasm_enter @ hasm_words @ hasm_round01 @ hasm_round2 @ [gp (mov32_imm RCX 3), gp (lea RAX (Sym Ktab 0))])
      (call_hash c) = Some ?t"
    unfolding exec_then [OF s0(1)] exec_then [OF s1(1)] using exec_then [OF s2(1)] by (simp add: at_addr_def)
  have "go ?ob hasm (At 0, call_hash c) (At 1, ?t)" using hasm_go [OF hasm_at(1) exec] by simp
  moreover have "hasm_frame c ?t" using s0(2,3) s1(2) s2(2) by (simp add: hasm_frame_def call_hash_def)
  ultimately show ?thesis using s2(3) by (intro exI [of _ ?t]) simp
qed

text \<open>The loop of the padding's rounds.\<close>

lemma hasm_block1:
  assumes "hasm_frame c s" "reg s RCX = Num (of_nat n)" "3 \<le> n" "n < 15"
    and "\<forall>l<4. holds (hasm_cut_zero (b l) n) (view l s)"
  shows "\<exists>s'. go (hasm_objects data) hasm (At 1, s) (At (if n + 1 = 15 then 2 else 1), s') \<and>
    hasm_frame c s' \<and> reg s' RCX = Num (of_nat (n + 1)) \<and> (\<forall>l<4. holds (hasm_cut_zero (b l) (n + 1)) (view l s'))"
proof -
  let ?ob = "hasm_objects data"
  have regs: "reg s RSP = Ptr Frame 0" "reg s RAX = Ptr Ktab 0" using assms(1) by (simp_all add: hasm_frame_def)
  obtain s1 where s1: "exec ?ob hasm_zero_round s = Some s1" "untouched RCX {} s s1" "reg s1 = reg s"
      "\<forall>l<4. holds (hasm_cut_zero (b l) (n + 1)) (view l s1)"
    using exec_stretch [where x = RCX, OF hasm_zero_round [where g = "reg s", OF regs assms(2-4)]] assms(5) by blast
  let ?t = "(set_reg RCX (Num (of_nat (n + 1))) s1)\<lparr>flags := Some (n = 14, n < 14)\<rparr>"
  have "of_nat n + 1 = (15 :: u64) \<longleftrightarrow> n = 14" "of_nat n + 1 < (15 :: u64) \<longleftrightarrow> n < 14"
    using u64_index [of "n + 1" 15] assms(4) by (auto simp: ac_simps)
  then have tail: "exec ?ob [gp (inc RCX), gp (cmp_imm RCX 15)] s1 = Some ?t"
    using assms(2) s1(3) by (simp add: compare_def set_reg_def add.commute)
  have "hasm_frame c ?t" by (rule hasm_frame_untouched [OF assms(1), where k = "{}"]) (simp add: s1(2))
  then show ?thesis using hasm_go [OF hasm_at(2) trans [OF exec_then [OF s1(1)] tail]] s1(4) by auto
qed

lemma hasm_loop1:
  assumes "hasm_frame c s" "reg s RCX = Num (of_nat 3)" "\<forall>l<4. holds (hasm_cut_zero (b l) 3) (view l s)"
  shows "\<exists>s'. (go (hasm_objects data) hasm)\<^sup>+\<^sup>+ (At 1, s) (At 2, s') \<and> hasm_frame c s' \<and>
    reg s' RCX = Num (of_nat 15) \<and> (\<forall>l<4. holds (hasm_cut_zero (b l) 15) (view l s'))"
proof -
  let ?I = "\<lambda>n s. hasm_frame c s \<and> reg s RCX = Num (of_nat n) \<and> (\<forall>l<4. holds (hasm_cut_zero (b l) n) (view l s))"
  have step: "\<exists>s'. go (hasm_objects data) hasm (At 1, s) (At (if n + 1 = 15 then 2 else 1), s') \<and> ?I (n + 1) s'"
    if "3 \<le> n" "n < 15" "?I n s" for n s
  proof -
    have now: "hasm_frame c s" "reg s RCX = Num (of_nat n)" "\<forall>l<4. holds (hasm_cut_zero (b l) n) (view l s)"
      using that(3) by simp_all
    show ?thesis by (rule hasm_block1 [OF now(1,2) that(1,2) now(3)])
  qed
  have start: "?I 3 s" using assms by simp
  have "\<exists>s'. (go (hasm_objects data) hasm)\<^sup>+\<^sup>+ (At 1, s) (At 2, s') \<and> ?I 15 s'"
    by (rule go_loop [where I = ?I and a = 3, OF step _ start]) simp_all
  then show ?thesis by blast
qed

section \<open>The schedule\<close>

text \<open>The slots from 8 on hold the message words from 17 on, as far as they are known.\<close>

definition hasm_sched :: "block \<Rightarrow> nat \<Rightarrow> (loc \<Rightarrow> u32) \<Rightarrow> bool" where
  "hasm_sched p i f \<longleftrightarrow> holds (hasm_cut_step p i) f \<and> (\<forall>j. 8 \<le> j \<and> j < i + 23 \<longrightarrow> f (Sl j) = SW p (j + 9))"

lemma hasm_window:
  assumes "g RSP = Ptr Frame 0"
  shows "lane_triple (hasm_objects t) g {} (holds (hasm_cut32 p)) hasm_window (hasm_sched p 0)"
proof -
  have slots: "8 \<le> j \<and> j < 23 \<longleftrightarrow> j \<in> {8, 9, 10, 11, 12, 13, 14, 15, 16, 17, 18, 19, 20, 21, 22}" for j :: nat
    by (simp, presburger)
  show ?thesis
    by (rule lane_tripleI; use assms in \<open>simp add: hasm_window_def hasm_cut32_def hasm_sched_def hasm_cut_step_def hasm_run slots\<close>)
qed

definition hasm_straight :: "instr list" where
  "hasm_straight = hasm_round15 @ hasm_round16 @ hasm_round17 @ hasm_round18 @ hasm_round19 @ hasm_round20 @
       hasm_round21 @ hasm_round22 @ hasm_round23 @ hasm_round24 @ hasm_round25 @ hasm_round26 @
       hasm_round27 @ hasm_round28 @ hasm_round29 @ hasm_round30 @ hasm_round31 @ hasm_window"

lemma hasm_straight_triple:
  assumes "g RSP = Ptr Frame 0"
  shows "lane_triple (hasm_objects t) g {} (holds (hasm_cut15 p)) hasm_straight (hasm_sched p 0)"
  unfolding hasm_straight_def
  by (rule lane_triple_append, rule hasm_round15 hasm_round16 hasm_round17 hasm_round18 hasm_round19 hasm_round20
      hasm_round21 hasm_round22 hasm_round23 hasm_round24 hasm_round25 hasm_round26 hasm_round27 hasm_round28
      hasm_round29 hasm_round30 hasm_round31, rule assms)+ (rule hasm_window, rule assms)

lemma hasm_block2:
  assumes "hasm_frame c s" "reg s RCX = Num (of_nat 15)" "\<forall>l<4. holds (hasm_cut_zero (b l) 15) (view l s)"
  shows "\<exists>s'. go (hasm_objects data) hasm (At 2, s) (At 3, s') \<and> hasm_frame c s' \<and> reg s' RCX = Num (of_nat (4 * 0)) \<and>
    (\<forall>l<4. hasm_sched (b l) 0 (view l s'))"
proof -
  let ?ob = "hasm_objects data"
  have sp: "reg s RSP = Ptr Frame 0" using assms(1) by (simp add: hasm_frame_def)
  have pre: "holds (hasm_cut15 (b l)) (view l s)" if "l < 4" for l
    using assms(3) that by (simp add: hasm_cut15_def hasm_cut_zero_def)
  obtain s1 where s1: "exec ?ob hasm_straight s = Some s1" "untouched RCX {} s s1" "reg s1 = reg s"
      "\<forall>l<4. hasm_sched (b l) 0 (view l s1)"
    using exec_stretch [where x = RCX, OF hasm_straight_triple [where g = "reg s", OF sp] pre] by blast
  let ?t = "set_reg32 RCX 0 s1"
  have at: "hasm 2 = (hasm_straight @ [gp (xor32 RCX RCX)], Jmp 3)"
    by (simp add: hasm_def hasm_blocks_def hasm_straight_def)
  have "exec ?ob (hasm_straight @ [gp (xor32 RCX RCX)]) s = Some ?t"
    using exec_then [OF s1(1)] assms(2) s1(3) by simp
  from hasm_go [OF at this] have "go ?ob hasm (At 2, s) (At 3, ?t)" by simp
  moreover have "hasm_frame c ?t"
    by (rule hasm_frame_untouched [OF assms(1), where k = "{}"]) (simp add: s1(2) set_reg32_def)
  ultimately show ?thesis using s1(4) by (intro exI [of _ ?t]) (simp add: set_reg32_def)
qed

lemma hasm_cut_step_next:
  "hasm_cut_step p (Suc i) = [(Xr 0, SW p (i + 17)), (Xr 1, SW p (i + 32)), (Xr 2, SA p (i + 36)), (Xr 3, SE p (i + 33)),
     (Xr 4, SE p (i + 34)), (Xr 5, SA p (i + 34)), (Xr 6, SE p (i + 35)), (Xr 7, SA p (i + 35)), (Xr 8, SA p (i + 33)),
     (Xr 10, SW p (i + 31)), (Xr 11, SE p (i + 36)), (Sl (i + 9), SW p (i + 18)), (Sl (i + 17), SW p (i + 26))]"
  by (simp only: hasm_cut_step_def Suc_eq_plus1 add.assoc) simp

lemma hasm_block3:
  assumes "hasm_frame c s" "reg s RCX = Num (of_nat (4 * i))" "i < 32" "\<forall>l<4. hasm_sched (b l) i (view l s)"
  shows "\<exists>s'. go (hasm_objects data) hasm (At 3, s) (At (if i + 1 = 32 then 4 else 3), s') \<and>
    hasm_frame c s' \<and> reg s' RCX = Num (of_nat (4 * (i + 1))) \<and> (\<forall>l<4. hasm_sched (b l) (i + 1) (view l s'))"
proof -
  let ?ob = "hasm_objects data"
  have regs: "reg s RSP = Ptr Frame 0" "reg s RAX = Ptr Ktab 0" using assms(1) by (simp_all add: hasm_frame_def)
  have pre: "holds (hasm_cut_step (b l) i) (view l s)" if "l < 4" for l
    using assms(4) that by (simp add: hasm_sched_def)
  obtain s1 where s1: "exec ?ob hasm_round_step s = Some s1" "untouched RCX (- {i + 23}) s s1" "reg s1 = reg s"
      "\<forall>l<4. holds (hasm_cut_step_post (b l) i) (view l s1)"
    using exec_stretch [where x = RCX, OF hasm_round_step [where g = "reg s", OF regs assms(2,3)] pre] by blast
  let ?t = "(set_reg RCX (Num (of_nat (4 * (i + 1)))) s1)\<lparr>flags := Some (i = 31, i < 31)\<rparr>"
  have "of_nat (4 * i) + 4 = (128 :: u64) \<longleftrightarrow> i = 31" "of_nat (4 * i) + 4 < (128 :: u64) \<longleftrightarrow> i < 31"
    using u64_index [of "4 * i + 4" 128] assms(3) by auto
  then have tail: "exec ?ob [gp (add_imm RCX 4), gp (cmp_imm RCX 128)] s1 = Some ?t"
    using assms(2) s1(3) by (simp add: compare_def set_reg_def algebra_simps)
  have "hasm_frame c ?t" by (rule hasm_frame_untouched [OF assms(1), where k = "- {i + 23}"]) (simp add: s1(2))
  moreover have "hasm_sched (b l) (i + 1) (view l ?t)" if "l < 4" for l
  proof -
    have post: "holds (hasm_cut_step_post (b l) i) (view l s1)" using s1(4) that by blast
    have slots: "view l s1 (Sl j) = SW (b l) (j + 9)" if "8 \<le> j" "j < i + 24" for j
      using post s1(2) assms(4) \<open>l < 4\<close> that
      by (cases "j = i + 23") (simp_all add: hasm_cut_step_post_def untouched_def hasm_sched_def add.commute)
    show ?thesis using post slots by (simp add: hasm_sched_def hasm_cut_step_next hasm_cut_step_post_def add.commute)
  qed
  ultimately show ?thesis
    using hasm_go [OF hasm_at(3) trans [OF exec_then [OF s1(1)] tail]] by auto
qed

lemma hasm_loop3:
  assumes "hasm_frame c s" "reg s RCX = Num (of_nat (4 * 0))" "\<forall>l<4. hasm_sched (b l) 0 (view l s)"
  shows "\<exists>s'. (go (hasm_objects data) hasm)\<^sup>+\<^sup>+ (At 3, s) (At 4, s') \<and> hasm_frame c s' \<and>
    (\<forall>l<4. hasm_sched (b l) 32 (view l s'))"
proof -
  let ?I = "\<lambda>i s. hasm_frame c s \<and> reg s RCX = Num (of_nat (4 * i)) \<and> (\<forall>l<4. hasm_sched (b l) i (view l s))"
  have step: "\<exists>s'. go (hasm_objects data) hasm (At 3, s) (At (if i + 1 = 32 then 4 else 3), s') \<and> ?I (i + 1) s'"
    if "0 \<le> i" "i < 32" "?I i s" for i s
  proof -
    have now: "hasm_frame c s" "reg s RCX = Num (of_nat (4 * i))" "\<forall>l<4. hasm_sched (b l) i (view l s)"
      using that(3) by simp_all
    show ?thesis by (rule hasm_block3 [OF now(1,2) that(2) now(3)])
  qed
  have start: "?I 0 s" using assms by simp
  have "\<exists>s'. (go (hasm_objects data) hasm)\<^sup>+\<^sup>+ (At 3, s) (At 4, s') \<and> ?I 32 s'"
    by (rule go_loop [where I = ?I and a = 0, OF step _ start]) simp_all
  then show ?thesis by blast
qed

section \<open>The result\<close>

lemma hasm_transpose_exec:
  assumes "\<forall>l<4. hasm_sched (b l) 32 (view l s)"
  defines "A \<equiv> \<lambda>l. SA (b l)" and "E \<equiv> \<lambda>l. SE (b l)"
  shows "\<exists>s'. exec ob hasm_transpose s = Some s' \<and> reg s' = reg s \<and> mem s' = mem s \<and>
    xmm s' 7 = M128 (A 0 67) (A 0 66) (A 0 65) (A 0 64) \<and> xmm s' 4 = M128 (E 0 67) (E 0 66) (E 0 65) (E 0 64) \<and>
    xmm s' 0 = M128 (A 1 67) (A 1 66) (A 1 65) (A 1 64) \<and> xmm s' 5 = M128 (E 1 67) (E 1 66) (E 1 65) (E 1 64) \<and>
    xmm s' 2 = M128 (A 2 67) (A 2 66) (A 2 65) (A 2 64) \<and> xmm s' 8 = M128 (E 2 67) (E 2 66) (E 2 65) (E 2 64) \<and>
    xmm s' 1 = M128 (A 3 67) (A 3 66) (A 3 65) (A 3 64) \<and> xmm s' 3 = M128 (E 3 67) (E 3 66) (E 3 65) (E 3 64)"
proof -
  have r: "xmm s n = vec4 (\<lambda>l. F l)" if "\<And>l. l < 4 \<Longrightarrow> view l s (Xr n) = F l" for n F
    unfolding xmm_vec4 by (rule vec4_cong) (rule that)
  have "xmm s 2 = vec4 (\<lambda>l. A l 67)" "xmm s 7 = vec4 (\<lambda>l. A l 66)" "xmm s 5 = vec4 (\<lambda>l. A l 65)" "xmm s 8 = vec4 (\<lambda>l. A l 64)"
    "xmm s 11 = vec4 (\<lambda>l. E l 67)" "xmm s 6 = vec4 (\<lambda>l. E l 66)" "xmm s 4 = vec4 (\<lambda>l. E l 65)" "xmm s 3 = vec4 (\<lambda>l. E l 64)"
    using assms(1) by (auto intro!: r simp: hasm_sched_def hasm_cut_step_def A_def E_def)
  then show ?thesis by (simp add: hasm_transpose_def vec4_def)
qed

text \<open>The words in memory: for each lane the variables \<open>a\<close> to \<open>h\<close>.\<close>

lemma hasm_block4:
  assumes "hasm_frame c s" "\<forall>l<4. hasm_sched (b l) 32 (view l s)"
  shows "\<exists>s'. go (hasm_objects data) hasm (At 4, s) (Done, s') \<and>
    (\<forall>r. r \<noteq> RAX \<and> r \<noteq> RCX \<longrightarrow> reg s' r = reg (call_hash c) r) \<and>
    map (mem s' Output) [0..<32] = concat (map (\<lambda>l. regs_list (block_rounds (b l) 64)) [0, 1, 2, 3])"
proof -
  let ?ob = "hasm_objects data"
  obtain s1 where s1: "exec ?ob hasm_transpose s = Some s1" "reg s1 = reg s"
    "xmm s1 7 = M128 (SA (b 0) 67) (SA (b 0) 66) (SA (b 0) 65) (SA (b 0) 64)" "xmm s1 4 = M128 (SE (b 0) 67) (SE (b 0) 66) (SE (b 0) 65) (SE (b 0) 64)"
    "xmm s1 0 = M128 (SA (b 1) 67) (SA (b 1) 66) (SA (b 1) 65) (SA (b 1) 64)" "xmm s1 5 = M128 (SE (b 1) 67) (SE (b 1) 66) (SE (b 1) 65) (SE (b 1) 64)"
    "xmm s1 2 = M128 (SA (b 2) 67) (SA (b 2) 66) (SA (b 2) 65) (SA (b 2) 64)" "xmm s1 8 = M128 (SE (b 2) 67) (SE (b 2) 66) (SE (b 2) 65) (SE (b 2) 64)"
    "xmm s1 1 = M128 (SA (b 3) 67) (SA (b 3) 66) (SA (b 3) 65) (SA (b 3) 64)" "xmm s1 3 = M128 (SE (b 3) 67) (SE (b 3) 66) (SE (b 3) 65) (SE (b 3) 64)"
    using hasm_transpose_exec [OF assms(2), of ?ob] by blast
  have out: "reg s1 RDI = Ptr Output 0" "reg s1 RSP = Ptr Frame 0" using assms(1) s1(2) by (simp_all add: hasm_frame_def)
  obtain s2 where s2: "exec ?ob hasm_store s1 = Some s2" "reg s2 = reg s1"
      "map (mem s2 Output) [0..<32] = concat (map (\<lambda>l. regs_list (block_rounds (b l) 64)) [0, 1, 2, 3])"
    by (simp add: hasm_store_def at_addr_def store16_def store4_def out)
      (simp add: s1(3-) s1(9) [simplified] block_rounds_names upt_rec)
  have "exec ?ob (hasm_transpose @ hasm_store @ [gp (add_imm RSP 888)]) s = Some (set_reg RSP (Ptr Frame 888) s2\<lparr>flags := None\<rparr>)"
    unfolding exec_then [OF s1(1)] exec_then [OF s2(1)] using s2(2) out by simp
  from hasm_go [OF hasm_at(4) this] have "go ?ob hasm (At 4, s) (Done, set_reg RSP (Ptr Frame 888) s2\<lparr>flags := None\<rparr>)" by simp
  moreover have "\<forall>r. r \<noteq> RAX \<and> r \<noteq> RCX \<longrightarrow> reg (set_reg RSP (Ptr Frame 888) s2) r = reg (call_hash c) r"
    using assms(1) s1(2) s2(2) by (simp add: hasm_frame_def call_hash_def)
  ultimately show ?thesis using s2(3) by (intro exI [of _ "set_reg RSP (Ptr Frame 888) s2\<lparr>flags := None\<rparr>"]) simp
qed

lemma output_x4_digest:
  assumes "map (mem s Output) [0..<32] = concat (map (\<lambda>l. regs_list (block_rounds (byte_block data l) 64)) [0, 1, 2, 3])"
  shows "output_bytes s = x4_digest data"
proof -
  have "output_bytes s = concat (map le32_bytes (map (mem s Output) [0..<32]))" by (simp add: output_bytes_def comp_def)
  also have "\<dots> = concat (map (\<lambda>l. store_digest (block_rounds (byte_block data l) 64)) [0, 1, 2, 3])"
    unfolding assms by (simp add: store_digest_def)
  finally show ?thesis
    by (simp add: x4_digest_def block_rounds_def byte_block_def data_digest_def digest8_def lane_w0_def lane_w1_def)
qed

text \<open>
  C14: the assembly of the configured four-lane hash function ends, makes no access outside the memory it
  reserves, its tables, the input and the output, restores the stack pointer and all registers but those it
  declares as clobbered, and leaves in the output what the function with intrinsics returns.
\<close>

theorem sha256x4_fullyfused_asm_equiv:
  assumes "length data = 32" "length w = 48"
  shows "\<exists>s. sha256x4_fullyfused_asm c data = Some (Done, s) \<and> output_bytes s = sha256x4_fullyfused w data \<and>
    (\<forall>r. r \<noteq> RAX \<and> r \<noteq> RCX \<longrightarrow> reg s r = reg (call_hash c) r)"
proof -
  let ?go = "go (hasm_objects data) hasm"
  let ?b = "byte_block data"
  obtain s0 where s0: "?go (At 0, call_hash c) (At 1, s0)" "hasm_frame c s0" "reg s0 RCX = Num (of_nat 3)"
      "\<forall>l<4. holds (hasm_cut_zero (?b l) 3) (view l s0)"
    using hasm_block0 [OF assms(1)] by blast
  obtain s1 where s1: "?go\<^sup>+\<^sup>+ (At 1, s0) (At 2, s1)" "hasm_frame c s1" "reg s1 RCX = Num (of_nat 15)"
      "\<forall>l<4. holds (hasm_cut_zero (?b l) 15) (view l s1)"
    using hasm_loop1 [OF s0(2-4)] by blast
  obtain s2 where s2: "?go (At 2, s1) (At 3, s2)" "hasm_frame c s2" "reg s2 RCX = Num (of_nat (4 * 0))"
      "\<forall>l<4. hasm_sched (?b l) 0 (view l s2)"
    using hasm_block2 [OF s1(2-4)] by blast
  obtain s3 where s3: "?go\<^sup>+\<^sup>+ (At 3, s2) (At 4, s3)" "hasm_frame c s3" "\<forall>l<4. hasm_sched (?b l) 32 (view l s3)"
    using hasm_loop3 [OF s2(2-4)] by blast
  obtain s4 where s4: "?go (At 4, s3) (Done, s4)" "\<forall>r. r \<noteq> RAX \<and> r \<noteq> RCX \<longrightarrow> reg s4 r = reg (call_hash c) r"
      "map (mem s4 Output) [0..<32] = concat (map (\<lambda>l. regs_list (block_rounds (?b l) 64)) [0, 1, 2, 3])"
    using hasm_block4 [OF s3(2,3)] by blast
  have "?go\<^sup>+\<^sup>+ (At 0, call_hash c) (Done, s4)"
    using s0(1) s1(1) s2(1) s3(1) s4(1) by (meson tranclp_trans tranclp.r_into_trancl)
  then have "sha256x4_fullyfused_asm c data = Some (Done, s4)"
    using run_go [of "hasm_objects data" hasm "(At 0, call_hash c)" "(Done, s4)"]
    by (simp add: sha256x4_fullyfused_asm_def run_def run_end)
  then show ?thesis using s4(2) output_x4_digest [OF s4(3)] assms by (simp add: sha256x4_fullyfused_digest)
qed

theorem sha256x4_fullyfused_asm_equiv_witness:
  "\<exists>s. sha256x4_fullyfused_asm \<lparr>reg = (\<lambda>_. Num 7), xmm = (\<lambda>_. M128 1 2 3 4), mem = (\<lambda>_ _. 5), saved = (\<lambda>_. Num 6),
        flags = None, fs40 = 8\<rparr> (replicate 32 9) = Some (Done, s) \<and>
    output_bytes s = sha256x4_fullyfused (replicate 48 (mm_set1_epi32 1)) (replicate 32 9) \<and> reg s RBX = Num 7"
  using sha256x4_fullyfused_asm_equiv [of "replicate 32 9" "replicate 48 (mm_set1_epi32 1)"
      "\<lparr>reg = (\<lambda>_. Num 7), xmm = (\<lambda>_. M128 1 2 3 4), mem = (\<lambda>_ _. 5), saved = (\<lambda>_. Num 6), flags = None, fs40 = 8\<rparr>"]
  by (auto simp: call_hash_def)

end
