(* ===== verification/Asm_X4_Rounds.thy ===== *)
theory Asm_X4_Rounds
  imports Asm_X4_Code Hash_Asm
begin

text \<open>
  The stretches of \<open>asm_x4.c\<close> on one lane: the words of the message schedule one by one, the loop that computes
  the other words, and a round. The slot \<open>j\<close> of the frame holds the word \<open>j\<close> of the schedule.
\<close>

section \<open>Constants and slots\<close>

lemma xasm_objects_simps [simp]:
  "xasm_objects t Frame = Area 258" "xasm_objects t Ktab = Table K" "xasm_objects t Htab = Table H0"
  "xasm_objects t Top_Bit = Table [0x80000000, 0x80000000, 0x80000000, 0x80000000]"
  "xasm_objects t Sixty_Four = Table [64, 64, 64, 64]" "xasm_objects t Input = Table (map (load32 t) [0..<8])"
  "xasm_objects t Output = Area 32"
  "xasm_objects t Byteswap = Table [0x00010203, 0x04050607, 0x08090a0b, 0x0c0d0e0f]"
  "xasm_objects t Punpack = Table [0x00020406, 0x080a0c0e, 0x01030507, 0x090b0d0f]"
  by (simp_all add: xasm_objects_def xasm_k_def K_def xasm_H_def H0_def xasm_x80000000_def xasm_d64_def
      xasm_byteswap_mask_def xasm_punpack_mask_def load32_def le32_def upt_rec)

lemma xasm_const_ok:
  "const_ok [0x80000000, 0x80000000, 0x80000000, 0x80000000] 0" "const_ok [64, 64, 64, 64] 0"
  by (simp_all add: const_ok_def)

definition words :: "block \<Rightarrow> nat \<Rightarrow> (loc \<Rightarrow> u32) \<Rightarrow> bool" where
  "words p n f \<longleftrightarrow> (\<forall>j<n. f (Sl j) = SW p j)"

lemma words_simps:
  "words p 0 f" "words p (Suc n) f \<longleftrightarrow> words p n f \<and> f (Sl n) = SW p n"
  "words p (numeral k) f \<longleftrightarrow> words p (pred_numeral k) f \<and> f (Sl (pred_numeral k)) = SW p (pred_numeral k)"
  by (auto simp: words_def less_Suc_eq numeral_eq_Suc)

definition xasm_sched :: "block \<Rightarrow> nat \<Rightarrow> (loc \<times> u32) list \<Rightarrow> (loc \<Rightarrow> u32) \<Rightarrow> bool" where
  "xasm_sched p n c f \<longleftrightarrow> holds c f \<and> words p n f"

lemmas xasm_run = lane_run xasm_const_ok xasm_sched_def words_simps

section \<open>The first words\<close>

definition xasm_cut16 :: "block \<Rightarrow> (loc \<times> u32) list" where
  "xasm_cut16 p = [
     (Xr 0, SW p 0), (Xr 1, SW p 1), (Xr 2, 0x80000000), (Xr 3, 64)]"

definition xasm_cut17 :: "block \<Rightarrow> (loc \<times> u32) list" where
  "xasm_cut17 p = [
     (Xr 0, SW p 16), (Xr 1, SW p 1), (Xr 2, 0x80000000), (Xr 3, 64)]"

definition xasm_cut18 :: "block \<Rightarrow> (loc \<times> u32) list" where
  "xasm_cut18 p = [
     (Xr 0, SW p 16), (Xr 1, SW p 17), (Xr 2, 0x80000000), (Xr 3, 64)]"

definition xasm_cut19 :: "block \<Rightarrow> (loc \<times> u32) list" where
  "xasm_cut19 p = [
     (Xr 0, SW p 18), (Xr 1, SW p 17), (Xr 3, 64)]"

definition xasm_cut20 :: "block \<Rightarrow> (loc \<times> u32) list" where
  "xasm_cut20 p = [
     (Xr 0, SW p 18), (Xr 1, SW p 19), (Xr 3, 64)]"

definition xasm_cut21 :: "block \<Rightarrow> (loc \<times> u32) list" where
  "xasm_cut21 p = [
     (Xr 0, SW p 20), (Xr 1, SW p 19), (Xr 3, 64)]"

definition xasm_cut22 :: "block \<Rightarrow> (loc \<times> u32) list" where
  "xasm_cut22 p = [
     (Xr 0, SW p 20), (Xr 1, SW p 21), (Xr 3, 64)]"

definition xasm_cut23 :: "block \<Rightarrow> (loc \<times> u32) list" where
  "xasm_cut23 p = [
     (Xr 0, SW p 22), (Xr 1, SW p 21), (Xr 3, 64)]"

definition xasm_cut24 :: "block \<Rightarrow> (loc \<times> u32) list" where
  "xasm_cut24 p = [
     (Xr 0, SW p 22), (Xr 1, SW p 23), (Xr 2, SW p 18), (Xr 3, 64), (Xr 4, SW p 17)]"

definition xasm_cut25 :: "block \<Rightarrow> (loc \<times> u32) list" where
  "xasm_cut25 p = [
     (Xr 0, SW p 24), (Xr 1, SW p 23), (Xr 2, SW p 18), (Xr 3, 64), (Xr 4, SW p 19)]"

definition xasm_cut26 :: "block \<Rightarrow> (loc \<times> u32) list" where
  "xasm_cut26 p = [
     (Xr 0, SW p 24), (Xr 1, SW p 25), (Xr 2, SW p 20), (Xr 3, 64), (Xr 4, SW p 19)]"

definition xasm_cut27 :: "block \<Rightarrow> (loc \<times> u32) list" where
  "xasm_cut27 p = [
     (Xr 0, SW p 26), (Xr 1, SW p 25), (Xr 2, SW p 20), (Xr 3, 64), (Xr 4, SW p 21)]"

definition xasm_cut28 :: "block \<Rightarrow> (loc \<times> u32) list" where
  "xasm_cut28 p = [
     (Xr 0, SW p 26), (Xr 1, SW p 27), (Xr 2, SW p 22), (Xr 3, 64), (Xr 4, SW p 21)]"

definition xasm_cut29 :: "block \<Rightarrow> (loc \<times> u32) list" where
  "xasm_cut29 p = [
     (Xr 0, SW p 28), (Xr 1, SW p 27), (Xr 2, SW p 22), (Xr 3, 64), (Xr 4, SW p 23)]"

definition xasm_cut30 :: "block \<Rightarrow> (loc \<times> u32) list" where
  "xasm_cut30 p = [
     (Xr 0, SW p 28), (Xr 1, SW p 29), (Xr 2, SW p 24), (Xr 3, 64), (Xr 4, SW p 23)]"

definition xasm_cut31 :: "block \<Rightarrow> (loc \<times> u32) list" where
  "xasm_cut31 p = [
     (Xr 0, SW p 30), (Xr 1, SW p 29), (Xr 2, SW p 24), (Xr 3, 64), (Xr 4, SW p 16)]"

definition xasm_cut32 :: "block \<Rightarrow> (loc \<times> u32) list" where
  "xasm_cut32 p = [
     (Xr 0, SW p 30), (Xr 1, SW p 31), (Xr 4, SW p 16)]"

lemma xasm_w16:
  "g RSP = Ptr Frame 0 \<Longrightarrow> lane_triple (xasm_objects t) g {} (xasm_sched p 16 (xasm_cut16 p)) xasm_w16 (xasm_sched p 17 (xasm_cut17 p))"
  by (rule lane_tripleI; simp add: xasm_w16_def xasm_cut16_def xasm_cut17_def xasm_run; simp add: SW_entries(1) lane_sha)

lemma xasm_w17:
  "g RSP = Ptr Frame 0 \<Longrightarrow> lane_triple (xasm_objects t) g {} (xasm_sched p 17 (xasm_cut17 p)) xasm_w17 (xasm_sched p 18 (xasm_cut18 p))"
  by (rule lane_tripleI; simp add: xasm_w17_def xasm_cut17_def xasm_cut18_def xasm_run; simp add: SW_entries(2))

lemma xasm_w18:
  "g RSP = Ptr Frame 0 \<Longrightarrow> lane_triple (xasm_objects t) g {} (xasm_sched p 18 (xasm_cut18 p)) xasm_w18 (xasm_sched p 19 (xasm_cut19 p))"
  by (rule lane_tripleI; simp add: xasm_w18_def xasm_cut18_def xasm_cut19_def xasm_run; simp add: SW_entries(3) lane_sha)

lemma xasm_w19:
  "g RSP = Ptr Frame 0 \<Longrightarrow> lane_triple (xasm_objects t) g {} (xasm_sched p 19 (xasm_cut19 p)) xasm_w19 (xasm_sched p 20 (xasm_cut20 p))"
  by (rule lane_tripleI; simp add: xasm_w19_def xasm_cut19_def xasm_cut20_def xasm_run; simp add: SW_entries(4) lane_sha)

lemma xasm_w20:
  "g RSP = Ptr Frame 0 \<Longrightarrow> lane_triple (xasm_objects t) g {} (xasm_sched p 20 (xasm_cut20 p)) xasm_w20 (xasm_sched p 21 (xasm_cut21 p))"
  by (rule lane_tripleI; simp add: xasm_w20_def xasm_cut20_def xasm_cut21_def xasm_run; simp add: SW_entries(5) lane_sha)

lemma xasm_w21:
  "g RSP = Ptr Frame 0 \<Longrightarrow> lane_triple (xasm_objects t) g {} (xasm_sched p 21 (xasm_cut21 p)) xasm_w21 (xasm_sched p 22 (xasm_cut22 p))"
  by (rule lane_tripleI; simp add: xasm_w21_def xasm_cut21_def xasm_cut22_def xasm_run; simp add: SW_entries(6) lane_sha)

lemma xasm_w22:
  "g RSP = Ptr Frame 0 \<Longrightarrow> lane_triple (xasm_objects t) g {} (xasm_sched p 22 (xasm_cut22 p)) xasm_w22 (xasm_sched p 23 (xasm_cut23 p))"
  by (rule lane_tripleI; simp add: xasm_w22_def xasm_cut22_def xasm_cut23_def xasm_run; simp add: SW_entries(7) lane_sha)

lemma xasm_w23:
  "g RSP = Ptr Frame 0 \<Longrightarrow> lane_triple (xasm_objects t) g {} (xasm_sched p 23 (xasm_cut23 p)) xasm_w23 (xasm_sched p 24 (xasm_cut24 p))"
  by (rule lane_tripleI; simp add: xasm_w23_def xasm_cut23_def xasm_cut24_def xasm_run; simp add: SW_entries(8) lane_sha)

lemma xasm_w24:
  "g RSP = Ptr Frame 0 \<Longrightarrow> lane_triple (xasm_objects t) g {} (xasm_sched p 24 (xasm_cut24 p)) xasm_w24 (xasm_sched p 25 (xasm_cut25 p))"
  by (rule lane_tripleI; simp add: xasm_w24_def xasm_cut24_def xasm_cut25_def xasm_run; simp add: SW_entries(9) lane_sha)

lemma xasm_w25:
  "g RSP = Ptr Frame 0 \<Longrightarrow> lane_triple (xasm_objects t) g {} (xasm_sched p 25 (xasm_cut25 p)) xasm_w25 (xasm_sched p 26 (xasm_cut26 p))"
  by (rule lane_tripleI; simp add: xasm_w25_def xasm_cut25_def xasm_cut26_def xasm_run; simp add: SW_entries(10) lane_sha)

lemma xasm_w26:
  "g RSP = Ptr Frame 0 \<Longrightarrow> lane_triple (xasm_objects t) g {} (xasm_sched p 26 (xasm_cut26 p)) xasm_w26 (xasm_sched p 27 (xasm_cut27 p))"
  by (rule lane_tripleI; simp add: xasm_w26_def xasm_cut26_def xasm_cut27_def xasm_run; simp add: SW_entries(11) lane_sha)

lemma xasm_w27:
  "g RSP = Ptr Frame 0 \<Longrightarrow> lane_triple (xasm_objects t) g {} (xasm_sched p 27 (xasm_cut27 p)) xasm_w27 (xasm_sched p 28 (xasm_cut28 p))"
  by (rule lane_tripleI; simp add: xasm_w27_def xasm_cut27_def xasm_cut28_def xasm_run; simp add: SW_entries(12) lane_sha)

lemma xasm_w28:
  "g RSP = Ptr Frame 0 \<Longrightarrow> lane_triple (xasm_objects t) g {} (xasm_sched p 28 (xasm_cut28 p)) xasm_w28 (xasm_sched p 29 (xasm_cut29 p))"
  by (rule lane_tripleI; simp add: xasm_w28_def xasm_cut28_def xasm_cut29_def xasm_run; simp add: SW_entries(13) lane_sha)

lemma xasm_w29:
  "g RSP = Ptr Frame 0 \<Longrightarrow> lane_triple (xasm_objects t) g {} (xasm_sched p 29 (xasm_cut29 p)) xasm_w29 (xasm_sched p 30 (xasm_cut30 p))"
  by (rule lane_tripleI; simp add: xasm_w29_def xasm_cut29_def xasm_cut30_def xasm_run; simp add: SW_entries(14) lane_sha)

lemma xasm_w30:
  "g RSP = Ptr Frame 0 \<Longrightarrow> lane_triple (xasm_objects t) g {} (xasm_sched p 30 (xasm_cut30 p)) xasm_w30 (xasm_sched p 31 (xasm_cut31 p))"
  by (rule lane_tripleI; simp add: xasm_w30_def xasm_cut30_def xasm_cut31_def xasm_run; simp add: SW_entries(15) lane_sha)

lemma xasm_w31:
  "g RSP = Ptr Frame 0 \<Longrightarrow> lane_triple (xasm_objects t) g {} (xasm_sched p 31 (xasm_cut31 p)) xasm_w31 (xasm_sched p 32 (xasm_cut32 p))"
  by (rule lane_tripleI; simp add: xasm_w31_def xasm_cut31_def xasm_cut32_def xasm_run; simp add: SW_entries(16) lane_sha)

section \<open>The other words\<close>

definition xasm_cut_entry :: "block \<Rightarrow> nat \<Rightarrow> (loc \<times> u32) list" where
  "xasm_cut_entry p i = [(Xr 0, SW p (i + 30)), (Xr 1, SW p (i + 31)), (Xr 2, SW p (i + 25)), (Xr 3, SW p (i + 17)),
     (Xr 4, SW p (i + 16))]"

definition xasm_cut_entry_post :: "block \<Rightarrow> nat \<Rightarrow> (loc \<times> u32) list" where
  "xasm_cut_entry_post p i = [(Xr 1, SW p (i + 31)), (Xr 3, SW p (i + 17)), (Xr 4, SW p (i + 32)),
     (Sl (i + 32), SW p (i + 32))]"

lemma xasm_slots:
  fixes i :: nat
  shows "16 * (i + 32) div 16 = i + 32" "16 * (i + 32) div 4 = 4 * i + 128" "16 dvd 16 * (i + 32)"
    "16 * (i + 33) - 112 = 16 * (i + 26)" "16 * (i + 33) - 240 = 16 * (i + 18)"
    "16 * (i + 26) div 16 = i + 26" "16 * (i + 26) div 4 = 4 * i + 104" "16 dvd 16 * (i + 26)"
    "16 * (i + 18) div 16 = i + 18" "16 * (i + 18) div 4 = 4 * i + 72" "16 dvd 16 * (i + 18)"
    "112 \<le> 16 * (i + 33)" "240 \<le> 16 * (i + 33)"
  by presburger+

lemma xasm_entry:
  assumes "g RAX = Ptr Frame (16 * (i + 32))" "i < 32"
  shows "lane_triple (xasm_objects t) g (- {i + 32}) (holds (xasm_cut_entry p i)) xasm_entry (holds (xasm_cut_entry_post p i))"
proof -
  have w: "SW p (i + 32) = sigma1 (SW p (i + 30)) + SW p (i + 25) + sigma0 (SW p (i + 17)) + SW p (i + 16)"
    using SW_step [of "i + 16" p] assms(2) by (simp add: ac_simps)
  show ?thesis
    by (rule lane_tripleI; use assms in \<open>simp add: xasm_entry_def xasm_cut_entry_def xasm_cut_entry_post_def lane_run xasm_slots del: mult_Suc_right distrib_left\<close>;
      simp add: w lane_sha)
qed

definition xasm_moves :: "instr list" where
  "xasm_moves = [vmovdqa 2 (M (Below RAX 112)), vmovdqa 0 (X 1), vmovdqa 1 (X 4), vmovdqa 4 (X 3), vmovdqa 3 (M (Below RAX 240))]"

lemma xasm_moves:
  assumes "g RAX = Ptr Frame (16 * (i + 33))" "i < 31"
  shows "lane_triple (xasm_objects t) g UNIV
    (\<lambda>f. holds (xasm_cut_entry_post p i) f \<and> words p (i + 33) f) xasm_moves (holds (xasm_cut_entry p (i + 1)))"
proof -
  have post: "xasm_cut_entry p (i + 1) = [(Xr 0, SW p (i + 31)), (Xr 1, SW p (i + 32)), (Xr 2, SW p (i + 26)), (Xr 3, SW p (i + 18)),
     (Xr 4, SW p (i + 17))]" by (simp add: xasm_cut_entry_def eval_nat_numeral)
  show ?thesis unfolding post
    by (rule lane_tripleI; use assms in \<open>simp add: xasm_moves_def xasm_cut_entry_post_def lane_run words_def xasm_slots del: mult_Suc_right distrib_left\<close>;
      simp add: add.commute)
qed

section \<open>A round\<close>

definition xasm_cut_round :: "block \<Rightarrow> nat \<Rightarrow> (loc \<times> u32) list" where
  "xasm_cut_round p n = [(Xr 0, SA p (n + 3)), (Xr 1, SA p (n + 2)), (Xr 2, SA p (n + 1)), (Xr 3, SA p n),
     (Xr 4, SE p (n + 3)), (Xr 5, SE p (n + 2)), (Xr 6, SE p (n + 1)), (Xr 7, SE p n)]"

lemma xasm_round:
  assumes "g RSP = Ptr Frame 0" "g RCX = Ptr Ktab 0" "g RAX = Num (of_nat (4 * n))" "n < 64"
  shows "lane_triple (xasm_objects t) g UNIV (\<lambda>f. holds (xasm_cut_round p n) f \<and> words p 64 f) xasm_round
    (holds (xasm_cut_round p (n + 1)))"
proof -
  have r: "resolve g (MemIx RSP 4 RAX 0) = Some (Frame, 16 * n)" "resolve g (MemIx RCX (Suc 0) RAX 0) = Some (Ktab, 4 * n)"
    using assms resolve_index(1) [of g RSP Frame 0 RAX "4 * n" 4 0] resolve_index(1) [of g RCX Ktab 0 RAX "4 * n" 1 0] by simp_all
  have len: "length K = 64" by (simp add: K_def)
  have post: "xasm_cut_round p (n + 1) = [(Xr 0, SA p (n + 4)), (Xr 1, SA p (n + 3)), (Xr 2, SA p (n + 2)), (Xr 3, SA p (n + 1)),
     (Xr 4, SE p (n + 4)), (Xr 5, SE p (n + 3)), (Xr 6, SE p (n + 2)), (Xr 7, SE p (n + 1))]"
    by (simp add: xasm_cut_round_def eval_nat_numeral)
  show ?thesis unfolding post
    by (rule lane_tripleI; use assms in \<open>simp add: xasm_round_def xasm_cut_round_def lane_run words_def r len del: resolve.simps(2)\<close>;
      simp add: SA_at [of "n + 4" n p] SE_at [of "n + 4" n p] u32_wrap rotations Sigma0_def Sigma1_def Ch_def Maj_def ac_simps)
qed

section \<open>The result\<close>

text \<open>A digest word: a variable after the last round and the initial value.\<close>

definition digest_word :: "block \<Rightarrow> nat \<Rightarrow> u32" where
  "digest_word p n = H0 ! n + regs_list (block_rounds p 64) ! n"

lemma xasm_add_state:
  "lane_triple (xasm_objects t) g UNIV (holds (xasm_cut_round p 64)) xasm_add_state
    (holds [(Xr 0, digest_word p 0), (Xr 1, digest_word p 1), (Xr 2, digest_word p 2), (Xr 3, digest_word p 3),
       (Xr 4, digest_word p 4), (Xr 5, digest_word p 5), (Xr 6, digest_word p 6), (Xr 7, digest_word p 7)])"
  by (rule lane_tripleI; simp add: xasm_add_state_def xasm_cut_round_def digest_word_def block_rounds_names H0_def;
    simp add: ac_simps)

text \<open>Interleaving bytes and the mask transpose four registers and turn the words to big-endian order.\<close>

lemma list16: "length bs = 16 \<Longrightarrow> \<exists>a b c d e f g h i j k l m n p q. bs = [a, b, c, d, e, f, g, h, i, j, k, l, m, n, p, q]"
  by (auto simp: length_Suc_conv numeral_eq_Suc)

lemma m128_bytes_load: "length bs = 16 \<Longrightarrow> m128_bytes (mm_load bs 0) = bs"
  by (auto dest!: list16 simp: m128_bytes_def mm_load_def load32_def le32_bytes_le32)

lemma punpack_mask: "map unat (m128_bytes (M128 0x00020406 0x080a0c0e 0x01030507 0x090b0d0f)) =
    [6, 4, 2, 0, 14, 12, 10, 8, 7, 5, 3, 1, 15, 13, 11, 9]"
  by (simp add: m128_bytes_def le32_bytes_def byte_of_def)

lemma punpack:
  "mm_shuffle_epi8 (mm_unpack_epi8 0 (M128 a b a' b') (M128 c d c' d')) [6, 4, 2, 0, 14, 12, 10, 8, 7, 5, 3, 1, 15, 13, 11, 9] =
    M128 (bswap32 a) (bswap32 b) (bswap32 c) (bswap32 d)"
  "mm_shuffle_epi8 (mm_unpack_epi8 8 (M128 a b a' b') (M128 c d c' d')) [6, 4, 2, 0, 14, 12, 10, 8, 7, 5, 3, 1, 15, 13, 11, 9] =
    M128 (bswap32 a') (bswap32 b') (bswap32 c') (bswap32 d')"
  by (simp_all add: mm_shuffle_epi8_def mm_unpack_epi8_def m128_bytes_load upt_rec)
    (simp_all add: m128_bytes_def le32_bytes_def mm_load_def load32_def bswap32_def)

end
