(* ===== verification/Asm_X4.thy ===== *)
theory Asm_X4
  imports Asm_X4_Rounds
begin

text \<open>
  \<open>sha256x4_asm\<close> as a whole. Unlike the other hash functions it adds the initial state and turns the words to
  big-endian order, so its result is the digests of the standard themselves, not their normal form.
\<close>

section \<open>The blocks\<close>

lemma xasm_at:
  "xasm 1 = (xasm_entry @ [gp (cmp64 RAX RCX)], Jcc Je 3 2)"
  "xasm 2 = (xasm_shift, Jmp 1)"
  "xasm 3 = (xasm_initial, Jmp 4)"
  "xasm 4 = (xasm_round @ [gp (cmp_imm RAX 252)], Jcc Je 6 5)"
  "xasm 5 = ([gp (add_imm RAX 4)], Jmp 4)"
  "xasm 6 = (xasm_add_state @ xasm_unpack @ xasm_shuffle @ xasm_store, Ret)"
  by (simp_all add: xasm_def xasm_blocks_def)

lemmas xasm_go = goI [where p = xasm]

definition xasm_frame :: "cpu \<Rightarrow> cpu \<Rightarrow> bool" where
  "xasm_frame c s \<longleftrightarrow> reg s RSP = Ptr Frame 0 \<and> reg s RDI = Ptr Output 0 \<and>
     (\<forall>r. r \<noteq> RAX \<and> r \<noteq> RCX \<and> r \<noteq> RSP \<longrightarrow> reg s r = reg (call_x4 c) r)"

lemma xasm_frame_set [simp]:
  "xasm_frame c (set_reg RAX v s) \<longleftrightarrow> xasm_frame c s" "xasm_frame c (set_reg RCX v s) \<longleftrightarrow> xasm_frame c s"
  "xasm_frame c (s\<lparr>flags := fl\<rparr>) \<longleftrightarrow> xasm_frame c s" "xasm_frame c (set_xmm d w s) \<longleftrightarrow> xasm_frame c s"
  by (simp_all add: xasm_frame_def)

lemma xasm_frame_reg: "reg s' = reg s \<Longrightarrow> xasm_frame c s' \<longleftrightarrow> xasm_frame c s"
  by (simp add: xasm_frame_def)

section \<open>The first half of the schedule\<close>

lemma xasm_words_exec:
  assumes "length data = 32" "reg s RSI = Ptr Input 0"
  shows "\<exists>s'. exec (xasm_objects data) xasm_words s = Some s' \<and> reg s' = reg s \<and>
    (\<forall>l<4. holds [(Xr 0, SW (byte_block data l) 0), (Xr 1, SW (byte_block data l) 1)] (view l s'))"
proof -
  let ?ob = "xasm_objects data"
  have "load16 ?ob s Byteswap 0 = Some (M128 0x00010203 0x04050607 0x08090a0b 0x0c0d0e0f)"
    by (simp add: load16_def load4_def rd_def)
  moreover have "load16 ?ob s Input 0 = Some (mm_load data 0)" "load16 ?ob s Input 16 = Some (mm_load data 16)"
    using assms(1) by (simp_all add: load16_def load4_def rd_def mm_load_def load32_def)
  moreover have "interleave_x4 data = (vec4 (\<lambda>l. SW (byte_block data l) 0), vec4 (\<lambda>l. SW (byte_block data l) 1))"
    using assms(1) by (simp add: interleave_x4_V4 V4_def SW_def byte_block_def)
  ultimately show ?thesis using assms(2)
    by (simp add: xasm_words_def at_addr_def view_set_xmm words_mask interleave_x4_def Let_def)
qed

definition xasm_first :: "instr list" where
  "xasm_first = (xasm_store01 @ xasm_padding) @
       xasm_w16 @ xasm_w17 @ xasm_w18 @ xasm_w19 @ xasm_w20 @ xasm_w21 @ xasm_w22 @ xasm_w23 @
       xasm_w24 @ xasm_w25 @ xasm_w26 @ xasm_w27 @ xasm_w28 @ xasm_w29 @ xasm_w30 @ xasm_w31 @
       [vmovdqa 2 (M (Mem RSP 400)), vmovdqa 3 (M (Mem RSP 272))]"

lemma xasm_block_words:
  assumes "g RSP = Ptr Frame 0"
  shows "lane_triple (xasm_objects t) g {} (holds [(Xr 0, SW p 0), (Xr 1, SW p 1)]) (xasm_store01 @ xasm_padding)
    (xasm_sched p 16 (xasm_cut16 p))"
  by (rule lane_tripleI; use assms in \<open>simp add: xasm_store01_def xasm_padding_def xasm_cut16_def xasm_run\<close>;
      simp add: SW_zero SW_padding)

lemma xasm_loads:
  assumes "g RSP = Ptr Frame 0"
  shows "lane_triple (xasm_objects t) g {} (xasm_sched p 32 (xasm_cut32 p))
    [vmovdqa 2 (M (Mem RSP 400)), vmovdqa 3 (M (Mem RSP 272))] (xasm_sched p 32 (xasm_cut_entry p 0))"
  by (rule lane_tripleI; use assms in \<open>simp add: xasm_cut32_def xasm_cut_entry_def xasm_run\<close>)

lemma xasm_first_triple:
  assumes "g RSP = Ptr Frame 0"
  shows "lane_triple (xasm_objects t) g {} (holds [(Xr 0, SW p 0), (Xr 1, SW p 1)]) xasm_first
    (xasm_sched p 32 (xasm_cut_entry p 0))"
  unfolding xasm_first_def
  by (rule lane_triple_append, rule xasm_block_words xasm_w16 xasm_w17 xasm_w18 xasm_w19 xasm_w20 xasm_w21 xasm_w22
      xasm_w23 xasm_w24 xasm_w25 xasm_w26 xasm_w27 xasm_w28 xasm_w29 xasm_w30 xasm_w31, rule assms)+ (rule xasm_loads, rule assms)

text \<open>At the head of the first loop.\<close>

definition xasm_filling :: "cpu \<Rightarrow> (nat \<Rightarrow> block) \<Rightarrow> nat \<Rightarrow> cpu \<Rightarrow> bool" where
  "xasm_filling c b i s \<longleftrightarrow> xasm_frame c s \<and> reg s RAX = Ptr Frame (16 * (i + 32)) \<and> reg s RCX = Ptr Frame 1008 \<and>
     (\<forall>l<4. xasm_sched (b l) (i + 32) (xasm_cut_entry (b l) i) (view l s))"

lemma xasm_block0:
  assumes "length data = 32"
  shows "\<exists>s. go (xasm_objects data) xasm (At 0, call_x4 c) (At 1, s) \<and> xasm_filling c (byte_block data) 0 s"
proof -
  let ?ob = "xasm_objects data"
  let ?b = "byte_block data"
  obtain s0 where s0: "exec ?ob xasm_enter (call_x4 c) = Some s0" "xasm_frame c s0" "reg s0 RSI = Ptr Input 0"
    by (simp add: xasm_enter_def call_x4_def xasm_frame_def)
  obtain s1 where s1: "exec ?ob xasm_words s0 = Some s1" "reg s1 = reg s0"
      "\<forall>l<4. holds [(Xr 0, SW (?b l) 0), (Xr 1, SW (?b l) 1)] (view l s1)"
    using xasm_words_exec [OF assms s0(3)] by blast
  have sp: "reg s1 RSP = Ptr Frame 0" using s0(2) s1(2) by (simp add: xasm_frame_def)
  obtain s2 where s2: "exec ?ob xasm_first s1 = Some s2" "reg s2 = reg s1"
      "\<forall>l<4. xasm_sched (?b l) 32 (xasm_cut_entry (?b l) 0) (view l s2)"
    using exec_stretch [OF xasm_first_triple [where g = "reg s1", OF sp]] s1(3) by blast
  let ?t = "set_reg RCX (Ptr Frame 1008) (set_reg RAX (Ptr Frame 512) s2)"
  have at: "xasm 0 = (xasm_enter @ xasm_words @ xasm_first @ [gp (lea RAX (Mem RSP 512)), gp (lea RCX (Mem RSP 1008))], Jmp 1)"
    by (simp add: xasm_def xasm_blocks_def xasm_first_def xasm_window_def)
  have "exec ?ob (xasm_enter @ xasm_words @ xasm_first @ [gp (lea RAX (Mem RSP 512)), gp (lea RCX (Mem RSP 1008))]) (call_x4 c) = Some ?t"
    unfolding exec_then [OF s0(1)] exec_then [OF s1(1)] exec_then [OF s2(1)] using sp s2(2) by simp
  from xasm_go [OF at this] have "go ?ob xasm (At 0, call_x4 c) (At 1, ?t)" by simp
  moreover have "xasm_filling c ?b 0 ?t"
    using s0(2) s1(2) s2(2,3) by (simp add: xasm_filling_def xasm_frame_reg [of s2 s0])
  ultimately show ?thesis by blast
qed

section \<open>The second half of the schedule\<close>

lemma xasm_block1:
  assumes "xasm_filling c b i s" "i < 32"
  shows "\<exists>s'. go (xasm_objects data) xasm (At 1, s) (At (if i = 31 then 3 else 2), s') \<and> xasm_frame c s' \<and>
    reg s' RAX = Ptr Frame (16 * (i + 32)) \<and> reg s' RCX = Ptr Frame 1008 \<and>
    (\<forall>l<4. holds (xasm_cut_entry_post (b l) i) (view l s') \<and> words (b l) (i + 33) (view l s'))"
proof -
  let ?ob = "xasm_objects data"
  have now: "xasm_frame c s" "reg s RAX = Ptr Frame (16 * (i + 32))" "reg s RCX = Ptr Frame 1008"
    "\<forall>l<4. holds (xasm_cut_entry (b l) i) (view l s) \<and> words (b l) (i + 32) (view l s)"
    using assms(1) by (simp_all add: xasm_filling_def xasm_sched_def)
  have pre: "holds (xasm_cut_entry (b l) i) (view l s)" if "l < 4" for l using now(4) that by blast
  obtain s1 where s1: "exec ?ob xasm_entry s = Some s1" "untouched RDX (- {i + 32}) s s1" "reg s1 = reg s"
      "\<forall>l<4. holds (xasm_cut_entry_post (b l) i) (view l s1)"
    using exec_stretch [where x = RDX, OF xasm_entry [where g = "reg s", OF now(2) assms(2)] pre] by blast
  let ?t = "s1\<lparr>flags := Some (i = 31, i < 31)\<rparr>"
  have "exec ?ob (xasm_entry @ [gp (cmp64 RAX RCX)]) s = Some ?t"
    unfolding exec_then [OF s1(1)] using now(2,3) s1(3) assms(2) by (simp add: compare_regs_def)
  from xasm_go [OF xasm_at(1) this] have "go ?ob xasm (At 1, s) (At (if i = 31 then 3 else 2), ?t)" by simp
  moreover have "words (b l) (i + 33) (view l s1)" if "l < 4" for l
    unfolding words_def
  proof (intro allI impI)
    fix j assume "j < i + 33"
    then show "view l s1 (Sl j) = SW (b l) j"
      using s1(2,4) now(4) that by (cases "j = i + 32") (simp_all add: words_def untouched_def xasm_cut_entry_post_def)
  qed
  ultimately show ?thesis using now(1-3) s1(3,4) by (intro exI [of _ ?t]) (simp add: xasm_frame_reg [of s1 s])
qed

lemma xasm_block2:
  assumes "xasm_frame c s" "reg s RAX = Ptr Frame (16 * (i + 32))" "reg s RCX = Ptr Frame 1008" "i < 31"
    and "\<forall>l<4. holds (xasm_cut_entry_post (b l) i) (view l s) \<and> words (b l) (i + 33) (view l s)"
  shows "\<exists>s'. go (xasm_objects data) xasm (At 2, s) (At 1, s') \<and> xasm_filling c b (i + 1) s'"
proof -
  let ?ob = "xasm_objects data"
  let ?s0 = "set_reg RAX (Ptr Frame (16 * (i + 33))) s\<lparr>flags := None\<rparr>"
  have rax: "reg ?s0 RAX = Ptr Frame (16 * (i + 33))" by simp
  have pre: "holds (xasm_cut_entry_post (b l) i) (view l ?s0) \<and> words (b l) (i + 33) (view l ?s0)" if "l < 4" for l
    using assms(5) that by simp
  obtain s1 where s1: "exec ?ob xasm_moves ?s0 = Some s1" "untouched RDX UNIV ?s0 s1" "reg s1 = reg ?s0"
      "\<forall>l<4. holds (xasm_cut_entry (b l) (i + 1)) (view l s1)"
    using exec_stretch [where x = RDX, OF xasm_moves [where g = "reg ?s0", OF rax assms(4)] pre] by blast
  have shift: "xasm_shift = gp (add_imm RAX 16) # xasm_moves" by (simp add: xasm_shift_def xasm_moves_def)
  have step: "ptr_add (Ptr Frame (16 * (i + 32))) 16 = Ptr Frame (16 * (i + 33))" by simp
  have "exec ?ob xasm_shift s = Some s1"
    unfolding shift using s1(1) by (simp only: exec.simps exec1.simps exec_general.simps assms(2) step bind.bind_lunit)
  from xasm_go [OF xasm_at(2) this] have "go ?ob xasm (At 2, s) (At 1, s1)" by simp
  moreover have "words (b l) (i + 33) (view l s1)" if "l < 4" for l
    using s1(2) assms(5) that by (simp add: words_def untouched_def)
  ultimately show ?thesis
    using assms(1,3) s1(3,4) by (intro exI [of _ s1]) (simp add: xasm_filling_def xasm_sched_def xasm_frame_reg [of s1 ?s0] add.commute)
qed

lemma xasm_fill:
  assumes "xasm_filling c b 0 s"
  shows "\<exists>s'. (go (xasm_objects data) xasm)\<^sup>+\<^sup>+ (At 1, s) (At 3, s') \<and> xasm_frame c s' \<and> (\<forall>l<4. words (b l) 64 (view l s'))"
proof -
  let ?go = "go (xasm_objects data) xasm"
  have "n \<le> 31 \<Longrightarrow> \<exists>s'. ?go\<^sup>*\<^sup>* (At 1, s) (At 1, s') \<and> xasm_filling c b n s'" for n
  proof (induction n)
    case 0
    then show ?case using assms by blast
  next
    case (Suc n)
    then obtain s1 where s1: "?go\<^sup>*\<^sup>* (At 1, s) (At 1, s1)" "xasm_filling c b n s1" by auto
    obtain s2 where s2: "?go (At 1, s1) (At (if n = 31 then 3 else 2), s2)" "xasm_frame c s2"
        "reg s2 RAX = Ptr Frame (16 * (n + 32))" "reg s2 RCX = Ptr Frame 1008"
        "\<forall>l<4. holds (xasm_cut_entry_post (b l) n) (view l s2) \<and> words (b l) (n + 33) (view l s2)"
      using xasm_block1 [OF s1(2), of data] Suc.prems by auto
    obtain s3 where "?go (At 2, s2) (At 1, s3)" "xasm_filling c b (n + 1) s3"
      using xasm_block2 [OF s2(2-4) _ s2(5), of data] Suc.prems by auto
    moreover have "?go (At 1, s1) (At 2, s2)" using s2(1) Suc.prems by simp
    ultimately show ?case using s1(1) by (metis rtranclp.rtrancl_into_rtrancl Suc_eq_plus1)
  qed
  then obtain s1 where s1: "?go\<^sup>*\<^sup>* (At 1, s) (At 1, s1)" "xasm_filling c b 31 s1" by blast
  obtain s2 where "?go (At 1, s1) (At 3, s2)" "xasm_frame c s2" "\<forall>l<4. words (b l) 64 (view l s2)"
    using xasm_block1 [OF s1(2), of data] by auto
  then show ?thesis using s1(1) by (auto intro: rtranclp_into_tranclp1)
qed

section \<open>The rounds\<close>

text \<open>At the head of the second loop.\<close>

definition xasm_rounding :: "cpu \<Rightarrow> (nat \<Rightarrow> block) \<Rightarrow> nat \<Rightarrow> cpu \<Rightarrow> bool" where
  "xasm_rounding c b n s \<longleftrightarrow> xasm_frame c s \<and> reg s RAX = Num (of_nat (4 * n)) \<and> reg s RCX = Ptr Ktab 0 \<and>
     (\<forall>l<4. holds (xasm_cut_round (b l) n) (view l s) \<and> words (b l) 64 (view l s))"

lemma xasm_block3:
  assumes "xasm_frame c s" "\<forall>l<4. words (b l) 64 (view l s)"
  shows "\<exists>s'. go (xasm_objects data) xasm (At 3, s) (At 4, s') \<and> xasm_rounding c b 0 s'"
proof -
  let ?ob = "xasm_objects data"
  let ?load = "[vbroadcastss 0 (Sym Htab 0), vbroadcastss 1 (Sym Htab 4), vbroadcastss 2 (Sym Htab 8), vbroadcastss 3 (Sym Htab 12),
    vbroadcastss 4 (Sym Htab 16), vbroadcastss 5 (Sym Htab 20), vbroadcastss 6 (Sym Htab 24), vbroadcastss 7 (Sym Htab 28)]"
  let ?s0 = "set_reg RCX (Ptr Ktab 0) (set_reg RAX (Num 0) s\<lparr>flags := None\<rparr>)"
  have triple: "lane_triple ?ob g UNIV (\<lambda>f. True) ?load (holds (xasm_cut_round p 0))" for g p
    by (rule lane_tripleI; simp add: xasm_cut_round_def H0_def)
  obtain s1 where s1: "exec ?ob ?load ?s0 = Some s1" "untouched RDX UNIV ?s0 s1" "reg s1 = reg ?s0"
      "\<forall>l<4. holds (xasm_cut_round (b l) 0) (view l s1)"
    using exec_stretch [where x = RDX and s = ?s0 and Q = "\<lambda>l. holds (xasm_cut_round (b l) 0)", OF triple TrueI] by blast
  have first: "xasm_initial = [gp (xor64 RAX RAX), gp (lea RCX (Sym Ktab 0))] @ ?load" by (simp add: xasm_initial_def)
  have "exec ?ob xasm_initial s = Some s1"
    unfolding first using s1(1) by (subst exec_append) (simp add: at_addr_def)
  from xasm_go [OF xasm_at(3) this] have "go ?ob xasm (At 3, s) (At 4, s1)" by simp
  moreover have "xasm_rounding c b 0 s1"
    using assms s1(2-4) by (simp add: xasm_rounding_def xasm_frame_reg [of s1 ?s0] words_def untouched_def)
  ultimately show ?thesis by blast
qed

lemma xasm_block4:
  assumes "xasm_rounding c b n s" "n < 64"
  shows "\<exists>s'. go (xasm_objects data) xasm (At 4, s) (At (if n = 63 then 6 else 5), s') \<and> xasm_frame c s' \<and>
    reg s' RAX = Num (of_nat (4 * n)) \<and> reg s' RCX = Ptr Ktab 0 \<and>
    (\<forall>l<4. holds (xasm_cut_round (b l) (n + 1)) (view l s') \<and> words (b l) 64 (view l s'))"
proof -
  let ?ob = "xasm_objects data"
  have now: "reg s RSP = Ptr Frame 0" "reg s RCX = Ptr Ktab 0" "reg s RAX = Num (of_nat (4 * n))" "xasm_frame c s"
    "\<forall>l<4. holds (xasm_cut_round (b l) n) (view l s) \<and> words (b l) 64 (view l s)"
    using assms(1) by (simp_all add: xasm_rounding_def xasm_frame_def)
  have pre: "holds (xasm_cut_round (b l) n) (view l s) \<and> words (b l) 64 (view l s)" if "l < 4" for l
    using now(5) that by blast
  obtain s1 where s1: "exec ?ob xasm_round s = Some s1" "untouched RDX UNIV s s1" "reg s1 = reg s"
      "\<forall>l<4. holds (xasm_cut_round (b l) (n + 1)) (view l s1)"
    using exec_stretch [where x = RDX, OF xasm_round [where g = "reg s", OF now(1-3) assms(2)] pre] by blast
  let ?t = "s1\<lparr>flags := Some (n = 63, n < 63)\<rparr>"
  have "of_nat (4 * n) = (252 :: u64) \<longleftrightarrow> n = 63" "of_nat (4 * n) < (252 :: u64) \<longleftrightarrow> n < 63"
    using u64_index [of "4 * n" 252] assms(2) by auto
  then have "exec ?ob (xasm_round @ [gp (cmp_imm RAX 252)]) s = Some ?t"
    unfolding exec_then [OF s1(1)] using now(3) s1(3) by (simp add: compare_def)
  from xasm_go [OF xasm_at(4) this] have "go ?ob xasm (At 4, s) (At (if n = 63 then 6 else 5), ?t)" by simp
  then show ?thesis using now s1(2-4)
    by (intro exI [of _ ?t]) (simp add: xasm_frame_reg [of s1 s] words_def untouched_def)
qed

lemma xasm_rounds:
  assumes "xasm_rounding c b 0 s"
  shows "\<exists>s'. (go (xasm_objects data) xasm)\<^sup>+\<^sup>+ (At 4, s) (At 6, s') \<and> xasm_frame c s' \<and>
    (\<forall>l<4. holds (xasm_cut_round (b l) 64) (view l s'))"
proof -
  let ?go = "go (xasm_objects data) xasm"
  have "n \<le> 63 \<Longrightarrow> \<exists>s'. ?go\<^sup>*\<^sup>* (At 4, s) (At 4, s') \<and> xasm_rounding c b n s'" for n
  proof (induction n)
    case 0
    then show ?case using assms by blast
  next
    case (Suc n)
    then obtain s1 where s1: "?go\<^sup>*\<^sup>* (At 4, s) (At 4, s1)" "xasm_rounding c b n s1" by auto
    obtain s2 where s2: "?go (At 4, s1) (At (if n = 63 then 6 else 5), s2)" "xasm_frame c s2"
        "reg s2 RAX = Num (of_nat (4 * n))" "reg s2 RCX = Ptr Ktab 0"
        "\<forall>l<4. holds (xasm_cut_round (b l) (n + 1)) (view l s2) \<and> words (b l) 64 (view l s2)"
      using xasm_block4 [OF s1(2), of data] Suc.prems by auto
    let ?s3 = "set_reg RAX (Num (of_nat (4 * (n + 1)))) s2\<lparr>flags := None\<rparr>"
    have "exec (xasm_objects data) [gp (add_imm RAX 4)] s2 = Some ?s3" using s2(3) by (simp add: algebra_simps)
    from xasm_go [OF xasm_at(5) this] have s3: "?go (At 5, s2) (At 4, ?s3)" by simp
    have "xasm_rounding c b (n + 1) ?s3" using s2(2,4,5) by (simp add: xasm_rounding_def)
    moreover have "?go (At 4, s1) (At 5, s2)" using s2(1) Suc.prems by simp
    ultimately show ?case using s1(1) s3 by (metis rtranclp.rtrancl_into_rtrancl Suc_eq_plus1)
  qed
  then obtain s1 where s1: "?go\<^sup>*\<^sup>* (At 4, s) (At 4, s1)" "xasm_rounding c b 63 s1" by blast
  obtain s2 where "?go (At 4, s1) (At 6, s2)" "xasm_frame c s2" "\<forall>l<4. holds (xasm_cut_round (b l) 64) (view l s2)"
    using xasm_block4 [OF s1(2), of data] by auto
  then show ?thesis using s1(1) by (auto intro: rtranclp_into_tranclp1)
qed

section \<open>The result\<close>

definition be_digest :: "block \<Rightarrow> u32 list" where
  "be_digest p = map (\<lambda>n. bswap32 (digest_word p n)) [0..<8]"

definition be_half :: "block \<Rightarrow> nat \<Rightarrow> m128" where
  "be_half p n = M128 (bswap32 (digest_word p n)) (bswap32 (digest_word p (n + 1))) (bswap32 (digest_word p (n + 2)))
     (bswap32 (digest_word p (n + 3)))"

lemma xasm_transpose_exec:
  assumes "\<forall>l<4. holds [(Xr 0, digest_word (b l) 0), (Xr 1, digest_word (b l) 1), (Xr 2, digest_word (b l) 2), (Xr 3, digest_word (b l) 3),
       (Xr 4, digest_word (b l) 4), (Xr 5, digest_word (b l) 5), (Xr 6, digest_word (b l) 6), (Xr 7, digest_word (b l) 7)] (view l s)"
  shows "\<exists>s'. exec (xasm_objects data) (xasm_unpack @ xasm_shuffle) s = Some s' \<and> reg s' = reg s \<and> mem s' = mem s \<and>
    xmm s' 0 = be_half (b 0) 0 \<and> xmm s' 4 = be_half (b 0) 4 \<and> xmm s' 1 = be_half (b 1) 0 \<and> xmm s' 5 = be_half (b 1) 4 \<and>
    xmm s' 2 = be_half (b 2) 0 \<and> xmm s' 6 = be_half (b 2) 4 \<and> xmm s' 3 = be_half (b 3) 0 \<and> xmm s' 7 = be_half (b 3) 4"
proof -
  have r: "xmm s n = vec4 (\<lambda>l. F l)" if "\<And>l. l < 4 \<Longrightarrow> view l s (Xr n) = F l" for n F
    unfolding xmm_vec4 by (rule vec4_cong) (rule that)
  have regs: "xmm s 0 = vec4 (\<lambda>l. digest_word (b l) 0)" "xmm s 1 = vec4 (\<lambda>l. digest_word (b l) 1)"
    "xmm s 2 = vec4 (\<lambda>l. digest_word (b l) 2)" "xmm s 3 = vec4 (\<lambda>l. digest_word (b l) 3)"
    "xmm s 4 = vec4 (\<lambda>l. digest_word (b l) 4)" "xmm s 5 = vec4 (\<lambda>l. digest_word (b l) 5)"
    "xmm s 6 = vec4 (\<lambda>l. digest_word (b l) 6)" "xmm s 7 = vec4 (\<lambda>l. digest_word (b l) 7)"
    using assms by (auto intro!: r)
  have mask: "load16 (xasm_objects data) s Punpack 0 = Some (M128 0x00020406 0x080a0c0e 0x01030507 0x090b0d0f)" for s
    by (simp add: load16_def load4_def rd_def)
  show ?thesis
    by (simp add: xasm_unpack_def xasm_shuffle_def at_addr_def mask regs vec4_def punpack_mask)
      (simp add: punpack [simplified] regs [simplified] vec4_def be_half_def numeral_2_eq_2 [symmetric])
qed

lemma xasm_block6:
  assumes "xasm_frame c s" "\<forall>l<4. holds (xasm_cut_round (b l) 64) (view l s)"
  shows "\<exists>s'. go (xasm_objects data) xasm (At 6, s) (Done, s') \<and>
    (\<forall>r. r \<noteq> RAX \<and> r \<noteq> RCX \<longrightarrow> reg s' r = reg (call_x4 c) r) \<and>
    map (mem s' Output) [0..<32] = concat (map (\<lambda>l. be_digest (b l)) [0, 1, 2, 3])"
proof -
  let ?ob = "xasm_objects data"
  have pre: "holds (xasm_cut_round (b l) 64) (view l s)" if "l < 4" for l using assms(2) that by blast
  obtain s1 where s1: "exec ?ob xasm_add_state s = Some s1" "reg s1 = reg s"
      "\<forall>l<4. holds [(Xr 0, digest_word (b l) 0), (Xr 1, digest_word (b l) 1), (Xr 2, digest_word (b l) 2), (Xr 3, digest_word (b l) 3),
       (Xr 4, digest_word (b l) 4), (Xr 5, digest_word (b l) 5), (Xr 6, digest_word (b l) 6), (Xr 7, digest_word (b l) 7)] (view l s1)"
    using exec_stretch [OF xasm_add_state [where g = "reg s"] pre] by blast
  obtain s2 where s2: "exec ?ob (xasm_unpack @ xasm_shuffle) s1 = Some s2" "reg s2 = reg s1"
    "xmm s2 0 = be_half (b 0) 0" "xmm s2 4 = be_half (b 0) 4" "xmm s2 1 = be_half (b 1) 0" "xmm s2 5 = be_half (b 1) 4"
    "xmm s2 2 = be_half (b 2) 0" "xmm s2 6 = be_half (b 2) 4" "xmm s2 3 = be_half (b 3) 0" "xmm s2 7 = be_half (b 3) 4"
    using xasm_transpose_exec [OF s1(3), of data] by blast
  have out: "reg s2 RDI = Ptr Output 0" "reg s2 RSP = Ptr Frame 0" using assms(1) s1(2) s2(2) by (simp_all add: xasm_frame_def)
  have halves: "be_digest p = lanes (be_half p 0) @ lanes (be_half p 4)" for p
    by (simp add: be_digest_def be_half_def upt_rec eval_nat_numeral)
  obtain s3 where s3: "exec ?ob xasm_store s2 = Some s3" "reg s3 = (reg s2)(RSP := Ptr Frame 1032)"
      "map (mem s3 Output) [0..<32] = concat (map (\<lambda>l. be_digest (b l)) [0, 1, 2, 3])"
    by (simp add: xasm_store_def at_addr_def store16_def store4_def out)
      (simp add: s2(3-) s2(5) [simplified] halves upt_rec be_half_def)
  have "exec ?ob (xasm_add_state @ xasm_unpack @ xasm_shuffle @ xasm_store) s = Some s3"
    unfolding exec_then [OF s1(1)] using exec_then [OF s2(1), of xasm_store] s3(1) by simp
  from xasm_go [OF xasm_at(6) this] have "go ?ob xasm (At 6, s) (Done, s3)" by simp
  moreover have "\<forall>r. r \<noteq> RAX \<and> r \<noteq> RCX \<longrightarrow> reg s3 r = reg (call_x4 c) r"
    using assms(1) s1(2) s2(2) s3(2) by (simp add: xasm_frame_def call_x4_def)
  ultimately show ?thesis using s3(3) by blast
qed

lemma be_digest_sum: "be_digest p = map bswap32 (map2 (+) H0 (regs_list (block_rounds p 64)))"
  by (rule nth_equalityI) (simp_all add: be_digest_def digest_word_def H0_def)

lemma list8: "length bs = 8 \<Longrightarrow> \<exists>b0 b1 b2 b3 b4 b5 b6 b7. bs = [b0, b1, b2, b3, b4, b5, b6, b7]"
  by (auto simp: length_Suc_conv numeral_eq_Suc)

lemma message_digest:
  assumes "length data = 32" "l < 4"
  shows "sha256 (take 8 (drop (8 * l) data)) = concat (map le32_bytes (be_digest (byte_block data l)))"
proof -
  have "length (take 8 (drop (8 * l) data)) = 8" using assms by simp
  then obtain b0 b1 b2 b3 b4 b5 b6 b7 where bytes: "take 8 (drop (8 * l) data) = [b0, b1, b2, b3, b4, b5, b6, b7]"
    using list8 by blast
  have at: "drop (8 * l) data ! i = [b0, b1, b2, b3, b4, b5, b6, b7] ! i" if "i < 8" for i
    using that nth_take [of i 8 "drop (8 * l) data"] by (simp add: bytes)
  have block: "byte_block data l = (be32 b0 b1 b2 b3, be32 b4 b5 b6 b7)"
    using at [of 0] at [of 1] at [of 2] at [of 3] at [of 4] at [of 5] at [of 6] at [of 7]
    by (simp add: byte_block_def lane_w0_def lane_w1_def data_w0_def data_w1_def load32_def bswap32_def be32_def
        le32_bytes_le32 [unfolded le32_bytes_def, simplified] numeral_2_eq_2 [symmetric])
  have be: "le32_bytes (bswap32 w) = be32_bytes w" for w by (simp add: bswap32_def le32_bytes_le32 be32_bytes_def)
  show ?thesis by (simp add: bytes sha256_8 block be_digest_sum be comp_def digest8_def block_rounds_def)
qed

text \<open>
  C15: the hand-written assembly of the four-lane hash function ends, makes no access outside the memory it
  reserves, its constants, the input and the output, restores the stack pointer and all registers but \<open>rax\<close> and
  \<open>rcx\<close>, and leaves the SHA-256 digests of the four messages in the output, one after the other.
\<close>

theorem sha256x4_asm_correct:
  assumes "length data = 32"
  shows "\<exists>s. sha256x4_asm c data = Some (Done, s) \<and>
    output_bytes s = concat (map (\<lambda>l. sha256 (take 8 (drop (8 * l) data))) [0, 1, 2, 3]) \<and>
    (\<forall>r. r \<noteq> RAX \<and> r \<noteq> RCX \<longrightarrow> reg s r = reg (call_x4 c) r)"
proof -
  let ?go = "go (xasm_objects data) xasm"
  let ?b = "byte_block data"
  obtain s0 where s0: "?go (At 0, call_x4 c) (At 1, s0)" "xasm_filling c ?b 0 s0" using xasm_block0 [OF assms] by blast
  obtain s1 where s1: "?go\<^sup>+\<^sup>+ (At 1, s0) (At 3, s1)" "xasm_frame c s1" "\<forall>l<4. words (?b l) 64 (view l s1)"
    using xasm_fill [OF s0(2)] by blast
  obtain s2 where s2: "?go (At 3, s1) (At 4, s2)" "xasm_rounding c ?b 0 s2" using xasm_block3 [OF s1(2,3)] by blast
  obtain s3 where s3: "?go\<^sup>+\<^sup>+ (At 4, s2) (At 6, s3)" "xasm_frame c s3" "\<forall>l<4. holds (xasm_cut_round (?b l) 64) (view l s3)"
    using xasm_rounds [OF s2(2)] by blast
  obtain s4 where s4: "?go (At 6, s3) (Done, s4)" "\<forall>r. r \<noteq> RAX \<and> r \<noteq> RCX \<longrightarrow> reg s4 r = reg (call_x4 c) r"
      "map (mem s4 Output) [0..<32] = concat (map (\<lambda>l. be_digest (?b l)) [0, 1, 2, 3])"
    using xasm_block6 [OF s3(2,3)] by blast
  have "?go\<^sup>+\<^sup>+ (At 0, call_x4 c) (Done, s4)"
    using s0(1) s1(1) s2(1) s3(1) s4(1) by (meson tranclp_trans tranclp.r_into_trancl)
  then have "sha256x4_asm c data = Some (Done, s4)"
    using run_go [of "xasm_objects data" xasm "(At 0, call_x4 c)" "(Done, s4)"]
    by (simp add: sha256x4_asm_def run_def run_end)
  moreover have "output_bytes s4 = concat (map le32_bytes (map (mem s4 Output) [0..<32]))" by (simp add: output_bytes_def comp_def)
  then have "output_bytes s4 = concat (map (\<lambda>l. sha256 (take 8 (drop (8 * l) data))) [0, 1, 2, 3])"
    unfolding s4(3) using message_digest [OF assms, of 0] message_digest [OF assms, of 1] message_digest [OF assms, of 2]
      message_digest [OF assms, of 3] by simp
  ultimately show ?thesis using s4(2) by blast
qed

theorem sha256x4_asm_correct_witness:
  "\<exists>s. sha256x4_asm idle_cpu (replicate 32 9) = Some (Done, s) \<and>
    output_bytes s = concat (replicate 4 (sha256 (replicate 8 9))) \<and> reg s RBX = Num 7"
  using sha256x4_asm_correct [of "replicate 32 9" idle_cpu] by (auto simp: idle_cpu_def call_x4_def numeral_eq_Suc)

end
