(* ===== verification/Server.thy ===== *)
theory Server
  imports Sched_Submit Sched_Rand Sched_Linked_List
begin

text \<open>
  \<open>src/server/epoll.c\<close> with the dispatch of \<open>src/scheduler/generic.h\<close>: connections, the bytes that have arrived on
  them, and the events the server handles. The scheduler is an argument, as in \<open>generic.h\<close>; what the server needs of
  it is the locale \<open>request_scheduler\<close>, which each of the three schedulers is shown to satisfy. What the kernel
  answers to a system call is part of the event that causes it.
\<close>

section \<open>State\<close>

datatype server_event_type = SERVER_ACCEPT | CLIENT_EVENT

record socket =
  inbuf :: "u8 list"
  hung_up :: bool

record 's epoll_server =
  es_sched :: 's
  es_world :: world
  es_sockets :: "u32 \<rightharpoonup> socket"
  es_interest :: "u32 \<rightharpoonup> server_event_type"

text \<open>\<open>epoll_server_init\<close>, on the listening socket \<open>fd\<close> and with the scheduler it creates.\<close>

definition epoll_server_init :: "u32 \<Rightarrow> 's \<Rightarrow> 's epoll_server" where
  "epoll_server_init fd s =
     \<lparr>es_sched = s, es_world = \<lparr>recipients = Map.empty, events = []\<rparr>, es_sockets = Map.empty,
      es_interest = [fd \<mapsto> SERVER_ACCEPT]\<rparr>"

text \<open>Closing a descriptor also takes it off the interest list.\<close>

definition close_fd :: "u32 \<Rightarrow> 's epoll_server \<Rightarrow> 's epoll_server" where
  "close_fd fd es = es\<lparr>es_sockets := (es_sockets es)(fd := None), es_interest := (es_interest es)(fd := None)\<rparr>"

section \<open>The handlers\<close>

text \<open>The results of \<open>accept\<close>, \<open>fcntl\<close>, \<open>setsockopt\<close> and \<open>epoll_ctl\<close>.\<close>

record accept_results =
  ar_fd :: "u32 option"
  ar_nonblock_ok :: bool
  ar_nodelay_ok :: bool
  ar_epoll_ok :: bool

definition accept_client :: "accept_results \<Rightarrow> 's epoll_server \<Rightarrow> 's epoll_server" where
  "accept_client ar es =
     (case ar_fd ar of
        None \<Rightarrow> es
      | Some fd \<Rightarrow>
          (let es = es\<lparr>es_sockets := (es_sockets es)(fd \<mapsto> \<lparr>inbuf = [], hung_up = False\<rparr>)\<rparr>
           in if \<not> ar_nonblock_ok ar then close_fd fd es
              else if \<not> ar_nodelay_ok ar then close_fd fd es
              else if \<not> ar_epoll_ok ar then close_fd fd es
              else es\<lparr>es_interest := (es_interest es)(fd \<mapsto> CLIENT_EVENT)\<rparr>))"

text \<open>\<open>recv\<close> on a socket that does not block takes the bytes that are there, at most \<open>n\<close>.\<close>

definition recv :: "nat \<Rightarrow> u32 \<Rightarrow> 's epoll_server \<Rightarrow> u8 list \<times> 's epoll_server" where
  "recv n fd es =
     (case es_sockets es fd of
        None \<Rightarrow> ([], es)
      | Some sk \<Rightarrow> (take n (inbuf sk),
          es\<lparr>es_sockets := (es_sockets es)(fd \<mapsto> sk\<lparr>inbuf := drop n (inbuf sk)\<rparr>)\<rparr>))"

text \<open>The sockets that a submission has closed.\<close>

definition apply_closes :: "event list \<Rightarrow> 's epoll_server \<Rightarrow> 's epoll_server" where
  "apply_closes evs es = fold (\<lambda>e es. case e of Close fd \<Rightarrow> close_fd fd es | _ \<Rightarrow> es) evs es"

type_synonym 's submit = "request \<Rightarrow> nat option \<Rightarrow> 's \<Rightarrow> world \<Rightarrow> (u32 \<times> 's \<times> world) option"

text \<open>\<open>p\<close> is the address of the new recipient.\<close>

definition consume_request :: "'s submit \<Rightarrow> nat \<Rightarrow> u32 \<Rightarrow> 's epoll_server \<Rightarrow> 's epoll_server option" where
  "consume_request submit p client_fd es =
     (case recv PROTOCOL_REQ_SIZE client_fd es of (bytes, es) \<Rightarrow>
        if length bytes \<noteq> PROTOCOL_REQ_SIZE then Some es
        else do {
          request \<leftarrow> request_of_memory bytes;
          let request = protocol_request_to_le request;
          let wd = scheduler_create_job_recipient p RECIPIENT_FD client_fd (es_world es);
          (_, s, wd') \<leftarrow> submit request (Some p) (es_sched es) wd;
          Some (apply_closes (drop (length (events wd)) (events wd')) (es\<lparr>es_sched := s, es_world := wd'\<rparr>))
        })"

definition remove_client :: "u32 \<Rightarrow> 's epoll_server \<Rightarrow> 's epoll_server" where
  "remove_client fd es = es\<lparr>es_interest := (es_interest es)(fd := None)\<rparr>"

text \<open>An event of \<open>epoll_wait\<close>: a connection to accept, or a client with \<open>EPOLLIN\<close> and \<open>EPOLLHUP\<close>.\<close>

datatype io_event = Accept accept_results | Client u32 bool bool nat

fun handle_event :: "'s submit \<Rightarrow> io_event \<Rightarrow> 's epoll_server \<Rightarrow> 's epoll_server option" where
  "handle_event submit (Accept ar) es = Some (accept_client ar es)"
| "handle_event submit (Client fd readable hup p) es =
     (if readable then consume_request submit p fd es
      else if hup then Some (remove_client fd es)
      else Some es)"

fun epoll_server_poll :: "'s submit \<Rightarrow> io_event list \<Rightarrow> 's epoll_server \<Rightarrow> 's epoll_server option" where
  "epoll_server_poll submit [] es = Some es"
| "epoll_server_poll submit (e # new_events) es =
     do { es \<leftarrow> handle_event submit e es; epoll_server_poll submit new_events es }"

text \<open>Bytes that arrive.\<close>

definition deliver :: "u32 \<Rightarrow> u8 list \<Rightarrow> 's epoll_server \<Rightarrow> 's epoll_server" where
  "deliver fd bs es =
     es\<lparr>es_sockets := (es_sockets es)(fd := map_option (\<lambda>sk. sk\<lparr>inbuf := inbuf sk @ bs\<rparr>) (es_sockets es fd))\<rparr>"

section \<open>The scheduler as the server uses it\<close>

text \<open>
  \<open>holds s m\<close>: the scheduler can take a request, and the answers it knows are \<open>m\<close>. The contract of a submission:
  it succeeds; a known answer is sent and the connection closed; otherwise nothing is sent.
\<close>

definition answered :: "world \<Rightarrow> nat \<Rightarrow> u32 \<Rightarrow> u64 \<Rightarrow> world \<Rightarrow> bool" where
  "answered wd p fd a wd' \<longleftrightarrow>
     events wd' = events wd @ [Send fd (be64 a), Close fd] \<and> recipients wd' = (recipients wd)(p := None)"

locale request_scheduler =
  fixes submit :: "'s submit"
    and holds :: "'s \<Rightarrow> (u8 list \<rightharpoonup> u64) \<Rightarrow> bool"
  assumes known: "holds s m \<Longrightarrow> length (req_hash r) = SHA256_DIGEST_LENGTH \<Longrightarrow> m (req_hash r) = Some a \<Longrightarrow>
      recipients wd p = Some \<lparr>rtype = RECIPIENT_FD, rdata = fd\<rparr> \<Longrightarrow>
      \<exists>s' wd'. submit r (Some p) s wd = Some (SCHEDULER_NO_JOB_ID_SENTINEL, s', wd') \<and> holds s' m \<and> answered wd p fd a wd'"
    and unknown: "holds s m \<Longrightarrow> length (req_hash r) = SHA256_DIGEST_LENGTH \<Longrightarrow> m (req_hash r) = None \<Longrightarrow>
      \<exists>jid s'. submit r (Some p) s wd = Some (jid, s', wd)"

text \<open>A request that has arrived in full.\<close>

definition parsed :: "u8 list \<Rightarrow> u64 \<Rightarrow> u64 \<Rightarrow> u8 \<Rightarrow> request" where
  "parsed hash start stop pri =
     \<lparr>req_hash = sha256_normalize hash, req_start = start, req_end = stop, req_priority = pri\<rparr>"

lemma consume_full_request:
  assumes "es_sockets es fd = Some sk" "inbuf sk = request_wire hash start stop pri @ rest" "length hash = 32"
  shows "consume_request submit p fd es =
    do {
      let wd = scheduler_create_job_recipient p RECIPIENT_FD fd (es_world es);
      (_, s, wd') \<leftarrow> submit (parsed hash start stop pri) (Some p) (es_sched es) wd;
      Some (apply_closes (drop (length (events wd)) (events wd'))
        (es\<lparr>es_sockets := (es_sockets es)(fd \<mapsto> sk\<lparr>inbuf := rest\<rparr>), es_sched := s, es_world := wd'\<rparr>))
    }"
proof -
  obtain r where "request_of_memory (request_wire hash start stop pri) = Some r"
      "protocol_request_to_le r = parsed hash start stop pri"
    using request_wire_read [OF assms(3), of start stop pri] by (auto simp: parsed_def)
  moreover have "recv PROTOCOL_REQ_SIZE fd es = (request_wire hash start stop pri,
      es\<lparr>es_sockets := (es_sockets es)(fd \<mapsto> sk\<lparr>inbuf := rest\<rparr>)\<rparr>)"
    using assms by (simp add: recv_def)
  ultimately show ?thesis
    using assms(3) by (simp add: consume_request_def Let_def)
qed

lemma apply_answer: "apply_closes [Send fd x, Close fd] es = close_fd fd es"
  by (simp add: apply_closes_def)

lemma create_recipient_simps [simp]:
  "events (scheduler_create_job_recipient p t d wd) = events wd"
  "recipients (scheduler_create_job_recipient p t d wd) = (recipients wd)(p \<mapsto> \<lparr>rtype = t, rdata = d\<rparr>)"
  by (simp_all add: scheduler_create_job_recipient_def)

context request_scheduler
begin

lemma known_request:
  assumes "es_sockets es fd = Some sk" "inbuf sk = request_wire hash start stop pri @ rest" "length hash = 32"
    and "holds (es_sched es) m" "m (sha256_normalize hash) = Some a"
  shows "\<exists>es'. handle_event submit (Client fd True hup p) es = Some es' \<and>
    events (es_world es') = events (es_world es) @ [Send fd (be64 a), Close fd] \<and>
    recipients (es_world es') p = None \<and> es_sockets es' fd = None \<and> es_interest es' fd = None \<and> holds (es_sched es') m"
proof -
  let ?wd = "scheduler_create_job_recipient p RECIPIENT_FD fd (es_world es)"
  obtain s' wd' where s': "submit (parsed hash start stop pri) (Some p) (es_sched es) ?wd =
        Some (SCHEDULER_NO_JOB_ID_SENTINEL, s', wd')" "holds s' m" "answered ?wd p fd a wd'"
    using known [OF assms(4), of "parsed hash start stop pri" a ?wd p fd] assms(3,5) length_normalize [OF assms(3)]
    by (auto simp: parsed_def SHA256_DIGEST_LENGTH_def)
  then show ?thesis
    using consume_full_request [OF assms(1-3), of submit p]
    by (simp add: answered_def apply_answer close_fd_def Let_def)
qed

lemma unknown_request:
  assumes "es_sockets es fd = Some sk" "inbuf sk = request_wire hash start stop pri @ rest" "length hash = 32"
    and "holds (es_sched es) m" "m (sha256_normalize hash) = None"
  shows "\<exists>jid es'. handle_event submit (Client fd True hup p) es = Some es' \<and>
    submit (parsed hash start stop pri) (Some p) (es_sched es) (scheduler_create_job_recipient p RECIPIENT_FD fd (es_world es)) =
      Some (jid, es_sched es', es_world es') \<and>
    es_world es' = scheduler_create_job_recipient p RECIPIENT_FD fd (es_world es) \<and>
    es_sockets es' fd = Some (sk\<lparr>inbuf := rest\<rparr>) \<and> es_interest es' = es_interest es"
proof -
  let ?wd = "scheduler_create_job_recipient p RECIPIENT_FD fd (es_world es)"
  obtain jid s' where "submit (parsed hash start stop pri) (Some p) (es_sched es) ?wd = Some (jid, s', ?wd)"
    using unknown [OF assms(4), of "parsed hash start stop pri" p ?wd] assms(3,5) length_normalize [OF assms(3)]
    by (auto simp: parsed_def SHA256_DIGEST_LENGTH_def)
  then show ?thesis
    using consume_full_request [OF assms(1-3), of submit p] by (simp add: apply_closes_def Let_def)
qed

end

section \<open>The three schedulers\<close>

text \<open>The priority scheduler with its cache, the configured one.\<close>

definition priority_submit :: "(nat \<Rightarrow> nat \<Rightarrow> u8 list) \<Rightarrow> u8 list \<Rightarrow> (scheduler \<times> cache) submit" where
  "priority_submit junk gjunk request recipient = (\<lambda>(s, c) wd.
     do {
       (jid, srv) \<leftarrow> scheduler_priority_submit junk gjunk request recipient \<lparr>sched = s, answers = c, net = wd\<rparr>;
       Some (jid, (sched srv, answers srv), net srv)
     })"

definition priority_holds ::
  "(nat \<Rightarrow> nat \<Rightarrow> u8 list) \<Rightarrow> u8 list \<Rightarrow> scheduler \<times> cache \<Rightarrow> (u8 list \<rightharpoonup> u64) \<Rightarrow> bool" where
  "priority_holds junk gjunk = (\<lambda>(s, c) m. \<exists>P m0 es jm. cache_rep P c m0 es \<and> P + 5 * length es < 2 ^ 28 \<and>
     m = with_pending m0 es \<and> stack_ok junk gjunk \<and> sched_inv s jm \<and> fl_room (jobs s) \<and> heap_room (jobs_r s))"

lemma notify_answered:
  "recipients wd p = Some \<lparr>rtype = RECIPIENT_FD, rdata = fd\<rparr> \<Longrightarrow>
     \<exists>wd'. scheduler_job_notify_recipient (Some p) a wd = Some wd' \<and> answered wd p fd a wd'"
  using notify_fd [of wd p fd a] by (simp add: answered_def)

lemma with_pending_Nil [simp]: "with_pending m [] = m"
  by (simp add: with_pending_def)

interpretation priority: request_scheduler "priority_submit junk gjunk" "priority_holds junk gjunk" for junk gjunk
proof
  fix sc :: "scheduler \<times> cache" and m and r :: request and a :: u64 and wd p fd
  assume h: "priority_holds junk gjunk sc m" and len: "length (req_hash r) = SHA256_DIGEST_LENGTH"
  obtain s c where sc: "sc = (s, c)" by (cases sc)
  obtain P m0 es jm where cache: "cache_rep P c m0 es" "P + 5 * length es < 2 ^ 28" "stack_ok junk gjunk"
      and m: "m = with_pending m0 es" and s: "sched_inv s jm" "fl_room (jobs s)" "heap_room (jobs_r s)"
    using h sc by (auto simp: priority_holds_def)
  obtain c' where c': "cache_process_pending junk c = Some c'" "cache_rep (P + 5 * length es) c' m []"
      "cache_get gjunk (req_hash r) c' = Some (m (req_hash r))"
    using cache_consult [OF cache len] m by blast
  show "\<exists>s' wd'. priority_submit junk gjunk r (Some p) sc wd = Some (SCHEDULER_NO_JOB_ID_SENTINEL, s', wd') \<and>
      priority_holds junk gjunk s' m \<and> answered wd p fd a wd'"
    if hit: "m (req_hash r) = Some a" "recipients wd p = Some \<lparr>rtype = RECIPIENT_FD, rdata = fd\<rparr>"
  proof -
    obtain wd' where "scheduler_job_notify_recipient (Some p) a wd = Some wd'" "answered wd p fd a wd'"
      using notify_answered [OF hit(2)] by blast
    moreover have "priority_holds junk gjunk (s, c') m"
      unfolding priority_holds_def prod.case
      by (intro exI [of _ "P + 5 * length es"] exI [of _ m] exI [of _ "[]"] exI [of _ jm]) (use c'(2) cache(2,3) s in simp)
    ultimately show ?thesis using c' hit(1) by (simp add: priority_submit_def scheduler_priority_submit_def sc)
  qed
  obtain s' where "submit_job r (Some p) s = Some (last_job_id s + 1, s')"
    using submit_correct [OF s, of r "Some p"] by blast
  then show "\<exists>jid s'. priority_submit junk gjunk r (Some p) sc wd = Some (jid, s', wd)" if "m (req_hash r) = None"
    using c' that by (simp add: priority_submit_def scheduler_priority_submit_def sc)
qed

text \<open>The random scheduler.\<close>

definition rand_submit :: "(nat \<Rightarrow> nat \<Rightarrow> u8 list) \<Rightarrow> u8 list \<Rightarrow> rand_scheduler submit" where
  "rand_submit junk gjunk request recipient s wd = scheduler_rand_submit junk gjunk request recipient (s, wd)"

definition rand_holds ::
  "(nat \<Rightarrow> nat \<Rightarrow> u8 list) \<Rightarrow> u8 list \<Rightarrow> rand_scheduler \<Rightarrow> (u8 list \<rightharpoonup> u64) \<Rightarrow> bool" where
  "rand_holds junk gjunk s m \<longleftrightarrow> (\<exists>P m0 es qs js. cache_rep P (rs_cache s) m0 es \<and> P + 5 * length es < 2 ^ 28 \<and>
     m = with_pending m0 es \<and> stack_ok junk gjunk \<and> rand_rep s qs js)"

interpretation random: request_scheduler "rand_submit junk gjunk" "rand_holds junk gjunk" for junk gjunk
proof
  fix s :: rand_scheduler and m and r :: request and a :: u64 and wd p fd
  assume h: "rand_holds junk gjunk s m" and len: "length (req_hash r) = SHA256_DIGEST_LENGTH"
  obtain P m0 es qs js where cache: "cache_rep P (rs_cache s) m0 es" "P + 5 * length es < 2 ^ 28" "stack_ok junk gjunk"
      and m: "m = with_pending m0 es" and rep: "rand_rep s qs js"
    using h by (auto simp: rand_holds_def)
  obtain c where c: "cache_process_pending junk (rs_cache s) = Some c" "cache_rep (P + 5 * length es) c m []"
      "cache_get gjunk (req_hash r) c = Some (m (req_hash r))"
    using cache_consult [OF cache len] m by blast
  show "\<exists>s' wd'. rand_submit junk gjunk r (Some p) s wd = Some (SCHEDULER_NO_JOB_ID_SENTINEL, s', wd') \<and>
      rand_holds junk gjunk s' m \<and> answered wd p fd a wd'"
    if hit: "m (req_hash r) = Some a" "recipients wd p = Some \<lparr>rtype = RECIPIENT_FD, rdata = fd\<rparr>"
  proof -
    obtain wd' where "scheduler_job_notify_recipient (Some p) a wd = Some wd'" "answered wd p fd a wd'"
      using notify_answered [OF hit(2)] by blast
    moreover have "rand_holds junk gjunk (s\<lparr>rs_cache := c\<rparr>) m"
      unfolding rand_holds_def
      by (intro exI [of _ "P + 5 * length es"] exI [of _ m] exI [of _ "[]"] exI [of _ qs] exI [of _ js])
        (use c(2) cache rep in simp)
    ultimately show ?thesis using c hit(1) by (simp add: rand_submit_def scheduler_rand_submit_def)
  qed
  show "\<exists>jid s'. rand_submit junk gjunk r (Some p) s wd = Some (jid, s', wd)" if "m (req_hash r) = None"
    using rand_submit_miss [OF rep cache len] that m by (force simp: rand_submit_def)
qed

text \<open>The linked-list scheduler; \<open>alloc\<close> is the allocator, which returns an address that is not in use.\<close>

definition linked_list_submit ::
  "(nat \<Rightarrow> nat \<Rightarrow> u8 list) \<Rightarrow> u8 list \<Rightarrow> (ll_store \<Rightarrow> nat) \<Rightarrow> ll_scheduler submit" where
  "linked_list_submit junk gjunk alloc request recipient s wd =
     scheduler_linked_list_submit junk gjunk (alloc (ll_jobs s)) request recipient (s, wd)"

definition linked_list_holds ::
  "(nat \<Rightarrow> nat \<Rightarrow> u8 list) \<Rightarrow> u8 list \<Rightarrow> (ll_store \<Rightarrow> nat) \<Rightarrow> ll_scheduler \<Rightarrow> (u8 list \<rightharpoonup> u64) \<Rightarrow> bool" where
  "linked_list_holds junk gjunk alloc s m \<longleftrightarrow> (\<exists>P m0 es as. cache_rep P (ll_cache s) m0 es \<and> P + 5 * length es < 2 ^ 28 \<and>
     m = with_pending m0 es \<and> stack_ok junk gjunk \<and> ll_chain s as \<and> alloc (ll_jobs s) \<notin> dom (ll_jobs s))"

interpretation linked_list: request_scheduler "linked_list_submit junk gjunk alloc" "linked_list_holds junk gjunk alloc"
  for junk gjunk alloc
proof
  fix s :: ll_scheduler and m and r :: request and a :: u64 and wd p fd
  assume h: "linked_list_holds junk gjunk alloc s m" and len: "length (req_hash r) = SHA256_DIGEST_LENGTH"
  obtain P m0 es as where cache: "cache_rep P (ll_cache s) m0 es" "P + 5 * length es < 2 ^ 28" "stack_ok junk gjunk"
      and m: "m = with_pending m0 es" and rep: "ll_chain s as" "alloc (ll_jobs s) \<notin> dom (ll_jobs s)"
    using h unfolding linked_list_holds_def by blast
  obtain c where c: "cache_process_pending junk (ll_cache s) = Some c" "cache_rep (P + 5 * length es) c m []"
      "cache_get gjunk (req_hash r) c = Some (m (req_hash r))"
    using cache_consult [OF cache len] m by blast
  have rep': "ll_chain (s\<lparr>ll_cache := c\<rparr>) as" using rep(1) by (simp add: ll_chain_def)
  show "\<exists>s' wd'. linked_list_submit junk gjunk alloc r (Some p) s wd = Some (SCHEDULER_NO_JOB_ID_SENTINEL, s', wd') \<and>
      linked_list_holds junk gjunk alloc s' m \<and> answered wd p fd a wd'"
    if hit: "m (req_hash r) = Some a" "recipients wd p = Some \<lparr>rtype = RECIPIENT_FD, rdata = fd\<rparr>"
  proof -
    obtain wd' where "scheduler_job_notify_recipient (Some p) a wd = Some wd'" "answered wd p fd a wd'"
      using notify_answered [OF hit(2)] by blast
    moreover have "linked_list_holds junk gjunk alloc (s\<lparr>ll_cache := c\<rparr>) m"
      unfolding linked_list_holds_def
      by (intro exI [of _ "P + 5 * length es"] exI [of _ m] exI [of _ "[]"] exI [of _ as]) (use c(2) cache rep(2) rep' in simp)
    ultimately show ?thesis using c hit(1) by (simp add: linked_list_submit_def scheduler_linked_list_submit_def)
  qed
  show "\<exists>jid s'. linked_list_submit junk gjunk alloc r (Some p) s wd = Some (jid, s', wd)" if "m (req_hash r) = None"
    using ll_insert_job_chain [OF rep', of "alloc (ll_jobs s)" r "Some p"] rep(2) c that
    by (force simp: linked_list_submit_def scheduler_linked_list_submit_def)
qed

section \<open>Requests from the wire to the client\<close>

text \<open>
  C31: a request of the wire format that has arrived in full, for a hash whose answer the cache holds or is about to
  take in, is answered in the same poll, whatever its range: the client is sent the eight big-endian bytes of
  the answer, its connection is closed and leaves the interest list, and its record is freed.
\<close>

theorem server_answers_known_request:
  assumes "es_sockets es fd = Some sk" "inbuf sk = request_wire hash start stop pri @ rest" "length hash = 32"
    and "priority_holds junk gjunk (es_sched es) m" "m (sha256_normalize hash) = Some a"
  shows "\<exists>es'. epoll_server_poll (priority_submit junk gjunk) [Client fd True hup p] es = Some es' \<and>
    events (es_world es') = events (es_world es) @ [Send fd (be64 a), Close fd] \<and>
    recipients (es_world es') p = None \<and> es_sockets es' fd = None \<and> es_interest es' fd = None"
  using priority.known_request [OF assms(1-4), of a hup p] assms(5) by auto

text \<open>One connection that has sent its request, and a cache with a pending answer for it.\<close>

abbreviation demo_hash :: "u8 list" where "demo_hash \<equiv> replicate 32 7"

lemma demo_holds:
  "\<exists>c. cache_insert_pending (sha256_normalize demo_hash) 77 (cache_create 8) = Some c \<and>
     priority_holds (\<lambda>_ _. replicate 32 0) (replicate 32 0) (scheduler_priority_create 8, c)
       [sha256_normalize demo_hash \<mapsto> 77]"
proof -
  have "cache_rep 8 (cache_create 8) Map.empty []" using cache_create_rep [of 8] by simp
  then obtain c where c: "cache_insert_pending (sha256_normalize demo_hash) 77 (cache_create 8) = Some c"
      "cache_rep 8 c Map.empty [\<lparr>entry_key = sha256_normalize demo_hash, entry_value = 77\<rparr>]"
    using cache_insert_pending_rep [of 8 "cache_create 8" Map.empty "[]" "sha256_normalize demo_hash" 77]
      length_normalize [of demo_hash] by (auto simp: SHA256_DIGEST_LENGTH_def)
  have "priority_holds (\<lambda>_ _. replicate 32 0) (replicate 32 0) (scheduler_priority_create 8, c)
       [sha256_normalize demo_hash \<mapsto> 77]"
    unfolding priority_holds_def prod.case
    by (intro exI [of _ 8] exI [of _ Map.empty] exI [of _ "[\<lparr>entry_key = sha256_normalize demo_hash, entry_value = 77\<rparr>]"]
        exI [of _ Map.empty])
      (use c(2) sched_inv_create create_room [of 8] in
        \<open>simp add: with_pending_def stack_ok_def buffers_def SHA256_DIGEST_LENGTH_def\<close>)
  then show ?thesis using c(1) by blast
qed

theorem server_answers_known_request_witness:
  "\<exists>c es'. cache_insert_pending (sha256_normalize demo_hash) 77 (cache_create 8) = Some c \<and>
     epoll_server_poll (priority_submit (\<lambda>_ _. replicate 32 0) (replicate 32 0)) [Client 5 True False 1]
       ((epoll_server_init 3 (scheduler_priority_create 8, c))
         \<lparr>es_sockets := [5 \<mapsto> \<lparr>inbuf = request_wire demo_hash 1 100 4, hung_up = False\<rparr>]\<rparr>) = Some es' \<and>
     events (es_world es') = [Send 5 (be64 77), Close 5]"
proof -
  obtain c where c: "cache_insert_pending (sha256_normalize demo_hash) 77 (cache_create 8) = Some c"
      "priority_holds (\<lambda>_ _. replicate 32 0) (replicate 32 0) (scheduler_priority_create 8, c)
        [sha256_normalize demo_hash \<mapsto> 77]"
    using demo_holds by blast
  let ?es = "(epoll_server_init 3 (scheduler_priority_create 8, c))
         \<lparr>es_sockets := [5 \<mapsto> \<lparr>inbuf = request_wire demo_hash 1 100 4, hung_up = False\<rparr>]\<rparr>"
  show ?thesis
    using server_answers_known_request [of ?es 5 "\<lparr>inbuf = request_wire demo_hash 1 100 4, hung_up = False\<rparr>" demo_hash
        1 100 4 "[]" "\<lambda>_ _. replicate 32 0" "replicate 32 0" "[sha256_normalize demo_hash \<mapsto> 77]" 77 False 1] c
    by (auto simp: epoll_server_init_def)
qed

section \<open>Requests in pieces\<close>

lemma consume_short:
  assumes "es_sockets es fd = Some sk" "length (inbuf sk) < PROTOCOL_REQ_SIZE"
  shows "handle_event submit (Client fd True hup p) es =
    Some (es\<lparr>es_sockets := (es_sockets es)(fd \<mapsto> sk\<lparr>inbuf := []\<rparr>)\<rparr>)"
  using assms by (simp add: consume_request_def recv_def)

text \<open>
  C32: a request that arrives in two pieces is lost. Each poll takes the bytes that are there and throws them away if
  they are not a whole request, so after both pieces have come the connection is open, its buffer is empty, and the
  scheduler and the world are as before: nothing is left that could ever answer the client. (TCP may split a
  request anywhere.)
\<close>

theorem split_request_lost:
  assumes "es_sockets es fd = Some sk" "inbuf sk = []" "first @ second = request_wire hash start stop pri"
    and "length hash = 32" "first \<noteq> []" "second \<noteq> []"
  shows "\<exists>es'. epoll_server_poll submit [Client fd True False p] (deliver fd first es) = Some es' \<and>
    epoll_server_poll submit [Client fd True False p'] (deliver fd second es') = Some es"
proof -
  have len: "length first + length second = PROTOCOL_REQ_SIZE"
    using arg_cong [OF assms(3), of length] assms(4) by simp
  then have short: "length first < PROTOCOL_REQ_SIZE" "length second < PROTOCOL_REQ_SIZE"
    using assms(5,6) by (auto simp: less_le)
  have sk: "sk\<lparr>inbuf := []\<rparr> = sk" using assms(2) by (cases sk) simp
  have same: "es\<lparr>es_sockets := (es_sockets es)(fd \<mapsto> sk)\<rparr> = es"
    using assms(1) by (cases es) auto
  have "handle_event submit (Client fd True False p) (deliver fd bs es) = Some es" if "length bs < PROTOCOL_REQ_SIZE" for bs p
    using consume_short [of "deliver fd bs es" fd "sk\<lparr>inbuf := bs\<rparr>" submit False p] assms(1,2) that sk same
    by (simp add: deliver_def)
  then show ?thesis using short by simp
qed

theorem split_request_lost_witness:
  "\<exists>es'. epoll_server_poll (rand_submit (\<lambda>_ _. []) []) [Client 5 True False 1]
       (deliver 5 (take 20 (request_wire demo_hash 1 100 4))
         ((epoll_server_init 3 (scheduler_rand_create 8))\<lparr>es_sockets := [5 \<mapsto> \<lparr>inbuf = [], hung_up = False\<rparr>]\<rparr>)) = Some es' \<and>
     epoll_server_poll (rand_submit (\<lambda>_ _. []) []) [Client 5 True False 2]
       (deliver 5 (drop 20 (request_wire demo_hash 1 100 4)) es') =
       Some ((epoll_server_init 3 (scheduler_rand_create 8))\<lparr>es_sockets := [5 \<mapsto> \<lparr>inbuf = [], hung_up = False\<rparr>]\<rparr>)"
  by (rule split_request_lost [where hash = demo_hash and start = 1 and stop = 100 and pri = 4 and
        sk = "\<lparr>inbuf = [], hung_up = False\<rparr>"])
    (simp_all only: append_take_drop_id, simp_all add: epoll_server_init_def request_wire_def)

text \<open>
  A client that hangs up without a request: the connection stays open and on the interest list, and as the end of
  its stream counts as readable, every later poll finds it again and changes nothing.
\<close>

lemma hung_up_client_stays:
  assumes "es_sockets es fd = Some \<lparr>inbuf = [], hung_up = True\<rparr>"
  shows "epoll_server_poll submit [Client fd True True p] es = Some es"
proof -
  have "es\<lparr>es_sockets := (es_sockets es)(fd \<mapsto> \<lparr>inbuf = [], hung_up = True\<rparr>)\<rparr> = es"
    using assms by (cases es) auto
  then show ?thesis
    using consume_short [OF assms, of submit True p] by (simp add: PROTOCOL_REQ_SIZE_def)
qed

end
