(* ===== verification/Sched_Steps.thy ===== *)
theory Sched_Steps
  imports Sched_Priority
begin

text \<open>
  The submitter and the worker threads of \<open>src/scheduler/sched_priority.c\<close> side by side. A step is one access to
  shared state: a section under one of the two locks, an atomic operation, or code that touches only what its
  thread owns; the assignment of a new job to its cell, which is neither, has a step where it begins and one where it ends.
  The two atomic loads of a clean-up round are one step: a block index that has reached \<open>block_count\<close>
  never falls below it again, so the round behaves as if both were read at the second load. The cache and the shutdown are left out
  (\<open>Sched_Submit\<close>, \<open>Waker\<close>): a submission here is one whose hash is not in the cache.
\<close>

section \<open>The submitter\<close>

text \<open>
  Where the server thread is inside \<open>scheduler_priority_submit\<close>: not in it, before \<open>freelist_insert\<close>, in the middle of its
  assignment to a cell, before \<open>priority_heap_copy\<close>, or in the clean-up loop with index \<open>i\<close>.
\<close>

datatype submit_stage = At_Rest | To_Insert request "nat option" | Storing request "nat option" u32
  | To_Copy request u32 | Cleaning request u32 u32

text \<open>
  When the freelist has a free cell, \<open>freelist_insert\<close> runs without the lock, and a worker that holds an old index of the
  cell may meet it. The assignment of the struct is not atomic: it begins when the index is taken and ends some time later, and
  in between the cell holds no value, so that a worker's access that overlaps the assignment, a data race, has no
  result, as in C. When the freelist has to grow, the whole insertion is one section under the write lock.
\<close>

definition freelist_claim :: "'a freelist \<Rightarrow> (u32 \<times> 'a freelist) option" where
  "freelist_claim fl =
     do {
       let fl = fl\<lparr>free := free fl - 1\<rparr>;
       idx \<leftarrow> ld (indicices fl) (unat (free fl));
       if unat idx < length (fl_data fl) then Some (idx, fl\<lparr>fl_data := (fl_data fl)[unat idx := None]\<rparr>) else None
     }"

fun submitter_step :: "submit_stage \<Rightarrow> scheduler \<Rightarrow> (submit_stage \<times> scheduler) option" where
  "submitter_step At_Rest s = None"
| "submitter_step (To_Insert request recipient) s =
     (if free (jobs s) = 0
      then do {
        (job_idx, js) \<leftarrow> freelist_insert (jobs s) (new_job request recipient (last_job_id s + 1));
        Some (To_Copy request job_idx, s\<lparr>jobs := js\<rparr>)
      }
      else do {
        (job_idx, js) \<leftarrow> freelist_claim (jobs s);
        Some (Storing request recipient job_idx, s\<lparr>jobs := js\<rparr>)
      })"
| "submitter_step (Storing request recipient job_idx) s =
     do {
       js \<leftarrow> freelist_set (jobs s) job_idx (new_job request recipient (last_job_id s + 1));
       Some (To_Copy request job_idx, s\<lparr>jobs := js\<rparr>)
     }"
| "submitter_step (To_Copy request job_idx) s =
     do {
       heap \<leftarrow> vec_copy (jobs_w s) (jobs_r s);
       Some (Cleaning request job_idx 0, s\<lparr>jobs_w := heap\<rparr>)
     }"
| "submitter_step (Cleaning request job_idx i) s =
     (if i < vec_len (jobs_w s)
      then do {
        node \<leftarrow> vec_get (jobs_w s) i;
        j \<leftarrow> freelist_get (jobs s) (elem node);
        if job_is_done j \<and> rc j = 0
        then do {
          js \<leftarrow> freelist_remove (jobs s) (elem node);
          heap \<leftarrow> priority_heap_remove (jobs_w s) i;
          Some (Cleaning request job_idx i, s\<lparr>jobs := js, jobs_w := heap\<rparr>)
        }
        else Some (Cleaning request job_idx (i + 1), s)
      }
      else do {
        heap \<leftarrow> priority_heap_insert (jobs_w s) job_idx (ucast (req_priority request));
        Some (At_Rest, s\<lparr>jobs_r := heap, jobs_w := jobs_r s, last_job_id := last_job_id s + 1\<rparr>)
      })"

section \<open>A worker\<close>

text \<open>One round of the loop of \<open>scheduler_priority_schedule\<close>; \<open>Block_Taken j b\<close> also tells the job as it was read.\<close>

datatype attempt = No_Node | Node_Dropped | Block_Taken job block

definition take_attempt :: "scheduler \<Rightarrow> worker \<Rightarrow> (attempt \<times> scheduler \<times> worker) option" where
  "take_attempt s w =
     do {
       m \<leftarrow> priority_heap_get_max (local_jobs w);
       case m of
         None \<Rightarrow> Some (No_Node, s, w)
       | Some node \<Rightarrow>
           do {
             let i = elem node;
             j \<leftarrow> freelist_get (jobs s) i;
             s \<leftarrow> update_job (\<lambda>j. j\<lparr>block_idx := block_idx j + 1\<rparr>) i s;
             if block_idx j \<le> block_count j
             then
               (let w = (if prev_job_id w \<noteq> job_id j
                         then w\<lparr>target_hash := req_hash (job_request j), prev_job_id := job_id j\<rparr>
                         else w)
                in Some (Block_Taken j \<lparr>blk_job = i, blk_start = block_start j (block_idx j),
                     blk_end = block_end j (block_idx j)\<rparr>, s, w))
             else do {
               (_, heap) \<leftarrow> priority_heap_extract_max (local_jobs w);
               Some (Node_Dropped, s, w\<lparr>local_jobs := heap\<rparr>)
             }
           }
     }"

text \<open>
  Where a worker is: before the copy of a newer heap, in the loop over its heap, waiting for a newer job, before
  \<open>enter_job\<close>, in the search, before \<open>leave_job\<close>, before it reads the recipient and marks the job, before it
  notifies the recipient.
\<close>

datatype stage = To_Refresh | Choosing | Awaiting | To_Enter block | Searching block | To_Leave block
  | To_Mark block u64 | To_Notify "nat option" u64

type_synonym search = "u64 \<Rightarrow> u64 \<Rightarrow> u8 list \<Rightarrow> u64 option"
type_synonym shared_state = "scheduler \<times> world"

text \<open>A step of a worker; the list holds the job whose block it took in this step, if it did.\<close>

fun worker_step ::
  "search \<Rightarrow> stage \<Rightarrow> worker \<Rightarrow> shared_state \<Rightarrow> (stage \<times> worker \<times> shared_state \<times> job list) option" where
  "worker_step search To_Refresh w (s, wd) =
     (if prev_max_job_id w < last_job_id s
      then do {
        heap \<leftarrow> vec_copy (local_jobs w) (jobs_r s);
        Some (Choosing, w\<lparr>local_jobs := heap, prev_max_job_id := last_job_id s\<rparr>, (s, wd), [])
      }
      else Some (Choosing, w, (s, wd), []))"
| "worker_step search Choosing w (s, wd) =
     do {
       (r, s, w) \<leftarrow> take_attempt s w;
       Some (case r of
         No_Node \<Rightarrow> (Awaiting, w, (s, wd), [])
       | Node_Dropped \<Rightarrow> (Choosing, w, (s, wd), [])
       | Block_Taken j b \<Rightarrow> (To_Enter b, w, (s, wd), [j]))
     }"
| "worker_step search Awaiting w (s, wd) =
     Some (if prev_max_job_id w < last_job_id s then To_Refresh else Awaiting, w, (s, wd), [])"
| "worker_step search (To_Enter b) w (s, wd) =
     do { s \<leftarrow> enter_job (blk_job b) s; Some (Searching b, w, (s, wd), []) }"
| "worker_step search (Searching b) w (s, wd) =
     do {
       found \<leftarrow> search (blk_start b) (blk_end b) (target_hash w);
       Some (if found = SCHEDULER_NO_ANSWER_SENTINEL then To_Leave b else To_Mark b found, w, (s, wd), [])
     }"
| "worker_step search (To_Leave b) w (s, wd) =
     do { s \<leftarrow> leave_job (blk_job b) s; Some (To_Refresh, w, (s, wd), []) }"
| "worker_step search (To_Mark b found) w (s, wd) =
     do {
       j \<leftarrow> freelist_get (jobs s) (blk_job b);
       s \<leftarrow> update_job job_mark_as_done (blk_job b) s;
       Some (To_Notify (job_recipient j) found, w, (s, wd), [])
     }"
| "worker_step search (To_Notify recipient found) w (s, wd) =
     do {
       wd \<leftarrow> scheduler_job_notify_recipient recipient found wd;
       Some (To_Refresh, w, (s, wd), [])
     }"

text \<open>The cell that the next step of a worker accesses.\<close>

fun next_cell :: "stage \<Rightarrow> worker \<Rightarrow> u32 option" where
  "next_cell Choosing w = Option.bind (priority_heap_get_max (local_jobs w)) (map_option elem)"
| "next_cell (To_Enter b) w = Some (blk_job b)"
| "next_cell (To_Leave b) w = Some (blk_job b)"
| "next_cell (To_Mark b found) w = Some (blk_job b)"
| "next_cell _ w = None"

section \<open>The system\<close>

text \<open>\<open>handed\<close> is a history variable: the jobs, as they were read, of the blocks handed out so far.\<close>

record sched_system =
  the_sched :: scheduler
  the_net :: world
  submitter :: submit_stage
  crew :: "(stage \<times> worker) list"
  handed :: "job list"

text \<open>\<open>n\<close> workers on a new scheduler; \<open>junk\<close> is the indeterminate hash on their stacks.\<close>

definition system_create :: "u32 \<Rightarrow> nat \<Rightarrow> u8 list \<Rightarrow> world \<Rightarrow> sched_system" where
  "system_create default_cap n junk wd =
     \<lparr>the_sched = scheduler_priority_create default_cap, the_net = wd, submitter = At_Rest,
      crew = replicate n (To_Refresh, worker_create junk), handed = []\<rparr>"

text \<open>What happens next: a submission begins, the submitter moves, or worker \<open>i\<close> moves.\<close>

datatype action = Submit request "nat option" | Continue | Work nat

definition system_step :: "search \<Rightarrow> action \<Rightarrow> sched_system \<Rightarrow> sched_system option" where
  "system_step search a \<sigma> =
     (case a of
        Submit request recipient \<Rightarrow>
          if submitter \<sigma> = At_Rest then Some (\<sigma>\<lparr>submitter := To_Insert request recipient\<rparr>) else None
      | Continue \<Rightarrow> do {
          (st, s) \<leftarrow> submitter_step (submitter \<sigma>) (the_sched \<sigma>);
          Some (\<sigma>\<lparr>submitter := st, the_sched := s\<rparr>)
        }
      | Work i \<Rightarrow>
          if i < length (crew \<sigma>)
          then do {
            (st, w, (s, wd), js) \<leftarrow> worker_step search (fst (crew \<sigma> ! i)) (snd (crew \<sigma> ! i)) (the_sched \<sigma>, the_net \<sigma>);
            Some (\<sigma>\<lparr>the_sched := s, the_net := wd, crew := (crew \<sigma>)[i := (st, w)], handed := handed \<sigma> @ js\<rparr>)
          }
          else None)"

text \<open>Worker \<open>i\<close> is about to access the cell that the submitter is writing.\<close>

definition data_race :: "sched_system \<Rightarrow> nat \<Rightarrow> bool" where
  "data_race \<sigma> i \<longleftrightarrow>
     (case submitter \<sigma> of
        Storing request recipient k \<Rightarrow> next_cell (fst (crew \<sigma> ! i)) (snd (crew \<sigma> ! i)) = Some k
      | _ \<Rightarrow> False)"

fun system_run :: "search \<Rightarrow> action list \<Rightarrow> sched_system \<Rightarrow> sched_system option" where
  "system_run search [] \<sigma> = Some \<sigma>"
| "system_run search (a # as) \<sigma> = do { \<sigma> \<leftarrow> system_step search a \<sigma>; system_run search as \<sigma> }"

lemma system_run_append:
  "system_run search (as @ bs) \<sigma> = do { \<sigma> \<leftarrow> system_run search as \<sigma>; system_run search bs \<sigma> }"
  by (induction as arbitrary: \<sigma>) (auto split: Option.bind_splits)

section \<open>One thread at a time\<close>

text \<open>
  The steps are those of the sequential model: a submitter that is not interrupted does what \<open>submit_job\<close> does,
  and a worker's rounds of \<open>take_attempt\<close> are \<open>take_block\<close>.
\<close>

lemma take_block_attempts:
  "take_block s w =
     do {
       (r, s, w) \<leftarrow> take_attempt s w;
       case r of
         No_Node \<Rightarrow> Some (None, s, w)
       | Node_Dropped \<Rightarrow> take_block s w
       | Block_Taken j b \<Rightarrow> Some (Some b, s, w)
     }"
  unfolding take_block.simps [of s w] take_attempt_def
  by (auto simp: Let_def split: Option.bind_split option.splits)

definition undisturbed :: "submit_stage \<times> scheduler \<Rightarrow> submit_stage \<times> scheduler \<Rightarrow> bool" where
  "undisturbed c c' \<longleftrightarrow> submitter_step (fst c) (snd c) = Some c'"

lemma cleanup_undisturbed:
  assumes "cleanup_jobs i js heap = Some r"
  shows "jobs s = js \<longrightarrow> jobs_w s = heap \<longrightarrow> (\<exists>i'. \<not> i' < vec_len (snd r) \<and>
    undisturbed\<^sup>*\<^sup>* (Cleaning request idx i, s) (Cleaning request idx i', s\<lparr>jobs := fst r, jobs_w := snd r\<rparr>))"
proof (rule cleanup_jobs.raw_induct [where P = "\<lambda>i js heap r. \<forall>s. jobs s = js \<longrightarrow> jobs_w s = heap \<longrightarrow>
      (\<exists>i'. \<not> i' < vec_len (snd r) \<and>
       undisturbed\<^sup>*\<^sup>* (Cleaning request idx i, s) (Cleaning request idx i', s\<lparr>jobs := fst r, jobs_w := snd r\<rparr>))",
      OF _ assms, THEN spec])
  fix f i js heap r
  assume IH: "\<And>i js heap r. f i js heap = Some r \<Longrightarrow> \<forall>s. jobs s = js \<longrightarrow> jobs_w s = heap \<longrightarrow>
      (\<exists>i'. \<not> i' < vec_len (snd r) \<and>
       undisturbed\<^sup>*\<^sup>* (Cleaning request idx i, s) (Cleaning request idx i', s\<lparr>jobs := fst r, jobs_w := snd r\<rparr>))"
    and body: "(if i < vec_len heap
      then do {
        node \<leftarrow> vec_get heap i;
        j \<leftarrow> freelist_get js (elem node);
        if job_is_done j \<and> rc j = 0
        then do {
          js \<leftarrow> freelist_remove js (elem node);
          heap \<leftarrow> priority_heap_remove heap i;
          f i js heap
        }
        else f (i + 1) js heap
      }
      else Some (js, heap)) = Some r"
  show "\<forall>s. jobs s = js \<longrightarrow> jobs_w s = heap \<longrightarrow> (\<exists>i'. \<not> i' < vec_len (snd r) \<and>
    undisturbed\<^sup>*\<^sup>* (Cleaning request idx i, s) (Cleaning request idx i', s\<lparr>jobs := fst r, jobs_w := snd r\<rparr>))"
  proof (intro allI impI)
    fix s :: scheduler assume s: "jobs s = js" "jobs_w s = heap"
    show "\<exists>i'. \<not> i' < vec_len (snd r) \<and>
      undisturbed\<^sup>*\<^sup>* (Cleaning request idx i, s) (Cleaning request idx i', s\<lparr>jobs := fst r, jobs_w := snd r\<rparr>)"
    proof (cases "i < vec_len heap")
      case False
      then have "s\<lparr>jobs := fst r, jobs_w := snd r\<rparr> = s" using body s by auto
      then show ?thesis using False body by (intro exI [of _ i]) auto
    next
      case True
      then obtain node j where n: "vec_get heap i = Some node" "freelist_get js (elem node) = Some j"
        using body by (auto split: Option.bind_splits)
      have "\<exists>i1 js1 h1. undisturbed (Cleaning request idx i, s) (Cleaning request idx i1, s\<lparr>jobs := js1, jobs_w := h1\<rparr>) \<and>
        f i1 js1 h1 = Some r"
      proof (cases "job_is_done j \<and> rc j = 0")
        case fin: True
        then obtain js1 h1 where "freelist_remove js (elem node) = Some js1" "priority_heap_remove heap i = Some h1" "f i js1 h1 = Some r"
          using body True n by (auto split: Option.bind_splits)
        then show ?thesis using True n fin s by (intro exI [of _ i] exI [of _ js1] exI [of _ h1]) (simp add: undisturbed_def)
      next
        case open_job: False
        then have "f (i + 1) js heap = Some r" using body True n by (simp split: if_splits)
        then show ?thesis using True n open_job s
          by (intro exI [of _ "i + 1"] exI [of _ js] exI [of _ heap]) (auto simp: undisturbed_def)
      qed
      then obtain i1 js1 h1 where st: "undisturbed (Cleaning request idx i, s) (Cleaning request idx i1, s\<lparr>jobs := js1, jobs_w := h1\<rparr>)"
          and fr: "f i1 js1 h1 = Some r" by blast
      from IH [OF fr, THEN spec, of "s\<lparr>jobs := js1, jobs_w := h1\<rparr>"]
      obtain i' where "\<not> i' < vec_len (snd r)" "undisturbed\<^sup>*\<^sup>* (Cleaning request idx i1, s\<lparr>jobs := js1, jobs_w := h1\<rparr>)
          (Cleaning request idx i', s\<lparr>jobs := fst r, jobs_w := snd r\<rparr>)"
        by auto
      then show ?thesis using converse_rtranclp_into_rtranclp [of undisturbed, OF st] by (intro exI [of _ i']) simp
    qed
  qed
qed

lemma freelist_insert_claim:
  assumes "free fl \<noteq> 0"
  shows "freelist_insert fl x = do { (i, fl) \<leftarrow> freelist_claim fl; fl \<leftarrow> freelist_set fl i x; Some (i, fl) }"
  using assms
  by (auto simp: freelist_insert_def freelist_claim_def freelist_set_def freelist_maybe_grow_def st_def wr_def Let_def
      split: Option.bind_split)

text \<open>A submission that is not interrupted goes through the steps to the state \<open>submit_job\<close> computes.\<close>

lemma submit_steps_undisturbed:
  assumes "submit_job request recipient s = Some (jid, s')"
  shows "undisturbed\<^sup>*\<^sup>* (To_Insert request recipient, s) (At_Rest, s')"
proof -
  obtain i js h1 js2 h2 h3 where c: "freelist_insert (jobs s) (new_job request recipient (last_job_id s + 1)) = Some (i, js)"
      "vec_copy (jobs_w s) (jobs_r s) = Some h1" "cleanup_jobs 0 js h1 = Some (js2, h2)"
      "priority_heap_insert h2 i (ucast (req_priority request)) = Some h3"
      "s' = \<lparr>jobs = js2, jobs_r = h3, jobs_w = jobs_r s, last_job_id = last_job_id s + 1\<rparr>"
    using assms by (auto simp: submit_job_def Let_def split: Option.bind_splits)
  let ?s1 = "s\<lparr>jobs := js\<rparr>" and ?s2 = "s\<lparr>jobs := js, jobs_w := h1\<rparr>"
  have 1: "undisturbed\<^sup>*\<^sup>* (To_Insert request recipient, s) (To_Copy request i, ?s1)"
  proof (cases "free (jobs s) = 0")
    case True
    then show ?thesis using c(1) by (intro r_into_rtranclp) (simp add: undisturbed_def)
  next
    case False
    then obtain js1 where "freelist_claim (jobs s) = Some (i, js1)"
        "freelist_set js1 i (new_job request recipient (last_job_id s + 1)) = Some js"
      using c(1) by (auto simp: freelist_insert_claim split: Option.bind_splits)
    then have "undisturbed (To_Insert request recipient, s) (Storing request recipient i, s\<lparr>jobs := js1\<rparr>)"
        "undisturbed (Storing request recipient i, s\<lparr>jobs := js1\<rparr>) (To_Copy request i, ?s1)"
      using False by (simp_all add: undisturbed_def)
    then show ?thesis by (meson r_into_rtranclp rtranclp.rtrancl_into_rtrancl)
  qed
  have 2: "undisturbed (To_Copy request i, ?s1) (Cleaning request i 0, ?s2)"
    using c(2) by (simp add: undisturbed_def)
  obtain i' where 3: "\<not> i' < vec_len h2"
      "undisturbed\<^sup>*\<^sup>* (Cleaning request i 0, ?s2) (Cleaning request i i', ?s2\<lparr>jobs := js2, jobs_w := h2\<rparr>)"
    using cleanup_undisturbed [OF c(3), of ?s2 request i] by auto
  have 4: "undisturbed (Cleaning request i i', ?s2\<lparr>jobs := js2, jobs_w := h2\<rparr>) (At_Rest, s')"
    using 3(1) c(4,5) by (simp add: undisturbed_def)
  from 1 2 3(2) 4 show ?thesis
    by (meson converse_rtranclp_into_rtranclp rtranclp.rtrancl_into_rtrancl rtranclp_trans)
qed

section \<open>An answer for the wrong client\<close>

text \<open>
  Between \<open>scheduler_priority_schedule\<close> and \<open>enter_job\<close> a worker holds a block without a reference to its job. A job
  whose last block was handed out counts as done, so a submission may free its cell, and the next one may use the
  cell for another job.
\<close>

definition race_request :: "u8 \<Rightarrow> request" where
  "race_request n = \<lparr>req_hash = replicate 32 n, req_start = 5, req_end = 300, req_priority = n\<rparr>"

definition client :: "u32 \<Rightarrow> recipient" where
  "client fd = \<lparr>rtype = RECIPIENT_FD, rdata = fd\<rparr>"

definition race_world :: world where
  "race_world = \<lparr>recipients = [1 \<mapsto> client 11, 2 \<mapsto> client 12, 3 \<mapsto> client 13], events = []\<rparr>"

text \<open>The worker takes the only block of request 1, two requests are submitted, and the worker goes on.\<close>

definition race_run :: "action list" where
  "race_run =
     [Submit (race_request 1) (Some 1), Continue, Continue, Continue, Continue, Work 0, Work 0,
      Submit (race_request 2) (Some 2), Continue, Continue, Continue, Continue, Continue,
      Submit (race_request 3) (Some 3), Continue, Continue, Continue, Continue, Continue, Work 0]"

abbreviation race_job :: "u8 \<Rightarrow> u32 \<Rightarrow> u32 \<Rightarrow> nat \<Rightarrow> job" where
  "race_job n jid r p \<equiv> \<lparr>block_idx = 0, block_size = 65536, block_count = 1, job_recipient = Some p,
     job_request = race_request n, job_id = jid, rc = r\<rparr>"

definition race_view :: "sched_system \<Rightarrow> job freelist \<times> (stage \<times> worker) list \<times> event list \<times> recipient option \<times> recipient option" where
  "race_view \<sigma> = (jobs (the_sched \<sigma>), crew \<sigma>, events (the_net \<sigma>), recipients (the_net \<sigma>) 1, recipients (the_net \<sigma>) 3)"

lemma race_before_answer:
  "map_option race_view (system_run search race_run (system_create 2 1 [] race_world)) =
     Some (\<lparr>fl_data = [Some (race_job 2 2 0 2), Some (race_job 3 3 1 3)], indicices = [Some 1, Some 1], fl_cap = 2, free = 0\<rparr>,
       [(Searching \<lparr>blk_job = 1, blk_start = 5, blk_end = 300\<rparr>,
         \<lparr>local_jobs = \<lparr>vec_data = [Some \<lparr>priority = 1, elem = 1\<rparr>, None], vec_len = 1, vec_cap = 2\<rparr>,
          prev_max_job_id = 1, prev_job_id = 1, target_hash = replicate 32 1\<rparr>)],
       [], Some (client 11), Some (client 13))"
  by code_simp

text \<open>
  C9: an interleaving in which a client gets the answer to another client's request: the worker took the only
  block of request 1 from client 11; a second submission freed that job's cell, a third one put request 3 of client 13
  into it. When the worker finds the answer of request 1 it sends it to client 13 and marks request 3 as done. No job of
  client 11 is left, so it never gets an answer.
\<close>

theorem answer_to_wrong_client:
  assumes "search 5 300 (replicate 32 1) = Some a" "a \<noteq> 0"
  shows "\<exists>\<sigma>. system_run search (race_run @ [Work 0, Work 0, Work 0]) (system_create 2 1 [] race_world) = Some \<sigma> \<and>
    events (the_net \<sigma>) = [Send 13 (be64 a), Close 13] \<and> recipients (the_net \<sigma>) 1 = Some (client 11) \<and>
    map (map_option job_recipient) (fl_data (jobs (the_sched \<sigma>))) = [Some (Some 2), Some (Some 3)] \<and>
    (\<exists>j. freelist_get (jobs (the_sched \<sigma>)) 1 = Some j \<and> job_request j = race_request 3 \<and> job_is_done j)"
proof -
  obtain \<sigma> where run: "system_run search race_run (system_create 2 1 [] race_world) = Some \<sigma>"
    and v: "jobs (the_sched \<sigma>) = \<lparr>fl_data = [Some (race_job 2 2 0 2), Some (race_job 3 3 1 3)],
        indicices = [Some 1, Some 1], fl_cap = 2, free = 0\<rparr>"
      "\<exists>w. crew \<sigma> = [(Searching \<lparr>blk_job = 1, blk_start = 5, blk_end = 300\<rparr>, w)] \<and> target_hash w = replicate 32 1"
      "events (the_net \<sigma>) = []" "recipients (the_net \<sigma>) 1 = Some (client 11)" "recipients (the_net \<sigma>) 3 = Some (client 13)"
    using race_before_answer [of search] by (auto simp: race_view_def)
  then obtain w where w: "crew \<sigma> = [(Searching \<lparr>blk_job = 1, blk_start = 5, blk_end = 300\<rparr>, w)]" "target_hash w = replicate 32 1"
    by blast
  obtain wd where wd: "scheduler_job_notify_recipient (Some 3) a (the_net \<sigma>) = Some wd"
      "events wd = [Send 13 (be64 a), Close 13]" "recipients wd = (recipients (the_net \<sigma>))(3 := None)"
    using notify_fd [of "the_net \<sigma>" 3 13 a] v(3,5) by (auto simp: client_def)
  let ?s = "(the_sched \<sigma>)\<lparr>jobs := \<lparr>fl_data = [Some (race_job 2 2 0 2), Some (job_mark_as_done (race_job 3 3 1 3))],
    indicices = [Some 1, Some 1], fl_cap = 2, free = 0\<rparr>\<rparr>"
  have mark: "update_job job_mark_as_done 1 (the_sched \<sigma>) = Some ?s" "freelist_get (jobs (the_sched \<sigma>)) 1 = Some (race_job 3 3 1 3)"
    using v(1) by (simp_all add: update_job_def freelist_get_def freelist_set_def ld_def st_def rd_in wr_in)
  have "system_run search (race_run @ [Work 0, Work 0, Work 0]) (system_create 2 1 [] race_world) =
      Some (\<sigma>\<lparr>the_sched := ?s, the_net := wd, crew := [(To_Refresh, w)]\<rparr>)"
    using assms w wd(1) mark
    by (simp add: system_run_append run system_step_def SCHEDULER_NO_ANSWER_SENTINEL_def del: One_nat_def)
  moreover have "freelist_get (jobs ?s) 1 = Some (job_mark_as_done (race_job 3 3 1 3))"
    by (simp add: freelist_get_def ld_def rd_in)
  ultimately show ?thesis
    using wd(2,3) v(4) by (simp add: job_mark_as_done_def job_is_done_def)
qed

theorem answer_to_wrong_client_witness:
  "\<exists>\<sigma>. system_run (\<lambda>_ _ h. Some (if h = replicate 32 1 then 77 else 0)) (race_run @ [Work 0, Work 0, Work 0])
       (system_create 2 1 [] race_world) = Some \<sigma> \<and> events (the_net \<sigma>) = [Send 13 (be64 77), Close 13]"
  using answer_to_wrong_client [of "\<lambda>_ _ h. Some (if h = replicate 32 1 then 77 else 0)" 77] by auto

section \<open>A cell that is being written\<close>

text \<open>
  The same interleaving stopped while the third insertion is under way: the worker is about to register with its job, in the cell
  that the submitter is writing.
\<close>

theorem insertion_races:
  "\<exists>\<sigma>. system_run search (take 15 race_run) (system_create 2 1 [] race_world) = Some \<sigma> \<and> data_race \<sigma> 0 \<and>
     system_step search (Work 0) \<sigma> = None"
proof -
  have "map_option (\<lambda>\<sigma>. (submitter \<sigma>, next_cell (fst (crew \<sigma> ! 0)) (snd (crew \<sigma> ! 0)), system_step search (Work 0) \<sigma> = None))
      (system_run search (take 15 race_run) (system_create 2 1 [] race_world)) =
    Some (Storing (race_request 3) (Some 3) 1, Some 1, True)"
    by code_simp
  then show ?thesis by (auto simp: data_race_def)
qed

end
