(* ===== verification/Sched_Cells.thy ===== *)
theory Sched_Cells
  imports Radix_Store Sched_Steps
begin

text \<open>
  The cells of the freelist of jobs, in use or not. A freed cell keeps its last job until it is used again, so a
  worker that holds an old index still reads a job there. The lemmas follow the contents of all cells
  through the freelist's operations.
\<close>

section \<open>All cells and the cells in use\<close>

definition cells :: "scheduler \<Rightarrow> u32 \<rightharpoonup> job" where
  "cells s = freelist_get (jobs s)"

text \<open>\<open>fl_live fl L\<close>: the cells in use are those of \<open>L\<close>.\<close>

definition fl_live :: "'a freelist \<Rightarrow> u32 set \<Rightarrow> bool" where
  "fl_live fl L \<longleftrightarrow> fl_rep fl (freelist_get fl |` L) \<and> L \<subseteq> dom (freelist_get fl)"

lemma fl_live_dom: "fl_live fl L \<Longrightarrow> dom (freelist_get fl |` L) = L"
  by (auto simp: fl_live_def)

lemma fl_live_init: "fl_live (freelist_init n) {}"
  by (simp add: fl_live_def fl_rep_init)

lemma freelist_get_grow:
  assumes "freelist_maybe_grow fl = Some g" "0 < fl_cap fl" "length (fl_data fl) = unat (fl_cap fl)"
  shows "freelist_get g = freelist_get fl"
proof (cases "free fl = 0")
  case True
  then obtain c where c: "grown_cap (fl_cap fl) = Some c" "fl_data g = realloc (unat c) (fl_data fl)"
    using assms(1) by (auto simp: freelist_maybe_grow_def Let_def split: Option.bind_splits)
  have "length (fl_data fl) \<le> unat c"
    using grown_cap_larger [OF c(1) assms(2)] assms(3) by (simp add: word_less_nat_alt)
  then show ?thesis
    by (auto simp: fun_eq_iff freelist_get_def ld_def c(2) realloc_def nth_append)
next
  case False
  then show ?thesis using assms(1) by (simp add: freelist_maybe_grow_def)
qed

lemma freelist_get_insert:
  assumes "freelist_insert fl x = Some (i, fl')" "0 < fl_cap fl" "length (fl_data fl) = unat (fl_cap fl)"
  shows "freelist_get fl' = (freelist_get fl)(i \<mapsto> x)"
proof -
  obtain g where g: "freelist_maybe_grow fl = Some g" "unat i < length (fl_data g)"
      "fl_data fl' = (fl_data g)[unat i := Some x]"
    using assms(1) by (auto simp: freelist_insert_def st_def Let_def dest!: wr_SomeD split: Option.bind_splits)
  have "freelist_get fl' = (freelist_get g)(i \<mapsto> x)"
    using g(2,3) by (auto simp: fun_eq_iff freelist_get_def ld_def nth_list_update simp flip: word_unat_eq_iff)
  then show ?thesis using freelist_get_grow [OF g(1) assms(2,3)] by simp
qed

lemma live_insert:
  assumes live: "fl_live fl L" and lim: "fl_lim P fl" "P < 2 ^ 28"
  obtains i fl' where "freelist_insert fl x = Some (i, fl')" "i \<notin> L" "fl_live fl' (insert i L)" "fl_lim (P + 1) fl'"
    "freelist_get fl' = (freelist_get fl)(i \<mapsto> x)"
proof -
  have rep: "fl_rep fl (freelist_get fl |` L)" using live by (simp add: fl_live_def)
  obtain i fl' where r: "freelist_insert fl x = Some (i, fl')" "(freelist_get fl |` L) i = None"
      "fl_rep fl' ((freelist_get fl |` L)(i \<mapsto> x))" "fl_lim (P + 1) fl'"
    by (rule pool_insert [OF rep lim])
  have get: "freelist_get fl' = (freelist_get fl)(i \<mapsto> x)"
    using freelist_get_insert [OF r(1)] lim(1) fl_repD(1) [OF rep] by (simp add: fl_lim_def)
  have i: "i \<notin> L" using r(2) fl_live_dom [OF live] by (metis domIff)
  then have "(freelist_get fl |` L)(i \<mapsto> x) = freelist_get fl' |` insert i L"
    unfolding get by (auto simp: restrict_map_def fun_eq_iff)
  then have "fl_live fl' (insert i L)"
    using r(3) live get by (auto simp: fl_live_def)
  then show thesis using that r(1,4) i get by blast
qed

lemma live_set:
  assumes live: "fl_live fl L" and i: "freelist_get fl i = Some y"
  obtains fl' where "freelist_set fl i x = Some fl'" "fl_live fl' L" "freelist_get fl' = (freelist_get fl)(i \<mapsto> x)"
    "fl_cap fl' = fl_cap fl" "free fl' = free fl"
proof -
  have lt: "unat i < length (fl_data fl)" using i by (auto simp: freelist_get_def ld_def split: if_splits)
  let ?fl = "fl\<lparr>fl_data := (fl_data fl)[unat i := Some x]\<rparr>"
  have set: "freelist_set fl i x = Some ?fl"
    using lt by (simp add: freelist_set_def st_def wr_in)
  have get: "freelist_get ?fl = (freelist_get fl)(i \<mapsto> x)"
    using lt by (auto simp: fun_eq_iff freelist_get_def ld_def nth_list_update simp flip: word_unat_eq_iff)
  have dom: "dom (freelist_get ?fl |` L) = L" "dom (freelist_get fl |` L) = L"
    using live get by (auto simp: fl_live_def)
  have "\<forall>k z. (freelist_get ?fl |` L) k = Some z \<longrightarrow> fl_data ?fl ! unat k = Some z"
    by (auto simp: restrict_map_def freelist_get_def ld_def split: if_splits)
  then have "fl_rep ?fl (freelist_get ?fl |` L)"
    using live unfolding fl_live_def fl_rep_def dom by simp
  moreover have "L \<subseteq> dom (freelist_get ?fl)" using live by (auto simp: fl_live_def get)
  ultimately show thesis using that set get by (simp add: fl_live_def)
qed

lemma live_remove:
  assumes live: "fl_live fl L" and i: "i \<in> L"
  obtains fl' where "freelist_remove fl i = Some fl'" "fl_live fl' (L - {i})" "freelist_get fl' = freelist_get fl"
    "fl_lim P fl \<Longrightarrow> fl_lim P fl'"
proof -
  have rep: "fl_rep fl (freelist_get fl |` L)" using live by (simp add: fl_live_def)
  have "i \<in> dom (freelist_get fl |` L)" using fl_live_dom [OF live] i by simp
  then obtain fl' where r: "freelist_remove fl i = Some fl'" "fl_rep fl' ((freelist_get fl |` L)(i := None))" "fl_keep fl' fl"
    by (rule pool_remove [OF rep])
  have get: "freelist_get fl' = freelist_get fl"
    using r(1) by (auto simp: freelist_remove_def freelist_get_def fun_eq_iff split: Option.bind_splits)
  have "(freelist_get fl |` L)(i := None) = freelist_get fl' |` (L - {i})"
    by (auto simp: restrict_map_def fun_eq_iff get)
  then have "fl_live fl' (L - {i})" using r(2) live by (auto simp: fl_live_def get)
  then show thesis using that r(1,3) get fl_keepD by blast
qed

end
