(* ===== verification/Sched_Workers.thy ===== *)
theory Sched_Workers
  imports Sched_Cells
begin

text \<open>
  The invariant of the priority scheduler's system of threads, and that the workers' steps keep it. \<open>C\<close> is the
  contents of all cells, \<open>t\<close> the greatest job id made so far, \<open>n\<close> the number of steps, \<open>hs\<close> the history of the
  blocks handed out.
\<close>

section \<open>The invariant of the pool\<close>

definition job_ids_ok :: "(u32 \<rightharpoonup> job) \<Rightarrow> nat \<Rightarrow> bool" where
  "job_ids_ok C t \<longleftrightarrow> (\<forall>i j. C i = Some j \<longrightarrow> unat (job_id j) \<le> t) \<and>
     (\<forall>i j i' j'. C i = Some j \<longrightarrow> C i' = Some j' \<longrightarrow> job_id j = job_id j' \<longrightarrow> i = i')"

definition counters_ok :: "(u32 \<rightharpoonup> job) \<Rightarrow> nat \<Rightarrow> bool" where
  "counters_ok C n \<longleftrightarrow> (\<forall>i j. C i = Some j \<longrightarrow> unat (block_count j) < 2 ^ 48 \<and> unat (block_idx j) \<le> 2 ^ 48 + n)"

definition handed_before :: "job \<Rightarrow> bool" where
  "handed_before h \<longleftrightarrow> block_idx h < block_count h"

definition block_key :: "job \<Rightarrow> u32 \<times> u64" where
  "block_key h = (job_id h, block_idx h)"

definition counts_agree :: "job list \<Rightarrow> bool" where
  "counts_agree hs \<longleftrightarrow> (\<forall>h \<in> set hs. \<forall>h' \<in> set hs. job_id h = job_id h' \<longrightarrow> block_count h = block_count h')"

definition history_ok :: "(u32 \<rightharpoonup> job) \<Rightarrow> nat \<Rightarrow> job list \<Rightarrow> bool" where
  "history_ok C t hs \<longleftrightarrow> distinct (map block_key (filter handed_before hs)) \<and>
     counts_agree hs \<and>
     (\<forall>h \<in> set hs. unat (job_id h) \<le> t \<and> block_idx h \<le> block_count h \<and>
       (\<forall>i j. C i = Some j \<longrightarrow> job_id j = job_id h \<longrightarrow> block_count j = block_count h \<and>
         (handed_before h \<longrightarrow> block_idx h < block_idx j)))"

definition pool_ok :: "(u32 \<rightharpoonup> job) \<Rightarrow> nat \<Rightarrow> nat \<Rightarrow> job list \<Rightarrow> bool" where
  "pool_ok C t n hs \<longleftrightarrow> job_ids_ok C t \<and> counters_ok C n \<and> history_ok C t hs"

section \<open>What workers do to the cells\<close>

definition later_job :: "job \<Rightarrow> job \<Rightarrow> bool" where
  "later_job j j' \<longleftrightarrow> job_id j' = job_id j \<and> job_request j' = job_request j \<and> block_count j' = block_count j \<and>
     (block_idx j \<le> block_idx j' \<or> block_count j \<le> block_idx j') \<and>
     unat (block_idx j') \<le> max (unat (block_count j)) (Suc (unat (block_idx j)))"

definition evolves :: "(u32 \<rightharpoonup> job) \<Rightarrow> (u32 \<rightharpoonup> job) \<Rightarrow> bool" where
  "evolves C C' \<longleftrightarrow> dom C' = dom C \<and> (\<forall>i j j'. C i = Some j \<longrightarrow> C' i = Some j' \<longrightarrow> later_job j j')"

lemma later_job_refl [simp]: "later_job j j"
  by (simp add: later_job_def)

lemma evolves_refl [simp]: "evolves C C"
  by (simp add: evolves_def)

lemma evolves_update: "C i = Some j \<Longrightarrow> later_job j j' \<Longrightarrow> evolves C (C(i \<mapsto> j'))"
  by (auto simp: evolves_def)

lemma evolvesE:
  assumes "evolves C C'" "C' i = Some j'"
  obtains j where "C i = Some j" "later_job j j'"
  using assms unfolding evolves_def by (metis domD domI)

lemma job_ids_evolves:
  assumes "job_ids_ok C t" "evolves C C'"
  shows "job_ids_ok C' t"
proof -
  have old: "\<exists>j. C i = Some j \<and> job_id j = job_id j'" if "C' i = Some j'" for i j'
    using evolvesE [OF assms(2) that] by (metis later_job_def)
  show ?thesis
    using assms(1) old unfolding job_ids_ok_def by metis
qed

lemma counters_evolves:
  assumes "counters_ok C n" "evolves C C'"
  shows "counters_ok C' (Suc n)"
  unfolding counters_ok_def
proof (intro allI impI)
  fix i j' assume "C' i = Some j'"
  then obtain j where j: "C i = Some j" "later_job j j'" using assms(2) by (elim evolvesE)
  then have "unat (block_count j) < 2 ^ 48" "unat (block_idx j) \<le> 2 ^ 48 + n" using assms(1) by (auto simp: counters_ok_def)
  then show "unat (block_count j') < 2 ^ 48 \<and> unat (block_idx j') \<le> 2 ^ 48 + Suc n"
    using j(2) by (auto simp: later_job_def)
qed

lemma history_evolves:
  assumes "history_ok C t hs" "evolves C C'"
  shows "history_ok C' t hs"
  unfolding history_ok_def
proof (intro conjI ballI allI impI)
  show "distinct (map block_key (filter handed_before hs))" using assms(1) by (simp add: history_ok_def)
next
  show "counts_agree hs" using assms(1) by (simp add: history_ok_def)
next
  fix h assume h: "h \<in> set hs"
  then show "unat (job_id h) \<le> t" "block_idx h \<le> block_count h" using assms(1) by (auto simp: history_ok_def)
  fix i j' assume j': "C' i = Some j'" "job_id j' = job_id h"
  obtain j where j: "C i = Some j" "later_job j j'" using assms(2) j'(1) by (elim evolvesE)
  then have old: "block_count j = block_count h" "handed_before h \<Longrightarrow> block_idx h < block_idx j"
    using assms(1) h j' by (auto simp: history_ok_def later_job_def)
  show "block_count j' = block_count h" using old(1) j(2) by (simp add: later_job_def)
  assume "handed_before h"
  then show "block_idx h < block_idx j'"
    using old j(2) by (auto simp: later_job_def handed_before_def)
qed

lemma pool_evolves: "pool_ok C t n hs \<Longrightarrow> evolves C C' \<Longrightarrow> pool_ok C' t (Suc n) hs"
  by (auto simp: pool_ok_def intro: job_ids_evolves counters_evolves history_evolves)

text \<open>A block is handed out: the counter of the job goes on, and the history gets the job as it was.\<close>

lemma unat_next: "unat (x :: u64) \<le> 2 ^ 63 \<Longrightarrow> unat (x + 1) = Suc (unat x)"
  by (simp add: unat_word_ariths)

lemma later_counted:
  "counters_ok C n \<Longrightarrow> n < 2 ^ 62 \<Longrightarrow> C i = Some j \<Longrightarrow> later_job j (j\<lparr>block_idx := block_idx j + 1\<rparr>)"
  using unat_next [of "block_idx j"] by (fastforce simp: counters_ok_def later_job_def word_le_nat_alt)

lemma pool_handed:
  assumes ok: "pool_ok C t n hs" and n: "n < 2 ^ 62" and j: "C i = Some j" "block_idx j \<le> block_count j"
  shows "pool_ok (C(i \<mapsto> j\<lparr>block_idx := block_idx j + 1\<rparr>)) t (Suc n) (hs @ [j])"
proof -
  let ?j = "j\<lparr>block_idx := block_idx j + 1\<rparr>"
  have ids: "job_ids_ok C t" and hist: "history_ok C t hs" and cnt: "counters_ok C n" using ok by (simp_all add: pool_ok_def)
  have later: "later_job j ?j" by (rule later_counted [OF cnt n j(1)])
  have new: "pool_ok (C(i \<mapsto> ?j)) t (Suc n) hs" using evolves_update [of C i, OF j(1) later] by (rule pool_evolves [OF ok])
  have less: "block_idx j < block_idx j + 1"
    using unat_next [of "block_idx j"] cnt n j(1) by (fastforce simp: counters_ok_def word_less_nat_alt)
  have fresh: "block_key j \<notin> block_key ` set (filter handed_before hs)"
    using hist j(1) by (force simp: block_key_def history_ok_def)
  have only: "i' = i" if "(C(i \<mapsto> ?j)) i' = Some j'" "job_id j' = job_id j" for i' j'
    using ids j(1) that by (auto simp: job_ids_ok_def split: if_splits)
  have old: "history_ok (C(i \<mapsto> ?j)) t hs" using new by (simp add: pool_ok_def)
  have "history_ok (C(i \<mapsto> ?j)) t (hs @ [j])"
    unfolding history_ok_def
  proof (intro conjI ballI allI impI)
    have "distinct (map block_key (filter handed_before hs))" using old by (simp add: history_ok_def)
    then show "distinct (map block_key (filter handed_before (hs @ [j])))" using fresh by simp
  next
    have "block_count j = block_count h" if "h \<in> set hs" "job_id j = job_id h" for h
      using hist j(1) that by (simp add: history_ok_def)
    moreover have "counts_agree hs" using hist by (simp add: history_ok_def)
    ultimately show "counts_agree (hs @ [j])"
      unfolding counts_agree_def by (metis Un_iff empty_iff empty_set set_ConsD set_append)
  next
    fix h assume h: "h \<in> set (hs @ [j])"
    show "unat (job_id h) \<le> t" "block_idx h \<le> block_count h"
      using h old j ids by (auto simp: history_ok_def job_ids_ok_def)
    fix i' j' assume j': "(C(i \<mapsto> ?j)) i' = Some j'" "job_id j' = job_id h"
    have "h \<in> set hs \<or> h = j" using h by auto
    then have both: "block_count j' = block_count h \<and> (handed_before h \<longrightarrow> block_idx h < block_idx j')"
    proof
      assume "h \<in> set hs"
      then show ?thesis using old j' by (simp add: history_ok_def)
    next
      assume "h = j"
      then have "j' = ?j" using only [OF j'(1)] j' by simp
      then show ?thesis using \<open>h = j\<close> less by simp
    qed
    show "block_count j' = block_count h" using both by simp
    show "block_idx h < block_idx j'" if "handed_before h" using both that by simp
  qed
  then show ?thesis using new by (simp add: pool_ok_def)
qed

section \<open>The invariant of a worker\<close>

fun stage_block :: "stage \<Rightarrow> block option" where
  "stage_block (To_Enter b) = Some b"
| "stage_block (Searching b) = Some b"
| "stage_block (To_Leave b) = Some b"
| "stage_block (To_Mark b a) = Some b"
| "stage_block _ = None"

text \<open>The heap's nodes name cells that hold a job.\<close>

definition heap_in :: "u32 heap \<Rightarrow> u32 set \<Rightarrow> bool" where
  "heap_in h I \<longleftrightarrow> (\<exists>xs. heap_rep h xs \<and> (xs \<noteq> [] \<longrightarrow> heap_room h) \<and> elem ` set xs \<subseteq> I)"

definition block_of_job :: "job \<Rightarrow> block \<Rightarrow> bool" where
  "block_of_job h b \<longleftrightarrow> blk_start b = block_start h (block_idx h) \<and> blk_end b = block_end h (block_idx h)"

text \<open>The block a worker holds is a block of the history, and its target hash is the hash of that block's job.\<close>

definition holds_block :: "u32 set \<Rightarrow> job list \<Rightarrow> u8 list \<Rightarrow> block \<Rightarrow> bool" where
  "holds_block I hs hash b \<longleftrightarrow> blk_job b \<in> I \<and> (\<exists>h \<in> set hs. block_of_job h b \<and> hash = req_hash (job_request h))"

definition target_known :: "(u32 \<rightharpoonup> job) \<Rightarrow> nat \<Rightarrow> worker \<Rightarrow> bool" where
  "target_known C t w \<longleftrightarrow> (prev_job_id w = SCHEDULER_NO_JOB_ID_SENTINEL \<or> unat (prev_job_id w) \<le> t) \<and>
     (\<forall>i j. C i = Some j \<longrightarrow> job_id j = prev_job_id w \<longrightarrow> target_hash w = req_hash (job_request j))"

definition thread_ok :: "(u32 \<rightharpoonup> job) \<Rightarrow> nat \<Rightarrow> job list \<Rightarrow> stage \<Rightarrow> worker \<Rightarrow> bool" where
  "thread_ok C t hs pc w \<longleftrightarrow> heap_in (local_jobs w) (dom C) \<and> target_known C t w \<and>
     (\<forall>b. stage_block pc = Some b \<longrightarrow> holds_block (dom C) hs (target_hash w) b)"

lemma target_evolves:
  assumes "target_known C t w" "evolves C C'"
  shows "target_known C' t w"
proof -
  have "target_hash w = req_hash (job_request j')" if j': "C' i = Some j'" "job_id j' = prev_job_id w" for i j'
  proof -
    obtain j where "C i = Some j" "later_job j j'" by (rule evolvesE [OF assms(2) j'(1)])
    then show ?thesis using assms(1) j'(2) by (simp add: target_known_def later_job_def)
  qed
  then show ?thesis using assms(1) by (simp add: target_known_def)
qed

lemma thread_evolves:
  assumes "thread_ok C t hs pc w" "evolves C C'"
  shows "thread_ok C' t (hs @ new) pc w"
proof -
  have "dom C' = dom C" using assms(2) by (simp add: evolves_def)
  then show ?thesis
    using assms(1) target_evolves [OF _ assms(2)] unfolding thread_ok_def holds_block_def by auto
qed

section \<open>The steps of a worker\<close>

lemma update_cell:
  assumes "fl_live (jobs s) L" "cells s i = Some j"
  obtains js where "update_job f i s = Some (s\<lparr>jobs := js\<rparr>)" "fl_live js L" "freelist_get js = (cells s)(i \<mapsto> f j)"
    "fl_cap js = fl_cap (jobs s)" "free js = free (jobs s)"
proof -
  obtain js where "freelist_set (jobs s) i (f j) = Some js" "fl_live js L" "freelist_get js = (cells s)(i \<mapsto> f j)"
      "fl_cap js = fl_cap (jobs s)" "free js = free (jobs s)"
    by (rule live_set [OF assms(1)]) (use assms(2) in \<open>auto simp: cells_def\<close>)
  then show thesis using that assms(2) by (simp add: update_job_def cells_def)
qed

text \<open>What a step of a worker leaves unchanged, and what it keeps.\<close>

definition worker_effect :: "u32 set \<Rightarrow> nat \<Rightarrow> nat \<Rightarrow> job list \<Rightarrow> scheduler \<Rightarrow>
    stage \<times> worker \<times> shared_state \<times> job list \<Rightarrow> bool" where
  "worker_effect L t n hs s r \<longleftrightarrow> (\<exists>pc' w' js wd' new. r = (pc', w', (s\<lparr>jobs := js\<rparr>, wd'), new) \<and>
     fl_live js L \<and> fl_cap js = fl_cap (jobs s) \<and> free js = free (jobs s) \<and> evolves (cells s) (freelist_get js) \<and>
     pool_ok (freelist_get js) t (Suc n) (hs @ new) \<and> thread_ok (freelist_get js) t (hs @ new) pc' w')"

lemma effectI:
  assumes "r = (pc', w', (s\<lparr>jobs := js\<rparr>, wd'), new)" "fl_live js L" "fl_cap js = fl_cap (jobs s)" "free js = free (jobs s)"
    "evolves (cells s) (freelist_get js)" "pool_ok (freelist_get js) t (Suc n) (hs @ new)"
    "thread_ok (freelist_get js) t (hs @ new) pc' w'"
  shows "worker_effect L t n hs s r"
  unfolding worker_effect_def using assms by (intro exI conjI)

text \<open>A step that leaves the scheduler alone.\<close>

lemma effect_local:
  assumes "r = (pc', w', (s, wd'), [])" "fl_live (jobs s) L" "pool_ok (cells s) t n hs" "thread_ok (cells s) t hs pc' w'"
  shows "worker_effect L t n hs s r"
proof (rule effectI)
  show "r = (pc', w', (s\<lparr>jobs := jobs s\<rparr>, wd'), [])" using assms(1) by simp
  show "evolves (cells s) (freelist_get (jobs s))" by (simp add: cells_def)
  show "pool_ok (freelist_get (jobs s)) t (Suc n) (hs @ [])"
    using pool_evolves [OF assms(3) evolves_refl] by (simp add: cells_def)
qed (use assms in \<open>simp_all add: cells_def\<close>)

text \<open>A step that writes one field of a job and nothing else.\<close>

lemma effect_update:
  assumes live: "fl_live (jobs s) L" and pool: "pool_ok (cells s) t n hs" and th: "thread_ok (cells s) t hs pc w"
    and j: "cells s i = Some j" "later_job j (f j)" and pc': "stage_block pc' = None \<or> stage_block pc' = stage_block pc"
  obtains s' where "update_job f i s = Some s'" "worker_effect L t n hs s (pc', w, (s', wd), [])"
proof -
  obtain js where js: "update_job f i s = Some (s\<lparr>jobs := js\<rparr>)" "fl_live js L" "freelist_get js = (cells s)(i \<mapsto> f j)"
      "fl_cap js = fl_cap (jobs s)" "free js = free (jobs s)"
    by (rule update_cell [OF live j(1)])
  have ev: "evolves (cells s) (freelist_get js)"
    unfolding js(3) using j by (rule evolves_update)
  have "thread_ok (cells s) t hs pc' w" using th pc' by (auto simp: thread_ok_def)
  then have "thread_ok (freelist_get js) t (hs @ []) pc' w" by (rule thread_evolves [OF _ ev])
  moreover have "pool_ok (freelist_get js) t (Suc n) (hs @ [])" using pool_evolves [OF pool ev] by simp
  ultimately have "worker_effect L t n hs s (pc', w, (s\<lparr>jobs := js\<rparr>, wd), [])"
    using js(2,4,5) ev by (intro effectI [OF refl])
  then show thesis using that js(1) by blast
qed

text \<open>Taking a block, or dropping a node whose job has none left.\<close>

lemma job_id_real: "unat (x :: u32) \<le> t \<Longrightarrow> t < 2 ^ 32 - 1 \<Longrightarrow> x \<noteq> SCHEDULER_NO_JOB_ID_SENTINEL"
  by (auto simp: SCHEDULER_NO_JOB_ID_SENTINEL_def unsigned_minus_1_eq_mask mask_eq_exp_minus_1)

lemma choosing_effect:
  assumes live: "fl_live (jobs s) L" and pool: "pool_ok (cells s) t n hs" and th: "thread_ok (cells s) t hs Choosing w"
    and small: "n < 2 ^ 62"
  obtains r where "worker_step search Choosing w (s, wd) = Some r" "worker_effect L t n hs s r"
proof -
  obtain xs where xs: "heap_rep (local_jobs w) xs" "xs \<noteq> [] \<Longrightarrow> heap_room (local_jobs w)" "elem ` set xs \<subseteq> dom (cells s)"
    using th by (auto simp: thread_ok_def heap_in_def)
  note get = get_max_rep [OF xs(1)]
  show thesis
  proof (cases "xs = []")
    case True
    then have "worker_step search Choosing w (s, wd) = Some (Awaiting, w, (s, wd), [])"
      using get by (simp add: take_attempt_def)
    moreover have "thread_ok (cells s) t hs Awaiting w" using th by (simp add: thread_ok_def)
    ultimately show thesis using that effect_local [OF refl live pool] by blast
  next
    case False
    let ?i = "elem (xs ! 0)" and ?up = "\<lambda>j. j\<lparr>block_idx := block_idx j + 1\<rparr>"
    have "?i \<in> elem ` set xs" using False by simp
    then have "?i \<in> dom (cells s)" using xs(3) by blast
    then obtain j where j: "cells s ?i = Some j" by blast
    have cnt: "counters_ok (cells s) n" using pool by (simp add: pool_ok_def)
    have later: "later_job j (?up j)" by (rule later_counted [OF cnt small j])
    obtain js where js: "update_job ?up ?i s = Some (s\<lparr>jobs := js\<rparr>)" "fl_live js L" "freelist_get js = (cells s)(?i \<mapsto> ?up j)"
        "fl_cap js = fl_cap (jobs s)" "free js = free (jobs s)"
      by (rule update_cell [OF live j])
    have ev: "evolves (cells s) (freelist_get js)" unfolding js(3) using j later by (rule evolves_update)
    have getj: "freelist_get (jobs s) ?i = Some j" using j by (simp add: cells_def)
    show thesis
    proof (cases "block_idx j \<le> block_count j")
      case taken: True
      let ?w = "if prev_job_id w \<noteq> job_id j then w\<lparr>target_hash := req_hash (job_request j), prev_job_id := job_id j\<rparr> else w"
      let ?b = "\<lparr>blk_job = ?i, blk_start = block_start j (block_idx j), blk_end = block_end j (block_idx j)\<rparr>"
      have step: "worker_step search Choosing w (s, wd) = Some (To_Enter ?b, ?w, (s\<lparr>jobs := js\<rparr>, wd), [j])"
        using get False getj js(1) taken by (simp add: take_attempt_def Let_def)
      have hash: "target_hash ?w = req_hash (job_request j)" "prev_job_id ?w = job_id j" "local_jobs ?w = local_jobs w"
        using th j by (auto simp: thread_ok_def target_known_def)
      have "target_known (cells s) t ?w"
        using pool j hash by (force simp: target_known_def pool_ok_def job_ids_ok_def)
      then have "target_known (freelist_get js) t ?w" by (rule target_evolves [OF _ ev])
      moreover have "holds_block (dom (freelist_get js)) (hs @ [j]) (target_hash ?w) ?b"
        using j hash(1) by (auto simp: holds_block_def block_of_job_def js(3))
      moreover have "heap_in (local_jobs ?w) (dom (freelist_get js))"
        using th ev hash(3) by (simp add: thread_ok_def evolves_def)
      ultimately have "thread_ok (freelist_get js) t (hs @ [j]) (To_Enter ?b) ?w"
        by (simp add: thread_ok_def)
      moreover have "pool_ok (freelist_get js) t (Suc n) (hs @ [j])"
        unfolding js(3) using pool small j taken by (rule pool_handed)
      ultimately have "worker_effect L t n hs s (To_Enter ?b, ?w, (s\<lparr>jobs := js\<rparr>, wd), [j])"
        using js(2,4,5) ev by (intro effectI [OF refl])
      then show thesis using that step by blast
    next
      case dropped: False
      obtain h ys where h: "priority_heap_extract_max (local_jobs w) = Some (Some (xs ! 0), h)" "heap_rep h ys"
          "mset xs = add_mset (xs ! 0) (mset ys)" "vec_cap h = vec_cap (local_jobs w)"
        using extract_rep [OF xs(1) False xs(2) [OF False]] by blast
      have step: "worker_step search Choosing w (s, wd) = Some (Choosing, w\<lparr>local_jobs := h\<rparr>, (s\<lparr>jobs := js\<rparr>, wd), [])"
        using get False getj js(1) dropped h(1) by (simp add: take_attempt_def Let_def)
      have "set ys \<subseteq> set xs" using arg_cong [OF h(3), of set_mset] by auto
      then have "heap_in h (dom (cells s))"
        using h(2,4) xs(2) [OF False] xs(3) unfolding heap_in_def heap_room_def by (intro exI [of _ ys]) auto
      then have "thread_ok (cells s) t hs Choosing (w\<lparr>local_jobs := h\<rparr>)"
        using th by (simp add: thread_ok_def target_known_def)
      then have "thread_ok (freelist_get js) t (hs @ []) Choosing (w\<lparr>local_jobs := h\<rparr>)" by (rule thread_evolves [OF _ ev])
      moreover have "pool_ok (freelist_get js) t (Suc n) (hs @ [])" using pool_evolves [OF pool ev] by simp
      ultimately have "worker_effect L t n hs s (Choosing, w\<lparr>local_jobs := h\<rparr>, (s\<lparr>jobs := js\<rparr>, wd), [])"
        using js(2,4,5) ev by (intro effectI [OF refl])
      then show thesis using that step by blast
    qed
  qed
qed

text \<open>The two places where a worker may not go on: the search does not return, or the recipient is freed.\<close>

fun stopped :: "search \<Rightarrow> stage \<Rightarrow> worker \<Rightarrow> world \<Rightarrow> bool" where
  "stopped search (Searching b) w wd \<longleftrightarrow> search (blk_start b) (blk_end b) (target_hash w) = None"
| "stopped search (To_Notify r a) w wd \<longleftrightarrow> scheduler_job_notify_recipient r a wd = None"
| "stopped search _ w wd \<longleftrightarrow> False"

lemma worker_step_effect:
  assumes live: "fl_live (jobs s) L" and pool: "pool_ok (cells s) t n hs" and th: "thread_ok (cells s) t hs pc w"
    and small: "n < 2 ^ 62" and read: "heap_in (jobs_r s) (dom (cells s))" and go: "\<not> stopped search pc w wd"
  obtains r where "worker_step search pc w (s, wd) = Some r" "worker_effect L t n hs s r"
proof (cases pc)
  case To_Refresh
  show thesis
  proof (cases "prev_max_job_id w < last_job_id s")
    case True
    obtain xs where xs: "heap_rep (jobs_r s) xs" "xs \<noteq> [] \<Longrightarrow> heap_room (jobs_r s)" "elem ` set xs \<subseteq> dom (cells s)"
      using read by (auto simp: heap_in_def)
    obtain h where h: "vec_copy (local_jobs w) (jobs_r s) = Some h" "vec_rep h xs" "vec_cap h = vec_cap (jobs_r s)"
      using vec_copy_rep [of "jobs_r s" xs "local_jobs w"] xs(1) by (auto simp: heap_rep_def)
    have "heap_in h (dom (cells s))"
      using h xs by (auto simp: heap_in_def heap_rep_def heap_room_def intro!: exI [of _ xs])
    then have "thread_ok (cells s) t hs Choosing (w\<lparr>local_jobs := h, prev_max_job_id := last_job_id s\<rparr>)"
      using th by (simp add: thread_ok_def target_known_def)
    then show thesis
      using that effect_local [OF refl live pool] To_Refresh True h(1) by simp
  next
    case False
    have "thread_ok (cells s) t hs Choosing w" using th by (simp add: thread_ok_def To_Refresh)
    then show thesis using that effect_local [OF refl live pool] To_Refresh False by simp
  qed
next
  case Choosing
  then show thesis using that choosing_effect [OF live pool _ small] th by blast
next
  case Awaiting
  have "thread_ok (cells s) t hs (if prev_max_job_id w < last_job_id s then To_Refresh else Awaiting) w"
    using th by (simp add: thread_ok_def Awaiting)
  then show thesis using that effect_local [OF refl live pool] Awaiting by simp
next
  case (To_Enter b)
  then obtain j where j: "cells s (blk_job b) = Some j" using th by (auto simp: thread_ok_def holds_block_def)
  obtain s' where "enter_job (blk_job b) s = Some s'" "worker_effect L t n hs s (Searching b, w, (s', wd), [])"
    unfolding enter_job_def
    by (rule effect_update [OF live pool th j, of "\<lambda>j. j\<lparr>rc := rc j + 1\<rparr>" "Searching b"])
      (simp_all add: To_Enter later_job_def)
  then show thesis using that To_Enter by simp
next
  case (Searching b)
  then obtain a where a: "search (blk_start b) (blk_end b) (target_hash w) = Some a" using go by auto
  let ?pc = "if a = SCHEDULER_NO_ANSWER_SENTINEL then To_Leave b else To_Mark b a"
  have "thread_ok (cells s) t hs ?pc w" using th by (simp add: thread_ok_def Searching)
  then show thesis using that effect_local [OF refl live pool] Searching a by simp
next
  case (To_Leave b)
  then obtain j where j: "cells s (blk_job b) = Some j" using th by (auto simp: thread_ok_def holds_block_def)
  obtain s' where "leave_job (blk_job b) s = Some s'" "worker_effect L t n hs s (To_Refresh, w, (s', wd), [])"
    unfolding leave_job_def
    by (rule effect_update [OF live pool th j, of "\<lambda>j. j\<lparr>rc := rc j - 1\<rparr>" To_Refresh])
      (simp_all add: later_job_def)
  then show thesis using that To_Leave by simp
next
  case (To_Mark b a)
  then obtain j where j: "cells s (blk_job b) = Some j" using th by (auto simp: thread_ok_def holds_block_def)
  obtain s' where "update_job job_mark_as_done (blk_job b) s = Some s'"
      "worker_effect L t n hs s (To_Notify (job_recipient j) a, w, (s', wd), [])"
    by (rule effect_update [OF live pool th j, of job_mark_as_done "To_Notify (job_recipient j) a"])
      (simp_all add: later_job_def job_mark_as_done_def)
  then show thesis using that To_Mark j by (simp add: cells_def)
next
  case (To_Notify r a)
  then obtain wd' where wd': "scheduler_job_notify_recipient r a wd = Some wd'" using go by auto
  have "thread_ok (cells s) t hs To_Refresh w" using th by (simp add: thread_ok_def)
  then show thesis using that effect_local [OF refl live pool] To_Notify wd' by simp
qed

end
