(* ===== verification/Sched_System.thy ===== *)
theory Sched_System
  imports Sched_Workers
begin

text \<open>
  The invariant of the whole system of \<open>Sched_Steps\<close>, in every interleaving of the submitter and any number of
  workers, and what follows from it.
\<close>

section \<open>The submitter\<close>

text \<open>\<open>nodes_in h P xs\<close>: the heap holds the nodes \<open>xs\<close>, with distinct indices and priorities that are bytes; \<open>P\<close> bounds its size.\<close>

definition nodes_in :: "u32 heap \<Rightarrow> nat \<Rightarrow> u32 heap_node list \<Rightarrow> bool" where
  "nodes_in h P xs \<longleftrightarrow> heap_rep h xs \<and> 0 < vec_cap h \<and> unat (vec_cap h) \<le> 2 * P \<and> length xs \<le> P \<and>
     distinct (map elem xs) \<and> (\<forall>n \<in> set xs. \<exists>p :: u8. priority n = ucast p)"

abbreviation named :: "u32 heap_node list \<Rightarrow> u32 set" where
  "named xs \<equiv> elem ` set xs"

text \<open>
  Which cells are in use (\<open>L\<close>) while a submission is under way: those of the read heap, from the insertion
  on also the new one, and during the clean-up those of the write heap and the new one.
\<close>

fun submit_live :: "submit_stage \<Rightarrow> scheduler \<Rightarrow> nat \<Rightarrow> u32 set \<Rightarrow> bool" where
  "submit_live (To_Copy request i) s P L \<longleftrightarrow> (\<exists>xs. nodes_in (jobs_r s) P xs \<and> i \<notin> named xs \<and> L = insert i (named xs)) \<and>
     fl_lim (P + 1) (jobs s)"
| "submit_live (Cleaning request i k) s P L \<longleftrightarrow> (\<exists>xs ys. nodes_in (jobs_r s) P xs \<and> named xs \<subseteq> dom (cells s) \<and>
     nodes_in (jobs_w s) P ys \<and> i \<notin> named ys \<and> L = insert i (named ys)) \<and> fl_lim (P + 1) (jobs s)"
| "submit_live _ s P L \<longleftrightarrow> (\<exists>xs. nodes_in (jobs_r s) P xs \<and> L = named xs) \<and> fl_lim P (jobs s)"

definition submit_ok :: "submit_stage \<Rightarrow> scheduler \<Rightarrow> nat \<Rightarrow> bool" where
  "submit_ok pc s P \<longleftrightarrow> (\<exists>L. submit_live pc s P L \<and> fl_live (jobs s) L)"

lemma nodes_room: "nodes_in h P xs \<Longrightarrow> P < 2 ^ 28 \<Longrightarrow> heap_room h"
  by (auto simp: nodes_in_def heap_room_def)

lemma submit_read:
  assumes "submit_live pc s P L" "fl_live (jobs s) L" "P < 2 ^ 28"
  shows "heap_in (jobs_r s) (dom (cells s))"
proof -
  have "L \<subseteq> dom (cells s)" using assms(2) by (simp add: fl_live_def cells_def)
  then have "\<exists>xs. nodes_in (jobs_r s) P xs \<and> named xs \<subseteq> dom (cells s)"
    using assms(1) by (cases pc) auto
  then show ?thesis using nodes_room assms(3) by (auto simp: heap_in_def nodes_in_def heap_room_def)
qed

lemma submit_live_frame:
  assumes "submit_live pc s P L" "fl_cap js = fl_cap (jobs s)" "free js = free (jobs s)" "dom (freelist_get js) = dom (cells s)"
  shows "submit_live pc (s\<lparr>jobs := js\<rparr>) P L"
  using assms by (cases pc) (auto simp: fl_lim_def cells_def)

section \<open>A new job\<close>

lemma new_job_counters: "unat (block_count (new_job req rcp jid)) < 2 ^ 48" "block_idx (new_job req rcp jid) = 0"
proof -
  have "unat (req_end req - req_start req + (BLOCK_SIZE - 1)) div 2 ^ 16 < 2 ^ 48"
    using u64_bound [of "req_end req - req_start req + (BLOCK_SIZE - 1)"] by (simp add: less_mult_imp_div_less)
  then show "unat (block_count (new_job req rcp jid)) < 2 ^ 48"
    by (simp add: new_job_def BLOCK_SIZE_def unat_div)
qed simp

lemma pool_insert_job:
  assumes ok: "pool_ok C t n hs" and jid: "unat jid = Suc t"
  shows "pool_ok (C(i \<mapsto> new_job req rcp jid)) (Suc t) (Suc n) hs"
proof -
  let ?C = "C(i \<mapsto> new_job req rcp jid)"
  have ids: "job_ids_ok C t" and hist: "history_ok C t hs" using ok by (simp_all add: pool_ok_def)
  have le: "unat (job_id j) \<le> t" if "C i' = Some j" for i' j using ids that by (simp add: job_ids_ok_def)
  then have old: "job_id j \<noteq> jid" if "C i' = Some j" for i' j using that jid by fastforce
  have new: "job_id h \<noteq> jid" if "h \<in> set hs" for h using hist that jid by (fastforce simp: history_ok_def)
  have "job_ids_ok ?C (Suc t)"
    unfolding job_ids_ok_def
  proof (intro conjI allI impI)
    fix i' j assume "?C i' = Some j"
    then show "unat (job_id j) \<le> Suc t" using le jid by (auto simp: le_Suc_eq split: if_splits)
  next
    fix i1 j1 i2 j2 assume j: "?C i1 = Some j1" "?C i2 = Some j2" "job_id j1 = job_id j2"
    then have "i1 = i \<longleftrightarrow> i2 = i" by (auto dest: old split: if_splits)
    then show "i1 = i2" using ids j by (cases "i1 = i") (auto simp: job_ids_ok_def)
  qed
  moreover have "counters_ok ?C (Suc n)"
    unfolding counters_ok_def
  proof (intro allI impI)
    fix i' j assume j: "?C i' = Some j"
    show "unat (block_count j) < 2 ^ 48 \<and> unat (block_idx j) \<le> 2 ^ 48 + Suc n"
    proof (cases "i' = i")
      case True
      then show ?thesis using j new_job_counters [of req rcp jid] by simp
    next
      case False
      then show ?thesis using j ok by (fastforce simp: pool_ok_def counters_ok_def)
    qed
  qed
  moreover have "history_ok ?C (Suc t) hs"
    unfolding history_ok_def
  proof (intro conjI ballI allI impI)
    show "distinct (map block_key (filter handed_before hs))" using hist by (simp add: history_ok_def)
  next
    show "counts_agree hs" using hist by (simp add: history_ok_def)
  next
    fix h assume h: "h \<in> set hs"
    show "unat (job_id h) \<le> Suc t" "block_idx h \<le> block_count h" using hist h by (auto simp: history_ok_def le_Suc_eq)
    fix i' j' assume j': "?C i' = Some j'" "job_id j' = job_id h"
    then have "C i' = Some j'" using new [OF h] by (auto split: if_splits)
    then have "block_count j' = block_count h \<and> (handed_before h \<longrightarrow> block_idx h < block_idx j')"
      using hist h j'(2) by (simp add: history_ok_def)
    then show "block_count j' = block_count h" "handed_before h \<Longrightarrow> block_idx h < block_idx j'" by simp_all
  qed
  ultimately show ?thesis by (simp add: pool_ok_def)
qed

lemma thread_insert_job:
  assumes "thread_ok C t hs pc w" "unat jid = Suc t" "Suc t < 2 ^ 32 - 1"
  shows "thread_ok (C(i \<mapsto> new_job req rcp jid)) (Suc t) hs pc w"
proof -
  have "prev_job_id w \<noteq> jid"
    using assms job_id_real [of jid "Suc t"] by (auto simp: thread_ok_def target_known_def)
  then have "target_known (C(i \<mapsto> new_job req rcp jid)) (Suc t) w"
    using assms(1) by (auto simp: thread_ok_def target_known_def)
  moreover have "heap_in h (dom (C(i \<mapsto> j)))" if "heap_in h (dom C)" for h j
    using that by (auto simp: heap_in_def)
  ultimately show ?thesis
    using assms(1) by (auto simp: thread_ok_def holds_block_def)
qed

section \<open>The steps of the submitter\<close>

text \<open>How many submissions have put their job into a cell: the completed ones, and the one under way.\<close>

fun inserted :: "submit_stage \<Rightarrow> bool" where
  "inserted (To_Copy request i) \<longleftrightarrow> True"
| "inserted (Cleaning request i k) \<longleftrightarrow> True"
| "inserted _ \<longleftrightarrow> False"

definition id_limit :: "submit_stage \<Rightarrow> scheduler \<Rightarrow> nat" where
  "id_limit pc s = unat (last_job_id s) + (if inserted pc then 1 else 0)"

definition crew_ok :: "submit_stage \<Rightarrow> scheduler \<Rightarrow> job list \<Rightarrow> (stage \<times> worker) list \<Rightarrow> bool" where
  "crew_ok pc s hs ws \<longleftrightarrow> (\<forall>(wpc, w) \<in> set ws. thread_ok (cells s) (id_limit pc s) hs wpc w)"

text \<open>The scheduler's part of the invariant of a system.\<close>

definition shared_ok :: "nat \<Rightarrow> nat \<Rightarrow> submit_stage \<Rightarrow> scheduler \<Rightarrow> job list \<Rightarrow> (stage \<times> worker) list \<Rightarrow> bool" where
  "shared_ok c n pc s hs ws \<longleftrightarrow> submit_ok pc s (c + unat (last_job_id s)) \<and>
     pool_ok (cells s) (id_limit pc s) n hs \<and> crew_ok pc s hs ws"

lemma pool_Suc: "pool_ok C t n hs \<Longrightarrow> pool_ok C t (Suc n) hs"
  using pool_evolves [OF _ evolves_refl] .

lemma nodes_rep: "nodes_in h P xs \<Longrightarrow> heap_rep h xs" "nodes_in h P xs \<Longrightarrow> vec_rep h xs"
  by (simp_all add: nodes_in_def heap_rep_def)

lemma submit_insert_ok:
  assumes ok: "shared_ok c n (To_Insert request recipient) s hs ws" and small: "c + unat (last_job_id s) < 2 ^ 27"
  obtains i js where "freelist_insert (jobs s) (new_job request recipient (last_job_id s + 1)) = Some (i, js)"
    "shared_ok c (Suc n) (To_Copy request i) (s\<lparr>jobs := js\<rparr>) hs ws"
proof -
  let ?P = "c + unat (last_job_id s)" and ?jid = "last_job_id s + 1"
  let ?j = "new_job request recipient ?jid"
  obtain xs where xs: "nodes_in (jobs_r s) ?P xs" "fl_live (jobs s) (named xs)" "fl_lim ?P (jobs s)"
    using ok by (auto simp: shared_ok_def submit_ok_def)
  obtain i js where js: "freelist_insert (jobs s) ?j = Some (i, js)" "i \<notin> named xs" "fl_live js (insert i (named xs))"
      "fl_lim (?P + 1) js" "freelist_get js = (freelist_get (jobs s))(i \<mapsto> ?j)"
    by (rule live_insert [OF xs(2,3)]) (use small in auto)
  let ?s = "s\<lparr>jobs := js\<rparr>"
  have cells: "cells ?s = (cells s)(i \<mapsto> ?j)" using js(5) by (simp add: cells_def)
  have jid: "unat ?jid = Suc (unat (last_job_id s))"
    using small by (simp add: unat_word_ariths)
  have t: "id_limit (To_Insert request recipient) s = unat (last_job_id s)"
      "id_limit (To_Copy request i) ?s = Suc (unat (last_job_id s))"
    by (simp_all add: id_limit_def)
  have "submit_live (To_Copy request i) ?s ?P (insert i (named xs))"
    using xs(1) js(2,4) by auto
  then have "submit_ok (To_Copy request i) ?s ?P"
    unfolding submit_ok_def using js(3) by (intro exI [of _ "insert i (named xs)"]) simp
  moreover have "pool_ok (cells ?s) (id_limit (To_Copy request i) ?s) (Suc n) hs"
    unfolding cells t(2) by (rule pool_insert_job [OF _ jid]) (use ok t(1) in \<open>simp add: shared_ok_def\<close>)
  moreover have "crew_ok (To_Copy request i) ?s hs ws"
    unfolding crew_ok_def cells t(2)
    using ok t(1) small thread_insert_job [OF _ jid] by (fastforce simp: shared_ok_def crew_ok_def)
  ultimately have "shared_ok c (Suc n) (To_Copy request i) ?s hs ws" by (simp add: shared_ok_def)
  then show thesis using that js(1) by blast
qed

lemma submit_copy_ok:
  assumes ok: "shared_ok c n (To_Copy request i) s hs ws"
  obtains h where "vec_copy (jobs_w s) (jobs_r s) = Some h"
    "shared_ok c (Suc n) (Cleaning request i 0) (s\<lparr>jobs_w := h\<rparr>) hs ws"
proof -
  let ?P = "c + unat (last_job_id s)"
  obtain xs where xs: "nodes_in (jobs_r s) ?P xs" "i \<notin> named xs" "fl_live (jobs s) (insert i (named xs))" "fl_lim (?P + 1) (jobs s)"
    using ok by (auto simp: shared_ok_def submit_ok_def)
  obtain h where h: "vec_copy (jobs_w s) (jobs_r s) = Some h" "vec_rep h xs" "vec_cap h = vec_cap (jobs_r s)"
    using vec_copy_rep [OF nodes_rep(2) [OF xs(1)]] by blast
  have nodes: "nodes_in h ?P xs" using xs(1) h by (simp add: nodes_in_def heap_rep_def)
  let ?s = "s\<lparr>jobs_w := h\<rparr>"
  have same: "cells ?s = cells s" "id_limit (Cleaning request i 0) ?s = id_limit (To_Copy request i) s"
    by (simp_all add: cells_def id_limit_def)
  have "named xs \<subseteq> dom (cells s)" using xs(3) by (auto simp: fl_live_def cells_def)
  then have "submit_live (Cleaning request i 0) ?s ?P (insert i (named xs))"
    using xs nodes same by auto
  then have "submit_ok (Cleaning request i 0) ?s ?P"
    unfolding submit_ok_def using xs(3) by (intro exI [of _ "insert i (named xs)"]) simp
  then have "shared_ok c (Suc n) (Cleaning request i 0) ?s hs ws"
    using ok pool_Suc by (simp add: shared_ok_def crew_ok_def same)
  then show thesis using that h(1) by blast
qed

text \<open>A round of the clean-up, and the insertion and the exchange of the heaps after it.\<close>

lemma submit_remove_ok:
  assumes ok: "shared_ok c n (Cleaning request i k) s hs ws" and small: "c + unat (last_job_id s) < 2 ^ 27"
    and k: "vec_get (jobs_w s) k = Some node" "k < vec_len (jobs_w s)"
  obtains js h where "freelist_remove (jobs s) (elem node) = Some js" "priority_heap_remove (jobs_w s) k = Some h"
    "shared_ok c (Suc n) (Cleaning request i k) (s\<lparr>jobs := js, jobs_w := h\<rparr>) hs ws"
proof -
  let ?P = "c + unat (last_job_id s)"
  obtain xs ys where xs: "nodes_in (jobs_r s) ?P xs" "named xs \<subseteq> dom (cells s)" and ys: "nodes_in (jobs_w s) ?P ys" "i \<notin> named ys"
      and live: "fl_live (jobs s) (insert i (named ys))" and lim: "fl_lim (?P + 1) (jobs s)"
    using ok by (auto simp: shared_ok_def submit_ok_def)
  have len: "unat k < length ys"
    using vec_rep_len [OF nodes_rep(2) [OF ys(1)]] k(2) by (simp add: word_less_nat_alt)
  have node: "ys ! unat k = node" using vec_get_rep [OF nodes_rep(2) [OF ys(1)] len] k(1) by simp
  have room: "heap_room (jobs_w s)" using nodes_room [OF ys(1)] small by simp
  have "\<forall>j < length ys. j \<noteq> unat k \<longrightarrow> prio ys j \<noteq> - 1"
  proof (intro allI impI)
    fix j assume "j < length ys"
    then obtain p :: u8 where "prio ys j = ucast p"
      using ys(1) nth_mem unfolding nodes_in_def by blast
    then show "prio ys j \<noteq> - 1" by (simp add: byte_not_max)
  qed
  then obtain h zs where h: "priority_heap_remove (jobs_w s) k = Some h" "heap_rep h zs"
      "mset ys = add_mset node (mset zs)" "vec_cap h = vec_cap (jobs_w s)"
    using remove_rep [OF nodes_rep(1) [OF ys(1)] len room] node by auto
  have set: "set ys = insert node (set zs)" using arg_cong [OF h(3), of set_mset] by simp
  have "mset (map elem ys) = mset (map elem (node # zs))" using h(3) by simp
  then have "distinct (map elem (node # zs))"
    using ys(1) mset_eq_imp_distinct_iff unfolding nodes_in_def by blast
  then have dist: "distinct (map elem zs)" "elem node \<notin> named zs" by simp_all
  have "length ys = Suc (length zs)" using arg_cong [OF h(3), of size] by simp
  then have nodes: "nodes_in h ?P zs"
    using ys(1) h(2,4) dist(1) set by (simp add: nodes_in_def)
  have "elem node \<in> insert i (named ys)" using set by simp
  then obtain js where js: "freelist_remove (jobs s) (elem node) = Some js" "fl_live js (insert i (named ys) - {elem node})"
      "freelist_get js = freelist_get (jobs s)" "fl_lim (?P + 1) js"
    using live_remove [OF live, of _ "?P + 1"] lim by metis
  have "elem node \<noteq> i" using ys(2) set by auto
  moreover have "named ys = insert (elem node) (named zs)" using set by simp
  ultimately have L: "insert i (named ys) - {elem node} = insert i (named zs)" using dist(2) by blast
  let ?s = "s\<lparr>jobs := js, jobs_w := h\<rparr>"
  have same: "cells ?s = cells s" "id_limit (Cleaning request i k) ?s = id_limit (Cleaning request i k) s"
    using js(3) by (simp_all add: cells_def id_limit_def)
  have "i \<notin> named zs" using ys(2) set by simp
  then have "submit_live (Cleaning request i k) ?s ?P (insert i (named zs))"
    using xs nodes js(4) same(1) by auto
  then have "submit_ok (Cleaning request i k) ?s ?P"
    unfolding submit_ok_def using js(2) L by (intro exI [of _ "insert i (named zs)"]) simp
  then have "shared_ok c (Suc n) (Cleaning request i k) ?s hs ws"
    using ok pool_Suc by (simp add: shared_ok_def crew_ok_def same)
  then show thesis using that js(1) h(1) by blast
qed

lemma submit_swap_ok:
  assumes ok: "shared_ok c n (Cleaning request i k) s hs ws" and small: "c + unat (last_job_id s) < 2 ^ 27"
  obtains h where "priority_heap_insert (jobs_w s) i (ucast (req_priority request)) = Some h"
    "shared_ok c (Suc n) At_Rest (s\<lparr>jobs_r := h, jobs_w := jobs_r s, last_job_id := last_job_id s + 1\<rparr>) hs ws"
proof -
  let ?P = "c + unat (last_job_id s)" and ?p = "ucast (req_priority request) :: u32"
  obtain ys where ys: "nodes_in (jobs_w s) ?P ys" "i \<notin> named ys"
      and live: "fl_live (jobs s) (insert i (named ys))" and lim: "fl_lim (?P + 1) (jobs s)"
    using ok by (auto simp: shared_ok_def submit_ok_def)
  have room: "heap_room (jobs_w s)" using nodes_room [OF ys(1)] small by simp
  obtain h zs where h: "priority_heap_insert (jobs_w s) i ?p = Some h" "heap_rep h zs"
      "mset zs = add_mset \<lparr>priority = ?p, elem = i\<rparr> (mset ys)" "vec_cap (jobs_w s) \<le> vec_cap h"
      "unat (vec_cap h) \<le> max (unat (vec_cap (jobs_w s))) (2 * length ys)"
    using insert_rep [OF nodes_rep(1) [OF ys(1)] room] by blast
  have set: "set zs = insert \<lparr>priority = ?p, elem = i\<rparr> (set ys)" using arg_cong [OF h(3), of set_mset] by simp
  have "mset (map elem zs) = mset (map elem (\<lparr>priority = ?p, elem = i\<rparr> # ys))" using h(3) by simp
  moreover have "distinct (map elem (\<lparr>priority = ?p, elem = i\<rparr> # ys))" using ys by (simp add: nodes_in_def)
  ultimately have dist: "distinct (map elem zs)" using mset_eq_imp_distinct_iff by blast
  have len: "length zs = Suc (length ys)" using arg_cong [OF h(3), of size] by simp
  have cap: "0 < vec_cap h" "unat (vec_cap h) \<le> 2 * Suc ?P"
    using h(4,5) ys(1) by (auto simp: nodes_in_def)
  let ?s = "s\<lparr>jobs_r := h, jobs_w := jobs_r s, last_job_id := last_job_id s + 1\<rparr>"
  have jid: "unat (last_job_id s + 1) = Suc (unat (last_job_id s))" using small by (simp add: unat_word_ariths)
  have "nodes_in h (Suc ?P) zs"
    using ys(1) h(2) dist len cap set by (auto simp: nodes_in_def)
  then have "submit_live At_Rest ?s (Suc ?P) (insert i (named ys))"
    using lim set by (auto intro!: exI [of _ zs])
  then have "submit_ok At_Rest ?s (c + unat (last_job_id ?s))"
    unfolding submit_ok_def using live jid by (intro exI [of _ "insert i (named ys)"]) simp
  moreover have same: "cells ?s = cells s" "id_limit At_Rest ?s = id_limit (Cleaning request i k) s"
    using jid by (simp_all add: cells_def id_limit_def)
  ultimately have "shared_ok c (Suc n) At_Rest ?s hs ws"
    using ok pool_Suc by (simp add: shared_ok_def crew_ok_def)
  then show thesis using that h(1) by blast
qed

text \<open>The submitter's next step is defined, and keeps the invariant; it completes at most one submission.\<close>

definition pending_one :: "submit_stage \<Rightarrow> nat" where
  "pending_one pc = (if pc = At_Rest then 0 else 1)"

definition submissions :: "submit_stage \<Rightarrow> scheduler \<Rightarrow> nat" where
  "submissions pc s = unat (last_job_id s) + pending_one pc"

text \<open>
  While a cell is being written, the invariant holds for the state before the assignment: \<open>unstored i s old\<close>, \<open>old\<close> is the
  state in which the index \<open>i\<close> was not yet taken from the freelist, but the workers have done what they did in \<open>s\<close>.
\<close>

definition unstored :: "u32 \<Rightarrow> scheduler \<Rightarrow> scheduler \<Rightarrow> bool" where
  "unstored i s old \<longleftrightarrow> s = old\<lparr>jobs := jobs s\<rparr> \<and> free (jobs old) \<noteq> 0 \<and> freelist_claim (jobs old) = Some (i, jobs s)"

definition system_shared :: "nat \<Rightarrow> nat \<Rightarrow> submit_stage \<Rightarrow> scheduler \<Rightarrow> job list \<Rightarrow> (stage \<times> worker) list \<Rightarrow> bool" where
  "system_shared c n pc s hs ws \<longleftrightarrow>
     (case pc of
        Storing request recipient i \<Rightarrow> \<exists>old. unstored i s old \<and> shared_ok c n (To_Insert request recipient) old hs ws
      | _ \<Rightarrow> shared_ok c n pc s hs ws)"

lemma system_shared_plain:
  assumes "\<And>request recipient i. pc \<noteq> Storing request recipient i"
  shows "system_shared c n pc s hs ws = shared_ok c n pc s hs ws"
proof (cases pc)
  case (Storing request recipient i)
  then show ?thesis using assms by blast
qed (simp_all add: system_shared_def)

lemma unstoredD:
  assumes "unstored i s old"
  shows "last_job_id old = last_job_id s" "jobs_r old = jobs_r s" "jobs_w old = jobs_w s" "s = old\<lparr>jobs := jobs s\<rparr>"
proof -
  show eq: "s = old\<lparr>jobs := jobs s\<rparr>" using assms by (simp add: unstored_def)
  show "last_job_id old = last_job_id s" "jobs_r old = jobs_r s" "jobs_w old = jobs_w s" by (subst eq; simp)+
qed

lemma submit_begin_ok:
  assumes ok: "shared_ok c n (To_Insert request recipient) s hs ws" and small: "c + unat (last_job_id s) < 2 ^ 27"
  obtains pc' s' where "submitter_step (To_Insert request recipient) s = Some (pc', s')" "pc' \<noteq> At_Rest"
    "last_job_id s' = last_job_id s" "system_shared c (Suc n) pc' s' hs ws"
proof -
  obtain i js where js: "freelist_insert (jobs s) (new_job request recipient (last_job_id s + 1)) = Some (i, js)"
      "shared_ok c (Suc n) (To_Copy request i) (s\<lparr>jobs := js\<rparr>) hs ws"
    by (rule submit_insert_ok [OF ok small])
  show thesis
  proof (cases "free (jobs s) = 0")
    case True
    then show thesis using that js by (simp add: system_shared_def)
  next
    case False
    then obtain js1 where js1: "freelist_claim (jobs s) = Some (i, js1)"
      using js(1) by (auto simp: freelist_insert_claim split: Option.bind_splits)
    have "unstored i (s\<lparr>jobs := js1\<rparr>) s" using js1 False by (simp add: unstored_def)
    moreover have "shared_ok c (Suc n) (To_Insert request recipient) s hs ws"
      using ok pool_Suc by (simp add: shared_ok_def)
    ultimately have "system_shared c (Suc n) (Storing request recipient i) (s\<lparr>jobs := js1\<rparr>) hs ws"
      by (auto simp: system_shared_def)
    then show thesis using that js1 False by simp
  qed
qed

lemma submit_store_ok:
  assumes ok: "system_shared c n (Storing request recipient i) s hs ws" and small: "c + unat (last_job_id s) < 2 ^ 27"
  obtains s' where "submitter_step (Storing request recipient i) s = Some (To_Copy request i, s')"
    "last_job_id s' = last_job_id s" "shared_ok c (Suc n) (To_Copy request i) s' hs ws"
proof -
  obtain old where old: "unstored i s old" "shared_ok c n (To_Insert request recipient) old hs ws"
    using ok by (auto simp: system_shared_def)
  note eq = unstoredD [OF old(1)]
  obtain k js where js: "freelist_insert (jobs old) (new_job request recipient (last_job_id old + 1)) = Some (k, js)"
      "shared_ok c (Suc n) (To_Copy request k) (old\<lparr>jobs := js\<rparr>) hs ws"
    by (rule submit_insert_ok [OF old(2)]) (use small eq(1) in simp)
  have "k = i" "freelist_set (jobs s) i (new_job request recipient (last_job_id s + 1)) = Some js"
    using js(1) old(1) eq(1) by (auto simp: unstored_def freelist_insert_claim split: Option.bind_splits)
  moreover have "s\<lparr>jobs := js\<rparr> = old\<lparr>jobs := js\<rparr>" by (subst eq(4)) simp
  ultimately show thesis using js(2) eq(1) by (intro that [of "s\<lparr>jobs := js\<rparr>"]) simp_all
qed

lemma submitter_step_ok:
  assumes ok: "system_shared c n pc s hs ws" and small: "c + unat (last_job_id s) < 2 ^ 27" and pc: "pc \<noteq> At_Rest"
  obtains pc' s' where "submitter_step pc s = Some (pc', s')" "submissions pc' s' = submissions pc s" "system_shared c (Suc n) pc' s' hs ws"
proof (cases pc)
  case At_Rest
  then show thesis using pc by simp
next
  case (To_Insert request recipient)
  then show thesis using submit_begin_ok [of c n request recipient s hs ws thesis] ok small that
    by (simp add: submissions_def pending_one_def system_shared_plain)
next
  case (Storing request recipient i)
  then show thesis using submit_store_ok [of c n request recipient i s hs ws thesis] ok small that
    by (simp add: submissions_def pending_one_def system_shared_plain)
next
  case (To_Copy request i)
  have "shared_ok c n (To_Copy request i) s hs ws" using ok by (simp add: To_Copy system_shared_plain)
  then obtain h where "vec_copy (jobs_w s) (jobs_r s) = Some h"
      "shared_ok c (Suc n) (Cleaning request i 0) (s\<lparr>jobs_w := h\<rparr>) hs ws"
    by (rule submit_copy_ok)
  then show thesis using that To_Copy
    by (simp add: submissions_def pending_one_def system_shared_plain)
next
  case pc: (Cleaning request i k)
  have ok: "shared_ok c n pc s hs ws" using ok by (simp add: pc system_shared_plain)
  let ?P = "c + unat (last_job_id s)"
  obtain ys where ys: "nodes_in (jobs_w s) ?P ys" and live: "fl_live (jobs s) (insert i (named ys))"
    using ok pc by (auto simp: shared_ok_def submit_ok_def)
  show thesis
  proof (cases "k < vec_len (jobs_w s)")
    case True
    then have len: "unat k < length ys"
      using vec_rep_len [OF nodes_rep(2) [OF ys]] by (simp add: word_less_nat_alt)
    let ?n = "ys ! unat k"
    have get: "vec_get (jobs_w s) k = Some ?n" by (rule vec_get_rep [OF nodes_rep(2) [OF ys] len])
    have "elem ?n \<in> named ys" using len by simp
    then obtain j where j: "freelist_get (jobs s) (elem ?n) = Some j"
      using live by (auto simp: fl_live_def)
    show thesis
    proof (cases "job_is_done j \<and> rc j = 0")
      case fin: True
      obtain js h where r: "freelist_remove (jobs s) (elem ?n) = Some js" "priority_heap_remove (jobs_w s) k = Some h"
          "shared_ok c (Suc n) pc (s\<lparr>jobs := js, jobs_w := h\<rparr>) hs ws"
        by (rule submit_remove_ok [OF _ small get True, of n request i hs ws]) (use ok pc in auto)
      show thesis
      proof (rule that)
        show "submitter_step pc s = Some (pc, s\<lparr>jobs := js, jobs_w := h\<rparr>)"
          using True get j fin r(1,2) by (simp add: pc)
      qed (use r(3) in \<open>simp_all add: submissions_def pc system_shared_plain\<close>)
    next
      case False
      show thesis
      proof (rule that)
        show "submitter_step pc s = Some (Cleaning request i (k + 1), s)"
          using True get j False by (auto simp: pc)
        show "submissions (Cleaning request i (k + 1)) s = submissions pc s"
          by (simp add: submissions_def pending_one_def pc)
        show "system_shared c (Suc n) (Cleaning request i (k + 1)) s hs ws"
          using ok pool_Suc by (simp add: pc system_shared_plain shared_ok_def submit_ok_def crew_ok_def id_limit_def)
      qed
    qed
  next
    case False
    obtain h where r: "priority_heap_insert (jobs_w s) i (ucast (req_priority request)) = Some h"
        "shared_ok c (Suc n) At_Rest (s\<lparr>jobs_r := h, jobs_w := jobs_r s, last_job_id := last_job_id s + 1\<rparr>) hs ws"
      by (rule submit_swap_ok [OF _ small, of n request i k hs ws]) (use ok pc in auto)
    have "unat (last_job_id s + 1) = Suc (unat (last_job_id s))" using small by (simp add: unat_word_ariths)
    then show thesis using that r False by (simp add: pc submissions_def pending_one_def system_shared_plain)
  qed
qed

section \<open>A worker beside an assignment\<close>

text \<open>
  A worker that does not touch the cell being written moves as it would before the assignment; one that does has no step.
\<close>

lemma claim_iff:
  "freelist_claim fl = Some (i, fl') \<longleftrightarrow> ld (indicices fl) (unat (free fl - 1)) = Some i \<and> unat i < length (fl_data fl) \<and>
     fl' = fl\<lparr>free := free fl - 1, fl_data := (fl_data fl)[unat i := None]\<rparr>"
  by (auto simp: freelist_claim_def Let_def split: Option.bind_splits if_splits)

lemma claim_get:
  assumes "freelist_claim fl = Some (i, fl')"
  shows "freelist_get fl' k = (if k = i then None else freelist_get fl k)"
  using assms by (auto simp: claim_iff freelist_get_def ld_def nth_list_update simp flip: word_unat_eq_iff)

lemma claim_set:
  assumes "freelist_claim fl = Some (i, fl')" "k \<noteq> i" "freelist_set fl k x = Some g"
  shows "\<exists>g'. freelist_claim g = Some (i, g') \<and> freelist_set fl' k x = Some g'"
proof -
  have "unat k \<noteq> unat i" using assms(2) by (simp add: word_unat_eq_iff)
  then show ?thesis
    using assms(1,3)
    by (auto simp: claim_iff freelist_set_def st_def wr_def list_update_swap split: Option.bind_splits if_splits)
qed

lemma claim_update_job:
  assumes "freelist_claim (jobs s) = Some (i, js)" "k \<noteq> i" "update_job f k s = Some s'"
  shows "\<exists>js'. freelist_claim (jobs s') = Some (i, js') \<and> update_job f k (s\<lparr>jobs := js\<rparr>) = Some (s'\<lparr>jobs := js'\<rparr>)"
proof -
  obtain j g where "freelist_get (jobs s) k = Some j" "freelist_set (jobs s) k (f j) = Some g" "s' = s\<lparr>jobs := g\<rparr>"
    using assms(3) by (auto simp: update_job_def split: Option.bind_splits)
  then show ?thesis
    using claim_set [OF assms(1,2)] assms(2) by (fastforce simp: update_job_def claim_get [OF assms(1)])
qed

lemma claim_update_race: "freelist_claim (jobs s) = Some (i, js) \<Longrightarrow> update_job f i (s\<lparr>jobs := js\<rparr>) = None"
  by (simp add: update_job_def claim_get)

lemma worker_step_unstored:
  assumes claim: "freelist_claim (jobs s) = Some (i, js)" and other: "next_cell pc w \<noteq> Some i"
    and step: "worker_step search pc w (s, wd) = Some (pc', w', (s', wd'), new)"
  shows "\<exists>js'. freelist_claim (jobs s') = Some (i, js') \<and>
    worker_step search pc w (s\<lparr>jobs := js\<rparr>, wd) = Some (pc', w', (s'\<lparr>jobs := js'\<rparr>, wd'), new)"
proof (cases pc)
  case Choosing
  show ?thesis
  proof (cases "priority_heap_get_max (local_jobs w)")
    case None
    then show ?thesis using step by (simp add: Choosing take_attempt_def)
  next
    case (Some m)
    show ?thesis
    proof (cases m)
      case None
      then show ?thesis using step claim Some by (auto simp: Choosing take_attempt_def)
    next
      case node: (Some node)
      have "elem node \<noteq> i" using other Some node by (simp add: Choosing)
      then show ?thesis
        using step Some node claim_update_job [OF claim]
        by (fastforce simp: Choosing take_attempt_def Let_def claim_get [OF claim] split: Option.bind_splits if_splits)
    qed
  qed
next
  case (To_Enter b)
  then show ?thesis using step other claim_update_job [OF claim] by (fastforce simp: enter_job_def split: Option.bind_splits)
next
  case (To_Leave b)
  then show ?thesis using step other claim_update_job [OF claim] by (fastforce simp: leave_job_def split: Option.bind_splits)
next
  case (To_Mark b found)
  then show ?thesis using step other claim_update_job [OF claim]
    by (fastforce simp: claim_get [OF claim] split: Option.bind_splits)
qed (use step claim in \<open>auto split: Option.bind_splits if_splits\<close>)

lemma data_race_stops: "freelist_claim (jobs s) = Some (i, js) \<Longrightarrow> next_cell pc w = Some i \<Longrightarrow>
    worker_step search pc w (s\<lparr>jobs := js\<rparr>, wd) = None"
  by (cases pc) (auto simp: take_attempt_def Let_def enter_job_def leave_job_def claim_get claim_update_race
      split: Option.bind_splits option.splits)

section \<open>The whole system\<close>

definition system_ok :: "nat \<Rightarrow> nat \<Rightarrow> nat \<Rightarrow> sched_system \<Rightarrow> bool" where
  "system_ok c n m \<sigma> \<longleftrightarrow> submissions (submitter \<sigma>) (the_sched \<sigma>) = m \<and>
     system_shared c n (submitter \<sigma>) (the_sched \<sigma>) (handed \<sigma>) (crew \<sigma>)"

fun is_submit :: "action \<Rightarrow> bool" where
  "is_submit (Submit request recipient) \<longleftrightarrow> True"
| "is_submit _ \<longleftrightarrow> False"

lemma system_ok_create:
  assumes "0 < cap"
  shows "system_ok (unat cap) n 0 (system_create cap k junk wd)"
proof -
  let ?s = "scheduler_priority_create cap"
  have cells: "cells ?s = Map.empty"
    by (auto simp: cells_def fun_eq_iff scheduler_priority_create_def freelist_init_def freelist_get_def ld_def)
  have "nodes_in (jobs_r ?s) (unat cap) []"
    using assms heap_rep_init [of cap] by (simp add: nodes_in_def scheduler_priority_create_def word_less_nat_alt vec_init_def)
  moreover have "fl_lim (unat cap) (jobs ?s)" "fl_live (jobs ?s) {}"
    using assms fl_live_init by (simp_all add: scheduler_priority_create_def fl_lim_def freelist_init_def)
  ultimately have "submit_ok At_Rest ?s (unat cap)"
    unfolding submit_ok_def by (intro exI [of _ "{}"]) auto
  moreover have "pool_ok (cells ?s) 0 n []"
    by (simp add: cells pool_ok_def job_ids_ok_def counters_ok_def history_ok_def counts_agree_def)
  moreover have "thread_ok (cells ?s) 0 [] To_Refresh (worker_create junk)"
  proof -
    have "heap_rep (local_jobs (worker_create junk)) []"
      by (simp add: worker_create_def heap_rep_def vec_rep_def heap_ok_def)
    then have "heap_in (local_jobs (worker_create junk)) {}" by (auto simp: heap_in_def)
    then show ?thesis by (simp add: thread_ok_def target_known_def cells) (simp add: worker_create_def)
  qed
  ultimately show ?thesis
    by (auto simp: system_ok_def system_create_def submissions_def pending_one_def system_shared_plain shared_ok_def
        id_limit_def crew_ok_def)
qed

lemma crew_update:
  assumes "evolves (cells s) (cells s')" "last_job_id s' = last_job_id s" "crew_ok pc s hs ws"
    and "thread_ok (cells s') (id_limit pc s) (hs @ new) wpc w"
  shows "crew_ok pc s' (hs @ new) (ws[i := (wpc, w)])"
proof -
  have "id_limit pc s' = id_limit pc s" using assms(2) by (simp add: id_limit_def)
  then show ?thesis
    using assms(3,4) thread_evolves [OF _ assms(1)] unfolding crew_ok_def
    by (auto dest!: set_update_subset_insert [THEN subsetD])
qed

text \<open>A worker that is not stopped moves, and keeps the invariant.\<close>

lemma shared_work_ok:
  assumes ok: "shared_ok c n pc s hs ws" and small: "c + unat (last_job_id s) < 2 ^ 27" "n < 2 ^ 62"
    and i: "i < length ws" "ws ! i = (wpc, w)" "\<not> stopped search wpc w wd"
  obtains wpc' w' js wd' new where "worker_step search wpc w (s, wd) = Some (wpc', w', (s\<lparr>jobs := js\<rparr>, wd'), new)"
    "free js = free (jobs s)" "shared_ok c (Suc n) pc (s\<lparr>jobs := js\<rparr>) (hs @ new) (ws[i := (wpc', w')])"
proof -
  let ?P = "c + unat (last_job_id s)" and ?t = "id_limit pc s"
  have sh: "submit_ok pc s ?P" "pool_ok (cells s) ?t n hs" "crew_ok pc s hs ws"
    using ok by (simp_all add: shared_ok_def)
  obtain L where L: "submit_live pc s ?P L" "fl_live (jobs s) L" using sh(1) by (auto simp: submit_ok_def)
  have th: "thread_ok (cells s) ?t hs wpc w"
    using sh(3) i(1,2) nth_mem unfolding crew_ok_def by fastforce
  have read: "heap_in (jobs_r s) (dom (cells s))" by (rule submit_read [OF L]) (use small in simp)
  obtain r where r: "worker_step search wpc w (s, wd) = Some r" "worker_effect L ?t n hs s r"
    by (rule worker_step_effect [OF L(2) sh(2) th small(2) read i(3)])
  obtain wpc' w' js wd' new where e: "r = (wpc', w', (s\<lparr>jobs := js\<rparr>, wd'), new)" "fl_live js L"
      "fl_cap js = fl_cap (jobs s)" "free js = free (jobs s)" "evolves (cells s) (freelist_get js)"
      "pool_ok (freelist_get js) ?t (Suc n) (hs @ new)" "thread_ok (freelist_get js) ?t (hs @ new) wpc' w'"
    using r(2) by (auto simp: worker_effect_def)
  let ?s' = "s\<lparr>jobs := js\<rparr>"
  have cells: "cells ?s' = freelist_get js" by (simp add: cells_def)
  have "submit_live pc ?s' ?P L"
    using L(1) e(3,4,5) by (intro submit_live_frame) (simp_all add: evolves_def)
  then have "submit_ok pc ?s' ?P" using e(2) by (auto simp: submit_ok_def)
  moreover have "crew_ok pc ?s' (hs @ new) (ws[i := (wpc', w')])"
    by (rule crew_update [of s ?s', OF _ _ sh(3)]) (use e(5,7) in \<open>simp_all add: cells\<close>)
  ultimately have "shared_ok c (Suc n) pc ?s' (hs @ new) (ws[i := (wpc', w')])"
    using e(6) by (simp add: shared_ok_def cells id_limit_def)
  then show thesis using that r(1) e(1,4) by blast
qed

lemma work_ok:
  assumes ok: "system_ok c n m \<sigma>" and small: "c + unat (last_job_id (the_sched \<sigma>)) < 2 ^ 27" "n < 2 ^ 62"
    and i: "i < length (crew \<sigma>)" "\<not> stopped search (fst (crew \<sigma> ! i)) (snd (crew \<sigma> ! i)) (the_net \<sigma>)"
    and race: "\<not> data_race \<sigma> i"
  obtains \<sigma>' where "system_step search (Work i) \<sigma> = Some \<sigma>'" "system_ok c (Suc n) m \<sigma>'"
proof -
  let ?s = "the_sched \<sigma>" and ?hs = "handed \<sigma>"
  obtain wpc w where w: "crew \<sigma> ! i = (wpc, w)" by (cases "crew \<sigma> ! i")
  have "\<exists>wpc' w' s' wd' new. worker_step search wpc w (?s, the_net \<sigma>) = Some (wpc', w', (s', wd'), new) \<and>
    last_job_id s' = last_job_id ?s \<and> system_shared c (Suc n) (submitter \<sigma>) s' (?hs @ new) ((crew \<sigma>)[i := (wpc', w')])"
  proof (cases "\<exists>request recipient k. submitter \<sigma> = Storing request recipient k")
    case False
    then have plain: "system_shared c' n' (submitter \<sigma>) s hs ws = shared_ok c' n' (submitter \<sigma>) s hs ws" for c' n' s hs ws
      by (intro system_shared_plain) blast
    obtain wpc' w' js wd' new where "worker_step search wpc w (?s, the_net \<sigma>) = Some (wpc', w', (?s\<lparr>jobs := js\<rparr>, wd'), new)"
        "shared_ok c (Suc n) (submitter \<sigma>) (?s\<lparr>jobs := js\<rparr>) (?hs @ new) ((crew \<sigma>)[i := (wpc', w')])"
      by (rule shared_work_ok [of c n "submitter \<sigma>" ?s ?hs "crew \<sigma>" i wpc w search "the_net \<sigma>"])
        (use ok small i w plain in \<open>auto simp: system_ok_def\<close>)
    then show ?thesis unfolding plain by fastforce
  next
    case True
    then obtain request recipient k where st: "submitter \<sigma> = Storing request recipient k" by blast
    obtain old where old: "unstored k ?s old" "shared_ok c n (To_Insert request recipient) old ?hs (crew \<sigma>)"
      using ok by (auto simp: system_ok_def system_shared_def st)
    note eq = unstoredD [OF old(1)]
    obtain wpc' w' js wd' new where r: "worker_step search wpc w (old, the_net \<sigma>) = Some (wpc', w', (old\<lparr>jobs := js\<rparr>, wd'), new)"
        "free js = free (jobs old)"
        "shared_ok c (Suc n) (To_Insert request recipient) (old\<lparr>jobs := js\<rparr>) (?hs @ new) ((crew \<sigma>)[i := (wpc', w')])"
      by (rule shared_work_ok [OF old(2), of i wpc w search "the_net \<sigma>"]) (use small i w eq(1) in auto)
    have claim: "freelist_claim (jobs old) = Some (k, jobs ?s)" and "free (jobs old) \<noteq> 0" using old(1) by (simp_all add: unstored_def)
    have "next_cell wpc w \<noteq> Some k" using race w by (simp add: data_race_def st)
    from worker_step_unstored [OF claim this r(1)] obtain js' where
      js': "freelist_claim js = Some (k, js')"
        "worker_step search wpc w (old\<lparr>jobs := jobs ?s\<rparr>, the_net \<sigma>) = Some (wpc', w', (old\<lparr>jobs := js'\<rparr>, wd'), new)"
      by auto
    have "unstored k (old\<lparr>jobs := js'\<rparr>) (old\<lparr>jobs := js\<rparr>)"
      using js'(1) r(2) \<open>free (jobs old) \<noteq> 0\<close> by (simp add: unstored_def)
    then have "system_shared c (Suc n) (submitter \<sigma>) (old\<lparr>jobs := js'\<rparr>) (?hs @ new) ((crew \<sigma>)[i := (wpc', w')])"
      using r(3) by (auto simp: system_shared_def st)
    moreover have "worker_step search wpc w (?s, the_net \<sigma>) = Some (wpc', w', (old\<lparr>jobs := js'\<rparr>, wd'), new)"
      using js'(2) by (simp flip: eq(4))
    ultimately show ?thesis using eq(1) by fastforce
  qed
  then obtain wpc' w' s' wd' new where r: "worker_step search wpc w (?s, the_net \<sigma>) = Some (wpc', w', (s', wd'), new)"
      "last_job_id s' = last_job_id ?s" "system_shared c (Suc n) (submitter \<sigma>) s' (?hs @ new) ((crew \<sigma>)[i := (wpc', w')])"
    by blast
  let ?\<sigma> = "\<sigma>\<lparr>the_sched := s', the_net := wd', crew := (crew \<sigma>)[i := (wpc', w')], handed := ?hs @ new\<rparr>"
  have "system_ok c (Suc n) m ?\<sigma>"
    using ok r(2,3) by (simp add: system_ok_def submissions_def)
  moreover have "system_step search (Work i) \<sigma> = Some ?\<sigma>"
    using i(1) w r(1) by (simp add: system_step_def)
  ultimately show thesis using that by blast
qed

lemma stopped_no_step: "stopped search wpc w wd \<Longrightarrow> worker_step search wpc w (s, wd) = None"
  by (cases wpc) auto

text \<open>A worker that is about to access the cell being written has no step.\<close>

lemma race_no_step:
  assumes "system_ok c n m \<sigma>" "data_race \<sigma> i"
  shows "system_step search (Work i) \<sigma> = None"
proof -
  obtain request recipient k where st: "submitter \<sigma> = Storing request recipient k"
      "next_cell (fst (crew \<sigma> ! i)) (snd (crew \<sigma> ! i)) = Some k"
    using assms(2) by (auto simp: data_race_def split: submit_stage.splits)
  obtain old where "unstored k (the_sched \<sigma>) old" using assms(1) by (auto simp: system_ok_def system_shared_def st)
  then have "the_sched \<sigma> = old\<lparr>jobs := jobs (the_sched \<sigma>)\<rparr>" "freelist_claim (jobs old) = Some (k, jobs (the_sched \<sigma>))"
    by (simp_all add: unstored_def)
  then have "worker_step search (fst (crew \<sigma> ! i)) (snd (crew \<sigma> ! i)) (the_sched \<sigma>, the_net \<sigma>) = None"
    using data_race_stops [OF _ st(2)] by metis
  then show ?thesis by (simp add: system_step_def)
qed

lemma system_step_ok:
  assumes ok: "system_ok c n m \<sigma>" and small: "c + m < 2 ^ 27" "n < 2 ^ 62" and step: "system_step search a \<sigma> = Some \<sigma>'"
  shows "system_ok c (Suc n) (m + (if is_submit a then 1 else 0)) \<sigma>'"
proof -
  have le: "c + unat (last_job_id (the_sched \<sigma>)) < 2 ^ 27"
    using ok small(1) by (simp add: system_ok_def submissions_def)
  show ?thesis
  proof (cases a)
    case (Submit request recipient)
    then have "submitter \<sigma> = At_Rest" "\<sigma>' = \<sigma>\<lparr>submitter := To_Insert request recipient\<rparr>"
      using step by (simp_all add: system_step_def split: if_splits)
    then show ?thesis
      using ok Submit pool_Suc
      by (auto simp: system_ok_def system_shared_plain shared_ok_def submit_ok_def crew_ok_def id_limit_def submissions_def pending_one_def)
  next
    case Continue
    then have pc: "submitter \<sigma> \<noteq> At_Rest" using step by (auto simp: system_step_def)
    obtain pc' s' where "submitter_step (submitter \<sigma>) (the_sched \<sigma>) = Some (pc', s')"
        "submissions pc' s' = submissions (submitter \<sigma>) (the_sched \<sigma>)" "system_shared c (Suc n) pc' s' (handed \<sigma>) (crew \<sigma>)"
      by (rule submitter_step_ok [OF _ le pc]) (use ok in \<open>auto simp: system_ok_def\<close>)
    then show ?thesis using step ok Continue by (auto simp: system_step_def system_ok_def)
  next
    case (Work i)
    then have i: "i < length (crew \<sigma>)" using step by (auto simp: system_step_def split: if_splits)
    have "\<not> stopped search (fst (crew \<sigma> ! i)) (snd (crew \<sigma> ! i)) (the_net \<sigma>)"
      using step stopped_no_step Work i by (auto simp: system_step_def)
    moreover have "\<not> data_race \<sigma> i" using race_no_step [OF ok, of i] step Work by auto
    ultimately show ?thesis using work_ok [OF ok le small(2) i] step Work by fastforce
  qed
qed

abbreviation submit_count :: "action list \<Rightarrow> nat" where
  "submit_count as \<equiv> length (filter is_submit as)"

lemma system_run_ok:
  assumes "system_ok c n m \<sigma>" "c + m + submit_count as < 2 ^ 27" "n + length as \<le> 2 ^ 62" "system_run search as \<sigma> = Some \<sigma>'"
  shows "system_ok c (n + length as) (m + submit_count as) \<sigma>'"
  using assms
proof (induction as arbitrary: \<sigma> n m)
  case (Cons a as)
  then obtain \<sigma>1 where \<sigma>1: "system_step search a \<sigma> = Some \<sigma>1" "system_run search as \<sigma>1 = Some \<sigma>'"
    by (auto split: Option.bind_splits)
  let ?m = "m + (if is_submit a then 1 else 0)"
  have "system_ok c (Suc n) ?m \<sigma>1"
    by (rule system_step_ok [OF Cons.prems(1) _ _ \<sigma>1(1)]) (use Cons.prems(2,3) in auto)
  from Cons.IH [OF this _ _ \<sigma>1(2)] Cons.prems(2,3) show ?case by (simp split: if_splits)
qed simp

lemma create_run_ok:
  assumes "0 < cap" "unat cap + submit_count as < 2 ^ 27" "length as \<le> 2 ^ 62"
    and "system_run search as (system_create cap k junk wd) = Some \<sigma>"
  shows "system_ok (unat cap) (length as) (submit_count as) \<sigma>"
  using system_run_ok [OF system_ok_create [OF assms(1)] _ _ assms(4), of 0] assms by simp

text \<open>What the invariant says of the history and the workers, also while a cell is being written.\<close>

lemma system_ok_history:
  assumes "system_ok c n m \<sigma>"
  obtains C t where "history_ok C t (handed \<sigma>)" "\<And>pc w. (pc, w) \<in> set (crew \<sigma>) \<Longrightarrow> thread_ok C t (handed \<sigma>) pc w"
proof -
  have "\<exists>pc s. shared_ok c n pc s (handed \<sigma>) (crew \<sigma>)"
    using assms by (cases "submitter \<sigma>") (auto simp: system_ok_def system_shared_def)
  then obtain pc s where "shared_ok c n pc s (handed \<sigma>) (crew \<sigma>)" by blast
  then show thesis by (intro that [of "cells s" "id_limit pc s"]) (auto simp: shared_ok_def pool_ok_def crew_ok_def)
qed

section \<open>What holds in every interleaving\<close>




text \<open>The answered job of a single number: its only block is handed out again.\<close>

definition twice_run :: "action list" where
  "twice_run = [Submit \<lparr>req_hash = [], req_start = 5, req_end = 5, req_priority = 1\<rparr> None, Continue, Continue, Continue, Continue, Work 0, Work 0, Work 0, Work 0, Work 0, Work 0, Work 0, Work 0]"




end
