(* ===== verification/Int_Sort.thy ===== *)
theory Int_Sort
  imports Prelude "HOL-Library.Multiset"
begin

text \<open>
  \<open>src/bits/sort.c\<close>: \<open>radix_sort16\<close> and \<open>radix_sort32\<close>, least-significant-digit radix sorts. One pass counts the digits of all
  places, with the counters of the places interleaved in one array; then each place is one stable distribution from
  one array into the other.
\<close>

section \<open>The operations\<close>

definition incr :: "u32 list \<Rightarrow> nat \<Rightarrow> u32 list option" where
  "incr cs j = do { c \<leftarrow> rd cs j; wr cs j (c + 1) }"

fun incr_all :: "nat list \<Rightarrow> u32 list \<Rightarrow> u32 list option" where
  "incr_all [] cs = Some cs"
| "incr_all (j # js) cs = do { cs \<leftarrow> incr cs j; incr_all js cs }"

definition add_to :: "u32 list \<Rightarrow> nat \<Rightarrow> nat \<Rightarrow> u32 list option" where
  "add_to cs i j = do { a \<leftarrow> rd cs i; b \<leftarrow> rd cs j; wr cs i (a + b) }"

fun add_all :: "(nat \<times> nat) list \<Rightarrow> u32 list \<Rightarrow> u32 list option" where
  "add_all [] cs = Some cs"
| "add_all ((i, j) # ps) cs = do { cs \<leftarrow> add_to cs i j; add_all ps cs }"

text \<open>The counting pass; \<open>js v\<close> are the counters an element \<open>v\<close> adds to.\<close>

definition count_digits :: "('a \<Rightarrow> nat list) \<Rightarrow> 'a list \<Rightarrow> nat \<Rightarrow> u32 list \<Rightarrow> u32 list option" where
  "count_digits js src n cs =
     for_loop 0 n (\<lambda>i r. do { cs \<leftarrow> r; v \<leftarrow> rd src i; incr_all (js v) cs }) (Some cs)"

definition prefix_sums :: "(nat \<Rightarrow> (nat \<times> nat) list) \<Rightarrow> u32 list \<Rightarrow> u32 list option" where
  "prefix_sums ps cs = for_loop 0 255 (\<lambda>i r. do { cs \<leftarrow> r; add_all (ps i) cs }) (Some cs)"

text \<open>The loop \<open>for (i = length; i--;)\<close>, which runs \<open>f\<close> for \<open>length - 1, ..., 0\<close>.\<close>

primrec for_down :: "nat \<Rightarrow> (nat \<Rightarrow> 's \<Rightarrow> 's) \<Rightarrow> 's \<Rightarrow> 's" where
  "for_down 0 f s = s"
| "for_down (Suc i) f s = for_down i f (f i s)"

definition distribute :: "('a \<Rightarrow> nat) \<Rightarrow> nat \<Rightarrow> 'a list \<Rightarrow> u32 list \<Rightarrow> 'a list \<Rightarrow> (u32 list \<times> 'a list) option" where
  "distribute j n source cs target =
     for_down n
       (\<lambda>i r. do {
          (cs, target) \<leftarrow> r;
          v \<leftarrow> rd source i;
          c \<leftarrow> rd cs (j v);
          cs \<leftarrow> wr cs (j v) (c - 1);
          target \<leftarrow> wr target (unat (c - 1)) v;
          Some (cs, target)
        })
       (Some (cs, target))"

definition digits16 :: "u16 \<Rightarrow> nat list" where
  "digits16 v = [unat (push_bit 1 (ucast v :: u32) AND 0x1fe) + 0, unat (drop_bit 7 (ucast v :: u32) AND 0x1fe) + 1]"

definition pairs16 :: "nat \<Rightarrow> (nat \<times> nat) list" where
  "pairs16 i = [(i * 2 + 2, i * 2), (i * 2 + 3, i * 2 + 1)]"

definition radix_sort16 :: "u16 list \<Rightarrow> u16 list \<Rightarrow> u16 list \<Rightarrow> u32 \<Rightarrow> (u16 list \<times> u16 list) option" where
  "radix_sort16 dest src buffer len =
     (let n = unat len
      in do {
        cs \<leftarrow> count_digits digits16 src n (replicate 512 0);
        cs \<leftarrow> prefix_sums pairs16 cs;
        (cs, buffer) \<leftarrow> distribute (\<lambda>v. digits16 v ! 0) n src cs buffer;
        (cs, dest) \<leftarrow> distribute (\<lambda>v. digits16 v ! 1) n buffer cs dest;
        Some (dest, buffer)
      })"

definition digits32 :: "u32 \<Rightarrow> nat list" where
  "digits32 v = [unat (push_bit 2 v AND 0x3fc) + 0, unat (drop_bit 6 v AND 0x3fc) + 1,
     unat (drop_bit 14 v AND 0x3fc) + 2, unat (drop_bit 22 v AND 0x3fc) + 3]"

definition pairs32 :: "nat \<Rightarrow> (nat \<times> nat) list" where
  "pairs32 i = [(i * 4 + 4, i * 4), (i * 4 + 5, i * 4 + 1), (i * 4 + 6, i * 4 + 2), (i * 4 + 7, i * 4 + 3)]"

definition radix_sort32 :: "u32 list \<Rightarrow> u32 list \<Rightarrow> u32 list \<Rightarrow> u32 \<Rightarrow> (u32 list \<times> u32 list) option" where
  "radix_sort32 dest src buffer len =
     (let n = unat len
      in do {
        cs \<leftarrow> count_digits digits32 src n (replicate 1024 0);
        cs \<leftarrow> prefix_sums pairs32 cs;
        (cs, buffer) \<leftarrow> distribute (\<lambda>v. digits32 v ! 0) n src cs buffer;
        (cs, dest) \<leftarrow> distribute (\<lambda>v. digits32 v ! 1) n buffer cs dest;
        (cs, buffer) \<leftarrow> distribute (\<lambda>v. digits32 v ! 2) n dest cs buffer;
        (cs, dest) \<leftarrow> distribute (\<lambda>v. digits32 v ! 3) n buffer cs dest;
        Some (dest, buffer)
      })"

section \<open>The counters\<close>

text \<open>\<open>columns s cs f\<close>: the array interleaves \<open>s\<close> columns of 256 counters, and column \<open>r\<close> holds \<open>f r\<close>.\<close>

definition columns :: "nat \<Rightarrow> u32 list \<Rightarrow> (nat \<Rightarrow> nat \<Rightarrow> nat) \<Rightarrow> bool" where
  "columns s cs f \<longleftrightarrow> length cs = s * 256 \<and> (\<forall>r < s. \<forall>k < 256. unat (cs ! (s * k + r)) = f r k)"

lemma column_in:
  assumes "r < s" "k < (256 :: nat)"
  shows "s * k + r < s * 256"
proof -
  have "s * k + r < s * Suc k" using assms(1) by simp
  also have "\<dots> \<le> s * 256" using assms(2) by (intro mult_le_mono) simp_all
  finally show ?thesis .
qed

lemma column_inject:
  fixes r r' s k k' :: nat
  assumes "r < s" "r' < s"
  shows "s * k + r = s * k' + r' \<longleftrightarrow> k = k' \<and> r = r'"
proof
  assume "s * k + r = s * k' + r'"
  then have "(s * k + r) div s = (s * k' + r') div s" "(s * k + r) mod s = (s * k' + r') mod s" by simp_all
  then show "k = k' \<and> r = r'" using assms by simp
qed simp

lemma columns_write:
  assumes "columns s cs f" "r < s" "k < 256"
  shows "wr cs (s * k + r) c = Some (cs[s * k + r := c])" "columns s (cs[s * k + r := c]) (f(r := (f r)(k := unat c)))"
  using assms column_in [OF assms(2,3)] column_inject [OF assms(2)]
  by (auto simp: columns_def nth_list_update)

lemma columns_read:
  assumes "columns s cs f" "r < s" "k < 256"
  obtains c where "rd cs (s * k + r) = Some c" "unat c = f r k"
  using assms column_in [OF assms(2,3)] by (simp add: columns_def)

lemma incr_columns:
  assumes "columns s cs f" "r < s" "k < 256" "Suc (f r k) < 2 ^ 32"
  obtains cs' where "incr cs (s * k + r) = Some cs'" "columns s cs' (f(r := (f r)(k := Suc (f r k))))"
proof -
  obtain c where c: "rd cs (s * k + r) = Some c" "unat c = f r k" by (rule columns_read [OF assms(1-3)])
  then have "unat (c + 1) = Suc (f r k)" using assms(4) by (simp add: unat_word_ariths)
  then show thesis
    using that columns_write [OF assms(1-3), of "c + 1"] c(1) by (simp add: incr_def)
qed

lemma add_columns:
  assumes "columns s cs f" "r < s" "Suc k < 256" "f r (Suc k) + f r k < 2 ^ 32"
  obtains cs' where "add_to cs (s * Suc k + r) (s * k + r) = Some cs'"
    "columns s cs' (f(r := (f r)(Suc k := f r (Suc k) + f r k)))"
proof -
  have k: "k < 256" using assms(3) by simp
  obtain a where a: "rd cs (s * Suc k + r) = Some a" "unat a = f r (Suc k)" by (rule columns_read [OF assms(1-3)])
  obtain b where b: "rd cs (s * k + r) = Some b" "unat b = f r k" by (rule columns_read [OF assms(1,2) k])
  have "unat (a + b) = f r (Suc k) + f r k" using a(2) b(2) assms(4) by (simp add: unat_word_ariths)
  then show thesis
    using that columns_write [OF assms(1-3), of "a + b"] a(1) b(1) unfolding add_to_def by simp
qed

lemma incr_all_columns:
  assumes "columns s cs f" "distinct rs" "\<forall>r \<in> set rs. r < s \<and> g r < 256 \<and> Suc (f r (g r)) < 2 ^ 32"
  obtains cs' where "incr_all (map (\<lambda>r. s * g r + r) rs) cs = Some cs'"
    "columns s cs' (\<lambda>r k. f r k + (if r \<in> set rs \<and> k = g r then 1 else 0))"
  using assms
proof (induction rs arbitrary: cs f thesis)
  case (Cons r rs)
  obtain cs1 where cs1: "incr cs (s * g r + r) = Some cs1" "columns s cs1 (f(r := (f r)(g r := Suc (f r (g r)))))"
    by (rule incr_columns [of s cs f r "g r"]) (use Cons.prems in auto)
  let ?f = "f(r := (f r)(g r := Suc (f r (g r))))"
  obtain cs' where cs': "incr_all (map (\<lambda>r. s * g r + r) rs) cs1 = Some cs'"
      "columns s cs' (\<lambda>r' k. ?f r' k + (if r' \<in> set rs \<and> k = g r' then 1 else 0))"
    by (rule Cons.IH [OF _ cs1(2)]) (use Cons.prems in auto)
  have "(\<lambda>r' k. ?f r' k + (if r' \<in> set rs \<and> k = g r' then 1 else 0)) =
      (\<lambda>r' k. f r' k + (if r' \<in> set (r # rs) \<and> k = g r' then 1 else 0))"
    using Cons.prems(3) by (auto simp: fun_eq_iff)
  then show ?case using Cons.prems(1) cs1(1) cs' by simp
qed simp

lemma add_all_columns:
  assumes "columns s cs f" "distinct rs" "\<forall>r \<in> set rs. r < s \<and> f r (Suc i) + f r i < 2 ^ 32" "Suc i < 256"
  obtains cs' where "add_all (map (\<lambda>r. (s * Suc i + r, s * i + r)) rs) cs = Some cs'"
    "columns s cs' (\<lambda>r k. if r \<in> set rs \<and> k = Suc i then f r (Suc i) + f r i else f r k)"
  using assms
proof (induction rs arbitrary: cs f thesis)
  case (Cons r rs)
  obtain cs1 where cs1: "add_to cs (s * Suc i + r) (s * i + r) = Some cs1" "columns s cs1 (f(r := (f r)(Suc i := f r (Suc i) + f r i)))"
    by (rule add_columns [of s cs f r i]) (use Cons.prems in auto)
  let ?f = "f(r := (f r)(Suc i := f r (Suc i) + f r i))"
  obtain cs' where cs': "add_all (map (\<lambda>r. (s * Suc i + r, s * i + r)) rs) cs1 = Some cs'"
      "columns s cs' (\<lambda>r' k. if r' \<in> set rs \<and> k = Suc i then ?f r' (Suc i) + ?f r' i else ?f r' k)"
    by (rule Cons.IH [OF _ cs1(2)]) (use Cons.prems in auto)
  have "(\<lambda>r' k. if r' \<in> set rs \<and> k = Suc i then ?f r' (Suc i) + ?f r' i else ?f r' k) =
      (\<lambda>r' k. if r' \<in> set (r # rs) \<and> k = Suc i then f r' (Suc i) + f r' i else f r' k)"
    using Cons.prems(3) by (auto simp: fun_eq_iff)
  then show ?case using Cons.prems(1) cs1(1) cs' by simp
qed simp

section \<open>Counting and distributing\<close>

definition freq :: "('a \<Rightarrow> nat) \<Rightarrow> nat \<Rightarrow> 'a list \<Rightarrow> nat" where
  "freq d k xs = length (filter (\<lambda>v. d v = k) xs)"

definition freq_below :: "('a \<Rightarrow> nat) \<Rightarrow> nat \<Rightarrow> 'a list \<Rightarrow> nat" where
  "freq_below d k xs = length (filter (\<lambda>v. d v < k) xs)"

lemma freq_append [simp]: "freq d k (xs @ ys) = freq d k xs + freq d k ys"
  by (simp add: freq_def)

lemma freq_single [simp]: "freq d k [x] = (if k = d x then 1 else 0)"
  by (auto simp: freq_def)

lemma freq_Nil [simp]: "freq d k [] = 0"
  by (simp add: freq_def)

lemma freq_le: "freq d k xs \<le> length xs"
  by (simp add: freq_def)

lemma freq_below_le: "freq_below d k xs \<le> length xs"
  by (simp add: freq_below_def)

lemma freq_below_0 [simp]: "freq_below d 0 xs = 0"
  by (simp add: freq_below_def)

lemma freq_below_Suc: "freq_below d (Suc k) xs = freq_below d k xs + freq d k xs"
  by (induction xs) (auto simp: freq_below_def freq_def less_Suc_eq)

lemma freq_below_mono: "k \<le> k' \<Longrightarrow> freq_below d k xs \<le> freq_below d k' xs"
  by (induction xs) (auto simp: freq_below_def)

lemma freq_below_step: "k < k' \<Longrightarrow> freq_below d k xs + freq d k xs \<le> freq_below d k' xs"
  using freq_below_mono [of "Suc k" k' d xs] by (simp add: freq_below_Suc)

text \<open>The elements in the order of their digits, those with equal digits as they were.\<close>

definition buckets :: "('a \<Rightarrow> nat) \<Rightarrow> nat \<Rightarrow> 'a list \<Rightarrow> 'a list" where
  "buckets d m xs = concat (map (\<lambda>k. filter (\<lambda>v. d v = k) xs) [0..<m])"

lemma length_buckets: "length (buckets d m xs) = freq_below d m xs"
  by (induction m) (simp_all add: buckets_def freq_below_Suc freq_def)

lemma nth_buckets:
  assumes "k < m" "i < freq d k xs"
  shows "buckets d m xs ! (freq_below d k xs + i) = filter (\<lambda>v. d v = k) xs ! i"
  using assms(1)
proof (induction m)
  case (Suc m)
  have split: "buckets d (Suc m) xs = buckets d m xs @ filter (\<lambda>v. d v = m) xs" by (simp add: buckets_def)
  show ?case
  proof (cases "k = m")
    case True
    then show ?thesis using length_buckets [of d m xs] by (simp add: split nth_append)
  next
    case False
    then have "k < m" using Suc.prems by simp
    moreover have "freq_below d k xs + i < length (buckets d m xs)"
      using freq_below_step [OF \<open>k < m\<close>, of d xs] assms(2) by (simp add: length_buckets)
    ultimately show ?thesis using Suc.IH by (simp add: split nth_append)
  qed
qed simp

lemma in_bucket:
  assumes "p < freq_below d m xs"
  obtains k i where "k < m" "i < freq d k xs" "p = freq_below d k xs + i"
  using assms
proof (induction m arbitrary: thesis)
  case (Suc m)
  show ?case
  proof (cases "p < freq_below d m xs")
    case True
    then obtain k i where "k < m" "i < freq d k xs" "p = freq_below d k xs + i" using Suc.IH by blast
    then show ?thesis using Suc.prems(1) [of k i] by simp
  next
    case False
    then have "p - freq_below d m xs < freq d m xs" "p = freq_below d m xs + (p - freq_below d m xs)"
      using Suc.prems(2) by (simp_all add: freq_below_Suc)
    then show ?thesis using Suc.prems(1) [of m] by simp
  qed
qed simp

lemma distribute_segments:
  assumes "columns s cs f" "r < s" "n \<le> length source" "\<forall>v. d v < 256" "\<forall>v. j v = s * d v + r"
    and "\<forall>k < 256. f r k = b k + freq d k (take n source)"
    and "\<forall>k < 256. b k + freq d k (take n source) \<le> length target"
    and "\<forall>k < 256. \<forall>k' < 256. k < k' \<longrightarrow> b k + freq d k (take n source) \<le> b k'"
  shows "\<exists>cs' f' out. distribute j n source cs target = Some (cs', out) \<and> columns s cs' f' \<and> (\<forall>r'. r' \<noteq> r \<longrightarrow> f' r' = f r') \<and>
    length out = length target \<and>
    (\<forall>k < 256. \<forall>i < freq d k (take n source). out ! (b k + i) = filter (\<lambda>v. d v = k) (take n source) ! i) \<and>
    (\<forall>p. (\<forall>k < 256. \<not> (b k \<le> p \<and> p < b k + freq d k (take n source))) \<longrightarrow> out ! p = target ! p)"
  using assms(1,3,6-8)
proof (induction n arbitrary: cs f target)
  case 0
  then show ?case by (intro exI [of _ cs] exI [of _ f] exI [of _ target]) (simp add: distribute_def)
next
  case (Suc n)
  let ?v = "source ! n" and ?F = "\<lambda>k. freq d k (take n source)"
  let ?k = "d ?v"
  let ?q = "b ?k + ?F ?k"
  have n: "n < length source" using Suc.prems(2) by simp
  have take: "take (Suc n) source = take n source @ [?v]" by (rule take_Suc_conv_app_nth [OF n])
  have k: "?k < 256" using assms(4) by simp
  have fk: "f r ?k = Suc ?q" using Suc.prems(3) k by (simp add: take)
  obtain c where c: "rd cs (s * ?k + r) = Some c" "unat c = Suc ?q"
    using columns_read [OF Suc.prems(1) assms(2) k] fk by metis
  then have q: "unat (c - 1) = ?q" by (simp add: unat_sub word_le_nat_alt)
  let ?cs = "cs[s * ?k + r := c - 1]" and ?f = "f(r := (f r)(?k := ?q))" and ?t = "target[?q := ?v]"
  have cols: "wr cs (s * ?k + r) (c - 1) = Some ?cs" "columns s ?cs ?f"
    using columns_write [OF Suc.prems(1) assms(2) k, of "c - 1"] q by simp_all
  have ql: "?q < length target" using Suc.prems(4) k by (auto simp: take dest: spec [of _ ?k])
  have 3: "\<forall>k < 256. ?f r k = b k + ?F k" using Suc.prems(3) by (auto simp: take)
  have 4: "\<forall>k < 256. b k + ?F k \<le> length ?t"
    using Suc.prems(4) by (fastforce simp: take)
  have 5: "\<forall>k < 256. \<forall>k' < 256. k < k' \<longrightarrow> b k + ?F k \<le> b k'"
  proof (intro allI impI)
    fix k k' :: nat assume "k < 256" "k' < 256" "k < k'"
    then have "b k + freq d k (take (Suc n) source) \<le> b k'" using Suc.prems(5) by blast
    then show "b k + ?F k \<le> b k'" by (simp add: take)
  qed
  obtain cs' f' out where r: "distribute j n source ?cs ?t = Some (cs', out)" "columns s cs' f'" "\<forall>r'. r' \<noteq> r \<longrightarrow> f' r' = ?f r'"
      "length out = length ?t"
      "\<forall>k < 256. \<forall>i < ?F k. out ! (b k + i) = filter (\<lambda>v. d v = k) (take n source) ! i"
      "\<forall>p. (\<forall>k < 256. \<not> (b k \<le> p \<and> p < b k + ?F k)) \<longrightarrow> out ! p = ?t ! p"
    using Suc.IH [OF cols(2) _ 3 4 5] n by auto
  have run: "distribute j (Suc n) source cs target = Some (cs', out)"
    using r(1) n c(1) cols(1) ql q assms(5) by (simp add: distribute_def)
  have apart: "\<not> (b k' \<le> ?q \<and> ?q < b k' + ?F k')" if "k' < 256" for k'
  proof (cases k' ?k rule: linorder_cases)
    case less
    then have "b k' + ?F k' \<le> b ?k" using 5 that k by blast
    then show ?thesis by simp
  next
    case greater
    then have "b ?k + freq d ?k (take (Suc n) source) \<le> b k'" using Suc.prems(5) that k by blast
    then show ?thesis by (simp add: take)
  qed simp
  have at_q: "out ! ?q = ?v" using r(6) apart ql by simp
  show ?case
  proof (intro exI conjI allI impI)
    show "distribute j (Suc n) source cs target = Some (cs', out)" "columns s cs' f'" by (fact run, fact r(2))
    show "length out = length target" using r(4) by simp
    show "f' r' = f r'" if "r' \<noteq> r" for r' using r(3) that by simp
  next
    fix k' i assume i: "k' < 256" "i < freq d k' (take (Suc n) source)"
    show "out ! (b k' + i) = filter (\<lambda>v. d v = k') (take (Suc n) source) ! i"
    proof (cases "i < ?F k'")
      case True
      then show ?thesis using r(5) i(1) by (auto simp: take nth_append freq_def)
    next
      case False
      then have "k' = ?k" "i = ?F k'" using i(2) by (auto simp: take split: if_splits)
      then show ?thesis using at_q by (simp add: take nth_append freq_def)
    qed
  next
    fix p assume p: "\<forall>k < 256. \<not> (b k \<le> p \<and> p < b k + freq d k (take (Suc n) source))"
    then have "p \<noteq> ?q" using k by (auto simp: take dest!: spec [of _ ?k])
    moreover have "\<forall>k < 256. \<not> (b k \<le> p \<and> p < b k + ?F k)" using p by (fastforce simp: take)
    ultimately show "out ! p = target ! p" using r(6) by simp
  qed
qed

section \<open>Interleaved columns\<close>

text \<open>
  The layout the two sorts share: \<open>s\<close> columns, digit \<open>r\<close> of an element counted in column \<open>r\<close>.
\<close>

locale digit_columns =
  fixes s :: nat and js :: "'a \<Rightarrow> nat list" and ps :: "nat \<Rightarrow> (nat \<times> nat) list" and d :: "nat \<Rightarrow> 'a \<Rightarrow> nat"
  assumes js: "js v = map (\<lambda>r. s * d r v + r) [0..<s]"
    and ps: "ps i = map (\<lambda>r. (s * Suc i + r, s * i + r)) [0..<s]"
    and digit: "d r v < 256"
begin

lemma count_correct:
  assumes "n \<le> length src" "n < 2 ^ 32"
  obtains cs where "count_digits js src n (replicate (s * 256) 0) = Some cs" "columns s cs (\<lambda>r k. freq (d r) k (take n src))"
proof -
  let ?P = "\<lambda>i r. \<exists>cs. r = Some cs \<and> columns s cs (\<lambda>r k. freq (d r) k (take i src))"
  have "?P n (count_digits js src n (replicate (s * 256) 0))"
    unfolding count_digits_def
  proof (rule for_loop_invariant [where P = ?P])
    show "?P 0 (Some (replicate (s * 256) 0))" using column_in by (simp add: columns_def)
  next
    fix i r assume i: "i < n" and "?P i r"
    then obtain cs where cs: "r = Some cs" "columns s cs (\<lambda>r k. freq (d r) k (take i src))" by blast
    have take: "take (Suc i) src = take i src @ [src ! i]" using i assms(1) by (simp add: take_Suc_conv_app_nth)
    have small: "Suc (freq (d r) k (take i src)) < 2 ^ 32" for r k
      using freq_le [of "d r" k "take i src"] i assms by simp
    obtain cs' where cs': "incr_all (map (\<lambda>r. s * d r (src ! i) + r) [0..<s]) cs = Some cs'"
        "columns s cs' (\<lambda>r k. freq (d r) k (take i src) + (if r \<in> set [0..<s] \<and> k = d r (src ! i) then 1 else 0))"
      by (rule incr_all_columns [OF cs(2), of "[0..<s]" "\<lambda>r. d r (src ! i)"]) (use small digit in auto)
    have "columns s cs' (\<lambda>r k. freq (d r) k (take (Suc i) src))"
      using cs'(2) by (simp add: columns_def take)
    then show "?P (Suc i) (do { cs \<leftarrow> r; v \<leftarrow> rd src i; incr_all (js v) cs })"
      using cs'(1) cs(1) i assms(1) by (simp add: js)
  qed simp
  then show thesis using that by blast
qed

lemma prefix_correct:
  assumes "columns s cs (\<lambda>r k. freq (d r) k xs)" "length xs < 2 ^ 32"
  obtains cs' where "prefix_sums ps cs = Some cs'" "columns s cs' (\<lambda>r k. freq_below (d r) k xs + freq (d r) k xs)"
proof -
  let ?f = "\<lambda>i r k. if k \<le> i then freq_below (d r) (Suc k) xs else freq (d r) k xs"
  let ?P = "\<lambda>i r. \<exists>cs. r = Some cs \<and> columns s cs (?f i)"
  have "?P 255 (prefix_sums ps cs)"
    unfolding prefix_sums_def
  proof (rule for_loop_invariant [where P = ?P])
    show "?P 0 (Some cs)" using assms(1) by (simp add: columns_def freq_below_Suc)
  next
    fix i r assume i: "i < 255" and "?P i r"
    then obtain cs where cs: "r = Some cs" "columns s cs (?f i)" by blast
    have sum: "?f i r (Suc i) + ?f i r i = freq_below (d r) (Suc (Suc i)) xs" for r
      by (simp add: freq_below_Suc)
    have "freq_below (d r) (Suc (Suc i)) xs < 2 ^ 32" for r
      using freq_below_le [of "d r" "Suc (Suc i)" xs] assms(2) by linarith
    then have small: "\<forall>r \<in> set [0..<s]. r < s \<and> ?f i r (Suc i) + ?f i r i < 2 ^ 32" unfolding sum by simp
    obtain cs' where cs': "add_all (map (\<lambda>r. (s * Suc i + r, s * i + r)) [0..<s]) cs = Some cs'"
        "columns s cs' (\<lambda>r k. if r \<in> set [0..<s] \<and> k = Suc i then ?f i r (Suc i) + ?f i r i else ?f i r k)"
      by (rule add_all_columns [OF cs(2) _ small]) (use i in simp_all)
    have "columns s cs' (?f (Suc i))"
      using cs'(2) unfolding sum by (simp add: columns_def le_Suc_eq)
    then show "?P (Suc i) (do { cs \<leftarrow> r; add_all (ps i) cs })"
      using cs'(1) cs(1) by (simp add: ps)
  qed simp
  then obtain cs' where "prefix_sums ps cs = Some cs'" "columns s cs' (?f 255)" by blast
  then show thesis using that by (simp add: columns_def freq_below_Suc)
qed

text \<open>One distribution: the target is the bucket order, and the other columns stay.\<close>

lemma distribute_correct:
  assumes "columns s cs f" "r < s" "n \<le> length source" "n \<le> length target" "\<forall>v. j v = js v ! r"
    and "\<forall>k < 256. f r k = freq_below (d r) k (take n source) + freq (d r) k (take n source)"
  obtains cs' f' out where "distribute j n source cs target = Some (cs', out)" "columns s cs' f'" "\<forall>r'. r' \<noteq> r \<longrightarrow> f' r' = f r'"
    "length out = length target" "take n out = buckets (d r) 256 (take n source)" "drop n out = drop n target"
proof -
  let ?xs = "take n source"
  let ?b = "\<lambda>k. freq_below (d r) k ?xs"
  have all: "?b 256 = n" using digit assms(3) by (simp add: freq_below_def)
  have top: "?b k + freq (d r) k ?xs \<le> n" if "k < 256" for k
    using freq_below_step [OF that, of "d r" ?xs] all by simp
  have seg: "\<forall>k < 256. ?b k + freq (d r) k ?xs \<le> length target"
    using top assms(4) by (meson order_trans)
  have j: "\<forall>v. j v = s * d r v + r" using assms(2,5) by (simp add: js)
  obtain cs' f' out where o: "distribute j n source cs target = Some (cs', out)" "columns s cs' f'" "\<forall>r'. r' \<noteq> r \<longrightarrow> f' r' = f r'"
      "length out = length target"
      "\<forall>k < 256. \<forall>i < freq (d r) k ?xs. out ! (?b k + i) = filter (\<lambda>v. d r v = k) ?xs ! i"
      "\<forall>p. (\<forall>k < 256. \<not> (?b k \<le> p \<and> p < ?b k + freq (d r) k ?xs)) \<longrightarrow> out ! p = target ! p"
    using distribute_segments [OF assms(1-3) _ j assms(6) seg] digit freq_below_step by blast
  have "take n out = buckets (d r) 256 ?xs"
  proof (rule nth_equalityI)
    show len: "length (take n out) = length (buckets (d r) 256 ?xs)"
      using o(4) assms(4) all by (simp add: length_buckets)
    fix p assume "p < length (take n out)"
    then have p: "p < n" "p < ?b 256" using all by simp_all
    then obtain k i where k: "k < 256" "i < freq (d r) k ?xs" "p = ?b k + i" by (elim in_bucket)
    then show "take n out ! p = buckets (d r) 256 ?xs ! p"
      using o(5) p(1) nth_buckets [OF k(1,2)] by simp
  qed
  moreover have "drop n out = drop n target"
  proof (rule nth_equalityI)
    fix p assume "p < length (drop n out)"
    have "\<forall>k < 256. \<not> (?b k \<le> n + p \<and> n + p < ?b k + freq (d r) k ?xs)" using top by fastforce
    then show "drop n out ! p = drop n target ! p" using o(6) assms(4) o(4) by simp
  qed (use o(4) in simp)
  ultimately show thesis using that o(1-4) by blast
qed

end

section \<open>Digits make the order\<close>

lemma mset_buckets: "\<forall>v \<in> set xs. d v < m \<Longrightarrow> mset (buckets d m xs) = mset xs"
proof (induction m arbitrary: xs)
  case (Suc m)
  have "mset (buckets d (Suc m) xs) = mset (buckets d m xs) + mset (filter (\<lambda>v. d v = m) xs)"
    by (simp add: buckets_def)
  moreover have "buckets d m xs = buckets d m (filter (\<lambda>v. d v < m) xs)"
  proof -
    have "filter (\<lambda>v. d v = k) xs = filter (\<lambda>v. d v = k) (filter (\<lambda>v. d v < m) xs)" if "k < m" for k
      using that by (auto intro: filter_cong)
    then show ?thesis unfolding buckets_def by (intro arg_cong [where f = concat] map_cong) auto
  qed
  moreover have "mset (buckets d m (filter (\<lambda>v. d v < m) xs)) = mset (filter (\<lambda>v. d v < m) xs)"
    by (rule Suc.IH) simp
  moreover have "filter (\<lambda>v. \<not> d v < m) xs = filter (\<lambda>v. d v = m) xs"
    using Suc.prems by (intro filter_cong) (auto simp: less_Suc_eq)
  then have "mset (filter (\<lambda>v. d v < m) xs) + mset (filter (\<lambda>v. d v = m) xs) = mset xs"
    by (metis mset_filter union_filter_mset_complement multiset_partition)
  ultimately show ?case by simp
qed (simp add: buckets_def)

lemma sorted_buckets:
  assumes "sorted (map g xs)" "\<forall>v \<in> set xs. g v < B"
  shows "sorted (map (\<lambda>v. d v * B + g v) (buckets d m xs))"
proof (induction m)
  case (Suc m)
  have split: "buckets d (Suc m) xs = buckets d m xs @ filter (\<lambda>v. d v = m) xs" by (simp add: buckets_def)
  have "map (\<lambda>v. d v * B + g v) (filter (\<lambda>v. d v = m) xs) = map ((+) (m * B)) (map g (filter (\<lambda>v. d v = m) xs))"
    by (simp add: comp_def)
  moreover have "sorted (map g (filter (\<lambda>v. d v = m) xs))" by (rule sorted_filter [OF assms(1)])
  ultimately have "sorted (map (\<lambda>v. d v * B + g v) (filter (\<lambda>v. d v = m) xs))"
    unfolding sorted_map by (elim sorted_wrt_mono_rel [rotated]) auto
  moreover have "d v * B + g v \<le> d w * B + g w" if "v \<in> set (buckets d m xs)" "w \<in> set xs" "d w = m" for v w
  proof -
    have v: "d v < m" "v \<in> set xs" using that(1) by (auto simp: buckets_def)
    have "d v * B + g v \<le> Suc (d v) * B" using v(2) assms(2) by (simp add: less_imp_le)
    also have "\<dots> \<le> d w * B" using v(1) that(3) by (intro mult_le_mono1) simp
    finally show ?thesis by simp
  qed
  ultimately show ?case using Suc.IH by (auto simp: split sorted_append)
qed (simp add: buckets_def)

text \<open>The lowest \<open>k\<close> bytes of a number, as the order after \<open>k\<close> distributions.\<close>

definition byte_digit :: "nat \<Rightarrow> 'a::len word \<Rightarrow> nat" where
  "byte_digit r v = unat v div 256 ^ r mod 256"

abbreviation low_bytes :: "nat \<Rightarrow> 'a::len word \<Rightarrow> nat" where
  "low_bytes k v \<equiv> unat v mod 256 ^ k"

lemma low_bytes_Suc: "byte_digit k v * 256 ^ k + low_bytes k v = low_bytes (Suc k) v"
  by (simp only: byte_digit_def mod_mult2_eq power_Suc2 mult.commute [of _ "256 ^ k"])

text \<open>Distributing a list sorted by its lowest \<open>k\<close> bytes by the next byte sorts it by \<open>k + 1\<close> bytes.\<close>

definition low_sorted :: "nat \<Rightarrow> 'a::len word list \<Rightarrow> 'a word list \<Rightarrow> bool" where
  "low_sorted k xs ys \<longleftrightarrow> mset ys = mset xs \<and> sorted (map (low_bytes k) ys)"

lemma low_sorted_0: "low_sorted 0 xs xs"
  by (simp add: low_sorted_def sorted_map sorted_wrt_true)

lemma low_sorted_Suc: "low_sorted k xs ys \<Longrightarrow> low_sorted (Suc k) xs (buckets (byte_digit k) 256 ys)"
  using sorted_buckets [of "low_bytes k" ys "256 ^ k" "byte_digit k" 256] mset_buckets [of ys "byte_digit k" 256]
  by (simp add: low_sorted_def low_bytes_Suc) (simp add: byte_digit_def)

lemma low_sorted_all:
  fixes xs :: "'a::len word list"
  assumes "low_sorted k xs ys" "LENGTH('a) = 8 * k"
  shows "ys = sort xs"
proof -
  have "(2 :: nat) ^ (8 * k) = 256 ^ k" by (simp add: power_mult)
  then have "low_bytes k v = unat v" for v :: "'a word"
    using assms(2) unsigned_less [of v, where ?'a = nat] by simp
  then have "sorted ys" using assms(1) by (auto simp: low_sorted_def sorted_map word_le_nat_alt intro: sorted_wrt_mono_rel)
  then show ?thesis using assms(1) by (intro properties_for_sort [symmetric]) (simp_all add: low_sorted_def)
qed

section \<open>The counters of the code\<close>

lemma window_down: "drop_bit n x AND push_bit m (mask 8) = push_bit m (take_bit 8 (drop_bit (n + m) (x :: u32)))"
  by (rule bit_word_eqI) (auto simp: bit_simps)

lemma window_up: "push_bit m x AND push_bit m (mask 8) = push_bit m (take_bit 8 (x :: u32))"
  by (rule bit_word_eqI) (auto simp: bit_simps)

lemma unat_window:
  assumes "m \<le> 2"
  shows "unat (push_bit m (take_bit 8 (x :: u32))) = 2 ^ m * (unat x mod 256)"
proof -
  have "2 ^ m * (unat x mod 256) < 2 ^ 2 * 256"
    using assms by (intro mult_le_less_imp_less power_increasing) simp_all
  then have small: "2 ^ m * (unat x mod 256) < 2 ^ 32" by simp
  have "unat (push_bit m (take_bit 8 x)) = take_bit LENGTH(32) (push_bit m (take_bit LENGTH(32) (take_bit 8 (unat x))))"
    by (simp only: unsigned_push_bit_eq unsigned_take_bit_eq) (simp add: take_bit_nat_eq_self)
  then show ?thesis using small by (simp add: push_bit_eq_mult take_bit_eq_mod mult.commute)
qed

lemma digits16_columns: "digits16 v = map (\<lambda>r. 2 * byte_digit r v + r) [0..<2]"
proof -
  have m: "(0x1fe :: u32) = push_bit 1 (mask 8)" by (simp add: mask_eq_exp_minus_1)
  have u: "unat (ucast v :: u32) = unat v" using unsigned_less [of v, where ?'a = nat]
    by (simp add: unsigned_ucast_eq take_bit_nat_eq_self)
  have lo: "unat (push_bit 1 (ucast v :: u32) AND 0x1fe) = 2 * byte_digit 0 v"
    unfolding m window_up using unat_window [of 1 "ucast v"] u by (simp add: byte_digit_def)
  have hi: "unat (drop_bit 7 (ucast v :: u32) AND 0x1fe) = 2 * byte_digit 1 v"
    unfolding m window_down using unat_window [of 1 "drop_bit (7 + 1) (ucast v)"] u
    by (simp add: byte_digit_def unat_div drop_bit_eq_div)
  show ?thesis unfolding digits16_def lo hi by (simp add: upt_rec)
qed

lemma digits32_columns: "digits32 v = map (\<lambda>r. 4 * byte_digit r v + r) [0..<4]"
proof -
  have m: "(0x3fc :: u32) = push_bit 2 (mask 8)" by (simp add: mask_eq_exp_minus_1)
  have lo: "unat (push_bit 2 v AND 0x3fc) = 4 * byte_digit 0 v"
    unfolding m window_up using unat_window [of 2 v] by (simp add: byte_digit_def)
  have hi: "unat (drop_bit n v AND 0x3fc) = 4 * byte_digit r v" if "n + 2 = 8 * r" for n r
  proof -
    have "unat (drop_bit (n + 2) v) = unat v div 256 ^ r"
      unfolding that unat_drop_bit_eq by (simp add: drop_bit_eq_div power_mult)
    then show ?thesis
      unfolding m window_down using unat_window [of 2 "drop_bit (n + 2) v"] by (simp add: byte_digit_def)
  qed
  show ?thesis unfolding digits32_def lo hi [of 6 1, simplified] hi [of 14 2, simplified] hi [of 22 3, simplified]
    by (simp add: upt_rec numeral_2_eq_2 numeral_3_eq_3)
qed

text \<open>The counters still in use at pass \<open>r\<close>, for a source that is a permutation of \<open>xs\<close>.\<close>

definition counters_for :: "nat \<Rightarrow> nat \<Rightarrow> 'b::len word list \<Rightarrow> u32 list \<Rightarrow> bool" where
  "counters_for s r xs cs \<longleftrightarrow> (\<exists>f. columns s cs f \<and>
     (\<forall>r'. r \<le> r' \<longrightarrow> (\<forall>k. f r' k = freq_below (byte_digit r') k xs + freq (byte_digit r') k xs)))"

text \<open>The sorts of words: digit \<open>r\<close> is byte \<open>r\<close>.\<close>

locale byte_columns = digit_columns s js ps byte_digit
  for s :: nat and js :: "'b::len word \<Rightarrow> nat list" and ps :: "nat \<Rightarrow> (nat \<times> nat) list"
begin

lemma counters_ready:
  assumes "unat (len :: u32) \<le> length src"
  obtains cs where "do { cs \<leftarrow> count_digits js src (unat len) (replicate (s * 256) 0); prefix_sums ps cs } = Some cs"
    "counters_for s 0 (take (unat len) src) cs"
proof -
  let ?xs = "take (unat len) src"
  obtain c0 where c0: "count_digits js src (unat len) (replicate (s * 256) 0) = Some c0"
      "columns s c0 (\<lambda>r k. freq (byte_digit r) k ?xs)"
    by (rule count_correct [OF assms u32_bound])
  obtain c1 where "prefix_sums ps c0 = Some c1" "columns s c1 (\<lambda>r k. freq_below (byte_digit r) k ?xs + freq (byte_digit r) k ?xs)"
    by (rule prefix_correct [OF c0(2)]) (use assms u32_bound [of len] in simp)
  then show thesis using that c0(1) by (auto simp: counters_for_def)
qed

lemma same_freq:
  assumes "mset ys = mset xs"
  shows "freq d k ys = freq d k xs" "freq_below d k ys = freq_below d k xs"
  using arg_cong [OF assms, of "\<lambda>m. size (filter_mset (\<lambda>v. d v = k) m)"]
    arg_cong [OF assms, of "\<lambda>m. size (filter_mset (\<lambda>v. d v < k) m)"]
  by (simp_all add: freq_def freq_below_def flip: mset_filter)

lemma sort_pass:
  assumes "counters_for s r xs cs" "r < s" "n \<le> length source" "n \<le> length target" "low_sorted r xs (take n source)"
  obtains cs' out where "distribute (\<lambda>v. js v ! r) n source cs target = Some (cs', out)" "counters_for s (Suc r) xs cs'"
    "length out = length target" "low_sorted (Suc r) xs (take n out)" "drop n out = drop n target"
proof -
  obtain f where f: "columns s cs f"
      "\<And>r' k. r \<le> r' \<Longrightarrow> f r' k = freq_below (byte_digit r') k xs + freq (byte_digit r') k xs"
    using assms(1) by (auto simp: counters_for_def)
  have perm: "mset (take n source) = mset xs" using assms(5) by (simp add: low_sorted_def)
  have full: "\<forall>k < 256. f r k = freq_below (byte_digit r) k (take n source) + freq (byte_digit r) k (take n source)"
    using f(2) [of r] by (simp add: same_freq [OF perm])
  obtain cs' f' out where o: "distribute (\<lambda>v. js v ! r) n source cs target = Some (cs', out)" "columns s cs' f'"
      "\<forall>r'. r' \<noteq> r \<longrightarrow> f' r' = f r'" "length out = length target" "take n out = buckets (byte_digit r) 256 (take n source)"
      "drop n out = drop n target"
    by (rule distribute_correct [OF f(1) assms(2-4) _ full, of "\<lambda>v. js v ! r"]) simp
  have "counters_for s (Suc r) xs cs'" using o(2,3) f(2) by (auto simp: counters_for_def)
  then show thesis using that o(1,4-6) low_sorted_Suc [OF assms(5)] by simp
qed

end

interpretation sort16: byte_columns 2 digits16 pairs16
proof
  show "pairs16 i = map (\<lambda>r. (2 * Suc i + r, 2 * i + r)) [0..<2]" for i
    by (simp add: pairs16_def upt_rec)
qed (simp_all add: digits16_columns byte_digit_def)

interpretation sort32: byte_columns 4 digits32 pairs32
proof
  show "pairs32 i = map (\<lambda>r. (4 * Suc i + r, 4 * i + r)) [0..<4]" for i
    by (simp add: pairs32_def upt_rec)
qed (simp_all add: digits32_columns byte_digit_def)

section \<open>The sorts\<close>

text \<open>
  C35: \<open>radix_sort32\<close> sorts: the first \<open>length\<close> elements of \<open>dest\<close> become those of \<open>src\<close> in ascending order, whatever \<open>dest\<close> and the
  buffer held; it reads and writes only inside the arrays, and no counter overflows.
\<close>

theorem radix_sort32_sorts:
  assumes "unat len \<le> length src" "unat len \<le> length dest" "unat len \<le> length buffer"
  shows "\<exists>dest' buffer'. radix_sort32 dest src buffer len = Some (dest', buffer') \<and>
    take (unat len) dest' = sort (take (unat len) src) \<and> drop (unat len) dest' = drop (unat len) dest"
proof -
  let ?n = "unat len"
  let ?xs = "take ?n src"
  obtain c0 where c0: "do { cs \<leftarrow> count_digits digits32 src ?n (replicate (4 * 256) 0); prefix_sums pairs32 cs } = Some c0"
      "counters_for 4 0 ?xs c0"
    by (rule sort32.counters_ready [OF assms(1)])
  obtain c1 b1 where 1: "distribute (\<lambda>v. digits32 v ! 0) ?n src c0 buffer = Some (c1, b1)" "counters_for 4 (Suc 0) ?xs c1"
      "length b1 = length buffer" "low_sorted (Suc 0) ?xs (take ?n b1)"
    by (rule sort32.sort_pass [OF c0(2) _ assms(1,3) low_sorted_0]) simp_all
  obtain c2 d2 where 2: "distribute (\<lambda>v. digits32 v ! 1) ?n b1 c1 dest = Some (c2, d2)" "counters_for 4 2 ?xs c2"
      "length d2 = length dest" "low_sorted 2 ?xs (take ?n d2)" "drop ?n d2 = drop ?n dest"
    by (rule sort32.sort_pass [OF 1(2) _ _ assms(2) 1(4)]) (use 1(3) assms(3) in \<open>simp_all add: numeral_2_eq_2\<close>)
  obtain c3 b3 where 3: "distribute (\<lambda>v. digits32 v ! 2) ?n d2 c2 b1 = Some (c3, b3)" "counters_for 4 3 ?xs c3"
      "length b3 = length buffer" "low_sorted 3 ?xs (take ?n b3)"
    by (rule sort32.sort_pass [OF 2(2) _ _ _ 2(4), of b1]) (use 1(3) 2(3) assms in \<open>simp_all add: numeral_3_eq_3\<close>)
  obtain c4 d4 where 4: "distribute (\<lambda>v. digits32 v ! 3) ?n b3 c3 d2 = Some (c4, d4)"
      "low_sorted 4 ?xs (take ?n d4)" "drop ?n d4 = drop ?n d2"
    by (rule sort32.sort_pass [OF 3(2) _ _ _ 3(4), of d2]) (use 2(3) 3(3) assms in \<open>simp_all add: eval_nat_numeral\<close>)
  have "take ?n d4 = sort ?xs" by (rule low_sorted_all [OF 4(2)]) simp
  moreover have "radix_sort32 dest src buffer len = Some (d4, b3)"
    using c0(1) 1(1) 2(1) 3(1) 4(1) by (auto simp: radix_sort32_def Let_def split: Option.bind_splits)
  ultimately show ?thesis using 2(5) 4(3) by simp
qed

theorem radix_sort32_sorts_witness:
  "\<exists>dest' buffer'. radix_sort32 [9, 9, 9, 7] [70000, 3, 0x1000003] [0, 0, 0] 3 = Some (dest', buffer') \<and>
     take 3 dest' = [3, 70000, 0x1000003] \<and> drop 3 dest' = [7]"
  using radix_sort32_sorts [of 3 "[70000, 3, 0x1000003]" "[9, 9, 9, 7]" "[0, 0, 0]"] by simp

text \<open>\<open>radix_sort16\<close> does the same in two passes.\<close>

theorem radix_sort16_sorts:
  assumes "unat len \<le> length src" "unat len \<le> length dest" "unat len \<le> length buffer"
  shows "\<exists>dest' buffer'. radix_sort16 dest src buffer len = Some (dest', buffer') \<and>
    take (unat len) dest' = sort (take (unat len) src) \<and> drop (unat len) dest' = drop (unat len) dest"
proof -
  let ?n = "unat len"
  let ?xs = "take ?n src"
  obtain c0 where c0: "do { cs \<leftarrow> count_digits digits16 src ?n (replicate (2 * 256) 0); prefix_sums pairs16 cs } = Some c0"
      "counters_for 2 0 ?xs c0"
    by (rule sort16.counters_ready [OF assms(1)])
  obtain c1 b1 where 1: "distribute (\<lambda>v. digits16 v ! 0) ?n src c0 buffer = Some (c1, b1)" "counters_for 2 (Suc 0) ?xs c1"
      "length b1 = length buffer" "low_sorted (Suc 0) ?xs (take ?n b1)"
    by (rule sort16.sort_pass [OF c0(2) _ assms(1,3) low_sorted_0]) simp_all
  obtain c2 d2 where 2: "distribute (\<lambda>v. digits16 v ! 1) ?n b1 c1 dest = Some (c2, d2)"
      "low_sorted 2 ?xs (take ?n d2)" "drop ?n d2 = drop ?n dest"
    by (rule sort16.sort_pass [OF 1(2) _ _ assms(2) 1(4)]) (use 1(3) assms(3) in \<open>simp_all add: numeral_2_eq_2\<close>)
  have "take ?n d2 = sort ?xs" by (rule low_sorted_all [OF 2(2)]) simp
  moreover have "radix_sort16 dest src buffer len = Some (d2, b1)"
    using c0(1) 1(1) 2(1) by (auto simp: radix_sort16_def Let_def split: Option.bind_splits)
  ultimately show ?thesis using 2(3) by simp
qed

theorem radix_sort16_sorts_witness:
  "\<exists>dest' buffer'. radix_sort16 [0, 0] [700, 699] [1, 1] 2 = Some (dest', buffer') \<and> take 2 dest' = [699, 700]"
  using radix_sort16_sorts [of 2 "[700, 699]" "[0, 0]" "[1, 1]"] by auto

end
