(* ===== verification/Page_Allocator.thy ===== *)
theory Page_Allocator
  imports Prelude
begin

text \<open>
  \<open>src/bits/page_allocator.c\<close>: a lock-free allocator of pages. Every page begins with a header that links it into
  the list of all pages and, when it is free, into the free list. A step is one atomic operation or one access to a header;
  the weak compare-exchange may fail for no reason, and what \<open>mmap\<close> returns is part of the step.
\<close>

section \<open>State\<close>

record header =
  next_any :: "nat option"
  next_free :: "nat option"

record page_allocator =
  headers :: "nat \<rightharpoonup> header"
  all_pages :: "nat option"
  free_list :: "nat option"
  page_size :: u64

definition HEADER_SIZE :: nat where "HEADER_SIZE = 16"

text \<open>\<open>sz\<close> is what \<open>sysconf\<close> returns.\<close>

definition page_allocator_create :: "u64 \<Rightarrow> page_allocator" where
  "page_allocator_create sz = \<lparr>headers = Map.empty, all_pages = None, free_list = None, page_size = sz\<rparr>"

definition read_header :: "nat \<Rightarrow> page_allocator \<Rightarrow> header option" where
  "read_header a m = headers m a"

definition write_header :: "(header \<Rightarrow> header) \<Rightarrow> nat \<Rightarrow> page_allocator \<Rightarrow> page_allocator option" where
  "write_header f a m = do { h \<leftarrow> headers m a; Some (m\<lparr>headers := (headers m)(a \<mapsto> f h)\<rparr>) }"

section \<open>The steps of \<open>page_allocator_alloc\<close> and \<open>page_allocator_free\<close>\<close>

text \<open>
  Where a thread is. In \<open>page_allocator_alloc\<close>: at the load of the free list, at the read of \<open>next_free\<close>, at the
  compare-exchange, at the reset of \<open>next_free\<close>; or at \<open>mmap\<close>, at the load of the list of all pages, at the write of
  \<open>next_any\<close>, at the compare-exchange. In \<open>page_allocator_free\<close>: at the load, the write, the compare-exchange.
\<close>

datatype page_pc = Load_Free | Read_Next nat | Cas_Free nat "nat option" | Reset_Next nat
  | Map_Page | Load_All nat | Set_Any nat "nat option" | Cas_All nat "nat option" | Got "nat option"
  | Free_Load nat | Free_Set nat "nat option" | Free_Cas nat "nat option" | Freed

fun page_step :: "bool \<Rightarrow> nat option \<Rightarrow> page_pc \<Rightarrow> page_allocator \<Rightarrow> (page_pc \<times> page_allocator) option" where
  "page_step spurious mapped Load_Free m =
     Some (case free_list m of None \<Rightarrow> Map_Page | Some h \<Rightarrow> Read_Next h, m)"
| "page_step spurious mapped (Read_Next h) m =
     do { hd \<leftarrow> read_header h m; Some (Cas_Free h (next_free hd), m) }"
| "page_step spurious mapped (Cas_Free h n) m =
     Some (if free_list m = Some h \<and> \<not> spurious then (Reset_Next h, m\<lparr>free_list := n\<rparr>) else (Load_Free, m))"
| "page_step spurious mapped (Reset_Next h) m =
     do { m \<leftarrow> write_header (\<lambda>hd. hd\<lparr>next_free := None\<rparr>) h m; Some (Got (Some (h + HEADER_SIZE)), m) }"
| "page_step spurious mapped Map_Page m =
     (case mapped of
        None \<Rightarrow> Some (Got None, m)
      | Some h \<Rightarrow>
          if h \<in> dom (headers m) then None
          else Some (Load_All h, m\<lparr>headers := (headers m)(h \<mapsto> \<lparr>next_any = None, next_free = None\<rparr>)\<rparr>))"
| "page_step spurious mapped (Load_All h) m = Some (Set_Any h (all_pages m), m)"
| "page_step spurious mapped (Set_Any h old) m =
     do { m \<leftarrow> write_header (\<lambda>hd. hd\<lparr>next_any := old\<rparr>) h m; Some (Cas_All h old, m) }"
| "page_step spurious mapped (Cas_All h old) m =
     Some (if all_pages m = old \<and> \<not> spurious then (Got (Some (h + HEADER_SIZE)), m\<lparr>all_pages := Some h\<rparr>)
           else (Set_Any h (all_pages m), m))"
| "page_step spurious mapped (Free_Load h) m = Some (Free_Set h (free_list m), m)"
| "page_step spurious mapped (Free_Set h old) m =
     do { m \<leftarrow> write_header (\<lambda>hd. hd\<lparr>next_free := old\<rparr>) h m; Some (Free_Cas h old, m) }"
| "page_step spurious mapped (Free_Cas h old) m =
     Some (if free_list m = old \<and> \<not> spurious then (Freed, m\<lparr>free_list := Some h\<rparr>) else (Free_Set h (free_list m), m))"
| "page_step spurious mapped (Got r) m = None"
| "page_step spurious mapped Freed m = None"

text \<open>The calls; \<open>ptr\<close> points behind the header.\<close>

definition page_allocator_alloc :: page_pc where "page_allocator_alloc = Load_Free"
definition page_allocator_free :: "nat \<Rightarrow> page_pc" where "page_allocator_free ptr = Free_Load (ptr - HEADER_SIZE)"

text \<open>
  \<open>page_allocator_destroy\<close>, when no other thread uses the allocator: the pages it unmaps, in order. The next page is
  read before the header is unmapped.
\<close>

partial_function (option) unmap_pages :: "page_allocator \<Rightarrow> nat option \<Rightarrow> nat list option" where
  "unmap_pages m h =
     (case h of
        None \<Rightarrow> Some []
      | Some a \<Rightarrow> do {
          hd \<leftarrow> read_header a m;
          rest \<leftarrow> unmap_pages (m\<lparr>headers := (headers m)(a := None)\<rparr>) (next_any hd);
          Some (a # rest)
        })"

declare unmap_pages.simps [code]

definition page_allocator_destroy :: "page_allocator \<Rightarrow> nat list option" where
  "page_allocator_destroy m = unmap_pages m (all_pages m)"

section \<open>One thread\<close>

text \<open>\<open>links f h xs\<close>: from \<open>h\<close> the links \<open>f\<close> lead through the pages \<open>xs\<close> to the end.\<close>

fun links :: "(nat \<rightharpoonup> nat option) \<Rightarrow> nat option \<Rightarrow> nat list \<Rightarrow> bool" where
  "links f h [] \<longleftrightarrow> h = None"
| "links f h (x # xs) \<longleftrightarrow> h = Some x \<and> (\<exists>n. f x = Some n \<and> links f n xs)"

abbreviation any_links :: "page_allocator \<Rightarrow> nat \<rightharpoonup> nat option" where
  "any_links m \<equiv> (\<lambda>a. map_option next_any (headers m a))"

abbreviation free_links :: "page_allocator \<Rightarrow> nat \<rightharpoonup> nat option" where
  "free_links m \<equiv> (\<lambda>a. map_option next_free (headers m a))"

text \<open>\<open>pages_rep m ps fs\<close>: the pages mapped are \<open>ps\<close>, and the free ones are the stack \<open>fs\<close>.\<close>

definition pages_rep :: "page_allocator \<Rightarrow> nat list \<Rightarrow> nat list \<Rightarrow> bool" where
  "pages_rep m ps fs \<longleftrightarrow> links (any_links m) (all_pages m) ps \<and> links (free_links m) (free_list m) fs \<and>
     distinct ps \<and> distinct fs \<and> set fs \<subseteq> set ps \<and> dom (headers m) = set ps"

definition solo :: "nat option \<Rightarrow> page_pc \<times> page_allocator \<Rightarrow> page_pc \<times> page_allocator \<Rightarrow> bool" where
  "solo mapped c c' \<longleftrightarrow> page_step False mapped (fst c) (snd c) = Some c'"

lemma links_frame: "links f h xs \<Longrightarrow> (\<And>x. x \<in> set xs \<Longrightarrow> f' x = f x) \<Longrightarrow> links f' h xs"
  by (induction xs arbitrary: h) auto

lemma links_dom: "links f h xs \<Longrightarrow> set xs \<subseteq> dom f"
  by (induction xs arbitrary: h) auto

lemma pages_rep_create: "pages_rep (page_allocator_create sz) [] []"
  by (simp add: pages_rep_def page_allocator_create_def)

fun solo_run :: "nat option \<Rightarrow> nat \<Rightarrow> page_pc \<times> page_allocator \<Rightarrow> (page_pc \<times> page_allocator) option" where
  "solo_run q 0 c = Some c"
| "solo_run q (Suc k) c = do { c \<leftarrow> page_step False q (fst c) (snd c); solo_run q k c }"

lemma solo_run: "solo_run q k c = Some c' \<Longrightarrow> (solo q)\<^sup>*\<^sup>* c c'"
proof (induction k arbitrary: c)
  case (Suc k)
  then obtain c1 where "solo q c c1" "solo_run q k c1 = Some c'"
    by (auto simp: solo_def split: Option.bind_splits)
  then show ?case using Suc.IH by (meson converse_rtranclp_into_rtranclp)
qed simp

lemmas solo_simps = eval_nat_numeral read_header_def write_header_def page_allocator_alloc_def page_allocator_free_def

lemma alloc_free_page:
  assumes "pages_rep m ps (f # fs)"
  shows "\<exists>m'. (solo q)\<^sup>*\<^sup>* (page_allocator_alloc, m) (Got (Some (f + HEADER_SIZE)), m') \<and> pages_rep m' ps fs"
proof -
  obtain n hd where f: "free_list m = Some f" "headers m f = Some hd" "next_free hd = n" "links (free_links m) n fs" "f \<notin> set fs"
    using assms by (auto simp: pages_rep_def)
  let ?m = "m\<lparr>free_list := n, headers := (headers m)(f \<mapsto> hd\<lparr>next_free := None\<rparr>)\<rparr>"
  have "(solo q)\<^sup>*\<^sup>* (page_allocator_alloc, m) (Got (Some (f + HEADER_SIZE)), ?m)"
    by (rule solo_run [of q 4]) (use f(1-3) in \<open>simp add: solo_simps\<close>)
  moreover have "links (free_links ?m) n fs"
    using f(4,5) by (intro links_frame [OF f(4)]) auto
  moreover have "links (any_links ?m) (all_pages m) ps"
    by (rule links_frame [of "any_links m"]) (use assms f(2) in \<open>auto simp: pages_rep_def\<close>)
  ultimately show ?thesis
    using assms f(2) by (intro exI [of _ ?m]) (auto simp: pages_rep_def)
qed

lemma alloc_new_page:
  assumes "pages_rep m ps []" "p \<notin> set ps"
  shows "\<exists>m'. (solo (Some p))\<^sup>*\<^sup>* (page_allocator_alloc, m) (Got (Some (p + HEADER_SIZE)), m') \<and> pages_rep m' (p # ps) []"
proof -
  have e: "free_list m = None" "headers m p = None" using assms by (auto simp: pages_rep_def)
  let ?m = "m\<lparr>headers := (headers m)(p \<mapsto> \<lparr>next_any = all_pages m, next_free = None\<rparr>), all_pages := Some p\<rparr>"
  have "(solo (Some p))\<^sup>*\<^sup>* (page_allocator_alloc, m) (Got (Some (p + HEADER_SIZE)), ?m)"
    by (rule solo_run [of "Some p" 5]) (use e in \<open>auto simp: solo_simps\<close>)
  moreover have "links (any_links ?m) (all_pages m) ps"
    by (rule links_frame [of "any_links m"]) (use assms in \<open>auto simp: pages_rep_def\<close>)
  ultimately show ?thesis
    using assms e by (intro exI [of _ ?m]) (auto simp: pages_rep_def)
qed

lemma free_page:
  assumes "pages_rep m ps fs" "a \<in> set ps" "a \<notin> set fs"
  shows "\<exists>m'. (solo q)\<^sup>*\<^sup>* (page_allocator_free (a + HEADER_SIZE), m) (Freed, m') \<and> pages_rep m' ps (a # fs)"
proof -
  obtain hd where hd: "headers m a = Some hd" using assms(1,2) by (auto simp: pages_rep_def)
  let ?m = "m\<lparr>headers := (headers m)(a \<mapsto> hd\<lparr>next_free := free_list m\<rparr>), free_list := Some a\<rparr>"
  have "(solo q)\<^sup>*\<^sup>* (page_allocator_free (a + HEADER_SIZE), m) (Freed, ?m)"
    by (rule solo_run [of q 3]) (use hd in \<open>simp add: solo_simps\<close>)
  moreover have "links (free_links ?m) (free_list m) fs"
    by (rule links_frame [of "free_links m"]) (use assms in \<open>auto simp: pages_rep_def\<close>)
  moreover have "links (any_links ?m) (all_pages m) ps"
    by (rule links_frame [of "any_links m"]) (use assms hd in \<open>auto simp: pages_rep_def\<close>)
  ultimately show ?thesis
    using assms hd by (intro exI [of _ ?m]) (auto simp: pages_rep_def)
qed

lemma unmap_links: "links (any_links m) h ps \<Longrightarrow> distinct ps \<Longrightarrow> unmap_pages m h = Some ps"
proof (induction ps arbitrary: m h)
  case Nil
  then show ?case by (simp add: unmap_pages.simps)
next
  case (Cons p ps)
  then obtain hd where hd: "h = Some p" "headers m p = Some hd" "links (any_links m) (next_any hd) ps" by auto
  have "links (any_links (m\<lparr>headers := (headers m)(p := None)\<rparr>)) (next_any hd) ps"
    by (rule links_frame [OF hd(3)]) (use Cons.prems(2) in auto)
  from Cons.IH [OF this] show ?case
    using hd(1,2) Cons.prems(2) by (subst unmap_pages.simps) (simp add: read_header_def)
qed

text \<open>
  Used by one thread the allocator is a stack of free pages: an allocation takes the page freed last, or maps a new one when
  none is free, or returns \<open>NULL\<close> and changes nothing when the system has no page; a free puts the page on the stack; and
  \<open>page_allocator_destroy\<close> unmaps every page exactly once.
\<close>

theorem page_allocator_alone:
  assumes "pages_rep m ps fs"
  shows "(\<forall>f fs' q. fs = f # fs' \<longrightarrow>
      (\<exists>m'. (solo q)\<^sup>*\<^sup>* (page_allocator_alloc, m) (Got (Some (f + HEADER_SIZE)), m') \<and> pages_rep m' ps fs')) \<and>
    (\<forall>p. fs = [] \<longrightarrow> p \<notin> set ps \<longrightarrow>
      (\<exists>m'. (solo (Some p))\<^sup>*\<^sup>* (page_allocator_alloc, m) (Got (Some (p + HEADER_SIZE)), m') \<and> pages_rep m' (p # ps) [])) \<and>
    (fs = [] \<longrightarrow> (solo None)\<^sup>*\<^sup>* (page_allocator_alloc, m) (Got None, m)) \<and>
    (\<forall>a q. a \<in> set ps \<longrightarrow> a \<notin> set fs \<longrightarrow>
      (\<exists>m'. (solo q)\<^sup>*\<^sup>* (page_allocator_free (a + HEADER_SIZE), m) (Freed, m') \<and> pages_rep m' ps (a # fs))) \<and>
    page_allocator_destroy m = Some ps"
proof -
  have "(solo None)\<^sup>*\<^sup>* (page_allocator_alloc, m) (Got None, m)" if "fs = []"
  proof -
    have "free_list m = None" using assms that by (simp add: pages_rep_def)
    then show ?thesis by (intro solo_run [of None 2]) (simp add: solo_simps)
  qed
  moreover have "page_allocator_destroy m = Some ps"
    using assms unmap_links by (simp add: page_allocator_destroy_def pages_rep_def)
  ultimately show ?thesis
    using assms alloc_free_page alloc_new_page free_page by blast
qed

theorem page_allocator_alone_witness:
  "\<exists>m. (solo (Some 4096))\<^sup>*\<^sup>* (page_allocator_alloc, page_allocator_create 4096) (Got (Some 4112), m) \<and> pages_rep m [4096] []"
proof -
  have "\<exists>m. (solo (Some 4096))\<^sup>*\<^sup>* (page_allocator_alloc, page_allocator_create 4096) (Got (Some (4096 + HEADER_SIZE)), m) \<and>
      pages_rep m [4096] []"
    using page_allocator_alone [OF pages_rep_create, THEN conjunct2, THEN conjunct1, rule_format, of 4096] by simp
  then show ?thesis by (simp add: HEADER_SIZE_def)
qed

section \<open>Several threads\<close>

text \<open>
  \<open>owned\<close> is a history variable: the pointers each thread has got and not given back. The threads keep to the rules: a
  thread frees only what it owns.
\<close>

record page_system =
  pages :: page_allocator
  page_pcs :: "page_pc list"
  owned :: "(nat \<times> nat) list"

datatype page_action = Alloc nat | Free nat nat | Step nat bool "nat option"

fun is_idle :: "page_pc \<Rightarrow> bool" where
  "is_idle (Got r) \<longleftrightarrow> True"
| "is_idle Freed \<longleftrightarrow> True"
| "is_idle _ \<longleftrightarrow> False"

definition page_system_step :: "page_action \<Rightarrow> page_system \<Rightarrow> page_system option" where
  "page_system_step a \<sigma> =
     (case a of
        Alloc i \<Rightarrow>
          if i < length (page_pcs \<sigma>) \<and> is_idle (page_pcs \<sigma> ! i)
          then Some (\<sigma>\<lparr>page_pcs := (page_pcs \<sigma>)[i := page_allocator_alloc]\<rparr>) else None
      | Free i ptr \<Rightarrow>
          if i < length (page_pcs \<sigma>) \<and> is_idle (page_pcs \<sigma> ! i) \<and> (i, ptr) \<in> set (owned \<sigma>)
          then Some (\<sigma>\<lparr>page_pcs := (page_pcs \<sigma>)[i := page_allocator_free ptr], owned := remove1 (i, ptr) (owned \<sigma>)\<rparr>) else None
      | Step i spurious mapped \<Rightarrow>
          if i < length (page_pcs \<sigma>)
          then do {
            (pc, m) \<leftarrow> page_step spurious mapped (page_pcs \<sigma> ! i) (pages \<sigma>);
            Some (\<sigma>\<lparr>pages := m, page_pcs := (page_pcs \<sigma>)[i := pc],
                    owned := (case pc of Got (Some ptr) \<Rightarrow> (i, ptr) # owned \<sigma> | _ \<Rightarrow> owned \<sigma>)\<rparr>)
          }
          else None)"

fun page_system_run :: "page_action list \<Rightarrow> page_system \<Rightarrow> page_system option" where
  "page_system_run [] \<sigma> = Some \<sigma>"
| "page_system_run (a # as) \<sigma> = do { \<sigma> \<leftarrow> page_system_step a \<sigma>; page_system_run as \<sigma> }"

definition page_system_start :: "u64 \<Rightarrow> nat \<Rightarrow> page_system" where
  "page_system_start sz n = \<lparr>pages = page_allocator_create sz, page_pcs = replicate n Freed, owned = []\<rparr>"

text \<open>
  The run of threads \<open>i\<close> and \<open>j\<close>: \<open>i\<close> begins an allocation and reads which page follows the first page \<open>a\<close> of the free
  list. Thread \<open>j\<close> gets both pages and frees \<open>a\<close> again, so the head of the list is what \<open>i\<close> expects, and its compare-exchange
  puts the second page, which \<open>j\<close> owns, on the free list. The next allocation of \<open>i\<close> gets that page.
\<close>

definition step_times :: "nat \<Rightarrow> nat \<Rightarrow> nat option \<Rightarrow> page_action list" where
  "step_times k i mapped = map (\<lambda>_. Step i False mapped) [0..<k]"

definition aba_run :: "nat \<Rightarrow> nat \<Rightarrow> nat \<Rightarrow> page_action list" where
  "aba_run i j a =
     [Alloc i] @ step_times 2 i None @
     [Alloc j] @ step_times 4 j None @ [Alloc j] @ step_times 4 j None @ [Free j (a + HEADER_SIZE)] @ step_times 3 j None @
     step_times 2 i None @ [Alloc i] @ step_times 4 i None"

lemma page_system_run_append:
  "page_system_run (as @ bs) \<sigma> = do { \<sigma> \<leftarrow> page_system_run as \<sigma>; page_system_run bs \<sigma> }"
  by (induction as arbitrary: \<sigma>) (auto split: Option.bind_splits)

lemma step_times_Suc: "step_times 0 i q = []" "step_times (Suc k) i q = Step i False q # step_times k i q"
  by (simp_all add: step_times_def upt_conv_Cons map_replicate_const del: upt_Suc)

text \<open>
  C34: in every state with two free pages and two threads \<open>i\<close> and \<open>j\<close> that are not in a call, there is an interleaving of the
  two, both keeping to the rules, after which both own the same page: the compare-exchange of
  \<open>page_allocator_alloc\<close> compares only the head of the free list, which may have been taken and put back.
\<close>

theorem page_given_twice:
  assumes "pages_rep (pages \<sigma>) ps (a # b # fs)" "i \<noteq> j"
    and "i < length (page_pcs \<sigma>)" "is_idle (page_pcs \<sigma> ! i)" "j < length (page_pcs \<sigma>)" "is_idle (page_pcs \<sigma> ! j)"
  shows "\<exists>\<sigma>'. page_system_run (aba_run i j a) \<sigma> = Some \<sigma>' \<and>
    owned \<sigma>' = (i, b + HEADER_SIZE) # (i, a + HEADER_SIZE) # (j, b + HEADER_SIZE) # owned \<sigma>"
proof -
  obtain n ha hb where f: "free_list (pages \<sigma>) = Some a" "headers (pages \<sigma>) a = Some ha" "next_free ha = Some b"
      "headers (pages \<sigma>) b = Some hb" "next_free hb = n" "a \<noteq> b"
    using assms(1) by (auto simp: pages_rep_def)
  show ?thesis
    using assms(2-) f
    by (simp add: aba_run_def eval_nat_numeral step_times_Suc page_system_step_def page_allocator_alloc_def
        page_allocator_free_def read_header_def write_header_def)
qed

text \<open>Such a state is reached from the start: thread 1 gets two new pages and frees them.\<close>

definition two_pages_freed :: "page_action list" where
  "two_pages_freed =
     [Alloc 1] @ step_times 5 1 (Some 4096) @ [Alloc 1] @ step_times 5 1 (Some 8192) @
     [Free 1 4112] @ step_times 3 1 None @ [Free 1 8208] @ step_times 3 1 None"

theorem page_given_twice_witness:
  "map_option owned (page_system_run (two_pages_freed @ aba_run 0 1 8192) (page_system_start 4096 2)) =
     Some [(0, 4112), (0, 8208), (1, 4112)]"
proof -
  let ?m = "\<lparr>headers = [4096 \<mapsto> \<lparr>next_any = None, next_free = None\<rparr>, 8192 \<mapsto> \<lparr>next_any = Some 4096, next_free = Some 4096\<rparr>],
    all_pages = Some 8192, free_list = Some 8192, page_size = 4096\<rparr>"
  let ?s = "\<lparr>pages = ?m, page_pcs = [Freed, Freed], owned = []\<rparr>"
  have "page_system_run two_pages_freed (page_system_start 4096 2) = Some ?s"
    by (simp add: two_pages_freed_def step_times_def page_system_start_def page_allocator_create_def page_system_step_def
        page_allocator_alloc_def page_allocator_free_def read_header_def write_header_def HEADER_SIZE_def upt_rec numeral_2_eq_2)
  moreover have "pages_rep ?m [8192, 4096] [8192, 4096]" by (auto simp: pages_rep_def)
  then have "\<exists>\<sigma>'. page_system_run (aba_run 0 1 8192) ?s = Some \<sigma>' \<and>
      owned \<sigma>' = (0, 4096 + HEADER_SIZE) # (0, 8192 + HEADER_SIZE) # (1, 4096 + HEADER_SIZE) # []"
    using page_given_twice [of ?s "[8192, 4096]" 8192 4096 "[]" 0 1] by simp
  ultimately show ?thesis by (auto simp: page_system_run_append HEADER_SIZE_def)
qed

section \<open>The list of all pages\<close>

text \<open>The page a thread has mapped and not yet linked.\<close>

fun pushing :: "page_pc \<Rightarrow> nat option" where
  "pushing (Load_All h) = Some h"
| "pushing (Set_Any h old) = Some h"
| "pushing (Cas_All h old) = Some h"
| "pushing _ = None"

definition pushed_by :: "page_pc list \<Rightarrow> nat \<Rightarrow> nat \<Rightarrow> bool" where
  "pushed_by pcs i h \<longleftrightarrow> i < length pcs \<and> pushing (pcs ! i) = Some h"

text \<open>A thread at its compare-exchange has linked its page to the head it expects.\<close>

definition cas_ready :: "(nat \<rightharpoonup> nat option) \<Rightarrow> page_pc list \<Rightarrow> bool" where
  "cas_ready f pcs \<longleftrightarrow> (\<forall>i h old. i < length pcs \<longrightarrow> pcs ! i = Cas_All h old \<longrightarrow> f h = Some old)"

definition all_pages_ok :: "page_allocator \<Rightarrow> page_pc list \<Rightarrow> nat list \<Rightarrow> bool" where
  "all_pages_ok m pcs ps \<longleftrightarrow> links (any_links m) (all_pages m) ps \<and> distinct ps \<and>
     dom (headers m) = set ps \<union> {h. \<exists>i. pushed_by pcs i h} \<and>
     (\<forall>i h. pushed_by pcs i h \<longrightarrow> h \<notin> set ps) \<and>
     (\<forall>i j h. pushed_by pcs i h \<longrightarrow> pushed_by pcs j h \<longrightarrow> i = j) \<and> cas_ready (any_links m) pcs"

lemma pushed_by_update:
  "i < length pcs \<Longrightarrow> pushed_by (pcs[i := pc]) j h \<longleftrightarrow> (if j = i then pushing pc = Some h else pushed_by pcs j h)"
  by (auto simp: pushed_by_def)

lemma cas_ready_update:
  assumes "cas_ready f pcs" "\<And>j h. j \<noteq> i \<Longrightarrow> pushed_by pcs j h \<Longrightarrow> f' h = f h" "\<And>h old. pc = Cas_All h old \<Longrightarrow> f' h = Some old"
  shows "cas_ready f' (pcs[i := pc])"
  unfolding cas_ready_def
proof (intro allI impI)
  fix j h old assume j: "j < length (pcs[i := pc])" "pcs[i := pc] ! j = Cas_All h old"
  show "f' h = Some old"
  proof (cases "j = i")
    case True
    then show ?thesis using j assms(3) by simp
  next
    case False
    then have "pcs ! j = Cas_All h old" using j by simp
    then show ?thesis using j(1) assms(1) assms(2) [OF False, of h] by (simp add: cas_ready_def pushed_by_def)
  qed
qed

lemma dom_any_links: "dom (any_links m) = dom (headers m)"
  by (auto simp: dom_def)

text \<open>A step that leaves the links of the list of all pages and the threads' pages alone.\<close>

lemma all_pages_frame:
  assumes ok: "all_pages_ok m pcs ps" and i: "i < length pcs" and same: "pushing pc = pushing (pcs ! i)"
    and m: "any_links m' = any_links m" "all_pages m' = all_pages m" and pc: "\<And>h old. pc = Cas_All h old \<Longrightarrow> any_links m h = Some old"
  shows "all_pages_ok m' (pcs[i := pc]) ps"
proof -
  have dom: "dom (headers m') = dom (headers m)"
    using dom_any_links [of m'] dom_any_links [of m] by (simp only: m(1))
  have pb: "pushed_by (pcs[i := pc]) j h \<longleftrightarrow> pushed_by pcs j h" for j h
    using i same by (auto simp: pushed_by_def nth_list_update)
  have "cas_ready (any_links m) (pcs[i := pc])"
    by (rule cas_ready_update [OF _ refl pc]) (use ok in \<open>simp add: all_pages_ok_def\<close>)
  then show ?thesis
    using ok unfolding all_pages_ok_def m pb dom by blast
qed

lemma any_links_free:
  "headers m h = Some x \<Longrightarrow> any_links (m\<lparr>headers := (headers m)(h \<mapsto> x\<lparr>next_free := n\<rparr>)\<rparr>) = any_links m"
  by (auto simp: fun_eq_iff)

lemma page_step_all_pages:
  assumes ok: "all_pages_ok m pcs ps" and i: "i < length pcs" and step: "page_step spurious mapped (pcs ! i) m = Some (pc, m')"
  shows "\<exists>ps'. all_pages_ok m' (pcs[i := pc]) ps'"
proof -
  have frame: "\<exists>ps'. all_pages_ok m' (pcs[i := pc]) ps'"
    if "pushing pc = pushing (pcs ! i)" "any_links m' = any_links m" "all_pages m' = all_pages m"
      "\<And>h old. pc = Cas_All h old \<Longrightarrow> any_links m h = Some old"
    using all_pages_frame [OF ok i that] by blast
  show ?thesis
  proof (cases "pcs ! i")
    case Map_Page
    show ?thesis
    proof (cases mapped)
      case None
      then show ?thesis using step Map_Page by (intro frame) auto
    next
      case (Some h)
      let ?m = "m\<lparr>headers := (headers m)(h \<mapsto> \<lparr>next_any = None, next_free = None\<rparr>)\<rparr>"
      have h: "h \<notin> dom (headers m)" "pc = Load_All h" "m' = ?m"
        using step Map_Page Some by (auto split: if_splits)
      have out: "h \<notin> set ps" "\<not> pushed_by pcs j h" for j using ok h(1) unfolding all_pages_ok_def by blast+
      have "links (any_links ?m) (all_pages m) ps"
        by (rule links_frame [of "any_links m"]) (use ok out(1) in \<open>auto simp: all_pages_ok_def\<close>)
      moreover have "cas_ready (any_links ?m) (pcs[i := Load_All h])"
        by (rule cas_ready_update [of "any_links m"]) (use ok out(2) in \<open>auto simp: all_pages_ok_def\<close>)
      moreover have pb: "pushed_by (pcs[i := Load_All h]) j h' \<longleftrightarrow> pushed_by pcs j h' \<or> j = i \<and> h' = h" for j h'
        using Map_Page i by (auto simp: pushed_by_def nth_list_update)
      moreover have "dom (headers ?m) = insert h (dom (headers m))" by simp
      ultimately have "all_pages_ok ?m (pcs[i := Load_All h]) ps"
        using ok out unfolding all_pages_ok_def pb by auto
      then show ?thesis using h(2,3) by blast
    qed
  next
    case (Set_Any h old)
    obtain hd where hd: "headers m h = Some hd" "pc = Cas_All h old" "m' = m\<lparr>headers := (headers m)(h \<mapsto> hd\<lparr>next_any := old\<rparr>)\<rparr>"
      using step Set_Any by (auto simp: write_header_def split: Option.bind_splits)
    have me: "pushed_by pcs i h" using i Set_Any by (simp add: pushed_by_def)
    then have out: "h \<notin> set ps" "\<And>j. pushed_by pcs j h \<Longrightarrow> j = i" using ok unfolding all_pages_ok_def by blast+
    have "links (any_links m') (all_pages m) ps"
      by (rule links_frame [of "any_links m"]) (use ok out(1) hd(3) in \<open>auto simp: all_pages_ok_def\<close>)
    moreover have "cas_ready (any_links m') (pcs[i := pc])"
      by (rule cas_ready_update [of "any_links m"]) (use ok out(2) hd in \<open>auto simp: all_pages_ok_def\<close>)
    moreover have "dom (headers m') = dom (headers m)" "all_pages m' = all_pages m" using hd by auto
    moreover have "pushed_by (pcs[i := pc]) j h' \<longleftrightarrow> pushed_by pcs j h'" for j h'
      using i hd(2) Set_Any by (auto simp: pushed_by_def nth_list_update)
    ultimately have "all_pages_ok m' (pcs[i := pc]) ps"
      using ok unfolding all_pages_ok_def by simp
    then show ?thesis by blast
  next
    case (Cas_All h old)
    show ?thesis
    proof (cases "all_pages m = old \<and> \<not> spurious")
      case True
      then have pc: "pc = Got (Some (h + HEADER_SIZE))" "m' = m\<lparr>all_pages := Some h\<rparr>" using step Cas_All by auto
      have me: "pushed_by pcs i h" using i Cas_All by (simp add: pushed_by_def)
      then have out: "h \<notin> set ps" "\<And>j. pushed_by pcs j h \<Longrightarrow> j = i" using ok unfolding all_pages_ok_def by blast+
      have "any_links m h = Some (all_pages m)" using ok i Cas_All True by (auto simp: all_pages_ok_def cas_ready_def)
      moreover have "links (any_links m) (all_pages m) ps" using ok by (simp only: all_pages_ok_def)
      ultimately have "links (any_links m) (Some h) (h # ps)"
        unfolding links.simps by (intro conjI exI [of _ "all_pages m"] refl)
      then have "links (any_links m') (all_pages m') (h # ps)" by (simp add: pc(2) del: links.simps)
      moreover have pb: "pushed_by (pcs[i := pc]) j h' \<longleftrightarrow> pushed_by pcs j h' \<and> j \<noteq> i" for j h'
        by (simp add: pushed_by_update [OF i] pc(1))
      have only: "pushed_by pcs i h' \<longleftrightarrow> h' = h" for h' using i Cas_All by (auto simp: pushed_by_def)
      have hm: "headers m' = headers m" by (simp add: pc(2))
      have dom: "dom (headers m) = set ps \<union> {h. \<exists>i. pushed_by pcs i h}" using ok by (simp only: all_pages_ok_def)
      have "dom (headers m') = set (h # ps) \<union> {h'. \<exists>j. pushed_by (pcs[i := pc]) j h'}"
        unfolding pb hm dom using only by auto
      moreover have "h' \<notin> set (h # ps)" if "pushed_by (pcs[i := pc]) j h'" for j h'
        using ok out(2) that unfolding all_pages_ok_def pb by auto
      moreover have "j = j'" if "pushed_by (pcs[i := pc]) j h'" "pushed_by (pcs[i := pc]) j' h'" for j j' h'
        using ok that unfolding all_pages_ok_def pb by blast
      moreover have "cas_ready (any_links m') (pcs[i := pc])"
        by (rule cas_ready_update [of "any_links m"]) (use ok pc in \<open>auto simp: all_pages_ok_def\<close>)
      moreover have "distinct (h # ps)" using ok out(1) by (simp add: all_pages_ok_def)
      ultimately have "all_pages_ok m' (pcs[i := pc]) (h # ps)"
        unfolding all_pages_ok_def by blast
      then show ?thesis by blast
    next
      case False
      then show ?thesis using step Cas_All by (intro frame) auto
    qed
  next
    case (Reset_Next h)
    then show ?thesis using step any_links_free by (intro frame) (auto simp: write_header_def split: Option.bind_splits)
  next
    case (Free_Set h old)
    then show ?thesis using step any_links_free by (intro frame) (auto simp: write_header_def split: Option.bind_splits)
  qed (use step in \<open>intro frame; auto split: option.splits if_splits Option.bind_splits\<close>)+
qed

lemma all_pages_idle:
  assumes "all_pages_ok m pcs ps" "i < length pcs" "pushing pc = None" "pushing (pcs ! i) = None"
  shows "all_pages_ok m (pcs[i := pc]) ps"
  by (rule all_pages_frame [OF assms(1,2)]) (use assms(3,4) in auto)

lemma idle_pushing: "is_idle pc \<Longrightarrow> pushing pc = None"
  by (cases pc) auto

lemma system_all_pages:
  assumes "page_system_run as \<sigma> = Some \<sigma>'" "all_pages_ok (pages \<sigma>) (page_pcs \<sigma>) ps"
  shows "\<exists>ps'. all_pages_ok (pages \<sigma>') (page_pcs \<sigma>') ps'"
  using assms
proof (induction as arbitrary: \<sigma> ps)
  case (Cons a as)
  then obtain \<sigma>1 where \<sigma>1: "page_system_step a \<sigma> = Some \<sigma>1" "page_system_run as \<sigma>1 = Some \<sigma>'"
    by (auto split: Option.bind_splits)
  have "\<exists>ps1. all_pages_ok (pages \<sigma>1) (page_pcs \<sigma>1) ps1"
  proof (cases a)
    case (Alloc i)
    then show ?thesis
      using \<sigma>1(1) all_pages_idle [OF Cons.prems(2), of i page_allocator_alloc] idle_pushing
      by (auto simp: page_system_step_def page_allocator_alloc_def split: if_splits)
  next
    case (Free i ptr)
    then show ?thesis
      using \<sigma>1(1) all_pages_idle [OF Cons.prems(2), of i "page_allocator_free ptr"] idle_pushing
      by (auto simp: page_system_step_def page_allocator_free_def split: if_splits)
  next
    case (Step i spurious mapped)
    then obtain pc m where s: "i < length (page_pcs \<sigma>)" "page_step spurious mapped (page_pcs \<sigma> ! i) (pages \<sigma>) = Some (pc, m)"
        "pages \<sigma>1 = m" "page_pcs \<sigma>1 = (page_pcs \<sigma>)[i := pc]"
      using \<sigma>1(1) by (auto simp: page_system_step_def split: if_splits Option.bind_splits)
    from page_step_all_pages [OF Cons.prems(2) s(1,2)] s(3,4) show ?thesis by simp
  qed
  then show ?case using Cons.IH \<sigma>1(2) by blast
qed auto

text \<open>
  C33: in every interleaving of any number of threads, even one in which a page was given out twice, the list of all pages stays a list
  of all pages that were mapped, once each: when every call has returned, \<open>page_allocator_destroy\<close> unmaps each of
  them exactly once.
\<close>

theorem pages_unmapped_once:
  assumes "page_system_run as (page_system_start sz n) = Some \<sigma>" "\<forall>pc \<in> set (page_pcs \<sigma>). is_idle pc"
  shows "\<exists>ps. page_allocator_destroy (pages \<sigma>) = Some ps \<and> distinct ps \<and> set ps = dom (headers (pages \<sigma>))"
proof -
  have "all_pages_ok (pages (page_system_start sz n)) (page_pcs (page_system_start sz n)) []"
    by (auto simp: all_pages_ok_def page_system_start_def page_allocator_create_def pushed_by_def cas_ready_def)
  then obtain ps where ps: "all_pages_ok (pages \<sigma>) (page_pcs \<sigma>) ps" using system_all_pages [OF assms(1)] by blast
  have "\<not> pushed_by (page_pcs \<sigma>) i h" for i h
    using assms(2) idle_pushing by (auto simp: pushed_by_def)
  then have "set ps = dom (headers (pages \<sigma>))" using ps by (simp add: all_pages_ok_def)
  then show ?thesis
    using ps unmap_links by (auto simp: all_pages_ok_def page_allocator_destroy_def)
qed

theorem pages_unmapped_once_witness:
  "\<exists>\<sigma> ps. page_system_run (two_pages_freed @ aba_run 0 1 8192) (page_system_start 4096 2) = Some \<sigma> \<and> page_allocator_destroy (pages \<sigma>) = Some ps \<and> distinct ps"
proof -
  have "\<exists>\<sigma>. page_system_run (two_pages_freed @ aba_run 0 1 8192) (page_system_start 4096 2) = Some \<sigma> \<and> page_pcs \<sigma> = [Got (Some 4112), Freed]"
    by (simp add: two_pages_freed_def aba_run_def step_times_def page_system_start_def page_allocator_create_def page_system_step_def
        page_allocator_alloc_def page_allocator_free_def read_header_def write_header_def HEADER_SIZE_def nth_list_update upt_rec numeral_2_eq_2)
  then obtain \<sigma> where \<sigma>: "page_system_run (two_pages_freed @ aba_run 0 1 8192) (page_system_start 4096 2) = Some \<sigma>" "page_pcs \<sigma> = [Got (Some 4112), Freed]"
    by blast
  then show ?thesis using pages_unmapped_once [OF \<sigma>(1)] by auto
qed

end
