(* ===== verification/Sha256_X4X2.thy ===== *)
theory Sha256_X4X2
  imports Sha256_X4
begin

text \<open>
  The eight-lane hash functions of \<open>src/sha256/x4x2\<close>: a 256-bit AVX register is two SSE registers, and what AVX lacks
  (integer operations) is done on the two halves. Each function is two four-lane computations side by side; the halves are
  compared with \<open>V4\<close> and \<open>R4\<close> of \<open>X4_Schedule\<close>.
\<close>

section \<open>Registers and intrinsics\<close>

text \<open>A pair of variables \<open>xl\<close>, \<open>xu\<close> of the code is one value \<open>FUSE xl xu\<close> here, and a statement done for both is one statement.\<close>

datatype m256 = FUSE (LOWER: m128) (UPPER: m128)

fun half1 :: "(m128 \<Rightarrow> m128) \<Rightarrow> m256 \<Rightarrow> m256" where
  "half1 f (FUSE l u) = FUSE (f l) (f u)"

fun half2 :: "(m128 \<Rightarrow> m128 \<Rightarrow> m128) \<Rightarrow> m256 \<Rightarrow> m256 \<Rightarrow> m256" where
  "half2 f (FUSE l u) (FUSE l' u') = FUSE (f l l') (f u u')"

definition mm256_and_ps :: "m256 \<Rightarrow> m256 \<Rightarrow> m256" where "mm256_and_ps = half2 mm_and"
definition mm256_andnot_ps :: "m256 \<Rightarrow> m256 \<Rightarrow> m256" where "mm256_andnot_ps = half2 mm_andnot"
definition mm256_xor_ps :: "m256 \<Rightarrow> m256 \<Rightarrow> m256" where "mm256_xor_ps = half2 mm_xor"
definition mm256_unpacklo_ps :: "m256 \<Rightarrow> m256 \<Rightarrow> m256" where "mm256_unpacklo_ps = half2 mm_unpacklo_epi32"
definition mm256_unpackhi_ps :: "m256 \<Rightarrow> m256 \<Rightarrow> m256" where "mm256_unpackhi_ps = half2 mm_unpackhi_epi32"
definition mm256_broadcast_ps :: "m128 \<Rightarrow> m256" where "mm256_broadcast_ps x = FUSE x x"

definition mm256_permute_ps :: "m256 \<Rightarrow> nat \<Rightarrow> m256" where
  "mm256_permute_ps x imm = half1 (\<lambda>h. mm_shuffle_epi32 h imm) x"

definition mm_shuffle_ps :: "nat \<Rightarrow> m128 \<Rightarrow> m128 \<Rightarrow> m128" where
  "mm_shuffle_ps imm x y =
     (let sel = (\<lambda>i. imm div 4 ^ i mod 4)
      in M128 (lanes x ! sel 0) (lanes x ! sel 1) (lanes y ! sel 2) (lanes y ! sel 3))"

definition mm256_shuffle_ps :: "m256 \<Rightarrow> m256 \<Rightarrow> nat \<Rightarrow> m256" where
  "mm256_shuffle_ps x y imm = half2 (mm_shuffle_ps imm) x y"

text \<open>Bit \<open>i\<close> of the immediate selects the second operand for lane \<open>i\<close>.\<close>

definition mm256_blend_ps :: "m256 \<Rightarrow> m256 \<Rightarrow> nat \<Rightarrow> m256" where
  "mm256_blend_ps x y imm =
     (let sel = (\<lambda>i. (lanes (LOWER (if odd (imm div 2 ^ i) then y else x)) @
                      lanes (UPPER (if odd (imm div 2 ^ i) then y else x))) ! i)
      in FUSE (M128 (sel 0) (sel 1) (sel 2) (sel 3)) (M128 (sel 4) (sel 5) (sel 6) (sel 7)))"

section \<open>x4x2/impl\_common.h\<close>

text \<open>Its tables \<open>k\<close> and \<open>H\<close> are those of the four-lane functions.\<close>

definition byteswap_load0 :: "nat list" where
  "byteswap_load0 = [3, 2, 1, 0, 11, 10, 9, 8, 7, 6, 5, 4, 15, 14, 13, 12]"

definition byteswap_load1 :: "nat list" where
  "byteswap_load1 = [7, 6, 5, 4, 15, 14, 13, 12, 3, 2, 1, 0, 11, 10, 9, 8]"

definition m128_rotr :: "m128 \<Rightarrow> nat \<Rightarrow> m128" where
  "m128_rotr x n = mm_or (mm_srli_epi32 x n) (mm_slli_epi32 x (32 - n))"

definition m128_s0 :: "m128 \<Rightarrow> m128" where
  "m128_s0 w = (let t1 = m128_rotr w 18; t2 = mm_srli_epi32 w 3; t0 = m128_rotr w 7 in mm_xor t0 (mm_xor t1 t2))"

definition m128_s1 :: "m128 \<Rightarrow> m128" where
  "m128_s1 w = (let t1 = m128_rotr w 19; t2 = mm_srli_epi32 w 10; t0 = m128_rotr w 17 in mm_xor t0 (mm_xor t1 t2))"

definition m128_S0 :: "m128 \<Rightarrow> m128" where
  "m128_S0 a = mm_xor (m128_rotr a 2) (mm_xor (m128_rotr a 13) (m128_rotr a 22))"

definition m128_S1 :: "m128 \<Rightarrow> m128" where
  "m128_S1 e = mm_xor (m128_rotr e 6) (mm_xor (m128_rotr e 11) (m128_rotr e 25))"

definition m256_ch :: "m256 \<Rightarrow> m256 \<Rightarrow> m256 \<Rightarrow> m256" where
  "m256_ch e f g = mm256_xor_ps (mm256_and_ps e f) (mm256_andnot_ps e g)"

definition m256_maj :: "m256 \<Rightarrow> m256 \<Rightarrow> m256 \<Rightarrow> m256" where
  "m256_maj a b c = mm256_xor_ps (mm256_and_ps a b) (mm256_xor_ps (mm256_and_ps a c) (mm256_and_ps b c))"

section \<open>The functions\<close>

text \<open>Entry \<open>i\<close> of the schedule is in the elements \<open>2 * i\<close> and \<open>2 * i + 1\<close> of the array \<open>w\<close>.\<close>

definition store256 :: "nat \<Rightarrow> m256 \<Rightarrow> m128 list \<Rightarrow> m128 list" where
  "store256 i x w = w[i * 2 := LOWER x, i * 2 + 1 := UPPER x]"

definition load256 :: "m128 list \<Rightarrow> nat \<Rightarrow> m256" where
  "load256 w i = FUSE (w ! (i * 2)) (w ! (i * 2 + 1))"

abbreviation padd :: "m256 \<Rightarrow> m256 \<Rightarrow> m256" where "padd \<equiv> half2 mm_add_epi32"
abbreviation ps0 :: "m256 \<Rightarrow> m256" where "ps0 \<equiv> half1 m128_s0"
abbreviation ps1 :: "m256 \<Rightarrow> m256" where "ps1 \<equiv> half1 m128_s1"

text \<open>Lines 16 to 54: the messages.\<close>

definition interleave_x4x2 :: "u8 list \<Rightarrow> m256 \<times> m256" where
  "interleave_x4x2 data =
     (let ll0 = mm_load data 0; ll1 = mm_load data 16; lu0 = mm_load data 32; lu1 = mm_load data 48;
          hl0 = mm_shuffle_epi8 ll0 byteswap_load0; hl1 = mm_shuffle_epi8 ll1 byteswap_load0;
          hu0 = mm_shuffle_epi8 lu0 byteswap_load1; hu1 = mm_shuffle_epi8 lu1 byteswap_load1;
          h0 = FUSE hl0 hl1; h1 = FUSE hu0 hu1;
          w0 = mm256_blend_ps h0 h1 0xCC; w1 = mm256_blend_ps h0 h1 0x33
      in (w0, w1))"

definition x4x2_words :: "m128 list \<Rightarrow> u8 list \<Rightarrow> m128 list \<times> m256 \<times> m256" where
  "x4x2_words w data =
     (let (w0, w1) = interleave_x4x2 data;
          w = store256 0 w0 w;
          w = store256 1 w1 w;
          t0 = w0; t1 = w1;
          c80 = x80000000; c64 = d64;
          w = for_loop 3 15 (\<lambda>i. store256 i (FUSE (mm_set1_epi32 0) (mm_set1_epi32 0))) w;
          w = store256 2 (FUSE c80 c80) w;
          w = store256 15 (FUSE c64 c64) w
      in (w, t0, t1))"

text \<open>Lines 56 to 209: the entries 16 to 31.\<close>

definition x4x2_entries :: "m128 list \<times> m256 \<times> m256 \<Rightarrow> m128 list \<times> m256 \<times> m256" where
  "x4x2_entries = (\<lambda>(w, t0, t1).
     let c80 = FUSE x80000000 x80000000; c64 = FUSE d64 d64;
         w16 = padd t0 (ps0 t1);
         w = store256 16 w16 w; t0 = w16;
         w17 = padd t1 (padd (ps0 c80) (ps1 c64));
         w = store256 17 w17 w; t1 = w17;
         w18 = padd c80 (ps1 t0);
         w = store256 18 w18 w; t0 = w18;
         w19 = ps1 t1;
         w = store256 19 w19 w; t1 = w19;
         w20 = ps1 t0;
         w = store256 20 w20 w; t0 = w20;
         w21 = ps1 t1;
         w = store256 21 w21 w; t1 = w21;
         w22 = padd c64 (ps1 t0);
         w = store256 22 w22 w; t0 = w22;
         l0 = load256 w 16; l1 = load256 w 17;
         l = l0;
         w23 = padd l (ps1 t1);
         w = store256 23 w23 w; t1 = w23; l0 = load256 w 18;
         l = l1;
         w24 = padd l (ps1 t0);
         w = store256 24 w24 w; t0 = w24; l1 = load256 w 19;
         l = l0;
         w25 = padd l (ps1 t1);
         w = store256 25 w25 w; t1 = w25; l0 = load256 w 20;
         l = l1;
         w26 = padd l (ps1 t0);
         w = store256 26 w26 w; t0 = w26; l1 = load256 w 21;
         l = l0;
         w27 = padd l (ps1 t1);
         w = store256 27 w27 w; t1 = w27; l0 = load256 w 22;
         l = l1;
         w28 = padd l (ps1 t0);
         w = store256 28 w28 w; t0 = w28; l1 = load256 w 23;
         l = l0;
         w29 = padd l (ps1 t1);
         w = store256 29 w29 w; t1 = w29; l0 = load256 w 24;
         l = l1;
         w30 = padd (ps0 c64) (padd l (ps1 t0));
         w = store256 30 w30 w; t0 = w30; l1 = load256 w 16;
         l = l0;
         w31 = padd (padd l (ps1 t1)) (padd c64 (ps0 l1));
         w = store256 31 w31 w; t1 = w31
     in (w, t0, t1))"

type_synonym regs8 = "m256 \<times> m256 \<times> m256 \<times> m256 \<times> m256 \<times> m256 \<times> m256 \<times> m256"

definition initial_x4x2 :: regs8 where
  "initial_x4x2 =
     (let h0 = mm256_broadcast_ps (mm_load32 H_x4 0); h1 = mm256_broadcast_ps (mm_load32 H_x4 4);
          a = mm256_permute_ps h0 0x00; b = mm256_permute_ps h0 0x55;
          c = mm256_permute_ps h0 0xAA; d = mm256_permute_ps h0 0xFF;
          e = mm256_permute_ps h1 0x00; f = mm256_permute_ps h1 0x55;
          g = mm256_permute_ps h1 0xAA; h = mm256_permute_ps h1 0xFF
      in (a, b, c, d, e, f, g, h))"

fun x4x2_round :: "m256 \<Rightarrow> nat \<Rightarrow> regs8 \<Rightarrow> regs8" where
  "x4x2_round wi i (a, b, c, d, e, f, g, h) =
     (let ki = FUSE (broadcast_k i) (broadcast_k i);
          maj = m256_maj a b c; ch = m256_ch e f g;
          temp2 = padd (half1 m128_S0 a) maj;
          temp1 = padd (padd (half1 m128_S1 e) ch) (padd h (padd ki wi));
          h = g; g = f; f = e; e = padd d temp1; d = c; c = b; b = a; a = padd temp1 temp2
      in (a, b, c, d, e, f, g, h))"

definition x4x2_entry_step :: "nat \<Rightarrow> m128 list \<times> m256 \<times> m256 \<Rightarrow> m128 list \<times> m256 \<times> m256" where
  "x4x2_entry_step i = (\<lambda>(w, t0, t1).
     let wi16 = load256 w (i - 16); wi15 = load256 w (i - 15); wi7 = load256 w (i - 7); wi2 = t0;
         t0 = t1;
         ws1 = ps1 wi2; ws0 = ps0 wi15;
         wi = padd (padd wi16 wi7) (padd ws0 ws1);
         w = store256 i wi w;
         t1 = wi
     in (w, t0, t1))"

text \<open>The result: \<open>mm_store x off\<close> writes sixteen bytes at \<open>off\<close>.\<close>

definition mm_store :: "m128 \<Rightarrow> nat \<Rightarrow> u8 list \<Rightarrow> u8 list" where
  "mm_store x off hash = take off hash @ m128_bytes x @ drop (off + 16) hash"

definition store_x4x2 :: "regs8 \<Rightarrow> u8 list \<Rightarrow> u8 list" where
  "store_x4x2 = (\<lambda>(a, b, c, d, e, f, g, h) hash.
      let tmp00 = mm256_unpacklo_ps a b; tmp01 = mm256_unpackhi_ps a b;
          tmp02 = mm256_unpacklo_ps c d; tmp03 = mm256_unpackhi_ps c d;
          tmp10 = mm256_unpacklo_ps e f; tmp11 = mm256_unpackhi_ps e f;
          tmp12 = mm256_unpacklo_ps g h; tmp13 = mm256_unpackhi_ps g h;
          r0 = mm256_shuffle_ps tmp00 tmp02 0x44; r1 = mm256_shuffle_ps tmp00 tmp02 0xEE;
          r2 = mm256_shuffle_ps tmp01 tmp03 0x44; r3 = mm256_shuffle_ps tmp01 tmp03 0xEE;
          r4 = mm256_shuffle_ps tmp10 tmp12 0x44; r5 = mm256_shuffle_ps tmp10 tmp12 0xEE;
          r6 = mm256_shuffle_ps tmp11 tmp13 0x44; r7 = mm256_shuffle_ps tmp11 tmp13 0xEE;
          hash = mm_store (UPPER r0) 64 hash; hash = mm_store (LOWER r0) 0 hash;
          hash = mm_store (UPPER r4) 80 hash; hash = mm_store (LOWER r4) 16 hash;
          hash = mm_store (UPPER r1) 96 hash; hash = mm_store (LOWER r1) 32 hash;
          hash = mm_store (UPPER r5) 112 hash; hash = mm_store (LOWER r5) 48 hash;
          hash = mm_store (UPPER r2) 192 hash; hash = mm_store (LOWER r2) 128 hash;
          hash = mm_store (UPPER r6) 208 hash; hash = mm_store (LOWER r6) 144 hash;
          hash = mm_store (UPPER r3) 224 hash; hash = mm_store (LOWER r3) 160 hash;
          hash = mm_store (UPPER r7) 240 hash; hash = mm_store (LOWER r7) 176 hash
      in hash)"

text \<open>\<open>w\<close> and \<open>hash\<close> are the arrays as they are found, the latter the result's.\<close>

definition optim_x4x2_schedule :: "m128 list \<Rightarrow> u8 list \<Rightarrow> m128 list \<times> m256 \<times> m256" where
  "optim_x4x2_schedule w data = for_loop 32 64 x4x2_entry_step (x4x2_entries (x4x2_words w data))"

definition rounds_x4x2 :: "m128 list \<Rightarrow> nat \<Rightarrow> regs8 \<Rightarrow> regs8" where
  "rounds_x4x2 w n r = for_loop 0 n (\<lambda>i. x4x2_round (load256 w i) i) r"

definition sha256x4x2_optim :: "m128 list \<Rightarrow> u8 list \<Rightarrow> u8 list \<Rightarrow> u8 list" where
  "sha256x4x2_optim w hash data =
     (let (w, t0, t1) = optim_x4x2_schedule w data;
          r = rounds_x4x2 w 64 initial_x4x2
      in store_x4x2 r hash)"

definition x4x2_fused_step :: "nat \<Rightarrow> (m128 list \<times> m256 \<times> m256) \<times> regs8 \<Rightarrow> (m128 list \<times> m256 \<times> m256) \<times> regs8" where
  "x4x2_fused_step i = (\<lambda>(st, r).
     let (w, t0, t1) = x4x2_entry_step i st
     in ((w, t0, t1), x4x2_round t1 i r))"

definition sha256x4x2_fused :: "m128 list \<Rightarrow> u8 list \<Rightarrow> u8 list \<Rightarrow> u8 list" where
  "sha256x4x2_fused w hash data =
     (let (w, t0, t1) = x4x2_entries (x4x2_words w data);
          r = rounds_x4x2 w 32 initial_x4x2;
          (st, r) = for_loop 32 64 x4x2_fused_step ((w, t0, t1), r)
      in store_x4x2 r hash)"

section \<open>Two four-lane computations\<close>

text \<open>\<open>P\<close> and \<open>Q\<close> are the first and the second word in each of the eight lanes.\<close>

definition V8 :: "(nat \<Rightarrow> u32) \<Rightarrow> (nat \<Rightarrow> u32) \<Rightarrow> nat \<Rightarrow> m256" where
  "V8 P Q j = FUSE (V4 P Q j) (V4 (\<lambda>l. P (l + 4)) (\<lambda>l. Q (l + 4)) j)"

fun fuse_regs :: "regs4 \<Rightarrow> regs4 \<Rightarrow> regs8" where
  "fuse_regs (a, b, c, d, e, f, g, h) (a', b', c', d', e', f', g', h') =
     (FUSE a a', FUSE b b', FUSE c c', FUSE d d', FUSE e e', FUSE f f', FUSE g g', FUSE h h')"

definition R8 :: "(nat \<Rightarrow> u32) \<Rightarrow> (nat \<Rightarrow> u32) \<Rightarrow> nat \<Rightarrow> regs8" where
  "R8 P Q n = fuse_regs (R4 P Q n) (R4 (\<lambda>l. P (l + 4)) (\<lambda>l. Q (l + 4)) n)"

lemma functions_x4:
  "m128_rotr = rotr_x4" "m128_s0 = s0_x4" "m128_s1 = s1_x4" "m128_S0 = S0_x4" "m128_S1 = S1_x4"
  by (simp_all add: fun_eq_iff m128_rotr_def rotr_x4_def m128_s0_def s0_x4_def m128_s1_def s1_x4_def
      m128_S0_def S0_x4_def m128_S1_def S1_x4_def)

lemma functions_fuse:
  "m256_ch (FUSE e e') (FUSE f f') (FUSE g g') = FUSE (ch_x4 e f g) (ch_x4 e' f' g')"
  "m256_maj (FUSE e e') (FUSE f f') (FUSE g g') = FUSE (maj_x4 e f g) (maj_x4 e' f' g')"
  by (simp_all add: m256_ch_def m256_maj_def ch_x4_def maj_x4_def mm256_xor_ps_def mm256_and_ps_def mm256_andnot_ps_def)

lemma x4x2_round_fuse:
  "x4x2_round (FUSE w w') i (fuse_regs r r') = fuse_regs (compress_round w i r) (compress_round w' i r')"
proof (cases "(r, r')" rule: fuse_regs.cases)
  case 1
  then show ?thesis by (simp add: functions_fuse functions_x4 Let_def)
qed

lemma x4x2_round_V8 [simp]: "x4x2_round (V8 P Q n) n (R8 P Q n) = R8 P Q (Suc n)"
  by (simp add: V8_def R8_def x4x2_round_fuse)

lemma initial_x4x2_R8: "initial_x4x2 = R8 P Q 0"
  by (simp add: R8_def initial_x4_R4 [symmetric] initial_x4_def initial_x4x2_def Let_def
      mm256_broadcast_ps_def mm256_permute_ps_def)

lemma V8_constants: "FUSE x80000000 x80000000 = V8 P Q 2" "FUSE d64 d64 = V8 P Q 15"
  unfolding V8_def by (simp_all flip: V4_constants)

lemma V8_entries:
  "padd (V8 P Q 0) (ps0 (V8 P Q (Suc 0))) = V8 P Q 16"
  "padd (V8 P Q (Suc 0)) (padd (ps0 (V8 P Q 2)) (ps1 (V8 P Q 15))) = V8 P Q 17"
  "padd (V8 P Q 2) (ps1 (V8 P Q 16)) = V8 P Q 18"
  "ps1 (V8 P Q 17) = V8 P Q 19" "ps1 (V8 P Q 18) = V8 P Q 20" "ps1 (V8 P Q 19) = V8 P Q 21"
  "padd (V8 P Q 15) (ps1 (V8 P Q 20)) = V8 P Q 22"
  "padd (V8 P Q 16) (ps1 (V8 P Q 21)) = V8 P Q 23"
  "padd (V8 P Q 17) (ps1 (V8 P Q 22)) = V8 P Q 24"
  "padd (V8 P Q 18) (ps1 (V8 P Q 23)) = V8 P Q 25"
  "padd (V8 P Q 19) (ps1 (V8 P Q 24)) = V8 P Q 26"
  "padd (V8 P Q 20) (ps1 (V8 P Q 25)) = V8 P Q 27"
  "padd (V8 P Q 21) (ps1 (V8 P Q 26)) = V8 P Q 28"
  "padd (V8 P Q 22) (ps1 (V8 P Q 27)) = V8 P Q 29"
  "padd (ps0 (V8 P Q 15)) (padd (V8 P Q 23) (ps1 (V8 P Q 28))) = V8 P Q 30"
  "padd (padd (V8 P Q 24) (ps1 (V8 P Q 29))) (padd (V8 P Q 15) (ps0 (V8 P Q 16))) = V8 P Q 31"
  by (simp_all add: V8_def functions_x4 V4_entries)

lemma V8_step:
  "32 \<le> i \<Longrightarrow> i < 64 \<Longrightarrow>
     padd (padd (V8 P Q (i - 16)) (V8 P Q (i - 7))) (padd (ps0 (V8 P Q (i - 15))) (ps1 (V8 P Q (i - 2)))) = V8 P Q i"
  by (simp add: V8_def functions_x4 V4_step)

section \<open>The array of entries\<close>

definition x4x2_ok :: "(nat \<Rightarrow> u32) \<Rightarrow> (nat \<Rightarrow> u32) \<Rightarrow> nat \<Rightarrow> m128 list \<Rightarrow> bool" where
  "x4x2_ok P Q n w \<longleftrightarrow> length w = 128 \<and> (\<forall>j<n. load256 w j = V8 P Q j)"

lemma length_store256 [simp]: "length (store256 i x w) = length w"
  by (simp add: store256_def)

lemma load_store256: "length w = 128 \<Longrightarrow> i < 64 \<Longrightarrow> load256 (store256 i x w) j = (if j = i then x else load256 w j)"
  by (cases x) (auto simp: load256_def store256_def nth_list_update; presburger)

lemma x4x2_ok_put: "n < 64 \<Longrightarrow> x4x2_ok P Q n w \<Longrightarrow> x4x2_ok P Q (Suc n) (store256 n (V8 P Q n) w)"
  by (auto simp: x4x2_ok_def load_store256 less_Suc_eq)

lemma x4x2_ok_ld: "x4x2_ok P Q n w \<Longrightarrow> j < n \<Longrightarrow> load256 w j = V8 P Q j"
  by (simp add: x4x2_ok_def)

definition x4x2_filled :: "(nat \<Rightarrow> u32) \<Rightarrow> (nat \<Rightarrow> u32) \<Rightarrow> nat \<Rightarrow> m128 list \<Rightarrow> m128 list" where
  "x4x2_filled P Q n w = fold (\<lambda>j. store256 j (V8 P Q j)) [16..<n] w"

lemma x4x2_filled_16: "x4x2_filled P Q 16 w = w"
  by (simp add: x4x2_filled_def)

lemma x4x2_filled_put: "16 \<le> n \<Longrightarrow> store256 n (V8 P Q n) (x4x2_filled P Q n w) = x4x2_filled P Q (Suc n) w"
  by (simp add: x4x2_filled_def)

lemma x4x2_filled_ok: "16 \<le> n \<Longrightarrow> n \<le> 64 \<Longrightarrow> x4x2_ok P Q 16 w \<Longrightarrow> x4x2_ok P Q n (x4x2_filled P Q n w)"
proof (induction rule: dec_induct)
  case (step n)
  then show ?case using x4x2_ok_put [of n P Q "x4x2_filled P Q n w"] by (simp add: x4x2_filled_put)
qed (simp add: x4x2_filled_16)

lemma x4x2_filled_ld: "x4x2_ok P Q 16 w \<Longrightarrow> j < n \<Longrightarrow> 16 \<le> n \<Longrightarrow> n \<le> 64 \<Longrightarrow> load256 (x4x2_filled P Q n w) j = V8 P Q j"
  by (rule x4x2_ok_ld [OF x4x2_filled_ok])

lemma x4x2_entries_filled:
  assumes "x4x2_ok P Q 16 w"
  shows "x4x2_entries (w, V8 P Q 0, V8 P Q 1) = (x4x2_filled P Q 32 w, V8 P Q 30, V8 P Q 31)"
proof -
  have "x4x2_entries (x4x2_filled P Q 16 w, V8 P Q 0, V8 P Q 1) = (x4x2_filled P Q 32 w, V8 P Q 30, V8 P Q 31)"
    by (simp add: x4x2_entries_def Let_def V8_constants [of P Q] V8_entries x4x2_filled_put x4x2_filled_ld [OF assms])
  then show ?thesis by (simp add: x4x2_filled_16)
qed

lemma x4x2_entry_step_ok:
  assumes "x4x2_ok P Q i w" "32 \<le> i" "i < 64"
  shows "x4x2_entry_step i (w, V8 P Q (i - 2), V8 P Q (i - 1)) = (store256 i (V8 P Q i) w, V8 P Q (i - 1), V8 P Q i) \<and>
    x4x2_ok P Q (Suc i) (store256 i (V8 P Q i) w)"
  using assms by (simp add: x4x2_entry_step_def Let_def x4x2_ok_ld V8_step x4x2_ok_put)

lemma x4x2_rounds:
  assumes "x4x2_ok P Q n w" "m \<le> n"
  shows "rounds_x4x2 w m (R8 P Q 0) = R8 P Q m"
  unfolding rounds_x4x2_def
proof (rule for_loop_invariant [where P = "\<lambda>i r. r = R8 P Q i"])
  fix i r assume "i < m" "r = R8 P Q i"
  then show "x4x2_round (load256 w i) i r = R8 P Q (Suc i)" using assms by (simp add: x4x2_ok_ld)
qed simp_all

section \<open>Which word goes to which lane\<close>

definition lane_message :: "nat \<Rightarrow> nat" where
  "lane_message l = [0, 1, 4, 5, 2, 3, 6, 7] ! l"

definition X4X2_P :: "u8 list \<Rightarrow> nat \<Rightarrow> u32" where
  "X4X2_P data l = lane_w0 data (lane_message l)"

definition X4X2_Q :: "u8 list \<Rightarrow> nat \<Rightarrow> u32" where
  "X4X2_Q data l = lane_w1 data ((lane_message l + 4) mod 8)"

lemma load_lanes:
  "mm_shuffle_epi8 (M128 a b c d) byteswap_load0 = M128 (bswap32 a) (bswap32 c) (bswap32 b) (bswap32 d)"
  "mm_shuffle_epi8 (M128 a b c d) byteswap_load1 = M128 (bswap32 b) (bswap32 d) (bswap32 a) (bswap32 c)"
  by (simp_all add: mm_shuffle_epi8_def byteswap_load0_def byteswap_load1_def m128_bytes_def le32_bytes_def mm_load_def
      load32_def bswap32_def)

lemma blend_lanes:
  "mm256_blend_ps (FUSE (M128 a0 a1 a2 a3) (M128 a4 a5 a6 a7)) (FUSE (M128 b0 b1 b2 b3) (M128 b4 b5 b6 b7)) 0xCC =
     FUSE (M128 a0 a1 b2 b3) (M128 a4 a5 b6 b7)"
  "mm256_blend_ps (FUSE (M128 a0 a1 a2 a3) (M128 a4 a5 a6 a7)) (FUSE (M128 b0 b1 b2 b3) (M128 b4 b5 b6 b7)) 0x33 =
     FUSE (M128 b0 b1 a2 a3) (M128 b4 b5 a6 a7)"
  by (simp_all add: mm256_blend_ps_def Let_def del: One_nat_def)

lemma interleave_x4x2_V8:
  assumes "length data = 64"
  shows "interleave_x4x2 data = (V8 (X4X2_P data) (X4X2_Q data) 0, V8 (X4X2_P data) (X4X2_Q data) 1)"
  using assms
  by (simp add: interleave_x4x2_def mm_load_def load_lanes Let_def V8_def V4_def vec4_def blend_lanes
      X4X2_P_def X4X2_Q_def lane_message_def lane_w0_def lane_w1_def data_w0_def data_w1_def load32_def add.commute)

lemma x4x2_words_ok:
  assumes "length data = 64" "length w = 128"
  shows "\<exists>w'. x4x2_words w data = (w', V8 (X4X2_P data) (X4X2_Q data) 0, V8 (X4X2_P data) (X4X2_Q data) 1) \<and>
    x4x2_ok (X4X2_P data) (X4X2_Q data) 16 w'"
proof -
  let ?V = "V8 (X4X2_P data) (X4X2_Q data)"
  let ?o = "FUSE (mm_set1_epi32 0) (mm_set1_epi32 0)"
  let ?z = "for_loop 3 15 (\<lambda>i. store256 i ?o) (store256 1 (?V 1) (store256 0 (?V 0) w))"
  have zero: "?V j = ?o" if "3 \<le> j" "j < 15" for j
    using that by (simp add: V8_def V4_def W8_zero lane_wise)
  have z: "length ?z = 128 \<and> (\<forall>j<15. j \<noteq> 2 \<longrightarrow> load256 ?z j = ?V j)"
    by (rule for_loop_invariant [where P = "\<lambda>n w. length w = 128 \<and> (\<forall>j<n. j \<noteq> 2 \<longrightarrow> load256 w j = ?V j)"])
      (use assms zero in \<open>auto simp: load_store256 less_Suc_eq numeral_3_eq_3\<close>)
  have "x4x2_ok (X4X2_P data) (X4X2_Q data) 16 (store256 15 (?V 15) (store256 2 (?V 2) ?z))"
    unfolding x4x2_ok_def
  proof (intro conjI allI impI)
    fix j :: nat assume "j < 16"
    then consider "j = 2" | "j = 15" | "j < 15" "j \<noteq> 2" by linarith
    then show "load256 (store256 15 (?V 15) (store256 2 (?V 2) ?z)) j = ?V j"
      by cases (use z in \<open>simp_all add: load_store256\<close>)
  qed (use z in simp)
  then show ?thesis
    by (auto simp: x4x2_words_def interleave_x4x2_V8 [OF assms(1)] Let_def V8_constants [of "X4X2_P data" "X4X2_Q data"])
qed

section \<open>The result\<close>

lemma length_m128_bytes [simp]: "length (m128_bytes x) = 16"
  by (cases x) (simp add: m128_bytes_def le32_bytes_def)

definition rows :: "u8 list list \<Rightarrow> bool" where
  "rows bs \<longleftrightarrow> length bs = 16 \<and> (\<forall>b \<in> set bs. length b = 16)"

lemma rows_of:
  assumes "length hash = 256"
  obtains bs where "rows bs" "hash = concat bs"
proof
  let ?bs = "map (\<lambda>k. take 16 (drop (16 * k) hash)) [0..<16]"
  have "concat (map (\<lambda>k. take 16 (drop (16 * k) hash)) [0..<n]) = take (16 * n) hash" if "16 * n \<le> length hash" for n
    using that by (induction n) (auto simp: take_add [symmetric] add.commute)
  from this [of 16] show "hash = concat ?bs" using assms by simp
  show "rows ?bs" using assms by (auto simp: rows_def)
qed

lemma take_concat_rows: "\<forall>b \<in> set bs. length b = n \<Longrightarrow> take (n * k) (concat bs) = concat (take k bs)"
proof (induction bs arbitrary: k)
  case (Cons b bs)
  then show ?case by (cases k) simp_all
qed simp

lemma mm_store_row:
  assumes "rows bs" "k < 16"
  shows "mm_store x (16 * k) (concat bs) = concat (bs[k := m128_bytes x]) \<and> rows (bs[k := m128_bytes x])"
proof
  have "mm_store x (16 * k) (concat bs) = concat (take k bs) @ m128_bytes x @ concat (drop (Suc k) bs)"
    using assms take_concat_rows [of bs 16 k] drop_concat_uniform [of bs 16 k] drop_concat_uniform [of bs 16 "Suc k"]
    by (simp add: mm_store_def rows_def add.commute)
  also have "\<dots> = concat (bs[k := m128_bytes x])"
    using assms by (simp add: upd_conv_take_nth_drop rows_def)
  finally show "mm_store x (16 * k) (concat bs) = concat (bs[k := m128_bytes x])" .
  show "rows (bs[k := m128_bytes x])"
    using assms set_update_subset_insert [of bs k "m128_bytes x"] by (auto simp: rows_def)
qed

lemma mm_stores_rows:
  assumes "rows bs" "\<forall>(x, k) \<in> set ps. k < 16"
  shows "fold (\<lambda>(x, k). mm_store x (16 * k)) ps (concat bs) = concat (fold (\<lambda>(x, k) bs. bs[k := m128_bytes x]) ps bs)"
  using assms
proof (induction ps arbitrary: bs)
  case (Cons p ps)
  then show ?case using mm_store_row [of bs "snd p" "fst p"] by (cases p) auto
qed simp

lemma rows_nth: "rows bs \<Longrightarrow> bs = map (\<lambda>k. bs ! k) [0..<16]"
  using map_nth [of bs] by (simp add: rows_def)

lemma rows_update: "(map f [0..<n])[k := x] = map (f(k := x)) [0..<n]"
  by (rule nth_equalityI) (auto simp: nth_list_update)

text \<open>The half transposed: lane \<open>l\<close> of the eight registers, as the two registers that hold its digest.\<close>

lemma shuffle_rows:
  "mm_shuffle_ps 0x44 (mm_unpacklo_epi32 (vec4 a) (vec4 b)) (mm_unpacklo_epi32 (vec4 c) (vec4 d)) = M128 (a 0) (b 0) (c 0) (d 0)"
  "mm_shuffle_ps 0xEE (mm_unpacklo_epi32 (vec4 a) (vec4 b)) (mm_unpacklo_epi32 (vec4 c) (vec4 d)) = M128 (a 1) (b 1) (c 1) (d 1)"
  "mm_shuffle_ps 0x44 (mm_unpackhi_epi32 (vec4 a) (vec4 b)) (mm_unpackhi_epi32 (vec4 c) (vec4 d)) = M128 (a 2) (b 2) (c 2) (d 2)"
  "mm_shuffle_ps 0xEE (mm_unpackhi_epi32 (vec4 a) (vec4 b)) (mm_unpackhi_epi32 (vec4 c) (vec4 d)) = M128 (a 3) (b 3) (c 3) (d 3)"
  by (simp_all add: mm_shuffle_ps_def vec4_def Let_def del: One_nat_def)

lemma store_x4x2_rows:
  assumes "length hash = 256"
  shows "store_x4x2 (fuse_regs (vregs R) (vregs S)) hash =
    concat (map store_digest [R 0, R 1, S 0, S 1, R 2, R 3, S 2, S 3])"
proof -
  obtain bs where bs: "rows bs" "hash = concat bs" by (rule rows_of [OF assms])
  obtain a b c d e f g h where R: "R = (\<lambda>l. (a l, b l, c l, d l, e l, f l, g l, h l))" using regs_cases [of R] by blast
  obtain a' b' c' d' e' f' g' h' where S: "S = (\<lambda>l. (a' l, b' l, c' l, d' l, e' l, f' l, g' l, h' l))" using regs_cases [of S] by blast
  let ?x = "\<lambda>l. M128 (a l) (b l) (c l) (d l)" and ?y = "\<lambda>l. M128 (e l) (f l) (g l) (h l)"
  let ?x' = "\<lambda>l. M128 (a' l) (b' l) (c' l) (d' l)" and ?y' = "\<lambda>l. M128 (e' l) (f' l) (g' l) (h' l)"
  let ?ps = "[(?x' 0, 4), (?x 0, 0), (?y' 0, 5), (?y 0, 1), (?x' 1, 6), (?x 1, 2), (?y' 1, 7), (?y 1, 3),
    (?x' 2, 12), (?x 2, 8), (?y' 2, 13), (?y 2, 9), (?x' 3, 14), (?x 3, 10), (?y' 3, 15), (?y 3, 11 :: nat)]"
  have "store_x4x2 (fuse_regs (vregs R) (vregs S)) hash = fold (\<lambda>(x, k). mm_store x (16 * k)) ?ps hash"
    by (simp add: store_x4x2_def R S vregs_def Let_def mm256_unpacklo_ps_def mm256_unpackhi_ps_def mm256_shuffle_ps_def shuffle_rows)
  also have "\<dots> = concat (fold (\<lambda>(x, k) bs. bs[k := m128_bytes x]) ?ps bs)"
    unfolding bs(2) by (rule mm_stores_rows [OF bs(1)]) simp
  also have "\<dots> = concat (map m128_bytes [?x 0, ?y 0, ?x 1, ?y 1, ?x' 0, ?y' 0, ?x' 1, ?y' 1,
      ?x 2, ?y 2, ?x 3, ?y 3, ?x' 2, ?y' 2, ?x' 3, ?y' 3])"
    by (subst rows_nth [OF bs(1)]) (simp add: rows_update, simp add: upt_rec)
  finally show ?thesis by (simp add: R S m128_bytes_def store_digest_def)
qed

text \<open>Message \<open>m\<close> as it is hashed: its first word, with the second word of the message four places on.\<close>

definition x4x2_digest :: "u8 list \<Rightarrow> u8 list" where
  "x4x2_digest data = concat (map (\<lambda>m. store_digest (digest8 (lane_w0 data m) (lane_w1 data ((m + 4) mod 8)))) [0..<8])"

lemma store_x4x2_R8:
  assumes "length hash = 256"
  shows "store_x4x2 (R8 (X4X2_P data) (X4X2_Q data) 64) hash = x4x2_digest data"
proof -
  have up: "[0..<8] = [0, 1, 2, 3, 4, 5, 6, 7 :: nat]" by (simp add: upt_rec)
  show ?thesis
    by (simp add: R8_def R4_def store_x4x2_rows [OF assms] x4x2_digest_def up digest8_def [symmetric] X4X2_P_def X4X2_Q_def
        lane_message_def)
qed

lemma sha256x4x2_optim_digest:
  assumes "length data = 64" "length w = 128" "length hash = 256"
  shows "sha256x4x2_optim w hash data = x4x2_digest data"
proof -
  let ?P = "X4X2_P data" and ?Q = "X4X2_Q data"
  obtain w0 where w0: "x4x2_words w data = (w0, V8 ?P ?Q 0, V8 ?P ?Q 1)" "x4x2_ok ?P ?Q 16 w0"
    using x4x2_words_ok [OF assms(1,2)] by blast
  let ?inv = "\<lambda>i (w, t0, t1). x4x2_ok ?P ?Q i w \<and> t0 = V8 ?P ?Q (i - 2) \<and> t1 = V8 ?P ?Q (i - 1)"
  have "?inv 64 (for_loop 32 64 x4x2_entry_step (x4x2_entries (x4x2_words w data)))"
  proof (rule for_loop_invariant [where P = ?inv])
    show "?inv 32 (x4x2_entries (x4x2_words w data))"
      using x4x2_filled_ok [OF _ _ w0(2), of 32] by (simp add: w0(1) x4x2_entries_filled [OF w0(2), simplified])
    show "?inv (Suc i) (x4x2_entry_step i s)" if "32 \<le> i" "i < 64" "?inv i s" for i s
      using that x4x2_entry_step_ok [of ?P ?Q i "fst s"] by (cases s) auto
  qed simp
  then show ?thesis
    using x4x2_rounds [of ?P ?Q 64 _ 64] store_x4x2_R8 [OF assms(3)]
    by (auto simp: sha256x4x2_optim_def optim_x4x2_schedule_def initial_x4x2_R8 [of ?P ?Q] split: prod.splits)
qed

lemma sha256x4x2_fused_digest:
  assumes "length data = 64" "length w = 128" "length hash = 256"
  shows "sha256x4x2_fused w hash data = x4x2_digest data"
proof -
  let ?P = "X4X2_P data" and ?Q = "X4X2_Q data"
  obtain w0 where w0: "x4x2_words w data = (w0, V8 ?P ?Q 0, V8 ?P ?Q 1)" "x4x2_ok ?P ?Q 16 w0"
    using x4x2_words_ok [OF assms(1,2)] by blast
  let ?w = "x4x2_filled ?P ?Q 32 w0"
  have f: "x4x2_ok ?P ?Q 32 ?w" by (rule x4x2_filled_ok [OF _ _ w0(2)]) simp_all
  let ?inv = "\<lambda>i ((w, t0, t1), r). x4x2_ok ?P ?Q i w \<and> t0 = V8 ?P ?Q (i - 2) \<and> t1 = V8 ?P ?Q (i - 1) \<and> r = R8 ?P ?Q i"
  have "?inv 64 (for_loop 32 64 x4x2_fused_step ((?w, V8 ?P ?Q 30, V8 ?P ?Q 31), R8 ?P ?Q 32))"
  proof (rule for_loop_invariant [where P = ?inv])
    show "?inv (Suc i) (x4x2_fused_step i s)" if "32 \<le> i" "i < 64" "?inv i s" for i s
      using that x4x2_entry_step_ok [of ?P ?Q i "fst (fst s)"] by (cases s) (auto simp: x4x2_fused_step_def)
  qed (use f in simp_all)
  then show ?thesis
    using x4x2_rounds [OF f, of 32] store_x4x2_R8 [OF assms(3), of data, symmetric]
    by (auto simp: sha256x4x2_fused_def w0(1) x4x2_entries_filled [OF w0(2), simplified] initial_x4x2_R8 [of ?P ?Q] split: prod.splits)
qed

section \<open>What is hashed\<close>

text \<open>The blend puts the second words of the messages 4 to 7 into the lanes of the messages 0 to 3, and the other way round.\<close>

definition mixed_message :: "u8 list list \<Rightarrow> nat \<Rightarrow> u8 list" where
  "mixed_message msgs m = take 4 (msgs ! m) @ drop 4 (msgs ! ((m + 4) mod 8))"

lemma lane_words_concat:
  assumes "length msgs = 8" "\<forall>m \<in> set msgs. length m = 8" "i < 8"
  shows "lane_w0 (concat msgs) i = data_w0 (msgs ! i)" "lane_w1 (concat msgs) i = data_w1 (msgs ! i)"
proof -
  have "drop (8 * i) (concat msgs) = msgs ! i @ concat (drop (Suc i) msgs)"
    using assms by (simp add: drop_concat_uniform Cons_nth_drop_Suc [symmetric])
  moreover have "length (msgs ! i) = 8" using assms by simp
  ultimately show "lane_w0 (concat msgs) i = data_w0 (msgs ! i)" "lane_w1 (concat msgs) i = data_w1 (msgs ! i)"
    by (simp_all add: lane_w0_def lane_w1_def data_w0_def data_w1_def load32_def nth_append)
qed

lemma mixed_message_words:
  assumes "length msgs = 8" "\<forall>m \<in> set msgs. length m = 8" "i < 8"
  shows "data_w0 (mixed_message msgs i) = data_w0 (msgs ! i)" "data_w1 (mixed_message msgs i) = data_w1 (msgs ! ((i + 4) mod 8))"
    "length (mixed_message msgs i) = 8"
proof -
  have "length (msgs ! i) = 8" "length (msgs ! ((i + 4) mod 8)) = 8" using assms by simp_all
  then show "data_w0 (mixed_message msgs i) = data_w0 (msgs ! i)" "data_w1 (mixed_message msgs i) = data_w1 (msgs ! ((i + 4) mod 8))"
    "length (mixed_message msgs i) = 8"
    by (simp_all add: mixed_message_def data_w0_def data_w1_def load32_def nth_append)
qed

lemma x4x2_digest_mixed:
  assumes "length msgs = 8" "\<forall>m \<in> set msgs. length m = 8"
  shows "x4x2_digest (concat msgs) = concat (map (\<lambda>i. store_digest (data_digest (mixed_message msgs i))) [0..<8])"
  unfolding x4x2_digest_def data_digest_def
  by (intro arg_cong [of _ _ concat] map_cong refl) (simp add: mixed_message_words [OF assms] lane_words_concat [OF assms])

lemma length_concat_8: "length msgs = 8 \<Longrightarrow> \<forall>m \<in> set msgs. length m = 8 \<Longrightarrow> length (concat msgs) = 64"
  by (auto simp: length_Suc_conv numeral_eq_Suc)

text \<open>
  C25: both eight-lane hash functions put into row \<open>i\<close> of the result the normalised SHA-256 digest of the first half of message \<open>i\<close> followed
  by the second half of message \<open>i + 4\<close> (modulo eight), whatever their arrays held. So they compute the eight digests only of
  messages with pairwise equal second halves; of eight equal messages, as in the tests, they do.
\<close>

theorem sha256x4x2_mixes_messages:
  assumes "length msgs = 8" "\<forall>m \<in> set msgs. length m = 8" "length w = 128" "length hash = 256"
  shows "sha256x4x2_fused w hash (concat msgs) = concat (map (\<lambda>i. sha256_normalize (sha256 (mixed_message msgs i))) [0..<8]) \<and>
    sha256x4x2_optim w hash (concat msgs) = concat (map (\<lambda>i. sha256_normalize (sha256 (mixed_message msgs i))) [0..<8]) \<and>
    (\<forall>i < 8. drop 4 (msgs ! i) = drop 4 (msgs ! ((i + 4) mod 8)) \<longrightarrow> mixed_message msgs i = msgs ! i)"
proof -
  have "x4x2_digest (concat msgs) = concat (map (\<lambda>i. sha256_normalize (sha256 (mixed_message msgs i))) [0..<8])"
    unfolding x4x2_digest_mixed [OF assms(1,2)]
    by (intro arg_cong [of _ _ concat] map_cong refl) (simp add: normalize_sha256 mixed_message_words(3) [OF assms(1,2)])
  moreover have "mixed_message msgs i = msgs ! i" if "drop 4 (msgs ! i) = drop 4 (msgs ! ((i + 4) mod 8))" for i
    by (simp add: mixed_message_def flip: that)
  ultimately show ?thesis
    using assms length_concat_8 [OF assms(1,2)] by (simp add: sha256x4x2_fused_digest sha256x4x2_optim_digest)
qed

theorem sha256x4x2_mixes_messages_witness:
  "sha256x4x2_fused (replicate 128 (mm_set1_epi32 5)) (replicate 256 9) (concat (replicate 8 [1, 2, 3, 4, 5, 6, 7, 8])) =
     concat (map (\<lambda>i. sha256_normalize (sha256 (mixed_message (replicate 8 [1, 2, 3, 4, 5, 6, 7, 8]) i))) [0..<8])"
  using sha256x4x2_mixes_messages [of "replicate 8 [1, 2, 3, 4, 5, 6, 7, 8]" "replicate 128 (mm_set1_epi32 5)" "replicate 256 9"]
  by simp

section \<open>The search with the eight-lane function\<close>

lemma length_candidates [simp]: "length (candidates s n) = n"
  by (simp add: candidates_def)

lemma reverse_x4x2orx8_unfold:
  "reverse_sha256_x4x2orx8 h s stop target =
     (case matching_lane 8 (h (concat (map le64_bytes (candidates s 8)))) target of
        Some i \<Rightarrow> Some (candidates s 8 ! i)
      | None \<Rightarrow> if s + 8 \<le> stop then reverse_sha256_x4x2orx8 h (s + 8) stop target else Some 0)"
  unfolding candidates_8 reverse_sha256_x4x2orx8_def
  by (subst reverse_x4x2orx8_loop.simps) (simp add: ac_simps cong: option.case_cong)

lemma reverse_x4x2orx8_cong:
  assumes "\<And>x. s \<le> x \<Longrightarrow> x \<le> stop \<Longrightarrow> h (concat (map le64_bytes (candidates x 8))) = h' (concat (map le64_bytes (candidates x 8)))"
    and "s \<le> stop" "unat stop + 8 < 2 ^ 64"
  shows "reverse_sha256_x4x2orx8 h s stop target = reverse_sha256_x4x2orx8 h' s stop target"
  using assms(1,2)
proof (induction "unat stop - unat s" arbitrary: s rule: less_induct)
  case less
  have u: "unat (s + 8) = unat s + 8"
    using less.prems(2) assms(3) by (subst unat_add_lem [THEN iffD1]) (simp_all add: word_le_nat_alt)
  have "reverse_sha256_x4x2orx8 h (s + 8) stop target = reverse_sha256_x4x2orx8 h' (s + 8) stop target" if "s + 8 \<le> stop"
    by (rule less.hyps) (use that less.prems u in \<open>auto simp: word_le_nat_alt\<close>)
  then show ?case
    using less.prems by (subst (1 2) reverse_x4x2orx8_unfold) (simp cong: option.case_cong if_cong)
qed

text \<open>What the callers expect of the hash function.\<close>

definition eight_digests :: "u8 list \<Rightarrow> u8 list" where
  "eight_digests data = concat (map (\<lambda>i. store_digest (data_digest (take 8 (drop (8 * i) data)))) [0..<8])"

lemma eight_digests_concat:
  assumes "length msgs = 8" "\<forall>m \<in> set msgs. length m = 8"
  shows "eight_digests (concat msgs) = concat (map (\<lambda>m. store_digest (data_digest m)) msgs)"
proof -
  have "take 8 (drop (8 * i) (concat msgs)) = msgs ! i" if "i < 8" for i
    using that assms by (simp add: drop_concat_uniform Cons_nth_drop_Suc [symmetric])
  then have "eight_digests (concat msgs) = concat (map (\<lambda>i. store_digest (data_digest (msgs ! i))) [0..<8])"
    unfolding eight_digests_def by (intro arg_cong [of _ _ concat] map_cong) auto
  also have "map (\<lambda>i. store_digest (data_digest (msgs ! i))) [0..<8] = map (\<lambda>m. store_digest (data_digest m)) msgs"
    using assms(1) by (intro nth_equalityI) auto
  finally show ?thesis .
qed

lemma lane_hash_eight: "lane_hash 8 eight_digests (\<lambda>m. store_digest (data_digest m))"
  by (auto simp: lane_hash_def eight_digests_concat length_store_digest)

lemma drop_le64_bytes:
  assumes "drop_bit 32 x = drop_bit 32 y"
  shows "drop 4 (le64_bytes x) = drop 4 (le64_bytes y)"
proof -
  have "drop_bit (32 + 8 * i) x = drop_bit (32 + 8 * i) y" for i
    using arg_cong [OF assms, of "drop_bit (8 * i)"] by (simp add: drop_bit_drop_bit add.commute)
  then show ?thesis
    by (intro nth_equalityI) (auto simp: le64_bytes_def byte_of_def)
qed

lemma same_high_word:
  assumes "unat (s :: u64) div 2 ^ 32 = (unat stop + 7) div 2 ^ 32" "s \<le> x" "x \<le> stop" "unat stop + 8 < 2 ^ 64" "i < 8" "k < 8"
  shows "drop_bit 32 (candidates x 8 ! i) = drop_bit 32 (candidates x 8 ! k)"
proof -
  have high: "unat (drop_bit 32 (candidates x 8 ! j)) = unat s div 2 ^ 32" if "j < 8" for j
  proof -
    have b: "unat s \<le> unat x" "unat x \<le> unat stop" using assms(2,3) by (simp_all add: word_le_nat_alt)
    have j: "unat (word_of_nat j :: u64) = j" using that by (simp add: unat_of_nat take_bit_eq_mod)
    have u: "unat (candidates x 8 ! j) = unat x + j"
      using that b assms(4) j by (simp add: candidates_def) (subst unat_add_lem [THEN iffD1], simp_all)
    have "unat s div 2 ^ 32 \<le> (unat x + j) div 2 ^ 32" "(unat x + j) div 2 ^ 32 \<le> (unat stop + 7) div 2 ^ 32"
      using b that by (simp_all add: div_le_mono)
    moreover have "unat (drop_bit 32 (candidates x 8 ! j)) = unat (candidates x 8 ! j) div 2 ^ 32"
      unfolding unat_drop_bit_eq by (rule drop_bit_eq_div)
    ultimately show ?thesis using assms(1) by (simp add: u)
  qed
  show ?thesis using high [OF assms(5)] high [OF assms(6)] by (simp add: word_unat_eq_iff)
qed

lemma fused_candidates:
  assumes "unat s div 2 ^ 32 = (unat stop + 7) div 2 ^ 32" "s \<le> x" "x \<le> stop" "unat stop + 8 < 2 ^ 64"
    and "length w = 128" "length hash = 256"
  shows "sha256x4x2_fused w hash (concat (map le64_bytes (candidates x 8))) = eight_digests (concat (map le64_bytes (candidates x 8)))"
proof -
  let ?msgs = "map le64_bytes (candidates x 8)"
  have m: "length ?msgs = 8" "\<forall>m \<in> set ?msgs. length m = 8" by auto
  have mixed: "mixed_message ?msgs i = ?msgs ! i" if "i < 8" for i
    using that drop_le64_bytes [OF same_high_word [OF assms(1-4) that, of "(i + 4) mod 8"], symmetric]
    by (simp add: mixed_message_def)
  have "map (\<lambda>i. store_digest (data_digest (mixed_message ?msgs i))) [0..<8] = map (\<lambda>m. store_digest (data_digest m)) ?msgs"
    using mixed by (intro nth_equalityI) auto
  then show ?thesis
    using m assms(5,6) by (simp add: sha256x4x2_fused_digest length_concat_8 x4x2_digest_mixed eight_digests_concat)
qed

text \<open>
  C26: for \<open>start \<le> end\<close> and \<open>end + 8 < 2 ^ 64\<close> (above that the counter of the loop wraps around), inside a range whose numbers, rounded up to whole groups of eight, agree in their upper 32 bits, the eight-lane search with
  \<open>sha256x4x2_fused\<close> returns the least number with the requested digest, or \<open>0\<close>.
\<close>

theorem reverse_sha256_x4x2_least_preimage:
  assumes "\<forall>m. length (w m) = 128" "\<forall>m. length (hash m) = 256" "length digest = 32"
    and "start \<le> stop" "unat stop + 8 < 2 ^ 64" "unat start div 2 ^ 32 = (unat stop + 7) div 2 ^ 32"
  shows "reverse_sha256_x4x2orx8 (\<lambda>m. sha256x4x2_fused (w m) (hash m) m) start stop (sha256_normalize digest) =
    Some (least_preimage {start .. start + word_of_nat (8 * ((unat stop - unat start) div 8) + 7)} digest)"
proof -
  have "reverse_sha256_x4x2orx8 (\<lambda>m. sha256x4x2_fused (w m) (hash m) m) start stop (sha256_normalize digest) =
      reverse_sha256_x4x2orx8 eight_digests start stop (sha256_normalize digest)"
    by (rule reverse_x4x2orx8_cong) (use assms fused_candidates [of start stop] in auto)
  moreover have "unat start + 8 * ((unat stop - unat start) div 8 + 1) \<le> 2 ^ 64"
    using assms(4,5) by (simp add: word_le_nat_alt)
  ultimately show ?thesis
    using block_search.search_result [OF reverse_x4x2orx8_block [OF lane_hash_eight] assms(4,5), of "sha256_normalize digest"]
      first_or_zero_least_preimage [of start "8 * ((unat stop - unat start) div 8 + 1)" digest]
    by (simp add: compare_normalized [OF normalized_digest assms(3)] add.commute [of 7])
qed

theorem reverse_sha256_x4x2_least_preimage_witness:
  "reverse_sha256_x4x2orx8 (\<lambda>m. sha256x4x2_fused (replicate 128 (mm_set1_epi32 7)) (replicate 256 1) m) 3 9
      (sha256_normalize (replicate 32 0)) =
    Some (least_preimage {3 .. 10} (replicate 32 0))"
  using reverse_sha256_x4x2_least_preimage [of "\<lambda>_. replicate 128 (mm_set1_epi32 7)" "\<lambda>_. replicate 256 1" "replicate 32 0" 3 9]
  by simp

text \<open>
  Where a group crosses a multiple of \<open>2 ^ 32\<close> the search answers with a wrong number: asked for the digest of
  \<open>2 ^ 33 - 4\<close> in the range that holds only \<open>2 ^ 32 - 4\<close>, it returns \<open>2 ^ 32 - 4\<close>.
\<close>

theorem reverse_sha256_x4x2_wrong_number:
  assumes "\<forall>m. length (w m) = 128" "\<forall>m. length (hash m) = 256"
  shows "reverse_sha256_x4x2orx8 (\<lambda>m. sha256x4x2_fused (w m) (hash m) m) 0xFFFFFFFC 0xFFFFFFFC
    (sha256_normalize (sha256 (le64_bytes 0x1FFFFFFFC))) = Some 0xFFFFFFFC"
proof -
  let ?msgs = "map le64_bytes (candidates 0xFFFFFFFC 8)"
  have m: "length ?msgs = 8" "\<forall>m \<in> set ?msgs. length m = 8" by auto
  have "mixed_message ?msgs 0 = le64_bytes 0x1FFFFFFFC"
    by (simp add: mixed_message_def candidates_8) (simp add: le64_bytes_def upt_rec byte_of_def)
  then have out: "sha256x4x2_fused (w (concat ?msgs)) (hash (concat ?msgs)) (concat ?msgs) =
      store_digest (data_digest (le64_bytes 0x1FFFFFFFC)) @
      concat (map (\<lambda>i. store_digest (data_digest (mixed_message ?msgs i))) [1..<8])"
    using assms m by (simp add: sha256x4x2_fused_digest length_concat_8 x4x2_digest_mixed upt_conv_Cons [of 0])
  have "matching_lane 8 (sha256x4x2_fused (w (concat ?msgs)) (hash (concat ?msgs)) (concat ?msgs))
      (sha256_normalize (sha256 (le64_bytes 0x1FFFFFFFC))) = Some 0"
    unfolding out by (simp add: matching_lane_def upt_conv_Cons [of 0] hash_compare_append length_store_digest
        normalize_sha256 hash_compare_eq)
  then show ?thesis
    by (subst reverse_x4x2orx8_unfold) (simp add: candidates_8)
qed

theorem reverse_sha256_x4x2_wrong_number_witness:
  "reverse_sha256_x4x2orx8 (\<lambda>m. sha256x4x2_fused (replicate 128 (mm_set1_epi32 7)) (replicate 256 1) m) 0xFFFFFFFC 0xFFFFFFFC
    (sha256_normalize (sha256 (le64_bytes 0x1FFFFFFFC))) = Some 0xFFFFFFFC"
  using reverse_sha256_x4x2_wrong_number [of "\<lambda>_. replicate 128 (mm_set1_epi32 7)" "\<lambda>_. replicate 256 1"] by simp

end
