(* ===== verification/Sha256_X8.thy ===== *)
theory Sha256_X8
  imports Sha256_X4X2
begin

text \<open>
  \<open>src/sha256/x8/optim_x8.c\<close>: one message in each of the eight lanes of a 256-bit register, the integer operations
  done on the two halves. The registers are those of \<open>Sha256_X4X2\<close>; here an entry of the schedule is
  one element of the array \<open>w\<close>. The result is compared with \<open>V8\<close> and \<open>R8\<close>.
\<close>

section \<open>The functions\<close>

text \<open>
  The tables \<open>k\<close>, \<open>H\<close>, \<open>byteswap_mask0\<close> and \<open>byteswap_mask1\<close> of the file are those of \<open>x4x2/impl_common.h\<close>, and
  so are its \<open>ch\<close> and \<open>maj\<close>. \<open>FUSE\<close> is the insertion of the upper half after the cast of the lower one.
\<close>

definition m256_rotr :: "m128 \<Rightarrow> m128 \<Rightarrow> nat \<Rightarrow> m256" where
  "m256_rotr lower upper n =
     FUSE (mm_or (mm_srli_epi32 lower n) (mm_slli_epi32 lower (32 - n)))
       (mm_or (mm_srli_epi32 upper n) (mm_slli_epi32 upper (32 - n)))"

definition m256_s0 :: "m256 \<Rightarrow> m256" where
  "m256_s0 w =
     (let upper = UPPER w; lower = LOWER w;
          t1 = m256_rotr lower upper 18;
          t2 = FUSE (mm_srli_epi32 lower 3) (mm_srli_epi32 upper 3);
          t0 = m256_rotr lower upper 7
      in mm256_xor_ps t0 (mm256_xor_ps t1 t2))"

definition m256_s1 :: "m256 \<Rightarrow> m256" where
  "m256_s1 w =
     (let upper = UPPER w; lower = LOWER w;
          t1 = m256_rotr lower upper 19;
          t2 = FUSE (mm_srli_epi32 lower 10) (mm_srli_epi32 upper 10);
          t0 = m256_rotr lower upper 17
      in mm256_xor_ps t0 (mm256_xor_ps t1 t2))"

definition m256_S0 :: "m256 \<Rightarrow> m256" where
  "m256_S0 a =
     (let upper = UPPER a; lower = LOWER a
      in mm256_xor_ps (m256_rotr lower upper 2) (mm256_xor_ps (m256_rotr lower upper 13) (m256_rotr lower upper 22)))"

definition m256_S1 :: "m256 \<Rightarrow> m256" where
  "m256_S1 e =
     (let upper = UPPER e; lower = LOWER e
      in mm256_xor_ps (m256_rotr lower upper 6) (mm256_xor_ps (m256_rotr lower upper 11) (m256_rotr lower upper 25)))"

definition mm256_fake_add_epi32 :: "m256 \<Rightarrow> m256 \<Rightarrow> m256" where
  "mm256_fake_add_epi32 x y = FUSE (mm_add_epi32 (LOWER x) (LOWER y)) (mm_add_epi32 (UPPER x) (UPPER y))"

text \<open>Lines 182 to 230: the messages. All loads and stores are aligned, as the callers promise.\<close>

definition x8_words :: "m256 list \<Rightarrow> u8 list \<Rightarrow> m256 list \<times> m256 \<times> m256" where
  "x8_words w data =
     (let mask0 = byteswap_load0; mask1 = byteswap_load1;
          ll0 = mm_load data 0; ll1 = mm_load data 16; lu0 = mm_load data 32; lu1 = mm_load data 48;
          hl0 = mm_shuffle_epi8 ll0 mask0; hl1 = mm_shuffle_epi8 ll1 mask1;
          hu0 = mm_shuffle_epi8 lu0 mask0; hu1 = mm_shuffle_epi8 lu1 mask1;
          h0 = FUSE hl0 hl1; h1 = FUSE hu0 hu1;
          w0 = mm256_blend_ps h0 h1 0xCC; w1 = mm256_blend_ps h0 h1 0x33;
          w = w[0 := w0]; w = w[1 := w1];
          t0 = w0; t1 = w1;
          l0 = x80000000; l1 = d64;
          c80 = FUSE l0 l0; c64 = FUSE l1 l1;
          w = for_loop 3 15 (\<lambda>i w. w[i := FUSE (mm_set1_epi32 0) (mm_set1_epi32 0)]) w;
          w = w[2 := c80]; w = w[15 := c64]
      in (w, t0, t1))"

text \<open>Lines 232 to 318: the entries 16 to 31.\<close>

definition x8_entries :: "m256 list \<times> m256 \<times> m256 \<Rightarrow> m256 list \<times> m256 \<times> m256" where
  "x8_entries = (\<lambda>(w, t0, t1).
     let c80 = FUSE x80000000 x80000000; c64 = FUSE d64 d64;
         w16 = mm256_fake_add_epi32 t0 (m256_s0 t1); w = w[16 := w16]; t0 = w16;
         w17 = mm256_fake_add_epi32 t1 (mm256_fake_add_epi32 (m256_s0 c80) (m256_s1 c64)); w = w[17 := w17]; t1 = w17;
         w18 = mm256_fake_add_epi32 c80 (m256_s1 t0); w = w[18 := w18]; t0 = w18;
         w19 = m256_s1 t1; w = w[19 := w19]; t1 = w19;
         w20 = m256_s1 t0; w = w[20 := w20]; t0 = w20;
         w21 = m256_s1 t1; w = w[21 := w21]; t1 = w21;
         w22 = mm256_fake_add_epi32 c64 (m256_s1 t0); w = w[22 := w22]; t0 = w22;
         l0 = w ! 16; l1 = w ! 17;
         w23 = mm256_fake_add_epi32 l0 (m256_s1 t1); w = w[23 := w23]; t1 = w23; l0 = w ! 18;
         w24 = mm256_fake_add_epi32 l1 (m256_s1 t0); w = w[24 := w24]; t0 = w24; l1 = w ! 19;
         w25 = mm256_fake_add_epi32 l0 (m256_s1 t1); w = w[25 := w25]; t1 = w25; l0 = w ! 20;
         w26 = mm256_fake_add_epi32 l1 (m256_s1 t0); w = w[26 := w26]; t0 = w26; l1 = w ! 21;
         w27 = mm256_fake_add_epi32 l0 (m256_s1 t1); w = w[27 := w27]; t1 = w27; l0 = w ! 22;
         w28 = mm256_fake_add_epi32 l1 (m256_s1 t0); w = w[28 := w28]; t0 = w28; l1 = w ! 23;
         w29 = mm256_fake_add_epi32 l0 (m256_s1 t1); w = w[29 := w29]; t1 = w29; l0 = w ! 24;
         w30 = mm256_fake_add_epi32 (m256_s0 c64) (mm256_fake_add_epi32 l1 (m256_s1 t0)); w = w[30 := w30]; t0 = w30;
         l1 = w ! 16;
         w31 = mm256_fake_add_epi32 (mm256_fake_add_epi32 l0 (m256_s1 t1)) (mm256_fake_add_epi32 c64 (m256_s0 l1));
         w = w[31 := w31]; t1 = w31
     in (w, t0, t1))"

definition x8_entry_step :: "nat \<Rightarrow> m256 list \<times> m256 \<times> m256 \<Rightarrow> m256 list \<times> m256 \<times> m256" where
  "x8_entry_step i = (\<lambda>(w, t0, t1).
     let wi16 = w ! (i - 16); wi15 = w ! (i - 15); wi7 = w ! (i - 7); wi2 = t0;
         t0 = t1;
         ws1 = m256_s1 wi2; ws0 = m256_s0 wi15;
         wi = mm256_fake_add_epi32 (mm256_fake_add_epi32 wi16 wi7) (mm256_fake_add_epi32 ws0 ws1);
         w = w[i := wi];
         t1 = wi
     in (w, t0, t1))"

definition initial_x8 :: regs8 where
  "initial_x8 =
     (let h0 = mm256_broadcast_ps (mm_load32 H_x4 0); h1 = mm256_broadcast_ps (mm_load32 H_x4 4);
          a = mm256_permute_ps h0 0x00; b = mm256_permute_ps h0 0x55;
          c = mm256_permute_ps h0 0xAA; d = mm256_permute_ps h0 0xFF;
          e = mm256_permute_ps h1 0x00; f = mm256_permute_ps h1 0x55;
          g = mm256_permute_ps h1 0xAA; h = mm256_permute_ps h1 0xFF
      in (a, b, c, d, e, f, g, h))"

fun x8_round :: "m256 \<Rightarrow> nat \<Rightarrow> regs8 \<Rightarrow> regs8" where
  "x8_round wi i (a, b, c, d, e, f, g, h) =
     (let ki = FUSE (broadcast_k i) (broadcast_k i);
          temp2 = mm256_fake_add_epi32 (m256_S0 a) (m256_maj a b c);
          temp1 = mm256_fake_add_epi32 (mm256_fake_add_epi32 (m256_S1 e) (m256_ch e f g))
                    (mm256_fake_add_epi32 h (mm256_fake_add_epi32 ki wi));
          h = g; g = f; f = e; e = mm256_fake_add_epi32 d temp1;
          d = c; c = b; b = a; a = mm256_fake_add_epi32 temp1 temp2
      in (a, b, c, d, e, f, g, h))"

text \<open>Lines 388 to 489: the result.\<close>

definition store_x8 :: "regs8 \<Rightarrow> u8 list \<Rightarrow> u8 list" where
  "store_x8 = (\<lambda>(a, b, c, d, e, f, g, h) hash.
      let tmp00 = mm256_unpacklo_ps a b; tmp01 = mm256_unpackhi_ps a b;
          tmp02 = mm256_unpacklo_ps c d; tmp03 = mm256_unpackhi_ps c d;
          tmp10 = mm256_unpacklo_ps e f; tmp11 = mm256_unpackhi_ps e f;
          tmp12 = mm256_unpacklo_ps g h; tmp13 = mm256_unpackhi_ps g h;
          r0 = mm256_shuffle_ps tmp00 tmp01 0x44; r1 = mm256_shuffle_ps tmp00 tmp01 0xEE;
          r2 = mm256_shuffle_ps tmp02 tmp03 0x44; r3 = mm256_shuffle_ps tmp02 tmp03 0xEE;
          r4 = mm256_shuffle_ps tmp10 tmp11 0x44; r5 = mm256_shuffle_ps tmp10 tmp11 0xEE;
          r6 = mm256_shuffle_ps tmp12 tmp13 0x44; r7 = mm256_shuffle_ps tmp12 tmp13 0xEE;
          hash = mm_store (UPPER r0) 0 hash; hash = mm_store (LOWER r0) 16 hash;
          hash = mm_store (UPPER r1) 32 hash; hash = mm_store (LOWER r1) 48 hash;
          hash = mm_store (UPPER r2) 64 hash; hash = mm_store (LOWER r2) 80 hash;
          hash = mm_store (UPPER r3) 96 hash; hash = mm_store (LOWER r3) 112 hash;
          hash = mm_store (UPPER r4) 128 hash; hash = mm_store (LOWER r4) 144 hash;
          hash = mm_store (UPPER r5) 160 hash; hash = mm_store (LOWER r5) 176 hash;
          hash = mm_store (UPPER r6) 192 hash; hash = mm_store (LOWER r6) 208 hash;
          hash = mm_store (UPPER r7) 224 hash; hash = mm_store (LOWER r7) 240 hash
      in hash)"

text \<open>\<open>w\<close> and \<open>hash\<close> are the arrays as they are found.\<close>

definition sha256x8_optim :: "m256 list \<Rightarrow> u8 list \<Rightarrow> u8 list \<Rightarrow> u8 list" where
  "sha256x8_optim w hash data =
     (let (w, t0, t1) = for_loop 32 64 x8_entry_step (x8_entries (x8_words w data));
          r = for_loop 0 64 (\<lambda>i. x8_round (w ! i) i) initial_x8
      in store_x8 r hash)"

section \<open>The operations on the two halves\<close>

lemma functions_x8:
  "m256_s0 = ps0" "m256_s1 = ps1" "m256_S0 = half1 m128_S0" "m256_S1 = half1 m128_S1" "mm256_fake_add_epi32 = padd"
proof -
  show "m256_s0 = ps0" "m256_s1 = ps1" "m256_S0 = half1 m128_S0" "m256_S1 = half1 m128_S1"
    by (rule ext, rename_tac x, case_tac x, simp add: m256_s0_def m256_s1_def m256_S0_def m256_S1_def m256_rotr_def
        m128_s0_def m128_s1_def m128_S0_def m128_S1_def m128_rotr_def mm256_xor_ps_def Let_def)+
  show "mm256_fake_add_epi32 = padd"
    by (intro ext, rename_tac x y, case_tac x, case_tac y, simp add: mm256_fake_add_epi32_def)
qed

lemma x8_round_x4x2: "x8_round wi i r = x4x2_round wi i r"
  by (cases "(wi, i, r)" rule: x8_round.cases) (simp add: functions_x8 Let_def)

lemma initial_x8_x4x2: "initial_x8 = initial_x4x2"
  by (simp add: initial_x8_def initial_x4x2_def)

section \<open>The schedule\<close>

definition x8_ok :: "(nat \<Rightarrow> u32) \<Rightarrow> (nat \<Rightarrow> u32) \<Rightarrow> nat \<Rightarrow> m256 list \<Rightarrow> bool" where
  "x8_ok P Q n w \<longleftrightarrow> length w = 64 \<and> (\<forall>j<n. w ! j = V8 P Q j)"

lemma x8_ok_put: "n < 64 \<Longrightarrow> x8_ok P Q n w \<Longrightarrow> x8_ok P Q (Suc n) (w[n := V8 P Q n])"
  by (auto simp: x8_ok_def nth_list_update less_Suc_eq)

lemma x8_ok_nth: "x8_ok P Q n w \<Longrightarrow> j < n \<Longrightarrow> w ! j = V8 P Q j"
  by (simp add: x8_ok_def)

definition x8_filled :: "(nat \<Rightarrow> u32) \<Rightarrow> (nat \<Rightarrow> u32) \<Rightarrow> nat \<Rightarrow> m256 list \<Rightarrow> m256 list" where
  "x8_filled P Q n w = fold (\<lambda>j w. w[j := V8 P Q j]) [16..<n] w"

lemma x8_filled_16: "x8_filled P Q 16 w = w"
  by (simp add: x8_filled_def)

lemma x8_filled_put: "16 \<le> n \<Longrightarrow> (x8_filled P Q n w)[n := V8 P Q n] = x8_filled P Q (Suc n) w"
  by (simp add: x8_filled_def)

lemma x8_filled_ok: "16 \<le> n \<Longrightarrow> n \<le> 64 \<Longrightarrow> x8_ok P Q 16 w \<Longrightarrow> x8_ok P Q n (x8_filled P Q n w)"
proof (induction rule: dec_induct)
  case (step n)
  then show ?case using x8_ok_put [of n P Q "x8_filled P Q n w"] by (simp add: x8_filled_put)
qed (simp add: x8_filled_16)

lemma x8_filled_nth: "x8_ok P Q 16 w \<Longrightarrow> j < n \<Longrightarrow> 16 \<le> n \<Longrightarrow> n \<le> 64 \<Longrightarrow> x8_filled P Q n w ! j = V8 P Q j"
  by (rule x8_ok_nth [OF x8_filled_ok])

lemma x8_entries_filled:
  assumes "x8_ok P Q 16 w"
  shows "x8_entries (w, V8 P Q 0, V8 P Q 1) = (x8_filled P Q 32 w, V8 P Q 30, V8 P Q 31)"
proof -
  have "x8_entries (x8_filled P Q 16 w, V8 P Q 0, V8 P Q 1) = (x8_filled P Q 32 w, V8 P Q 30, V8 P Q 31)"
    by (simp add: x8_entries_def Let_def functions_x8 V8_constants [of P Q] V8_entries x8_filled_put x8_filled_nth [OF assms])
  then show ?thesis by (simp add: x8_filled_16)
qed

lemma x8_entry_step_ok:
  assumes "x8_ok P Q i w" "32 \<le> i" "i < 64"
  shows "x8_entry_step i (w, V8 P Q (i - 2), V8 P Q (i - 1)) = (w[i := V8 P Q i], V8 P Q (i - 1), V8 P Q i) \<and>
    x8_ok P Q (Suc i) (w[i := V8 P Q i])"
  using assms by (simp add: x8_entry_step_def Let_def functions_x8 x8_ok_nth V8_step x8_ok_put)

lemma x8_rounds:
  assumes "x8_ok P Q 64 w"
  shows "for_loop 0 64 (\<lambda>i. x8_round (w ! i) i) initial_x8 = R8 P Q 64"
proof (rule for_loop_invariant [where P = "\<lambda>i r. r = R8 P Q i"])
  fix i :: nat and r assume "i < 64" "r = R8 P Q i"
  then show "x8_round (w ! i) i r = R8 P Q (Suc i)" using assms by (simp add: x8_ok_nth x8_round_x4x2)
qed (simp_all add: initial_x8_x4x2 initial_x4x2_R8 [of P Q])

section \<open>Which word goes to which lane\<close>

text \<open>The two masks and the two blends leave in lane \<open>l\<close> the words with these numbers of \<open>data\<close>.\<close>

definition x8_first :: "nat list" where "x8_first = [0, 2, 9, 11, 5, 7, 12, 14]"
definition x8_second :: "nat list" where "x8_second = [8, 10, 1, 3, 13, 15, 4, 6]"

definition X8_P :: "u8 list \<Rightarrow> nat \<Rightarrow> u32" where "X8_P data l = bswap32 (load32 data (x8_first ! l))"
definition X8_Q :: "u8 list \<Rightarrow> nat \<Rightarrow> u32" where "X8_Q data l = bswap32 (load32 data (x8_second ! l))"

lemma x8_words_ok:
  assumes "length data = 64" "length w = 64"
  shows "\<exists>w'. x8_words w data = (w', V8 (X8_P data) (X8_Q data) 0, V8 (X8_P data) (X8_Q data) 1) \<and>
    x8_ok (X8_P data) (X8_Q data) 16 w'"
proof -
  let ?V = "V8 (X8_P data) (X8_Q data)"
  let ?o = "FUSE (mm_set1_epi32 0) (mm_set1_epi32 0)"
  let ?z = "for_loop 3 15 (\<lambda>i w. w[i := ?o]) (w[0 := ?V 0, 1 := ?V 1])"
  have lanes: "mm256_blend_ps (FUSE (mm_shuffle_epi8 (mm_load data 0) byteswap_load0) (mm_shuffle_epi8 (mm_load data 16) byteswap_load1))
      (FUSE (mm_shuffle_epi8 (mm_load data 32) byteswap_load0) (mm_shuffle_epi8 (mm_load data 48) byteswap_load1)) 0xCC = ?V 0"
    "mm256_blend_ps (FUSE (mm_shuffle_epi8 (mm_load data 0) byteswap_load0) (mm_shuffle_epi8 (mm_load data 16) byteswap_load1))
      (FUSE (mm_shuffle_epi8 (mm_load data 32) byteswap_load0) (mm_shuffle_epi8 (mm_load data 48) byteswap_load1)) 0x33 = ?V (Suc 0)"
    using assms(1) by (simp_all add: mm_load_def load_lanes V8_def V4_def vec4_def blend_lanes
      X8_P_def X8_Q_def x8_first_def x8_second_def load32_def)
  have zero: "?V j = ?o" if "3 \<le> j" "j < 15" for j
    using that by (simp add: V8_def V4_def W8_zero lane_wise)
  have z: "length ?z = 64 \<and> (\<forall>j<15. j \<noteq> 2 \<longrightarrow> ?z ! j = ?V j)"
    by (rule for_loop_invariant [where P = "\<lambda>n w. length w = 64 \<and> (\<forall>j<n. j \<noteq> 2 \<longrightarrow> w ! j = ?V j)"])
      (use assms zero in \<open>auto simp: nth_list_update less_Suc_eq numeral_3_eq_3\<close>)
  have "x8_ok (X8_P data) (X8_Q data) 16 (?z[2 := ?V 2, 15 := ?V 15])"
    unfolding x8_ok_def
  proof (intro conjI allI impI)
    fix j :: nat assume "j < 16"
    then consider "j = 2" | "j = 15" | "j < 15" "j \<noteq> 2" by linarith
    then show "?z[2 := ?V 2, 15 := ?V 15] ! j = ?V j"
      by cases (use z in \<open>simp_all add: nth_list_update\<close>)
  qed (use z in simp)
  then show ?thesis
    by (auto simp: x8_words_def Let_def lanes V8_constants [of "X8_P data" "X8_Q data"])
qed

section \<open>The result\<close>

text \<open>The words \<open>2 * k\<close> and \<open>2 * k + 1\<close> of a digest are its eight bytes from \<open>8 * k\<close> on.\<close>

definition word_pair :: "nat \<Rightarrow> u8 list \<Rightarrow> u8 list" where
  "word_pair k bs = take 8 (drop (8 * k) bs)"

definition x8_row :: "(nat \<Rightarrow> u8 list) \<Rightarrow> nat \<Rightarrow> u8 list" where
  "x8_row D m = concat (map (\<lambda>l. word_pair (m div 2) (D (l + m mod 2))) [4, 6, 0, 2])"

lemma shuffle_pairs:
  "mm_shuffle_ps 0x44 (mm_unpacklo_epi32 (vec4 a) (vec4 b)) (mm_unpackhi_epi32 (vec4 a) (vec4 b)) = M128 (a 0) (b 0) (a 2) (b 2)"
  "mm_shuffle_ps 0xEE (mm_unpacklo_epi32 (vec4 a) (vec4 b)) (mm_unpackhi_epi32 (vec4 a) (vec4 b)) = M128 (a 1) (b 1) (a 3) (b 3)"
  by (simp_all add: mm_shuffle_ps_def vec4_def Let_def del: One_nat_def)

lemma word_pair_digest:
  "word_pair 0 (store_digest (a, b, c, d, e, f, g, h)) = le32_bytes a @ le32_bytes b"
  "word_pair 1 (store_digest (a, b, c, d, e, f, g, h)) = le32_bytes c @ le32_bytes d"
  "word_pair 2 (store_digest (a, b, c, d, e, f, g, h)) = le32_bytes e @ le32_bytes f"
  "word_pair 3 (store_digest (a, b, c, d, e, f, g, h)) = le32_bytes g @ le32_bytes h"
  by (simp_all add: word_pair_def store_digest_def le32_bytes_def)

lemma store_x8_rows:
  assumes "length hash = 256"
  shows "store_x8 (fuse_regs (vregs R) (vregs (\<lambda>l. R (l + 4)))) hash = concat (map (x8_row (\<lambda>l. store_digest (R l))) [0..<8])"
proof -
  have up: "[0..<8] = [0, 1, 2, 3, 4, 5, 6, 7 :: nat]" by (simp add: upt_rec)
  obtain bs where bs: "rows bs" "hash = concat bs" by (rule rows_of [OF assms])
  obtain a b c d e f g h where R: "R = (\<lambda>l. (a l, b l, c l, d l, e l, f l, g l, h l))" using regs_cases [of R] by blast
  let ?x = "\<lambda>a b i j. M128 (a i) (b i) (a j) (b j)"
  let ?ps = "[(?x a b 4 6, 0), (?x a b 0 2, 1), (?x a b 5 7, 2), (?x a b 1 3, 3), (?x c d 4 6, 4), (?x c d 0 2, 5), (?x c d 5 7, 6), (?x c d 1 3, 7),
    (?x e f 4 6, 8), (?x e f 0 2, 9), (?x e f 5 7, 10), (?x e f 1 3, 11), (?x g h 4 6, 12), (?x g h 0 2, 13), (?x g h 5 7, 14), (?x g h 1 3, 15 :: nat)]"
  have "store_x8 (fuse_regs (vregs R) (vregs (\<lambda>l. R (l + 4)))) hash = fold (\<lambda>(x, k). mm_store x (16 * k)) ?ps hash"
    by (simp add: store_x8_def R vregs_def Let_def mm256_unpacklo_ps_def mm256_unpackhi_ps_def mm256_shuffle_ps_def shuffle_pairs
        del: One_nat_def)
  also have "\<dots> = concat (fold (\<lambda>(x, k) bs. bs[k := m128_bytes x]) ?ps bs)"
    unfolding bs(2) by (rule mm_stores_rows [OF bs(1)]) simp
  also have "\<dots> = concat (map (m128_bytes \<circ> fst) ?ps)"
    by (subst rows_nth [OF bs(1)]) (simp add: rows_update, simp add: upt_rec)
  also have "\<dots> = concat (map (x8_row (\<lambda>l. store_digest (R l))) [0..<8])"
    by (simp add: up x8_row_def R word_pair_digest m128_bytes_def del: One_nat_def)
  finally show ?thesis .
qed

lemma sha256x8_optim_rows:
  assumes "length data = 64" "length w = 64" "length hash = 256"
  shows "sha256x8_optim w hash data =
    concat (map (x8_row (\<lambda>l. store_digest (digest8 (X8_P data l) (X8_Q data l)))) [0..<8])"
proof -
  let ?P = "X8_P data" and ?Q = "X8_Q data"
  obtain w0 where w0: "x8_words w data = (w0, V8 ?P ?Q 0, V8 ?P ?Q 1)" "x8_ok ?P ?Q 16 w0"
    using x8_words_ok [OF assms(1,2)] by blast
  let ?inv = "\<lambda>i (w, t0, t1). x8_ok ?P ?Q i w \<and> t0 = V8 ?P ?Q (i - 2) \<and> t1 = V8 ?P ?Q (i - 1)"
  have "?inv 64 (for_loop 32 64 x8_entry_step (x8_entries (x8_words w data)))"
  proof (rule for_loop_invariant [where P = ?inv])
    show "?inv 32 (x8_entries (x8_words w data))"
      using x8_filled_ok [OF _ _ w0(2), of 32] by (simp add: w0(1) x8_entries_filled [OF w0(2), simplified])
    show "?inv (Suc i) (x8_entry_step i s)" if "32 \<le> i" "i < 64" "?inv i s" for i s
      using that x8_entry_step_ok [of ?P ?Q i "fst s"] by (cases s) auto
  qed simp
  then show ?thesis
    using store_x8_rows [OF assms(3), of "\<lambda>l. digest8 (?P l) (?Q l)"]
    by (auto simp: sha256x8_optim_def x8_rounds R8_def R4_def digest8_def split: prod.splits)
qed

section \<open>What is hashed\<close>

definition halves :: "u8 list list \<Rightarrow> u8 list list" where
  "halves msgs = concat (map (\<lambda>m. [take 4 m, drop 4 m]) msgs)"

definition x8_message :: "u8 list list \<Rightarrow> nat \<Rightarrow> u8 list" where
  "x8_message msgs l = halves msgs ! (x8_first ! l) @ halves msgs ! (x8_second ! l)"

lemma eight_elements: "length xs = 8 \<Longrightarrow> \<exists>a b c d e f g h. xs = [a, b, c, d, e, f, g, h]"
  by (auto simp: length_Suc_conv numeral_eq_Suc)

lemma load32_halves:
  assumes "length msgs = 8" "\<forall>m \<in> set msgs. length m = 8" "j < 16"
  shows "load32 (concat msgs) j = load32 (halves msgs ! j) 0" "length (halves msgs ! j) = 4"
proof -
  have h: "length (halves msgs) = 16" "\<forall>b \<in> set (halves msgs). length b = 4" "concat (halves msgs) = concat msgs"
    using assms(1,2) by (auto simp: halves_def dest!: eight_elements)
  then show l: "length (halves msgs ! j) = 4" using assms(3) by simp
  have "drop (4 * j) (concat msgs) = halves msgs ! j @ concat (drop (Suc j) (halves msgs))"
    using h assms(3) drop_concat_uniform [of "halves msgs" 4 j] by (simp add: Cons_nth_drop_Suc [symmetric])
  then have "concat msgs ! (4 * j + i) = halves msgs ! j ! i" if "i < 4" for i
    using that l h(1) assms nth_drop [of "4 * j" "concat msgs" i] by (simp add: nth_append length_concat_8)
  from this [of 0] this [of 1] this [of 2] this [of 3] show "load32 (concat msgs) j = load32 (halves msgs ! j) 0"
    by (simp add: load32_def numeral_2_eq_2)
qed

lemma x8_message_words:
  assumes "length msgs = 8" "\<forall>m \<in> set msgs. length m = 8" "l < 8"
  shows "data_w0 (x8_message msgs l) = X8_P (concat msgs) l" "data_w1 (x8_message msgs l) = X8_Q (concat msgs) l"
    "length (x8_message msgs l) = 8"
proof -
  have "x8_first ! l < 16" "x8_second ! l < 16"
    using assms(3) by (simp_all add: x8_first_def x8_second_def less_Suc_eq numeral_eq_Suc) auto
  note f = load32_halves [OF assms(1,2) this(1)] and s = load32_halves [OF assms(1,2) this(2)]
  show "data_w0 (x8_message msgs l) = X8_P (concat msgs) l" "data_w1 (x8_message msgs l) = X8_Q (concat msgs) l"
    "length (x8_message msgs l) = 8"
    using f s by (simp_all add: x8_message_def data_w0_def data_w1_def X8_P_def X8_Q_def load32_def nth_append numeral_2_eq_2)
qed

text \<open>
  C27: lane \<open>l\<close> of \<open>sha256x8_optim\<close> computes the normalised digest of two halves of messages that belong to different messages
  (\<open>x8_first\<close>, \<open>x8_second\<close>), and row \<open>m\<close> of the result holds the words \<open>2 * (m div 2)\<close> and \<open>2 * (m div 2) + 1\<close> of the digests of four
  lanes instead of the digest of message \<open>m\<close>, whatever the arrays held.
\<close>

theorem sha256x8_scatters_digests:
  assumes "length msgs = 8" "\<forall>m \<in> set msgs. length m = 8" "length w = 64" "length hash = 256"
  shows "sha256x8_optim w hash (concat msgs) =
    concat (map (x8_row (\<lambda>l. sha256_normalize (sha256 (x8_message msgs l)))) [0..<8])"
proof -
  have "x8_row (\<lambda>l. store_digest (digest8 (X8_P (concat msgs) l) (X8_Q (concat msgs) l))) m =
      x8_row (\<lambda>l. sha256_normalize (sha256 (x8_message msgs l))) m" if "m < 8" for m
    unfolding x8_row_def by (simp add: normalize_sha256 data_digest_def x8_message_words [OF assms(1,2)])
  then show ?thesis
    using assms length_concat_8 [OF assms(1,2)] by (auto simp: sha256x8_optim_rows intro!: arg_cong [of _ _ concat] map_cong)
qed

theorem sha256x8_scatters_digests_witness:
  "sha256x8_optim (replicate 64 (FUSE x80000000 d64)) (replicate 256 9) (concat (replicate 8 [1, 2, 3, 4, 5, 6, 7, 8])) =
     concat (map (x8_row (\<lambda>l. sha256_normalize (sha256 (x8_message (replicate 8 [1, 2, 3, 4, 5, 6, 7, 8]) l)))) [0..<8])"
  using sha256x8_scatters_digests [of "replicate 8 [1, 2, 3, 4, 5, 6, 7, 8]" "replicate 64 (FUSE x80000000 d64)" "replicate 256 9"]
  by simp

end
