(* ===== verification/Sandy_Lexer.thy ===== *)
theory Sandy_Lexer
  imports Vec
begin

text \<open>
  \<open>tools/sandy-asm/src/lexer.c\<close> and \<open>lexer_str.c\<close>: the lexer of the assembler preprocessor. The source text and the
  string buffer are memory: a cell that was never written is \<open>None\<close>. The lexer is compared with \<open>tokens\<close>, which reads
  a text token by token.
\<close>

section \<open>lexer.h\<close>

datatype lexeme_type =
    LX_DOLLA | LX_NOT_A_KILO | LX_WORD | LX_EMAIL | LX_NUM | LX_PAREN | LX_THESES | LX_NOT_A_SHIFT | LX_LESS | LX_MORE
  | LX_SCENT | LX_SQU | LX_ARE | LX_MOV | LX_LARGE_INTESTINE | LX_ANOTHA | LX_OXFORD

text \<open>The member \<open>index\<close> of the union; an initialiser that names neither member sets it to zero.\<close>

record lexeme =
  l_type :: lexeme_type
  l_line :: u32
  l_col :: u32
  l_index :: u32

text \<open>\<open>LexemeList\<close> and \<open>StringBuffer\<close> keep their length and capacity as \<open>vec.h\<close> does, and grow in the same way.\<close>

record lexeme_list =
  lexemes :: "lexeme vec"
  strbuff :: "char vec"

definition sb_init :: "char vec" where "sb_init = vec_init 1024"
definition ll_init :: "lexeme vec" where "ll_init = vec_init 256"

definition sb_push :: "char \<Rightarrow> lexeme_list \<Rightarrow> lexeme_list option" where
  "sb_push c l = do { b \<leftarrow> vec_push (strbuff l) c; Some (l\<lparr>strbuff := b\<rparr>) }"

definition ll_push :: "lexeme \<Rightarrow> lexeme_list \<Rightarrow> lexeme_list option" where
  "ll_push x l = do { v \<leftarrow> vec_push (lexemes l) x; Some (l\<lparr>lexemes := v\<rparr>) }"

section \<open>lexer.c\<close>

datatype lex_state = NORMAL | NUMBER | NUMBER_HEX | WORD | COMMENT

text \<open>The messages of \<open>error_exit\<close>, after which the program ends.\<close>

datatype lex_error = Wrong_Comment u32 u32 | Unexpected_Char char u32 u32

text \<open>\<open>lx_pos\<close> is how far \<open>code\<close> was advanced. The variables \<open>err_line\<close> and \<open>err_col\<close> are never read.\<close>

record lexer =
  lx_pos :: nat
  lx_line :: u32
  lx_col :: u32
  lx_state :: lex_state
  lx_list :: lexeme_list

definition newline :: char where "newline = CHR 0x0A"
definition tab :: char where "tab = CHR 0x09"
definition nul :: char where "nul = CHR 0x00"

definition char_range :: "char \<Rightarrow> char \<Rightarrow> char \<Rightarrow> bool" where
  "char_range lo hi c \<longleftrightarrow> (of_char lo :: nat) \<le> of_char c \<and> (of_char c :: nat) \<le> of_char hi"

definition is_letter :: "char \<Rightarrow> bool" where
  "is_letter c \<longleftrightarrow> char_range (CHR ''a'') (CHR ''z'') c \<or> char_range (CHR ''A'') (CHR ''Z'') c"

definition is_digit :: "char \<Rightarrow> bool" where
  "is_digit c \<longleftrightarrow> char_range (CHR ''0'') (CHR ''9'') c"

definition is_hex :: "char \<Rightarrow> bool" where
  "is_hex c \<longleftrightarrow> char_range (CHR ''A'') (CHR ''F'') c \<or> char_range (CHR ''a'') (CHR ''f'') c \<or> is_digit c"

definition is_alnum :: "char \<Rightarrow> bool" where
  "is_alnum c \<longleftrightarrow> is_letter c \<or> is_digit c"

text \<open>The cases of the switch that push a lexeme of one character.\<close>

definition simple_lexeme :: "char \<Rightarrow> lexeme_type option" where
  "simple_lexeme = map_of
     [(CHR ''$'', LX_DOLLA), (CHR ''#'', LX_NOT_A_KILO), (CHR ''@'', LX_EMAIL), (CHR ''('', LX_PAREN), (CHR '')'', LX_THESES),
      (CHR ''*'', LX_NOT_A_SHIFT), (CHR ''-'', LX_LESS), (CHR ''+'', LX_MORE), (CHR ''%'', LX_SCENT), (CHR ''['', LX_SQU),
      (CHR '']'', LX_ARE), (CHR ''='', LX_MOV), (CHR '':'', LX_LARGE_INTESTINE), (CHR '','', LX_OXFORD)]"

definition push_simple :: "lexeme_type \<Rightarrow> lexer \<Rightarrow> lexer option" where
  "push_simple t s =
     do { l \<leftarrow> ll_push \<lparr>l_type = t, l_line = lx_line s, l_col = lx_col s, l_index = 0\<rparr> (lx_list s); Some (s\<lparr>lx_list := l\<rparr>) }"

definition push_char :: "char \<Rightarrow> lexer \<Rightarrow> lexer option" where
  "push_char c s = do { l \<leftarrow> sb_push c (lx_list s); Some (s\<lparr>lx_list := l\<rparr>) }"

definition push_text :: "lexeme_type \<Rightarrow> char \<Rightarrow> lexer \<Rightarrow> lexer option" where
  "push_text t c s =
     do { l \<leftarrow> ll_push \<lparr>l_type = t, l_line = lx_line s, l_col = lx_col s, l_index = vec_len (strbuff (lx_list s))\<rparr> (lx_list s);
          push_char c (s\<lparr>lx_list := l\<rparr>) }"

text \<open>\<open>code++; col++\<close> and \<open>code--; col--\<close>.\<close>

definition advance :: "lexer \<Rightarrow> lexer" where
  "advance s = s\<lparr>lx_pos := lx_pos s + 1, lx_col := lx_col s + 1\<rparr>"

definition step_back :: "lexer \<Rightarrow> lexer" where
  "step_back s = s\<lparr>lx_pos := lx_pos s - 1, lx_col := lx_col s - 1\<rparr>"

text \<open>The condition of the newline case: the last lexeme is not a newline.\<close>

definition fresh_line :: "lexeme_list \<Rightarrow> bool option" where
  "fresh_line l =
     (if 0 < vec_len (lexemes l) then do { x \<leftarrow> vec_get (lexemes l) (vec_len (lexemes l) - 1); Some (l_type x \<noteq> LX_ANOTHA) }
      else Some False)"

definition lex_normal :: "char option list \<Rightarrow> char \<Rightarrow> lexer \<Rightarrow> (lex_error + lexer) option" where
  "lex_normal code c s =
     (case simple_lexeme c of
        Some t \<Rightarrow> do { s \<leftarrow> push_simple t s; Some (Inr s) }
      | None \<Rightarrow>
        if c = newline then do {
          fresh \<leftarrow> fresh_line (lx_list s);
          s \<leftarrow> (if fresh then push_simple LX_ANOTHA s else Some s);
          Some (Inr (s\<lparr>lx_line := lx_line s + 1, lx_col := 0\<rparr>)) }
        else if c = CHR ''/'' then do {
          d \<leftarrow> ld code (lx_pos s + 1);
          Some (if d \<noteq> CHR ''/'' then Inl (Wrong_Comment (lx_line s) (lx_col s)) else Inr (advance (s\<lparr>lx_state := COMMENT\<rparr>))) }
        else if is_letter c then do { s \<leftarrow> push_text LX_WORD c s; Some (Inr (s\<lparr>lx_state := WORD\<rparr>)) }
        else if is_digit c then do {
          s \<leftarrow> push_text LX_NUM c s;
          let s = s\<lparr>lx_state := NUMBER\<rparr>;
          d \<leftarrow> ld code (lx_pos s + 1);
          if d = CHR ''x'' then do { s \<leftarrow> push_char (CHR ''x'') (advance s); Some (Inr (s\<lparr>lx_state := NUMBER_HEX\<rparr>)) }
          else Some (Inr s) }
        else if c = CHR '' '' \<or> c = tab then Some (Inr s)
        else Some (Inl (Unexpected_Char c (lx_line s) (lx_col s))))"

text \<open>The three states that collect characters: the one that ends the lexeme is read again in the state \<open>NORMAL\<close>.\<close>

definition lex_collect :: "(char \<Rightarrow> bool) \<Rightarrow> char \<Rightarrow> lexer \<Rightarrow> (lex_error + lexer) option" where
  "lex_collect p c s =
     (if p c then do { s \<leftarrow> push_char c s; Some (Inr s) }
      else do { s \<leftarrow> push_char nul (step_back s); Some (Inr (s\<lparr>lx_state := NORMAL\<rparr>)) })"

definition lex_step :: "char option list \<Rightarrow> char \<Rightarrow> lexer \<Rightarrow> (lex_error + lexer) option" where
  "lex_step code c s =
     do { r \<leftarrow> (case lx_state s of
            NORMAL \<Rightarrow> lex_normal code c s
          | NUMBER \<Rightarrow> lex_collect is_digit c s
          | NUMBER_HEX \<Rightarrow> lex_collect is_hex c s
          | WORD \<Rightarrow> lex_collect is_alnum c s
          | COMMENT \<Rightarrow> Some (Inr (if c = newline then (step_back s)\<lparr>lx_state := NORMAL\<rparr> else s)));
          Some (map_sum id advance r) }"

partial_function (option) lex_loop :: "char option list \<Rightarrow> lexer \<Rightarrow> (lex_error + lexer) option" where
  "lex_loop code s =
     do { c \<leftarrow> ld code (lx_pos s);
          if c = nul then Some (Inr s)
          else do { r \<leftarrow> lex_step code c s;
                    case r of Inl e \<Rightarrow> Some (Inl e) | Inr s \<Rightarrow> lex_loop code s } }"

declare lex_loop.simps [code]

definition lex_code :: "char option list \<Rightarrow> (lex_error + lexeme_list) option" where
  "lex_code code =
     do { r \<leftarrow> lex_loop code \<lparr>lx_pos = 0, lx_line = 1, lx_col = 1, lx_state = NORMAL,
            lx_list = \<lparr>lexemes = ll_init, strbuff = sb_init\<rparr>\<rparr>;
          Some (map_sum id lx_list r) }"

section \<open>lexer\_str.c\<close>

definition lx_lookup_names :: "lexeme_type \<Rightarrow> string" where
  "lx_lookup_names t = (case t of
     LX_DOLLA \<Rightarrow> ''DOLLA'' | LX_NOT_A_KILO \<Rightarrow> ''NOT A KILO'' | LX_WORD \<Rightarrow> ''WORD'' | LX_EMAIL \<Rightarrow> ''EMAIL'' | LX_NUM \<Rightarrow> ''NUM''
   | LX_PAREN \<Rightarrow> ''PAREN'' | LX_THESES \<Rightarrow> ''THESES'' | LX_NOT_A_SHIFT \<Rightarrow> ''NOT A SHIFT'' | LX_LESS \<Rightarrow> ''LESS'' | LX_MORE \<Rightarrow> ''MORE''
   | LX_SCENT \<Rightarrow> ''SCENT'' | LX_SQU \<Rightarrow> ''SQU'' | LX_ARE \<Rightarrow> ''ARE'' | LX_MOV \<Rightarrow> ''MOV'' | LX_LARGE_INTESTINE \<Rightarrow> ''LARGE INTESTINE''
   | LX_ANOTHA \<Rightarrow> ''ANOTHA'' | LX_OXFORD \<Rightarrow> ''OXFORD'')"

definition lx_lookupName :: "lexeme_type \<Rightarrow> string" where
  "lx_lookupName = lx_lookup_names"

definition lx_lookup_symbols :: "lexeme_type \<Rightarrow> string" where
  "lx_lookup_symbols t = (case t of
     LX_DOLLA \<Rightarrow> ''$'' | LX_NOT_A_KILO \<Rightarrow> ''#'' | LX_WORD \<Rightarrow> ''E!R!R!O!R'' | LX_EMAIL \<Rightarrow> ''@'' | LX_NUM \<Rightarrow> ''E!R!R!O!R''
   | LX_PAREN \<Rightarrow> ''('' | LX_THESES \<Rightarrow> '')'' | LX_NOT_A_SHIFT \<Rightarrow> ''*'' | LX_LESS \<Rightarrow> ''-'' | LX_MORE \<Rightarrow> ''+''
   | LX_SCENT \<Rightarrow> ''%'' | LX_SQU \<Rightarrow> ''['' | LX_ARE \<Rightarrow> '']'' | LX_MOV \<Rightarrow> ''='' | LX_LARGE_INTESTINE \<Rightarrow> '':''
   | LX_ANOTHA \<Rightarrow> [CHR 0x5C, CHR ''n''] | LX_OXFORD \<Rightarrow> '','')"

text \<open>A pointer to a string is used by reading it up to its \<open>NUL\<close>.\<close>

function c_string :: "char option list \<Rightarrow> nat \<Rightarrow> string option" where
  "c_string cells i =
     (case ld cells i of
        None \<Rightarrow> None
      | Some c \<Rightarrow> if c = nul then Some [] else do { cs \<leftarrow> c_string cells (i + 1); Some (c # cs) })"
  by pat_completeness auto

termination
  by (relation "measure (\<lambda>(cells, i). length cells - i)") (auto simp: ld_def split: if_splits)

declare c_string.simps [simp del]

definition lx_lookupSymbol :: "lexeme \<Rightarrow> char vec \<Rightarrow> string option" where
  "lx_lookupSymbol l sb =
     (if l_type l = LX_WORD \<or> l_type l = LX_NUM then c_string (vec_data sb) (unat (l_index l))
      else Some (lx_lookup_symbols (l_type l)))"

section \<open>Reference: the tokens of a text\<close>

datatype token = Sym lexeme_type string | Txt lexeme_type string

text \<open>
  \<open>tokens l c fresh cs\<close> are the tokens of \<open>cs\<close>, which starts at line \<open>l\<close> and column \<open>c\<close>, each with its place. A newline counts
  when a token other than a newline came before (\<open>fresh\<close>).
\<close>

type_synonym position = "u32 \<times> u32"

definition cons_token :: "position \<Rightarrow> token \<Rightarrow> lex_error + (position \<times> token) list \<Rightarrow> lex_error + (position \<times> token) list" where
  "cons_token p t = map_sum id ((#) (p, t))"

function tokens :: "u32 \<Rightarrow> u32 \<Rightarrow> bool \<Rightarrow> string \<Rightarrow> lex_error + (position \<times> token) list" where
  "tokens l c fresh [] = Inr []"
| "tokens l c fresh (x # xs) =
     (case simple_lexeme x of
        Some t \<Rightarrow> cons_token (l, c) (Sym t [x]) (tokens l (c + 1) True xs)
      | None \<Rightarrow>
        if x = newline then (if fresh then cons_token (l, c) (Sym LX_ANOTHA [CHR 0x5C, CHR ''n'']) else id) (tokens (l + 1) 1 False xs)
        else if x = CHR ''/'' then
          (if take 1 xs = ''/''
           then let k = takeWhile (\<lambda>d. d \<noteq> newline) (tl xs)
                in tokens l (c + 2 + word_of_nat (length k)) fresh (dropWhile (\<lambda>d. d \<noteq> newline) (tl xs))
           else Inl (Wrong_Comment l c))
        else if is_letter x then
          (let w = takeWhile is_alnum xs
           in cons_token (l, c) (Txt LX_WORD (x # w)) (tokens l (c + 1 + word_of_nat (length w)) True (dropWhile is_alnum xs)))
        else if is_digit x then
          (if take 1 xs = ''x''
           then let w = takeWhile is_hex (tl xs)
                in cons_token (l, c) (Txt LX_NUM (x # CHR ''x'' # w))
                     (tokens l (c + 2 + word_of_nat (length w)) True (dropWhile is_hex (tl xs)))
           else let w = takeWhile is_digit xs
                in cons_token (l, c) (Txt LX_NUM (x # w)) (tokens l (c + 1 + word_of_nat (length w)) True (dropWhile is_digit xs)))
        else if x = CHR '' '' \<or> x = tab then tokens l (c + 1) fresh xs
        else Inl (Unexpected_Char x l c))"
  by pat_completeness auto

termination
proof (relation "measure (\<lambda>(l, c, fresh, cs). length cs)", goal_cases)
  case 1
  show ?case by simp
qed (auto intro: le_less_trans [OF length_dropWhile_le] simp: less_Suc_eq_le order.trans [OF length_dropWhile_le])

fun token_type :: "token \<Rightarrow> lexeme_type" where
  "token_type (Sym t s) = t"
| "token_type (Txt t s) = t"

fun token_text :: "token \<Rightarrow> string" where
  "token_text (Sym t s) = s"
| "token_text (Txt t s) = s"

text \<open>A lexeme is a token at a place when type and place are those, and \<open>lx_lookupSymbol\<close> gives its text.\<close>

definition lexeme_is :: "char vec \<Rightarrow> lexeme \<Rightarrow> position \<times> token \<Rightarrow> bool" where
  "lexeme_is sb x pt \<longleftrightarrow> (l_line x, l_col x) = fst pt \<and> l_type x = token_type (snd pt) \<and>
     lx_lookupSymbol x sb = Some (token_text (snd pt))"

text \<open>The invariant of the proof: a lexeme describes a token when the text of the token is where its index points to.\<close>

fun describes :: "string \<Rightarrow> lexeme \<Rightarrow> position \<times> token \<Rightarrow> bool" where
  "describes bs l (p, Sym t s) \<longleftrightarrow> l_type l = t \<and> lx_lookup_symbols t = s \<and> t \<noteq> LX_WORD \<and> t \<noteq> LX_NUM \<and> (l_line l, l_col l) = p"
| "describes bs l (p, Txt t w) \<longleftrightarrow> l_type l = t \<and> (t = LX_WORD \<or> t = LX_NUM) \<and> (l_line l, l_col l) = p \<and> nul \<notin> set w \<and>
     (\<exists>zs. drop (unat (l_index l)) bs = w @ nul # zs)"

section \<open>Reading and pushing\<close>

definition reads :: "char option list \<Rightarrow> nat \<Rightarrow> string \<Rightarrow> bool" where
  "reads code p cs \<longleftrightarrow> take (length cs) (drop p code) = map Some cs"

lemma reads_Cons: "reads code p (x # xs) \<longleftrightarrow> ld code p = Some x \<and> reads code (Suc p) xs"
  by (cases "p < length code") (auto simp: reads_def ld_def Cons_nth_drop_Suc [symmetric])

lemma reads_append: "reads code p (xs @ ys) \<longleftrightarrow> reads code p xs \<and> reads code (p + length xs) ys"
  by (induction xs arbitrary: p) (auto simp: reads_Cons, simp_all add: reads_def)

definition vec_fit :: "'a vec \<Rightarrow> 'a list \<Rightarrow> bool" where
  "vec_fit v xs \<longleftrightarrow> vec_rep v xs \<and> 0 < vec_cap v \<and> unat (vec_cap v) \<le> 1024 + 2 * length xs"

lemma vec_fit_push:
  assumes "vec_fit v xs" "length xs < 2 ^ 29"
  shows "\<exists>v'. vec_push v x = Some v' \<and> vec_fit v' (xs @ [x])"
  using vec_push_rep [of v xs x] assms by (fastforce simp: vec_fit_def)

definition list_rep :: "lexeme_list \<Rightarrow> lexeme list \<Rightarrow> string \<Rightarrow> bool" where
  "list_rep L ls bs \<longleftrightarrow> vec_fit (lexemes L) ls \<and> vec_fit (strbuff L) bs"

lemma list_rep_init: "list_rep \<lparr>lexemes = ll_init, strbuff = sb_init\<rparr> [] []"
  by (simp add: list_rep_def vec_fit_def ll_init_def sb_init_def) (simp add: vec_init_def)

lemma list_rep_len: "list_rep L ls bs \<Longrightarrow> unat (vec_len (strbuff L)) = length bs"
  by (simp add: list_rep_def vec_fit_def vec_rep_def)

lemma ll_push_rep:
  assumes "list_rep L ls bs" "length ls < 2 ^ 29"
  obtains L' where "ll_push x L = Some L'" "list_rep L' (ls @ [x]) bs" "strbuff L' = strbuff L"
  using vec_fit_push [of "lexemes L" ls x] assms that by (fastforce simp: list_rep_def ll_push_def)

lemma sb_push_rep:
  assumes "list_rep L ls bs" "length bs < 2 ^ 29"
  obtains L' where "sb_push x L = Some L'" "list_rep L' ls (bs @ [x])"
  using vec_fit_push [of "strbuff L" bs x] assms that by (fastforce simp: list_rep_def sb_push_def)

abbreviation lexer_at :: "nat \<Rightarrow> u32 \<Rightarrow> u32 \<Rightarrow> lex_state \<Rightarrow> lexeme_list \<Rightarrow> lexer" where
  "lexer_at p l c q L \<equiv> \<lparr>lx_pos = p, lx_line = l, lx_col = c, lx_state = q, lx_list = L\<rparr>"

section \<open>Collecting the characters of a lexeme\<close>

lemma char_class_nul [simp]: "\<not> is_alnum nul" "\<not> is_digit nul" "\<not> is_hex nul"
  by (simp_all add: is_alnum_def is_letter_def is_digit_def is_hex_def char_range_def nul_def)

lemma newline_nul [simp]: "newline \<noteq> nul" "nul \<noteq> newline"
  by (simp_all add: newline_def nul_def)

definition collects :: "lex_state \<Rightarrow> char \<Rightarrow> bool" where
  "collects q = (case q of WORD \<Rightarrow> is_alnum | NUMBER \<Rightarrow> is_digit | NUMBER_HEX \<Rightarrow> is_hex | _ \<Rightarrow> \<lambda>_. False)"

lemma lex_step_collects:
  "q \<noteq> NORMAL \<Longrightarrow> q \<noteq> COMMENT \<Longrightarrow>
    lex_step code x (lexer_at p l c q L) =
      do { r \<leftarrow> lex_collect (collects q) x (lexer_at p l c q L); Some (map_sum id advance r) }"
  by (cases q) (simp_all add: lex_step_def collects_def)

lemma collects_nul [simp]: "\<not> collects q nul"
  by (cases q) (simp_all add: collects_def)

lemma collect_loop:
  assumes "q \<noteq> NORMAL" "q \<noteq> COMMENT" "reads code p (w @ d # zs)" "\<forall>x \<in> set w. collects q x" "\<not> collects q d" "d \<noteq> nul"
    and "list_rep L ls bs" "length bs + length w < 2 ^ 29" "0 < p"
  shows "\<exists>L'. lex_loop code (lexer_at p l c q L) = lex_loop code (lexer_at (p + length w) l (c + word_of_nat (length w)) NORMAL L') \<and>
    list_rep L' ls (bs @ w @ [nul])"
  using assms(3-)
proof (induction w arbitrary: p c L bs)
  case Nil
  then obtain L' where "sb_push nul L = Some L'" "list_rep L' ls (bs @ [nul])" using sb_push_rep [of L ls bs nul] by auto
  then show ?case
    using Nil assms(1,2)
    by (intro exI [of _ L'], subst lex_loop.simps)
      (simp add: reads_Cons lex_step_collects lex_collect_def push_char_def step_back_def advance_def)
next
  case (Cons x w)
  have "length bs < 2 ^ 29" using Cons.prems by simp
  with Cons.prems(5) obtain L' where L': "sb_push x L = Some L'" "list_rep L' ls (bs @ [x])" by (rule sb_push_rep)
  have "x \<noteq> nul" using Cons.prems(2) by auto
  then have "lex_loop code (lexer_at p l c q L) = lex_loop code (lexer_at (Suc p) l (c + 1) q L')"
    using Cons.prems assms(1,2) L' by (subst lex_loop.simps) (simp add: reads_Cons lex_step_collects lex_collect_def push_char_def advance_def)
  then show ?case
    using Cons.IH [of "Suc p" L' "bs @ [x]" "c + 1"] Cons.prems L' by (auto simp: reads_Cons ac_simps)
qed

lemma comment_loop:
  assumes "reads code p (w @ newline # zs)" "\<forall>x \<in> set w. x \<noteq> newline \<and> x \<noteq> nul" "0 < p"
  shows "lex_loop code (lexer_at p l c COMMENT L) = lex_loop code (lexer_at (p + length w) l (c + word_of_nat (length w)) NORMAL L)"
  using assms
proof (induction w arbitrary: p c)
  case Nil
  then show ?case by (subst lex_loop.simps) (simp add: reads_Cons lex_step_def step_back_def advance_def)
next
  case (Cons x w)
  then have "lex_loop code (lexer_at p l c COMMENT L) = lex_loop code (lexer_at (Suc p) l (c + 1) COMMENT L)"
    by (subst lex_loop.simps) (simp add: reads_Cons lex_step_def advance_def)
  then show ?case using Cons.IH [of "Suc p" "c + 1"] Cons.prems by (simp add: reads_Cons ac_simps)
qed

section \<open>The lexer is the reference\<close>

lemma describes_append: "describes bs l t \<Longrightarrow> describes (bs @ xs) l t"
  by (induction bs l t rule: describes.induct) (auto simp: drop_append)

lemma describes_all_append: "list_all2 (describes bs) ls ts \<Longrightarrow> list_all2 (describes (bs @ xs)) ls ts"
  by (erule list_all2_mono) (rule describes_append)

text \<open>\<open>outcome code s ts r\<close>: from \<open>s\<close>, after the tokens \<open>ts\<close>, the lexer ends with \<open>r\<close>.\<close>

definition outcome :: "char option list \<Rightarrow> lexer \<Rightarrow> (position \<times> token) list \<Rightarrow> lex_error + (position \<times> token) list \<Rightarrow> bool" where
  "outcome code s ts0 r \<longleftrightarrow>
     (case r of Inl e \<Rightarrow> lex_loop code s = Some (Inl e)
      | Inr ts \<Rightarrow> \<exists>s' ls bs. lex_loop code s = Some (Inr s') \<and> list_rep (lx_list s') ls bs \<and> list_all2 (describes bs) ls (ts0 @ ts))"

lemma outcome_cons: "outcome code s (ts0 @ [(p, t)]) r \<Longrightarrow> outcome code s ts0 (cons_token p t r)"
  by (cases r) (auto simp: outcome_def cons_token_def)

lemma outcome_step: "lex_loop code s = lex_loop code s' \<Longrightarrow> outcome code s ts0 r = outcome code s' ts0 r"
  by (cases r) (simp_all add: outcome_def)

lemma outcome_push:
  "lex_loop code s = lex_loop code s' \<Longrightarrow> outcome code s' (ts @ [(p, t)]) r \<Longrightarrow> outcome code s ts (cons_token p t r)"
  by (rule outcome_cons) (simp add: outcome_def split: sum.splits)

lemma split_dropWhile:
  assumes "cs \<noteq> []" "last cs = newline" "\<not> P newline"
  obtains d zs where "dropWhile P cs = d # zs" "\<not> P d" "cs = takeWhile P cs @ d # zs" "last (d # zs) = newline"
    "length (takeWhile P cs) + length (dropWhile P cs) = length cs"
proof -
  have "newline \<in> set cs" using assms(1,2) last_in_set [of cs] by simp
  then have ne: "dropWhile P cs \<noteq> []" using assms(3) by auto
  then obtain d zs where d: "dropWhile P cs = d # zs" by (cases "dropWhile P cs") auto
  moreover have "\<not> P d" using hd_dropWhile [OF ne] d by simp
  moreover have t: "cs = takeWhile P cs @ d # zs" using takeWhile_dropWhile_id [of P cs] d by simp
  moreover have "last (d # zs) = newline" using assms(2) arg_cong [OF t, of last] by simp
  moreover have "length (takeWhile P cs) + length (dropWhile P cs) = length cs"
    using arg_cong [OF takeWhile_dropWhile_id [of P cs], of length] by (simp only: length_append)
  ultimately show ?thesis by (rule that)
qed

lemma simple_lexeme_facts:
  "simple_lexeme x = Some t \<Longrightarrow> t \<noteq> LX_WORD \<and> t \<noteq> LX_NUM \<and> t \<noteq> LX_ANOTHA \<and> lx_lookup_symbols t = [x]"
  by (auto simp: simple_lexeme_def lx_lookup_symbols_def split: if_splits)

lemma lx_symbol_newline: "lx_lookup_symbols LX_ANOTHA = [CHR 0x5C, CHR ''n'']"
  by (simp add: lx_lookup_symbols_def)

lemma class_not_nul: "is_letter x \<Longrightarrow> x \<noteq> nul" "is_digit x \<Longrightarrow> x \<noteq> nul" "is_alnum x \<Longrightarrow> x \<noteq> nul" "is_hex x \<Longrightarrow> x \<noteq> nul"
  using char_class_nul by (auto simp: is_alnum_def)

lemma takeWhile_all: "\<forall>x \<in> set (takeWhile P xs). P x"
  by (auto dest: set_takeWhileD)

text \<open>A word or a number, of which \<open>h\<close> is pushed before the state changes.\<close>

lemma outcome_text:
  assumes "t = LX_WORD \<or> t = LX_NUM" "q \<noteq> NORMAL" "q \<noteq> COMMENT"
    and step: "\<And>L1 L'. ll_push \<lparr>l_type = t, l_line = l, l_col = c, l_index = vec_len (strbuff L)\<rparr> L = Some L1 \<Longrightarrow>
      list_rep L1 (ls @ [\<lparr>l_type = t, l_line = l, l_col = c, l_index = vec_len (strbuff L)\<rparr>]) bs \<Longrightarrow>
      \<exists>L'. lex_loop code (lexer_at p l c NORMAL L) = lex_loop code (lexer_at (p + length h) l (c + word_of_nat (length h)) q L') \<and>
        list_rep L' (ls @ [\<lparr>l_type = t, l_line = l, l_col = c, l_index = vec_len (strbuff L)\<rparr>]) (bs @ h)"
    and "reads code p (h @ w @ d # zs)" "\<forall>x \<in> set w. collects q x" "\<not> collects q d" "d \<noteq> nul" "nul \<notin> set h" "h \<noteq> []"
    and L: "list_rep L ls bs" "list_all2 (describes bs) ls ts0" "length ls < 2 ^ 29" "length bs + length h + length w < 2 ^ 29"
    and rest: "\<And>L' bs'. list_rep L' (ls @ [\<lparr>l_type = t, l_line = l, l_col = c, l_index = vec_len (strbuff L)\<rparr>]) bs' \<Longrightarrow>
      list_all2 (describes bs') (ls @ [\<lparr>l_type = t, l_line = l, l_col = c, l_index = vec_len (strbuff L)\<rparr>]) (ts0 @ [((l, c), Txt t (h @ w))]) \<Longrightarrow>
      length bs' = length bs + length h + length w + 1 \<Longrightarrow>
      outcome code (lexer_at (p + length h + length w) l (c + word_of_nat (length h) + word_of_nat (length w)) NORMAL L')
        (ts0 @ [((l, c), Txt t (h @ w))]) r"
  shows "outcome code (lexer_at p l c NORMAL L) ts0 (cons_token (l, c) (Txt t (h @ w)) r)"
proof -
  let ?x = "\<lparr>l_type = t, l_line = l, l_col = c, l_index = vec_len (strbuff L)\<rparr>"
  obtain L1 where "ll_push ?x L = Some L1" "list_rep L1 (ls @ [?x]) bs" using ll_push_rep [OF L(1,3)] by blast
  from step [OF this] obtain L2 where L2: "lex_loop code (lexer_at p l c NORMAL L) = lex_loop code (lexer_at (p + length h) l (c + word_of_nat (length h)) q L2)"
    "list_rep L2 (ls @ [?x]) (bs @ h)" by blast
  have "reads code (p + length h) (w @ d # zs)" using assms(5) by (simp add: reads_append)
  from collect_loop [OF assms(2,3) this assms(6-8) L2(2), of l "c + word_of_nat (length h)"] L(4) assms(10)
  obtain L3 where L3: "lex_loop code (lexer_at (p + length h) l (c + word_of_nat (length h)) q L2) =
      lex_loop code (lexer_at (p + length h + length w) l (c + word_of_nat (length h) + word_of_nat (length w)) NORMAL L3)"
    "list_rep L3 (ls @ [?x]) (bs @ h @ w @ [nul])" by auto
  have "nul \<notin> set w" using assms(6) by auto
  then have "describes (bs @ h @ w @ [nul]) ?x ((l, c), Txt t (h @ w))"
    using assms(1,9) list_rep_len [OF L(1)] by auto
  moreover have "list_all2 (describes (bs @ h @ w @ [nul])) ls ts0" by (rule describes_all_append [OF L(2)])
  ultimately have "list_all2 (describes (bs @ h @ w @ [nul])) (ls @ [?x]) (ts0 @ [((l, c), Txt t (h @ w))])"
    by (simp add: list_all2_appendI)
  from rest [OF L3(2) this] show ?thesis
    by (intro outcome_cons) (simp add: outcome_step [OF L2(1)] outcome_step [OF L3(1)])
qed

lemma lex_loop_step:
  "ld code (lx_pos s) = Some x \<Longrightarrow> x \<noteq> nul \<Longrightarrow> lex_step code x s = Some (Inr s') \<Longrightarrow> lex_loop code s = lex_loop code s'"
  by (subst lex_loop.simps) simp

lemma lex_loop_stop:
  "ld code (lx_pos s) = Some x \<Longrightarrow> x \<noteq> nul \<Longrightarrow> lex_step code x s = Some (Inl e) \<Longrightarrow> lex_loop code s = Some (Inl e)"
  by (subst lex_loop.simps) simp

lemma simple_lexeme_dom: "simple_lexeme x = Some t \<Longrightarrow> x \<in> set ''$#@()*-+%[]=:,''"
  unfolding simple_lexeme_def by (drule map_of_SomeD) auto

lemma simple_chars: "\<forall>x \<in> set ''$#@()*-+%[]=:,''. \<not> is_letter x \<and> \<not> is_digit x \<and> x \<noteq> newline \<and> x \<noteq> nul \<and> x \<noteq> CHR ''/''"
  by (simp add: newline_def nul_def is_letter_def is_digit_def char_range_def)

lemma simple_lexeme_None:
  "is_letter x \<Longrightarrow> simple_lexeme x = None" "is_digit x \<Longrightarrow> simple_lexeme x = None"
  "simple_lexeme newline = None" "simple_lexeme (CHR ''/'') = None"
  using simple_lexeme_dom [THEN bspec [OF simple_chars]] by (metis option.exhaust)+

lemma character_classes:
  "\<not> is_letter newline" "\<not> is_digit newline" "\<not> is_alnum newline" "\<not> is_hex newline"
  "\<not> is_letter (CHR ''/'')" "\<not> is_digit (CHR ''/'')" "newline \<noteq> CHR ''/''"
  by (simp_all add: newline_def is_letter_def is_digit_def is_alnum_def is_hex_def char_range_def)

lemma is_letter_not_digit: "is_letter x \<Longrightarrow> \<not> is_digit x"
  by (auto simp: is_letter_def is_digit_def char_range_def)

text \<open>What is left of the text, and what the lexer made of the text before it.\<close>

definition rest_of :: "char option list \<Rightarrow> nat \<Rightarrow> string \<Rightarrow> bool" where
  "rest_of code p cs \<longleftrightarrow> reads code p (cs @ [nul]) \<and> nul \<notin> set cs \<and> (cs = [] \<or> last cs = newline)"

lemma rest_of_append: "rest_of code p (w @ cs) \<Longrightarrow> rest_of code (p + length w) cs"
  by (cases "cs = []") (auto simp: rest_of_def reads_append)

lemma rest_of_Cons: "rest_of code p (x # cs) \<Longrightarrow> ld code p = Some x \<and> x \<noteq> nul \<and> rest_of code (Suc p) cs"
  using rest_of_append [of code p "[x]" cs] by (auto simp: rest_of_def reads_Cons)

definition lexed :: "lexeme_list \<Rightarrow> lexeme list \<Rightarrow> string \<Rightarrow> (position \<times> token) list \<Rightarrow> bool \<Rightarrow> nat \<Rightarrow> bool" where
  "lexed L ls bs ts fresh n \<longleftrightarrow> list_rep L ls bs \<and> list_all2 (describes bs) ls ts \<and>
     (fresh \<longleftrightarrow> ls \<noteq> [] \<and> l_type (last ls) \<noteq> LX_ANOTHA) \<and> length bs + 2 * n < 2 ^ 29 \<and> length ls + n < 2 ^ 29"

lemma lexed_mono: "lexed L ls bs ts fresh n \<Longrightarrow> m \<le> n \<Longrightarrow> lexed L ls bs ts fresh m"
  by (auto simp: lexed_def)

lemma lexed_push:
  assumes "lexed L ls bs ts fresh (Suc n)" "t \<noteq> LX_WORD" "t \<noteq> LX_NUM" "lx_lookup_symbols t = s"
  shows "\<exists>L'. ll_push \<lparr>l_type = t, l_line = l, l_col = c, l_index = 0\<rparr> L = Some L' \<and>
    lexed L' (ls @ [\<lparr>l_type = t, l_line = l, l_col = c, l_index = 0\<rparr>]) bs (ts @ [((l, c), Sym t s)]) (t \<noteq> LX_ANOTHA) n"
proof -
  have "list_rep L ls bs" "length ls < 2 ^ 29" using assms(1) by (simp_all add: lexed_def)
  then obtain L' where "ll_push \<lparr>l_type = t, l_line = l, l_col = c, l_index = 0\<rparr> L = Some L'"
    "list_rep L' (ls @ [\<lparr>l_type = t, l_line = l, l_col = c, l_index = 0\<rparr>]) bs" by (rule ll_push_rep)
  then show ?thesis using assms by (auto simp: lexed_def list_all2_appendI)
qed

lemma lexed_last:
  assumes "lexed L ls bs ts fresh n"
  shows "fresh_line L = Some fresh"
proof -
  have v: "vec_rep (lexemes L) ls" using assms by (simp add: lexed_def list_rep_def vec_fit_def)
  then have n: "unat (vec_len (lexemes L)) = length ls" by (simp add: vec_rep_def)
  show ?thesis
  proof (cases "ls = []")
    case True
    then show ?thesis using assms n by (simp add: fresh_line_def lexed_def unat_eq_0)
  next
    case False
    then have "0 < vec_len (lexemes L)" using n by (simp add: word_less_nat_alt)
    moreover from this have "unat (vec_len (lexemes L) - 1) = length ls - 1" using n by (simp add: unat_minus_one word_neq_0_conv)
    moreover have "vec_get (lexemes L) (vec_len (lexemes L) - 1) = Some (last ls)"
      using False calculation vec_get_rep [OF v] by (simp add: last_conv_nth)
    ultimately show ?thesis using assms False by (simp add: fresh_line_def lexed_def)
  qed
qed

lemma outcome_lexeme:
  assumes "t = LX_WORD \<or> t = LX_NUM" "q \<noteq> NORMAL" "q \<noteq> COMMENT" "\<not> collects q newline" "h \<noteq> []" "ys \<noteq> []"
    and here: "rest_of code p (h @ ys)" and L: "lexed L ls bs ts0 fresh (length h + length ys)"
    and step: "\<And>L1. ll_push \<lparr>l_type = t, l_line = l, l_col = c, l_index = vec_len (strbuff L)\<rparr> L = Some L1 \<Longrightarrow>
      list_rep L1 (ls @ [\<lparr>l_type = t, l_line = l, l_col = c, l_index = vec_len (strbuff L)\<rparr>]) bs \<Longrightarrow>
      \<exists>L'. lex_loop code (lexer_at p l c NORMAL L) = lex_loop code (lexer_at (p + length h) l (c + word_of_nat (length h)) q L') \<and>
        list_rep L' (ls @ [\<lparr>l_type = t, l_line = l, l_col = c, l_index = vec_len (strbuff L)\<rparr>]) (bs @ h)"
    and IH: "\<And>p c L ls bs ts zs. length zs < length h + length ys \<Longrightarrow> rest_of code p zs \<Longrightarrow> lexed L ls bs ts True (length zs) \<Longrightarrow>
      outcome code (lexer_at p l c NORMAL L) ts (tokens l c True zs)"
  shows "outcome code (lexer_at p l c NORMAL L) ts0 (cons_token (l, c) (Txt t (h @ takeWhile (collects q) ys))
    (tokens l (c + word_of_nat (length h) + word_of_nat (length (takeWhile (collects q) ys))) True (dropWhile (collects q) ys)))"
proof -
  have ys: "last ys = newline" "nul \<notin> set ys" "nul \<notin> set h" using here assms(6) by (auto simp: rest_of_def)
  obtain d zs where d: "dropWhile (collects q) ys = d # zs" "\<not> collects q d" "ys = takeWhile (collects q) ys @ d # zs"
    "length (takeWhile (collects q) ys) + length (dropWhile (collects q) ys) = length ys"
    using assms(6) ys(1) assms(4) by (rule split_dropWhile [where P = "collects q"])
  have "d \<in> set ys" by (subst d(3)) simp
  then have "d \<noteq> nul" using ys(2) by auto
  have here': "rest_of code p ((h @ takeWhile (collects q) ys) @ d # zs)" using here d(3) by simp
  then have r: "reads code p (h @ takeWhile (collects q) ys @ d # zs @ [nul])" by (simp add: rest_of_def)
  have rep: "list_rep L ls bs" "list_all2 (describes bs) ls ts0" "length ls < 2 ^ 29"
    "length bs + length h + length (takeWhile (collects q) ys) < 2 ^ 29"
    using L d(4) by (simp_all add: lexed_def)
  let ?x = "\<lparr>l_type = t, l_line = l, l_col = c, l_index = vec_len (strbuff L)\<rparr>"
  have h: "0 < length h" using assms(5) by simp
  have bound: "length bs + 2 * (length h + length ys) < 2 ^ 29" "length ls + (length h + length ys) < 2 ^ 29"
    using L by (simp_all add: lexed_def)
  show ?thesis
  proof (rule outcome_text [OF assms(1-3) step r takeWhile_all d(2) \<open>d \<noteq> nul\<close> ys(3) assms(5) rep])
    fix L' bs'
    assume L': "list_rep L' (ls @ [?x]) bs'"
      "list_all2 (describes bs') (ls @ [?x]) (ts0 @ [((l, c), Txt t (h @ takeWhile (collects q) ys))])"
      "length bs' = length bs + length h + length (takeWhile (collects q) ys) + 1"
    have n1: "length bs' + 2 * length (dropWhile (collects q) ys) \<le> length bs + 2 * (length h + length ys)"
      using L'(3) d(4) h by (simp add: add_mult_distrib2 Suc_le_eq [symmetric] del: length_greater_0_conv)
    have n2: "Suc (length ls + length (dropWhile (collects q) ys)) \<le> length ls + (length h + length ys)"
      using d(4) h by linarith
    note n = le_less_trans [OF n1 bound(1)] le_less_trans [OF n2 bound(2)]
    have "lexed L' (ls @ [?x]) bs' (ts0 @ [((l, c), Txt t (h @ takeWhile (collects q) ys))]) True (length (dropWhile (collects q) ys))"
      unfolding lexed_def using L'(1,2) n assms(1) by auto
    moreover have "rest_of code (p + length h + length (takeWhile (collects q) ys)) (dropWhile (collects q) ys)"
      using rest_of_append [OF here'] d(1) by (simp add: add.assoc)
    moreover have "length (dropWhile (collects q) ys) < length h + length ys" using d(4) h by linarith
    ultimately show "outcome code
        (lexer_at (p + length h + length (takeWhile (collects q) ys)) l
          (c + word_of_nat (length h) + word_of_nat (length (takeWhile (collects q) ys))) NORMAL L')
        (ts0 @ [((l, c), Txt t (h @ takeWhile (collects q) ys))])
        (tokens l (c + word_of_nat (length h) + word_of_nat (length (takeWhile (collects q) ys))) True (dropWhile (collects q) ys))"
      by (intro IH)
  qed
qed

lemma outcome_tokens:
  assumes "rest_of code p cs" "lexed L ls bs ts fresh (length cs)"
  shows "outcome code (lexer_at p l c NORMAL L) ts (tokens l c fresh cs)"
  using assms
proof (induction "length cs" arbitrary: p l c cs L ls bs ts fresh rule: less_induct)
  case less
  note IH = less.hyps and prems = less.prems
  show ?case
  proof (cases cs)
    case Nil
    then show ?thesis
      using prems by (subst outcome_def, subst lex_loop.simps) (auto simp: rest_of_def reads_Cons lexed_def)
  next
    case (Cons x xs)
    let ?s = "lexer_at p l c NORMAL L"
    have x: "ld code (lx_pos ?s) = Some x" "x \<noteq> nul" "rest_of code (Suc p) xs"
      using rest_of_Cons [of code p x xs] prems(1) by (simp_all add: Cons)
    have L: "lexed L ls bs ts fresh (Suc (length xs))" using prems(2) by (simp add: Cons)
    have rest: "xs \<noteq> [] \<and> last xs = newline" if "x \<noteq> newline"
      using prems(1) that by (simp add: Cons rest_of_def split: if_splits)
    note step = lex_loop_step [OF x(1,2)] and stop = lex_loop_stop [OF x(1,2)]
    note IH' = IH [of xs, OF _ x(3)]
    consider t where "simple_lexeme x = Some t" | "x = newline" | "x = CHR ''/''" | "is_letter x" | "is_digit x"
      | "simple_lexeme x = None" "x \<noteq> newline" "x \<noteq> CHR ''/''" "\<not> is_letter x" "\<not> is_digit x" by fastforce
    then show ?thesis
    proof cases
      case 1
      from simple_lexeme_facts [OF 1] lexed_push [OF L, of t "[x]" l c] obtain L' where
        L': "ll_push \<lparr>l_type = t, l_line = l, l_col = c, l_index = 0\<rparr> L = Some L'"
          "lexed L' (ls @ [\<lparr>l_type = t, l_line = l, l_col = c, l_index = 0\<rparr>]) bs (ts @ [((l, c), Sym t [x])]) True (length xs)" by auto
      have "lex_loop code ?s = lex_loop code (lexer_at (Suc p) l (c + 1) NORMAL L')"
        by (rule step) (simp add: lex_step_def lex_normal_def push_simple_def advance_def 1 L'(1))
      from outcome_push [OF this IH' [OF _ L'(2)]] show ?thesis by (simp add: Cons 1)
    next
      case 2
      have xs: "length xs < length cs" by (simp add: Cons)
      show ?thesis
      proof (cases fresh)
        case True
        from lx_symbol_newline lexed_push [OF L, of LX_ANOTHA "[CHR 0x5C, CHR ''n'']" l c] obtain L' where
          L': "ll_push \<lparr>l_type = LX_ANOTHA, l_line = l, l_col = c, l_index = 0\<rparr> L = Some L'"
            "lexed L' (ls @ [\<lparr>l_type = LX_ANOTHA, l_line = l, l_col = c, l_index = 0\<rparr>]) bs (ts @ [((l, c), Sym LX_ANOTHA [CHR 0x5C, CHR ''n''])]) False (length xs)" by auto
        have "lex_loop code ?s = lex_loop code (lexer_at (Suc p) (l + 1) 1 NORMAL L')"
          by (rule step) (simp add: lex_step_def lex_normal_def simple_lexeme_None lexed_last [OF L] True push_simple_def advance_def 2 L'(1))
        from outcome_push [OF this IH' [OF xs L'(2)]] show ?thesis by (simp add: Cons 2 True simple_lexeme_None)
      next
        case False
        have "lex_loop code ?s = lex_loop code (lexer_at (Suc p) (l + 1) 1 NORMAL L)"
          by (rule step) (simp add: lex_step_def lex_normal_def simple_lexeme_None lexed_last [OF L] False advance_def 2)
        moreover have "lexed L ls bs ts False (length xs)" using lexed_mono [OF L] False by simp
        ultimately show ?thesis using IH' [OF xs, of L ls bs ts False] by (simp add: outcome_step [of code ?s] Cons 2 False simple_lexeme_None)
      qed
    next
      case 3
      then obtain y ys where y: "xs = y # ys" "last (y # ys) = newline" using rest character_classes(7) by (cases xs) auto
      have ld: "ld code (Suc p) = Some y" "rest_of code (Suc (Suc p)) ys" using rest_of_Cons [of code "Suc p" y ys] x(3) by (simp_all add: y)
      show ?thesis
      proof (cases "y = CHR ''/''")
        case False
        have "lex_loop code ?s = Some (Inl (Wrong_Comment l c))"
          by (rule stop) (simp add: lex_step_def lex_normal_def simple_lexeme_None 3 ld(1) False character_classes(7) [symmetric])
        then show ?thesis using False character_classes(7) by (simp add: Cons y 3 simple_lexeme_None outcome_def)
      next
        case True
        let ?w = "takeWhile (\<lambda>d. d \<noteq> newline) ys"
        have ys: "ys \<noteq> []" "last ys = newline" using y(2) True character_classes(7) by (auto split: if_splits)
        obtain d zs where d: "dropWhile (\<lambda>d. d \<noteq> newline) ys = d # zs" "d = newline" "ys = ?w @ d # zs"
          by (rule split_dropWhile [OF ys, of "\<lambda>d. d \<noteq> newline"]) (use that in \<open>simp_all only: not_not simp_thms\<close>)
        have "lex_loop code ?s = lex_loop code (lexer_at (Suc (Suc p)) l (c + 2) COMMENT L)"
          by (rule step) (simp add: lex_step_def lex_normal_def simple_lexeme_None 3 ld(1) True advance_def character_classes(7) [symmetric])
        moreover have "lex_loop code (lexer_at (Suc (Suc p)) l (c + 2) COMMENT L) =
            lex_loop code (lexer_at (Suc (Suc p) + length ?w) l (c + 2 + word_of_nat (length ?w)) NORMAL L)"
        proof (rule comment_loop)
          have "reads code (Suc (Suc p)) ((?w @ newline # zs) @ [nul])" using ld(2) d(2,3) by (simp add: rest_of_def)
          then show "reads code (Suc (Suc p)) (?w @ newline # (zs @ [nul]))" by simp
          have "nul \<notin> set ys" using ld(2) by (simp add: rest_of_def)
          then show "\<forall>x\<in>set ?w. x \<noteq> newline \<and> x \<noteq> nul" by (auto dest: set_takeWhileD)
        qed simp
        ultimately have *: "lex_loop code ?s = lex_loop code (lexer_at (Suc (Suc p) + length ?w) l (c + 2 + word_of_nat (length ?w)) NORMAL L)" by simp
        have "rest_of code (Suc (Suc p) + length ?w) (dropWhile (\<lambda>d. d \<noteq> newline) ys)"
          using rest_of_append [of code "Suc (Suc p)" ?w "d # zs"] ld(2) d by simp
        moreover have "length (dropWhile (\<lambda>d. d \<noteq> newline) ys) \<le> length ys" by (rule length_dropWhile_le)
        moreover from this have "lexed L ls bs ts fresh (length (dropWhile (\<lambda>d. d \<noteq> newline) ys))"
          by (intro lexed_mono [OF L]) (simp add: y)
        ultimately have "outcome code (lexer_at (Suc (Suc p) + length ?w) l (c + 2 + word_of_nat (length ?w)) NORMAL L) ts
            (tokens l (c + 2 + word_of_nat (length ?w)) fresh (dropWhile (\<lambda>d. d \<noteq> newline) ys))"
          by (intro IH) (simp_all add: Cons y)
        then show ?thesis using character_classes(7)
          by (simp add: outcome_step [OF *] Cons y 3 True simple_lexeme_None Let_def)
      qed
    next
      case 4
      then have n: "x \<noteq> newline" "x \<noteq> CHR ''/''" "simple_lexeme x = None"
        using character_classes simple_lexeme_None by auto
      let ?y = "\<lparr>l_type = LX_WORD, l_line = l, l_col = c, l_index = vec_len (strbuff L)\<rparr>"
      have "outcome code ?s ts (cons_token (l, c) (Txt LX_WORD ([x] @ takeWhile (collects WORD) xs))
          (tokens l (c + word_of_nat (length [x]) + word_of_nat (length (takeWhile (collects WORD) xs))) True (dropWhile (collects WORD) xs)))"
      proof (rule outcome_lexeme)
        show "rest_of code p ([x] @ xs)" "lexed L ls bs ts fresh (length [x] + length xs)" using prems(1) L by (simp_all add: Cons)
        fix L1
        assume L1: "ll_push ?y L = Some L1" "list_rep L1 (ls @ [?y]) bs"
        from sb_push_rep [OF L1(2), of x] L obtain L' where L': "sb_push x L1 = Some L'" "list_rep L' (ls @ [?y]) (bs @ [x])"
          by (auto simp: lexed_def)
        have "lex_loop code ?s = lex_loop code (lexer_at (p + length [x]) l (c + word_of_nat (length [x])) WORD L')"
          by (rule step) (simp add: lex_step_def lex_normal_def n 4 push_text_def push_char_def advance_def L1(1) L'(1))
        with L'(2) show "\<exists>L'. lex_loop code ?s = lex_loop code (lexer_at (p + length [x]) l (c + word_of_nat (length [x])) WORD L') \<and>
            list_rep L' (ls @ [?y]) (bs @ [x])" by blast
      qed (use rest [OF n(1)] character_classes in \<open>auto simp: collects_def Cons intro: IH\<close>)
      then show ?thesis by (simp add: Cons n 4 collects_def Let_def)
    next
      case 5
      then have n: "x \<noteq> newline" "x \<noteq> CHR ''/''" "simple_lexeme x = None" "\<not> is_letter x"
        using character_classes simple_lexeme_None is_letter_not_digit by auto
      let ?y = "\<lparr>l_type = LX_NUM, l_line = l, l_col = c, l_index = vec_len (strbuff L)\<rparr>"
      obtain y ys where y: "xs = y # ys" "last (y # ys) = newline" using rest [OF n(1)] by (cases xs) auto
      have ld: "ld code (Suc p) = Some y" using rest_of_Cons [of code "Suc p" y ys] x(3) by (simp add: y)
      show ?thesis
      proof (cases "y = CHR ''x''")
        case False
        have "outcome code ?s ts (cons_token (l, c) (Txt LX_NUM ([x] @ takeWhile (collects NUMBER) xs))
            (tokens l (c + word_of_nat (length [x]) + word_of_nat (length (takeWhile (collects NUMBER) xs))) True (dropWhile (collects NUMBER) xs)))"
        proof (rule outcome_lexeme)
          show "rest_of code p ([x] @ xs)" "lexed L ls bs ts fresh (length [x] + length xs)" using prems(1) L by (simp_all add: Cons)
          fix L1
          assume L1: "ll_push ?y L = Some L1" "list_rep L1 (ls @ [?y]) bs"
          from sb_push_rep [OF L1(2), of x] L obtain L' where L': "sb_push x L1 = Some L'" "list_rep L' (ls @ [?y]) (bs @ [x])"
            by (auto simp: lexed_def)
          have "lex_loop code ?s = lex_loop code (lexer_at (p + length [x]) l (c + word_of_nat (length [x])) NUMBER L')"
            by (rule step) (simp add: lex_step_def lex_normal_def n 5 push_text_def push_char_def advance_def L1(1) L'(1) ld False)
          with L'(2) show "\<exists>L'. lex_loop code ?s = lex_loop code (lexer_at (p + length [x]) l (c + word_of_nat (length [x])) NUMBER L') \<and>
              list_rep L' (ls @ [?y]) (bs @ [x])" by blast
        qed (use rest [OF n(1)] character_classes in \<open>auto simp: collects_def Cons intro: IH\<close>)
        then show ?thesis using False by (simp add: Cons n 5 collects_def Let_def y del: takeWhile.simps dropWhile.simps)
      next
        case True
        then have ys: "ys \<noteq> []" using y(2) by (auto simp: newline_def)
        have "outcome code ?s ts (cons_token (l, c) (Txt LX_NUM ([x, y] @ takeWhile (collects NUMBER_HEX) ys))
            (tokens l (c + word_of_nat (length [x, y]) + word_of_nat (length (takeWhile (collects NUMBER_HEX) ys))) True (dropWhile (collects NUMBER_HEX) ys)))"
        proof (rule outcome_lexeme)
          show "rest_of code p ([x, y] @ ys)" "lexed L ls bs ts fresh (length [x, y] + length ys)" using prems(1) L by (simp_all add: Cons y)
          fix L1
          assume L1: "ll_push ?y L = Some L1" "list_rep L1 (ls @ [?y]) bs"
          from sb_push_rep [OF L1(2), of x] L obtain L2 where L2: "sb_push x L1 = Some L2" "list_rep L2 (ls @ [?y]) (bs @ [x])"
            by (auto simp: lexed_def)
          from sb_push_rep [OF L2(2), of y] L obtain L' where L': "sb_push y L2 = Some L'" "list_rep L' (ls @ [?y]) (bs @ [x, y])"
            by (auto simp: lexed_def y)
          have "lex_loop code ?s = lex_loop code (lexer_at (p + length [x, y]) l (c + word_of_nat (length [x, y])) NUMBER_HEX L')"
            by (rule step) (simp add: lex_step_def lex_normal_def n 5 push_text_def push_char_def advance_def L1(1) L2(1) L'(1) [unfolded True] ld True)
          with L'(2) show "\<exists>L'. lex_loop code ?s = lex_loop code (lexer_at (p + length [x, y]) l (c + word_of_nat (length [x, y])) NUMBER_HEX L') \<and>
              list_rep L' (ls @ [?y]) (bs @ [x, y])" by blast
        qed (use ys character_classes in \<open>auto simp: collects_def Cons y intro: IH\<close>)
        then show ?thesis by (simp add: Cons n 5 collects_def Let_def y True)
      qed
    next
      case 6
      show ?thesis
      proof (cases "x = CHR '' '' \<or> x = tab")
        case True
        have "lex_loop code ?s = lex_loop code (lexer_at (Suc p) l (c + 1) NORMAL L)"
          by (rule step) (use True in \<open>simp add: lex_step_def lex_normal_def 6 advance_def\<close>)
        moreover have "lexed L ls bs ts fresh (length xs)" using lexed_mono [OF L] by simp
        ultimately show ?thesis using IH' [of L ls bs ts fresh] True 6 by (simp add: outcome_step [of code ?s] Cons)
      next
        case False
        have "lex_loop code ?s = Some (Inl (Unexpected_Char x l c))"
          by (rule stop) (use False in \<open>simp add: lex_step_def lex_normal_def 6\<close>)
        then show ?thesis using False by (simp add: Cons 6 outcome_def)
      qed
    qed
  qed
qed

lemma c_string_reads: "vec_rep v bs \<Longrightarrow> drop i bs = w @ nul # zs \<Longrightarrow> nul \<notin> set w \<Longrightarrow> c_string (vec_data v) i = Some w"
proof (induction w arbitrary: i)
  case Nil
  then have "i < length bs" "bs ! i = nul" by (auto simp: nth_via_drop intro: ccontr)
  then have "ld (vec_data v) i = Some nul" using vec_rep_nth [OF Nil(1)] vec_repD [OF Nil(1)] by (simp add: ld_def)
  then show ?case by (subst c_string.simps) simp
next
  case (Cons c w)
  then have i: "i < length bs" "bs ! i = c" by (auto simp: nth_via_drop intro: ccontr)
  then have "ld (vec_data v) i = Some c" using vec_rep_nth [OF Cons(2)] vec_repD [OF Cons(2)] by (simp add: ld_def)
  moreover have "drop (i + 1) bs = w @ nul # zs" using Cons(3) i by (simp add: Cons_nth_drop_Suc [symmetric])
  ultimately show ?case using Cons.IH [OF Cons(2), of "i + 1"] Cons(4) by (subst c_string.simps) auto
qed

lemma lexeme_is_describes: "describes bs x t \<Longrightarrow> vec_rep sb bs \<Longrightarrow> lexeme_is sb x t"
  by (induction bs x t rule: describes.induct)
    (auto simp: lexeme_is_def lx_lookupSymbol_def intro: c_string_reads)

text \<open>
  C40: For a source text without NUL characters that is empty or ends with a newline and is shorter than 2^28 characters, the
  lexer of sandy-asm ends with the error the reference tokenizer reports, or with one lexeme for each of its tokens, in
  their order, with type, line and column, whose text \<open>lx_lookupSymbol\<close> gives back.
\<close>

theorem lex_code_tokens:
  assumes "nul \<notin> set cs" "cs = [] \<or> last cs = newline" "length cs < 2 ^ 28"
  shows "case tokens 1 1 False cs of
      Inl e \<Rightarrow> lex_code (map Some (cs @ [nul])) = Some (Inl e)
    | Inr ts \<Rightarrow> \<exists>l xs. lex_code (map Some (cs @ [nul])) = Some (Inr l) \<and> vec_rep (lexemes l) xs \<and> list_all2 (lexeme_is (strbuff l)) xs ts"
proof -
  have "rest_of (map Some (cs @ [nul])) 0 cs" using assms by (simp add: rest_of_def reads_def)
  moreover have "lexed \<lparr>lexemes = ll_init, strbuff = sb_init\<rparr> [] [] [] False (length cs)"
    using list_rep_init assms(3) by (simp add: lexed_def)
  ultimately have "outcome (map Some (cs @ [nul])) (lexer_at 0 1 1 NORMAL \<lparr>lexemes = ll_init, strbuff = sb_init\<rparr>) [] (tokens 1 1 False cs)"
    by (rule outcome_tokens)
  note o = this [unfolded outcome_def]
  show ?thesis
  proof (cases "tokens 1 1 False cs")
    case (Inl e)
    then show ?thesis using o by (simp add: lex_code_def)
  next
    case (Inr ts)
    then obtain s ls bs where s: "lex_loop (map Some (cs @ [nul])) (lexer_at 0 1 1 NORMAL \<lparr>lexemes = ll_init, strbuff = sb_init\<rparr>) = Some (Inr s)"
      "vec_rep (lexemes (lx_list s)) ls" "vec_rep (strbuff (lx_list s)) bs" "list_all2 (describes bs) ls ts"
      using o by (auto simp: list_rep_def vec_fit_def)
    from s(4) have "list_all2 (lexeme_is (strbuff (lx_list s))) ls ts"
      by (rule list_all2_mono) (rule lexeme_is_describes [OF _ s(3)])
    with s(1,2) Inr show ?thesis by (auto simp: lex_code_def)
  qed
qed

theorem lex_code_tokens_witness:
  "\<exists>l xs. lex_code (map Some (''ab 0x5'' @ [newline, nul])) = Some (Inr l) \<and> vec_rep (lexemes l) xs \<and>
    list_all2 (lexeme_is (strbuff l)) xs
      [((1, 1), Txt LX_WORD ''ab''), ((1, 4), Txt LX_NUM ''0x5''), ((1, 7), Sym LX_ANOTHA [CHR 0x5C, CHR ''n''])]"
proof -
  have "tokens 1 1 False (''ab 0x5'' @ [newline]) =
      Inr [((1, 1), Txt LX_WORD ''ab''), ((1, 4), Txt LX_NUM ''0x5''), ((1, 7), Sym LX_ANOTHA [CHR 0x5C, CHR ''n''])]" by code_simp
  moreover have "nul \<notin> set (''ab 0x5'' @ [newline])" "last (''ab 0x5'' @ [newline]) = newline" by (simp_all add: nul_def newline_def)
  ultimately show ?thesis using lex_code_tokens [of "''ab 0x5'' @ [newline]"] by simp
qed

end
