(* ===== verification/Spec2Isabelle.thy ===== *)
theory Spec2Isabelle
  imports Protocol Ring_Buffer Sched_Resend Sched_Rand_Steps Sched_Linked_List Waker Spin_Lock Asm1_Search Asm2_Search Asm_X4 Server Sched_System Int_Sort Page_Allocator Sha256_X8 Sandy_Lexer
begin

text \<open>
  Verification development for the SHA-256 reversal server: a program that receives requests
  \<open>(hash, start, end, priority)\<close> over TCP and answers each with the number of the range
  \<open>start..end\<close> whose eight little-endian bytes have the SHA-256 digest \<open>hash\<close>.

  \<^bold>\<open>The program.\<close> A server thread (\<open>src/server\<close>) reads a request, brings it into machine byte order and its hash
  into normal form (\<open>src/protocol.c\<close>), and submits it to a scheduler with a recipient, the connection to
  answer (\<open>src/scheduler/scheduler.c\<close>). The configured scheduler (\<open>src/scheduler/sched_priority.c\<close>) keeps the jobs in
  a freelist and a heap of indices ordered by priority (\<open>src/bits\<close>). Worker threads copy the heap, take
  blocks of \<open>2 ^ 16\<close> numbers of the best job, and search a block by brute force
  (\<open>src/sha256/reverse.c\<close>, \<open>src/sha256/x4/reverse*\<close>) with a SHA-256 specialised to eight-byte messages
  (\<open>src/sha256/x1\<close>, \<open>src/sha256/x4\<close>). An answer is sent to the recipient and put into a cache
  (\<open>src/cache.c\<close>), which a later submission of the same hash consults.

  \<^bold>\<open>The theories.\<close>
  \<^item> \<open>Prelude\<close>: machine integers, checked array access, counted loops, byte order.
  \<^item> \<open>Sha256_Spec\<close>: the reference, SHA-256 after FIPS 180-4, and the schedule of the one block of an
    eight-byte message.
  \<^item> \<open>Sha256_X1\<close>: \<open>optim.c\<close>, \<open>fused.c\<close>, \<open>fullyfused.c\<close>, \<open>custom.c\<close> of \<open>src/sha256/x1\<close>; each equals the reference. The
    invariant of every interleaved loop is \<open>fused_ok\<close>: as many schedule entries as rounds.
  \<^item> \<open>Reverse\<close>: \<open>src/sha256/reverse.c\<close>. The locale \<open>block_search\<close> is the shape all three searches have; its
    interpretations give their results. \<open>least_preimage\<close> is the specification.
  \<^item> \<open>Simd\<close>, \<open>X4_Schedule\<close>, \<open>Sha256_X4\<close>: SSE registers as four 32-bit lanes, and the four hash functions of
    \<open>src/sha256/x4\<close> written with intrinsics. The locale \<open>entry_store\<close> is what a file's array of schedule
    entries has to satisfy; it is interpreted once for each file. \<open>Sha256_X4X2\<close>: the eight-lane functions of
    \<open>src/sha256/x4x2\<close>, in which a register is a pair of SSE registers, and \<open>Sha256_X8\<close> that of \<open>src/sha256/x8\<close>.
  \<^item> \<open>Reverse_X4\<close>: \<open>src/sha256/x4/reverse_fullyfused_x4.c\<close>, the search with the hash inlined and an early exit.
  \<^item> \<open>X86\<close>: the registers, memory objects and instructions that the inline assembly uses; \<open>X86_Lanes\<close> projects the
    machine onto one lane, so that a stretch of code is proved once, and \<open>Sha_Lanes\<close> names the values of SHA-256 that the
    registers hold. \<open>Asm2_Code\<close> is \<open>reverse_fullyfused_asm_x4_2.c\<close> (the configured search), \<open>Asm1_Code\<close>
    \<open>reverse_fullyfused_asm_x4.c\<close>, \<open>Hash_Asm_Code\<close> \<open>fullyfused_asm_x4.c\<close> (the configured four-lane hash) and \<open>Asm_X4_Code\<close>
    \<open>asm_x4.c\<close>, each instruction by instruction; the theories \<open>*_Loops\<close> and \<open>*_Rounds\<close> follow a lane through the
    rounds, \<open>Asm1_Search\<close>, \<open>Asm2_Search\<close>, \<open>Hash_Asm\<close> and \<open>Asm_X4\<close> put the blocks together. The locale \<open>four_lane_code\<close> of
    \<open>Asm_Search\<close> is the contract of one pass of a search; both searches interpret it.
  \<^item> \<open>Vec\<close>, \<open>Free_List\<close>, \<open>Priority_Heap\<close>, \<open>Ring_Buffer\<close>: the macros of \<open>src/bits\<close> on arrays with indeterminate
    cells. Each has a representation relation to an abstract value (a list, a map from indices, a
    multiset of nodes, a queue) and its contract as a locale (\<open>pool\<close>, \<open>max_queue\<close>, \<open>bounded_fifo\<close>).
  \<^item> \<open>Radix_Tree\<close>: \<open>src/bits/radix_tree.h\<close> and \<open>radix_tree.c\<close> on their freelists of edges, four kinds of branches and
    leaves. \<open>Radix_Nodes\<close>, \<open>Radix_Branch\<close>, \<open>Radix_Store\<close>, \<open>Radix_Keys\<close> see the pools as one map from pointers to
    abstract nodes and keys as sequences of four-bit pieces, \<open>Radix_Paths\<close> the nodes as a tree, \<open>Radix_Insert\<close> follows an
    insertion, and \<open>Radix_Map\<close> concludes that the tree refines the finite maps. \<open>Cache\<close>: \<open>src/cache.c\<close> on top of it.
  \<^item> \<open>Spin_Lock\<close>: \<open>src/bits/spin.c\<close> as a step relation over any number of threads, one atomic operation
    at a time. \<open>Page_Allocator\<close>: \<open>src/bits/page_allocator.c\<close> likewise. \<open>Int_Sort\<close>, \<open>Prng\<close>: \<open>sort.c\<close> and \<open>prng.c\<close>.
  \<^item> \<open>Protocol\<close>: \<open>src/protocol.c\<close> against the bytes on the wire. \<open>Server\<close>: \<open>src/server/epoll.c\<close>, connections and
    the requests that arrive on them, in pieces of any size.
  \<^item> \<open>Scheduler_Base\<close>, \<open>Sched_Priority\<close>: recipients, and the operations of the priority scheduler on a state
    \<open>scheduler\<close> (freelist, read and write heap, last id) and the locals \<open>worker\<close> of a worker thread. The
    invariants are \<open>sched_inv\<close> (the freelist represents a map of jobs, the read heap has one node for each),
    \<open>ids_ok\<close> and \<open>worker_inv\<close>. \<open>Sched_Submit\<close> adds the cache and the connections, \<open>Sched_Resend\<close> the block that is
    searched once more.
  \<^item> \<open>Sched_Steps\<close>: the same code as threads, one shared access or locked section at a time, with the submitter and
    any number of workers interleaved (\<open>system_step\<close>). The unlocked assignment of a new job to a cell has a beginning and an
    end, and a worker that accesses the cell in between has no step. \<open>Sched_Cells\<close>, \<open>Sched_Workers\<close> and \<open>Sched_System\<close> carry the
    invariant \<open>system_ok\<close> through every interleaving.
  \<^item> \<open>Sched_Rand\<close>, \<open>Sched_Rand_Steps\<close>: the random scheduler, alone and with its workers. \<open>Sched_Linked_List\<close>: the
    linked-list scheduler on a heap of nodes. \<open>Waker\<close>: waiting and waking of workers as a step relation.
  \<^item> \<open>Sandy_Lexer\<close>: the lexer of the assembler preprocessor (\<open>tools/sandy-asm/src/lexer.c\<close>, \<open>lexer_str.c\<close>), a state machine
    over characters, against a tokenizer that reads token by token.

  \<^bold>\<open>Conventions.\<close> A C function that would read or write outside an array, use freed memory, or not return has
  no value: its model is \<open>None\<close>. A theorem \<open>f x = Some y\<close> so includes memory safety and termination. No
  model has fuel: loops that may not end are \<open>partial_function (option)\<close> or \<open>while_option\<close>, all others are total.
  Uninitialised stack arrays are arguments (\<open>w\<close>, \<open>junk\<close>), and the theorems hold for any contents. Integers have their C
  width and wrap. Allocation does not fail, as in the code, which does not check it. The random numbers of the
  random scheduler, the results of system calls and the search function of the threads are arguments.

  \<^bold>\<open>The machine.\<close> A run of inline assembly starts at the \<open>asm\<close> statement with the arguments in the registers of the
  calling convention; what the compiler emits around the statement is not modelled. A register holds a number or a pointer
  into an object (the frame, the saved registers, a table, the input, the output), so that an access outside its object,
  a misaligned vector access and arithmetic between objects have no result. The frame starts at a multiple of 64, as the
  code makes it, or of sixteen where the code relies on the caller. For the searches the result is the register
  \<open>RAX\<close>, with the stack pointer and the saved registers restored.

  \<^bold>\<open>Bounds.\<close> The theorems on all interleavings hold for a capacity and a number of submissions whose sum is below
  \<open>2 ^ 27\<close>, and for up to \<open>2 ^ 62\<close> steps, so that no 32-bit index and no 64-bit counter wraps; the lock for fewer than
  \<open>2 ^ 31\<close> threads.

  \<^bold>\<open>What the theorems show.\<close> All hash functions modelled compute SHA-256, except that the eight-lane functions mix the
  halves of different messages, and the one of \<open>x8\<close> also the words of the digests; the searches return the least preimage of the range, with the exact range they search; the
  inlined search with the early exit is the plain search, and both searches in assembly are that search, also where it does
  not end. The containers implement their abstract types, growth included. The blocks of a job partition its range;
  scheduling takes the next block of a job of greatest priority and keeps the invariants, as do submission with its
  clean-up, and cancellation. In every interleaving in which no worker accesses a cell while it is written, no block is
  handed out twice but the last one, a worker searches the range that was handed out for the hash that belongs to it, and no
  thread reads an indeterminate cell. Answers reach
  the cache and later submissions of the same hash. The lock excludes.

  They also show where the code fails: a job is written to a reused cell without the lock, while a worker may access the cell; a
  job whose last number starts a block of its own counts as done before that block was taken; an answered job keeps its reference and is searched once more; a worker that took a block and has not
  yet registered with the job may answer another client when the job's cell is reused; a wake-up between the look at
  the job id and the wait is lost; a request that arrives in two pieces is discarded; workers of the random scheduler
  that start before the first request wait for ever; a submission to the linked-list scheduler cuts off open jobs; the
  page allocator hands out a page twice when it is freed and allocated between a read and the compare-exchange (the ABA
  problem); a lookup in the radix tree accepts a prefix; and a search up to \<open>UINT64_MAX\<close> need not end.

  \<^bold>\<open>Not modelled.\<close> The servers other than \<open>epoll.c\<close>,
  and the thread start-up of \<open>worker_pool.c\<close>, which are sequences of system calls; \<open>futex.c\<close>, a wrapper of the system
  call; configuration, debug printing and type names; benchmarks and experiments; the parser of the assembler preprocessor
  \<open>tools/sandy-asm\<close> and the Python client.
\<close>

end
